(* ===== verification/C_Prelude.thy ===== *)
theory C_Prelude
  imports "HOL-Library.Word"
begin

text \<open>
  Shared ground of the development: the machine types of the C sources, the
  memory operations they use on arrays (\<^verbatim>\<open>memcpy\<close>, byte views of word arrays,
  both byte orders), a combinator for straight-line code, and the generic
  lemmas on lists and words that the component theories lean on.
  A C array is a list; an access outside its bounds is never given a value
  here: every operation that could leave its array says so in its result
  type or in the side condition of its lemmas.
  The target is little-endian with 32-bit \<open>unsigned int\<close> and \<open>int\<close>
  (the \<^verbatim>\<open>#else\<close> branches of the \<^verbatim>\<open>ARCH_BIG_ENDIAN\<close> conditionals).
\<close>

unbundle bit_operations_syntax

named_theorems c_len "lengths of the arrays an operation returns"
named_theorems c_word "word arithmetic moved to natural numbers"

type_synonym u8 = "8 word"
type_synonym u16 = "16 word"
type_synonym u32 = "32 word"
type_synonym u64 = "64 word"

section \<open>Straight-line code\<close>

definition c_seq :: "('s \<Rightarrow> 's) list \<Rightarrow> 's \<Rightarrow> 's" where
  "c_seq fs s = foldl (\<lambda>s f. f s) s fs"

lemma c_seq_Nil [simp]: "c_seq [] s = s"
  by (simp add: c_seq_def)

lemma c_seq_Cons [simp]: "c_seq (f # fs) s = c_seq fs (f s)"
  by (simp add: c_seq_def)

lemma c_seq_append: "c_seq (fs @ gs) s = c_seq gs (c_seq fs s)"
  by (simp add: c_seq_def)

text \<open>An invariant of every statement is an invariant of the sequence.\<close>

lemma c_seq_invariant:
  assumes "P s" and "\<And>f s. f \<in> set fs \<Longrightarrow> P s \<Longrightarrow> P (f s)"
  shows "P (c_seq fs s)"
  using assms by (induction fs arbitrary: s) auto

section \<open>Arrays: copying, slices, blocks\<close>

text \<open>\<open>blit buf off src\<close> is \<^verbatim>\<open>memcpy (buf + off, src, length src)\<close>.\<close>

definition blit :: "'a list \<Rightarrow> nat \<Rightarrow> 'a list \<Rightarrow> 'a list" where
  "blit buf off src = take off buf @ src @ drop (off + length src) buf"

definition slice :: "'a list \<Rightarrow> nat \<Rightarrow> nat \<Rightarrow> 'a list" where
  "slice xs i n = take n (drop i xs)"

lemma length_blit [c_len]:
  "off + length src \<le> length buf \<Longrightarrow> length (blit buf off src) = length buf"
  by (simp add: blit_def)

lemma length_slice [c_len]: "i + n \<le> length xs \<Longrightarrow> length (slice xs i n) = n"
  by (simp add: slice_def)

lemma slice_0 [simp]: "slice xs 0 n = take n xs"
  by (simp add: slice_def)

lemma blit_full: "off + length src = length buf \<Longrightarrow> blit buf off src = take off buf @ src"
  by (simp add: blit_def)

lemma take_blit: "off \<le> length buf \<Longrightarrow> n = off + length src \<Longrightarrow> take n (blit buf off src) = take off buf @ src"
  by (simp add: blit_def)

text \<open>The full \<open>n\<close>-byte blocks at the front of a message.\<close>

function chunks :: "nat \<Rightarrow> 'a list \<Rightarrow> 'a list list" where
  "chunks n xs = (if n = 0 \<or> length xs < n then [] else take n xs # chunks n (drop n xs))"
  by pat_completeness auto
termination
  by (relation "measure (\<lambda>(n, xs). length xs)") auto

declare chunks.simps [simp del]

lemma chunks_short [simp]: "length xs < n \<Longrightarrow> chunks n xs = []"
  by (subst chunks.simps) simp

lemma chunks_step: "0 < n \<Longrightarrow> n \<le> length xs \<Longrightarrow> chunks n xs = take n xs # chunks n (drop n xs)"
  by (subst chunks.simps) simp

lemma chunks_append:
  "0 < n \<Longrightarrow> n dvd length xs \<Longrightarrow> chunks n (xs @ ys) = chunks n xs @ chunks n ys"
proof (induction n xs rule: chunks.induct)
  case (1 n xs)
  show ?case
  proof (cases "length xs < n")
    case True
    with "1.prems" have "xs = []"
      by (auto dest: dvd_imp_le)
    with "1.prems" show ?thesis by simp
  next
    case False
    then have le: "n \<le> length xs" by simp
    with "1.prems" have "n dvd length (drop n xs)"
      by (simp add: dvd_diff_nat)
    with "1.IH" "1.prems" False
    have "chunks n (drop n xs @ ys) = chunks n (drop n xs) @ chunks n ys" by simp
    with le "1.prems" show ?thesis
      by (simp add: chunks_step [of n "xs @ ys"] chunks_step [of n xs])
  qed
qed

lemma chunks_single: "0 < n \<Longrightarrow> length xs = n \<Longrightarrow> chunks n xs = [xs]"
  by (simp add: chunks_step)

lemma length_in_chunks: "b \<in> set (chunks n xs) \<Longrightarrow> length b = n"
proof (induction n xs rule: chunks.induct)
  case (1 n xs)
  then show ?case
    by (cases "n = 0 \<or> length xs < n") (auto simp: chunks.simps [of n xs])
qed

text \<open>Splitting a message into its full blocks and the tail.\<close>

definition full_len :: "nat \<Rightarrow> 'a list \<Rightarrow> nat" where
  "full_len n xs = n * (length xs div n)"

lemma chunks_take_full: "0 < n \<Longrightarrow> chunks n (take (full_len n xs) xs) = chunks n xs"
proof -
  assume n: "0 < n"
  let ?k = "full_len n xs"
  have le: "?k \<le> length xs"
    by (simp add: full_len_def)
  have "chunks n (take ?k xs @ drop ?k xs) = chunks n (take ?k xs) @ chunks n (drop ?k xs)"
    using n le by (intro chunks_append) (simp_all add: full_len_def min_absorb2)
  moreover have "length (drop ?k xs) < n"
    using n by (simp add: full_len_def minus_mult_div_eq_mod)
  ultimately show ?thesis by simp
qed

text \<open>Evaluates a literal interval with numerals (used with \<open>One_nat_def\<close> off).\<close>

lemma upt_step: "i < j \<Longrightarrow> [i..<j] = i # [i + 1..<j]"
  by (simp add: upt_conv_Cons)

lemma upt_0_Suc: "[0..<Suc n] = 0 # map Suc [0..<n]"
  by (simp add: upt_conv_Cons map_Suc_upt del: upt_Suc)

section \<open>Bytes and words\<close>

definition le_bytes32 :: "u32 \<Rightarrow> u8 list" where
  "le_bytes32 w = [ucast w, ucast (drop_bit 8 w), ucast (drop_bit 16 w), ucast (drop_bit 24 w)]"

definition le_word32 :: "u8 \<Rightarrow> u8 \<Rightarrow> u8 \<Rightarrow> u8 \<Rightarrow> u32" where
  "le_word32 b0 b1 b2 b3 =
     ucast b0 OR push_bit 8 (ucast b1) OR push_bit 16 (ucast b2) OR push_bit 24 (ucast b3)"

text \<open>A byte array read as an array of words (a pointer cast), and back.\<close>

fun le_words :: "u8 list \<Rightarrow> u32 list" where
  "le_words (b0 # b1 # b2 # b3 # bs) = le_word32 b0 b1 b2 b3 # le_words bs"
| "le_words _ = []"

definition le_bytes :: "u32 list \<Rightarrow> u8 list" where
  "le_bytes ws = concat (map le_bytes32 ws)"

lemma length_le_bytes32 [simp]: "length (le_bytes32 w) = 4"
  by (simp add: le_bytes32_def)

lemma length_le_bytes [simp, c_len]: "length (le_bytes ws) = 4 * length ws"
  by (induction ws) (auto simp: le_bytes_def)

lemma le_bytes_Nil [simp]: "le_bytes [] = []"
  and le_bytes_Cons [simp]: "le_bytes (w # ws) = le_bytes32 w @ le_bytes ws"
  by (simp_all add: le_bytes_def)

lemma length_le_words [simp, c_len]: "length (le_words bs) = length bs div 4"
  by (induction bs rule: le_words.induct) auto

lemma le_word32_bytes: "le_word32 (ucast w) (ucast (drop_bit 8 w)) (ucast (drop_bit 16 w)) (ucast (drop_bit 24 w)) = w"
  unfolding le_word32_def
proof (rule bit_word_eqI)
  fix n assume "n < LENGTH(32)"
  then consider "n < 8" | "8 \<le> n" "n < 16" | "16 \<le> n" "n < 24" | "24 \<le> n" "n < 32"
    by fastforce
  then show "bit (ucast (ucast w :: u8) OR push_bit 8 (ucast (ucast (drop_bit 8 w) :: u8))
      OR push_bit 16 (ucast (ucast (drop_bit 16 w) :: u8))
      OR push_bit 24 (ucast (ucast (drop_bit 24 w) :: u8)) :: u32) n = bit w n"
    by cases (auto simp: bit_simps)
qed

lemma le_words_le_bytes [simp]: "le_words (le_bytes ws) = ws"
  by (induction ws) (simp_all add: le_bytes32_def le_word32_bytes)

lemma high_bit_u8 [simp]: "8 \<le> n \<Longrightarrow> \<not> bit (b :: u8) n"
  using bit_imp_le_length [of b n] by auto

lemma le_bytes32_word [simp]: "le_bytes32 (le_word32 b0 b1 b2 b3) = [b0, b1, b2, b3]"
  unfolding le_bytes32_def le_word32_def
  by (auto intro!: bit_word_eqI simp: bit_simps)

lemma ucast_and_255 [simp]: "ucast (w AND 0xff :: u32) = (ucast w :: u8)"
proof -
  have "w AND 0xff = take_bit 8 w"
    by (simp add: take_bit_eq_mask mask_eq_exp_minus_1)
  then show ?thesis by (simp only:) (auto intro!: bit_word_eqI simp: bit_simps)
qed

lemma dvd_Suc4: "4 dvd Suc (Suc (Suc (Suc n))) \<longleftrightarrow> 4 dvd n"
  by presburger

lemma le_bytes_le_words: "4 dvd length bs \<Longrightarrow> le_bytes (le_words bs) = bs"
proof (induction bs rule: le_words.induct)
  case (1 b0 b1 b2 b3 bs)
  then have "4 dvd length bs" by (simp add: dvd_Suc4)
  with 1 show ?case by simp
qed (auto dest: dvd_imp_le)

lemma le_words_append:
  "4 dvd length bs \<Longrightarrow> le_words (bs @ cs) = le_words bs @ le_words cs"
proof (induction bs rule: le_words.induct)
  case (1 b0 b1 b2 b3 bs)
  then have "4 dvd length bs" by (simp add: dvd_Suc4)
  with 1 show ?case by simp
qed (auto dest: dvd_imp_le)

lemma le_words_nth:
  "i < length bs div 4 \<Longrightarrow>
   le_words bs ! i = le_word32 (bs ! (4 * i)) (bs ! (4 * i + 1)) (bs ! (4 * i + 2)) (bs ! (4 * i + 3))"
proof (induction bs arbitrary: i rule: le_words.induct)
  case (1 b0 b1 b2 b3 bs)
  show ?case
  proof (cases i)
    case 0
    then show ?thesis by simp
  next
    case (Suc j)
    then have "4 * i = Suc (Suc (Suc (Suc (4 * j))))" by simp
    moreover have "j < length bs div 4" using "1.prems" Suc by simp
    ultimately show ?thesis
      using "1.IH" [of j] Suc by (simp only: le_words.simps nth_Cons_Suc add_Suc)
  qed
qed auto

section \<open>Machine arithmetic\<close>

definition ROTATE_LEFT :: "u32 \<Rightarrow> nat \<Rightarrow> u32" where
  "ROTATE_LEFT x n = push_bit n x OR drop_bit (32 - n) x"

lemma two32: "2 ^ 32 = (4294967296 :: nat)"
  by simp

lemma unat_u32_less: "unat (w :: u32) < 4294967296"
  using unsigned_less [of w] by simp

lemma unat_of_nat32 [c_word]: "unat (of_nat n :: u32) = n mod 2 ^ 32"
  by (simp add: unat_of_nat)

lemma unat_drop32 [c_word]: "unat (drop_bit n (x :: u32)) = unat x div 2 ^ n"
proof -
  have "take_bit 32 (unat x) = unat x"
    using unat_u32_less [of x] by (simp add: take_bit_nat_eq_self)
  then show ?thesis unfolding unsigned_drop_bit_eq by (simp add: drop_bit_eq_div)
qed

text \<open>The carry test of the C sources: after \<open>a += b\<close>, the sum is below \<open>b\<close> iff it wrapped.\<close>

lemma carry_iff:
  fixes a b :: u32
  shows "a + b < b \<longleftrightarrow> 2 ^ 32 \<le> unat a + unat b"
proof -
  have "unat a < 2 ^ 32" "unat b < 2 ^ 32"
    using unat_u32_less [of a] unat_u32_less [of b] by simp_all
  moreover have "unat (a + b) = (unat a + unat b) mod 2 ^ 32"
    by (simp add: unat_word_ariths)
  ultimately show ?thesis
    by (cases "unat a + unat b < 2 ^ 32")
      (auto simp: word_less_nat_alt mod_if le_mod_geq)
qed

section \<open>Loops over an array\<close>

lemma fold_index:
  assumes "n \<le> length xs"
  shows "fold (\<lambda>i s. g s (xs ! i)) [0..<n] s = foldl g s (take n xs)"
  using assms by (induction n arbitrary: s) (simp_all add: take_Suc_conv_app_nth)

end
