(* ===== verification/Stream_Hash.thy ===== *)
theory Stream_Hash
  imports C_Prelude
begin

text \<open>
  What the incremental digests of \<^verbatim>\<open>src/src/utils/lib\<close> (\<^verbatim>\<open>md4.c\<close>, \<^verbatim>\<open>md5_c.c\<close>,
  \<^verbatim>\<open>sha1_c.c\<close>) have in common. Each keeps a chaining state, a 64-byte buffer
  and a length counter, and offers begin / append / finish. The interface
  they promise their callers (\<^verbatim>\<open>stubs_c.c\<close>, \<^verbatim>\<open>commonHasher_c.c\<close>,
  \<^verbatim>\<open>fst_hash.c\<close>, \<^verbatim>\<open>fst_crypt.c\<close>) is the locale \<open>stream_hash\<close>: a context
  represents the bytes absorbed so far, appending extends them, finishing
  yields the digest of all of them. The first part of the theory holds the
  block arithmetic that the three interpretations share.
\<close>

section \<open>Padding and block iteration, as the digest standards state them\<close>

definition tail_of :: "nat \<Rightarrow> 'a list \<Rightarrow> 'a list" where
  "tail_of n xs = drop (full_len n xs) xs"

definition md_pad :: "(nat \<Rightarrow> u8 list) \<Rightarrow> u8 list \<Rightarrow> u8 list" where
  "md_pad lenenc m =
     m @ [0x80] @ replicate ((119 - length m mod 64) mod 64) 0 @ lenenc (8 * length m)"

definition md_hash :: "('s \<Rightarrow> u8 list \<Rightarrow> 's) \<Rightarrow> 's \<Rightarrow> (nat \<Rightarrow> u8 list) \<Rightarrow> u8 list \<Rightarrow> 's" where
  "md_hash T iv lenenc m = foldl T iv (chunks 64 (md_pad lenenc m))"

lemma length_tail_of: "length (tail_of n xs) = length xs mod n"
  by (simp add: tail_of_def full_len_def minus_mult_div_eq_mod)

lemma take_full_tail: "take (full_len n xs) xs @ tail_of n xs = xs"
  by (simp add: tail_of_def)

lemma tail_of_append:
  assumes "n dvd length xs" shows "tail_of n (xs @ ys) = tail_of n ys"
proof (cases "n = 0")
  case True
  with assms show ?thesis by (simp add: tail_of_def full_len_def)
next
  case False
  from assms obtain k where k: "length xs = n * k" by blast
  with False have "full_len n (xs @ ys) = length xs + full_len n ys"
    by (simp add: full_len_def algebra_simps)
  then show ?thesis by (simp add: tail_of_def)
qed

lemma tail_of_short: "length xs < n \<Longrightarrow> tail_of n xs = xs"
  by (simp add: tail_of_def full_len_def)

section \<open>A buffered context that has absorbed a message\<close>

definition md_absorbed ::
    "('s \<Rightarrow> u8 list \<Rightarrow> 's) \<Rightarrow> 's \<Rightarrow> 's \<Rightarrow> u8 list \<Rightarrow> u8 list \<Rightarrow> bool" where
  "md_absorbed T iv st buf m \<longleftrightarrow>
     st = foldl T iv (chunks 64 m) \<and> length buf = 64 \<and>
     take (length m mod 64) buf = tail_of 64 m"

lemma md_absorbed_init: "length buf = 64 \<Longrightarrow> md_absorbed T iv iv buf []"
  by (simp add: md_absorbed_def tail_of_def)

lemma md_absorbed_length: "md_absorbed T iv st buf m \<Longrightarrow> length buf = 64"
  by (simp add: md_absorbed_def)

text \<open>The data fit in the buffer: they are only copied behind what is there.\<close>

lemma md_absorbed_small:
  assumes abs: "md_absorbed T iv st buf m" and fits: "length m mod 64 + length d < 64"
  shows "md_absorbed T iv st (blit buf (length m mod 64) d) (m @ d)"
proof -
  let ?k = "full_len 64 m"
  from abs have st: "st = foldl T iv (chunks 64 m)" and len: "length buf = 64"
    and tl: "take (length m mod 64) buf = tail_of 64 m"
    by (auto simp: md_absorbed_def)
  have m: "m @ d = take ?k m @ (tail_of 64 m @ d)"
    using take_full_tail [of 64 m] by (metis append_assoc)
  have dvd: "64 dvd length (take ?k m)"
    by (simp add: full_len_def min_absorb2)
  have short: "length (tail_of 64 m @ d) < 64"
    using fits by (simp add: length_tail_of)
  have "chunks 64 (m @ d) = chunks 64 m"
    using dvd short by (simp add: m chunks_append chunks_take_full del: append_assoc)
  moreover have "tail_of 64 (m @ d) = tail_of 64 m @ d"
    using dvd short by (simp add: m tail_of_append tail_of_short del: append_assoc)
  moreover have "length (m @ d) mod 64 = length m mod 64 + length d"
    using fits by (metis length_append mod_add_left_eq mod_less)
  ultimately show ?thesis
    using st len tl fits by (simp add: md_absorbed_def blit_def length_tail_of)
qed

text \<open>The data complete the buffered block: it is processed, then every further full
  block, and the rest becomes the new content of the buffer.\<close>

lemma md_absorbed_large:
  assumes abs: "md_absorbed T iv st buf m"
    and p: "p = 64 - length m mod 64" "p \<le> length d"
    and buf1: "buf1 = blit buf (length m mod 64) (take p d)"
    and st2: "st2 = foldl T (T st buf1) (chunks 64 (drop p d))"
    and buf2: "length buf2 = 64" "take (length (drop p d) mod 64) buf2 = tail_of 64 (drop p d)"
  shows "md_absorbed T iv st2 buf2 (m @ d)"
proof -
  let ?k = "full_len 64 m"
  from abs have st: "st = foldl T iv (chunks 64 m)" and len: "length buf = 64"
    and tl: "take (length m mod 64) buf = tail_of 64 m"
    by (auto simp: md_absorbed_def)
  have b1: "buf1 = tail_of 64 m @ take p d"
    using p len tl by (simp add: buf1 blit_def)
  have lb1: "length buf1 = 64"
    using p by (simp add: b1 length_tail_of min_absorb2)
  have m: "m @ d = (take ?k m @ buf1) @ drop p d"
    using take_full_tail [of 64 m] by (metis append_assoc append_take_drop_id b1)
  have dvdk: "64 dvd length (take ?k m)"
    by (simp add: full_len_def min_absorb2)
  then have dvd: "64 dvd length (take ?k m @ buf1)"
    by (simp add: lb1)
  have "chunks 64 (m @ d) = chunks 64 m @ [buf1] @ chunks 64 (drop p d)"
    unfolding m using dvd dvdk
    by (simp only: chunks_append chunks_take_full chunks_single [OF _ lb1]) simp
  moreover have "tail_of 64 (m @ d) = tail_of 64 (drop p d)"
    unfolding m by (rule tail_of_append [OF dvd])
  moreover have "length (m @ d) mod 64 = length (drop p d) mod 64"
    by (metis calculation(2) length_tail_of)
  ultimately show ?thesis
    using st st2 buf2 by (simp add: md_absorbed_def)
qed

text \<open>The same from a block boundary, where the buffer counts for nothing.\<close>

lemma md_absorbed_aligned:
  assumes abs: "md_absorbed T iv st buf m" and al: "length m mod 64 = 0"
    and buf2: "length buf2 = 64" "take (length d mod 64) buf2 = tail_of 64 d"
  shows "md_absorbed T iv (foldl T st (chunks 64 d)) buf2 (m @ d)"
proof -
  from al have dvd: "64 dvd length m" by (simp add: dvd_eq_mod_eq_0)
  have "length (m @ d) mod 64 = length d mod 64"
    using al by (metis length_append mod_add_left_eq add_0)
  with assms dvd show ?thesis
    by (simp add: md_absorbed_def chunks_append tail_of_append)
qed

lemma md_absorbed_complete:
  assumes "md_absorbed T iv st buf m" and "length d = 64 - length m mod 64"
    and "buf1 = blit buf (length m mod 64) d"
  shows "md_absorbed T iv (T st buf1) buf1 (m @ d)" and "length (m @ d) mod 64 = 0"
proof -
  show "md_absorbed T iv (T st buf1) buf1 (m @ d)"
    using md_absorbed_length [OF assms(1)] assms(2,3)
    by (intro md_absorbed_large [OF assms(1) assms(2)])
      (simp_all add: length_blit tail_of_def)
  have "length m mod 64 + length d = 64" by (simp add: assms(2))
  then show "length (m @ d) mod 64 = 0"
    by (metis length_append mod_add_left_eq mod_self)
qed

lemma md_absorbed_rebuf:
  "md_absorbed T iv st buf m \<Longrightarrow> length m mod 64 = 0 \<Longrightarrow> length buf' = 64 \<Longrightarrow> md_absorbed T iv st buf' m"
  using length_tail_of [of 64 m] by (simp add: md_absorbed_def)

text \<open>A context whose buffer is empty holds exactly the full blocks.\<close>

lemma md_absorbed_done:
  "md_absorbed T iv st buf m \<Longrightarrow> st = foldl T iv (chunks 64 m)"
  by (simp add: md_absorbed_def)

section \<open>The 64-bit message length as two words\<close>

definition bit_count :: "nat \<Rightarrow> u32 list" where
  "bit_count bits = [of_nat bits, of_nat (bits div 2 ^ 32)]"

lemma length_bit_count [simp]: "length (bit_count n) = 2"
  by (simp add: bit_count_def)

lemma unat_drop3: "unat (drop_bit 3 (w :: u32)) = unat w div 8"
proof -
  have "unat (drop_bit 3 w) = drop_bit 3 (unat w)"
    by (simp only: unsigned_drop_bit_eq) (simp add: take_bit_eq_mod unat_u32_less)
  then show ?thesis by (simp only: drop_bit_eq_div) simp
qed

lemma unat_drop3_and63: "unat (drop_bit 3 (w :: u32) AND 0x3F) = unat w div 8 mod 64"
proof -
  have "drop_bit 3 w AND 0x3F = take_bit 6 (drop_bit 3 w)"
    by (simp add: take_bit_eq_mask mask_eq_exp_minus_1)
  then have "unat (drop_bit 3 w AND 0x3F) = take_bit 6 (drop_bit 3 (unat w))"
    by (simp only: unsigned_take_bit_eq unsigned_drop_bit_eq) (simp add: take_bit_eq_mod unat_u32_less)
  then show ?thesis by (simp add: take_bit_eq_mod drop_bit_eq_div)
qed

lemma bit_count_index:
  "unat (drop_bit 3 (bit_count (8 * n) ! 0) AND 0x3F) = n mod 64"
proof -
  have "unat (of_nat (8 * n) :: u32) = 8 * n mod 2 ^ 32"
    by (rule unat_of_nat32)
  moreover have "8 * n mod 2 ^ 32 div 8 mod 64 = n mod 64"
  proof -
    have "8 * n mod (8 * 2 ^ 29) = 8 * (n mod 2 ^ 29)"
      by (rule mult_mod_right [symmetric])
    then have "8 * n mod 2 ^ 32 div 8 = n mod 2 ^ 29" by simp
    moreover have "n mod 2 ^ 29 mod 64 = n mod 64"
      by (rule mod_mod_cancel) simp
    ultimately show ?thesis by simp
  qed
  ultimately show ?thesis
    by (simp only: unat_drop3_and63 bit_count_def nth_Cons_0)
qed

lemma add_div_carry:
  "0 < N \<Longrightarrow> (x mod N + y mod N) div N = (if N \<le> x mod N + y mod N then 1 else 0 :: nat)"
  by (auto simp: div_eq_0_iff intro!: div_nat_eqI add_strict_mono)

lemma drop_bit_29_of_nat:
  "k < 2 ^ 32 \<Longrightarrow> drop_bit 29 (of_nat k :: u32) = of_nat (8 * k div 2 ^ 32)"
  by (simp add: drop_bit_eq_div unat_div unat_of_nat word_arith_nat_div)

text \<open>The two-word addition of the sources, with the carry test on the low word.\<close>

lemma bit_count_add:
  fixes n k :: nat
  assumes k: "k < 2 ^ 32"
  defines "c0 \<equiv> bit_count (8 * n) ! 0" and "c1 \<equiv> bit_count (8 * n) ! 1"
    and "b \<equiv> push_bit 3 (of_nat k :: u32)"
  shows "bit_count (8 * (n + k)) =
    [c0 + b, (if c0 + b < b then c1 + 1 else c1) + drop_bit 29 (of_nat k)]"
proof -
  have ub: "unat b = 8 * k mod 2 ^ 32"
    using k by (simp add: b_def push_bit_eq_mult unat_word_ariths unat_of_nat mult.commute)
  have uc: "unat c0 = 8 * n mod 2 ^ 32"
    using unat_of_nat32 [of "8 * n"] by (simp only: c0_def bit_count_def nth_Cons_0)
  note ud = drop_bit_29_of_nat [OF k]
  let ?carry = "(8 * n mod 2 ^ 32 + 8 * k mod 2 ^ 32) div 2 ^ 32"
  have div: "8 * (n + k) div 2 ^ 32 = 8 * n div 2 ^ 32 + 8 * k div 2 ^ 32 + ?carry"
    using div_add1_eq [of "8 * n" "8 * k" "2 ^ 32"] by (simp only: distrib_left)
  have carry: "(if c0 + b < b then c1 + 1 else c1) = c1 + of_nat ?carry"
    using carry_iff [of c0 b] ub uc by (simp add: add_div_carry)
  have "of_nat (8 * (n + k) div 2 ^ 32) = (c1 + of_nat ?carry) + drop_bit 29 (of_nat k)"
    unfolding div ud by (simp add: c1_def bit_count_def)
  moreover have "of_nat (8 * (n + k)) = c0 + b"
    by (simp add: c0_def b_def bit_count_def push_bit_eq_mult algebra_simps)
  ultimately show ?thesis
    by (simp only: carry) (simp add: bit_count_def)
qed

text \<open>The little-endian length field of MD4 and MD5.\<close>

definition len64_le :: "nat \<Rightarrow> u8 list" where
  "len64_le bits = le_bytes (bit_count bits)"

text \<open>Padding and length bring the message to a whole number of blocks; what is then
  absorbed is the digest.\<close>

lemma pad_zeros:
  "r < 64 \<Longrightarrow> (119 - r) mod 64 = (if r < 56 then 55 - r else 119 - r)" for r :: nat
proof (cases "r < 56")
  assume r: "r < 56"
  then have "119 - r = 64 + (55 - r)" by simp
  then have "(119 - r) mod 64 = (55 - r) mod 64" by (simp only: mod_add_self1)
  with r show ?thesis by simp
qed simp

lemma pad_total:
  "r < 64 \<Longrightarrow> (64 * q + r) + 1 + (119 - r) mod 64 + 8 = 64 * (q + (if r < 56 then 1 else 2))"
  for q r :: nat
  by (simp only: pad_zeros) auto

lemma length_md_pad:
  assumes "length (lenenc (8 * length m)) = 8"
  shows "64 dvd length (md_pad lenenc m)"
proof -
  let ?r = "length m mod 64" and ?q = "length m div 64"
  have "length (md_pad lenenc m) = (64 * ?q + ?r) + 1 + (119 - ?r) mod 64 + 8"
    by (simp add: md_pad_def assms)
  also have "\<dots> = 64 * (?q + (if ?r < 56 then 1 else 2))"
    by (rule pad_total) simp
  finally show ?thesis by (simp only: dvd_triv_left)
qed

lemma md_absorbed_padded:
  assumes "md_absorbed T iv st buf (md_pad lenenc m)" and "length (lenenc (8 * length m)) = 8"
  shows "st = md_hash T iv lenenc m"
  using md_absorbed_done [OF assms(1)] by (simp add: md_hash_def)

lemma md_hash_cong:
  assumes "\<And>s b. length b = 64 \<Longrightarrow> T s b = T' s b"
  shows "md_hash T iv lenenc m = md_hash T' iv lenenc m"
  unfolding md_hash_def
  by (rule foldl_cong) (auto intro: assms dest: length_in_chunks)

text \<open>Appending piece by piece, stopping at the first failure.\<close>

fun append_all :: "('c \<Rightarrow> u8 list \<Rightarrow> nat \<Rightarrow> 'c option) \<Rightarrow> 'c \<Rightarrow> u8 list list \<Rightarrow> 'c option" where
  "append_all app c [] = Some c"
| "append_all app c (d # ds) =
     (case app c d (length d) of None \<Rightarrow> None | Some c' \<Rightarrow> append_all app c' ds)"

section \<open>Four registers that rotate\<close>

type_synonym regs4 = "u32 \<times> u32 \<times> u32 \<times> u32"

text \<open>The code keeps the registers in place and permutes their roles; after each step the
  array is a rotation of the standard's tuple.\<close>

fun regs0 :: "regs4 \<Rightarrow> u32 list" where "regs0 (a, b, c, d) = [a, b, c, d]"
fun regs1 :: "regs4 \<Rightarrow> u32 list" where "regs1 (a, b, c, d) = [b, c, d, a]"
fun regs2 :: "regs4 \<Rightarrow> u32 list" where "regs2 (a, b, c, d) = [c, d, a, b]"
fun regs3 :: "regs4 \<Rightarrow> u32 list" where "regs3 (a, b, c, d) = [d, a, b, c]"

definition regs_at :: "nat \<Rightarrow> regs4 \<Rightarrow> u32 list" where
  "regs_at i = [regs0, regs1, regs2, regs3] ! (i mod 4)"

lemma mod4_next:
  "i mod 4 = 0 \<and> Suc i mod 4 = 1 \<or> i mod 4 = 1 \<and> Suc i mod 4 = 2 \<or>
   i mod 4 = 2 \<and> Suc i mod 4 = 3 \<or> i mod 4 = 3 \<and> Suc i mod 4 = 0" for i :: nat
  by presburger

lemma c_seq_regs:
  assumes "\<And>i t. i < n \<Longrightarrow> code i (regs_at i t) = regs_at (Suc i) (step i t)"
  shows "c_seq (map code [0..<n]) (regs0 t) = regs_at n (fold step [0..<n] t)"
  using assms
proof (induction n)
  case 0
  then show ?case by (simp add: regs_at_def)
next
  case (Suc n)
  then show ?case by (simp add: c_seq_append)
qed

section \<open>The interface of an incremental digest\<close>

text \<open>An append that never fails is a plain fold over the pieces.\<close>

lemma append_all_Some:
  "append_all (\<lambda>c d n. Some (app c d n)) c ds = Some (foldl (\<lambda>c d. app c d (length d)) c ds)"
  by (induction ds arbitrary: c) simp_all

locale stream_hash =
  fixes init :: "'c \<Rightarrow> 'c"
    and append :: "'c \<Rightarrow> u8 list \<Rightarrow> nat \<Rightarrow> 'c option"
    and finish :: "'c \<Rightarrow> u8 list option"
    and wf :: "'c \<Rightarrow> bool"
    and absorbed :: "'c \<Rightarrow> u8 list \<Rightarrow> bool"
    and limit :: nat
    and digest :: "u8 list \<Rightarrow> u8 list"
  assumes absorbed_init: "wf c \<Longrightarrow> absorbed (init c) []"
    and absorbed_append: "absorbed c m \<Longrightarrow> n \<le> length d \<Longrightarrow> n \<le> limit \<Longrightarrow>
      \<exists>c'. append c d n = Some c' \<and> absorbed c' (m @ take n d)"
    and absorbed_finish: "absorbed c m \<Longrightarrow> finish c = Some (digest m)"
begin

lemma append_absorbed:
  assumes "absorbed c m" and "append c d n = Some c'" and "n \<le> length d" and "n \<le> limit"
  shows "absorbed c' (m @ take n d)"
  using absorbed_append [OF assms(1,3,4)] assms(2) by auto

lemma append_all_absorbed:
  "absorbed c m \<Longrightarrow> \<forall>d \<in> set ds. length d \<le> limit \<Longrightarrow>
   \<exists>c'. append_all append c ds = Some c' \<and> absorbed c' (m @ concat ds)"
proof (induction ds arbitrary: c m)
  case Nil
  then show ?case by simp
next
  case (Cons d ds)
  then obtain c' where c': "append c d (length d) = Some c'" "absorbed c' (m @ d)"
    using absorbed_append [of c m "length d" d] by auto
  with Cons.IH [of c' "m @ d"] Cons.prems show ?case by auto
qed

text \<open>The digest depends on the bytes appended only, not on how they were split.\<close>

lemma split_independent:
  assumes "wf c" and "\<forall>d \<in> set ds. length d \<le> limit"
  shows "Option.bind (append_all append (init c) ds) finish = Some (digest (concat ds))"
  using append_all_absorbed [OF absorbed_init [OF assms(1)] assms(2)] absorbed_finish
  by fastforce

lemma one_shot:
  assumes "wf c" and "n \<le> length d" and "n \<le> limit"
  shows "Option.bind (append (init c) d n) finish = Some (digest (take n d))"
  using absorbed_append [OF absorbed_init [OF assms(1)] assms(2,3)] absorbed_finish by fastforce

end

end
