(* ===== verification/MD4.thy ===== *)
theory MD4
  imports Stream_Hash
begin

text \<open>
  The MD4 digest of \<^verbatim>\<open>src/src/utils/lib/md4.c\<close>: the context, the three macros
  \<^verbatim>\<open>FF\<close>, \<^verbatim>\<open>GG\<close>, \<^verbatim>\<open>HH\<close> with the unrolled 48 steps, and
  \<^verbatim>\<open>MD4Init\<close>, \<^verbatim>\<open>MD4Update\<close>, \<^verbatim>\<open>MD4Final\<close>. The registers
  \<open>a, b, c, d\<close> are the entries 0 to 3 of a four-word array. Shown: the
  unrolled steps are the indexed rounds of the standard, the context absorbs
  any split of a message, and finishing gives the standard's digest.
\<close>

section \<open>Model\<close>

abbreviation (input) "S11 \<equiv> (3::nat)"
abbreviation (input) "S12 \<equiv> (7::nat)"
abbreviation (input) "S13 \<equiv> (11::nat)"
abbreviation (input) "S14 \<equiv> (19::nat)"
abbreviation (input) "S21 \<equiv> (3::nat)"
abbreviation (input) "S22 \<equiv> (5::nat)"
abbreviation (input) "S23 \<equiv> (9::nat)"
abbreviation (input) "S24 \<equiv> (13::nat)"
abbreviation (input) "S31 \<equiv> (3::nat)"
abbreviation (input) "S32 \<equiv> (9::nat)"
abbreviation (input) "S33 \<equiv> (11::nat)"
abbreviation (input) "S34 \<equiv> (15::nat)"

record MD4_CTX =
  md4_state :: "u32 list"
  md4_count :: "u32 list"
  md4_buffer :: "u8 list"

definition md4_F :: "u32 \<Rightarrow> u32 \<Rightarrow> u32 \<Rightarrow> u32" where
  "md4_F x y z = (x AND y) OR (NOT x AND z)"

definition md4_G :: "u32 \<Rightarrow> u32 \<Rightarrow> u32 \<Rightarrow> u32" where
  "md4_G x y z = (x AND y) OR (x AND z) OR (y AND z)"

definition md4_H :: "u32 \<Rightarrow> u32 \<Rightarrow> u32 \<Rightarrow> u32" where
  "md4_H x y z = x XOR y XOR z"

definition md4_FF :: "nat \<Rightarrow> nat \<Rightarrow> nat \<Rightarrow> nat \<Rightarrow> u32 \<Rightarrow> nat \<Rightarrow> u32 list \<Rightarrow> u32 list" where
  "md4_FF a b c d x s r = r[a := ROTATE_LEFT (r ! a + (md4_F (r ! b) (r ! c) (r ! d) + x)) s]"

definition md4_GG :: "nat \<Rightarrow> nat \<Rightarrow> nat \<Rightarrow> nat \<Rightarrow> u32 \<Rightarrow> nat \<Rightarrow> u32 list \<Rightarrow> u32 list" where
  "md4_GG a b c d x s r =
     r[a := ROTATE_LEFT (r ! a + (md4_G (r ! b) (r ! c) (r ! d) + x + 0x5a827999)) s]"

definition md4_HH :: "nat \<Rightarrow> nat \<Rightarrow> nat \<Rightarrow> nat \<Rightarrow> u32 \<Rightarrow> nat \<Rightarrow> u32 list \<Rightarrow> u32 list" where
  "md4_HH a b c d x s r =
     r[a := ROTATE_LEFT (r ! a + (md4_H (r ! b) (r ! c) (r ! d) + x + 0x6ed9eba1)) s]"

text \<open>\<open>Encode\<close> and \<open>Decode\<close> loop over \<open>len div 4\<close> words.\<close>

definition Encode :: "u32 list \<Rightarrow> nat \<Rightarrow> u8 list" where
  "Encode input len = concat (map (\<lambda>i.
     [ucast (input ! i AND 0xff), ucast (drop_bit 8 (input ! i) AND 0xff),
      ucast (drop_bit 16 (input ! i) AND 0xff), ucast (drop_bit 24 (input ! i) AND 0xff)])
     [0..<len div 4])"

definition Decode :: "u8 list \<Rightarrow> nat \<Rightarrow> u32 list" where
  "Decode input len = map (\<lambda>i.
     ucast (input ! (4 * i)) OR push_bit 8 (ucast (input ! (4 * i + 1)))
       OR push_bit 16 (ucast (input ! (4 * i + 2))) OR push_bit 24 (ucast (input ! (4 * i + 3))))
     [0..<len div 4]"

definition MD4_rounds :: "u32 list \<Rightarrow> (u32 list \<Rightarrow> u32 list) list" where
  "MD4_rounds x =
     [md4_FF 0 1 2 3 (x ! 0) S11, md4_FF 3 0 1 2 (x ! 1) S12, md4_FF 2 3 0 1 (x ! 2) S13, md4_FF 1 2 3 0 (x ! 3) S14,
      md4_FF 0 1 2 3 (x ! 4) S11, md4_FF 3 0 1 2 (x ! 5) S12, md4_FF 2 3 0 1 (x ! 6) S13, md4_FF 1 2 3 0 (x ! 7) S14,
      md4_FF 0 1 2 3 (x ! 8) S11, md4_FF 3 0 1 2 (x ! 9) S12, md4_FF 2 3 0 1 (x ! 10) S13, md4_FF 1 2 3 0 (x ! 11) S14,
      md4_FF 0 1 2 3 (x ! 12) S11, md4_FF 3 0 1 2 (x ! 13) S12, md4_FF 2 3 0 1 (x ! 14) S13, md4_FF 1 2 3 0 (x ! 15) S14,
      md4_GG 0 1 2 3 (x ! 0) S21, md4_GG 3 0 1 2 (x ! 4) S22, md4_GG 2 3 0 1 (x ! 8) S23, md4_GG 1 2 3 0 (x ! 12) S24,
      md4_GG 0 1 2 3 (x ! 1) S21, md4_GG 3 0 1 2 (x ! 5) S22, md4_GG 2 3 0 1 (x ! 9) S23, md4_GG 1 2 3 0 (x ! 13) S24,
      md4_GG 0 1 2 3 (x ! 2) S21, md4_GG 3 0 1 2 (x ! 6) S22, md4_GG 2 3 0 1 (x ! 10) S23, md4_GG 1 2 3 0 (x ! 14) S24,
      md4_GG 0 1 2 3 (x ! 3) S21, md4_GG 3 0 1 2 (x ! 7) S22, md4_GG 2 3 0 1 (x ! 11) S23, md4_GG 1 2 3 0 (x ! 15) S24,
      md4_HH 0 1 2 3 (x ! 0) S31, md4_HH 3 0 1 2 (x ! 8) S32, md4_HH 2 3 0 1 (x ! 4) S33, md4_HH 1 2 3 0 (x ! 12) S34,
      md4_HH 0 1 2 3 (x ! 2) S31, md4_HH 3 0 1 2 (x ! 10) S32, md4_HH 2 3 0 1 (x ! 6) S33, md4_HH 1 2 3 0 (x ! 14) S34,
      md4_HH 0 1 2 3 (x ! 1) S31, md4_HH 3 0 1 2 (x ! 9) S32, md4_HH 2 3 0 1 (x ! 5) S33, md4_HH 1 2 3 0 (x ! 13) S34,
      md4_HH 0 1 2 3 (x ! 3) S31, md4_HH 3 0 1 2 (x ! 11) S32, md4_HH 2 3 0 1 (x ! 7) S33, md4_HH 1 2 3 0 (x ! 15) S34]"

definition MD4Transform :: "u32 list \<Rightarrow> u8 list \<Rightarrow> u32 list" where
  "MD4Transform state block =
     (let x = Decode block 64;
          r = c_seq (MD4_rounds x) [state ! 0, state ! 1, state ! 2, state ! 3]
      in [state ! 0 + r ! 0, state ! 1 + r ! 1, state ! 2 + r ! 2, state ! 3 + r ! 3])"

definition PADDING :: "u8 list" where
  "PADDING = 0x80 # replicate 63 0"

definition MD4_iv :: "u32 list" where
  "MD4_iv = [0x67452301, 0xefcdab89, 0x98badcfe, 0x10325476]"

definition MD4Init :: "MD4_CTX \<Rightarrow> MD4_CTX" where
  "MD4Init context = context\<lparr>md4_count := [0, 0], md4_state := MD4_iv\<rparr>"

text \<open>
  The loop \<^verbatim>\<open>for (i = partLen; i + 63 < inputLen; i += 64)\<close> with its unsigned
  comparison. \<open>None\<close>: the body would read behind the \<open>inputLen\<close> bytes
  of the input (which the wrap-around of \<open>i + 63\<close> allows for lengths within 63
  of \<open>2 ^ 32\<close>).
\<close>

function MD4Update_loop :: "u32 list \<Rightarrow> u8 list \<Rightarrow> u32 \<Rightarrow> u32 \<Rightarrow> (u32 list \<times> u32) option" where
  "MD4Update_loop state input inputLen i =
     (if i + 63 < inputLen then
        (if unat i + 64 \<le> unat inputLen
         then MD4Update_loop (MD4Transform state (slice input (unat i) 64)) input inputLen (i + 64)
         else None)
      else Some (state, i))"
  by pat_completeness auto
termination
proof (relation "measure (\<lambda>(state, input, inputLen, i). unat inputLen - unat i)", goal_cases)
  case (2 state input inputLen i)
  have "unat (i + 64) = unat i + 64"
    using 2 unat_u32_less [of inputLen] by (simp add: unat_word_ariths)
  with 2 show ?case by simp
qed simp

declare MD4Update_loop.simps [simp del]

definition MD4Update :: "MD4_CTX \<Rightarrow> u8 list \<Rightarrow> u32 \<Rightarrow> MD4_CTX option" where
  "MD4Update context input inputLen =
     (let index = drop_bit 3 (md4_count context ! 0) AND 0x3F;
          count0 = md4_count context ! 0 + push_bit 3 inputLen;
          count1 = (if count0 < push_bit 3 inputLen then md4_count context ! 1 + 1
                    else md4_count context ! 1) + drop_bit 29 inputLen;
          context = context\<lparr>md4_count := [count0, count1]\<rparr>;
          partLen = 64 - index
      in if partLen \<le> inputLen then
           (let buffer = blit (md4_buffer context) (unat index) (take (unat partLen) input);
                state = MD4Transform (md4_state context) buffer
            in case MD4Update_loop state input inputLen partLen of
                 None \<Rightarrow> None
               | Some (state, i) \<Rightarrow>
                   Some (context\<lparr>md4_state := state,
                     md4_buffer := blit buffer 0 (slice input (unat i) (unat (inputLen - i)))\<rparr>))
         else Some (context\<lparr>md4_buffer :=
                blit (md4_buffer context) (unat index) (slice input 0 (unat inputLen))\<rparr>))"

text \<open>\<open>MD4Final\<close> returns the digest; the context it leaves is zeroed.\<close>

definition MD4Final :: "MD4_CTX \<Rightarrow> (u8 list \<times> MD4_CTX) option" where
  "MD4Final context =
     (let bits = Encode (md4_count context) 8;
          index = drop_bit 3 (md4_count context ! 0) AND 0x3f;
          padLen = (if index < 56 then 56 - index else 120 - index)
      in case MD4Update context PADDING padLen of
           None \<Rightarrow> None
         | Some context \<Rightarrow> (case MD4Update context bits 8 of
             None \<Rightarrow> None
           | Some context \<Rightarrow> Some (Encode (md4_state context) 16,
               \<lparr>md4_state = replicate 4 0, md4_count = replicate 2 0,
                md4_buffer = replicate 64 0\<rparr>)))"

section \<open>The context absorbs any split of a message\<close>

definition MD4_wf :: "MD4_CTX \<Rightarrow> bool" where
  "MD4_wf c \<longleftrightarrow> length (md4_buffer c) = 64"

definition MD4_absorbed :: "MD4_CTX \<Rightarrow> u8 list \<Rightarrow> bool" where
  "MD4_absorbed c m \<longleftrightarrow>
     md_absorbed MD4Transform MD4_iv (md4_state c) (md4_buffer c) m \<and>
     md4_count c = bit_count (8 * length m)"

text \<open>The largest length for which \<open>i + 63\<close> cannot wrap in the loop of \<open>MD4Update\<close>.\<close>

abbreviation MD4_limit :: nat where
  "MD4_limit \<equiv> 4294967232"

lemma MD4Update_loop_Some:
  "unat inputLen \<le> MD4_limit \<Longrightarrow> unat i \<le> unat inputLen \<Longrightarrow>
   length (slice input (unat i) (unat inputLen - unat i)) = unat inputLen - unat i \<Longrightarrow>
   MD4Update_loop state input inputLen i =
     Some (foldl MD4Transform state (chunks 64 (slice input (unat i) (unat inputLen - unat i))),
           of_nat (unat i + full_len 64 (slice input (unat i) (unat inputLen - unat i))))"
proof (induction state input inputLen i rule: MD4Update_loop.induct)
  case (1 state input inputLen i)
  let ?n = "unat inputLen" and ?i = "unat i"
  let ?d = "slice input ?i (?n - ?i)"
  have "?i + 63 < 2 ^ 32"
    unfolding two32 using "1.prems"(1,2) by linarith
  then have i63: "unat (i + 63) = ?i + 63"
    by (simp add: unat_word_ariths)
  have cond: "i + 63 < inputLen \<longleftrightarrow> ?i + 64 \<le> ?n"
    unfolding word_less_nat_alt i63 by linarith
  show ?case
  proof (cases "?i + 64 \<le> ?n")
    case True
    have i64: "unat (i + 64) = ?i + 64"
      using True unat_u32_less [of inputLen] by (simp add: unat_word_ariths)
    have drop: "slice input (?i + 64) (?n - (?i + 64)) = drop 64 ?d"
      by (simp add: slice_def drop_take add.commute)
    have blk: "slice input ?i 64 = take 64 ?d"
      using True by (simp add: slice_def)
    have len: "length ?d = ?n - ?i"
      using "1.prems" by simp
    have "MD4Update_loop (MD4Transform state (slice input ?i 64)) input inputLen (i + 64) =
      Some (foldl MD4Transform (MD4Transform state (take 64 ?d)) (chunks 64 (drop 64 ?d)),
            of_nat (?i + 64 + full_len 64 (drop 64 ?d)))"
      using "1.IH" True cond "1.prems" len by (simp add: i64 drop blk)
    moreover have "full_len 64 ?d = 64 + full_len 64 (drop 64 ?d)"
      using len True by (simp add: full_len_def le_div_geq)
    moreover have "chunks 64 ?d = take 64 ?d # chunks 64 (drop 64 ?d)"
      using len True by (intro chunks_step) auto
    ultimately show ?thesis
      using cond True by (simp add: MD4Update_loop.simps [of state input inputLen i] add.assoc)
  next
    case False
    then show ?thesis
      using cond "1.prems" by (simp add: MD4Update_loop.simps [of state input inputLen i] full_len_def)
  qed
qed

lemma MD4_index: "MD4_absorbed c m \<Longrightarrow>
  unat (drop_bit 3 (md4_count c ! 0) AND 0x3F) = length m mod 64"
  by (simp add: MD4_absorbed_def bit_count_index)

lemma MD4Update_absorbed:
  assumes abs: "MD4_absorbed c m" and n: "unat n \<le> length d" and lim: "unat n \<le> MD4_limit"
  shows "\<exists>c'. MD4Update c d n = Some c' \<and> MD4_absorbed c' (m @ take (unat n) d)"
proof -
  let ?N = "unat n" and ?ix = "length m mod 64"
  let ?index = "drop_bit 3 (md4_count c ! 0) AND 0x3F"
  let ?d = "take ?N d"
  define c0 c1 where "c0 = md4_count c ! 0 + push_bit 3 n"
    and "c1 = (if c0 < push_bit 3 n then md4_count c ! 1 + 1 else md4_count c ! 1) + drop_bit 29 n"
  have index: "unat ?index = ?ix" by (rule MD4_index [OF abs])
  have cnt: "[c0, c1] = bit_count (8 * length (m @ ?d))"
    using bit_count_add [of ?N "length m"] abs n unat_u32_less [of n]
    by (simp add: c0_def c1_def MD4_absorbed_def)
  have mda: "md_absorbed MD4Transform MD4_iv (md4_state c) (md4_buffer c) m"
    using abs by (simp add: MD4_absorbed_def)
  have part: "unat (64 - ?index) = 64 - ?ix"
    using index by (simp add: unat_sub word_le_nat_alt)
  show ?thesis
  proof (cases "64 - ?index \<le> n")
    case True
    then have le: "64 - ?ix \<le> ?N" by (simp add: word_le_nat_alt part)
    let ?p = "64 - ?ix"
    let ?rest = "slice d ?p (?N - ?p)"
    have rest: "?rest = drop ?p ?d" by (simp add: slice_def drop_take)
    have lrest: "length ?rest = ?N - ?p" unfolding rest using n by simp
    let ?buf = "blit (md4_buffer c) ?ix (take ?p d)"
    let ?st = "MD4Transform (md4_state c) ?buf"
    have loop: "MD4Update_loop ?st d n (64 - ?index) =
      Some (foldl MD4Transform ?st (chunks 64 ?rest), of_nat (?p + full_len 64 ?rest))"
      using MD4Update_loop_Some [of n "64 - ?index" d ?st] lim le lrest by (simp only: part)
    let ?i = "of_nat (?p + full_len 64 ?rest) :: u32"
    have fl: "full_len 64 ?rest \<le> ?N - ?p"
      using lrest by (simp add: full_len_def)
    then have "?p + full_len 64 ?rest < 2 ^ 32"
      unfolding two32 using le unat_u32_less [of n] by linarith
    then have ui: "unat ?i = ?p + full_len 64 ?rest"
      by (simp only: unat_of_nat32 mod_less)
    have "?i \<le> n"
      unfolding word_le_nat_alt ui using fl le by linarith
    then have uni: "unat (n - ?i) = ?N - (?p + full_len 64 ?rest)"
      using ui by (simp only: unat_sub)
    have src: "slice d (unat ?i) (unat (n - ?i)) = tail_of 64 (drop ?p ?d)"
      unfolding ui uni by (simp add: slice_def tail_of_def rest drop_take add.commute)
    let ?buf2 = "blit ?buf 0 (tail_of 64 (drop ?p ?d))"
    have lbuf: "length ?buf = 64"
      using le n md_absorbed_length [OF mda] by (simp add: length_blit)
    have "md_absorbed MD4Transform MD4_iv (foldl MD4Transform ?st (chunks 64 ?rest)) ?buf2 (m @ ?d)"
    proof (rule md_absorbed_large [OF mda refl _ refl])
      show "?p \<le> length ?d" using le n by simp
      show "foldl MD4Transform ?st (chunks 64 ?rest) =
        foldl MD4Transform (MD4Transform (md4_state c) (blit (md4_buffer c) ?ix (take ?p ?d)))
          (chunks 64 (drop ?p ?d))"
        unfolding rest using le by (simp add: min_absorb1)
      have tl: "length (tail_of 64 (drop ?p ?d)) \<le> 64"
        by (simp add: length_tail_of less_imp_le)
      then show "length ?buf2 = 64" using lbuf by (simp add: length_blit)
      show "take (length (drop ?p ?d) mod 64) ?buf2 = tail_of 64 (drop ?p ?d)"
        by (simp add: blit_def length_tail_of)
    qed
    then show ?thesis
      using True loop src cnt
      by (simp add: MD4Update_def MD4_absorbed_def Let_def index part c0_def c1_def del: length_append)
  next
    case False
    then have "?ix + length ?d < 64"
      using n part by (simp add: word_le_nat_alt min_absorb2)
    from md_absorbed_small [OF mda this] False cnt show ?thesis
      by (simp add: MD4Update_def MD4_absorbed_def Let_def index c0_def c1_def del: length_append)
  qed
qed

section \<open>The unrolled steps are the rounds of the standard\<close>

text \<open>The standard's step on the four registers: select the round function, the message
  word and the shift by the step number, and rotate the registers.\<close>

definition md4_word_index :: "nat \<Rightarrow> nat" where
  "md4_word_index i =
     (if i < 16 then i
      else if i < 32 then 4 * (i mod 4) + (i - 16) div 4
      else [0, 8, 4, 12, 2, 10, 6, 14, 1, 9, 5, 13, 3, 11, 7, 15] ! (i - 32))"

definition md4_shift :: "nat \<Rightarrow> nat" where
  "md4_shift i = [[3, 7, 11, 19], [3, 5, 9, 13], [3, 9, 11, 15]] ! (i div 16) ! (i mod 4)"

definition md4_fun :: "nat \<Rightarrow> u32 \<Rightarrow> u32 \<Rightarrow> u32 \<Rightarrow> u32" where
  "md4_fun i = [md4_F, md4_G, md4_H] ! (i div 16)"

definition md4_const :: "nat \<Rightarrow> u32" where
  "md4_const i = [0, 0x5a827999, 0x6ed9eba1] ! (i div 16)"

fun md4_step :: "u32 list \<Rightarrow> nat \<Rightarrow> regs4 \<Rightarrow> regs4" where
  "md4_step x i (a, b, c, d) =
     (d, ROTATE_LEFT (a + (md4_fun i b c d + x ! md4_word_index i + md4_const i)) (md4_shift i), b, c)"

definition md4_compress :: "u32 list \<Rightarrow> u8 list \<Rightarrow> u32 list" where
  "md4_compress h block =
     (case fold (md4_step (le_words block)) [0..<48] (h ! 0, h ! 1, h ! 2, h ! 3) of
        (a, b, c, d) \<Rightarrow> [h ! 0 + a, h ! 1 + b, h ! 2 + c, h ! 3 + d])"

definition md4_digest :: "u8 list \<Rightarrow> u8 list" where
  "md4_digest m = le_bytes (md_hash md4_compress MD4_iv len64_le m)"

definition md4_code_step :: "u32 list \<Rightarrow> nat \<Rightarrow> u32 list \<Rightarrow> u32 list" where
  "md4_code_step x i =
     ([md4_FF, md4_GG, md4_HH] ! (i div 16)) ((4 - i mod 4) mod 4) ((5 - i mod 4) mod 4)
       ((6 - i mod 4) mod 4) ((7 - i mod 4) mod 4) (x ! md4_word_index i) (md4_shift i)"

lemma MD4_rounds_steps: "MD4_rounds x = map (md4_code_step x) [0..<48]"
  by (simp add: MD4_rounds_def md4_code_step_def md4_word_index_def md4_shift_def upt_step
      del: One_nat_def flip: numeral_2_eq_2)

lemma md4_op_regs:
  assumes "q < 3" and "r < 4"
  shows "([md4_FF, md4_GG, md4_HH] ! q) ((4 - r) mod 4) ((5 - r) mod 4) ((6 - r) mod 4)
      ((7 - r) mod 4) xk s (([regs0, regs1, regs2, regs3] ! r) (a, b, c, d)) =
    ([regs0, regs1, regs2, regs3] ! (Suc r mod 4))
      (d, ROTATE_LEFT (a + (([md4_F, md4_G, md4_H] ! q) b c d + xk
           + [0, 0x5a827999, 0x6ed9eba1] ! q)) s, b, c)"
proof -
  have "q = 0 \<or> q = 1 \<or> q = 2" and "r = 0 \<or> r = 1 \<or> r = 2 \<or> r = 3"
    using assms by linarith+
  then show ?thesis
    by (elim disjE; hypsubst) (simp_all add: md4_FF_def md4_GG_def md4_HH_def)
qed

lemma md4_code_step_regs:
  assumes "i < 48"
  shows "md4_code_step x i (regs_at i t) = regs_at (Suc i) (md4_step x i t)"
proof -
  obtain a b c d where t: "t = (a, b, c, d)" by (cases t)
  have "i div 16 < 3" using assms by (simp add: div_less_iff_less_mult)
  from md4_op_regs [OF this mod_less_divisor [of 4 i], of "x ! md4_word_index i" "md4_shift i" a b c d]
  show ?thesis
    by (simp only: t md4_code_step_def regs_at_def md4_step.simps md4_fun_def md4_const_def
        mod_Suc_eq)
qed

lemma Decode_le_words: "Decode bs (length bs) = le_words bs"
  by (rule nth_equalityI)
    (simp_all add: Decode_def le_words_nth le_word32_def or.assoc del: One_nat_def)

lemma MD4Transform_compress:
  assumes "length block = 64"
  shows "MD4Transform h block = md4_compress h block"
proof -
  have dec: "Decode block 64 = le_words block"
    using Decode_le_words [of block] assms by simp
  have "c_seq (MD4_rounds x) (regs0 t) = regs0 (fold (md4_step x) [0..<48] t)" for x t
    using c_seq_regs [of 48 "md4_code_step x" "md4_step x" t] md4_code_step_regs
    by (simp add: MD4_rounds_steps regs_at_def)
  from this [of "le_words block" "(h ! 0, h ! 1, h ! 2, h ! 3)"] show ?thesis
    unfolding MD4Transform_def md4_compress_def Let_def dec regs0.simps
    by (simp split: prod.splits)
qed

section \<open>Finishing yields the digest of the standard\<close>

lemma Encode_le_bytes: "Encode ws (4 * length ws) = le_bytes ws"
proof -
  have "Encode ws (4 * length ws) = concat (map (\<lambda>i. le_bytes32 (ws ! i)) [0..<length ws])"
    by (simp add: Encode_def le_bytes32_def)
  also have "map (\<lambda>i. le_bytes32 (ws ! i)) [0..<length ws] = map le_bytes32 ws"
    by (rule nth_equalityI) simp_all
  finally show ?thesis by (simp add: le_bytes_def)
qed

lemma length_MD4Transform [simp, c_len]: "length (MD4Transform h b) = 4"
  by (simp add: MD4Transform_def Let_def)

lemma length_MD4_chain: "length (foldl MD4Transform MD4_iv bs) = 4"
  by (induction bs rule: rev_induct) (simp_all add: MD4_iv_def)

lemma md4_padLen:
  fixes index :: u32
  assumes "unat index < 64"
  shows "unat (if index < 56 then 56 - index else 120 - index) = Suc ((119 - unat index) mod 64)"
proof -
  have "unat (56 - index) = 56 - unat index" if "index < 56"
    using that by (subst unat_sub) (auto simp: word_le_nat_alt word_less_nat_alt)
  moreover have "unat (120 - index) = 120 - unat index"
    using assms by (subst unat_sub) (auto simp: word_le_nat_alt)
  moreover have "index < 56 \<longleftrightarrow> unat index < 56"
    by (simp add: word_less_nat_alt)
  ultimately show ?thesis
    using assms by (simp only: pad_zeros split: if_splits) auto
qed

lemma MD4Final_digest:
  assumes "MD4_absorbed c m"
  shows "\<exists>z. MD4Final c = Some (md4_digest m, z)"
proof -
  let ?index = "drop_bit 3 (md4_count c ! 0) AND 0x3f :: u32"
  let ?pl = "if ?index < 56 then 56 - ?index else 120 - ?index"
  let ?z = "(119 - length m mod 64) mod 64"
  have upl: "unat ?pl = Suc ?z"
    using md4_padLen [of ?index] MD4_index [OF assms] by simp
  have "?z < 64" by simp
  then have pad: "take (unat ?pl) PADDING = 0x80 # replicate ?z 0" and "unat ?pl \<le> length PADDING"
    by (simp_all only: upl PADDING_def) simp_all
  with MD4Update_absorbed [OF assms, of ?pl PADDING] obtain c1 where
    c1: "MD4Update c PADDING ?pl = Some c1" "MD4_absorbed c1 (m @ 0x80 # replicate ?z 0)"
    by (auto simp: PADDING_def)
  have bits: "Encode (md4_count c) 8 = len64_le (8 * length m)"
    using Encode_le_bytes [of "md4_count c"] assms by (simp add: MD4_absorbed_def len64_le_def)
  have "length (len64_le (8 * length m)) = 8" by (simp add: len64_le_def)
  with MD4Update_absorbed [OF c1(2), of 8 "len64_le (8 * length m)"] obtain c2 where
    c2: "MD4Update c1 (len64_le (8 * length m)) 8 = Some c2"
    and abs: "MD4_absorbed c2 (md_pad len64_le m)"
    by (auto simp: md_pad_def)
  have st: "md4_state c2 = md_hash MD4Transform MD4_iv len64_le m"
    using abs by (intro md_absorbed_padded) (auto simp: MD4_absorbed_def len64_le_def)
  then have "Encode (md4_state c2) 16 = le_bytes (md_hash MD4Transform MD4_iv len64_le m)"
    using Encode_le_bytes [of "md4_state c2"] by (simp add: md_hash_def length_MD4_chain)
  also have "\<dots> = md4_digest m"
    unfolding md4_digest_def by (subst md_hash_cong [OF MD4Transform_compress]) simp_all
  finally show ?thesis
    using c1(1) c2 by (simp add: MD4Final_def Let_def bits)
qed

interpretation md4: stream_hash MD4Init "\<lambda>c d n. MD4Update c d (of_nat n)"
  "\<lambda>c. map_option fst (MD4Final c)" MD4_wf MD4_absorbed MD4_limit md4_digest
proof (unfold_locales, goal_cases)
  case (1 c)
  then show ?case
    by (simp add: MD4_absorbed_def MD4_wf_def MD4Init_def md_absorbed_init bit_count_def)
next
  case (2 c m n d)
  then have "unat (of_nat n :: u32) = n" by (simp add: unat_of_nat)
  with 2 MD4Update_absorbed [of c m "of_nat n" d] show ?case by simp
next
  case (3 c m)
  then show ?case using MD4Final_digest [of c m] by auto
qed

section \<open>Properties\<close>

text \<open>C3: Hashing a message in any pieces with \<open>MD4Init\<close>, one \<open>MD4Update\<close> per piece and
  \<open>MD4Final\<close> yields the MD4 digest of RFC 1320 of the concatenated message, and no
  operation leaves the 64-byte buffer; pieces are shorter than \<open>2^32 - 63\<close> bytes, where
  the \<^verbatim>\<open>i + 63 < inputLen\<close> of the code would wrap.\<close>

theorem md4_streaming:
  assumes "length (md4_buffer c) = 64" and "\<forall>d \<in> set ds. length d \<le> 4294967232"
  shows "Option.bind (append_all (\<lambda>c d n. MD4Update c d (of_nat n)) (MD4Init c) ds)
    (\<lambda>c. map_option fst (MD4Final c)) = Some (md4_digest (concat ds))"
  by (rule md4.split_independent) (use assms in \<open>simp_all add: MD4_wf_def\<close>)

lemma md4_streaming_witness:
  "Option.bind (append_all (\<lambda>c d n. MD4Update c d (of_nat n))
      (MD4Init \<lparr>md4_state = [], md4_count = [], md4_buffer = replicate 64 7\<rparr>) [[0x61], [0x62, 0x63]])
    (\<lambda>c. map_option fst (MD4Final c)) = Some (md4_digest [0x61, 0x62, 0x63])"
  using md4_streaming [of "\<lparr>md4_state = [], md4_count = [], md4_buffer = replicate 64 7\<rparr>" "[[0x61], [0x62, 0x63]]"]
  by simp

end
