(* ===== verification/MD5.thy ===== *)
theory MD5
  imports Stream_Hash
begin

text \<open>
  The MD5 digest of \<^verbatim>\<open>src/src/utils/lib/md5_c.c\<close> and \<^verbatim>\<open>md5.h\<close>: the context, the
  64 unrolled steps of \<^verbatim>\<open>md5_process\<close>, and \<^verbatim>\<open>md5_init\<close>,
  \<^verbatim>\<open>md5_append\<close>, \<^verbatim>\<open>md5_finish\<close>. Byte counts are signed \<open>int\<close>s of the
  source; the lemmas keep them below \<open>2 ^ 28\<close>, where \<open>nbytes << 3\<close> does not
  overflow. Shown: the unrolled steps are the indexed rounds of RFC 1321, any split
  of a message is absorbed, and finishing gives the digest of RFC 1321.
\<close>

section \<open>Model\<close>

record md5_state_t =
  md5_count :: "u32 list"
  md5_abcd :: "u32 list"
  md5_buf :: "u8 list"

abbreviation (input) "T1 \<equiv> (0xd76aa478 :: u32)"
abbreviation (input) "T2 \<equiv> (0xe8c7b756 :: u32)"
abbreviation (input) "T3 \<equiv> (0x242070db :: u32)"
abbreviation (input) "T4 \<equiv> (0xc1bdceee :: u32)"
abbreviation (input) "T5 \<equiv> (0xf57c0faf :: u32)"
abbreviation (input) "T6 \<equiv> (0x4787c62a :: u32)"
abbreviation (input) "T7 \<equiv> (0xa8304613 :: u32)"
abbreviation (input) "T8 \<equiv> (0xfd469501 :: u32)"
abbreviation (input) "T9 \<equiv> (0x698098d8 :: u32)"
abbreviation (input) "T10 \<equiv> (0x8b44f7af :: u32)"
abbreviation (input) "T11 \<equiv> (0xffff5bb1 :: u32)"
abbreviation (input) "T12 \<equiv> (0x895cd7be :: u32)"
abbreviation (input) "T13 \<equiv> (0x6b901122 :: u32)"
abbreviation (input) "T14 \<equiv> (0xfd987193 :: u32)"
abbreviation (input) "T15 \<equiv> (0xa679438e :: u32)"
abbreviation (input) "T16 \<equiv> (0x49b40821 :: u32)"
abbreviation (input) "T17 \<equiv> (0xf61e2562 :: u32)"
abbreviation (input) "T18 \<equiv> (0xc040b340 :: u32)"
abbreviation (input) "T19 \<equiv> (0x265e5a51 :: u32)"
abbreviation (input) "T20 \<equiv> (0xe9b6c7aa :: u32)"
abbreviation (input) "T21 \<equiv> (0xd62f105d :: u32)"
abbreviation (input) "T22 \<equiv> (0x02441453 :: u32)"
abbreviation (input) "T23 \<equiv> (0xd8a1e681 :: u32)"
abbreviation (input) "T24 \<equiv> (0xe7d3fbc8 :: u32)"
abbreviation (input) "T25 \<equiv> (0x21e1cde6 :: u32)"
abbreviation (input) "T26 \<equiv> (0xc33707d6 :: u32)"
abbreviation (input) "T27 \<equiv> (0xf4d50d87 :: u32)"
abbreviation (input) "T28 \<equiv> (0x455a14ed :: u32)"
abbreviation (input) "T29 \<equiv> (0xa9e3e905 :: u32)"
abbreviation (input) "T30 \<equiv> (0xfcefa3f8 :: u32)"
abbreviation (input) "T31 \<equiv> (0x676f02d9 :: u32)"
abbreviation (input) "T32 \<equiv> (0x8d2a4c8a :: u32)"
abbreviation (input) "T33 \<equiv> (0xfffa3942 :: u32)"
abbreviation (input) "T34 \<equiv> (0x8771f681 :: u32)"
abbreviation (input) "T35 \<equiv> (0x6d9d6122 :: u32)"
abbreviation (input) "T36 \<equiv> (0xfde5380c :: u32)"
abbreviation (input) "T37 \<equiv> (0xa4beea44 :: u32)"
abbreviation (input) "T38 \<equiv> (0x4bdecfa9 :: u32)"
abbreviation (input) "T39 \<equiv> (0xf6bb4b60 :: u32)"
abbreviation (input) "T40 \<equiv> (0xbebfbc70 :: u32)"
abbreviation (input) "T41 \<equiv> (0x289b7ec6 :: u32)"
abbreviation (input) "T42 \<equiv> (0xeaa127fa :: u32)"
abbreviation (input) "T43 \<equiv> (0xd4ef3085 :: u32)"
abbreviation (input) "T44 \<equiv> (0x04881d05 :: u32)"
abbreviation (input) "T45 \<equiv> (0xd9d4d039 :: u32)"
abbreviation (input) "T46 \<equiv> (0xe6db99e5 :: u32)"
abbreviation (input) "T47 \<equiv> (0x1fa27cf8 :: u32)"
abbreviation (input) "T48 \<equiv> (0xc4ac5665 :: u32)"
abbreviation (input) "T49 \<equiv> (0xf4292244 :: u32)"
abbreviation (input) "T50 \<equiv> (0x432aff97 :: u32)"
abbreviation (input) "T51 \<equiv> (0xab9423a7 :: u32)"
abbreviation (input) "T52 \<equiv> (0xfc93a039 :: u32)"
abbreviation (input) "T53 \<equiv> (0x655b59c3 :: u32)"
abbreviation (input) "T54 \<equiv> (0x8f0ccc92 :: u32)"
abbreviation (input) "T55 \<equiv> (0xffeff47d :: u32)"
abbreviation (input) "T56 \<equiv> (0x85845dd1 :: u32)"
abbreviation (input) "T57 \<equiv> (0x6fa87e4f :: u32)"
abbreviation (input) "T58 \<equiv> (0xfe2ce6e0 :: u32)"
abbreviation (input) "T59 \<equiv> (0xa3014314 :: u32)"
abbreviation (input) "T60 \<equiv> (0x4e0811a1 :: u32)"
abbreviation (input) "T61 \<equiv> (0xf7537e82 :: u32)"
abbreviation (input) "T62 \<equiv> (0xbd3af235 :: u32)"
abbreviation (input) "T63 \<equiv> (0x2ad7d2bb :: u32)"
abbreviation (input) "T64 \<equiv> (0xeb86d391 :: u32)"

definition md5_F :: "u32 \<Rightarrow> u32 \<Rightarrow> u32 \<Rightarrow> u32" where
  "md5_F x y z = (x AND y) OR (NOT x AND z)"

definition md5_G :: "u32 \<Rightarrow> u32 \<Rightarrow> u32 \<Rightarrow> u32" where
  "md5_G x y z = (x AND z) OR (y AND NOT z)"

definition md5_H :: "u32 \<Rightarrow> u32 \<Rightarrow> u32 \<Rightarrow> u32" where
  "md5_H x y z = x XOR y XOR z"

definition md5_I :: "u32 \<Rightarrow> u32 \<Rightarrow> u32 \<Rightarrow> u32" where
  "md5_I x y z = y XOR (x OR NOT z)"

text \<open>The four \<^verbatim>\<open>SET\<close> macros differ in the round function only.\<close>

definition md5_SET :: "(u32 \<Rightarrow> u32 \<Rightarrow> u32 \<Rightarrow> u32) \<Rightarrow> nat \<Rightarrow> nat \<Rightarrow> nat \<Rightarrow> nat \<Rightarrow> u32 \<Rightarrow> nat \<Rightarrow>
    u32 \<Rightarrow> u32 list \<Rightarrow> u32 list" where
  "md5_SET f a b c d xk s Ti r =
     (let t = r ! a + f (r ! b) (r ! c) (r ! d) + xk + Ti
      in r[a := ROTATE_LEFT t s + r ! b])"

definition md5_rounds :: "u32 list \<Rightarrow> (u32 list \<Rightarrow> u32 list) list" where
  "md5_rounds X =
     [md5_SET md5_F 0 1 2 3 (X ! 0) 7 T1, md5_SET md5_F 3 0 1 2 (X ! 1) 12 T2,
      md5_SET md5_F 2 3 0 1 (X ! 2) 17 T3, md5_SET md5_F 1 2 3 0 (X ! 3) 22 T4,
      md5_SET md5_F 0 1 2 3 (X ! 4) 7 T5, md5_SET md5_F 3 0 1 2 (X ! 5) 12 T6,
      md5_SET md5_F 2 3 0 1 (X ! 6) 17 T7, md5_SET md5_F 1 2 3 0 (X ! 7) 22 T8,
      md5_SET md5_F 0 1 2 3 (X ! 8) 7 T9, md5_SET md5_F 3 0 1 2 (X ! 9) 12 T10,
      md5_SET md5_F 2 3 0 1 (X ! 10) 17 T11, md5_SET md5_F 1 2 3 0 (X ! 11) 22 T12,
      md5_SET md5_F 0 1 2 3 (X ! 12) 7 T13, md5_SET md5_F 3 0 1 2 (X ! 13) 12 T14,
      md5_SET md5_F 2 3 0 1 (X ! 14) 17 T15, md5_SET md5_F 1 2 3 0 (X ! 15) 22 T16,
      md5_SET md5_G 0 1 2 3 (X ! 1) 5 T17, md5_SET md5_G 3 0 1 2 (X ! 6) 9 T18,
      md5_SET md5_G 2 3 0 1 (X ! 11) 14 T19, md5_SET md5_G 1 2 3 0 (X ! 0) 20 T20,
      md5_SET md5_G 0 1 2 3 (X ! 5) 5 T21, md5_SET md5_G 3 0 1 2 (X ! 10) 9 T22,
      md5_SET md5_G 2 3 0 1 (X ! 15) 14 T23, md5_SET md5_G 1 2 3 0 (X ! 4) 20 T24,
      md5_SET md5_G 0 1 2 3 (X ! 9) 5 T25, md5_SET md5_G 3 0 1 2 (X ! 14) 9 T26,
      md5_SET md5_G 2 3 0 1 (X ! 3) 14 T27, md5_SET md5_G 1 2 3 0 (X ! 8) 20 T28,
      md5_SET md5_G 0 1 2 3 (X ! 13) 5 T29, md5_SET md5_G 3 0 1 2 (X ! 2) 9 T30,
      md5_SET md5_G 2 3 0 1 (X ! 7) 14 T31, md5_SET md5_G 1 2 3 0 (X ! 12) 20 T32,
      md5_SET md5_H 0 1 2 3 (X ! 5) 4 T33, md5_SET md5_H 3 0 1 2 (X ! 8) 11 T34,
      md5_SET md5_H 2 3 0 1 (X ! 11) 16 T35, md5_SET md5_H 1 2 3 0 (X ! 14) 23 T36,
      md5_SET md5_H 0 1 2 3 (X ! 1) 4 T37, md5_SET md5_H 3 0 1 2 (X ! 4) 11 T38,
      md5_SET md5_H 2 3 0 1 (X ! 7) 16 T39, md5_SET md5_H 1 2 3 0 (X ! 10) 23 T40,
      md5_SET md5_H 0 1 2 3 (X ! 13) 4 T41, md5_SET md5_H 3 0 1 2 (X ! 0) 11 T42,
      md5_SET md5_H 2 3 0 1 (X ! 3) 16 T43, md5_SET md5_H 1 2 3 0 (X ! 6) 23 T44,
      md5_SET md5_H 0 1 2 3 (X ! 9) 4 T45, md5_SET md5_H 3 0 1 2 (X ! 12) 11 T46,
      md5_SET md5_H 2 3 0 1 (X ! 15) 16 T47, md5_SET md5_H 1 2 3 0 (X ! 2) 23 T48,
      md5_SET md5_I 0 1 2 3 (X ! 0) 6 T49, md5_SET md5_I 3 0 1 2 (X ! 7) 10 T50,
      md5_SET md5_I 2 3 0 1 (X ! 14) 15 T51, md5_SET md5_I 1 2 3 0 (X ! 5) 21 T52,
      md5_SET md5_I 0 1 2 3 (X ! 12) 6 T53, md5_SET md5_I 3 0 1 2 (X ! 3) 10 T54,
      md5_SET md5_I 2 3 0 1 (X ! 10) 15 T55, md5_SET md5_I 1 2 3 0 (X ! 1) 21 T56,
      md5_SET md5_I 0 1 2 3 (X ! 8) 6 T57, md5_SET md5_I 3 0 1 2 (X ! 15) 10 T58,
      md5_SET md5_I 2 3 0 1 (X ! 6) 15 T59, md5_SET md5_I 1 2 3 0 (X ! 13) 21 T60,
      md5_SET md5_I 0 1 2 3 (X ! 4) 6 T61, md5_SET md5_I 3 0 1 2 (X ! 11) 10 T62,
      md5_SET md5_I 2 3 0 1 (X ! 2) 15 T63, md5_SET md5_I 1 2 3 0 (X ! 9) 21 T64]"

definition md5_process :: "u32 list \<Rightarrow> u8 list \<Rightarrow> u32 list" where
  "md5_process abcd data =
     (let X = le_words data;
          r = c_seq (md5_rounds X) [abcd ! 0, abcd ! 1, abcd ! 2, abcd ! 3]
      in [abcd ! 0 + r ! 0, abcd ! 1 + r ! 1, abcd ! 2 + r ! 2, abcd ! 3 + r ! 3])"

definition md5_iv :: "u32 list" where
  "md5_iv = [0x67452301, 0xefcdab89, 0x98badcfe, 0x10325476]"

definition md5_init :: "md5_state_t \<Rightarrow> md5_state_t" where
  "md5_init pms = pms\<lparr>md5_count := [0, 0], md5_abcd := md5_iv\<rparr>"

text \<open>The loop \<^verbatim>\<open>for (; left >= 64; p += 64, left -= 64)\<close>; it leaves the state, the
  remaining data and their count.\<close>

function md5_append_loop :: "u32 list \<Rightarrow> u8 list \<Rightarrow> int \<Rightarrow> u32 list \<times> u8 list \<times> int" where
  "md5_append_loop abcd p left =
     (if 64 \<le> left then md5_append_loop (md5_process abcd (take 64 p)) (drop 64 p) (left - 64)
      else (abcd, p, left))"
  by pat_completeness auto
termination
  by (relation "measure (\<lambda>(abcd, p, left). nat left)") auto

declare md5_append_loop.simps [simp del]

definition md5_append_rest :: "md5_state_t \<Rightarrow> u8 list \<Rightarrow> int \<Rightarrow> md5_state_t" where
  "md5_append_rest pms p left =
     (case md5_append_loop (md5_abcd pms) p left of (abcd, p, left) \<Rightarrow>
        (let pms = pms\<lparr>md5_abcd := abcd\<rparr>
         in if left \<noteq> 0 then pms\<lparr>md5_buf := blit (md5_buf pms) 0 (take (nat left) p)\<rparr> else pms))"

definition md5_append :: "md5_state_t \<Rightarrow> u8 list \<Rightarrow> int \<Rightarrow> md5_state_t" where
  "md5_append pms data nbytes =
     (let offset = uint (drop_bit 3 (md5_count pms ! 0) AND 63);
          nbits = word_of_int (nbytes * 8)
      in if nbytes \<le> 0 then pms
         else
           (let count1 = md5_count pms ! 1 + word_of_int (nbytes div 2 ^ 29);
                count0 = md5_count pms ! 0 + nbits;
                count1 = (if count0 < nbits then count1 + 1 else count1);
                pms = pms\<lparr>md5_count := [count0, count1]\<rparr>
            in if offset \<noteq> 0 then
                 (let copy = (if offset + nbytes > 64 then 64 - offset else nbytes);
                      pms = pms\<lparr>md5_buf := blit (md5_buf pms) (nat offset) (take (nat copy) data)\<rparr>
                  in if offset + copy < 64 then pms
                     else md5_append_rest
                            (pms\<lparr>md5_abcd := md5_process (md5_abcd pms) (md5_buf pms)\<rparr>)
                            (drop (nat copy) data) (nbytes - copy))
               else md5_append_rest pms data nbytes))"

definition md5_pad :: "u8 list" where
  "md5_pad = 0x80 # replicate 63 0"

definition md5_finish :: "md5_state_t \<Rightarrow> u8 list \<times> md5_state_t" where
  "md5_finish pms =
     (let data = map (\<lambda>i. ucast (drop_bit ((i mod 4) * 8) (md5_count pms ! (i div 4)))) [0..<8];
          pms = md5_append pms md5_pad (uint (((55 - drop_bit 3 (md5_count pms ! 0)) AND 63) + 1));
          pms = md5_append pms data 8
      in (map (\<lambda>i. ucast (drop_bit ((i mod 4) * 8) (md5_abcd pms ! (i div 4)))) [0..<16], pms))"

section \<open>The context absorbs any split of a message\<close>

definition md5_wf :: "md5_state_t \<Rightarrow> bool" where
  "md5_wf c \<longleftrightarrow> length (md5_buf c) = 64"

definition md5_block_absorbed :: "md5_state_t \<Rightarrow> u8 list \<Rightarrow> bool" where
  "md5_block_absorbed c m \<longleftrightarrow> md_absorbed md5_process md5_iv (md5_abcd c) (md5_buf c) m"

definition md5_absorbed :: "md5_state_t \<Rightarrow> u8 list \<Rightarrow> bool" where
  "md5_absorbed c m \<longleftrightarrow> md5_block_absorbed c m \<and> md5_count c = bit_count (8 * length m)"

text \<open>Below this bound \<open>nbytes << 3\<close> fits an \<open>int\<close>.\<close>

abbreviation md5_limit :: nat where
  "md5_limit \<equiv> 268435455"

lemma md5_append_loop_chunks:
  "0 \<le> left \<Longrightarrow> nat left \<le> length p \<Longrightarrow>
   md5_append_loop abcd p left =
     (foldl md5_process abcd (chunks 64 (take (nat left) p)),
      drop (full_len 64 (take (nat left) p)) p, int (nat left mod 64))"
proof (induction abcd p left rule: md5_append_loop.induct)
  case (1 abcd p left)
  let ?d = "take (nat left) p"
  show ?case
  proof (cases "64 \<le> left")
    case True
    then have n: "nat (left - 64) = nat left - 64" "64 \<le> nat left" by simp_all
    have len: "length ?d = nat left" using "1.prems" by simp
    have tk: "take (nat (left - 64)) (drop 64 p) = drop 64 ?d"
      by (simp add: drop_take n)
    have fl: "full_len 64 ?d = full_len 64 (drop 64 ?d) + 64"
      using len n by (simp add: full_len_def le_div_geq)
    have ch: "chunks 64 ?d = take 64 p # chunks 64 (drop 64 ?d)"
      using len n chunks_step [of 64 ?d] by (simp add: min_absorb1)
    have md: "nat (left - 64) mod 64 = nat left mod 64"
      using n by (simp add: le_mod_geq [symmetric])
    have IH: "md5_append_loop (md5_process abcd (take 64 p)) (drop 64 p) (left - 64) =
        (foldl md5_process (md5_process abcd (take 64 p)) (chunks 64 (drop 64 ?d)),
         drop (full_len 64 (drop 64 ?d)) (drop 64 p), int (nat left mod 64))"
      using "1.IH" [OF True] True "1.prems" by (simp only: tk md) simp
    show ?thesis
      unfolding md5_append_loop.simps [of abcd p left] ch fl
      using True by (simp only: if_True IH foldl_Cons drop_drop)
  next
    case False
    with "1.prems" show ?thesis
      by (simp add: md5_append_loop.simps [of abcd p left] full_len_def)
  qed
qed

lemma md5_append_rest_absorbed:
  assumes abs: "md5_block_absorbed c m" and al: "length m mod 64 = 0"
    and left: "0 \<le> left" "nat left \<le> length p"
  shows "md5_block_absorbed (md5_append_rest c p left) (m @ take (nat left) p)"
    and "md5_count (md5_append_rest c p left) = md5_count c"
proof -
  let ?d = "take (nat left) p" and ?r = "nat left mod 64"
  have ld: "length ?d = nat left" using left by simp
  have len: "length (md5_buf c) = 64"
    using abs md_absorbed_length by (auto simp: md5_block_absorbed_def)
  have fl: "full_len 64 ?d + ?r = nat left"
    using ld by (simp add: full_len_def)
  have tl: "take ?r (drop (full_len 64 ?d) p) = tail_of 64 ?d"
    using fl by (simp add: tail_of_def drop_take) (metis add_diff_cancel_left')
  have loop: "md5_append_loop (md5_abcd c) p left =
      (foldl md5_process (md5_abcd c) (chunks 64 ?d), drop (full_len 64 ?d) p, int ?r)"
    by (rule md5_append_loop_chunks [OF left])
  have lt: "length (tail_of 64 ?d) = ?r" by (simp only: length_tail_of ld)
  have "?r < 64" by simp
  then have "length (blit (md5_buf c) 0 (tail_of 64 ?d)) = 64"
    and "take ?r (blit (md5_buf c) 0 (tail_of 64 ?d)) = tail_of 64 ?d"
    using len lt by (simp_all add: length_blit blit_def)
  moreover have "?r = 0 \<Longrightarrow> tail_of 64 ?d = []" using lt by simp
  ultimately show "md5_block_absorbed (md5_append_rest c p left) (m @ ?d)"
    using abs al len ld
    by (auto simp: md5_append_rest_def loop Let_def tl md5_block_absorbed_def
        intro!: md_absorbed_aligned)
  show "md5_count (md5_append_rest c p left) = md5_count c"
    by (simp add: md5_append_rest_def loop Let_def)
qed

lemma md5_offset:
  "md5_absorbed c m \<Longrightarrow> uint (drop_bit 3 (md5_count c ! 0) AND 63) = int (length m mod 64)"
  using bit_count_index [of "length m"] by (simp only: uint_nat md5_absorbed_def)

lemma md5_new_count:
  assumes "md5_absorbed c m" and "n \<le> md5_limit"
  shows "[md5_count c ! 0 + word_of_int (int n * 8),
     if md5_count c ! 0 + word_of_int (int n * 8) < word_of_int (int n * 8)
     then md5_count c ! 1 + word_of_int (int n div 2 ^ 29) + 1
     else md5_count c ! 1 + word_of_int (int n div 2 ^ 29)] = bit_count (8 * (length m + n))"
proof -
  have b: "push_bit 3 (of_nat n :: u32) = word_of_int (int n * 8)"
    by (simp add: push_bit_eq_mult)
  have d: "drop_bit 29 (of_nat n :: u32) = 0"
    using assms(2) by (subst drop_bit_29_of_nat) simp_all
  have z: "int n div 2 ^ 29 = 0" using assms(2) by simp
  have "n < 2 ^ 32" using assms(2) by simp
  from bit_count_add [OF this, of "length m"] assms(1) show ?thesis
    by (simp only: md5_absorbed_def b d z) simp
qed

lemma md5_append_absorbed:
  assumes abs: "md5_absorbed c m" and n: "n \<le> length d" "n \<le> md5_limit"
  shows "md5_absorbed (md5_append c d (int n)) (m @ take n d)"
proof (cases "n = 0")
  case True
  with abs show ?thesis by (simp add: md5_append_def)
next
  case False
  let ?ix = "length m mod 64" and ?cnt = "bit_count (8 * (length m + n))"
  let ?c = "c\<lparr>md5_count := ?cnt\<rparr>"
  have blk: "md5_block_absorbed ?c m"
    using abs by (simp add: md5_absorbed_def md5_block_absorbed_def)
  have unf: "md5_append c d (int n) =
    (if ?ix \<noteq> 0 then
       (let copy = (if ?ix + n > 64 then 64 - ?ix else n);
            pms = ?c\<lparr>md5_buf := blit (md5_buf c) ?ix (take copy d)\<rparr>
        in if ?ix + copy < 64 then pms
           else md5_append_rest (pms\<lparr>md5_abcd := md5_process (md5_abcd c) (md5_buf pms)\<rparr>)
             (drop copy d) (int (n - copy)))
     else md5_append_rest ?c d (int n))"
    using False md5_new_count [OF abs n(2)]
    by (auto simp: md5_append_def Let_def md5_offset [OF abs] of_nat_diff nat_diff_distrib' algebra_simps)
  show ?thesis
  proof (cases "?ix = 0")
    case True
    from md5_append_rest_absorbed [OF blk True, of "int n" d] n True False
    show ?thesis by (simp add: unf md5_absorbed_def)
  next
    case ix: False
    show ?thesis
    proof (cases "?ix + n < 64")
      case True
      with ix n have "md5_append c d (int n) = ?c\<lparr>md5_buf := blit (md5_buf c) ?ix (take n d)\<rparr>"
        by (simp add: unf Let_def)
      moreover have "md_absorbed md5_process md5_iv (md5_abcd c) (blit (md5_buf c) ?ix (take n d))
          (m @ take n d)"
        using blk True n by (intro md_absorbed_small) (simp_all add: md5_block_absorbed_def)
      ultimately show ?thesis
        using n by (simp add: md5_absorbed_def md5_block_absorbed_def)
    next
      case large: False
      define copy where "copy = 64 - ?ix"
      have cn: "copy \<le> n" using large by (simp add: copy_def)
      let ?buf = "blit (md5_buf c) ?ix (take copy d)"
      let ?c1 = "?c\<lparr>md5_buf := ?buf, md5_abcd := md5_process (md5_abcd c) ?buf\<rparr>"
      have "(if ?ix + n > 64 then 64 - ?ix else n) = copy" and "\<not> ?ix + copy < 64"
        using large by (auto simp: copy_def)
      with ix have app: "md5_append c d (int n) = md5_append_rest ?c1 (drop copy d) (int (n - copy))"
        by (simp add: unf Let_def)
      have ld: "length (take copy d) = 64 - ?ix" using cn n by (simp add: copy_def)
      have "md_absorbed md5_process md5_iv (md5_abcd c) (md5_buf c) m"
        using blk by (simp add: md5_block_absorbed_def)
      from md_absorbed_complete [OF this ld refl]
      have "md5_block_absorbed ?c1 (m @ take copy d)" and al: "length (m @ take copy d) mod 64 = 0"
        by (simp_all add: md5_block_absorbed_def)
      from md5_append_rest_absorbed [OF this, of "int (n - copy)" "drop copy d"] n cn
      have "md5_block_absorbed (md5_append c d (int n)) (m @ take copy d @ take (n - copy) (drop copy d))"
        and "md5_count (md5_append c d (int n)) = ?cnt"
        by (simp_all add: app del: of_nat_diff)
      moreover have "take copy d @ take (n - copy) (drop copy d) = take n d"
        using cn by (metis le_add_diff_inverse take_add)
      ultimately show ?thesis using n by (simp add: md5_absorbed_def)
    qed
  qed
qed

section \<open>The unrolled steps are the rounds of RFC 1321\<close>

definition md5_word_index :: "nat \<Rightarrow> nat" where
  "md5_word_index i =
     [i, (1 + 5 * i) mod 16, (5 + 3 * i) mod 16, (7 * i) mod 16] ! (i div 16)"

definition md5_shift :: "nat \<Rightarrow> nat" where
  "md5_shift i =
     [[7, 12, 17, 22], [5, 9, 14, 20], [4, 11, 16, 23], [6, 10, 15, 21]] ! (i div 16) ! (i mod 4)"

definition md5_fun :: "nat \<Rightarrow> u32 \<Rightarrow> u32 \<Rightarrow> u32 \<Rightarrow> u32" where
  "md5_fun i = [md5_F, md5_G, md5_H, md5_I] ! (i div 16)"

definition md5_T :: "u32 list" where
  "md5_T = [T1, T2, T3, T4, T5, T6, T7, T8, T9, T10, T11, T12,
     T13, T14, T15, T16, T17, T18, T19, T20, T21, T22, T23, T24,
     T25, T26, T27, T28, T29, T30, T31, T32, T33, T34, T35, T36,
     T37, T38, T39, T40, T41, T42, T43, T44, T45, T46, T47, T48,
     T49, T50, T51, T52, T53, T54, T55, T56, T57, T58, T59, T60, T61, T62, T63, T64]"

fun md5_step :: "u32 list \<Rightarrow> nat \<Rightarrow> regs4 \<Rightarrow> regs4" where
  "md5_step x i (a, b, c, d) =
     (d, ROTATE_LEFT (a + md5_fun i b c d + x ! md5_word_index i + md5_T ! i) (md5_shift i) + b, b, c)"

definition md5_compress :: "u32 list \<Rightarrow> u8 list \<Rightarrow> u32 list" where
  "md5_compress h block =
     (case fold (md5_step (le_words block)) [0..<64] (h ! 0, h ! 1, h ! 2, h ! 3) of
        (a, b, c, d) \<Rightarrow> [h ! 0 + a, h ! 1 + b, h ! 2 + c, h ! 3 + d])"

definition md5_digest :: "u8 list \<Rightarrow> u8 list" where
  "md5_digest m = le_bytes (md_hash md5_compress md5_iv len64_le m)"

definition md5_code_step :: "u32 list \<Rightarrow> nat \<Rightarrow> u32 list \<Rightarrow> u32 list" where
  "md5_code_step x i =
     md5_SET (md5_fun i) ((4 - i mod 4) mod 4) ((5 - i mod 4) mod 4)
       ((6 - i mod 4) mod 4) ((7 - i mod 4) mod 4) (x ! md5_word_index i) (md5_shift i) (md5_T ! i)"

lemma md5_rounds_steps: "md5_rounds x = map (md5_code_step x) [0..<64]"
  by (simp add: md5_rounds_def md5_code_step_def md5_word_index_def md5_shift_def md5_fun_def
      md5_T_def upt_step del: One_nat_def flip: numeral_2_eq_2)

lemma md5_code_step_regs: "md5_code_step x i (regs_at i t) = regs_at (Suc i) (md5_step x i t)"
  using mod4_next [of i]
  by (cases t; elim disjE conjE) (simp_all add: md5_code_step_def regs_at_def md5_SET_def Let_def)

lemma md5_process_compress: "md5_process h block = md5_compress h block"
proof -
  have "c_seq (md5_rounds x) (regs0 t) = regs0 (fold (md5_step x) [0..<64] t)" for x t
    using c_seq_regs [of 64 "md5_code_step x" "md5_step x" t] md5_code_step_regs
    by (simp add: md5_rounds_steps regs_at_def)
  from this [of "le_words block" "(h ! 0, h ! 1, h ! 2, h ! 3)"] show ?thesis
    unfolding md5_process_def md5_compress_def Let_def regs0.simps
    by (simp split: prod.splits)
qed

section \<open>Finishing yields the digest of RFC 1321\<close>

text \<open>The byte loops of \<open>md5_finish\<close>.\<close>

lemma bytes_loop_le_bytes:
  "map (\<lambda>i. ucast (drop_bit ((i mod 4) * 8) (ws ! (i div 4))) :: u8) [0..<4 * length ws] = le_bytes ws"
proof (induction ws rule: rev_induct)
  case (snoc w ws)
  let ?k = "4 * length ws"
  have "4 * length (ws @ [w]) = Suc (Suc (Suc (Suc ?k)))" by simp
  then have upt: "[0..<4 * length (ws @ [w])] = [0..<?k] @ [?k, ?k + 1, ?k + 2, ?k + 3]"
    by (simp only:) simp
  have old: "map (\<lambda>i. ucast (drop_bit ((i mod 4) * 8) ((ws @ [w]) ! (i div 4))) :: u8) [0..<?k] = le_bytes ws"
    unfolding snoc [symmetric] by (rule map_cong) (auto simp: nth_append div_less_iff_less_mult mult.commute)
  have "(?k + 1) div 4 = length ws" "(?k + 2) div 4 = length ws" "(?k + 3) div 4 = length ws"
    "(?k + 1) mod 4 = 1" "(?k + 2) mod 4 = 2" "(?k + 3) mod 4 = 3"
    by presburger+
  then show ?case
    unfolding upt map_append old by (simp add: le_bytes_def le_bytes32_def)
qed simp

lemma md5_pad_count:
  fixes w :: u32
  shows "uint ((55 - w AND 63) + 1) = int (Suc ((119 - unat w mod 64) mod 64))"
proof -
  have "55 - w AND 63 = take_bit 6 (55 - w)"
    by (simp add: take_bit_eq_mask mask_eq_exp_minus_1)
  then have "unat (55 - w AND 63) = unat (take_bit 6 (55 - w))" by (simp only:)
  also have "\<dots> = unat (55 - w) mod 64"
    by (simp only: unsigned_take_bit_eq) (simp add: take_bit_eq_mod)
  finally have u: "unat (55 - w AND 63) = unat (55 - w) mod 64" .
  have "int (unat (55 - w)) = (55 - int (unat w)) mod 2 ^ 32"
    by (simp add: uint_nat [symmetric] uint_word_ariths)
  then have "int (unat (55 - w) mod 64) = (55 - int (unat w)) mod 2 ^ 32 mod 64"
    by (simp only: of_nat_mod) simp
  also have "\<dots> = (55 - int (unat w)) mod 64"
    by (rule mod_mod_cancel) simp
  also have "\<dots> = (119 - int (unat w mod 64)) mod 64"
  proof -
    have "119 - int (unat w mod 64) = (55 - int (unat w)) + 64 * (1 + int (unat w div 64))"
      by (simp add: of_nat_mod of_nat_div minus_mult_div_eq_mod [symmetric])
    then show ?thesis by (simp only: mod_mult_self2)
  qed
  also have "\<dots> = int ((119 - unat w mod 64) mod 64)"
  proof -
    have "unat w mod 64 < 64" by simp
    then have "int (119 - unat w mod 64) = 119 - int (unat w mod 64)" by linarith
    then show ?thesis by (simp only: of_nat_mod) simp
  qed
  finally have m: "unat (55 - w) mod 64 = (119 - unat w mod 64) mod 64" by (simp only: of_nat_eq_iff)
  have "unat ((55 - w AND 63) + 1) = Suc ((119 - unat w mod 64) mod 64)"
    by (simp only: unat_word_ariths u m) simp
  then show ?thesis by (simp only: uint_nat)
qed

lemma length_md5_process [simp, c_len]: "length (md5_process h b) = 4"
  by (simp add: md5_process_def Let_def)

lemma length_md5_chain: "length (foldl md5_process md5_iv bs) = 4"
  by (induction bs rule: rev_induct) (simp_all add: md5_iv_def)

lemma md5_finish_digest:
  assumes abs: "md5_absorbed c m"
  shows "fst (md5_finish c) = md5_digest m"
proof -
  let ?z = "(119 - length m mod 64) mod 64"
  let ?pl = "(55 - drop_bit 3 (md5_count c ! 0) AND 63) + 1"
  have "unat (drop_bit 3 (md5_count c ! 0)) mod 64 = length m mod 64"
    using bit_count_index [of "length m"] abs
    by (simp only: md5_absorbed_def unat_drop3_and63 unat_drop3)
  then have pl: "uint ?pl = int (Suc ?z)"
    by (simp only: md5_pad_count)
  have z: "?z < 64" by simp
  then have pad: "take (Suc ?z) md5_pad = 0x80 # replicate ?z 0" and lp: "Suc ?z \<le> length md5_pad"
    by (simp_all add: md5_pad_def)
  let ?c1 = "md5_append c md5_pad (uint ?pl)"
  have c1: "md5_absorbed ?c1 (m @ 0x80 # replicate ?z 0)"
    using md5_append_absorbed [OF abs lp] z by (simp add: pl pad del: of_nat_Suc)
  have bits: "map (\<lambda>i. ucast (drop_bit ((i mod 4) * 8) (md5_count c ! (i div 4))) :: u8) [0..<8]
      = len64_le (8 * length m)"
    using bytes_loop_le_bytes [of "md5_count c"] abs by (simp add: md5_absorbed_def len64_le_def)
  let ?c2 = "md5_append ?c1 (len64_le (8 * length m)) 8"
  have l8: "length (len64_le (8 * length m)) = 8" by (simp add: len64_le_def)
  have c2: "md5_absorbed ?c2 (md_pad len64_le m)"
    using md5_append_absorbed [OF c1, of 8 "len64_le (8 * length m)"] l8 by (simp add: md_pad_def)
  then have st: "md5_abcd ?c2 = md_hash md5_process md5_iv len64_le m"
    using l8 by (intro md_absorbed_padded) (auto simp: md5_absorbed_def md5_block_absorbed_def)
  have "fst (md5_finish c) = map (\<lambda>i. ucast (drop_bit ((i mod 4) * 8) (md5_abcd ?c2 ! (i div 4)))) [0..<16]"
    by (simp only: md5_finish_def Let_def bits fst_conv)
  also have "\<dots> = le_bytes (md_hash md5_process md5_iv len64_le m)"
    using bytes_loop_le_bytes [of "md5_abcd ?c2"] by (simp add: st md_hash_def length_md5_chain)
  also have "\<dots> = md5_digest m"
    unfolding md5_digest_def by (subst md_hash_cong [OF md5_process_compress]) simp_all
  finally show ?thesis .
qed

interpretation md5: stream_hash md5_init "\<lambda>c d n. Some (md5_append c d (int n))"
  "\<lambda>c. Some (fst (md5_finish c))" md5_wf md5_absorbed md5_limit md5_digest
proof (unfold_locales, goal_cases)
  case (1 c)
  then show ?case
    by (simp add: md5_absorbed_def md5_block_absorbed_def md5_wf_def md5_init_def
        md_absorbed_init bit_count_def)
next
  case (2 c m n d)
  then show ?case by (simp add: md5_append_absorbed)
next
  case (3 c m)
  then show ?case by (simp add: md5_finish_digest)
qed

section \<open>Properties\<close>

text \<open>C1: Hashing a message in any pieces with \<open>md5_init\<close>, one \<open>md5_append\<close> per piece and
  \<open>md5_finish\<close> yields the MD5 digest of RFC 1321 of the concatenated message, for pieces
  short enough for \<^verbatim>\<open>nbytes << 3\<close> not to overflow.\<close>

theorem md5_streaming:
  assumes "length (md5_buf c) = 64" and "\<forall>d \<in> set ds. length d \<le> 268435455"
  shows "fst (md5_finish (foldl (\<lambda>c d. md5_append c d (int (length d))) (md5_init c) ds)) = md5_digest (concat ds)"
  using md5.split_independent [of c ds] assms by (simp add: md5_wf_def append_all_Some)

lemma md5_streaming_witness:
  "fst (md5_finish (md5_append (md5_append
      (md5_init \<lparr>md5_count = [], md5_abcd = [], md5_buf = replicate 64 7\<rparr>) [0x61] 1) [0x62, 0x63] 2))
   = md5_digest [0x61, 0x62, 0x63]"
  using md5_streaming [of "\<lparr>md5_count = [], md5_abcd = [], md5_buf = replicate 64 7\<rparr>" "[[0x61], [0x62, 0x63]]"]
  by simp

text \<open>C30: The unrolled and register-renamed 64 operations of \<open>md5_process\<close> compute the
  compression function of RFC 1321, a loop over the tables of words, shifts and constants.\<close>

theorem md5_process_rfc: "md5_process h block = md5_compress h block"
  by (rule md5_process_compress)

end
