(* ===== verification/SHA1.thy ===== *)
theory SHA1
  imports Stream_Hash
begin

text \<open>
  The SHA-1 digest of \<^verbatim>\<open>src/src/utils/lib/sha1_c.c\<close> and \<^verbatim>\<open>sha1_c.h\<close>: the context
  with its 16-word buffer, the cycle macros, \<^verbatim>\<open>sha1_compile\<close>, \<^verbatim>\<open>sha1_begin\<close>,
  \<^verbatim>\<open>sha1_hash\<close>, \<^verbatim>\<open>sha1_end\<close>, for a little-endian target (\<^verbatim>\<open>SWAP_BYTES\<close>
  defined, \<^verbatim>\<open>ARRAY\<close> not). Bytes are copied into the word buffer through a
  pointer cast and the words are swapped in place before each compilation. Shown: the
  cycles over the circular 16-word schedule are the 80 steps of FIPS 180 over the full
  schedule, any split of a message is absorbed, and \<open>sha1_end\<close>, which pads
  inside the word buffer, yields the digest of FIPS 180.
\<close>

section \<open>Model\<close>

record sha1_context =
  sha1_count :: "u32 list"
  sha1_hashv :: "u32 list"
  sha1_wbuf :: "u32 list"

definition rotl32 :: "u32 \<Rightarrow> nat \<Rightarrow> u32" where
  "rotl32 x n = push_bit n x OR drop_bit (32 - n) x"

definition rotr32 :: "u32 \<Rightarrow> nat \<Rightarrow> u32" where
  "rotr32 x n = drop_bit n x OR push_bit (32 - n) x"

definition bswap_32 :: "u32 \<Rightarrow> u32" where
  "bswap_32 x = (rotr32 x 24 AND 0x00ff00ff) OR (rotr32 x 8 AND 0xff00ff00)"

text \<open>\<^verbatim>\<open>bsw_32 (p, n)\<close> swaps the first \<open>n\<close> words.\<close>

definition bsw_32 :: "u32 list \<Rightarrow> nat \<Rightarrow> u32 list" where
  "bsw_32 p n = map bswap_32 (take n p) @ drop n p"

definition ch :: "u32 \<Rightarrow> u32 \<Rightarrow> u32 \<Rightarrow> u32" where
  "ch x y z = z XOR (x AND (y XOR z))"

definition parity :: "u32 \<Rightarrow> u32 \<Rightarrow> u32 \<Rightarrow> u32" where
  "parity x y z = x XOR y XOR z"

definition maj :: "u32 \<Rightarrow> u32 \<Rightarrow> u32 \<Rightarrow> u32" where
  "maj x y z = (x AND y) OR (z AND (x XOR y))"

text \<open>The state of \<open>sha1_compile\<close>: the schedule words \<open>w\<close> and the five registers.
  \<open>hf\<close> is the first \<^verbatim>\<open>hf(i)\<close> (a read), \<open>hf_next\<close> the second (an
  update of the circular schedule whose value is used).\<close>

type_synonym sha1_st = "u32 list \<times> u32 list"

definition hf :: "nat \<Rightarrow> u32 list \<Rightarrow> u32 list \<times> u32" where
  "hf i w = (w, w ! i)"

definition hf_next :: "nat \<Rightarrow> u32 list \<Rightarrow> u32 list \<times> u32" where
  "hf_next i w =
     (let x = rotl32 (w ! ((i + 13) mod 16) XOR w ! ((i + 8) mod 16)
                      XOR w ! ((i + 2) mod 16) XOR w ! (i mod 16)) 1
      in (w[i mod 16 := x], x))"

definition one_cycle :: "nat \<Rightarrow> nat \<Rightarrow> nat \<Rightarrow> nat \<Rightarrow> nat \<Rightarrow> (u32 \<Rightarrow> u32 \<Rightarrow> u32 \<Rightarrow> u32) \<Rightarrow>
    u32 \<Rightarrow> (u32 list \<Rightarrow> u32 list \<times> u32) \<Rightarrow> sha1_st \<Rightarrow> sha1_st" where
  "one_cycle a b c d e f k h st =
     (case st of (w, v) \<Rightarrow> (case h w of (w', hv) \<Rightarrow>
        (let v = v[e := v ! e + (rotr32 (v ! a) 27 + f (v ! b) (v ! c) (v ! d) + k + hv)]
         in (w', v[b := rotr32 (v ! b) 2]))))"

definition five_cycle :: "(u32 \<Rightarrow> u32 \<Rightarrow> u32 \<Rightarrow> u32) \<Rightarrow> u32 \<Rightarrow>
    (nat \<Rightarrow> u32 list \<Rightarrow> u32 list \<times> u32) \<Rightarrow> nat \<Rightarrow> (sha1_st \<Rightarrow> sha1_st) list" where
  "five_cycle f k g i =
     [one_cycle 0 1 2 3 4 f k (g i), one_cycle 4 0 1 2 3 f k (g (i + 1)),
      one_cycle 3 4 0 1 2 f k (g (i + 2)), one_cycle 2 3 4 0 1 f k (g (i + 3)),
      one_cycle 1 2 3 4 0 f k (g (i + 4))]"

definition sha1_cycles :: "(sha1_st \<Rightarrow> sha1_st) list" where
  "sha1_cycles =
     five_cycle ch 0x5a827999 hf 0 @ five_cycle ch 0x5a827999 hf 5 @
     five_cycle ch 0x5a827999 hf 10 @
     [one_cycle 0 1 2 3 4 ch 0x5a827999 (hf 15),
      one_cycle 4 0 1 2 3 ch 0x5a827999 (hf_next 16),
      one_cycle 3 4 0 1 2 ch 0x5a827999 (hf_next 17),
      one_cycle 2 3 4 0 1 ch 0x5a827999 (hf_next 18),
      one_cycle 1 2 3 4 0 ch 0x5a827999 (hf_next 19)] @
     five_cycle parity 0x6ed9eba1 hf_next 20 @ five_cycle parity 0x6ed9eba1 hf_next 25 @
     five_cycle parity 0x6ed9eba1 hf_next 30 @ five_cycle parity 0x6ed9eba1 hf_next 35 @
     five_cycle maj 0x8f1bbcdc hf_next 40 @ five_cycle maj 0x8f1bbcdc hf_next 45 @
     five_cycle maj 0x8f1bbcdc hf_next 50 @ five_cycle maj 0x8f1bbcdc hf_next 55 @
     five_cycle parity 0xca62c1d6 hf_next 60 @ five_cycle parity 0xca62c1d6 hf_next 65 @
     five_cycle parity 0xca62c1d6 hf_next 70 @ five_cycle parity 0xca62c1d6 hf_next 75"

definition sha1_compile :: "sha1_context \<Rightarrow> sha1_context" where
  "sha1_compile ctx =
     (let h = sha1_hashv ctx;
          (w, v) = c_seq sha1_cycles (sha1_wbuf ctx, [h ! 0, h ! 1, h ! 2, h ! 3, h ! 4])
      in ctx\<lparr>sha1_wbuf := w,
            sha1_hashv := [h ! 0 + v ! 0, h ! 1 + v ! 1, h ! 2 + v ! 2, h ! 3 + v ! 3, h ! 4 + v ! 4]\<rparr>)"

definition sha1_iv :: "u32 list" where
  "sha1_iv = [0x67452301, 0xefcdab89, 0x98badcfe, 0x10325476, 0xc3d2e1f0]"

definition sha1_begin :: "sha1_context \<Rightarrow> sha1_context" where
  "sha1_begin ctx = ctx\<lparr>sha1_count := [0, 0], sha1_hashv := sha1_iv\<rparr>"

text \<open>\<^verbatim>\<open>memcpy (((unsigned char *) ctx->wbuf) + pos, sp, n)\<close>.\<close>

definition wbuf_copy :: "u32 list \<Rightarrow> nat \<Rightarrow> u8 list \<Rightarrow> u32 list" where
  "wbuf_copy wbuf pos src = le_words (blit (le_bytes wbuf) pos src)"

text \<open>The loop of \<open>sha1_hash\<close>: \<open>pos\<close> bytes of the buffer are taken, so
  \<open>space = 64 - pos\<close>; the result is the context, the data left and their position.\<close>

function sha1_hash_loop :: "sha1_context \<Rightarrow> u8 list \<Rightarrow> nat \<Rightarrow> nat \<Rightarrow> sha1_context \<times> u8 list \<times> nat \<times> nat" where
  "sha1_hash_loop ctx sp len pos =
     (let space = 64 - pos
      in if 0 < space \<and> space \<le> len then
           (let wbuf = wbuf_copy (sha1_wbuf ctx) pos (take space sp);
                ctx = sha1_compile (ctx\<lparr>sha1_wbuf := bsw_32 wbuf 16\<rparr>)
            in sha1_hash_loop ctx (drop space sp) (len - space) 0)
         else (ctx, sp, len, pos))"
  by pat_completeness auto
termination
  by (relation "measure (\<lambda>(ctx, sp, len, pos). len)") auto

declare sha1_hash_loop.simps [simp del]

definition sha1_hash :: "sha1_context \<Rightarrow> u8 list \<Rightarrow> nat \<Rightarrow> sha1_context" where
  "sha1_hash ctx data len =
     (let pos = unat (sha1_count ctx ! 0 AND 63);
          count0 = sha1_count ctx ! 0 + of_nat len;
          count1 = (if unat count0 < len then sha1_count ctx ! 1 + 1 else sha1_count ctx ! 1)
      in case sha1_hash_loop (ctx\<lparr>sha1_count := [count0, count1]\<rparr>) data len pos of
           (ctx, sp, len, pos) \<Rightarrow>
             ctx\<lparr>sha1_wbuf := wbuf_copy (sha1_wbuf ctx) pos (take len sp)\<rparr>)"

text \<open>\<^verbatim>\<open>while (i < 14) ctx->wbuf[i++] = 0;\<close>\<close>

definition zero_words :: "u32 list \<Rightarrow> nat \<Rightarrow> u32 list" where
  "zero_words w i = fold (\<lambda>j w. w[j := 0]) [i..<14] w"

definition sha1_end :: "sha1_context \<Rightarrow> u8 list \<times> sha1_context" where
  "sha1_end ctx =
     (let i = unat (sha1_count ctx ! 0 AND 63);
          sh = 8 * (3 - i mod 4);
          w = bsw_32 (sha1_wbuf ctx) ((i + 3) div 4);
          w = w[i div 4 := w ! (i div 4) AND push_bit sh 0xffffff80];
          w = w[i div 4 := w ! (i div 4) OR push_bit sh 0x00000080];
          ctx = ctx\<lparr>sha1_wbuf := w\<rparr>;
          (i, ctx) =
            (if i > 64 - 9 then
               (0, sha1_compile (if i < 60 then ctx\<lparr>sha1_wbuf := (sha1_wbuf ctx)[15 := 0]\<rparr> else ctx))
             else (i div 4 + 1, ctx));
          w = zero_words (sha1_wbuf ctx) i;
          w = w[14 := push_bit 3 (sha1_count ctx ! 1) OR drop_bit 29 (sha1_count ctx ! 0)];
          w = w[15 := push_bit 3 (sha1_count ctx ! 0)];
          ctx = sha1_compile (ctx\<lparr>sha1_wbuf := w\<rparr>)
      in (map (\<lambda>i. ucast (drop_bit (8 * (3 - i mod 4)) (sha1_hashv ctx ! (i div 4)))) [0..<20], ctx))"

text \<open>\<^verbatim>\<open>sha1\<close> works on a local context, whatever it holds.\<close>

definition sha1 :: "sha1_context \<Rightarrow> u8 list \<Rightarrow> nat \<Rightarrow> u8 list" where
  "sha1 cx data len = fst (sha1_end (sha1_hash (sha1_begin cx) data len))"

section \<open>The cycles are the 80 steps of FIPS 180\<close>

type_synonym regs5 = "u32 \<times> u32 \<times> u32 \<times> u32 \<times> u32"

fun sha1_W :: "u32 list \<Rightarrow> nat \<Rightarrow> u32" where
  "sha1_W m t =
     (if t < 16 then m ! t
      else rotl32 (sha1_W m (t - 3) XOR sha1_W m (t - 8) XOR sha1_W m (t - 14) XOR sha1_W m (t - 16)) 1)"

declare sha1_W.simps [simp del]

definition sha1_f :: "nat \<Rightarrow> u32 \<Rightarrow> u32 \<Rightarrow> u32 \<Rightarrow> u32" where
  "sha1_f t b c d =
     (if t < 20 then (b AND c) XOR (NOT b AND d)
      else if t < 40 then b XOR c XOR d
      else if t < 60 then (b AND c) XOR (b AND d) XOR (c AND d)
      else b XOR c XOR d)"

definition sha1_K :: "nat \<Rightarrow> u32" where
  "sha1_K t =
     (if t < 20 then 0x5a827999 else if t < 40 then 0x6ed9eba1
      else if t < 60 then 0x8f1bbcdc else 0xca62c1d6)"

fun sha1_step :: "u32 list \<Rightarrow> nat \<Rightarrow> regs5 \<Rightarrow> regs5" where
  "sha1_step m t (a, b, c, d, e) =
     (rotl32 a 5 + sha1_f t b c d + e + sha1_K t + sha1_W m t, a, rotl32 b 30, c, d)"

definition sha1_block :: "u32 list \<Rightarrow> u32 list \<Rightarrow> u32 list" where
  "sha1_block h m =
     (case fold (sha1_step m) [0..<80] (h ! 0, h ! 1, h ! 2, h ! 3, h ! 4) of
        (a, b, c, d, e) \<Rightarrow> [h ! 0 + a, h ! 1 + b, h ! 2 + c, h ! 3 + d, h ! 4 + e])"

lemma ch_standard: "ch x y z = (x AND y) XOR (NOT x AND z)"
  by (rule bit_word_eqI) (auto simp: ch_def bit_simps)

lemma maj_standard: "maj x y z = (x AND y) XOR (x AND z) XOR (y AND z)"
  by (rule bit_word_eqI) (auto simp: maj_def bit_simps)

lemma rotr_rotl: "rotr32 x 27 = rotl32 x 5" "rotr32 x 2 = rotl32 x 30"
  by (simp_all add: rotr32_def rotl32_def or.commute)

text \<open>After \<open>i\<close> cycles the roles of the five places have moved \<open>i\<close> times.\<close>

fun rot5 :: "nat \<Rightarrow> regs5 \<Rightarrow> u32 list" where
  "rot5 r (a, b, c, d, e) =
     [[a, b, c, d, e], [b, c, d, e, a], [c, d, e, a, b], [d, e, a, b, c], [e, a, b, c, d]] ! r"

definition sha1_code_f :: "nat \<Rightarrow> u32 \<Rightarrow> u32 \<Rightarrow> u32 \<Rightarrow> u32" where
  "sha1_code_f t = (if t < 20 then ch else if t < 40 then parity else if t < 60 then maj else parity)"

definition sha1_code_step :: "nat \<Rightarrow> sha1_st \<Rightarrow> sha1_st" where
  "sha1_code_step t =
     one_cycle ((5 - t mod 5) mod 5) ((6 - t mod 5) mod 5) ((7 - t mod 5) mod 5)
       ((8 - t mod 5) mod 5) ((9 - t mod 5) mod 5)
       (sha1_code_f t) (sha1_K t) (if t < 16 then hf t else hf_next t)"

lemma sha1_cycles_steps: "sha1_cycles = map sha1_code_step [0..<80]"
  by (simp add: sha1_cycles_def five_cycle_def sha1_code_step_def sha1_code_f_def sha1_K_def
      upt_step del: One_nat_def flip: One_nat_def)

lemma sha1_code_f_eq: "sha1_code_f t = sha1_f t"
  by (intro ext) (simp add: sha1_code_f_def sha1_f_def ch_standard maj_standard parity_def)

text \<open>The circular buffer holds the sixteen schedule words needed next.\<close>

definition sched :: "u32 list \<Rightarrow> nat \<Rightarrow> u32 list \<Rightarrow> bool" where
  "sched m i w \<longleftrightarrow> length w = 16 \<and> (\<forall>t. t < max 16 i \<and> i \<le> t + 16 \<longrightarrow> w ! (t mod 16) = sha1_W m t)"

lemma sched_0: "length m = 16 \<Longrightarrow> sched m 0 m"
  by (simp add: sched_def sha1_W.simps)

lemma sched_hf:
  assumes "sched m i w" and "i < 16"
  shows "hf i w = (w, sha1_W m i)" and "sched m (Suc i) w"
proof -
  have "w ! (i mod 16) = sha1_W m i" using assms by (auto simp: sched_def)
  with assms(2) show "hf i w = (w, sha1_W m i)" by (simp add: hf_def)
  show "sched m (Suc i) w" using assms by (auto simp: sched_def)
qed

lemma sched_hf_next:
  assumes s: "sched m i w" and i: "16 \<le> i"
  shows "hf_next i w = (w[i mod 16 := sha1_W m i], sha1_W m i)"
    and "sched m (Suc i) (w[i mod 16 := sha1_W m i])"
proof -
  have get: "w ! (t mod 16) = sha1_W m t" if "t < i" "i \<le> t + 16" for t
    using s i that by (simp add: sched_def)
  have ix: "(i + 13) mod 16 = (i - 3) mod 16" "(i + 8) mod 16 = (i - 8) mod 16"
    "(i + 2) mod 16 = (i - 14) mod 16" "i mod 16 = (i - 16) mod 16"
  proof -
    have "i + 13 = (i - 3) + 16" "i + 8 = (i - 8) + 16" "i + 2 = (i - 14) + 16" "i = (i - 16) + 16"
      using i by simp_all
    then show "(i + 13) mod 16 = (i - 3) mod 16" "(i + 8) mod 16 = (i - 8) mod 16"
      "(i + 2) mod 16 = (i - 14) mod 16" "i mod 16 = (i - 16) mod 16"
      by (metis mod_add_self2)+
  qed
  have "rotl32 (w ! ((i + 13) mod 16) XOR w ! ((i + 8) mod 16)
      XOR w ! ((i + 2) mod 16) XOR w ! (i mod 16)) 1 = sha1_W m i"
    using i by (simp only: ix) (simp add: get sha1_W.simps [of m i])
  then show "hf_next i w = (w[i mod 16 := sha1_W m i], sha1_W m i)"
    by (simp add: hf_next_def Let_def)
  have "w[i mod 16 := sha1_W m i] ! (t mod 16) = sha1_W m t"
    if t: "t < Suc i" "Suc i \<le> t + 16" for t
  proof (cases "t = i")
    case True
    with s show ?thesis by (simp add: sched_def)
  next
    case False
    with t have "t < i" "i - t < 16" by simp_all
    then have "\<not> 16 dvd (i - t)" by (auto dest: dvd_imp_le)
    with \<open>t < i\<close> have "t mod 16 \<noteq> i mod 16"
      using mod_eq_dvd_iff_nat [of t i 16] by auto
    with t False show ?thesis by (simp add: get)
  qed
  with s i show "sched m (Suc i) (w[i mod 16 := sha1_W m i])"
    by (simp add: sched_def)
qed

lemma one_cycle_rot5:
  assumes h: "h w = (w', hv)" and r: "r < 5"
  shows "one_cycle ((5 - r) mod 5) ((6 - r) mod 5) ((7 - r) mod 5) ((8 - r) mod 5) ((9 - r) mod 5)
      f k h (w, rot5 r (a, b, c, d, e)) =
    (w', rot5 (Suc r mod 5) (rotl32 a 5 + f b c d + e + k + hv, a, rotl32 b 30, c, d))"
proof -
  have "r = 0 \<or> r = 1 \<or> r = 2 \<or> r = 3 \<or> r = 4" using r by linarith
  then show ?thesis
    by (elim disjE; hypsubst) (simp_all add: one_cycle_def h Let_def rotr_rotl algebra_simps)
qed

lemma c_seq_sha1:
  "length m = 16 \<Longrightarrow> n \<le> 80 \<Longrightarrow>
   \<exists>w. sched m n w \<and> c_seq (map sha1_code_step [0..<n]) (m, rot5 0 t) =
     (w, rot5 (n mod 5) (fold (sha1_step m) [0..<n] t))"
proof (induction n)
  case 0
  then show ?case by (auto intro: sched_0)
next
  case (Suc n)
  then obtain w where w: "sched m n w" and
    IH: "c_seq (map sha1_code_step [0..<n]) (m, rot5 0 t) =
      (w, rot5 (n mod 5) (fold (sha1_step m) [0..<n] t))" by auto
  obtain a b c d e where t: "fold (sha1_step m) [0..<n] t = (a, b, c, d, e)"
    by (metis prod_cases5)
  obtain w' where w': "(if n < 16 then hf n else hf_next n) w = (w', sha1_W m n)" "sched m (Suc n) w'"
    using sched_hf [OF w] sched_hf_next [OF w] by (cases "n < 16") auto
  have "sha1_code_step n (w, rot5 (n mod 5) (a, b, c, d, e)) =
      (w', rot5 (Suc n mod 5) (sha1_step m n (a, b, c, d, e)))"
    unfolding sha1_code_step_def
    by (subst one_cycle_rot5 [where h = "if n < 16 then hf n else hf_next n", OF w'(1)]) (simp_all add: sha1_code_f_eq mod_Suc_eq)
  with IH t w'(2) show ?case by (auto simp: c_seq_append)
qed

lemma sha1_compile_block:
  assumes "length (sha1_wbuf ctx) = 16"
  shows "sha1_hashv (sha1_compile ctx) = sha1_block (sha1_hashv ctx) (sha1_wbuf ctx)"
    and "length (sha1_wbuf (sha1_compile ctx)) = 16"
    and "sha1_count (sha1_compile ctx) = sha1_count ctx"
proof -
  let ?h = "sha1_hashv ctx" and ?m = "sha1_wbuf ctx"
  let ?t = "(?h ! 0, ?h ! 1, ?h ! 2, ?h ! 3, ?h ! 4)"
  obtain w where w: "sched ?m 80 w" and
    c: "c_seq sha1_cycles (?m, rot5 0 ?t) = (w, rot5 0 (fold (sha1_step ?m) [0..<80] ?t))"
    using c_seq_sha1 [OF assms, of 80 ?t] by (auto simp: sha1_cycles_steps)
  obtain a b c d e where f: "fold (sha1_step ?m) [0..<80] ?t = (a, b, c, d, e)"
    by (metis prod_cases5)
  from c f have "c_seq sha1_cycles (?m, [?h ! 0, ?h ! 1, ?h ! 2, ?h ! 3, ?h ! 4]) = (w, [a, b, c, d, e])"
    by simp
  then show "sha1_hashv (sha1_compile ctx) = sha1_block ?h ?m"
    and "length (sha1_wbuf (sha1_compile ctx)) = 16"
    and "sha1_count (sha1_compile ctx) = sha1_count ctx"
    using f w by (simp_all add: sha1_compile_def sha1_block_def sched_def Let_def)
qed

section \<open>The context absorbs any split of a message\<close>

definition be_words :: "u8 list \<Rightarrow> u32 list" where
  "be_words bs = map bswap_32 (le_words bs)"

definition sha1_T :: "u32 list \<Rightarrow> u8 list \<Rightarrow> u32 list" where
  "sha1_T h block = sha1_block h (be_words block)"

lemma bswap_32_le_word32: "bswap_32 (le_word32 b0 b1 b2 b3) = le_word32 b3 b2 b1 b0"
proof (rule bit_word_eqI)
  have masks: "(0x00ff00ff :: u32) = mask 8 OR push_bit 16 (mask 8)"
    "(0xff00ff00 :: u32) = push_bit 8 (mask 8) OR push_bit 24 (mask 8)"
    by (simp_all add: mask_eq_exp_minus_1)
  fix n assume "n < LENGTH(32)"
  then consider "n < 8" | "8 \<le> n" "n < 16" | "16 \<le> n" "n < 24" | "24 \<le> n" "n < 32"
    by fastforce
  then show "bit (bswap_32 (le_word32 b0 b1 b2 b3)) n = bit (le_word32 b3 b2 b1 b0) n"
    unfolding bswap_32_def rotr32_def le_word32_def masks
    by cases (auto simp: bit_simps)
qed

definition sha1_wf :: "sha1_context \<Rightarrow> bool" where
  "sha1_wf c \<longleftrightarrow> length (sha1_wbuf c) = 16"

definition sha1_block_absorbed :: "sha1_context \<Rightarrow> u8 list \<Rightarrow> bool" where
  "sha1_block_absorbed c m \<longleftrightarrow> md_absorbed sha1_T sha1_iv (sha1_hashv c) (le_bytes (sha1_wbuf c)) m"

text \<open>This counter counts bytes.\<close>

definition sha1_absorbed :: "sha1_context \<Rightarrow> u8 list \<Rightarrow> bool" where
  "sha1_absorbed c m \<longleftrightarrow> sha1_block_absorbed c m \<and> sha1_count c = bit_count (length m)"

abbreviation sha1_limit :: nat where
  "sha1_limit \<equiv> 4294967295"

lemma sha1_block_absorbed_len: "sha1_block_absorbed c m \<Longrightarrow> length (sha1_wbuf c) = 16"
  by (auto simp: sha1_block_absorbed_def dest: md_absorbed_length)

lemma le_bytes_wbuf_copy:
  "pos + length src \<le> 64 \<Longrightarrow> length w = 16 \<Longrightarrow>
   le_bytes (wbuf_copy w pos src) = blit (le_bytes w) pos src"
  by (simp add: wbuf_copy_def le_bytes_le_words length_blit)

lemma sha1_hash_loop_absorbed:
  "sha1_block_absorbed c m \<Longrightarrow> pos = length m mod 64 \<Longrightarrow> len \<le> length sp \<Longrightarrow>
   sha1_hash_loop c sp len pos = (c', sp', len', pos') \<Longrightarrow>
   \<exists>k. len = k + len' \<and> sp' = drop k sp \<and> pos' = length (m @ take k sp) mod 64 \<and>
       pos' + len' < 64 \<and> sha1_count c' = sha1_count c \<and> sha1_block_absorbed c' (m @ take k sp)"
proof (induction c sp len pos arbitrary: m rule: sha1_hash_loop.induct)
  case (1 c sp len pos)
  have pos: "pos < 64" using "1.prems" by simp
  show ?case
  proof (cases "64 - pos \<le> len")
    case False
    then have "sha1_hash_loop c sp len pos = (c, sp, len, pos)"
      by (simp add: sha1_hash_loop.simps [of c sp len pos] Let_def)
    with False pos "1.prems" show ?thesis
      by (intro exI [of _ 0]) auto
  next
    case True
    define k where "k = 64 - pos"
    let ?w = "wbuf_copy (sha1_wbuf c) pos (take k sp)"
    let ?c = "c\<lparr>sha1_wbuf := bsw_32 ?w 16\<rparr>"
    have lw: "length (sha1_wbuf c) = 16" by (rule sha1_block_absorbed_len [OF "1.prems"(1)])
    have lk: "length (take k sp) = 64 - length m mod 64"
      using True "1.prems" by (simp add: k_def)
    have bytes: "le_bytes ?w = blit (le_bytes (sha1_wbuf c)) pos (take k sp)"
      using lk pos lw by (intro le_bytes_wbuf_copy) (simp_all add: "1.prems"(2))
    have "length ?w = 16"
      using lk pos lw by (simp add: wbuf_copy_def length_blit "1.prems"(2))
    then have bw: "bsw_32 ?w 16 = be_words (le_bytes ?w)" and lb: "length (bsw_32 ?w 16) = 16"
      by (simp_all add: bsw_32_def be_words_def)
    have h: "sha1_hashv (sha1_compile ?c) = sha1_T (sha1_hashv c) (le_bytes ?w)"
      using sha1_compile_block(1) [of ?c] lb by (simp add: sha1_T_def bw)
    have "md_absorbed sha1_T sha1_iv (sha1_hashv c) (le_bytes (sha1_wbuf c)) m"
      using "1.prems"(1) by (simp add: sha1_block_absorbed_def)
    note complete = md_absorbed_complete [OF this lk bytes [unfolded "1.prems"(2)]]
    have full: "md_absorbed sha1_T sha1_iv (sha1_hashv (sha1_compile ?c))
        (le_bytes ?w) (m @ take k sp)"
      unfolding h using complete(1) by (simp only: "1.prems"(2))
    have al: "length (m @ take k sp) mod 64 = 0" by (rule complete(2))
    have abs: "sha1_block_absorbed (sha1_compile ?c) (m @ take k sp)"
      using md_absorbed_rebuf [OF full al] sha1_compile_block(2) [of ?c] lb
      by (simp add: sha1_block_absorbed_def)
    have cond: "0 < 64 - pos \<and> 64 - pos \<le> len" using True pos by simp
    have rec: "sha1_hash_loop (sha1_compile ?c) (drop k sp) (len - k) 0 = (c', sp', len', pos')"
      using "1.prems"(4) cond
      by (simp add: sha1_hash_loop.simps [of c sp len pos] Let_def k_def)
    have "len - k \<le> length (drop k sp)" using "1.prems"(3) by simp
    from "1.IH" [OF refl cond refl refl, folded k_def, OF abs al [symmetric] this rec]
    obtain j where j: "len - k = j + len'" "sp' = drop j (drop k sp)"
      "pos' = length ((m @ take k sp) @ take j (drop k sp)) mod 64" "pos' + len' < 64"
      "sha1_count c' = sha1_count (sha1_compile ?c)"
      "sha1_block_absorbed c' ((m @ take k sp) @ take j (drop k sp))"
      by blast
    have tk: "(m @ take k sp) @ take j (drop k sp) = m @ take (k + j) sp"
      by (simp add: take_add)
    show ?thesis
    proof (intro exI [of _ "k + j"] conjI)
      show "len = k + j + len'" using j(1) True by (simp add: k_def)
      show "sp' = drop (k + j) sp" using j(2) by (simp add: add.commute)
      show "sha1_count c' = sha1_count c" using j(5) sha1_compile_block(3) [of ?c] lb by simp
    qed (use j tk in \<open>simp_all only:\<close>)
  qed
qed

lemma unat_and63: "unat (w AND 63 :: u32) = unat w mod 64"
proof -
  have "w AND 63 = take_bit 6 w"
    by (simp add: take_bit_eq_mask mask_eq_exp_minus_1)
  then have "unat (w AND 63) = unat (take_bit 6 w)" by (simp only:)
  then show ?thesis by (simp only: unsigned_take_bit_eq) (simp add: take_bit_eq_mod)
qed

lemma sha1_pos: "sha1_count c = bit_count (length m) \<Longrightarrow>
  unat (sha1_count c ! 0 AND 63) = length m mod 64"
proof -
  have "length m mod 2 ^ 32 mod 64 = length m mod 64"
    by (rule mod_mod_cancel) simp
  then show "sha1_count c = bit_count (length m) \<Longrightarrow> ?thesis"
    by (simp only: unat_and63 bit_count_def nth_Cons_0 unat_of_nat32)
qed

lemma byte_count_add:
  assumes k: "k < 2 ^ 32"
  shows "bit_count (n + k) = [bit_count n ! 0 + of_nat k,
    if unat (bit_count n ! 0 + of_nat k) < k then bit_count n ! 1 + 1 else bit_count n ! 1]"
proof -
  let ?c0 = "of_nat n :: u32" and ?b = "of_nat k :: u32"
  have ub: "unat ?b = k" using k by (simp only: unat_of_nat32 mod_less)
  have uc: "unat ?c0 = n mod 2 ^ 32" by (rule unat_of_nat32)
  have "unat (?c0 + ?b) < k \<longleftrightarrow> 2 ^ 32 \<le> n mod 2 ^ 32 + k mod 2 ^ 32"
    using carry_iff [of ?c0 ?b] k by (simp only: word_less_nat_alt ub uc mod_less)
  moreover have "(n + k) div 2 ^ 32 = n div 2 ^ 32 + (n mod 2 ^ 32 + k mod 2 ^ 32) div 2 ^ 32"
    using div_add1_eq [of n k "2 ^ 32"] k by simp
  ultimately have "(n + k) div 2 ^ 32 =
      (if unat (?c0 + ?b) < k then n div 2 ^ 32 + 1 else n div 2 ^ 32)"
    by (subst (asm) add_div_carry) auto
  then show ?thesis by (simp add: bit_count_def)
qed

lemma sha1_hash_absorbed:
  assumes abs: "sha1_absorbed c m" and n: "n \<le> length d" "n \<le> sha1_limit"
  shows "sha1_absorbed (sha1_hash c d n) (m @ take n d)"
proof -
  let ?c = "c\<lparr>sha1_count := bit_count (length m + n)\<rparr>"
  obtain c' sp' len' pos' where
    loop: "sha1_hash_loop ?c d n (length m mod 64) = (c', sp', len', pos')"
    by (metis prod_cases4)
  have "sha1_block_absorbed ?c m"
    using abs by (simp add: sha1_absorbed_def sha1_block_absorbed_def)
  from sha1_hash_loop_absorbed [OF this refl n(1) loop] obtain k where
    k: "n = k + len'" "sp' = drop k d" "pos' = length (m @ take k d) mod 64" "pos' + len' < 64"
    "sha1_count c' = bit_count (length m + n)" "sha1_block_absorbed c' (m @ take k d)"
    by auto
  have cnt: "sha1_count c = bit_count (length m)" using abs by (simp add: sha1_absorbed_def)
  have "n < 2 ^ 32" using n by simp
  note count = byte_count_add [OF this, of "length m", symmetric]
  have "sha1_hash c d n = c'\<lparr>sha1_wbuf := wbuf_copy (sha1_wbuf c') pos' (take len' sp')\<rparr>"
    unfolding sha1_hash_def Let_def sha1_pos [OF cnt] unfolding cnt count loop by simp
  moreover have "md_absorbed sha1_T sha1_iv (sha1_hashv c')
      (le_bytes (wbuf_copy (sha1_wbuf c') pos' (take len' sp'))) ((m @ take k d) @ take len' sp')"
  proof -
    have "length (take len' sp') = len'" using k n by simp
    moreover have "md_absorbed sha1_T sha1_iv (sha1_hashv c') (le_bytes (sha1_wbuf c')) (m @ take k d)"
      using k(6) by (simp add: sha1_block_absorbed_def)
    ultimately show ?thesis
      using md_absorbed_small [of sha1_T sha1_iv "sha1_hashv c'" "le_bytes (sha1_wbuf c')" "m @ take k d"
          "take len' sp'"] k(3,4) sha1_block_absorbed_len [OF k(6)]
      by (simp only: le_bytes_wbuf_copy)
  qed
  moreover have "(m @ take k d) @ take len' sp' = m @ take n d"
    by (simp add: k take_add)
  ultimately show ?thesis
    using k n by (simp add: sha1_absorbed_def sha1_block_absorbed_def)
qed

section \<open>Padding inside the word buffer\<close>

definition be_bytes32 :: "u32 \<Rightarrow> u8 list" where
  "be_bytes32 w = [ucast (drop_bit 24 w), ucast (drop_bit 16 w), ucast (drop_bit 8 w), ucast w]"

definition len64_be :: "nat \<Rightarrow> u8 list" where
  "len64_be bits = be_bytes32 (of_nat (bits div 2 ^ 32)) @ be_bytes32 (of_nat bits)"

definition sha1_digest :: "u8 list \<Rightarrow> u8 list" where
  "sha1_digest m = concat (map be_bytes32 (md_hash sha1_T sha1_iv len64_be m))"

lemma pad_bits:
  "(0xffffff80 :: u32) = NOT (mask 7)" "(0x80 :: u32) = push_bit 7 1" "(0x80 :: u8) = push_bit 7 1"
  by (simp_all add: mask_eq_exp_minus_1)

lemma pad_word:
  "(w AND push_bit 24 0xffffff80) OR push_bit 24 0x80 = le_word32 0 0 0 0x80"
  "(le_word32 b3 b2 b1 b0 AND push_bit 16 0xffffff80) OR push_bit 16 0x80 = le_word32 0 0 0x80 b0"
  "(le_word32 b3 b2 b1 b0 AND push_bit 8 0xffffff80) OR push_bit 8 0x80 = le_word32 0 0x80 b1 b0"
  "(le_word32 b3 b2 b1 b0 AND push_bit 0 0xffffff80) OR push_bit 0 0x80 = le_word32 0x80 b2 b1 b0"
proof (rule_tac [!] bit_word_eqI)
  fix n assume "n < LENGTH(32)"
  then consider "n < 7" | "n = 7" | "8 \<le> n" "n < 15" | "n = 15" | "16 \<le> n" "n < 23" | "n = 23"
    | "24 \<le> n" "n < 31" | "n = 31"
    by fastforce
  note cs = this
  show "bit ((w AND push_bit 24 0xffffff80) OR push_bit 24 0x80) n = bit (le_word32 0 0 0 0x80) n"
    using cs unfolding le_word32_def pad_bits by cases (auto simp: bit_simps)
  show "bit ((le_word32 b3 b2 b1 b0 AND push_bit 16 0xffffff80) OR push_bit 16 0x80) n =
      bit (le_word32 0 0 0x80 b0) n"
    using cs unfolding le_word32_def pad_bits by cases (auto simp: bit_simps)
  show "bit ((le_word32 b3 b2 b1 b0 AND push_bit 8 0xffffff80) OR push_bit 8 0x80) n =
      bit (le_word32 0 0x80 b1 b0) n"
    using cs unfolding le_word32_def pad_bits by cases (auto simp: bit_simps)
  show "bit ((le_word32 b3 b2 b1 b0 AND push_bit 0 0xffffff80) OR push_bit 0 0x80) n =
      bit (le_word32 0x80 b2 b1 b0) n"
    using cs unfolding le_word32_def pad_bits by cases (auto simp: bit_simps)
qed

lemma be_words_nth:
  "j < length bs div 4 \<Longrightarrow>
   be_words bs ! j = le_word32 (bs ! (4 * j + 3)) (bs ! (4 * j + 2)) (bs ! (4 * j + 1)) (bs ! (4 * j))"
  by (simp add: be_words_def le_words_nth bswap_32_le_word32)

lemma length_be_words [simp]: "length (be_words bs) = length bs div 4"
  by (simp add: be_words_def)

lemma be_words_cong:
  assumes "length xs = length ys" and "j < length xs div 4" and "4 * j + 4 \<le> n"
    and "take n xs = take n ys"
  shows "be_words xs ! j = be_words ys ! j"
proof -
  have "xs ! k = ys ! k" if "k < n" for k
    using that assms(4) by (metis nth_take)
  then show ?thesis using assms by (simp add: be_words_nth)
qed

text \<open>The first words of the buffer after the swap and the two masks are those of the tail
  followed by the padding byte.\<close>

definition sha1_padded_words :: "u32 list \<Rightarrow> nat \<Rightarrow> u32 list" where
  "sha1_padded_words w i =
     (let sh = 8 * (3 - i mod 4);
          w = bsw_32 w ((i + 3) div 4);
          w = w[i div 4 := w ! (i div 4) AND push_bit sh 0xffffff80]
      in w[i div 4 := w ! (i div 4) OR push_bit sh 0x00000080])"

definition pad_block :: "u8 list \<Rightarrow> u8 list" where
  "pad_block t = t @ 0x80 # replicate (63 - length t) 0"

lemma length_padded_words [simp]: "length (sha1_padded_words w i) = length w"
  by (simp add: sha1_padded_words_def Let_def bsw_32_def)

lemma length_pad_block: "length t < 64 \<Longrightarrow> length (pad_block t) = 64"
  by (simp add: pad_block_def)

lemma pad_block_nth_0: "length t < k \<Longrightarrow> k < 64 \<Longrightarrow> pad_block t ! k = 0"
  by (simp add: pad_block_def nth_append nth_Cons')

lemma pad_block_tail: "length t div 4 < j \<Longrightarrow> j < 16 \<Longrightarrow> length t < 64 \<Longrightarrow> be_words (pad_block t) ! j = 0"
  by (subst be_words_nth) (auto simp: pad_block_nth_0 length_pad_block le_word32_def)

lemma bsw_32_nth:
  "j < length w \<Longrightarrow> bsw_32 w n ! j = (if j < n then bswap_32 (w ! j) else w ! j)"
  by (auto simp: bsw_32_def nth_append min_def)

lemma le_bytes_nth_word:
  assumes "j < length w"
  shows "w ! j = le_word32 (le_bytes w ! (4 * j)) (le_bytes w ! (4 * j + 1))
    (le_bytes w ! (4 * j + 2)) (le_bytes w ! (4 * j + 3))"
  using le_words_nth [of j "le_bytes w"] assms by simp

lemma padded_words_nth:
  assumes w: "length w = 16" and t: "length t < 64" "take (length t) (le_bytes w) = t"
    and j: "j \<le> length t div 4"
  shows "sha1_padded_words w (length t) ! j = be_words (pad_block t) ! j"
proof -
  let ?r = "length t" and ?B = "le_bytes w"
  let ?q = "?r div 4"
  have B: "?B ! k = pad_block t ! k" if "k < ?r" for k
    using that nth_take [of k ?r ?B] t by (simp add: pad_block_def nth_append)
  have pad: "pad_block t ! ?r = 0x80" by (simp add: pad_block_def nth_append)
  have q16: "?q < 16" using t by simp
  have be: "be_words (pad_block t) ! j = le_word32 (pad_block t ! (4 * j + 3)) (pad_block t ! (4 * j + 2))
      (pad_block t ! (4 * j + 1)) (pad_block t ! (4 * j))"
    using j q16 t by (simp add: be_words_nth length_pad_block)
  show ?thesis
  proof (cases "j < ?q")
    case True
    then have "4 * j + 3 < ?r" by linarith
    moreover have "?q \<le> (?r + 3) div 4" by (rule div_le_mono) simp
    then have "sha1_padded_words w ?r ! j = bswap_32 (w ! j)"
      using True q16 w by (simp add: sha1_padded_words_def Let_def bsw_32_nth)
    ultimately show ?thesis
      using True q16 w by (simp add: be B le_bytes_nth_word [of j w] bswap_32_le_word32)
  next
    case False
    with j have jq: "j = ?q" by simp
    have q: "4 * ?q = ?r - ?r mod 4" by (simp add: minus_mod_eq_mult_div)
    have words: "sha1_padded_words w ?r ! ?q =
      ((bsw_32 w ((?r + 3) div 4) ! ?q) AND push_bit (8 * (3 - ?r mod 4)) 0xffffff80)
        OR push_bit (8 * (3 - ?r mod 4)) 0x80"
      using q16 w by (simp add: sha1_padded_words_def Let_def bsw_32_def)
    have zero: "pad_block t ! k = 0" if "?r < k" "k < 64" for k
      using that by (rule pad_block_nth_0)
    have swapped: "bsw_32 w ((?r + 3) div 4) ! ?q =
        le_word32 (?B ! (4 * ?q + 3)) (?B ! (4 * ?q + 2)) (?B ! (4 * ?q + 1)) (?B ! (4 * ?q))"
      if "?r mod 4 \<noteq> 0"
    proof -
      have "?q < (?r + 3) div 4" using that by presburger
      then show ?thesis
        using q16 w by (simp add: bsw_32_nth le_bytes_nth_word [of ?q w] bswap_32_le_word32)
    qed
    consider "?r = 4 * ?q" "?r mod 4 = 0" | "?r = 4 * ?q + 1" "?r mod 4 = 1"
      | "?r = 4 * ?q + 2" "?r mod 4 = 2" | "?r = 4 * ?q + 3" "?r mod 4 = 3"
      by (metis (no_types) One_nat_def add.right_neutral mod4_next mult_div_mod_eq)
    then show ?thesis
    proof cases
      case 1
      then have sh: "8 * (3 - ?r mod 4) = 24" by simp
      show ?thesis
        unfolding jq words sh pad_word(1) using 1 zero pad q16 by (simp add: be [unfolded jq])
    next
      case 2
      then have sh: "8 * (3 - ?r mod 4) = 16" and ne: "?r mod 4 \<noteq> 0" by simp_all
      show ?thesis
        unfolding jq words sh swapped [OF ne] pad_word(2)
        using 2 zero pad q16 B by (simp add: be [unfolded jq])
    next
      case 3
      then have sh: "8 * (3 - ?r mod 4) = 8" and ne: "?r mod 4 \<noteq> 0" by simp_all
      show ?thesis
        unfolding jq words sh swapped [OF ne] pad_word(3)
        using 3 zero pad q16 B by (simp add: be [unfolded jq])
    next
      case 4
      then have sh: "8 * (3 - ?r mod 4) = 0" and ne: "?r mod 4 \<noteq> 0" by simp_all
      show ?thesis
        unfolding jq words sh swapped [OF ne] pad_word(4)
        using 4 zero pad q16 B by (simp add: be [unfolded jq])
    qed
  qed
qed

lemma zero_words_nth:
  "length w = 16 \<Longrightarrow> length (zero_words w i) = 16 \<and>
   (\<forall>j < 16. zero_words w i ! j = (if i \<le> j \<and> j < 14 then 0 else w ! j))"
proof -
  have "length (fold (\<lambda>j w. w[j := 0]) [i..<n] w) = 16 \<and>
    (\<forall>j < 16. fold (\<lambda>j w. w[j := 0]) [i..<n] w ! j = (if i \<le> j \<and> j < n then 0 else w ! j))"
    if "length w = 16" "n \<le> 14" for n
    using that(2)
  proof (induction n)
    case (Suc n)
    then show ?case by (auto simp: nth_list_update)
  qed (use that in auto)
  then show "length w = 16 \<Longrightarrow> ?thesis" by (simp add: zero_words_def)
qed

text \<open>The two length words.\<close>

lemma length_words:
  "push_bit 3 (bit_count n ! 0) = (of_nat (8 * n) :: u32)"
  "push_bit 3 (bit_count n ! 1) OR drop_bit 29 (bit_count n ! 0) = (of_nat (8 * n div 2 ^ 32) :: u32)"
proof -
  show "push_bit 3 (bit_count n ! 0) = (of_nat (8 * n) :: u32)"
    by (simp add: bit_count_def push_bit_eq_mult mult.commute)
  have or_add: "push_bit 3 x OR drop_bit 29 y = push_bit 3 x + drop_bit 29 y" for x y :: u32
    by (rule disjunctive_add_eq_or [symmetric])
      (auto intro!: bit_word_eqI simp: bit_simps dest!: bit_imp_le_length [of y])
  have low: "drop_bit 29 (of_nat n :: u32) = of_nat (n mod 2 ^ 32 div 2 ^ 29)"
    by (simp add: drop_bit_eq_div word_arith_nat_div unat_of_nat)
  have "8 * n div 2 ^ 32 = 8 * (n div 2 ^ 32) + n mod 2 ^ 32 div 2 ^ 29"
  proof -
    have "8 * n = 8 * (n mod 2 ^ 32) + 8 * (n div 2 ^ 32) * 2 ^ 32"
    proof -
      have "8 * n = 8 * (n div 2 ^ 32 * 2 ^ 32 + n mod 2 ^ 32)" by (simp only: div_mult_mod_eq)
      then show ?thesis by (simp only: distrib_left mult.assoc add.commute)
    qed
    then have "8 * n div 2 ^ 32 = 8 * (n mod 2 ^ 32) div 2 ^ 32 + 8 * (n div 2 ^ 32)"
      by (simp only: div_mult_self1) simp
    moreover have "8 * (n mod 2 ^ 32) div (8 * 2 ^ 29) = n mod 2 ^ 32 div 2 ^ 29"
      by (rule div_mult_mult1) simp
    moreover have "(2::nat) ^ 32 = 8 * 2 ^ 29" by simp
    ultimately show ?thesis by (metis add.commute)
  qed
  then show "push_bit 3 (bit_count n ! 1) OR drop_bit 29 (bit_count n ! 0) = (of_nat (8 * n div 2 ^ 32) :: u32)"
    unfolding or_add
    by (simp only: bit_count_def nth_Cons_0 nth_Cons_Suc One_nat_def low of_nat_add)
      (simp add: push_bit_eq_mult mult.commute)
qed

lemma be_bytes32_words:
  "le_word32 (be_bytes32 w ! 3) (be_bytes32 w ! 2) (be_bytes32 w ! 1) (be_bytes32 w ! 0) = w"
  by (simp add: be_bytes32_def le_word32_bytes)

lemma length_len64_be [simp]: "length (len64_be n) = 8"
  by (simp add: len64_be_def be_bytes32_def)

lemma be_words_append:
  "4 dvd length xs \<Longrightarrow> be_words (xs @ ys) = be_words xs @ be_words ys"
  by (simp add: be_words_def le_words_append)

lemma be_words_len64: "be_words (len64_be n) = [of_nat (n div 2 ^ 32), of_nat n]"
  by (simp add: be_words_def len64_be_def be_bytes32_def bswap_32_le_word32 le_word32_bytes)

text \<open>A word array that agrees with a block up to word 13 and carries the length in
  its last two words is that block with the length appended.\<close>

lemma length_block:
  assumes w: "length w = 16" and front: "length xs = 56" "\<And>j. j < 14 \<Longrightarrow> w ! j = be_words xs ! j"
  shows "w[14 := of_nat (n div 2 ^ 32), 15 := of_nat n] = be_words (xs @ len64_be n)"
proof (rule nth_equalityI)
  show "length (w[14 := of_nat (n div 2 ^ 32), 15 := of_nat n]) = length (be_words (xs @ len64_be n))"
    using w front by simp
  fix j assume "j < length (w[14 := of_nat (n div 2 ^ 32), 15 := of_nat n])"
  then have "j < 14 \<or> j = 14 \<or> j = 15" using w by auto
  then show "w[14 := of_nat (n div 2 ^ 32), 15 := of_nat n] ! j = be_words (xs @ len64_be n) ! j"
    using w front by (auto simp: be_words_append be_words_len64 nth_append)
qed

lemma length_sha1_block [simp]: "length (sha1_block h m) = 5"
  by (simp add: sha1_block_def split: prod.splits)

lemma length_sha1_chain: "length (foldl sha1_T sha1_iv bs) = 5"
  by (induction bs rule: rev_induct) (simp_all add: sha1_iv_def sha1_T_def)

lemma sha1_output:
  assumes "length h = 5"
  shows "map (\<lambda>i. ucast (drop_bit (8 * (3 - i mod 4)) (h ! (i div 4))) :: u8) [0..<20] =
    concat (map be_bytes32 h)"
proof -
  obtain a b c d e where "h = [a, b, c, d, e]"
    using assms by (auto simp: numeral_eq_Suc length_Suc_conv)
  then show ?thesis
    by (simp add: upt_step be_bytes32_def del: One_nat_def flip: One_nat_def)
qed

text \<open>The two ways the padding closes the message: within the current block, or with one
  more block.\<close>

lemma md_pad_short:
  assumes "length m mod 64 < 56"
  shows "md_hash sha1_T sha1_iv len64_be m =
    sha1_T (foldl sha1_T sha1_iv (chunks 64 m))
      (take 56 (pad_block (tail_of 64 m)) @ len64_be (8 * length m))"
proof -
  let ?t = "tail_of 64 m" and ?k = "full_len 64 m"
  let ?blk = "take 56 (pad_block ?t) @ len64_be (8 * length m)"
  have lt: "length ?t = length m mod 64" by (rule length_tail_of)
  have blk: "?t @ 0x80 # replicate (55 - length ?t) 0 = take 56 (pad_block ?t)"
    using assms lt by (simp add: pad_block_def take_Cons' min_def)
  have "md_pad len64_be m = take ?k m @ ?t @ 0x80 # replicate (55 - length ?t) 0 @ len64_be (8 * length m)"
    using take_full_tail [of 64 m] pad_zeros [of "length m mod 64"] assms lt
    by (simp add: md_pad_def)
  then have "md_pad len64_be m = take ?k m @ ?blk" by (simp flip: blk)
  moreover have "64 dvd length (take ?k m)" by (simp add: full_len_def min_absorb2)
  moreover have "length ?blk = 64" using lt by (simp add: length_pad_block)
  ultimately show ?thesis
    by (simp add: md_hash_def chunks_append chunks_take_full chunks_single)
qed

lemma md_pad_long:
  assumes "56 \<le> length m mod 64"
  shows "md_hash sha1_T sha1_iv len64_be m =
    sha1_T (sha1_T (foldl sha1_T sha1_iv (chunks 64 m)) (pad_block (tail_of 64 m)))
      (replicate 56 0 @ len64_be (8 * length m))"
proof -
  let ?t = "tail_of 64 m" and ?k = "full_len 64 m"
  let ?blk = "replicate 56 0 @ len64_be (8 * length m)"
  have lt: "length ?t = length m mod 64" by (rule length_tail_of)
  have lt64: "length ?t < 64" by (simp add: lt)
  have zeros: "replicate (119 - length ?t) 0 = replicate (63 - length ?t) 0 @ replicate 56 (0 :: u8)"
    using lt64 by (simp flip: replicate_add)
  have "md_pad len64_be m = take ?k m @ pad_block ?t @ ?blk"
    using take_full_tail [of 64 m] pad_zeros [of "length m mod 64"] assms lt
    by (simp add: md_pad_def pad_block_def zeros [unfolded lt])
  moreover have "64 dvd length (take ?k m)" by (simp add: full_len_def min_absorb2)
  moreover have "length (pad_block ?t) = 64" "length ?blk = 64"
    using lt64 by (simp_all add: length_pad_block)
  ultimately show ?thesis
    by (simp add: md_hash_def chunks_append chunks_take_full chunks_single)
qed

text \<open>\<open>sha1_end\<close> split as the code has it: the marked buffer, the extra block, the length
  block.\<close>

definition sha1_extra :: "u32 list \<Rightarrow> nat \<Rightarrow> u32 list" where
  "sha1_extra w i = (if i < 60 then w[15 := 0] else w)"

lemma sha1_end_parts:
  assumes "unat (sha1_count c ! 0 AND 63) = i" and "w = sha1_padded_words (sha1_wbuf c) i"
  shows "sha1_end c =
    (let (i', c1) = (if i > 55 then (0, sha1_compile (c\<lparr>sha1_wbuf := sha1_extra w i\<rparr>))
                     else (i div 4 + 1, c\<lparr>sha1_wbuf := w\<rparr>));
         c2 = sha1_compile (c1\<lparr>sha1_wbuf := (zero_words (sha1_wbuf c1) i')
           [14 := push_bit 3 (sha1_count c1 ! 1) OR drop_bit 29 (sha1_count c1 ! 0),
            15 := push_bit 3 (sha1_count c1 ! 0)]\<rparr>)
     in (map (\<lambda>i. ucast (drop_bit (8 * (3 - i mod 4)) (sha1_hashv c2 ! (i div 4)))) [0..<20], c2))"
  unfolding sha1_end_def Let_def assms(1) unfolding assms(2) sha1_padded_words_def Let_def sha1_extra_def
  by (cases "i > 55") simp_all

lemma sha1_extra_block:
  assumes w: "length w = 16" and t: "length t < 64" "55 < length t" "take (length t) (le_bytes w) = t"
  shows "sha1_extra (sha1_padded_words w (length t)) (length t) = be_words (pad_block t)"
proof (rule nth_equalityI)
  let ?i = "length t" and ?p = "sha1_padded_words w (length t)"
  show "length (sha1_extra ?p ?i) = length (be_words (pad_block t))"
    using w t by (simp add: sha1_extra_def length_pad_block)
  fix j assume "j < length (sha1_extra ?p ?i)"
  then have j: "j < 16" using w by (auto simp: sha1_extra_def split: if_splits)
  show "sha1_extra ?p ?i ! j = be_words (pad_block t) ! j"
  proof (cases "j \<le> ?i div 4")
    case True
    have "?i < 60 \<Longrightarrow> ?i div 4 < 15" by (simp add: div_less_iff_less_mult)
    with True have "?i < 60 \<Longrightarrow> j \<noteq> 15" by auto
    then show ?thesis
      using padded_words_nth [OF w t(1,3) True] by (simp add: sha1_extra_def)
  next
    case False
    have "14 \<le> ?i div 4" using t(2) by (simp add: less_eq_div_iff_mult_less_eq)
    with False j have j15: "j = 15" "?i div 4 < 15" by auto
    then have "?i < 60" by (simp add: div_less_iff_less_mult)
    then show ?thesis
      using pad_block_tail [of t j] j15 j t(1) w by (simp add: sha1_extra_def)
  qed
qed

lemma sha1_last_block:
  assumes "sha1_count c = bit_count n" and "length (sha1_wbuf c) = 16" and "length xs = 56"
    and "\<And>j. j < 14 \<Longrightarrow> zero_words (sha1_wbuf c) i ! j = be_words xs ! j"
    and "length (sha1_hashv c) = 5"
    and "c2 = sha1_compile (c\<lparr>sha1_wbuf := (zero_words (sha1_wbuf c) i)
           [14 := push_bit 3 (sha1_count c ! 1) OR drop_bit 29 (sha1_count c ! 0),
            15 := push_bit 3 (sha1_count c ! 0)]\<rparr>)"
  shows "sha1_hashv c2 = sha1_T (sha1_hashv c) (xs @ len64_be (8 * n))"
proof -
  let ?w = "(zero_words (sha1_wbuf c) i)
           [14 := push_bit 3 (sha1_count c ! 1) OR drop_bit 29 (sha1_count c ! 0),
            15 := push_bit 3 (sha1_count c ! 0)]"
  have z: "length (zero_words (sha1_wbuf c) i) = 16" using zero_words_nth [OF assms(2)] by simp
  have "?w = be_words (xs @ len64_be (8 * n))"
    unfolding assms(1) length_words by (rule length_block [OF z assms(3,4)])
  moreover have "length ?w = 16" using z by simp
  ultimately show ?thesis
    using sha1_compile_block(1) [of "c\<lparr>sha1_wbuf := ?w\<rparr>"] assms(6) by (simp add: sha1_T_def)
qed

lemma sha1_end_digest:
  assumes abs: "sha1_absorbed c m"
  shows "fst (sha1_end c) = sha1_digest m"
proof -
  let ?t = "tail_of 64 m" and ?h = "foldl sha1_T sha1_iv (chunks 64 m)"
  let ?i = "length m mod 64"
  define w where "w = sha1_padded_words (sha1_wbuf c) ?i"
  have ba: "md_absorbed sha1_T sha1_iv (sha1_hashv c) (le_bytes (sha1_wbuf c)) m"
    and cnt: "sha1_count c = bit_count (length m)"
    using abs by (simp_all add: sha1_absorbed_def sha1_block_absorbed_def)
  have h: "sha1_hashv c = ?h" and t: "take ?i (le_bytes (sha1_wbuf c)) = ?t"
    using ba unfolding md_absorbed_def by blast+
  have lw: "length (sha1_wbuf c) = 16"
    using abs unfolding sha1_absorbed_def by (blast intro: sha1_block_absorbed_len)
  have lt: "length ?t = ?i" by (rule length_tail_of)
  have lt64: "length ?t < 64" by (simp add: lt)
  have h5: "length ?h = 5" by (rule length_sha1_chain)
  note parts = sha1_end_parts [OF sha1_pos [OF cnt] w_def]
  note nth = padded_words_nth [OF lw lt64, unfolded lt, OF t]
  have res: "\<exists>c2 :: sha1_context. fst (sha1_end c) = map (\<lambda>i. ucast (drop_bit (8 * (3 - i mod 4)) (sha1_hashv c2 ! (i div 4)))) [0..<20]
      \<and> sha1_hashv c2 = md_hash sha1_T sha1_iv len64_be m"
  proof (cases "?i > 55")
    case True
    define c1 where "c1 = sha1_compile (c\<lparr>sha1_wbuf := sha1_extra w ?i\<rparr>)"
    have ex: "sha1_extra w ?i = be_words (pad_block ?t)"
      using sha1_extra_block [OF lw lt64, unfolded lt, OF True t] by (simp add: w_def)
    have c1: "sha1_hashv c1 = sha1_T ?h (pad_block ?t)" "length (sha1_wbuf c1) = 16" "sha1_count c1 = bit_count (length m)"
      unfolding c1_def using lt64 cnt h
      by (simp_all add: sha1_compile_block ex length_pad_block sha1_T_def)
    have front: "zero_words (sha1_wbuf c1) 0 ! j = be_words (replicate 56 0) ! j" if "j < 14" for j
      using zero_words_nth [OF c1(2), of 0] that by (simp add: be_words_nth le_word32_def)
    have l5: "length (sha1_hashv c1) = 5" by (simp add: c1 sha1_T_def)
    define c2 where "c2 = sha1_compile (c1\<lparr>sha1_wbuf := (zero_words (sha1_wbuf c1) 0)
           [14 := push_bit 3 (sha1_count c1 ! 1) OR drop_bit 29 (sha1_count c1 ! 0),
            15 := push_bit 3 (sha1_count c1 ! 0)]\<rparr>)"
    have "sha1_hashv c2 = sha1_T (sha1_hashv c1) (replicate 56 0 @ len64_be (8 * length m))"
      by (rule sha1_last_block [OF c1(3,2) _ front l5 c2_def]) simp_all
    moreover have "56 \<le> ?i" using True by simp
    note md_pad_long [OF this]
    moreover have "fst (sha1_end c) = map (\<lambda>i. ucast (drop_bit (8 * (3 - i mod 4)) (sha1_hashv c2 ! (i div 4)))) [0..<20]"
      unfolding parts using True by (simp only: if_True prod.case Let_def fst_conv c1_def [symmetric] c2_def [symmetric])
    ultimately show ?thesis by (intro exI [of _ c2] conjI) (simp_all only: c1(1))
  next
    case False
    let ?c1 = "c\<lparr>sha1_wbuf := w\<rparr>" and ?xs = "take 56 (pad_block ?t)"
    have w16: "length w = 16" by (simp add: w_def lw)
    have lx: "length ?xs = 56" using lt64 by (simp add: length_pad_block)
    have front: "zero_words (sha1_wbuf ?c1) (?i div 4 + 1) ! j = be_words ?xs ! j" if j: "j < 14" for j
    proof -
      have "be_words ?xs ! j = be_words (pad_block ?t) ! j"
        using j lt64 by (simp add: be_words_nth length_pad_block)
      moreover have "zero_words w (?i div 4 + 1) ! j = be_words (pad_block ?t) ! j"
        using zero_words_nth [OF w16, of "?i div 4 + 1"] j nth [of j] pad_block_tail [of ?t j] lt
        by (auto simp: w_def)
      ultimately show ?thesis by simp
    qed
    define c2 where "c2 = sha1_compile (?c1\<lparr>sha1_wbuf := (zero_words (sha1_wbuf ?c1) (?i div 4 + 1))
           [14 := push_bit 3 (sha1_count ?c1 ! 1) OR drop_bit 29 (sha1_count ?c1 ! 0),
            15 := push_bit 3 (sha1_count ?c1 ! 0)]\<rparr>)"
    have "sha1_hashv c2 = sha1_T (sha1_hashv ?c1) (?xs @ len64_be (8 * length m))"
      by (rule sha1_last_block [OF _ _ lx front _ c2_def]) (simp_all add: cnt w16 h h5)
    moreover have "sha1_hashv ?c1 = ?h" by (simp add: h)
    moreover have "?i < 56" using False by simp
    note md_pad_short [OF this]
    moreover have "fst (sha1_end c) = map (\<lambda>i. ucast (drop_bit (8 * (3 - i mod 4)) (sha1_hashv c2 ! (i div 4)))) [0..<20]"
      unfolding parts using False by (simp only: if_False prod.case Let_def fst_conv c2_def [symmetric])
    ultimately show ?thesis by (intro exI [of _ c2] conjI) (simp_all only:)
  qed
  have "length (md_hash sha1_T sha1_iv len64_be m) = 5"
    unfolding md_hash_def by (rule length_sha1_chain)
  note out = sha1_output [OF this]
  from res show ?thesis by (elim exE conjE) (simp only: sha1_digest_def out)
qed

interpretation sha1: stream_hash sha1_begin "\<lambda>c d n. Some (sha1_hash c d n)"
  "\<lambda>c. Some (fst (sha1_end c))" sha1_wf sha1_absorbed sha1_limit sha1_digest
proof (unfold_locales, goal_cases)
  case (1 c)
  then show ?case
    by (simp add: sha1_absorbed_def sha1_block_absorbed_def sha1_wf_def sha1_begin_def
        md_absorbed_init bit_count_def)
next
  case (2 c m n d)
  then show ?case by (simp add: sha1_hash_absorbed)
next
  case (3 c m)
  then show ?case by (simp add: sha1_end_digest)
qed

section \<open>Properties\<close>

text \<open>C2: Hashing a message in any pieces with \<open>sha1_begin\<close>, one \<open>sha1_hash\<close> per piece and
  \<open>sha1_end\<close>, which pads inside the word buffer and swaps only the words in use, yields
  the digest of FIPS 180 of the concatenated message.\<close>

theorem sha1_streaming:
  assumes "length (sha1_wbuf c) = 16" and "\<forall>d \<in> set ds. length d \<le> 4294967295"
  shows "fst (sha1_end (foldl (\<lambda>c d. sha1_hash c d (length d)) (sha1_begin c) ds)) = sha1_digest (concat ds)"
  using sha1.split_independent [of c ds] assms by (simp add: sha1_wf_def append_all_Some)

lemma sha1_streaming_witness:
  "fst (sha1_end (sha1_hash (sha1_hash
      (sha1_begin \<lparr>sha1_count = [], sha1_hashv = [], sha1_wbuf = replicate 16 7\<rparr>) [0x61] 1) [0x62, 0x63] 2))
   = sha1_digest [0x61, 0x62, 0x63]"
  using sha1_streaming [of "\<lparr>sha1_count = [], sha1_hashv = [], sha1_wbuf = replicate 16 7\<rparr>" "[[0x61], [0x62, 0x63]]"]
  by (simp add: numeral_2_eq_2)

text \<open>C29: \<open>sha1_compile\<close>, whose 80 cycles rename the registers and recompute the schedule in
  a circular buffer of 16 words, is the block function of FIPS 180 over the full schedule; it
  keeps the counters and the size of the buffer.\<close>

theorem sha1_compile_fips:
  assumes "length (sha1_wbuf ctx) = 16"
  shows "sha1_hashv (sha1_compile ctx) = sha1_block (sha1_hashv ctx) (sha1_wbuf ctx) \<and>
    length (sha1_wbuf (sha1_compile ctx)) = 16 \<and> sha1_count (sha1_compile ctx) = sha1_count ctx"
  using sha1_compile_block [OF assms] by simp

lemma sha1_compile_fips_witness:
  "sha1_hashv (sha1_compile \<lparr>sha1_count = [0, 0], sha1_hashv = sha1_iv, sha1_wbuf = replicate 16 7\<rparr>)
    = sha1_block sha1_iv (replicate 16 7)"
  using sha1_compile_fips [of "\<lparr>sha1_count = [0, 0], sha1_hashv = sha1_iv, sha1_wbuf = replicate 16 7\<rparr>"] by simp

end
