(* ===== verification/FST_Pad.thy ===== *)
theory FST_Pad
  imports C_Prelude
begin

text \<open>
  The common ground of the three pad mixers \<^verbatim>\<open>enc_type_2.c\<close>, \<^verbatim>\<open>enc_type_20.c\<close> and
  \<^verbatim>\<open>enc_type_80.c\<close> of \<^verbatim>\<open>src/src/networks/fasttrack\<close>: functions on a pad of 20
  words and a seed passed by value, made of assignments, conditional blocks, calls of each
  other and early returns (\<^verbatim>\<open>TRY\<close>). Here are the statement forms, the rotations,
  \<^verbatim>\<open>my_cos\<close>, \<^verbatim>\<open>my_sin\<close>, \<^verbatim>\<open>my_sqrt\<close>, and the frame rules with which the mixers are
  shown to read and write the 20 words of the pad only.

  A rotation by 0 shifts by 32 in C, which is undefined; the model's \<open>push_bit 32\<close> of a
  32-bit word is 0, so that the rotation gives the value itself, as the shift by 32 modulo
  32 of the usual processors also does.
\<close>

section \<open>Statements\<close>

type_synonym pad_st = "u32 list \<times> u32"
type_synonym expr = "u32 list \<Rightarrow> u32 \<Rightarrow> u32"
type_synonym asg = "pad_st \<Rightarrow> u32 \<times> pad_st"
type_synonym stmt = "pad_st \<Rightarrow> bool \<times> pad_st"

definition ROR :: "u32 \<Rightarrow> u32 \<Rightarrow> u32" where
  "ROR v count = drop_bit (unat (count AND 0x1f)) v OR push_bit (32 - unat (count AND 0x1f)) v"

definition ROL :: "u32 \<Rightarrow> u32 \<Rightarrow> u32" where
  "ROL v count = push_bit (unat (count AND 0x1f)) v OR drop_bit (32 - unat (count AND 0x1f)) v"

text \<open>The comparisons are of C type \<^verbatim>\<open>int\<close>; \<open>i\<close> is an \<^verbatim>\<open>unsigned char\<close>.\<close>

definition my_cos :: "u8 \<Rightarrow> bool" where
  "my_cos i \<longleftrightarrow> (unat i * 39 + 61) mod 245 > 122"

definition my_sin :: "u8 \<Rightarrow> bool" where
  "my_sin i \<longleftrightarrow> (unat i * 46) mod 289 > 144"

text \<open>\<^verbatim>\<open>for (j = 0, k = 0; j++ <= i; j += ++k << 1);\<close>\<close>

function my_sqrt_loop :: "nat \<Rightarrow> nat \<Rightarrow> nat \<Rightarrow> nat" where
  "my_sqrt_loop i j k =
     (if j \<le> i then my_sqrt_loop i (j + 1 + 2 * (k + 1)) (k + 1) else k)"
  by pat_completeness auto
termination by (relation "measure (\<lambda>(i, j, k). Suc i - j)") auto

declare my_sqrt_loop.simps [simp del]

definition my_sqrt :: "u8 \<Rightarrow> u32" where
  "my_sqrt i = of_nat (my_sqrt_loop (unat i) 0 0)"

text \<open>An assignment updates the pad or the seed and has the assigned value as its own.\<close>

definition pad_set :: "nat \<Rightarrow> expr \<Rightarrow> asg" where
  "pad_set i e st = (case st of (pad, seed) \<Rightarrow> (e pad seed, pad[i := e pad seed], seed))"

definition seed_set :: "expr \<Rightarrow> asg" where
  "seed_set e st = (case st of (pad, seed) \<Rightarrow> (e pad seed, pad, e pad seed))"

definition pad_add :: "nat \<Rightarrow> expr \<Rightarrow> asg" where
  "pad_add i e = pad_set i (\<lambda>pad seed. pad ! i + e pad seed)"

definition pad_sub :: "nat \<Rightarrow> expr \<Rightarrow> asg" where
  "pad_sub i e = pad_set i (\<lambda>pad seed. pad ! i - e pad seed)"

definition pad_mul :: "nat \<Rightarrow> expr \<Rightarrow> asg" where
  "pad_mul i e = pad_set i (\<lambda>pad seed. pad ! i * e pad seed)"

definition pad_and :: "nat \<Rightarrow> expr \<Rightarrow> asg" where
  "pad_and i e = pad_set i (\<lambda>pad seed. pad ! i AND e pad seed)"

definition pad_or :: "nat \<Rightarrow> expr \<Rightarrow> asg" where
  "pad_or i e = pad_set i (\<lambda>pad seed. pad ! i OR e pad seed)"

definition pad_xor :: "nat \<Rightarrow> expr \<Rightarrow> asg" where
  "pad_xor i e = pad_set i (\<lambda>pad seed. pad ! i XOR e pad seed)"

definition pad_ror :: "nat \<Rightarrow> expr \<Rightarrow> asg" where
  "pad_ror i e = pad_set i (\<lambda>pad seed. ROR (pad ! i) (e pad seed))"

definition pad_rol :: "nat \<Rightarrow> expr \<Rightarrow> asg" where
  "pad_rol i e = pad_set i (\<lambda>pad seed. ROL (pad ! i) (e pad seed))"

definition seed_add :: "expr \<Rightarrow> asg" where
  "seed_add e = seed_set (\<lambda>pad seed. seed + e pad seed)"

definition seed_sub :: "expr \<Rightarrow> asg" where
  "seed_sub e = seed_set (\<lambda>pad seed. seed - e pad seed)"

definition seed_mul :: "expr \<Rightarrow> asg" where
  "seed_mul e = seed_set (\<lambda>pad seed. seed * e pad seed)"

definition seed_and :: "expr \<Rightarrow> asg" where
  "seed_and e = seed_set (\<lambda>pad seed. seed AND e pad seed)"

definition seed_or :: "expr \<Rightarrow> asg" where
  "seed_or e = seed_set (\<lambda>pad seed. seed OR e pad seed)"

definition seed_xor :: "expr \<Rightarrow> asg" where
  "seed_xor e = seed_set (\<lambda>pad seed. seed XOR e pad seed)"

definition seed_ror :: "expr \<Rightarrow> asg" where
  "seed_ror e = seed_set (\<lambda>pad seed. ROR seed (e pad seed))"

definition seed_rol :: "expr \<Rightarrow> asg" where
  "seed_rol e = seed_set (\<lambda>pad seed. ROL seed (e pad seed))"

lemmas asg_defs = pad_add_def pad_sub_def pad_mul_def pad_and_def pad_or_def pad_xor_def
  pad_ror_def pad_rol_def seed_add_def seed_sub_def seed_mul_def seed_and_def seed_or_def
  seed_xor_def seed_ror_def seed_rol_def

text \<open>A statement also says whether the function has returned. \<open>call\<close> passes the pad by
  reference and the second argument by value.\<close>

definition exec :: "asg \<Rightarrow> stmt" where
  "exec a st = (False, snd (a st))"

definition TRY :: "asg \<Rightarrow> stmt" where
  "TRY a st = (case a st of (v, st') \<Rightarrow> (v AND 1 \<noteq> 0, st'))"

definition call :: "(u32 list \<Rightarrow> u32 \<Rightarrow> u32 list) \<Rightarrow> expr \<Rightarrow> stmt" where
  "call f e st = (case st of (pad, seed) \<Rightarrow> (False, f pad (e pad seed), seed))"

definition call1 :: "(u32 list \<Rightarrow> u32 list) \<Rightarrow> stmt" where
  "call1 f st = (case st of (pad, seed) \<Rightarrow> (False, f pad, seed))"

primrec run_stmts :: "stmt list \<Rightarrow> stmt" where
  "run_stmts [] st = (False, st)"
| "run_stmts (s # ss) st =
     (case s st of (returned, st') \<Rightarrow> if returned then (True, st') else run_stmts ss st')"

definition cond :: "bool \<Rightarrow> stmt list \<Rightarrow> stmt" where
  "cond c ss = (if c then run_stmts ss else run_stmts [])"

definition cond_st :: "(u32 list \<Rightarrow> u32 \<Rightarrow> bool) \<Rightarrow> stmt list \<Rightarrow> stmt" where
  "cond_st c ss st = (case st of (pad, seed) \<Rightarrow> if c pad seed then run_stmts ss st else (False, st))"

definition switch :: "u32 \<Rightarrow> (u32 \<times> stmt list) list \<Rightarrow> stmt" where
  "switch n cases = (case map_of cases n of None \<Rightarrow> run_stmts [] | Some ss \<Rightarrow> run_stmts ss)"

definition run_body :: "stmt list \<Rightarrow> u32 list \<Rightarrow> u32 \<Rightarrow> u32 list" where
  "run_body ss pad seed = fst (snd (run_stmts ss (pad, seed)))"

section \<open>Frames: only the 20 words of the pad are read or written\<close>

text \<open>Run on the pad followed by any other memory, a construct yields the same value, leaves
  the rest as it was and yields the same pad of 20 words.\<close>

definition expr_frame :: "(u32 list \<Rightarrow> u32 \<Rightarrow> 'a) \<Rightarrow> bool" where
  "expr_frame e \<longleftrightarrow> (\<forall>pad rest seed. length pad = 20 \<longrightarrow> e (pad @ rest) seed = e pad seed)"

definition act_frame :: "(pad_st \<Rightarrow> 'a \<times> pad_st) \<Rightarrow> bool" where
  "act_frame a \<longleftrightarrow> (\<forall>pad rest seed. length pad = 20 \<longrightarrow>
     (\<exists>v pad' seed'. a (pad, seed) = (v, pad', seed') \<and> length pad' = 20 \<and>
        a (pad @ rest, seed) = (v, pad' @ rest, seed')))"

definition fun_frame :: "(u32 list \<Rightarrow> u32 \<Rightarrow> u32 list) \<Rightarrow> bool" where
  "fun_frame f \<longleftrightarrow> (\<forall>pad rest seed. length pad = 20 \<longrightarrow>
     length (f pad seed) = 20 \<and> f (pad @ rest) seed = f pad seed @ rest)"

lemma act_frameI:
  assumes "\<And>pad seed. length pad = 20 \<Longrightarrow> length (fst (snd (a (pad, seed)))) = 20"
    and "\<And>pad seed rest. length pad = 20 \<Longrightarrow>
      a (pad @ rest, seed) = (fst (a (pad, seed)), fst (snd (a (pad, seed))) @ rest, snd (snd (a (pad, seed))))"
  shows "act_frame a"
  using assms unfolding act_frame_def by (metis prod.collapse)

lemma act_frameE:
  fixes seed :: u32
  assumes "act_frame a" and "length pad = 20"
  obtains v pad' seed' where "a (pad, seed) = (v, pad', seed')" and "length pad' = 20"
    and "\<And>rest. a (pad @ rest, seed) = (v, pad' @ rest, seed')"
proof -
  from assms obtain v pad' seed' where "a (pad, seed) = (v, pad', seed')" "length pad' = 20"
    unfolding act_frame_def by blast
  moreover have "a (pad @ rest, seed) = (v, pad' @ rest, seed')" for rest
  proof -
    from assms obtain v1 p1 s1 where "a (pad, seed) = (v1, p1, s1)" "a (pad @ rest, seed) = (v1, p1 @ rest, s1)"
      unfolding act_frame_def by blast
    with calculation show ?thesis by simp
  qed
  ultimately show thesis by (rule that)
qed

named_theorems frame_simps

lemma pad_set_frame [frame_simps]: "i < 20 \<Longrightarrow> expr_frame e \<Longrightarrow> act_frame (pad_set i e)"
  by (rule act_frameI) (simp_all add: expr_frame_def pad_set_def list_update_append)

lemma seed_set_frame [frame_simps]: "expr_frame e \<Longrightarrow> act_frame (seed_set e)"
  by (rule act_frameI) (simp_all add: expr_frame_def seed_set_def)

lemma act_frameD:
  assumes "act_frame a" and "length pad = 20"
  shows "length (fst (snd (a (pad, seed)))) = 20"
    and "a (pad @ rest, seed) = (fst (a (pad, seed)), fst (snd (a (pad, seed))) @ rest, snd (snd (a (pad, seed))))"
  by (rule act_frameE [OF assms, of seed]; simp)+

lemma act_frame_length:
  "act_frame a \<Longrightarrow> length (fst st) = 20 \<Longrightarrow> length (fst (snd (a st))) = 20"
  using act_frameD(1) [of a "fst st" "snd st"] by simp

lemma exec_frame [frame_simps]:
  assumes a: "act_frame a"
  shows "act_frame (exec a)"
  by (rule act_frameI) (simp_all add: exec_def act_frameD [OF a])

lemma TRY_frame [frame_simps]:
  assumes a: "act_frame a"
  shows "act_frame (TRY a)"
  by (rule act_frameI) (simp_all add: TRY_def act_frameD [OF a] split_beta)

lemma call_frame [frame_simps]: "fun_frame f \<Longrightarrow> expr_frame e \<Longrightarrow> act_frame (call f e)"
  by (rule act_frameI) (simp_all add: fun_frame_def expr_frame_def call_def)

lemma call1_frame [frame_simps]: "fun_frame (\<lambda>pad _. f pad) \<Longrightarrow> act_frame (call1 f)"
  by (rule act_frameI) (simp_all add: fun_frame_def call1_def)

lemma run_stmts_frame: "list_all act_frame ss \<Longrightarrow> act_frame (run_stmts ss)"
proof (induction ss)
  case Nil
  then show ?case by (intro act_frameI) simp_all
next
  case (Cons s ss)
  then have s: "act_frame s" and ss: "act_frame (run_stmts ss)" by simp_all
  show ?case
    by (rule act_frameI)
      (simp_all add: act_frameD [OF s] split_beta act_frame_length [OF ss]
        act_frameD [OF ss, of "fst (snd (s (pad, seed)))" for pad seed])
qed

lemma cond_frame [frame_simps]: "list_all act_frame ss \<Longrightarrow> act_frame (cond c ss)"
  by (auto simp: cond_def intro: run_stmts_frame)

lemma cond_st_frame [frame_simps]:
  assumes c: "expr_frame c" and ss: "list_all act_frame ss"
  shows "act_frame (cond_st c ss)"
proof (rule act_frameI)
  fix pad :: "u32 list" and seed :: u32
  assume l: "length pad = 20"
  from act_frameE [OF run_stmts_frame [OF ss] l, of seed] obtain v pad' seed' where
    r: "run_stmts ss (pad, seed) = (v, pad', seed')" "length pad' = 20"
    "\<And>rest. run_stmts ss (pad @ rest, seed) = (v, pad' @ rest, seed')"
    by metis
  then show "length (fst (snd (cond_st c ss (pad, seed)))) = 20"
    using l by (simp add: cond_st_def)
  show "cond_st c ss (pad @ rest, seed) = (fst (cond_st c ss (pad, seed)),
      fst (snd (cond_st c ss (pad, seed))) @ rest, snd (snd (cond_st c ss (pad, seed))))" for rest
    using l r c by (simp add: cond_st_def expr_frame_def)
qed

lemma switch_frame [frame_simps]:
  assumes "list_all (\<lambda>c. list_all act_frame (snd c)) cases"
  shows "act_frame (switch n cases)"
proof (cases "map_of cases n")
  case None
  then show ?thesis using run_stmts_frame [of "[]"] by (simp add: switch_def)
next
  case (Some ss)
  then have "(n, ss) \<in> set cases" by (rule map_of_SomeD)
  with assms have "list_all act_frame ss" by (auto simp: list_all_iff)
  with Some show ?thesis by (simp add: switch_def run_stmts_frame)
qed

lemma run_body_frame: "list_all act_frame ss \<Longrightarrow> fun_frame (run_body ss)"
  by (simp add: fun_frame_def run_body_def act_frameD [OF run_stmts_frame])

lemma fun_frame_branch:
  assumes b: "expr_frame b" and ss: "\<And>n. list_all act_frame (ss n)"
  shows "fun_frame (\<lambda>pad seed. let branch = b pad seed in run_body (ss branch) pad seed)"
  using b run_body_frame [OF ss] by (simp add: fun_frame_def expr_frame_def Let_def)

lemma fun_frame_branch1:
  assumes b: "expr_frame (\<lambda>pad _. b pad)" and ss: "\<And>n. list_all act_frame (ss n)"
  shows "fun_frame (\<lambda>pad seed. let branch = b pad in run_body (ss branch) pad seed)"
  using fun_frame_branch [OF b ss] .

lemma fun_frame_plain:
  "list_all act_frame ss \<Longrightarrow> fun_frame (\<lambda>pad seed. run_body ss pad seed)"
  by (rule run_body_frame)

lemma fun_frame_plain1:
  "list_all act_frame ss \<Longrightarrow> fun_frame (\<lambda>pad seed. run_body ss pad 0)"
  using run_body_frame [of ss] by (simp add: fun_frame_def)

text \<open>The value of an expression reads below 20.\<close>

lemma expr_frame_nth: "(\<And>pad rest seed. length pad = 20 \<Longrightarrow> e (pad @ rest) seed = e pad seed) \<Longrightarrow> expr_frame e"
  by (simp add: expr_frame_def)

lemma nth_pad: "length pad = 20 \<Longrightarrow> i < 20 \<Longrightarrow> (pad @ rest) ! i = pad ! i"
  by (simp add: nth_append)

section \<open>The integer square root\<close>

lemma my_sqrt_loop_root:
  "j = (k + 1) * (k + 1) - 1 \<Longrightarrow> k * k \<le> i + 1 \<Longrightarrow> r = my_sqrt_loop i j k \<Longrightarrow>
   r * r \<le> i + 1 \<and> i + 1 < (r + 1) * (r + 1)"
proof (induction i j k rule: my_sqrt_loop.induct)
  case (1 i j k)
  show ?case
  proof (cases "j \<le> i")
    case True
    have "j + 1 + 2 * (k + 1) = (k + 1 + 1) * (k + 1 + 1) - 1"
      using "1.prems"(1) by simp
    moreover have "(k + 1) * (k + 1) \<le> i + 1" using True "1.prems"(1) by simp
    moreover have "r = my_sqrt_loop i (j + 1 + 2 * (k + 1)) (k + 1)"
      using True "1.prems"(3) by (simp add: my_sqrt_loop.simps [of i j k])
    ultimately show ?thesis by (rule "1.IH" [OF True])
  next
    case False
    then have "r = k" using "1.prems"(3) by (simp add: my_sqrt_loop.simps [of i j k])
    then show ?thesis using False "1.prems"(1,2) by simp
  qed
qed

section \<open>Properties\<close>

text \<open>\<open>my_sqrt\<close>, a loop over the odd numbers, is the integer square root of
  \<open>i + 1\<close> for every byte \<open>i\<close>, as its comment promises.\<close>

theorem my_sqrt_is_root:
  "unat (my_sqrt i) * unat (my_sqrt i) \<le> unat i + 1 \<and> unat i + 1 < (unat (my_sqrt i) + 1) * (unat (my_sqrt i) + 1)"
proof -
  define r where "r = my_sqrt_loop (unat i) 0 0"
  have r: "r * r \<le> unat i + 1 \<and> unat i + 1 < (r + 1) * (r + 1)"
    by (rule my_sqrt_loop_root [of 0 0 "unat i"]) (simp_all add: r_def)
  have "unat i < 256" using unsigned_less [of i] by simp
  have "r \<le> r * r" by simp
  with r \<open>unat i < 256\<close> have "r < 4294967296" by linarith
  then have "unat (my_sqrt i) = r" by (simp add: my_sqrt_def r_def unat_of_nat)
  with r show ?thesis by simp
qed

end
