(* ===== verification/FST_Enc1.thy ===== *)
theory FST_Enc1
  imports C_Prelude
begin

text \<open>
  The oldest FastTrack key mixer, \<^verbatim>\<open>src/src/networks/fasttrack/enc_type_1.c\<close>: the cube
  of a 2048-bit number modulo a fixed modulus, on arrays of 32-bit words. Modelled: the
  byte and word views, \<^verbatim>\<open>big_mul\<close>, \<^verbatim>\<open>big_isless\<close>, \<^verbatim>\<open>big_mod\<close> with its
  quotient estimate and its correction loop, \<^verbatim>\<open>big_mulmod\<close>, \<^verbatim>\<open>big_expmod\<close> and
  \<^verbatim>\<open>enc_type_1\<close>. The correction loop is a \<open>partial_function\<close>: that it ends is a
  theorem. Shown: the product is exact; the remainder is below the modulus, and is the
  remainder whenever no correction pass loses a borrow; a pass that meets a zero word with a
  pending borrow does lose it.
\<close>

section \<open>Model\<close>

definition modulus :: "u32 list" where
  "modulus =
    [0x0eb96841d, 0x031c4a05e, 0x0193bbd8f, 0x0bf77b6d6, 0x096d7f927,
     0x0e569c5fc, 0x05efa55ff, 0x0ba1519a1, 0x01b32a36f, 0x0e84b25f8,
     0x08d5b5eb2, 0x0c11f00e3, 0x019d2974d, 0x0e7ee26ad, 0x0bc8c0457,
     0x091fd3a9e, 0x06e37192e, 0x0e475aa9e, 0x072f554fc, 0x0695b3ca2,
     0x0f97bb445, 0x069f29f9a, 0x0b15e2216, 0x0390a5a36, 0x02c0054b3,
     0x0363dc15e, 0x0d238b5b8, 0x0e957a9b5, 0x00032a3df, 0x08781ab21,
     0x00a7703d8, 0x05250e6fe, 0x0b42d2df0, 0x010a931f8, 0x01e4970e5,
     0x0c3741ca7, 0x08606342a, 0x0d61a7055, 0x018e4dd48, 0x00829ee6d,
     0x08443fd05, 0x0e9db6341, 0x0de3c6725, 0x0a4037cdb, 0x096e537a7,
     0x0ed64060a, 0x0da2d7944, 0x051be98b0, 0x0315d5780, 0x0b6a31787,
     0x04d23ffc1, 0x0dbd26bb0, 0x0de7aa2fe, 0x071a157ac, 0x019288512,
     0x00d7a0050, 0x0522f69d1, 0x0dd331dd5, 0x096e62735, 0x0c6f2dc0e,
     0x0ae08473d, 0x00a532f6a, 0x034eb20ca, 0x0d453ec0a]"

definition big_set :: "u32 \<Rightarrow> u32 list" where
  "big_set val = (replicate 64 0)[0 := val]"

definition big_letoh :: "u8 list \<Rightarrow> u32 list" where
  "big_letoh src = map (\<lambda>i. fold (\<lambda>j tmp. tmp OR push_bit j (ucast (src ! (4 * i + j div 8)))) [0, 8, 16, 24] 0) [0..<64]"

definition big_htole :: "u32 list \<Rightarrow> nat \<Rightarrow> u8 list" where
  "big_htole src cnt = map (\<lambda>i. ucast (drop_bit (8 * (i mod 4)) (src ! (i div 4)) AND 0xff)) [0..<cnt]"

definition big_getbit :: "u32 list \<Rightarrow> nat \<Rightarrow> u32" where
  "big_getbit num i = drop_bit (i mod 32) (num ! (i div 32)) AND 1"

text \<open>The body of the inner loop of \<open>big_mul\<close>, one row and the product.\<close>

definition mul_step :: "u32 \<Rightarrow> u32 list \<Rightarrow> nat \<Rightarrow> nat \<Rightarrow> u64 \<times> u32 list \<Rightarrow> u64 \<times> u32 list" where
  "mul_step a in2 i j st = (case st of (k, out) \<Rightarrow>
     (let k = k + (ucast (out ! (i + j)) + ucast a * ucast (in2 ! j))
      in (drop_bit 32 k, out[i + j := ucast (k AND 0xffffffff)])))"

definition mul_row :: "nat \<Rightarrow> u32 list \<Rightarrow> u32 list \<Rightarrow> nat \<Rightarrow> u32 list \<Rightarrow> u32 list" where
  "mul_row cnt in1 in2 i out =
     (case fold (mul_step (in1 ! i) in2 i) [0..<cnt] (0, out) of
        (k, out) \<Rightarrow> out[i + cnt := ucast k])"

definition big_mul :: "nat \<Rightarrow> u32 list \<Rightarrow> u32 list \<Rightarrow> u32 list" where
  "big_mul cnt in1 in2 = fold (mul_row cnt in1 in2) [0..<cnt] (replicate (2 * cnt) 0)"

text \<open>Compared from the top word down.\<close>

primrec big_isless :: "nat \<Rightarrow> u32 list \<Rightarrow> u32 list \<Rightarrow> bool" where
  "big_isless 0 num1 num2 = False"
| "big_isless (Suc cnt) num1 num2 =
     (if num1 ! cnt < num2 ! cnt then True
      else if num1 ! cnt > num2 ! cnt then False
      else big_isless cnt num1 num2)"

text \<open>\<open>big_mod\<close>: the quotient digit, the multiply-and-subtract pass, the correction pass.\<close>

definition quot_digit :: "nat \<Rightarrow> u32 list \<Rightarrow> nat \<Rightarrow> u32 list \<Rightarrow> u32" where
  "quot_digit cnt in2 i in1 =
     ucast ((push_bit 32 (ucast (in1 ! (cnt + i))) + ucast (in1 ! (cnt + i - 1)))
            div (ucast (in2 ! (cnt - 1)) + 1 :: u64))"

definition submul_step :: "u32 \<Rightarrow> u32 list \<Rightarrow> nat \<Rightarrow> nat \<Rightarrow> u32 \<times> u32 list \<Rightarrow> u32 \<times> u32 list" where
  "submul_step k in2 i j st = (case st of (l, in1) \<Rightarrow>
     (let x = (ucast k * ucast (in2 ! j) + ucast l :: u64);
          l = ucast (drop_bit 32 x);
          l = (if ucast (in1 ! (i + j)) < x AND 0xffffffff then l + 1 else l)
      in (l, in1[i + j := in1 ! (i + j) - ucast x])))"

definition submul_pass :: "nat \<Rightarrow> u32 list \<Rightarrow> nat \<Rightarrow> u32 list \<Rightarrow> u32 list" where
  "submul_pass cnt in2 i in1 =
     (case fold (submul_step (quot_digit cnt in2 i in1) in2 i) [0..<cnt] (0, in1) of
        (l, in1) \<Rightarrow> in1[cnt + i := in1 ! (cnt + i) - l])"

definition sub_step :: "u32 list \<Rightarrow> nat \<Rightarrow> nat \<Rightarrow> u32 \<times> u32 list \<Rightarrow> u32 \<times> u32 list" where
  "sub_step in2 i j st = (case st of (l, in1) \<Rightarrow>
     (let in1 = in1[i + j := in1 ! (i + j) - l];
          l = (if in1 ! (i + j) < in2 ! j then 1 else 0)
      in (l, in1[i + j := in1 ! (i + j) - in2 ! j])))"

definition sub_pass :: "nat \<Rightarrow> u32 list \<Rightarrow> nat \<Rightarrow> u32 list \<Rightarrow> u32 list" where
  "sub_pass cnt in2 i in1 =
     (case fold (sub_step in2 i) [0..<cnt] (0, in1) of
        (l, in1) \<Rightarrow> in1[cnt + i := in1 ! (cnt + i) - l])"

partial_function (option) correct_loop :: "nat \<Rightarrow> u32 list \<Rightarrow> nat \<Rightarrow> u32 list \<Rightarrow> u32 list option" where
  "correct_loop cnt in2 i in1 =
     (if in1 ! (cnt + i) \<noteq> 0 \<or> \<not> big_isless cnt (drop i in1) in2
      then correct_loop cnt in2 i (sub_pass cnt in2 i in1)
      else Some in1)"

declare correct_loop.simps [code]

text \<open>\<open>for (i = cnt - 1; i >= 0; i--)\<close>, with \<open>n\<close> digits left.\<close>

primrec mod_loop :: "nat \<Rightarrow> nat \<Rightarrow> u32 list \<Rightarrow> u32 list \<Rightarrow> u32 list option" where
  "mod_loop cnt 0 in2 in1 = Some in1"
| "mod_loop cnt (Suc i) in2 in1 =
     Option.bind (correct_loop cnt in2 i (submul_pass cnt in2 i in1)) (mod_loop cnt i in2)"

definition big_mod :: "nat \<Rightarrow> u32 list \<Rightarrow> u32 list \<Rightarrow> u32 list option" where
  "big_mod cnt in1 in2 = map_option (take cnt) (mod_loop cnt cnt in2 in1)"

definition big_mulmod :: "u32 list \<Rightarrow> u32 list \<Rightarrow> u32 list \<Rightarrow> u32 list option" where
  "big_mulmod num1 num2 md =
     (let len = (if md ! 63 \<noteq> 0 then 64 else 32)
      in map_option (\<lambda>r. r @ drop len num1) (big_mod len (big_mul len num1 num2) md))"

text \<open>The number of bits of the exponent.\<close>

primrec top_bit :: "u32 list \<Rightarrow> nat \<Rightarrow> nat" where
  "top_bit e 0 = 0"
| "top_bit e (Suc i) = (if big_getbit e i \<noteq> 0 then Suc i else top_bit e i)"

primrec expmod_loop :: "nat \<Rightarrow> u32 list \<Rightarrow> u32 list \<Rightarrow> u32 list \<Rightarrow> u32 list option" where
  "expmod_loop 0 md lnum num = Some lnum"
| "expmod_loop (Suc n) md lnum num =
     Option.bind (big_mulmod lnum num md) (\<lambda>lnum.
       Option.bind (big_mulmod num num md) (\<lambda>num. expmod_loop n md lnum num))"

definition big_expmod :: "u32 list \<Rightarrow> u32 list \<Rightarrow> u32 list \<Rightarrow> u32 list option" where
  "big_expmod num e md = expmod_loop (top_bit e 2048) md (big_set 1) num"

definition enc_type_1 :: "u8 list \<Rightarrow> u8 list option" where
  "enc_type_1 in_key =
     (let e = big_set 3;
          num2 = take 255 in_key @ [1]
      in map_option (\<lambda>num1. big_htole num1 256) (big_expmod (big_letoh num2) e modulus))"

section \<open>The value of a word array\<close>

definition B :: nat where
  "B = 2 ^ 32"

fun bval :: "u32 list \<Rightarrow> nat" where
  "bval [] = 0"
| "bval (w # ws) = unat w + B * bval ws"

lemma B_pos [simp]: "0 < B"
  by (simp add: B_def)

lemma bval_append: "bval (xs @ ys) = bval xs + B ^ length xs * bval ys"
  by (induction xs) (simp_all add: algebra_simps)

lemma unat_lt_B: "unat (w :: u32) < B"
  using unsigned_less [of w] by (simp add: B_def)

lemma bval_less: "bval xs < B ^ length xs"
proof (induction xs)
  case (Cons w xs)
  have "unat w + B * bval xs < B * (1 + bval xs)" using unat_lt_B [of w] by simp
  also have "\<dots> \<le> B * B ^ length xs" using Cons by (intro mult_le_mono) simp_all
  finally show ?case by simp
qed simp

lemma bval_snoc: "bval (xs @ [w]) = bval xs + B ^ length xs * unat w"
  by (simp add: bval_append)

lemma bval_replicate_0 [simp]: "bval (replicate n 0) = 0"
  by (induction n) simp_all

lemma bval_take_Suc: "n < length xs \<Longrightarrow> bval (take (Suc n) xs) = bval (take n xs) + B ^ n * unat (xs ! n)"
  by (simp add: take_Suc_conv_app_nth bval_append)

section \<open>Windows of an array\<close>

text \<open>Two arrays that agree outside the window of \<open>n\<close> words at \<open>i\<close>.\<close>

definition outside :: "nat \<Rightarrow> nat \<Rightarrow> u32 list \<Rightarrow> u32 list \<Rightarrow> bool" where
  "outside i n xs ys \<longleftrightarrow> length ys = length xs \<and> take i ys = take i xs \<and> drop (i + n) ys = drop (i + n) xs"

lemma outside_refl [simp]: "outside i n xs xs"
  by (simp add: outside_def)

lemma outside_trans: "outside i n xs ys \<Longrightarrow> outside i n ys zs \<Longrightarrow> outside i n xs zs"
  by (simp add: outside_def)

lemma outside_mono: "outside i n xs ys \<Longrightarrow> n \<le> m \<Longrightarrow> outside i m xs ys"
proof -
  assume o: "outside i n xs ys" and "n \<le> m"
  then have m: "i + m = (m - n) + (i + n)" by simp
  show "outside i m xs ys"
    using o unfolding outside_def m by (simp flip: drop_drop)
qed

lemma outside_update: "j < n \<Longrightarrow> outside i n xs ys \<Longrightarrow> outside i n xs (ys[i + j := w])"
  by (simp add: outside_def)

lemma outside_nth: "outside i n xs ys \<Longrightarrow> i + n \<le> m \<Longrightarrow> m < length xs \<Longrightarrow> ys ! m = xs ! m"
proof -
  assume o: "outside i n xs ys" and m: "i + n \<le> m" "m < length xs"
  then have "drop (i + n) ys ! (m - (i + n)) = drop (i + n) xs ! (m - (i + n))"
    by (simp add: outside_def)
  moreover have "length ys = length xs" using o by (simp add: outside_def)
  ultimately show "ys ! m = xs ! m" using m by simp
qed

lemma bval_window:
  assumes "i + n \<le> length xs"
  shows "bval xs = bval (take i xs) + B ^ i * bval (slice xs i n) + B ^ (i + n) * bval (drop (i + n) xs)"
proof -
  have "xs = take i xs @ slice xs i n @ drop (i + n) xs"
    unfolding slice_def by (subst add.commute) (simp flip: drop_drop)
  then have "bval xs = bval (take i xs @ slice xs i n @ drop (i + n) xs)" by simp
  also have "\<dots> = bval (take i xs) + B ^ i * bval (slice xs i n) + B ^ (i + n) * bval (drop (i + n) xs)"
    using assms by (simp only: bval_append length_take length_slice) (simp add: power_add algebra_simps)
  finally show ?thesis .
qed

lemma slice_Suc: "i + n < length xs \<Longrightarrow> slice xs i (Suc n) = slice xs i n @ [xs ! (i + n)]"
  by (simp add: slice_def take_Suc_conv_app_nth)

lemma slice_update_above [simp]: "n \<le> j \<Longrightarrow> slice (xs[i + j := w]) i n = slice xs i n"
  by (simp add: slice_def drop_update_swap)

lemma slice_update_last: "i + n < length xs \<Longrightarrow> slice (xs[i + n := w]) i (Suc n) = slice xs i n @ [w]"
  by (simp add: slice_Suc)

lemma bval_slice_Suc: "i + n < length xs \<Longrightarrow> bval (slice xs i (Suc n)) = bval (slice xs i n) + B ^ n * unat (xs ! (i + n))"
  unfolding slice_Suc bval_snoc by (simp add: slice_def)

lemma bval_slice_update: "i + n < length xs \<Longrightarrow>
  bval (slice (xs[i + n := w]) i (Suc n)) = bval (slice xs i n) + B ^ n * unat w"
  unfolding slice_update_last bval_snoc by (simp add: slice_def)

lemma bval_slice_less: "i + n \<le> length xs \<Longrightarrow> bval (slice xs i n) < B ^ n"
  using bval_less [of "slice xs i n"] by (simp add: slice_def)

section \<open>Words and double words\<close>

lemma unat_ucast64 [simp]: "unat (ucast (w :: u32) :: u64) = unat w"
proof -
  have "unat w < 2 ^ 64" using unat_lt_B [of w] by (simp add: B_def)
  then show ?thesis by (simp only: unsigned_ucast_eq) (simp add: take_bit_nat_eq_self)
qed

lemma mac_bound: "unat (a :: u32) * unat (b :: u32) + 2 * (B - 1) \<le> B * B - 1"
proof -
  have "unat a * unat b \<le> (B - 1) * (B - 1)"
    using unat_lt_B [of a] unat_lt_B [of b] by (intro mult_le_mono) simp_all
  then show ?thesis by (simp add: B_def)
qed

lemma BB: "B * B = 2 ^ 64"
  by (simp add: B_def)

lemma unat_mac:
  assumes "unat (k :: u64) < B"
  shows "unat (k + (ucast (c :: u32) + ucast (a :: u32) * ucast (b :: u32))) = unat k + (unat c + unat a * unat b)"
proof -
  have lt: "unat k + (unat c + unat a * unat b) < 2 ^ 64"
    using mac_bound [of a b] assms unat_lt_B [of c] unfolding BB by simp
  have "unat (k + (ucast c + ucast a * ucast b)) = (unat k + (unat c + unat a * unat b)) mod 2 ^ 64"
    by (simp add: unat_word_ariths mod_add_right_eq)
  with lt show ?thesis by (simp only: mod_less)
qed

lemma unat_high64: "unat (drop_bit 32 x :: u64) = unat x div B"
  unfolding drop_bit_eq_div by (simp add: unat_div B_def)

lemma high64_less: "unat (x :: u64) div B < B"
proof -
  have "unat x < B * B" using unsigned_less [of x] by (simp add: BB)
  then show ?thesis by (simp add: less_mult_imp_div_less)
qed

lemma unat_high32: "unat (ucast (drop_bit 32 x :: u64) :: u32) = unat x div B"
proof -
  have "unat (ucast (drop_bit 32 x :: u64) :: u32) = unat x div B mod B"
    by (simp add: unsigned_ucast_eq unat_high64 take_bit_eq_mod B_def)
  then show ?thesis using high64_less [of x] by (simp only: mod_less)
qed

lemma unat_low32: "unat (ucast (x :: u64) :: u32) = unat x mod B"
  by (simp only: unsigned_ucast_eq take_bit_eq_mod B_def) simp

lemma low_mask: "(x :: u64) AND 0xffffffff = take_bit 32 x"
  by (simp add: take_bit_eq_mask mask_eq_exp_minus_1)

lemma unat_masked: "unat ((x :: u64) AND 0xffffffff) = unat x mod B"
  unfolding low_mask unsigned_take_bit_eq by (simp add: take_bit_eq_mod B_def)

lemma unat_low32_masked: "unat (ucast ((x :: u64) AND 0xffffffff) :: u32) = unat x mod B"
proof -
  have "unat (ucast (x AND 0xffffffff) :: u32) = unat x mod B mod B"
    by (simp only: unat_low32 unat_masked)
  then show ?thesis by simp
qed

section \<open>The product\<close>

lemma fold_upt_Suc: "fold f [0..<Suc n] s = f n (fold f [0..<n] s)"
  by simp

lemma mul_fold:
  assumes "i + n < length out" and "n \<le> length in2"
    and "fold (mul_step a in2 i) [0..<n] (0, out) = (k, out')"
  shows "outside i n out out' \<and> unat k < B \<and>
    bval (slice out' i n) + B ^ n * unat k = bval (slice out i n) + unat a * bval (take n in2)"
  using assms
proof (induction n arbitrary: k out')
  case 0
  then show ?case by simp
next
  case (Suc n)
  obtain k0 o0 where st: "fold (mul_step a in2 i) [0..<n] (0, out) = (k0, o0)"
    by (metis prod.exhaust)
  have IH: "outside i n out o0" "unat k0 < B"
    "bval (slice o0 i n) + B ^ n * unat k0 = bval (slice out i n) + unat a * bval (take n in2)"
    using Suc.IH [OF _ _ st] Suc.prems(1,2) by simp_all
  define x where "x = k0 + (ucast (o0 ! (i + n)) + ucast a * ucast (in2 ! n))"
  define w :: u32 where "w = ucast (x AND 0xffffffff)"
  have len: "length o0 = length out" using IH(1) by (simp add: outside_def)
  have k: "k = drop_bit 32 x" and out': "out' = o0[i + n := w]"
    using Suc.prems(3) unfolding fold_upt_Suc st by (simp_all add: mul_step_def Let_def x_def w_def)
  have o: "o0 ! (i + n) = out ! (i + n)"
    using outside_nth [OF IH(1), of "i + n"] Suc.prems(1) by simp
  have x: "unat x = unat k0 + (unat (out ! (i + n)) + unat a * unat (in2 ! n))"
    unfolding x_def o by (rule unat_mac [OF IH(2)])
  have wk: "unat w + B * unat k = unat x"
    unfolding k w_def unat_high64 unat_low32_masked by (rule mod_mult_div_eq)
  have "bval (slice out' i (Suc n)) + B ^ Suc n * unat k
      = bval (slice o0 i n) + B ^ n * (unat w + B * unat k)"
    using Suc.prems(1) len unfolding out'
    by (subst bval_slice_update) (simp_all add: algebra_simps)
  also have "\<dots> = bval (slice out i n) + unat a * bval (take n in2)
      + B ^ n * (unat (out ! (i + n)) + unat a * unat (in2 ! n))"
    unfolding wk x using IH(3) by (simp add: algebra_simps)
  also have "\<dots> = bval (slice out i (Suc n)) + unat a * bval (take (Suc n) in2)"
    using Suc.prems(1,2) by (simp add: bval_slice_Suc bval_take_Suc algebra_simps)
  finally have "bval (slice out' i (Suc n)) + B ^ Suc n * unat k =
    bval (slice out i (Suc n)) + unat a * bval (take (Suc n) in2)" .
  moreover have "outside i (Suc n) out out'"
    unfolding out' by (rule outside_update [OF _ outside_mono [OF IH(1)]]) simp_all
  moreover have "unat k < B"
    unfolding k unat_high64 by (rule high64_less)
  ultimately show ?case by blast
qed

text \<open>Replacing a window changes the value by the difference of the windows.\<close>

lemma bval_outside:
  assumes "outside i n xs ys" and "i + n \<le> length xs"
  shows "bval ys + B ^ i * bval (slice xs i n) = bval xs + B ^ i * bval (slice ys i n)"
proof -
  have "i + n \<le> length ys" using assms by (simp add: outside_def)
  then show ?thesis
    using bval_window [OF assms(2)] bval_window [of i n ys] assms(1) by (simp add: outside_def)
qed

lemma mul_row_value:
  assumes "i + cnt < length out" and "cnt \<le> length in2" and "out ! (i + cnt) = 0"
  shows "bval (mul_row cnt in1 in2 i out) = bval out + B ^ i * (unat (in1 ! i) * bval (take cnt in2))"
    and "length (mul_row cnt in1 in2 i out) = length out"
    and "i + cnt < m \<Longrightarrow> m < length out \<Longrightarrow> mul_row cnt in1 in2 i out ! m = out ! m"
proof -
  obtain k o' where st: "fold (mul_step (in1 ! i) in2 i) [0..<cnt] (0, out) = (k, o')"
    by (metis prod.exhaust)
  note f = mul_fold [OF assms(1,2) st]
  have o: "outside i cnt out o'" and k: "unat k < B" using f by simp_all
  have r: "mul_row cnt in1 in2 i out = o'[i + cnt := ucast k]"
    by (simp add: mul_row_def st)
  have len: "length o' = length out" using o by (simp add: outside_def)
  have ku: "unat (ucast k :: u32) = unat k" using k by (simp add: unat_low32)
  have o2: "outside i (Suc cnt) out (o'[i + cnt := ucast k])"
    by (rule outside_update [OF _ outside_mono [OF o]]) simp_all
  have "bval (slice (o'[i + cnt := ucast k]) i (Suc cnt)) = bval (slice out i (Suc cnt)) + unat (in1 ! i) * bval (take cnt in2)"
    using f assms(1,3) len by (simp add: bval_slice_update bval_slice_Suc ku)
  then show "bval (mul_row cnt in1 in2 i out) = bval out + B ^ i * (unat (in1 ! i) * bval (take cnt in2))"
    using bval_outside [OF o2] assms(1) unfolding r by (simp add: algebra_simps)
  show "length (mul_row cnt in1 in2 i out) = length out" using len by (simp add: r)
  show "i + cnt < m \<Longrightarrow> m < length out \<Longrightarrow> mul_row cnt in1 in2 i out ! m = out ! m"
    unfolding r using outside_nth [OF o2, of m] by simp
qed

lemma big_mul_value:
  assumes "cnt \<le> length in1" and "cnt \<le> length in2"
  shows "length (big_mul cnt in1 in2) = 2 * cnt"
    and "bval (big_mul cnt in1 in2) = bval (take cnt in1) * bval (take cnt in2)"
proof -
  have "length (fold (mul_row cnt in1 in2) [0..<n] (replicate (2 * cnt) 0)) = 2 * cnt \<and>
    bval (fold (mul_row cnt in1 in2) [0..<n] (replicate (2 * cnt) 0)) = bval (take n in1) * bval (take cnt in2) \<and>
    (\<forall>m. n + cnt \<le> m \<longrightarrow> m < 2 * cnt \<longrightarrow> fold (mul_row cnt in1 in2) [0..<n] (replicate (2 * cnt) 0) ! m = 0)"
    if "n \<le> cnt" for n
    using that
  proof (induction n)
    case 0
    then show ?case by simp
  next
    case (Suc n)
    let ?o = "fold (mul_row cnt in1 in2) [0..<n] (replicate (2 * cnt) 0)"
    have l: "n + cnt < length ?o" and z: "?o ! (n + cnt) = 0" using Suc by simp_all
    show ?case
      using Suc mul_row_value [OF l assms(2) z, where ?in1.0 = in1] assms(1)
      by (simp add: fold_upt_Suc bval_take_Suc algebra_simps del: upt_Suc)
  qed
  from this [of cnt] show "length (big_mul cnt in1 in2) = 2 * cnt"
    and "bval (big_mul cnt in1 in2) = bval (take cnt in1) * bval (take cnt in2)"
    by (simp_all add: big_mul_def)
qed

section \<open>Comparison\<close>

lemma bval_cmp_top:
  assumes "n < length xs" and "n < length ys" and "xs ! n < ys ! n"
  shows "bval (take (Suc n) xs) < bval (take (Suc n) ys)"
proof -
  have "bval (take n xs) < B ^ n" using bval_less [of "take n xs"] assms(1) by simp
  moreover have "unat (xs ! n) + 1 \<le> unat (ys ! n)"
    using assms(3) by (simp add: word_less_nat_alt)
  then have "B ^ n * (unat (xs ! n) + 1) \<le> B ^ n * unat (ys ! n)" by (rule mult_le_mono2)
  ultimately show ?thesis using assms by (simp add: bval_take_Suc)
qed

lemma big_isless_bval:
  "n \<le> length xs \<Longrightarrow> n \<le> length ys \<Longrightarrow> big_isless n xs ys \<longleftrightarrow> bval (take n xs) < bval (take n ys)"
proof (induction n)
  case (Suc n)
  have len: "n < length xs" "n < length ys" using Suc.prems by simp_all
  consider "xs ! n < ys ! n" | "ys ! n < xs ! n" | "xs ! n = ys ! n" by fastforce
  then show ?case
  proof cases
    case 1
    then show ?thesis using bval_cmp_top [OF len] by simp
  next
    case 2
    then show ?thesis using bval_cmp_top [OF len(2,1)] by (auto simp: not_less_iff_gr_or_eq)
  next
    case 3
    then show ?thesis using Suc.IH len by (simp add: bval_take_Suc)
  qed
qed simp

lemma big_isless_window:
  assumes "cnt \<le> length in2" and "i + cnt \<le> length in1"
  shows "big_isless cnt (drop i in1) in2 \<longleftrightarrow> bval (slice in1 i cnt) < bval (take cnt in2)"
  using big_isless_bval [of cnt "drop i in1" in2] assms by (simp add: slice_def)

section \<open>The multiply-and-subtract pass\<close>

lemma unat_u32_sub:
  fixes y x :: u32
  shows "unat y + (if unat y < unat x then B else 0) = unat (y - x) + unat x"
proof (cases "unat y < unat x")
  case False
  then show ?thesis by (simp add: unat_sub word_le_nat_alt)
next
  case True
  have "unat (y - x) = unat y + B - unat x"
    using True by (subst unat_sub_if') (simp add: B_def)
  with True unat_lt_B [of x] show ?thesis by simp
qed

lemma unat_mac2:
  "unat (ucast (k :: u32) * ucast (v :: u32) + ucast (l :: u32) :: u64) = unat k * unat v + unat l"
  using unat_mac [of "ucast l" 0 k v] unat_lt_B [of l] by (simp add: add.commute)

lemma mul_add_high: "unat (k :: u32) * unat (v :: u32) + unat (l :: u32) \<le> (B - 1) * B"
proof -
  have "unat k * unat v \<le> (B - 1) * (B - 1)"
    using unat_lt_B [of k] unat_lt_B [of v] by (intro mult_le_mono) simp_all
  moreover have "unat l \<le> B - 1" using unat_lt_B [of l] by simp
  moreover have "(B - 1) * (B - 1) + (B - 1) = (B - 1) * B"
    by (simp add: B_def)
  ultimately show ?thesis by linarith
qed

text \<open>The borrow of one step is the high word of the product plus the borrow of the low
  words; it fits in 32 bits.\<close>

lemma submul_borrow:
  fixes y v k l :: u32
  defines "x \<equiv> (ucast k * ucast v + ucast l :: u64)"
  defines "h \<equiv> (ucast (drop_bit 32 x) :: u32)"
  defines "l' \<equiv> (if ucast y < x AND 0xffffffff then h + 1 else h)"
  shows "unat y + B * unat l' = unat (y - ucast x) + (unat k * unat v + unat l)"
proof -
  have x: "unat x = unat k * unat v + unat l" unfolding x_def by (rule unat_mac2)
  have h: "unat h = unat x div B" unfolding h_def by (rule unat_high32)
  have c: "ucast y < x AND 0xffffffff \<longleftrightarrow> unat y < unat x mod B"
    by (simp only: word_less_nat_alt unat_ucast64 unat_masked)
  have l': "unat l' = unat x div B + (if unat y < unat x mod B then 1 else 0)"
  proof (cases "unat y < unat x mod B")
    case True
    have "unat x div B < B - 1"
    proof (rule ccontr)
      assume "\<not> ?thesis"
      then have "B - 1 \<le> unat x div B" by simp
      then have "(B - 1) * B \<le> unat x div B * B" by (rule mult_le_mono1)
      moreover have "unat x \<le> (B - 1) * B" unfolding x by (rule mul_add_high)
      moreover have "unat x div B * B + unat x mod B = unat x" by simp
      ultimately have "unat x mod B = 0" by linarith
      with True show False by simp
    qed
    then have "unat (h + 1) = unat x div B + 1"
      using h by (subst unat_add_lem [THEN iffD1]) (simp_all add: B_def)
    with True c show ?thesis by (simp add: l'_def)
  next
    case False
    with c h show ?thesis by (simp add: l'_def)
  qed
  have low: "unat (ucast x :: u32) = unat x mod B" by (rule unat_low32)
  have "unat y + B * unat l' = unat y + (if unat y < unat x mod B then B else 0) + B * (unat x div B)"
    unfolding l' by (simp add: algebra_simps)
  also have "\<dots> = unat (y - ucast x) + (unat x mod B + B * (unat x div B))"
    using unat_u32_sub [of y "ucast x"] unfolding low by simp
  also have "\<dots> = unat (y - ucast x) + unat x" by (simp only: mod_mult_div_eq)
  finally show ?thesis unfolding x .
qed

lemma submul_fold:
  assumes "i + n < length in1" and "n \<le> length in2"
    and "fold (submul_step k in2 i) [0..<n] (0, in1) = (l, in1')"
  shows "outside i n in1 in1' \<and>
    bval (slice in1 i n) + B ^ n * unat l = bval (slice in1' i n) + unat k * bval (take n in2)"
  using assms
proof (induction n arbitrary: l in1')
  case 0
  then show ?case by simp
next
  case (Suc n)
  obtain l0 o0 where st: "fold (submul_step k in2 i) [0..<n] (0, in1) = (l0, o0)"
    by (metis prod.exhaust)
  have IH: "outside i n in1 o0"
    "bval (slice in1 i n) + B ^ n * unat l0 = bval (slice o0 i n) + unat k * bval (take n in2)"
    using Suc.IH [OF _ _ st] Suc.prems(1,2) by simp_all
  define w where "w = o0 ! (i + n) - ucast (ucast k * ucast (in2 ! n) + ucast l0 :: u64)"
  have len: "length o0 = length in1" using IH(1) by (simp add: outside_def)
  have out': "in1' = o0[i + n := w]"
    using Suc.prems(3) unfolding fold_upt_Suc st by (simp add: submul_step_def Let_def w_def)
  have o: "o0 ! (i + n) = in1 ! (i + n)"
    using outside_nth [OF IH(1), of "i + n"] Suc.prems(1) by simp
  have wl: "unat (in1 ! (i + n)) + B * unat l = unat w + (unat k * unat (in2 ! n) + unat l0)"
    using submul_borrow [of "o0 ! (i + n)" k "in2 ! n" l0] Suc.prems(3)
    unfolding fold_upt_Suc st by (simp add: submul_step_def Let_def w_def o)
  have "bval (slice in1 i (Suc n)) + B ^ Suc n * unat l
      = bval (slice in1 i n) + B ^ n * (unat (in1 ! (i + n)) + B * unat l)"
    using Suc.prems(1) by (simp add: bval_slice_Suc algebra_simps)
  also have "\<dots> = bval (slice o0 i n) + unat k * bval (take n in2) + B ^ n * (unat w + unat k * unat (in2 ! n))"
    unfolding wl using IH(2) by (simp add: algebra_simps)
  also have "\<dots> = bval (slice in1' i (Suc n)) + unat k * bval (take (Suc n) in2)"
    using Suc.prems(1,2) len unfolding out'
    by (simp add: bval_slice_update bval_take_Suc algebra_simps)
  finally have "bval (slice in1 i (Suc n)) + B ^ Suc n * unat l =
    bval (slice in1' i (Suc n)) + unat k * bval (take (Suc n) in2)" .
  moreover have "outside i (Suc n) in1 in1'"
    unfolding out' by (rule outside_update [OF _ outside_mono [OF IH(1)]]) simp_all
  ultimately show ?case by blast
qed

section \<open>The correction pass\<close>

text \<open>No step of the pass meets a zero word with a borrow pending.\<close>

primrec sub_exact :: "u32 list \<Rightarrow> nat \<Rightarrow> u32 list \<Rightarrow> nat \<Rightarrow> bool" where
  "sub_exact in2 i in1 0 = True"
| "sub_exact in2 i in1 (Suc n) =
     (sub_exact in2 i in1 n \<and>
      (case fold (sub_step in2 i) [0..<n] (0, in1) of (l, a) \<Rightarrow> \<not> (l = 1 \<and> a ! (i + n) = 0)))"

lemma sub_borrow:
  fixes y v l :: u32
  assumes l: "l = 0 \<or> l = 1"
  defines "l' \<equiv> (if y - l < v then 1 else 0 :: u32)"
  shows "l = 1 \<and> y = 0 \<Longrightarrow> l' = 0 \<and> unat (y - l - v) + unat v + 1 = B"
    and "\<not> (l = 1 \<and> y = 0) \<Longrightarrow> unat y + B * unat l' = unat (y - l - v) + (unat v + unat l)"
proof -
  assume "l = 1 \<and> y = 0"
  moreover have "unat (- 1 :: u32) = B - 1" unfolding unsigned_minus_1_eq_mask by (simp add: B_def mask_eq_exp_minus_1)
  ultimately show "l' = 0 \<and> unat (y - l - v) + unat v + 1 = B"
    using unat_u32_sub [of "- 1" v] unat_lt_B [of v]
    by (auto simp: l'_def word_less_nat_alt)
next
  assume a: "\<not> (l = 1 \<and> y = 0)"
  have "unat (y - l) + unat l = unat y"
    using l a unat_u32_sub [of y l] by (auto simp: unat_eq_zero)
  moreover have "unat l' = (if unat (y - l) < unat v then 1 else 0)"
    by (simp add: l'_def word_less_nat_alt)
  ultimately show "unat y + B * unat l' = unat (y - l - v) + (unat v + unat l)"
    using unat_u32_sub [of "y - l" v] by (auto split: if_splits)
qed

lemma sub_fold:
  assumes "i + n < length in1" and "n \<le> length in2"
    and "fold (sub_step in2 i) [0..<n] (0, in1) = (l, in1')"
  shows "outside i n in1 in1' \<and> (l = 0 \<or> l = 1) \<and>
    (\<exists>lost. bval (slice in1 i n) + B ^ n * unat l + lost = bval (slice in1' i n) + bval (take n in2)
       \<and> (sub_exact in2 i in1 n \<longrightarrow> lost = 0))"
  using assms
proof (induction n arbitrary: l in1')
  case 0
  then show ?case by simp
next
  case (Suc n)
  obtain l0 o0 where st: "fold (sub_step in2 i) [0..<n] (0, in1) = (l0, o0)"
    by (metis prod.exhaust)
  have IH: "outside i n in1 o0" "l0 = 0 \<or> l0 = 1"
    using Suc.IH [OF _ _ st] Suc.prems(1,2) by simp_all
  obtain lost where lost:
    "bval (slice in1 i n) + B ^ n * unat l0 + lost = bval (slice o0 i n) + bval (take n in2)"
    "sub_exact in2 i in1 n \<Longrightarrow> lost = 0"
    using Suc.IH [OF _ _ st] Suc.prems(1,2) by auto
  define y v where "y = in1 ! (i + n)" and "v = in2 ! n"
  define w where "w = y - l0 - v"
  have len: "length o0 = length in1" using IH(1) by (simp add: outside_def)
  have o: "o0 ! (i + n) = y"
    using outside_nth [OF IH(1), of "i + n"] Suc.prems(1) by (simp add: y_def)
  have step: "in1' = o0[i + n := w]" "l = (if y - l0 < v then 1 else 0)"
    using Suc.prems(3) Suc.prems(1) len unfolding fold_upt_Suc st
    by (simp_all add: sub_step_def Let_def o w_def v_def)
  have out: "outside i (Suc n) in1 in1'"
    unfolding step by (rule outside_update [OF _ outside_mono [OF IH(1)]]) simp_all
  have s': "bval (slice in1' i (Suc n)) = bval (slice o0 i n) + B ^ n * unat w"
    using Suc.prems(1) len unfolding step by (simp add: bval_slice_update)
  have s: "bval (slice in1 i (Suc n)) = bval (slice in1 i n) + B ^ n * unat y"
    using Suc.prems(1) by (simp add: bval_slice_Suc y_def)
  have t: "bval (take (Suc n) in2) = bval (take n in2) + B ^ n * unat v"
    using Suc.prems(2) by (simp add: bval_take_Suc v_def)
  show ?case
  proof (cases "l0 = 1 \<and> y = 0")
    case True
    have w: "unat w + unat v + 1 = B" and l: "l = 0"
      using sub_borrow(1) [OF IH(2) True, of v] step(2) by (simp_all add: w_def)
    have "B ^ n * unat w + B ^ n * unat v + B ^ n = B ^ Suc n"
      using w by (metis Suc_eq_plus1 distrib_left mult.commute nat_mult_1_right power_Suc)
    then have "bval (slice in1 i (Suc n)) + B ^ Suc n * unat l + (lost + B ^ Suc n)
        = bval (slice in1' i (Suc n)) + bval (take (Suc n) in2)"
      using lost(1) True l unfolding s s' t by simp
    moreover have "\<not> sub_exact in2 i in1 (Suc n)" using True st o by simp
    ultimately show ?thesis using out l by blast
  next
    case False
    have w: "unat y + B * unat l = unat w + (unat v + unat l0)"
      using sub_borrow(2) [OF IH(2) False, of v] step(2) by (simp add: w_def)
    have "B ^ n * unat y + B ^ Suc n * unat l = B ^ n * unat w + B ^ n * unat v + B ^ n * unat l0"
      using arg_cong [OF w, of "\<lambda>x. B ^ n * x"] by (simp add: algebra_simps)
    then have "bval (slice in1 i (Suc n)) + B ^ Suc n * unat l + lost
        = bval (slice in1' i (Suc n)) + bval (take (Suc n) in2)"
      using lost(1) unfolding s s' t by simp
    moreover have "sub_exact in2 i in1 (Suc n) \<Longrightarrow> lost = 0" using lost(2) by simp
    ultimately show ?thesis using out step(2) by auto
  qed
qed

text \<open>While the loop condition holds, the borrow out of the pass fits in the top word.\<close>

definition again :: "nat \<Rightarrow> u32 list \<Rightarrow> nat \<Rightarrow> u32 list \<Rightarrow> bool" where
  "again cnt in2 i in1 \<longleftrightarrow> in1 ! (cnt + i) \<noteq> 0 \<or> \<not> big_isless cnt (drop i in1) in2"

lemma sub_pass_parts:
  assumes "i + cnt < length in1" and "cnt \<le> length in2" and "again cnt in2 i in1"
    and "fold (sub_step in2 i) [0..<cnt] (0, in1) = (l, in1')"
  shows "unat l \<le> unat (in1 ! (cnt + i))"
    and "in1' ! (cnt + i) = in1 ! (cnt + i)" and "length in1' = length in1"
proof -
  note f = sub_fold [OF assms(1,2,4)]
  show "length in1' = length in1" using f by (simp add: outside_def)
  show "in1' ! (cnt + i) = in1 ! (cnt + i)"
    using outside_nth [of i cnt in1 in1' "cnt + i"] f assms(1) by (simp add: add.commute)
  show "unat l \<le> unat (in1 ! (cnt + i))"
  proof (cases "in1 ! (cnt + i) = 0")
    case True
    with assms(1-3) have "bval (take cnt in2) \<le> bval (slice in1 i cnt)"
      by (simp add: again_def big_isless_window)
    moreover have "bval (slice in1' i cnt) < B ^ cnt"
      using bval_slice_less [of i cnt in1'] f assms(1) by (simp add: outside_def)
    ultimately have "l \<noteq> 1" using f by auto
    then show ?thesis using f by auto
  next
    case False
    then have "0 < unat (in1 ! (cnt + i))" by (simp add: unat_gt_0)
    then show ?thesis using f by auto
  qed
qed

lemma outside_sub_pass:
  assumes "i + cnt < length in1" and "cnt \<le> length in2"
  shows "outside i (Suc cnt) in1 (sub_pass cnt in2 i in1)"
proof -
  obtain l a where st: "fold (sub_step in2 i) [0..<cnt] (0, in1) = (l, a)"
    by (metis prod.exhaust)
  have "outside i cnt in1 a" using sub_fold [OF assms st] by simp
  then show ?thesis
    using outside_update [of cnt "Suc cnt" i in1 a] outside_mono [of i cnt in1 a "Suc cnt"]
    by (simp add: sub_pass_def st add.commute)
qed

text \<open>An exact pass takes the modulus off the window.\<close>

lemma sub_pass_exact:
  assumes "i + cnt < length in1" and "cnt \<le> length in2" and "again cnt in2 i in1"
    and "sub_exact in2 i in1 cnt"
  shows "bval (slice (sub_pass cnt in2 i in1) i (Suc cnt)) + bval (take cnt in2) = bval (slice in1 i (Suc cnt))"
proof -
  obtain l a where st: "fold (sub_step in2 i) [0..<cnt] (0, in1) = (l, a)"
    by (metis prod.exhaust)
  note p = sub_pass_parts [OF assms(1-3) st]
  have eq: "bval (slice in1 i cnt) + B ^ cnt * unat l = bval (slice a i cnt) + bval (take cnt in2)"
    using sub_fold [OF assms(1,2) st] assms(4) by auto
  have u: "unat (in1 ! (cnt + i) - l) + unat l = unat (in1 ! (cnt + i))"
    using p(1) by (simp add: unat_sub word_le_nat_alt)
  have "B ^ cnt * unat (in1 ! (cnt + i) - l) + B ^ cnt * unat l = B ^ cnt * unat (in1 ! (cnt + i))"
    unfolding u [symmetric] by (simp only: distrib_left)
  then show ?thesis
    using assms(1) p(2,3) eq
    by (simp add: sub_pass_def st bval_slice_Suc bval_slice_update add.commute [of cnt i])
qed

section \<open>The correction loop ends\<close>

text \<open>The two top words of the window, plus a bonus while the lower one is zero: a lost borrow
  adds less than the modulus takes off.\<close>

definition top_measure :: "nat \<Rightarrow> u32 list \<Rightarrow> nat \<Rightarrow> u32 list \<Rightarrow> nat" where
  "top_measure c in2 i in1 =
     B * unat (in1 ! (i + Suc c)) + unat (in1 ! (i + c))
     + (if in1 ! (i + c) = 0 then B - unat (in2 ! c) else 0)"

definition normal_top :: "u32 \<Rightarrow> bool" where
  "normal_top v \<longleftrightarrow> B < 2 * unat v \<and> unat v + 2 \<le> B"

lemma top_measure_decreases:
  assumes len: "i + Suc c < length in1" "Suc c \<le> length in2" and ag: "again (Suc c) in2 i in1"
    and v: "normal_top (in2 ! c)"
  shows "top_measure c in2 i (sub_pass (Suc c) in2 i in1) < top_measure c in2 i in1"
proof -
  obtain l0 o0 where st0: "fold (sub_step in2 i) [0..<c] (0, in1) = (l0, o0)" by (metis prod.exhaust)
  obtain l a where st: "fold (sub_step in2 i) [0..<Suc c] (0, in1) = (l, a)" by (metis prod.exhaust)
  have f0: "outside i c in1 o0" "l0 = 0 \<or> l0 = 1" using sub_fold [OF _ _ st0] len by auto
  have lo: "length o0 = length in1" using f0(1) by (simp add: outside_def)
  have w0: "o0 ! (i + c) = in1 ! (i + c)" using outside_nth [OF f0(1), of "i + c"] len by simp
  note p = sub_pass_parts [OF len ag st, unfolded add.commute [of "Suc c" i]]
  define w v t where "w = in1 ! (i + c)" and "v = in2 ! c" and "t = in1 ! (i + Suc c)"
  have a: "a ! (i + c) = w - l0 - v" and l: "l = (if w - l0 < v then 1 else 0)"
    using st len lo unfolding fold_upt_Suc st0
    by (auto simp: sub_step_def Let_def w0 w_def v_def)
  have r: "sub_pass (Suc c) in2 i in1 ! (i + c) = w - l0 - v"
    "sub_pass (Suc c) in2 i in1 ! (i + Suc c) = t - l"
    using len p(2,3) a by (simp_all add: sub_pass_def st t_def add.commute [of c i] del: upt_Suc)
  have t: "unat (t - l) + unat l = unat t"
    using p(1) by (simp add: unat_sub word_le_nat_alt t_def)
  have Bt: "B * unat (t - l) + B * unat l = B * unat t"
    unfolding t [symmetric] by (simp only: distrib_left)
  have v2: "B < 2 * unat v" "unat v + 2 \<le> B" using v by (simp_all add: normal_top_def v_def)
  show ?thesis
  proof (cases "l0 = 1 \<and> w = 0")
    case True
    have e: "unat (w - l0 - v) + unat v + 1 = B" "l = 0"
      using sub_borrow(1) [OF f0(2) True, of v] l by simp_all
    with v2 have "w - l0 - v \<noteq> 0" by (auto simp: unat_eq_zero)
    with e Bt True v2 show ?thesis
      unfolding top_measure_def r w_def [symmetric] v_def [symmetric] t_def [symmetric] by simp
  next
    case False
    define w' where "w' = w - l0 - v"
    have "unat w + B * unat l = unat w' + (unat v + unat l0)"
      using sub_borrow(2) [OF f0(2) False, of v] l by (simp add: w'_def)
    moreover have "B - unat v < unat v" "0 < unat v" using v2 by linarith+
    then have "(if w' = 0 then B - unat v else 0) < unat v" by presburger
    ultimately have "B * unat (t - l) + unat w' + (if w' = 0 then B - unat v else 0)
        < B * unat t + unat w + (if w = 0 then B - unat v else 0)"
      using Bt by linarith
    then show ?thesis
      unfolding top_measure_def r w_def [symmetric] v_def [symmetric] t_def [symmetric] w'_def .
qed
qed

lemma correct_loop_again:
  "correct_loop cnt in2 i in1 =
     (if again cnt in2 i in1 then correct_loop cnt in2 i (sub_pass cnt in2 i in1) else Some in1)"
  by (subst correct_loop.simps) (simp add: again_def)

lemma correct_loop_returns:
  assumes "i + Suc c < length in1" and "Suc c \<le> length in2" and "normal_top (in2 ! c)"
  shows "\<exists>r. correct_loop (Suc c) in2 i in1 = Some r \<and> outside i (Suc (Suc c)) in1 r \<and> \<not> again (Suc c) in2 i r"
  using assms(1)
proof (induction "top_measure c in2 i in1" arbitrary: in1 rule: less_induct)
  case less
  show ?case
  proof (cases "again (Suc c) in2 i in1")
    case False
    then show ?thesis by (simp add: correct_loop_again [of _ _ _ in1])
  next
    case True
    let ?p = "sub_pass (Suc c) in2 i in1"
    have o: "outside i (Suc (Suc c)) in1 ?p"
      by (rule outside_sub_pass [OF less.prems assms(2)])
    then have "i + Suc c < length ?p" using less.prems by (simp add: outside_def)
    with less.hyps [OF top_measure_decreases [OF less.prems assms(2) True assms(3)]] obtain r where
      r: "correct_loop (Suc c) in2 i ?p = Some r" "outside i (Suc (Suc c)) ?p r" "\<not> again (Suc c) in2 i r"
      by auto
    have "correct_loop (Suc c) in2 i in1 = correct_loop (Suc c) in2 i ?p"
      using True by (simp add: correct_loop_again [of _ _ _ in1])
    with r outside_trans [OF o r(2)] show ?thesis by simp
  qed
qed

lemma outside_submul_pass:
  assumes "i + cnt < length in1" and "cnt \<le> length in2"
  shows "outside i (Suc cnt) in1 (submul_pass cnt in2 i in1)"
proof -
  obtain l a where st: "fold (submul_step (quot_digit cnt in2 i in1) in2 i) [0..<cnt] (0, in1) = (l, a)"
    by (metis prod.exhaust)
  have "outside i cnt in1 a" using submul_fold [OF assms st] by simp
  then show ?thesis
    using outside_update [of cnt "Suc cnt" i in1 a] outside_mono [of i cnt in1 a "Suc cnt"]
    by (simp add: submul_pass_def st add.commute)
qed

lemma mod_loop_returns:
  assumes "Suc c \<le> length in2" and "normal_top (in2 ! c)"
  shows "n + c < length in1 \<Longrightarrow> \<exists>r. mod_loop (Suc c) n in2 in1 = Some r \<and> length r = length in1
    \<and> (0 < n \<longrightarrow> bval (take (Suc c) r) < bval (take (Suc c) in2))"
proof (induction n arbitrary: in1)
  case (Suc i)
  let ?m = "submul_pass (Suc c) in2 i in1"
  have o: "outside i (Suc (Suc c)) in1 ?m"
    using Suc.prems assms(1) by (intro outside_submul_pass) simp_all
  then have "i + Suc c < length ?m" using Suc.prems by (simp add: outside_def)
  from correct_loop_returns [OF this assms] obtain r where
    r: "correct_loop (Suc c) in2 i ?m = Some r" "outside i (Suc (Suc c)) ?m r" "\<not> again (Suc c) in2 i r"
    by blast
  have lr: "length r = length in1" using o r(2) by (simp add: outside_def)
  with Suc.IH [of r] Suc.prems obtain q where
    q: "mod_loop (Suc c) i in2 r = Some q" "length q = length in1"
    "0 < i \<longrightarrow> bval (take (Suc c) q) < bval (take (Suc c) in2)" by auto
  show ?case
  proof (cases i)
    case 0
    with q r have "q = r" by simp
    moreover have "big_isless (Suc c) (drop i r) in2" using r(3) unfolding again_def by blast
    then have "bval (take (Suc c) r) < bval (take (Suc c) in2)"
      using big_isless_bval [of "Suc c" r in2] 0 assms(1) lr Suc.prems by (simp del: big_isless.simps)
    ultimately show ?thesis using q r by simp
  next
    case (Suc _)
    with q r show ?thesis by simp
  qed
qed simp

lemma big_mod_returns:
  assumes "Suc c \<le> length in2" and "normal_top (in2 ! c)" and "length in1 = 2 * Suc c"
  shows "\<exists>r. big_mod (Suc c) in1 in2 = Some r \<and> length r = Suc c \<and> bval r < bval (take (Suc c) in2)"
  using mod_loop_returns [OF assms(1,2), of "Suc c" in1] assms(3)
  by (auto simp: big_mod_def simp del: mod_loop.simps)

section \<open>\<open>enc_type_1\<close> returns\<close>

lemma length_modulus [simp]: "length modulus = 64"
  by (simp add: modulus_def)

lemma modulus_top: "modulus ! 63 = 0xd453ec0a"
  by (simp add: modulus_def)

lemma normal_modulus: "normal_top (modulus ! 63)"
  unfolding modulus_top normal_top_def B_def by simp

lemma big_mulmod_returns:
  assumes "length num1 = 64" and "length num2 = 64"
  shows "\<exists>r. big_mulmod num1 num2 modulus = Some r \<and> length r = 64 \<and> bval r < bval modulus"
proof -
  have "length (big_mul 64 num1 num2) = 2 * 64"
    using big_mul_value(1) [of 64 num1 num2] assms by simp
  then show ?thesis
    using big_mod_returns [of 63 modulus "big_mul 64 num1 num2"] normal_modulus assms(1)
    by (auto simp: big_mulmod_def modulus_top)
qed

lemma top_bit_pos: "big_getbit e i \<noteq> 0 \<Longrightarrow> i < n \<Longrightarrow> 0 < top_bit e n"
  by (induction n) (auto simp: less_Suc_eq)

lemma expmod_loop_returns:
  "length lnum = 64 \<Longrightarrow> length num = 64 \<Longrightarrow> 0 < n \<Longrightarrow>
   \<exists>r. expmod_loop n modulus lnum num = Some r \<and> length r = 64 \<and> bval r < bval modulus"
proof (induction n arbitrary: lnum num)
  case (Suc n)
  obtain a where a: "big_mulmod lnum num modulus = Some a" "length a = 64" "bval a < bval modulus"
    using big_mulmod_returns [OF Suc.prems(1,2)] by blast
  obtain b where b: "big_mulmod num num modulus = Some b" "length b = 64"
    using big_mulmod_returns [OF Suc.prems(2,2)] by blast
  show ?case
  proof (cases n)
    case 0
    with a b show ?thesis by simp
  next
    case (Suc _)
    then show ?thesis using Suc.IH [OF a(2) b(2)] a b by simp
  qed
qed simp

section \<open>The remainder, when no borrow is lost\<close>

inductive loop_exact :: "nat \<Rightarrow> u32 list \<Rightarrow> nat \<Rightarrow> u32 list \<Rightarrow> bool" for cnt in2 i where
  loop_exact_stop: "\<not> again cnt in2 i in1 \<Longrightarrow> loop_exact cnt in2 i in1"
| loop_exact_pass: "again cnt in2 i in1 \<Longrightarrow> sub_exact in2 i in1 cnt \<Longrightarrow>
    loop_exact cnt in2 i (sub_pass cnt in2 i in1) \<Longrightarrow> loop_exact cnt in2 i in1"

primrec mod_exact :: "nat \<Rightarrow> nat \<Rightarrow> u32 list \<Rightarrow> u32 list \<Rightarrow> bool" where
  "mod_exact cnt 0 in2 in1 = True"
| "mod_exact cnt (Suc i) in2 in1 =
     (loop_exact cnt in2 i (submul_pass cnt in2 i in1) \<and>
      (\<forall>r. correct_loop cnt in2 i (submul_pass cnt in2 i in1) = Some r \<longrightarrow> mod_exact cnt i in2 r))"

lemma loop_exact_mod:
  assumes "loop_exact cnt in2 i in1" and "i + cnt < length in1" and "cnt \<le> length in2"
  shows "\<exists>r. correct_loop cnt in2 i in1 = Some r \<and> outside i (Suc cnt) in1 r \<and>
    bval (slice r i cnt) = bval (slice in1 i (Suc cnt)) mod bval (take cnt in2)"
  using assms
proof (induction rule: loop_exact.induct)
  case (loop_exact_stop in1)
  then have z: "in1 ! (i + cnt) = 0" and "bval (slice in1 i cnt) < bval (take cnt in2)"
    by (simp_all add: again_def big_isless_window add.commute)
  with loop_exact_stop.prems have "bval (slice in1 i (Suc cnt)) mod bval (take cnt in2) = bval (slice in1 i cnt)"
    by (simp add: bval_slice_Suc)
  with loop_exact_stop show ?case by (simp add: correct_loop_again [of _ _ _ in1])
next
  case (loop_exact_pass in1)
  let ?p = "sub_pass cnt in2 i in1"
  have o: "outside i (Suc cnt) in1 ?p"
    by (rule outside_sub_pass [OF loop_exact_pass.prems])
  then have "i + cnt < length ?p" using loop_exact_pass.prems by (simp add: outside_def)
  from loop_exact_pass.IH [OF this loop_exact_pass.prems(2)] obtain r where
    r: "correct_loop cnt in2 i ?p = Some r" "outside i (Suc cnt) ?p r"
    "bval (slice r i cnt) = bval (slice ?p i (Suc cnt)) mod bval (take cnt in2)" by blast
  have "bval (slice ?p i (Suc cnt)) mod bval (take cnt in2) = bval (slice in1 i (Suc cnt)) mod bval (take cnt in2)"
    using sub_pass_exact [OF loop_exact_pass.prems loop_exact_pass.hyps(1,2)]
    by (metis mod_add_self2)
  with r outside_trans [OF o r(2)] loop_exact_pass.hyps(1) show ?case
    by (simp add: correct_loop_again [of _ _ _ in1])
qed

text \<open>The quotient digit does not exceed the quotient.\<close>

lemma quot_digit_le:
  assumes len: "i + Suc c < length in1" "Suc c \<le> length in2"
    and hi: "bval (slice in1 (Suc i) (Suc c)) < bval (take (Suc c) in2)"
  shows "unat (quot_digit (Suc c) in2 i in1) * bval (take (Suc c) in2) \<le> bval (slice in1 i (Suc (Suc c)))"
proof -
  define t s v where "t = unat (in1 ! (i + Suc c))" and "s = unat (in1 ! (i + c))" and "v = unat (in2 ! c)"
  have lt: "t < B" "s < B" "v < B" by (simp_all add: t_def s_def v_def unat_lt_B)
  have bv: "bval (take (Suc c) in2) < B ^ c * (v + 1)"
    using bval_less [of "take c in2"] len(2) by (simp add: bval_take_Suc v_def)
  have "B ^ c * t \<le> bval (slice in1 (Suc i) (Suc c))"
    using len(1) by (simp add: bval_slice_Suc t_def)
  with hi bv have "B ^ c * t < B ^ c * (v + 1)" by linarith
  then have "t < v + 1" by (simp only: mult_less_cancel1)
  then have tv: "t \<le> v" by simp
  define U where "U = B * t + s"
  have "B * t + s < B * (v + 1)"
  proof -
    have "B * t \<le> B * v" using tv by (rule mult_le_mono2)
    moreover have "B * (v + 1) = B * v + B" by simp
    ultimately show ?thesis using lt(2) by linarith
  qed
  then have UB: "U < B * (v + 1)" by (simp only: U_def)
  also have "B * (v + 1) \<le> B * B" using lt(3) by (intro mult_le_mono2) simp
  finally have U64: "U < 2 ^ 64" by (simp only: BB)
  have num: "unat (push_bit 32 (ucast (in1 ! (Suc c + i))) + ucast (in1 ! (Suc c + i - 1)) :: u64) = U"
  proof -
    have p: "push_bit 32 (ucast (in1 ! (Suc c + i)) :: u64) = of_nat (B * t)"
      by (simp add: push_bit_eq_mult t_def B_def add.commute)
    have q: "(ucast (in1 ! (Suc c + i - 1)) :: u64) = of_nat s"
      by (simp add: s_def add.commute)
    have "push_bit 32 (ucast (in1 ! (Suc c + i))) + ucast (in1 ! (Suc c + i - 1)) = (of_nat U :: u64)"
      unfolding p q U_def by (simp only: of_nat_add)
    then show ?thesis using U64 by (simp add: unat_of_nat)
  qed
  have den: "unat (ucast (in2 ! (Suc c - 1)) + 1 :: u64) = v + 1"
  proof -
    have e: "(ucast (in2 ! (Suc c - 1)) + 1 :: u64) = of_nat (v + 1)" by (simp add: v_def)
    have "v + 1 < 2 ^ LENGTH(64)" using lt(3) by (simp add: B_def)
    then show ?thesis unfolding e unat_of_nat by (rule mod_less)
  qed
  have k: "unat (quot_digit (Suc c) in2 i in1) = U div (v + 1)"
  proof -
    have "unat (quot_digit (Suc c) in2 i in1) = U div (v + 1) mod B"
      unfolding quot_digit_def unat_low32 unat_div num den ..
    moreover have "U div (v + 1) < B" using UB by (simp add: less_mult_imp_div_less)
    ultimately show ?thesis by simp
  qed
  have "U div (v + 1) * bval (take (Suc c) in2) \<le> U div (v + 1) * (B ^ c * (v + 1))"
    using bv by (intro mult_le_mono2) simp
  also have "\<dots> = B ^ c * (U div (v + 1) * (v + 1))" by (simp only: ac_simps)
  also have "\<dots> \<le> B ^ c * U" by (intro mult_le_mono2) (simp only: div_times_less_eq_dividend)
  also have "\<dots> \<le> bval (slice in1 i (Suc (Suc c)))"
    using len(1) by (simp add: bval_slice_Suc U_def t_def s_def algebra_simps)
  finally show ?thesis by (simp only: k)
qed

lemma submul_pass_value:
  assumes len: "i + Suc c < length in1" "Suc c \<le> length in2"
    and hi: "bval (slice in1 (Suc i) (Suc c)) < bval (take (Suc c) in2)"
  shows "bval (slice (submul_pass (Suc c) in2 i in1) i (Suc (Suc c)))
      + unat (quot_digit (Suc c) in2 i in1) * bval (take (Suc c) in2) = bval (slice in1 i (Suc (Suc c)))"
proof -
  let ?k = "quot_digit (Suc c) in2 i in1" and ?t = "in1 ! (i + Suc c)" and ?b = "B ^ Suc c"
  obtain l a where st: "fold (submul_step ?k in2 i) [0..<Suc c] (0, in1) = (l, a)"
    by (metis prod.exhaust)
  note f = submul_fold [OF len st]
  have la: "length a = length in1" and at: "a ! (i + Suc c) = ?t"
    using f outside_nth [of i "Suc c" in1 a "i + Suc c"] len(1) by (simp_all add: outside_def)
  have sl: "bval (slice a i (Suc c)) < ?b" using bval_slice_less [of i "Suc c" a] la len(1) by simp
  have win: "bval (slice in1 i (Suc (Suc c))) = bval (slice in1 i (Suc c)) + ?b * unat ?t"
    using len(1) by (subst bval_slice_Suc) simp_all
  have eq: "bval (slice in1 i (Suc c)) + ?b * unat l = bval (slice a i (Suc c)) + unat ?k * bval (take (Suc c) in2)"
    using f by blast
  have "?b * unat l < ?b * (unat ?t + 1)"
    using quot_digit_le [OF len hi] win eq sl by simp
  then have "unat l < unat ?t + 1" by (simp only: mult_less_cancel1)
  then have lt: "unat l \<le> unat ?t" by simp
  then have "unat (?t - l) + unat l = unat ?t" by (simp add: unat_sub word_le_nat_alt)
  then have u: "?b * unat (?t - l) + ?b * unat l = ?b * unat ?t" by (metis distrib_left)
  have r: "submul_pass (Suc c) in2 i in1 = a[i + Suc c := ?t - l]"
    unfolding submul_pass_def st using at by (simp add: add.commute [of c i])
  have "bval (slice (submul_pass (Suc c) in2 i in1) i (Suc (Suc c))) = bval (slice a i (Suc c)) + ?b * unat (?t - l)"
    unfolding r using len(1) la by (subst bval_slice_update) simp_all
  with win eq u show ?thesis by simp
qed

lemma bval_take_slice:
  "n + k \<le> length xs \<Longrightarrow> bval (take (n + k) xs) = bval (take n xs) + B ^ n * bval (slice xs n k)"
  by (simp add: take_add bval_append slice_def)

lemma mod_loop_value:
  assumes "Suc c \<le> length in2"
  shows "mod_exact (Suc c) n in2 in1 \<Longrightarrow> n + Suc c \<le> length in1 \<Longrightarrow>
    bval (slice in1 n (Suc c)) < bval (take (Suc c) in2) \<Longrightarrow>
    \<exists>r. mod_loop (Suc c) n in2 in1 = Some r \<and> length r = length in1 \<and>
      bval (take (Suc c) r) = bval (take (n + Suc c) in1) mod bval (take (Suc c) in2)"
proof (induction n arbitrary: in1)
  case 0
  then show ?case by (simp del: take_Suc)
next
  case (Suc i)
  let ?m = "submul_pass (Suc c) in2 i in1" and ?v = "bval (take (Suc c) in2)"
  have len: "i + Suc c < length in1" using Suc.prems(2) by simp
  have o: "outside i (Suc (Suc c)) in1 ?m" by (rule outside_submul_pass [OF len assms])
  then have lm: "i + Suc c < length ?m" using len by (simp add: outside_def)
  have le: "loop_exact (Suc c) in2 i ?m" using Suc.prems(1) by simp
  from loop_exact_mod [OF le lm assms] obtain r where
    r: "correct_loop (Suc c) in2 i ?m = Some r" "outside i (Suc (Suc c)) ?m r"
    "bval (slice r i (Suc c)) = bval (slice ?m i (Suc (Suc c))) mod ?v" by blast
  have orr: "outside i (Suc (Suc c)) in1 r" by (rule outside_trans [OF o r(2)])
  then have lr: "length r = length in1" by (simp add: outside_def)
  have sl: "bval (slice r i (Suc c)) = bval (slice in1 i (Suc (Suc c))) mod ?v"
    unfolding r(3) submul_pass_value [OF len assms Suc.prems(3), symmetric] by simp
  have vpos: "0 < ?v" using Suc.prems(3) by simp
  have "bval (slice r i (Suc c)) < ?v" unfolding sl using vpos by simp
  moreover have "mod_exact (Suc c) i in2 r" using Suc.prems(1) r(1) by simp
  ultimately obtain q where q: "mod_loop (Suc c) i in2 r = Some q" "length q = length r"
    "bval (take (Suc c) q) = bval (take (i + Suc c) r) mod ?v"
    using Suc.IH [of r] lr len by auto
  have "bval (take (i + Suc c) r) mod ?v = (bval (take i in1) + B ^ i * (bval (slice in1 i (Suc (Suc c))) mod ?v)) mod ?v"
    using lr len orr sl by (subst bval_take_slice) (simp_all add: outside_def)
  also have "\<dots> = (bval (take i in1) + B ^ i * bval (slice in1 i (Suc (Suc c)))) mod ?v"
    by (metis mod_add_right_eq mod_mult_right_eq)
  also have "\<dots> = bval (take (i + Suc (Suc c)) in1) mod ?v"
    using len by (subst bval_take_slice) simp_all
  finally have "bval (take (i + Suc c) r) mod ?v = bval (take (Suc i + Suc c) in1) mod ?v"
    by (simp only: add_Suc add_Suc_right)
  with q r(1) lr show ?case
    by (intro exI [of _ q]) (simp only: mod_loop.simps bind.bind_lunit)
qed

lemma big_mod_value:
  assumes "Suc c \<le> length in2" and "length in1 = 2 * Suc c"
    and "bval (drop (Suc c) in1) < bval (take (Suc c) in2)" and "mod_exact (Suc c) (Suc c) in2 in1"
  shows "\<exists>r. big_mod (Suc c) in1 in2 = Some r \<and> bval r = bval in1 mod bval (take (Suc c) in2)"
proof -
  have "slice in1 (Suc c) (Suc c) = drop (Suc c) in1" using assms(2) by (simp add: slice_def)
  then show ?thesis
    using mod_loop_value [OF assms(1,4)] assms(2,3) by (auto simp: big_mod_def simp del: mod_loop.simps)
qed

lemma enc_type_1_total:
  assumes "255 \<le> length in_key"
  shows "\<exists>out. enc_type_1 in_key = Some out \<and> length out = 256 \<and> enc_type_1 (take 255 in_key) = Some out"
proof -
  have "big_getbit (big_set 3) 0 \<noteq> 0" by (simp add: big_getbit_def big_set_def)
  then have "0 < top_bit (big_set 3) 2048" by (rule top_bit_pos) simp
  then obtain r where "big_expmod (big_letoh (take 255 in_key @ [1])) (big_set 3) modulus = Some r"
    using expmod_loop_returns [of "big_set 1" "big_letoh (take 255 in_key @ [1])"]
    by (auto simp: big_expmod_def big_set_def big_letoh_def)
  then show ?thesis by (simp add: enc_type_1_def big_htole_def min_def)
qed

section \<open>Properties\<close>

text \<open>The schoolbook product of \<open>big_mul\<close> is exact: the \<open>2 * cnt\<close> words have the value
  of the product of the two arguments, no carry is lost in the 64-bit accumulator.\<close>

theorem big_mul_correct:
  assumes "length in1 = cnt" and "length in2 = cnt"
  shows "length (big_mul cnt in1 in2) = 2 * cnt \<and> bval (big_mul cnt in1 in2) = bval in1 * bval in2"
  using big_mul_value [of cnt in1 in2] assms by simp

lemma big_mul_correct_witness:
  "bval (big_mul 2 [0xffffffff, 0xffffffff] [0xffffffff, 7]) = bval [0xffffffff, 0xffffffff] * bval [0xffffffff, 7]"
  using big_mul_correct [of "[0xffffffff, 0xffffffff]" 2 "[0xffffffff, 7]"] by simp

text \<open>C32: For a modulus whose top word is above half a word, \<open>big_mod\<close> returns: the
  correction loop ends whatever borrows it loses, and the result has \<open>cnt\<close> words and is
  below the modulus.\<close>

theorem big_mod_terminates:
  assumes "length in2 = Suc c" and "2 ^ 32 < 2 * unat (in2 ! c)" and "unat (in2 ! c) + 2 \<le> 2 ^ 32"
    and "length in1 = 2 * Suc c"
  shows "\<exists>r. big_mod (Suc c) in1 in2 = Some r \<and> length r = Suc c \<and> bval r < bval in2"
  using big_mod_returns [of c in2 in1] assms by (simp add: normal_top_def B_def)

lemma big_mod_terminates_witness:
  "\<exists>r. big_mod 2 [0, 1, 0x80000000, 0] [2, 0xfffffffe] = Some r \<and> length r = 2 \<and> bval r < bval [2, 0xfffffffe]"
  unfolding numeral_2_eq_2 by (rule big_mod_terminates) simp_all

text \<open>C31: When no pass of the correction loop meets a zero word with a borrow pending,
  \<open>big_mod\<close> returns the remainder: the quotient digit, taken from the two top words,
  never exceeds the quotient, and the passes take the rest off.\<close>

theorem big_mod_correct:
  assumes "length in2 = Suc c" and "length in1 = 2 * Suc c" and "bval (drop (Suc c) in1) < bval in2"
    and "mod_exact (Suc c) (Suc c) in2 in1"
  shows "\<exists>r. big_mod (Suc c) in1 in2 = Some r \<and> bval r = bval in1 mod bval in2"
  using big_mod_value [of c in2 in1] assms by simp

lemma exact_7_mod_3: "mod_exact 1 1 [3] [7, 0]"
proof -
  have "submul_pass 1 [3] 0 [7, 0] = [4, 0]"
    by (simp add: submul_pass_def quot_digit_def submul_step_def)
  moreover have "sub_pass 1 [3] 0 [4, 0] = [1, 0]"
    by (simp add: sub_pass_def sub_step_def)
  moreover have "again 1 [3] 0 [4, 0]" "\<not> again 1 [3] 0 [1, 0]" "sub_exact [3] 0 [4, 0] 1"
    by (simp_all add: again_def)
  ultimately show ?thesis
    using loop_exact_stop [of 1 "[3]" 0 "[1, 0]"] loop_exact_pass [of 1 "[3]" 0 "[4, 0]"] by simp
qed

lemma big_mod_correct_witness:
  "\<exists>r. big_mod 1 [7, 0] [3] = Some r \<and> bval r = 7 mod 3"
  using big_mod_correct [of "[3]" 0 "[7, 0]"] exact_7_mod_3 by simp

text \<open>The correction loop of \<open>big_mod\<close> loses a borrow when a word is zero and a borrow is
  pending: there is a two-word modulus and a product for which the result is not the
  remainder.\<close>

theorem big_mod_loses_borrow:
  "big_mod 2 [0, 1, 0x80000000, 0] [2, 0xfffffffe] = Some [4294967292, 3] \<and>
   bval [4294967292, 3] \<noteq> bval [0, 1, 0x80000000, 0] mod bval [2, 0xfffffffe]"
proof
  show "big_mod 2 [0, 1, 0x80000000, 0] [2, 0xfffffffe] = Some [4294967292, 3]" by code_simp
  show "bval [4294967292, 3] \<noteq> bval [0, 1, 0x80000000, 0] mod bval [2, 0xfffffffe]"
    by (simp add: B_def)
qed

text \<open>\<open>enc_type_1\<close> returns for every key of at least 255 bytes, reads only those, and
  fills all 256 bytes of the output.\<close>

theorem enc_type_1_returns:
  assumes "255 \<le> length in_key"
  shows "\<exists>out. enc_type_1 in_key = Some out \<and> length out = 256 \<and> enc_type_1 (take 255 in_key) = Some out"
  using enc_type_1_total [OF assms] .

lemma enc_type_1_returns_witness:
  "\<exists>out. enc_type_1 (replicate 256 7) = Some out \<and> length out = 256 \<and> enc_type_1 (replicate 255 7) = Some out"
  using enc_type_1_returns [of "replicate 256 7"] by simp

end
