(* ===== verification/FST_Enc2.thy ===== *)
theory FST_Enc2
  imports FST_Pad
begin

text \<open>
  The pad mixer of \<^verbatim>\<open>src/src/networks/fasttrack/enc_type_2.c\<close>: one definition per macro and
  per function, each statement of a function one element of its list. Every
  definition reads the pad and the seed as they are when the statement runs. The functions
  call each other without recursion, so they are defined callees first. Shown: the mixer
  reads and writes nothing but the 20 words of its pad.
\<close>

section \<open>The small steps\<close>

definition mix_minor20 :: asg where
  "mix_minor20 = pad_ror 12 (\<lambda>pad _. pad ! 14 * 0x3)"

definition mix_minor21 :: asg where
  "mix_minor21 = pad_mul 12 (\<lambda>pad _. pad ! 1 * 0x4b4f2e1)"

definition mix_minor22 :: asg where
  "mix_minor22 = pad_mul 2 (\<lambda>pad _. pad ! 10 + 0xfa1f1e0b)"

definition mix_minor23 :: asg where
  "mix_minor23 = pad_add 19 (\<lambda>pad _. pad ! 19 XOR 0x43b6b05)"

definition mix_minor24 :: asg where
  "mix_minor24 = pad_sub 18 (\<lambda>pad _. ROR (pad ! 4) 18)"

definition mix_minor25 :: asg where
  "mix_minor25 = pad_and 0 (\<lambda>pad _. pad ! 10 + 0xfc9be92d)"

definition mix_minor26 :: asg where
  "mix_minor26 = pad_xor 9 (\<lambda>pad _. pad ! 3 + 0xbe5fec7d)"

definition mix_minor27 :: asg where
  "mix_minor27 = pad_mul 6 (\<lambda>pad _. pad ! 15 OR 0x46afede0)"

definition mix_minor28 :: asg where
  "mix_minor28 = pad_sub 17 (\<lambda>pad _. pad ! 6 * 0x1b677cc8)"

definition mix_minor29 :: asg where
  "mix_minor29 = pad_and 14 (\<lambda>pad _. pad ! 15 + 0xfc471d2b)"

definition mix_minor30 :: asg where
  "mix_minor30 = pad_add 19 (\<lambda>pad _. pad ! 16 + 0x24a7d94d)"

definition mix_minor31 :: asg where
  "mix_minor31 = pad_mul 15 (\<lambda>pad _. pad ! 0 XOR 0x48ad05f2)"

definition mix_minor32 :: asg where
  "mix_minor32 = pad_sub 16 (\<lambda>pad _. pad ! 4 - 0xbb834311)"

definition mix_minor33 :: asg where
  "mix_minor33 = pad_add 8 (\<lambda>pad _. ROL (pad ! 4) 26)"

definition mix_minor34 :: asg where
  "mix_minor34 = pad_mul 13 (\<lambda>pad _. pad ! 18 + 0xac048a2)"

definition mix_minor35 :: asg where
  "mix_minor35 = pad_and 16 (\<lambda>pad _. pad ! 18 + 0xe832eb88)"

definition mix_minor36 :: asg where
  "mix_minor36 = pad_sub 4 (\<lambda>pad _. pad ! 1 - 0xe6f17893)"

definition mix_minor37 :: asg where
  "mix_minor37 = pad_mul 6 (\<lambda>pad _. pad ! 7 OR 0x17b60bb5)"

definition mix_minor38 :: asg where
  "mix_minor38 = pad_add 15 (\<lambda>pad _. ROL (pad ! 12) 16)"

definition mix_minor39 :: asg where
  "mix_minor39 = pad_and 6 (\<lambda>pad _. pad ! 10 + 0xfd7af7e)"

definition mix_minor40 :: asg where
  "mix_minor40 = pad_ror 7 (\<lambda>pad _. pad ! 18 AND 2)"

definition mix_minor41 :: asg where
  "mix_minor41 = pad_ror 17 (\<lambda>pad _. pad ! 7 XOR 3)"

definition mix_minor42 :: asg where
  "mix_minor42 = pad_xor 0 (\<lambda>pad _. pad ! 8 + 0xeee530d5)"

definition mix_minor43 :: asg where
  "mix_minor43 = pad_add 10 (\<lambda>pad _. pad ! 1 + 0xc484cfa2)"

definition mix_minor44 :: asg where
  "mix_minor44 = pad_add 16 (\<lambda>pad _. pad ! 5 XOR 0x19a836dc)"

definition mix_minor45 :: asg where
  "mix_minor45 = pad_add 17 (\<lambda>pad _. pad ! 7 + 0xd68a11c3)"

definition mix_minor46 :: asg where
  "mix_minor46 = pad_add 17 (\<lambda>pad _. ROL (pad ! 7) 19)"

definition mix_minor47 :: asg where
  "mix_minor47 = pad_sub 18 (\<lambda>pad _. pad ! 6 * 0x368eaf4e)"

definition mix_minor48 :: asg where
  "mix_minor48 = pad_ror 2 (\<lambda>pad _. pad ! 7 XOR 3)"

definition mix_minor49 :: asg where
  "mix_minor49 = pad_or 19 (\<lambda>pad _. pad ! 5 + 0xda7c6c8e)"

definition mix_minor50 :: asg where
  "mix_minor50 = pad_mul 6 (\<lambda>pad _. ROR (pad ! 2) 12)"

definition mix_minor51 :: asg where
  "mix_minor51 = pad_add 14 (\<lambda>pad _. pad ! 18 + 0xf655a040)"

definition mix_minor52 :: asg where
  "mix_minor52 = pad_add 11 (\<lambda>pad _. pad ! 19 * 0x251df1bd)"

definition mix_minor53 :: asg where
  "mix_minor53 = pad_sub 11 (\<lambda>pad _. pad ! 0 XOR 0x51a859c)"

definition mix_minor54 :: asg where
  "mix_minor54 = pad_add 18 (\<lambda>pad _. pad ! 6 + 0xdcccfc5)"

definition mix_minor55 :: asg where
  "mix_minor55 = pad_sub 16 (\<lambda>pad _. pad ! 18 XOR 0x39848960)"

definition mix_minor56 :: asg where
  "mix_minor56 = pad_xor 14 (\<lambda>pad _. pad ! 19 + 0x1a6f3b29)"

definition mix_minor57 :: asg where
  "mix_minor57 = pad_and 12 (\<lambda>pad _. pad ! 5 + 0x4ef1335a)"

definition mix_minor58 :: asg where
  "mix_minor58 = pad_mul 14 (\<lambda>pad _. pad ! 13 + 0xdb61abf8)"

definition mix_minor59 :: asg where
  "mix_minor59 = pad_xor 18 (\<lambda>pad _. pad ! 19 * 0x378f67)"

definition mix_minor60 :: asg where
  "mix_minor60 = pad_xor 18 (\<lambda>pad _. pad ! 4 * 0x2dd2a2fe)"

definition mix_minor61 :: asg where
  "mix_minor61 = pad_sub 16 (\<lambda>pad _. pad ! 4 - 0xe357b476)"

definition mix_minor62 :: asg where
  "mix_minor62 = pad_mul 6 (\<lambda>pad _. pad ! 16 * 0x381203)"

definition mix_minor63 :: asg where
  "mix_minor63 = pad_or 10 (\<lambda>pad _. ROR (pad ! 11) 24)"

definition mix_minor64 :: asg where
  "mix_minor64 = pad_xor 10 (\<lambda>pad _. pad ! 5 + 0x147c80d5)"

definition mix_minor65 :: asg where
  "mix_minor65 = pad_xor 16 (\<lambda>pad _. pad ! 3 * 0x27139980)"

definition mix_minor66 :: asg where
  "mix_minor66 = pad_ror 15 (\<lambda>pad _. pad ! 17)"

definition mix_minor67 :: asg where
  "mix_minor67 = pad_and 14 (\<lambda>pad _. ROL (pad ! 19) 6)"

definition mix_minor68 :: asg where
  "mix_minor68 = pad_mul 8 (\<lambda>pad _. pad ! 0 * 0x1a4c02dd)"

definition mix_minor69 :: asg where
  "mix_minor69 = pad_xor 16 (\<lambda>pad _. pad ! 14 + 0xfddb63a2)"

lemmas minor_defs = 
  mix_minor20_def mix_minor21_def mix_minor22_def mix_minor23_def mix_minor24_def
  mix_minor25_def mix_minor26_def mix_minor27_def mix_minor28_def mix_minor29_def
  mix_minor30_def mix_minor31_def mix_minor32_def mix_minor33_def mix_minor34_def
  mix_minor35_def mix_minor36_def mix_minor37_def mix_minor38_def mix_minor39_def
  mix_minor40_def mix_minor41_def mix_minor42_def mix_minor43_def mix_minor44_def
  mix_minor45_def mix_minor46_def mix_minor47_def mix_minor48_def mix_minor49_def
  mix_minor50_def mix_minor51_def mix_minor52_def mix_minor53_def mix_minor54_def
  mix_minor55_def mix_minor56_def mix_minor57_def mix_minor58_def mix_minor59_def
  mix_minor60_def mix_minor61_def mix_minor62_def mix_minor63_def mix_minor64_def
  mix_minor65_def mix_minor66_def mix_minor67_def mix_minor68_def mix_minor69_def

section \<open>The mixing functions, callees first\<close>

definition mix_major19 :: "u32 list \<Rightarrow> u32 \<Rightarrow> u32 list" where
  "mix_major19 pad seed =
    run_body [
       exec (pad_xor 3 (\<lambda>_ seed. seed + 0xd2670e69)),
       exec (seed_xor (\<lambda>pad _. pad ! 2 AND 0x3bd91a6d)),
       exec (seed_add (\<lambda>pad _. pad ! 12 + 0xe162a863)),
       exec (pad_sub 3 (\<lambda>_ seed. seed - 0x2f72a89a)),
       exec (pad_xor 11 (\<lambda>pad _. pad ! 3 AND 0x4053f57a)),
       exec (seed_mul (\<lambda>pad _. pad ! 12 + 0xfe64a9df)),
       exec (pad_xor 6 (\<lambda>pad _. pad ! 14 XOR 0x6c235a3)),
       exec (pad_rol 11 (\<lambda>pad _. pad ! 7 + 0x1b)),
       exec (pad_xor 13 (\<lambda>pad _. pad ! 8 + 0xdf869976)),
       exec (pad_rol 4 (\<lambda>pad _. pad ! 12 + 0x1)),
       exec (pad_add 9 (\<lambda>pad _. pad ! 13 XOR 0x3d475dc2)),
       exec (pad_add 14 (\<lambda>_ seed. ROR seed 25)),
       exec (pad_add 10 (\<lambda>_ seed. seed XOR 0x222fef6f)),
       exec (pad_xor 12 (\<lambda>pad _. ROR (pad ! 19) 9)),
       exec (pad_add 4 (\<lambda>pad _. pad ! 8 + 0x56d964ed)),
       exec (pad_sub 18 (\<lambda>pad _. pad ! 7 - 0x132444b)),
       exec (pad_set 0 (\<lambda>_ _. 0xd35add1b)),
       exec (seed_add (\<lambda>pad _. pad ! 6 * 0x6fe2b2f)),
       exec (pad_mul 14 (\<lambda>pad _. pad ! 1 + 0xacf6925)),
       exec (pad_xor 15 (\<lambda>_ seed. ROR seed 19)),
       exec (pad_set 0 (\<lambda>pad _. 0xc0c8f110 - pad ! 15)),
       exec (seed_xor (\<lambda>_ seed. seed OR 0x2a57ebeb)),
       exec (pad_sub 12 (\<lambda>_ seed. ROL seed 13)),
       exec (seed_or (\<lambda>pad _. pad ! 13 AND 0x15a66bda)),
       exec (seed_add (\<lambda>pad _. pad ! 18 + 0x235ac102)),
       exec (pad_rol 8 (\<lambda>_ seed. seed + 0xd)),
       exec (pad_xor 5 (\<lambda>pad _. pad ! 12 + 0x3bbb70fe)),
       exec (seed_and (\<lambda>pad _. pad ! 1 + 0xec51134a)),
       exec (pad_xor 19 (\<lambda>pad _. pad ! 11 * 0x87095a6)),
       exec (pad_sub 0 (\<lambda>pad _. pad ! 5 AND 0xf43f6fb)),
       exec (pad_add 15 (\<lambda>pad _. pad ! 4 + 0xea66f8dc)),
       exec (pad_sub 19 (\<lambda>pad _. pad ! 7 - 0xd049cfd6)),
       exec (pad_sub 13 (\<lambda>pad _. pad ! 0 XOR 0x253c86f9)),
       exec (seed_add (\<lambda>pad _. pad ! 16 OR 0x520e84ba)),
       exec (pad_sub 10 (\<lambda>pad _. ROL (pad ! 18) 23)),
       exec (pad_add 18 (\<lambda>_ seed. seed * 0x2ee5918a)),
       exec (pad_and 7 (\<lambda>pad _. pad ! 11 XOR 0xf0a32bc)),
       exec (pad_sub 0 (\<lambda>_ seed. seed XOR 0xfa89177)),
       exec (pad_or 2 (\<lambda>pad _. ROL (pad ! 9) 24)),
       exec (pad_mul 14 (\<lambda>_ _. 0x1cb1574a)),
       exec (pad_ror 10 (\<lambda>_ seed. seed + 0xd)),
       exec (pad_and 1 (\<lambda>pad _. pad ! 11 + 0xef291170)),
       exec (pad_add 6 (\<lambda>pad _. pad ! 19 AND 0x259a6745)),
       exec (seed_sub (\<lambda>pad _. pad ! 2 XOR 0x10467b8)),
       exec (pad_mul 18 (\<lambda>pad _. pad ! 9 + 0xdbff9c2b)),
       exec (pad_add 16 (\<lambda>_ seed. seed XOR 0x8d4c279)),
       exec (pad_sub 5 (\<lambda>pad _. ROR (pad ! 10) 24))] pad seed"

definition mix_major20 :: "u32 list \<Rightarrow> u32 \<Rightarrow> u32 list" where
  "mix_major20 pad seed =
    run_body [
       exec (pad_rol 14 (\<lambda>_ seed. seed AND 0xe)),
       exec (seed_add (\<lambda>pad _. pad ! 15 XOR 0xbf446ce)),
       exec (seed_add (\<lambda>_ seed. seed + 0xe227ea76)),
       exec (pad_mul 19 (\<lambda>pad _. pad ! 15 * 0x50ee813)),
       exec (pad_ror 19 (\<lambda>pad _. pad ! 10 + 0x1e)),
       exec (pad_sub 16 (\<lambda>_ seed. seed AND 0x372035b)),
       exec (pad_or 18 (\<lambda>pad _. pad ! 5 + 0xd9d1da08)),
       exec (pad_add 5 (\<lambda>pad _. ROL (pad ! 11) 9)),
       exec (pad_ror 8 (\<lambda>pad _. pad ! 0 * 0x3)),
       exec (seed_add (\<lambda>pad _. pad ! 0 XOR 0x46d0b40)),
       exec (pad_xor 14 (\<lambda>pad _. pad ! 1 + 0xe8684fc)),
       exec (seed_sub (\<lambda>pad _. pad ! 14 * 0x28f80128)),
       exec (seed_xor (\<lambda>pad _. ROR (pad ! 1) 10)),
       exec (pad_mul 19 (\<lambda>pad _. pad ! 16 + 0xa0397f)),
       exec (pad_add 13 (\<lambda>_ seed. ROL seed 17)),
       exec (pad_sub 4 (\<lambda>pad _. pad ! 6 - 0x95670090)),
       exec (pad_rol 14 (\<lambda>_ _. 24)),
       exec (pad_mul 0 (\<lambda>_ _. 0xe6219a29)),
       exec (pad_add 3 (\<lambda>pad _. pad ! 11 + 0xfa61efff)),
       exec (pad_sub 8 (\<lambda>pad _. pad ! 10 - 0xda64c153)),
       exec (pad_sub 9 (\<lambda>pad _. pad ! 8 - 0x22a4da90)),
       exec (seed_set (\<lambda>pad _. ROL 0xf2eafbc6 (pad ! 12 XOR 0x15))),
       exec (seed_xor (\<lambda>pad _. pad ! 19 OR 0x2cd48d0d)),
       exec (seed_add (\<lambda>pad _. pad ! 19 + 0xc6a5343a)),
       exec (pad_sub 13 (\<lambda>_ seed. seed - 0xc3172899)),
       exec (pad_xor 14 (\<lambda>pad _. ROL (pad ! 4) 11)),
       exec (pad_xor 19 (\<lambda>pad _. pad ! 14 XOR 0x274bf2e7)),
       exec (pad_add 16 (\<lambda>pad _. pad ! 9 XOR 0x1448b87d)),
       exec (seed_and (\<lambda>pad _. pad ! 19 XOR 0x7c5e8091)),
       exec (pad_sub 15 (\<lambda>_ seed. seed - 0x2de973cc)),
       exec (pad_mul 17 (\<lambda>pad _. pad ! 0 + 0x5cd4018)),
       exec (pad_mul 15 (\<lambda>pad _. pad ! 7 XOR 0x1c718ec4)),
       exec (pad_ror 4 (\<lambda>pad _. ROL (pad ! 14) 31)),
       exec (pad_sub 6 (\<lambda>pad _. pad ! 1 * 0x11e6e4aa)),
       exec (pad_sub 3 (\<lambda>pad _. pad ! 14 - 0x20a45ef)),
       exec (pad_and 14 (\<lambda>pad _. pad ! 11 XOR 0x79362e5))] pad seed"

definition mix_major17 :: "u32 list \<Rightarrow> u32 \<Rightarrow> u32 list" where
  "mix_major17 pad seed =
    (let branch = seed AND 1
     in run_body [
       exec (pad_sub 5 (\<lambda>pad _. pad ! 18 - 0x34b87873)),
       exec (pad_sub 17 (\<lambda>pad _. pad ! 1 - 0x2051ec4)),
       exec (pad_xor 6 (\<lambda>pad _. pad ! 16 XOR 0x5c80bc7)),
       exec (seed_sub (\<lambda>_ seed. ROR seed 26)),
       exec (pad_mul 5 (\<lambda>pad _. pad ! 16 OR 0x154e9813)),
       exec (pad_or 0 (\<lambda>pad _. pad ! 5 + 0xbac2a47e)),
       exec (pad_mul 13 (\<lambda>pad _. pad ! 9 XOR 0xbf263a6)),
       exec (pad_or 9 (\<lambda>pad _. ROL (pad ! 11) 23)),
       exec (pad_mul 16 (\<lambda>pad _. pad ! 1 AND 0x1c28de84)),
       exec (pad_xor 6 (\<lambda>pad _. ROR (pad ! 2) 11)),
       exec (pad_xor 12 (\<lambda>pad _. ROR (pad ! 9) 24)),
       exec (seed_add (\<lambda>_ seed. seed + 0x2c5a0200)),
       exec (pad_or 19 (\<lambda>pad _. pad ! 12 + 0xa104f7f6)),
       exec (pad_xor 17 (\<lambda>pad _. pad ! 11 + 0xf51e9043)),
       exec (pad_add 15 (\<lambda>_ seed. seed + 0x37f1bc89)),
       cond (branch = 0) [exec (pad_sub 3 (\<lambda>_ _. 0x2ae49a0)),
         exec (pad_add 9 (\<lambda>_ _. 0xde755696)),
         exec (mix_minor53),
         call mix_major19 (\<lambda>pad _. pad ! 4)],
       exec (seed_add (\<lambda>pad _. pad ! 5 OR 0x79ba9a48)),
       exec (pad_sub 4 (\<lambda>pad _. pad ! 2 XOR 0x1ecdadba)),
       exec (seed_xor (\<lambda>pad _. pad ! 10 + 0xf01ca4cf)),
       exec (seed_xor (\<lambda>pad _. pad ! 8 + 0xf58222aa)),
       exec (pad_or 8 (\<lambda>pad _. pad ! 7 * 0x59c62257)),
       exec (pad_xor 7 (\<lambda>pad _. pad ! 7 OR 0x2d2750f0)),
       exec (seed_add (\<lambda>pad _. pad ! 17 OR 0x1719d4f)),
       exec (pad_mul 19 (\<lambda>pad _. pad ! 4 + 0xcec35bec)),
       exec (pad_xor 18 (\<lambda>pad _. pad ! 2 + 0xdc17a237)),
       exec (pad_add 19 (\<lambda>pad _. pad ! 5 + 0xca0f8bc5)),
       exec (seed_add (\<lambda>_ seed. seed + 0xff282d98)),
       exec (pad_add 0 (\<lambda>_ seed. seed + 0x2a09f2a5)),
       exec (pad_xor 11 (\<lambda>pad _. pad ! 2 + 0x30e437d6)),
       exec (pad_or 12 (\<lambda>_ seed. seed + 0xee36df26)),
       exec (pad_and 15 (\<lambda>_ seed. seed + 0xc95e1442)),
       cond (branch = 1) [exec (mix_minor27),
         exec (pad_add 9 (\<lambda>_ _. 0xd68c597b)),
         exec (pad_add 9 (\<lambda>_ _. 0xdcb2dc4d)),
         call mix_major20 (\<lambda>pad _. pad ! 14)],
       exec (pad_sub 7 (\<lambda>pad _. pad ! 17 XOR 0x72eeed7)),
       exec (pad_mul 17 (\<lambda>pad _. pad ! 15 * 0x162a030d)),
       exec (pad_and 7 (\<lambda>pad _. pad ! 14 + 0xf0dd3ef3)),
       exec (seed_add (\<lambda>pad _. pad ! 1)),
       exec (pad_xor 2 (\<lambda>pad _. pad ! 13 XOR 0x2d9ceb17)),
       exec (pad_and 7 (\<lambda>_ seed. seed XOR 0x176b1b8e)),
       exec (pad_or 8 (\<lambda>_ seed. seed + 0xdab13e76)),
       exec (pad_sub 16 (\<lambda>pad _. pad ! 12 - 0x2a74b8d4)),
       exec (seed_sub (\<lambda>pad _. pad ! 4 - 0xcc1039a3)),
       exec (seed_sub (\<lambda>pad _. pad ! 5 * 0x1239378b)),
       exec (pad_xor 0 (\<lambda>_ seed. seed XOR 0xd9a5ac4)),
       exec (pad_sub 10 (\<lambda>pad _. pad ! 1 XOR 0x346ff630)),
       exec (pad_add 14 (\<lambda>pad _. pad ! 15 XOR 0x2f99340b)),
       exec (pad_or 11 (\<lambda>pad _. pad ! 7 + 0xd5881b85)),
       exec (pad_rol 9 (\<lambda>pad _. pad ! 16 * 0x19))] pad seed)"

definition mix_major16 :: "u32 list \<Rightarrow> u32 \<Rightarrow> u32 list" where
  "mix_major16 pad seed =
    (let branch = pad ! 12 mod 3
     in run_body [
       exec (pad_xor 7 (\<lambda>pad _. pad ! 7 + 0x1256f342)),
       exec (pad_xor 9 (\<lambda>pad _. ROL (pad ! 14) 9)),
       exec (pad_add 0 (\<lambda>pad _. pad ! 13 XOR 0x4a20925)),
       exec (pad_ror 13 (\<lambda>_ seed. seed OR 0xb)),
       exec (seed_sub (\<lambda>pad _. pad ! 10 - 0x2cd8307e)),
       exec (seed_ror (\<lambda>pad _. pad ! 17 * 0x15)),
       exec (pad_add 8 (\<lambda>pad _. pad ! 15 OR 0x11570bca)),
       exec (seed_and (\<lambda>pad _. pad ! 3 XOR 0x4c404c71)),
       exec (seed_add (\<lambda>pad _. pad ! 10 XOR 0x85d82e)),
       exec (pad_mul 11 (\<lambda>pad _. pad ! 6 AND 0xf076b8f)),
       exec (pad_add 11 (\<lambda>_ seed. seed + 0x26d0f98c)),
       cond (branch = 0) [exec (mix_minor29),
         exec (mix_minor21),
         exec (mix_minor33),
         call mix_major19 (\<lambda>pad _. pad ! 7)],
       exec (pad_xor 1 (\<lambda>_ seed. ROR seed 23)),
       exec (pad_add 9 (\<lambda>_ seed. seed + 0xf24cc80b)),
       exec (pad_rol 3 (\<lambda>pad _. pad ! 14 * 0x1d)),
       exec (pad_add 19 (\<lambda>_ seed. seed + 0x64922cc)),
       exec (seed_sub (\<lambda>pad _. pad ! 0 - 0x1e0944e3)),
       exec (seed_ror (\<lambda>_ seed. seed * 0x1c)),
       exec (seed_mul (\<lambda>pad _. pad ! 15 + 0x8d90c5a3)),
       exec (pad_xor 17 (\<lambda>_ seed. seed AND 0xdd9bf1a)),
       exec (pad_sub 4 (\<lambda>pad _. pad ! 6 - 0xd5bd8bc1)),
       exec (seed_add (\<lambda>_ seed. seed + 0x1226f462)),
       exec (pad_xor 17 (\<lambda>pad _. ROL (pad ! 13) 5)),
       exec (pad_rol 13 (\<lambda>_ seed. seed AND 0x12)),
       cond (branch = 2) [exec (mix_minor45),
         exec (pad_sub 8 (\<lambda>_ _. 0x3e5f74f5)),
         exec (pad_add 11 (\<lambda>_ _. 0xee0e47c6)),
         call mix_major20 (\<lambda>_ seed. seed)],
       exec (seed_or (\<lambda>pad _. pad ! 9 OR 0x10b9b57a)),
       exec (pad_add 0 (\<lambda>pad _. pad ! 10 + 0x477a65c2)),
       exec (pad_or 8 (\<lambda>pad _. pad ! 7 XOR 0x1b348ba1)),
       exec (pad_rol 16 (\<lambda>pad _. ROL (pad ! 1) 8)),
       exec (seed_xor (\<lambda>pad _. pad ! 19 * 0xfa375c5)),
       exec (pad_ror 11 (\<lambda>pad _. ROR (pad ! 5) 13)),
       exec (pad_xor 7 (\<lambda>pad _. pad ! 19 + 0x64bd3f85)),
       exec (pad_mul 6 (\<lambda>_ seed. ROR seed 25)),
       exec (pad_add 5 (\<lambda>_ seed. seed + 0xaeeb67de)),
       exec (pad_or 19 (\<lambda>pad _. ROR (pad ! 5) 22)),
       exec (pad_add 0 (\<lambda>pad _. pad ! 6 + 0xe1f2872)),
       cond (branch = 1) [exec (mix_minor53),
         exec (mix_minor27),
         exec (pad_add 9 (\<lambda>_ _. 0xd829ce84)),
         call mix_major17 (\<lambda>_ seed. seed)],
       exec (seed_or (\<lambda>pad _. pad ! 6 OR 0x40c95dca)),
       exec (seed_rol (\<lambda>pad _. pad ! 12 XOR 0x1)),
       exec (pad_and 3 (\<lambda>pad _. pad ! 8 + 0xed5ca98b)),
       exec (pad_add 4 (\<lambda>_ seed. seed + 0x92abec6e)),
       exec (seed_and (\<lambda>pad _. ROR (pad ! 13) 22)),
       exec (pad_add 2 (\<lambda>pad _. pad ! 15 * 0xff635ec)),
       exec (pad_xor 6 (\<lambda>_ seed. seed + 0x37343841)),
       exec (pad_add 9 (\<lambda>pad _. pad ! 14 + 0xf8e12c69)),
       exec (pad_sub 14 (\<lambda>pad _. ROL (pad ! 10) 20))] pad seed)"

definition mix_major15 :: "u32 list \<Rightarrow> u32 \<Rightarrow> u32 list" where
  "mix_major15 pad seed =
    (let branch = ((pad ! 12 XOR pad ! 15) XOR seed) AND 3
     in run_body [
       exec (pad_ror 6 (\<lambda>pad _. pad ! 3 XOR 0x14)),
       exec (pad_add 12 (\<lambda>_ seed. seed XOR 0x9a94557)),
       exec (pad_mul 15 (\<lambda>pad _. pad ! 6 XOR 0x2c63c7d7)),
       exec (pad_sub 4 (\<lambda>pad _. pad ! 17 - 0x1565237b)),
       exec (seed_rol (\<lambda>pad _. pad ! 11 * 0x19)),
       exec (seed_sub (\<lambda>pad _. pad ! 9 * 0x3471499e)),
       exec (seed_xor (\<lambda>pad _. pad ! 3 XOR 0x34293622)),
       exec (pad_add 11 (\<lambda>_ seed. seed + 0xbab1970a)),
       exec (pad_or 7 (\<lambda>pad _. pad ! 18 AND 0x2e7cbf50)),
       cond (branch = 2) [exec (mix_minor28),
         exec (mix_minor53),
         exec (pad_add 8 (\<lambda>_ _. 0xabdd8689)),
         call mix_major19 (\<lambda>pad _. pad ! 11)],
       exec (pad_and 16 (\<lambda>pad _. pad ! 12 + 0xc178e538)),
       exec (pad_or 14 (\<lambda>pad _. pad ! 6 * 0xf7a199)),
       exec (pad_add 9 (\<lambda>_ seed. seed + 0x598a281)),
       exec (seed_xor (\<lambda>pad _. pad ! 0 + 0xf6c67dcd)),
       exec (pad_add 14 (\<lambda>pad _. pad ! 12 * 0x2a688905)),
       exec (pad_ror 16 (\<lambda>_ seed. seed OR 0x9)),
       exec (pad_add 10 (\<lambda>_ seed. seed OR 0x4d8cb855)),
       exec (pad_sub 19 (\<lambda>pad _. pad ! 9 - 0x32b94292)),
       exec (seed_ror (\<lambda>pad _. pad ! 9 * 0x9)),
       cond (branch = 1) [exec (pad_and 1 (\<lambda>_ _. 0xbe845151)),
         exec (mix_minor66),
         exec (pad_sub 14 (\<lambda>_ _. 0x77ab88ea)),
         call mix_major20 (\<lambda>_ seed. seed)],
       exec (pad_and 6 (\<lambda>pad _. ROL (pad ! 10) 28)),
       exec (pad_add 16 (\<lambda>_ seed. seed XOR 0x5aafcd4a)),
       exec (pad_and 12 (\<lambda>_ seed. seed XOR 0x1c22a3b7)),
       exec (pad_sub 18 (\<lambda>pad _. pad ! 4 * 0x358b021d)),
       exec (pad_xor 16 (\<lambda>pad _. pad ! 13 + 0xac30f7a)),
       exec (seed_rol (\<lambda>pad _. pad ! 17 XOR 0xe)),
       exec (seed_ror (\<lambda>pad _. pad ! 1 + 0x2)),
       exec (pad_sub 18 (\<lambda>_ seed. seed - 0xee6e38da)),
       cond (branch = 0) [exec (mix_minor31),
         exec (mix_minor31),
         exec (mix_minor52),
         call mix_major17 (\<lambda>pad _. pad ! 9)],
       exec (pad_add 2 (\<lambda>pad _. pad ! 16 OR 0x5cbeb00)),
       exec (pad_sub 7 (\<lambda>_ seed. ROR seed 22)),
       exec (pad_xor 4 (\<lambda>_ seed. seed + 0x1580fb54)),
       exec (pad_sub 17 (\<lambda>pad _. ROL (pad ! 12) 25)),
       exec (pad_add 16 (\<lambda>pad _. pad ! 8 XOR 0x1b3ea2)),
       exec (pad_sub 5 (\<lambda>_ seed. seed - 0x193cf230)),
       exec (pad_rol 18 (\<lambda>_ seed. seed + 0x12)),
       exec (seed_sub (\<lambda>pad _. pad ! 17 AND 0x66e0e812)),
       exec (pad_xor 12 (\<lambda>pad _. ROL (pad ! 7) 18)),
       exec (pad_sub 17 (\<lambda>pad _. pad ! 13 - 0xb70d1a)),
       cond (branch = 3) [exec (mix_minor46),
         exec (pad_and 1 (\<lambda>_ _. 0x24c41868)),
         exec (mix_minor24),
         call mix_major16 (\<lambda>pad _. pad ! 17)],
       exec (pad_add 6 (\<lambda>pad _. pad ! 1 + 0xdfef3914)),
       exec (seed_add (\<lambda>pad _. ROL (pad ! 5) 29)),
       exec (pad_sub 18 (\<lambda>pad _. pad ! 8 OR 0x456bd4b)),
       exec (seed_and (\<lambda>pad _. pad ! 13 + 0x123e07ad)),
       exec (pad_xor 0 (\<lambda>_ seed. seed * 0x22af60a0)),
       exec (pad_sub 13 (\<lambda>pad _. pad ! 12 - 0xf69f7aa2)),
       exec (pad_ror 17 (\<lambda>_ seed. seed XOR 0x1c)),
       exec (pad_add 13 (\<lambda>pad _. pad ! 5 * 0x248bf14b)),
       exec (pad_xor 2 (\<lambda>_ seed. ROR seed 12))] pad seed)"

definition mix_major8 :: "u32 list \<Rightarrow> u32 \<Rightarrow> u32 list" where
  "mix_major8 pad seed =
    (let branch = ((pad ! 5 XOR pad ! 9) XOR pad ! 19) mod 5
     in run_body [
       exec (pad_add 5 (\<lambda>pad _. pad ! 12 XOR 0xb6b4743)),
       exec (seed_mul (\<lambda>pad _. pad ! 12 + 0x221bed03)),
       exec (pad_mul 3 (\<lambda>pad _. pad ! 11 XOR 0x2663a394)),
       exec (seed_or (\<lambda>pad _. pad ! 4 XOR 0x4f1894)),
       exec (pad_and 5 (\<lambda>_ _. 0xad85e5da)),
       exec (pad_and 17 (\<lambda>_ seed. seed + 0xd191e790)),
       exec (seed_add (\<lambda>pad _. pad ! 1 * 0x1c634b75)),
       cond (branch = 2) [exec (mix_minor34),
         exec (mix_minor25),
         exec (pad_sub 8 (\<lambda>_ _. 0x3dcc78c5)),
         call mix_major19 (\<lambda>pad _. pad ! 1)],
       exec (pad_sub 3 (\<lambda>pad _. pad ! 6 XOR 0x1fdc8171)),
       exec (pad_xor 15 (\<lambda>pad _. pad ! 14 * 0xdc63a30)),
       exec (pad_rol 7 (\<lambda>_ seed. seed + 0x8)),
       exec (seed_xor (\<lambda>pad _. pad ! 8 + 0xe4fb2084)),
       exec (pad_sub 6 (\<lambda>_ seed. seed - 0xb6a8bfd8)),
       exec (seed_mul (\<lambda>pad _. ROR (pad ! 6) 1)),
       exec (pad_mul 13 (\<lambda>pad _. ROR (pad ! 8) 31)),
       exec (pad_xor 18 (\<lambda>pad _. pad ! 15 + 0xa969bc16)),
       cond (branch = 1) [exec (mix_minor25),
         exec (pad_rol 10 (\<lambda>_ _. 14)),
         exec (mix_minor38),
         call mix_major20 (\<lambda>pad _. pad ! 2)],
       exec (seed_ror (\<lambda>pad _. pad ! 1 AND 0x6)),
       exec (pad_sub 8 (\<lambda>pad _. pad ! 17 - 0xeba05ea0)),
       exec (pad_add 16 (\<lambda>pad _. pad ! 19 + 0xe8427306)),
       exec (pad_xor 16 (\<lambda>pad _. pad ! 7 + 0x35f9fb28)),
       exec (pad_add 13 (\<lambda>_ seed. seed AND 0x16076281)),
       exec (seed_mul (\<lambda>_ seed. seed + 0xe43a6120)),
       exec (pad_sub 1 (\<lambda>pad _. pad ! 3 - 0xd94074d)),
       cond (branch = 3) [exec (pad_mul 4 (\<lambda>_ _. 0xdccff951)),
         exec (mix_minor53),
         exec (mix_minor41),
         call mix_major17 (\<lambda>pad _. pad ! 17)],
       exec (seed_ror (\<lambda>pad _. pad ! 18 + 0x5)),
       exec (pad_add 6 (\<lambda>_ seed. seed + 0x126c7192)),
       exec (pad_and 4 (\<lambda>pad _. pad ! 9 XOR 0xe4c97d9)),
       exec (seed_xor (\<lambda>_ seed. seed + 0x5246092)),
       exec (pad_add 14 (\<lambda>pad _. pad ! 3 + 0x12466f7c)),
       exec (pad_sub 7 (\<lambda>pad _. pad ! 19 - 0xe724e487)),
       exec (seed_sub (\<lambda>pad _. pad ! 2 - 0xfffcc68a)),
       exec (pad_sub 2 (\<lambda>pad _. pad ! 12 * 0xf8b6e25)),
       cond (branch = 4) [exec (mix_minor36),
         exec (pad_xor 17 (\<lambda>_ _. 0x5f26a27b)),
         exec (pad_xor 14 (\<lambda>_ _. 0x77f49770)),
         call mix_major16 (\<lambda>pad _. pad ! 12)],
       exec (pad_rol 3 (\<lambda>pad _. pad ! 6 XOR 0x11)),
       exec (pad_add 4 (\<lambda>_ seed. seed AND 0x3dd7da06)),
       exec (pad_mul 11 (\<lambda>pad _. pad ! 8 + 0xb6484f2a)),
       exec (seed_xor (\<lambda>pad _. pad ! 8 AND 0x274e05b8)),
       exec (pad_xor 18 (\<lambda>pad _. pad ! 5 + 0x263032a4)),
       exec (pad_xor 16 (\<lambda>_ seed. seed + 0x1a70ff38)),
       cond (branch = 0) [exec (mix_minor37),
         exec (mix_minor22),
         exec (mix_minor45),
         call mix_major15 (\<lambda>pad _. pad ! 10)],
       exec (pad_add 4 (\<lambda>_ seed. seed + 0x4a83a932)),
       exec (pad_rol 19 (\<lambda>pad _. pad ! 2 + 0x10)),
       exec (pad_rol 0 (\<lambda>pad _. pad ! 19)),
       exec (seed_add (\<lambda>_ seed. seed XOR 0x1bb7cdc3)),
       exec (seed_sub (\<lambda>pad _. pad ! 4 - 0xf1efd9b1)),
       exec (pad_xor 11 (\<lambda>pad _. pad ! 1 OR 0x64a30a)),
       exec (pad_sub 1 (\<lambda>pad _. pad ! 8 - 0x4cd3708)),
       exec (pad_add 0 (\<lambda>_ seed. seed + 0xf6d388b6)),
       exec (pad_sub 8 (\<lambda>pad _. pad ! 1 - 0x4b8444f)),
       exec (pad_rol 7 (\<lambda>_ seed. ROL seed 9)),
       exec (pad_ror 17 (\<lambda>pad _. pad ! 10 + 0x1c))] pad seed)"

definition mix_major12 :: "u32 list \<Rightarrow> u32 \<Rightarrow> u32 list" where
  "mix_major12 pad seed =
    (let branch = ((pad ! 7 XOR pad ! 16) XOR seed) mod 6
     in run_body [
       exec (pad_and 18 (\<lambda>pad _. pad ! 6 AND 0x104394c4)),
       exec (seed_mul (\<lambda>_ seed. seed + 0xe92519e2)),
       exec (pad_add 4 (\<lambda>pad _. pad ! 19 + 0x46d5ad23)),
       exec (pad_add 6 (\<lambda>pad _. pad ! 1 + 0x3fd0884)),
       exec (seed_set (\<lambda>pad seed. pad ! 9 * (seed + 0xc46fe68))),
       exec (pad_set 9 (\<lambda>_ seed. seed)),
       cond (branch = 5) [exec (pad_add 8 (\<lambda>_ _. 0xb0568904)),
         exec (mix_minor55),
         exec (mix_minor56),
         call mix_major19 (\<lambda>pad _. pad ! 4)],
       exec (pad_xor 11 (\<lambda>pad _. pad ! 7 XOR 0x4453b1d7)),
       exec (pad_xor 4 (\<lambda>pad _. pad ! 12 + 0x187596ce)),
       exec (pad_add 14 (\<lambda>pad _. pad ! 19 XOR 0x1ecd4347)),
       exec (pad_and 17 (\<lambda>pad _. pad ! 6 + 0xaa504a66)),
       exec (pad_sub 13 (\<lambda>pad _. pad ! 7 - 0x2482f7ba)),
       cond (branch = 2) [exec (pad_rol 16 (\<lambda>_ _. 27)),
         exec (pad_add 3 (\<lambda>_ _. 0x8602040)),
         exec (mix_minor37),
         call mix_major20 (\<lambda>pad _. pad ! 18)],
       exec (pad_mul 5 (\<lambda>pad _. pad ! 17 OR 0x14128b1f)),
       exec (pad_and 5 (\<lambda>pad _. pad ! 9 OR 0x8ae69ec)),
       exec (seed_set (\<lambda>pad _. (pad ! 5 OR 0x25dcee2a) * 0xf7abca44)),
       exec (pad_add 12 (\<lambda>pad _. pad ! 10 * 0x2b5c108a)),
       exec (pad_sub 19 (\<lambda>pad _. pad ! 10 - 0x45d1e08)),
       cond (branch = 1) [exec (mix_minor61),
         exec (pad_add 3 (\<lambda>_ _. 0x1704000)),
         exec (pad_add 12 (\<lambda>_ _. 0x20e002a)),
         call mix_major17 (\<lambda>pad _. pad ! 7)],
       exec (pad_sub 5 (\<lambda>pad _. pad ! 3 - 0x17a9626b)),
       exec (seed_add (\<lambda>pad _. pad ! 8 + 0x55003f14)),
       exec (pad_add 9 (\<lambda>pad _. ROL (pad ! 6) 31)),
       exec (pad_or 2 (\<lambda>pad _. ROL (pad ! 19) 13)),
       exec (pad_xor 19 (\<lambda>pad _. pad ! 15 XOR 0xfbf02d6)),
       exec (pad_or 3 (\<lambda>pad _. pad ! 18 * 0x279ed38c)),
       exec (seed_and (\<lambda>pad _. pad ! 19 XOR 0x234a2088)),
       cond (branch = 0) [exec (mix_minor42),
         exec (pad_add 12 (\<lambda>_ _. 0x68468)),
         exec (mix_minor55),
         call mix_major16 (\<lambda>pad _. pad ! 14)],
       exec (pad_add 4 (\<lambda>pad _. pad ! 9 + 0xd5555942)),
       exec (pad_add 6 (\<lambda>pad _. pad ! 0 + 0xf6a829d0)),
       exec (pad_add 2 (\<lambda>pad _. pad ! 17 * 0x6877a2b6)),
       exec (seed_or (\<lambda>pad _. pad ! 11 + 0x4f92882e)),
       exec (pad_xor 4 (\<lambda>_ seed. seed + 0x2a0e1a7a)),
       exec (seed_mul (\<lambda>_ seed. seed * 0xba88b94)),
       cond (branch = 3) [exec (pad_add 14 (\<lambda>_ _. 0x5a9acc8f)),
         exec (mix_minor40),
         exec (mix_minor33),
         call mix_major15 (\<lambda>_ seed. seed)],
       exec (pad_sub 8 (\<lambda>pad _. pad ! 19 XOR 0x88fae5c)),
       exec (seed_sub (\<lambda>_ seed. seed XOR 0x6171e1a)),
       exec (seed_mul (\<lambda>pad _. pad ! 0 AND 0x6369ab7c)),
       exec (pad_xor 2 (\<lambda>pad _. pad ! 12 AND 0x36b79ddb)),
       exec (seed_xor (\<lambda>_ seed. seed + 0xff3ba490)),
       cond (branch = 4) [exec (mix_minor42),
         exec (mix_minor39),
         exec (pad_add 8 (\<lambda>_ _. 0x9cf399e7)),
         call mix_major8 (\<lambda>pad _. pad ! 2)],
       exec (seed_xor (\<lambda>pad _. pad ! 9 * 0x2a0582f6)),
       exec (pad_xor 9 (\<lambda>pad _. pad ! 10 + 0xf71f2197)),
       exec (pad_or 17 (\<lambda>_ seed. seed + 0x417b0639)),
       exec (pad_xor 6 (\<lambda>_ seed. ROR seed 17)),
       exec (pad_sub 15 (\<lambda>pad _. pad ! 3 - 0x1935355)),
       exec (pad_add 13 (\<lambda>pad _. pad ! 5 + 0x25393a1))] pad seed)"

definition mix_major18 :: "u32 list \<Rightarrow> u32 \<Rightarrow> u32 list" where
  "mix_major18 pad seed =
    (let branch = ((pad ! 13 XOR pad ! 16) XOR pad ! 17) mod 7
     in run_body [
       exec (pad_sub 2 (\<lambda>pad _. pad ! 9 - 0xe7e9ac84)),
       exec (pad_and 7 (\<lambda>_ seed. seed + 0xd5e47036)),
       exec (pad_xor 7 (\<lambda>pad _. pad ! 18 XOR 0x5d5e7006)),
       exec (seed_add (\<lambda>pad _. pad ! 6 XOR 0x16afd25f)),
       exec (pad_ror 0 (\<lambda>pad _. pad ! 18 OR 0x1b)),
       cond (branch = 4) [exec (mix_minor33),
         exec (pad_rol 16 (\<lambda>_ _. 12)),
         exec (mix_minor39),
         call mix_major19 (\<lambda>pad _. pad ! 17)],
       exec (pad_mul 1 (\<lambda>pad _. pad ! 0 * 0x927384a)),
       exec (seed_xor (\<lambda>pad _. pad ! 6 * 0x2ac0b63c)),
       exec (seed_xor (\<lambda>pad _. pad ! 5 * 0xef44412)),
       exec (seed_sub (\<lambda>pad _. ROL (pad ! 18) 22)),
       cond (branch = 1) [exec (mix_minor37),
         exec (mix_minor23),
         exec (mix_minor35),
         call mix_major20 (\<lambda>_ seed. seed)],
       exec (pad_and 6 (\<lambda>_ seed. seed + 0x4d05da6a)),
       exec (pad_mul 13 (\<lambda>pad _. pad ! 18 XOR 0xe2ba11c)),
       exec (seed_xor (\<lambda>pad _. pad ! 2 XOR 0x2e3d328f)),
       exec (seed_mul (\<lambda>pad _. pad ! 1 OR 0x110c8a1)),
       exec (pad_rol 4 (\<lambda>pad _. ROR (pad ! 6) 27)),
       cond (branch = 0) [exec (pad_sub 3 (\<lambda>_ _. 0xab85f363)),
         exec (mix_minor47),
         exec (pad_rol 10 (\<lambda>_ _. 12)),
         call mix_major17 (\<lambda>_ seed. seed)],
       exec (pad_and 19 (\<lambda>_ seed. ROR seed 8)),
       exec (seed_or (\<lambda>pad _. ROR (pad ! 19) 12)),
       exec (seed_add (\<lambda>pad _. pad ! 14 * 0x2d8924b3)),
       exec (pad_xor 10 (\<lambda>pad _. pad ! 15 + 0xdcba6126)),
       exec (seed_add (\<lambda>pad _. pad ! 16 AND 0xf72e29a)),
       exec (pad_sub 3 (\<lambda>pad _. pad ! 18 OR 0x7614cfb)),
       cond (branch = 6) [exec (mix_minor60),
         exec (pad_mul 3 (\<lambda>_ _. 0x23a0356c)),
         exec (mix_minor33),
         call mix_major16 (\<lambda>pad _. pad ! 9)],
       exec (pad_and 19 (\<lambda>pad _. pad ! 4 + 0xfe6ea18f)),
       exec (pad_mul 6 (\<lambda>pad _. pad ! 7 AND 0x226185b2)),
       exec (pad_add 0 (\<lambda>pad _. pad ! 4 XOR 0x35388017)),
       exec (seed_xor (\<lambda>pad _. pad ! 14 * 0x268d6eae)),
       cond (branch = 3) [exec (pad_add 14 (\<lambda>_ _. 0x72559385)),
         exec (pad_add 8 (\<lambda>_ _. 0xafa7ed31)),
         exec (mix_minor26),
         call mix_major15 (\<lambda>pad _. pad ! 0)],
       exec (pad_add 15 (\<lambda>_ seed. seed XOR 0xbf3b8c0)),
       exec (pad_ror 10 (\<lambda>pad _. ROR (pad ! 18) 25)),
       exec (pad_or 19 (\<lambda>_ seed. seed XOR 0x61d2180)),
       exec (pad_and 4 (\<lambda>pad _. pad ! 19 + 0x588d79a3)),
       cond (branch = 5) [exec (pad_add 11 (\<lambda>_ _. 0xa26a5e66)),
         exec (pad_add 9 (\<lambda>_ _. 0xcdf889ea)),
         exec (mix_minor69),
         call mix_major8 (\<lambda>pad _. pad ! 8)],
       exec (pad_add 0 (\<lambda>_ seed. seed + 0x19039f88)),
       exec (seed_rol (\<lambda>pad _. ROR (pad ! 7) 14)),
       exec (pad_add 6 (\<lambda>pad _. pad ! 8 XOR 0x1f3dce4)),
       exec (pad_mul 17 (\<lambda>pad _. pad ! 18 + 0x4f2cb877)),
       exec (pad_and 6 (\<lambda>pad _. pad ! 15 * 0x177f5d63)),
       exec (pad_rol 12 (\<lambda>pad _. ROL (pad ! 16) 1)),
       cond (branch = 2) [exec (mix_minor23),
         exec (mix_minor32),
         exec (pad_add 9 (\<lambda>_ _. 0xc3b96ef0)),
         call mix_major12 (\<lambda>pad _. pad ! 18)],
       exec (pad_add 19 (\<lambda>pad _. pad ! 12 + 0xbe9fd027)),
       exec (seed_and (\<lambda>pad _. pad ! 2 * 0x3ec8c5cb)),
       exec (pad_add 8 (\<lambda>pad _. pad ! 4 AND 0x48357b75)),
       exec (pad_rol 1 (\<lambda>pad _. pad ! 6 + 0x14)),
       exec (pad_xor 14 (\<lambda>pad _. pad ! 11 + 0x13c7dc0f)),
       exec (pad_add 4 (\<lambda>_ seed. ROL seed 19)),
       exec (pad_sub 12 (\<lambda>pad _. pad ! 2 - 0x15ea2e80)),
       exec (pad_add 11 (\<lambda>pad _. pad ! 19 + 0xaff84c32)),
       exec (pad_xor 2 (\<lambda>pad _. pad ! 5 * 0x278991a8)),
       exec (pad_add 14 (\<lambda>pad _. pad ! 2 + 0xf431b0d4))] pad seed)"

definition mix_major6 :: "u32 list \<Rightarrow> u32 \<Rightarrow> u32 list" where
  "mix_major6 pad seed =
    (let branch = ((pad ! 3 XOR pad ! 5) XOR pad ! 18) AND 7
     in run_body [
       exec (pad_xor 7 (\<lambda>pad _. pad ! 5 XOR 0x3610ff4)),
       exec (pad_xor 18 (\<lambda>pad _. ROL (pad ! 14) 19)),
       exec (pad_ror 15 (\<lambda>pad _. pad ! 10 + 0xe)),
       exec (seed_xor (\<lambda>pad _. pad ! 1 + 0xa89a8207)),
       exec (seed_and (\<lambda>_ _. 0xecc2fa7d)),
       cond (branch = 0) [exec (mix_minor54),
         exec (pad_mul 4 (\<lambda>_ _. 0x5141d713)),
         exec (mix_minor62),
         call mix_major19 (\<lambda>_ seed. seed)],
       exec (pad_xor 15 (\<lambda>pad _. pad ! 0 * 0x19dd786)),
       exec (seed_mul (\<lambda>_ seed. ROL seed 12)),
       exec (pad_and 17 (\<lambda>_ seed. seed OR 0x1249d1c)),
       exec (pad_xor 15 (\<lambda>pad _. pad ! 8 + 0x5e67551f)),
       exec (seed_add (\<lambda>pad _. pad ! 0 * 0x320ea6ec)),
       exec (seed_xor (\<lambda>pad _. pad ! 19 + 0xee10c43d)),
       cond (branch = 1) [exec (pad_rol 19 (\<lambda>_ _. 6)),
         exec (pad_add 3 (\<lambda>_ _. 0x1600840)),
         exec (mix_minor41),
         call mix_major20 (\<lambda>pad _. pad ! 2)],
       exec (pad_ror 15 (\<lambda>_ seed. seed XOR 0x7)),
       exec (pad_sub 5 (\<lambda>pad _. pad ! 14 * 0x54cc1685)),
       exec (pad_sub 12 (\<lambda>_ seed. seed - 0xf7d8f2fa)),
       exec (pad_sub 5 (\<lambda>pad _. pad ! 10 - 0xf95da87e)),
       exec (seed_xor (\<lambda>pad _. ROL (pad ! 8) 18)),
       cond (branch = 5) [exec (mix_minor53),
         exec (mix_minor23),
         exec (mix_minor60),
         call mix_major17 (\<lambda>pad _. pad ! 16)],
       exec (pad_add 19 (\<lambda>pad _. pad ! 2 XOR 0x4983faaa)),
       exec (seed_and (\<lambda>pad _. pad ! 6 AND 0x911ab6a)),
       exec (pad_and 17 (\<lambda>pad _. pad ! 2 + 0xfbb4acd7)),
       exec (pad_add 5 (\<lambda>pad _. pad ! 13 + 0xf96465d3)),
       exec (seed_rol (\<lambda>pad _. pad ! 2 OR 0x19)),
       exec (pad_add 9 (\<lambda>pad _. pad ! 2 OR 0x176f7fa2)),
       cond (branch = 7) [exec (mix_minor53),
         exec (mix_minor67),
         exec (mix_minor38),
         call mix_major16 (\<lambda>_ seed. seed)],
       exec (pad_ror 4 (\<lambda>_ seed. seed + 0x10)),
       exec (seed_or (\<lambda>pad _. pad ! 6 XOR 0x1ae616e0)),
       exec (seed_xor (\<lambda>pad _. pad ! 15 * 0x7f034)),
       exec (pad_ror 14 (\<lambda>pad _. pad ! 2 + 0x3)),
       cond (branch = 6) [exec (pad_sub 14 (\<lambda>_ _. 0xa630c9b5)),
         exec (mix_minor33),
         exec (pad_sub 8 (\<lambda>_ _. 0xa8a2e592)),
         call mix_major15 (\<lambda>_ seed. seed)],
       exec (pad_sub 12 (\<lambda>pad _. pad ! 10 AND 0x1311b0aa)),
       exec (pad_xor 14 (\<lambda>_ seed. seed + 0xf5736e40)),
       exec (pad_add 17 (\<lambda>pad _. ROR (pad ! 18) 15)),
       exec (seed_xor (\<lambda>pad _. pad ! 11 + 0x25e8d98c)),
       exec (pad_rol 0 (\<lambda>pad _. pad ! 14 OR 0x8)),
       exec (pad_sub 13 (\<lambda>pad _. pad ! 3 XOR 0x2a68c40c)),
       cond (branch = 3) [exec (mix_minor40),
         exec (pad_xor 14 (\<lambda>_ _. 0x4e96c3d9)),
         exec (pad_mul 3 (\<lambda>_ _. 0x7b9dddda)),
         call mix_major8 (\<lambda>pad _. pad ! 3)],
       exec (pad_add 12 (\<lambda>_ seed. ROR seed 12)),
       exec (pad_rol 7 (\<lambda>pad _. pad ! 6 AND 0x9)),
       exec (seed_rol (\<lambda>_ seed. seed * 0x4)),
       exec (seed_ror (\<lambda>pad _. pad ! 16 XOR 0x4)),
       exec (pad_rol 6 (\<lambda>pad _. ROL (pad ! 1) 11)),
       cond (branch = 4) [exec (mix_minor31),
         exec (mix_minor31),
         exec (pad_rol 16 (\<lambda>_ _. 28)),
         call mix_major12 (\<lambda>pad _. pad ! 13)],
       exec (pad_add 14 (\<lambda>pad _. ROR (pad ! 14) 9)),
       exec (pad_mul 3 (\<lambda>pad _. pad ! 13 AND 0x24b1abab)),
       exec (pad_sub 3 (\<lambda>pad _. pad ! 12 - 0x10decc67)),
       exec (seed_mul (\<lambda>pad _. pad ! 15 XOR 0x194903b4)),
       cond (branch = 2) [exec (mix_minor33),
         exec (mix_minor48),
         exec (mix_minor66),
         call mix_major18 (\<lambda>pad _. pad ! 14)],
       exec (pad_mul 15 (\<lambda>_ seed. seed * 0x2ed0158e)),
       exec (pad_add 14 (\<lambda>pad _. pad ! 3 + 0xc4d28c7c)),
       exec (pad_sub 11 (\<lambda>pad _. pad ! 18 XOR 0x3e1bda7e)),
       exec (pad_mul 2 (\<lambda>pad _. ROL (pad ! 13) 24))] pad seed)"

definition mix_major4 :: "u32 list \<Rightarrow> u32 \<Rightarrow> u32 list" where
  "mix_major4 pad seed =
    (let branch = ((pad ! 2 XOR pad ! 15) XOR seed) mod 9
     in run_body [
       exec (pad_add 14 (\<lambda>pad _. pad ! 15 + 0xd3892fe6)),
       exec (pad_sub 2 (\<lambda>_ seed. seed - 0xe600fde6)),
       exec (pad_xor 15 (\<lambda>pad _. pad ! 4 + 0x385e38e)),
       exec (pad_or 18 (\<lambda>_ seed. seed + 0xc6189f52)),
       cond (branch = 7) [exec (mix_minor43),
         exec (mix_minor24),
         exec (pad_add 3 (\<lambda>_ _. 0x9302800)),
         call mix_major19 (\<lambda>pad _. pad ! 1)],
       exec (pad_and 11 (\<lambda>pad _. pad ! 14 + 0x8f6f81a9)),
       exec (pad_rol 12 (\<lambda>pad _. ROR (pad ! 6) 14)),
       exec (seed_sub (\<lambda>pad _. ROL (pad ! 8) 14)),
       exec (pad_ror 0 (\<lambda>pad _. ROR (pad ! 11) 1)),
       exec (pad_add 0 (\<lambda>pad _. pad ! 11 XOR 0x43cd4d14)),
       cond (branch = 3) [exec (mix_minor22),
         exec (mix_minor48),
         exec (pad_mul 4 (\<lambda>_ _. 0x2a2e8718)),
         call mix_major20 (\<lambda>pad _. pad ! 14)],
       exec (pad_sub 3 (\<lambda>pad _. pad ! 8 XOR 0x155c464)),
       exec (pad_add 16 (\<lambda>pad _. pad ! 0 + 0xf8d647b6)),
       exec (pad_xor 2 (\<lambda>pad _. pad ! 4 XOR 0x11e3788d)),
       cond (branch = 5) [exec (pad_add 5 (\<lambda>_ _. 0xc4115253)),
         exec (mix_minor51),
         exec (mix_minor55),
         call mix_major17 (\<lambda>pad _. pad ! 10)],
       exec (seed_or (\<lambda>_ seed. ROL seed 11)),
       exec (pad_and 5 (\<lambda>_ seed. seed XOR 0x16984b90)),
       exec (pad_add 16 (\<lambda>_ seed. ROR seed 29)),
       exec (pad_add 0 (\<lambda>pad _. pad ! 15 + 0xc3e56f16)),
       cond (branch = 2) [exec (mix_minor46),
         exec (pad_rol 16 (\<lambda>_ _. 7)),
         exec (mix_minor40),
         call mix_major16 (\<lambda>pad _. pad ! 1)],
       exec (pad_and 5 (\<lambda>pad _. pad ! 11 + 0xe57356e7)),
       exec (pad_sub 18 (\<lambda>_ seed. seed XOR 0x23f157f6)),
       exec (seed_sub (\<lambda>pad _. pad ! 18 AND 0x155b7cc8)),
       cond (branch = 1) [exec (mix_minor48),
         exec (pad_add 5 (\<lambda>_ _. 0x6d08d06)),
         exec (mix_minor50),
         call mix_major15 (\<lambda>_ seed. seed)],
       exec (pad_or 8 (\<lambda>pad _. pad ! 5 OR 0x21496d22)),
       exec (seed_sub (\<lambda>pad _. pad ! 18 - 0x93b1543f)),
       exec (pad_mul 14 (\<lambda>_ seed. seed * 0x1db47609)),
       exec (pad_ror 7 (\<lambda>pad _. pad ! 10 XOR 0x1a)),
       exec (pad_rol 7 (\<lambda>pad _. pad ! 18 + 0x1c)),
       cond (branch = 0) [exec (mix_minor46),
         exec (pad_rol 10 (\<lambda>_ _. 4)),
         exec (mix_minor59),
         call mix_major8 (\<lambda>_ seed. seed)],
       exec (pad_xor 8 (\<lambda>pad _. ROL (pad ! 5) 3)),
       exec (pad_xor 6 (\<lambda>_ seed. seed XOR 0x2c8ca15)),
       exec (pad_add 13 (\<lambda>_ seed. ROL seed 13)),
       cond (branch = 4) [exec (mix_minor61),
         exec (pad_mul 3 (\<lambda>_ _. 0x6c0de9fa)),
         exec (mix_minor34),
         call mix_major12 (\<lambda>pad _. pad ! 18)],
       exec (pad_xor 17 (\<lambda>pad _. pad ! 2 AND 0xa0962e5)),
       exec (pad_mul 3 (\<lambda>_ seed. seed AND 0xd505f52)),
       exec (seed_sub (\<lambda>pad _. pad ! 15 XOR 0x15284f42)),
       cond (branch = 8) [exec (mix_minor37),
         exec (mix_minor47),
         exec (pad_add 12 (\<lambda>_ _. 0x2108058)),
         call mix_major18 (\<lambda>pad _. pad ! 8)],
       exec (pad_and 7 (\<lambda>pad _. pad ! 2 + 0xf8df2963)),
       exec (pad_mul 6 (\<lambda>_ seed. seed * 0x256b9c9c)),
       exec (pad_add 10 (\<lambda>pad _. pad ! 1 OR 0xda16d9b)),
       exec (pad_mul 9 (\<lambda>pad _. pad ! 5 XOR 0x28b62e0c)),
       cond (branch = 6) [exec (mix_minor35),
         exec (pad_xor 14 (\<lambda>_ _. 0x8a0974b)),
         exec (mix_minor37),
         call mix_major6 (\<lambda>_ seed. seed)],
       exec (pad_xor 12 (\<lambda>pad _. pad ! 5 * 0x23779c9e)),
       exec (pad_mul 10 (\<lambda>pad _. ROR (pad ! 19) 29)),
       exec (pad_xor 0 (\<lambda>pad _. pad ! 10 XOR 0x38a5f94)),
       exec (seed_add (\<lambda>pad _. pad ! 15 + 0x1c82e95e)),
       exec (pad_rol 9 (\<lambda>pad _. pad ! 5 XOR 0x1d)),
       exec (pad_add 12 (\<lambda>_ seed. seed + 0xc0e4fa7d)),
       exec (pad_xor 17 (\<lambda>pad _. pad ! 7 XOR 0x141bbf98)),
       exec (pad_xor 9 (\<lambda>pad _. ROR (pad ! 18) 6)),
       exec (pad_sub 4 (\<lambda>pad _. pad ! 13 AND 0x2373fe39)),
       exec (pad_add 19 (\<lambda>_ seed. ROL seed 15))] pad seed)"

definition mix_major11 :: "u32 list \<Rightarrow> u32 \<Rightarrow> u32 list" where
  "mix_major11 pad seed =
    (let branch = ((pad ! 3 XOR pad ! 11) XOR pad ! 17) mod 10
     in run_body [
       exec (pad_sub 15 (\<lambda>pad _. pad ! 0 AND 0x201c33b4)),
       exec (pad_and 9 (\<lambda>pad _. pad ! 4 XOR 0x4b5700f)),
       exec (pad_mul 14 (\<lambda>pad seed. (seed - (pad ! 15 OR 0x1f564f3c)) + 0xfe30d470)),
       cond (branch = 2) [exec (mix_minor58),
         exec (pad_and 1 (\<lambda>_ _. 0xdc0e2e53)),
         exec (mix_minor65),
         call mix_major19 (\<lambda>pad _. pad ! 1)],
       exec (pad_xor 3 (\<lambda>pad _. ROL (pad ! 7) 28)),
       exec (seed_set (\<lambda>_ _. 0xb2363254)),
       exec (pad_add 17 (\<lambda>_ _. 0x503fc4de)),
       exec (pad_add 18 (\<lambda>pad _. pad ! 1 * 0xf14c9c)),
       cond (branch = 6) [exec (mix_minor21),
         exec (mix_minor28),
         exec (mix_minor54),
         call mix_major20 (\<lambda>pad _. pad ! 5)],
       exec (pad_mul 3 (\<lambda>pad _. pad ! 0 + 0xaf4b1f37)),
       exec (pad_mul 11 (\<lambda>pad _. pad ! 11 + 0x1d1cbc4e)),
       exec (pad_xor 13 (\<lambda>pad _. pad ! 1 + 0xf6c6f628)),
       exec (pad_xor 17 (\<lambda>pad _. pad ! 3 + 0x7f863fa)),
       cond (branch = 4) [exec (pad_sub 3 (\<lambda>_ _. 0x7d6e042a)),
         exec (mix_minor31),
         exec (pad_add 12 (\<lambda>_ _. 0x2048070)),
         call mix_major17 (\<lambda>_ seed. seed)],
       exec (pad_add 11 (\<lambda>pad _. pad ! 4 OR 0x3b62a700)),
       exec (pad_xor 19 (\<lambda>_ _. 0xf3c3d3f0)),
       exec (seed_ror (\<lambda>pad _. pad ! 10 + 0xe)),
       exec (pad_or 16 (\<lambda>pad _. ROR (pad ! 16) 10)),
       exec (pad_mul 7 (\<lambda>pad _. pad ! 11 * 0x5053948)),
       cond (branch = 3) [exec (mix_minor58),
         exec (pad_mul 3 (\<lambda>_ _. 0x34797b50)),
         exec (mix_minor69),
         call mix_major16 (\<lambda>pad _. pad ! 4)],
       exec (pad_and 1 (\<lambda>_ seed. seed * 0x377e5649)),
       exec (pad_add 18 (\<lambda>pad _. pad ! 2 OR 0x57a0b91)),
       exec (pad_rol 7 (\<lambda>_ seed. seed + 0x7)),
       exec (pad_sub 4 (\<lambda>pad _. ROL (pad ! 7) 2)),
       cond (branch = 0) [exec (pad_and 1 (\<lambda>_ _. 0x49102e08)),
         exec (pad_add 12 (\<lambda>_ _. 0x20e0400)),
         exec (mix_minor56),
         call mix_major15 (\<lambda>pad _. pad ! 18)],
       exec (seed_mul (\<lambda>_ seed. seed + 0xfea6f980)),
       exec (pad_add 18 (\<lambda>pad _. pad ! 2 * 0x33aaef75)),
       exec (pad_xor 2 (\<lambda>pad _. pad ! 12 + 0xda4bd31e)),
       exec (seed_sub (\<lambda>pad _. pad ! 6 OR 0x107e370)),
       exec (pad_sub 17 (\<lambda>_ seed. seed - 0x191504c)),
       cond (branch = 9) [exec (mix_minor48),
         exec (pad_xor 4 (\<lambda>_ _. 0xccc8d5fc)),
         exec (mix_minor41),
         call mix_major8 (\<lambda>pad _. pad ! 14)],
       exec (pad_add 3 (\<lambda>pad _. ROL (pad ! 15) 7)),
       exec (pad_sub 12 (\<lambda>pad _. pad ! 10 - 0x18afd3db)),
       exec (pad_add 5 (\<lambda>pad _. pad ! 12 + 0x1392be9b)),
       exec (pad_sub 5 (\<lambda>pad _. pad ! 3 XOR 0xfd205d5)),
       exec (pad_xor 8 (\<lambda>_ seed. seed XOR 0x9000ce9)),
       cond (branch = 5) [exec (mix_minor51),
         exec (mix_minor24),
         exec (mix_minor32),
         call mix_major12 (\<lambda>pad _. pad ! 19)],
       exec (pad_ror 19 (\<lambda>_ seed. seed + 0x19)),
       exec (pad_ror 11 (\<lambda>pad _. pad ! 19 * 0x10)),
       exec (seed_xor (\<lambda>pad _. pad ! 12 XOR 0x534576d7)),
       exec (pad_rol 11 (\<lambda>pad _. pad ! 1 XOR 0x15)),
       exec (pad_add 19 (\<lambda>pad _. pad ! 9 * 0x12af9c5)),
       cond (branch = 8) [exec (mix_minor42),
         exec (mix_minor60),
         call mix_major18 (\<lambda>pad _. pad ! 0)],
       exec (pad_rol 10 (\<lambda>_ seed. seed * 0x14)),
       exec (pad_sub 1 (\<lambda>pad _. ROL (pad ! 14) 19)),
       exec (seed_or (\<lambda>pad _. pad ! 16 + 0xed222733)),
       exec (pad_and 16 (\<lambda>pad _. pad ! 3 * 0x532f53a)),
       exec (seed_xor (\<lambda>pad _. pad ! 11 * 0x14718f9a)),
       cond (branch = 1) [exec (mix_minor49),
         exec (mix_minor63),
         exec (pad_and 1 (\<lambda>_ _. 0xc2c9d439)),
         call mix_major6 (\<lambda>pad _. pad ! 13)],
       exec (pad_mul 3 (\<lambda>_ seed. seed OR 0x1739a522)),
       exec (seed_mul (\<lambda>pad _. pad ! 1 OR 0x4b09e3e)),
       exec (pad_xor 7 (\<lambda>pad _. pad ! 12 XOR 0x2a4ea48a)),
       cond (branch = 7) [exec (mix_minor35),
         exec (mix_minor35),
         exec (pad_mul 4 (\<lambda>_ _. 0x9b2bcf2e)),
         call mix_major4 (\<lambda>_ seed. seed)],
       exec (pad_sub 19 (\<lambda>_ seed. seed - 0x1dc54aa))] pad seed)"

definition mix_major22 :: "u32 list \<Rightarrow> u32 \<Rightarrow> u32 list" where
  "mix_major22 pad seed =
    (let branch = seed mod 11
     in run_body [
       exec (pad_add 12 (\<lambda>_ seed. seed XOR 0xc3115e)),
       exec (pad_sub 19 (\<lambda>_ seed. seed - 0x4f9d3712)),
       exec (pad_and 16 (\<lambda>pad _. pad ! 11 * 0x37e68d12)),
       cond (branch = 1) [exec (mix_minor57),
         exec (pad_mul 4 (\<lambda>_ _. 0x6f2b88b5)),
         call mix_major19 (\<lambda>pad _. pad ! 7)],
       exec (seed_sub (\<lambda>pad _. pad ! 18 XOR 0x4ea934da)),
       exec (pad_and 1 (\<lambda>pad _. pad ! 18 XOR 0x18a1ba1a)),
       cond (branch = 0) [exec (pad_add 3 (\<lambda>_ _. 0x9302840)),
         exec (pad_add 8 (\<lambda>_ _. 0x91520abe)),
         exec (mix_minor37),
         call mix_major20 (\<lambda>_ seed. seed)],
       exec (pad_add 18 (\<lambda>pad _. pad ! 17 * 0x3bf23dc7)),
       exec (pad_add 12 (\<lambda>pad _. pad ! 5 XOR 0x3537eae2)),
       exec (pad_add 9 (\<lambda>pad _. pad ! 5 + 0xf4d4e1ee)),
       exec (pad_sub 11 (\<lambda>pad _. ROL (pad ! 16) 22)),
       cond (branch = 2) [exec (mix_minor67),
         exec (mix_minor67),
         exec (mix_minor37),
         call mix_major17 (\<lambda>pad _. pad ! 16)],
       exec (pad_rol 17 (\<lambda>pad _. pad ! 1)),
       exec (seed_or (\<lambda>pad _. ROR (pad ! 5) 1)),
       exec (pad_add 11 (\<lambda>_ seed. seed + 0xf0871714)),
       cond (branch = 3) [exec (mix_minor35),
         exec (mix_minor65),
         exec (pad_sub 8 (\<lambda>_ _. 0x265c0434)),
         call mix_major16 (\<lambda>pad _. pad ! 18)],
       exec (seed_and (\<lambda>_ _. 0x1b54f10)),
       exec (pad_add 15 (\<lambda>pad _. pad ! 1 + 0xe9b29695)),
       exec (pad_xor 9 (\<lambda>pad _. pad ! 19 + 0xf9850900)),
       cond (branch = 8) [exec (pad_rol 10 (\<lambda>_ _. 1)),
         exec (pad_mul 4 (\<lambda>_ _. 0xb27c0ecb)),
         exec (mix_minor61),
         call mix_major15 (\<lambda>pad _. pad ! 11)],
       exec (pad_add 0 (\<lambda>pad _. pad ! 6 + 0x224785)),
       exec (pad_sub 1 (\<lambda>pad _. pad ! 9 * 0x602a9ff)),
       cond (branch = 4) [exec (mix_minor53),
         exec (pad_add 3 (\<lambda>_ _. 0x9702000)),
         exec (mix_minor26),
         call mix_major8 (\<lambda>pad _. pad ! 10)],
       exec (pad_add 14 (\<lambda>pad _. ROL (pad ! 5) 30)),
       exec (pad_sub 8 (\<lambda>pad _. pad ! 12 * 0x223c8eff)),
       exec (pad_add 3 (\<lambda>pad _. pad ! 11 * 0xc99e9b5)),
       cond (branch = 7) [exec (mix_minor57),
         exec (mix_minor45),
         exec (mix_minor49),
         call mix_major12 (\<lambda>pad _. pad ! 13)],
       exec (seed_mul (\<lambda>pad _. pad ! 3 XOR 0xf8e252d)),
       exec (pad_add 12 (\<lambda>_ seed. seed AND 0xa58c765)),
       cond (branch = 10) [exec (mix_minor39),
         exec (pad_xor 14 (\<lambda>_ _. 0x4dfb7ee4)),
         exec (mix_minor61),
         call mix_major18 (\<lambda>pad _. pad ! 13)],
       exec (pad_sub 11 (\<lambda>pad _. pad ! 3 XOR 0x59507436)),
       exec (pad_xor 10 (\<lambda>_ seed. seed XOR 0x1082cbd7)),
       cond (branch = 9) [exec (mix_minor50),
         exec (mix_minor53),
         exec (pad_rol 10 (\<lambda>_ _. 6)),
         call mix_major6 (\<lambda>pad _. pad ! 3)],
       exec (pad_ror 8 (\<lambda>_ seed. seed + 0x1)),
       exec (pad_xor 17 (\<lambda>pad _. pad ! 15 * 0x1627a9f4)),
       cond (branch = 6) [exec (pad_add 0 (\<lambda>_ _. 0xc3649533)),
         exec (mix_minor30),
         exec (mix_minor41),
         call mix_major4 (\<lambda>_ seed. seed)],
       exec (seed_mul (\<lambda>pad _. ROL (pad ! 11) 21)),
       exec (pad_xor 3 (\<lambda>pad _. pad ! 11 + 0x27d2e810)),
       exec (pad_add 3 (\<lambda>pad _. pad ! 16 * 0x2bb9259f)),
       cond (branch = 5) [exec (mix_minor40),
         exec (mix_minor63),
         exec (mix_minor61),
         call mix_major11 (\<lambda>_ seed. seed)],
       exec (pad_xor 19 (\<lambda>pad _. pad ! 17 XOR 0x2b7f6e80)),
       exec (pad_xor 7 (\<lambda>pad _. ROL (pad ! 0) 24)),
       exec (pad_xor 4 (\<lambda>_ seed. seed OR 0x334e9536)),
       exec (pad_sub 11 (\<lambda>_ seed. ROL seed 19)),
       exec (pad_xor 12 (\<lambda>_ seed. seed + 0xf8e5b64c)),
       exec (pad_add 11 (\<lambda>pad _. pad ! 4 + 0x661bc871)),
       exec (pad_ror 19 (\<lambda>pad _. pad ! 0 AND 0x9)),
       exec (pad_add 15 (\<lambda>_ seed. seed AND 0x7b85306)),
       exec (pad_sub 7 (\<lambda>pad _. pad ! 12 - 0x1394a239)),
       exec (pad_xor 17 (\<lambda>pad _. pad ! 3 + 0x4d2d2d3c)),
       exec (pad_sub 12 (\<lambda>pad _. pad ! 6 AND 0x312a10)),
       exec (pad_or 13 (\<lambda>pad _. pad ! 19 + 0xba345c89)),
       exec (pad_mul 13 (\<lambda>_ seed. seed + 0x2098c7b4)),
       exec (pad_and 6 (\<lambda>pad _. ROL (pad ! 10) 22)),
       exec (pad_sub 6 (\<lambda>pad _. pad ! 12 AND 0x13175e3d))] pad seed)"

definition mix_major5 :: "u32 list \<Rightarrow> u32 \<Rightarrow> u32 list" where
  "mix_major5 pad seed =
    (let branch = pad ! 18 mod 11
     in run_body [
       exec (pad_or 5 (\<lambda>pad _. pad ! 17 * 0x2e7a089)),
       exec (pad_xor 3 (\<lambda>pad _. pad ! 13 + 0x1fef7de0)),
       exec (seed_sub (\<lambda>pad _. pad ! 16 XOR 0x8338b85)),
       cond (branch = 0) [exec (pad_add 3 (\<lambda>_ _. 0x1000800)),
         exec (pad_add 3 (\<lambda>_ _. 0x9102040)),
         exec (mix_minor30),
         call mix_major20 (\<lambda>pad _. pad ! 11)],
       exec (seed_mul (\<lambda>_ _. 0x1cd19bfb)),
       exec (pad_mul 3 (\<lambda>pad _. pad ! 12 + 0x15bdbb56)),
       exec (pad_xor 11 (\<lambda>_ seed. seed + 0x374580a7)),
       exec (pad_add 10 (\<lambda>_ seed. seed OR 0x86941f3)),
       cond (branch = 4) [exec (mix_minor32),
         exec (pad_rol 10 (\<lambda>_ _. 25)),
         exec (mix_minor50),
         call mix_major17 (\<lambda>pad _. pad ! 18)],
       exec (pad_sub 6 (\<lambda>pad _. pad ! 16 XOR 0x11119dd6)),
       exec (pad_add 13 (\<lambda>pad _. pad ! 18 + 0xcb82c76c)),
       exec (pad_sub 8 (\<lambda>pad _. pad ! 1 XOR 0x3b98ae58)),
       cond (branch = 9) [exec (mix_minor42),
         exec (mix_minor64),
         exec (mix_minor21),
         call mix_major16 (\<lambda>pad _. pad ! 1)],
       exec (pad_xor 17 (\<lambda>pad _. pad ! 17 + 0xcfd5283)),
       exec (pad_and 5 (\<lambda>pad _. pad ! 13 + 0x539ef62)),
       exec (pad_and 11 (\<lambda>pad _. pad ! 14 XOR 0x639b87fe)),
       cond (branch = 8) [exec (mix_minor22),
         exec (mix_minor59),
         exec (pad_add 14 (\<lambda>_ _. 0x73204792)),
         call mix_major15 (\<lambda>pad _. pad ! 18)],
       exec (pad_sub 12 (\<lambda>_ seed. seed OR 0x369e02e)),
       exec (pad_mul 6 (\<lambda>pad _. pad ! 12 + 0xf0544c52)),
       exec (seed_add (\<lambda>pad _. pad ! 5 + 0x8dcb06)),
       exec (pad_sub 12 (\<lambda>_ seed. seed AND 0x632ffca)),
       cond (branch = 3) [exec (pad_add 5 (\<lambda>_ _. 0xc6ac8583)),
         exec (mix_minor41),
         exec (pad_add 3 (\<lambda>_ _. 0x9004000)),
         call mix_major8 (\<lambda>pad _. pad ! 17)],
       exec (pad_sub 16 (\<lambda>pad _. pad ! 6 * 0x345114ef)),
       exec (pad_ror 10 (\<lambda>pad _. pad ! 11 * 0x10)),
       exec (pad_add 0 (\<lambda>pad _. pad ! 4 AND 0x18b74e25)),
       cond (branch = 7) [exec (pad_add 12 (\<lambda>_ _. 0x1a)),
         exec (mix_minor53),
         exec (mix_minor47),
         call mix_major12 (\<lambda>pad _. pad ! 15)],
       exec (pad_sub 2 (\<lambda>pad _. pad ! 2 XOR 0x18f1b56)),
       exec (pad_rol 19 (\<lambda>pad _. pad ! 13 + 0x6)),
       cond (branch = 6) [exec (pad_mul 3 (\<lambda>_ _. 0x27d3a148)),
         exec (pad_mul 4 (\<lambda>_ _. 0xa24016a8)),
         exec (pad_sub 14 (\<lambda>_ _. 0x3a2c78cf)),
         call mix_major18 (\<lambda>_ seed. seed)],
       exec (seed_ror (\<lambda>pad _. pad ! 7 + 0x16)),
       exec (seed_rol (\<lambda>pad _. pad ! 14 + 0x11)),
       cond (branch = 5) [exec (pad_mul 3 (\<lambda>_ _. 0x3713ed22)),
         exec (mix_minor29),
         exec (mix_minor59),
         call mix_major6 (\<lambda>pad _. pad ! 7)],
       exec (seed_sub (\<lambda>pad _. pad ! 10 - 0xd26e6435)),
       exec (pad_rol 8 (\<lambda>pad _. pad ! 13 XOR 0x15)),
       exec (pad_add 1 (\<lambda>pad _. pad ! 10 XOR 0x1da5a5e2)),
       cond (branch = 2) [exec (mix_minor45),
         exec (mix_minor55),
         exec (pad_rol 16 (\<lambda>_ _. 13)),
         call mix_major4 (\<lambda>pad _. pad ! 10)],
       exec (pad_or 7 (\<lambda>_ seed. seed * 0x1665683f)),
       exec (pad_add 6 (\<lambda>pad _. pad ! 17 + 0xd3198985)),
       exec (seed_and (\<lambda>pad _. pad ! 1 * 0xb2490cd)),
       cond (branch = 1) [exec (mix_minor50),
         exec (mix_minor45),
         exec (pad_add 8 (\<lambda>_ _. 0x749a003b)),
         call mix_major11 (\<lambda>pad _. pad ! 6)],
       exec (pad_sub 13 (\<lambda>pad _. pad ! 3 XOR 0x49caa386)),
       exec (pad_sub 5 (\<lambda>pad _. pad ! 7 - 0xca44ad)),
       exec (seed_add (\<lambda>pad _. pad ! 14 OR 0xce2b27d)),
       cond (branch = 10) [exec (mix_minor33),
         exec (mix_minor22),
         exec (pad_sub 8 (\<lambda>_ _. 0x7a3a25c3)),
         call mix_major22 (\<lambda>pad _. pad ! 11)],
       exec (pad_add 15 (\<lambda>pad _. pad ! 6 + 0x9f72b74b)),
       exec (pad_sub 16 (\<lambda>pad _. pad ! 3 - 0xaa1914c0)),
       exec (seed_sub (\<lambda>_ seed. ROL seed 18)),
       exec (pad_xor 14 (\<lambda>pad _. pad ! 9 XOR 0x7a9f2d9)),
       exec (pad_and 19 (\<lambda>pad _. ROL (pad ! 3) 10)),
       exec (seed_mul (\<lambda>pad _. pad ! 15 * 0xd49e9d9)),
       exec (pad_add 4 (\<lambda>pad _. pad ! 2 XOR 0xc52d715)),
       exec (pad_mul 15 (\<lambda>pad _. pad ! 11 * 0x300c07b6)),
       exec (pad_xor 4 (\<lambda>_ seed. seed * 0x59c5268)),
       exec (pad_sub 7 (\<lambda>_ seed. seed - 0xf1ae26ce))] pad seed)"

definition mix_major3 :: "u32 list \<Rightarrow> u32 \<Rightarrow> u32 list" where
  "mix_major3 pad seed =
    (let branch = ((pad ! 10 XOR pad ! 16) XOR seed) mod 11
     in run_body [
       exec (pad_mul 12 (\<lambda>pad _. pad ! 3 AND 0x19997dc0)),
       exec (seed_or (\<lambda>pad _. pad ! 0 + 0xd31e211)),
       exec (pad_sub 14 (\<lambda>pad _. pad ! 0 - 0x7cfa160)),
       cond (branch = 10) [exec (mix_minor48),
         exec (mix_minor46),
         exec (pad_sub 14 (\<lambda>_ _. 0x7f80fb4a)),
         call mix_major17 (\<lambda>pad _. pad ! 2)],
       exec (pad_set 13 (\<lambda>pad seed. ROR (pad ! 13) (seed + 0x6))),
       exec (pad_mul 3 (\<lambda>pad _. pad ! 12 + 0xfd1d773c)),
       cond (branch = 3) [exec (mix_minor37),
         exec (mix_minor39),
         exec (pad_xor 17 (\<lambda>_ _. 0x1d4f264d)),
         call mix_major16 (\<lambda>pad _. pad ! 12)],
       exec (seed_or (\<lambda>_ seed. seed + 0xd10c7a44)),
       exec (seed_add (\<lambda>pad _. pad ! 0 + 0xf3754e81)),
       exec (seed_xor (\<lambda>pad _. pad ! 16 XOR 0x21d2a427)),
       cond (branch = 1) [exec (mix_minor38),
         exec (pad_add 12 (\<lambda>_ _. 0x208846a)),
         exec (mix_minor31),
         call mix_major15 (\<lambda>pad _. pad ! 11)],
       exec (pad_or 16 (\<lambda>pad _. pad ! 4 OR 0x599c0b2)),
       exec (seed_rol (\<lambda>pad _. pad ! 0 + 0x1d)),
       exec (pad_and 3 (\<lambda>pad _. pad ! 6 XOR 0x1d86d59a)),
       exec (pad_xor 0 (\<lambda>pad _. pad ! 10 XOR 0x22d79e78)),
       cond (branch = 9) [exec (mix_minor45),
         exec (pad_rol 16 (\<lambda>_ _. 14)),
         exec (mix_minor45),
         call mix_major8 (\<lambda>pad _. pad ! 16)],
       exec (pad_rol 15 (\<lambda>pad _. pad ! 9 + 0x2)),
       exec (seed_add (\<lambda>pad seed. (ROL seed 13) + (pad ! 4 XOR 0x17568f8b))),
       exec (pad_sub 3 (\<lambda>pad _. pad ! 9 XOR 0x1b7d211b)),
       cond (branch = 7) [exec (mix_minor35),
         exec (pad_xor 14 (\<lambda>_ _. 0x7adc7a3f)),
         exec (mix_minor64),
         call mix_major12 (\<lambda>_ seed. seed)],
       exec (pad_mul 14 (\<lambda>pad _. pad ! 10 XOR 0x25da4024)),
       exec (pad_add 3 (\<lambda>pad _. pad ! 19 XOR 0x195596e2)),
       cond (branch = 8) [exec (mix_minor37),
         exec (mix_minor60),
         exec (pad_sub 8 (\<lambda>_ _. 0x75c7234e)),
         call mix_major18 (\<lambda>_ seed. seed)],
       exec (pad_xor 3 (\<lambda>pad _. ROR (pad ! 4) 11)),
       exec (pad_xor 19 (\<lambda>pad _. pad ! 2 AND 0x142c74fa)),
       exec (pad_set 7 (\<lambda>_ _. 0x3de4cf2b)),
       exec (seed_xor (\<lambda>pad _. pad ! 5 * 0x1195dbf3)),
       cond (branch = 5) [exec (mix_minor51),
         exec (mix_minor51),
         exec (mix_minor28),
         call mix_major6 (\<lambda>pad _. pad ! 9)],
       exec (pad_mul 12 (\<lambda>pad _. pad ! 14 * 0x25bf72d4)),
       exec (seed_add (\<lambda>pad _. ROL (pad ! 11) 2)),
       cond (branch = 0) [exec (mix_minor28),
         exec (mix_minor20),
         exec (mix_minor41),
         call mix_major4 (\<lambda>_ seed. seed)],
       exec (pad_add 7 (\<lambda>_ seed. seed + 0xfbd89057)),
       exec (pad_sub 12 (\<lambda>_ seed. seed - 0xfec898a3)),
       exec (seed_mul (\<lambda>_ seed. seed + 0xe6d9d0ce)),
       exec (pad_mul 2 (\<lambda>pad _. pad ! 0 * 0x25d5927e)),
       cond (branch = 6) [exec (mix_minor41),
         exec (mix_minor35),
         exec (pad_add 0 (\<lambda>_ _. 0x8a388c73)),
         call mix_major11 (\<lambda>pad _. pad ! 3)],
       exec (seed_sub (\<lambda>_ seed. seed XOR 0x7951f14a)),
       exec (seed_mul (\<lambda>pad _. pad ! 19 XOR 0x159fa550)),
       exec (pad_sub 9 (\<lambda>_ seed. seed * 0x1b0d12a6)),
       cond (branch = 4) [exec (mix_minor58),
         exec (mix_minor26),
         exec (mix_minor26),
         call mix_major22 (\<lambda>_ seed. seed)],
       exec (pad_add 12 (\<lambda>pad _. pad ! 4 OR 0xf2ff1db)),
       exec (pad_xor 12 (\<lambda>pad _. pad ! 2 AND 0xac8676c)),
       exec (pad_sub 7 (\<lambda>_ seed. seed * 0x1a41598b)),
       exec (pad_mul 17 (\<lambda>pad _. pad ! 14 AND 0x36ff2c0)),
       cond (branch = 2) [exec (mix_minor60),
         exec (mix_minor67),
         exec (mix_minor44),
         call mix_major5 (\<lambda>pad _. pad ! 11)],
       exec (pad_xor 19 (\<lambda>pad _. pad ! 11 + 0xe311654d)),
       exec (pad_xor 18 (\<lambda>pad _. pad ! 16 * 0x1267cd78)),
       exec (pad_and 16 (\<lambda>_ seed. seed XOR 0x1c8b2015)),
       exec (pad_mul 16 (\<lambda>pad _. pad ! 16 OR 0xc26f29a)),
       exec (pad_and 14 (\<lambda>pad _. pad ! 10 + 0xcec46d19)),
       exec (pad_sub 8 (\<lambda>pad _. pad ! 8 XOR 0xc03874d))] pad seed)"

definition mix_major14 :: "u32 list \<Rightarrow> u32 \<Rightarrow> u32 list" where
  "mix_major14 pad seed =
    (let branch = ((pad ! 6 XOR pad ! 8) XOR pad ! 15) mod 11
     in run_body [
       exec (pad_and 14 (\<lambda>_ seed. seed XOR 0x1c0b5143)),
       exec (pad_mul 17 (\<lambda>pad _. pad ! 5 + 0x4ef38b53)),
       exec (pad_xor 15 (\<lambda>pad _. ROR (pad ! 16) 8)),
       cond (branch = 4) [exec (pad_xor 4 (\<lambda>_ _. 0x82254dc0)),
         exec (mix_minor36),
         exec (mix_minor47),
         call mix_major16 (\<lambda>pad _. pad ! 10)],
       exec (seed_xor (\<lambda>pad _. pad ! 17 AND 0x3b118c17)),
       exec (seed_ror (\<lambda>pad _. pad ! 7 * 0xb)),
       exec (pad_sub 5 (\<lambda>pad _. ROR (pad ! 12) 5)),
       cond (branch = 10) [exec (pad_sub 14 (\<lambda>_ _. 0x7b59f866)),
         exec (pad_sub 3 (\<lambda>_ _. 0x6bfee72c)),
         exec (pad_add 3 (\<lambda>_ _. 0x1704040)),
         call mix_major15 (\<lambda>_ seed. seed)],
       exec (seed_xor (\<lambda>pad _. pad ! 10 + 0xe81a232b)),
       exec (pad_or 18 (\<lambda>pad _. pad ! 2 + 0xef9e8d77)),
       exec (pad_add 3 (\<lambda>pad _. pad ! 4 + 0xce3d3234)),
       cond (branch = 5) [exec (mix_minor27),
         exec (mix_minor38),
         exec (mix_minor20),
         call mix_major8 (\<lambda>pad _. pad ! 0)],
       exec (seed_mul (\<lambda>_ seed. ROR seed 15)),
       exec (seed_and (\<lambda>pad _. pad ! 7 + 0x358107b)),
       exec (pad_add 12 (\<lambda>pad _. ROL (pad ! 3) 20)),
       cond (branch = 3) [exec (mix_minor20),
         exec (pad_xor 17 (\<lambda>_ _. 0xde7b4629)),
         exec (pad_xor 4 (\<lambda>_ _. 0x5cfc1b41)),
         call mix_major12 (\<lambda>_ seed. seed)],
       exec (seed_add (\<lambda>_ seed. seed + 0xddcb6fb3)),
       exec (seed_xor (\<lambda>pad _. pad ! 4 * 0x2a5c35ea)),
       exec (pad_sub 4 (\<lambda>pad _. pad ! 3 - 0x3b4034a1)),
       exec (pad_and 11 (\<lambda>pad _. pad ! 19 OR 0x2856103)),
       cond (branch = 1) [exec (mix_minor21),
         exec (mix_minor56),
         exec (mix_minor25),
         call mix_major18 (\<lambda>pad _. pad ! 16)],
       exec (pad_or 7 (\<lambda>_ seed. seed + 0x2d3d686)),
       exec (seed_and (\<lambda>pad _. pad ! 15 AND 0x316de5b2)),
       cond (branch = 7) [exec (mix_minor20),
         exec (mix_minor33),
         exec (pad_xor 14 (\<lambda>_ _. 0x1e127778)),
         call mix_major6 (\<lambda>pad _. pad ! 15)],
       exec (seed_xor (\<lambda>pad _. pad ! 17 XOR 0x3e8999a9)),
       exec (seed_add (\<lambda>_ seed. seed + 0x4d77c09e)),
       exec (pad_mul 6 (\<lambda>pad _. pad ! 10 + 0xd1650ad7)),
       exec (pad_mul 7 (\<lambda>pad _. pad ! 3 AND 0xade0835)),
       cond (branch = 0) [exec (mix_minor26),
         exec (mix_minor28),
         exec (mix_minor67),
         call mix_major4 (\<lambda>pad _. pad ! 3)],
       exec (pad_sub 9 (\<lambda>pad _. pad ! 15 XOR 0x32bd1767)),
       exec (pad_xor 12 (\<lambda>pad _. pad ! 3 + 0x74289e8a)),
       exec (pad_xor 9 (\<lambda>pad _. pad ! 5 + 0xd55d1b86)),
       exec (seed_and (\<lambda>pad _. pad ! 12 * 0x13b7b134)),
       cond (branch = 8) [exec (mix_minor35),
         exec (mix_minor30),
         exec (mix_minor21),
         call mix_major11 (\<lambda>pad _. pad ! 2)],
       exec (seed_add (\<lambda>_ seed. seed + 0xda1b9ad7)),
       exec (pad_sub 6 (\<lambda>pad _. pad ! 18 * 0x452ad09)),
       exec (pad_add 4 (\<lambda>_ seed. seed XOR 0x4895c9e2)),
       cond (branch = 9) [exec (mix_minor49),
         exec (mix_minor49),
         exec (mix_minor46),
         call mix_major22 (\<lambda>pad _. pad ! 16)],
       exec (seed_xor (\<lambda>_ seed. seed + 0xf8ecf928)),
       exec (pad_ror 18 (\<lambda>pad _. pad ! 5 + 0xd)),
       cond (branch = 6) [exec (mix_minor55),
         exec (mix_minor69),
         exec (mix_minor67),
         call mix_major5 (\<lambda>pad _. pad ! 8)],
       exec (seed_mul (\<lambda>_ _. 0x34b70af0)),
       exec (pad_sub 5 (\<lambda>pad _. ROL (pad ! 19) 23)),
       cond (branch = 2) [exec (mix_minor46),
         exec (mix_minor47),
         exec (mix_minor47),
         call mix_major3 (\<lambda>pad _. pad ! 18)],
       exec (pad_mul 8 (\<lambda>pad _. ROR (pad ! 5) 2)),
       exec (pad_add 17 (\<lambda>pad _. pad ! 8 AND 0x15595f)),
       exec (pad_ror 19 (\<lambda>pad _. pad ! 7 + 0x1)),
       exec (pad_sub 9 (\<lambda>_ seed. seed * 0x539f549)),
       exec (pad_mul 0 (\<lambda>pad _. pad ! 8 XOR 0x10549d01)),
       exec (pad_sub 11 (\<lambda>pad _. pad ! 4 XOR 0x1cd38676)),
       exec (pad_add 12 (\<lambda>_ seed. ROR seed 16)),
       exec (pad_xor 17 (\<lambda>pad _. pad ! 15 + 0x266b587)),
       exec (pad_sub 17 (\<lambda>pad _. ROR (pad ! 0) 29)),
       exec (pad_sub 3 (\<lambda>pad _. pad ! 13 - 0x2669d0a1))] pad seed)"

definition mix_major9 :: "u32 list \<Rightarrow> u32 \<Rightarrow> u32 list" where
  "mix_major9 pad seed =
    (let branch = ((pad ! 1 XOR pad ! 15) XOR pad ! 19) mod 11
     in run_body [
       exec (pad_or 19 (\<lambda>pad _. pad ! 18 + 0xe56713bc)),
       exec (pad_or 12 (\<lambda>pad _. pad ! 8 + 0xefc639fe)),
       cond (branch = 2) [exec (mix_minor40),
         exec (mix_minor26),
         exec (mix_minor65),
         call mix_major15 (\<lambda>_ seed. seed)],
       exec (pad_xor 4 (\<lambda>pad _. pad ! 18 + 0xf20ff41d)),
       exec (seed_rol (\<lambda>_ seed. seed + 0xb)),
       cond (branch = 5) [exec (mix_minor28),
         exec (mix_minor35),
         exec (pad_rol 19 (\<lambda>_ _. 20)),
         call mix_major8 (\<lambda>_ seed. seed)],
       exec (pad_xor 2 (\<lambda>_ seed. ROR seed 1)),
       exec (pad_mul 10 (\<lambda>_ seed. seed + 0x3842b736)),
       cond (branch = 4) [exec (mix_minor21),
         exec (mix_minor28),
         exec (pad_sub 3 (\<lambda>_ _. 0x524e81e6)),
         call mix_major12 (\<lambda>pad _. pad ! 13)],
       exec (pad_xor 5 (\<lambda>pad _. pad ! 4 XOR 0x224deca3)),
       exec (pad_add 9 (\<lambda>pad _. pad ! 15 AND 0xe43bfd6)),
       exec (pad_add 12 (\<lambda>pad _. pad ! 18 OR 0x24e2f424)),
       cond (branch = 1) [exec (mix_minor43),
         exec (pad_add 8 (\<lambda>_ _. 0x6afab397)),
         exec (pad_add 11 (\<lambda>_ _. 0x573a6da7)),
         call mix_major18 (\<lambda>pad _. pad ! 0)],
       exec (pad_mul 11 (\<lambda>pad _. pad ! 10 + 0xf0b1e409)),
       exec (pad_mul 9 (\<lambda>pad _. pad ! 5 + 0x13bcdf0b)),
       exec (pad_add 5 (\<lambda>_ _. 0x2961fc0)),
       exec (pad_mul 6 (\<lambda>pad _. pad ! 11 + 0xe91b219c)),
       cond (branch = 7) [exec (mix_minor29),
         exec (mix_minor41),
         exec (mix_minor28),
         call mix_major6 (\<lambda>_ _. 0xefc5f81f)],
       exec (pad_mul 1 (\<lambda>pad _. pad ! 1 + 0xff4abdb4)),
       exec (seed_set (\<lambda>_ _. 0x6f850fff)),
       exec (pad_add 13 (\<lambda>pad _. ROR (pad ! 10) 27)),
       exec (pad_add 10 (\<lambda>pad _. pad ! 3 + 0xea05fa03)),
       cond (branch = 10) [exec (mix_minor24),
         exec (mix_minor31),
         exec (pad_rol 16 (\<lambda>_ _. 20)),
         call mix_major4 (\<lambda>_ seed. seed)],
       exec (pad_set 19 (\<lambda>pad _. (pad ! 19 + 0xe8b6d37d) - pad ! 2)),
       exec (seed_xor (\<lambda>pad _. pad ! 12 * 0xa95c314)),
       cond (branch = 8) [exec (mix_minor64),
         exec (pad_xor 4 (\<lambda>_ _. 0xa54ee16)),
         exec (mix_minor54),
         call mix_major11 (\<lambda>pad _. pad ! 11)],
       exec (seed_add (\<lambda>pad _. pad ! 11 AND 0x346472bf)),
       exec (seed_and (\<lambda>pad _. pad ! 15 * 0xbeb977c)),
       exec (seed_add (\<lambda>pad _. pad ! 2 XOR 0x33dd726a)),
       exec (pad_and 19 (\<lambda>_ seed. seed XOR 0x13220e)),
       cond (branch = 6) [exec (mix_minor63),
         exec (mix_minor54),
         exec (mix_minor43),
         call mix_major22 (\<lambda>pad _. pad ! 2)],
       exec (seed_mul (\<lambda>_ seed. seed + 0x13a371f7)),
       exec (pad_rol 0 (\<lambda>_ seed. seed * 0x2)),
       exec (seed_rol (\<lambda>pad _. pad ! 15 * 0xf)),
       exec (pad_add 12 (\<lambda>pad _. pad ! 11 OR 0x15477725)),
       cond (branch = 3) [exec (mix_minor56),
         exec (pad_xor 14 (\<lambda>_ _. 0x66bd03a9)),
         exec (mix_minor55),
         call mix_major5 (\<lambda>pad _. pad ! 9)],
       exec (pad_add 16 (\<lambda>pad _. pad ! 8 + 0xb2878320)),
       exec (pad_add 0 (\<lambda>pad _. pad ! 11 * 0x128142d3)),
       exec (pad_ror 13 (\<lambda>_ seed. seed + 0x9)),
       cond (branch = 0) [exec (mix_minor33),
         exec (mix_minor69),
         exec (mix_minor58),
         call mix_major3 (\<lambda>pad _. pad ! 17)],
       exec (pad_ror 13 (\<lambda>pad _. pad ! 4 + 0x1a)),
       exec (seed_or (\<lambda>_ seed. seed + 0xb401ddcd)),
       exec (seed_ror (\<lambda>pad _. pad ! 16 + 0x17)),
       exec (seed_add (\<lambda>pad _. pad ! 11 XOR 0x14302fce)),
       cond (branch = 9) [exec (mix_minor30),
         exec (mix_minor47),
         exec (pad_sub 14 (\<lambda>_ _. 0x979badcc)),
         call mix_major14 (\<lambda>pad _. pad ! 17)],
       exec (pad_add 7 (\<lambda>pad _. pad ! 2 AND 0x2104615d)),
       exec (pad_or 6 (\<lambda>pad _. ROL (pad ! 4) 21)),
       exec (pad_sub 16 (\<lambda>_ seed. seed * 0x144af0fa)),
       exec (seed_xor (\<lambda>pad _. pad ! 9 * 0x1d7178c2)),
       exec (seed_mul (\<lambda>_ _. 0x3564b1fd)),
       exec (pad_sub 16 (\<lambda>_ seed. ROR seed 11)),
       exec (pad_xor 8 (\<lambda>pad _. pad ! 19 * 0x383ae479)),
       exec (pad_add 11 (\<lambda>_ seed. seed + 0xc4759a85)),
       exec (pad_xor 9 (\<lambda>pad _. pad ! 11 + 0x35e01882)),
       exec (pad_and 10 (\<lambda>pad _. pad ! 0 XOR 0x105d6dd1))] pad seed)"

definition mix_major10 :: "u32 list \<Rightarrow> u32 \<Rightarrow> u32 list" where
  "mix_major10 pad seed =
    (let branch = pad ! 5 mod 11
     in run_body [
       exec (pad_xor 17 (\<lambda>_ seed. seed + 0x2277a712)),
       exec (pad_mul 19 (\<lambda>pad _. pad ! 8 + 0xe6c6654e)),
       exec (pad_ror 6 (\<lambda>pad _. pad ! 1 XOR 0x1b)),
       cond (branch = 3) [exec (pad_add 8 (\<lambda>_ _. 0x8c1d03c3)),
         exec (pad_xor 4 (\<lambda>_ _. 0x112c3767)),
         exec (mix_minor43),
         call mix_major8 (\<lambda>pad _. pad ! 1)],
       exec (pad_mul 0 (\<lambda>_ seed. seed + 0x22e5f53d)),
       exec (pad_sub 6 (\<lambda>pad _. pad ! 14 - 0xf7f0c308)),
       cond (branch = 6) [exec (pad_and 1 (\<lambda>_ _. 0x548aed34)),
         exec (mix_minor33),
         exec (mix_minor28),
         call mix_major12 (\<lambda>pad _. pad ! 2)],
       exec (seed_add (\<lambda>pad _. pad ! 9 + 0xafa2e81)),
       exec (pad_mul 15 (\<lambda>pad _. pad ! 17 + 0xfd2839c0)),
       exec (pad_sub 14 (\<lambda>pad _. pad ! 6 - 0x30bd8dc6)),
       exec (pad_add 2 (\<lambda>pad _. pad ! 7 XOR 0x1edb75c4)),
       cond (branch = 4) [exec (mix_minor67),
         exec (mix_minor49),
         exec (mix_minor29),
         call mix_major18 (\<lambda>_ seed. seed)],
       exec (pad_set 2 (\<lambda>_ _. 0x2cfa7327)),
       exec (pad_sub 7 (\<lambda>pad _. pad ! 8 - 0xf2bf5a7)),
       exec (pad_ror 11 (\<lambda>pad _. pad ! 6 OR 0x15)),
       exec (pad_xor 2 (\<lambda>pad _. ROL (pad ! 10) 24)),
       cond (branch = 2) [exec (pad_rol 19 (\<lambda>_ _. 19)),
         exec (mix_minor41),
         exec (mix_minor26),
         call mix_major6 (\<lambda>_ seed. seed)],
       exec (pad_xor 16 (\<lambda>pad _. ROL (pad ! 5) 29)),
       exec (pad_rol 8 (\<lambda>pad _. ROL (pad ! 8) 19)),
       cond (branch = 0) [exec (pad_add 8 (\<lambda>_ _. 0xabc0d876)),
         exec (pad_and 1 (\<lambda>_ _. 0x2002d891)),
         exec (mix_minor51),
         call mix_major4 (\<lambda>_ seed. seed)],
       exec (pad_mul 13 (\<lambda>_ seed. seed AND 0x9aee05b)),
       exec (pad_rol 18 (\<lambda>pad _. pad ! 0 + 0x9)),
       cond (branch = 5) [exec (mix_minor37),
         exec (mix_minor52),
         exec (mix_minor65),
         call mix_major11 (\<lambda>pad _. pad ! 5)],
       exec (pad_add 16 (\<lambda>_ seed. seed + 0x15c7f2a)),
       exec (pad_add 0 (\<lambda>pad _. pad ! 8 OR 0xc568bd)),
       exec (seed_add (\<lambda>pad _. ROR (pad ! 11) 25)),
       cond (branch = 10) [exec (mix_minor29),
         exec (pad_add 14 (\<lambda>_ _. 0x7bef2ee1)),
         exec (mix_minor55),
         call mix_major22 (\<lambda>_ seed. seed)],
       exec (pad_and 11 (\<lambda>pad _. pad ! 0 OR 0x3c992378)),
       exec (seed_xor (\<lambda>pad _. pad ! 2 XOR 0x1ebdf827)),
       exec (seed_xor (\<lambda>pad _. pad ! 16 AND 0x1a8092b)),
       exec (pad_xor 4 (\<lambda>pad _. pad ! 2 + 0xf6a7c14d)),
       cond (branch = 7) [exec (pad_add 3 (\<lambda>_ _. 0x706840)),
         exec (pad_add 3 (\<lambda>_ _. 0x1400840)),
         exec (mix_minor68),
         call mix_major5 (\<lambda>pad _. pad ! 5)],
       exec (seed_or (\<lambda>pad _. pad ! 1 + 0xbd4eb37a)),
       exec (seed_mul (\<lambda>pad _. pad ! 15 XOR 0xe476c17)),
       cond (branch = 9) [exec (mix_minor41),
         exec (pad_add 14 (\<lambda>_ _. 0x52aaba85)),
         exec (mix_minor68),
         call mix_major3 (\<lambda>pad _. pad ! 19)],
       exec (pad_sub 0 (\<lambda>pad _. pad ! 4 AND 0x55d63dde)),
       exec (pad_add 14 (\<lambda>pad _. pad ! 19 + 0xfa050d42)),
       exec (pad_and 12 (\<lambda>pad _. pad ! 0 + 0x9ff4339)),
       exec (pad_xor 15 (\<lambda>pad _. pad ! 12 + 0xccdc186)),
       cond (branch = 8) [exec (mix_minor25),
         exec (mix_minor31),
         exec (mix_minor43),
         call mix_major14 (\<lambda>pad _. pad ! 12)],
       exec (pad_ror 10 (\<lambda>pad _. pad ! 11 + 0x1b)),
       exec (pad_xor 5 (\<lambda>pad _. pad ! 15 + 0x130fea4)),
       exec (seed_xor (\<lambda>pad _. pad ! 19 + 0xdf1438e7)),
       cond (branch = 1) [exec (mix_minor20),
         exec (mix_minor54),
         exec (mix_minor35),
         call mix_major9 (\<lambda>_ seed. seed)],
       exec (pad_add 11 (\<lambda>pad _. pad ! 3 XOR 0x30f43d2)),
       exec (pad_sub 13 (\<lambda>pad _. pad ! 16 * 0x485950f)),
       exec (pad_mul 15 (\<lambda>pad _. pad ! 1 + 0xa295d0d)),
       exec (seed_xor (\<lambda>pad _. pad ! 0 * 0x68f4b257)),
       exec (pad_and 12 (\<lambda>pad _. pad ! 8 + 0xe49d7359)),
       exec (pad_sub 7 (\<lambda>pad _. pad ! 2 * 0x16a7a0b6)),
       exec (seed_and (\<lambda>pad _. pad ! 13 + 0x18727e9f)),
       exec (pad_and 14 (\<lambda>_ seed. ROL seed 3)),
       exec (pad_sub 19 (\<lambda>pad _. pad ! 6 XOR 0x13892cf5))] pad seed)"

definition mix_major2 :: "u32 list \<Rightarrow> u32 \<Rightarrow> u32 list" where
  "mix_major2 pad seed =
    (let branch = pad ! 9 mod 11
     in run_body [
       exec (pad_or 0 (\<lambda>_ seed. seed OR 0x4d9f89df)),
       exec (seed_sub (\<lambda>_ seed. seed AND 0x10691818)),
       exec (pad_and 15 (\<lambda>pad _. ROR (pad ! 15) 18)),
       cond (branch = 2) [exec (mix_minor63),
         exec (mix_minor62),
         exec (mix_minor43),
         call mix_major12 (\<lambda>pad _. pad ! 9)],
       exec (seed_or (\<lambda>pad _. pad ! 7 XOR 0x1f11181f)),
       exec (pad_ror 17 (\<lambda>pad _. pad ! 18 + 0x18)),
       exec (pad_and 3 (\<lambda>pad _. pad ! 18 + 0xc18379a4)),
       exec (pad_add 8 (\<lambda>pad _. pad ! 2 + 0x8845990)),
       cond (branch = 8) [exec (pad_rol 10 (\<lambda>_ _. 6)),
         exec (mix_minor64),
         exec (mix_minor69),
         call mix_major18 (\<lambda>_ seed. seed)],
       exec (seed_mul (\<lambda>pad _. ROL (pad ! 7) 30)),
       exec (pad_ror 14 (\<lambda>_ seed. seed XOR 0x1)),
       exec (pad_sub 3 (\<lambda>pad _. pad ! 3 XOR 0x1a11c1c)),
       cond (branch = 3) [exec (mix_minor48),
         exec (pad_sub 3 (\<lambda>_ _. 0x833e3d40)),
         exec (mix_minor61),
         call mix_major6 (\<lambda>_ seed. seed)],
       exec (pad_add 5 (\<lambda>_ seed. seed + 0xbdf50793)),
       exec (seed_sub (\<lambda>pad _. pad ! 6 XOR 0x341c6ce5)),
       exec (seed_xor (\<lambda>pad _. pad ! 14 OR 0x11712ba)),
       exec (pad_sub 4 (\<lambda>_ seed. seed - 0x1df0f08c)),
       cond (branch = 4) [exec (mix_minor44),
         exec (mix_minor41),
         exec (mix_minor64),
         call mix_major4 (\<lambda>pad _. pad ! 2)],
       exec (seed_mul (\<lambda>pad _. pad ! 15 + 0xd8a810b1)),
       exec (pad_sub 0 (\<lambda>pad _. pad ! 7 - 0x8e4e3c5)),
       exec (pad_sub 9 (\<lambda>_ seed. seed XOR 0x13f1a8da)),
       cond (branch = 7) [exec (mix_minor20),
         exec (mix_minor47),
         exec (mix_minor57),
         call mix_major11 (\<lambda>pad _. pad ! 12)],
       exec (pad_xor 14 (\<lambda>_ seed. seed + 0xf2dd8a98)),
       exec (pad_or 14 (\<lambda>pad _. pad ! 3 AND 0xb51383c)),
       cond (branch = 1) [exec (mix_minor36),
         exec (mix_minor27),
         exec (mix_minor47),
         call mix_major22 (\<lambda>pad _. pad ! 9)],
       exec (pad_sub 0 (\<lambda>pad _. pad ! 2 - 0x16bda446)),
       exec (pad_sub 2 (\<lambda>pad _. pad ! 0 XOR 0x3576dfb9)),
       cond (branch = 9) [exec (mix_minor26),
         exec (mix_minor32),
         exec (mix_minor49),
         call mix_major5 (\<lambda>pad _. pad ! 9)],
       exec (pad_sub 5 (\<lambda>pad _. pad ! 6 OR 0x1720cf3)),
       exec (pad_xor 16 (\<lambda>pad _. pad ! 19 XOR 0x2dfed60)),
       exec (seed_mul (\<lambda>pad _. pad ! 12 + 0xffcf5d22)),
       exec (seed_add (\<lambda>pad _. pad ! 11 XOR 0x26b4296)),
       cond (branch = 6) [exec (mix_minor55),
         exec (pad_rol 19 (\<lambda>_ _. 15)),
         exec (pad_rol 10 (\<lambda>_ _. 26)),
         call mix_major3 (\<lambda>_ seed. seed)],
       exec (seed_ror (\<lambda>_ seed. ROL seed 11)),
       exec (seed_sub (\<lambda>pad _. ROL (pad ! 17) 25)),
       exec (pad_add 4 (\<lambda>pad _. pad ! 3 XOR 0x125c14db)),
       cond (branch = 0) [exec (pad_add 14 (\<lambda>_ _. 0x7de14a07)),
         exec (pad_mul 4 (\<lambda>_ _. 0x13ca26ac)),
         exec (mix_minor41),
         call mix_major14 (\<lambda>pad _. pad ! 9)],
       exec (pad_or 9 (\<lambda>pad _. ROR (pad ! 15) 31)),
       exec (seed_sub (\<lambda>pad _. pad ! 19 - 0xfde54451)),
       exec (pad_ror 9 (\<lambda>pad _. pad ! 11 OR 0x3)),
       exec (pad_xor 18 (\<lambda>_ seed. seed XOR 0x22da8ee3)),
       cond (branch = 10) [exec (mix_minor46),
         exec (mix_minor28),
         exec (mix_minor69),
         call mix_major9 (\<lambda>pad _. pad ! 2)],
       exec (pad_ror 2 (\<lambda>pad _. pad ! 9 + 0xf)),
       exec (pad_ror 5 (\<lambda>pad _. pad ! 18 AND 0x13)),
       exec (pad_sub 5 (\<lambda>pad _. pad ! 1 XOR 0x2822999)),
       cond (branch = 5) [exec (pad_add 12 (\<lambda>_ _. 0x108072)),
         exec (pad_add 8 (\<lambda>_ _. 0xaf45f1d7)),
         exec (mix_minor61),
         call mix_major10 (\<lambda>pad _. pad ! 9)],
       exec (pad_add 1 (\<lambda>_ seed. ROR seed 24)),
       exec (pad_add 6 (\<lambda>pad _. pad ! 4 OR 0x161d3ea)),
       exec (pad_add 9 (\<lambda>_ seed. seed + 0xc2e590c)),
       exec (seed_sub (\<lambda>_ seed. seed XOR 0x125deacd)),
       exec (pad_and 7 (\<lambda>pad _. pad ! 17 XOR 0x10b015bf)),
       exec (pad_set 17 (\<lambda>_ _. 0x1bb396c0)),
       exec (pad_mul 9 (\<lambda>pad _. pad ! 1 AND 0x7a04e3e)),
       exec (seed_add (\<lambda>pad _. pad ! 16 OR 0x16cf1fa2)),
       exec (seed_mul (\<lambda>pad _. pad ! 14 * 0x1d5ac40e)),
       exec (pad_xor 4 (\<lambda>_ seed. seed + 0xf27819a7))] pad seed)"

definition mix_major7 :: "u32 list \<Rightarrow> u32 \<Rightarrow> u32 list" where
  "mix_major7 pad seed =
    (let branch = ((pad ! 3 XOR pad ! 6) XOR seed) mod 11
     in run_body [
       exec (pad_add 8 (\<lambda>_ seed. seed * 0x25d21c70)),
       exec (seed_add (\<lambda>pad _. ROR (pad ! 13) 26)),
       exec (pad_add 15 (\<lambda>pad _. ROR (pad ! 0) 18)),
       cond (branch = 1) [exec (mix_minor45),
         exec (pad_rol 16 (\<lambda>_ _. 24)),
         exec (pad_rol 16 (\<lambda>_ _. 18)),
         call mix_major18 (\<lambda>pad _. pad ! 9)],
       exec (seed_add (\<lambda>pad _. pad ! 4 XOR 0x214bbbb)),
       exec (pad_rol 5 (\<lambda>_ seed. seed * 0x1d)),
       exec (pad_sub 17 (\<lambda>pad _. pad ! 18 OR 0x1102e01a)),
       exec (pad_add 19 (\<lambda>pad _. pad ! 12 + 0xf1e0cc5a)),
       cond (branch = 0) [exec (pad_mul 4 (\<lambda>_ _. 0x73b12006)),
         exec (mix_minor49),
         exec (mix_minor43),
         call mix_major6 (\<lambda>pad _. pad ! 13)],
       exec (pad_or 8 (\<lambda>_ seed. seed * 0x33ff2ce9)),
       exec (pad_mul 4 (\<lambda>_ seed. seed + 0x2fe45acf)),
       exec (pad_xor 3 (\<lambda>_ seed. ROR seed 13)),
       exec (seed_xor (\<lambda>pad _. pad ! 12 AND 0x2e2ac892)),
       cond (branch = 7) [exec (mix_minor59),
         exec (mix_minor69),
         exec (mix_minor41),
         call mix_major4 (\<lambda>pad _. pad ! 15)],
       exec (seed_mul (\<lambda>pad _. ROL (pad ! 14) 1)),
       exec (seed_xor (\<lambda>_ seed. seed + 0x7a3b4f0e)),
       exec (pad_add 5 (\<lambda>pad _. pad ! 11 XOR 0x5f050ce6)),
       cond (branch = 2) [exec (mix_minor46),
         exec (mix_minor45),
         exec (mix_minor24),
         call mix_major11 (\<lambda>pad _. pad ! 17)],
       exec (pad_sub 9 (\<lambda>pad _. pad ! 11 AND 0x524788df)),
       exec (seed_add (\<lambda>pad _. (pad ! 3 + (ROR (pad ! 17) 18)) + 0x17b2d86)),
       exec (pad_or 12 (\<lambda>pad _. pad ! 17 XOR 0xd2348b5)),
       cond (branch = 4) [exec (mix_minor60),
         exec (mix_minor56),
         exec (mix_minor64),
         call mix_major22 (\<lambda>_ seed. seed)],
       exec (pad_add 4 (\<lambda>pad _. pad ! 0 XOR 0x3ca6760a)),
       exec (pad_ror 10 (\<lambda>pad _. pad ! 12 AND 0x1e)),
       exec (pad_sub 12 (\<lambda>_ seed. seed XOR 0x32b59495)),
       exec (pad_sub 11 (\<lambda>pad _. pad ! 7 XOR 0xcc6cef3)),
       cond (branch = 9) [exec (mix_minor51),
         exec (mix_minor51),
         exec (mix_minor46),
         call mix_major5 (\<lambda>pad _. pad ! 6)],
       exec (pad_sub 18 (\<lambda>_ seed. seed XOR 0x42ce4263)),
       exec (pad_xor 8 (\<lambda>pad _. pad ! 15 + 0xfc1ccf0a)),
       exec (pad_mul 4 (\<lambda>pad _. pad ! 2 + 0xdc6ebf0)),
       cond (branch = 8) [exec (mix_minor34),
         exec (mix_minor33),
         exec (mix_minor35),
         call mix_major3 (\<lambda>pad _. pad ! 19)],
       exec (pad_xor 14 (\<lambda>pad _. pad ! 17 + 0x29e0bfe6)),
       exec (pad_xor 2 (\<lambda>pad _. pad ! 0 + 0xc0a98770)),
       exec (pad_add 6 (\<lambda>pad _. ROL (pad ! 11) 15)),
       cond (branch = 10) [exec (mix_minor43),
         exec (mix_minor38),
         exec (pad_rol 10 (\<lambda>_ _. 8)),
         call mix_major14 (\<lambda>_ seed. seed)],
       exec (seed_add (\<lambda>pad _. (pad ! 18 - pad ! 5) + 0xff5138a0)),
       cond (branch = 6) [exec (pad_rol 19 (\<lambda>_ _. 22)),
         exec (mix_minor32),
         exec (pad_xor 14 (\<lambda>_ _. 0x3ccf037)),
         call mix_major9 (\<lambda>_ seed. seed)],
       exec (pad_ror 3 (\<lambda>pad _. pad ! 17 AND 0xa)),
       exec (pad_xor 3 (\<lambda>pad _. pad ! 7 * 0x36e7ec8)),
       cond (branch = 3) [exec (mix_minor41),
         exec (pad_xor 17 (\<lambda>_ _. 0xeeea146c)),
         exec (mix_minor64),
         call mix_major10 (\<lambda>_ seed. seed)],
       exec (pad_ror 10 (\<lambda>pad _. pad ! 19 * 0x19)),
       exec (pad_mul 14 (\<lambda>pad _. pad ! 12 + 0xd914afe4)),
       cond (branch = 5) [exec (mix_minor22),
         exec (mix_minor57),
         exec (mix_minor44),
         call mix_major2 (\<lambda>pad _. pad ! 18)],
       exec (pad_sub 8 (\<lambda>pad _. pad ! 7 XOR 0x1609874e)),
       exec (pad_xor 10 (\<lambda>pad _. pad ! 4 OR 0x1e171635)),
       exec (pad_sub 6 (\<lambda>pad _. pad ! 16 - 0x19b93371))] pad seed)"

definition mix_major21 :: "u32 list \<Rightarrow> u32 \<Rightarrow> u32 list" where
  "mix_major21 pad seed =
    (let branch = ((pad ! 2 XOR pad ! 11) XOR pad ! 15) mod 11
     in run_body [
       exec (pad_ror 13 (\<lambda>_ seed. seed OR 0x1e)),
       exec (seed_sub (\<lambda>pad _. pad ! 6 - 0x67e07c3f)),
       exec (seed_xor (\<lambda>_ seed. seed * 0x157052aa)),
       cond (branch = 1) [exec (mix_minor22),
         exec (mix_minor62),
         exec (mix_minor63),
         call mix_major6 (\<lambda>_ seed. seed)],
       exec (pad_rol 6 (\<lambda>pad _. ROR (pad ! 6) 11)),
       exec (pad_add 19 (\<lambda>_ seed. seed * 0x2437b7c7)),
       cond (branch = 6) [exec (pad_sub 8 (\<lambda>_ _. 0x383b7a6c)),
         exec (mix_minor28),
         exec (pad_sub 14 (\<lambda>_ _. 0xd8799ad3)),
         call mix_major4 (\<lambda>pad _. pad ! 2)],
       exec (pad_add 3 (\<lambda>pad _. pad ! 12 + 0xf9430940)),
       exec (pad_sub 11 (\<lambda>pad _. pad ! 6)),
       cond (branch = 5) [exec (mix_minor40),
         exec (mix_minor41),
         exec (mix_minor66),
         call mix_major11 (\<lambda>pad _. pad ! 8)],
       exec (pad_add 0 (\<lambda>pad _. pad ! 14 OR 0x27c78ea)),
       exec (pad_sub 18 (\<lambda>_ seed. seed AND 0x6b2cc678)),
       exec (pad_ror 15 (\<lambda>pad _. pad ! 11 AND 0xa)),
       cond (branch = 4) [exec (mix_minor67),
         exec (mix_minor26),
         exec (mix_minor21),
         call mix_major22 (\<lambda>_ seed. seed)],
       exec (seed_xor (\<lambda>pad _. ROR (pad ! 18) 2)),
       exec (pad_add 10 (\<lambda>pad _. pad ! 15 * 0x42515298)),
       exec (pad_add 19 (\<lambda>pad _. pad ! 2 XOR 0x2a15668a)),
       cond (branch = 7) [exec (pad_rol 19 (\<lambda>_ _. 21)),
         exec (mix_minor30),
         exec (mix_minor58),
         call mix_major5 (\<lambda>pad _. pad ! 11)],
       exec (pad_sub 6 (\<lambda>_ seed. seed - 0xe28d6e07)),
       exec (pad_and 1 (\<lambda>pad _. pad ! 3 + 0x8a7848d)),
       exec (pad_mul 10 (\<lambda>pad _. pad ! 17 + 0xf76061aa)),
       cond (branch = 0) [exec (mix_minor29),
         exec (pad_xor 17 (\<lambda>_ _. 0x3d87b641)),
         exec (mix_minor60),
         call mix_major3 (\<lambda>pad _. pad ! 12)],
       exec (pad_add 6 (\<lambda>pad _. ROR (pad ! 1) 8)),
       exec (pad_mul 1 (\<lambda>pad _. pad ! 2 OR 0x16a41bdf)),
       cond (branch = 8) [exec (mix_minor68),
         exec (pad_add 9 (\<lambda>_ _. 0xb8c1b4ce)),
         exec (pad_xor 4 (\<lambda>_ _. 0x5c2840a0)),
         call mix_major14 (\<lambda>pad _. pad ! 3)],
       exec (pad_sub 0 (\<lambda>pad _. pad ! 4 - 0x21889c31)),
       exec (seed_mul (\<lambda>_ seed. seed XOR 0x14a9f943)),
       exec (pad_or 5 (\<lambda>pad _. pad ! 13 + 0x5c58f04e)),
       exec (pad_xor 19 (\<lambda>pad _. pad ! 14 + 0x49437c23)),
       cond (branch = 2) [exec (mix_minor22),
         exec (mix_minor30),
         exec (mix_minor29),
         call mix_major9 (\<lambda>pad _. pad ! 13)],
       exec (pad_or 9 (\<lambda>pad _. pad ! 6 XOR 0x360a1ff0)),
       exec (pad_and 13 (\<lambda>pad _. pad ! 14 * 0x810027b)),
       exec (seed_add (\<lambda>_ seed. seed + 0x3053624)),
       cond (branch = 3) [exec (mix_minor20),
         exec (mix_minor38),
         exec (mix_minor27),
         call mix_major10 (\<lambda>pad _. pad ! 17)],
       exec (seed_sub (\<lambda>pad _. pad ! 1 - 0xc7af02f5)),
       exec (seed_and (\<lambda>_ _. 0xc11a9b11)),
       exec (pad_xor 6 (\<lambda>pad _. pad ! 12 + 0xac2e6058)),
       exec (pad_xor 12 (\<lambda>pad _. pad ! 17 + 0xd87e9f50)),
       cond (branch = 10) [exec (mix_minor37),
         exec (mix_minor29),
         exec (mix_minor31),
         call mix_major2 (\<lambda>pad _. pad ! 6)],
       exec (pad_rol 9 (\<lambda>pad _. pad ! 7 XOR 0x1)),
       exec (seed_add (\<lambda>pad _. pad ! 14 XOR 0xff63c7c)),
       cond (branch = 9) [exec (pad_xor 14 (\<lambda>_ _. 0x491ed97d)),
         exec (mix_minor22),
         exec (mix_minor40),
         call mix_major7 (\<lambda>pad _. pad ! 5)],
       exec (pad_xor 9 (\<lambda>pad _. pad ! 6 XOR 0x132ee304)),
       exec (pad_mul 12 (\<lambda>pad _. pad ! 14 + 0x11e0a175)),
       exec (pad_sub 14 (\<lambda>_ seed. seed XOR 0x267e2568)),
       exec (pad_rol 0 (\<lambda>pad _. ROL (pad ! 3) 11)),
       exec (pad_xor 8 (\<lambda>pad _. pad ! 6 XOR 0xe173238)),
       exec (pad_mul 0 (\<lambda>pad _. pad ! 6 + 0xee9e5b6a)),
       exec (pad_or 9 (\<lambda>pad _. pad ! 15 * 0x1fe0f470)),
       exec (pad_rol 2 (\<lambda>pad _. pad ! 2 + 0x9)),
       exec (pad_xor 16 (\<lambda>pad _. pad ! 14 * 0x1b4bf87b)),
       exec (pad_and 16 (\<lambda>pad _. pad ! 10 + 0x2383020a)),
       exec (pad_add 15 (\<lambda>pad _. pad ! 7 + 0xeb32d6f9)),
       exec (pad_xor 15 (\<lambda>pad _. ROL (pad ! 16) 17)),
       exec (pad_add 16 (\<lambda>_ seed. seed OR 0x20914367))] pad seed)"

definition mix_major13 :: "u32 list \<Rightarrow> u32 \<Rightarrow> u32 list" where
  "mix_major13 pad seed =
    (let branch = ((pad ! 1 XOR pad ! 12) XOR pad ! 18) mod 11
     in run_body [
       exec (pad_mul 7 (\<lambda>_ seed. seed + 0xfd2296dd)),
       exec (seed_mul (\<lambda>pad _. pad ! 9 + 0x10ce1e6b)),
       exec (pad_or 13 (\<lambda>pad _. pad ! 14 AND 0xe7aa887)),
       cond (branch = 9) [exec (mix_minor61),
         exec (pad_add 3 (\<lambda>_ _. 0x1702840)),
         exec (mix_minor34),
         call mix_major4 (\<lambda>pad _. pad ! 15)],
       exec (pad_add 19 (\<lambda>pad _. pad ! 17 + 0x44864e65)),
       exec (pad_sub 2 (\<lambda>pad _. pad ! 10 - 0x456501d3)),
       exec (pad_xor 11 (\<lambda>pad _. pad ! 17 + 0xe91158ed)),
       cond (branch = 6) [exec (mix_minor41),
         exec (mix_minor46),
         exec (mix_minor27),
         call mix_major11 (\<lambda>pad _. pad ! 8)],
       exec (pad_sub 13 (\<lambda>_ seed. seed - 0xffeafe84)),
       exec (pad_xor 3 (\<lambda>pad _. pad ! 10 AND 0x5898bbff)),
       exec (seed_sub (\<lambda>pad _. pad ! 17 XOR 0xb4b5ddd)),
       exec (pad_and 5 (\<lambda>_ seed. seed + 0xf2a69347)),
       cond (branch = 7) [exec (pad_add 11 (\<lambda>_ _. 0x28b81)),
         exec (mix_minor55),
         exec (mix_minor38),
         call mix_major22 (\<lambda>pad _. pad ! 19)],
       exec (pad_add 8 (\<lambda>pad _. pad ! 11 + 0x35a3f082)),
       exec (pad_and 15 (\<lambda>_ seed. seed + 0xf0918e1c)),
       cond (branch = 8) [exec (pad_add 12 (\<lambda>_ _. 0x2180072)),
         exec (mix_minor48),
         exec (mix_minor39),
         call mix_major5 (\<lambda>_ seed. seed)],
       exec (seed_sub (\<lambda>pad _. pad ! 12 - 0x1e87b29e)),
       exec (seed_xor (\<lambda>pad _. pad ! 0 + 0x9b993250)),
       exec (pad_xor 13 (\<lambda>pad _. pad ! 17 * 0xb083b2b)),
       cond (branch = 5) [exec (mix_minor68),
         exec (mix_minor58),
         exec (mix_minor52),
         call mix_major3 (\<lambda>pad _. pad ! 14)],
       exec (pad_rol 1 (\<lambda>pad _. pad ! 0 XOR 0x1a)),
       exec (pad_xor 5 (\<lambda>pad _. pad ! 11 * 0x17321349)),
       exec (seed_xor (\<lambda>pad _. pad ! 3 + 0xffce689b)),
       exec (pad_mul 4 (\<lambda>_ seed. seed + 0x2570be6e)),
       cond (branch = 10) [exec (pad_sub 14 (\<lambda>_ _. 0xb271fe0e)),
         exec (mix_minor57),
         exec (mix_minor20),
         call mix_major14 (\<lambda>pad _. pad ! 6)],
       exec (pad_mul 15 (\<lambda>_ _. 0x2d42b937)),
       exec (pad_mul 4 (\<lambda>_ seed. seed + 0xf544478e)),
       exec (pad_add 0 (\<lambda>pad _. pad ! 9 XOR 0x4dc36a)),
       exec (pad_sub 0 (\<lambda>_ seed. seed - 0x10bb4f25)),
       cond (branch = 3) [exec (mix_minor39),
         exec (mix_minor26),
         exec (pad_add 0 (\<lambda>_ _. 0x8fc063b5)),
         call mix_major9 (\<lambda>pad _. pad ! 15)],
       exec (pad_and 19 (\<lambda>pad _. ROR (pad ! 3) 14)),
       exec (pad_mul 17 (\<lambda>_ seed. seed * 0x18575b09)),
       exec (pad_or 1 (\<lambda>_ seed. seed * 0x50ebe77)),
       exec (seed_add (\<lambda>pad _. pad ! 6 OR 0x4d24003d)),
       cond (branch = 4) [exec (pad_sub 14 (\<lambda>_ _. 0x3b677863)),
         exec (mix_minor29),
         exec (mix_minor22),
         call mix_major10 (\<lambda>pad _. pad ! 9)],
       exec (pad_and 15 (\<lambda>pad _. pad ! 0 + 0xf770857b)),
       exec (pad_ror 0 (\<lambda>_ seed. seed * 0xd)),
       exec (seed_sub (\<lambda>_ seed. seed OR 0x2576a843)),
       cond (branch = 0) [exec (mix_minor49),
         exec (mix_minor41),
         exec (pad_add 3 (\<lambda>_ _. 0x8306000)),
         call mix_major2 (\<lambda>pad _. pad ! 8)],
       exec (pad_add 1 (\<lambda>_ seed. seed * 0x2994c8c)),
       exec (pad_xor 16 (\<lambda>pad _. pad ! 6 + 0xfe25a480)),
       exec (pad_mul 3 (\<lambda>pad _. pad ! 11 * 0x1e333f7b)),
       exec (pad_ror 7 (\<lambda>pad _. pad ! 17 XOR 0x1a)),
       cond (branch = 2) [exec (mix_minor51),
         exec (pad_sub 8 (\<lambda>_ _. 0xfbb3cb07)),
         exec (pad_xor 4 (\<lambda>_ _. 0x214ff68b)),
         call mix_major7 (\<lambda>pad _. pad ! 1)],
       exec (pad_xor 13 (\<lambda>pad _. pad ! 18 + 0x149e5b40)),
       exec (pad_add 0 (\<lambda>pad _. pad ! 19 + 0x541a494)),
       cond (branch = 1) [exec (mix_minor38),
         exec (mix_minor28),
         exec (mix_minor50),
         call mix_major21 (\<lambda>_ seed. seed)],
       exec (pad_sub 2 (\<lambda>_ seed. seed - 0x16deeae)),
       exec (pad_sub 9 (\<lambda>pad _. pad ! 0 XOR 0x1120ce2d)),
       exec (pad_xor 13 (\<lambda>pad _. pad ! 7 XOR 0x2a74ac2a)),
       exec (pad_and 12 (\<lambda>pad _. pad ! 9 + 0xdab80c67)),
       exec (pad_sub 14 (\<lambda>_ seed. seed * 0x2776477)),
       exec (pad_sub 4 (\<lambda>pad _. pad ! 19 * 0x2f2e21d0)),
       exec (pad_sub 19 (\<lambda>pad _. pad ! 3 - 0xe78ae13d)),
       exec (seed_sub (\<lambda>_ seed. seed XOR 0x434c0d3a)),
       exec (seed_sub (\<lambda>pad _. pad ! 2 - 0x11f70706)),
       exec (seed_ror (\<lambda>pad _. pad ! 16 + 0x9)),
       exec (pad_add 13 (\<lambda>_ seed. seed * 0x2a0d21c3))] pad seed)"

definition mix_major24 :: "u32 list \<Rightarrow> u32 \<Rightarrow> u32 list" where
  "mix_major24 pad seed =
    (let branch = ((pad ! 17 XOR pad ! 8) XOR pad ! 10) mod 11
     in run_body [
       exec (seed_mul (\<lambda>pad _. pad ! 7)),
       exec (seed_xor (\<lambda>pad _. pad ! 0 XOR 0x13a77c41)),
       exec (pad_rol 2 (\<lambda>pad _. pad ! 3 + 0x10)),
       cond (branch = 1) [exec (mix_minor27),
         exec (mix_minor59),
         exec (mix_minor22),
         call mix_major11 (\<lambda>pad _. pad ! 12)],
       exec (seed_xor (\<lambda>_ seed. seed + 0xf4135aef)),
       exec (seed_rol (\<lambda>pad _. pad ! 6 + 0x9)),
       exec (pad_add 14 (\<lambda>pad _. ROL (pad ! 13) 25)),
       exec (pad_xor 16 (\<lambda>pad _. pad ! 8 + 0x19454e81)),
       cond (branch = 10) [exec (mix_minor63),
         exec (mix_minor32),
         exec (mix_minor29),
         call mix_major22 (\<lambda>pad _. pad ! 8)],
       exec (pad_mul 3 (\<lambda>_ seed. seed + 0xcb4ea17e)),
       exec (pad_rol 17 (\<lambda>pad _. pad ! 17 XOR 0x14)),
       exec (seed_sub (\<lambda>pad _. pad ! 11 * 0x2c0fd99b)),
       cond (branch = 3) [exec (mix_minor57),
         exec (mix_minor63),
         exec (mix_minor25),
         call mix_major5 (\<lambda>_ seed. seed)],
       exec (pad_add 12 (\<lambda>pad _. pad ! 19 + 0x7e55995)),
       exec (pad_sub 14 (\<lambda>pad _. pad ! 13 * 0x3dd1a491)),
       exec (pad_or 4 (\<lambda>pad _. pad ! 8 AND 0x162b97ec)),
       exec (pad_add 8 (\<lambda>pad _. pad ! 3 + 0xc3000fb6)),
       cond (branch = 6) [exec (mix_minor48),
         exec (pad_add 8 (\<lambda>_ _. 0x9cd4867c)),
         exec (pad_add 14 (\<lambda>_ _. 0x79cdbac7)),
         call mix_major3 (\<lambda>pad _. pad ! 9)],
       exec (pad_add 13 (\<lambda>pad _. pad ! 8 XOR 0x2a161224)),
       exec (pad_add 10 (\<lambda>pad _. pad ! 1 * 0xc693c6b)),
       exec (pad_mul 4 (\<lambda>pad _. pad ! 10 + 0xecde6b96)),
       cond (branch = 9) [exec (mix_minor40),
         exec (pad_rol 10 (\<lambda>_ _. 18)),
         exec (mix_minor40),
         call mix_major14 (\<lambda>pad _. pad ! 13)],
       exec (pad_mul 8 (\<lambda>pad _. ROR (pad ! 13) 25)),
       exec (pad_xor 17 (\<lambda>pad _. ROR (pad ! 14) 24)),
       exec (seed_and (\<lambda>pad _. pad ! 4 + 0x1c938114)),
       cond (branch = 2) [exec (pad_xor 4 (\<lambda>_ _. 0xc25fdd85)),
         exec (mix_minor42),
         exec (mix_minor27),
         call mix_major9 (\<lambda>_ seed. seed)],
       exec (pad_mul 0 (\<lambda>_ seed. seed + 0xc328858)),
       exec (seed_add (\<lambda>pad _. pad ! 15 OR 0x137d6d8)),
       exec (pad_sub 3 (\<lambda>pad _. pad ! 9 - 0xae4f0ae)),
       cond (branch = 0) [exec (mix_minor45),
         exec (mix_minor24),
         exec (mix_minor51),
         call mix_major10 (\<lambda>pad _. pad ! 3)],
       exec (seed_mul (\<lambda>pad _. pad ! 10 + 0xe55615)),
       exec (pad_or 15 (\<lambda>_ seed. seed OR 0x120d32e3)),
       exec (seed_rol (\<lambda>pad _. pad ! 15 XOR 0xc)),
       exec (pad_ror 6 (\<lambda>pad _. pad ! 7)),
       cond (branch = 7) [exec (mix_minor23),
         exec (mix_minor57),
         exec (mix_minor55),
         call mix_major2 (\<lambda>pad _. pad ! 17)],
       exec (pad_sub 3 (\<lambda>pad _. pad ! 4 OR 0x2587388f)),
       exec (pad_add 2 (\<lambda>pad _. pad ! 4 + 0xffda87c9)),
       exec (seed_sub (\<lambda>pad _. ROR (pad ! 2) 17)),
       exec (pad_add 1 (\<lambda>pad _. pad ! 6 * 0x34aabe3a)),
       cond (branch = 4) [exec (mix_minor30),
         exec (mix_minor46),
         exec (mix_minor57),
         call mix_major7 (\<lambda>pad _. pad ! 16)],
       exec (pad_xor 17 (\<lambda>pad _. pad ! 13 XOR 0x3d17e55a)),
       exec (pad_mul 15 (\<lambda>pad _. pad ! 14 + 0xdaf5121)),
       cond (branch = 5) [exec (mix_minor57),
         exec (mix_minor60),
         exec (mix_minor61),
         call mix_major21 (\<lambda>_ seed. seed)],
       exec (pad_rol 6 (\<lambda>pad _. pad ! 17 * 0x14)),
       exec (pad_add 6 (\<lambda>pad _. pad ! 15 XOR 0x14819516)),
       cond (branch = 8) [exec (pad_sub 8 (\<lambda>_ _. 0x7b22975e)),
         exec (mix_minor50),
         exec (mix_minor56),
         call mix_major13 (\<lambda>pad _. pad ! 5)],
       exec (pad_or 8 (\<lambda>pad _. pad ! 14 + 0xc735f228)),
       exec (pad_ror 7 (\<lambda>pad _. pad ! 17 + 0x1e)),
       exec (seed_mul (\<lambda>pad _. pad ! 10 * 0x340d3ff2)),
       exec (pad_mul 16 (\<lambda>pad _. pad ! 14 + 0x57a8d4b3)),
       exec (pad_sub 6 (\<lambda>pad _. pad ! 1 - 0x534be48e)),
       exec (pad_xor 2 (\<lambda>pad _. pad ! 9 * 0xd695251)),
       exec (pad_xor 12 (\<lambda>pad _. pad ! 7)),
       exec (pad_add 1 (\<lambda>pad _. pad ! 17 + 0xf022cb99)),
       exec (pad_add 4 (\<lambda>_ seed. seed OR 0x2954ac20)),
       exec (pad_mul 7 (\<lambda>_ seed. seed XOR 0x1b904466)),
       exec (pad_sub 2 (\<lambda>_ seed. seed * 0x31fef0e1))] pad seed)"

definition mix_major23 :: "u32 list \<Rightarrow> u32 \<Rightarrow> u32 list" where
  "mix_major23 pad seed =
    (let branch = seed mod 11
     in run_body [
       exec (seed_and (\<lambda>pad _. ROL (pad ! 5) 11)),
       exec (pad_sub 18 (\<lambda>_ seed. ROR seed 23)),
       exec (pad_add 19 (\<lambda>_ seed. seed + 0xb42a2f00)),
       cond (branch = 5) [exec (pad_xor 17 (\<lambda>_ _. 0x33db0465)),
         exec (mix_minor62),
         exec (mix_minor33),
         call mix_major22 (\<lambda>pad _. pad ! 2)],
       exec (pad_add 0 (\<lambda>pad _. pad ! 12 + 0x71507fd7)),
       exec (seed_add (\<lambda>pad _. pad ! 19 + 0x9a68096)),
       cond (branch = 6) [exec (mix_minor64),
         exec (mix_minor47),
         exec (mix_minor62),
         call mix_major5 (\<lambda>pad _. pad ! 10)],
       exec (pad_add 0 (\<lambda>pad _. pad ! 2 + 0x238788d8)),
       exec (pad_ror 3 (\<lambda>pad _. pad ! 15 + 0x16)),
       exec (pad_sub 10 (\<lambda>pad _. pad ! 9 - 0xdf1e2fab)),
       cond (branch = 3) [exec (mix_minor50),
         exec (pad_xor 4 (\<lambda>_ _. 0x3f348b71)),
         exec (mix_minor44),
         call mix_major3 (\<lambda>_ seed. seed)],
       exec (seed_xor (\<lambda>_ seed. ROL seed 27)),
       exec (seed_sub (\<lambda>pad _. ROR (pad ! 11) 23)),
       cond (branch = 7) [exec (mix_minor48),
         exec (mix_minor51),
         exec (pad_sub 3 (\<lambda>_ _. 0xf2da1eb7)),
         call mix_major14 (\<lambda>pad _. pad ! 15)],
       exec (pad_add 18 (\<lambda>pad _. pad ! 10 + 0x13ba6066)),
       exec (pad_sub 11 (\<lambda>pad _. pad ! 10 - 0xd44a337d)),
       exec (pad_and 17 (\<lambda>pad _. pad ! 3 + 0xad722336)),
       cond (branch = 4) [exec (pad_mul 3 (\<lambda>_ _. 0x1e952879)),
         exec (mix_minor55),
         exec (mix_minor52),
         call mix_major9 (\<lambda>pad _. pad ! 8)],
       exec (pad_sub 7 (\<lambda>_ seed. ROL seed 15)),
       exec (seed_or (\<lambda>pad _. pad ! 6 + 0x45d2e311)),
       exec (seed_xor (\<lambda>pad _. pad ! 7 + 0xd196f18f)),
       exec (pad_rol 7 (\<lambda>_ seed. seed XOR 0x8)),
       cond (branch = 8) [exec (mix_minor55),
         exec (mix_minor64),
         exec (pad_add 3 (\<lambda>_ _. 0x704000)),
         call mix_major10 (\<lambda>pad _. pad ! 13)],
       exec (pad_add 6 (\<lambda>pad _. pad ! 18 * 0x413db8c1)),
       exec (pad_xor 0 (\<lambda>pad _. pad ! 19 + 0x2be41642)),
       exec (pad_mul 4 (\<lambda>pad _. ROR (pad ! 9) 18)),
       cond (branch = 10) [exec (mix_minor26),
         exec (mix_minor47),
         exec (mix_minor59),
         call mix_major2 (\<lambda>_ seed. seed)],
       exec (seed_rol (\<lambda>pad _. pad ! 6 * 0x13)),
       exec (pad_mul 17 (\<lambda>pad _. pad ! 3 AND 0x9262077)),
       exec (pad_xor 13 (\<lambda>pad _. pad ! 14 + 0xfa8ae5a0)),
       cond (branch = 1) [exec (mix_minor65),
         exec (mix_minor21),
         exec (mix_minor24),
         call mix_major7 (\<lambda>pad _. pad ! 13)],
       exec (seed_ror (\<lambda>pad _. ROL (pad ! 2) 17)),
       exec (pad_sub 13 (\<lambda>pad _. pad ! 8 - 0xffd58fe8)),
       exec (pad_add 8 (\<lambda>pad _. pad ! 6 XOR 0x1d606322)),
       cond (branch = 9) [exec (mix_minor52),
         exec (mix_minor26),
         exec (pad_add 3 (\<lambda>_ _. 0x404840)),
         call mix_major21 (\<lambda>pad _. pad ! 10)],
       exec (pad_add 16 (\<lambda>pad _. pad ! 19 + 0xe3a240f7)),
       exec (seed_xor (\<lambda>pad _. ROR (pad ! 14) 3)),
       cond (branch = 0) [exec (mix_minor43),
         exec (pad_sub 3 (\<lambda>_ _. 0xa9fe8c6d)),
         exec (pad_add 0 (\<lambda>_ _. 0xe9a284bb)),
         call mix_major13 (\<lambda>pad _. pad ! 4)],
       exec (pad_xor 18 (\<lambda>pad _. pad ! 7 OR 0x196e1a4c)),
       exec (seed_add (\<lambda>pad _. pad ! 18 XOR 0xffcac8f)),
       exec (pad_xor 1 (\<lambda>pad _. pad ! 0 XOR 0xb09adec)),
       cond (branch = 2) [exec (mix_minor53),
         exec (mix_minor39),
         exec (mix_minor67),
         call mix_major24 (\<lambda>pad _. pad ! 11)],
       exec (pad_mul 14 (\<lambda>pad _. pad ! 2 + 0x328852b1)),
       exec (pad_xor 8 (\<lambda>pad _. pad ! 15 AND 0x1e0a37a)),
       exec (pad_mul 3 (\<lambda>_ seed. ROL seed 13)),
       exec (pad_xor 6 (\<lambda>pad _. pad ! 18 + 0xc9c48b38)),
       exec (pad_rol 2 (\<lambda>pad _. pad ! 14 + 0x1d)),
       exec (seed_xor (\<lambda>pad _. ROR (pad ! 10) 13)),
       exec (pad_xor 12 (\<lambda>pad _. pad ! 8 + 0xef774f5b)),
       exec (seed_ror (\<lambda>pad _. pad ! 14 + 0x3)),
       exec (seed_add (\<lambda>_ seed. seed XOR 0x58f00a07)),
       exec (pad_xor 9 (\<lambda>_ seed. seed XOR 0x5483deb2)),
       exec (pad_or 14 (\<lambda>pad _. pad ! 0 * 0x2c63f116)),
       exec (pad_add 3 (\<lambda>pad _. pad ! 10 XOR 0xa051af)),
       exec (seed_sub (\<lambda>pad _. pad ! 0 - 0xfdb247f0)),
       exec (pad_sub 2 (\<lambda>_ seed. seed - 0xf9432db1))] pad seed)"

definition mix_major1 :: "u32 list \<Rightarrow> u32 \<Rightarrow> u32 list" where
  "mix_major1 pad seed =
    (let branch = ((pad ! 6 XOR pad ! 9) XOR pad ! 12) mod 11
     in run_body [
       exec (pad_add 5 (\<lambda>pad _. pad ! 3 AND 0x24398ab)),
       exec (seed_add (\<lambda>pad _. (pad ! 3 - pad ! 18) + 0x45e6c9d4)),
       cond (branch = 2) [exec (mix_minor26),
         exec (mix_minor58),
         exec (mix_minor67),
         call mix_major5 (\<lambda>pad _. pad ! 19)],
       exec (seed_xor (\<lambda>pad _. pad ! 14 + 0xc0fd80ba)),
       exec (pad_sub 12 (\<lambda>pad _. pad ! 1 * 0xe99b672)),
       exec (pad_xor 15 (\<lambda>pad _. pad ! 0 + 0xca70bf60)),
       cond (branch = 1) [exec (pad_xor 4 (\<lambda>_ _. 0x15e7d1d6)),
         exec (mix_minor44),
         exec (mix_minor26),
         call mix_major3 (\<lambda>pad _. pad ! 11)],
       exec (seed_add (\<lambda>_ seed. seed XOR 0x17339c6)),
       exec (pad_add 15 (\<lambda>pad _. pad ! 7 * 0x15f0a011)),
       exec (pad_and 4 (\<lambda>pad _. pad ! 17 + 0x1b597286)),
       exec (pad_mul 17 (\<lambda>pad _. pad ! 15 AND 0x389e630b)),
       cond (branch = 3) [exec (mix_minor44),
         exec (mix_minor25),
         exec (mix_minor63),
         call mix_major14 (\<lambda>pad _. pad ! 3)],
       exec (pad_xor 18 (\<lambda>pad _. pad ! 19 XOR 0x31a138ce)),
       exec (pad_and 16 (\<lambda>_ seed. seed * 0x271fe1f1)),
       exec (pad_ror 7 (\<lambda>pad _. pad ! 16 XOR 0x9)),
       cond (branch = 5) [exec (pad_add 12 (\<lambda>_ _. 0x108440)),
         exec (pad_sub 14 (\<lambda>_ _. 0xf9b7e88d)),
         exec (mix_minor64),
         call mix_major9 (\<lambda>_ seed. seed)],
       exec (pad_mul 2 (\<lambda>pad _. ROR (pad ! 6) 31)),
       exec (seed_sub (\<lambda>pad _. pad ! 14 - 0xfee822a8)),
       exec (seed_mul (\<lambda>pad _. pad ! 5 * 0x9dfbe4)),
       exec (seed_add (\<lambda>pad _. pad ! 13 + 0xfd2ead2f)),
       cond (branch = 9) [exec (mix_minor60),
         exec (mix_minor42),
         exec (pad_add 14 (\<lambda>_ _. 0x723398ff)),
         call mix_major10 (\<lambda>pad _. pad ! 18)],
       exec (pad_add 7 (\<lambda>pad _. pad ! 17 + 0x2b29baf9)),
       exec (pad_ror 2 (\<lambda>pad _. ROL (pad ! 0) 25)),
       cond (branch = 6) [exec (mix_minor46),
         exec (pad_rol 19 (\<lambda>_ _. 18)),
         exec (mix_minor41),
         call mix_major2 (\<lambda>pad _. pad ! 4)],
       exec (pad_and 12 (\<lambda>pad _. pad ! 16 + 0x2223fa4b)),
       exec (seed_sub (\<lambda>pad _. pad ! 5 * 0x282f40d5)),
       exec (seed_and (\<lambda>pad _. ROR (pad ! 18) 16)),
       cond (branch = 8) [exec (mix_minor46),
         exec (pad_add 9 (\<lambda>_ _. 0xd0b27d9c)),
         exec (pad_rol 10 (\<lambda>_ _. 22)),
         call mix_major7 (\<lambda>_ seed. seed)],
       exec (pad_add 17 (\<lambda>pad _. pad ! 7 + 0xf9ac8515)),
       exec (pad_add 7 (\<lambda>pad _. pad ! 10 + 0xf9b69577)),
       cond (branch = 4) [exec (pad_mul 3 (\<lambda>_ _. 0x2da1cfcf)),
         exec (mix_minor54),
         exec (pad_add 12 (\<lambda>_ _. 0x80410)),
         call mix_major21 (\<lambda>pad _. pad ! 13)],
       exec (pad_add 7 (\<lambda>pad _. pad ! 13 XOR 0x6d56f7f)),
       exec (pad_sub 8 (\<lambda>_ seed. seed - 0x8c8d3d9c)),
       cond (branch = 7) [exec (mix_minor24),
         exec (mix_minor33),
         exec (mix_minor42),
         call mix_major13 (\<lambda>pad _. pad ! 4)],
       exec (pad_sub 5 (\<lambda>pad _. pad ! 12 - 0x4d2bd380)),
       exec (pad_sub 1 (\<lambda>_ seed. seed - 0xfcee8aad)),
       exec (pad_mul 18 (\<lambda>pad _. pad ! 1 * 0x696c0)),
       exec (pad_mul 8 (\<lambda>pad _. pad ! 4 + 0xdc2745dc)),
       cond (branch = 10) [exec (mix_minor58),
         exec (mix_minor25),
         exec (mix_minor36),
         call mix_major24 (\<lambda>pad _. pad ! 2)],
       exec (pad_xor 18 (\<lambda>pad _. pad ! 7 + 0xd9de0ed7)),
       exec (pad_ror 11 (\<lambda>pad _. pad ! 6 + 0x11)),
       exec (pad_add 19 (\<lambda>pad _. pad ! 18 + 0xb295dc)),
       cond (branch = 0) [exec (mix_minor41),
         exec (mix_minor30),
         exec (mix_minor64),
         call mix_major23 (\<lambda>_ seed. seed)],
       exec (pad_sub 15 (\<lambda>_ seed. seed OR 0x58eafd)),
       exec (pad_ror 5 (\<lambda>pad _. pad ! 12 * 0x6)),
       exec (pad_add 2 (\<lambda>pad _. pad ! 19 + 0xf42fd441)),
       exec (pad_mul 12 (\<lambda>pad _. pad ! 2 OR 0x10d913b8)),
       exec (pad_xor 1 (\<lambda>pad _. pad ! 11 + 0x2039d1f9)),
       exec (pad_add 15 (\<lambda>pad _. ROR (pad ! 2) 3)),
       exec (pad_add 11 (\<lambda>pad _. pad ! 1 + 0x55f96491)),
       exec (pad_mul 4 (\<lambda>pad _. pad ! 15 AND 0x864fe18)),
       exec (pad_mul 18 (\<lambda>pad _. pad ! 18 + 0xf5eb4571))] pad seed)"

definition mix_major0 :: "u32 list \<Rightarrow> u32 \<Rightarrow> u32 list" where
  "mix_major0 pad seed =
    (let branch = ((pad ! 15 XOR pad ! 19) XOR seed) mod 11
     in run_body [
       exec (pad_mul 6 (\<lambda>pad _. pad ! 8 * 0x1bb4a70d)),
       exec (pad_add 12 (\<lambda>pad _. pad ! 14 + 0xe087bd96)),
       exec (seed_and (\<lambda>pad _. pad ! 13 OR 0x39367989)),
       cond (branch = 7) [exec (mix_minor30),
         exec (mix_minor41),
         exec (mix_minor45),
         call mix_major3 (\<lambda>pad _. pad ! 19)],
       exec (pad_sub 14 (\<lambda>_ seed. ROR seed 31)),
       exec (pad_xor 8 (\<lambda>_ seed. seed AND 0x8e30c76)),
       exec (pad_mul 3 (\<lambda>pad _. pad ! 12 XOR 0xd05f635)),
       exec (pad_add 10 (\<lambda>pad _. pad ! 10 + 0xa92dc43a)),
       cond (branch = 0) [exec (pad_add 0 (\<lambda>_ _. 0xde3b3b9a)),
         exec (mix_minor46),
         exec (pad_add 3 (\<lambda>_ _. 0x8600800)),
         call mix_major14 (\<lambda>pad _. pad ! 5)],
       exec (seed_add (\<lambda>pad _. pad ! 17 + 0xff92b824)),
       exec (pad_add 1 (\<lambda>pad _. pad ! 3 XOR 0x62c448c0)),
       exec (pad_xor 8 (\<lambda>pad _. pad ! 3 XOR 0x43c25efd)),
       exec (pad_xor 9 (\<lambda>pad _. ROL (pad ! 9) 16)),
       cond (branch = 5) [exec (mix_minor53),
         exec (pad_add 3 (\<lambda>_ _. 0x8502040)),
         exec (mix_minor54),
         call mix_major9 (\<lambda>pad _. pad ! 5)],
       exec (pad_sub 3 (\<lambda>pad _. pad ! 2 - 0xef553b21)),
       exec (pad_add 18 (\<lambda>pad _. pad ! 13 + 0x3b26991e)),
       cond (branch = 4) [exec (mix_minor39),
         exec (mix_minor42),
         exec (mix_minor35),
         call mix_major10 (\<lambda>pad _. pad ! 7)],
       exec (pad_add 12 (\<lambda>pad _. pad ! 11 AND 0x4be050d)),
       exec (pad_xor 17 (\<lambda>_ seed. ROR seed 8)),
       exec (pad_ror 8 (\<lambda>pad _. pad ! 16 + 0x17)),
       exec (pad_mul 12 (\<lambda>pad _. pad ! 8 + 0xf3910fa)),
       cond (branch = 2) [exec (mix_minor58),
         exec (mix_minor59),
         exec (mix_minor38),
         call mix_major2 (\<lambda>_ seed. seed)],
       exec (pad_add 8 (\<lambda>_ seed. seed + 0x4088eb5f)),
       exec (pad_and 5 (\<lambda>pad _. pad ! 7 XOR 0x1387a250)),
       exec (pad_or 2 (\<lambda>pad _. pad ! 1 XOR 0x47f3a78b)),
       exec (pad_or 17 (\<lambda>pad _. pad ! 10 * 0x1d208465)),
       cond (branch = 1) [exec (mix_minor39),
         exec (mix_minor49),
         exec (mix_minor50),
         call mix_major7 (\<lambda>pad _. pad ! 9)],
       exec (pad_sub 1 (\<lambda>_ seed. seed AND 0x4be5deac)),
       exec (pad_add 4 (\<lambda>pad _. pad ! 15 AND 0x3496b61a)),
       cond (branch = 10) [exec (mix_minor55),
         exec (mix_minor61),
         exec (pad_add 8 (\<lambda>_ _. 0x82e5ca1)),
         call mix_major21 (\<lambda>pad _. pad ! 8)],
       exec (seed_ror (\<lambda>_ seed. seed * 0x10)),
       exec (pad_and 13 (\<lambda>pad _. pad ! 12 + 0x6b465da)),
       cond (branch = 3) [exec (mix_minor27),
         exec (pad_add 8 (\<lambda>_ _. 0x370c574)),
         exec (pad_add 0 (\<lambda>_ _. 0xc484fc90)),
         call mix_major13 (\<lambda>pad _. pad ! 11)],
       exec (pad_or 16 (\<lambda>pad _. pad ! 14 + 0xff7068bf)),
       exec (pad_and 7 (\<lambda>pad _. pad ! 19 XOR 0x1e569f2b)),
       exec (pad_add 12 (\<lambda>pad _. pad ! 15 * 0x49f90b6a)),
       cond (branch = 6) [exec (pad_xor 17 (\<lambda>_ _. 0x8ade6faa)),
         exec (mix_minor26),
         exec (mix_minor59),
         call mix_major24 (\<lambda>pad _. pad ! 7)],
       exec (pad_sub 6 (\<lambda>pad _. pad ! 18 * 0xb0223a7)),
       exec (pad_sub 19 (\<lambda>pad _. pad ! 4 * 0x4f4bc59)),
       exec (pad_add 17 (\<lambda>pad _. pad ! 3 + 0x19da7ccb)),
       exec (pad_sub 17 (\<lambda>_ seed. seed AND 0x3a423827)),
       cond (branch = 9) [exec (mix_minor67),
         exec (mix_minor29),
         exec (pad_add 3 (\<lambda>_ _. 0x506840)),
         call mix_major23 (\<lambda>_ seed. seed)],
       exec (seed_add (\<lambda>pad _. pad ! 11 + 0xea268d79)),
       exec (seed_xor (\<lambda>pad _. pad ! 11 + 0x7b41453)),
       cond (branch = 8) [exec (pad_add 11 (\<lambda>_ _. 0xe199e061)),
         exec (mix_minor34),
         exec (mix_minor30),
         call mix_major1 (\<lambda>_ seed. seed)],
       exec (pad_xor 0 (\<lambda>pad _. pad ! 2 XOR 0x361eddb9)),
       exec (pad_add 0 (\<lambda>_ seed. seed + 0xc3201c46)),
       exec (pad_ror 4 (\<lambda>pad _. pad ! 4 + 0x19)),
       exec (pad_mul 8 (\<lambda>pad _. pad ! 16 + 0xf6c0ea7)),
       exec (pad_ror 11 (\<lambda>pad _. pad ! 18 * 0x13)),
       exec (pad_or 2 (\<lambda>pad _. pad ! 4 OR 0x5747f7c)),
       exec (seed_xor (\<lambda>pad _. pad ! 3 * 0x336a3c4f)),
       exec (pad_xor 9 (\<lambda>pad _. pad ! 8 + 0x5ff3732)),
       exec (pad_xor 9 (\<lambda>_ seed. seed + 0x2b702a62)),
       exec (pad_mul 1 (\<lambda>pad _. pad ! 1 + 0xfa4e2f52))] pad seed)"

definition enc_type_2 :: "u32 list \<Rightarrow> u32 \<Rightarrow> u32 list" where
  "enc_type_2 key seed = mix_major0 key seed"

section \<open>Frames\<close>

lemma mix_major19_frame [frame_simps]: "fun_frame mix_major19"
  unfolding mix_major19_def [abs_def]
  by (rule fun_frame_plain) (simp_all add: frame_simps asg_defs minor_defs expr_frame_def nth_pad)

lemma mix_major20_frame [frame_simps]: "fun_frame mix_major20"
  unfolding mix_major20_def [abs_def]
  by (rule fun_frame_plain) (simp_all add: frame_simps asg_defs minor_defs expr_frame_def nth_pad)

lemma mix_major17_frame [frame_simps]: "fun_frame mix_major17"
  unfolding mix_major17_def [abs_def]
  by (rule fun_frame_branch) (simp_all add: frame_simps asg_defs minor_defs expr_frame_def nth_pad)

lemma mix_major16_frame [frame_simps]: "fun_frame mix_major16"
  unfolding mix_major16_def [abs_def]
  by (rule fun_frame_branch) (simp_all add: frame_simps asg_defs minor_defs expr_frame_def nth_pad)

lemma mix_major15_frame [frame_simps]: "fun_frame mix_major15"
  unfolding mix_major15_def [abs_def]
  by (rule fun_frame_branch) (simp_all add: frame_simps asg_defs minor_defs expr_frame_def nth_pad)

lemma mix_major8_frame [frame_simps]: "fun_frame mix_major8"
  unfolding mix_major8_def [abs_def]
  by (rule fun_frame_branch) (simp_all add: frame_simps asg_defs minor_defs expr_frame_def nth_pad)

lemma mix_major12_frame [frame_simps]: "fun_frame mix_major12"
  unfolding mix_major12_def [abs_def]
  by (rule fun_frame_branch) (simp_all add: frame_simps asg_defs minor_defs expr_frame_def nth_pad)

lemma mix_major18_frame [frame_simps]: "fun_frame mix_major18"
  unfolding mix_major18_def [abs_def]
  by (rule fun_frame_branch) (simp_all add: frame_simps asg_defs minor_defs expr_frame_def nth_pad)

lemma mix_major6_frame [frame_simps]: "fun_frame mix_major6"
  unfolding mix_major6_def [abs_def]
  by (rule fun_frame_branch) (simp_all add: frame_simps asg_defs minor_defs expr_frame_def nth_pad)

lemma mix_major4_frame [frame_simps]: "fun_frame mix_major4"
  unfolding mix_major4_def [abs_def]
  by (rule fun_frame_branch) (simp_all add: frame_simps asg_defs minor_defs expr_frame_def nth_pad)

lemma mix_major11_frame [frame_simps]: "fun_frame mix_major11"
  unfolding mix_major11_def [abs_def]
  by (rule fun_frame_branch) (simp_all add: frame_simps asg_defs minor_defs expr_frame_def nth_pad)

lemma mix_major22_frame [frame_simps]: "fun_frame mix_major22"
  unfolding mix_major22_def [abs_def]
  by (rule fun_frame_branch) (simp_all add: frame_simps asg_defs minor_defs expr_frame_def nth_pad)

lemma mix_major5_frame [frame_simps]: "fun_frame mix_major5"
  unfolding mix_major5_def [abs_def]
  by (rule fun_frame_branch) (simp_all add: frame_simps asg_defs minor_defs expr_frame_def nth_pad)

lemma mix_major3_frame [frame_simps]: "fun_frame mix_major3"
  unfolding mix_major3_def [abs_def]
  by (rule fun_frame_branch) (simp_all add: frame_simps asg_defs minor_defs expr_frame_def nth_pad)

lemma mix_major14_frame [frame_simps]: "fun_frame mix_major14"
  unfolding mix_major14_def [abs_def]
  by (rule fun_frame_branch) (simp_all add: frame_simps asg_defs minor_defs expr_frame_def nth_pad)

lemma mix_major9_frame [frame_simps]: "fun_frame mix_major9"
  unfolding mix_major9_def [abs_def]
  by (rule fun_frame_branch) (simp_all add: frame_simps asg_defs minor_defs expr_frame_def nth_pad)

lemma mix_major10_frame [frame_simps]: "fun_frame mix_major10"
  unfolding mix_major10_def [abs_def]
  by (rule fun_frame_branch) (simp_all add: frame_simps asg_defs minor_defs expr_frame_def nth_pad)

lemma mix_major2_frame [frame_simps]: "fun_frame mix_major2"
  unfolding mix_major2_def [abs_def]
  by (rule fun_frame_branch) (simp_all add: frame_simps asg_defs minor_defs expr_frame_def nth_pad)

lemma mix_major7_frame [frame_simps]: "fun_frame mix_major7"
  unfolding mix_major7_def [abs_def]
  by (rule fun_frame_branch) (simp_all add: frame_simps asg_defs minor_defs expr_frame_def nth_pad)

lemma mix_major21_frame [frame_simps]: "fun_frame mix_major21"
  unfolding mix_major21_def [abs_def]
  by (rule fun_frame_branch) (simp_all add: frame_simps asg_defs minor_defs expr_frame_def nth_pad)

lemma mix_major13_frame [frame_simps]: "fun_frame mix_major13"
  unfolding mix_major13_def [abs_def]
  by (rule fun_frame_branch) (simp_all add: frame_simps asg_defs minor_defs expr_frame_def nth_pad)

lemma mix_major24_frame [frame_simps]: "fun_frame mix_major24"
  unfolding mix_major24_def [abs_def]
  by (rule fun_frame_branch) (simp_all add: frame_simps asg_defs minor_defs expr_frame_def nth_pad)

lemma mix_major23_frame [frame_simps]: "fun_frame mix_major23"
  unfolding mix_major23_def [abs_def]
  by (rule fun_frame_branch) (simp_all add: frame_simps asg_defs minor_defs expr_frame_def nth_pad)

lemma mix_major1_frame [frame_simps]: "fun_frame mix_major1"
  unfolding mix_major1_def [abs_def]
  by (rule fun_frame_branch) (simp_all add: frame_simps asg_defs minor_defs expr_frame_def nth_pad)

lemma mix_major0_frame [frame_simps]: "fun_frame mix_major0"
  unfolding mix_major0_def [abs_def]
  by (rule fun_frame_branch) (simp_all add: frame_simps asg_defs minor_defs expr_frame_def nth_pad)

lemma enc_type_2_frame: "fun_frame enc_type_2"
  unfolding enc_type_2_def [abs_def] by (rule mix_major0_frame)

section \<open>Properties\<close>

text \<open>C38: Whatever the pad, the seed and the memory behind the pad, \<open>enc_type_2\<close> keeps the pad at
  20 words, reads nothing behind it and leaves what is behind it as it was: on every path
  through the branches no index leaves the pad.\<close>

theorem enc_type_2_in_bounds:
  assumes "length key = 20"
  shows "length (enc_type_2 key seed) = 20 \<and> enc_type_2 (key @ rest) seed = enc_type_2 key seed @ rest"
  using enc_type_2_frame assms by (simp add: fun_frame_def)

lemma enc_type_2_in_bounds_witness:
  "length (enc_type_2 (replicate 20 7) 3) = 20 \<and>
   enc_type_2 (replicate 20 7 @ [1, 2]) 3 = enc_type_2 (replicate 20 7) 3 @ [1, 2]"
  using enc_type_2_in_bounds [of "replicate 20 7" 3 "[1, 2]"] by simp

end
