(* ===== verification/FST_Enc20.thy ===== *)
theory FST_Enc20
  imports FST_Pad
begin

text \<open>
  The pad mixer of \<^verbatim>\<open>src/src/networks/fasttrack/enc_type_20.c\<close>: one definition per macro and
  per function, each statement of a function one element of its list. Every
  definition reads the pad and the seed as they are when the statement runs. The functions
  call each other without recursion, so they are defined callees first. Shown: the mixer
  reads and writes nothing but the 20 words of its pad.
\<close>

section \<open>The small steps\<close>

definition minor_1_e20 :: "(u32 list \<Rightarrow> u32 \<Rightarrow> u32) \<Rightarrow> asg" where
  "minor_1_e20 x = pad_add 8 (\<lambda>pad seed. if my_sin (ucast (x pad seed AND 255)) then 0x4f0cf8d else x pad seed)"

definition minor_2_e20 :: "(u32 list \<Rightarrow> u32 \<Rightarrow> u32) \<Rightarrow> asg" where
  "minor_2_e20 x = pad_add 2 (\<lambda>pad seed. if pad ! 2 < 0x36def3e1 then pad ! 2 else x pad seed)"

definition minor_3_e20 :: asg where
  "minor_3_e20 = pad_xor 10 (\<lambda>pad _. ROL (pad ! 1) 20)"

definition minor_4_e20 :: asg where
  "minor_4_e20 = pad_sub 16 (\<lambda>pad _. pad ! 6)"

definition minor_5_e20 :: asg where
  "minor_5_e20 = pad_sub 10 (\<lambda>pad _. pad ! 9 * 0x55)"

definition minor_6_e20 :: asg where
  "minor_6_e20 = pad_rol 0 (\<lambda>pad _. pad ! 19 XOR 0xc)"

definition minor_7_e20 :: asg where
  "minor_7_e20 = pad_add 17 (\<lambda>pad _. pad ! 8 * 0xf6084c92)"

definition minor_8_e20 :: asg where
  "minor_8_e20 = pad_xor 12 (\<lambda>pad _. pad ! 10 AND 0x28acec82)"

definition minor_9_e20 :: "(u32 list \<Rightarrow> u32 \<Rightarrow> u32) \<Rightarrow> asg" where
  "minor_9_e20 x = pad_mul 12 (\<lambda>pad seed. if pad ! 12 < 0x12d7bed then pad ! 12 else x pad seed)"

definition minor_10_e20 :: "(u32 list \<Rightarrow> u32 \<Rightarrow> u32) \<Rightarrow> asg" where
  "minor_10_e20 x = pad_add 18 (\<lambda>pad seed. if pad ! 5 < 0xfd0aa3f then pad ! 5 else x pad seed)"

definition minor_12_e20 :: "(u32 list \<Rightarrow> u32 \<Rightarrow> u32) \<Rightarrow> asg" where
  "minor_12_e20 x = pad_and 11 (\<lambda>pad seed. if my_cos (ucast (pad ! 18)) then 0x146a49cc else x pad seed)"

definition minor_13_e20 :: asg where
  "minor_13_e20 = pad_and 2 (\<lambda>pad _. if my_cos (ucast (pad ! 2)) then 0x7ebbfde else pad ! 11)"

definition minor_17_e20 :: asg where
  "minor_17_e20 = pad_xor 19 (\<lambda>pad _. pad ! 7 * 0x3a)"

definition minor_19_e20 :: asg where
  "minor_19_e20 = pad_rol 6 (\<lambda>pad _. ROR (pad ! 8) 14)"

definition minor_20_e20 :: asg where
  "minor_20_e20 = pad_and 0 (\<lambda>pad _. ROR (pad ! 18) 31)"

definition minor_22_e20 :: asg where
  "minor_22_e20 = pad_ror 3 (\<lambda>pad _. pad ! 11 XOR 0x7)"

definition minor_26_e20 :: asg where
  "minor_26_e20 = pad_or 0 (\<lambda>pad _. if my_cos (ucast (pad ! 1)) then 0x56e0e99 else pad ! 8)"

definition minor_27_e20 :: asg where
  "minor_27_e20 = pad_add 18 (\<lambda>pad _. if my_cos (ucast (pad ! 15)) then 0x10d11d00 else pad ! 9)"

definition minor_28_e20 :: asg where
  "minor_28_e20 = pad_sub 10 (\<lambda>pad _. if my_cos (ucast (pad ! 15)) then 0x268cca84 else pad ! 9)"

definition minor_29_e20 :: asg where
  "minor_29_e20 = pad_sub 3 (\<lambda>pad _. if my_cos (ucast (pad ! 6)) then 0x2031618a else pad ! 8)"

definition minor_30_e20 :: asg where
  "minor_30_e20 = pad_rol 1 (\<lambda>pad _. if my_sin (ucast (pad ! 5)) then 4 else pad ! 6)"

definition minor_31_e20 :: "(u32 list \<Rightarrow> u32 \<Rightarrow> u32) \<Rightarrow> asg" where
  "minor_31_e20 x = pad_ror 17 (\<lambda>pad seed. if my_sin (ucast (pad ! 6)) then 29 else x pad seed)"

definition minor_32_e20 :: "(u32 list \<Rightarrow> u32 \<Rightarrow> u32) \<Rightarrow> asg" where
  "minor_32_e20 x = pad_xor 15 (\<lambda>pad seed. if my_sin (ucast (pad ! 14)) then 0x40a33fd4 else x pad seed)"

definition minor_34_e20 :: asg where
  "minor_34_e20 = pad_xor 7 (\<lambda>pad _. my_sqrt (ucast (pad ! 11)))"

definition minor_35_e20 :: asg where
  "minor_35_e20 = pad_add 5 (\<lambda>pad _. my_sqrt (ucast (pad ! 7)))"

lemmas minor_defs_e20 = 
  minor_1_e20_def minor_2_e20_def minor_3_e20_def minor_4_e20_def minor_5_e20_def
  minor_6_e20_def minor_7_e20_def minor_8_e20_def minor_9_e20_def minor_10_e20_def
  minor_12_e20_def minor_13_e20_def minor_17_e20_def minor_19_e20_def minor_20_e20_def
  minor_22_e20_def minor_26_e20_def minor_27_e20_def minor_28_e20_def minor_29_e20_def
  minor_30_e20_def minor_31_e20_def minor_32_e20_def minor_34_e20_def minor_35_e20_def

section \<open>The mixing functions, callees first\<close>

definition minor_36_e20 :: "u32 list \<Rightarrow> u32 list" where
  "minor_36_e20 pad =
    run_body [
       exec (pad_xor 3 (\<lambda>pad _. pad ! 11 * 0xeef27425)),
       exec (pad_add 3 (\<lambda>pad _. my_sqrt (ucast (pad ! 0)))),
       exec (pad_mul 15 (\<lambda>pad _. pad ! 1 XOR 0xd89b4a)),
       exec (pad_ror 16 (\<lambda>pad _. pad ! 16 AND 0x11)),
       exec (pad_mul 18 (\<lambda>pad _. pad ! 19 + 0xa0d8c0cf)),
       exec (pad_mul 7 (\<lambda>pad _. if pad ! 0 < 0x6765080e then pad ! 0 else pad ! 18)),
       cond_st (\<lambda>pad seed. pad ! 5 < 0xe848f43c) [exec (pad_rol 9 (\<lambda>pad _. pad ! 5))],
       exec (pad_xor 2 (\<lambda>pad _. if pad ! 5 < 0xa0d8c0cf then pad ! 5 else pad ! 9 - 0xe848f43c)),
       exec (pad_rol 12 (\<lambda>pad _. ROL (pad ! 9 - 0xe848f43c) 11))] pad 0"

definition minor_37_e20 :: "u32 list \<Rightarrow> u32 list" where
  "minor_37_e20 pad =
    run_body [
       exec (pad_rol 2 (\<lambda>pad _. pad ! 7 + 0x1b)),
       exec (pad_xor 2 (\<lambda>pad _. pad ! 9 * 0x7941955)),
       exec (pad_sub 2 (\<lambda>_ _. 0x796fa0af)),
       exec (pad_mul 3 (\<lambda>pad _. if my_sin (ucast (pad ! 19)) then 0x5ea67f83 else pad ! 5)),
       exec (pad_sub 4 (\<lambda>pad _. pad ! 4 XOR 0x692c9ef9)),
       exec (pad_add 10 (\<lambda>pad _. pad ! 1 XOR 0xc43baf0b)),
       exec (pad_mul 12 (\<lambda>pad _. pad ! 7 - 0xc43baf0b)),
       exec (pad_xor 13 (\<lambda>_ _. 0xd)),
       exec (pad_xor 17 (\<lambda>pad _. pad ! 17 - 0x1259dbb)),
       exec (pad_ror 17 (\<lambda>_ _. 10)),
       exec (pad_add 18 (\<lambda>pad _. pad ! 0 XOR 0x3cf1856))] pad 0"

definition major_23_e20 :: "u32 list \<Rightarrow> u32 \<Rightarrow> u32 list" where
  "major_23_e20 pad seed =
    (let branch = seed AND 1
     in run_body [
       exec (pad_add 4 (\<lambda>pad _. pad ! 8 - 0x16f911e4)),
       exec (pad_xor 9 (\<lambda>pad _. pad ! 2 * 11)),
       exec (pad_xor 10 (\<lambda>pad _. if pad ! 7 < 0x402226f then pad ! 7 else pad ! 2)),
       exec (seed_or (\<lambda>pad _. pad ! 17 - 0x1e97aeb)),
       exec (seed_or (\<lambda>pad _. if pad ! 14 < 0xf3b1e0b3 then pad ! 14 else pad ! 5)),
       cond (branch = 0) [exec (pad_and 7 (\<lambda>pad _. pad ! 13 XOR 0x21aaf758)),
         exec (minor_32_e20 (\<lambda>_ _. 0x640f077d)),
         call1 minor_37_e20],
       exec (pad_sub 1 (\<lambda>pad _. pad ! 19 * 0x64)),
       exec (pad_add 1 (\<lambda>_ seed. seed - 0x18d1b90)),
       exec (pad_sub 7 (\<lambda>pad _. pad ! 3 XOR 0x44de1958)),
       exec (pad_xor 11 (\<lambda>pad _. ROL (pad ! 2) 9)),
       exec (pad_add 17 (\<lambda>pad _. ROL (pad ! 12) 27)),
       cond (branch = 0) [TRY (minor_9_e20 (\<lambda>_ _. 0xdc306f47)),
         exec (pad_xor 9 (\<lambda>pad _. pad ! 7 * 0x44)),
         call1 minor_36_e20],
       exec (pad_ror 7 (\<lambda>pad _. pad ! 13))] pad seed)"

definition major_24_e20 :: "u32 list \<Rightarrow> u32 \<Rightarrow> u32 list" where
  "major_24_e20 pad seed =
    (let branch = ((pad ! 2 XOR seed) XOR pad ! 7) mod 3
     in run_body [
       exec (seed_mul (\<lambda>_ seed. if my_cos (ucast seed) then 0x6be8f94 else seed)),
       exec (pad_xor 2 (\<lambda>pad _. pad ! 2 + 0x3786364b)),
       exec (pad_rol 17 (\<lambda>_ seed. seed - 0x10)),
       cond (branch = 0) [exec (minor_35_e20),
         exec (minor_27_e20),
         call1 minor_37_e20],
       exec (pad_add 5 (\<lambda>pad _. if my_sin (ucast (pad ! 16)) then 0x3af2a8e2 else pad ! 16)),
       cond (branch = 0) [TRY (minor_5_e20),
         exec (pad_mul 2 (\<lambda>pad _. pad ! 3 + 0xd6863a6)),
         call1 minor_36_e20],
       exec (pad_xor 13 (\<lambda>pad _. if my_cos (ucast (pad ! 16)) then 0xf6951daa else pad ! 1)),
       exec (pad_or 18 (\<lambda>pad _. pad ! 17 AND 0x6361a322)),
       cond (branch = 1) [exec (pad_mul 13 (\<lambda>pad _. (ROR (pad ! 3) 5) * 0xb25cb20f)),
         call major_23_e20 (\<lambda>pad _. pad ! 15)]] pad seed)"

definition major_19_e20 :: "u32 list \<Rightarrow> u32 \<Rightarrow> u32 list" where
  "major_19_e20 pad seed =
    (let branch = ((pad ! 18 XOR pad ! 6) XOR pad ! 15) AND 3
     in run_body [
       exec (seed_mul (\<lambda>pad _. pad ! 15 * 0x3c02927)),
       exec (seed_ror (\<lambda>_ seed. seed * 0x7)),
       cond (branch = 0) [exec (pad_add 12 (\<lambda>pad _. pad ! 6 XOR 0x211f5e40)),
         exec (pad_xor 9 (\<lambda>_ _. 0x6b4bfbe3)),
         call1 minor_37_e20],
       exec (seed_xor (\<lambda>pad _. pad ! 6 XOR 0xc1fcda0)),
       exec (pad_sub 5 (\<lambda>pad _. if my_cos (ucast (pad ! 6)) then 0xb9269bb0 else pad ! 10)),
       cond (branch = 0) [exec (pad_xor 9 (\<lambda>_ _. 0x703e6c86)),
         exec (pad_add 16 (\<lambda>_ _. 0xbb78136d)),
         call1 minor_36_e20],
       exec (seed_mul (\<lambda>pad _. pad ! 19 + 0x11500e47)),
       exec (pad_xor 3 (\<lambda>pad _. ROL (pad ! 4) 20)),
       cond (branch = 3) [exec (pad_xor 2 (\<lambda>pad _. push_bit 5 (pad ! 15))),
         exec (pad_xor 19 (\<lambda>pad _. pad ! 15 XOR 0x3574ed3)),
         call major_23_e20 (\<lambda>pad _. pad ! 15)],
       exec (pad_sub 13 (\<lambda>_ seed. my_sqrt (ucast seed))),
       exec (seed_ror (\<lambda>pad seed. if my_cos (ucast seed) then 7 else pad ! 10)),
       exec (pad_set 16 (\<lambda>pad _. (pad ! 15 * pad ! 16) * 0x4a)),
       cond (branch = 1) [exec (pad_xor 7 (\<lambda>_ _. 0xb3bb63f)),
         exec (pad_sub 4 (\<lambda>pad _. pad ! 17 XOR 0x2217cf47)),
         call major_24_e20 (\<lambda>_ seed. seed)]] pad seed)"

definition major_25_e20 :: "u32 list \<Rightarrow> u32 \<Rightarrow> u32 list" where
  "major_25_e20 pad seed =
    (let branch = ((pad ! 7 XOR pad ! 2) XOR seed) mod 5
     in run_body [
       exec (pad_sub 2 (\<lambda>_ seed. 0x31b8a51 AND seed)),
       cond (branch = 3) [exec (pad_xor 2 (\<lambda>pad _. if my_sin (ucast (pad ! 13)) then 0xfd08092 else pad ! 10)),
         exec (pad_and 9 (\<lambda>_ _. 0x49a7e0c7)),
         call1 minor_37_e20],
       exec (pad_and 1 (\<lambda>_ seed. ROR seed 29)),
       exec (pad_rol 12 (\<lambda>pad _. if my_cos (ucast (pad ! 1)) then 27 else pad ! 5)),
       cond (branch = 2) [TRY (minor_4_e20),
         exec (pad_xor 2 (\<lambda>pad _. if my_sin (ucast (pad ! 13)) then 0xfd08092 else pad ! 10)),
         call1 minor_36_e20],
       exec (seed_ror (\<lambda>_ seed. my_sqrt (ucast seed))),
       exec (seed_xor (\<lambda>_ seed. 0xc63d7671 * seed)),
       exec (pad_add 17 (\<lambda>pad _. pad ! 19 * 0x7a)),
       cond (branch = 0) [exec (pad_add 10 (\<lambda>_ _. 0x8958821)),
         exec (pad_mul 18 (\<lambda>pad _. pad ! 10 + 0x466e09cf)),
         call major_23_e20 (\<lambda>pad _. pad ! 10)],
       exec (pad_ror 18 (\<lambda>pad _. if my_cos (ucast (pad ! 6)) then 0x11 else pad ! 1)),
       cond (branch = 4) [TRY (minor_7_e20),
         exec (pad_xor 9 (\<lambda>_ _. 0x3480eee)),
         call major_24_e20 (\<lambda>_ seed. seed)],
       exec (pad_sub 10 (\<lambda>_ seed. my_sqrt (ucast seed))),
       exec (pad_and 11 (\<lambda>_ seed. seed * 0x3f)),
       cond (branch = 0) [exec (pad_mul 18 (\<lambda>pad _. pad ! 10 + 0x466e09cf)),
         exec (pad_mul 13 (\<lambda>_ _. 0x6ff7af6a)),
         call major_19_e20 (\<lambda>pad _. pad ! 17)],
       exec (pad_rol 1 (\<lambda>pad _. pad ! 15 + 0x19))] pad seed)"

definition major_17_e20 :: "u32 list \<Rightarrow> u32 \<Rightarrow> u32 list" where
  "major_17_e20 pad seed =
    (let branch = ((pad ! 8 XOR pad ! 7) XOR pad ! 12) mod 6
     in run_body [
       exec (pad_or 1 (\<lambda>pad _. pad ! 4 XOR 0x10104d4)),
       cond (branch = 3) [exec (minor_20_e20),
         exec (pad_ror 9 (\<lambda>_ _. 12)),
         call1 minor_37_e20],
       exec (seed_set (\<lambda>pad seed. (((seed XOR 0x1ea9da8) + seed) * pad ! 18) * 0xd)),
       cond (branch = 0) [TRY (minor_1_e20 (\<lambda>_ _. 0x10381ff0)),
         exec (pad_mul 2 (\<lambda>pad _. pad ! 3 + 0xd6863a6)),
         call1 minor_36_e20],
       exec (pad_add 14 (\<lambda>pad _. pad ! 12 * 0x19)),
       exec (pad_sub 2 (\<lambda>pad _. my_sqrt (ucast (pad ! 5)))),
       cond (branch = 4) [exec (pad_add 16 (\<lambda>_ _. 0x81063b22)),
         exec (pad_xor 9 (\<lambda>pad _. pad ! 7 * 0x44)),
         call major_23_e20 (\<lambda>_ seed. seed)],
       exec (pad_and 6 (\<lambda>pad _. pad ! 4 - 0x679dca37)),
       exec (pad_xor 1 (\<lambda>pad _. pad ! 16 + 0x988db31)),
       cond (branch = 0) [exec (pad_xor 7 (\<lambda>_ _. 0xa98896dd)),
         TRY (minor_3_e20),
         call major_24_e20 (\<lambda>pad _. pad ! 6)],
       exec (pad_add 6 (\<lambda>_ seed. ROR seed 10)),
       exec (seed_sub (\<lambda>pad _. if pad ! 0 < 0x29ea2cb6 then pad ! 0 else pad ! 3)),
       cond (branch = 2) [exec (minor_35_e20),
         exec (pad_xor 12 (\<lambda>pad _. pad ! 15 - 0xf5cfde0)),
         call major_19_e20 (\<lambda>_ seed. seed)],
       exec (seed_mul (\<lambda>_ seed. my_sqrt (ucast seed))),
       exec (pad_mul 5 (\<lambda>pad seed. if my_cos (ucast seed) then 0x211af3c8 else pad ! 19)),
       cond (branch = 5) [exec (minor_28_e20),
         exec (pad_mul 13 (\<lambda>_ _. 0xa02fe00)),
         call major_25_e20 (\<lambda>pad _. pad ! 13)]] pad seed)"

definition major_4_e20 :: "u32 list \<Rightarrow> u32 \<Rightarrow> u32 list" where
  "major_4_e20 pad seed =
    (let branch = pad ! 6 mod 7
     in run_body [
       exec (seed_xor (\<lambda>pad _. ROL (pad ! 3) 18)),
       cond (branch = 6) [exec (pad_add 6 (\<lambda>pad _. pad ! 19 - 0x3f5675d6)),
         TRY (minor_5_e20),
         call1 minor_37_e20],
       exec (pad_add 15 (\<lambda>_ seed. seed * 0x32)),
       exec (pad_add 5 (\<lambda>pad _. 0xc93495e4 - pad ! 14)),
       cond (branch = 2) [TRY (minor_10_e20 (\<lambda>_ _. 0x10db4a9d)),
         exec (pad_add 6 (\<lambda>pad _. 0xfe07af0e - pad ! 3)),
         call1 minor_36_e20],
       exec (pad_mul 12 (\<lambda>pad _. if my_cos (ucast (pad ! 14)) then 0xf5a79f2a else pad ! 17)),
       cond (branch = 0) [exec (minor_17_e20),
         exec (pad_or 9 (\<lambda>pad _. pad ! 7 XOR 0x2a19119f)),
         call major_23_e20 (\<lambda>pad _. pad ! 8)],
       exec (pad_and 6 (\<lambda>pad _. pad ! 7 OR 0xe02b5b1a)),
       exec (pad_xor 11 (\<lambda>pad seed. if my_cos (ucast (pad ! 0)) then 0x3a2c762b else seed)),
       cond (branch = 4) [TRY (minor_3_e20),
         TRY (pad_ror 1 (\<lambda>_ _. 0x1c)),
         call major_24_e20 (\<lambda>_ seed. seed)],
       exec (pad_sub 3 (\<lambda>pad _. my_sqrt (ucast (pad ! 9)))),
       cond (branch = 5) [exec (pad_xor 6 (\<lambda>_ _. 0x47a791f)),
         exec (pad_add 0 (\<lambda>pad _. pad ! 18 XOR 0x4ac16b8d)),
         call major_19_e20 (\<lambda>pad _. pad ! 18)],
       exec (seed_and (\<lambda>pad _. if my_cos (ucast (pad ! 7)) then 0xcdef2bf0 else pad ! 3)),
       exec (pad_sub 0 (\<lambda>pad _. pad ! 15 * 0x43)),
       cond (branch = 1) [exec (minor_19_e20),
         exec (pad_xor 6 (\<lambda>_ _. 0x424d4b7d)),
         call major_25_e20 (\<lambda>pad _. pad ! 3)],
       exec (pad_sub 1 (\<lambda>pad _. ROR (pad ! 18) 19)),
       exec (pad_xor 17 (\<lambda>pad _. if my_sin (ucast (pad ! 14)) then 0x69eaf2fd else pad ! 16)),
       cond (branch = 0) [exec (pad_sub 3 (\<lambda>pad _. pad ! 0 XOR 0x185f3b0d)),
         exec (pad_mul 2 (\<lambda>pad _. pad ! 3 + 0xd6863a6)),
         call major_17_e20 (\<lambda>pad _. pad ! 14)]] pad seed)"

definition major_18_e20 :: "u32 list \<Rightarrow> u32 \<Rightarrow> u32 list" where
  "major_18_e20 pad seed =
    (let branch = ((pad ! 14 XOR pad ! 11) XOR pad ! 17) AND 7
     in run_body [
       exec (pad_xor 11 (\<lambda>pad _. ROR (pad ! 13) 21)),
       cond (branch = 5) [exec (pad_add 6 (\<lambda>pad _. pad ! 19 - 0x3f5675d6)),
         exec (pad_xor 9 (\<lambda>_ _. 0x94d017f)),
         call1 minor_37_e20],
       exec (pad_ror 3 (\<lambda>pad _. pad ! 16 * 0xf)),
       cond (branch = 2) [exec (pad_add 5 (\<lambda>pad _. pad ! 0 XOR 0x3e17add3)),
         exec (minor_34_e20),
         call1 minor_36_e20],
       exec (pad_sub 11 (\<lambda>pad _. my_sqrt (ucast (pad ! 9)))),
       exec (pad_add 12 (\<lambda>pad _. 0x17267c5b - pad ! 11)),
       cond (branch = 3) [exec (minor_31_e20 (\<lambda>_ _. 0xb)),
         exec (pad_and 7 (\<lambda>pad _. pad ! 13 XOR 0x21aaf758)),
         call major_23_e20 (\<lambda>pad _. pad ! 0)],
       exec (pad_xor 17 (\<lambda>_ seed. seed XOR 0x35eddea4)),
       cond (branch = 0) [exec (pad_add 10 (\<lambda>_ _. 0x3409139c)),
         exec (pad_xor 19 (\<lambda>pad _. if my_cos (ucast (pad ! 9)) then 0x57337b8 else pad ! 14)),
         call major_24_e20 (\<lambda>pad _. pad ! 6)],
       exec (pad_mul 6 (\<lambda>pad _. pad ! 17 + 0xb89b51c)),
       cond (branch = 1) [exec (pad_add 6 (\<lambda>pad _. 0xfe07af0e - pad ! 3)),
         TRY (minor_2_e20 (\<lambda>_ _. 0x90254266)),
         call major_19_e20 (\<lambda>pad _. pad ! 6)],
       exec (pad_xor 19 (\<lambda>pad _. if pad ! 3 < 0x5755f00e then pad ! 3 else pad ! 1)),
       exec (pad_xor 15 (\<lambda>pad _. pad ! 12 * 0x17)),
       cond (branch = 7) [exec (pad_mul 13 (\<lambda>pad _. ROR (pad ! 3) 5)),
         exec (pad_mul 13 (\<lambda>pad _. ROR (pad ! 3) 5)),
         call major_25_e20 (\<lambda>pad _. pad ! 9)],
       exec (pad_add 10 (\<lambda>_ seed. 0x395f1d29 - seed)),
       cond (branch = 0) [exec (pad_add 12 (\<lambda>_ _. 0x2272516f)),
         exec (pad_mul 13 (\<lambda>_ _. 0x48e3e7ac)),
         call major_17_e20 (\<lambda>pad _. pad ! 16)],
       exec (pad_rol 1 (\<lambda>pad _. ROL (pad ! 8) 20)),
       exec (seed_sub (\<lambda>pad _. pad ! 9 XOR 0xc9c0bd95)),
       cond (branch = 6) [TRY (minor_2_e20 (\<lambda>_ _. 0x10b4eaef)),
         exec (pad_add 12 (\<lambda>_ _. 0x222fe8f5)),
         call major_4_e20 (\<lambda>_ seed. seed)],
       exec (pad_rol 18 (\<lambda>pad _. pad ! 7 AND 0x11))] pad seed)"

definition major_15_e20 :: "u32 list \<Rightarrow> u32 \<Rightarrow> u32 list" where
  "major_15_e20 pad seed =
    (let branch = ((pad ! 17 XOR seed) XOR pad ! 19) mod 9
     in run_body [
       exec (pad_ror 19 (\<lambda>pad _. pad ! 19 + 0xa)),
       cond (branch = 4) [exec (minor_19_e20),
         exec (pad_xor 6 (\<lambda>_ _. 0xf4c1a1c8)),
         call1 minor_37_e20],
       exec (pad_xor 5 (\<lambda>_ seed. seed + 0x1ff8749d)),
       cond (branch = 5) [exec (pad_ror 4 (\<lambda>_ _. 0x19)),
         exec (pad_add 9 (\<lambda>pad _. ROL (pad ! 4) 9)),
         call1 minor_36_e20],
       exec (pad_xor 13 (\<lambda>pad _. pad ! 15 + 0x19ad9d3)),
       cond (branch = 0) [exec (pad_or 14 (\<lambda>pad _. pad ! 3 XOR 0x4345732)),
         exec (minor_26_e20),
         call major_23_e20 (\<lambda>pad _. pad ! 13)],
       exec (pad_ror 3 (\<lambda>pad _. my_sqrt (ucast (pad ! 9)))),
       cond (branch = 1) [exec (pad_add 16 (\<lambda>_ _. 0x188ae78f)),
         exec (pad_xor 2 (\<lambda>pad _. push_bit 5 (pad ! 15))),
         call major_24_e20 (\<lambda>pad _. pad ! 12)],
       exec (seed_xor (\<lambda>pad _. pad ! 12 XOR 0x82494ea7)),
       cond (branch = 0) [exec (pad_or 14 (\<lambda>pad _. pad ! 3 XOR 0x4345732)),
         exec (pad_and 7 (\<lambda>_ _. 0x97ea531)),
         call major_19_e20 (\<lambda>pad _. pad ! 6)],
       exec (pad_rol 0 (\<lambda>_ seed. 0x82494ea7 AND seed)),
       cond (branch = 7) [exec (minor_20_e20),
         TRY (minor_9_e20 (\<lambda>_ _. 0xd3d79cb4)),
         call major_25_e20 (\<lambda>pad _. pad ! 6)],
       exec (pad_xor 18 (\<lambda>pad _. pad ! 9 - 0x5606038)),
       cond (branch = 3) [exec (pad_add 13 (\<lambda>pad _. if pad ! 15 < 0x137bffeb then pad ! 15 else pad ! 11)),
         exec (pad_add 16 (\<lambda>_ _. 0x6a07a3d0)),
         call major_17_e20 (\<lambda>pad _. pad ! 8)],
       exec (pad_or 9 (\<lambda>pad _. if my_sin (ucast (pad ! 7)) then 0x3ec62d23 else pad ! 6)),
       cond (branch = 2) [exec (pad_mul 18 (\<lambda>pad _. pad ! 10 + 0x466e09cf)),
         TRY (minor_6_e20),
         call major_4_e20 (\<lambda>pad _. pad ! 1)],
       cond (branch = 6) [exec (minor_27_e20),
         exec (minor_22_e20),
         call major_18_e20 (\<lambda>pad _. pad ! 0)]] pad seed)"

definition major_3_e20 :: "u32 list \<Rightarrow> u32 \<Rightarrow> u32 list" where
  "major_3_e20 pad seed =
    (let branch = ((pad ! 5 XOR seed) XOR pad ! 12) mod 10
     in run_body [
       exec (seed_mul (\<lambda>pad _. pad ! 6 OR 0x4723b25)),
       cond (branch = 0) [exec (minor_22_e20),
         TRY (minor_5_e20),
         call1 minor_37_e20],
       exec (pad_sub 2 (\<lambda>pad _. pad ! 4 * 0xd)),
       cond (branch = 5) [exec (pad_xor 7 (\<lambda>_ _. 0x414517ea)),
         exec (minor_29_e20),
         call1 minor_36_e20],
       exec (seed_add (\<lambda>pad _. pad ! 12 * 0x19)),
       cond (branch = 1) [exec (pad_add 13 (\<lambda>pad _. if pad ! 15 < 0x137bffeb then pad ! 15 else pad ! 11)),
         exec (minor_19_e20),
         call major_23_e20 (\<lambda>_ seed. seed)],
       exec (seed_add (\<lambda>pad _. pad ! 7 + 0xbd42ff0)),
       cond (branch = 2) [exec (minor_29_e20),
         exec (pad_add 16 (\<lambda>_ _. 0x1f5b0c59)),
         call major_24_e20 (\<lambda>_ seed. seed)],
       exec (pad_sub 15 (\<lambda>pad _. pad ! 0 XOR 0x16bee8c4)),
       cond (branch = 4) [TRY (minor_7_e20),
         exec (minor_28_e20),
         call major_19_e20 (\<lambda>_ seed. seed)],
       exec (pad_xor 18 (\<lambda>pad _. pad ! 11 + 0x9fd1847f)),
       cond (branch = 6) [exec (pad_add 6 (\<lambda>pad _. pad ! 19 - 0x3f5675d6)),
         exec (pad_add 6 (\<lambda>pad _. pad ! 19 - 0x3f5675d6)),
         call major_25_e20 (\<lambda>_ seed. seed)],
       exec (pad_rol 14 (\<lambda>pad _. pad ! 19)),
       cond (branch = 8) [exec (minor_30_e20),
         exec (pad_add 12 (\<lambda>pad _. pad ! 6 + 0x21d7bf61)),
         call major_17_e20 (\<lambda>_ seed. seed)],
       exec (pad_ror 0 (\<lambda>pad _. pad ! 13 * 0x13)),
       cond (branch = 9) [TRY (minor_2_e20 (\<lambda>_ _. 0x70da1d6f)),
         exec (minor_29_e20),
         call major_4_e20 (\<lambda>_ seed. seed)],
       cond (branch = 7) [exec (minor_22_e20),
         TRY (minor_3_e20),
         call major_18_e20 (\<lambda>pad _. pad ! 5)],
       cond (branch = 3) [exec (minor_17_e20),
         exec (pad_xor 2 (\<lambda>pad _. push_bit 5 (pad ! 15))),
         call major_15_e20 (\<lambda>pad _. pad ! 19)]] pad seed)"

definition major_21_e20 :: "u32 list \<Rightarrow> u32 \<Rightarrow> u32 list" where
  "major_21_e20 pad seed =
    (let branch = ((pad ! 1 XOR pad ! 0) XOR pad ! 16) mod 11
     in run_body [
       cond (branch = 2) [exec (pad_mul 2 (\<lambda>pad _. pad ! 3 + 0xd6863a6)),
         exec (pad_xor 12 (\<lambda>pad _. pad ! 15 - 0xf5cfde0)),
         call1 minor_37_e20],
       exec (pad_sub 5 (\<lambda>_ seed. seed)),
       cond (branch = 8) [exec (pad_add 16 (\<lambda>_ _. 0x2b058ae8)),
         exec (pad_add 6 (\<lambda>pad _. 0xfe07af0e - pad ! 3)),
         call1 minor_36_e20],
       exec (pad_xor 17 (\<lambda>pad _. ROL (pad ! 18) 28)),
       cond (branch = 4) [exec (pad_mul 2 (\<lambda>pad _. pad ! 3 + 0xd6863a6)),
         exec (minor_32_e20 (\<lambda>_ _. 0x79fb5201)),
         call major_23_e20 (\<lambda>pad _. pad ! 7)],
       exec (pad_xor 0 (\<lambda>pad _. my_sqrt (ucast (pad ! 12)))),
       cond (branch = 0) [exec (pad_xor 19 (\<lambda>pad _. pad ! 15 XOR 0x3574ed3)),
         TRY (minor_5_e20),
         call major_24_e20 (\<lambda>pad _. pad ! 2)],
       exec (pad_xor 10 (\<lambda>_ seed. seed * 0x6c)),
       cond (branch = 9) [exec (pad_xor 2 (\<lambda>pad _. if my_sin (ucast (pad ! 13)) then 0xfd08092 else pad ! 10)),
         exec (minor_32_e20 (\<lambda>_ _. 0x6ddf8c10)),
         call major_19_e20 (\<lambda>pad _. pad ! 10)],
       exec (pad_sub 8 (\<lambda>pad seed. if my_cos (ucast (pad ! 12)) then 0x8759908e else seed)),
       cond (branch = 7) [exec (minor_19_e20),
         exec (minor_29_e20),
         call major_25_e20 (\<lambda>pad _. pad ! 1)],
       exec (seed_xor (\<lambda>pad seed. if my_sin (ucast seed) then 0x2c99fade else pad ! 14)),
       cond (branch = 1) [TRY (minor_12_e20 (\<lambda>_ _. 0x3fcf3163)),
         exec (pad_xor 9 (\<lambda>pad _. pad ! 7 * 0x44)),
         call major_17_e20 (\<lambda>_ seed. seed)],
       exec (pad_add 15 (\<lambda>pad seed. if my_cos (ucast (pad ! 11)) then 0x1bec01f else seed)),
       cond (branch = 5) [exec (pad_mul 13 (\<lambda>_ _. 0x1bd5157f)),
         exec (pad_add 6 (\<lambda>pad _. pad ! 19 - 0x3f5675d6)),
         call major_4_e20 (\<lambda>pad _. pad ! 15)],
       exec (pad_ror 1 (\<lambda>pad _. 0x80d9edac * pad ! 16)),
       cond (branch = 0) [TRY (minor_10_e20 (\<lambda>_ _. 0xfde30e03)),
         exec (pad_or 9 (\<lambda>pad _. pad ! 7 XOR 0x2a19119f)),
         call major_18_e20 (\<lambda>_ seed. seed)],
       exec (pad_and 7 (\<lambda>pad _. pad ! 15 * 0xa8f285)),
       cond (branch = 10) [exec (pad_xor 7 (\<lambda>_ _. 0xef011757)),
         exec (pad_ror 9 (\<lambda>_ _. 9)),
         call major_15_e20 (\<lambda>pad _. pad ! 13)],
       cond (branch = 3) [exec (pad_add 12 (\<lambda>pad _. pad ! 6 + 0x21d7bf61)),
         exec (pad_add 6 (\<lambda>pad _. pad ! 19 - 0x3f5675d6)),
         call major_3_e20 (\<lambda>pad _. pad ! 10)],
       exec (pad_mul 3 (\<lambda>pad _. if my_sin (ucast (pad ! 8)) then 0x5b51fb19 else pad ! 2)),
       cond (branch = 6) [exec (pad_add 9 (\<lambda>pad _. ROL (pad ! 4) 9)),
         exec (minor_22_e20),
         call1 minor_37_e20],
       exec (pad_xor 11 (\<lambda>pad _. pad ! 17 * 0x44))] pad seed)"

definition major_16_e20 :: "u32 list \<Rightarrow> u32 \<Rightarrow> u32 list" where
  "major_16_e20 pad seed =
    (let branch = ((pad ! 11 XOR seed) XOR pad ! 5) mod 12
     in run_body [
       cond (branch = 5) [exec (pad_mul 2 (\<lambda>pad _. pad ! 3 + 0xd6863a6)),
         exec (minor_22_e20),
         call1 minor_37_e20],
       exec (pad_xor 4 (\<lambda>_ seed. seed - 0xafd4eac)),
       cond (branch = 2) [TRY (minor_5_e20),
         exec (pad_add 0 (\<lambda>pad _. pad ! 18 XOR 0x4ac16b8d)),
         call1 minor_36_e20],
       exec (pad_sub 15 (\<lambda>_ seed. 0xafd4eac XOR seed)),
       cond (branch = 0) [TRY (minor_2_e20 (\<lambda>_ _. 0x80e3e69e)),
         exec (pad_ror 9 (\<lambda>_ _. 12)),
         call major_23_e20 (\<lambda>pad _. pad ! 4)],
       exec (pad_xor 8 (\<lambda>pad _. my_sqrt (ucast (pad ! 16)))),
       cond (branch = 3) [exec (pad_xor 9 (\<lambda>_ _. 0x8e61a4f)),
         exec (pad_sub 13 (\<lambda>pad _. pad ! 1)),
         call major_24_e20 (\<lambda>_ seed. seed)],
       cond (branch = 10) [exec (pad_add 6 (\<lambda>pad _. pad ! 19 - 0x3f5675d6)),
         exec (pad_mul 13 (\<lambda>_ _. 0xa02fe00)),
         call major_19_e20 (\<lambda>pad _. pad ! 6)],
       cond (branch = 4) [TRY (minor_8_e20),
         TRY (minor_5_e20),
         call major_25_e20 (\<lambda>pad _. pad ! 0)],
       exec (pad_xor 8 (\<lambda>pad _. pad ! 15 * 0x5f)),
       cond (branch = 0) [exec (minor_32_e20 (\<lambda>_ _. 0x6191efec)),
         exec (pad_add 13 (\<lambda>pad _. if pad ! 15 < 0x137bffeb then pad ! 15 else pad ! 11)),
         call major_17_e20 (\<lambda>pad _. pad ! 9)],
       exec (seed_sub (\<lambda>_ seed. seed AND 0x179da692)),
       exec (pad_and 6 (\<lambda>pad seed. if my_sin (ucast seed) then 0xcc35b823 else pad ! 14)),
       cond (branch = 9) [exec (pad_add 6 (\<lambda>pad _. 0xfe07af0e - pad ! 3)),
         exec (pad_add 0 (\<lambda>pad _. pad ! 18 XOR 0x4ac16b8d)),
         call major_4_e20 (\<lambda>pad _. pad ! 0)],
       cond (branch = 6) [exec (pad_or 7 (\<lambda>_ _. 0xa885099)),
         exec (pad_xor 9 (\<lambda>_ _. 0xdd34e6b)),
         call major_18_e20 (\<lambda>_ seed. seed)],
       cond (branch = 7) [exec (pad_add 12 (\<lambda>_ _. 0x5e6f4861)),
         exec (pad_sub 18 (\<lambda>pad _. pad ! 13 XOR 0x154abcdf)),
         call major_15_e20 (\<lambda>pad _. pad ! 14)],
       exec (pad_add 10 (\<lambda>pad _. pad ! 1 + 0x217f7a00)),
       cond (branch = 1) [exec (pad_add 0 (\<lambda>pad _. pad ! 18 XOR 0x4ac16b8d)),
         exec (minor_27_e20),
         call major_3_e20 (\<lambda>pad _. pad ! 17)],
       exec (pad_and 5 (\<lambda>pad _. ROR (pad ! 0) 14)),
       cond (branch = 8) [exec (pad_mul 2 (\<lambda>pad _. pad ! 3 + 0xd6863a6)),
         exec (pad_xor 9 (\<lambda>pad _. pad ! 7 * 0x44)),
         call major_21_e20 (\<lambda>pad _. pad ! 13)],
       cond (branch = 11) [exec (minor_30_e20),
         exec (pad_add 13 (\<lambda>pad _. if pad ! 15 < 0x137bffeb then pad ! 15 else pad ! 11)),
         call1 minor_37_e20],
       exec (pad_or 12 (\<lambda>pad _. ROL (pad ! 7) 14))] pad seed)"

definition major_1_e20 :: "u32 list \<Rightarrow> u32 \<Rightarrow> u32 list" where
  "major_1_e20 pad seed =
    (let branch = ((pad ! 17 XOR pad ! 4) XOR pad ! 13) mod 13
     in run_body [
       cond (branch = 9) [exec (pad_or 7 (\<lambda>_ _. 0x3e73450d)),
         exec (minor_31_e20 (\<lambda>_ _. 0x9)),
         call1 minor_36_e20],
       exec (pad_and 11 (\<lambda>pad _. pad ! 19 AND 0x170b54ed)),
       cond (branch = 10) [exec (pad_xor 12 (\<lambda>pad _. pad ! 15 - 0xf5cfde0)),
         exec (minor_27_e20),
         call major_23_e20 (\<lambda>pad _. pad ! 8)],
       exec (pad_ror 1 (\<lambda>pad _. if pad ! 14 < 0x164d8d96 then pad ! 14 else pad ! 4)),
       cond (branch = 12) [TRY (minor_1_e20 (\<lambda>_ _. 0xc0948cf0)),
         exec (minor_28_e20),
         call major_24_e20 (\<lambda>pad _. pad ! 18)],
       cond (branch = 0) [exec (pad_xor 12 (\<lambda>pad _. pad ! 15 - 0xf5cfde0)),
         exec (minor_31_e20 (\<lambda>_ _. 0x15)),
         call major_19_e20 (\<lambda>pad _. pad ! 12)],
       exec (pad_rol 6 (\<lambda>pad _. pad ! 13 XOR 0x2)),
       cond (branch = 6) [TRY (pad_ror 1 (\<lambda>_ _. 0x4)),
         exec (pad_xor 9 (\<lambda>pad _. pad ! 7 * 0x44)),
         call major_25_e20 (\<lambda>_ seed. seed)],
       cond (branch = 3) [exec (pad_xor 2 (\<lambda>pad _. if my_sin (ucast (pad ! 13)) then 0xfd08092 else pad ! 10)),
         exec (pad_mul 13 (\<lambda>pad _. ROR (pad ! 3) 5)),
         call major_17_e20 (\<lambda>pad _. pad ! 15)],
       cond (branch = 0) [exec (minor_19_e20),
         exec (pad_mul 13 (\<lambda>pad _. ROR (pad ! 3) 5)),
         call major_4_e20 (\<lambda>pad _. pad ! 8)],
       exec (seed_add (\<lambda>_ seed. if my_sin (ucast seed) then 0x160df35d else seed)),
       exec (seed_and (\<lambda>pad _. pad ! 19 OR 0xe00682c6)),
       cond (branch = 1) [exec (pad_and 7 (\<lambda>pad _. pad ! 13 XOR 0x21aaf758)),
         exec (pad_or 9 (\<lambda>pad _. pad ! 7 XOR 0x2a19119f)),
         call major_18_e20 (\<lambda>pad _. pad ! 12)],
       exec (pad_add 16 (\<lambda>pad seed. if my_sin (ucast seed) then 0xe00682c6 else pad ! 7)),
       cond (branch = 2) [exec (pad_add 13 (\<lambda>pad _. if pad ! 15 < 0x137bffeb then pad ! 15 else pad ! 11)),
         exec (pad_xor 19 (\<lambda>pad _. if my_cos (ucast (pad ! 9)) then 0x57337b8 else pad ! 14)),
         call major_15_e20 (\<lambda>_ seed. seed)],
       cond (branch = 7) [exec (pad_sub 4 (\<lambda>pad _. pad ! 17 XOR 0x2217cf47)),
         exec (pad_mul 13 (\<lambda>pad _. ROR (pad ! 3) 5)),
         call major_3_e20 (\<lambda>pad _. pad ! 14)],
       cond (branch = 4) [exec (pad_xor 19 (\<lambda>pad _. if my_cos (ucast (pad ! 9)) then 0x57337b8 else pad ! 14)),
         exec (minor_34_e20),
         call major_21_e20 (\<lambda>pad _. pad ! 18)],
       exec (pad_mul 5 (\<lambda>pad _. my_sqrt (ucast (pad ! 9)))),
       cond (branch = 11) [exec (pad_ror 4 (\<lambda>_ _. 0x2)),
         exec (minor_32_e20 (\<lambda>_ _. 0x8517ae30)),
         call major_16_e20 (\<lambda>pad _. pad ! 4)],
       exec (pad_and 13 (\<lambda>pad _. pad ! 18 - 0xeb6dee4)),
       cond (branch = 5) [exec (minor_30_e20),
         TRY (minor_3_e20),
         call1 minor_36_e20],
       cond (branch = 8) [exec (pad_or 7 (\<lambda>_ _. 0x7de964ed)),
         TRY (minor_4_e20),
         call major_23_e20 (\<lambda>pad _. pad ! 3)]] pad seed)"

definition major_14_e20 :: "u32 list \<Rightarrow> u32 \<Rightarrow> u32 list" where
  "major_14_e20 pad seed =
    (let branch = ((pad ! 8 XOR seed) XOR pad ! 11) mod 14
     in run_body [
       cond (branch = 0) [TRY (minor_1_e20 (\<lambda>_ _. 0xe32bdca0)),
         exec (minor_30_e20),
         call major_23_e20 (\<lambda>pad _. pad ! 19)],
       exec (seed_sub (\<lambda>_ seed. seed XOR 0xf74450ff)),
       cond (branch = 1) [exec (minor_32_e20 (\<lambda>_ _. 0x788c78a4)),
         exec (pad_sub 13 (\<lambda>pad _. pad ! 1)),
         call major_24_e20 (\<lambda>_ seed. seed)],
       exec (pad_sub 13 (\<lambda>pad _. if my_cos (ucast (pad ! 3)) then 0xf74450ff else pad ! 4)),
       cond (branch = 9) [exec (pad_or 9 (\<lambda>pad _. pad ! 7 XOR 0x2a19119f)),
         exec (pad_ror 9 (\<lambda>_ _. 11)),
         call major_19_e20 (\<lambda>_ seed. seed)],
       exec (pad_xor 9 (\<lambda>pad _. pad ! 6 * 0x59)),
       cond (branch = 7) [exec (minor_26_e20),
         exec (pad_add 6 (\<lambda>pad _. 0xfe07af0e - pad ! 3)),
         call major_25_e20 (\<lambda>pad _. pad ! 11)],
       cond (branch = 8) [exec (pad_sub 13 (\<lambda>pad _. pad ! 1)),
         exec (pad_xor 4 (\<lambda>_ _. 0xb949718c)),
         call major_17_e20 (\<lambda>pad _. pad ! 7)],
       exec (pad_xor 1 (\<lambda>pad seed. if my_sin (ucast seed) then 0xc90f1504 else pad ! 17)),
       cond (branch = 13) [exec (pad_and 9 (\<lambda>_ _. 0x59d432be)),
         exec (pad_sub 18 (\<lambda>pad _. pad ! 13 XOR 0x154abcdf)),
         call major_4_e20 (\<lambda>pad _. pad ! 4)],
       exec (pad_add 17 (\<lambda>pad _. if pad ! 13 < 0xac24eb8 then pad ! 13 else pad ! 9)),
       cond (branch = 5) [exec (pad_xor 4 (\<lambda>_ _. 0x3bcc51a7)),
         exec (pad_add 12 (\<lambda>_ _. 0x4ec6cf36)),
         call major_18_e20 (\<lambda>pad _. pad ! 1)],
       exec (seed_or (\<lambda>pad _. ROR (pad ! 18) 11)),
       cond (branch = 3) [exec (minor_20_e20),
         exec (pad_sub 5 (\<lambda>pad _. pad ! 15)),
         call major_15_e20 (\<lambda>pad _. pad ! 0)],
       exec (pad_add 4 (\<lambda>_ seed. seed + 0xf65efbd)),
       cond (branch = 10) [TRY (minor_5_e20),
         exec (pad_mul 2 (\<lambda>pad _. pad ! 3 + 0xd6863a6)),
         call major_3_e20 (\<lambda>pad _. pad ! 5)],
       cond (branch = 11) [exec (pad_and 7 (\<lambda>_ _. 0xdf76eba8)),
         TRY (minor_6_e20),
         call major_21_e20 (\<lambda>_ seed. seed)],
       exec (pad_xor 4 (\<lambda>pad _. ROL (pad ! 8) 22)),
       cond (branch = 6) [TRY (minor_10_e20 (\<lambda>_ _. 0xec30bd82)),
         exec (pad_mul 2 (\<lambda>pad _. pad ! 3 + 0xd6863a6)),
         call major_16_e20 (\<lambda>pad _. pad ! 13)],
       exec (seed_mul (\<lambda>pad _. pad ! 6 + 0x6bbeb974)),
       cond (branch = 2) [exec (pad_mul 18 (\<lambda>pad _. pad ! 10 + 0x466e09cf)),
         exec (pad_mul 2 (\<lambda>pad _. pad ! 3 + 0xd6863a6)),
         call major_1_e20 (\<lambda>pad _. pad ! 6)],
       exec (pad_sub 16 (\<lambda>pad _. pad ! 2 * 0x65a10fa8)),
       cond (branch = 12) [exec (pad_xor 19 (\<lambda>pad _. pad ! 15 XOR 0x3574ed3)),
         exec (pad_ror 9 (\<lambda>_ _. 15)),
         call major_23_e20 (\<lambda>pad _. pad ! 14)],
       exec (pad_ror 13 (\<lambda>_ seed. my_sqrt (ucast seed))),
       cond (branch = 4) [exec (minor_19_e20),
         exec (minor_17_e20),
         call major_24_e20 (\<lambda>pad _. pad ! 0)],
       cond (branch = 0) [exec (pad_xor 7 (\<lambda>_ _. 0xc9d1f4a2)),
         exec (minor_26_e20),
         call major_19_e20 (\<lambda>_ seed. seed)],
       exec (pad_sub 12 (\<lambda>pad seed. if my_sin (ucast (pad ! 10)) then 0x2818ae3c else seed))] pad seed)"

definition major_6_e20 :: "u32 list \<Rightarrow> u32 \<Rightarrow> u32 list" where
  "major_6_e20 pad seed =
    (let branch = pad ! 17 mod 15
     in run_body [
       cond (branch = 0) [exec (pad_add 13 (\<lambda>pad _. if pad ! 15 < 0x137bffeb then pad ! 15 else pad ! 11)),
         exec (pad_mul 13 (\<lambda>_ _. 0x22dd951f)),
         call major_24_e20 (\<lambda>pad _. pad ! 8)],
       exec (pad_sub 11 (\<lambda>pad _. if my_sin (ucast (pad ! 9)) then 0xe205322c else pad ! 7)),
       cond (branch = 13) [TRY (pad_ror 1 (\<lambda>_ _. 0x4)),
         exec (pad_xor 12 (\<lambda>pad _. pad ! 15 - 0xf5cfde0)),
         call major_19_e20 (\<lambda>pad _. pad ! 0)],
       exec (pad_sub 10 (\<lambda>pad _. pad ! 6 XOR 0x1289de2)),
       cond (branch = 8) [exec (pad_ror 9 (\<lambda>_ _. 10)),
         TRY (minor_13_e20),
         call major_25_e20 (\<lambda>pad _. pad ! 4)],
       cond (branch = 5) [exec (pad_mul 13 (\<lambda>_ _. 0x6a94c749)),
         exec (pad_sub 18 (\<lambda>pad _. pad ! 13 XOR 0x154abcdf)),
         call major_17_e20 (\<lambda>_ seed. seed)],
       exec (pad_rol 16 (\<lambda>pad _. my_sqrt (ucast (pad ! 17)))),
       cond (branch = 2) [exec (pad_add 16 (\<lambda>_ _. 0x3f147441)),
         call major_4_e20 (\<lambda>pad _. pad ! 16)],
       exec (pad_add 9 (\<lambda>pad _. my_sqrt (ucast (pad ! 3)))),
       cond (branch = 14) [exec (pad_ror 9 (\<lambda>_ _. 15)),
         exec (pad_sub 13 (\<lambda>pad _. pad ! 1)),
         call major_18_e20 (\<lambda>_ seed. seed)],
       exec (seed_set (\<lambda>pad seed. (pad ! 6 XOR seed) XOR 0x202ab323)),
       cond (branch = 9) [exec (pad_add 5 (\<lambda>pad _. pad ! 0 XOR 0x3e17add3)),
         exec (pad_sub 4 (\<lambda>pad _. pad ! 17 XOR 0x2217cf47)),
         call major_15_e20 (\<lambda>pad _. pad ! 8)],
       cond (branch = 6) [exec (pad_mul 2 (\<lambda>pad _. pad ! 3 + 0xd6863a6)),
         exec (pad_add 6 (\<lambda>pad _. pad ! 19 - 0x3f5675d6)),
         call major_3_e20 (\<lambda>pad _. pad ! 16)],
       exec (pad_xor 15 (\<lambda>pad _. my_sqrt (ucast (pad ! 10)))),
       cond (branch = 1) [TRY (minor_2_e20 (\<lambda>_ _. 0xb30d40d0)),
         exec (pad_mul 10 (\<lambda>pad _. pad ! 10 - 0x5eae6bf)),
         call major_21_e20 (\<lambda>pad _. pad ! 13)],
       exec (pad_sub 0 (\<lambda>pad _. pad ! 11 XOR 0x1284af29)),
       cond (branch = 4) [exec (pad_add 5 (\<lambda>pad _. pad ! 0 XOR 0x3e17add3)),
         exec (minor_29_e20),
         call major_16_e20 (\<lambda>pad _. pad ! 17)],
       exec (seed_rol (\<lambda>pad _. pad ! 11 * 0x10)),
       cond (branch = 11) [exec (pad_xor 9 (\<lambda>_ _. 0x1d8f33a6)),
         TRY (minor_9_e20 (\<lambda>_ _. 0x13ee15c3)),
         call major_1_e20 (\<lambda>pad _. pad ! 19)],
       cond (branch = 0) [TRY (minor_3_e20),
         exec (pad_xor 19 (\<lambda>pad _. if my_cos (ucast (pad ! 9)) then 0x57337b8 else pad ! 14)),
         call major_14_e20 (\<lambda>pad _. pad ! 16)],
       exec (pad_or 9 (\<lambda>pad _. pad ! 9 XOR 0x2ad7629)),
       cond (branch = 10) [TRY (pad_ror 1 (\<lambda>_ _. 0xc)),
         TRY (minor_9_e20 (\<lambda>_ _. 0xe8869877)),
         call major_24_e20 (\<lambda>_ seed. seed)],
       exec (pad_mul 4 (\<lambda>pad _. pad ! 12 * 0x4a237369)),
       cond (branch = 12) [exec (pad_add 9 (\<lambda>pad _. ROL (pad ! 4) 9)),
         TRY (minor_7_e20),
         call major_19_e20 (\<lambda>pad _. pad ! 5)],
       cond (branch = 7) [exec (pad_or 14 (\<lambda>pad _. pad ! 3 XOR 0x4345732)),
         TRY (minor_9_e20 (\<lambda>_ _. 0xdd1ca541)),
         call major_25_e20 (\<lambda>pad _. pad ! 1)],
       exec (seed_mul (\<lambda>pad _. pad ! 4 + 0x76e5a087)),
       cond (branch = 3) [TRY (minor_5_e20),
         TRY (minor_1_e20 (\<lambda>_ _. 0x62f4d3c4)),
         call major_17_e20 (\<lambda>_ seed. seed)]] pad seed)"

definition major_9_e20 :: "u32 list \<Rightarrow> u32 \<Rightarrow> u32 list" where
  "major_9_e20 pad seed =
    (let branch = pad ! 8 AND 15
     in run_body [
       cond (branch = 10) [exec (minor_29_e20),
         exec (pad_and 7 (\<lambda>pad _. pad ! 13 XOR 0x21aaf758)),
         call major_19_e20 (\<lambda>pad _. pad ! 0)],
       cond (branch = 3) [exec (pad_add 16 (\<lambda>_ _. 0x45e88961)),
         TRY (minor_8_e20),
         call major_25_e20 (\<lambda>pad _. pad ! 15)],
       cond (branch = 8) [TRY (minor_6_e20),
         exec (minor_22_e20),
         call major_17_e20 (\<lambda>pad _. pad ! 2)],
       exec (pad_or 8 (\<lambda>pad _. pad ! 9 * 0x6a)),
       cond (branch = 0) [exec (pad_and 7 (\<lambda>_ _. 0x30004a24)),
         exec (pad_xor 9 (\<lambda>pad _. pad ! 7 * 0x44)),
         call major_4_e20 (\<lambda>pad _. pad ! 11)],
       cond (branch = 14) [exec (pad_add 13 (\<lambda>pad _. if pad ! 15 < 0x137bffeb then pad ! 15 else pad ! 11)),
         TRY (minor_7_e20),
         call major_18_e20 (\<lambda>pad _. pad ! 13)],
       exec (pad_and 10 (\<lambda>pad _. pad ! 6 - 0x1286a10)),
       cond (branch = 12) [exec (pad_add 9 (\<lambda>pad _. ROL (pad ! 4) 9)),
         TRY (minor_4_e20),
         call major_15_e20 (\<lambda>pad _. pad ! 17)],
       cond (branch = 2) [TRY (minor_8_e20),
         exec (minor_20_e20),
         call major_3_e20 (\<lambda>pad _. pad ! 13)],
       exec (seed_or (\<lambda>_ seed. seed + 0x20029bc7)),
       exec (pad_ror 14 (\<lambda>_ seed. ROL seed 8)),
       cond (branch = 9) [exec (pad_and 7 (\<lambda>pad _. pad ! 13 XOR 0x21aaf758)),
         exec (minor_26_e20),
         call major_21_e20 (\<lambda>pad _. pad ! 5)],
       exec (seed_add (\<lambda>pad _. 0x176cf052 - pad ! 12)),
       cond (branch = 15) [exec (pad_xor 12 (\<lambda>pad _. pad ! 15 - 0xf5cfde0)),
         exec (pad_mul 13 (\<lambda>_ _. 0xa02fe00)),
         call major_16_e20 (\<lambda>_ seed. seed)],
       cond (branch = 1) [exec (pad_mul 13 (\<lambda>pad _. ROR (pad ! 3) 5)),
         exec (pad_xor 19 (\<lambda>pad _. if my_cos (ucast (pad ! 9)) then 0x57337b8 else pad ! 14)),
         call major_1_e20 (\<lambda>pad _. pad ! 17)],
       exec (pad_rol 8 (\<lambda>pad _. pad ! 4 OR 0xf)),
       cond (branch = 5) [exec (pad_xor 9 (\<lambda>pad _. pad ! 7 * 0x44)),
         exec (pad_and 7 (\<lambda>_ _. 0x1df23f52)),
         call major_14_e20 (\<lambda>pad _. pad ! 6)],
       cond (branch = 4) [exec (pad_sub 5 (\<lambda>pad _. pad ! 15)),
         exec (pad_xor 6 (\<lambda>_ _. 0x851242df)),
         call major_6_e20 (\<lambda>_ seed. seed)],
       exec (pad_mul 13 (\<lambda>pad _. pad ! 2 * 0x65)),
       cond (branch = 0) [exec (pad_or 14 (\<lambda>pad _. pad ! 3 XOR 0x4345732)),
         exec (pad_add 13 (\<lambda>pad _. if pad ! 15 < 0x137bffeb then pad ! 15 else pad ! 11)),
         call major_19_e20 (\<lambda>pad _. pad ! 10)],
       cond (branch = 6) [exec (minor_29_e20),
         exec (minor_22_e20),
         call major_25_e20 (\<lambda>_ seed. seed)],
       exec (pad_or 11 (\<lambda>pad _. ROR (pad ! 17) 29)),
       cond (branch = 13) [exec (pad_mul 10 (\<lambda>pad _. pad ! 10 - 0x5eae6bf)),
         exec (pad_add 16 (\<lambda>_ _. 0x5e01d54b)),
         call major_17_e20 (\<lambda>pad _. pad ! 18)],
       exec (pad_and 17 (\<lambda>_ seed. seed * 0x30)),
       cond (branch = 7) [exec (minor_27_e20),
         TRY (minor_12_e20 (\<lambda>_ _. 0x65ec261)),
         call major_4_e20 (\<lambda>pad _. pad ! 0)],
       cond (branch = 11) [exec (pad_or 14 (\<lambda>pad _. pad ! 3 XOR 0x4345732)),
         exec (pad_add 0 (\<lambda>pad _. pad ! 18 XOR 0x4ac16b8d)),
         call major_18_e20 (\<lambda>pad _. pad ! 16)],
       exec (pad_or 13 (\<lambda>pad _. pad ! 3 * 0x3e))] pad seed)"

definition major_2_e20 :: "u32 list \<Rightarrow> u32 \<Rightarrow> u32 list" where
  "major_2_e20 pad seed =
    (let branch = pad ! 10 AND 15
     in run_body [
       cond (branch = 5) [exec (minor_27_e20),
         exec (pad_and 7 (\<lambda>pad _. pad ! 13 XOR 0x21aaf758)),
         call major_25_e20 (\<lambda>pad _. pad ! 0)],
       exec (pad_sub 0 (\<lambda>_ seed. seed * 0x36)),
       cond (branch = 13) [exec (pad_mul 2 (\<lambda>pad _. pad ! 3 + 0xd6863a6)),
         exec (pad_add 6 (\<lambda>pad _. 0xfe07af0e - pad ! 3)),
         call major_17_e20 (\<lambda>_ seed. seed)],
       cond (branch = 12) [exec (pad_xor 6 (\<lambda>_ _. 0x9374c368)),
         exec (pad_and 7 (\<lambda>_ _. 0xc45b99ee)),
         call major_4_e20 (\<lambda>pad _. pad ! 14)],
       exec (pad_sub 7 (\<lambda>pad _. pad ! 8 OR 0x1a1a9407)),
       cond (branch = 6) [exec (pad_ror 9 (\<lambda>_ _. 12)),
         exec (pad_sub 3 (\<lambda>pad _. pad ! 0 XOR 0x185f3b0d)),
         call major_18_e20 (\<lambda>pad _. pad ! 14)],
       exec (pad_add 2 (\<lambda>pad _. pad ! 0 + 0x19259d5)),
       cond (branch = 8) [exec (pad_xor 9 (\<lambda>pad _. pad ! 7 * 0x44)),
         exec (pad_xor 2 (\<lambda>pad _. push_bit 5 (pad ! 15))),
         call major_15_e20 (\<lambda>_ seed. seed)],
       cond (branch = 11) [exec (minor_34_e20),
         exec (pad_sub 3 (\<lambda>pad _. pad ! 0 XOR 0x185f3b0d)),
         call major_3_e20 (\<lambda>pad _. pad ! 15)],
       exec (pad_and 16 (\<lambda>_ seed. seed - 0x1badcb5)),
       cond (branch = 15) [exec (pad_or 14 (\<lambda>pad _. pad ! 3 XOR 0x4345732)),
         exec (pad_ror 4 (\<lambda>_ _. 0x1)),
         call major_21_e20 (\<lambda>pad _. pad ! 3)],
       exec (pad_sub 5 (\<lambda>pad _. if my_cos (ucast (pad ! 4)) then 0xffcdb92f else pad ! 14)),
       cond (branch = 1) [exec (pad_sub 13 (\<lambda>pad _. pad ! 1)),
         exec (pad_or 7 (\<lambda>_ _. 0x45e184c5)),
         call major_16_e20 (\<lambda>pad _. pad ! 9),
         TRY (minor_1_e20 (\<lambda>_ _. 0x149a97a0)),
         TRY (minor_10_e20 (\<lambda>_ _. 0xd87d888e)),
         call major_1_e20 (\<lambda>pad _. pad ! 9)],
       exec (pad_mul 5 (\<lambda>pad _. pad ! 8 + 0xffcdb92f)),
       cond (branch = 4) [TRY (minor_10_e20 (\<lambda>_ _. 0x130aa218)),
         exec (pad_mul 13 (\<lambda>pad _. ROR (pad ! 3) 5)),
         call major_14_e20 (\<lambda>pad _. pad ! 6)],
       exec (pad_rol 1 (\<lambda>pad _. if pad ! 15 < 0xbdc3f45b then pad ! 15 else pad ! 9)),
       cond (branch = 14) [exec (minor_30_e20),
         exec (pad_mul 13 (\<lambda>_ _. 0x7f0d5ead)),
         call major_6_e20 (\<lambda>pad _. pad ! 5)],
       cond (branch = 0) [exec (pad_add 6 (\<lambda>pad _. pad ! 19 - 0x3f5675d6)),
         TRY (minor_5_e20),
         call major_9_e20 (\<lambda>_ seed. seed)],
       exec (pad_add 6 (\<lambda>pad _. pad ! 3 * 0x79)),
       cond (branch = 9) [exec (pad_and 9 (\<lambda>_ _. 0x3eb4ed97)),
         exec (minor_30_e20),
         call major_25_e20 (\<lambda>pad _. pad ! 6)],
       exec (pad_xor 16 (\<lambda>pad _. if my_cos (ucast (pad ! 7)) then 0x2d36f243 else pad ! 13)),
       cond (branch = 0) [exec (pad_add 0 (\<lambda>pad _. pad ! 18 XOR 0x4ac16b8d)),
         exec (minor_28_e20),
         call major_17_e20 (\<lambda>pad _. pad ! 2)],
       cond (branch = 7) [exec (pad_add 10 (\<lambda>_ _. 0x8958821)),
         TRY (minor_1_e20 (\<lambda>_ _. 0x115e64d4)),
         call major_4_e20 (\<lambda>pad _. pad ! 19)],
       exec (pad_and 14 (\<lambda>pad _. pad ! 3 XOR 0xb8eb772d)),
       cond (branch = 10) [exec (pad_sub 13 (\<lambda>pad _. pad ! 1)),
         exec (pad_xor 2 (\<lambda>pad _. push_bit 5 (pad ! 15))),
         call major_18_e20 (\<lambda>pad _. pad ! 8)],
       exec (pad_ror 1 (\<lambda>pad _. pad ! 12 * 0x5)),
       cond (branch = 3) [exec (pad_xor 2 (\<lambda>pad _. if my_sin (ucast (pad ! 13)) then 0xfd08092 else pad ! 10)),
         exec (pad_xor 2 (\<lambda>pad _. if my_sin (ucast (pad ! 13)) then 0xfd08092 else pad ! 10)),
         call major_15_e20 (\<lambda>pad _. pad ! 15)],
       cond (branch = 2) [exec (pad_and 7 (\<lambda>_ _. 0x5cf54b9a)),
         exec (pad_mul 13 (\<lambda>_ _. 0xa02fe00)),
         call major_3_e20 (\<lambda>pad _. pad ! 14)],
       exec (pad_xor 12 (\<lambda>pad _. if my_sin (ucast (pad ! 0)) then 0x96d5a5a4 else pad ! 5))] pad seed)"

definition major_5_e20 :: "u32 list \<Rightarrow> u32 \<Rightarrow> u32 list" where
  "major_5_e20 pad seed =
    (let branch = ((pad ! 13 XOR pad ! 6) XOR pad ! 16) AND 15
     in run_body [
       cond (branch = 7) [exec (minor_20_e20),
         exec (pad_add 9 (\<lambda>pad _. ROL (pad ! 4) 9)),
         call major_17_e20 (\<lambda>pad _. pad ! 15)],
       exec (pad_xor 2 (\<lambda>pad _. pad ! 15 - 0xe09f62af)),
       cond (branch = 15) [exec (minor_31_e20 (\<lambda>_ _. 0x7)),
         exec (pad_or 9 (\<lambda>pad _. pad ! 7 XOR 0x2a19119f)),
         call major_4_e20 (\<lambda>pad _. pad ! 10)],
       cond (branch = 14) [exec (pad_xor 9 (\<lambda>_ _. 0x19b844e)),
         exec (pad_sub 5 (\<lambda>pad _. pad ! 15)),
         call major_18_e20 (\<lambda>_ seed. seed)],
       exec (pad_add 5 (\<lambda>pad _. pad ! 8 * 0x49)),
       cond (branch = 4) [exec (pad_or 14 (\<lambda>pad _. pad ! 3 XOR 0x4345732)),
         TRY (minor_8_e20),
         call major_15_e20 (\<lambda>pad _. pad ! 19)],
       cond (branch = 1) [exec (minor_27_e20),
         exec (minor_17_e20),
         call major_3_e20 (\<lambda>pad _. pad ! 4)],
       exec (seed_add (\<lambda>pad _. if pad ! 16 < 0x4dfe57f8 then pad ! 16 else pad ! 17)),
       cond (branch = 2) [exec (pad_mul 13 (\<lambda>_ _. 0x7ae310dc)),
         exec (pad_xor 12 (\<lambda>pad _. pad ! 15 - 0xf5cfde0)),
         call major_21_e20 (\<lambda>pad _. pad ! 11),
         exec (pad_mul 13 (\<lambda>pad _. ROR (pad ! 3) 5)),
         exec (minor_20_e20),
         call major_16_e20 (\<lambda>pad _. pad ! 10)],
       exec (pad_add 5 (\<lambda>pad _. pad ! 6 + 0xd5c1b299)),
       cond (branch = 10) [exec (pad_xor 19 (\<lambda>pad _. if my_cos (ucast (pad ! 9)) then 0x57337b8 else pad ! 14)),
         exec (pad_or 9 (\<lambda>pad _. pad ! 7 XOR 0x2a19119f)),
         call major_1_e20 (\<lambda>pad _. pad ! 10)],
       cond (branch = 12) [exec (pad_add 16 (\<lambda>_ _. 0x203fdf50)),
         exec (minor_20_e20),
         call major_14_e20 (\<lambda>pad _. pad ! 8)],
       exec (pad_add 1 (\<lambda>_ seed. if my_sin (ucast seed) then 0xbabd3794 else seed)),
       cond (branch = 6) [exec (pad_xor 4 (\<lambda>_ _. 0xca8e79ab)),
         exec (pad_sub 13 (\<lambda>pad _. pad ! 1)),
         call major_6_e20 (\<lambda>pad _. pad ! 14)],
       cond (branch = 3) [exec (pad_add 13 (\<lambda>pad _. if pad ! 15 < 0x137bffeb then pad ! 15 else pad ! 11)),
         exec (pad_xor 2 (\<lambda>pad _. push_bit 5 (pad ! 15))),
         call major_9_e20 (\<lambda>_ seed. seed)],
       exec (pad_or 3 (\<lambda>pad _. if my_cos (ucast (pad ! 3)) then 0xbabd3794 else pad ! 17)),
       cond (branch = 9) [exec (minor_17_e20),
         exec (pad_sub 5 (\<lambda>pad _. pad ! 15)),
         call major_2_e20 (\<lambda>_ seed. seed)],
       cond (branch = 13) [exec (pad_ror 4 (\<lambda>_ _. 0x2)),
         exec (pad_sub 4 (\<lambda>pad _. pad ! 17 XOR 0x2217cf47)),
         call major_17_e20 (\<lambda>_ seed. seed)],
       exec (seed_xor (\<lambda>pad _. pad ! 2 * 0xb25bcc4d)),
       cond (branch = 11) [exec (pad_add 19 (\<lambda>pad _. 0x12b9e29d - pad ! 12)),
         exec (pad_and 7 (\<lambda>pad _. pad ! 13 XOR 0x21aaf758)),
         call major_4_e20 (\<lambda>pad _. pad ! 17)],
       cond (branch = 0) [exec (pad_xor 12 (\<lambda>pad _. pad ! 15 - 0xf5cfde0)),
         exec (minor_31_e20 (\<lambda>_ _. 0x7)),
         call major_18_e20 (\<lambda>_ seed. seed)],
       exec (pad_add 8 (\<lambda>pad _. 0xf1030e9c - pad ! 12)),
       cond (branch = 5) [exec (pad_xor 6 (\<lambda>_ _. 0xea99e155)),
         exec (pad_add 19 (\<lambda>pad _. 0x12b9e29d - pad ! 12)),
         call major_15_e20 (\<lambda>_ seed. seed)],
       cond (branch = 8) [exec (pad_and 7 (\<lambda>_ _. 0x710c48e8)),
         exec (pad_mul 2 (\<lambda>pad _. pad ! 3 + 0xd6863a6)),
         call major_3_e20 (\<lambda>pad _. pad ! 17)],
       exec (pad_add 15 (\<lambda>pad _. 0xa8f341c7 - pad ! 1)),
       cond (branch = 0) [exec (pad_mul 2 (\<lambda>pad _. pad ! 3 + 0xd6863a6)),
         exec (pad_sub 3 (\<lambda>pad _. pad ! 0 XOR 0x185f3b0d)),
         call major_21_e20 (\<lambda>_ seed. seed)],
       cond (branch = 1) [TRY (minor_3_e20),
         exec (pad_mul 12 (\<lambda>pad _. pad ! 12)),
         call major_16_e20 (\<lambda>pad _. pad ! 12)],
       exec (pad_mul 6 (\<lambda>pad _. pad ! 5 * 0x1d))] pad seed)"

definition major_12_e20 :: "u32 list \<Rightarrow> u32 \<Rightarrow> u32 list" where
  "major_12_e20 pad seed =
    (let branch = ((pad ! 7 XOR seed) XOR pad ! 18) AND 15
     in run_body [
       cond (branch = 15) [TRY (minor_7_e20),
         exec (pad_add 13 (\<lambda>pad _. if pad ! 15 < 0x137bffeb then pad ! 15 else pad ! 11)),
         call major_4_e20 (\<lambda>pad _. pad ! 17)],
       exec (pad_or 8 (\<lambda>_ seed. seed + 0xe43fc6b)),
       cond (branch = 1) [exec (minor_32_e20 (\<lambda>_ _. 0x979304f6)),
         exec (minor_26_e20),
         call major_18_e20 (\<lambda>pad _. pad ! 6)],
       cond (branch = 8) [exec (minor_20_e20),
         TRY (minor_12_e20 (\<lambda>_ _. 0xf7131053)),
         call major_15_e20 (\<lambda>pad _. pad ! 13)],
       exec (pad_xor 19 (\<lambda>_ seed. seed * 0x4b)),
       cond (branch = 1) [exec (pad_mul 13 (\<lambda>_ _. 0x85695585)),
         exec (pad_mul 13 (\<lambda>_ _. 0x2c9514d7)),
         call major_3_e20 (\<lambda>pad _. pad ! 17)],
       cond (branch = 10) [exec (pad_or 9 (\<lambda>pad _. pad ! 7 XOR 0x2a19119f)),
         TRY (minor_1_e20 (\<lambda>_ _. 0x433a0094)),
         call major_21_e20 (\<lambda>pad _. pad ! 8)],
       exec (pad_xor 1 (\<lambda>pad _. pad ! 14 * 0x16)),
       cond (branch = 0) [exec (pad_mul 13 (\<lambda>_ _. 0x136644be)),
         TRY (minor_6_e20),
         call major_16_e20 (\<lambda>pad _. pad ! 14)],
       exec (pad_or 7 (\<lambda>_ seed. seed XOR 0xe857063)),
       cond (branch = 4) [exec (pad_sub 18 (\<lambda>pad _. pad ! 13 XOR 0x154abcdf)),
         exec (pad_add 12 (\<lambda>_ _. 0xf894616a)),
         call major_1_e20 (\<lambda>pad _. pad ! 6)],
       cond (branch = 9) [TRY (minor_3_e20),
         exec (pad_and 7 (\<lambda>_ _. 0x3b887f26)),
         call major_14_e20 (\<lambda>pad _. pad ! 7)],
       exec (pad_ror 6 (\<lambda>pad _. pad ! 9 * 0x8413f1b6)),
       cond (branch = 3) [TRY (minor_9_e20 (\<lambda>_ _. 0xcd88ea76)),
         TRY (minor_8_e20),
         call major_6_e20 (\<lambda>pad _. pad ! 19)],
       cond (branch = 13) [exec (pad_ror 9 (\<lambda>_ _. 5)),
         TRY (pad_ror 1 (\<lambda>_ _. 0x8)),
         call major_9_e20 (\<lambda>pad _. pad ! 1)],
       exec (pad_sub 6 (\<lambda>pad _. if pad ! 17 < 0x417e2f7b then pad ! 17 else pad ! 19)),
       cond (branch = 5) [exec (pad_or 9 (\<lambda>pad _. pad ! 7 XOR 0x2a19119f)),
         exec (minor_19_e20),
         call major_2_e20 (\<lambda>pad _. pad ! 1)],
       cond (branch = 12) [exec (pad_sub 13 (\<lambda>pad _. pad ! 1)),
         exec (pad_add 0 (\<lambda>pad _. pad ! 6 * 0x3c)),
         call major_5_e20 (\<lambda>pad _. pad ! 7)],
       exec (pad_or 6 (\<lambda>_ seed. my_sqrt (ucast seed))),
       cond (branch = 2) [exec (pad_xor 2 (\<lambda>pad _. push_bit 5 (pad ! 15))),
         exec (pad_and 7 (\<lambda>pad _. pad ! 13 XOR 0x21aaf758)),
         call major_4_e20 (\<lambda>_ seed. seed)],
       exec (pad_xor 2 (\<lambda>pad _. pad ! 8 + 0x3e85747b)),
       cond (branch = 0) [exec (minor_20_e20),
         exec (pad_and 9 (\<lambda>_ _. 0x5a61aa8d)),
         call major_18_e20 (\<lambda>pad _. pad ! 14)],
       cond (branch = 11) [exec (pad_add 6 (\<lambda>pad _. 0xfe07af0e - pad ! 3)),
         exec (minor_32_e20 (\<lambda>_ _. 0xbf47f027)),
         call major_15_e20 (\<lambda>pad _. pad ! 3)],
       exec (pad_and 2 (\<lambda>_ seed. seed)),
       cond (branch = 3) [exec (pad_mul 13 (\<lambda>_ _. 0xc9cf079)),
         exec (pad_sub 18 (\<lambda>pad _. pad ! 13 XOR 0x154abcdf)),
         call major_3_e20 (\<lambda>pad _. pad ! 4)],
       cond (branch = 7) [exec (pad_xor 12 (\<lambda>pad _. pad ! 15 - 0xf5cfde0)),
         TRY (minor_4_e20),
         call major_21_e20 (\<lambda>pad _. pad ! 14)],
       exec (seed_add (\<lambda>pad _. pad ! 9 - 0xbc1b5d9)),
       cond (branch = 14) [TRY (minor_8_e20),
         exec (pad_xor 9 (\<lambda>pad _. pad ! 7 * 0x44)),
         call major_16_e20 (\<lambda>_ seed. seed)],
       exec (pad_add 18 (\<lambda>pad _. pad ! 11 * 0x5b)),
       cond (branch = 2) [exec (pad_and 7 (\<lambda>pad _. pad ! 13 XOR 0x21aaf758)),
         exec (minor_17_e20),
         call major_1_e20 (\<lambda>pad _. pad ! 1)],
       cond (branch = 6) [exec (pad_xor 2 (\<lambda>pad _. push_bit 5 (pad ! 15))),
         exec (pad_sub 18 (\<lambda>pad _. pad ! 13 XOR 0x154abcdf)),
         call major_14_e20 (\<lambda>_ seed. seed)],
       exec (pad_xor 4 (\<lambda>pad _. pad ! 4 - 0xe87fd622))] pad seed)"

definition major_11_e20 :: "u32 list \<Rightarrow> u32 \<Rightarrow> u32 list" where
  "major_11_e20 pad seed =
    (let branch = ((pad ! 6 XOR seed) XOR pad ! 14) AND 15
     in run_body [
       cond (branch = 2) [exec (pad_xor 19 (\<lambda>pad _. pad ! 15 XOR 0x3574ed3)),
         exec (pad_sub 13 (\<lambda>pad _. pad ! 1)),
         call major_18_e20 (\<lambda>pad _. pad ! 0)],
       cond (branch = 0) [exec (pad_xor 7 (\<lambda>_ _. 0x414517ea)),
         TRY (minor_4_e20),
         call major_15_e20 (\<lambda>pad _. pad ! 13)],
       exec (pad_and 14 (\<lambda>_ seed. seed * 0x3f)),
       cond (branch = 10) [exec (minor_19_e20),
         exec (pad_and 9 (\<lambda>_ _. 0x38063558)),
         call major_3_e20 (\<lambda>pad _. pad ! 10)],
       cond (branch = 15) [exec (minor_34_e20),
         exec (pad_add 12 (\<lambda>_ _. 0x5c1481dd)),
         call major_21_e20 (\<lambda>pad _. pad ! 11)],
       exec (pad_ror 10 (\<lambda>pad _. pad ! 14 * 0x13)),
       cond (branch = 8) [exec (pad_xor 19 (\<lambda>pad _. if my_cos (ucast (pad ! 9)) then 0x57337b8 else pad ! 14)),
         exec (pad_xor 12 (\<lambda>pad _. pad ! 15 - 0xf5cfde0)),
         call major_16_e20 (\<lambda>_ seed. seed)],
       cond (branch = 4) [exec (pad_sub 3 (\<lambda>pad _. pad ! 0 XOR 0x185f3b0d)),
         exec (pad_xor 6 (\<lambda>_ _. 0xa8115127)),
         call major_1_e20 (\<lambda>pad _. pad ! 5)],
       exec (pad_xor 11 (\<lambda>_ seed. seed - 0x3c17609c)),
       cond (branch = 1) [exec (pad_add 12 (\<lambda>pad _. pad ! 6 XOR 0x211f5e40)),
         exec (minor_29_e20),
         call major_14_e20 (\<lambda>_ seed. seed)],
       cond (branch = 7) [exec (pad_ror 9 (\<lambda>_ _. 11)),
         TRY (minor_3_e20),
         call major_6_e20 (\<lambda>pad _. pad ! 11)],
       exec (pad_add 14 (\<lambda>pad _. if my_sin (ucast (pad ! 9)) then 0x2d3f1771 else pad ! 11)),
       cond (branch = 5) [TRY (minor_8_e20),
         exec (pad_add 0 (\<lambda>pad _. pad ! 18 XOR 0x4ac16b8d)),
         call major_9_e20 (\<lambda>pad _. pad ! 9)],
       cond (branch = 2) [exec (pad_mul 12 (\<lambda>_ _. 0xf44cb55)),
         exec (minor_31_e20 (\<lambda>_ _. 0x1f)),
         call major_2_e20 (\<lambda>pad _. pad ! 13)],
       cond (branch = 1) [exec (pad_and 9 (\<lambda>_ _. 0x3f34e168)),
         exec (pad_mul 18 (\<lambda>pad _. pad ! 10 + 0x466e09cf)),
         call major_5_e20 (\<lambda>_ seed. seed)],
       exec (pad_and 18 (\<lambda>pad _. pad ! 17 + 0x21012257)),
       cond (branch = 14) [exec (pad_add 6 (\<lambda>pad _. 0xfe07af0e - pad ! 3)),
         TRY (minor_2_e20 (\<lambda>_ _. 0x51f9a91a)),
         call major_12_e20 (\<lambda>pad _. pad ! 14)],
       cond (branch = 12) [exec (pad_or 14 (\<lambda>pad _. pad ! 3 XOR 0x4345732)),
         exec (pad_add 16 (\<lambda>_ _. 0x485c892b)),
         call major_18_e20 (\<lambda>pad _. pad ! 12)],
       exec (pad_and 19 (\<lambda>pad _. pad ! 10 XOR 0x6fc516d5)),
       cond (branch = 6) [TRY (minor_5_e20),
         exec (pad_add 12 (\<lambda>pad _. pad ! 6 XOR 0x211f5e40)),
         call major_15_e20 (\<lambda>pad _. pad ! 13)],
       cond (branch = 11) [TRY (minor_6_e20),
         exec (minor_28_e20),
         call major_3_e20 (\<lambda>_ seed. seed)],
       exec (pad_xor 8 (\<lambda>pad _. pad ! 11 * 0x7b)),
       cond (branch = 4) [exec (pad_mul 2 (\<lambda>pad _. pad ! 3 + 0xd6863a6)),
         exec (minor_26_e20),
         call major_21_e20 (\<lambda>pad _. pad ! 4)],
       cond (branch = 3) [exec (pad_xor 19 (\<lambda>pad _. pad ! 15 XOR 0x3574ed3)),
         exec (minor_17_e20),
         call major_16_e20 (\<lambda>pad _. pad ! 9)],
       exec (pad_add 0 (\<lambda>pad _. pad ! 13 + 0x88a77a94)),
       cond (branch = 0) [TRY (minor_2_e20 (\<lambda>_ _. 0xf10f9d87)),
         exec (pad_xor 12 (\<lambda>pad _. pad ! 15 - 0xf5cfde0)),
         call major_1_e20 (\<lambda>pad _. pad ! 15)],
       cond (branch = 9) [exec (pad_sub 13 (\<lambda>pad _. pad ! 1)),
         exec (pad_xor 2 (\<lambda>pad _. if my_sin (ucast (pad ! 13)) then 0xfd08092 else pad ! 10)),
         call major_14_e20 (\<lambda>pad _. pad ! 18)],
       exec (seed_mul (\<lambda>pad _. pad ! 8 - 0x44260e37)),
       cond (branch = 3) [exec (minor_26_e20),
         exec (pad_add 10 (\<lambda>_ _. 0x8958821)),
         call major_6_e20 (\<lambda>pad _. pad ! 8)],
       cond (branch = 13) [exec (pad_add 0 (\<lambda>pad _. pad ! 18 XOR 0x4ac16b8d)),
         exec (pad_xor 7 (\<lambda>_ _. 0x129d6c5e)),
         call major_9_e20 (\<lambda>_ seed. seed)],
       exec (pad_and 2 (\<lambda>pad _. ROL (pad ! 19) 14))] pad seed)"

definition major_13_e20 :: "u32 list \<Rightarrow> u32 \<Rightarrow> u32 list" where
  "major_13_e20 pad seed =
    (let branch = ((pad ! 4 XOR seed) XOR pad ! 18) AND 15
     in run_body [
       cond (branch = 12) [exec (minor_29_e20),
         exec (pad_or 9 (\<lambda>pad _. pad ! 7 XOR 0x2a19119f)),
         call major_15_e20 (\<lambda>pad _. pad ! 11)],
       cond (branch = 4) [exec (pad_ror 9 (\<lambda>_ _. 10)),
         exec (pad_xor 12 (\<lambda>pad _. pad ! 15 - 0xf5cfde0)),
         call major_3_e20 (\<lambda>_ seed. seed)],
       exec (seed_xor (\<lambda>pad _. pad ! 1 * 0x6c)),
       cond (branch = 1) [TRY (minor_12_e20 (\<lambda>_ _. 0xad86172c)),
         exec (pad_xor 12 (\<lambda>pad _. pad ! 15 - 0xf5cfde0)),
         call major_21_e20 (\<lambda>pad _. pad ! 7)],
       cond (branch = 9) [exec (pad_add 0 (\<lambda>pad _. pad ! 6 * 0x3c)),
         exec (pad_and 9 (\<lambda>_ _. 0xa2cc0e51)),
         call major_16_e20 (\<lambda>pad _. pad ! 10)],
       exec (pad_add 11 (\<lambda>pad _. pad ! 8 - 0xef3b680)),
       cond (branch = 5) [exec (minor_20_e20),
         exec (pad_xor 2 (\<lambda>pad _. if my_sin (ucast (pad ! 13)) then 0xfd08092 else pad ! 10)),
         call major_1_e20 (\<lambda>_ seed. seed)],
       cond (branch = 2) [exec (pad_add 12 (\<lambda>_ _. 0x1f3bc7f4)),
         exec (pad_add 9 (\<lambda>pad _. ROL (pad ! 4) 9)),
         call major_14_e20 (\<lambda>pad _. pad ! 3)],
       exec (pad_sub 19 (\<lambda>_ seed. seed XOR 0x42b04005)),
       cond (branch = 8) [TRY (minor_13_e20),
         exec (pad_add 0 (\<lambda>pad _. pad ! 18 XOR 0x4ac16b8d)),
         call major_6_e20 (\<lambda>pad _. pad ! 2)],
       cond (branch = 3) [TRY (minor_13_e20),
         exec (minor_17_e20),
         call major_9_e20 (\<lambda>_ seed. seed)],
       exec (pad_add 0 (\<lambda>pad _. my_sqrt (ucast (pad ! 16)))),
       cond (branch = 11) [exec (pad_xor 12 (\<lambda>pad _. pad ! 15 - 0xf5cfde0)),
         exec (pad_ror 4 (\<lambda>_ _. 0x19)),
         call major_2_e20 (\<lambda>pad _. pad ! 19)],
       cond (branch = 13) [TRY (minor_4_e20),
         exec (minor_26_e20),
         call major_5_e20 (\<lambda>pad _. pad ! 7)],
       exec (seed_add (\<lambda>pad _. pad ! 17 OR 0xead7ac4a)),
       cond (branch = 1) [TRY (minor_1_e20 (\<lambda>_ _. 0xd3280a0)),
         exec (pad_xor 7 (\<lambda>_ _. 0x3eb9d37)),
         call major_12_e20 (\<lambda>pad _. pad ! 12)],
       cond (branch = 14) [exec (minor_28_e20),
         exec (minor_31_e20 (\<lambda>_ _. 0x1f)),
         call major_11_e20 (\<lambda>_ seed. seed)],
       exec (pad_ror 2 (\<lambda>pad seed. if pad ! 15 < 0x3f2998c then pad ! 15 else seed)),
       cond (branch = 5) [TRY (minor_12_e20 (\<lambda>_ _. 0x2dd0e73)),
         exec (minor_26_e20),
         call major_15_e20 (\<lambda>_ seed. seed)],
       cond (branch = 3) [TRY (minor_9_e20 (\<lambda>_ _. 0x21602b81)),
         exec (pad_mul 13 (\<lambda>_ _. 0x52fa4a96)),
         call major_3_e20 (\<lambda>_ seed. seed)],
       exec (pad_add 4 (\<lambda>pad _. pad ! 2 XOR 0x1579499)),
       cond (branch = 10) [TRY (minor_7_e20),
         exec (pad_add 5 (\<lambda>pad _. pad ! 0 XOR 0x3e17add3)),
         call major_21_e20 (\<lambda>pad _. pad ! 5)],
       cond (branch = 0) [TRY (minor_5_e20),
         exec (pad_add 0 (\<lambda>pad _. pad ! 6 * 0x3c)),
         call major_16_e20 (\<lambda>pad _. pad ! 8)],
       exec (seed_sub (\<lambda>pad _. pad ! 2 * 0x74)),
       cond (branch = 0) [exec (pad_sub 13 (\<lambda>pad _. pad ! 1)),
         exec (pad_xor 19 (\<lambda>pad _. pad ! 15 XOR 0x3574ed3)),
         call major_1_e20 (\<lambda>_ seed. seed)],
       cond (branch = 15) [exec (pad_and 9 (\<lambda>_ _. 0x334ce7cf)),
         TRY (minor_10_e20 (\<lambda>_ _. 0xbcbc7bb)),
         call major_14_e20 (\<lambda>_ seed. seed)],
       exec (pad_sub 10 (\<lambda>pad _. pad ! 10 OR 0xae9eedbf)),
       cond (branch = 6) [TRY (minor_3_e20),
         TRY (minor_6_e20),
         call major_6_e20 (\<lambda>pad _. pad ! 11)],
       cond (branch = 4) [exec (pad_xor 2 (\<lambda>pad _. if my_sin (ucast (pad ! 13)) then 0xfd08092 else pad ! 10)),
         exec (pad_mul 13 (\<lambda>_ _. 0x9f7e2a0)),
         call major_9_e20 (\<lambda>pad _. pad ! 19)],
       exec (seed_add (\<lambda>pad _. pad ! 17 XOR 0xae9eedbf)),
       cond (branch = 7) [TRY (minor_8_e20),
         exec (pad_mul 18 (\<lambda>pad _. pad ! 10 + 0x466e09cf)),
         call major_2_e20 (\<lambda>pad _. pad ! 8)],
       cond (branch = 2) [TRY (minor_3_e20),
         exec (pad_or 9 (\<lambda>pad _. pad ! 7 XOR 0x2a19119f)),
         call major_5_e20 (\<lambda>pad _. pad ! 18)],
       exec (pad_sub 16 (\<lambda>pad seed. if pad ! 11 < 0x1e7d86ee then pad ! 11 else seed))] pad seed)"

definition major_22_e20 :: "u32 list \<Rightarrow> u32 \<Rightarrow> u32 list" where
  "major_22_e20 pad seed =
    (let branch = ((pad ! 5 XOR pad ! 0) XOR seed) AND 15
     in run_body [
       cond (branch = 3) [TRY (minor_6_e20),
         exec (minor_31_e20 (\<lambda>_ _. 0x13)),
         call major_3_e20 (\<lambda>_ seed. seed)],
       cond (branch = 0) [exec (pad_xor 6 (\<lambda>_ _. 0x6066818c)),
         exec (pad_sub 13 (\<lambda>pad _. pad ! 1)),
         call major_21_e20 (\<lambda>pad _. pad ! 2)],
       exec (pad_xor 14 (\<lambda>pad _. ROL (pad ! 16) 22)),
       cond (branch = 12) [exec (pad_add 10 (\<lambda>_ _. 0x830ba927)),
         exec (minor_32_e20 (\<lambda>_ _. 0x6f3a3876)),
         call major_16_e20 (\<lambda>pad _. pad ! 8)],
       cond (branch = 1) [exec (minor_34_e20),
         exec (pad_add 16 (\<lambda>_ _. 0x1bc7b861)),
         call major_1_e20 (\<lambda>pad _. pad ! 6)],
       exec (pad_xor 12 (\<lambda>pad _. if pad ! 11 < 0x521b2180 then pad ! 11 else pad ! 9)),
       cond (branch = 1) [exec (minor_31_e20 (\<lambda>_ _. 0x12)),
         exec (pad_add 0 (\<lambda>pad _. pad ! 6 * 0x3c)),
         call major_14_e20 (\<lambda>pad _. pad ! 15)],
       cond (branch = 8) [TRY (minor_5_e20),
         exec (pad_mul 18 (\<lambda>pad _. pad ! 10 + 0x466e09cf)),
         call major_6_e20 (\<lambda>pad _. pad ! 13)],
       cond (branch = 4) [exec (pad_add 9 (\<lambda>pad _. ROL (pad ! 4) 9)),
         exec (pad_mul 2 (\<lambda>pad _. pad ! 3 + 0xd6863a6)),
         call major_9_e20 (\<lambda>pad _. pad ! 16)],
       exec (pad_and 18 (\<lambda>pad _. my_sqrt (ucast (pad ! 9)))),
       cond (branch = 5) [TRY (minor_4_e20),
         exec (pad_xor 2 (\<lambda>pad _. push_bit 5 (pad ! 15))),
         call major_2_e20 (\<lambda>pad _. pad ! 2)],
       cond (branch = 6) [exec (pad_mul 2 (\<lambda>pad _. pad ! 3 + 0xd6863a6)),
         exec (pad_add 6 (\<lambda>pad _. 0xfe07af0e - pad ! 3)),
         call major_5_e20 (\<lambda>pad _. pad ! 14)],
       exec (pad_sub 18 (\<lambda>pad _. pad ! 16 * 0x77)),
       cond (branch = 9) [exec (pad_xor 4 (\<lambda>_ _. 0xa09619f7)),
         exec (pad_ror 4 (\<lambda>_ _. 0x19)),
         call major_12_e20 (\<lambda>pad _. pad ! 10)],
       cond (branch = 10) [exec (pad_xor 12 (\<lambda>pad _. pad ! 15 - 0xf5cfde0)),
         exec (pad_mul 13 (\<lambda>_ _. 0x6cd0251e)),
         call major_11_e20 (\<lambda>pad _. pad ! 0)],
       cond (branch = 6) [exec (pad_mul 2 (\<lambda>pad _. pad ! 3 + 0xd6863a6)),
         exec (pad_ror 4 (\<lambda>_ _. 0x1a)),
         call major_13_e20 (\<lambda>_ seed. seed)],
       exec (pad_xor 13 (\<lambda>_ seed. 0x4930de03 XOR seed)),
       cond (branch = 2) [exec (pad_add 10 (\<lambda>_ _. 0x6467451)),
         exec (pad_sub 4 (\<lambda>pad _. pad ! 17 XOR 0x2217cf47)),
         call major_3_e20 (\<lambda>pad _. pad ! 2)],
       cond (branch = 7) [exec (pad_sub 4 (\<lambda>pad _. pad ! 17 XOR 0x2217cf47)),
         exec (pad_add 0 (\<lambda>pad _. pad ! 18 XOR 0x4ac16b8d)),
         call major_21_e20 (\<lambda>pad _. pad ! 0)],
       exec (pad_sub 6 (\<lambda>pad _. my_sqrt (ucast (pad ! 10)))),
       cond (branch = 3) [TRY (minor_9_e20 (\<lambda>_ _. 0x5b9d1f9)),
         exec (pad_add 10 (\<lambda>_ _. 0x8958821)),
         call major_16_e20 (\<lambda>pad _. pad ! 8)],
       cond (branch = 4) [exec (pad_sub 13 (\<lambda>pad _. pad ! 1)),
         exec (pad_mul 13 (\<lambda>_ _. 0x72494c9c)),
         call major_1_e20 (\<lambda>_ seed. seed)],
       cond (branch = 13) [exec (pad_add 12 (\<lambda>pad _. pad ! 6 + 0x21d7bf61)),
         exec (pad_mul 13 (\<lambda>pad _. ROR (pad ! 3) 5)),
         call major_14_e20 (\<lambda>pad _. pad ! 2)],
       exec (seed_sub (\<lambda>pad _. ROR (pad ! 8) 17)),
       cond (branch = 15) [exec (pad_add 19 (\<lambda>pad _. 0x12b9e29d - pad ! 12)),
         exec (pad_add 0 (\<lambda>pad _. pad ! 6 * 0x3c)),
         call major_6_e20 (\<lambda>pad _. pad ! 4)],
       cond (branch = 2) [exec (pad_xor 19 (\<lambda>pad _. if my_cos (ucast (pad ! 9)) then 0x57337b8 else pad ! 14)),
         exec (minor_20_e20),
         call major_9_e20 (\<lambda>pad _. pad ! 16)],
       exec (pad_ror 14 (\<lambda>_ seed. seed - 0x3b46a63f)),
       cond (branch = 11) [exec (pad_xor 19 (\<lambda>pad _. if my_cos (ucast (pad ! 9)) then 0x57337b8 else pad ! 14)),
         exec (pad_add 9 (\<lambda>pad _. ROL (pad ! 4) 9)),
         call major_2_e20 (\<lambda>pad _. pad ! 9)],
       cond (branch = 5) [exec (pad_add 19 (\<lambda>pad _. 0x12b9e29d - pad ! 12)),
         TRY (minor_4_e20),
         call major_5_e20 (\<lambda>pad _. pad ! 6)],
       cond (branch = 0) [exec (minor_20_e20),
         exec (pad_xor 6 (\<lambda>_ _. 0xa9c74969)),
         call major_12_e20 (\<lambda>pad _. pad ! 14)],
       exec (pad_xor 8 (\<lambda>_ seed. ROR seed 6)),
       cond (branch = 14) [exec (pad_add 12 (\<lambda>_ _. 0x49fc5980)),
         exec (pad_sub 3 (\<lambda>pad _. pad ! 0 XOR 0x185f3b0d)),
         call major_11_e20 (\<lambda>_ seed. seed)],
       exec (pad_add 0 (\<lambda>pad _. if my_sin (ucast (pad ! 0)) then 0x9bcd446 else pad ! 14))] pad seed)"

definition major_8_e20 :: "u32 list \<Rightarrow> u32 \<Rightarrow> u32 list" where
  "major_8_e20 pad seed =
    (let branch = ((pad ! 2 XOR seed) XOR pad ! 17) AND 15
     in run_body [
       cond (branch = 7) [exec (pad_sub 13 (\<lambda>pad _. pad ! 1)),
         exec (minor_26_e20),
         call major_21_e20 (\<lambda>_ seed. seed)],
       cond (branch = 0) [exec (minor_35_e20),
         TRY (minor_2_e20 (\<lambda>_ _. 0xe0b52e33)),
         call major_16_e20 (\<lambda>pad _. pad ! 15)],
       exec (seed_sub (\<lambda>pad _. ROR (pad ! 2) 6)),
       cond (branch = 5) [exec (pad_xor 4 (\<lambda>_ _. 0x9aa940f)),
         exec (pad_add 5 (\<lambda>pad _. pad ! 0 XOR 0x3e17add3)),
         call major_1_e20 (\<lambda>pad _. pad ! 12)],
       cond (branch = 1) [exec (minor_22_e20),
         exec (minor_17_e20),
         call major_14_e20 (\<lambda>pad _. pad ! 1)],
       exec (pad_sub 12 (\<lambda>pad _. pad ! 17 * 0x74)),
       cond (branch = 1) [exec (pad_add 12 (\<lambda>pad _. pad ! 6 + 0x21d7bf61)),
         exec (pad_mul 13 (\<lambda>pad _. ROR (pad ! 3) 5)),
         call major_6_e20 (\<lambda>pad _. pad ! 5)],
       cond (branch = 14) [exec (pad_xor 4 (\<lambda>_ _. 0x91ac407e)),
         TRY (minor_7_e20),
         call major_9_e20 (\<lambda>_ seed. seed)],
       exec (pad_xor 3 (\<lambda>pad _. pad ! 7 + 0x137c9f7d)),
       cond (branch = 0) [exec (pad_and 7 (\<lambda>pad _. pad ! 13 XOR 0x21aaf758)),
         exec (pad_xor 2 (\<lambda>pad _. push_bit 5 (pad ! 15))),
         call major_2_e20 (\<lambda>pad _. pad ! 5)],
       cond (branch = 4) [exec (pad_add 10 (\<lambda>_ _. 0x8958821)),
         exec (pad_add 16 (\<lambda>_ _. 0x3d2948e4)),
         call major_5_e20 (\<lambda>pad _. pad ! 4)],
       cond (branch = 3) [exec (pad_sub 3 (\<lambda>pad _. pad ! 0 XOR 0x185f3b0d)),
         exec (pad_or 9 (\<lambda>pad _. pad ! 7 XOR 0x2a19119f)),
         call major_12_e20 (\<lambda>pad _. pad ! 12)],
       exec (pad_add 11 (\<lambda>pad _. if pad ! 17 < 0xc9a31cd6 then pad ! 17 else pad ! 4)),
       cond (branch = 4) [exec (pad_xor 9 (\<lambda>_ _. 0x1c686298)),
         exec (pad_xor 12 (\<lambda>pad _. pad ! 15 - 0xf5cfde0)),
         call major_11_e20 (\<lambda>pad _. pad ! 9)],
       cond (branch = 13) [exec (pad_or 7 (\<lambda>_ _. 0x378d3869)),
         TRY (minor_13_e20),
         call major_13_e20 (\<lambda>pad _. pad ! 13)],
       exec (seed_mul (\<lambda>pad _. pad ! 12 + 0xbd99f684)),
       cond (branch = 7) [exec (pad_add 6 (\<lambda>pad _. pad ! 19 - 0x3f5675d6)),
         exec (pad_xor 19 (\<lambda>pad _. if my_cos (ucast (pad ! 9)) then 0x57337b8 else pad ! 14)),
         call major_22_e20 (\<lambda>_ seed. seed)],
       cond (branch = 8) [exec (pad_mul 13 (\<lambda>_ _. 0x1dcee48b)),
         exec (minor_30_e20),
         call major_21_e20 (\<lambda>_ seed. seed)],
       exec (pad_add 10 (\<lambda>pad _. 0xaa3373fc - pad ! 6)),
       cond (branch = 5) [exec (minor_31_e20 (\<lambda>_ _. 0xe)),
         TRY (minor_1_e20 (\<lambda>_ _. 0xbc90d50)),
         call major_16_e20 (\<lambda>_ seed. seed)],
       cond (branch = 15) [exec (pad_or 9 (\<lambda>pad _. pad ! 7 XOR 0x2a19119f)),
         exec (pad_add 0 (\<lambda>pad _. pad ! 18 XOR 0x4ac16b8d)),
         call major_1_e20 (\<lambda>_ seed. seed)],
       cond (branch = 6) [exec (minor_34_e20),
         exec (pad_xor 2 (\<lambda>pad _. if my_sin (ucast (pad ! 13)) then 0xfd08092 else pad ! 10)),
         call major_14_e20 (\<lambda>_ seed. seed)],
       exec (seed_xor (\<lambda>pad _. if pad ! 11 < 0xa4dda95a then pad ! 11 else pad ! 2)),
       cond (branch = 6) [exec (pad_add 16 (\<lambda>_ _. 0x1a36972b)),
         exec (minor_17_e20),
         call major_6_e20 (\<lambda>pad _. pad ! 5)],
       cond (branch = 12) [TRY (minor_12_e20 (\<lambda>_ _. 0xb6571d3f)),
         exec (pad_add 0 (\<lambda>pad _. pad ! 6 * 0x3c)),
         call major_9_e20 (\<lambda>pad _. pad ! 9)],
       exec (seed_mul (\<lambda>pad _. pad ! 14 + 0x9baa8db)),
       cond (branch = 9) [TRY (minor_9_e20 (\<lambda>_ _. 0xe378a0ed)),
         exec (pad_add 5 (\<lambda>pad _. pad ! 0 XOR 0x3e17add3)),
         call major_2_e20 (\<lambda>pad _. pad ! 8)],
       cond (branch = 11) [TRY (minor_10_e20 (\<lambda>_ _. 0xbd149bd9)),
         exec (minor_32_e20 (\<lambda>_ _. 0x6476f303)),
         call major_5_e20 (\<lambda>_ seed. seed)],
       exec (pad_add 17 (\<lambda>pad _. my_sqrt (ucast (pad ! 12)))),
       cond (branch = 10) [exec (pad_mul 13 (\<lambda>_ _. 0xa02fe00)),
         exec (pad_add 12 (\<lambda>pad _. pad ! 6 + 0x21d7bf61)),
         call major_12_e20 (\<lambda>pad _. pad ! 19)],
       cond (branch = 3) [exec (pad_mul 13 (\<lambda>_ _. 0x111b84cd)),
         exec (minor_30_e20),
         call major_11_e20 (\<lambda>pad _. pad ! 2)],
       exec (pad_xor 7 (\<lambda>pad _. pad ! 9 * 0x27219096)),
       cond (branch = 2) [exec (pad_add 6 (\<lambda>pad _. pad ! 19 - 0x3f5675d6)),
         exec (pad_add 16 (\<lambda>_ _. 0xfe49a900)),
         call major_13_e20 (\<lambda>pad _. pad ! 15),
         TRY (minor_6_e20),
         exec (pad_xor 19 (\<lambda>pad _. if my_cos (ucast (pad ! 9)) then 0x57337b8 else pad ! 14)),
         call major_22_e20 (\<lambda>pad _. pad ! 19)],
       exec (pad_rol 2 (\<lambda>_ seed. 0x6c0798b3 XOR seed))] pad seed)"

definition major_10_e20 :: "u32 list \<Rightarrow> u32 \<Rightarrow> u32 list" where
  "major_10_e20 pad seed =
    (let branch = ((pad ! 4 XOR pad ! 12) XOR pad ! 17) AND 15
     in run_body [
       cond (branch = 9) [TRY (minor_12_e20 (\<lambda>_ _. 0x9febcd24)),
         exec (pad_and 7 (\<lambda>_ _. 0x259cf308)),
         call major_16_e20 (\<lambda>pad _. pad ! 14)],
       cond (branch = 4) [exec (pad_xor 6 (\<lambda>_ _. 0xa7e6f9b9)),
         exec (pad_mul 10 (\<lambda>pad _. pad ! 10 - 0x5eae6bf)),
         call major_1_e20 (\<lambda>pad _. pad ! 2)],
       exec (pad_add 9 (\<lambda>pad _. if pad ! 11 < 0x3d7f80c then pad ! 11 else pad ! 9)),
       cond (branch = 2) [exec (pad_add 12 (\<lambda>pad _. pad ! 6 + 0x21d7bf61)),
         exec (pad_or 14 (\<lambda>pad _. pad ! 3 XOR 0x4345732)),
         call major_9_e20 (\<lambda>pad _. pad ! 1)],
       cond (branch = 6) [TRY (minor_10_e20 (\<lambda>_ _. 0xece6bfa0)),
         exec (pad_or 14 (\<lambda>pad _. pad ! 3 XOR 0x4345732)),
         call major_14_e20 (\<lambda>_ seed. seed)],
       cond (branch = 8) [TRY (minor_7_e20),
         exec (pad_mul 18 (\<lambda>pad _. pad ! 10 + 0x466e09cf)),
         call major_6_e20 (\<lambda>pad _. pad ! 12)],
       exec (pad_mul 10 (\<lambda>pad seed. if my_cos (ucast seed) then 0x16b578ee else pad ! 2)),
       cond (branch = 6) [exec (minor_19_e20),
         exec (minor_29_e20),
         call major_2_e20 (\<lambda>pad _. pad ! 10)],
       cond (branch = 13) [exec (pad_xor 9 (\<lambda>pad _. pad ! 7 * 0x44)),
         exec (minor_35_e20),
         call major_5_e20 (\<lambda>pad _. pad ! 10)],
       exec (pad_add 17 (\<lambda>_ seed. seed * 0x4d)),
       cond (branch = 1) [exec (minor_26_e20),
         exec (pad_xor 19 (\<lambda>pad _. if my_cos (ucast (pad ! 9)) then 0x57337b8 else pad ! 14)),
         call major_12_e20 (\<lambda>_ seed. seed),
         exec (pad_xor 19 (\<lambda>pad _. pad ! 15 XOR 0x3574ed3)),
         exec (pad_add 10 (\<lambda>_ _. 0x9f2550bd)),
         call major_13_e20 (\<lambda>_ seed. seed)],
       cond (branch = 14) [TRY (minor_8_e20),
         exec (minor_31_e20 (\<lambda>_ _. 0x7)),
         call major_11_e20 (\<lambda>pad _. pad ! 19)],
       exec (seed_rol (\<lambda>pad _. pad ! 7 * 0xd)),
       cond (branch = 12) [exec (pad_and 9 (\<lambda>_ _. 0x2f23cdc6)),
         exec (pad_mul 10 (\<lambda>pad _. pad ! 10 - 0x5eae6bf)),
         call major_22_e20 (\<lambda>pad _. pad ! 2)],
       cond (branch = 3) [exec (minor_28_e20),
         exec (minor_26_e20),
         call major_8_e20 (\<lambda>pad _. pad ! 4),
         exec (pad_mul 12 (\<lambda>pad _. pad ! 12)),
         TRY (minor_6_e20),
         call major_16_e20 (\<lambda>pad _. pad ! 18)],
       exec (pad_add 4 (\<lambda>pad _. if my_sin (ucast (pad ! 0)) then 0x1873296 else pad ! 1)),
       cond (branch = 10) [exec (minor_26_e20),
         TRY (minor_13_e20),
         call major_1_e20 (\<lambda>pad _. pad ! 8)],
       cond (branch = 4) [exec (pad_mul 12 (\<lambda>_ _. 0xf44cb55)),
         exec (pad_add 16 (\<lambda>_ _. 0x75a864cf)),
         call major_14_e20 (\<lambda>pad _. pad ! 4)],
       exec (pad_add 12 (\<lambda>pad _. 0x1c0bd6db - pad ! 11)),
       cond (branch = 2) [exec (pad_mul 13 (\<lambda>_ _. 0x17b441db)),
         TRY (minor_12_e20 (\<lambda>_ _. 0x8951503f)),
         call major_9_e20 (\<lambda>pad _. pad ! 19)],
       cond (branch = 7) [TRY (minor_7_e20),
         exec (minor_26_e20),
         call major_6_e20 (\<lambda>pad _. pad ! 14)],
       cond (branch = 11) [exec (pad_add 0 (\<lambda>pad _. pad ! 6 * 0x3c)),
         exec (pad_sub 4 (\<lambda>pad _. pad ! 17 XOR 0x2217cf47)),
         call major_2_e20 (\<lambda>pad _. pad ! 8)],
       exec (pad_sub 18 (\<lambda>pad _. pad ! 6 * 0x2c)),
       cond (branch = 0) [exec (pad_mul 13 (\<lambda>_ _. 0x1855aabc)),
         TRY (minor_3_e20),
         call major_12_e20 (\<lambda>_ seed. seed)],
       cond (branch = 5) [exec (pad_mul 18 (\<lambda>pad _. pad ! 10 + 0x466e09cf)),
         exec (pad_xor 9 (\<lambda>pad _. pad ! 7 * 0x44)),
         call major_11_e20 (\<lambda>pad _. pad ! 10)],
       cond (branch = 7) [exec (pad_mul 18 (\<lambda>pad _. pad ! 10 + 0x466e09cf)),
         exec (minor_29_e20),
         call major_5_e20 (\<lambda>pad _. pad ! 15)],
       exec (pad_xor 6 (\<lambda>pad _. pad ! 16 XOR 0x354e354d)),
       cond (branch = 0) [TRY (minor_8_e20),
         exec (minor_22_e20),
         call major_8_e20 (\<lambda>pad _. pad ! 8)],
       cond (branch = 5) [exec (pad_add 6 (\<lambda>pad _. 0xfe07af0e - pad ! 3)),
         exec (pad_mul 13 (\<lambda>_ _. 0xa02fe00)),
         call major_16_e20 (\<lambda>pad _. pad ! 10)],
       cond (branch = 8) [exec (pad_or 14 (\<lambda>pad _. pad ! 3 XOR 0x4345732)),
         exec (minor_32_e20 (\<lambda>_ _. 0x8a0e1ad7)),
         call major_22_e20 (\<lambda>pad _. pad ! 8)],
       cond (branch = 15) [exec (pad_or 9 (\<lambda>pad _. pad ! 7 XOR 0x2a19119f)),
         exec (minor_28_e20),
         call major_13_e20 (\<lambda>_ seed. seed)],
       exec (pad_add 3 (\<lambda>pad _. pad ! 13 + 0x3ba9c809))] pad seed)"

definition major_7_e20 :: "u32 list \<Rightarrow> u32 \<Rightarrow> u32 list" where
  "major_7_e20 pad seed =
    (let branch = ((pad ! 10 XOR pad ! 11) XOR pad ! 18) AND 15
     in run_body [
       cond (branch = 3) [exec (minor_27_e20),
         TRY (minor_2_e20 (\<lambda>_ _. 0x54bcde17)),
         call major_1_e20 (\<lambda>pad _. pad ! 14)],
       cond (branch = 9) [exec (pad_and 7 (\<lambda>pad _. pad ! 13 XOR 0x21aaf758)),
         exec (pad_sub 13 (\<lambda>pad _. pad ! 1)),
         call major_14_e20 (\<lambda>pad _. pad ! 12)],
       exec (pad_or 8 (\<lambda>pad _. 0xc6ef5e80 + pad ! 1)),
       cond (branch = 2) [exec (pad_add 6 (\<lambda>pad _. pad ! 19 - 0x3f5675d6)),
         exec (pad_add 6 (\<lambda>pad _. 0xfe07af0e - pad ! 3)),
         call major_6_e20 (\<lambda>pad _. pad ! 16)],
       cond (branch = 5) [exec (pad_sub 5 (\<lambda>pad _. pad ! 15)),
         exec (pad_add 16 (\<lambda>_ _. 0x3fa3dc2f)),
         call major_9_e20 (\<lambda>pad _. pad ! 5)],
       cond (branch = 1) [exec (pad_add 13 (\<lambda>pad _. if pad ! 15 < 0x137bffeb then pad ! 15 else pad ! 11)),
         exec (pad_or 14 (\<lambda>pad _. pad ! 3 XOR 0x4345732)),
         call major_2_e20 (\<lambda>pad _. pad ! 3)],
       exec (pad_sub 15 (\<lambda>pad _. 0xc6ef5e80 + pad ! 19)),
       cond (branch = 4) [exec (pad_xor 2 (\<lambda>pad _. push_bit 5 (pad ! 15))),
         exec (minor_28_e20),
         call major_5_e20 (\<lambda>pad _. pad ! 7)],
       cond (branch = 1) [exec (pad_add 0 (\<lambda>pad _. pad ! 6 * 0x3c)),
         exec (minor_31_e20 (\<lambda>_ _. 0x15)),
         call major_12_e20 (\<lambda>pad _. pad ! 16)],
       cond (branch = 9) [exec (pad_add 5 (\<lambda>pad _. pad ! 0 XOR 0x3e17add3)),
         exec (pad_and 9 (\<lambda>_ _. 0x4bd89b02)),
         call major_11_e20 (\<lambda>pad _. pad ! 19)],
       exec (seed_sub (\<lambda>pad _. pad ! 0 XOR 0x3b61016b)),
       cond (branch = 4) [exec (pad_sub 5 (\<lambda>pad _. pad ! 15)),
         TRY (minor_9_e20 (\<lambda>_ _. 0x1984a749)),
         call major_13_e20 (\<lambda>pad _. pad ! 3)],
       cond (branch = 3) [exec (pad_add 9 (\<lambda>pad _. ROL (pad ! 4) 9)),
         exec (minor_28_e20),
         call major_22_e20 (\<lambda>pad _. pad ! 4)],
       cond (branch = 7) [TRY (minor_3_e20),
         exec (minor_31_e20 (\<lambda>_ _. 0xd)),
         call major_8_e20 (\<lambda>pad _. pad ! 5)],
       exec (pad_rol 11 (\<lambda>pad _. pad ! 10 XOR 0x1a)),
       cond (branch = 8) [exec (pad_sub 18 (\<lambda>pad _. pad ! 13 XOR 0x154abcdf)),
         exec (pad_add 19 (\<lambda>pad _. 0x12b9e29d - pad ! 12)),
         call major_10_e20 (\<lambda>_ seed. seed)],
       cond (branch = 14) [exec (pad_add 19 (\<lambda>pad _. 0x12b9e29d - pad ! 12)),
         exec (pad_ror 9 (\<lambda>_ _. 3)),
         call major_1_e20 (\<lambda>_ seed. seed)],
       exec (seed_sub (\<lambda>pad _. pad ! 14 * 0xc02e189f)),
       cond (branch = 0) [exec (pad_xor 6 (\<lambda>_ _. 0x94eaa20d)),
         exec (minor_27_e20),
         call major_14_e20 (\<lambda>pad _. pad ! 6)],
       cond (branch = 13) [exec (pad_add 12 (\<lambda>_ _. 0x2ac57dfa)),
         exec (pad_xor 2 (\<lambda>pad _. push_bit 5 (pad ! 15))),
         call major_6_e20 (\<lambda>pad _. pad ! 4)],
       cond (branch = 8) [exec (pad_mul 18 (\<lambda>pad _. pad ! 10 + 0x466e09cf)),
         exec (pad_sub 13 (\<lambda>pad _. pad ! 1)),
         call major_9_e20 (\<lambda>_ seed. seed)],
       exec (pad_add 4 (\<lambda>_ seed. 0xa207344d - seed)),
       cond (branch = 12) [TRY (minor_2_e20 (\<lambda>_ _. 0x80a1da17)),
         exec (pad_mul 13 (\<lambda>_ _. 0xa02fe00)),
         call major_2_e20 (\<lambda>pad _. pad ! 3)],
       cond (branch = 2) [exec (pad_mul 13 (\<lambda>_ _. 0x6aa5cc8c)),
         exec (pad_xor 6 (\<lambda>_ _. 0xaefb322)),
         call major_5_e20 (\<lambda>pad _. pad ! 9)],
       cond (branch = 0) [exec (minor_31_e20 (\<lambda>_ _. 0xb)),
         exec (pad_add 5 (\<lambda>pad _. pad ! 0 XOR 0x3e17add3)),
         call major_12_e20 (\<lambda>pad _. pad ! 5)],
       exec (seed_xor (\<lambda>pad _. pad ! 18 XOR 0xe6830c9)),
       cond (branch = 6) [exec (pad_or 9 (\<lambda>pad _. pad ! 7 XOR 0x2a19119f)),
         exec (pad_and 7 (\<lambda>pad _. pad ! 13 XOR 0x21aaf758)),
         call major_11_e20 (\<lambda>_ seed. seed)],
       cond (branch = 7) [exec (pad_sub 3 (\<lambda>pad _. pad ! 0 XOR 0x185f3b0d)),
         TRY (minor_2_e20 (\<lambda>_ _. 0xb11da063)),
         call major_13_e20 (\<lambda>pad _. pad ! 3)],
       cond (branch = 15) [exec (minor_34_e20),
         exec (pad_xor 4 (\<lambda>_ _. 0x41e634f6)),
         call major_22_e20 (\<lambda>pad _. pad ! 17)],
       exec (pad_xor 0 (\<lambda>pad seed. if my_sin (ucast seed) then 0x8b50cd51 else pad ! 8)),
       cond (branch = 11) [exec (minor_28_e20),
         exec (pad_xor 2 (\<lambda>pad _. push_bit 5 (pad ! 15))),
         call major_8_e20 (\<lambda>_ seed. seed)],
       cond (branch = 5) [exec (pad_add 9 (\<lambda>pad _. ROL (pad ! 4) 9)),
         exec (pad_and 7 (\<lambda>pad _. pad ! 13 XOR 0x21aaf758)),
         call major_10_e20 (\<lambda>pad _. pad ! 16)],
       exec (seed_add (\<lambda>pad _. pad ! 1 * 0x3e)),
       cond (branch = 6) [exec (minor_34_e20),
         exec (pad_ror 4 (\<lambda>_ _. 0x9)),
         call major_1_e20 (\<lambda>pad _. pad ! 12)],
       cond (branch = 10) [exec (minor_22_e20),
         exec (pad_xor 12 (\<lambda>pad _. pad ! 15 - 0xf5cfde0)),
         call major_14_e20 (\<lambda>_ seed. seed)],
       exec (pad_xor 1 (\<lambda>pad _. pad ! 2 AND 0x3b627777))] pad seed)"

definition mix_e20 :: "u32 list \<Rightarrow> u32 \<Rightarrow> u32 list" where
  "mix_e20 pad seed =
    (let branch = ((pad ! 5 XOR pad ! 9) XOR pad ! 19) AND 15
     in run_body [
       switch branch [
         (0, [exec (pad_xor 2 (\<lambda>pad _. if my_sin (ucast (pad ! 13)) then 0xfd08092 else pad ! 10)),
             TRY (minor_5_e20),
             call major_5_e20 (\<lambda>_ _. 0x45835eb3)]),
         (5, [TRY (minor_8_e20),
             exec (pad_add 12 (\<lambda>_ _. 0x33bd47dd)),
             call major_6_e20 (\<lambda>pad _. pad ! 9)]),
         (8, [exec (minor_28_e20),
             exec (pad_add 6 (\<lambda>pad _. pad ! 19 - 0x3f5675d6)),
             call major_9_e20 (\<lambda>pad _. pad ! 10)]),
         (9, [TRY (minor_7_e20),
             TRY (minor_13_e20),
             call major_14_e20 (\<lambda>_ seed. seed)]),
         (10, [TRY (minor_5_e20),
             exec (pad_xor 6 (\<lambda>_ _. 0x33b5c9ac)),
             call major_2_e20 (\<lambda>pad _. pad ! 0)])],
       exec (pad_xor 2 (\<lambda>pad _. pad ! 6 + 0x1847de17)),
       switch branch [
         (1, [exec (pad_xor 9 (\<lambda>_ _. 0x1df05ea2)),
             exec (pad_add 19 (\<lambda>pad _. 0x12b9e29d - pad ! 12)),
             call major_12_e20 (\<lambda>_ _. 0x45835eb3)]),
         (10, [exec (minor_28_e20),
             exec (pad_mul 12 (\<lambda>pad _. pad ! 12)),
             call major_11_e20 (\<lambda>pad _. pad ! 6)])],
       exec (pad_add 19 (\<lambda>pad _. pad ! 12 * 0x68)),
       switch branch [
         (2, [exec (minor_28_e20),
             exec (pad_xor 12 (\<lambda>pad _. pad ! 15 - 0xf5cfde0)),
             call major_13_e20 (\<lambda>pad _. pad ! 19),
             exec (pad_add 6 (\<lambda>pad _. pad ! 19 - 0x3f5675d6)),
             exec (pad_add 12 (\<lambda>_ _. 0x602283af)),
             call major_22_e20 (\<lambda>pad _. pad ! 0)]),
         (6, [TRY (minor_1_e20 (\<lambda>_ _. 0x706a6bc)),
             TRY (minor_2_e20 (\<lambda>_ _. 0x82b598a1)),
             call major_8_e20 (\<lambda>_ _. 0x45835eb3)])],
       exec (pad_sub 7 (\<lambda>pad _. pad ! 14 AND 0x1ada7fa)),
       switch branch [
         (4, [exec (minor_20_e20),
             exec (pad_add 12 (\<lambda>pad _. pad ! 6 + 0x21d7bf61)),
             call major_10_e20 (\<lambda>pad _. pad ! 16)]),
         (6, [TRY (minor_7_e20),
             TRY (minor_2_e20 (\<lambda>_ _. 0xd2950f8c)),
             call major_7_e20 (\<lambda>_ _. 0x45835eb3)])],
       exec (seed_set (\<lambda>pad _. (pad ! 0 + 0xd092d1bb) AND 0x45835eb3)),
       switch branch [
         (3, [TRY (minor_5_e20),
             exec (pad_and 7 (\<lambda>pad _. pad ! 13 XOR 0x21aaf758)),
             call major_9_e20 (\<lambda>pad _. pad ! 17)]),
         (4, [exec (pad_sub 13 (\<lambda>pad _. pad ! 1)),
             exec (pad_mul 18 (\<lambda>pad _. pad ! 10 + 0x466e09cf)),
             call major_14_e20 (\<lambda>pad _. pad ! 5)]),
         (7, [TRY (minor_9_e20 (\<lambda>_ _. 0x6d32760)),
             exec (pad_xor 9 (\<lambda>pad _. pad ! 7 * 0x44)),
             call major_6_e20 (\<lambda>pad _. pad ! 8)])],
       exec (pad_rol 8 (\<lambda>pad _. pad ! 3 XOR 0x6)),
       switch branch [
         (0, [exec (pad_and 7 (\<lambda>pad _. pad ! 13 XOR 0x21aaf758)),
             exec (pad_or 14 (\<lambda>pad _. pad ! 3 XOR 0x4345732)),
             call major_12_e20 (\<lambda>pad _. pad ! 9)]),
         (5, [exec (minor_22_e20),
             exec (minor_29_e20),
             call major_2_e20 (\<lambda>pad _. pad ! 1)]),
         (9, [exec (pad_sub 13 (\<lambda>pad _. pad ! 1)),
             TRY (minor_7_e20),
             call major_5_e20 (\<lambda>pad _. pad ! 2)])],
       exec (pad_mul 9 (\<lambda>pad _. pad ! 14 OR 0xbbf1fbef)),
       switch branch [
         (15, [exec (pad_add 12 (\<lambda>pad _. pad ! 6 XOR 0x211f5e40)),
             exec (pad_add 5 (\<lambda>pad _. pad ! 0 XOR 0x3e17add3)),
             call major_11_e20 (\<lambda>pad _. pad ! 8)]),
         (12, [exec (pad_xor 19 (\<lambda>pad _. pad ! 15 XOR 0x3574ed3)),
             exec (minor_30_e20),
             call major_13_e20 (\<lambda>pad _. pad ! 16)])],
       exec (seed_mul (\<lambda>pad _. my_sqrt (ucast (pad ! 1)))),
       switch branch [
         (11, [exec (minor_32_e20 (\<lambda>_ _. 0x678aae2c)),
             exec (minor_22_e20),
             call major_22_e20 (\<lambda>pad _. pad ! 11)]),
         (14, [exec (pad_mul 13 (\<lambda>pad _. ROR (pad ! 3) 5)),
             exec (minor_35_e20),
             call major_8_e20 (\<lambda>pad _. pad ! 18)]),
         (7, [exec (pad_ror 4 (\<lambda>_ _. 0x2)),
             exec (pad_ror 9 (\<lambda>_ _. 4)),
             call major_10_e20 (\<lambda>pad _. pad ! 0)])],
       exec (pad_sub 3 (\<lambda>pad _. pad ! 7 XOR 0x4e46f05d)),
       switch branch [
         (3, [exec (pad_xor 7 (\<lambda>_ _. 0xeda01e71)),
             exec (pad_sub 13 (\<lambda>pad _. pad ! 1)),
             call major_7_e20 (\<lambda>pad _. pad ! 11)]),
         (8, [exec (pad_xor 2 (\<lambda>pad _. if my_sin (ucast (pad ! 13)) then 0xfd08092 else pad ! 10)),
             exec (pad_add 9 (\<lambda>pad _. ROL (pad ! 4) 9)),
             call major_14_e20 (\<lambda>pad _. pad ! 2)])],
       exec (pad_xor 19 (\<lambda>_ seed. 0xb1bdd560 XOR seed)),
       switch branch [
         (1, [exec (pad_xor 12 (\<lambda>pad _. pad ! 15 - 0xf5cfde0)),
             exec (pad_mul 12 (\<lambda>pad _. pad ! 12)),
             call major_9_e20 (\<lambda>pad _. pad ! 5)]),
         (13, [exec (pad_mul 18 (\<lambda>pad _. pad ! 10 + 0x466e09cf)),
             exec (pad_xor 2 (\<lambda>pad _. push_bit 5 (pad ! 15))),
             call major_6_e20 (\<lambda>pad _. pad ! 15)])],
       exec (pad_xor 6 (\<lambda>pad _. my_sqrt (ucast (pad ! 5))))] pad seed)"

definition enc_type_20 :: "u32 list \<Rightarrow> u32 \<Rightarrow> u32 list" where
  "enc_type_20 pad seed = mix_e20 pad seed"

section \<open>Frames\<close>

lemma minor_36_e20_frame [frame_simps]: "fun_frame (\<lambda>pad _. minor_36_e20 pad)"
  unfolding minor_36_e20_def [abs_def]
  by (rule fun_frame_plain1) (simp_all add: frame_simps asg_defs minor_defs_e20 expr_frame_def nth_pad)

lemma minor_37_e20_frame [frame_simps]: "fun_frame (\<lambda>pad _. minor_37_e20 pad)"
  unfolding minor_37_e20_def [abs_def]
  by (rule fun_frame_plain1) (simp_all add: frame_simps asg_defs minor_defs_e20 expr_frame_def nth_pad)

lemma major_23_e20_frame [frame_simps]: "fun_frame major_23_e20"
  unfolding major_23_e20_def [abs_def]
  by (rule fun_frame_branch) (simp_all add: frame_simps asg_defs minor_defs_e20 expr_frame_def nth_pad)

lemma major_24_e20_frame [frame_simps]: "fun_frame major_24_e20"
  unfolding major_24_e20_def [abs_def]
  by (rule fun_frame_branch) (simp_all add: frame_simps asg_defs minor_defs_e20 expr_frame_def nth_pad)

lemma major_19_e20_frame [frame_simps]: "fun_frame major_19_e20"
  unfolding major_19_e20_def [abs_def]
  by (rule fun_frame_branch) (simp_all add: frame_simps asg_defs minor_defs_e20 expr_frame_def nth_pad)

lemma major_25_e20_frame [frame_simps]: "fun_frame major_25_e20"
  unfolding major_25_e20_def [abs_def]
  by (rule fun_frame_branch) (simp_all add: frame_simps asg_defs minor_defs_e20 expr_frame_def nth_pad)

lemma major_17_e20_frame [frame_simps]: "fun_frame major_17_e20"
  unfolding major_17_e20_def [abs_def]
  by (rule fun_frame_branch) (simp_all add: frame_simps asg_defs minor_defs_e20 expr_frame_def nth_pad)

lemma major_4_e20_frame [frame_simps]: "fun_frame major_4_e20"
  unfolding major_4_e20_def [abs_def]
  by (rule fun_frame_branch) (simp_all add: frame_simps asg_defs minor_defs_e20 expr_frame_def nth_pad)

lemma major_18_e20_frame [frame_simps]: "fun_frame major_18_e20"
  unfolding major_18_e20_def [abs_def]
  by (rule fun_frame_branch) (simp_all add: frame_simps asg_defs minor_defs_e20 expr_frame_def nth_pad)

lemma major_15_e20_frame [frame_simps]: "fun_frame major_15_e20"
  unfolding major_15_e20_def [abs_def]
  by (rule fun_frame_branch) (simp_all add: frame_simps asg_defs minor_defs_e20 expr_frame_def nth_pad)

lemma major_3_e20_frame [frame_simps]: "fun_frame major_3_e20"
  unfolding major_3_e20_def [abs_def]
  by (rule fun_frame_branch) (simp_all add: frame_simps asg_defs minor_defs_e20 expr_frame_def nth_pad)

lemma major_21_e20_frame [frame_simps]: "fun_frame major_21_e20"
  unfolding major_21_e20_def [abs_def]
  by (rule fun_frame_branch) (simp_all add: frame_simps asg_defs minor_defs_e20 expr_frame_def nth_pad)

lemma major_16_e20_frame [frame_simps]: "fun_frame major_16_e20"
  unfolding major_16_e20_def [abs_def]
  by (rule fun_frame_branch) (simp_all add: frame_simps asg_defs minor_defs_e20 expr_frame_def nth_pad)

lemma major_1_e20_frame [frame_simps]: "fun_frame major_1_e20"
  unfolding major_1_e20_def [abs_def]
  by (rule fun_frame_branch) (simp_all add: frame_simps asg_defs minor_defs_e20 expr_frame_def nth_pad)

lemma major_14_e20_frame [frame_simps]: "fun_frame major_14_e20"
  unfolding major_14_e20_def [abs_def]
  by (rule fun_frame_branch) (simp_all add: frame_simps asg_defs minor_defs_e20 expr_frame_def nth_pad)

lemma major_6_e20_frame [frame_simps]: "fun_frame major_6_e20"
  unfolding major_6_e20_def [abs_def]
  by (rule fun_frame_branch) (simp_all add: frame_simps asg_defs minor_defs_e20 expr_frame_def nth_pad)

lemma major_9_e20_frame [frame_simps]: "fun_frame major_9_e20"
  unfolding major_9_e20_def [abs_def]
  by (rule fun_frame_branch) (simp_all add: frame_simps asg_defs minor_defs_e20 expr_frame_def nth_pad)

lemma major_2_e20_frame [frame_simps]: "fun_frame major_2_e20"
  unfolding major_2_e20_def [abs_def]
  by (rule fun_frame_branch) (simp_all add: frame_simps asg_defs minor_defs_e20 expr_frame_def nth_pad)

lemma major_5_e20_frame [frame_simps]: "fun_frame major_5_e20"
  unfolding major_5_e20_def [abs_def]
  by (rule fun_frame_branch) (simp_all add: frame_simps asg_defs minor_defs_e20 expr_frame_def nth_pad)

lemma major_12_e20_frame [frame_simps]: "fun_frame major_12_e20"
  unfolding major_12_e20_def [abs_def]
  by (rule fun_frame_branch) (simp_all add: frame_simps asg_defs minor_defs_e20 expr_frame_def nth_pad)

lemma major_11_e20_frame [frame_simps]: "fun_frame major_11_e20"
  unfolding major_11_e20_def [abs_def]
  by (rule fun_frame_branch) (simp_all add: frame_simps asg_defs minor_defs_e20 expr_frame_def nth_pad)

lemma major_13_e20_frame [frame_simps]: "fun_frame major_13_e20"
  unfolding major_13_e20_def [abs_def]
  by (rule fun_frame_branch) (simp_all add: frame_simps asg_defs minor_defs_e20 expr_frame_def nth_pad)

lemma major_22_e20_frame [frame_simps]: "fun_frame major_22_e20"
  unfolding major_22_e20_def [abs_def]
  by (rule fun_frame_branch) (simp_all add: frame_simps asg_defs minor_defs_e20 expr_frame_def nth_pad)

lemma major_8_e20_frame [frame_simps]: "fun_frame major_8_e20"
  unfolding major_8_e20_def [abs_def]
  by (rule fun_frame_branch) (simp_all add: frame_simps asg_defs minor_defs_e20 expr_frame_def nth_pad)

lemma major_10_e20_frame [frame_simps]: "fun_frame major_10_e20"
  unfolding major_10_e20_def [abs_def]
  by (rule fun_frame_branch) (simp_all add: frame_simps asg_defs minor_defs_e20 expr_frame_def nth_pad)

lemma major_7_e20_frame [frame_simps]: "fun_frame major_7_e20"
  unfolding major_7_e20_def [abs_def]
  by (rule fun_frame_branch) (simp_all add: frame_simps asg_defs minor_defs_e20 expr_frame_def nth_pad)

lemma mix_e20_frame [frame_simps]: "fun_frame mix_e20"
  unfolding mix_e20_def [abs_def]
  by (rule fun_frame_branch) (simp_all add: frame_simps asg_defs minor_defs_e20 expr_frame_def nth_pad)

lemma enc_type_20_frame: "fun_frame enc_type_20"
  unfolding enc_type_20_def [abs_def] by (rule mix_e20_frame)

section \<open>Properties\<close>

text \<open>C39: Whatever the pad, the seed and the memory behind the pad, \<open>enc_type_20\<close> keeps the pad at
  20 words, reads nothing behind it and leaves what is behind it as it was: on every path
  through the branches and the early returns no index leaves the pad.\<close>

theorem enc_type_20_in_bounds:
  assumes "length pad = 20"
  shows "length (enc_type_20 pad seed) = 20 \<and> enc_type_20 (pad @ rest) seed = enc_type_20 pad seed @ rest"
  using enc_type_20_frame assms by (simp add: fun_frame_def)

lemma enc_type_20_in_bounds_witness:
  "length (enc_type_20 (replicate 20 7) 3) = 20 \<and>
   enc_type_20 (replicate 20 7 @ [1, 2]) 3 = enc_type_20 (replicate 20 7) 3 @ [1, 2]"
  using enc_type_20_in_bounds [of "replicate 20 7" 3 "[1, 2]"] by simp

end
