(* ===== verification/FST_Enc80.thy ===== *)
theory FST_Enc80
  imports FST_Pad
begin

text \<open>
  The pad mixer of \<^verbatim>\<open>src/src/networks/fasttrack/enc_type_80.c\<close>: one definition per macro and
  per function, each statement of a function one element of its list. Every
  definition reads the pad and the seed as they are when the statement runs. The functions
  call each other without recursion, so they are defined callees first. Shown: the mixer
  reads and writes nothing but the 20 words of its pad.
\<close>

text \<open>In this file the rotations are functions, which reduce the count modulo 32 from its low
  byte.\<close>

definition ROR_e80 :: "u32 \<Rightarrow> u32 \<Rightarrow> u32" where
  "ROR_e80 v count =
     (let count = unat ((count AND 0xff) mod 32)
      in drop_bit count v OR push_bit (32 - count) v)"

definition ROL_e80 :: "u32 \<Rightarrow> u32 \<Rightarrow> u32" where
  "ROL_e80 v count =
     (let count = unat ((count AND 0xff) mod 32)
      in push_bit count v OR drop_bit (32 - count) v)"

section \<open>The small steps\<close>

definition minor_23_e80 :: asg where
  "minor_23_e80 = pad_add 5 (\<lambda>pad _. pad ! 4 * 73)"

definition minor_24_e80 :: asg where
  "minor_24_e80 = pad_add 0 (\<lambda>pad _. pad ! 5 AND 0x1b65b2c8)"

definition minor_25_e80 :: asg where
  "minor_25_e80 = pad_add 9 (\<lambda>pad _. pad ! 6 + 0x124d08a0)"

definition minor_26_e80 :: asg where
  "minor_26_e80 = pad_xor 16 (\<lambda>pad _. push_bit 1 (pad ! 0 * 41))"

definition minor_27_e80 :: asg where
  "minor_27_e80 = pad_xor 14 (\<lambda>pad _. pad ! 10 - 0x403483ce)"

definition minor_28_e80 :: asg where
  "minor_28_e80 = pad_xor 3 (\<lambda>pad _. push_bit 1 (pad ! 11 * 41))"

definition minor_29_e80 :: "(u32 list \<Rightarrow> u32 \<Rightarrow> u32) \<Rightarrow> asg" where
  "minor_29_e80 x = pad_set 10 (\<lambda>pad seed. ROL_e80 (pad ! 10) (x pad seed))"

definition minor_30_e80 :: asg where
  "minor_30_e80 = pad_set 1 (\<lambda>pad _. ROR_e80 (pad ! 1) (push_bit 4 (pad ! 8 * 7)))"

definition minor_31_e80 :: asg where
  "minor_31_e80 = pad_mul 10 (\<lambda>pad _. ROL_e80 (pad ! 1) 0xc)"

definition minor_32_e80 :: "(u32 list \<Rightarrow> u32 \<Rightarrow> u32) \<Rightarrow> asg" where
  "minor_32_e80 x = pad_set 18 (\<lambda>pad seed. ROL_e80 (pad ! 18) (x pad seed - 0xe066bf0))"

definition minor_33_e80 :: "(u32 list \<Rightarrow> u32 \<Rightarrow> u32) \<Rightarrow> asg" where
  "minor_33_e80 x = pad_sub 18 (\<lambda>pad seed. x pad seed)"

definition minor_34_e80 :: asg where
  "minor_34_e80 = pad_or 16 (\<lambda>pad _. pad ! 18 OR 0xb25175e)"

definition minor_35_e80 :: asg where
  "minor_35_e80 = pad_or 2 (\<lambda>pad _. pad ! 15 - 0x1886d6a)"

definition minor_36_e80 :: asg where
  "minor_36_e80 = pad_sub 16 (\<lambda>pad _. ROL_e80 (pad ! 3) 0x1b)"

definition minor_37_e80 :: asg where
  "minor_37_e80 = pad_or 11 (\<lambda>pad _. pad ! 13 * 9)"

definition minor_38_e80 :: asg where
  "minor_38_e80 = pad_and 6 (\<lambda>pad _. pad ! 19 XOR 0x1faf0f41)"

definition minor_39_e80 :: asg where
  "minor_39_e80 = pad_set 4 (\<lambda>pad _. ROR_e80 (pad ! 4) (push_bit 3 (pad ! 17 * 11)))"

definition minor_40_e80 :: asg where
  "minor_40_e80 = pad_mul 17 (\<lambda>pad _. pad ! 6)"

definition minor_41_e80 :: asg where
  "minor_41_e80 = pad_xor 3 (\<lambda>pad _. pad ! 9 + 0x5b1a81fd)"

definition minor_42_e80 :: asg where
  "minor_42_e80 = pad_mul 17 (\<lambda>pad _. ROR_e80 (pad ! 10) 0x1a)"

definition minor_43_e80 :: asg where
  "minor_43_e80 = pad_xor 19 (\<lambda>pad _. pad ! 3 XOR 0x19859c46)"

definition minor_44_e80 :: asg where
  "minor_44_e80 = pad_add 16 (\<lambda>pad _. pad ! 1 + 0x5edb78da)"

definition minor_45_e80 :: asg where
  "minor_45_e80 = pad_set 12 (\<lambda>pad _. ROL_e80 (pad ! 12) (push_bit 1 (pad ! 3 * 43)))"

definition minor_46_e80 :: asg where
  "minor_46_e80 = pad_mul 17 (\<lambda>pad _. pad ! 13 - 0x68c0e272)"

definition minor_47_e80 :: asg where
  "minor_47_e80 = pad_add 13 (\<lambda>pad _. pad ! 13 OR 0x5e919e06)"

definition minor_48_e80 :: asg where
  "minor_48_e80 = pad_set 16 (\<lambda>pad _. push_bit 1 ((pad ! 9 * pad ! 16) * 37))"

definition minor_49_e80 :: asg where
  "minor_49_e80 = pad_or 2 (\<lambda>pad _. pad ! 15 + 0x44b04775)"

definition minor_50_e80 :: asg where
  "minor_50_e80 = pad_set 8 (\<lambda>pad _. push_bit 2 ((pad ! 8 * pad ! 8) * 13))"

definition minor_51_e80 :: "(u32 list \<Rightarrow> u32 \<Rightarrow> u32) \<Rightarrow> asg" where
  "minor_51_e80 x = pad_set 17 (\<lambda>pad seed. ROR_e80 (pad ! 17) (x pad seed))"

definition minor_52_e80 :: "(u32 list \<Rightarrow> u32 \<Rightarrow> u32) \<Rightarrow> asg" where
  "minor_52_e80 x = pad_mul 10 (\<lambda>pad seed. x pad seed)"

definition minor_53_e80 :: asg where
  "minor_53_e80 = pad_add 8 (\<lambda>pad _. pad ! 17 + 0x4e0679be)"

definition minor_54_e80 :: asg where
  "minor_54_e80 = pad_xor 10 (\<lambda>pad _. pad ! 6 XOR 0x2be68205)"

definition minor_55_e80 :: "(u32 list \<Rightarrow> u32 \<Rightarrow> u32) \<Rightarrow> asg" where
  "minor_55_e80 x = pad_sub 7 (\<lambda>pad seed. x pad seed)"

definition minor_56_e80 :: "(u32 list \<Rightarrow> u32 \<Rightarrow> u32) \<Rightarrow> asg" where
  "minor_56_e80 x = pad_and 13 (\<lambda>pad seed. ROL_e80 (x pad seed) 0x10)"

definition minor_57_e80 :: "(u32 list \<Rightarrow> u32 \<Rightarrow> u32) \<Rightarrow> asg" where
  "minor_57_e80 x = pad_and 9 (\<lambda>pad seed. x pad seed)"

definition minor_58_e80 :: "(u32 list \<Rightarrow> u32 \<Rightarrow> u32) \<Rightarrow> asg" where
  "minor_58_e80 x = pad_add 0 (\<lambda>pad seed. x pad seed)"

definition minor_59_e80 :: asg where
  "minor_59_e80 = pad_mul 8 (\<lambda>pad _. pad ! 6 XOR 0x377c08d2)"

definition minor_60_e80 :: asg where
  "minor_60_e80 = pad_sub 18 (\<lambda>pad _. if pad ! 10 < 0xb6c6c3e then pad ! 10 else pad ! 13)"

definition minor_61_e80 :: asg where
  "minor_61_e80 = pad_add 19 (\<lambda>pad _. my_sqrt (ucast (pad ! 18)))"

definition minor_62_e80 :: asg where
  "minor_62_e80 = pad_xor 11 (\<lambda>pad _. my_sqrt (ucast (pad ! 4)))"

definition minor_63_e80 :: asg where
  "minor_63_e80 = pad_xor 17 (\<lambda>pad _. my_sqrt (ucast (pad ! 16)))"

definition minor_64_e80 :: asg where
  "minor_64_e80 = pad_add 9 (\<lambda>pad _. my_sqrt (ucast (pad ! 13)))"

definition minor_65_e80 :: "(u32 list \<Rightarrow> u32 \<Rightarrow> u32) \<Rightarrow> asg" where
  "minor_65_e80 x = pad_sub 10 (\<lambda>pad seed. if my_cos (ucast (x pad seed)) then 0x19c6c6e else pad ! 7)"

definition minor_66_e80 :: asg where
  "minor_66_e80 = pad_sub 10 (\<lambda>pad _. if my_cos (ucast (pad ! 10)) then 0x5f18f01 else pad ! 13)"

definition minor_67_e80 :: "(u32 list \<Rightarrow> u32 \<Rightarrow> u32) \<Rightarrow> asg" where
  "minor_67_e80 x = pad_set 17 (\<lambda>pad seed. ROL_e80 (pad ! 17) (if my_sin (ucast (pad ! 7)) then 0x4262ed6b else x pad seed))"

definition minor_68_e80 :: asg where
  "minor_68_e80 = pad_add 9 (\<lambda>pad _. if my_cos (ucast (pad ! 6)) then 0x14f5046c else pad ! 11)"

definition minor_69_e80 :: asg where
  "minor_69_e80 = pad_xor 14 (\<lambda>pad _. if my_cos (ucast (pad ! 11)) then 0x562482fa else pad ! 14)"

definition minor_70_e80 :: asg where
  "minor_70_e80 = pad_sub 3 (\<lambda>pad _. if my_cos (ucast (pad ! 14)) then 0x39702edd else pad ! 6)"

definition minor_71_e80 :: asg where
  "minor_71_e80 = pad_xor 6 (\<lambda>pad _. if my_cos (ucast (pad ! 10)) then 0x53236223 else pad ! 7)"

definition minor_72_e80 :: "(u32 list \<Rightarrow> u32 \<Rightarrow> u32) \<Rightarrow> asg" where
  "minor_72_e80 x = pad_or 1 (\<lambda>pad seed. if my_sin (ucast (x pad seed)) then 0x1be7fecf else pad ! 16)"

definition minor_73_e80 :: asg where
  "minor_73_e80 = pad_mul 17 (\<lambda>pad _. if my_cos (ucast (pad ! 16)) then 0x2c15b485 else pad ! 3)"

definition minor_3_e80 :: asg where
  "minor_3_e80 = pad_add 19 (\<lambda>pad _. my_sqrt (ucast (pad ! 0)))"

definition minor_4_e80 :: asg where
  "minor_4_e80 = pad_set 7 (\<lambda>pad _. ROL_e80 (pad ! 7) (my_sqrt (ucast (pad ! 1))))"

definition minor_5_e80 :: asg where
  "minor_5_e80 = pad_add 4 (\<lambda>pad _. if my_cos (ucast (pad ! 1)) then 0x890afef else pad ! 4)"

definition minor_6_e80 :: "(u32 list \<Rightarrow> u32 \<Rightarrow> u32) \<Rightarrow> asg" where
  "minor_6_e80 x = pad_set 7 (\<lambda>pad seed. ROL_e80 (pad ! 7) (if my_sin (ucast (pad ! 18)) then 0x14d1de3d else x pad seed))"

definition minor_7_e80 :: asg where
  "minor_7_e80 = pad_and 10 (\<lambda>pad _. if pad ! 1 < 0x1f2dd61 then pad ! 1 else pad ! 10)"

definition minor_8_e80 :: asg where
  "minor_8_e80 = pad_or 0 (\<lambda>pad _. (push_bit 4 (pad ! 10 * 3)) + pad ! 10)"

definition minor_9_e80 :: asg where
  "minor_9_e80 = pad_xor 9 (\<lambda>pad _. if pad ! 1 < 0xb01609f then pad ! 1 else pad ! 16)"

definition minor_10_e80 :: "(u32 list \<Rightarrow> u32 \<Rightarrow> u32) \<Rightarrow> asg" where
  "minor_10_e80 x = pad_set 13 (\<lambda>pad seed. ROR_e80 (pad ! 13) (x pad seed))"

definition minor_11_e80 :: "(u32 list \<Rightarrow> u32 \<Rightarrow> u32) \<Rightarrow> asg" where
  "minor_11_e80 x = pad_and 7 (\<lambda>pad seed. x pad seed)"

definition minor_12_e80 :: asg where
  "minor_12_e80 = pad_add 11 (\<lambda>pad _. ROL_e80 (pad ! 5) 0x14)"

definition minor_13_e80 :: "(u32 list \<Rightarrow> u32 \<Rightarrow> u32) \<Rightarrow> asg" where
  "minor_13_e80 x = pad_xor 5 (\<lambda>pad seed. x pad seed + 0x391b56a)"

definition minor_14_e80 :: asg where
  "minor_14_e80 = pad_xor 3 (\<lambda>pad _. pad ! 14 * 0x711881f7)"

definition minor_15_e80 :: asg where
  "minor_15_e80 = pad_sub 6 (\<lambda>pad _. pad ! 18 XOR 0x4402caf)"

definition minor_16_e80 :: asg where
  "minor_16_e80 = pad_add 2 (\<lambda>pad _. ROR_e80 (pad ! 14) 0x14)"

definition minor_17_e80 :: asg where
  "minor_17_e80 = pad_add 6 (\<lambda>pad _. 0x287735d1 - pad ! 3)"

definition minor_18_e80 :: asg where
  "minor_18_e80 = pad_add 3 (\<lambda>pad _. 0x247b4de9 - pad ! 1)"

definition minor_19_e80 :: asg where
  "minor_19_e80 = pad_add 11 (\<lambda>pad _. pad ! 6 * 0xe8c67004)"

definition minor_20_e80 :: asg where
  "minor_20_e80 = pad_or 15 (\<lambda>pad _. pad ! 1 XOR 0x37b6fe35)"

definition minor_21_e80 :: asg where
  "minor_21_e80 = pad_set 14 (\<lambda>pad _. ROR_e80 (pad ! 14) (pad ! 13 OR 0x3433be6))"

lemmas minor_defs_e80 = 
  minor_23_e80_def minor_24_e80_def minor_25_e80_def minor_26_e80_def minor_27_e80_def
  minor_28_e80_def minor_29_e80_def minor_30_e80_def minor_31_e80_def minor_32_e80_def
  minor_33_e80_def minor_34_e80_def minor_35_e80_def minor_36_e80_def minor_37_e80_def
  minor_38_e80_def minor_39_e80_def minor_40_e80_def minor_41_e80_def minor_42_e80_def
  minor_43_e80_def minor_44_e80_def minor_45_e80_def minor_46_e80_def minor_47_e80_def
  minor_48_e80_def minor_49_e80_def minor_50_e80_def minor_51_e80_def minor_52_e80_def
  minor_53_e80_def minor_54_e80_def minor_55_e80_def minor_56_e80_def minor_57_e80_def
  minor_58_e80_def minor_59_e80_def minor_60_e80_def minor_61_e80_def minor_62_e80_def
  minor_63_e80_def minor_64_e80_def minor_65_e80_def minor_66_e80_def minor_67_e80_def
  minor_68_e80_def minor_69_e80_def minor_70_e80_def minor_71_e80_def minor_72_e80_def
  minor_73_e80_def minor_3_e80_def minor_4_e80_def minor_5_e80_def minor_6_e80_def
  minor_7_e80_def minor_8_e80_def minor_9_e80_def minor_10_e80_def minor_11_e80_def
  minor_12_e80_def minor_13_e80_def minor_14_e80_def minor_15_e80_def minor_16_e80_def
  minor_17_e80_def minor_18_e80_def minor_19_e80_def minor_20_e80_def minor_21_e80_def

section \<open>The mixing functions, callees first\<close>

definition minor_74_e80 :: "u32 list \<Rightarrow> u32 \<Rightarrow> u32 list" where
  "minor_74_e80 pad seed =
    run_body [
       exec (pad_mul 10 (\<lambda>pad _. if my_cos (ucast (pad ! 3)) then 0x1dd34a4 else pad ! 2)),
       exec (pad_or 12 (\<lambda>pad _. push_bit 2 (pad ! 16 * 11))),
       exec (pad_xor 0 (\<lambda>pad _. pad ! 19 XOR 0x509e41a1)),
       exec (pad_sub 13 (\<lambda>pad _. push_bit 2 ((push_bit 1 (pad ! 9 * 15)) - pad ! 9))),
       exec (seed_sub (\<lambda>pad _. if my_cos (ucast (pad ! 2)) then 0xd7a79f4 else pad ! 5)),
       exec (pad_sub 2 (\<lambda>pad _. if my_sin (ucast (pad ! 12)) then 0x5134639d else pad ! 1)),
       exec (seed_xor (\<lambda>pad _. if my_sin (ucast (pad ! 4)) then 0x241147a3 else pad ! 13)),
       exec (pad_add 3 (\<lambda>_ seed. my_sqrt (ucast seed))),
       exec (pad_sub 0 (\<lambda>pad seed. if my_sin (ucast seed) then 0x5176ffdf else pad ! 15)),
       exec (pad_sub 3 (\<lambda>pad _. ((push_bit 1 (pad ! 9 * 15)) - pad ! 9) * 3)),
       exec (pad_or 14 (\<lambda>pad _. if pad ! 2 < 0x18897 then pad ! 2 else pad ! 10)),
       exec (pad_xor 13 (\<lambda>_ seed. 0x18897 + seed))] pad seed"

definition minor_75_e80 :: "u32 list \<Rightarrow> u32 list" where
  "minor_75_e80 pad =
    run_body [
       exec (pad_sub 13 (\<lambda>pad _. pad ! 2)),
       exec (pad_add 19 (\<lambda>pad _. 0x471c95 AND pad ! 12)),
       exec (pad_add 14 (\<lambda>pad _. if pad ! 7 < 0x471c95 then pad ! 7 else pad ! 2)),
       exec (pad_sub 12 (\<lambda>pad _. pad ! 11 XOR 0x5e823762)),
       exec (pad_and 15 (\<lambda>pad _. push_bit 2 (pad ! 0 * 13))),
       exec (pad_xor 17 (\<lambda>pad _. pad ! 8 * 15)),
       exec (pad_add 7 (\<lambda>pad _. pad ! 4 AND 0x3996fd51)),
       exec (pad_add 2 (\<lambda>pad _. if my_sin (ucast (pad ! 19)) then 0x34311111 else pad ! 5))] pad 0"

definition major_10_e80 :: "u32 list \<Rightarrow> u32 \<Rightarrow> u32 list" where
  "major_10_e80 pad seed =
    (let branch = ((pad ! 7 XOR pad ! 3) XOR seed) AND 0x01
     in run_body [
       exec (pad_and 10 (\<lambda>_ seed. 0x75eefb0 XOR seed)),
       exec (pad_xor 11 (\<lambda>pad _. if my_cos (ucast (pad ! 1)) then 0x2e0a5be7 else pad ! 6)),
       exec (pad_add 0 (\<lambda>_ seed. seed + 0x1fe76b44)),
       exec (pad_add 13 (\<lambda>_ seed. 0x76173ce - seed)),
       cond (branch = 1) [exec (minor_56_e80 (\<lambda>_ _. 0xcd17011)),
         exec (minor_48_e80),
         call1 minor_75_e80],
       exec (pad_sub 16 (\<lambda>pad _. if pad ! 11 < 0x56c0185b then pad ! 11 else pad ! 19)),
       exec (pad_xor 0 (\<lambda>pad seed. if my_sin (ucast (pad ! 16)) then 0x5a271260 else seed)),
       exec (pad_add 6 (\<lambda>pad _. pad ! 11 OR 0x58e035d2)),
       exec (pad_set 14 (\<lambda>pad _. ROL_e80 (pad ! 14) (ROL_e80 (pad ! 1) 0x8))),
       exec (pad_xor 13 (\<lambda>pad _. pad ! 15 * 91)),
       cond (branch = 0) [exec (minor_57_e80 (\<lambda>_ _. 0x37fed3)),
         TRY (minor_12_e80),
         call minor_74_e80 (\<lambda>pad _. pad ! 14)]] pad seed)"

definition major_20_e80 :: "u32 list \<Rightarrow> u32 \<Rightarrow> u32 list" where
  "major_20_e80 pad seed =
    (let branch = ((pad ! 13 XOR pad ! 8) XOR pad ! 17) mod 0x03
     in run_body [
       exec (seed_xor (\<lambda>pad _. 0x39aa3db4 XOR pad ! 17)),
       exec (pad_set 15 (\<lambda>pad seed. ROL_e80 (pad ! 15) (if my_sin (ucast seed) then 0x236d13f3 else pad ! 19))),
       exec (pad_xor 16 (\<lambda>_ seed. my_sqrt (ucast seed))),
       cond (branch = 0) [exec (minor_70_e80),
         exec (minor_66_e80),
         call1 minor_75_e80],
       exec (seed_set (\<lambda>_ seed. push_bit 4 ((seed * seed) * 5))),
       exec (pad_or 18 (\<lambda>pad _. pad ! 8 * 0x1e4b94ec)),
       exec (pad_add 3 (\<lambda>_ seed. seed AND 0x2708964f)),
       cond (branch = 0) [exec (minor_45_e80),
         exec (minor_53_e80),
         call minor_74_e80 (\<lambda>_ seed. seed)],
       exec (pad_sub 0 (\<lambda>pad _. pad ! 10 OR 0x390ac159)),
       exec (pad_sub 8 (\<lambda>pad _. if my_cos (ucast (pad ! 6)) then 0x84019 else pad ! 10)),
       exec (pad_and 17 (\<lambda>_ seed. 0x84019 OR seed)),
       exec (pad_mul 14 (\<lambda>pad _. ROL_e80 (pad ! 2) 0x1f)),
       cond (branch = 1) [TRY (minor_18_e80),
         exec (minor_60_e80),
         call major_10_e80 (\<lambda>pad _. pad ! 7)],
       exec (pad_mul 8 (\<lambda>pad _. pad ! 15 - 0x51214))] pad seed)"

definition major_6_e80 :: "u32 list \<Rightarrow> u32 \<Rightarrow> u32 list" where
  "major_6_e80 pad seed =
    (let branch = ((pad ! 9 XOR pad ! 5) XOR pad ! 6) AND 0x03
     in run_body [
       exec (pad_add 12 (\<lambda>pad _. my_sqrt (ucast (pad ! 1)))),
       exec (pad_add 18 (\<lambda>pad _. pad ! 19 + 0x2b7fd413)),
       cond (branch = 0) [exec (minor_39_e80),
         exec (minor_43_e80),
         call1 minor_75_e80],
       exec (seed_set (\<lambda>pad seed. ROR_e80 seed (pad ! 4 - 0xa4e29dd))),
       exec (seed_xor (\<lambda>pad _. ROR_e80 (pad ! 17) 0x1c)),
       cond (branch = 0) [TRY (minor_15_e80),
         exec (minor_40_e80),
         call minor_74_e80 (\<lambda>pad _. pad ! 3)],
       exec (pad_add 5 (\<lambda>_ seed. (push_bit 1 (seed * 27)) - seed)),
       exec (pad_add 18 (\<lambda>pad _. pad ! 6 - 0x24a58a0)),
       cond (branch = 3) [exec (minor_71_e80),
         exec (minor_29_e80 (\<lambda>_ _. 116)),
         call major_10_e80 (\<lambda>pad _. pad ! 18)],
       exec (pad_and 10 (\<lambda>pad _. if my_sin (ucast (pad ! 17)) then 0xf1f3d else pad ! 13)),
       exec (pad_or 19 (\<lambda>pad _. if my_sin (ucast (pad ! 18)) then 0x4f2a72 else pad ! 4)),
       exec (pad_mul 13 (\<lambda>pad _. ROR_e80 (pad ! 12) 0x12)),
       cond (branch = 2) [TRY (minor_21_e80),
         exec (minor_33_e80 (\<lambda>_ _. 0xfc47b82b)),
         call major_20_e80 (\<lambda>pad _. pad ! 2)],
       exec (pad_add 6 (\<lambda>pad _. (push_bit 6 (pad ! 1)) + pad ! 1))] pad seed)"

definition major_1_e80 :: "u32 list \<Rightarrow> u32 \<Rightarrow> u32 list" where
  "major_1_e80 pad seed =
    (let branch = ((pad ! 8 XOR pad ! 16) XOR seed) mod 5
     in run_body [
       exec (seed_mul (\<lambda>_ seed. my_sqrt (ucast seed))),
       exec (pad_or 4 (\<lambda>pad seed. if seed < 0x67f88 then seed else pad ! 3)),
       cond (branch = 1) [exec (minor_44_e80),
         exec (minor_63_e80),
         call1 minor_75_e80],
       exec (pad_set 7 (\<lambda>pad _. ROR_e80 (pad ! 7) (pad ! 17 AND 0x67f88))),
       exec (pad_add 0 (\<lambda>pad _. ROR_e80 (pad ! 6) 0x8)),
       cond (branch = 0) [exec (minor_35_e80),
         exec (minor_29_e80 (\<lambda>_ _. 20)),
         call minor_74_e80 (\<lambda>_ seed. seed)],
       exec (seed_sub (\<lambda>pad _. pad ! 14 XOR 0xffc56d16)),
       exec (seed_and (\<lambda>pad _. my_sqrt (ucast (pad ! 1)))),
       cond (branch = 2) [exec (minor_72_e80 (\<lambda>_ _. 128)),
         TRY (minor_17_e80),
         call major_10_e80 (\<lambda>pad _. pad ! 6)],
       exec (seed_set (\<lambda>pad seed. ROL_e80 seed (pad ! 13 + 0x8d810df))),
       exec (pad_xor 7 (\<lambda>_ seed. push_bit 1 (seed * 11))),
       cond (branch = 3) [exec (minor_33_e80 (\<lambda>_ _. 0xfde76000)),
         exec (minor_73_e80),
         call major_20_e80 (\<lambda>pad _. pad ! 8)],
       exec (pad_xor 8 (\<lambda>pad _. if my_cos (ucast (pad ! 16)) then 0x12da5b58 else pad ! 2)),
       exec (pad_xor 14 (\<lambda>pad _. pad ! 13 - 0xff8c9a4d)),
       cond (branch = 4) [exec (minor_36_e80),
         exec (minor_69_e80),
         call major_6_e80 (\<lambda>_ seed. seed)],
       exec (pad_mul 6 (\<lambda>pad _. if pad ! 17 < 0x9d9106a then pad ! 17 else pad ! 8))] pad seed)"

definition major_4_e80 :: "u32 list \<Rightarrow> u32 \<Rightarrow> u32 list" where
  "major_4_e80 pad seed =
    (let branch = ((pad ! 12 XOR pad ! 11) XOR seed) mod 0x06
     in run_body [
       exec (pad_mul 11 (\<lambda>_ seed. 0x65300 OR seed)),
       cond (branch = 2) [exec (minor_40_e80),
         exec (minor_34_e80),
         call1 minor_75_e80],
       exec (seed_add (\<lambda>pad _. 0 - ((push_bit 4 (pad ! 6 * 5)) - pad ! 6))),
       exec (pad_set 8 (\<lambda>pad _. ROL_e80 (pad ! 8) (my_sqrt (ucast (pad ! 9))))),
       cond (branch = 0) [TRY (minor_9_e80),
         exec (minor_26_e80),
         call minor_74_e80 (\<lambda>pad _. pad ! 4)],
       exec (pad_sub 0 (\<lambda>pad _. pad ! 14 XOR 0xff7db6c1)),
       exec (pad_set 6 (\<lambda>pad _. ROL_e80 (pad ! 6) (pad ! 11 XOR 0xffc1081c))),
       cond (branch = 5) [exec (minor_36_e80),
         exec (minor_36_e80),
         call major_10_e80 (\<lambda>pad _. pad ! 7)],
       exec (seed_sub (\<lambda>pad _. push_bit 4 (pad ! 11 * 3))),
       cond (branch = 0) [exec (minor_31_e80),
         exec (minor_36_e80),
         call major_20_e80 (\<lambda>_ seed. seed)],
       exec (pad_or 13 (\<lambda>pad _. ROR_e80 (pad ! 16) 0xc)),
       exec (pad_or 3 (\<lambda>pad _. pad ! 9 + 0x27c4c44e)),
       cond (branch = 1) [exec (minor_51_e80 (\<lambda>_ _. 0)),
         exec (minor_27_e80),
         call major_6_e80 (\<lambda>_ seed. seed)],
       exec (pad_sub 13 (\<lambda>pad _. push_bit 1 ((push_bit 3 (pad ! 6 * 5)) - pad ! 6))),
       exec (pad_xor 10 (\<lambda>pad _. ROL_e80 (pad ! 11) 0x4)),
       cond (branch = 3) [exec (minor_63_e80),
         TRY (minor_8_e80),
         call major_1_e80 (\<lambda>pad _. pad ! 10)]] pad seed)"

definition major_16_e80 :: "u32 list \<Rightarrow> u32 \<Rightarrow> u32 list" where
  "major_16_e80 pad seed =
    (let branch = pad ! 5 mod 0x07
     in run_body [
       exec (pad_sub 2 (\<lambda>_ seed. seed XOR 0x1e9e3a1c)),
       cond (branch = 4) [exec (minor_38_e80),
         exec (minor_48_e80),
         call1 minor_75_e80],
       exec (pad_and 9 (\<lambda>pad _. pad ! 4 XOR 0x46b160)),
       cond (branch = 5) [exec (minor_43_e80),
         exec (minor_62_e80),
         call minor_74_e80 (\<lambda>pad _. pad ! 11)],
       exec (seed_add (\<lambda>pad _. pad ! 17 XOR 0x46b160)),
       cond (branch = 1) [TRY (minor_6_e80 (\<lambda>_ _. 0xc6d7e2f7)),
         exec (minor_30_e80),
         call major_10_e80 (\<lambda>_ seed. seed)],
       exec (pad_or 13 (\<lambda>pad _. my_sqrt (ucast (pad ! 19)))),
       exec (pad_sub 7 (\<lambda>pad _. if my_cos (ucast (pad ! 10)) then 0x90069b else pad ! 17)),
       cond (branch = 0) [TRY (minor_15_e80),
         exec (minor_45_e80),
         call major_20_e80 (\<lambda>pad _. pad ! 7)],
       exec (pad_sub 15 (\<lambda>_ seed. 0x90069b OR seed)),
       cond (branch = 6) [exec (minor_39_e80),
         exec (minor_29_e80 (\<lambda>_ _. 184)),
         call major_6_e80 (\<lambda>pad _. pad ! 1)],
       exec (seed_add (\<lambda>pad _. pad ! 6 AND 0x44782589)),
       cond (branch = 3) [exec (minor_53_e80),
         TRY (minor_15_e80),
         call major_1_e80 (\<lambda>_ seed. seed)],
       exec (pad_add 8 (\<lambda>pad _. pad ! 11 AND 0x2645009b)),
       cond (branch = 0) [exec (minor_29_e80 (\<lambda>_ _. 124)),
         exec (minor_64_e80),
         call major_4_e80 (\<lambda>pad _. pad ! 10)],
       exec (pad_mul 8 (\<lambda>pad _. pad ! 16 XOR 0x2666a4cb))] pad seed)"

definition major_7_e80 :: "u32 list \<Rightarrow> u32 \<Rightarrow> u32 list" where
  "major_7_e80 pad seed =
    (let branch = pad ! 9 AND 0x07
     in run_body [
       exec (seed_sub (\<lambda>pad _. 0x646ede77 AND pad ! 7)),
       cond (branch = 0) [exec (minor_38_e80),
         TRY (minor_12_e80),
         call1 minor_75_e80],
       exec (seed_set (\<lambda>_ seed. ROR_e80 seed (push_bit 1 (seed * 59)))),
       cond (branch = 6) [exec (minor_40_e80),
         exec (minor_51_e80 (\<lambda>_ _. 15)),
         call minor_74_e80 (\<lambda>pad _. pad ! 4)],
       exec (pad_add 3 (\<lambda>pad seed. if my_sin (ucast seed) then 0x4c8444 else pad ! 8)),
       cond (branch = 5) [exec (minor_61_e80),
         exec (minor_32_e80 (\<lambda>_ _. 0x2ab2e7e2)),
         call major_10_e80 (\<lambda>pad _. pad ! 18)],
       exec (pad_set 2 (\<lambda>pad _. ROL_e80 (pad ! 2) (((push_bit 3 (pad ! 4 * 3)) - pad ! 4) * 3))),
       cond (branch = 3) [exec (minor_42_e80),
         exec (minor_56_e80 (\<lambda>_ _. 0xd1fc123)),
         call major_20_e80 (\<lambda>_ seed. seed)],
       exec (pad_add 0 (\<lambda>pad seed. if my_sin (ucast (pad ! 4)) then 0xda2b08 else seed)),
       cond (branch = 2) [TRY (minor_19_e80),
         exec (minor_57_e80 (\<lambda>_ _. 0xd7f6df8f)),
         call major_6_e80 (\<lambda>pad _. pad ! 9)],
       exec (seed_xor (\<lambda>_ seed. seed * 0x11)),
       cond (branch = 4) [exec (minor_27_e80),
         exec (minor_36_e80),
         call major_1_e80 (\<lambda>pad _. pad ! 10)],
       exec (pad_mul 4 (\<lambda>pad _. 0xdeaf0b XOR pad ! 2)),
       cond (branch = 1) [exec (minor_25_e80),
         TRY (minor_20_e80),
         call major_4_e80 (\<lambda>_ seed. seed)],
       exec (pad_set 9 (\<lambda>pad _. (push_bit 3 ((pad ! 11 * pad ! 9) * 5)) - (pad ! 11 * pad ! 9))),
       exec (pad_add 1 (\<lambda>pad _. ((push_bit 5 (pad ! 10)) + pad ! 10) * 3)),
       cond (branch = 0) [TRY (minor_19_e80),
         TRY (minor_7_e80),
         call major_16_e80 (\<lambda>pad _. pad ! 0)]] pad seed)"

definition major_8_e80 :: "u32 list \<Rightarrow> u32 \<Rightarrow> u32 list" where
  "major_8_e80 pad seed =
    (let branch = ((pad ! 4 XOR pad ! 13) XOR pad ! 17) mod 0x09
     in run_body [
       exec (seed_xor (\<lambda>_ seed. ROR_e80 seed 0x6)),
       cond (branch = 0) [TRY (minor_13_e80 (\<lambda>_ _. 0x2816580b)),
         exec (minor_38_e80),
         call1 minor_75_e80],
       exec (pad_and 2 (\<lambda>pad _. pad ! 16 XOR 0x448522)),
       cond (branch = 8) [TRY (minor_14_e80),
         TRY (minor_21_e80),
         call minor_74_e80 (\<lambda>pad _. pad ! 15)],
       exec (pad_and 7 (\<lambda>pad seed. if my_sin (ucast seed) then 0x5228985f else pad ! 5)),
       cond (branch = 3) [TRY (minor_5_e80),
         exec (minor_33_e80 (\<lambda>_ _. 0x168a878e)),
         call major_10_e80 (\<lambda>pad _. pad ! 18)],
       exec (seed_mul (\<lambda>pad _. pad ! 3 XOR 0x93fa66)),
       cond (branch = 7) [TRY (minor_8_e80),
         exec (minor_58_e80 (\<lambda>_ _. 0xf81bec49)),
         call major_20_e80 (\<lambda>pad _. pad ! 13)],
       exec (pad_sub 7 (\<lambda>_ seed. (push_bit 2 (seed * 5)) - seed)),
       cond (branch = 4) [exec (minor_55_e80 (\<lambda>_ _. 0x32ea67a4)),
         exec (minor_47_e80),
         call major_6_e80 (\<lambda>pad _. pad ! 13)],
       exec (pad_set 12 (\<lambda>pad seed. ROL_e80 (pad ! 12) (push_bit 1 (((push_bit 4 seed) + seed) * 3)))),
       cond (branch = 6) [exec (minor_72_e80 (\<lambda>_ _. 69)),
         TRY (minor_14_e80),
         call major_1_e80 (\<lambda>pad _. pad ! 5)],
       exec (pad_set 19 (\<lambda>pad seed. ROL_e80 (pad ! 19) (seed + 0x4685d5be))),
       cond (branch = 1) [TRY (minor_9_e80),
         exec (minor_40_e80),
         call major_4_e80 (\<lambda>pad _. pad ! 14)],
       exec (pad_add 5 (\<lambda>pad _. pad ! 6 OR 0x301de279)),
       cond (branch = 2) [exec (minor_28_e80),
         exec (minor_61_e80),
         call major_16_e80 (\<lambda>pad _. pad ! 17)],
       exec (pad_mul 6 (\<lambda>pad _. pad ! 0 XOR 0xffffffbb)),
       cond (branch = 0) [exec (minor_23_e80),
         exec (minor_32_e80 (\<lambda>_ _. 0x11b2399c)),
         call major_7_e80 (\<lambda>pad _. pad ! 14)],
       exec (pad_or 17 (\<lambda>pad _. my_sqrt (ucast (pad ! 12))))] pad seed)"

definition major_18_e80 :: "u32 list \<Rightarrow> u32 \<Rightarrow> u32 list" where
  "major_18_e80 pad seed =
    (let branch = ((pad ! 15 XOR pad ! 1) XOR pad ! 18) mod 0x0a
     in run_body [
       exec (pad_mul 14 (\<lambda>pad _. pad ! 18 - 0x3438a280)),
       cond (branch = 9) [TRY (minor_6_e80 (\<lambda>_ _. 0xdc6c3d21)),
         exec (minor_26_e80),
         call1 minor_75_e80],
       exec (pad_add 2 (\<lambda>pad _. pad ! 3 AND 0x244268df)),
       cond (branch = 4) [exec (minor_66_e80),
         exec (minor_51_e80 (\<lambda>_ _. 23)),
         call minor_74_e80 (\<lambda>_ seed. seed)],
       exec (pad_mul 18 (\<lambda>_ seed. ROL_e80 seed 0x1f)),
       cond (branch = 5) [exec (minor_52_e80 (\<lambda>_ _. 0x1cb09c4d)),
         TRY (minor_15_e80),
         call major_10_e80 (\<lambda>pad _. pad ! 14)],
       exec (pad_add 6 (\<lambda>pad _. pad ! 10 + 0x5308b1db)),
       cond (branch = 1) [exec (minor_39_e80),
         exec (minor_36_e80),
         call major_20_e80 (\<lambda>_ seed. seed)],
       exec (pad_add 5 (\<lambda>pad _. ROR_e80 (pad ! 8) 0x19)),
       cond (branch = 0) [TRY (minor_19_e80),
         exec (minor_34_e80),
         call major_6_e80 (\<lambda>pad _. pad ! 5)],
       exec (pad_or 9 (\<lambda>_ seed. seed AND 0x27be8251)),
       cond (branch = 2) [TRY (minor_6_e80 (\<lambda>_ _. 0x9dbe27ad)),
         TRY (minor_12_e80),
         call major_1_e80 (\<lambda>pad _. pad ! 9)],
       exec (pad_xor 12 (\<lambda>pad _. pad ! 2 * 73)),
       cond (branch = 8) [exec (minor_59_e80),
         exec (minor_24_e80),
         call major_4_e80 (\<lambda>_ seed. seed)],
       exec (pad_and 14 (\<lambda>_ seed. seed - 0x7413c08)),
       cond (branch = 6) [exec (minor_47_e80),
         TRY (minor_13_e80 (\<lambda>_ _. 0x2725c3fb)),
         call major_16_e80 (\<lambda>pad _. pad ! 17)],
       exec (pad_add 9 (\<lambda>_ seed. 0x4c3ada - seed)),
       cond (branch = 3) [exec (minor_41_e80),
         exec (minor_49_e80),
         call major_7_e80 (\<lambda>_ seed. seed)],
       exec (seed_add (\<lambda>pad _. 0x8ea63 OR pad ! 18)),
       cond (branch = 0) [exec (minor_41_e80),
         exec (minor_61_e80),
         call major_8_e80 (\<lambda>pad _. pad ! 19)],
       exec (pad_add 3 (\<lambda>pad seed. if seed < 0x4efe6b then seed else pad ! 4))] pad seed)"

definition major_12_e80 :: "u32 list \<Rightarrow> u32 \<Rightarrow> u32 list" where
  "major_12_e80 pad seed =
    (let branch = pad ! 15 mod 0x0b
     in run_body [
       cond (branch = 5) [TRY (minor_16_e80),
         exec (minor_62_e80),
         call1 minor_75_e80],
       exec (pad_sub 4 (\<lambda>pad seed. if my_cos (ucast (pad ! 14)) then 0x76f737a3 else seed)),
       cond (branch = 0x0a) [exec (minor_42_e80),
         exec (minor_65_e80 (\<lambda>_ _. 186)),
         call minor_74_e80 (\<lambda>_ seed. seed)],
       exec (pad_and 3 (\<lambda>pad _. pad ! 10 XOR 0x20773f85)),
       cond (branch = 4) [exec (minor_47_e80),
         exec (minor_28_e80),
         call major_10_e80 (\<lambda>pad _. pad ! 14)],
       exec (pad_set 12 (\<lambda>pad _. ROL_e80 (pad ! 12) (pad ! 7 * 91))),
       cond (branch = 9) [exec (minor_37_e80),
         exec (minor_73_e80),
         call major_20_e80 (\<lambda>_ seed. seed)],
       cond (branch = 2) [exec (minor_67_e80 (\<lambda>_ _. 0xe8b01b9b)),
         exec (minor_54_e80),
         call major_6_e80 (\<lambda>pad _. pad ! 8)],
       exec (pad_add 3 (\<lambda>pad _. ROL_e80 (pad ! 11) 0x1d)),
       cond (branch = 6) [exec (minor_70_e80),
         exec (minor_23_e80),
         call major_1_e80 (\<lambda>pad _. pad ! 0)],
       cond (branch = 8) [exec (minor_29_e80 (\<lambda>_ _. 60)),
         exec (minor_34_e80),
         call major_4_e80 (\<lambda>pad _. pad ! 12)],
       exec (pad_mul 9 (\<lambda>pad _. if pad ! 0 < 0xed7837 then pad ! 0 else pad ! 15)),
       cond (branch = 3) [TRY (minor_13_e80 (\<lambda>_ _. 0x19068e93)),
         exec (minor_25_e80),
         call major_16_e80 (\<lambda>pad _. pad ! 15)],
       cond (branch = 0) [exec (minor_37_e80),
         exec (minor_45_e80),
         call major_7_e80 (\<lambda>pad _. pad ! 0)],
       exec (pad_xor 16 (\<lambda>pad _. pad ! 6 XOR 0x28aa2736)),
       cond (branch = 1) [exec (minor_59_e80),
         exec (minor_37_e80),
         call major_8_e80 (\<lambda>pad _. pad ! 2)],
       cond (branch = 0) [TRY (minor_18_e80),
         exec (minor_48_e80),
         call major_18_e80 (\<lambda>pad _. pad ! 6)],
       exec (pad_xor 2 (\<lambda>pad _. pad ! 19 * 101)),
       cond (branch = 7) [exec (minor_32_e80 (\<lambda>_ _. 0x2a4f7758)),
         exec (minor_39_e80),
         call1 minor_75_e80],
       exec (pad_and 0 (\<lambda>pad _. if my_cos (ucast (pad ! 0)) then 0xfff2b634 else pad ! 5))] pad seed)"

definition major_5_e80 :: "u32 list \<Rightarrow> u32 \<Rightarrow> u32 list" where
  "major_5_e80 pad seed =
    (let branch = ((pad ! 14 XOR pad ! 2) XOR pad ! 19) mod 0x0c
     in run_body [
       cond (branch = 4) [exec (minor_40_e80),
         TRY (minor_4_e80),
         call1 minor_75_e80],
       exec (seed_or (\<lambda>pad _. pad ! 11 XOR 0x4e05b048)),
       cond (branch = 0x0a) [exec (minor_64_e80),
         exec (minor_69_e80),
         call minor_74_e80 (\<lambda>pad _. pad ! 1)],
       exec (seed_add (\<lambda>pad _. pad ! 2 * 50)),
       cond (branch = 1) [TRY (minor_8_e80),
         exec (minor_47_e80),
         call major_10_e80 (\<lambda>_ seed. seed)],
       exec (seed_set (\<lambda>pad seed. push_bit 1 ((seed * pad ! 3) * 13))),
       cond (branch = 3) [exec (minor_47_e80),
         exec (minor_44_e80),
         call major_20_e80 (\<lambda>pad _. pad ! 7)],
       exec (pad_or 10 (\<lambda>pad _. pad ! 19 AND 0x42a403d)),
       cond (branch = 6) [exec (minor_45_e80),
         TRY (minor_17_e80),
         call major_6_e80 (\<lambda>_ seed. seed)],
       exec (pad_set 4 (\<lambda>pad _. ROR_e80 (pad ! 4) (pad ! 18 + 0x486c59))),
       cond (branch = 2) [TRY (minor_8_e80),
         exec (minor_55_e80 (\<lambda>_ _. 0xdd66dc5c)),
         call major_1_e80 (\<lambda>pad _. pad ! 4)],
       exec (pad_add 11 (\<lambda>pad seed. if my_sin (ucast seed) then 0x44acfbd else pad ! 9)),
       cond (branch = 9) [exec (minor_42_e80),
         exec (minor_65_e80 (\<lambda>_ _. 117)),
         call major_4_e80 (\<lambda>pad _. pad ! 12)],
       exec (seed_set (\<lambda>pad seed. ROR_e80 seed (if seed < 0xaa6dc then seed else pad ! 17))),
       cond (branch = 0) [exec (minor_40_e80),
         TRY (minor_5_e80),
         call major_16_e80 (\<lambda>pad _. pad ! 15)],
       exec (pad_mul 16 (\<lambda>_ seed. 0xffc209cf XOR seed)),
       cond (branch = 0) [exec (minor_59_e80),
         exec (minor_52_e80 (\<lambda>_ _. 0xb7709fc1)),
         call major_7_e80 (\<lambda>pad _. pad ! 5)],
       exec (pad_add 4 (\<lambda>pad _. pad ! 17 * 0xe9f05570)),
       cond (branch = 5) [exec (minor_61_e80),
         exec (minor_47_e80),
         call major_8_e80 (\<lambda>pad _. pad ! 4)],
       exec (pad_mul 13 (\<lambda>pad _. pad ! 8 XOR 0x4001ca)),
       cond (branch = 7) [exec (minor_41_e80),
         exec (minor_56_e80 (\<lambda>_ _. 0x1d1451de)),
         call major_18_e80 (\<lambda>pad _. pad ! 1)],
       cond (branch = 8) [exec (minor_41_e80),
         exec (minor_28_e80),
         call major_12_e80 (\<lambda>pad _. pad ! 11)],
       exec (pad_and 13 (\<lambda>pad _. pad ! 9 * 0x4463ff)),
       cond (branch = 0x0b) [exec (minor_42_e80),
         exec (minor_34_e80),
         call1 minor_75_e80]] pad seed)"

definition major_15_e80 :: "u32 list \<Rightarrow> u32 \<Rightarrow> u32 list" where
  "major_15_e80 pad seed =
    (let branch = ((pad ! 0 XOR pad ! 3) XOR seed) mod 0x0d
     in run_body [
       cond (branch = 0) [exec (minor_40_e80),
         exec (minor_35_e80),
         call minor_74_e80 (\<lambda>pad _. pad ! 18)],
       exec (pad_mul 18 (\<lambda>_ seed. seed * 25)),
       cond (branch = 1) [TRY (minor_18_e80),
         exec (minor_27_e80),
         call major_10_e80 (\<lambda>pad _. pad ! 19)],
       exec (pad_and 12 (\<lambda>pad _. pad ! 8 XOR 0x3038e4eb)),
       cond (branch = 3) [exec (minor_61_e80),
         TRY (minor_4_e80),
         call major_20_e80 (\<lambda>pad _. pad ! 6)],
       cond (branch = 6) [TRY (minor_4_e80),
         exec (minor_26_e80),
         call major_6_e80 (\<lambda>pad _. pad ! 12)],
       exec (seed_xor (\<lambda>pad _. ROR_e80 (pad ! 0) 0x9)),
       cond (branch = 2) [exec (minor_62_e80),
         exec (minor_73_e80),
         call major_1_e80 (\<lambda>pad _. pad ! 0)],
       exec (pad_sub 8 (\<lambda>pad _. ROR_e80 (pad ! 6) 0x1c)),
       cond (branch = 0x0b) [TRY (minor_12_e80),
         TRY (minor_16_e80),
         call major_4_e80 (\<lambda>pad _. pad ! 8)],
       cond (branch = 8) [exec (minor_42_e80),
         TRY (minor_9_e80),
         call major_16_e80 (\<lambda>_ seed. seed)],
       exec (pad_xor 17 (\<lambda>pad _. pad ! 2 + 0x187f79e8)),
       cond (branch = 0) [exec (minor_71_e80),
         TRY (minor_18_e80),
         call major_7_e80 (\<lambda>pad _. pad ! 12)],
       exec (pad_xor 13 (\<lambda>_ seed. push_bit 2 (seed * 25))),
       cond (branch = 9) [TRY (minor_12_e80),
         exec (minor_63_e80),
         call major_8_e80 (\<lambda>pad _. pad ! 3)],
       cond (branch = 0x0a) [TRY (minor_19_e80),
         exec (minor_58_e80 (\<lambda>_ _. 0x30360f98)),
         call major_18_e80 (\<lambda>pad _. pad ! 9)],
       exec (pad_set 8 (\<lambda>pad _. ROR_e80 (pad ! 8) (pad ! 17 - 0x12c0bc1b))),
       cond (branch = 0x0c) [TRY (minor_9_e80),
         TRY (minor_21_e80),
         call major_12_e80 (\<lambda>pad _. pad ! 18)],
       exec (pad_xor 11 (\<lambda>pad _. pad ! 12 - 0x409402)),
       cond (branch = 7) [exec (minor_53_e80),
         exec (minor_24_e80),
         call major_5_e80 (\<lambda>_ seed. seed)],
       exec (pad_set 4 (\<lambda>pad _. ROR_e80 (pad ! 4) (pad ! 6 - 0x409402))),
       cond (branch = 5) [exec (minor_44_e80),
         exec (minor_32_e80 (\<lambda>_ _. 0x52374450)),
         call minor_74_e80 (\<lambda>pad _. pad ! 19)],
       cond (branch = 4) [exec (minor_58_e80 (\<lambda>_ _. 0x12d9e782)),
         exec (minor_66_e80),
         call major_10_e80 (\<lambda>pad _. pad ! 19)],
       exec (pad_xor 3 (\<lambda>pad _. pad ! 6 - 0x400000))] pad seed)"

definition major_2_e80 :: "u32 list \<Rightarrow> u32 \<Rightarrow> u32 list" where
  "major_2_e80 pad seed =
    (let branch = ((pad ! 10 XOR pad ! 0) XOR pad ! 13) mod 0x0e
     in run_body [
       cond (branch = 3) [TRY (minor_16_e80),
         exec (minor_46_e80),
         call major_10_e80 (\<lambda>pad _. pad ! 10)],
       exec (pad_set 19 (\<lambda>pad seed. ROL_e80 (pad ! 19) (seed * 41))),
       cond (branch = 0x0d) [TRY (minor_20_e80),
         exec (minor_35_e80),
         call major_20_e80 (\<lambda>_ seed. seed)],
       cond (branch = 2) [exec (minor_36_e80),
         exec (minor_73_e80),
         call major_6_e80 (\<lambda>pad _. pad ! 1)],
       exec (pad_and 12 (\<lambda>_ seed. seed AND 0x162e075d)),
       cond (branch = 0) [exec (minor_62_e80),
         exec (minor_51_e80 (\<lambda>_ _. 11)),
         call major_1_e80 (\<lambda>pad _. pad ! 3)],
       exec (pad_add 7 (\<lambda>pad _. 0xc0cf1e75 - pad ! 18)),
       cond (branch = 0) [exec (minor_60_e80),
         exec (minor_55_e80 (\<lambda>_ _. 0x5952d3f0)),
         call major_4_e80 (\<lambda>pad _. pad ! 13)],
       cond (branch = 0x0b) [TRY (minor_14_e80),
         exec (minor_70_e80),
         call major_16_e80 (\<lambda>_ seed. seed)],
       exec (pad_mul 10 (\<lambda>_ seed. seed + 0x15a0944d)),
       cond (branch = 7) [exec (minor_54_e80),
         TRY (minor_6_e80 (\<lambda>_ _. 0xe636d969)),
         call major_7_e80 (\<lambda>pad _. pad ! 14)],
       exec (pad_add 13 (\<lambda>pad _. pad ! 0 - 0x3b1c8fb8)),
       cond (branch = 8) [exec (minor_59_e80),
         exec (minor_53_e80),
         call major_8_e80 (\<lambda>pad _. pad ! 5)],
       cond (branch = 6) [TRY (minor_13_e80 (\<lambda>_ _. 0x34472a0d)),
         exec (minor_61_e80),
         call major_18_e80 (\<lambda>pad _. pad ! 1)],
       exec (pad_mul 18 (\<lambda>pad _. if pad ! 2 < 0xf9b0fae then pad ! 2 else pad ! 19)),
       cond (branch = 0x0c) [TRY (minor_6_e80 (\<lambda>_ _. 0xdf3d4cfc)),
         TRY (minor_19_e80),
         call major_12_e80 (\<lambda>_ seed. seed)],
       exec (pad_add 1 (\<lambda>pad _. push_bit 1 ((push_bit 3 (pad ! 5 * 3)) - pad ! 5))),
       cond (branch = 1) [exec (minor_68_e80),
         exec (minor_58_e80 (\<lambda>_ _. 0xf586317c)),
         call major_5_e80 (\<lambda>pad _. pad ! 17)],
       cond (branch = 4) [exec (minor_68_e80),
         exec (minor_69_e80),
         call major_15_e80 (\<lambda>_ seed. seed)],
       exec (pad_xor 11 (\<lambda>pad _. 0xffb29fb8 OR pad ! 13)),
       cond (branch = 0x0a) [TRY (minor_12_e80),
         exec (minor_40_e80),
         call major_10_e80 (\<lambda>pad _. pad ! 11)],
       exec (pad_xor 13 (\<lambda>_ seed. seed XOR 0x265916c9)),
       cond (branch = 5) [exec (minor_39_e80),
         TRY (minor_7_e80),
         call major_20_e80 (\<lambda>pad _. pad ! 11)],
       cond (branch = 9) [exec (minor_41_e80),
         exec (minor_28_e80),
         call major_6_e80 (\<lambda>pad _. pad ! 1)],
       exec (pad_mul 2 (\<lambda>pad _. pad ! 5 * 105))] pad seed)"

definition major_11_e80 :: "u32 list \<Rightarrow> u32 \<Rightarrow> u32 list" where
  "major_11_e80 pad seed =
    (let branch = pad ! 14 mod 0x0f
     in run_body [
       cond (branch = 0x0a) [exec (minor_60_e80),
         exec (minor_49_e80),
         call major_20_e80 (\<lambda>pad _. pad ! 19)],
       exec (pad_set 11 (\<lambda>pad _. ROR_e80 (pad ! 11) (0xa938539 AND pad ! 5))),
       cond (branch = 3) [exec (minor_53_e80),
         TRY (minor_10_e80 (\<lambda>_ _. 24)),
         call major_6_e80 (\<lambda>_ seed. seed)],
       cond (branch = 0) [exec (minor_70_e80),
         TRY (minor_15_e80),
         call major_1_e80 (\<lambda>pad _. pad ! 12)],
       exec (pad_mul 7 (\<lambda>pad _. if my_cos (ucast (pad ! 4)) then 0xa45b84a else pad ! 13)),
       cond (branch = 4) [TRY (minor_4_e80),
         exec (minor_44_e80),
         call major_4_e80 (\<lambda>pad _. pad ! 0)],
       exec (seed_or (\<lambda>pad seed. if my_sin (ucast seed) then 0xae00950 else pad ! 10)),
       cond (branch = 0x0d) [TRY (minor_10_e80 (\<lambda>_ _. 12)),
         exec (minor_66_e80),
         call major_16_e80 (\<lambda>pad _. pad ! 7)],
       cond (branch = 0) [exec (minor_23_e80),
         exec (minor_70_e80),
         call major_7_e80 (\<lambda>_ seed. seed)],
       exec (pad_add 15 (\<lambda>pad _. pad ! 13 + 0x519a438a)),
       cond (branch = 1) [TRY (minor_12_e80),
         exec (minor_41_e80),
         call major_8_e80 (\<lambda>pad _. pad ! 4)],
       cond (branch = 2) [exec (minor_23_e80),
         exec (minor_46_e80),
         call major_18_e80 (\<lambda>pad _. pad ! 15)],
       exec (pad_sub 9 (\<lambda>pad seed. if my_cos (ucast seed) then 0xaa60c04 else pad ! 15)),
       cond (branch = 0x0c) [exec (minor_26_e80),
         exec (minor_24_e80),
         call major_12_e80 (\<lambda>pad _. pad ! 7)],
       cond (branch = 5) [TRY (minor_12_e80),
         exec (minor_53_e80),
         call major_5_e80 (\<lambda>pad _. pad ! 15)],
       exec (pad_add 8 (\<lambda>pad _. ROR_e80 (pad ! 19) 0x4)),
       cond (branch = 0x0b) [exec (minor_31_e80),
         exec (minor_38_e80),
         call major_15_e80 (\<lambda>pad _. pad ! 4)],
       exec (pad_sub 7 (\<lambda>pad _. if my_sin (ucast (pad ! 5)) then 0xaf6039c else pad ! 12)),
       cond (branch = 6) [exec (minor_70_e80),
         exec (minor_67_e80 (\<lambda>_ _. 0xb27f04f)),
         call major_2_e80 (\<lambda>_ seed. seed)],
       cond (branch = 0x0e) [exec (minor_48_e80),
         TRY (minor_5_e80),
         call major_20_e80 (\<lambda>_ seed. seed)],
       exec (pad_mul 5 (\<lambda>_ seed. if my_cos (ucast seed) then 0x5df8323 else seed)),
       cond (branch = 8) [exec (minor_52_e80 (\<lambda>_ _. 0xbfb3dfcf)),
         exec (minor_24_e80),
         call major_6_e80 (\<lambda>_ seed. seed)],
       cond (branch = 9) [exec (minor_53_e80),
         exec (minor_46_e80),
         call major_1_e80 (\<lambda>pad _. pad ! 14)],
       exec (pad_xor 7 (\<lambda>pad _. pad ! 15 XOR 0x460390)),
       cond (branch = 7) [exec (minor_25_e80),
         exec (minor_44_e80),
         call major_4_e80 (\<lambda>_ seed. seed)],
       exec (pad_set 19 (\<lambda>_ _. 0))] pad seed)"

definition major_14_e80 :: "u32 list \<Rightarrow> u32 \<Rightarrow> u32 list" where
  "major_14_e80 pad seed =
    (let branch = ((pad ! 12 XOR pad ! 2) XOR pad ! 19) AND 0x0f
     in run_body [
       cond (branch = 0x0f) [TRY (minor_5_e80),
         exec (minor_26_e80),
         call major_6_e80 (\<lambda>pad _. pad ! 19)],
       exec (pad_add 3 (\<lambda>_ seed. (push_bit 4 (seed * 3)) + seed)),
       cond (branch = 9) [TRY (minor_11_e80 (\<lambda>_ _. 0x73324afc)),
         exec (minor_69_e80),
         call major_1_e80 (\<lambda>_ seed. seed)],
       cond (branch = 3) [exec (minor_53_e80),
         exec (minor_44_e80),
         call major_4_e80 (\<lambda>_ seed. seed)],
       exec (pad_sub 9 (\<lambda>pad _. pad ! 2 AND 0x8742c2)),
       cond (branch = 6) [TRY (minor_21_e80),
         exec (minor_67_e80 (\<lambda>_ _. 0xe37df00a)),
         call major_16_e80 (\<lambda>_ seed. seed)],
       exec (seed_xor (\<lambda>pad _. if pad ! 6 < 0x4c2ac4 then pad ! 6 else pad ! 5)),
       cond (branch = 0x0c) [exec (minor_58_e80 (\<lambda>_ _. 0xf8e7cbf0)),
         exec (minor_48_e80),
         call major_7_e80 (\<lambda>_ seed. seed)],
       cond (branch = 0x0e) [exec (minor_57_e80 (\<lambda>_ _. 0xbe02f6b0)),
         exec (minor_69_e80),
         call major_8_e80 (\<lambda>_ seed. seed)],
       exec (pad_xor 8 (\<lambda>pad _. my_sqrt (ucast (pad ! 17)))),
       cond (branch = 4) [TRY (minor_6_e80 (\<lambda>_ _. 0xcad836af)),
         exec (minor_25_e80),
         call major_18_e80 (\<lambda>pad _. pad ! 16)],
       exec (pad_add 1 (\<lambda>pad _. 0x904f9e8d - pad ! 5)),
       cond (branch = 2) [TRY (minor_5_e80),
         TRY (minor_14_e80),
         call major_12_e80 (\<lambda>pad _. pad ! 2)],
       cond (branch = 0) [exec (minor_33_e80 (\<lambda>_ _. 0xa29c6a97)),
         exec (minor_38_e80),
         call major_5_e80 (\<lambda>pad _. pad ! 17)],
       exec (pad_add 5 (\<lambda>pad _. pad ! 6 - 0x49781f)),
       cond (branch = 5) [TRY (minor_4_e80),
         exec (minor_62_e80),
         call major_15_e80 (\<lambda>pad _. pad ! 8)],
       cond (branch = 0x0d) [exec (minor_43_e80),
         TRY (minor_11_e80 (\<lambda>_ _. 0x9c1ee61f)),
         call major_2_e80 (\<lambda>_ seed. seed)],
       exec (pad_xor 0 (\<lambda>pad _. pad ! 6 + 0x356dcf35)),
       cond (branch = 1) [TRY (minor_14_e80),
         exec (minor_29_e80 (\<lambda>_ _. 96)),
         call major_11_e80 (\<lambda>pad _. pad ! 0)],
       exec (pad_xor 8 (\<lambda>pad _. ROL_e80 (pad ! 8) 0x1d)),
       cond (branch = 0x0b) [exec (minor_62_e80),
         exec (minor_26_e80),
         call major_6_e80 (\<lambda>pad _. pad ! 9)],
       cond (branch = 8) [exec (minor_42_e80),
         exec (minor_33_e80 (\<lambda>_ _. 0x78bca04e)),
         call major_1_e80 (\<lambda>_ seed. seed)],
       exec (pad_or 19 (\<lambda>pad _. pad ! 4 * 73)),
       cond (branch = 0x0a) [exec (minor_26_e80),
         TRY (minor_5_e80),
         call major_4_e80 (\<lambda>pad _. pad ! 2)],
       exec (pad_add 11 (\<lambda>pad _. 0xb888d - pad ! 10)),
       cond (branch = 7) [exec (minor_23_e80),
         exec (minor_26_e80),
         call major_16_e80 (\<lambda>_ seed. seed)],
       cond (branch = 0) [TRY (minor_16_e80),
         TRY (minor_10_e80 (\<lambda>_ _. 22)),
         call major_7_e80 (\<lambda>pad _. pad ! 19)],
       exec (pad_xor 17 (\<lambda>pad _. push_bit 3 (pad ! 3 * 5)))] pad seed)"

definition major_13_e80 :: "u32 list \<Rightarrow> u32 \<Rightarrow> u32 list" where
  "major_13_e80 pad seed =
    (let branch = ((pad ! 1 XOR pad ! 16) XOR pad ! 18) AND 0x0f
     in run_body [
       cond (branch = 1) [exec (minor_68_e80),
         exec (minor_29_e80 (\<lambda>_ _. 20)),
         call major_1_e80 (\<lambda>pad _. pad ! 3)],
       exec (pad_add 5 (\<lambda>pad _. 0x37c9c771 - pad ! 18)),
       cond (branch = 0) [exec (minor_69_e80),
         exec (minor_39_e80),
         call major_4_e80 (\<lambda>pad _. pad ! 1)],
       cond (branch = 8) [exec (minor_66_e80),
         TRY (minor_17_e80),
         call major_16_e80 (\<lambda>pad _. pad ! 7)],
       exec (pad_sub 0 (\<lambda>_ seed. if my_sin (ucast seed) then 0xe2d0d9 else seed)),
       cond (branch = 7) [exec (minor_58_e80 (\<lambda>_ _. 0xf6f6309c)),
         TRY (minor_18_e80),
         call major_7_e80 (\<lambda>pad _. pad ! 0)],
       cond (branch = 6) [exec (minor_41_e80),
         TRY (minor_7_e80),
         call major_8_e80 (\<lambda>pad _. pad ! 0)],
       exec (pad_set 11 (\<lambda>pad seed. ROR_e80 (pad ! 11) (if my_cos (ucast seed) then 0xf1085c5 else pad ! 11))),
       cond (branch = 1) [exec (minor_29_e80 (\<lambda>_ _. 156)),
         exec (minor_56_e80 (\<lambda>_ _. 0x2cda662b)),
         call major_18_e80 (\<lambda>pad _. pad ! 3)],
       cond (branch = 0x0f) [TRY (minor_18_e80),
         exec (minor_43_e80),
         call major_12_e80 (\<lambda>pad _. pad ! 18)],
       exec (pad_sub 17 (\<lambda>pad _. ROL_e80 (pad ! 11) 0x18)),
       cond (branch = 2) [exec (minor_70_e80),
         exec (minor_64_e80),
         call major_5_e80 (\<lambda>pad _. pad ! 17)],
       cond (branch = 9) [exec (minor_70_e80),
         exec (minor_63_e80),
         call major_15_e80 (\<lambda>_ seed. seed)],
       cond (branch = 0x0a) [exec (minor_70_e80),
         exec (minor_58_e80 (\<lambda>_ _. 0xe6e37dd2)),
         call major_2_e80 (\<lambda>pad _. pad ! 5)],
       cond (branch = 0x0e) [TRY (minor_5_e80),
         exec (minor_42_e80),
         call major_11_e80 (\<lambda>pad _. pad ! 0)],
       cond (branch = 0x0c) [TRY (minor_12_e80),
         exec (minor_41_e80),
         call major_14_e80 (\<lambda>pad _. pad ! 18)],
       cond (branch = 3) [exec (minor_43_e80),
         exec (minor_33_e80 (\<lambda>_ _. 0xa5ffc324)),
         call major_1_e80 (\<lambda>pad _. pad ! 12)],
       exec (pad_xor 14 (\<lambda>pad _. pad ! 4 OR 0xc893a6)),
       cond (branch = 0x0b) [exec (minor_45_e80),
         exec (minor_33_e80 (\<lambda>_ _. 0x477431cd)),
         call major_4_e80 (\<lambda>pad _. pad ! 12)],
       cond (branch = 0) [TRY (minor_13_e80 (\<lambda>_ _. 0x398c59e0)),
         TRY (minor_15_e80),
         call major_16_e80 (\<lambda>pad _. pad ! 15)],
       exec (pad_xor 19 (\<lambda>pad _. if my_cos (ucast (pad ! 14)) then 0x4d552e else pad ! 10)),
       cond (branch = 0x0d) [exec (minor_35_e80),
         exec (minor_51_e80 (\<lambda>_ _. 18)),
         call major_7_e80 (\<lambda>pad _. pad ! 2)],
       exec (pad_set 13 (\<lambda>pad _. (push_bit 1 (pad ! 13 * 27)) - pad ! 13)),
       cond (branch = 4) [TRY (minor_6_e80 (\<lambda>_ _. 0xd48681ae)),
         exec (minor_51_e80 (\<lambda>_ _. 18)),
         call major_8_e80 (\<lambda>pad _. pad ! 6)],
       cond (branch = 5) [TRY (minor_19_e80),
         exec (minor_29_e80 (\<lambda>_ _. 88)),
         call major_18_e80 (\<lambda>pad _. pad ! 16)],
       exec (pad_xor 8 (\<lambda>pad _. pad ! 10 + 0x4d757e))] pad seed)"

definition major_19_e80 :: "u32 list \<Rightarrow> u32 \<Rightarrow> u32 list" where
  "major_19_e80 pad seed =
    (let branch = ((pad ! 11 XOR pad ! 6) XOR pad ! 19) AND 0x0f
     in run_body [
       cond (branch = 7) [TRY (minor_8_e80),
         exec (minor_34_e80),
         call major_4_e80 (\<lambda>_ seed. seed)],
       exec (pad_set 18 (\<lambda>pad _. ROR_e80 (pad ! 18) (pad ! 6 + 0x50bb3362))),
       cond (branch = 0x0d) [exec (minor_26_e80),
         TRY (minor_8_e80),
         call major_16_e80 (\<lambda>pad _. pad ! 14)],
       cond (branch = 0x0f) [TRY (minor_6_e80 (\<lambda>_ _. 0xce7048a1)),
         exec (minor_53_e80),
         call major_7_e80 (\<lambda>pad _. pad ! 0)],
       exec (pad_sub 6 (\<lambda>pad _. if my_cos (ucast (pad ! 14)) then 0x50ff65ed else pad ! 9)),
       cond (branch = 2) [exec (minor_57_e80 (\<lambda>_ _. 0x1530cb9a)),
         exec (minor_68_e80),
         call major_8_e80 (\<lambda>pad _. pad ! 13)],
       cond (branch = 8) [exec (minor_26_e80),
         exec (minor_49_e80),
         call major_18_e80 (\<lambda>_ seed. seed)],
       exec (seed_xor (\<lambda>_ seed. ROR_e80 seed 0xd)),
       cond (branch = 0x0a) [exec (minor_65_e80 (\<lambda>_ _. 48)),
         exec (minor_38_e80),
         call major_12_e80 (\<lambda>_ seed. seed)],
       cond (branch = 5) [exec (minor_55_e80 (\<lambda>_ _. 0x1e8ee7f4)),
         exec (minor_45_e80),
         call major_5_e80 (\<lambda>pad _. pad ! 10)],
       exec (pad_xor 17 (\<lambda>pad _. pad ! 4 OR 0x50ffe7ed)),
       cond (branch = 3) [exec (minor_30_e80),
         exec (minor_59_e80),
         call major_15_e80 (\<lambda>pad _. pad ! 17)],
       cond (branch = 0) [exec (minor_25_e80),
         TRY (minor_14_e80),
         call major_2_e80 (\<lambda>pad _. pad ! 8)],
       exec (seed_xor (\<lambda>pad seed. if seed < 0x5149b5c9 then seed else pad ! 5)),
       cond (branch = 0x0b) [exec (minor_46_e80),
         exec (minor_58_e80 (\<lambda>_ _. 0x778d8c)),
         call major_11_e80 (\<lambda>_ seed. seed)],
       cond (branch = 2) [TRY (minor_9_e80),
         TRY (minor_14_e80),
         call major_14_e80 (\<lambda>pad _. pad ! 1)],
       exec (pad_add 9 (\<lambda>pad _. pad ! 7 XOR 0x5149b5c9)),
       cond (branch = 0x0e) [exec (minor_51_e80 (\<lambda>_ _. 1)),
         exec (minor_63_e80),
         call major_13_e80 (\<lambda>pad _. pad ! 6)],
       cond (branch = 1) [exec (minor_71_e80),
         exec (minor_34_e80),
         call major_4_e80 (\<lambda>pad _. pad ! 19)],
       exec (pad_or 17 (\<lambda>pad _. pad ! 10 - 0x514ffdff)),
       cond (branch = 6) [exec (minor_62_e80),
         exec (minor_44_e80),
         call major_16_e80 (\<lambda>pad _. pad ! 8)],
       cond (branch = 9) [exec (minor_58_e80 (\<lambda>_ _. 0xe0d7842a)),
         TRY (minor_10_e80 (\<lambda>_ _. 4)),
         call major_7_e80 (\<lambda>pad _. pad ! 2)],
       exec (pad_xor 6 (\<lambda>pad seed. if my_cos (ucast (pad ! 13)) then 0xb29627f else seed)),
       cond (branch = 0x0c) [exec (minor_70_e80),
         exec (minor_30_e80),
         call major_8_e80 (\<lambda>pad _. pad ! 5)],
       cond (branch = 0) [exec (minor_59_e80),
         TRY (minor_13_e80 (\<lambda>_ _. 0x664d4285)),
         call major_18_e80 (\<lambda>pad _. pad ! 14)],
       cond (branch = 4) [TRY (minor_13_e80 (\<lambda>_ _. 0x281b56a6)),
         TRY (minor_18_e80),
         call major_12_e80 (\<lambda>pad _. pad ! 18)],
       cond (branch = 1) [exec (minor_25_e80),
         exec (minor_24_e80),
         call major_5_e80 (\<lambda>pad _. pad ! 4)],
       exec (pad_mul 16 (\<lambda>pad _. pad ! 3 * 0x3a94d))] pad seed)"

definition major_17_e80 :: "u32 list \<Rightarrow> u32 \<Rightarrow> u32 list" where
  "major_17_e80 pad seed =
    (let branch = ((pad ! 2 XOR pad ! 6) XOR seed) AND 0x0f
     in run_body [
       cond (branch = 4) [exec (minor_72_e80 (\<lambda>_ _. 170)),
         exec (minor_43_e80),
         call major_16_e80 (\<lambda>pad _. pad ! 6)],
       cond (branch = 0x0a) [exec (minor_31_e80),
         exec (minor_72_e80 (\<lambda>_ _. 253)),
         call major_7_e80 (\<lambda>pad _. pad ! 0)],
       exec (pad_add 15 (\<lambda>pad _. ROR_e80 (pad ! 16) 0x5)),
       cond (branch = 2) [exec (minor_49_e80),
         exec (minor_70_e80),
         call major_8_e80 (\<lambda>pad _. pad ! 4)],
       cond (branch = 9) [exec (minor_57_e80 (\<lambda>_ _. 0xc481dafd)),
         exec (minor_50_e80),
         call major_18_e80 (\<lambda>_ seed. seed)],
       exec (seed_set (\<lambda>pad seed. push_bit 1 ((pad ! 3 * seed) * 19))),
       cond (branch = 8) [exec (minor_39_e80),
         exec (minor_71_e80),
         call major_12_e80 (\<lambda>pad _. pad ! 8)],
       cond (branch = 3) [exec (minor_58_e80 (\<lambda>_ _. 0x1bf5bb22)),
         exec (minor_62_e80),
         call major_5_e80 (\<lambda>pad _. pad ! 14)],
       exec (pad_mul 11 (\<lambda>_ seed. seed + 0x19948e09)),
       cond (branch = 3) [exec (minor_49_e80),
         exec (minor_73_e80),
         call major_15_e80 (\<lambda>_ seed. seed)],
       cond (branch = 0x0e) [TRY (minor_11_e80 (\<lambda>_ _. 0x43cf4936)),
         TRY (minor_11_e80 (\<lambda>_ _. 0xcc3ff7ad)),
         call major_2_e80 (\<lambda>_ seed. seed)],
       exec (pad_set 2 (\<lambda>pad seed. ROR_e80 (pad ! 2) (seed - 0xc5ef5be))),
       cond (branch = 0) [exec (minor_26_e80),
         exec (minor_24_e80),
         call major_11_e80 (\<lambda>_ seed. seed)],
       cond (branch = 0x0f) [exec (minor_69_e80),
         exec (minor_61_e80),
         call major_14_e80 (\<lambda>_ seed. seed)],
       exec (pad_sub 12 (\<lambda>pad seed. if my_cos (ucast seed) then 0xcaba2d3 else pad ! 9)),
       cond (branch = 0x0b) [exec (minor_56_e80 (\<lambda>_ _. 0x27ba9331)),
         exec (minor_29_e80 (\<lambda>_ _. 148)),
         call major_13_e80 (\<lambda>_ seed. seed)],
       cond (branch = 7) [exec (minor_34_e80),
         exec (minor_52_e80 (\<lambda>_ _. 0x3a9e050c)),
         call major_19_e80 (\<lambda>pad _. pad ! 1)],
       exec (pad_sub 17 (\<lambda>pad _. if pad ! 17 < 0xcaba2d3 then pad ! 17 else pad ! 18)),
       cond (branch = 0) [exec (minor_44_e80),
         exec (minor_48_e80),
         call major_16_e80 (\<lambda>pad _. pad ! 10)],
       cond (branch = 1) [exec (minor_33_e80 (\<lambda>_ _. 0x6bd5eb17)),
         exec (minor_43_e80),
         call major_7_e80 (\<lambda>pad _. pad ! 17)],
       exec (pad_add 6 (\<lambda>pad _. pad ! 0 - 0xd6249f6)),
       cond (branch = 0x0c) [TRY (minor_21_e80),
         TRY (minor_4_e80),
         call major_8_e80 (\<lambda>pad _. pad ! 6)],
       cond (branch = 1) [exec (minor_70_e80),
         exec (minor_57_e80 (\<lambda>_ _. 0x63fd32db)),
         call major_18_e80 (\<lambda>_ seed. seed)],
       exec (pad_add 5 (\<lambda>pad _. (push_bit 4 (pad ! 16 * 7)) + pad ! 16)),
       cond (branch = 6) [exec (minor_50_e80),
         TRY (minor_17_e80),
         call major_12_e80 (\<lambda>pad _. pad ! 8)],
       cond (branch = 2) [TRY (minor_14_e80),
         TRY (minor_20_e80),
         call major_5_e80 (\<lambda>pad _. pad ! 15)],
       exec (pad_or 11 (\<lambda>pad _. pad ! 13 * 0x11)),
       cond (branch = 0x0d) [exec (minor_32_e80 (\<lambda>_ _. 0x1cf92975)),
         TRY (minor_13_e80 (\<lambda>_ _. 0x2f50247e)),
         call major_15_e80 (\<lambda>pad _. pad ! 11)],
       cond (branch = 5) [exec (minor_57_e80 (\<lambda>_ _. 0xeb114770)),
         exec (minor_34_e80),
         call major_2_e80 (\<lambda>_ seed. seed)],
       exec (pad_add 10 (\<lambda>pad _. pad ! 10 XOR 0x53350a5e))] pad seed)"

definition major_3_e80 :: "u32 list \<Rightarrow> u32 \<Rightarrow> u32 list" where
  "major_3_e80 pad seed =
    (let branch = ((pad ! 3 XOR pad ! 14) XOR seed) AND 0x0f
     in run_body [
       cond (branch = 0x0c) [exec (minor_46_e80),
         exec (minor_72_e80 (\<lambda>_ _. 75)),
         call major_7_e80 (\<lambda>_ seed. seed)],
       cond (branch = 4) [exec (minor_23_e80),
         exec (minor_47_e80),
         call major_8_e80 (\<lambda>pad _. pad ! 19)],
       exec (seed_sub (\<lambda>pad _. pad ! 5 * 18)),
       cond (branch = 8) [TRY (minor_11_e80 (\<lambda>_ _. 0x890edab4)),
         exec (minor_31_e80),
         call major_18_e80 (\<lambda>_ seed. seed)],
       cond (branch = 0x0e) [exec (minor_46_e80),
         exec (minor_41_e80),
         call major_12_e80 (\<lambda>pad _. pad ! 4)],
       exec (pad_xor 19 (\<lambda>pad _. 0xbd8b55f XOR pad ! 11)),
       cond (branch = 0x0b) [exec (minor_56_e80 (\<lambda>_ _. 0x20aa3abd)),
         TRY (minor_13_e80 (\<lambda>_ _. 0x5d894d2)),
         call major_5_e80 (\<lambda>pad _. pad ! 17)],
       cond (branch = 4) [exec (minor_69_e80),
         exec (minor_60_e80),
         call major_15_e80 (\<lambda>_ seed. seed)],
       exec (pad_sub 16 (\<lambda>pad _. push_bit 1 ((push_bit 2 (pad ! 3 * 3)) - pad ! 3))),
       cond (branch = 1) [exec (minor_43_e80),
         exec (minor_52_e80 (\<lambda>_ _. 0x5b5a9b00)),
         call major_2_e80 (\<lambda>_ seed. seed)],
       cond (branch = 9) [exec (minor_45_e80),
         exec (minor_49_e80),
         call major_11_e80 (\<lambda>pad _. pad ! 9)],
       exec (pad_mul 14 (\<lambda>pad _. pad ! 5 OR 0x132a8fbd)),
       cond (branch = 0x0a) [exec (minor_51_e80 (\<lambda>_ _. 31)),
         exec (minor_57_e80 (\<lambda>_ _. 0xb1e94414)),
         call major_14_e80 (\<lambda>_ seed. seed)],
       cond (branch = 0x0d) [exec (minor_35_e80),
         exec (minor_42_e80),
         call major_13_e80 (\<lambda>_ seed. seed)],
       cond (branch = 2) [TRY (minor_3_e80),
         exec (minor_56_e80 (\<lambda>_ _. 0xfe2e49b0)),
         call major_19_e80 (\<lambda>pad _. pad ! 17)],
       exec (pad_add 12 (\<lambda>_ seed. push_bit 1 ((- ((push_bit 2 (seed * 5)) - seed)) * 3))),
       cond (branch = 1) [TRY (minor_10_e80 (\<lambda>_ _. 30)),
         exec (minor_42_e80),
         call major_17_e80 (\<lambda>pad _. pad ! 14)],
       cond (branch = 2) [exec (minor_54_e80),
         TRY (minor_5_e80),
         call major_7_e80 (\<lambda>_ seed. seed)],
       exec (pad_mul 16 (\<lambda>pad seed. if my_cos (ucast seed) then 0x40e92e8a else pad ! 9)),
       cond (branch = 0) [exec (minor_39_e80),
         TRY (minor_16_e80),
         call major_8_e80 (\<lambda>pad _. pad ! 5),
         exec (minor_44_e80),
         exec (minor_68_e80),
         call major_18_e80 (\<lambda>pad _. pad ! 10)],
       exec (seed_mul (\<lambda>pad _. pad ! 2 XOR 0xe5c69ea)),
       cond (branch = 5) [TRY (minor_10_e80 (\<lambda>_ _. 10)),
         exec (minor_47_e80),
         call major_12_e80 (\<lambda>pad _. pad ! 9)],
       cond (branch = 7) [TRY (minor_8_e80),
         exec (minor_30_e80),
         call major_5_e80 (\<lambda>pad _. pad ! 0)],
       exec (pad_add 8 (\<lambda>_ seed. seed - 0x1dbcefc2)),
       cond (branch = 3) [exec (minor_43_e80),
         exec (minor_23_e80),
         call major_15_e80 (\<lambda>pad _. pad ! 14)],
       cond (branch = 6) [exec (minor_47_e80),
         exec (minor_55_e80 (\<lambda>_ _. 0xecb0c1a8)),
         call major_2_e80 (\<lambda>_ seed. seed)],
       exec (seed_add (\<lambda>pad _. pad ! 15 - 0x3206a0ca)),
       cond (branch = 3) [exec (minor_31_e80),
         exec (minor_35_e80),
         call major_11_e80 (\<lambda>_ seed. seed)],
       cond (branch = 0x0f) [TRY (minor_17_e80),
         exec (minor_28_e80),
         call major_14_e80 (\<lambda>pad _. pad ! 1)],
       exec (pad_xor 14 (\<lambda>pad _. pad ! 8 AND 0x7d271))] pad seed)"

definition major_21_e80 :: "u32 list \<Rightarrow> u32 \<Rightarrow> u32 list" where
  "major_21_e80 pad seed =
    (let branch = ((pad ! 15 XOR pad ! 4) XOR pad ! 19) AND 0x0f
     in run_body [
       cond (branch = 8) [exec (minor_39_e80),
         TRY (minor_17_e80),
         call major_8_e80 (\<lambda>pad _. pad ! 12)],
       exec (pad_add 16 (\<lambda>pad _. 0x19deda30 - pad ! 1)),
       cond (branch = 2) [exec (minor_58_e80 (\<lambda>_ _. 0x7022d430)),
         TRY (minor_3_e80),
         call major_18_e80 (\<lambda>_ seed. seed)],
       cond (branch = 3) [exec (minor_31_e80),
         exec (minor_58_e80 (\<lambda>_ _. 0x7bb7cdf6)),
         call major_12_e80 (\<lambda>_ seed. seed)],
       exec (seed_sub (\<lambda>pad seed. if my_cos (ucast (pad ! 10)) then 0x199972a0 else seed)),
       cond (branch = 4) [exec (minor_30_e80),
         exec (minor_72_e80 (\<lambda>_ _. 150)),
         call major_5_e80 (\<lambda>_ seed. seed)],
       cond (branch = 9) [exec (minor_59_e80),
         TRY (minor_20_e80),
         call major_15_e80 (\<lambda>pad _. pad ! 16)],
       exec (pad_mul 16 (\<lambda>pad _. my_sqrt (ucast (pad ! 2)))),
       cond (branch = 0x0e) [exec (minor_56_e80 (\<lambda>_ _. 0x103ec068)),
         exec (minor_42_e80),
         call major_2_e80 (\<lambda>pad _. pad ! 8)],
       cond (branch = 5) [exec (minor_48_e80),
         exec (minor_34_e80),
         call major_11_e80 (\<lambda>pad _. pad ! 9)],
       exec (pad_sub 18 (\<lambda>pad _. my_sqrt (ucast (pad ! 2)))),
       cond (branch = 6) [exec (minor_67_e80 (\<lambda>_ _. 0x903b6f4)),
         exec (minor_37_e80),
         call major_14_e80 (\<lambda>_ seed. seed)],
       cond (branch = 1) [exec (minor_43_e80),
         exec (minor_73_e80),
         call major_13_e80 (\<lambda>pad _. pad ! 13)],
       exec (seed_add (\<lambda>pad seed. if pad ! 8 < 0x2b940916 then pad ! 8 else seed)),
       cond (branch = 3) [exec (minor_55_e80 (\<lambda>_ _. 0x22c0e0f0)),
         TRY (minor_20_e80),
         call major_19_e80 (\<lambda>_ seed. seed)],
       cond (branch = 2) [exec (minor_29_e80 (\<lambda>_ _. 48)),
         TRY (minor_18_e80),
         call major_17_e80 (\<lambda>pad _. pad ! 5)],
       exec (seed_mul (\<lambda>pad _. pad ! 5 + 0x1d13557b)),
       cond (branch = 0x0b) [TRY (minor_6_e80 (\<lambda>_ _. 0xf4f5adcc)),
         exec (minor_70_e80),
         call major_3_e80 (\<lambda>pad _. pad ! 17)],
       cond (branch = 0x0a) [exec (minor_68_e80),
         TRY (minor_4_e80),
         call major_8_e80 (\<lambda>_ seed. seed)],
       exec (pad_sub 0 (\<lambda>_ seed. my_sqrt (ucast seed))),
       cond (branch = 0x0d) [exec (minor_35_e80),
         TRY (minor_7_e80),
         call major_18_e80 (\<lambda>pad _. pad ! 17)],
       cond (branch = 0) [TRY (minor_20_e80),
         TRY (minor_17_e80),
         call major_12_e80 (\<lambda>pad _. pad ! 19)],
       exec (pad_add 18 (\<lambda>_ seed. 0xffb953f8 + seed)),
       cond (branch = 0x0f) [TRY (minor_7_e80),
         exec (minor_69_e80),
         call major_5_e80 (\<lambda>_ seed. seed)],
       cond (branch = 1) [TRY (minor_19_e80),
         exec (minor_47_e80),
         call major_15_e80 (\<lambda>pad _. pad ! 8)],
       exec (pad_xor 3 (\<lambda>pad seed. if my_cos (ucast seed) then 0xffb953f8 else pad ! 4)),
       cond (branch = 7) [exec (minor_30_e80),
         exec (minor_28_e80),
         call major_2_e80 (\<lambda>pad _. pad ! 1)],
       cond (branch = 0) [exec (minor_28_e80),
         exec (minor_70_e80),
         call major_11_e80 (\<lambda>pad _. pad ! 8)],
       exec (pad_xor 1 (\<lambda>pad _. pad ! 3 * 0x620312f0)),
       cond (branch = 0x0c) [exec (minor_63_e80),
         exec (minor_65_e80 (\<lambda>_ _. 211)),
         call major_14_e80 (\<lambda>pad _. pad ! 12)],
       exec (pad_xor 7 (\<lambda>pad _. my_sqrt (ucast (pad ! 10)))),
       cond (branch = 4) [exec (minor_38_e80),
         exec (minor_60_e80),
         call major_13_e80 (\<lambda>pad _. pad ! 4)],
       cond (branch = 5) [exec (minor_44_e80),
         exec (minor_23_e80),
         call major_19_e80 (\<lambda>_ seed. seed)],
       exec (pad_xor 18 (\<lambda>pad _. pad ! 14 + 0x9ad3708))] pad seed)"

definition major_9_e80 :: "u32 list \<Rightarrow> u32 \<Rightarrow> u32 list" where
  "major_9_e80 pad seed =
    (let branch = pad ! 9 AND 0x0f
     in run_body [
       cond (branch = 0x0d) [exec (minor_53_e80),
         exec (minor_36_e80),
         call major_18_e80 (\<lambda>pad _. pad ! 13)],
       cond (branch = 2) [TRY (minor_21_e80),
         exec (minor_40_e80),
         call major_12_e80 (\<lambda>pad _. pad ! 10)],
       exec (pad_sub 1 (\<lambda>pad _. 0x49d06938 XOR pad ! 7)),
       cond (branch = 6) [TRY (minor_7_e80),
         exec (minor_31_e80),
         call major_5_e80 (\<lambda>_ seed. seed)],
       cond (branch = 0x0e) [exec (minor_51_e80 (\<lambda>_ _. 29)),
         TRY (minor_5_e80),
         call major_15_e80 (\<lambda>_ seed. seed)],
       exec (pad_mul 13 (\<lambda>pad seed. if my_cos (ucast seed) then 0x46223265 else pad ! 18)),
       cond (branch = 6) [TRY (minor_3_e80),
         TRY (minor_8_e80),
         call major_2_e80 (\<lambda>pad _. pad ! 3)],
       cond (branch = 4) [exec (minor_46_e80),
         exec (minor_53_e80),
         call major_11_e80 (\<lambda>_ seed. seed)],
       exec (pad_add 6 (\<lambda>_ seed. push_bit 3 (seed * 3))),
       cond (branch = 4) [TRY (minor_12_e80),
         exec (minor_65_e80 (\<lambda>_ _. 182)),
         call major_14_e80 (\<lambda>pad _. pad ! 14)],
       cond (branch = 2) [exec (minor_58_e80 (\<lambda>_ _. 0xfa9054cb)),
         TRY (minor_4_e80),
         call major_13_e80 (\<lambda>pad _. pad ! 0)],
       exec (seed_xor (\<lambda>pad _. if my_sin (ucast (pad ! 11)) then 0x2f24fb19 else pad ! 16)),
       cond (branch = 0x0a) [exec (minor_40_e80),
         exec (minor_70_e80),
         call major_19_e80 (\<lambda>pad _. pad ! 7)],
       cond (branch = 0x0b) [exec (minor_50_e80),
         exec (minor_72_e80 (\<lambda>_ _. 5)),
         call major_17_e80 (\<lambda>pad _. pad ! 9)],
       cond (branch = 5) [exec (minor_52_e80 (\<lambda>_ _. 0xc4de785)),
         exec (minor_36_e80),
         call major_3_e80 (\<lambda>_ seed. seed)],
       exec (pad_mul 18 (\<lambda>pad _. pad ! 2 + 0x92c5d3)),
       cond (branch = 1) [exec (minor_35_e80),
         exec (minor_64_e80),
         call major_21_e80 (\<lambda>pad _. pad ! 7)],
       cond (branch = 5) [TRY (minor_17_e80),
         exec (minor_68_e80),
         call major_18_e80 (\<lambda>_ seed. seed)],
       exec (pad_sub 6 (\<lambda>pad _. pad ! 8 AND 0x42d2afe6)),
       cond (branch = 0) [exec (minor_46_e80),
         TRY (minor_7_e80),
         call major_12_e80 (\<lambda>pad _. pad ! 9)],
       cond (branch = 7) [exec (minor_26_e80),
         exec (minor_64_e80),
         call major_5_e80 (\<lambda>pad _. pad ! 3)],
       exec (pad_set 14 (\<lambda>pad _. ROR_e80 (pad ! 14) (pad ! 3 + 0x44060020))),
       cond (branch = 3) [exec (minor_35_e80),
         exec (minor_59_e80),
         call major_15_e80 (\<lambda>pad _. pad ! 2)],
       cond (branch = 9) [exec (minor_39_e80),
         exec (minor_51_e80 (\<lambda>_ _. 14)),
         call major_2_e80 (\<lambda>_ seed. seed)],
       exec (pad_and 11 (\<lambda>_ seed. seed XOR 0x26649bd)),
       cond (branch = 0x0c) [exec (minor_43_e80),
         exec (minor_40_e80),
         call major_11_e80 (\<lambda>_ seed. seed)],
       cond (branch = 0x0f) [exec (minor_33_e80 (\<lambda>_ _. 0x15507317)),
         exec (minor_31_e80),
         call major_14_e80 (\<lambda>pad _. pad ! 17)],
       exec (pad_set 3 (\<lambda>pad _. ROR_e80 (pad ! 3) (0xd783ed AND pad ! 11))),
       cond (branch = 1) [TRY (minor_8_e80),
         exec (minor_28_e80),
         call major_13_e80 (\<lambda>pad _. pad ! 13)],
       cond (branch = 8) [exec (minor_28_e80),
         exec (minor_40_e80),
         call major_19_e80 (\<lambda>pad _. pad ! 11)],
       cond (branch = 0) [TRY (minor_9_e80),
         exec (minor_35_e80),
         call major_17_e80 (\<lambda>_ seed. seed)],
       exec (pad_add 10 (\<lambda>pad seed. if my_cos (ucast (pad ! 0)) then 0xf1b21fe else seed)),
       cond (branch = 3) [exec (minor_60_e80),
         TRY (minor_14_e80),
         call major_3_e80 (\<lambda>pad _. pad ! 1)],
       exec (pad_mul 19 (\<lambda>pad _. pad ! 18 * 73))] pad seed)"

definition major_0_e80 :: "u32 list \<Rightarrow> u32 \<Rightarrow> u32 list" where
  "major_0_e80 pad seed =
    (let branch = ((pad ! 7 XOR pad ! 11) XOR pad ! 18) AND 0x0f
     in run_body [
       cond (branch = 0x0e) [exec (minor_33_e80 (\<lambda>_ _. 0xc13e99ce)),
         exec (minor_34_e80),
         call major_12_e80 (\<lambda>_ seed. seed)],
       cond (branch = 9) [exec (minor_41_e80),
         exec (minor_70_e80),
         call major_5_e80 (\<lambda>pad _. pad ! 7)],
       exec (pad_add 11 (\<lambda>pad _. 0 - ((push_bit 4 (pad ! 18 * 5)) - pad ! 18))),
       cond (branch = 0x0c) [exec (minor_43_e80),
         exec (minor_27_e80),
         call major_15_e80 (\<lambda>pad _. pad ! 2)],
       cond (branch = 3) [exec (minor_29_e80 (\<lambda>_ _. 168)),
         TRY (minor_20_e80),
         call major_2_e80 (\<lambda>pad _. pad ! 7)],
       cond (branch = 0x0b) [exec (minor_70_e80),
         exec (minor_35_e80),
         call major_11_e80 (\<lambda>pad _. pad ! 17)],
       exec (pad_xor 19 (\<lambda>pad _. ROR_e80 (pad ! 12) 0x1d)),
       cond (branch = 4) [TRY (minor_8_e80),
         exec (minor_37_e80),
         call major_14_e80 (\<lambda>pad _. pad ! 1)],
       cond (branch = 2) [TRY (minor_16_e80),
         TRY (minor_21_e80),
         call major_13_e80 (\<lambda>pad _. pad ! 2)],
       exec (seed_xor (\<lambda>pad _. pad ! 14 - 0x12821)),
       cond (branch = 4) [exec (minor_33_e80 (\<lambda>_ _. 0x628d876)),
         exec (minor_42_e80),
         call major_19_e80 (\<lambda>_ seed. seed)],
       cond (branch = 1) [TRY (minor_12_e80),
         exec (minor_28_e80),
         call major_17_e80 (\<lambda>_ seed. seed)],
       cond (branch = 0) [exec (minor_48_e80),
         exec (minor_62_e80),
         call major_3_e80 (\<lambda>pad _. pad ! 11)],
       exec (pad_or 4 (\<lambda>pad _. 0x472ca7 XOR pad ! 4)),
       cond (branch = 0x0d) [exec (minor_46_e80),
         TRY (minor_12_e80),
         call major_21_e80 (\<lambda>pad _. pad ! 13)],
       cond (branch = 0x0f) [exec (minor_73_e80),
         exec (minor_43_e80),
         call major_9_e80 (\<lambda>pad _. pad ! 13)],
       exec (pad_sub 13 (\<lambda>pad seed. if pad ! 16 < 0x97cba53 then pad ! 16 else seed)),
       cond (branch = 2) [exec (minor_24_e80),
         TRY (minor_10_e80 (\<lambda>_ _. 22)),
         call major_12_e80 (\<lambda>pad _. pad ! 17)],
       cond (branch = 6) [TRY (minor_20_e80),
         TRY (minor_3_e80),
         call major_5_e80 (\<lambda>pad _. pad ! 15)],
       cond (branch = 7) [exec (minor_72_e80 (\<lambda>_ _. 107)),
         exec (minor_50_e80),
         call major_15_e80 (\<lambda>pad _. pad ! 8)],
       exec (pad_xor 10 (\<lambda>pad _. push_bit 1 ((push_bit 5 (pad ! 2)) - pad ! 2))),
       cond (branch = 6) [TRY (minor_11_e80 (\<lambda>_ _. 0x3f675c4e)),
         exec (minor_41_e80),
         call major_2_e80 (\<lambda>pad _. pad ! 16)],
       cond (branch = 5) [exec (minor_49_e80),
         exec (minor_56_e80 (\<lambda>_ _. 0x87c73f)),
         call major_11_e80 (\<lambda>pad _. pad ! 15)],
       exec (pad_and 13 (\<lambda>pad _. pad ! 9 XOR 0x473fe6)),
       cond (branch = 7) [exec (minor_62_e80),
         exec (minor_26_e80),
         call major_14_e80 (\<lambda>_ seed. seed)],
       cond (branch = 1) [TRY (minor_3_e80),
         TRY (minor_15_e80),
         call major_13_e80 (\<lambda>pad _. pad ! 5)],
       cond (branch = 0) [exec (minor_25_e80),
         exec (minor_30_e80),
         call major_19_e80 (\<lambda>pad _. pad ! 17)],
       exec (pad_sub 1 (\<lambda>pad _. ROL_e80 (pad ! 7) 0xc)),
       cond (branch = 8) [exec (minor_65_e80 (\<lambda>_ _. 169)),
         exec (minor_27_e80),
         call major_17_e80 (\<lambda>pad _. pad ! 2)],
       cond (branch = 0x0a) [exec (minor_67_e80 (\<lambda>_ _. 0xf611cb26)),
         exec (minor_29_e80 (\<lambda>_ _. 4)),
         call major_3_e80 (\<lambda>pad _. pad ! 13)],
       exec (pad_sub 10 (\<lambda>pad _. if pad ! 0 < 0x6c6c then pad ! 0 else pad ! 5)),
       cond (branch = 3) [exec (minor_33_e80 (\<lambda>_ _. 0x58efea36)),
         exec (minor_49_e80),
         call major_21_e80 (\<lambda>pad _. pad ! 0)],
       cond (branch = 5) [exec (minor_27_e80),
         exec (minor_38_e80),
         call major_9_e80 (\<lambda>pad _. pad ! 16)],
       exec (pad_add 5 (\<lambda>_ seed. ((push_bit 5 seed) + seed) * 3))] pad seed)"

definition enc_type_80 :: "u32 list \<Rightarrow> u32 \<Rightarrow> u32 list" where
  "enc_type_80 pad seed = major_0_e80 pad seed"

section \<open>Frames\<close>

lemma minor_74_e80_frame [frame_simps]: "fun_frame minor_74_e80"
  unfolding minor_74_e80_def [abs_def]
  by (rule fun_frame_plain) (simp_all add: frame_simps asg_defs minor_defs_e80 expr_frame_def nth_pad)

lemma minor_75_e80_frame [frame_simps]: "fun_frame (\<lambda>pad _. minor_75_e80 pad)"
  unfolding minor_75_e80_def [abs_def]
  by (rule fun_frame_plain1) (simp_all add: frame_simps asg_defs minor_defs_e80 expr_frame_def nth_pad)

lemma major_10_e80_frame [frame_simps]: "fun_frame major_10_e80"
  unfolding major_10_e80_def [abs_def]
  by (rule fun_frame_branch) (simp_all add: frame_simps asg_defs minor_defs_e80 expr_frame_def nth_pad)

lemma major_20_e80_frame [frame_simps]: "fun_frame major_20_e80"
  unfolding major_20_e80_def [abs_def]
  by (rule fun_frame_branch) (simp_all add: frame_simps asg_defs minor_defs_e80 expr_frame_def nth_pad)

lemma major_6_e80_frame [frame_simps]: "fun_frame major_6_e80"
  unfolding major_6_e80_def [abs_def]
  by (rule fun_frame_branch) (simp_all add: frame_simps asg_defs minor_defs_e80 expr_frame_def nth_pad)

lemma major_1_e80_frame [frame_simps]: "fun_frame major_1_e80"
  unfolding major_1_e80_def [abs_def]
  by (rule fun_frame_branch) (simp_all add: frame_simps asg_defs minor_defs_e80 expr_frame_def nth_pad)

lemma major_4_e80_frame [frame_simps]: "fun_frame major_4_e80"
  unfolding major_4_e80_def [abs_def]
  by (rule fun_frame_branch) (simp_all add: frame_simps asg_defs minor_defs_e80 expr_frame_def nth_pad)

lemma major_16_e80_frame [frame_simps]: "fun_frame major_16_e80"
  unfolding major_16_e80_def [abs_def]
  by (rule fun_frame_branch) (simp_all add: frame_simps asg_defs minor_defs_e80 expr_frame_def nth_pad)

lemma major_7_e80_frame [frame_simps]: "fun_frame major_7_e80"
  unfolding major_7_e80_def [abs_def]
  by (rule fun_frame_branch) (simp_all add: frame_simps asg_defs minor_defs_e80 expr_frame_def nth_pad)

lemma major_8_e80_frame [frame_simps]: "fun_frame major_8_e80"
  unfolding major_8_e80_def [abs_def]
  by (rule fun_frame_branch) (simp_all add: frame_simps asg_defs minor_defs_e80 expr_frame_def nth_pad)

lemma major_18_e80_frame [frame_simps]: "fun_frame major_18_e80"
  unfolding major_18_e80_def [abs_def]
  by (rule fun_frame_branch) (simp_all add: frame_simps asg_defs minor_defs_e80 expr_frame_def nth_pad)

lemma major_12_e80_frame [frame_simps]: "fun_frame major_12_e80"
  unfolding major_12_e80_def [abs_def]
  by (rule fun_frame_branch) (simp_all add: frame_simps asg_defs minor_defs_e80 expr_frame_def nth_pad)

lemma major_5_e80_frame [frame_simps]: "fun_frame major_5_e80"
  unfolding major_5_e80_def [abs_def]
  by (rule fun_frame_branch) (simp_all add: frame_simps asg_defs minor_defs_e80 expr_frame_def nth_pad)

lemma major_15_e80_frame [frame_simps]: "fun_frame major_15_e80"
  unfolding major_15_e80_def [abs_def]
  by (rule fun_frame_branch) (simp_all add: frame_simps asg_defs minor_defs_e80 expr_frame_def nth_pad)

lemma major_2_e80_frame [frame_simps]: "fun_frame major_2_e80"
  unfolding major_2_e80_def [abs_def]
  by (rule fun_frame_branch) (simp_all add: frame_simps asg_defs minor_defs_e80 expr_frame_def nth_pad)

lemma major_11_e80_frame [frame_simps]: "fun_frame major_11_e80"
  unfolding major_11_e80_def [abs_def]
  by (rule fun_frame_branch) (simp_all add: frame_simps asg_defs minor_defs_e80 expr_frame_def nth_pad)

lemma major_14_e80_frame [frame_simps]: "fun_frame major_14_e80"
  unfolding major_14_e80_def [abs_def]
  by (rule fun_frame_branch) (simp_all add: frame_simps asg_defs minor_defs_e80 expr_frame_def nth_pad)

lemma major_13_e80_frame [frame_simps]: "fun_frame major_13_e80"
  unfolding major_13_e80_def [abs_def]
  by (rule fun_frame_branch) (simp_all add: frame_simps asg_defs minor_defs_e80 expr_frame_def nth_pad)

lemma major_19_e80_frame [frame_simps]: "fun_frame major_19_e80"
  unfolding major_19_e80_def [abs_def]
  by (rule fun_frame_branch) (simp_all add: frame_simps asg_defs minor_defs_e80 expr_frame_def nth_pad)

lemma major_17_e80_frame [frame_simps]: "fun_frame major_17_e80"
  unfolding major_17_e80_def [abs_def]
  by (rule fun_frame_branch) (simp_all add: frame_simps asg_defs minor_defs_e80 expr_frame_def nth_pad)

lemma major_3_e80_frame [frame_simps]: "fun_frame major_3_e80"
  unfolding major_3_e80_def [abs_def]
  by (rule fun_frame_branch) (simp_all add: frame_simps asg_defs minor_defs_e80 expr_frame_def nth_pad)

lemma major_21_e80_frame [frame_simps]: "fun_frame major_21_e80"
  unfolding major_21_e80_def [abs_def]
  by (rule fun_frame_branch) (simp_all add: frame_simps asg_defs minor_defs_e80 expr_frame_def nth_pad)

lemma major_9_e80_frame [frame_simps]: "fun_frame major_9_e80"
  unfolding major_9_e80_def [abs_def]
  by (rule fun_frame_branch) (simp_all add: frame_simps asg_defs minor_defs_e80 expr_frame_def nth_pad)

lemma major_0_e80_frame [frame_simps]: "fun_frame major_0_e80"
  unfolding major_0_e80_def [abs_def]
  by (rule fun_frame_branch) (simp_all add: frame_simps asg_defs minor_defs_e80 expr_frame_def nth_pad)

lemma enc_type_80_frame: "fun_frame enc_type_80"
  unfolding enc_type_80_def [abs_def] by (rule major_0_e80_frame)

section \<open>Properties\<close>

text \<open>C40: Whatever the pad, the seed and the memory behind the pad, \<open>enc_type_80\<close> keeps the pad at
  20 words, reads nothing behind it and leaves what is behind it as it was: on every path
  through the branches and the early returns no index leaves the pad.\<close>

theorem enc_type_80_in_bounds:
  assumes "length pad = 20"
  shows "length (enc_type_80 pad seed) = 20 \<and> enc_type_80 (pad @ rest) seed = enc_type_80 pad seed @ rest"
  using enc_type_80_frame assms by (simp add: fun_frame_def)

lemma enc_type_80_in_bounds_witness:
  "length (enc_type_80 (replicate 20 7) 3) = 20 \<and>
   enc_type_80 (replicate 20 7 @ [1, 2]) 3 = enc_type_80 (replicate 20 7) 3 @ [1, 2]"
  using enc_type_80_in_bounds [of "replicate 20 7" 3 "[1, 2]"] by simp

end
