(* ===== verification/FST_Packets.thy ===== *)
theory FST_Packets
  imports FST_Cipher
begin

text \<open>
  The operations mldonkey calls on FastTrack ciphers,
  \<^verbatim>\<open>src/src/networks/fasttrack/fst_crypt_ml.c\<close>: seeds and types are set, exchanged in
  an 8-byte header and combined. A cipher pointer is the cipher it points to; the
  operations on two ciphers take two distinct ones. Shown: the header round trip, the
  well-formedness of every cipher these operations can make, and that the two ends of the
  handshake of \<^verbatim>\<open>fasttrackServers.ml\<close> and \<^verbatim>\<open>fasttrackPandora.ml\<close> decrypt each other.
\<close>

section \<open>Model\<close>

definition htonl :: "u32 \<Rightarrow> u32" where
  "htonl w = (case le_bytes32 w of [b0, b1, b2, b3] \<Rightarrow> le_word32 b3 b2 b1 b0 | _ \<Rightarrow> 0)"

text \<open>\<^verbatim>\<open>((unsigned int*)(s+pos))[0]\<close>, read and written.\<close>

definition load32 :: "u8 list \<Rightarrow> nat \<Rightarrow> u32" where
  "load32 s pos = le_word32 (s ! pos) (s ! (pos + 1)) (s ! (pos + 2)) (s ! (pos + 3))"

definition store32 :: "u8 list \<Rightarrow> nat \<Rightarrow> u32 \<Rightarrow> u8 list" where
  "store32 s pos w = blit s pos (le_bytes32 w)"

definition ml_apply_cipher :: "FSTCipher \<Rightarrow> u8 list \<Rightarrow> nat \<Rightarrow> nat \<Rightarrow> u8 list \<times> FSTCipher" where
  "ml_apply_cipher cipher s pos len =
     (case fst_cipher_crypt cipher (drop pos s) len of (out, c) \<Rightarrow> (take pos s @ out, c))"

text \<open>The result of the initialisation is dropped.\<close>

definition ml_init_cipher :: "md5_state_t \<Rightarrow> FSTCipher \<Rightarrow> FSTCipher option" where
  "ml_init_cipher ctx cipher = map_option snd (fst_cipher_init ctx cipher (c_seed cipher) (c_enc_type cipher))"

definition ml_set_cipher :: "FSTCipher \<Rightarrow> u32 \<Rightarrow> u32 \<Rightarrow> FSTCipher" where
  "ml_set_cipher cipher seed encode = cipher\<lparr>c_enc_type := encode, c_seed := seed\<rparr>"

definition ml_cipher_packet_get :: "u8 list \<Rightarrow> nat \<Rightarrow> FSTCipher \<Rightarrow> FSTCipher" where
  "ml_cipher_packet_get s pos in_cipher =
     (let seed = htonl (load32 s pos);
          enc_type = htonl (load32 s (pos + 4));
          enc_type = fst_cipher_mangle_enc_type seed enc_type
      in in_cipher\<lparr>c_seed := seed, c_enc_type := enc_type\<rparr>)"

definition ml_xor_ciphers :: "FSTCipher \<Rightarrow> FSTCipher \<Rightarrow> FSTCipher" where
  "ml_xor_ciphers out_cipher in_cipher =
     out_cipher\<lparr>c_seed := c_seed out_cipher XOR c_seed in_cipher, c_enc_type := c_enc_type in_cipher\<rparr>"

definition ml_xor_ciphers2 :: "md5_state_t \<Rightarrow> FSTCipher \<Rightarrow> FSTCipher \<Rightarrow> (FSTCipher \<times> FSTCipher) option" where
  "ml_xor_ciphers2 ctx out_cipher in_cipher =
     (let seed = c_seed out_cipher;
          out_cipher = out_cipher\<lparr>c_seed := c_seed out_cipher XOR c_seed in_cipher\<rparr>;
          in_cipher = in_cipher\<lparr>c_seed := c_seed in_cipher XOR seed\<rparr>
      in map_option (\<lambda>(_, out_cipher). (out_cipher, in_cipher))
           (fst_cipher_init ctx out_cipher (c_seed out_cipher) (c_enc_type out_cipher)))"

definition ml_cipher_packet_set :: "FSTCipher \<Rightarrow> u8 list \<Rightarrow> nat \<Rightarrow> u8 list" where
  "ml_cipher_packet_set cipher s pos =
     (let s = store32 s pos (htonl (c_seed cipher))
      in store32 s (pos + 4) (htonl (fst_cipher_mangle_enc_type (c_seed cipher) (c_enc_type cipher))))"

definition ml_cipher_enc_type :: "FSTCipher \<Rightarrow> u32" where
  "ml_cipher_enc_type cipher = c_enc_type cipher"

definition ml_cipher_packet_set_xored :: "FSTCipher \<Rightarrow> u8 list \<Rightarrow> nat \<Rightarrow> FSTCipher \<Rightarrow> u8 list" where
  "ml_cipher_packet_set_xored cipher s pos xor_cipher =
     (let seed = c_seed cipher XOR c_seed xor_cipher;
          s = store32 s pos (htonl seed)
      in store32 s (pos + 4) (htonl (fst_cipher_mangle_enc_type (c_seed cipher) (c_enc_type cipher))))"

section \<open>The header\<close>

lemma htonl_htonl [simp]: "htonl (htonl w) = w"
proof -
  have "htonl (le_word32 b0 b1 b2 b3) = le_word32 b3 b2 b1 b0" for b0 b1 b2 b3
    by (simp add: htonl_def)
  then show ?thesis
    by (simp add: htonl_def [of w] le_bytes32_def le_word32_bytes)
qed

lemma mangle_involution [simp]:
  "fst_cipher_mangle_enc_type seed (fst_cipher_mangle_enc_type seed enc_type) = enc_type"
  by (simp add: fst_cipher_mangle_enc_type_def xor.assoc split_beta)

lemma length_store32 [simp]: "pos + 4 \<le> length s \<Longrightarrow> length (store32 s pos w) = length s"
  by (simp add: store32_def length_blit)

lemma blit_nth:
  "off + length src \<le> length buf \<Longrightarrow> i < length buf \<Longrightarrow>
   blit buf off src ! i = (if i < off then buf ! i else if i < off + length src then src ! (i - off) else buf ! i)"
  by (auto simp: blit_def nth_append min_def)

lemma load32_store32: "pos + 4 \<le> length s \<Longrightarrow> load32 (store32 s pos w) pos = w"
  by (simp add: load32_def store32_def blit_nth) (simp add: le_bytes32_def le_word32_bytes)

lemma load32_store32_other:
  "pos + 4 \<le> pos' \<Longrightarrow> pos' + 4 \<le> length s \<Longrightarrow> load32 (store32 s pos' w) pos = load32 s pos"
  by (simp add: load32_def store32_def blit_nth)

lemma packet_get_set:
  assumes "pos + 8 \<le> length s"
  shows "ml_cipher_packet_get (ml_cipher_packet_set c s pos) pos d = d\<lparr>c_seed := c_seed c, c_enc_type := c_enc_type c\<rparr>"
  using assms
  by (simp add: ml_cipher_packet_get_def ml_cipher_packet_set_def Let_def load32_store32
      load32_store32_other)

section \<open>The ciphers that occur\<close>

inductive cipher_made :: "FSTCipher \<Rightarrow> bool" where
  made_create: "cipher_made fst_cipher_create"
| made_apply: "cipher_made c \<Longrightarrow> cipher_made (snd (ml_apply_cipher c s pos len))"
| made_init: "cipher_made c \<Longrightarrow> length (md5_buf ctx) = 64 \<Longrightarrow> ml_init_cipher ctx c = Some c' \<Longrightarrow> cipher_made c'"
| made_set: "cipher_made c \<Longrightarrow> cipher_made (ml_set_cipher c seed encode)"
| made_get: "cipher_made c \<Longrightarrow> cipher_made (ml_cipher_packet_get s pos c)"
| made_xor: "cipher_made c \<Longrightarrow> cipher_made d \<Longrightarrow> cipher_made (ml_xor_ciphers c d)"
| made_xor2_out: "cipher_made c \<Longrightarrow> cipher_made d \<Longrightarrow> length (md5_buf ctx) = 64 \<Longrightarrow>
    ml_xor_ciphers2 ctx c d = Some (c', d') \<Longrightarrow> cipher_made c'"
| made_xor2_in: "cipher_made c \<Longrightarrow> cipher_made d \<Longrightarrow> length (md5_buf ctx) = 64 \<Longrightarrow>
    ml_xor_ciphers2 ctx c d = Some (c', d') \<Longrightarrow> cipher_made d'"

lemma init_wf:
  assumes "cipher_wf c" and "length (md5_buf ctx) = 64" and "fst_cipher_init ctx c seed enc_type = Some (ok, c')"
  shows "cipher_wf c'"
proof (rule fst_cipher_init_cases [OF assms(2), of enc_type seed c])
  fix seed' pad assume "length pad = 63"
    "fst_cipher_init ctx c seed enc_type = Some (True, keyed seed seed' pad enc_type (c_pad16 c))"
  then show ?thesis using keyed_wf [of pad "c_pad16 c"] assms(1,3) by (simp add: cipher_wf_def)
next
  fix pad assume "length pad = 63" "fst_cipher_init ctx c seed enc_type =
    Some (False, c\<lparr>c_enc_type := enc_type, c_wrapcount := 0, c_add_to_lookup := 0, c_seed := seed, c_pad := pad\<rparr>)"
  then show ?thesis using assms(1,3) by (auto simp: cipher_wf_def)
qed

lemma cipher_wf_keys [simp]:
  "cipher_wf (c\<lparr>c_seed := s\<rparr>) = cipher_wf c"
  "cipher_wf (c\<lparr>c_enc_type := e\<rparr>) = cipher_wf c"
  by (simp_all add: cipher_wf_def)

lemma cipher_made_wf: "cipher_made c \<Longrightarrow> cipher_wf c"
proof (induction rule: cipher_made.induct)
  case made_create
  show ?case by (rule cipher_wf_create)
next
  case (made_apply c s pos len)
  then show ?case
    using fst_cipher_crypt_wf [of c "drop pos s" len] by (simp add: ml_apply_cipher_def split_beta)
next
  case (made_init c ctx c')
  then show ?case by (auto simp: ml_init_cipher_def intro: init_wf)
next
  case (made_xor2_out c d ctx c' d')
  then show ?case
    by (auto simp: ml_xor_ciphers2_def Let_def intro: init_wf [of "c\<lparr>c_seed := s\<rparr>" for s])
next
  case (made_xor2_in c d ctx c' d')
  then show ?case by (auto simp: ml_xor_ciphers2_def Let_def)
qed (simp_all add: ml_set_cipher_def ml_cipher_packet_get_def ml_xor_ciphers_def Let_def)

section \<open>The handshake\<close>

text \<open>The client sets a seed and a type, sends them, receives those of the server, and
  combines. A reader of both headers follows it with ciphers of its own.\<close>

definition client_handshake :: "md5_state_t \<Rightarrow> u32 \<Rightarrow> u32 \<Rightarrow> u8 list \<Rightarrow> FSTCipher option" where
  "client_handshake ctx seed encode s_in =
     (let out_cipher = ml_set_cipher fst_cipher_create seed encode
      in Option.bind (ml_init_cipher ctx (ml_cipher_packet_get s_in 0 fst_cipher_create)) (\<lambda>in_cipher.
           ml_init_cipher ctx (ml_xor_ciphers out_cipher in_cipher)))"

definition reader_handshake :: "md5_state_t \<Rightarrow> u8 list \<Rightarrow> u8 list \<Rightarrow> FSTCipher option" where
  "reader_handshake ctx s_out s_in =
     Option.bind (ml_init_cipher ctx (ml_cipher_packet_get s_out 4 fst_cipher_create)) (\<lambda>out_cipher.
     Option.bind (ml_init_cipher ctx (ml_cipher_packet_get s_in 0 fst_cipher_create)) (\<lambda>in_cipher.
       ml_init_cipher ctx (ml_xor_ciphers out_cipher in_cipher)))"

lemma ml_init_keys:
  assumes "length (md5_buf ctx) = 64"
  shows "\<exists>c'. ml_init_cipher ctx c = Some c' \<and> c_seed c' = c_seed c \<and> c_enc_type c' = c_enc_type c"
  by (rule fst_cipher_init_cases [OF assms, of "c_enc_type c" "c_seed c" c])
    (simp_all add: ml_init_cipher_def keyed_def)

lemma ml_init_same_stream:
  assumes "length (md5_buf ctx) = 64" and "length (md5_buf ctx') = 64"
    and "c_seed c = c_seed d" and "c_enc_type c = c_enc_type d" and "fst_supported (c_enc_type c)"
  shows "\<exists>c' d'. ml_init_cipher ctx c = Some c' \<and> ml_init_cipher ctx' d = Some d' \<and> same_stream c' d'"
proof (rule fst_cipher_init_cases [OF assms(1), of "c_enc_type c" "c_seed c" c])
  fix s1 p1 assume 1: "pad_init (c_seed c) (c_enc_type c) = Some (True, s1, p1)"
    "fst_cipher_init ctx c (c_seed c) (c_enc_type c) = Some (True, keyed (c_seed c) s1 p1 (c_enc_type c) (c_pad16 c))"
  show ?thesis
  proof (rule fst_cipher_init_cases [OF assms(2), of "c_enc_type d" "c_seed d" d])
    fix s2 p2 assume "pad_init (c_seed d) (c_enc_type d) = Some (True, s2, p2)"
      "fst_cipher_init ctx' d (c_seed d) (c_enc_type d) = Some (True, keyed (c_seed d) s2 p2 (c_enc_type d) (c_pad16 d))"
    with 1 show ?thesis using assms(3,4) by (simp add: ml_init_cipher_def same_stream_keyed)
  qed (use assms in simp)
qed (use assms in simp)

lemma handshake_same_stream:
  fixes seed encode :: u32
  assumes ctx: "length (md5_buf ctx) = 64" "length (md5_buf ctx') = 64" and len: "12 \<le> length buf"
    and sup: "fst_supported (c_enc_type (ml_cipher_packet_get s_in 0 fst_cipher_create))"
  defines "s_out \<equiv> ml_cipher_packet_set (ml_set_cipher fst_cipher_create seed encode) buf 4"
  shows "\<exists>c d. client_handshake ctx seed encode s_in = Some c \<and> reader_handshake ctx' s_out s_in = Some d \<and> same_stream c d"
proof -
  let ?in = "ml_cipher_packet_get s_in 0 fst_cipher_create"
  have get: "ml_cipher_packet_get s_out 4 fst_cipher_create = ml_set_cipher fst_cipher_create seed encode"
    using packet_get_set [of 4 buf "ml_set_cipher fst_cipher_create seed encode" fst_cipher_create] len
    by (simp add: s_out_def ml_set_cipher_def)
  obtain i where i: "ml_init_cipher ctx ?in = Some i" "c_seed i = c_seed ?in" "c_enc_type i = c_enc_type ?in"
    using ml_init_keys [OF ctx(1)] by blast
  obtain i' where i': "ml_init_cipher ctx' ?in = Some i'" "c_seed i' = c_seed ?in" "c_enc_type i' = c_enc_type ?in"
    using ml_init_keys [OF ctx(2)] by blast
  obtain o' where o': "ml_init_cipher ctx' (ml_set_cipher fst_cipher_create seed encode) = Some o'" "c_seed o' = seed"
    using ml_init_keys [OF ctx(2), of "ml_set_cipher fst_cipher_create seed encode"] by (auto simp: ml_set_cipher_def)
  obtain c d where "ml_init_cipher ctx (ml_xor_ciphers (ml_set_cipher fst_cipher_create seed encode) i) = Some c"
    "ml_init_cipher ctx' (ml_xor_ciphers o' i') = Some d" "same_stream c d"
    using ml_init_same_stream [OF ctx, of "ml_xor_ciphers (ml_set_cipher fst_cipher_create seed encode) i" "ml_xor_ciphers o' i'"]
      i i' o' sup by (auto simp: ml_xor_ciphers_def ml_set_cipher_def)
  then show ?thesis
    using i i' o' get by (simp add: client_handshake_def reader_handshake_def Let_def)
qed

section \<open>Properties\<close>

text \<open>C27: Every cipher the operations can produce from a new one, in any order and with any
  headers, seeds and types, is well-formed, so that each of them can be clocked safely.\<close>

theorem fst_reachable_wf:
  assumes "cipher_made c"
  shows "cipher_wf c"
  by (rule cipher_made_wf [OF assms])

lemma fst_reachable_wf_witness:
  "cipher_wf (snd (ml_apply_cipher (ml_set_cipher fst_cipher_create 7 0x29) [1, 2, 3] 1 2))"
  by (rule fst_reachable_wf [OF made_apply [OF made_set [OF made_create]]])

text \<open>The header \<open>ml_cipher_packet_set\<close> writes, seed and mangled type in network order, is
  read back by \<open>ml_cipher_packet_get\<close>; the length of the packet does not change.\<close>

theorem fst_header_roundtrip:
  assumes "pos + 8 \<le> length s"
  shows "ml_cipher_packet_get (ml_cipher_packet_set c s pos) pos d = d\<lparr>c_seed := c_seed c, c_enc_type := c_enc_type c\<rparr> \<and>
    length (ml_cipher_packet_set c s pos) = length s"
  using packet_get_set [OF assms] assms by (simp add: ml_cipher_packet_set_def Let_def)

lemma fst_header_roundtrip_witness:
  "c_seed (ml_cipher_packet_get (ml_cipher_packet_set (ml_set_cipher fst_cipher_create 7 0x29) (replicate 12 0) 4) 4
     fst_cipher_create) = 7"
  using fst_header_roundtrip [of 4 "replicate 12 0" "ml_set_cipher fst_cipher_create 7 0x29" fst_cipher_create]
  by (simp add: ml_set_cipher_def)

text \<open>C6: After the exchange of headers, a reader that has seen both of them decrypts what the
  client encrypts, for every type the server may choose that is supported; leftovers of the
  reader's earlier initialisation do not matter.\<close>

theorem fst_handshake_decrypts:
  assumes "length (md5_buf ctx) = 64" and "length (md5_buf ctx') = 64" and "12 \<le> length buf"
    and "fst_supported (c_enc_type (ml_cipher_packet_get s_in 0 fst_cipher_create))"
  shows "\<exists>c d. client_handshake ctx seed encode s_in = Some c \<and>
    reader_handshake ctx' (ml_cipher_packet_set (ml_set_cipher fst_cipher_create seed encode) buf 4) s_in = Some d \<and>
    fst (fst_cipher_crypt d (fst (fst_cipher_crypt c data (length data))) (length data)) = data"
proof -
  obtain c d where cd: "client_handshake ctx seed encode s_in = Some c"
    "reader_handshake ctx' (ml_cipher_packet_set (ml_set_cipher fst_cipher_create seed encode) buf 4) s_in = Some d"
    "same_stream c d"
    using handshake_same_stream [OF assms] by blast
  obtain out c' where out: "fst_cipher_crypt c data (length data) = (out, c')" by fastforce
  then have "fst_cipher_crypt c out (length data) = (data, c')"
    using crypt_twice [of "length data" data c out c'] by simp
  moreover have "length out = length data"
    using out crypt_keystream [of "length data" data c] by auto
  ultimately have "fst (fst_cipher_crypt d out (length data)) = data"
    using same_stream_crypt [OF cd(3), of "length data" out] by simp
  with cd(1,2) out show ?thesis by auto
qed

lemma fst_handshake_decrypts_witness:
  "\<exists>c d. client_handshake \<lparr>md5_count = [], md5_abcd = [], md5_buf = replicate 64 0\<rparr> 7 0x29
       (ml_cipher_packet_set (ml_set_cipher fst_cipher_create 9 0x29) (replicate 8 0) 0) = Some c \<and>
     fst (fst_cipher_crypt d (fst (fst_cipher_crypt c [1, 2, 3] 3)) 3) = [1, 2, 3]"
proof -
  let ?ctx = "\<lparr>md5_count = [], md5_abcd = [], md5_buf = replicate 64 0\<rparr>"
  let ?in = "ml_cipher_packet_set (ml_set_cipher fst_cipher_create 9 0x29) (replicate 8 0) 0"
  have "ml_cipher_packet_get ?in 0 fst_cipher_create =
      fst_cipher_create\<lparr>c_seed := 9, c_enc_type := 0x29\<rparr>"
    using packet_get_set [of 0 "replicate 8 0" "ml_set_cipher fst_cipher_create 9 0x29" fst_cipher_create]
    by (simp add: ml_set_cipher_def)
  then have "fst_supported (c_enc_type (ml_cipher_packet_get ?in 0 fst_cipher_create))"
    by (simp add: fst_supported_def)
  with fst_handshake_decrypts [of ?ctx ?ctx "replicate 12 0" ?in 7 "0x29" "[1, 2, 3]"] show ?thesis
    by (auto simp: numeral_3_eq_3)
qed

end
