(* ===== verification/FST_Hash.thy ===== *)
theory FST_Hash
  imports MD5
begin

text \<open>
  The FastTrack file hash of \<^verbatim>\<open>src/src/utils/lib/fst_hash.c\<close>: MD5 of the first 307200
  bytes, a 32-bit checksum of sampled chunks combined with the size, and the 14-bit checksum
  of the hash used in links. A file is its bytes, \<open>None\<close> when it cannot be opened; a read
  gives what is there. Shown: the two tables are the tables of the reflected CRC-32 and of
  the CRC-16 of CCITT and the table loops compute those checksums, the hash of a string
  reads only the string, and the hash of a file is that of its contents or an error when the
  file is shorter than announced.
\<close>

section \<open>Model\<close>

definition smalltable :: "u32 list" where
  "smalltable =
    [0x00000000, 0x77073096, 0xee0e612c, 0x990951ba, 0x076dc419, 0x706af48f, 0xe963a535, 0x9e6495a3,
     0x0edb8832, 0x79dcb8a4, 0xe0d5e91e, 0x97d2d988, 0x09b64c2b, 0x7eb17cbd, 0xe7b82d07, 0x90bf1d91,
     0x1db71064, 0x6ab020f2, 0xf3b97148, 0x84be41de, 0x1adad47d, 0x6ddde4eb, 0xf4d4b551, 0x83d385c7,
     0x136c9856, 0x646ba8c0, 0xfd62f97a, 0x8a65c9ec, 0x14015c4f, 0x63066cd9, 0xfa0f3d63, 0x8d080df5,
     0x3b6e20c8, 0x4c69105e, 0xd56041e4, 0xa2677172, 0x3c03e4d1, 0x4b04d447, 0xd20d85fd, 0xa50ab56b,
     0x35b5a8fa, 0x42b2986c, 0xdbbbc9d6, 0xacbcf940, 0x32d86ce3, 0x45df5c75, 0xdcd60dcf, 0xabd13d59,
     0x26d930ac, 0x51de003a, 0xc8d75180, 0xbfd06116, 0x21b4f4b5, 0x56b3c423, 0xcfba9599, 0xb8bda50f,
     0x2802b89e, 0x5f058808, 0xc60cd9b2, 0xb10be924, 0x2f6f7c87, 0x58684c11, 0xc1611dab, 0xb6662d3d,
     0x76dc4190, 0x01db7106, 0x98d220bc, 0xefd5102a, 0x71b18589, 0x06b6b51f, 0x9fbfe4a5, 0xe8b8d433,
     0x7807c9a2, 0x0f00f934, 0x9609a88e, 0xe10e9818, 0x7f6a0dbb, 0x086d3d2d, 0x91646c97, 0xe6635c01,
     0x6b6b51f4, 0x1c6c6162, 0x856530d8, 0xf262004e, 0x6c0695ed, 0x1b01a57b, 0x8208f4c1, 0xf50fc457,
     0x65b0d9c6, 0x12b7e950, 0x8bbeb8ea, 0xfcb9887c, 0x62dd1ddf, 0x15da2d49, 0x8cd37cf3, 0xfbd44c65,
     0x4db26158, 0x3ab551ce, 0xa3bc0074, 0xd4bb30e2, 0x4adfa541, 0x3dd895d7, 0xa4d1c46d, 0xd3d6f4fb,
     0x4369e96a, 0x346ed9fc, 0xad678846, 0xda60b8d0, 0x44042d73, 0x33031de5, 0xaa0a4c5f, 0xdd0d7cc9,
     0x5005713c, 0x270241aa, 0xbe0b1010, 0xc90c2086, 0x5768b525, 0x206f85b3, 0xb966d409, 0xce61e49f,
     0x5edef90e, 0x29d9c998, 0xb0d09822, 0xc7d7a8b4, 0x59b33d17, 0x2eb40d81, 0xb7bd5c3b, 0xc0ba6cad,
     0xedb88320, 0x9abfb3b6, 0x03b6e20c, 0x74b1d29a, 0xead54739, 0x9dd277af, 0x04db2615, 0x73dc1683,
     0xe3630b12, 0x94643b84, 0x0d6d6a3e, 0x7a6a5aa8, 0xe40ecf0b, 0x9309ff9d, 0x0a00ae27, 0x7d079eb1,
     0xf00f9344, 0x8708a3d2, 0x1e01f268, 0x6906c2fe, 0xf762575d, 0x806567cb, 0x196c3671, 0x6e6b06e7,
     0xfed41b76, 0x89d32be0, 0x10da7a5a, 0x67dd4acc, 0xf9b9df6f, 0x8ebeeff9, 0x17b7be43, 0x60b08ed5,
     0xd6d6a3e8, 0xa1d1937e, 0x38d8c2c4, 0x4fdff252, 0xd1bb67f1, 0xa6bc5767, 0x3fb506dd, 0x48b2364b,
     0xd80d2bda, 0xaf0a1b4c, 0x36034af6, 0x41047a60, 0xdf60efc3, 0xa867df55, 0x316e8eef, 0x4669be79,
     0xcb61b38c, 0xbc66831a, 0x256fd2a0, 0x5268e236, 0xcc0c7795, 0xbb0b4703, 0x220216b9, 0x5505262f,
     0xc5ba3bbe, 0xb2bd0b28, 0x2bb45a92, 0x5cb36a04, 0xc2d7ffa7, 0xb5d0cf31, 0x2cd99e8b, 0x5bdeae1d,
     0x9b64c2b0, 0xec63f226, 0x756aa39c, 0x026d930a, 0x9c0906a9, 0xeb0e363f, 0x72076785, 0x05005713,
     0x95bf4a82, 0xe2b87a14, 0x7bb12bae, 0x0cb61b38, 0x92d28e9b, 0xe5d5be0d, 0x7cdcefb7, 0x0bdbdf21,
     0x86d3d2d4, 0xf1d4e242, 0x68ddb3f8, 0x1fda836e, 0x81be16cd, 0xf6b9265b, 0x6fb077e1, 0x18b74777,
     0x88085ae6, 0xff0f6a70, 0x66063bca, 0x11010b5c, 0x8f659eff, 0xf862ae69, 0x616bffd3, 0x166ccf45,
     0xa00ae278, 0xd70dd2ee, 0x4e048354, 0x3903b3c2, 0xa7672661, 0xd06016f7, 0x4969474d, 0x3e6e77db,
     0xaed16a4a, 0xd9d65adc, 0x40df0b66, 0x37d83bf0, 0xa9bcae53, 0xdebb9ec5, 0x47b2cf7f, 0x30b5ffe9,
     0xbdbdf21c, 0xcabac28a, 0x53b39330, 0x24b4a3a6, 0xbad03605, 0xcdd70693, 0x54de5729, 0x23d967bf,
     0xb3667a2e, 0xc4614ab8, 0x5d681b02, 0x2a6f2b94, 0xb40bbe37, 0xc30c8ea1, 0x5a05df1b, 0x2d02ef8d]"

definition checksumtable :: "u16 list" where
  "checksumtable =
    [0x0000, 0x1021, 0x2042, 0x3063, 0x4084, 0x50a5, 0x60c6, 0x70e7,
     0x8108, 0x9129, 0xa14a, 0xb16b, 0xc18c, 0xd1ad, 0xe1ce, 0xf1ef,
     0x1231, 0x0210, 0x3273, 0x2252, 0x52b5, 0x4294, 0x72f7, 0x62d6,
     0x9339, 0x8318, 0xb37b, 0xa35a, 0xd3bd, 0xc39c, 0xf3ff, 0xe3de,
     0x2462, 0x3443, 0x0420, 0x1401, 0x64e6, 0x74c7, 0x44a4, 0x5485,
     0xa56a, 0xb54b, 0x8528, 0x9509, 0xe5ee, 0xf5cf, 0xc5ac, 0xd58d,
     0x3653, 0x2672, 0x1611, 0x0630, 0x76d7, 0x66f6, 0x5695, 0x46b4,
     0xb75b, 0xa77a, 0x9719, 0x8738, 0xf7df, 0xe7fe, 0xd79d, 0xc7bc,
     0x48c4, 0x58e5, 0x6886, 0x78a7, 0x0840, 0x1861, 0x2802, 0x3823,
     0xc9cc, 0xd9ed, 0xe98e, 0xf9af, 0x8948, 0x9969, 0xa90a, 0xb92b,
     0x5af5, 0x4ad4, 0x7ab7, 0x6a96, 0x1a71, 0x0a50, 0x3a33, 0x2a12,
     0xdbfd, 0xcbdc, 0xfbbf, 0xeb9e, 0x9b79, 0x8b58, 0xbb3b, 0xab1a,
     0x6ca6, 0x7c87, 0x4ce4, 0x5cc5, 0x2c22, 0x3c03, 0x0c60, 0x1c41,
     0xedae, 0xfd8f, 0xcdec, 0xddcd, 0xad2a, 0xbd0b, 0x8d68, 0x9d49,
     0x7e97, 0x6eb6, 0x5ed5, 0x4ef4, 0x3e13, 0x2e32, 0x1e51, 0x0e70,
     0xff9f, 0xefbe, 0xdfdd, 0xcffc, 0xbf1b, 0xaf3a, 0x9f59, 0x8f78,
     0x9188, 0x81a9, 0xb1ca, 0xa1eb, 0xd10c, 0xc12d, 0xf14e, 0xe16f,
     0x1080, 0x00a1, 0x30c2, 0x20e3, 0x5004, 0x4025, 0x7046, 0x6067,
     0x83b9, 0x9398, 0xa3fb, 0xb3da, 0xc33d, 0xd31c, 0xe37f, 0xf35e,
     0x02b1, 0x1290, 0x22f3, 0x32d2, 0x4235, 0x5214, 0x6277, 0x7256,
     0xb5ea, 0xa5cb, 0x95a8, 0x8589, 0xf56e, 0xe54f, 0xd52c, 0xc50d,
     0x34e2, 0x24c3, 0x14a0, 0x0481, 0x7466, 0x6447, 0x5424, 0x4405,
     0xa7db, 0xb7fa, 0x8799, 0x97b8, 0xe75f, 0xf77e, 0xc71d, 0xd73c,
     0x26d3, 0x36f2, 0x0691, 0x16b0, 0x6657, 0x7676, 0x4615, 0x5634,
     0xd94c, 0xc96d, 0xf90e, 0xe92f, 0x99c8, 0x89e9, 0xb98a, 0xa9ab,
     0x5844, 0x4865, 0x7806, 0x6827, 0x18c0, 0x08e1, 0x3882, 0x28a3,
     0xcb7d, 0xdb5c, 0xeb3f, 0xfb1e, 0x8bf9, 0x9bd8, 0xabbb, 0xbb9a,
     0x4a75, 0x5a54, 0x6a37, 0x7a16, 0x0af1, 0x1ad0, 0x2ab3, 0x3a92,
     0xfd2e, 0xed0f, 0xdd6c, 0xcd4d, 0xbdaa, 0xad8b, 0x9de8, 0x8dc9,
     0x7c26, 0x6c07, 0x5c64, 0x4c45, 0x3ca2, 0x2c83, 0x1ce0, 0x0cc1,
     0xef1f, 0xff3e, 0xcf5d, 0xdf7c, 0xaf9b, 0xbfba, 0x8fd9, 0x9ff8,
     0x6e17, 0x7e36, 0x4e55, 0x5e74, 0x2e93, 0x3eb2, 0x0ed1, 0x1ef0]"

text \<open>\<^verbatim>\<open>fst_hash_small\<close>, over the first \<open>len\<close> bytes of \<open>data\<close>.\<close>

definition fst_hash_small :: "u8 list \<Rightarrow> nat \<Rightarrow> u32 \<Rightarrow> u32" where
  "fst_hash_small data len smallhash =
     fold (\<lambda>i smallhash. smalltable ! unat (ucast (data ! i) XOR (smallhash AND 0xff)) XOR drop_bit 8 smallhash)
       [0..<len] smallhash"

definition fst_hash_checksum :: "u8 list \<Rightarrow> u16" where
  "fst_hash_checksum hash =
     fold (\<lambda>i sum. checksumtable ! unat (ucast (hash ! i) XOR drop_bit 8 sum) XOR push_bit 8 sum) [0..<20] 0
     AND 0x3fff"

abbreviation FST_HASH_CHUNK :: nat where "FST_HASH_CHUNK \<equiv> 307200"

text \<open>The loop over the sampled chunks, the same in \<open>fst_hash_file\<close> and \<open>fst_hash_string\<close>
  but for the read: \<open>rd offset n\<close> is the chunk, or \<open>None\<close> when the seek or the read fails.
  The offset starts at \<open>0x100000\<close> and is never 0.\<close>

function sample_loop :: "(nat \<Rightarrow> nat \<Rightarrow> u8 list option) \<Rightarrow> nat \<Rightarrow> nat \<Rightarrow> nat \<Rightarrow> u32 \<Rightarrow> (nat \<times> u32) option" where
  "sample_loop rd filesize offset lastpos smallhash =
     (if 0 < offset \<and> offset + 2 * FST_HASH_CHUNK < filesize then
        (case rd offset FST_HASH_CHUNK of
           None \<Rightarrow> None
         | Some buf \<Rightarrow>
             sample_loop rd filesize (2 * offset) (offset + FST_HASH_CHUNK) (fst_hash_small buf FST_HASH_CHUNK smallhash))
      else Some (lastpos, smallhash))"
  by pat_completeness auto
termination by (relation "measure (\<lambda>(rd, filesize, offset, lastpos, h). filesize - offset)") auto

declare sample_loop.simps [simp del]

definition sampled_hash :: "(nat \<Rightarrow> nat \<Rightarrow> u8 list option) \<Rightarrow> nat \<Rightarrow> u32 option" where
  "sampled_hash rd filesize =
     (if filesize > FST_HASH_CHUNK then
        (case sample_loop rd filesize 0x100000 FST_HASH_CHUNK 0xffffffff of
           None \<Rightarrow> None
         | Some (lastpos, smallhash) \<Rightarrow>
             (let endlen = filesize - lastpos;
                  endlen = (if endlen > FST_HASH_CHUNK then FST_HASH_CHUNK else endlen)
              in case rd (filesize - endlen) endlen of
                   None \<Rightarrow> None
                 | Some buf \<Rightarrow> Some (fst_hash_small buf endlen smallhash)))
      else Some 0xffffffff)"

text \<open>The twenty bytes: the MD5 digest, then the checksum combined with the size.\<close>

definition fst_digest_bytes :: "u8 list \<Rightarrow> u32 \<Rightarrow> nat \<Rightarrow> u8 list" where
  "fst_digest_bytes md5 smallhash filesize =
     (let smallhash = smallhash XOR of_nat filesize
      in md5 @ [ucast (smallhash AND 0xff), ucast (drop_bit 8 smallhash AND 0xff),
                ucast (drop_bit 16 smallhash AND 0xff), ucast (drop_bit 24 smallhash AND 0xff)])"

definition md5_bytes :: "md5_state_t \<Rightarrow> u8 list \<Rightarrow> nat \<Rightarrow> u8 list" where
  "md5_bytes ctx buf len = fst (md5_finish (md5_append (md5_init ctx) buf (int len)))"

text \<open>The result 0 of the C function is \<open>None\<close>.\<close>

text \<open>\<^verbatim>\<open>fread\<close> after a seek, with \<^verbatim>\<open>feof\<close>: \<open>err\<close> says for each read whether an error
  stops it, and after how many bytes.\<close>

definition fread :: "(nat \<Rightarrow> nat \<Rightarrow> nat option) \<Rightarrow> u8 list \<Rightarrow> nat \<Rightarrow> nat \<Rightarrow> u8 list \<times> bool" where
  "fread err content offset n =
     (case err offset n of
        None \<Rightarrow> (let buf = slice content offset n in (buf, length buf < n))
      | Some k \<Rightarrow> (slice content offset (min k n), False))"

definition fst_hash_file :: "md5_state_t \<Rightarrow> (nat \<Rightarrow> nat \<Rightarrow> nat option) \<Rightarrow> u8 list option \<Rightarrow> nat \<Rightarrow> u8 list option" where
  "fst_hash_file ctx err file filesize =
     (case file of
        None \<Rightarrow> None
      | Some content \<Rightarrow>
          (let (buf, eof) = fread err content 0 FST_HASH_CHUNK;
               rd = (\<lambda>offset n. let (buf, eof) = fread err content offset n in if length buf < n then None else Some buf)
           in if length buf = 0 \<and> \<not> eof then None
              else case sampled_hash rd filesize of
                None \<Rightarrow> None
              | Some smallhash \<Rightarrow> Some (fst_digest_bytes (md5_bytes ctx buf (length buf)) smallhash filesize)))"

definition fst_hash_string :: "md5_state_t \<Rightarrow> u8 list \<Rightarrow> nat \<Rightarrow> u8 list option" where
  "fst_hash_string ctx file filesize =
     (let len = filesize;
          len = (if len > FST_HASH_CHUNK then FST_HASH_CHUNK else len)
      in case sampled_hash (\<lambda>offset n. Some (drop offset file)) filesize of
           None \<Rightarrow> None
         | Some smallhash \<Rightarrow> Some (fst_digest_bytes (md5_bytes ctx file len) smallhash filesize))"

section \<open>The checksums bit by bit\<close>

definition crc32_bit :: "u32 \<Rightarrow> u32" where
  "crc32_bit c = drop_bit 1 c XOR (if bit c 0 then 0xEDB88320 else 0)"

definition crc32_byte :: "u32 \<Rightarrow> u8 \<Rightarrow> u32" where
  "crc32_byte c b = (crc32_bit ^^ 8) (c XOR ucast b)"

definition crc16_bit :: "u16 \<Rightarrow> u16" where
  "crc16_bit c = push_bit 1 c XOR (if bit c 15 then 0x1021 else 0)"

definition crc16_byte :: "u16 \<Rightarrow> u8 \<Rightarrow> u16" where
  "crc16_byte c b = (crc16_bit ^^ 8) (c XOR push_bit 8 (ucast b))"

lemma funpow8: "(f ^^ 8) x = f (f (f (f (f (f (f (f x)))))))"
  by (simp add: numeral_eq_Suc)

text \<open>Evaluated on numerals only, so that the simplifier does not unfold under the map.\<close>

lemma crc32_half: "crc32_bit c = c div 2 XOR (if bit c 0 then 0xEDB88320 else 0)"
  by (simp add: crc32_bit_def drop_bit_eq_div)

lemmas crc32_numeral = crc32_half [of "numeral k" for k] crc32_half [of 0] crc32_half [of 1]

lemma crc16_double: "crc16_bit c = 2 * c XOR (if bit c 15 then 0x1021 else 0)"
  by (simp add: crc16_bit_def push_bit_eq_mult mult.commute)

lemmas crc16_numeral = crc16_double [of "numeral k" for k] crc16_double [of 0] crc16_double [of 1]

lemma smalltable_crc32: "smalltable = map (\<lambda>i. (crc32_bit ^^ 8) (of_nat i)) [0..<256]"
  unfolding smalltable_def funpow8
  by (simp add: upt_step del: One_nat_def upt_Suc flip: One_nat_def, simp add: crc32_numeral)

lemma checksumtable_crc16: "checksumtable = map (\<lambda>i. (crc16_bit ^^ 8) (push_bit 8 (of_nat i))) [0..<256]"
  unfolding checksumtable_def funpow8
  by (simp add: upt_step del: One_nat_def upt_Suc flip: One_nat_def, simp add: crc16_numeral)

text \<open>One step is linear, and a value without low (high) bits is only shifted.\<close>

lemma crc32_bit_xor: "crc32_bit (x XOR y) = crc32_bit x XOR crc32_bit y"
  by (rule bit_word_eqI) (auto simp: crc32_bit_def bit_simps)

lemma crc16_bit_xor: "crc16_bit (x XOR y) = crc16_bit x XOR crc16_bit y"
  by (rule bit_word_eqI) (auto simp: crc16_bit_def bit_simps)

lemma funpow_xor:
  fixes f :: "'a::len word \<Rightarrow> 'a word"
  assumes "\<And>x y. f (x XOR y) = f x XOR f y"
  shows "(f ^^ n) (x XOR y) = (f ^^ n) x XOR (f ^^ n) y"
  by (induction n) (simp_all add: assms)

lemma crc32_shift: "(\<And>i. i < n \<Longrightarrow> \<not> bit x i) \<Longrightarrow> (crc32_bit ^^ n) x = drop_bit n x"
proof (induction n)
  case (Suc n)
  then have "\<not> bit (drop_bit n x) 0" by (simp add: bit_simps)
  with Suc show ?case by (simp add: crc32_bit_def)
qed simp

lemma crc16_shift: "n \<le> 16 \<Longrightarrow> (\<And>i. i < n \<Longrightarrow> \<not> bit x (15 - i)) \<Longrightarrow> (crc16_bit ^^ n) x = push_bit n x"
proof (induction n)
  case (Suc n)
  then have "\<not> bit (push_bit n x) 15" using Suc.prems(2) [of n] by (simp add: bit_simps)
  then have "crc16_bit (push_bit n x) = push_bit (Suc n) x" by (simp add: crc16_bit_def)
  with Suc show ?case by simp
qed simp

lemma byte_of_take_bit: "w = take_bit 8 w \<Longrightarrow> unat w < 256" for w :: "'a::len word"
proof -
  assume "w = take_bit 8 w"
  then have "unat w = unat (take_bit 8 w)" by (rule arg_cong)
  also have "\<dots> = take_bit 8 (unat w)" by (rule unsigned_take_bit_eq)
  also have "\<dots> < 2 ^ 8" by (rule take_bit_nat_less_exp)
  finally show ?thesis by simp
qed

lemma crc32_table_step:
  "smalltable ! unat (ucast b XOR (c AND 0xff)) XOR drop_bit 8 c = crc32_byte c b"
proof -
  define i :: u32 where "i = ucast b XOR (c AND 0xff)"
  have m: "(0xff :: u32) = mask 8" by (simp add: mask_eq_exp_minus_1)
  have hb: "bit b n \<Longrightarrow> n < 8" for n using high_bit_u8 [of n b] by linarith
  have t: "i = take_bit 8 i" unfolding i_def m
    by (rule bit_word_eqI) (auto simp: bit_simps dest: hb)
  then have i: "unat i < 256"
    by (rule byte_of_take_bit)
  have c: "c XOR ucast b = i XOR (c AND NOT (mask 8))" unfolding i_def m
    by (rule bit_word_eqI) (auto simp: bit_simps dest: hb)
  have "(crc32_bit ^^ 8) (c AND NOT (mask 8)) = drop_bit 8 (c AND NOT (mask 8))"
    by (rule crc32_shift) (simp add: bit_simps)
  also have "\<dots> = drop_bit 8 c"
    by (rule bit_word_eqI) (auto simp: bit_simps dest: bit_imp_le_length)
  finally have "crc32_byte c b = (crc32_bit ^^ 8) i XOR drop_bit 8 c"
    unfolding crc32_byte_def c by (simp only: funpow_xor [OF crc32_bit_xor])
  moreover have "smalltable ! unat i = (crc32_bit ^^ 8) i"
    using i by (simp add: smalltable_crc32 del: funpow.simps)
  ultimately show ?thesis by (simp add: i_def)
qed

lemma crc16_table_step:
  "checksumtable ! unat (ucast b XOR drop_bit 8 c) XOR push_bit 8 c = crc16_byte c b"
proof -
  define i :: u16 where "i = ucast b XOR drop_bit 8 c"
  have hb: "bit b n \<Longrightarrow> n < 8" "bit c (8 + n) \<Longrightarrow> n < 8" for n
    using high_bit_u8 [of n b] bit_imp_le_length [of c "8 + n"] by (linarith, simp)
  have t: "i = take_bit 8 i" unfolding i_def
    by (rule bit_word_eqI) (auto simp: bit_simps dest: hb)
  then have i: "unat i < 256"
    by (rule byte_of_take_bit)
  have c: "c XOR push_bit 8 (ucast b) = push_bit 8 i XOR (c AND mask 8)" unfolding i_def
    by (rule bit_word_eqI) (auto simp: bit_simps)
  have "\<not> (15 - i < 8)" if "i < 8" for i :: nat using that by linarith
  then have "(crc16_bit ^^ 8) (c AND mask 8) = push_bit 8 (c AND mask 8)"
    by (intro crc16_shift) (simp_all add: bit_simps)
  also have "\<dots> = push_bit 8 c" by (rule bit_word_eqI) (auto simp: bit_simps)
  finally have "crc16_byte c b = (crc16_bit ^^ 8) (push_bit 8 i) XOR push_bit 8 c"
    unfolding crc16_byte_def c by (simp only: funpow_xor [OF crc16_bit_xor])
  moreover have "checksumtable ! unat i = (crc16_bit ^^ 8) (push_bit 8 i)"
    using i by (simp add: checksumtable_crc16 del: funpow.simps)
  ultimately show ?thesis by (simp add: i_def)
qed

lemma fst_hash_small_crc32:
  "len \<le> length data \<Longrightarrow> fst_hash_small data len h = foldl crc32_byte h (take len data)"
  unfolding fst_hash_small_def crc32_table_step by (rule fold_index)

lemma fst_hash_checksum_crc16:
  "20 \<le> length hash \<Longrightarrow> fst_hash_checksum hash = foldl crc16_byte 0 (take 20 hash) AND 0x3fff"
  unfolding fst_hash_checksum_def crc16_table_step by (simp only: fold_index)

section \<open>The sampled chunks\<close>

lemma md5_bytes_digest:
  assumes "length (md5_buf ctx) = 64" and "n \<le> length d" and "n \<le> FST_HASH_CHUNK"
  shows "md5_bytes ctx d n = md5_digest (take n d)"
  using md5.one_shot [of ctx n d] assms by (simp add: md5_bytes_def md5_wf_def)

text \<open>Where the loop samples, as a closed form: the offsets \<open>0x100000 * 2 ^ k\<close> that lie far
  enough before the end; the bytes checked are those chunks and the last one.\<close>

definition sample_offsets :: "nat \<Rightarrow> nat list" where
  "sample_offsets filesize =
     takeWhile (\<lambda>offset. offset + 2 * FST_HASH_CHUNK < filesize) (map (\<lambda>k. 0x100000 * 2 ^ k) [0..<filesize])"

definition end_len :: "nat \<Rightarrow> nat list \<Rightarrow> nat" where
  "end_len filesize offsets =
     min FST_HASH_CHUNK (filesize - (if offsets = [] then FST_HASH_CHUNK else last offsets + FST_HASH_CHUNK))"

definition sampled_bytes :: "u8 list \<Rightarrow> nat \<Rightarrow> u8 list" where
  "sampled_bytes file filesize =
     (if filesize \<le> FST_HASH_CHUNK then []
      else concat (map (\<lambda>offset. slice file offset FST_HASH_CHUNK) (sample_offsets filesize)) @
        slice file (filesize - end_len filesize (sample_offsets filesize)) (end_len filesize (sample_offsets filesize)))"

definition fst_reference :: "u8 list \<Rightarrow> nat \<Rightarrow> u8 list" where
  "fst_reference file filesize =
     md5_digest (take (min filesize FST_HASH_CHUNK) file) @
     le_bytes32 (foldl crc32_byte 0xffffffff (sampled_bytes file filesize) XOR of_nat filesize)"

text \<open>A reader that delivers the bytes of the file.\<close>

definition reads :: "(nat \<Rightarrow> nat \<Rightarrow> u8 list option) \<Rightarrow> u8 list \<Rightarrow> nat \<Rightarrow> bool" where
  "reads rd file filesize \<longleftrightarrow>
     (\<forall>offset n. offset + n \<le> filesize \<longrightarrow> (\<exists>buf. rd offset n = Some buf \<and> n \<le> length buf \<and> take n buf = slice file offset n))"

lemma sample_loop_eq:
  assumes "reads rd file filesize" and "0 < offset"
  shows "sample_loop rd filesize offset lastpos h =
     (let ps = takeWhile (\<lambda>p. p + 2 * FST_HASH_CHUNK < filesize) (map (\<lambda>k. offset * 2 ^ k) [0..<filesize])
      in Some (if ps = [] then lastpos else last ps + FST_HASH_CHUNK,
               foldl crc32_byte h (concat (map (\<lambda>p. slice file p FST_HASH_CHUNK) ps))))"
proof -
  have "filesize \<le> offset + n \<Longrightarrow> 0 < offset \<Longrightarrow> sample_loop rd filesize offset lastpos h =
     (let ps = takeWhile (\<lambda>p. p + 2 * FST_HASH_CHUNK < filesize) (map (\<lambda>k. offset * 2 ^ k) [0..<n])
      in Some (if ps = [] then lastpos else last ps + FST_HASH_CHUNK,
               foldl crc32_byte h (concat (map (\<lambda>p. slice file p FST_HASH_CHUNK) ps))))" for n
  proof (induction n arbitrary: offset lastpos h)
    case 0
    then show ?case by (simp add: sample_loop.simps)
  next
    case (Suc n)
    have upt: "map (\<lambda>k. offset * 2 ^ k) [0..<Suc n] = offset # map (\<lambda>k. (2 * offset) * 2 ^ k) [0..<n]"
      by (simp only: upt_0_Suc list.map map_map comp_def power_Suc) (simp add: mult_ac)
    show ?case
    proof (cases "offset + 2 * FST_HASH_CHUNK < filesize")
      case True
      then have "offset + FST_HASH_CHUNK \<le> filesize" by simp
      with assms(1) obtain buf where buf: "rd offset FST_HASH_CHUNK = Some buf"
        "FST_HASH_CHUNK \<le> length buf" "take FST_HASH_CHUNK buf = slice file offset FST_HASH_CHUNK"
        unfolding reads_def by blast
      have "fst_hash_small buf FST_HASH_CHUNK h = foldl crc32_byte h (slice file offset FST_HASH_CHUNK)"
        using fst_hash_small_crc32 [OF buf(2), of h] by (simp only: buf(3))
      moreover have "filesize \<le> 2 * offset + n" using Suc.prems by linarith
      ultimately show ?thesis
        using Suc.IH [of "2 * offset"] True Suc.prems
        by (subst sample_loop.simps) (simp add: upt buf(1) Let_def del: upt_Suc)
    next
      case False
      then show ?thesis by (subst sample_loop.simps) (simp add: upt Let_def del: upt_Suc)
    qed
  qed
  from this [of filesize] assms(2) show ?thesis by simp
qed

lemma sampled_hash_eq:
  assumes "reads rd file filesize"
  shows "sampled_hash rd filesize = Some (foldl crc32_byte 0xffffffff (sampled_bytes file filesize))"
proof (cases "FST_HASH_CHUNK < filesize")
  case True
  let ?os = "sample_offsets filesize"
  let ?e = "end_len filesize ?os"
  have "?e \<le> filesize" by (simp add: end_len_def min_le_iff_disj)
  then have "filesize - ?e + ?e \<le> filesize" by simp
  with assms obtain buf where buf: "rd (filesize - ?e) ?e = Some buf" "?e \<le> length buf"
    "take ?e buf = slice file (filesize - ?e) ?e"
    unfolding reads_def by blast
  have tail: "fst_hash_small buf ?e h = foldl crc32_byte h (slice file (filesize - ?e) ?e)" for h
    using fst_hash_small_crc32 [OF buf(2)] by (simp only: buf(3))
  have loop: "sample_loop rd filesize 0x100000 FST_HASH_CHUNK 0xffffffff =
      Some (if ?os = [] then FST_HASH_CHUNK else last ?os + FST_HASH_CHUNK,
        foldl crc32_byte 0xffffffff (concat (map (\<lambda>p. slice file p FST_HASH_CHUNK) ?os)))"
    unfolding sample_offsets_def
    by (rule sample_loop_eq [OF assms zero_less_numeral, unfolded Let_def])
  have e: "(if filesize - l > FST_HASH_CHUNK then FST_HASH_CHUNK else filesize - l) = min FST_HASH_CHUNK (filesize - l)" for l
    by simp
  from True show ?thesis
    unfolding sampled_hash_def loop
    by (simp only: if_True option.case prod.case Let_def e end_len_def [symmetric] buf(1) tail)
      (simp add: sampled_bytes_def)
qed (simp add: sampled_hash_def sampled_bytes_def)

lemma fst_digest_bytes_le: "fst_digest_bytes md5 h filesize = md5 @ le_bytes32 (h XOR of_nat filesize)"
proof -
  have byte: "ucast (w AND 0xff) = (ucast w :: u8)" for w :: u32 by (rule ucast_and_255)
  show ?thesis by (simp only: fst_digest_bytes_def Let_def byte le_bytes32_def)
qed

lemma reads_string: "filesize \<le> length file \<Longrightarrow> reads (\<lambda>offset n. Some (drop offset file)) file filesize"
  by (auto simp: reads_def slice_def)

lemma reads_file:
  "reads (\<lambda>offset n. let buf = slice file offset n in if length buf < n then None else Some buf) file (length file)"
  by (auto simp: reads_def slice_def Let_def)

lemma fst_hash_string_reference:
  assumes "length (md5_buf ctx) = 64" and "filesize \<le> length file"
  shows "fst_hash_string ctx file filesize = Some (fst_reference file filesize)"
proof -
  have "md5_bytes ctx file (min filesize FST_HASH_CHUNK) = md5_digest (take (min filesize FST_HASH_CHUNK) file)"
    using assms by (intro md5_bytes_digest) simp_all
  moreover have "(if filesize > FST_HASH_CHUNK then FST_HASH_CHUNK else filesize) = min filesize FST_HASH_CHUNK"
    by simp
  ultimately show ?thesis
    unfolding fst_hash_string_def sampled_hash_eq [OF reads_string [OF assms(2)]]
    by (simp only: Let_def option.case fst_digest_bytes_le fst_reference_def)
qed

lemma fst_hash_file_reference:
  assumes "length (md5_buf ctx) = 64"
  shows "fst_hash_file ctx (\<lambda>_ _. None) (Some file) (length file) = Some (fst_reference file (length file))"
proof -
  have "length (take FST_HASH_CHUNK file) \<le> FST_HASH_CHUNK" by simp
  from md5_bytes_digest [OF assms order_refl this]
  have md5: "md5_bytes ctx (take FST_HASH_CHUNK file) (length (take FST_HASH_CHUNK file)) =
      md5_digest (take (min (length file) FST_HASH_CHUNK) file)"
    by (simp only: take_all order_refl length_take take_take) (simp only: min.commute min.idem min.assoc min.left_commute)
  have rd: "(\<lambda>offset n. let (buf, eof) = fread (\<lambda>_ _. None) file offset n in if length buf < n then None else Some buf) =
      (\<lambda>offset n. let buf = slice file offset n in if length buf < n then None else Some buf)"
    by (simp add: fread_def Let_def fun_eq_iff)
  have first: "fread (\<lambda>_ _. None) file 0 FST_HASH_CHUNK =
      (take FST_HASH_CHUNK file, length (take FST_HASH_CHUNK file) < FST_HASH_CHUNK)"
    by (simp add: fread_def slice_def Let_def)
  have ok: "\<not> (length (take FST_HASH_CHUNK file) = 0 \<and> \<not> length (take FST_HASH_CHUNK file) < FST_HASH_CHUNK)"
    by simp
  show ?thesis
    unfolding fst_hash_file_def option.case rd first
    unfolding Let_def prod.case sampled_hash_eq [OF reads_file, unfolded Let_def]
      fst_reference_def fst_digest_bytes_le md5 using ok by (simp only: if_False option.case)
qed

text \<open>Announcing more than there is: some read comes back short.\<close>

lemma sample_loop_lastpos:
  "sample_loop rd filesize offset lastpos h = Some (lastpos', h') \<Longrightarrow> lastpos < filesize \<Longrightarrow> lastpos' < filesize"
proof (induction rd filesize offset lastpos h rule: sample_loop.induct)
  case (1 rd filesize offset lastpos h)
  show ?case
  proof (cases "0 < offset \<and> offset + 2 * FST_HASH_CHUNK < filesize")
    case True
    with 1 show ?thesis
      by (subst (asm) (2) sample_loop.simps) (auto split: option.splits)
  next
    case False
    with "1.prems" show ?thesis by (subst (asm) sample_loop.simps) (simp only: if_False, simp)
  qed
qed

lemma sampled_hash_short:
  assumes "length file < filesize" and "FST_HASH_CHUNK < filesize"
    and "\<And>offset n. 0 < n \<Longrightarrow> length file < offset + n \<Longrightarrow> rd offset n = None"
  shows "sampled_hash rd filesize = None"
proof (cases "sample_loop rd filesize 0x100000 FST_HASH_CHUNK 0xffffffff")
  case None
  with assms(2) show ?thesis by (simp only: sampled_hash_def if_True option.case)
next
  case (Some r)
  obtain lastpos h where r: "r = (lastpos, h)" by (cases r)
  have "lastpos < filesize" using sample_loop_lastpos [OF Some [unfolded r]] assms(2) by simp
  then have "rd (filesize - e) e = None" if "0 < e" "e \<le> filesize" for e
    using assms(1,3) that by simp
  from this [of "min FST_HASH_CHUNK (filesize - lastpos)"] \<open>lastpos < filesize\<close>
  have "rd (filesize - min FST_HASH_CHUNK (filesize - lastpos)) (min FST_HASH_CHUNK (filesize - lastpos)) = None"
    by auto
  moreover have "(if filesize - lastpos > FST_HASH_CHUNK then FST_HASH_CHUNK else filesize - lastpos)
      = min FST_HASH_CHUNK (filesize - lastpos)" by simp
  ultimately show ?thesis using Some assms(2)
    by (simp only: sampled_hash_def r if_True option.case prod.case Let_def)
qed

section \<open>Properties\<close>

text \<open>C36: The two table loops compute the checksums bit by bit: \<open>fst_hash_small\<close> the reflected
  CRC-32 with polynomial \<open>0xEDB88320\<close> (without the final complement), and the checksum used in
  links the CRC-16 of CCITT (polynomial \<open>0x1021\<close>, started at 0) of the twenty bytes of the
  hash, cut to 14 bits.\<close>

theorem fst_checksums_are_crcs:
  assumes "len \<le> length data" and "20 \<le> length hash"
  shows "fst_hash_small data len h = foldl crc32_byte h (take len data) \<and>
    fst_hash_checksum hash = foldl crc16_byte 0 (take 20 hash) AND 0x3fff"
  using fst_hash_small_crc32 [OF assms(1)] fst_hash_checksum_crc16 [OF assms(2)] by simp

lemma fst_checksums_are_crcs_witness:
  "fst_hash_small [0x61, 0x62, 0x63] 2 0xffffffff = foldl crc32_byte 0xffffffff [0x61, 0x62]"
  using fst_checksums_are_crcs [of 2 "[0x61, 0x62, 0x63]" "replicate 20 0" "0xffffffff"] by simp

text \<open>C25: \<open>fst_hash_string\<close> reads only the announced bytes and always returns: the MD5 digest
  of RFC 1321 of the first 307200 bytes, then, little-endian, the CRC-32 over the chunks at
  the offsets \<open>2 ^ k\<close> mebibytes and the last chunk, combined with the size.\<close>

theorem fst_hash_string_value:
  assumes "length (md5_buf ctx) = 64" and "filesize \<le> length file"
  shows "fst_hash_string ctx file filesize =
     Some (md5_digest (take (min filesize 307200) file) @
       le_bytes32 (foldl crc32_byte 0xffffffff (sampled_bytes file filesize) XOR of_nat filesize))"
  using fst_hash_string_reference [OF assms] by (simp only: fst_reference_def)

lemma fst_hash_string_value_witness:
  "fst_hash_string (md5_init \<lparr>md5_count = [], md5_abcd = [], md5_buf = replicate 64 0\<rparr>) [1, 2, 3] 2 =
     Some (md5_digest [1, 2] @ le_bytes32 (foldl crc32_byte 0xffffffff [] XOR 2))"
proof -
  have "sampled_bytes [1, 2, 3] 2 = []" by (simp add: sampled_bytes_def)
  then show ?thesis
    using fst_hash_string_value [of "md5_init \<lparr>md5_count = [], md5_abcd = [], md5_buf = replicate 64 0\<rparr>" 2 "[1, 2, 3]"]
    by (simp add: md5_init_def)
qed

text \<open>\<open>fst_hash_file\<close> of a file announced at its own size and read without error succeeds and
  gives what \<open>fst_hash_string\<close> gives for the contents; a file shorter than announced is an
  error whatever the reads do, as is one that cannot be opened, or whose first read fails at
  once.\<close>

lemma length_fread: "length (fst (fread err content offset n)) \<le> length (slice content offset n)"
  by (auto simp: fread_def Let_def slice_def split: option.splits)

lemma fread_short:
  "0 < n \<Longrightarrow> length content < offset + n \<Longrightarrow> length (fst (fread err content offset n)) < n"
  using length_fread [of err content offset n] by (simp add: slice_def)

theorem fst_hash_file_agrees:
  assumes "length (md5_buf ctx) = 64"
  shows "fst_hash_file ctx (\<lambda>_ _. None) (Some content) (length content) = fst_hash_string ctx content (length content) \<and>
    fst_hash_string ctx content (length content) \<noteq> None \<and>
    (length content < filesize \<and> 307200 < filesize \<longrightarrow> fst_hash_file ctx err (Some content) filesize = None) \<and>
    (err 0 307200 = Some 0 \<longrightarrow> fst_hash_file ctx err (Some content) filesize = None) \<and>
    fst_hash_file ctx err None filesize = None"
proof -
  have "length content < filesize \<and> FST_HASH_CHUNK < filesize \<longrightarrow> fst_hash_file ctx err (Some content) filesize = None"
    using sampled_hash_short [of content filesize
        "\<lambda>offset n. let (buf, eof) = fread err content offset n in if length buf < n then None else Some buf"]
      fread_short [of _ content _ err]
    by (simp add: fst_hash_file_def Let_def case_prod_beta)
  moreover have "err 0 FST_HASH_CHUNK = Some 0 \<longrightarrow> fst_hash_file ctx err (Some content) filesize = None"
    by (simp add: fst_hash_file_def fread_def slice_def)
  ultimately show ?thesis
    using fst_hash_file_reference [OF assms] fst_hash_string_reference [OF assms order_refl]
    by (simp add: fst_hash_file_def)
qed

lemma fst_hash_file_agrees_witness:
  "fst_hash_file (md5_init \<lparr>md5_count = [], md5_abcd = [], md5_buf = replicate 64 0\<rparr>) (\<lambda>_ _. None) (Some [1, 2]) 2 =
   fst_hash_string (md5_init \<lparr>md5_count = [], md5_abcd = [], md5_buf = replicate 64 0\<rparr>) [1, 2] 2 \<and>
   fst_hash_file (md5_init \<lparr>md5_count = [], md5_abcd = [], md5_buf = replicate 64 0\<rparr>) (\<lambda>_ _. Some 0) (Some [1, 2]) 400000 = None"
  using fst_hash_file_agrees [of "md5_init \<lparr>md5_count = [], md5_abcd = [], md5_buf = replicate 64 0\<rparr>" "[1, 2]" 400000 "\<lambda>_ _. Some 0"]
  by (simp add: md5_init_def numeral_2_eq_2)

end
