(* ===== verification/WinMX.thy ===== *)
theory WinMX
  imports C_Prelude
begin

text \<open>
  The WinMX obfuscation of \<^verbatim>\<open>src/src/networks/opennap/winmx_xor_c.c\<close>: five passes of
  chained exclusive ors over a string, done in place. Shown: decoding undoes encoding for
  every string of two bytes or more, and not for one byte, where the first byte is combined
  with itself.
\<close>

section \<open>Model\<close>

text \<open>\<^verbatim>\<open>what[x] ^= what[x-1]\<close>, and the update of the first byte.\<close>

definition xor_prev :: "nat \<Rightarrow> u8 list \<Rightarrow> u8 list" where
  "xor_prev x what = what[x := what ! x XOR what ! (x - 1)]"

definition xor_first :: "nat \<Rightarrow> nat \<Rightarrow> u8 list \<Rightarrow> u8 list" where
  "xor_first len counter what =
     (if counter \<noteq> 4 then what[0 := what ! 0 XOR what ! (len - 1)]
      else what[0 := what ! 0 XOR of_nat len])"

definition encode_pass :: "nat \<Rightarrow> nat \<Rightarrow> u8 list \<Rightarrow> u8 list" where
  "encode_pass len counter what = fold xor_prev [1..<len] (xor_first len counter what)"

definition winmx_encode :: "u8 list \<Rightarrow> nat \<Rightarrow> u8 list" where
  "winmx_encode what len = fold (encode_pass len) [4, 3, 2, 1, 0] what"

definition decode_pass :: "nat \<Rightarrow> nat \<Rightarrow> u8 list \<Rightarrow> u8 list" where
  "decode_pass len counter what = xor_first len counter (fold xor_prev (rev [1..<len]) what)"

definition winmx_decode :: "u8 list \<Rightarrow> nat \<Rightarrow> u8 list" where
  "winmx_decode what len = fold (decode_pass len) [0, 1, 2, 3, 4] what"

section \<open>Every step is its own inverse\<close>

lemma length_xor_prev [simp]: "length (xor_prev x what) = length what"
  by (simp add: xor_prev_def)

lemma length_xor_first [simp]: "length (xor_first len counter what) = length what"
  by (simp add: xor_first_def)

lemma length_fold_xor_prev [simp]: "length (fold xor_prev xs what) = length what"
  by (induction xs arbitrary: what) simp_all

lemma length_encode_pass [simp]: "length (encode_pass len counter what) = length what"
  by (simp add: encode_pass_def)

lemma xor_prev_twice: "1 \<le> x \<Longrightarrow> x < length what \<Longrightarrow> xor_prev x (xor_prev x what) = what"
  by (simp add: xor_prev_def xor.assoc)

lemma xor_first_twice:
  assumes "2 \<le> len" and "len \<le> length what"
  shows "xor_first len counter (xor_first len counter what) = what"
proof -
  have "0 < length what" "len - 1 \<noteq> 0" using assms by linarith+
  then show ?thesis by (simp add: xor_first_def xor.assoc)
qed

lemma fold_involutions:
  assumes "\<And>x w. x \<in> set xs \<Longrightarrow> P w \<Longrightarrow> P (f x w) \<and> f x (f x w) = w" and "P w"
  shows "fold f (rev xs) (fold f xs w) = w"
  using assms
proof (induction xs arbitrary: w)
  case (Cons x xs)
  have "P (f x w)" "f x (f x w) = w" using Cons.prems by simp_all
  with Cons.IH [of "f x w"] Cons.prems(1) show ?case by simp
qed simp

lemma decode_encode_pass:
  assumes "2 \<le> len" and "len \<le> length what"
  shows "decode_pass len counter (encode_pass len counter what) = what"
proof -
  let ?w = "xor_first len counter what"
  have "fold xor_prev (rev [1..<len]) (fold xor_prev [1..<len] ?w) = ?w"
    using assms by (intro fold_involutions [where P = "\<lambda>w. length w = length what"])
      (simp_all add: xor_prev_twice)
  then show ?thesis
    using xor_first_twice [OF assms] by (simp add: decode_pass_def encode_pass_def)
qed

section \<open>Properties\<close>

text \<open>C37: Decoding an encoded string of at least two bytes gives the string back; bytes after
  the given length are not touched.\<close>

theorem winmx_roundtrip:
  assumes "2 \<le> len" and "len \<le> length what"
  shows "winmx_decode (winmx_encode what len) len = what"
  using decode_encode_pass [OF assms(1)] assms(2)
  by (simp add: winmx_decode_def winmx_encode_def)

lemma winmx_roundtrip_witness:
  "winmx_decode (winmx_encode [1, 2, 3] 3) 3 = [1, 2, 3]"
  using winmx_roundtrip [of 3 "[1, 2, 3]"] by simp

text \<open>For a string of one byte the last byte is the first, four of the five passes clear
  it, and decoding yields the byte 1 whatever was encoded.\<close>

theorem winmx_one_byte: "winmx_encode [b] 1 = [0] \<and> winmx_decode (winmx_encode [b] 1) 1 = [1]"
  by (simp add: winmx_decode_def winmx_encode_def encode_pass_def decode_pass_def xor_first_def)

end
