(* ===== verification/Tiger_Tree.thy ===== *)
theory Tiger_Tree
  imports Tiger
begin

text \<open>
  The Tiger tree of \<^verbatim>\<open>src/src/utils/lib/tiger.c\<close>: \<open>tiger_hash\<close> over the static buffer,
  the recursion \<open>tiger_tree_string\<close>, the loop \<open>tiger_block_size\<close> on the signed 64-bit
  \<^verbatim>\<open>OFF_T\<close>, and the two functions called from OCaml. Shown: the block size is the least
  that covers the string, the recursion returns, and its result, computed from the top, is
  the root of the hash tree built level by level from the 1024-byte blocks.
\<close>

section \<open>Model\<close>

abbreviation (input) DIGEST_LEN :: nat where "DIGEST_LEN \<equiv> 24"
abbreviation (input) BLOCK_SIZE :: nat where "BLOCK_SIZE \<equiv> 1024"

text \<open>The bytes of the static \<open>tiger_buffer\<close>.\<close>

abbreviation (input) TIGER_BUFFER :: nat where "TIGER_BUFFER \<equiv> 8192"

text \<open>The result is the buffer and the digest; \<open>None\<close> stands for a string that does not fit
  the buffer, which the code does not check. \<open>temp\<close> is the uninitialised array of
  \<open>static_tiger\<close>; \<^verbatim>\<open>swap_digest\<close> is empty on a little-endian target.\<close>

definition tiger_hash :: "u8 list \<Rightarrow> u8 list \<Rightarrow> u8 \<Rightarrow> u8 list \<Rightarrow> nat \<Rightarrow> (u8 list \<times> u8 list) option" where
  "tiger_hash temp buffer prefix s len =
     (if length buffer < 1 + len then None
      else
        (let buffer = buffer[0 := prefix];
             buffer = blit buffer 1 (take len s);
             ndigest = static_tiger temp buffer (len + 1)
         in Some (buffer, concat (map le_bytes64 ndigest))))"

partial_function (option) tiger_tree_string ::
    "u8 list \<Rightarrow> u8 list \<Rightarrow> u8 list \<Rightarrow> nat \<Rightarrow> nat \<Rightarrow> nat \<Rightarrow> (u8 list \<times> u8 list) option" where
  "tiger_tree_string temp buffer s len pos block_size =
     (if block_size = BLOCK_SIZE then
        (let len' = (if len - pos > BLOCK_SIZE then BLOCK_SIZE else len - pos)
         in tiger_hash temp buffer 0 (drop pos s) len')
      else if len \<le> pos + block_size div 2 then
        tiger_tree_string temp buffer s len pos (block_size div 2)
      else
        Option.bind (tiger_tree_string temp buffer s len pos (block_size div 2)) (\<lambda>(buffer, digest1).
        Option.bind (tiger_tree_string temp buffer s len (pos + block_size div 2) (block_size div 2)) (\<lambda>(buffer, digest2).
          tiger_hash temp buffer 1 (digest1 @ digest2) (2 * DIGEST_LEN))))"

type_synonym OFF_T = "64 word"

partial_function (option) block_size_loop :: "OFF_T \<Rightarrow> OFF_T \<Rightarrow> OFF_T option" where
  "block_size_loop len block_size =
     (if block_size <s len then block_size_loop len (block_size * 2) else Some block_size)"

definition tiger_block_size :: "OFF_T \<Rightarrow> OFF_T option" where
  "tiger_block_size len = block_size_loop len 1024"

definition tigertree_unsafe_string :: "u8 list \<Rightarrow> u8 list \<Rightarrow> u8 list \<Rightarrow> nat \<Rightarrow> (u8 list \<times> u8 list) option" where
  "tigertree_unsafe_string temp buffer string len =
     Option.bind (tiger_block_size (of_nat len)) (\<lambda>block_size.
       tiger_tree_string temp buffer string len 0 (unat block_size))"

definition tiger_unsafe_string :: "u8 list \<Rightarrow> u8 list \<Rightarrow> nat \<Rightarrow> u8 list" where
  "tiger_unsafe_string temp string len = concat (map le_bytes64 (static_tiger temp string len))"

section \<open>Hash trees\<close>

text \<open>The tree of a file: its blocks, hashed with prefix 0, are combined in pairs with prefix 1,
  level by level; the last one of an odd level is carried over.\<close>

fun pair_up :: "('h \<Rightarrow> 'h \<Rightarrow> 'h) \<Rightarrow> 'h list \<Rightarrow> 'h list" where
  "pair_up node (a # b # hs) = node a b # pair_up node hs"
| "pair_up node hs = hs"

lemma length_pair_up: "length (pair_up node hs) = (length hs + 1) div 2"
  by (induction node hs rule: pair_up.induct) simp_all

function tree_root :: "('h \<Rightarrow> 'h \<Rightarrow> 'h) \<Rightarrow> 'h list \<Rightarrow> 'h" where
  "tree_root node hs = (if length hs \<le> 1 then hd hs else tree_root node (pair_up node hs))"
  by pat_completeness auto
termination
  by (relation "measure (\<lambda>(node, hs). length hs)") (auto simp: length_pair_up)

declare tree_root.simps [simp del]

function tree_blocks :: "u8 list \<Rightarrow> u8 list list" where
  "tree_blocks s = (if length s \<le> BLOCK_SIZE then [s] else take BLOCK_SIZE s # tree_blocks (drop BLOCK_SIZE s))"
  by pat_completeness auto
termination
  by (relation "measure length") auto

declare tree_blocks.simps [simp del]

definition tiger_digest :: "u8 list \<Rightarrow> u8 list" where
  "tiger_digest m = concat (map le_bytes64 (tiger_words m))"

definition tree_leaf :: "u8 list \<Rightarrow> u8 list" where
  "tree_leaf block = tiger_digest (0 # block)"

definition tree_node :: "u8 list \<Rightarrow> u8 list \<Rightarrow> u8 list" where
  "tree_node l r = tiger_digest (1 # l @ r)"

definition tiger_tree_root :: "u8 list \<Rightarrow> u8 list" where
  "tiger_tree_root s = tree_root tree_node (map tree_leaf (tree_blocks s))"

text \<open>\<open>k\<close> levels at once.\<close>

lemma pair_up_append: "even (length xs) \<Longrightarrow> pair_up node (xs @ ys) = pair_up node xs @ pair_up node ys"
  by (induction node xs rule: pair_up.induct) simp_all

lemma levels_append:
  "2 ^ k dvd length xs \<Longrightarrow> (pair_up node ^^ k) (xs @ ys) = (pair_up node ^^ k) xs @ (pair_up node ^^ k) ys"
proof (induction k arbitrary: xs ys)
  case (Suc k)
  then obtain q where q: "length xs = 2 * (2 ^ k * q)" by (auto elim: dvdE)
  then have "even (length xs)" by simp
  moreover have "2 ^ k dvd length (pair_up node xs)" by (simp add: length_pair_up q)
  ultimately show ?case
    using Suc.IH by (simp add: funpow_swap1 pair_up_append del: funpow.simps(2) add: funpow_Suc_right)
qed simp

lemma levels_root: "(pair_up node ^^ k) hs = [d] \<Longrightarrow> tree_root node hs = d"
proof (induction k arbitrary: hs)
  case 0
  then show ?case by (simp add: tree_root.simps)
next
  case (Suc k)
  then have root: "tree_root node (pair_up node hs) = d"
    by (simp add: funpow_Suc_right del: funpow.simps(2))
  show ?case
  proof (cases "length hs \<le> 1")
    case True
    then have "pair_up node hs = hs" by (cases hs) auto
    with root show ?thesis by simp
  qed (use root in \<open>simp add: tree_root.simps [of node hs]\<close>)
qed

lemma tree_blocks_append:
  "length xs = BLOCK_SIZE * Suc n \<Longrightarrow> ys \<noteq> [] \<Longrightarrow> tree_blocks (xs @ ys) = tree_blocks xs @ tree_blocks ys"
proof (induction n arbitrary: xs)
  case 0
  then have "0 < length ys" by simp
  with 0 show ?case by (simp add: tree_blocks.simps [of "xs @ ys"] tree_blocks.simps [of xs])
next
  case (Suc n)
  then have "tree_blocks (drop BLOCK_SIZE xs @ ys) = tree_blocks (drop BLOCK_SIZE xs) @ tree_blocks ys"
    by simp
  with Suc.prems show ?case by (simp add: tree_blocks.simps [of "xs @ ys"] tree_blocks.simps [of xs])
qed

lemma length_tree_blocks: "length xs = BLOCK_SIZE * Suc n \<Longrightarrow> length (tree_blocks xs) = Suc n"
proof (induction n arbitrary: xs)
  case 0
  then show ?case by (simp add: tree_blocks.simps [of xs])
next
  case (Suc n)
  then show ?case by (simp add: tree_blocks.simps [of xs])
qed

section \<open>The recursion from the top\<close>

lemma length_tiger_compress: "length (tiger_compress str state) = 3"
  by (simp add: tiger_compress_def feedforward_def Let_def split: prod.splits)

lemma length_tiger_chain: "length res = 3 \<Longrightarrow> length (tiger_chain res bs) = 3"
  by (induction bs arbitrary: res) (simp_all add: length_tiger_compress)

lemma length_tiger_digest: "length (tiger_digest m) = 24"
proof -
  have "length (tiger_words m) = 3"
    unfolding tiger_words_def by (rule length_tiger_chain) (simp add: tiger_iv_def)
  moreover have "length (concat (map le_bytes64 ws)) = 8 * length ws" for ws
    by (induction ws) simp_all
  ultimately show ?thesis by (simp add: tiger_digest_def)
qed

lemma tiger_hash_digest:
  assumes "length temp = 64" and "length buffer = TIGER_BUFFER" and "len \<le> length s" and "len \<le> BLOCK_SIZE"
  shows "\<exists>buffer'. tiger_hash temp buffer prefix s len = Some (buffer', tiger_digest (prefix # take len s)) \<and>
    length buffer' = TIGER_BUFFER"
proof -
  let ?b = "blit (buffer[0 := prefix]) 1 (take len s)"
  have b: "?b = prefix # take len s @ drop (1 + len) buffer"
    using assms by (cases buffer) (simp_all add: blit_def min_absorb1)
  then have "take (len + 1) ?b = prefix # take len s" using assms(3) by (simp add: min_absorb1)
  moreover have lb: "length ?b = TIGER_BUFFER" using assms by (simp only: b) simp
  ultimately have "static_tiger temp ?b (len + 1) = tiger_words (prefix # take len s)"
    using static_tiger_words [OF assms(1), of "len + 1" ?b] assms(4) by simp
  with lb assms show ?thesis by (simp add: tiger_hash_def Let_def tiger_digest_def)
qed

lemma levels_halves:
  assumes "length xs = BLOCK_SIZE * 2 ^ k" and "ys \<noteq> []"
    and "(pair_up tree_node ^^ k) (map tree_leaf (tree_blocks xs)) = [d1]"
    and "(pair_up tree_node ^^ k) (map tree_leaf (tree_blocks ys)) = [d2]"
  shows "(pair_up tree_node ^^ Suc k) (map tree_leaf (tree_blocks (xs @ ys))) = [tree_node d1 d2]"
proof -
  obtain n where n: "(2 :: nat) ^ k = Suc n" by (metis gr0_implies_Suc zero_less_numeral zero_less_power)
  then have "length (tree_blocks xs) = 2 ^ k" using length_tree_blocks [of xs n] assms(1) by simp
  then have "(pair_up tree_node ^^ k) (map tree_leaf (tree_blocks xs @ tree_blocks ys)) = [d1] @ [d2]"
    using levels_append [of k "map tree_leaf (tree_blocks xs)"] assms(3,4) by simp
  moreover have "tree_blocks (xs @ ys) = tree_blocks xs @ tree_blocks ys"
    using tree_blocks_append [of xs n ys] assms(1,2) n by simp
  ultimately show ?thesis by simp
qed

lemma tiger_tree_levels:
  assumes "length temp = 64" and "len \<le> length s"
  shows "length buffer = TIGER_BUFFER \<Longrightarrow> pos < len \<or> len = 0 \<and> pos = 0 \<Longrightarrow>
    \<exists>buffer' d. tiger_tree_string temp buffer s len pos (BLOCK_SIZE * 2 ^ k) = Some (buffer', d) \<and>
      length buffer' = TIGER_BUFFER \<and> length d = 24 \<and>
      (pair_up tree_node ^^ k) (map tree_leaf (tree_blocks (slice s pos (min (BLOCK_SIZE * 2 ^ k) (len - pos))))) = [d]"
proof (induction k arbitrary: buffer pos)
  case 0
  let ?n = "min BLOCK_SIZE (len - pos)"
  have "?n \<le> length (drop pos s)" using assms(2) by simp
  then obtain buffer' where h: "tiger_hash temp buffer 0 (drop pos s) ?n = Some (buffer', tree_leaf (take ?n (drop pos s)))"
    "length buffer' = TIGER_BUFFER"
    using tiger_hash_digest [OF assms(1) 0(1), of ?n "drop pos s" 0] by (auto simp: tree_leaf_def)
  have "length (take ?n (drop pos s)) \<le> BLOCK_SIZE" by simp
  then have "tree_blocks (take ?n (drop pos s)) = [take ?n (drop pos s)]"
    by (subst tree_blocks.simps) (simp only: if_True)
  moreover have "(if len - pos > BLOCK_SIZE then BLOCK_SIZE else len - pos) = ?n" by simp
  ultimately show ?case
    using h by (subst tiger_tree_string.simps) (simp add: slice_def tree_leaf_def length_tiger_digest)
next
  case (Suc k)
  let ?half = "BLOCK_SIZE * 2 ^ k"
  have half: "BLOCK_SIZE * 2 ^ Suc k div 2 = ?half" by simp
  have "(1 :: nat) \<le> 2 ^ k" by simp
  then have ne: "BLOCK_SIZE * 2 ^ Suc k \<noteq> BLOCK_SIZE" unfolding power_Suc by linarith
  from Suc.IH [OF Suc.prems] obtain b1 d1 where left:
    "tiger_tree_string temp buffer s len pos ?half = Some (b1, d1)" "length b1 = TIGER_BUFFER" "length d1 = 24"
    "(pair_up tree_node ^^ k) (map tree_leaf (tree_blocks (slice s pos (min ?half (len - pos))))) = [d1]" by blast
  show ?case
  proof (cases "len \<le> pos + ?half")
    case True
    then have "min (BLOCK_SIZE * 2 ^ Suc k) (len - pos) = min ?half (len - pos)" by simp
    with True left show ?thesis
      by (subst tiger_tree_string.simps) (simp only: half ne if_False if_True, simp)
  next
    case False
    then have "pos + ?half < len \<or> len = 0 \<and> pos + ?half = 0" by simp
    from Suc.IH [OF left(2) this] obtain b2 d2 where right:
      "tiger_tree_string temp b1 s len (pos + ?half) ?half = Some (b2, d2)" "length b2 = TIGER_BUFFER" "length d2 = 24"
      "(pair_up tree_node ^^ k) (map tree_leaf (tree_blocks (slice s (pos + ?half) (min ?half (len - (pos + ?half)))))) = [d2]"
      by blast
    obtain b3 where top: "tiger_hash temp b2 1 (d1 @ d2) 48 = Some (b3, tree_node d1 d2)" "length b3 = TIGER_BUFFER"
      using tiger_hash_digest [OF assms(1) right(2), of 48 "d1 @ d2" 1] left(3) right(3) by (auto simp: tree_node_def)
    let ?xs = "slice s pos ?half" and ?ys = "slice s (pos + ?half) (min ?half (len - (pos + ?half)))"
    have "slice s pos (min (BLOCK_SIZE * 2 ^ Suc k) (len - pos)) = ?xs @ ?ys"
    proof -
      have "min (BLOCK_SIZE * 2 ^ Suc k) (len - pos) = ?half + min ?half (len - (pos + ?half))"
        using False by simp
      then show ?thesis by (simp only: slice_def take_add drop_drop) (simp add: add.commute)
    qed
    moreover have "length ?xs = ?half" using False assms(2) by (simp add: length_slice)
    moreover have "?ys \<noteq> []" using False assms(2) by (simp add: slice_def)
    moreover have "min ?half (len - pos) = ?half" using False by simp
    ultimately have "(pair_up tree_node ^^ Suc k) (map tree_leaf (tree_blocks
        (slice s pos (min (BLOCK_SIZE * 2 ^ Suc k) (len - pos))))) = [tree_node d1 d2]"
      using levels_halves [of ?xs k ?ys d1 d2] left(4) right(4) by simp
    moreover have "length (tree_node d1 d2) = 24" by (simp add: tree_node_def length_tiger_digest)
    ultimately show ?thesis
      using False left right top
      by (subst tiger_tree_string.simps) (simp only: half ne if_False bind.simps prod.case, simp)
  qed
qed

section \<open>The block size\<close>

lemma sint_of_nat64: "n < 2 ^ 63 \<Longrightarrow> sint (of_nat n :: OFF_T) = int n"
proof -
  assume "n < 2 ^ 63"
  then have "int n < 2 ^ 63" by simp
  then show ?thesis by (simp add: signed_of_nat signed_take_bit_int_eq_self)
qed

lemma block_size_loop_least:
  assumes "n \<le> 2 ^ 62"
  shows "k \<le> 52 \<Longrightarrow> k = 0 \<or> 1024 * 2 ^ (k - 1) < n \<Longrightarrow>
    \<exists>K. block_size_loop (of_nat n) (of_nat (1024 * 2 ^ k)) = Some (of_nat (1024 * 2 ^ K)) \<and> K \<le> 52 \<and>
      n \<le> 1024 * 2 ^ K \<and> (K = 0 \<or> 1024 * 2 ^ (K - 1) < n)"
proof (induction "52 - k" arbitrary: k)
  case (0 k)
  then have k: "k = 52" by simp
  have "sint (of_nat (1024 * 2 ^ k) :: OFF_T) = 2 ^ 62" "sint (of_nat n :: OFF_T) = int n"
    using assms sint_of_nat64 [of "1024 * 2 ^ k"] sint_of_nat64 [of n] by (simp_all add: k)
  then have "\<not> of_nat (1024 * 2 ^ k) <s (of_nat n :: OFF_T)"
    unfolding word_sless_alt using assms by simp
  then have "block_size_loop (of_nat n) (of_nat (1024 * 2 ^ k)) = Some (of_nat (1024 * 2 ^ k))"
    by (subst block_size_loop.simps) (simp only: if_False)
  moreover have "n \<le> 1024 * 2 ^ k" using assms by (simp add: k)
  ultimately show ?case using 0(2,3) by blast
next
  case (Suc m k)
  have "(2 :: nat) ^ k \<le> 2 ^ 52" using Suc.prems by (intro power_increasing) simp_all
  then have b: "1024 * 2 ^ k < (2 ^ 63 :: nat)" by simp
  have s: "of_nat (1024 * 2 ^ k) <s (of_nat n :: OFF_T) \<longleftrightarrow> 1024 * 2 ^ k < n"
    unfolding word_sless_alt sint_of_nat64 [OF b] using sint_of_nat64 [of n] assms by (simp del: of_nat_mult of_nat_power)
  show ?case
  proof (cases "1024 * 2 ^ k < n")
    case True
    have "of_nat (1024 * 2 ^ k) * 2 = (of_nat (1024 * 2 ^ Suc k) :: OFF_T)" by simp
    then have "block_size_loop (of_nat n) (of_nat (1024 * 2 ^ k)) = block_size_loop (of_nat n) (of_nat (1024 * 2 ^ Suc k))"
      using True s by (subst block_size_loop.simps) (simp only: if_True)
    moreover have "m = 52 - Suc k" "Suc k \<le> 52" using Suc.hyps(2) by simp_all
    ultimately show ?thesis using Suc.hyps(1) [of "Suc k"] True by simp
  next
    case False
    then have "block_size_loop (of_nat n) (of_nat (1024 * 2 ^ k)) = Some (of_nat (1024 * 2 ^ k))"
      using s by (subst block_size_loop.simps) (simp only: if_False)
    with False Suc.prems show ?thesis by (intro exI [of _ k]) simp
  qed
qed

lemma tiger_block_size_least:
  assumes "n \<le> 2 ^ 62"
  obtains K where "tiger_block_size (of_nat n) = Some (of_nat (1024 * 2 ^ K))" "K \<le> 52" "n \<le> 1024 * 2 ^ K"
    "K = 0 \<or> 1024 * 2 ^ (K - 1) < n"
  using block_size_loop_least [OF assms, of 0] by (auto simp: tiger_block_size_def)

lemma unat_block: "K \<le> 52 \<Longrightarrow> unat (of_nat (1024 * 2 ^ K) :: OFF_T) = 1024 * 2 ^ K"
proof -
  assume "K \<le> 52"
  then have "(2 :: nat) ^ K \<le> 2 ^ 52" by (intro power_increasing) simp_all
  then have "1024 * 2 ^ K < (2 ^ 64 :: nat)" by simp
  then show ?thesis by (subst unat_of_nat) simp
qed

lemma tigertree_root:
  assumes "length temp = 64" and "length buffer = 8192" and "len \<le> length s" and "len \<le> 2 ^ 62"
  obtains buffer' where "tigertree_unsafe_string temp buffer s len = Some (buffer', tiger_tree_root (take len s))"
    "length buffer' = 8192"
proof -
  from tiger_block_size_least [OF assms(4)] obtain K where
    K: "tiger_block_size (of_nat len) = Some (of_nat (1024 * 2 ^ K))" "K \<le> 52" "len \<le> 1024 * 2 ^ K" by blast
  from tiger_tree_levels [OF assms(1,3,2), of 0 K] obtain buffer' d where
    d: "tiger_tree_string temp buffer s len 0 (1024 * 2 ^ K) = Some (buffer', d)" "length buffer' = 8192"
    "(pair_up tree_node ^^ K) (map tree_leaf (tree_blocks (take len s))) = [d]"
    using K(3) by (auto simp: min_absorb2)
  have "d = tiger_tree_root (take len s)" using levels_root [OF d(3)] by (simp add: tiger_tree_root_def)
  with d K that show ?thesis
    by (simp only: tigertree_unsafe_string_def bind.simps unat_block)
qed

section \<open>Properties\<close>

text \<open>C4: The tree hash returns for every string of at most \<open>2 ^ 62\<close> bytes, within its static
  buffer, and is the root of the hash tree over the 1024-byte blocks, whatever the buffer and
  the uninitialised array held.\<close>

theorem tigertree_is_root:
  assumes "length temp = 64" and "length buffer = 8192" and "len \<le> length string" and "len \<le> 2 ^ 62"
  shows "\<exists>buffer'. tigertree_unsafe_string temp buffer string len =
     Some (buffer', tree_root (\<lambda>l r. tiger_digest (1 # l @ r))
       (map (\<lambda>block. tiger_digest (0 # block)) (tree_blocks (take len string)))) \<and> length buffer' = 8192"
proof -
  have "tiger_tree_root (take len string) = tree_root (\<lambda>l r. tiger_digest (1 # l @ r))
       (map (\<lambda>block. tiger_digest (0 # block)) (tree_blocks (take len string)))"
    by (simp add: tiger_tree_root_def tree_node_def [abs_def] tree_leaf_def [abs_def])
  with tigertree_root [OF assms] show ?thesis by metis
qed

lemma tigertree_is_root_witness:
  "\<exists>buffer'. tigertree_unsafe_string (replicate 64 7) (replicate 8192 9) [1, 2, 3] 2 =
     Some (buffer', tree_root (\<lambda>l r. tiger_digest (1 # l @ r))
       (map (\<lambda>block. tiger_digest (0 # block)) (tree_blocks [1, 2]))) \<and> length buffer' = 8192"
  using tigertree_is_root [of "replicate 64 7" "replicate 8192 9" 2 "[1, 2, 3]"] by simp

text \<open>\<open>tiger_block_size\<close> returns, without overflow, the least \<open>1024 * 2 ^ k\<close> that is at
  least the length, for lengths up to \<open>2 ^ 62\<close>.\<close>

theorem tiger_block_size_covers:
  assumes "n \<le> 2 ^ 62"
  shows "\<exists>k. tiger_block_size (of_nat n) = Some (of_nat (1024 * 2 ^ k)) \<and> k \<le> 52 \<and> n \<le> 1024 * 2 ^ k \<and>
    (\<forall>j < k. 1024 * 2 ^ j < n)"
proof -
  obtain K where K: "tiger_block_size (of_nat n) = Some (of_nat (1024 * 2 ^ K))" "K \<le> 52" "n \<le> 1024 * 2 ^ K"
    "K = 0 \<or> 1024 * 2 ^ (K - 1) < n" by (rule tiger_block_size_least [OF assms])
  have "1024 * 2 ^ j < n" if "j < K" for j
  proof -
    from that have "(2 :: nat) ^ j \<le> 2 ^ (K - 1)" by (intro power_increasing) simp_all
    moreover have "1024 * 2 ^ (K - 1) < n" using K(4) that by blast
    ultimately show ?thesis by (meson le_less_trans mult_le_mono2)
  qed
  with K show ?thesis by blast
qed

lemma tiger_block_size_covers_witness:
  "\<exists>k. tiger_block_size (of_nat 5000) = Some (of_nat (1024 * 2 ^ k)) \<and> 5000 \<le> 1024 * (2 :: nat) ^ k"
  using tiger_block_size_covers [of 5000] by (auto simp: le_less)

end
