(* ===== verification/UTF8.thy ===== *)
theory UTF8
  imports C_Prelude
begin

text \<open>
  The UTF-8 validator of \<^verbatim>\<open>src/src/utils/lib/charsetstubs.c\<close>: the macros
  \<open>UTF8_COMPUTE\<close>, \<open>UTF8_LENGTH\<close>, \<open>UTF8_GET\<close>, \<open>UNICODE_VALID\<close> and the loop of
  \<open>utf8_validate\<close> as called on an OCaml string (the length is given and no byte after it is
  looked at). Shown: it accepts exactly the strings that are the UTF-8 encoding of non-zero
  code points that \<open>UNICODE_VALID\<close> allows, and \<open>end\<close> is where the longest such prefix stops.
\<close>

section \<open>Model\<close>

text \<open>\<open>None\<close> is the length \<open>-1\<close>.\<close>

definition UTF8_COMPUTE :: "u8 \<Rightarrow> (u8 \<times> nat) option" where
  "UTF8_COMPUTE c =
     (if c < 128 then Some (0x7f, 1)
      else if c AND 0xe0 = 0xc0 then Some (0x1f, 2)
      else if c AND 0xf0 = 0xe0 then Some (0x0f, 3)
      else if c AND 0xf8 = 0xf0 then Some (0x07, 4)
      else if c AND 0xfc = 0xf8 then Some (0x03, 5)
      else if c AND 0xfe = 0xfc then Some (0x01, 6)
      else None)"

definition UTF8_LENGTH :: "u32 \<Rightarrow> nat" where
  "UTF8_LENGTH r =
     (if r < 0x80 then 1 else if r < 0x800 then 2 else if r < 0x10000 then 3
      else if r < 0x200000 then 4 else if r < 0x4000000 then 5 else 6)"

text \<open>The loop of \<open>UTF8_GET\<close> over the bytes after the first.\<close>

fun get_loop :: "u32 \<Rightarrow> u8 list \<Rightarrow> u32" where
  "get_loop result [] = result"
| "get_loop result (b # bs) =
     (if b AND 0xc0 \<noteq> 0x80 then - 1 else get_loop (push_bit 6 result OR ucast (b AND 0x3f)) bs)"

definition UTF8_GET :: "u8 list \<Rightarrow> u8 \<Rightarrow> nat \<Rightarrow> u32" where
  "UTF8_GET chars msk len = get_loop (ucast (chars ! 0 AND msk)) (slice chars 1 (len - 1))"

definition UNICODE_VALID :: "u32 \<Rightarrow> bool" where
  "UNICODE_VALID r \<longleftrightarrow> r < 0x110000 \<and> r AND 0xFFFFF800 \<noteq> 0xD800 \<and> (r < 0xFDD0 \<or> r > 0xFDEF) \<and> r AND 0xFFFE \<noteq> 0xFFFE"

text \<open>The body of the loop at \<open>p\<close>: how far to advance, \<open>None\<close> for a \<^verbatim>\<open>break\<close>.\<close>

definition validate_step :: "u8 list \<Rightarrow> nat \<Rightarrow> nat option" where
  "validate_step p remaining =
     (case UTF8_COMPUTE (p ! 0) of
        None \<Rightarrow> None
      | Some (msk, len) \<Rightarrow>
          (if remaining < len then None
           else
             (let result = UTF8_GET p msk len
              in if UTF8_LENGTH result \<noteq> len then None
                 else if result = - 1 then None
                 else if \<not> UNICODE_VALID result then None
                 else Some len)))"

lemma UTF8_COMPUTE_pos: "UTF8_COMPUTE c = Some (msk, len) \<Longrightarrow> 0 < len"
  by (auto simp: UTF8_COMPUTE_def split: if_splits)

lemma validate_step_pos: "validate_step p n = Some len \<Longrightarrow> 0 < len"
  by (auto simp: validate_step_def Let_def dest: UTF8_COMPUTE_pos split: option.splits if_splits)

function validate_loop :: "u8 list \<Rightarrow> nat \<Rightarrow> nat \<Rightarrow> nat" where
  "validate_loop str max_len p =
     (if p < max_len \<and> str ! p \<noteq> 0 then
        (case validate_step (drop p str) (max_len - p) of
           None \<Rightarrow> p
         | Some len \<Rightarrow> validate_loop str max_len (p + len))
      else p)"
  by pat_completeness auto
termination
  by (relation "measure (\<lambda>(str, max_len, p). max_len - p)") (auto dest: validate_step_pos)

declare validate_loop.simps [simp del]

text \<open>The result and \<open>*end\<close>.\<close>

definition utf8_validate :: "u8 list \<Rightarrow> nat \<Rightarrow> bool \<times> nat" where
  "utf8_validate str max_len = (let p = validate_loop str max_len 0 in (p = max_len, p))"

definition ml_utf8_validate :: "u8 list \<Rightarrow> bool" where
  "ml_utf8_validate s = fst (utf8_validate s (length s))"

section \<open>The encoding\<close>

definition utf8_bytes :: "nat \<Rightarrow> u8 list" where
  "utf8_bytes n =
     (if n < 0x80 then [of_nat n]
      else if n < 0x800 then [of_nat (0xC0 + n div 64), of_nat (0x80 + n mod 64)]
      else if n < 0x10000 then [of_nat (0xE0 + n div 4096), of_nat (0x80 + n div 64 mod 64), of_nat (0x80 + n mod 64)]
      else [of_nat (0xF0 + n div 262144), of_nat (0x80 + n div 4096 mod 64), of_nat (0x80 + n div 64 mod 64),
            of_nat (0x80 + n mod 64)])"

section \<open>Bytes as numbers\<close>

lemma unat_u8_less: "unat (c :: u8) < 256"
  using unsigned_less [of c] by simp

lemma u8_all: "(\<forall>n \<in> set [0..<256]. P (of_nat n :: u8)) \<Longrightarrow> P c"
proof -
  assume "\<forall>n \<in> set [0..<256]. P (of_nat n :: u8)"
  moreover have "unat c \<in> set [0..<256]" using unat_u8_less [of c] by simp
  ultimately have "P (of_nat (unat c))" by (rule bspec)
  then show ?thesis by (simp only: of_nat_unat ucast_id)
qed

definition lead_len :: "nat \<Rightarrow> nat" where
  "lead_len n = (if n < 128 then 1 else if n < 192 then 0 else if n < 224 then 2 else if n < 240 then 3
     else if n < 248 then 4 else if n < 252 then 5 else if n < 254 then 6 else 0)"

definition lead_bits :: "nat \<Rightarrow> nat" where
  "lead_bits n = (if n < 128 then n else if n < 224 then n - 192 else if n < 240 then n - 224
     else if n < 248 then n - 240 else if n < 252 then n - 248 else n - 252)"

lemma compute_table:
  "\<forall>n \<in> set [0..<256]. (case UTF8_COMPUTE (of_nat n) of None \<Rightarrow> lead_len n = 0
     | Some (msk, len) \<Rightarrow> len = lead_len n \<and> unat (of_nat n AND msk) = lead_bits n)"
  by code_simp

lemma cont_table: "\<forall>n \<in> set [0..<256]. ((of_nat n :: u8) AND 0xc0 = 0x80) = (128 \<le> n \<and> n < 192)"
  by code_simp

lemma compute_lead:
  "case UTF8_COMPUTE c of None \<Rightarrow> lead_len (unat c) = 0
     | Some (msk, len) \<Rightarrow> len = lead_len (unat c) \<and> unat (c AND msk) = lead_bits (unat c)"
proof -
  have "unat c \<in> set [0..<256]" using unat_u8_less [of c] by simp
  from bspec [OF compute_table this] show ?thesis by (simp only: of_nat_unat ucast_id)
qed

lemma cont_byte: "(c AND 0xc0 = 0x80) = (128 \<le> unat c \<and> unat c < 192)" for c :: u8
proof -
  have "unat c \<in> set [0..<256]" using unat_u8_less [of c] by simp
  from bspec [OF cont_table this] show ?thesis by (simp only: of_nat_unat ucast_id)
qed

text \<open>Continuation bytes add six bits each; any other byte makes the result \<open>-1\<close>.\<close>

lemma low6: "unat (b AND 0x3f) = unat b mod 64" for b :: u8
proof -
  have "b AND 0x3f = take_bit 6 b" by (simp add: take_bit_eq_mask mask_eq_exp_minus_1)
  then show ?thesis by (simp only: unsigned_take_bit_eq) (simp add: take_bit_eq_mod)
qed

lemma get_step:
  fixes r :: u32 and b :: u8
  assumes "unat r < 2 ^ 26"
  shows "unat (push_bit 6 r OR ucast (b AND 0x3f)) = unat r * 64 + unat b mod 64"
proof -
  have e: "b AND 0x3f = take_bit 6 b" by (simp add: take_bit_eq_mask mask_eq_exp_minus_1)
  have "push_bit 6 r AND ucast (b AND 0x3f) = (0 :: u32)"
    unfolding e by (rule bit_word_eqI) (auto simp: bit_simps)
  then have "push_bit 6 r OR ucast (b AND 0x3f) = push_bit 6 r + ucast (b AND 0x3f)"
    by (rule disjunctive_add_eq_or [symmetric])
  moreover have "unat (push_bit 6 r) = unat r * 64"
    using assms by (simp add: push_bit_eq_mult unat_word_ariths)
  moreover have "unat (ucast (b AND 0x3f) :: u32) = unat b mod 64"
    by (simp only: unsigned_ucast_eq low6) (simp add: take_bit_eq_mod)
  moreover have "unat b mod 64 < 64" by simp
  then have "unat r * 64 + unat b mod 64 < 2 ^ 32" using assms by simp
  ultimately show ?thesis by (simp add: unat_word_ariths)
qed

definition is_cont :: "u8 \<Rightarrow> bool" where
  "is_cont b \<longleftrightarrow> 128 \<le> unat b \<and> unat b < 192"

lemma get_loop_bad: "\<not> list_all is_cont bs \<Longrightarrow> get_loop r bs = - 1"
  by (induction bs arbitrary: r) (auto simp: cont_byte is_cont_def)

definition cont_value :: "nat \<Rightarrow> u8 list \<Rightarrow> nat" where
  "cont_value = foldl (\<lambda>r b. r * 64 + (unat b - 128))"

lemma get_loop_value:
  "list_all is_cont bs \<Longrightarrow> unat r < 2 ^ k \<Longrightarrow> k + 6 * length bs \<le> 32 \<Longrightarrow>
   unat (get_loop r bs) = cont_value (unat r) bs"
proof (induction bs arbitrary: r k)
  case (Cons b bs)
  then have b: "128 \<le> unat b" "unat b < 192" by (simp_all add: is_cont_def)
  then have m: "unat b mod 64 = unat b - 128"
    by (auto simp: mod_if)
  have "k \<le> 26" using Cons.prems(3) by simp
  then have "(2 :: nat) ^ k \<le> 2 ^ 26" by (rule power_increasing) simp
  then have r: "unat r < 2 ^ 26" using Cons.prems(2) by linarith
  let ?r = "push_bit 6 r OR ucast (b AND 0x3f) :: u32"
  have v: "unat ?r = unat r * 64 + (unat b - 128)" using get_step [OF r, of b] m by simp
  have "unat r + 1 \<le> 2 ^ k" using Cons.prems(2) by simp
  then have "(unat r + 1) * 64 \<le> 2 ^ (k + 6)" by (simp add: power_add)
  moreover have "unat b - 128 < 64" using b by simp
  ultimately have "unat ?r < 2 ^ (k + 6)" unfolding v by (simp only: distrib_right)
  with Cons.IH [of ?r "k + 6"] Cons.prems b v show ?case
    by (simp add: cont_byte cont_value_def)
qed (simp add: cont_value_def)

section \<open>A step is one encoded code point\<close>

lemma unat_UTF8_LENGTH:
  "UTF8_LENGTH r = (if unat r < 0x80 then 1 else if unat r < 0x800 then 2 else if unat r < 0x10000 then 3
     else if unat r < 0x200000 then 4 else if unat r < 0x4000000 then 5 else 6)"
  by (simp add: UTF8_LENGTH_def word_less_nat_alt)

definition code_ok :: "nat \<Rightarrow> bool" where
  "code_ok n \<longleftrightarrow> n < 0x110000 \<and> UNICODE_VALID (of_nat n)"

lemma code_ok_unat: "code_ok (unat r) \<longleftrightarrow> UNICODE_VALID r"
  by (auto simp: code_ok_def UNICODE_VALID_def word_less_nat_alt of_nat_unat)

lemma code_ok_length: "code_ok n \<Longrightarrow> UTF8_LENGTH (of_nat n) \<le> 4"
  by (auto simp: code_ok_def UNICODE_VALID_def UTF8_LENGTH_def word_less_nat_alt)

text \<open>What the lead byte and the continuation bytes must be for a step to be taken.\<close>

definition step_value :: "u8 list \<Rightarrow> nat \<Rightarrow> nat" where
  "step_value p len = cont_value (lead_bits (unat (p ! 0))) (slice p 1 (len - 1))"

definition step_ok :: "u8 list \<Rightarrow> nat \<Rightarrow> bool" where
  "step_ok p len \<longleftrightarrow> len = lead_len (unat (p ! 0)) \<and> 0 < len \<and> len \<le> length p \<and>
     list_all is_cont (slice p 1 (len - 1)) \<and> code_ok (step_value p len) \<and> UTF8_LENGTH (of_nat (step_value p len)) = len"

lemma get_value:
  assumes "unat (p ! 0 AND msk) = lead_bits (unat (p ! 0))" and "list_all is_cont (slice p 1 (len - 1))" and "len \<le> 4"
  shows "unat (UTF8_GET p msk len) = step_value p len"
proof -
  let ?r = "ucast (p ! 0 AND msk) :: u32"
  have b: "lead_bits (unat (p ! 0)) < 128"
    using unat_u8_less [of "p ! 0"] by (auto simp: lead_bits_def)
  have r: "unat ?r = lead_bits (unat (p ! 0))"
    using b by (simp add: unsigned_ucast_eq assms(1) take_bit_nat_eq_self)
  have "length (slice p 1 (len - 1)) \<le> 3" using assms(3) by (simp add: slice_def)
  with get_loop_value [OF assms(2), of ?r 7] b r show ?thesis
    by (simp add: UTF8_GET_def step_value_def)
qed

lemma validate_step_ok: "validate_step p (length p) = Some len \<longleftrightarrow> step_ok p len"
proof (cases "UTF8_COMPUTE (p ! 0)")
  case None
  with compute_lead [of "p ! 0"] have "lead_len (unat (p ! 0)) = 0" by simp
  with None show ?thesis by (auto simp: validate_step_def step_ok_def)
next
  case (Some ml)
  obtain msk l where ml: "ml = (msk, l)" by (cases ml)
  have l: "l = lead_len (unat (p ! 0))" "unat (p ! 0 AND msk) = lead_bits (unat (p ! 0))"
    using compute_lead [of "p ! 0"] Some ml by simp_all
  have pos: "0 < l" using UTF8_COMPUTE_pos [of "p ! 0"] Some ml by simp
  have step: "validate_step p (length p) = Some len \<longleftrightarrow>
      len = l \<and> l \<le> length p \<and> UTF8_LENGTH (UTF8_GET p msk l) = l \<and> UTF8_GET p msk l \<noteq> - 1 \<and>
      UNICODE_VALID (UTF8_GET p msk l)"
    by (auto simp: validate_step_def Some ml Let_def)
  show ?thesis
  proof (cases "list_all is_cont (slice p 1 (l - 1)) \<and> l \<le> 4")
    case True
    then have v: "unat (UTF8_GET p msk l) = step_value p l" using get_value [OF l(2)] by blast
    then have "code_ok (step_value p l) \<longleftrightarrow> UNICODE_VALID (UTF8_GET p msk l)"
      by (metis code_ok_unat)
    moreover have "of_nat (step_value p l) = UTF8_GET p msk l" by (simp add: v [symmetric] of_nat_unat)
    moreover have "UNICODE_VALID r \<Longrightarrow> r \<noteq> - 1" for r by (auto simp: UNICODE_VALID_def)
    ultimately show ?thesis unfolding step step_ok_def using True pos l(1) by auto
  next
    case False
    have "\<not> step_ok p len" using False l(1) code_ok_length [of "step_value p len"] by (auto simp: step_ok_def)
    moreover have "UTF8_LENGTH (UTF8_GET p msk l) \<noteq> l \<or> UTF8_GET p msk l = - 1 \<or> \<not> UNICODE_VALID (UTF8_GET p msk l)"
    proof (cases "l \<le> 4")
      case True
      with False show ?thesis by (auto simp: UTF8_GET_def dest: get_loop_bad)
    next
      case False
      then show ?thesis
        using code_ok_length [of "unat (UTF8_GET p msk l)"] code_ok_unat [of "UTF8_GET p msk l"] by (auto simp: of_nat_unat)
    qed
    ultimately show ?thesis unfolding step by blast
  qed
qed

lemma unat_byte_of: "n < 256 \<Longrightarrow> unat (of_nat n :: u8) = n"
  by (simp add: unat_of_nat)

lemma byte_eq: "unat (b :: u8) = n \<Longrightarrow> of_nat n = b"
  by (auto simp: of_nat_unat)

lemma code_small: "code_ok n \<Longrightarrow> unat (of_nat n :: u32) = n \<and> n < 0x110000"
  by (simp add: code_ok_def unat_of_nat)

lemma UTF8_LENGTH_code:
  "code_ok n \<Longrightarrow> UTF8_LENGTH (of_nat n) = (if n < 0x80 then 1 else if n < 0x800 then 2 else if n < 0x10000 then 3 else 4)"
  using code_small [of n] by (simp add: unat_UTF8_LENGTH)

lemma slice_cons: "slice (x # xs) 1 n = take n xs"
  by (simp add: slice_def)

lemma divmod64:
  fixes q r :: nat
  assumes "r < 64" shows "(q * 64 + r) div 64 = q" and "(q * 64 + r) mod 64 = r"
  using assms by simp_all

lemma step_encode:
  assumes "step_ok p len"
  shows "utf8_bytes (step_value p len) = take len p" and "len = length (utf8_bytes (step_value p len))"
proof -
  let ?n = "step_value p len"
  from assms have ok: "len = lead_len (unat (p ! 0))" "0 < len" "len \<le> length p" "list_all is_cont (slice p 1 (len - 1))"
    "code_ok ?n" "UTF8_LENGTH (of_nat ?n) = len" unfolding step_ok_def by blast+
  note len = ok(6) [unfolded UTF8_LENGTH_code [OF ok(5)]]
  from ok(2,3) obtain b0 p1 where p: "p = b0 # p1" by (cases p) auto
  have lead: "len = lead_len (unat b0)" using ok(1) by (simp add: p)
  have "utf8_bytes ?n = take len p"
  proof -
    consider "len = 1" | "len = 2" | "len = 3" | "len = 4" using len by (auto split: if_splits)
    then show ?thesis
    proof cases
      case 1
      have "1 = lead_len (unat b0)" using lead by (simp only: 1)
      then have "unat b0 < 128" by (auto simp: lead_len_def split: if_splits)
      then have "?n = unat b0"
        by (simp add: 1 step_value_def p slice_def cont_value_def lead_bits_def)
      moreover have "(if ?n < 0x80 then 1 else if ?n < 0x800 then 2 else if ?n < 0x10000 then 3 else 4) = (1 :: nat)"
        using len 1 by (rule trans)
      then have "?n < 0x80" by (rule contrapos_pp) simp
      ultimately show ?thesis by (simp add: utf8_bytes_def 1 p of_nat_unat)
    next
      case 2
      then obtain b1 p2 where p1: "p1 = b1 # p2" using ok(3) by (cases p1) (auto simp: p)
      have b: "192 \<le> unat b0" "unat b0 < 224" "128 \<le> unat b1" "unat b1 < 192"
        using lead 2 ok(4) by (auto simp: lead_len_def p p1 slice_def is_cont_def split: if_splits)
      have n: "?n = (unat b0 - 192) * 64 + (unat b1 - 128)"
        using b 2 by (simp add: step_value_def p p1 slice_def cont_value_def lead_bits_def)
      have "unat b1 - 128 < 64" using b by simp
      then have d: "?n mod 64 = unat b1 - 128" "?n div 64 = unat b0 - 192"
        unfolding n by (simp_all only: divmod64)
      have "\<not> ?n < 0x80" "?n < 0x800" using len 2 by (simp_all split: if_splits)
      then show ?thesis using b by (simp add: utf8_bytes_def d del: of_nat_add) (simp add: 2 p p1 byte_eq del: of_nat_add)
    next
      case 3
      then obtain b1 b2 p2 where p1: "p1 = b1 # b2 # p2" using ok(3) by (cases p1; cases "tl p1") (auto simp: p)
      have b: "224 \<le> unat b0" "unat b0 < 240" "128 \<le> unat b1" "unat b1 < 192" "128 \<le> unat b2" "unat b2 < 192"
        using lead 3 ok(4) by (auto simp: lead_len_def p p1 slice_def is_cont_def split: if_splits)
      have n: "?n = ((unat b0 - 224) * 64 + (unat b1 - 128)) * 64 + (unat b2 - 128)"
        using b 3 by (simp add: step_value_def p p1 slice_def cont_value_def lead_bits_def)
      have lt: "unat b1 - 128 < 64" "unat b2 - 128 < 64" using b by simp_all
      have h: "?n div 4096 = ?n div 64 div 64" by (simp add: div_mult2_eq [symmetric])
      have d: "?n mod 64 = unat b2 - 128" "?n div 64 mod 64 = unat b1 - 128" "?n div 4096 = unat b0 - 224"
        unfolding h by (simp_all only: n divmod64 lt)
      have "\<not> ?n < 0x800" "?n < 0x10000" using len 3 by (simp_all split: if_splits)
      then show ?thesis using b by (simp add: utf8_bytes_def d del: of_nat_add) (simp add: 3 p p1 byte_eq del: of_nat_add)
    next
      case 4
      then obtain b1 b2 b3 p2 where p1: "p1 = b1 # b2 # b3 # p2"
        using ok(3) by (cases p1; cases "tl p1"; cases "tl (tl p1)") (auto simp: p)
      have b: "240 \<le> unat b0" "unat b0 < 248" "128 \<le> unat b1" "unat b1 < 192" "128 \<le> unat b2" "unat b2 < 192"
        "128 \<le> unat b3" "unat b3 < 192"
        using lead 4 ok(4) by (auto simp: lead_len_def p p1 slice_def is_cont_def split: if_splits)
      have n: "?n = (((unat b0 - 240) * 64 + (unat b1 - 128)) * 64 + (unat b2 - 128)) * 64 + (unat b3 - 128)"
        using b 4 by (simp add: step_value_def p p1 slice_def cont_value_def lead_bits_def)
      have lt: "unat b1 - 128 < 64" "unat b2 - 128 < 64" "unat b3 - 128 < 64" using b by simp_all
      have h: "?n div 4096 = ?n div 64 div 64" "?n div 262144 = ?n div 64 div 64 div 64"
        by (simp_all add: div_mult2_eq [symmetric])
      have d: "?n mod 64 = unat b3 - 128" "?n div 64 mod 64 = unat b2 - 128" "?n div 4096 mod 64 = unat b1 - 128"
          "?n div 262144 = unat b0 - 240"
        unfolding h by (simp_all only: n divmod64 lt)
      have "\<not> ?n < 0x10000" using len 4 by (simp_all split: if_splits)
      then show ?thesis using b by (simp add: utf8_bytes_def d del: of_nat_add) (simp add: 4 p p1 byte_eq del: of_nat_add)
    qed
  qed
  then show "utf8_bytes ?n = take len p" and "len = length (utf8_bytes ?n)" using ok(3) by simp_all
qed

lemma step_decode:
  assumes "code_ok n"
  shows "step_ok (utf8_bytes n @ rest) (length (utf8_bytes n))"
proof -
  have n: "n < 0x110000" using code_small [OF assms] by simp
  have m64: "k mod 64 < 64" "128 + k mod 64 < 256" for k :: nat by simp_all
  note len = UTF8_LENGTH_code [OF assms]
  consider "n < 0x80" | "0x80 \<le> n" "n < 0x800" | "0x800 \<le> n" "n < 0x10000" | "0x10000 \<le> n"
    by linarith
  then show ?thesis
  proof cases
    case 1
    then have v: "step_value (utf8_bytes n @ rest) 1 = n"
      by (simp add: step_value_def slice_def cont_value_def utf8_bytes_def unat_byte_of lead_bits_def)
    have l: "length (utf8_bytes n) = 1" using 1 by (simp add: utf8_bytes_def)
    show ?thesis
      unfolding l step_ok_def v using 1 assms len
      by (simp add: utf8_bytes_def unat_byte_of lead_len_def slice_def)
  next
    case 2
    then have d: "n div 64 < 32" by simp
    have v: "step_value (utf8_bytes n @ rest) 2 = n"
      using 2 d by (simp add: step_value_def slice_def cont_value_def utf8_bytes_def unat_byte_of lead_bits_def m64 del: of_nat_add)
    have l: "length (utf8_bytes n) = 2" using 2 by (simp add: utf8_bytes_def)
    show ?thesis
      unfolding l step_ok_def v using 2 d assms len
      by (simp add: utf8_bytes_def unat_byte_of lead_len_def slice_def is_cont_def m64 del: of_nat_add)
  next
    case 3
    then have d: "n div 4096 < 16" by simp
    have "n div 4096 = n div 64 div 64" by (simp add: div_mult2_eq [symmetric])
    then have v: "step_value (utf8_bytes n @ rest) 3 = n"
      using 3 d by (simp add: step_value_def slice_def cont_value_def utf8_bytes_def unat_byte_of lead_bits_def m64 del: of_nat_add)
    have l: "length (utf8_bytes n) = 3" using 3 by (simp add: utf8_bytes_def)
    show ?thesis
      unfolding l step_ok_def v using 3 d assms len
      by (simp add: utf8_bytes_def unat_byte_of lead_len_def slice_def is_cont_def m64 del: of_nat_add)
  next
    case 4
    have d: "n div 262144 < 8" using n by simp
    have "n div 4096 = n div 64 div 64" "n div 262144 = n div 64 div 64 div 64"
      by (simp_all add: div_mult2_eq [symmetric])
    then have v: "step_value (utf8_bytes n @ rest) 4 = n"
      using 4 d by (simp add: step_value_def slice_def cont_value_def utf8_bytes_def unat_byte_of lead_bits_def m64 del: of_nat_add)
    have l: "length (utf8_bytes n) = 4" using 4 by (simp add: utf8_bytes_def)
    show ?thesis
      unfolding l step_ok_def v using 4 d assms len
      by (simp add: utf8_bytes_def unat_byte_of lead_len_def slice_def is_cont_def m64 del: of_nat_add)
  qed
qed

section \<open>The whole string\<close>

lemma utf8_bytes_nonempty: "utf8_bytes n \<noteq> []"
  by (simp add: utf8_bytes_def)

lemma utf8_bytes_hd: "code_ok n \<Longrightarrow> utf8_bytes n ! 0 = 0 \<longleftrightarrow> n = 0"
proof -
  assume "code_ok n"
  then have "n < 0x110000" by (simp add: code_ok_def)
  then have "unat (utf8_bytes n ! 0) = 0 \<longleftrightarrow> n = 0"
    by (auto simp: utf8_bytes_def unat_byte_of simp del: of_nat_add)
  then show ?thesis by (simp add: unat_eq_zero)
qed

definition codes_ok :: "nat list \<Rightarrow> bool" where
  "codes_ok cs \<longleftrightarrow> (\<forall>c \<in> set cs. 0 < c \<and> code_ok c)"

definition utf8_encode :: "nat list \<Rightarrow> u8 list" where
  "utf8_encode cs = concat (map utf8_bytes cs)"

lemma validate_loop_accepts:
  "codes_ok cs \<Longrightarrow> drop p str = utf8_encode cs \<Longrightarrow> p \<le> length str \<Longrightarrow> validate_loop str (length str) p = length str"
proof (induction cs arbitrary: p)
  case Nil
  then show ?case by (subst validate_loop.simps) (simp add: utf8_encode_def)
next
  case (Cons c cs)
  then have c: "0 < c" "code_ok c" "codes_ok cs" by (simp_all add: codes_ok_def)
  have d: "drop p str = utf8_bytes c @ utf8_encode cs" using Cons.prems(2) by (simp add: utf8_encode_def)
  then have lt: "p < length str" by (metis append_is_Nil_conv drop_eq_Nil leI utf8_bytes_nonempty)
  have "str ! p = utf8_bytes c ! 0"
    using lt d utf8_bytes_nonempty [of c] by (metis add_0_right length_greater_0_conv nth_append nth_drop less_imp_le)
  then have "str ! p \<noteq> 0" using utf8_bytes_hd [OF c(2)] c(1) by simp
  moreover have "validate_step (drop p str) (length str - p) = Some (length (utf8_bytes c))"
    using validate_step_ok [of "drop p str" "length (utf8_bytes c)"]
      step_decode [OF c(2), of "utf8_encode cs", folded d] by simp
  moreover have "drop (p + length (utf8_bytes c)) str = utf8_encode cs"
    using arg_cong [OF d, of "drop (length (utf8_bytes c))"] by (simp add: add.commute)
  moreover have "p + length (utf8_bytes c) \<le> length str"
    using arg_cong [OF d, of length] lt by simp
  ultimately show ?case
    using Cons.IH [OF c(3), of "p + length (utf8_bytes c)"] lt by (subst validate_loop.simps) simp
qed

text \<open>Where the loop stops: the bytes up to there encode code points, and no further one follows.\<close>

lemma validate_loop_prefix:
  "p \<le> length str \<Longrightarrow> validate_loop str (length str) p = e \<Longrightarrow>
   p \<le> e \<and> e \<le> length str \<and> (\<exists>cs. codes_ok cs \<and> take (e - p) (drop p str) = utf8_encode cs) \<and>
   (\<nexists>c rest. 0 < c \<and> code_ok c \<and> drop e str = utf8_bytes c @ rest)"
proof (induction "length str - p" arbitrary: p rule: less_induct)
  case less
  show ?case
  proof (cases "p < length str \<and> str ! p \<noteq> 0")
    case False
    have "drop p str \<noteq> utf8_bytes c @ rest" if "0 < c" "code_ok c" for c rest
    proof
      assume d: "drop p str = utf8_bytes c @ rest"
      then have lt: "p < length str" by (metis append_is_Nil_conv drop_eq_Nil leI utf8_bytes_nonempty)
      have "str ! p = utf8_bytes c ! 0"
        using lt d utf8_bytes_nonempty [of c] by (metis add_0_right length_greater_0_conv nth_append nth_drop less_imp_le)
      with False lt utf8_bytes_hd [of c] that show False by simp
    qed
    moreover have "e = p" using less.prems(2) False by (subst (asm) validate_loop.simps) (simp only: if_False)
    ultimately show ?thesis using less.prems(1) by (auto simp: codes_ok_def utf8_encode_def intro!: exI [of _ "[]"])
  next
    case True
    have sok: "validate_step (drop p str) (length str - p) = Some len \<longleftrightarrow> step_ok (drop p str) len" for len
      using validate_step_ok [of "drop p str" len] by simp
    show ?thesis
    proof (cases "validate_step (drop p str) (length str - p)")
      case None
      have "drop p str \<noteq> utf8_bytes c @ rest" if "code_ok c" for c rest
        using step_decode [OF that, of rest] sok None by auto
      moreover have "e = p" using less.prems(2) True None by (subst (asm) validate_loop.simps) simp
      ultimately show ?thesis using less.prems(1) by (auto simp: codes_ok_def utf8_encode_def intro!: exI [of _ "[]"])
    next
      case (Some len)
      let ?n = "step_value (drop p str) len"
      have ok: "step_ok (drop p str) len" using sok Some by blast
      then have l: "0 < len" "len \<le> length str - p" "code_ok ?n" unfolding step_ok_def by auto
      have e: "validate_loop str (length str) (p + len) = e"
        using less.prems(2) True Some by (subst (asm) validate_loop.simps) simp
      have m: "length str - (p + len) < length str - p" "p + len \<le> length str" using l True by linarith+
      from less.hyps [OF m e] obtain cs where ih: "p + len \<le> e" "e \<le> length str" "codes_ok cs"
        "take (e - (p + len)) (drop (p + len) str) = utf8_encode cs"
        "\<nexists>c rest. 0 < c \<and> code_ok c \<and> drop e str = utf8_bytes c @ rest" by blast
      have enc: "utf8_bytes ?n = take len (drop p str)" using step_encode [OF ok] by blast
      have "utf8_bytes ?n ! 0 = str ! p" using l True by (simp add: enc)
      then have "0 < ?n" using utf8_bytes_hd [OF l(3)] True by auto
      then have "codes_ok (?n # cs)" using ih(3) l(3) by (simp add: codes_ok_def)
      moreover have "take (e - p) (drop p str) = utf8_encode (?n # cs)"
      proof -
        have "e - p = len + (e - (p + len))" using ih(1) by simp
        then have "take (e - p) (drop p str) = take len (drop p str) @ take (e - (p + len)) (drop (p + len) str)"
          by (simp only: take_add drop_drop) (simp only: add.commute)
        then show ?thesis by (simp add: ih(4) enc utf8_encode_def)
      qed
      ultimately show ?thesis using ih by auto
    qed
  qed
qed

lemma validate_iff_encoded: "ml_utf8_validate s \<longleftrightarrow> (\<exists>cs. codes_ok cs \<and> s = utf8_encode cs)"
proof
  assume "ml_utf8_validate s"
  then have "validate_loop s (length s) 0 = length s"
    by (simp add: ml_utf8_validate_def utf8_validate_def Let_def)
  from validate_loop_prefix [OF _ this] show "\<exists>cs. codes_ok cs \<and> s = utf8_encode cs" by auto
next
  assume "\<exists>cs. codes_ok cs \<and> s = utf8_encode cs"
  then show "ml_utf8_validate s"
    using validate_loop_accepts [of _ 0 s] by (auto simp: ml_utf8_validate_def utf8_validate_def Let_def)
qed

section \<open>Properties\<close>

text \<open>C7: The validator accepts a string exactly when it is the UTF-8 encoding of a sequence of
  code points, none of them 0 and all of them valid: no overlong form, no surrogate, nothing
  above \<open>0x10FFFF\<close>, no truncated sequence and no NUL byte passes.\<close>

theorem utf8_validate_iff:
  "ml_utf8_validate s = (\<exists>cs. s = concat (map utf8_bytes cs) \<and>
     list_all (\<lambda>c. 0 < c \<and> c < 0x110000 \<and> UNICODE_VALID (of_nat c)) cs)"
  unfolding validate_iff_encoded codes_ok_def utf8_encode_def code_ok_def list_all_iff by blast

text \<open>Whatever the string, the loop ends; \<open>*end\<close> lies in the string, what precedes it is
  valid, and no valid code point is encoded there; the string is accepted iff \<open>*end\<close> is its
  end.\<close>

theorem utf8_end_maximal:
  assumes "utf8_validate s (length s) = (ok, e)"
  shows "e \<le> length s \<and> ml_utf8_validate (take e s) \<and> (ok \<longleftrightarrow> e = length s) \<and>
    (\<nexists>c rest. 0 < c \<and> c < 0x110000 \<and> UNICODE_VALID (of_nat c) \<and> drop e s = utf8_bytes c @ rest)"
proof -
  have e: "validate_loop s (length s) 0 = e" and ok: "ok \<longleftrightarrow> e = length s"
    using assms by (auto simp: utf8_validate_def Let_def)
  from validate_loop_prefix [OF _ e] have "e \<le> length s" "ml_utf8_validate (take e s)"
    "\<nexists>c rest. 0 < c \<and> code_ok c \<and> drop e s = utf8_bytes c @ rest"
    by (auto simp: validate_iff_encoded)
  with ok show ?thesis by (auto simp: code_ok_def)
qed

lemma utf8_end_maximal_witness:
  "utf8_validate [0x61, 0xC3, 0xA9, 0xC0, 0x80] 5 = (False, 3) \<and> ml_utf8_validate (take 3 [0x61, 0xC3, 0xA9, 0xC0, 0x80])"
proof -
  have v: "utf8_validate [0x61, 0xC3, 0xA9, 0xC0, 0x80] 5 = (False, 3)" by code_simp
  moreover have "ml_utf8_validate (take 3 [0x61, 0xC3, 0xA9, 0xC0, 0x80])"
    by (rule utf8_end_maximal [THEN conjunct2, THEN conjunct1, of _ False]) (use v in \<open>simp add: numeral_eq_Suc\<close>)
  ultimately show ?thesis ..
qed

end
