(* ===== verification/OS_File.thy ===== *)
theory OS_File
  imports C_Prelude
begin

text \<open>
  Files as the C code sees them through \<^verbatim>\<open>src/src/config/unix/os_stubs_c.c\<close>: a descriptor
  is the bytes of the file, the position, and what the kernel will answer to the coming reads.
  \<open>os_lseek\<close>, \<open>os_read\<close>, \<open>os_getfdsize\<close> and \<open>os_ftruncate\<close> are the functions of that
  file over \<^verbatim>\<open>lseek\<close>, \<^verbatim>\<open>read\<close>, \<^verbatim>\<open>write\<close>, \<^verbatim>\<open>ftruncate\<close> and
  \<^verbatim>\<open>posix_fallocate\<close>, whose documented behaviour on a regular file is written out here.
  Shown: what a read that does not fail delivers, and what \<open>os_ftruncate\<close> leaves on each of
  its paths, the failing ones included: the requested size, the common part kept and the rest
  zeros, or an error, or, when the write it does not check fails, neither.
\<close>

section \<open>Model\<close>

text \<open>\<open>f_answers\<close>: at most how many bytes each of the next reads delivers, where 0 stands for
  the error return; a read after the last of them delivers all that is asked for and there.\<close>

record os_file =
  f_bytes :: "u8 list"
  f_pos :: nat
  f_answers :: "nat list"

datatype os_error = Unix_error

definition os_lseek :: "os_file \<Rightarrow> nat \<Rightarrow> os_file" where
  "os_lseek fd pos = fd\<lparr>f_pos := pos\<rparr>"

text \<open>\<^verbatim>\<open>read\<close>: \<open>None\<close> is the result \<open>-1\<close>, the empty list is 0.\<close>

definition sys_read :: "os_file \<Rightarrow> nat \<Rightarrow> u8 list option \<times> os_file" where
  "sys_read fd len =
     (case f_answers fd of
        [] \<Rightarrow> (let d = slice (f_bytes fd) (f_pos fd) len in (Some d, fd\<lparr>f_pos := f_pos fd + length d\<rparr>))
      | 0 # ks \<Rightarrow> (None, fd\<lparr>f_answers := ks\<rparr>)
      | k # ks \<Rightarrow> (let d = slice (f_bytes fd) (f_pos fd) (min k len)
                 in (Some d, fd\<lparr>f_pos := f_pos fd + length d, f_answers := ks\<rparr>)))"

text \<open>\<open>os_read\<close> raises on an error, and so returns only the bytes read.\<close>

definition os_read :: "os_file \<Rightarrow> nat \<Rightarrow> os_error + u8 list \<times> os_file" where
  "os_read fd len =
     (case sys_read fd len of
        (None, fd) \<Rightarrow> Inl Unix_error
      | (Some d, fd) \<Rightarrow> Inr (d, fd))"

definition os_getfdsize :: "os_file \<Rightarrow> nat" where
  "os_getfdsize fd = length (f_bytes fd)"

text \<open>Writing beyond the end leaves a gap of zeros; so do \<^verbatim>\<open>ftruncate\<close> and
  \<^verbatim>\<open>posix_fallocate\<close>. A write that fails writes nothing.\<close>

definition sys_write :: "bool \<Rightarrow> os_file \<Rightarrow> u8 list \<Rightarrow> os_file" where
  "sys_write answer fd d =
     (let bytes = f_bytes fd @ replicate (f_pos fd - length (f_bytes fd)) 0
      in if answer then fd\<lparr>f_bytes := blit bytes (f_pos fd) d, f_pos := f_pos fd + length d\<rparr> else fd)"

definition sys_ftruncate :: "os_file \<Rightarrow> nat \<Rightarrow> os_file" where
  "sys_ftruncate fd len = fd\<lparr>f_bytes := take len (f_bytes fd) @ replicate (len - length (f_bytes fd)) 0\<rparr>"

definition grow_to :: "nat \<Rightarrow> os_file \<Rightarrow> os_file" where
  "grow_to len fd = fd\<lparr>f_bytes := f_bytes fd @ replicate (len - length (f_bytes fd)) 0\<rparr>"

text \<open>\<^verbatim>\<open>posix_fallocate\<close>, with whether it succeeds: it refuses an empty or negative range, and
  fails where the file system has no room or no such operation, after allocating some bytes.\<close>

definition posix_fallocate :: "nat option \<Rightarrow> os_file \<Rightarrow> nat \<Rightarrow> int \<Rightarrow> bool \<times> os_file" where
  "posix_fallocate answer fd offset len =
     (if len \<le> 0 then (False, fd)
      else case answer of
        None \<Rightarrow> (True, grow_to (offset + nat len) fd)
      | Some k \<Rightarrow> (False, grow_to (min (offset + k) (offset + nat len)) fd))"

datatype size_error = File_is_closed | Size_unix_error

text \<open>What the kernel answers to the calls of \<open>os_ftruncate\<close>: whether they succeed, and for
  a failing \<^verbatim>\<open>posix_fallocate\<close>, the bytes allocated.\<close>

record size_answers =
  a_fstat :: bool
  a_fallocate :: "nat option"
  a_lseek :: bool
  a_write :: bool
  a_ftruncate :: bool

text \<open>\<open>have_fallocate\<close> is \<^verbatim>\<open>HAVE_POSIX_FALLOCATE\<close>; \<open>number\<close> is the descriptor's number,
  which the code takes for a closed file when it is 0. The result is the error raised, if any,
  and the file.\<close>

definition os_ftruncate :: "bool \<Rightarrow> size_answers \<Rightarrow> int \<Rightarrow> os_file \<Rightarrow> nat \<Rightarrow> bool \<Rightarrow> size_error option \<times> os_file" where
  "os_ftruncate have_fallocate a number fd len sparse =
     (if number = 0 then (Some File_is_closed, fd)
      else if \<not> a_fstat a then (Some Size_unix_error, fd)
      else
        let cursize = os_getfdsize fd;
            (allocated, fd) =
              (if have_fallocate \<and> \<not> sparse then posix_fallocate (a_fallocate a) fd cursize (int len - int cursize)
               else (False, fd))
        in if allocated then (None, fd)
           else if cursize < len then
             (if \<not> a_lseek a then (Some Size_unix_error, fd)
              else (None, sys_write (a_write a) (os_lseek fd (len - 1)) [0]))
           else if cursize \<noteq> len \<and> \<not> a_ftruncate a then (Some Size_unix_error, fd)
           else if cursize \<noteq> len then (None, sys_ftruncate fd len)
           else (None, fd))"

section \<open>Reading\<close>

text \<open>The bytes from the position on, and what a read does to them.\<close>

definition rest :: "os_file \<Rightarrow> u8 list" where
  "rest fd = drop (f_pos fd) (f_bytes fd)"

definition no_errors :: "os_file \<Rightarrow> bool" where
  "no_errors fd \<longleftrightarrow> 0 \<notin> set (f_answers fd)"

lemma os_read_take:
  assumes "os_read fd len = Inr (d, fd')" and "0 < len"
  obtains m where "0 < m" "m \<le> len" "d = take m (rest fd)" "f_pos fd' = f_pos fd + length d" "f_bytes fd' = f_bytes fd"
    "set (f_answers fd') \<subseteq> set (f_answers fd)"
proof (cases "f_answers fd")
  case Nil
  with assms show ?thesis
    by (intro that [of len]) (auto simp: os_read_def sys_read_def rest_def slice_def Let_def)
next
  case (Cons k ks)
  with assms have "0 < k" by (auto simp: os_read_def sys_read_def split: nat.splits)
  with assms Cons show ?thesis
    by (intro that [of "min k len"])
      (auto simp: os_read_def sys_read_def rest_def slice_def Let_def split: nat.splits)
qed

lemma os_read_Inr:
  assumes "os_read fd len = Inr (d, fd')" and "0 < len"
  shows "length d \<le> len" and "rest fd = d @ rest fd'" and "d = [] \<longleftrightarrow> rest fd = []"
    and "no_errors fd \<Longrightarrow> no_errors fd'"
proof -
  obtain m where m: "0 < m" "m \<le> len" "d = take m (rest fd)" "f_pos fd' = f_pos fd + length d"
    "f_bytes fd' = f_bytes fd" "set (f_answers fd') \<subseteq> set (f_answers fd)"
    by (rule os_read_take [OF assms])
  show "length d \<le> len" and "d = [] \<longleftrightarrow> rest fd = []" using m(1,2) by (auto simp: m(3))
  have "rest fd' = drop (length d) (rest fd)" by (simp add: rest_def m(4,5) add.commute)
  also have "\<dots> = drop m (rest fd)" by (simp add: m(3) min_def)
  finally show "rest fd = d @ rest fd'" by (simp add: m(3))
  show "no_errors fd \<Longrightarrow> no_errors fd'" using m(6) by (auto simp: no_errors_def)
qed

lemma os_read_no_error: "no_errors fd \<Longrightarrow> \<exists>d fd'. os_read fd len = Inr (d, fd')"
  by (auto simp: os_read_def sys_read_def no_errors_def Let_def split: list.splits nat.splits)

lemma rest_os_lseek [simp]: "rest (os_lseek fd pos) = drop pos (f_bytes fd)"
  by (simp add: rest_def os_lseek_def)

lemma no_errors_os_lseek [simp]: "no_errors (os_lseek fd pos) = no_errors fd"
  by (simp add: no_errors_def os_lseek_def)

section \<open>Properties\<close>

lemma write_last:
  assumes "f_bytes fd = old @ replicate k 0" and "k \<le> len - length old" and "length old < len"
  shows "f_bytes (sys_write True (os_lseek fd (len - 1)) [0]) = old @ replicate (len - length old) 0"
proof (cases "k = len - length old")
  case True
  with assms(3) have "k = Suc (k - 1)" by simp
  then obtain k' where k': "k = Suc k'" by blast
  with True assms(3) have "len - 1 = length old + k'" by simp
  note k' = k' this
  then show ?thesis
    using assms(1) True
    by (simp add: sys_write_def os_lseek_def Let_def blit_def replicate_append_same [symmetric])
next
  case False
  then have "len - length old = Suc (len - 1 - length old)" "replicate k 0 @ replicate (len - 1 - length old - k) 0 =
      replicate (len - 1 - length old) (0 :: u8)"
    using assms(2,3) by (simp_all add: replicate_add [symmetric])
  then show ?thesis
    using assms False
    by (simp add: sys_write_def os_lseek_def Let_def blit_def replicate_append_same [symmetric])
qed

definition resized :: "nat \<Rightarrow> u8 list \<Rightarrow> u8 list" where
  "resized len bytes = take len bytes @ replicate (len - length bytes) 0"

text \<open>The file after the attempt to allocate.\<close>

lemma fallocate_bytes:
  assumes "posix_fallocate answer fd (length (f_bytes fd)) (int len - int (length (f_bytes fd))) = (allocated, fd')"
  shows "\<exists>k. f_bytes fd' = f_bytes fd @ replicate k 0 \<and> k \<le> len - length (f_bytes fd)"
    and "allocated \<longleftrightarrow> length (f_bytes fd) < len \<and> answer = None"
    and "allocated \<Longrightarrow> f_bytes fd' = resized len (f_bytes fd)"
  using assms
  by (auto simp: posix_fallocate_def grow_to_def resized_def nat_diff_distrib split: if_splits option.splits)

text \<open>On an open file whose size can be had: the attempt to allocate, and what follows it.\<close>

lemma os_ftruncate_open:
  assumes "os_ftruncate have_fallocate a number fd len sparse = (e, fd')" and "number \<noteq> 0" and "a_fstat a"
  obtains allocated fd1 k where
    "allocated \<longleftrightarrow> have_fallocate \<and> \<not> sparse \<and> length (f_bytes fd) < len \<and> a_fallocate a = None"
    "allocated \<longrightarrow> f_bytes fd1 = resized len (f_bytes fd)"
    "f_bytes fd1 = f_bytes fd @ replicate k 0" "k \<le> len - length (f_bytes fd)"
    "(e, fd') = (if allocated then (None, fd1)
      else if length (f_bytes fd) < len then
        (if \<not> a_lseek a then (Some Size_unix_error, fd1) else (None, sys_write (a_write a) (os_lseek fd1 (len - 1)) [0]))
      else if length (f_bytes fd) \<noteq> len \<and> \<not> a_ftruncate a then (Some Size_unix_error, fd1)
      else if length (f_bytes fd) \<noteq> len then (None, sys_ftruncate fd1 len) else (None, fd1))"
proof -
  let ?old = "f_bytes fd"
  obtain allocated fd1 where f: "(if have_fallocate \<and> \<not> sparse
      then posix_fallocate (a_fallocate a) fd (length ?old) (int len - int (length ?old)) else (False, fd)) = (allocated, fd1)"
    by fastforce
  have "(allocated \<longleftrightarrow> have_fallocate \<and> \<not> sparse \<and> length ?old < len \<and> a_fallocate a = None) \<and>
    (allocated \<longrightarrow> f_bytes fd1 = resized len ?old) \<and> (\<exists>k. f_bytes fd1 = ?old @ replicate k 0 \<and> k \<le> len - length ?old)"
  proof (cases "have_fallocate \<and> \<not> sparse")
    case True
    with f have p: "posix_fallocate (a_fallocate a) fd (length ?old) (int len - int (length ?old)) = (allocated, fd1)" by simp
    from fallocate_bytes [OF p] True show ?thesis by blast
  next
    case False
    with f have "\<not> allocated" "fd1 = fd" by auto
    with False show ?thesis by (auto intro: exI [of _ 0])
  qed
  then have al: "allocated \<longleftrightarrow> have_fallocate \<and> \<not> sparse \<and> length ?old < len \<and> a_fallocate a = None"
    and ok: "allocated \<Longrightarrow> f_bytes fd1 = resized len ?old"
    and "\<exists>k. f_bytes fd1 = ?old @ replicate k 0 \<and> k \<le> len - length ?old" by blast+
  then obtain k where k: "f_bytes fd1 = ?old @ replicate k 0" "k \<le> len - length ?old" by blast
  have run: "(e, fd') = (if allocated then (None, fd1)
      else if length ?old < len then
        (if \<not> a_lseek a then (Some Size_unix_error, fd1) else (None, sys_write (a_write a) (os_lseek fd1 (len - 1)) [0]))
      else if length ?old \<noteq> len \<and> \<not> a_ftruncate a then (Some Size_unix_error, fd1)
      else if length ?old \<noteq> len then (None, sys_ftruncate fd1 len) else (None, fd1))"
  proof -
    from assms(2,3) have "os_ftruncate have_fallocate a number fd len sparse =
        (case (if have_fallocate \<and> \<not> sparse
            then posix_fallocate (a_fallocate a) fd (length ?old) (int len - int (length ?old)) else (False, fd)) of
          (allocated, fd1) \<Rightarrow> if allocated then (None, fd1)
      else if length ?old < len then
        (if \<not> a_lseek a then (Some Size_unix_error, fd1) else (None, sys_write (a_write a) (os_lseek fd1 (len - 1)) [0]))
      else if length ?old \<noteq> len \<and> \<not> a_ftruncate a then (Some Size_unix_error, fd1)
      else if length ?old \<noteq> len then (None, sys_ftruncate fd1 len) else (None, fd1))"
      by (simp only: os_ftruncate_def os_getfdsize_def Let_def if_False not_True_eq_False refl simp_thms if_cancel)
    then show ?thesis unfolding f assms(1) prod.case .
  qed
  from that [OF al _ k run] ok show thesis by blast
qed

text \<open>C35: What \<open>os_ftruncate\<close> does on each of its paths. It raises exactly when the
  descriptor is number 0, or the size cannot be had, or, the space not being allocated, the seek
  or the truncation fails. When it does not raise, and the one write it makes to grow a file
  succeeds, the file has the requested size, the old bytes as far as both go and zeros after
  them. When it raises or was to grow the file, the old bytes are all there, with perhaps some
  of the zeros after them.\<close>

theorem os_ftruncate_bytes:
  assumes "os_ftruncate have_fallocate a number fd len sparse = (e, fd')"
  shows "(e \<noteq> None \<longleftrightarrow> number = 0 \<or> \<not> a_fstat a \<or>
      \<not> (have_fallocate \<and> \<not> sparse \<and> length (f_bytes fd) < len \<and> a_fallocate a = None) \<and>
      (length (f_bytes fd) < len \<and> \<not> a_lseek a \<or> len < length (f_bytes fd) \<and> \<not> a_ftruncate a)) \<and>
    (e = None \<and> (a_write a \<or> len \<le> length (f_bytes fd)) \<longrightarrow>
      f_bytes fd' = take len (f_bytes fd) @ replicate (len - length (f_bytes fd)) 0) \<and>
    (e \<noteq> None \<or> length (f_bytes fd) < len \<longrightarrow>
      (\<exists>k. k \<le> len - length (f_bytes fd) \<and> f_bytes fd' = f_bytes fd @ replicate k 0))"
proof (cases "number = 0 \<or> \<not> a_fstat a")
  case True
  then have "os_ftruncate have_fallocate a number fd len sparse =
      (Some (if number = 0 then File_is_closed else Size_unix_error), fd)" by (elim disjE) (simp_all add: os_ftruncate_def)
  with assms have "e \<noteq> None" "fd' = fd" by auto
  with True show ?thesis by (auto intro: exI [of _ 0])
next
  case False
  let ?old = "f_bytes fd"
  from False have open_file: "number \<noteq> 0" "a_fstat a" by simp_all
  obtain allocated fd1 k where
    al: "allocated \<longleftrightarrow> have_fallocate \<and> \<not> sparse \<and> length ?old < len \<and> a_fallocate a = None" and
    ok: "allocated \<longrightarrow> f_bytes fd1 = resized len ?old" and
    k: "f_bytes fd1 = ?old @ replicate k 0" "k \<le> len - length ?old" and
    run: "(e, fd') = (if allocated then (None, fd1)
      else if length ?old < len then
        (if \<not> a_lseek a then (Some Size_unix_error, fd1) else (None, sys_write (a_write a) (os_lseek fd1 (len - 1)) [0]))
      else if length ?old \<noteq> len \<and> \<not> a_ftruncate a then (Some Size_unix_error, fd1)
      else if length ?old \<noteq> len then (None, sys_ftruncate fd1 len) else (None, fd1))"
    by (rule os_ftruncate_open [OF assms open_file])
  show ?thesis
  proof (cases "length ?old < len")
    case True
    have w: "f_bytes (sys_write True (os_lseek fd1 (len - 1)) [0]) = ?old @ replicate (len - length ?old) 0"
      by (rule write_last [OF k True])
    have n: "sys_write False fd2 d = fd2" for fd2 d by (simp add: sys_write_def Let_def)
    have "e \<noteq> None \<longleftrightarrow> \<not> allocated \<and> \<not> a_lseek a" using run True by (auto split: if_splits)
    moreover have "a_write a \<Longrightarrow> e = None \<Longrightarrow> f_bytes fd' = ?old @ replicate (len - length ?old) 0"
      using run True w ok by (auto simp: resized_def split: if_splits)
    moreover have "\<exists>k. k \<le> len - length ?old \<and> f_bytes fd' = ?old @ replicate k 0"
      using run True k w n by (cases "a_write a") (auto simp: os_lseek_def split: if_splits)
    ultimately show ?thesis using True False al by auto
  next
    case shrink: False
    then have "f_bytes fd1 = ?old" "\<not> allocated" using k al by auto
    then show ?thesis using run shrink False al k
      by (auto simp: sys_ftruncate_def split: if_splits)
  qed
qed

definition example_answers :: size_answers where
  "example_answers = \<lparr>a_fstat = True, a_fallocate = Some 1, a_lseek = True, a_write = True, a_ftruncate = False\<rparr>"

lemma os_ftruncate_bytes_witness:
  "f_bytes (snd (os_ftruncate True example_answers 3 \<lparr>f_bytes = [7, 8], f_pos = 0, f_answers = []\<rparr> 5 False)) =
     [7, 8, 0, 0, 0]"
proof -
  let ?r = "os_ftruncate True example_answers 3 \<lparr>f_bytes = [7, 8], f_pos = 0, f_answers = []\<rparr> 5 False"
  have "?r = (fst ?r, snd ?r)" by simp
  from os_ftruncate_bytes [OF this] show ?thesis by (simp add: example_answers_def numeral_eq_Suc)
qed

text \<open>The result of that write is not looked at: where it fails, and nothing was allocated
  before, \<open>os_ftruncate\<close> returns as if it had grown the file, and has not.\<close>

theorem os_ftruncate_silent:
  "number \<noteq> 0 \<Longrightarrow> a_fstat a \<Longrightarrow> a_lseek a \<Longrightarrow> \<not> a_write a \<Longrightarrow> length (f_bytes fd) < len \<Longrightarrow>
   fst (os_ftruncate False a number fd len sparse) = None \<and>
   f_bytes (snd (os_ftruncate False a number fd len sparse)) = f_bytes fd"
  by (simp add: os_ftruncate_def os_getfdsize_def Let_def sys_write_def os_lseek_def)

end
