(* ===== verification/Hash_Stubs.thy ===== *)
theory Hash_Stubs
  imports MD4 MD5 SHA1 Tiger_Tree OS_File
begin

text \<open>
  Hashing through descriptors: the macro \<open>ML_HASH\<close> of \<^verbatim>\<open>src/src/utils/lib/stubs_c.c\<close> and
  the macro \<open>COMPLETE_HASH\<close> of \<^verbatim>\<open>src/src/daemon/common/commonHasher_c.c\<close>, as functions of
  the three functions of a digest, and the Tiger tree over a descriptor, which both files have.
  Shown, once inside the interface \<open>stream_hash\<close>: however the kernel cuts the reads, the result
  is the digest of the bytes of the range or an error, never another digest; and the tree over
  a descriptor refines the tree over a string.
\<close>

section \<open>Model\<close>

abbreviation (input) HASH_BUFFER_LEN :: nat where "HASH_BUFFER_LEN \<equiv> 131072"

text \<open>The reading loop of both macros. \<open>at_eof\<close> is what they do when a read delivers nothing.
  \<open>None\<close> is the undefined behaviour of the digest functions.\<close>

function fd_loop ::
    "('c \<Rightarrow> u8 list \<Rightarrow> nat \<Rightarrow> 'c option) \<Rightarrow> ('c \<Rightarrow> u8 list option) \<Rightarrow>
     (('c \<Rightarrow> u8 list option) \<Rightarrow> 'c \<Rightarrow> (os_error + u8 list) option) \<Rightarrow> 'c \<Rightarrow> os_file \<Rightarrow> nat \<Rightarrow> (os_error + u8 list) option" where
  "fd_loop happend finish at_eof context fd len =
     (if len \<noteq> 0 then
        (let max_nread = (if HASH_BUFFER_LEN > len then len else HASH_BUFFER_LEN)
         in case os_read fd max_nread of
              Inl e \<Rightarrow> Some (Inl e)
            | Inr (hash_buffer, fd) \<Rightarrow>
                (let nread = length hash_buffer
                 in if nread = 0 then at_eof finish context
                    else (case happend context hash_buffer nread of
                            None \<Rightarrow> None
                          | Some context \<Rightarrow> fd_loop happend finish at_eof context fd (len - nread))))
      else map_option Inr (finish context))"
  by pat_completeness auto
termination
  by (relation "measure (\<lambda>(happend, finish, at_eof, context, fd, len). len)") auto

declare fd_loop.simps [simp del]

text \<open>\<open>HASH_NAME##_unsafe64_fd\<close>: the end of the file ends the message.\<close>

definition eof_finish :: "('c \<Rightarrow> u8 list option) \<Rightarrow> 'c \<Rightarrow> (os_error + u8 list) option" where
  "eof_finish finish context = map_option Inr (finish context)"

definition unsafe64_fd ::
    "('c \<Rightarrow> 'c) \<Rightarrow> ('c \<Rightarrow> u8 list \<Rightarrow> nat \<Rightarrow> 'c option) \<Rightarrow> ('c \<Rightarrow> u8 list option) \<Rightarrow> 'c \<Rightarrow>
     os_file \<Rightarrow> nat \<Rightarrow> nat \<Rightarrow> (os_error + u8 list) option" where
  "unsafe64_fd init happend finish context fd pos len =
     fd_loop happend finish eof_finish (init context) (os_lseek fd pos) len"

text \<open>\<open>HASH_NAME##_unsafe64_fd_direct\<close>: the test \<open>nread <= 0\<close> comes first, so the end of the
  file raises and the code for \<open>nread == 0\<close> is dead.\<close>

definition eof_error :: "('c \<Rightarrow> u8 list option) \<Rightarrow> 'c \<Rightarrow> (os_error + u8 list) option" where
  "eof_error finish context = Some (Inl Unix_error)"

definition unsafe64_fd_direct ::
    "('c \<Rightarrow> 'c) \<Rightarrow> ('c \<Rightarrow> u8 list \<Rightarrow> nat \<Rightarrow> 'c option) \<Rightarrow> ('c \<Rightarrow> u8 list option) \<Rightarrow> 'c \<Rightarrow>
     os_file \<Rightarrow> nat \<Rightarrow> nat \<Rightarrow> (os_error + u8 list) option" where
  "unsafe64_fd_direct init happend finish context fd pos len =
     fd_loop happend finish eof_error (init context) (os_lseek fd pos) len"

definition unsafe_string ::
    "('c \<Rightarrow> 'c) \<Rightarrow> ('c \<Rightarrow> u8 list \<Rightarrow> nat \<Rightarrow> 'c option) \<Rightarrow> ('c \<Rightarrow> u8 list option) \<Rightarrow> 'c \<Rightarrow>
     u8 list \<Rightarrow> nat \<Rightarrow> u8 list option" where
  "unsafe_string init happend finish context string len =
     (case happend (init context) string len of
        None \<Rightarrow> None
      | Some context \<Rightarrow> finish context)"

text \<open>The three uses of the macros.\<close>

definition md4_unsafe64_fd where
  "md4_unsafe64_fd = unsafe64_fd MD4Init (\<lambda>c d n. MD4Update c d (of_nat n)) (\<lambda>c. map_option fst (MD4Final c))"

definition md5_unsafe64_fd where
  "md5_unsafe64_fd = unsafe64_fd md5_init (\<lambda>c d n. Some (md5_append c d (int n))) (\<lambda>c. Some (fst (md5_finish c)))"

definition sha1_unsafe64_fd where
  "sha1_unsafe64_fd = unsafe64_fd sha1_begin (\<lambda>c d n. Some (sha1_hash c d n)) (\<lambda>c. Some (fst (sha1_end c)))"

definition md4_unsafe64_fd_direct where
  "md4_unsafe64_fd_direct = unsafe64_fd_direct MD4Init (\<lambda>c d n. MD4Update c d (of_nat n)) (\<lambda>c. map_option fst (MD4Final c))"

definition md5_unsafe64_fd_direct where
  "md5_unsafe64_fd_direct =
     unsafe64_fd_direct md5_init (\<lambda>c d n. Some (md5_append c d (int n))) (\<lambda>c. Some (fst (md5_finish c)))"

definition sha1_unsafe64_fd_direct where
  "sha1_unsafe64_fd_direct =
     unsafe64_fd_direct sha1_begin (\<lambda>c d n. Some (sha1_hash c d n)) (\<lambda>c. Some (fst (sha1_end c)))"

section \<open>The loop computes the digest of the range\<close>

context stream_hash
begin

lemma fd_loop_cases:
  assumes "HASH_BUFFER_LEN \<le> limit"
  shows "absorbed c m \<Longrightarrow>
    (\<exists>e. fd_loop append finish at_eof c fd len = Some (Inl e) \<and> \<not> no_errors fd) \<or>
    len \<le> length (rest fd) \<and> fd_loop append finish at_eof c fd len = Some (Inr (digest (m @ take len (rest fd)))) \<or>
    (\<exists>c'. length (rest fd) < len \<and> fd_loop append finish at_eof c fd len = at_eof finish c' \<and> absorbed c' (m @ rest fd))"
proof (induction len arbitrary: c m fd rule: less_induct)
  case (less len)
  show ?case
  proof (cases "len = 0")
    case True
    then show ?thesis using absorbed_finish [OF less.prems] by (simp add: fd_loop.simps)
  next
    case False
    let ?max = "if HASH_BUFFER_LEN > len then len else HASH_BUFFER_LEN"
    have max: "0 < ?max" "?max \<le> len" "?max \<le> HASH_BUFFER_LEN" using False by simp_all
    show ?thesis
    proof (cases "os_read fd ?max")
      case (Inl e)
      then have "\<not> no_errors fd" using os_read_no_error [of fd ?max] by auto
      with Inl False show ?thesis by (subst (1) fd_loop.simps) (simp add: Let_def)
    next
      case (Inr r)
      obtain d fd' where r: "r = (d, fd')" by (cases r)
      note rd = os_read_Inr [OF Inr [unfolded r] max(1)]
      show ?thesis
      proof (cases "d = []")
        case True
        then have "rest fd = []" using rd(3) by simp
        moreover have "fd_loop append finish at_eof c fd len = at_eof finish c"
          using False Inr True by (subst fd_loop.simps) (simp add: Let_def r)
        ultimately show ?thesis using less.prems False by auto
      next
        case nonempty: False
        have "length d \<le> limit" using rd(1) max(3) assms by linarith
        from absorbed_append [OF less.prems order_refl this] obtain c' where
          c': "append c d (length d) = Some c'" "absorbed c' (m @ d)" by auto
        have step: "fd_loop append finish at_eof c fd len = fd_loop append finish at_eof c' fd' (len - length d)"
          using False Inr nonempty c'(1) by (subst fd_loop.simps) (simp add: Let_def r)
        have lt: "len - length d < len" using nonempty False by simp
        have "length d \<le> len" using rd(1) max(2) by linarith
        then show ?thesis
          using less.IH [OF lt c'(2), of fd'] rd(2) rd(4) step by auto
      qed
    qed
  qed
qed

lemma unsafe64_fd_cases:
  assumes "HASH_BUFFER_LEN \<le> limit" and "wf c"
  shows "unsafe64_fd init append finish c fd pos len = Some (Inr (digest (take len (drop pos (f_bytes fd))))) \<or>
    \<not> no_errors fd \<and> unsafe64_fd init append finish c fd pos len = Some (Inl Unix_error)"
proof -
  have "e = Unix_error" for e by (cases e)
  with fd_loop_cases [OF assms(1) absorbed_init [OF assms(2)], of eof_finish "os_lseek fd pos" len] absorbed_finish
  show ?thesis by (fastforce simp: unsafe64_fd_def eof_finish_def)
qed

lemma unsafe64_fd_direct_cases:
  assumes "HASH_BUFFER_LEN \<le> limit" and "wf c"
  shows "pos + len \<le> length (f_bytes fd) \<and>
      unsafe64_fd_direct init append finish c fd pos len = Some (Inr (digest (slice (f_bytes fd) pos len))) \<or>
    (\<not> no_errors fd \<or> length (f_bytes fd) < pos + len) \<and>
      unsafe64_fd_direct init append finish c fd pos len = Some (Inl Unix_error) \<or>
    len = 0 \<and> unsafe64_fd_direct init append finish c fd pos len = Some (Inr (digest []))"
proof -
  have "e = Unix_error" for e by (cases e)
  with fd_loop_cases [OF assms(1) absorbed_init [OF assms(2)], of eof_error "os_lseek fd pos" len]
  show ?thesis by (fastforce simp: unsafe64_fd_direct_def eof_error_def slice_def)
qed

lemma unsafe_string_digest:
  assumes "wf c" and "len \<le> length string" and "len \<le> limit"
  shows "unsafe_string init append finish c string len = Some (digest (take len string))"
  using one_shot [OF assms] by (auto simp: unsafe_string_def split: option.splits Option.bind_splits)

end

section \<open>The tree over a descriptor\<close>

text \<open>The loop that fills the block: an error or the end of the file raises.\<close>

function read_block :: "os_file \<Rightarrow> nat \<Rightarrow> u8 list \<Rightarrow> os_error + u8 list \<times> os_file" where
  "read_block fd toread s =
     (if toread \<noteq> 0 then
        (case os_read fd toread of
           Inl e \<Rightarrow> Inl e
         | Inr (d, fd) \<Rightarrow>
             (let nread = length d
              in if nread = 0 then Inl Unix_error else read_block fd (toread - nread) (s @ d)))
      else Inr (s, fd))"
  by pat_completeness auto
termination
  by (relation "measure (\<lambda>(fd, toread, s). toread)") auto

declare read_block.simps [simp del]

text \<open>Descriptor and static buffer are threaded through the recursion.\<close>

definition tiger_leaf_fd ::
    "u8 list \<Rightarrow> u8 list \<Rightarrow> os_file \<Rightarrow> nat \<Rightarrow> (os_error + (u8 list \<times> os_file) \<times> u8 list) option" where
  "tiger_leaf_fd temp buffer fd len =
     (case read_block fd len [] of
        Inl e \<Rightarrow> Some (Inl e)
      | Inr (s, fd) \<Rightarrow>
          (case tiger_hash temp buffer 0 s len of
             None \<Rightarrow> None
           | Some (buffer, digest) \<Rightarrow> Some (Inr ((buffer, fd), digest))))"

partial_function (option) tiger_tree_fd ::
    "u8 list \<Rightarrow> u8 list \<Rightarrow> os_file \<Rightarrow> nat \<Rightarrow> nat \<Rightarrow> nat \<Rightarrow> (os_error + (u8 list \<times> os_file) \<times> u8 list) option" where
  "tiger_tree_fd temp buffer fd len pos block_size =
     (if block_size = BLOCK_SIZE then
        tiger_leaf_fd temp buffer fd (if len - pos > BLOCK_SIZE then BLOCK_SIZE else len - pos)
      else if len \<le> pos + block_size div 2 then
        tiger_tree_fd temp buffer fd len pos (block_size div 2)
      else
        Option.bind (tiger_tree_fd temp buffer fd len pos (block_size div 2)) (\<lambda>r1. case r1 of
            Inl e \<Rightarrow> Some (Inl e)
          | Inr ((buffer, fd), digest1) \<Rightarrow>
        Option.bind (tiger_tree_fd temp buffer fd len (pos + block_size div 2) (block_size div 2)) (\<lambda>r2. case r2 of
            Inl e \<Rightarrow> Some (Inl e)
          | Inr ((buffer, fd), digest2) \<Rightarrow>
              (case tiger_hash temp buffer 1 (digest1 @ digest2) (2 * DIGEST_LEN) of
                 None \<Rightarrow> None
               | Some (buffer, digest) \<Rightarrow> Some (Inr ((buffer, fd), digest))))))"

definition tigertree_unsafe64_fd ::
    "u8 list \<Rightarrow> u8 list \<Rightarrow> os_file \<Rightarrow> nat \<Rightarrow> nat \<Rightarrow> (os_error + (u8 list \<times> os_file) \<times> u8 list) option" where
  "tigertree_unsafe64_fd temp buffer fd pos len =
     Option.bind (tiger_block_size (of_nat len)) (\<lambda>block_size.
       tiger_tree_fd temp buffer (os_lseek fd pos) len 0 (unat block_size))"

lemma read_block_cases:
  "(\<exists>fd'. read_block fd n s = Inr (s @ take n (rest fd), fd') \<and> n \<le> length (rest fd) \<and> rest fd' = drop n (rest fd) \<and>
      (no_errors fd \<longrightarrow> no_errors fd')) \<or>
   read_block fd n s = Inl Unix_error \<and> (\<not> no_errors fd \<or> length (rest fd) < n)"
proof (induction n arbitrary: fd s rule: less_induct)
  case (less n)
  have e: "e = Unix_error" for e by (cases e)
  show ?case
  proof (cases "n = 0")
    case True
    then show ?thesis by (subst read_block.simps, simp)+
  next
    case False
    then have n: "0 < n" by simp
    show ?thesis
    proof (cases "os_read fd n")
      case (Inl e')
      then have "\<not> no_errors fd" using os_read_no_error [of fd n] by auto
      with Inl False e [of e'] show ?thesis by (subst (2) read_block.simps) simp
    next
      case (Inr r)
      obtain d fd' where r: "r = (d, fd')" by (cases r)
      note rd = os_read_Inr [OF Inr [unfolded r] n]
      show ?thesis
      proof (cases "d = []")
        case True
        then have "read_block fd n s = Inl Unix_error"
          using Inr False by (subst read_block.simps) (simp add: r)
        with True rd(3) n show ?thesis by simp
      next
        case nonempty: False
        then have lt: "n - length d < n" using n by simp
        have step: "read_block fd n s = read_block fd' (n - length d) (s @ d)"
          using Inr False nonempty by (subst read_block.simps) (simp add: r)
        have "take n (rest fd) = d @ take (n - length d) (rest fd')" "drop n (rest fd) = drop (n - length d) (rest fd')"
          "n \<le> length (rest fd) \<longleftrightarrow> n - length d \<le> length (rest fd')"
          using rd(1,2) by auto
        then show ?thesis
          using less.IH [OF lt, of fd' "s @ d"] rd(4) unfolding step by auto
      qed
    qed
  qed
qed

lemma tiger_hash_take: "tiger_hash temp buffer prefix (take len s) len = tiger_hash temp buffer prefix s len"
  by (simp add: tiger_hash_def)

lemma tiger_leaf_fd_cases:
  assumes "rest fd = drop pos s" and "pos + n \<le> length s" and "tiger_hash temp buffer 0 (drop pos s) n = Some (b, d)"
  shows "(\<exists>fd'. tiger_leaf_fd temp buffer fd n = Some (Inr ((b, fd'), d)) \<and> rest fd' = drop (pos + n) s \<and>
      (no_errors fd \<longrightarrow> no_errors fd')) \<or>
    tiger_leaf_fd temp buffer fd n = Some (Inl Unix_error) \<and> \<not> no_errors fd"
  using read_block_cases [of fd n "[]"] assms
  by (auto simp: tiger_leaf_fd_def tiger_hash_take add.commute)

lemma tiger_tree_fd_refines:
  assumes "length temp = 64" and "len \<le> length s"
  shows "length buffer = TIGER_BUFFER \<Longrightarrow> pos < len \<or> len = 0 \<and> pos = 0 \<Longrightarrow> rest fd = drop pos s \<Longrightarrow>
    \<exists>b d. tiger_tree_string temp buffer s len pos (BLOCK_SIZE * 2 ^ k) = Some (b, d) \<and> length b = TIGER_BUFFER \<and>
      ((\<exists>fd'. tiger_tree_fd temp buffer fd len pos (BLOCK_SIZE * 2 ^ k) = Some (Inr ((b, fd'), d)) \<and>
          rest fd' = drop (pos + min (BLOCK_SIZE * 2 ^ k) (len - pos)) s \<and> (no_errors fd \<longrightarrow> no_errors fd')) \<or>
       tiger_tree_fd temp buffer fd len pos (BLOCK_SIZE * 2 ^ k) = Some (Inl Unix_error) \<and> \<not> no_errors fd)"
proof (induction k arbitrary: buffer pos fd)
  case 0
  let ?n = "min BLOCK_SIZE (len - pos)"
  have n: "(if len - pos > BLOCK_SIZE then BLOCK_SIZE else len - pos) = ?n" by simp
  have le: "pos + ?n \<le> length s" using 0(2) assms(2) by auto
  then have "?n \<le> length (drop pos s)" by simp
  from tiger_hash_digest [OF assms(1) 0(1) this, of 0] obtain b d where
    h: "tiger_hash temp buffer 0 (drop pos s) ?n = Some (b, d)" "length b = TIGER_BUFFER" by auto
  have "tiger_tree_string temp buffer s len pos (BLOCK_SIZE * 2 ^ 0) = Some (b, d)"
    by (subst tiger_tree_string.simps) (simp add: Let_def n h)
  moreover have "tiger_tree_fd temp buffer fd len pos (BLOCK_SIZE * 2 ^ 0) = tiger_leaf_fd temp buffer fd ?n"
    by (subst tiger_tree_fd.simps) (simp only: power_0 mult_1_right n refl if_True)
  ultimately show ?case using tiger_leaf_fd_cases [OF 0(3) le h(1)] h(2) by (simp only: power_0 mult_1_right) blast
next
  case (Suc k)
  let ?half = "BLOCK_SIZE * 2 ^ k"
  have half: "BLOCK_SIZE * 2 ^ Suc k div 2 = ?half" by simp
  have "(1 :: nat) \<le> 2 ^ k" by simp
  then have ne: "BLOCK_SIZE * 2 ^ Suc k \<noteq> BLOCK_SIZE" unfolding power_Suc by linarith
  note str = tiger_tree_string.simps [of temp buffer s len pos "BLOCK_SIZE * 2 ^ Suc k", unfolded half, simplified ne if_False]
  note fdt = tiger_tree_fd.simps [of temp buffer fd len pos "BLOCK_SIZE * 2 ^ Suc k", unfolded half, simplified ne if_False]
  from Suc.IH [OF Suc.prems] obtain b1 d1 where left:
    "tiger_tree_string temp buffer s len pos ?half = Some (b1, d1)" "length b1 = TIGER_BUFFER"
    "(\<exists>fd'. tiger_tree_fd temp buffer fd len pos ?half = Some (Inr ((b1, fd'), d1)) \<and>
          rest fd' = drop (pos + min ?half (len - pos)) s \<and> (no_errors fd \<longrightarrow> no_errors fd')) \<or>
       tiger_tree_fd temp buffer fd len pos ?half = Some (Inl Unix_error) \<and> \<not> no_errors fd"
    by blast
  show ?case
  proof (cases "len \<le> pos + ?half")
    case True
    then have "min (BLOCK_SIZE * 2 ^ Suc k) (len - pos) = min ?half (len - pos)" by simp
    with True left show ?thesis unfolding str fdt by simp
  next
    case False
    then have go: "pos + ?half < len \<or> len = 0 \<and> pos + ?half = 0" by simp
    have d1: "length d1 = 24" using tiger_tree_levels [OF assms Suc.prems(1,2), of k] left(1) by auto
    from tiger_tree_levels [OF assms left(2) go, of k] obtain b2 d2 where right:
      "tiger_tree_string temp b1 s len (pos + ?half) ?half = Some (b2, d2)" "length b2 = TIGER_BUFFER" "length d2 = 24"
      by blast
    from tiger_hash_digest [OF assms(1) right(2), of 48 "d1 @ d2" 1] d1 right(3) obtain b3 d3 where
      top: "tiger_hash temp b2 1 (d1 @ d2) (2 * DIGEST_LEN) = Some (b3, d3)" "length b3 = TIGER_BUFFER" by auto
    have string: "tiger_tree_string temp buffer s len pos (BLOCK_SIZE * 2 ^ Suc k) = Some (b3, d3)"
      unfolding str using False left(1) right(1) top(1) by simp
    have min1: "pos + min ?half (len - pos) = pos + ?half"
      and min2: "pos + ?half + min ?half (len - (pos + ?half)) = pos + min (BLOCK_SIZE * 2 ^ Suc k) (len - pos)"
      using False by simp_all
    from left(3) show ?thesis
    proof (elim disjE exE conjE)
      fix fd1
      assume l: "tiger_tree_fd temp buffer fd len pos ?half = Some (Inr ((b1, fd1), d1))"
        "rest fd1 = drop (pos + min ?half (len - pos)) s" "no_errors fd \<longrightarrow> no_errors fd1"
      from Suc.IH [OF left(2) go l(2) [unfolded min1]] right(1)
      have "(\<exists>fd'. tiger_tree_fd temp b1 fd1 len (pos + ?half) ?half = Some (Inr ((b2, fd'), d2)) \<and>
          rest fd' = drop (pos + min (BLOCK_SIZE * 2 ^ Suc k) (len - pos)) s \<and> (no_errors fd1 \<longrightarrow> no_errors fd')) \<or>
        tiger_tree_fd temp b1 fd1 len (pos + ?half) ?half = Some (Inl Unix_error) \<and> \<not> no_errors fd1"
        unfolding min2 by auto
      then show ?thesis
        using False l(1,3) top unfolding string fdt by (elim disjE exE conjE) simp_all
    next
      assume "tiger_tree_fd temp buffer fd len pos ?half = Some (Inl Unix_error)" "\<not> no_errors fd"
      then show ?thesis using False top(2) unfolding string fdt by simp
    qed
  qed
qed

lemma tigertree_fd_cases:
  assumes "length temp = 64" and "length buffer = 8192" and "pos + len \<le> length (f_bytes fd)" and "len \<le> 2 ^ 62"
  shows "(\<exists>b fd'. tigertree_unsafe64_fd temp buffer fd pos len = Some (Inr ((b, fd'), tiger_tree_root (slice (f_bytes fd) pos len))) \<and>
      length b = 8192) \<or>
    tigertree_unsafe64_fd temp buffer fd pos len = Some (Inl Unix_error) \<and> \<not> no_errors fd"
proof -
  let ?s = "drop pos (f_bytes fd)"
  have len: "len \<le> length ?s" using assms(3) by simp
  from tiger_block_size_least [OF assms(4)] obtain K where
    K: "tiger_block_size (of_nat len) = Some (of_nat (1024 * 2 ^ K))" "K \<le> 52" "len \<le> 1024 * 2 ^ K" by blast
  have "0 < len \<or> len = 0 \<and> (0 :: nat) = 0" by auto
  from tiger_tree_fd_refines [OF assms(1) len assms(2) this, of "os_lseek fd pos" K] obtain b d where
    bd: "tiger_tree_string temp buffer ?s len 0 (1024 * 2 ^ K) = Some (b, d)" "length b = 8192"
    "(\<exists>fd'. tiger_tree_fd temp buffer (os_lseek fd pos) len 0 (1024 * 2 ^ K) = Some (Inr ((b, fd'), d))) \<or>
       tiger_tree_fd temp buffer (os_lseek fd pos) len 0 (1024 * 2 ^ K) = Some (Inl Unix_error) \<and> \<not> no_errors fd"
    by auto
  have "tigertree_unsafe_string temp buffer ?s len = Some (b, d)"
    by (simp only: tigertree_unsafe_string_def K(1) bind.simps unat_block [OF K(2)] bd(1))
  moreover obtain b' where "tigertree_unsafe_string temp buffer ?s len = Some (b', tiger_tree_root (take len ?s))"
    by (rule tigertree_root [OF assms(1,2) len assms(4)])
  ultimately have d: "d = tiger_tree_root (slice (f_bytes fd) pos len)" by (simp add: slice_def)
  have "tigertree_unsafe64_fd temp buffer fd pos len = tiger_tree_fd temp buffer (os_lseek fd pos) len 0 (1024 * 2 ^ K)"
    by (simp only: tigertree_unsafe64_fd_def K(1) bind.simps unat_block [OF K(2)])
  with bd(2,3) show ?thesis unfolding d by metis
qed

section \<open>Properties\<close>

text \<open>C8: \<open>md4_unsafe64_fd\<close>, \<open>md5_unsafe64_fd\<close> and \<open>sha1_unsafe64_fd\<close> return, however the
  kernel cuts the reads, the digest of the bytes of the range (up to the end of the file if
  that comes first), or raise, and that only when a read failed.\<close>

theorem hash_fd_digest:
  assumes "length (md4_buffer c4) = 64" and "length (md5_buf c5) = 64" and "length (sha1_wbuf c1) = 16"
    and "m = take len (drop pos (f_bytes fd))"
  shows "(md4_unsafe64_fd c4 fd pos len = Some (Inr (md4_digest m)) \<or>
      0 \<in> set (f_answers fd) \<and> md4_unsafe64_fd c4 fd pos len = Some (Inl Unix_error)) \<and>
    (md5_unsafe64_fd c5 fd pos len = Some (Inr (md5_digest m)) \<or>
      0 \<in> set (f_answers fd) \<and> md5_unsafe64_fd c5 fd pos len = Some (Inl Unix_error)) \<and>
    (sha1_unsafe64_fd c1 fd pos len = Some (Inr (sha1_digest m)) \<or>
      0 \<in> set (f_answers fd) \<and> sha1_unsafe64_fd c1 fd pos len = Some (Inl Unix_error))"
proof (intro conjI)
  have limits: "HASH_BUFFER_LEN \<le> MD4_limit" "HASH_BUFFER_LEN \<le> md5_limit" "HASH_BUFFER_LEN \<le> sha1_limit" by simp_all
  note uns = assms(4) md4_unsafe64_fd_def md5_unsafe64_fd_def sha1_unsafe64_fd_def not_not no_errors_def
  show "md4_unsafe64_fd c4 fd pos len = Some (Inr (md4_digest m)) \<or>
      0 \<in> set (f_answers fd) \<and> md4_unsafe64_fd c4 fd pos len = Some (Inl Unix_error)"
    using md4.unsafe64_fd_cases [OF limits(1), of c4 fd pos len] assms(1) by (simp only: uns MD4_wf_def simp_thms)
  show "md5_unsafe64_fd c5 fd pos len = Some (Inr (md5_digest m)) \<or>
      0 \<in> set (f_answers fd) \<and> md5_unsafe64_fd c5 fd pos len = Some (Inl Unix_error)"
    using md5.unsafe64_fd_cases [OF limits(2), of c5 fd pos len] assms(2) by (simp only: uns md5_wf_def simp_thms)
  show "sha1_unsafe64_fd c1 fd pos len = Some (Inr (sha1_digest m)) \<or>
      0 \<in> set (f_answers fd) \<and> sha1_unsafe64_fd c1 fd pos len = Some (Inl Unix_error)"
    using sha1.unsafe64_fd_cases [OF limits(3), of c1 fd pos len] assms(3) by (simp only: uns sha1_wf_def simp_thms)
qed

lemma hash_fd_digest_witness:
  "md5_unsafe64_fd \<lparr>md5_count = [], md5_abcd = [], md5_buf = replicate 64 7\<rparr>
     \<lparr>f_bytes = [1, 2, 3, 4], f_pos = 0, f_answers = [1, 1]\<rparr> 1 2 = Some (Inr (md5_digest [2, 3]))"
  using hash_fd_digest [of "\<lparr>md4_state = [], md4_count = [], md4_buffer = replicate 64 7\<rparr>"
      "\<lparr>md5_count = [], md5_abcd = [], md5_buf = replicate 64 7\<rparr>"
      "\<lparr>sha1_count = [], sha1_hashv = [], sha1_wbuf = replicate 16 7\<rparr>" "[2, 3]" 2 1
      "\<lparr>f_bytes = [1, 2, 3, 4], f_pos = 0, f_answers = [1, 1]\<rparr>"]
  by simp

text \<open>C9: The tree hash of a range of a file, computed through a descriptor with reads of any
  size, is the root of the hash tree of those bytes, or an error, and that only when a read
  failed: the recursion over the descriptor refines the one over a string.\<close>

theorem tigertree_fd_root:
  assumes "length temp = 64" and "length buffer = 8192" and "pos + len \<le> length (f_bytes fd)" and "len \<le> 2 ^ 62"
  shows "(\<exists>b fd'. tigertree_unsafe64_fd temp buffer fd pos len =
      Some (Inr ((b, fd'), tree_root tree_node (map tree_leaf (tree_blocks (take len (drop pos (f_bytes fd)))))))) \<or>
    0 \<in> set (f_answers fd) \<and> tigertree_unsafe64_fd temp buffer fd pos len = Some (Inl Unix_error)"
  using tigertree_fd_cases [OF assms] by (auto simp: tiger_tree_root_def slice_def no_errors_def)

lemma tigertree_fd_root_witness:
  "\<exists>b fd'. tigertree_unsafe64_fd (replicate 64 7) (replicate 8192 9)
      \<lparr>f_bytes = [1, 2, 3, 4], f_pos = 0, f_answers = [1, 1]\<rparr> 1 2 =
    Some (Inr ((b, fd'), tree_root tree_node (map tree_leaf (tree_blocks [2, 3]))))"
  using tigertree_fd_root [of "replicate 64 7" "replicate 8192 9" 1 2 "\<lparr>f_bytes = [1, 2, 3, 4], f_pos = 0, f_answers = [1, 1]\<rparr>"]
  by simp

end
