(* ===== verification/Hasher.thy ===== *)
theory Hasher
  imports Hash_Stubs
begin

text \<open>
  The background hasher of \<^verbatim>\<open>src/src/daemon/common/commonHasher_c.c\<close> with threads: the
  job variables shared by \<open>ml_job_start\<close>, \<open>ml_job_done\<close> and the thread, and the steps of the
  thread and of the client (\<^verbatim>\<open>commonHasher.ml\<close>, which starts a job only when it waits for
  none, and stops waiting when \<open>ml_job_done\<close> returns true), which interleave in any order the
  mutex allows. While the thread hashes, the result array may hold anything, and the main thread
  may hash with Tiger itself, over the static buffer of \<^verbatim>\<open>tiger.c\<close> the thread also uses.
  Shown: what is delivered is the digest of the range of the file, for Tiger provided the main
  thread did not use the buffer meanwhile, and the thread finishes every job whose file reads
  without error. After a read error \<open>unix_error\<close> raises an OCaml exception in a thread OCaml
  does not know: what happens then is undefined, and the model has no step for it.
\<close>

section \<open>Model\<close>

datatype job_method = METHOD_MD4 | METHOD_MD5 | METHOD_SHA1 | METHOD_TIGER

record job =
  j_begin_pos :: nat
  j_len :: nat
  j_method :: job_method

text \<open>The uninitialised local contexts and array of the hash functions.\<close>

record scratch =
  s_md4 :: MD4_CTX
  s_md5 :: md5_state_t
  s_sha1 :: sha1_context
  s_temp :: "u8 list"

text \<open>The static variables, and the buffer of \<^verbatim>\<open>tiger.c\<close>.\<close>

record hasher =
  h_done :: bool
  h_result :: "u8 list"
  h_fd :: os_file
  h_begin_pos :: nat
  h_len :: nat
  h_method :: job_method
  h_thread_started :: bool
  h_tiger_buffer :: "u8 list"

text \<open>Where the thread is: not created; created but not yet waiting; in the wait, the only
  place of its loop where the mutex is free; hashing, with whether the main thread has used the
  Tiger buffer since it began; past the hash, before \<open>job_done = 1\<close>; and at the end of the loop.\<close>

datatype thread = Unborn | Created | Waiting | Hashing bool | Hashed | Looping

text \<open>Where the client is: without a job; in \<open>ml_job_start\<close> before it has the mutex; waiting
  for a job.\<close>

datatype client = Idle | Starting job os_file | Polling job os_file

definition run_method :: "scratch \<Rightarrow> u8 list \<Rightarrow> job_method \<Rightarrow> os_file \<Rightarrow> nat \<Rightarrow> nat \<Rightarrow> (os_error + u8 list \<times> u8 list) option" where
  "run_method sc buffer m fd pos len =
     (case m of
        METHOD_MD4 \<Rightarrow> map_option (map_sum id (Pair buffer)) (md4_unsafe64_fd_direct (s_md4 sc) fd pos len)
      | METHOD_MD5 \<Rightarrow> map_option (map_sum id (Pair buffer)) (md5_unsafe64_fd_direct (s_md5 sc) fd pos len)
      | METHOD_SHA1 \<Rightarrow> map_option (map_sum id (Pair buffer)) (sha1_unsafe64_fd_direct (s_sha1 sc) fd pos len)
      | METHOD_TIGER \<Rightarrow>
          map_option (map_sum id (\<lambda>((buffer, fd), digest). (buffer, digest)))
            (tigertree_unsafe64_fd (s_temp sc) buffer fd pos len))"

text \<open>One step of the thread, \<open>Inl\<close> when a read fails. Tiger over a buffer the main thread
  has written to has no determined outcome: that step is a rule of the relation below.\<close>

definition thread_step :: "scratch \<Rightarrow> hasher \<Rightarrow> thread \<Rightarrow> (os_error + hasher \<times> thread) option" where
  "thread_step sc h t =
     (case t of
        Unborn \<Rightarrow> None
      | Created \<Rightarrow> Some (Inr (h, Waiting))
      | Waiting \<Rightarrow> Some (Inr (h, if \<not> h_done h then Hashing False else Looping))
      | Hashing disturbed \<Rightarrow>
          if disturbed \<and> h_method h = METHOD_TIGER then None
          else (case run_method sc (h_tiger_buffer h) (h_method h) (h_fd h) (h_begin_pos h) (h_len h) of
                  None \<Rightarrow> None
                | Some (Inl e) \<Rightarrow> Some (Inl e)
                | Some (Inr (buffer, digest)) \<Rightarrow>
                    Some (Inr (h\<lparr>h_result := blit (h_result h) 0 digest, h_tiger_buffer := buffer\<rparr>, Hashed)))
      | Hashed \<Rightarrow> Some (Inr (h\<lparr>h_done := True\<rparr>, Looping))
      | Looping \<Rightarrow> Some (Inr (h, Waiting)))"

text \<open>\<open>ml_job_start\<close>, up to the mutex and under it.\<close>

definition ml_job_start_vars :: "job \<Rightarrow> os_file \<Rightarrow> hasher \<Rightarrow> thread \<Rightarrow> hasher \<times> thread" where
  "ml_job_start_vars job fd h t =
     (h\<lparr>h_fd := fd, h_begin_pos := j_begin_pos job, h_len := j_len job, h_method := j_method job,
        h_thread_started := True\<rparr>,
      if \<not> h_thread_started h then Created else t)"

definition ml_job_start_signal :: "hasher \<Rightarrow> hasher" where
  "ml_job_start_signal h = h\<lparr>h_done := False\<rparr>"

definition mutex_free :: "thread \<Rightarrow> bool" where
  "mutex_free t \<longleftrightarrow> t = Created \<or> t = Waiting"

text \<open>The result string of the job is overwritten when the job is done.\<close>

definition ml_job_done :: "hasher \<Rightarrow> u8 list \<Rightarrow> bool \<times> u8 list" where
  "ml_job_done h result =
     (if h_done h then (True, take (length result) (h_result h)) else (False, result))"

text \<open>A job lies in its file, and the file does not change while the job runs.\<close>

definition job_fits :: "job \<Rightarrow> os_file \<Rightarrow> bool" where
  "job_fits job fd \<longleftrightarrow> j_begin_pos job + j_len job \<le> length (f_bytes fd) \<and> j_len job \<le> 2 ^ 62"

definition scratch_wf :: "scratch \<Rightarrow> bool" where
  "scratch_wf sc \<longleftrightarrow> MD4_wf (s_md4 sc) \<and> md5_wf (s_md5 sc) \<and> sha1_wf (s_sha1 sc) \<and> length (s_temp sc) = 64"

definition disturb :: "thread \<Rightarrow> thread" where
  "disturb t = (case t of Hashing disturbed \<Rightarrow> Hashing True | _ \<Rightarrow> t)"

text \<open>The states the thread and the client reach. With \<open>quiet\<close>, the main thread does not hash
  with Tiger while the thread hashes.\<close>

inductive hasher_reach :: "bool \<Rightarrow> hasher \<Rightarrow> thread \<Rightarrow> client \<Rightarrow> bool" for quiet where
  reach_init: "h_done h \<Longrightarrow> \<not> h_thread_started h \<Longrightarrow> length (h_result h) = 64 \<Longrightarrow>
    length (h_tiger_buffer h) = 8192 \<Longrightarrow> hasher_reach quiet h Unborn Idle"
| reach_vars: "hasher_reach quiet h t Idle \<Longrightarrow> job_fits job fd \<Longrightarrow> ml_job_start_vars job fd h t = (h', t') \<Longrightarrow>
    hasher_reach quiet h' t' (Starting job fd)"
| reach_signal: "hasher_reach quiet h t (Starting job fd) \<Longrightarrow> mutex_free t \<Longrightarrow>
    hasher_reach quiet (ml_job_start_signal h) t (Polling job fd)"
| reach_thread: "hasher_reach quiet h t c \<Longrightarrow> scratch_wf sc \<Longrightarrow> thread_step sc h t = Some (Inr (h', t')) \<Longrightarrow>
    hasher_reach quiet h' t' c"
| reach_writing: "hasher_reach quiet h (Hashing disturbed) c \<Longrightarrow> length result = 64 \<Longrightarrow>
    hasher_reach quiet (h\<lparr>h_result := result\<rparr>) (Hashing disturbed) c"
| reach_disturbed: "hasher_reach quiet h (Hashing True) c \<Longrightarrow> h_method h = METHOD_TIGER \<Longrightarrow> length digest = 24 \<Longrightarrow>
    length buffer = 8192 \<Longrightarrow>
    hasher_reach quiet (h\<lparr>h_result := blit (h_result h) 0 digest, h_tiger_buffer := buffer\<rparr>) Hashed c"
| reach_main_tiger: "hasher_reach quiet h t c \<Longrightarrow> quiet \<Longrightarrow> disturb t = t \<Longrightarrow> length temp = 64 \<Longrightarrow>
    tiger_hash temp (h_tiger_buffer h) prefix s len = Some (buffer, digest) \<Longrightarrow>
    hasher_reach quiet (h\<lparr>h_tiger_buffer := buffer\<rparr>) t c"
| reach_main_race: "hasher_reach quiet h t c \<Longrightarrow> \<not> quiet \<Longrightarrow> length buffer = 8192 \<Longrightarrow>
    hasher_reach quiet (h\<lparr>h_tiger_buffer := buffer\<rparr>) (disturb t) c"
| reach_done: "hasher_reach quiet h t (Polling job fd) \<Longrightarrow> ml_job_done h result = (True, result') \<Longrightarrow>
    hasher_reach quiet h t Idle"

section \<open>What a job should deliver\<close>

definition job_digest :: "job \<Rightarrow> os_file \<Rightarrow> u8 list" where
  "job_digest job fd =
     (let m = slice (f_bytes fd) (j_begin_pos job) (j_len job)
      in case j_method job of
           METHOD_MD4 \<Rightarrow> md4_digest m
         | METHOD_MD5 \<Rightarrow> md5_digest m
         | METHOD_SHA1 \<Rightarrow> sha1_digest m
         | METHOD_TIGER \<Rightarrow> tiger_tree_root m)"

lemma direct_cases:
  assumes "scratch_wf sc" and "pos + len \<le> length (f_bytes fd)"
  shows "md4_unsafe64_fd_direct (s_md4 sc) fd pos len = Some (Inr (md4_digest (slice (f_bytes fd) pos len))) \<or>
      \<not> no_errors fd \<and> md4_unsafe64_fd_direct (s_md4 sc) fd pos len = Some (Inl Unix_error)"
    and "md5_unsafe64_fd_direct (s_md5 sc) fd pos len = Some (Inr (md5_digest (slice (f_bytes fd) pos len))) \<or>
      \<not> no_errors fd \<and> md5_unsafe64_fd_direct (s_md5 sc) fd pos len = Some (Inl Unix_error)"
    and "sha1_unsafe64_fd_direct (s_sha1 sc) fd pos len = Some (Inr (sha1_digest (slice (f_bytes fd) pos len))) \<or>
      \<not> no_errors fd \<and> sha1_unsafe64_fd_direct (s_sha1 sc) fd pos len = Some (Inl Unix_error)"
proof -
  have limits: "HASH_BUFFER_LEN \<le> MD4_limit" "HASH_BUFFER_LEN \<le> md5_limit" "HASH_BUFFER_LEN \<le> sha1_limit" by simp_all
  have fits: "\<not> length (f_bytes fd) < pos + len" using assms(2) by simp
  have empty: "slice (f_bytes fd) pos 0 = []" by (simp add: slice_def)
  show "md4_unsafe64_fd_direct (s_md4 sc) fd pos len = Some (Inr (md4_digest (slice (f_bytes fd) pos len))) \<or>
      \<not> no_errors fd \<and> md4_unsafe64_fd_direct (s_md4 sc) fd pos len = Some (Inl Unix_error)"
    using md4.unsafe64_fd_direct_cases [OF limits(1), of "s_md4 sc" pos len fd] assms(1) fits empty
    unfolding scratch_wf_def md4_unsafe64_fd_direct_def by metis
  show "md5_unsafe64_fd_direct (s_md5 sc) fd pos len = Some (Inr (md5_digest (slice (f_bytes fd) pos len))) \<or>
      \<not> no_errors fd \<and> md5_unsafe64_fd_direct (s_md5 sc) fd pos len = Some (Inl Unix_error)"
    using md5.unsafe64_fd_direct_cases [OF limits(2), of "s_md5 sc" pos len fd] assms(1) fits empty
    unfolding scratch_wf_def md5_unsafe64_fd_direct_def by metis
  show "sha1_unsafe64_fd_direct (s_sha1 sc) fd pos len = Some (Inr (sha1_digest (slice (f_bytes fd) pos len))) \<or>
      \<not> no_errors fd \<and> sha1_unsafe64_fd_direct (s_sha1 sc) fd pos len = Some (Inl Unix_error)"
    using sha1.unsafe64_fd_direct_cases [OF limits(3), of "s_sha1 sc" pos len fd] assms(1) fits empty
    unfolding scratch_wf_def sha1_unsafe64_fd_direct_def by metis
qed

lemma run_method_cases:
  assumes "scratch_wf sc" and "job_fits job fd" and "length buffer = 8192"
  shows "(\<exists>b. run_method sc buffer (j_method job) fd (j_begin_pos job) (j_len job) = Some (Inr (b, job_digest job fd)) \<and> length b = 8192) \<or>
    run_method sc buffer (j_method job) fd (j_begin_pos job) (j_len job) = Some (Inl Unix_error) \<and> \<not> no_errors fd"
proof -
  have fits: "j_begin_pos job + j_len job \<le> length (f_bytes fd)" "j_len job \<le> 2 ^ 62" and temp: "length (s_temp sc) = 64"
    using assms by (simp_all add: job_fits_def scratch_wf_def)
  show ?thesis
    using direct_cases [OF assms(1) fits(1)] tigertree_fd_cases [OF temp assms(3) fits] assms(3)
    by (cases "j_method job") (auto simp: run_method_def job_digest_def)
qed

section \<open>Sizes\<close>

definition digest_size :: "job_method \<Rightarrow> nat" where
  "digest_size m = (case m of METHOD_MD4 \<Rightarrow> 16 | METHOD_MD5 \<Rightarrow> 16 | METHOD_SHA1 \<Rightarrow> 20 | METHOD_TIGER \<Rightarrow> 24)"

lemma length_md4_digest: "length (md4_digest m) = 16"
proof -
  have "md_hash md4_compress MD4_iv len64_le m = md_hash MD4Transform MD4_iv len64_le m"
    by (rule md_hash_cong) (simp add: MD4Transform_compress)
  then show ?thesis by (simp add: md4_digest_def md_hash_def length_MD4_chain)
qed

lemma length_md5_digest: "length (md5_digest m) = 16"
proof -
  have "md_hash md5_compress md5_iv len64_le m = md_hash md5_process md5_iv len64_le m"
    by (rule md_hash_cong) (simp add: md5_process_compress)
  then show ?thesis by (simp add: md5_digest_def md_hash_def length_md5_chain)
qed

lemma length_sha1_digest: "length (sha1_digest m) = 20"
proof -
  have "length (concat (map be_bytes32 ws)) = 4 * length ws" for ws
    by (induction ws) (simp_all add: be_bytes32_def)
  then show ?thesis by (simp add: sha1_digest_def md_hash_def length_sha1_chain)
qed

lemma length_tree_root:
  "hs \<noteq> [] \<Longrightarrow> (\<And>h. h \<in> set hs \<Longrightarrow> length h = 24) \<Longrightarrow> length (tree_root tree_node hs) = 24"
proof (induction "tree_node" hs rule: tree_root.induct)
  case (1 hs)
  show ?case
  proof (cases "length hs \<le> 1")
    case True
    with 1(2,3) show ?thesis by (cases hs) (simp_all add: tree_root.simps)
  next
    case False
    have "pair_up tree_node hs \<noteq> []" using False by (cases hs; cases "tl hs") auto
    moreover have "h \<in> set (pair_up tree_node hs) \<Longrightarrow> length h = 24" for h
      using 1(3) by (induction "tree_node" hs rule: pair_up.induct) (auto simp: tree_node_def length_tiger_digest)
    ultimately show ?thesis using 1(1) False by (simp add: tree_root.simps [of _ hs])
  qed
qed

lemma tree_blocks_nonempty: "tree_blocks s \<noteq> []"
  by (subst tree_blocks.simps) simp

lemma length_job_digest: "length (job_digest job fd) = digest_size (j_method job)"
proof -
  have "length (tiger_tree_root m) = 24" for m
    unfolding tiger_tree_root_def
    by (rule length_tree_root) (auto simp: tree_blocks_nonempty tree_leaf_def length_tiger_digest)
  then show ?thesis
    by (simp add: job_digest_def digest_size_def Let_def length_md4_digest length_md5_digest length_sha1_digest
        split: job_method.splits)
qed

section \<open>Invariants of the reachable states\<close>

definition job_vars :: "hasher \<Rightarrow> job \<Rightarrow> os_file \<Rightarrow> bool" where
  "job_vars h job fd \<longleftrightarrow> h_fd h = fd \<and> h_begin_pos h = j_begin_pos job \<and> h_len h = j_len job \<and> h_method h = j_method job"

definition busy :: "thread \<Rightarrow> bool" where
  "busy t \<longleftrightarrow> t = Hashed \<or> (\<exists>d. t = Hashing d)"

lemma busy_simps [simp]:
  "\<not> busy Unborn" "\<not> busy Created" "\<not> busy Waiting" "\<not> busy Looping" "busy Hashed" "busy (Hashing d)"
  by (simp_all add: busy_def)

definition determined :: "bool \<Rightarrow> job \<Rightarrow> bool" where
  "determined quiet job \<longleftrightarrow> quiet \<or> j_method job \<noteq> METHOD_TIGER"

definition holds_digest :: "hasher \<Rightarrow> job \<Rightarrow> os_file \<Rightarrow> bool" where
  "holds_digest h job fd \<longleftrightarrow> take (digest_size (j_method job)) (h_result h) = job_digest job fd"

definition hasher_inv :: "bool \<Rightarrow> hasher \<Rightarrow> thread \<Rightarrow> client \<Rightarrow> bool" where
  "hasher_inv quiet h t c \<longleftrightarrow> length (h_tiger_buffer h) = 8192 \<and> length (h_result h) = 64 \<and>
     (t = Unborn \<longleftrightarrow> \<not> h_thread_started h) \<and> (quiet \<longrightarrow> t \<noteq> Hashing True) \<and>
     (case c of
        Idle \<Rightarrow> h_done h \<and> \<not> busy t
      | Starting job fd \<Rightarrow> h_done h \<and> \<not> busy t \<and> h_thread_started h \<and> job_fits job fd \<and> job_vars h job fd
      | Polling job fd \<Rightarrow> h_thread_started h \<and> job_fits job fd \<and> job_vars h job fd \<and>
          (t = Looping \<longrightarrow> h_done h) \<and> (busy t \<longrightarrow> \<not> h_done h) \<and>
          (h_done h \<or> t = Hashed \<longrightarrow> determined quiet job \<longrightarrow> holds_digest h job fd))"

lemma inv_busy: "hasher_inv quiet h t c \<Longrightarrow> busy t \<Longrightarrow> \<exists>job fd. c = Polling job fd"
  by (cases c) (auto simp: hasher_inv_def)

lemma job_vars_updates [simp]:
  "job_vars (h\<lparr>h_done := b\<rparr>) job fd = job_vars h job fd"
  "job_vars (h\<lparr>h_result := r\<rparr>) job fd = job_vars h job fd"
  "job_vars (h\<lparr>h_tiger_buffer := u\<rparr>) job fd = job_vars h job fd"
  by (simp_all add: job_vars_def)

lemma holds_digest_updates [simp]:
  "holds_digest (h\<lparr>h_done := b\<rparr>) job fd = holds_digest h job fd"
  "holds_digest (h\<lparr>h_tiger_buffer := u\<rparr>) job fd = holds_digest h job fd"
  by (simp_all add: holds_digest_def)

lemma holds_digest_written:
  assumes "length (h_result h) = 64"
  shows "holds_digest (h\<lparr>h_result := blit (h_result h) 0 (job_digest job fd)\<rparr>) job fd"
    and "length (blit (h_result h) 0 (job_digest job fd)) = 64"
proof -
  have "digest_size (j_method job) \<le> 64" by (simp add: digest_size_def split: job_method.splits)
  with assms show "holds_digest (h\<lparr>h_result := blit (h_result h) 0 (job_digest job fd)\<rparr>) job fd"
    "length (blit (h_result h) 0 (job_digest job fd)) = 64"
    by (simp_all add: holds_digest_def blit_def length_job_digest)
qed

text \<open>The step that hashes writes the digest, or fails because a read failed.\<close>

lemma thread_step_hash:
  assumes "hasher_inv quiet h (Hashing d) (Polling job fd)" and "scratch_wf sc"
    and "\<not> (d \<and> j_method job = METHOD_TIGER)"
  shows "(\<exists>b. length b = 8192 \<and> thread_step sc h (Hashing d) =
      Some (Inr (h\<lparr>h_result := blit (h_result h) 0 (job_digest job fd), h_tiger_buffer := b\<rparr>, Hashed))) \<or>
    thread_step sc h (Hashing d) = Some (Inl Unix_error) \<and> \<not> no_errors fd"
proof -
  have inv: "job_fits job fd" "length (h_tiger_buffer h) = 8192" "h_fd h = fd" "h_begin_pos h = j_begin_pos job"
    "h_len h = j_len job" "h_method h = j_method job"
    using assms(1) by (simp_all add: hasher_inv_def job_vars_def)
  from run_method_cases [OF assms(2) inv(1,2)] show ?thesis
    using assms(3) by (elim disjE exE conjE) (auto simp: thread_step_def inv)
qed

lemma thread_step_inv:
  assumes "hasher_inv quiet h t c" and "scratch_wf sc" and "thread_step sc h t = Some (Inr (h', t'))"
  shows "hasher_inv quiet h' t' c"
proof (cases "\<exists>d. t = Hashing d")
  case True
  then obtain d where t: "t = Hashing d" by blast
  then obtain job fd where c: "c = Polling job fd" using inv_busy [OF assms(1)] by auto
  have "h_method h = j_method job" using assms(1) by (simp add: hasher_inv_def job_vars_def c)
  with assms(3) have nd: "\<not> (d \<and> j_method job = METHOD_TIGER)" by (auto simp: thread_step_def t)
  from thread_step_hash [OF assms(1) [unfolded t c] assms(2) nd] assms(3) t
  obtain b where b: "length b = 8192"
    "h' = h\<lparr>h_result := blit (h_result h) 0 (job_digest job fd), h_tiger_buffer := b\<rparr>" "t' = Hashed" by auto
  from assms(1) b holds_digest_written [of h job fd] show ?thesis by (auto simp: hasher_inv_def t c)
next
  case False
  with assms(1,3) show ?thesis
    by (cases t; cases c) (auto simp: thread_step_def hasher_inv_def split: if_splits)
qed

lemma disturb_simps [simp]: "busy (disturb t) = busy t" "(disturb t = Hashed) = (t = Hashed)"
  "(disturb t = Unborn) = (t = Unborn)" "(disturb t = Looping) = (t = Looping)"
  by (cases t; simp add: disturb_def)+

lemma length_tiger_hash:
  "tiger_hash temp buffer prefix s len = Some (buffer', digest) \<Longrightarrow> length buffer' = length buffer"
  by (auto simp: tiger_hash_def Let_def blit_def min_def split: if_splits)

lemma hasher_reach_inv: "hasher_reach quiet h t c \<Longrightarrow> hasher_inv quiet h t c"
proof (induction rule: hasher_reach.induct)
  case (reach_thread h t c sc h' t')
  then show ?case by (blast intro: thread_step_inv)
next
  case (reach_vars h t job fd h' t')
  then show ?case by (auto simp: hasher_inv_def ml_job_start_vars_def job_vars_def split: if_splits)
next
  case (reach_signal h t job fd)
  then show ?case by (auto simp: hasher_inv_def ml_job_start_signal_def mutex_free_def)
next
  case (reach_writing h d c result)
  then show ?case using inv_busy [of quiet h "Hashing d" c] by (auto simp: hasher_inv_def)
next
  case (reach_disturbed h c digest buffer)
  then obtain job fd where c: "c = Polling job fd" using inv_busy [of quiet h "Hashing True" c] by auto
  with reach_disturbed show ?case
    by (auto simp: hasher_inv_def job_vars_def determined_def blit_def)
next
  case (reach_main_tiger h t c temp prefix s len buffer digest)
  then show ?case by (auto simp: hasher_inv_def length_tiger_hash split: client.splits)
next
  case (reach_main_race h t c buffer)
  then show ?case by (auto simp: hasher_inv_def split: client.splits)
qed (auto simp: hasher_inv_def ml_job_done_def split: if_splits)

section \<open>The thread on its own\<close>

fun thread_run :: "nat \<Rightarrow> scratch \<Rightarrow> hasher \<Rightarrow> thread \<Rightarrow> (os_error + hasher \<times> thread) option" where
  "thread_run 0 sc h t = Some (Inr (h, t))"
| "thread_run (Suc n) sc h t =
     (case thread_step sc h t of
        Some (Inr (h', t')) \<Rightarrow> thread_run n sc h' t'
      | r \<Rightarrow> r)"

lemma run_hashed: "thread_run 1 sc h Hashed = Some (Inr (h\<lparr>h_done := True\<rparr>, Looping))"
  by (simp add: thread_step_def)

lemma run_hashing:
  assumes "hasher_inv quiet h (Hashing d) (Polling job fd)" and "scratch_wf sc" and "no_errors fd"
    and "\<not> (d \<and> j_method job = METHOD_TIGER)"
  shows "\<exists>h'. thread_run 2 sc h (Hashing d) = Some (Inr (h', Looping)) \<and> h_done h'"
  using thread_step_hash [OF assms(1,2,4)] assms(3) run_hashed by (auto simp: numeral_2_eq_2)

lemma run_waiting:
  assumes "hasher_inv quiet h Waiting (Polling job fd)" and "scratch_wf sc" and "no_errors fd" and "\<not> h_done h"
  shows "\<exists>h'. thread_run 3 sc h Waiting = Some (Inr (h', Looping)) \<and> h_done h'"
proof -
  have "hasher_inv quiet h (Hashing False) (Polling job fd)" using assms(1,4) by (simp add: hasher_inv_def)
  from run_hashing [OF this assms(2,3)] show ?thesis
    using assms(4) by (simp add: numeral_3_eq_3 numeral_2_eq_2 thread_step_def [of _ _ Waiting])
qed

lemma run_created:
  assumes "hasher_inv quiet h Created (Polling job fd)" and "scratch_wf sc" and "no_errors fd" and "\<not> h_done h"
  shows "\<exists>h'. thread_run 4 sc h Created = Some (Inr (h', Looping)) \<and> h_done h'"
proof -
  have "hasher_inv quiet h Waiting (Polling job fd)" using assms(1,4) by (simp add: hasher_inv_def)
  from run_waiting [OF this assms(2-4)] show ?thesis
    by (simp add: numeral_eq_Suc thread_step_def [of _ _ Created])
qed

section \<open>Properties\<close>

text \<open>C5: In every state the thread and its client reach, whatever the order of polls, jobs,
  wake-ups, and partial writes to the result array, a result that \<open>ml_job_done\<close> delivers is the
  digest, of the method asked for, of the range of the file asked for. For Tiger this needs that
  the main thread did not use the static buffer of \<open>tiger_hash\<close> while the thread hashed.\<close>

theorem hasher_delivers:
  assumes "hasher_reach quiet h t (Polling job fd)" and "quiet \<or> j_method job \<noteq> METHOD_TIGER"
    and "ml_job_done h result = (True, result')" and "length result = digest_size (j_method job)"
  shows "result' = (case j_method job of
      METHOD_MD4 \<Rightarrow> md4_digest (slice (f_bytes fd) (j_begin_pos job) (j_len job))
    | METHOD_MD5 \<Rightarrow> md5_digest (slice (f_bytes fd) (j_begin_pos job) (j_len job))
    | METHOD_SHA1 \<Rightarrow> sha1_digest (slice (f_bytes fd) (j_begin_pos job) (j_len job))
    | METHOD_TIGER \<Rightarrow> tiger_tree_root (slice (f_bytes fd) (j_begin_pos job) (j_len job)))"
  using hasher_reach_inv [OF assms(1)] assms(2-4)
  by (auto simp: hasher_inv_def ml_job_done_def determined_def holds_digest_def job_digest_def Let_def split: if_splits)

definition example_scratch :: scratch where
  "example_scratch = \<lparr>s_md4 = \<lparr>md4_state = [], md4_count = [], md4_buffer = replicate 64 0\<rparr>,
     s_md5 = \<lparr>md5_count = [], md5_abcd = [], md5_buf = replicate 64 0\<rparr>,
     s_sha1 = \<lparr>sha1_count = [], sha1_hashv = [], sha1_wbuf = replicate 16 0\<rparr>, s_temp = replicate 64 0\<rparr>"

definition example_hasher :: hasher where
  "example_hasher = \<lparr>h_done = True, h_result = replicate 64 0, h_fd = \<lparr>f_bytes = [], f_pos = 0, f_answers = []\<rparr>,
     h_begin_pos = 0, h_len = 0, h_method = METHOD_MD4, h_thread_started = False,
     h_tiger_buffer = replicate 8192 0\<rparr>"

definition example_job :: job where
  "example_job = \<lparr>j_begin_pos = 1, j_len = 2, j_method = METHOD_TIGER\<rparr>"

definition example_file :: os_file where
  "example_file = \<lparr>f_bytes = [1, 2, 3, 4], f_pos = 0, f_answers = [1]\<rparr>"

definition example_state :: hasher where
  "example_state = ml_job_start_signal (fst (ml_job_start_vars example_job example_file example_hasher Unborn))"

lemma example_scratch_wf: "scratch_wf example_scratch"
  by (simp add: scratch_wf_def example_scratch_def MD4_wf_def md5_wf_def sha1_wf_def)

lemma example_no_errors: "no_errors example_file"
  by (simp add: no_errors_def example_file_def)

lemma example_started: "hasher_reach True example_state Created (Polling example_job example_file)"
proof -
  have "hasher_reach True example_hasher Unborn Idle" by (intro reach_init) (simp_all add: example_hasher_def)
  then have "hasher_reach True (fst (ml_job_start_vars example_job example_file example_hasher Unborn)) Created
      (Starting example_job example_file)"
    by (rule reach_vars) (simp_all add: job_fits_def example_job_def example_file_def ml_job_start_vars_def example_hasher_def)
  then show ?thesis unfolding example_state_def by (rule reach_signal) (simp add: mutex_free_def)
qed

lemma reach_run:
  "thread_run n sc h t = Some (Inr (h', t')) \<Longrightarrow> hasher_reach quiet h t c \<Longrightarrow> scratch_wf sc \<Longrightarrow> hasher_reach quiet h' t' c"
  by (induction n arbitrary: h t) (auto split: option.splits sum.splits intro: reach_thread)

lemma example_finished:
  "\<exists>h. hasher_reach True h Looping (Polling example_job example_file) \<and> h_done h"
proof -
  have "\<not> h_done example_state" by (simp add: example_state_def ml_job_start_signal_def)
  from run_created [OF hasher_reach_inv [OF example_started] example_scratch_wf example_no_errors this]
  show ?thesis using reach_run [OF _ example_started example_scratch_wf] by blast
qed

lemma hasher_delivers_witness:
  "\<exists>h. ml_job_done h (replicate 24 0) = (True, tiger_tree_root [2, 3])"
proof -
  obtain h where h: "hasher_reach True h Looping (Polling example_job example_file)" "h_done h"
    using example_finished by blast
  have d: "ml_job_done h (replicate 24 0) = (True, snd (ml_job_done h (replicate 24 0)))"
    using h(2) by (simp add: ml_job_done_def)
  from hasher_delivers [OF h(1) _ d] d
  show ?thesis by (intro exI [of _ h]) (simp add: example_job_def example_file_def digest_size_def slice_def)
qed

text \<open>C33: From every reachable state in which a job is waited for and its file reads without
  error, at most four steps of the thread, whatever was in the local arrays, end with
  \<open>ml_job_done\<close> true; none of them fails. For Tiger the main thread must leave the static buffer
  alone, else the outcome of the hash step is not determined.\<close>

theorem hasher_progress:
  assumes "hasher_reach quiet h t (Polling job fd)" and "quiet \<or> j_method job \<noteq> METHOD_TIGER"
    and "scratch_wf sc" and "0 \<notin> set (f_answers fd)"
  shows "\<exists>n h' t'. n \<le> 4 \<and> thread_run n sc h t = Some (Inr (h', t')) \<and> fst (ml_job_done h' result)"
proof (cases "h_done h")
  case True
  then show ?thesis by (intro exI [of _ 0]) (simp add: ml_job_done_def)
next
  case False
  have inv: "hasher_inv quiet h t (Polling job fd)" and ne: "no_errors fd"
    using hasher_reach_inv [OF assms(1)] assms(4) by (simp_all add: no_errors_def)
  have "\<exists>n h'. n \<le> 4 \<and> thread_run n sc h t = Some (Inr (h', Looping)) \<and> h_done h'"
  proof (cases t)
    case (Hashing d)
    then have "\<not> (d \<and> j_method job = METHOD_TIGER)" using inv assms(2) by (auto simp: hasher_inv_def)
    from run_hashing [OF inv [unfolded Hashing] assms(3) ne this] show ?thesis
      unfolding Hashing by (intro exI [of _ 2]) simp
  next
    case Waiting
    from run_waiting [OF inv [unfolded Waiting] assms(3) ne False] show ?thesis
      unfolding Waiting by (intro exI [of _ 3]) simp
  next
    case Created
    from run_created [OF inv [unfolded Created] assms(3) ne False] show ?thesis
      unfolding Created by (intro exI [of _ 4]) simp
  next
    case Hashed
    show ?thesis unfolding Hashed by (intro exI [of _ 1] exI [of _ "h\<lparr>h_done := True\<rparr>"]) (use run_hashed [of sc h] in simp)
  qed (use inv False in \<open>auto simp: hasher_inv_def\<close>)
  then show ?thesis by (auto simp: ml_job_done_def)
qed

lemma hasher_progress_witness:
  "\<exists>n h' t'. n \<le> 4 \<and> thread_run n example_scratch example_state Created = Some (Inr (h', t')) \<and>
     fst (ml_job_done h' (replicate 24 0))"
  by (rule hasher_progress [OF example_started _ example_scratch_wf]) (simp_all add: example_file_def)

text \<open>The two halves of \<open>tiger_hash\<close>, between which another thread may run.\<close>

definition tiger_fill :: "u8 \<Rightarrow> u8 list \<Rightarrow> nat \<Rightarrow> u8 list \<Rightarrow> u8 list" where
  "tiger_fill prefix s len buffer = blit (buffer[0 := prefix]) 1 (take len s)"

definition tiger_take :: "u8 list \<Rightarrow> nat \<Rightarrow> u8 list \<Rightarrow> u8 list" where
  "tiger_take temp len buffer = concat (map le_bytes64 (static_tiger temp buffer (len + 1)))"

lemma tiger_hash_halves:
  "1 + len \<le> length buffer \<Longrightarrow>
   tiger_hash temp buffer prefix s len =
     Some (tiger_fill prefix s len buffer, tiger_take temp len (tiger_fill prefix s len buffer))"
  by (simp add: tiger_hash_def tiger_fill_def tiger_take_def Let_def)

lemma length_tiger_fill: "1 + len \<le> length buffer \<Longrightarrow> length (tiger_fill prefix s len buffer) = length buffer"
  by (auto simp: tiger_fill_def blit_def min_def)

text \<open>The hashing thread and the main thread share the static buffer of \<open>tiger_hash\<close>. When a
  second call fills the buffer after a first one and before its digest is taken, the first
  returns the digest of the second's bytes, whatever its own were.\<close>

theorem tiger_buffer_shared:
  assumes "length temp = 64" and "length buffer = 8192" and "len \<le> 1024" and "len \<le> length s2"
    and "len1 \<le> 1024"
  shows "tiger_take temp len (tiger_fill prefix2 s2 len (tiger_fill prefix1 s1 len1 buffer)) =
    tiger_digest (prefix2 # take len s2)"
proof -
  have l: "length (tiger_fill prefix1 s1 len1 buffer) = 8192" using assms by (simp add: length_tiger_fill)
  from tiger_hash_digest [OF assms(1) l assms(4,3), of prefix2] tiger_hash_halves [of len _ temp prefix2 s2] l assms(3)
  show ?thesis by auto
qed

lemma tiger_buffer_shared_witness:
  "tiger_take (replicate 64 0) 2 (tiger_fill 0 [3, 4] 2 (tiger_fill 0 [1, 2] 2 (replicate 8192 0))) = tiger_digest [0, 3, 4]"
  using tiger_buffer_shared [of "replicate 64 0" "replicate 8192 0" 2 "[3, 4]" 2 0 0 "[1, 2]"] by simp

end
