(* ===== verification/HE3.thy ===== *)
theory HE3
  imports C_Prelude "HOL-Library.Monad_Syntax"
begin

text \<open>
  The Huffman coder of Direct Connect file lists, \<^verbatim>\<open>src/src/networks/direct_connect/che3_c.c\<close>:
  bit access, the array of trees kept in descending order, the encoding table, the encoder and
  the decoder with its tree stored in an array. \<^verbatim>\<open>malloc\<close> is an argument: for a size it
  gives \<^verbatim>\<open>NULL\<close> (\<open>None\<close>) or a block of bytes, whatever they are; that the small nodes of the
  tree are there is taken for granted, as the code does. \<open>None\<close> as a result is an access outside
  an array or through \<^verbatim>\<open>NULL\<close>, or a shift by the width or more. The theories \<open>HE3_Optimal\<close> and
  \<open>HE3_Roundtrip\<close> have the proofs.
\<close>

section \<open>Bits\<close>

fun foldM :: "('a \<Rightarrow> 's \<Rightarrow> 's option) \<Rightarrow> 'a list \<Rightarrow> 's \<Rightarrow> 's option" where
  "foldM f [] s = Some s"
| "foldM f (x # xs) s = do {s \<leftarrow> f x s; foldM f xs s}"

definition load :: "u8 list \<Rightarrow> nat \<Rightarrow> u8 option" where
  "load data k = (if k < length data then Some (data ! k) else None)"

definition store :: "u8 list \<Rightarrow> nat \<Rightarrow> u8 \<Rightarrow> u8 list option" where
  "store data k v = (if k < length data then Some (data[k := v]) else None)"

definition get_bit :: "u8 list \<Rightarrow> nat \<Rightarrow> (u64 \<times> nat) option" where
  "get_bit data cur_pos = do {
     b \<leftarrow> load data (cur_pos div 8);
     Some (ucast (drop_bit (cur_pos mod 8) b) AND 1, cur_pos + 1)}"

definition get_bits :: "u8 list \<Rightarrow> nat \<Rightarrow> nat \<Rightarrow> (u64 \<times> nat) option" where
  "get_bits data cur_pos nb_bit =
     foldM (\<lambda>i (res, cur_pos). do {
        (b, cur_pos) \<leftarrow> get_bit data cur_pos;
        Some (push_bit 1 res OR b, cur_pos)}) [0..<nb_bit] (0, cur_pos)"

definition add_bit :: "u8 list \<Rightarrow> nat \<Rightarrow> bool \<Rightarrow> (u8 list \<times> nat) option" where
  "add_bit data bit_pos bit_value = do {
     data \<leftarrow> (if bit_pos mod 8 = 0 then do {b \<leftarrow> load data (bit_pos div 8); store data (bit_pos div 8) (b OR 0)}
             else Some data);
     data \<leftarrow> (if bit_value
             then do {b \<leftarrow> load data (bit_pos div 8); store data (bit_pos div 8) (b OR push_bit (bit_pos mod 8) 1)}
             else Some data);
     Some (data, bit_pos + 1)}"

definition add_bits :: "u8 list \<Rightarrow> nat \<Rightarrow> u64 \<Rightarrow> nat \<Rightarrow> (u8 list \<times> nat) option" where
  "add_bits data bit_pos pattern pattern_length =
     foldM (\<lambda>i (data, bit_pos).
         if 64 \<le> pattern_length - 1 - i then None
         else add_bit data bit_pos (bit pattern (pattern_length - 1 - i)))
       [0..<pattern_length] (data, bit_pos)"

section \<open>The Huffman tree\<close>

text \<open>A node is a leaf when its left son is \<^verbatim>\<open>NULL\<close>; then so is the right one.\<close>

datatype hufnode =
    Leaf (occur: nat) (val: u8)
  | Node (occur: nat) (left: hufnode) (right: hufnode)

fun is_leaf :: "hufnode \<Rightarrow> bool" where
  "is_leaf (Leaf _ _) = True"
| "is_leaf (Node _ _ _) = False"

text \<open>Where the loop of \<open>insert_node\<close> leaves \<open>j\<close>.\<close>

fun insert_pos :: "hufnode list \<Rightarrow> hufnode \<Rightarrow> nat \<Rightarrow> nat" where
  "insert_pos pre_tree nw 0 = 0"
| "insert_pos pre_tree nw (Suc j) =
     (if occur (pre_tree ! j) < occur nw \<or>
         occur (pre_tree ! j) = occur nw \<and> is_leaf (pre_tree ! j) \<and> \<not> is_leaf nw
      then insert_pos pre_tree nw j else Suc j)"

definition insert_node :: "hufnode \<Rightarrow> hufnode list \<Rightarrow> hufnode list" where
  "insert_node nw pre_tree =
     (let j = insert_pos pre_tree nw (length pre_tree) in take j pre_tree @ nw # drop j pre_tree)"

definition remove_node :: "hufnode list \<Rightarrow> hufnode \<times> hufnode list" where
  "remove_node pre_tree = (last pre_tree, butlast pre_tree)"

definition count_occur :: "u8 list \<Rightarrow> nat list" where
  "count_occur str = fold (\<lambda>c occur. occur[unat c := occur ! unat c + 1]) str (replicate 256 0)"

definition he3_leaves :: "nat list \<Rightarrow> hufnode list" where
  "he3_leaves occurs =
     fold (\<lambda>i pre_tree. if occurs ! i \<noteq> 0 then insert_node (Leaf (occurs ! i) (of_nat i)) pre_tree else pre_tree)
       [0..<256] []"

lemma length_insert_node: "length (insert_node nw pre_tree) = Suc (length pre_tree)"
  by (simp add: insert_node_def Let_def)

function build_tree :: "hufnode list \<Rightarrow> hufnode list" where
  "build_tree pre_tree =
     (if 1 < length pre_tree then
        (let (l, pre_tree) = remove_node pre_tree;
             (r, pre_tree) = remove_node pre_tree
         in build_tree (insert_node (Node (occur l + occur r) l r) pre_tree))
      else pre_tree)"
  by pat_completeness auto
termination
  by (relation "measure length") (auto simp: remove_node_def length_insert_node)

declare build_tree.simps [simp del]

text \<open>The table: length and pattern of each byte.\<close>

type_synonym hufencode = "nat \<times> u64"

fun use_hufnode :: "hufencode list \<Rightarrow> hufnode \<Rightarrow> nat \<Rightarrow> u64 \<Rightarrow> hufencode list" where
  "use_hufnode tbl_enc (Node _ l r) bits_len bits =
     (let tbl_enc = use_hufnode tbl_enc l (bits_len + 1) (push_bit 1 bits OR 0)
      in use_hufnode tbl_enc r (bits_len + 1) (push_bit 1 bits OR 1))"
| "use_hufnode tbl_enc (Leaf _ v) bits_len bits = tbl_enc[unat v := (bits_len, bits)]"

section \<open>The encoder\<close>

definition he3_header :: "u8 list \<Rightarrow> nat \<Rightarrow> nat \<Rightarrow> u8 list" where
  "he3_header str len nb_val =
     [0x48, 0x45, 0x33, 0xD, fold (\<lambda>c parity. parity XOR c) str 0,
      of_nat (len AND 255), of_nat (drop_bit 8 len AND 255), of_nat (drop_bit 16 len AND 255), of_nat (drop_bit 24 len AND 255),
      of_nat (nb_val AND 255), of_nat (drop_bit 8 nb_val AND 255)]"

definition write_bytes :: "u8 list \<Rightarrow> nat \<Rightarrow> u8 list \<Rightarrow> u8 list option" where
  "write_bytes data pos bs = (if pos + length bs \<le> length data then Some (blit data pos bs) else None)"

definition align8 :: "nat \<Rightarrow> nat" where
  "align8 bit_pos = (bit_pos + 7) div 8 * 8"

definition he3_chars :: "nat list \<Rightarrow> nat list" where
  "he3_chars occurs = filter (\<lambda>i. occurs ! i \<noteq> 0) [0..<256]"

text \<open>The result is the block and \<open>*final_len\<close>. The empty string gives \<^verbatim>\<open>NULL\<close> and the length 0.\<close>

type_synonym malloc = "nat \<Rightarrow> u8 list option"

definition he3_table :: "u8 list \<Rightarrow> hufencode list" where
  "he3_table str = use_hufnode (replicate 256 (0, 0)) (hd (build_tree (he3_leaves (count_occur str)))) 0 0"

definition encode_he3_data :: "malloc \<Rightarrow> u8 list \<Rightarrow> (u8 list \<times> nat) option" where
  "encode_he3_data malloc str =
     (let len = length str;
          chars = he3_chars (count_occur str);
          tbl_enc = he3_table str
      in if len = 0 then Some ([], 0)
         else if 2 ^ 31 \<le> len + 256 * 10 then None
         else do {
           data \<leftarrow> malloc (len + 256 * 10);
           data \<leftarrow> write_bytes data 0 (he3_header str len (length chars));
           data \<leftarrow> write_bytes data 11 (concat (map (\<lambda>i. [of_nat i, of_nat (fst (tbl_enc ! i))]) chars));
           (data, bit_pos) \<leftarrow> foldM (\<lambda>i (data, bit_pos). add_bits data bit_pos (snd (tbl_enc ! i)) (fst (tbl_enc ! i)))
             chars (data, (11 + 2 * length chars) * 8);
           let bit_pos = align8 bit_pos;
           (data, bit_pos) \<leftarrow> foldM (\<lambda>c (data, bit_pos). add_bits data bit_pos (snd (tbl_enc ! unat c)) (fst (tbl_enc ! unat c)))
             str (data, bit_pos);
           let bit_pos = align8 bit_pos;
           Some (data, bit_pos div 8 + 1)})"

section \<open>The decoder\<close>

text \<open>The walk down the tree in the array, one bit at a time.\<close>

partial_function (option) decode_char :: "u8 list \<Rightarrow> u8 list \<Rightarrow> nat \<Rightarrow> u64 \<Rightarrow> nat \<Rightarrow> (u8 \<times> nat) option" where
  "decode_char decode_array data offset_encoded cur_val nb_bit_val =
     Option.bind (load decode_array (2 ^ nb_bit_val + unat cur_val)) (\<lambda>v.
       if v = 0 then
         Option.bind (get_bit data offset_encoded) (\<lambda>(b, offset_encoded).
           decode_char decode_array data offset_encoded (push_bit 1 cur_val OR b) (nb_bit_val + 1))
       else Some (v, offset_encoded))"

declare decode_char.simps [code]

text \<open>The output loop runs until \<open>nb_output\<close> bytes are there.\<close>

fun decode_loop :: "u8 list \<Rightarrow> u8 list \<Rightarrow> nat \<Rightarrow> nat \<Rightarrow> u8 list option" where
  "decode_loop decode_array data 0 offset_encoded = Some []"
| "decode_loop decode_array data (Suc n) offset_encoded = do {
     (b, offset_encoded) \<leftarrow> get_bit data offset_encoded;
     (v, offset_encoded) \<leftarrow> decode_char decode_array data offset_encoded b 1;
     out \<leftarrow> decode_loop decode_array data n offset_encoded;
     Some (v # out)}"

text \<open>The four tests of the header stop at the first that fails, at the latest at the NUL byte that
  ends an OCaml string. Byte 9 is read as a signed \<^verbatim>\<open>char\<close>, the others are masked. When
  the number of couples is negative there is no couple and the decode array has two bytes: the
  walk then leaves the array at once wherever the offset, which the C code wraps, points. Numbers
  of bytes and shifts that do not fit an \<^verbatim>\<open>int\<close> are \<open>None\<close>. The block of the decode array is
  cleared before use; without it there is no output.\<close>

definition couples :: "u8 list \<Rightarrow> int" where
  "couples data = sint (data ! 9) + 256 * uint (data ! 10)"

definition decode_he3_data :: "malloc \<Rightarrow> u8 list \<Rightarrow> u8 list option" where
  "decode_he3_data malloc data =
     (if take 4 data \<noteq> [0x48, 0x45, 0x33, 0xD] then Some []
      else if length data < 11 then None
      else
        (let nb_output = uint (data ! 8) * 2 ^ 24 + uint (data ! 7) * 2 ^ 16 + uint (data ! 6) * 2 ^ 8 + uint (data ! 5);
             nb_couple = couples data
         in if 2 ^ 31 - 1 \<le> nb_output \<or> length data < 11 + 2 * nat nb_couple then None
            else
              (let lens = map (\<lambda>pos. unat (data ! (12 + pos * 2))) [0..<nat nb_couple];
                   max_len = fold max lens 0;
                   ttl_len = sum_list lens
               in if 30 < max_len + 1 then None
                  else if malloc (2 ^ (max_len + 1)) = None then Some []
                  else do {
                    let offset_pattern = nat (8 * (11 + nb_couple * 2));
                    let offset_encoded = offset_pattern + align8 ttl_len;
                    (decode_array, offset_pattern) \<leftarrow>
                      foldM (\<lambda>pos (decode_array, offset_pattern). do {
                          let v_len = unat (data ! (12 + pos * 2));
                          (value, offset_pattern) \<leftarrow> get_bits data offset_pattern v_len;
                          decode_array \<leftarrow> store decode_array (2 ^ v_len + unat value) (data ! (11 + pos * 2));
                          Some (decode_array, offset_pattern)})
                        [0..<nat nb_couple] (replicate (2 ^ (max_len + 1)) 0, offset_pattern);
                    output_string \<leftarrow> malloc (nat nb_output + 1);
                    decode_loop decode_array data (nat nb_output) offset_encoded})))"

section \<open>The functions called from OCaml\<close>

text \<open>The result string has \<open>final_len\<close> bytes, copied from the block.\<close>

definition ml_che3_compress :: "malloc \<Rightarrow> u8 list \<Rightarrow> u8 list option" where
  "ml_che3_compress malloc s = do {
     (result, final_len) \<leftarrow> encode_he3_data malloc s;
     if final_len \<le> length result then Some (take final_len result) else None}"

definition ml_che3_decompress :: "malloc \<Rightarrow> u8 list \<Rightarrow> u8 list option" where
  "ml_che3_decompress malloc s = decode_he3_data malloc s"

end
