(* ===== verification/HE3_Bits.thy ===== *)
theory HE3_Bits
  imports HE3
begin

text \<open>
  The bit level of the HE3 coder: a block of bytes as a sequence of bits, least significant bit
  first. Writing a list of bits sets those of the block that are 1 in the list, and clears none; the decoder's numbers are the values of
  the bit lists read, and its array positions identify the lists.
\<close>

section \<open>A block as bits\<close>

definition bit_at :: "u8 list \<Rightarrow> nat \<Rightarrow> bool" where
  "bit_at data p = bit (data ! (p div 8)) (p mod 8)"

definition bits_of :: "u8 list \<Rightarrow> nat \<Rightarrow> nat \<Rightarrow> bool list" where
  "bits_of data p n = map (bit_at data) [p..<p + n]"

lemma length_bits_of [simp]: "length (bits_of data p n) = n"
  by (simp add: bits_of_def)

lemma bits_of_Suc: "bits_of data p (Suc n) = bit_at data p # bits_of data (Suc p) n"
  by (simp add: bits_of_def upt_conv_Cons del: upt_Suc)

lemma bits_of_0 [simp]: "bits_of data p 0 = []"
  by (simp add: bits_of_def)

lemma bits_of_append: "bits_of data p (m + n) = bits_of data p m @ bits_of data (p + m) n"
proof -
  have "[p..<p + (m + n)] = [p..<p + m] @ [p + m..<p + m + n]"
    using upt_add_eq_append [of p "p + m" n] by (simp add: add.assoc)
  then show ?thesis by (simp add: bits_of_def)
qed

lemma bits_of_cong: "(\<And>q. p \<le> q \<Longrightarrow> q < p + n \<Longrightarrow> bit_at d q = bit_at e q) \<Longrightarrow> bits_of d p n = bits_of e p n"
  by (simp add: bits_of_def)

lemma byte_eq_bits:
  assumes "\<And>q. 8 * k \<le> q \<Longrightarrow> q < 8 * k + 8 \<Longrightarrow> bit_at d q = bit_at e q"
  shows "d ! k = e ! k"
proof (rule bit_word_eqI)
  fix n assume "n < LENGTH(8)"
  then have "n < 8" by simp
  then show "bit (d ! k) n = bit (e ! k) n"
    using assms [of "8 * k + n"] by (simp add: bit_at_def)
qed

section \<open>Writing\<close>

lemma add_bit_step:
  assumes "p < 8 * length data"
  shows "\<exists>data'. add_bit data p v = Some (data', p + 1) \<and> length data' = length data \<and>
    (\<forall>q < 8 * length data. bit_at data' q \<longleftrightarrow> bit_at data q \<or> v \<and> q = p)"
proof -
  let ?k = "p div 8"
  have k: "?k < length data" using assms by simp
  let ?d = "if v then data[?k := data ! ?k OR push_bit (p mod 8) 1] else data"
  have "add_bit data p v = Some (?d, p + 1)"
    using k by (simp add: add_bit_def load_def store_def)
  moreover have "bit_at ?d q \<longleftrightarrow> bit_at data q \<or> v \<and> q = p" if "q < 8 * length data" for q
  proof -
    have q: "q div 8 < length data" using that by simp
    have same: "q = p" if "q div 8 = p div 8" "q mod 8 = p mod 8"
      using that by (metis mult_div_mod_eq)
    have "q mod 8 < 8" "p mod 8 < 8" by simp_all
    then show ?thesis
      using q k same by (auto simp: bit_at_def nth_list_update bit_simps)
  qed
  ultimately show ?thesis by (intro exI [of _ ?d]) simp
qed

definition write_bits :: "bool list \<Rightarrow> u8 list \<Rightarrow> nat \<Rightarrow> (u8 list \<times> nat) option" where
  "write_bits bl data p = foldM (\<lambda>v (data, p). add_bit data p v) bl (data, p)"

text \<open>Writing sets bits and clears none.\<close>

lemma write_bits_or:
  "p + length bl \<le> 8 * length data \<Longrightarrow>
   \<exists>data'. write_bits bl data p = Some (data', p + length bl) \<and> length data' = length data \<and>
     (\<forall>q < 8 * length data. bit_at data' q \<longleftrightarrow> bit_at data q \<or> p \<le> q \<and> q < p + length bl \<and> bl ! (q - p))"
proof (induction bl arbitrary: data p)
  case Nil
  then show ?case by (auto simp: write_bits_def)
next
  case (Cons v bl)
  then have "p < 8 * length data" by simp
  then obtain d where d: "add_bit data p v = Some (d, p + 1)" "length d = length data"
    "\<forall>q < 8 * length data. bit_at d q \<longleftrightarrow> bit_at data q \<or> v \<and> q = p"
    using add_bit_step [of p data v] by blast
  have "p + 1 + length bl \<le> 8 * length d" using Cons.prems(1) d(2) by simp
  then obtain d' where d': "write_bits bl d (p + 1) = Some (d', p + 1 + length bl)" "length d' = length d"
    "\<forall>q < 8 * length d. bit_at d' q \<longleftrightarrow> bit_at d q \<or> p + 1 \<le> q \<and> q < p + 1 + length bl \<and> bl ! (q - (p + 1))"
    using Cons.IH [of "p + 1" d] by blast
  have "bit_at d' q \<longleftrightarrow> bit_at data q \<or> p \<le> q \<and> q < p + length (v # bl) \<and> (v # bl) ! (q - p)" if "q < 8 * length data" for q
    using d(2,3) d'(3) that by (cases "q = p") (auto simp: nth_Cons' le_less)
  with d(1,2) d'(1,2) show ?case by (simp add: write_bits_def)
qed

lemma foldM_map: "foldM f (map g xs) = foldM (\<lambda>x. f (g x)) xs"
proof (induction xs)
  case (Cons x xs)
  show ?case by (rule ext) (simp add: Cons.IH)
qed (simp add: fun_eq_iff)

lemma foldM_append: "foldM f (xs @ ys) = (\<lambda>s. Option.bind (foldM f xs s) (foldM f ys))"
proof (induction xs)
  case (Cons x xs)
  show ?case by (rule ext) (simp add: Cons.IH)
qed (simp add: fun_eq_iff)

lemma foldM_concat: "foldM f (concat xss) = foldM (foldM f) xss"
proof (induction xss)
  case (Cons xs xss)
  show ?case by (rule ext) (simp add: Cons.IH foldM_append)
qed (simp add: fun_eq_iff)

text \<open>The bits of a pattern, from the upper to the lower.\<close>

definition pattern_bits :: "hufencode \<Rightarrow> bool list" where
  "pattern_bits e = map (\<lambda>i. bit (snd e) (fst e - 1 - i)) [0..<fst e]"

lemma foldM_cong: "(\<And>x s. x \<in> set xs \<Longrightarrow> f x s = g x s) \<Longrightarrow> foldM f xs s = foldM g xs s"
  by (induction xs arbitrary: s) (auto intro: Option.bind_cong)

lemma add_bits_write: "fst e \<le> 64 \<Longrightarrow> add_bits data p (snd e) (fst e) = write_bits (pattern_bits e) data p"
  unfolding add_bits_def write_bits_def pattern_bits_def foldM_map by (rule foldM_cong) auto

lemma foldM_add_bits:
  "(\<And>x. x \<in> set xs \<Longrightarrow> fst (f x) \<le> 64) \<Longrightarrow>
   foldM (\<lambda>x (data, p). add_bits data p (snd (f x)) (fst (f x))) xs (data, p) =
     write_bits (concat (map (\<lambda>x. pattern_bits (f x)) xs)) data p"
proof -
  assume "\<And>x. x \<in> set xs \<Longrightarrow> fst (f x) \<le> 64"
  then have "foldM (\<lambda>x (data, p). add_bits data p (snd (f x)) (fst (f x))) xs (data, p) =
      foldM (\<lambda>x. foldM (\<lambda>v (data, p). add_bit data p v) (pattern_bits (f x))) xs (data, p)"
    by (intro foldM_cong) (auto simp: add_bits_write write_bits_def)
  then show ?thesis
    by (simp only: write_bits_def foldM_concat foldM_map)
qed

section \<open>Reading\<close>

definition bl_word :: "u64 \<Rightarrow> bool list \<Rightarrow> u64" where
  "bl_word = foldl (\<lambda>r b. push_bit 1 r OR of_bool b)"

definition bl_idx :: "nat \<Rightarrow> bool list \<Rightarrow> nat" where
  "bl_idx = foldl (\<lambda>r b. 2 * r + of_bool b)"

lemma bl_simps [simp]:
  "bl_word r [] = r" "bl_word r (b # bl) = bl_word (push_bit 1 r OR of_bool b) bl"
  "bl_word r (bl @ [b]) = push_bit 1 (bl_word r bl) OR of_bool b"
  "bl_idx n [] = n" "bl_idx n (b # bl) = bl_idx (2 * n + of_bool b) bl"
  "bl_idx n (bl @ [b]) = 2 * bl_idx n bl + of_bool b"
  by (simp_all add: bl_word_def bl_idx_def)

lemma bit_shift1: "bit (push_bit 1 r OR of_bool b) n \<longleftrightarrow> (if n = 0 then b else n < 64 \<and> bit r (n - 1))" for r :: u64
  by (cases n) (auto simp: bit_or_iff bit_push_bit_iff bit_of_bool_iff simp del: push_bit_Suc)

lemma get_bit_at: "p < 8 * length data \<Longrightarrow> get_bit data p = Some (of_bool (bit_at data p), p + 1)"
proof -
  assume "p < 8 * length data"
  then have k: "p div 8 < length data" by simp
  have "ucast (drop_bit (p mod 8) (data ! (p div 8))) AND 1 = (of_bool (bit_at data p) :: u64)"
    by (rule bit_word_eqI) (auto simp: bit_at_def bit_simps bit_1_iff)
  with k show ?thesis by (simp add: get_bit_def load_def)
qed

lemma get_bits_fold:
  "p + n \<le> 8 * length data \<Longrightarrow>
   foldM (\<lambda>i (res, cur_pos). do {(b, cur_pos) \<leftarrow> get_bit data cur_pos; Some (push_bit 1 res OR b, cur_pos)}) [k..<k + n] (r, p) =
     Some (bl_word r (bits_of data p n), p + n)"
proof (induction n arbitrary: k p r)
  case (Suc n)
  have "[k..<k + Suc n] = k # [Suc k..<Suc k + n]" by (simp add: upt_conv_Cons del: upt_Suc)
  then show ?case
    using Suc.prems Suc.IH [where p = "Suc p" and r = "push_bit 1 r OR of_bool (bit_at data p)" and k = "Suc k"]
    by (simp add: get_bit_at bits_of_Suc del: upt_Suc)
qed simp

lemma get_bits_eq: "p + n \<le> 8 * length data \<Longrightarrow> get_bits data p n = Some (bl_word 0 (bits_of data p n), p + n)"
  using get_bits_fold [of p n data 0 0] by (simp add: get_bits_def)

text \<open>The array position of a list of bits is its value with a 1 in front.\<close>

lemma bl_idx_split: "bl_idx n bl = n * 2 ^ length bl + bl_idx 0 bl"
proof (induction bl arbitrary: n)
  case (Cons b bl)
  have "bl_idx (2 * n + of_bool b) bl = (2 * n + of_bool b) * 2 ^ length bl + bl_idx 0 bl" by (rule Cons.IH)
  moreover have "bl_idx (of_bool b) bl = of_bool b * 2 ^ length bl + bl_idx 0 bl" by (rule Cons.IH)
  ultimately show ?case by (simp add: algebra_simps)
qed simp

lemma bl_idx_less: "bl_idx 0 bl < 2 ^ length bl"
  by (induction bl rule: rev_induct) auto

lemma bl_idx_pos: "0 < n \<Longrightarrow> 0 < bl_idx n bl"
  by (induction bl rule: rev_induct) simp_all

lemma bl_idx_inj: "bl_idx 1 b1 = bl_idx 1 b2 \<Longrightarrow> b1 = b2"
proof (induction b1 arbitrary: b2 rule: rev_induct)
  case Nil
  then show ?case
    using bl_idx_pos [of 1 "butlast b2"] by (cases b2 rule: rev_cases) (auto split: if_splits)
next
  case (snoc b b1)
  show ?case
  proof (cases b2 rule: rev_cases)
    case Nil
    then show ?thesis using snoc.prems bl_idx_pos [of 1 b1] by (auto split: if_splits)
  next
    case (snoc b2' b')
    then have "2 * bl_idx 1 b1 + of_bool b = 2 * bl_idx 1 b2' + of_bool b'" using snoc.prems by simp
    then have "b = b' \<and> bl_idx 1 b1 = bl_idx 1 b2'" by (cases b; cases b'; simp; presburger)
    then show ?thesis using snoc.IH snoc by blast
  qed
qed

lemma unat_bl_word: "length bl \<le> 64 \<Longrightarrow> unat (bl_word 0 bl) = bl_idx 0 bl"
proof (induction bl rule: rev_induct)
  case (snoc b bl)
  have "bl_idx 0 bl < 2 ^ 63"
    using bl_idx_less [of bl] snoc.prems power_increasing [of "length bl" 63 "2 :: nat"] by simp
  moreover have "push_bit 1 (bl_word 0 bl) OR of_bool b = push_bit 1 (bl_word 0 bl) + of_bool b"
  proof (rule disjunctive_add_eq_or [symmetric], rule bit_word_eqI)
    fix n
    have "\<not> bit (push_bit 1 (bl_word 0 bl)) 0" by (simp only: bit_push_bit_iff) simp
    moreover have "bit (of_bool b :: u64) n \<longrightarrow> n = 0" by (auto simp: bit_of_bool_iff)
    ultimately show "bit (push_bit 1 (bl_word 0 bl) AND of_bool b) n = bit 0 n"
      by (auto simp only: bit_and_iff bit_0_eq bot_apply bot_bool_def)
  qed
  ultimately show ?case
    using snoc by (simp add: push_bit_eq_mult unat_word_ariths)
qed simp

lemma unat_index: "length bl \<le> 64 \<Longrightarrow> 2 ^ length bl + unat (bl_word 0 bl) = bl_idx 1 bl"
  using bl_idx_split [of 1 bl] by (simp add: unat_bl_word)

lemma bl_idx_bound: "length bl \<le> n \<Longrightarrow> bl_idx 1 bl < 2 ^ (n + 1)"
proof -
  assume "length bl \<le> n"
  then have "(2 :: nat) ^ length bl \<le> 2 ^ n" by (rule power_increasing) simp
  then show ?thesis using bl_idx_split [of 1 bl] bl_idx_less [of bl] by (simp only: Suc_eq_plus1 [symmetric] power_Suc)
qed

text \<open>A pattern built along a path is the path.\<close>

lemma bl_word_bit:
  "length bl \<le> 64 \<Longrightarrow> i < length bl \<Longrightarrow> bit (bl_word r bl) (length bl - 1 - i) = bl ! i"
proof (induction bl rule: rev_induct)
  case (snoc b bl)
  show ?case
  proof (cases "i = length bl")
    case True
    then show ?thesis by (simp only: bl_simps bit_shift1) simp
  next
    case False
    with snoc.prems have i: "i < length bl" by simp
    then have "length (bl @ [b]) - 1 - i = Suc (length bl - 1 - i)" "length bl - i < 64" using snoc.prems by simp_all
    moreover have "bit (bl_word r bl) (length bl - 1 - i) = bl ! i" using snoc.IH i snoc.prems by simp
    ultimately show ?thesis using i by (simp only: bl_simps bit_shift1) (simp add: nth_append)
  qed
qed simp

lemma pattern_bits_path: "length bl \<le> 64 \<Longrightarrow> pattern_bits (length bl, bl_word 0 bl) = bl"
  using bl_word_bit [of bl _ 0] by (intro nth_equalityI) (simp_all add: pattern_bits_def)

end
