(* ===== verification/HE3_Tree.thy ===== *)
theory HE3_Tree
  imports HE3_Bits "HOL-Library.Multiset" "HOL-Library.Sublist"
begin

text \<open>
  The trees of the HE3 coder: the paths of a tree are a prefix-free code, building one tree
  from the leaves keeps the leaves, and the table \<open>use_hufnode\<close> fills holds the path of each
  leaf. Decoding needs no more of the tree.
\<close>

section \<open>The code of a tree\<close>

fun paths :: "hufnode \<Rightarrow> (u8 \<times> bool list) list" where
  "paths (Leaf _ v) = [(v, [])]"
| "paths (Node _ l r) = map (apsnd ((#) False)) (paths l) @ map (apsnd ((#) True)) (paths r)"

definition vals :: "hufnode \<Rightarrow> u8 list" where
  "vals t = map fst (paths t)"

lemma vals_simps [simp]: "vals (Leaf n v) = [v]" "vals (Node n l r) = vals l @ vals r"
  by (simp_all add: vals_def)

lemma paths_Node:
  "(v, bl) \<in> set (paths (Node n l r)) \<longleftrightarrow>
     (\<exists>c. bl = False # c \<and> (v, c) \<in> set (paths l)) \<or> (\<exists>c. bl = True # c \<and> (v, c) \<in> set (paths r))"
  by (auto intro: rev_image_eqI)

lemma paths_prefix:
  "(v, b1) \<in> set (paths t) \<Longrightarrow> (w, b2) \<in> set (paths t) \<Longrightarrow> prefix b1 b2 \<Longrightarrow> v = w \<and> b1 = b2"
proof (induction t arbitrary: b1 b2)
  case (Node n l r)
  from Node.prems(1,2) show ?case unfolding paths_Node
    using Node.IH Node.prems(3) by (elim disjE exE conjE) simp_all
qed simp

lemma paths_nonempty: "paths t \<noteq> []"
  by (induction t) simp_all

lemma paths_positive: "1 < length (paths t) \<Longrightarrow> (v, bl) \<in> set (paths t) \<Longrightarrow> bl \<noteq> []"
  by (cases t) (auto simp: paths_Node simp del: paths.simps(2))

fun height :: "hufnode \<Rightarrow> nat" where
  "height (Leaf _ _) = 0"
| "height (Node _ l r) = Suc (max (height l) (height r))"

lemma paths_height: "(v, bl) \<in> set (paths t) \<Longrightarrow> length bl \<le> height t"
proof (induction t arbitrary: bl)
  case (Node n l r)
  from Node.prems show ?case unfolding paths_Node
    by (elim disjE exE conjE) (auto dest!: Node.IH)
qed simp

section \<open>Filling the table\<close>

lemma length_use_hufnode [simp]: "length (use_hufnode tbl t n bits) = length tbl"
  by (induction t arbitrary: tbl n bits) (simp_all add: Let_def)

lemma use_hufnode_other: "v \<notin> set (vals t) \<Longrightarrow> use_hufnode tbl t n bits ! unat v = tbl ! unat v"
  by (induction t arbitrary: tbl n bits) (auto simp: Let_def nth_list_update simp flip: word_unat_eq_iff)

lemma use_hufnode_path:
  "distinct (vals t) \<Longrightarrow> length tbl = 256 \<Longrightarrow> (v, bl) \<in> set (paths t) \<Longrightarrow>
   use_hufnode tbl t n bits ! unat v = (n + length bl, bl_word bits bl)"
proof (induction t arbitrary: tbl n bits bl)
  case (Leaf m w)
  have "unat w < 256" using unsigned_less [of w] by simp
  with Leaf show ?case by simp
next
  case (Node m l r)
  then consider c where "(v, c) \<in> set (paths l)" "bl = False # c" | c where "(v, c) \<in> set (paths r)" "bl = True # c"
    unfolding paths_Node by blast
  then show ?case
  proof cases
    case 1
    then have "v \<in> set (vals l)" by (force simp: vals_def)
    then have "v \<notin> set (vals r)" using Node.prems(1) by auto
    with 1 Node show ?thesis by (simp add: Let_def use_hufnode_other)
  next
    case 2
    with Node show ?thesis by (simp add: Let_def)
  qed
qed

section \<open>Building\<close>

definition all_vals :: "hufnode list \<Rightarrow> u8 multiset" where
  "all_vals ts = mset (concat (map vals ts))"

lemma all_vals_simps [simp]:
  "all_vals [] = {#}" "all_vals (t # ts) = mset (vals t) + all_vals ts" "all_vals (ts @ us) = all_vals ts + all_vals us"
  by (simp_all add: all_vals_def)

lemma all_vals_insert: "all_vals (insert_node t ts) = mset (vals t) + all_vals ts"
proof -
  have "all_vals ts = all_vals (take j ts) + all_vals (drop j ts)" for j
    using all_vals_simps(3) [of "take j ts" "drop j ts"] by (simp del: all_vals_simps(3))
  then show ?thesis by (simp add: insert_node_def Let_def)
qed

lemma all_vals_remove: "ts \<noteq> [] \<Longrightarrow> remove_node ts = (t, us) \<Longrightarrow> all_vals ts = mset (vals t) + all_vals us \<and> length ts = Suc (length us)"
  by (cases ts rule: rev_cases) (auto simp: remove_node_def)

lemma build_tree_vals: "ts \<noteq> [] \<Longrightarrow> length (build_tree ts) = 1 \<and> all_vals (build_tree ts) = all_vals ts"
proof (induction ts rule: build_tree.induct)
  case (1 ts)
  show ?case
  proof (cases "1 < length ts")
    case False
    with "1.prems" show ?thesis by (cases ts) (simp_all add: build_tree.simps)
  next
    case True
    obtain l us where l: "remove_node ts = (l, us)" by fastforce
    note lv = all_vals_remove [OF "1.prems" l]
    then have "us \<noteq> []" using True by auto
    obtain r ws where r: "remove_node us = (r, ws)" by fastforce
    note rv = all_vals_remove [OF \<open>us \<noteq> []\<close> r]
    have "insert_node (Node (occur l + occur r) l r) ws \<noteq> []"
      using length_insert_node [of "Node (occur l + occur r) l r" ws] by auto
    with "1.IH" [OF True refl l [symmetric] refl r [symmetric]] l r True lv rv show ?thesis
      by (subst (1 2) build_tree.simps) (simp add: all_vals_insert)
  qed
qed

definition he3_tree :: "u8 list \<Rightarrow> hufnode" where
  "he3_tree str = hd (build_tree (he3_leaves (count_occur str)))"

lemma length_count_occur [simp]: "length (count_occur str) = 256"
proof -
  have "length (fold (\<lambda>c occur. occur[unat c := occur ! unat c + 1]) str occs) = length occs" for occs :: "nat list"
    by (induction str arbitrary: occs) simp_all
  then show ?thesis by (simp add: count_occur_def)
qed

lemma count_occur_pos: "i < 256 \<Longrightarrow> count_occur str ! i \<noteq> 0 \<longleftrightarrow> of_nat i \<in> set str"
proof -
  assume i: "i < 256"
  have "fold (\<lambda>c occur. occur[unat c := occur ! unat c + 1]) str occs ! i \<noteq> 0 \<longleftrightarrow> occs ! i \<noteq> 0 \<or> of_nat i \<in> set str"
    if "length occs = 256" for occs :: "nat list"
    using that
  proof (induction str arbitrary: occs)
    case (Cons c str)
    have "unat c < 256" using unsigned_less [of c] by simp
    moreover have "unat c = i \<longleftrightarrow> of_nat i = c" using i by (auto simp: unat_of_nat)
    ultimately show ?case using Cons.IH [of "occs[unat c := occs ! unat c + 1]"] Cons.prems
      by (auto simp: nth_list_update)
  qed simp
  from this [of "replicate 256 0"] i show ?thesis by (simp add: count_occur_def)
qed

lemma leaves_vals: "all_vals (he3_leaves occs) = mset (map of_nat (he3_chars occs))"
proof -
  have "all_vals (fold (\<lambda>i ts. if occs ! i \<noteq> 0 then insert_node (Leaf (occs ! i) (of_nat i)) ts else ts) is ts) =
      all_vals ts + mset (map of_nat (filter (\<lambda>i. occs ! i \<noteq> 0) is))" for "is" ts
    by (induction "is" arbitrary: ts) (simp_all add: all_vals_insert)
  from this [of "[0..<256]" "[]"] show ?thesis by (simp add: he3_leaves_def he3_chars_def)
qed

lemma he3_tree_vals:
  assumes "str \<noteq> []"
  shows "mset (vals (he3_tree str)) = mset (map of_nat (he3_chars (count_occur str)))"
proof -
  from assms obtain c where c: "c \<in> set str" by fastforce
  have u: "unat c < 256" using unsigned_less [of c] by simp
  then have "unat c \<in> set (he3_chars (count_occur str))"
    using c count_occur_pos [of "unat c" str] by (simp add: he3_chars_def)
  then have "all_vals (he3_leaves (count_occur str)) \<noteq> {#}" by (auto simp: leaves_vals)
  then have ne: "he3_leaves (count_occur str) \<noteq> []" by auto
  obtain t where t: "build_tree (he3_leaves (count_occur str)) = [t]"
    using build_tree_vals [OF ne] by (auto simp: length_Suc_conv)
  show ?thesis using build_tree_vals [OF ne] t by (simp add: he3_tree_def leaves_vals)
qed

lemma he3_chars_set: "set (map of_nat (he3_chars (count_occur str))) = (set str :: u8 set)"
proof -
  have "c \<in> of_nat ` set (he3_chars (count_occur str))" if "c \<in> set str" for c :: u8
  proof -
    have "unat c < 256" using unsigned_less [of c] by simp
    then have "unat c \<in> set (he3_chars (count_occur str))"
      using that count_occur_pos [of "unat c" str] by (simp add: he3_chars_def)
    then show ?thesis by (intro image_eqI [of _ _ "unat c"]) simp_all
  qed
  moreover have "of_nat i \<in> set str" if "i \<in> set (he3_chars (count_occur str))" for i
    using that count_occur_pos [of i str] by (simp add: he3_chars_def)
  ultimately show ?thesis by auto
qed

lemma he3_chars_distinct: "distinct (map (of_nat :: nat \<Rightarrow> u8) (he3_chars occs))"
proof -
  have "inj_on (of_nat :: nat \<Rightarrow> u8) (set (he3_chars occs))"
    by (rule inj_onI) (auto simp: he3_chars_def dest!: arg_cong [where f = unat] simp: unat_of_nat)
  then show ?thesis by (simp add: distinct_map he3_chars_def)
qed

lemma he3_tree_distinct: "str \<noteq> [] \<Longrightarrow> distinct (vals (he3_tree str)) \<and> set (vals (he3_tree str)) = set str"
  using he3_tree_vals [of str] he3_chars_distinct [of "count_occur str"] he3_chars_set [of str]
  by (metis mset_eq_imp_distinct_iff mset_eq_setD)

section \<open>The code of a string\<close>

definition he3_code :: "u8 list \<Rightarrow> u8 \<Rightarrow> bool list" where
  "he3_code str v = pattern_bits (he3_table str ! unat v)"

lemma he3_code_path:
  assumes "str \<noteq> []" and "v \<in> set str" and "height (he3_tree str) \<le> 64"
  shows "(v, he3_code str v) \<in> set (paths (he3_tree str))"
    and "fst (he3_table str ! unat v) = length (he3_code str v)"
proof -
  have "v \<in> set (vals (he3_tree str))" using he3_tree_distinct [OF assms(1)] assms(2) by simp
  then obtain bl where bl: "(v, bl) \<in> set (paths (he3_tree str))" by (auto simp: vals_def)
  have "he3_table str ! unat v = (length bl, bl_word 0 bl)"
    using use_hufnode_path [OF _ _ bl, of "replicate 256 (0, 0)" 0 0] he3_tree_distinct [OF assms(1)]
    by (simp add: he3_table_def he3_tree_def)
  moreover have "length bl \<le> 64" using paths_height [OF bl] assms(3) by simp
  ultimately show "(v, he3_code str v) \<in> set (paths (he3_tree str))"
    and "fst (he3_table str ! unat v) = length (he3_code str v)"
    using bl by (simp_all add: he3_code_def pattern_bits_path)
qed

end
