(* ===== verification/HE3_Optimal.thy ===== *)
theory HE3_Optimal
  imports HE3_Tree
begin

text \<open>
  What the order of the array of trees is for. \<open>insert_node\<close> keeps it descending, so that
  \<open>build_tree\<close> merges the two lightest trees. Hence the code is as short as any with the
  counts of the string (for any lengths of patterns that satisfy Kraft's inequality), and no
  pattern is longer than a Fibonacci bound allows, so that it fits the 64 bits of the table.
\<close>

section \<open>The order of the array\<close>

definition descending :: "hufnode list \<Rightarrow> bool" where
  "descending = sorted_wrt (\<lambda>a b. occur b \<le> occur a)"

lemma insert_pos_order:
  "j0 \<le> length ts \<Longrightarrow> insert_pos ts nw j0 \<le> j0 \<and>
     (\<forall>k. insert_pos ts nw j0 \<le> k \<and> k < j0 \<longrightarrow> occur (ts ! k) \<le> occur nw) \<and>
     (0 < insert_pos ts nw j0 \<longrightarrow> occur nw \<le> occur (ts ! (insert_pos ts nw j0 - 1)))"
proof (induction j0)
  case (Suc j)
  then show ?case by (auto simp: less_Suc_eq le_Suc_eq)
qed simp

lemma descending_insert:
  assumes "descending ts"
  shows "descending (insert_node nw ts)"
proof -
  define j where "j = insert_pos ts nw (length ts)"
  have j: "j \<le> length ts" "\<And>k. j \<le> k \<Longrightarrow> k < length ts \<Longrightarrow> occur (ts ! k) \<le> occur nw"
    "0 < j \<Longrightarrow> occur nw \<le> occur (ts ! (j - 1))"
    using insert_pos_order [of "length ts" ts nw] by (simp_all add: j_def)
  have ord: "occur (ts ! k) \<le> occur (ts ! i)" if "i < k" "k < length ts" for i k
    using assms that by (simp add: descending_def sorted_wrt_iff_nth_less)
  have before: "occur nw \<le> occur t" if "t \<in> set (take j ts)" for t
  proof -
    from that obtain i where "i < length (take j ts)" "t = take j ts ! i" unfolding in_set_conv_nth by blast
    then have i: "i < j" "t = ts ! i" using j(1) by simp_all
    then have "occur (ts ! (j - 1)) \<le> occur t" using ord [of i "j - 1"] j(1) by (cases "i = j - 1") auto
    with j(3) i(1) show ?thesis by simp
  qed
  have after: "occur t \<le> occur nw" if "t \<in> set (drop j ts)" for t
    using that j(1,2) by (auto simp: in_set_conv_nth)
  have "descending (take j ts @ drop j ts)" using assms by simp
  then show ?thesis
    using before after unfolding insert_node_def Let_def j_def [symmetric] descending_def sorted_wrt_append
    by (auto intro: order_trans)
qed

lemma mset_insert_node: "mset (insert_node nw ts) = add_mset nw (mset ts)"
proof -
  have "mset ts = mset (take j ts) + mset (drop j ts)" for j
    by (metis append_take_drop_id mset_append)
  then show ?thesis by (simp add: insert_node_def Let_def)
qed

lemma set_insert_node [simp]: "set (insert_node nw ts) = insert nw (set ts)"
  using arg_cong [OF mset_insert_node [of nw ts], of set_mset] by simp

lemma two_last:
  assumes "1 < length ts"
  obtains us r l where "ts = us @ [r, l]" "remove_node ts = (l, us @ [r])" "remove_node (us @ [r]) = (r, us)"
proof -
  obtain vs l where v: "ts = vs @ [l]" using assms by (cases ts rule: rev_cases) auto
  moreover obtain us r where "vs = us @ [r]" using assms v by (cases vs rule: rev_cases) auto
  ultimately show thesis using that by (simp add: remove_node_def butlast_append)
qed

lemma build_tree_step:
  "build_tree (us @ [r, l]) = build_tree (insert_node (Node (occur l + occur r) l r) us)"
  by (subst build_tree.simps) (simp add: remove_node_def butlast_append)

text \<open>What every step keeps holds of the tree at the end.\<close>

lemma build_tree_invariant:
  assumes step: "\<And>us r l. P (us @ [r, l]) \<Longrightarrow> P (insert_node (Node (occur l + occur r) l r) us)"
  shows "P ts \<Longrightarrow> P (build_tree ts)"
proof (induction ts rule: build_tree.induct)
  case (1 ts)
  show ?case
  proof (cases "1 < length ts")
    case True
    then obtain us r l where u: "ts = us @ [r, l]" "remove_node ts = (l, us @ [r])" "remove_node (us @ [r]) = (r, us)"
      by (rule two_last)
    have "P (build_tree (insert_node (Node (occur l + occur r) l r) us))"
      using "1.IH" [OF True u(2) [symmetric] refl u(3) [symmetric] refl] step [of us r l] "1.prems" u(1) by simp
    then show ?thesis by (simp add: u(1) build_tree_step)
  next
    case False
    with "1.prems" show ?thesis by (subst build_tree.simps) simp
  qed
qed

section \<open>Weights and heights\<close>

text \<open>\<open>light a b\<close>: the sons of \<open>a\<close> are no heavier than \<open>b\<close>, which was there when they
  were merged.\<close>

fun light :: "hufnode \<Rightarrow> hufnode \<Rightarrow> bool" where
  "light (Leaf _ _) u = True"
| "light (Node _ l r) u \<longleftrightarrow> occur l \<le> occur u \<and> occur r \<le> occur u"

fun merged :: "(u8 \<Rightarrow> nat) \<Rightarrow> hufnode \<Rightarrow> bool" where
  "merged f (Leaf n v) \<longleftrightarrow> n = f v \<and> 0 < n"
| "merged f (Node n l r) \<longleftrightarrow> n = occur l + occur r \<and> merged f l \<and> merged f r \<and> light l r \<and> light r l"

definition forest :: "(u8 \<Rightarrow> nat) \<Rightarrow> hufnode list \<Rightarrow> bool" where
  "forest f ts \<longleftrightarrow> descending ts \<and> (\<forall>t \<in> set ts. merged f t \<and> (\<forall>u \<in> set ts. light t u))"

lemma light_self: "merged f t \<Longrightarrow> light t t"
  by (cases t) auto

lemma light_mono: "light t u \<Longrightarrow> occur u \<le> occur v \<Longrightarrow> light t v"
  by (cases t) auto

lemma forest_step:
  assumes "forest f (us @ [r, l])"
  shows "forest f (insert_node (Node (occur l + occur r) l r) us)"
proof -
  let ?n = "Node (occur l + occur r) l r"
  have m: "\<forall>t \<in> set (us @ [r, l]). merged f t" and li: "\<And>t u. t \<in> set (us @ [r, l]) \<Longrightarrow> u \<in> set (us @ [r, l]) \<Longrightarrow> light t u"
    and d: "descending us" "occur l \<le> occur r" "\<forall>u \<in> set us. occur r \<le> occur u"
    using assms by (auto simp: forest_def descending_def sorted_wrt_append)
  have "merged f ?n" using m li by simp
  moreover have "light ?n u" if "u \<in> set us" for u using d that by (auto intro: order_trans)
  moreover have "light t ?n" if "t \<in> set us" for t
    using that li [of t l] light_mono [of t l ?n] by simp
  ultimately show ?thesis
    using m li descending_insert [OF d(1)] light_self [of f ?n] by (auto simp: forest_def)
qed

lemma build_forest: "forest f ts \<Longrightarrow> forest f (build_tree ts)"
  by (rule build_tree_invariant [where P = "forest f"]) (rule forest_step)

text \<open>The weight of a tree of each height is at least a Fibonacci number.\<close>

fun fibh :: "nat \<Rightarrow> nat" where
  "fibh 0 = 1"
| "fibh (Suc 0) = 2"
| "fibh (Suc (Suc n)) = fibh (Suc n) + fibh n"

lemma fibh_node:
  assumes "fibh (height l) \<le> occur l" and "light l r" and "0 < occur r" and "0 < occur l"
    and "\<And>n a b. l = Node n a b \<Longrightarrow> fibh (height a) \<le> occur a \<and> fibh (height b) \<le> occur b"
  shows "fibh (Suc (height l)) \<le> occur l + occur r"
proof (cases l)
  case (Node n a b)
  then have "fibh (max (height a) (height b)) \<le> occur r" using assms(2,5) by (fastforce simp: max_def)
  with assms(1) Node show ?thesis by simp
qed (use assms(3,4) in simp)

lemma merged_pos: "merged f t \<Longrightarrow> 0 < occur t"
  by (induction t) auto

lemma fibh_mono: "m \<le> n \<Longrightarrow> fibh m \<le> fibh n"
proof (rule lift_Suc_mono_le [of fibh])
  show "fibh k \<le> fibh (Suc k)" for k by (cases k) simp_all
qed

lemma merged_height:
  "merged f t \<Longrightarrow> fibh (height t) \<le> occur t \<and>
     (\<forall>n l r. t = Node n l r \<longrightarrow> fibh (height l) \<le> occur l \<and> fibh (height r) \<le> occur r)"
proof (induction t)
  case (Node n l r)
  from Node.prems have n: "n = occur l + occur r" and m: "merged f l" "merged f r" "light l r" "light r l" by simp_all
  note pos = merged_pos [OF m(1)] merged_pos [OF m(2)]
  from Node.IH(1) [OF m(1)] Node.IH(2) [OF m(2)]
  have "fibh (Suc (height l)) \<le> occur l + occur r" "fibh (Suc (height r)) \<le> occur r + occur l"
    by (blast intro: fibh_node [OF _ m(3) pos(2,1)] fibh_node [OF _ m(4) pos(1,2)])+
  then have "fibh (Suc (max (height l) (height r))) \<le> occur l + occur r" by (simp add: max_def)
  with n Node.IH(1) [OF m(1)] Node.IH(2) [OF m(2)] show ?case by simp
qed simp

fun fib_run :: "nat \<Rightarrow> nat \<Rightarrow> nat \<Rightarrow> nat" where
  "fib_run 0 a b = a"
| "fib_run (Suc n) a b = fib_run n b (a + b)"

lemma fib_run: "fib_run n (fibh k) (fibh (Suc k)) = fibh (n + k)"
proof (induction n arbitrary: k)
  case (Suc n)
  from Suc.IH [of "Suc k"] show ?case by (simp add: add.commute)
qed simp

lemma height_bound:
  assumes "merged f t" and "occur t < 2 ^ 31"
  shows "height t \<le> 44"
proof (rule ccontr)
  assume "\<not> height t \<le> 44"
  then have "fibh 45 \<le> fibh (height t)" by (intro fibh_mono) simp
  moreover have "fib_run (numeral k) a b = fib_run (pred_numeral k) b (a + b)" for k a b
    by (simp only: numeral_eq_Suc fib_run.simps)
  then have "fib_run 45 1 2 = 2971215073" by simp
  then have "(2 :: nat) ^ 31 \<le> fibh 45" using fib_run [of 45 0] by simp
  ultimately show False using merged_height [OF assms(1)] assms(2) by simp
qed

section \<open>The cost of a code\<close>

fun cost :: "hufnode \<Rightarrow> nat" where
  "cost (Leaf _ _) = 0"
| "cost (Node n l r) = n + cost l + cost r"

definition dot :: "hufnode list \<Rightarrow> nat list \<Rightarrow> nat" where
  "dot ts ds = sum_list (map2 (\<lambda>t d. occur t * d) ts ds)"

lemma dot_simps [simp]: "dot [] ds = 0" "dot (t # ts) (d # ds) = occur t * d + dot ts ds"
  by (simp_all add: dot_def)

lemma dot_append [simp]: "length ts = length ds \<Longrightarrow> dot (ts @ us) (ds @ es) = dot ts ds + dot us es"
  by (simp add: dot_def)

text \<open>Kraft's inequality, for lengths up to \<open>L\<close>.\<close>

definition kraft :: "nat \<Rightarrow> nat list \<Rightarrow> bool" where
  "kraft L ds \<longleftrightarrow> (\<forall>d \<in> set ds. d \<le> L) \<and> (\<Sum>d\<leftarrow>ds. 2 ^ (L - d)) \<le> (2 :: nat) ^ L"

lemma kraft_mset: "mset ds = mset es \<Longrightarrow> kraft L ds = kraft L es"
proof -
  assume m: "mset ds = mset es"
  then have "mset (map (\<lambda>d. 2 ^ (L - d)) ds) = mset (map (\<lambda>d. 2 ^ (L - d) :: nat) es)" by simp
  then have "(\<Sum>d\<leftarrow>ds. 2 ^ (L - d)) = (\<Sum>d\<leftarrow>es. (2 :: nat) ^ (L - d))" by (metis sum_mset_sum_list)
  moreover have "set ds = set es" by (rule mset_eq_setD [OF m])
  ultimately show ?thesis by (simp add: kraft_def)
qed

text \<open>The longest length moved to the lightest tree.\<close>

lemma longest_last:
  "descending (us @ [l]) \<Longrightarrow> length ds = length us + 1 \<Longrightarrow>
   \<exists>es e. mset (es @ [e]) = mset ds \<and> length es = length us \<and> (\<forall>x \<in> set es. x \<le> e) \<and>
     dot (us @ [l]) (es @ [e]) \<le> dot (us @ [l]) ds"
proof (induction us arbitrary: ds)
  case Nil
  then obtain d where "ds = [d]" by (auto simp: length_Suc_conv)
  then show ?case by (intro exI [of _ "[]"] exI [of _ d]) simp
next
  case (Cons u us)
  then obtain d ds' where ds: "ds = d # ds'" "length ds' = length us + 1" by (cases ds) auto
  have ul: "occur l \<le> occur u" and "descending (us @ [l])" using Cons.prems(1) by (simp_all add: descending_def)
  with Cons.IH [of ds'] ds(2) obtain es e where e: "mset (es @ [e]) = mset ds'" "length es = length us"
    "\<forall>x \<in> set es. x \<le> e" "dot (us @ [l]) (es @ [e]) \<le> dot (us @ [l]) ds'" by blast
  show ?case
  proof (cases "d \<le> e")
    case True
    with e ds show ?thesis by (intro exI [of _ "d # es"] exI [of _ e]) simp
  next
    case False
    obtain a b where a: "occur u = occur l + a" "d = e + b"
      using ul False le_Suc_ex [of "occur l" "occur u"] le_Suc_ex [of e d] by auto
    have "occur u * e + occur l * d \<le> occur u * d + occur l * e" unfolding a by (simp add: algebra_simps)
    with False e ds show ?thesis by (intro exI [of _ "e # es"] exI [of _ d]) (auto simp: add_mset_commute)
  qed
qed

text \<open>The two longest, made equal.\<close>

lemma kraft_level:
  assumes "kraft L (es @ [e, d])" and "\<forall>x \<in> set es. x \<le> e" and "e \<le> d"
  shows "kraft L (es @ [e, e])"
proof -
  have le: "\<forall>x \<in> set (es @ [e]). x \<le> e" "e \<le> L" using assms by (simp_all add: kraft_def)
  define S where "S = (\<Sum>x\<leftarrow>es @ [e]. (2 :: nat) ^ (e - x))"
  have "(\<Sum>x\<leftarrow>xs. 2 ^ (L - x)) = (2 :: nat) ^ (L - e) * (\<Sum>x\<leftarrow>xs. 2 ^ (e - x))" if "\<forall>x \<in> set xs. x \<le> e" for xs
    using that le(2) by (induction xs) (simp_all add: distrib_left flip: power_add)
  from this [OF le(1)] have s: "(\<Sum>x\<leftarrow>es @ [e]. 2 ^ (L - x)) = 2 ^ (L - e) * S" by (simp add: S_def)
  have L: "(2 :: nat) ^ L = 2 ^ (L - e) * 2 ^ e" using le(2) by (simp flip: power_add)
  have "2 ^ (L - e) * S + 2 ^ (L - d) \<le> (2 :: nat) ^ L" using assms(1) s by (simp add: kraft_def)
  moreover have "(0 :: nat) < 2 ^ (L - d)" by simp
  ultimately have "2 ^ (L - e) * S < (2 :: nat) ^ (L - e) * 2 ^ e" using L by linarith
  then have "S + 1 \<le> 2 ^ e" by simp
  then have "2 ^ (L - e) * (S + 1) \<le> (2 :: nat) ^ L" unfolding L by (rule mult_le_mono2)
  with s assms(1) show ?thesis by (simp add: kraft_def)
qed

lemma kraft_pair:
  assumes "descending (us @ [r, l])" and "length ds = length us + 2" and "kraft L ds"
  obtains es e where "length es = length us" "kraft L (es @ [e, e])" "dot (us @ [r, l]) (es @ [e, e]) \<le> dot (us @ [r, l]) ds"
proof -
  from longest_last [of "us @ [r]" l ds] assms(1,2) obtain es1 d where d: "mset (es1 @ [d]) = mset ds"
    "length es1 = length us + 1" "\<forall>x \<in> set es1. x \<le> d" "dot ((us @ [r]) @ [l]) (es1 @ [d]) \<le> dot ((us @ [r]) @ [l]) ds"
    by auto
  have "descending (us @ [r])" using assms(1) by (simp add: descending_def sorted_wrt_append)
  from longest_last [OF this d(2)] obtain es e where e: "mset (es @ [e]) = mset es1" "length es = length us"
    "\<forall>x \<in> set es. x \<le> e" "dot (us @ [r]) (es @ [e]) \<le> dot (us @ [r]) es1" by auto
  have "e \<in> set es1" using mset_eq_setD [OF e(1)] by auto
  then have ed: "e \<le> d" using d(3) by simp
  have "mset (es @ [e, d]) = mset ds" using d(1) e(1) [symmetric] by (simp add: add_mset_commute)
  then have "kraft L (es @ [e, d])" using kraft_mset assms(3) by blast
  from kraft_level [OF this e(3) ed] have k: "kraft L (es @ [e, e])" .
  have "dot (us @ [r, l]) (es @ [e, e]) \<le> dot ((us @ [r]) @ [l]) ((es @ [e]) @ [d])" using ed e(2) by simp
  also have "\<dots> \<le> dot ((us @ [r]) @ [l]) (es1 @ [d])" using e(2,4) d(2) by (simp del: append_assoc)
  also have "\<dots> \<le> dot (us @ [r, l]) ds" using d(4) by simp
  finally show thesis using that e(2) k by blast
qed

text \<open>One length less for the two merged.\<close>

lemma kraft_merge:
  assumes "kraft L (es @ [e, e])"
  shows "0 < e" and "kraft L (es @ [e - 1])"
proof -
  have s: "(\<Sum>x\<leftarrow>es. 2 ^ (L - x)) + 2 * 2 ^ (L - e) \<le> (2 :: nat) ^ L" and e: "e \<le> L"
    using assms by (simp_all add: kraft_def)
  show pos: "0 < e"
  proof (rule ccontr)
    assume "\<not> 0 < e"
    then have "2 * (2 :: nat) ^ L \<le> 2 ^ L" using s by simp
    then show False by simp
  qed
  have "L - (e - 1) = Suc (L - e)" using pos e by simp
  with s assms show "kraft L (es @ [e - 1])" by (simp add: kraft_def)
qed

theorem build_tree_optimal:
  "descending ts \<Longrightarrow> length ds = length ts \<Longrightarrow> kraft L ds \<Longrightarrow>
   sum_list (map cost (build_tree ts)) \<le> sum_list (map cost ts) + dot ts ds"
proof (induction ts arbitrary: ds rule: build_tree.induct)
  case (1 ts)
  show ?case
  proof (cases "1 < length ts")
    case False
    then show ?thesis by (subst build_tree.simps) simp
  next
    case True
    then obtain us r l where u: "ts = us @ [r, l]" "remove_node ts = (l, us @ [r])" "remove_node (us @ [r]) = (r, us)"
      by (rule two_last)
    let ?n = "Node (occur l + occur r) l r" and ?j = "insert_pos us (Node (occur l + occur r) l r) (length us)"
    obtain es e where e: "length es = length us" "kraft L (es @ [e, e])" "dot ts (es @ [e, e]) \<le> dot ts ds"
      using kraft_pair [of us r l ds L] "1.prems" u(1) by auto
    let ?ds = "take ?j es @ (e - 1) # drop ?j es"
    have j: "?j \<le> length us" using insert_pos_order [of "length us" us ?n] by simp
    have "mset ?ds = mset (es @ [e - 1])"
      by simp (metis append_take_drop_id mset_append)
    then have "kraft L ?ds" using kraft_mset kraft_merge(2) [OF e(2)] by blast
    moreover have "descending (insert_node ?n us)"
      using "1.prems"(1) u(1) by (intro descending_insert) (simp add: descending_def sorted_wrt_append)
    moreover have "length ?ds = length (insert_node ?n us)" using e(1) by (simp add: length_insert_node)
    ultimately have ih: "sum_list (map cost (build_tree (insert_node ?n us))) \<le>
        sum_list (map cost (insert_node ?n us)) + dot (insert_node ?n us) ?ds"
      using "1.IH" [OF True u(2) [symmetric] refl u(3) [symmetric] refl] by blast
    have "sum_list (map cost (insert_node ?n us)) = cost ?n + sum_list (map cost us)"
      using arg_cong [OF mset_insert_node [of ?n us], of "\<lambda>m. sum_mset (image_mset cost m)"]
      by (simp flip: sum_mset_sum_list)
    moreover have "dot us es = dot (take ?j us) (take ?j es) + dot (drop ?j us) (drop ?j es)"
      using dot_append [of "take ?j us" "take ?j es" "drop ?j us" "drop ?j es"] e(1) by simp
    then have "dot (insert_node ?n us) ?ds = dot us es + (occur l + occur r) * (e - 1)"
      using e(1) by (simp add: insert_node_def Let_def)
    moreover have "dot ts (es @ [e, e]) = dot us es + (occur l + occur r) * e"
      using e(1) by (simp add: u(1) distrib_right)
    moreover have "(occur l + occur r) * (e - 1) + (occur l + occur r) = (occur l + occur r) * e"
      using kraft_merge(1) [OF e(2)] by (cases e) simp_all
    ultimately show ?thesis using ih e(3) by (simp add: u(1) build_tree_step)
  qed
qed

section \<open>The tree of a string\<close>

definition he3_bytes :: "u8 list \<Rightarrow> u8 list" where
  "he3_bytes str = map of_nat (he3_chars (count_occur str))"

definition he3_encode :: "u8 list \<Rightarrow> u8 list \<Rightarrow> bool list" where
  "he3_encode str s = concat (map (he3_code str) s)"

lemma he3_bytes_set: "distinct (he3_bytes str)" "set (he3_bytes str) = set str" "length (he3_bytes str) = card (set str)"
proof -
  show d: "distinct (he3_bytes str)" and s: "set (he3_bytes str) = set str"
    using he3_chars_distinct [of "count_occur str"] he3_chars_set [of str] by (simp_all add: he3_bytes_def)
  show "length (he3_bytes str) = card (set str)" using distinct_card [OF d] s by simp
qed

lemma count_occur_count:
  assumes "i < 256"
  shows "count_occur str ! i = count_list str (of_nat i)"
proof -
  have "fold (\<lambda>c occur. occur[unat c := occur ! unat c + 1]) str occs ! i = occs ! i + count_list str (of_nat i)"
    if "length occs = 256" for occs :: "nat list"
    using that
  proof (induction str arbitrary: occs)
    case (Cons c str)
    have "unat c < 256" using unsigned_less [of c] by simp
    moreover have "unat c = i \<longleftrightarrow> of_nat i = c" using assms by (auto simp: unat_of_nat)
    ultimately show ?case using Cons.IH [of "occs[unat c := occs ! unat c + 1]"] Cons.prems
      by (auto simp: nth_list_update)
  qed simp
  from this [of "replicate 256 0"] assms show ?thesis by (simp add: count_occur_def)
qed

lemma leaves_mset: "mset (he3_leaves (count_occur str)) = image_mset (\<lambda>v. Leaf (count_list str v) v) (mset (he3_bytes str))"
proof -
  let ?leaf = "\<lambda>i. Leaf (count_occur str ! i) (of_nat i)"
  have "mset (fold (\<lambda>i ts. if count_occur str ! i \<noteq> 0 then insert_node (?leaf i) ts else ts) is ts) =
      mset ts + mset (map ?leaf (filter (\<lambda>i. count_occur str ! i \<noteq> 0) is))" for "is" ts
    by (induction "is" arbitrary: ts) (simp_all add: mset_insert_node)
  from this [of "[0..<256]" "[]"]
  have "mset (he3_leaves (count_occur str)) = mset (map ?leaf (he3_chars (count_occur str)))"
    by (simp add: he3_leaves_def he3_chars_def)
  also have "map ?leaf (he3_chars (count_occur str)) = map (\<lambda>v. Leaf (count_list str v) v) (he3_bytes str)"
    by (simp add: he3_bytes_def he3_chars_def count_occur_count)
  finally show ?thesis by simp
qed

lemma leaves_descending: "descending (he3_leaves occs)"
proof -
  have "descending ts \<Longrightarrow>
      descending (fold (\<lambda>i ts. if occs ! i \<noteq> 0 then insert_node (Leaf (occs ! i) (of_nat i)) ts else ts) is ts)" for "is" ts
    by (induction "is" arbitrary: ts) (simp_all add: descending_insert)
  from this [of "[]" "[0..<256]"] show ?thesis by (simp add: he3_leaves_def descending_def)
qed

lemma leaves_set: "set (he3_leaves (count_occur str)) = (\<lambda>v. Leaf (count_list str v) v) ` set str"
  using arg_cong [OF leaves_mset [of str], of set_mset] by (simp add: he3_bytes_set(2))

lemma leaves_forest: "forest (count_list str) (he3_leaves (count_occur str))"
  using leaves_descending [of "count_occur str"] by (auto simp: forest_def leaves_set count_list_0_iff simp flip: neq0_conv)

text \<open>Sums over the leaves are sums over the string.\<close>

lemma sum_leaves: "(\<Sum>t\<leftarrow>he3_leaves (count_occur str). occur t * f (val t)) = (\<Sum>v\<leftarrow>str. f v)"
proof -
  have "(\<Sum>t\<leftarrow>he3_leaves (count_occur str). occur t * f (val t)) = (\<Sum>v\<leftarrow>he3_bytes str. count_list str v * f v)"
    using arg_cong [OF leaves_mset [of str], of "\<lambda>m. sum_mset (image_mset (\<lambda>t. occur t * f (val t)) m)"]
    by (simp add: image_mset.compositionality comp_def flip: sum_mset_sum_list)
  also have "\<dots> = (\<Sum>v \<in> set str. count_list str v * f v)"
    using he3_bytes_set [of str] by (simp add: sum_list_distinct_conv_sum_set)
  also have "\<dots> = (\<Sum>v\<leftarrow>str. f v)" by (simp add: sum_list_map_eq_sum_count)
  finally show ?thesis .
qed

lemma he3_tree_built:
  assumes "str \<noteq> []"
  shows "build_tree (he3_leaves (count_occur str)) = [he3_tree str]"
proof -
  have "he3_leaves (count_occur str) \<noteq> []" using leaves_set [of str] assms by (metis empty_set image_is_empty set_empty)
  from build_tree_vals [OF this] show ?thesis by (auto simp: he3_tree_def length_Suc_conv)
qed

lemma he3_tree_merged: "str \<noteq> [] \<Longrightarrow> merged (count_list str) (he3_tree str)"
  using build_forest [OF leaves_forest [of str]] he3_tree_built [of str] by (simp add: forest_def)

lemma he3_tree_occur:
  assumes "str \<noteq> []"
  shows "occur (he3_tree str) = length str"
proof -
  let ?P = "\<lambda>ts. sum_list (map occur ts) = length str"
  have "?P (insert_node (Node (occur l + occur r) l r) us)" if "?P (us @ [r, l])" for us r l
    using that arg_cong [OF mset_insert_node [of "Node (occur l + occur r) l r" us], of "\<lambda>m. sum_mset (image_mset occur m)"]
    by (simp flip: sum_mset_sum_list)
  moreover have "?P (he3_leaves (count_occur str))" using sum_leaves [of "\<lambda>_. 1" str] by (simp add: sum_list_triv)
  ultimately have "?P (build_tree (he3_leaves (count_occur str)))" by (rule build_tree_invariant [where P = ?P])
  then show ?thesis by (simp add: he3_tree_built [OF assms])
qed

text \<open>No pattern is longer than 44 bits.\<close>

lemma he3_tree_height: "str \<noteq> [] \<Longrightarrow> length str < 2 ^ 31 \<Longrightarrow> height (he3_tree str) \<le> 44"
  using height_bound [OF he3_tree_merged [of str]] he3_tree_occur [of str] by simp

text \<open>The cost of the tree is the number of bits of the text.\<close>

lemma merged_occur: "merged f t \<Longrightarrow> occur t = (\<Sum>p\<leftarrow>paths t. f (fst p))"
  by (induction t) (simp_all add: comp_def)

lemma merged_cost: "merged f t \<Longrightarrow> cost t = (\<Sum>p\<leftarrow>paths t. f (fst p) * length (snd p))"
proof (induction t)
  case (Node n l r)
  then have "n = (\<Sum>p\<leftarrow>paths l. f (fst p)) + (\<Sum>p\<leftarrow>paths r. f (fst p))" using merged_occur [of f] by simp
  with Node show ?case by (simp add: comp_def sum_list_addf)
qed simp

lemma he3_encode_cost:
  assumes "str \<noteq> []" and "length str < 2 ^ 31"
  shows "length (he3_encode str str) = cost (he3_tree str)"
proof -
  note tree = he3_tree_distinct [OF assms(1)]
  have path: "bl = he3_code str v" if "(v, bl) \<in> set (paths (he3_tree str))" for v bl
  proof -
    have "v \<in> set str" using that tree by (force simp: vals_def)
    then have "(v, he3_code str v) \<in> set (paths (he3_tree str))"
      using he3_code_path(1) [OF assms(1)] he3_tree_height [OF assms] by simp
    moreover have "distinct (map fst (paths (he3_tree str)))" using tree by (simp add: vals_def)
    ultimately show ?thesis using that by (meson eq_key_imp_eq_value)
  qed
  have "cost (he3_tree str) = (\<Sum>p\<leftarrow>paths (he3_tree str). count_list str (fst p) * length (snd p))"
    by (rule merged_cost [OF he3_tree_merged [OF assms(1)]])
  also have "\<dots> = (\<Sum>p\<leftarrow>paths (he3_tree str). count_list str (fst p) * length (he3_code str (fst p)))"
    using path by (intro arg_cong [where f = sum_list] map_cong) auto
  also have "\<dots> = (\<Sum>v\<leftarrow>vals (he3_tree str). count_list str v * length (he3_code str v))"
    by (simp add: vals_def comp_def)
  also have "\<dots> = (\<Sum>v \<in> set str. count_list str v * length (he3_code str v))"
    using tree by (simp add: sum_list_distinct_conv_sum_set)
  also have "\<dots> = (\<Sum>v\<leftarrow>str. length (he3_code str v))" by (simp add: sum_list_map_eq_sum_count)
  finally show ?thesis by (simp add: he3_encode_def length_concat comp_def)
qed

lemma he3_encode_le:
  assumes "str \<noteq> []" and "length str < 2 ^ 31" and "\<forall>v \<in> set str. d v \<le> L" and "(\<Sum>v \<in> set str. 2 ^ (L - d v)) \<le> (2 :: nat) ^ L"
  shows "length (he3_encode str str) \<le> (\<Sum>v\<leftarrow>str. d v)"
proof -
  let ?ts = "he3_leaves (count_occur str)"
  let ?ds = "map (d \<circ> val) ?ts"
  have "(\<Sum>x\<leftarrow>?ds. (2 :: nat) ^ (L - x)) = (\<Sum>v\<leftarrow>he3_bytes str. 2 ^ (L - d v))"
    using arg_cong [OF leaves_mset [of str], of "\<lambda>m. sum_mset (image_mset (\<lambda>t. (2 :: nat) ^ (L - d (val t))) m)"]
    by (simp add: image_mset.compositionality comp_def flip: sum_mset_sum_list)
  also have "\<dots> = (\<Sum>v \<in> set str. 2 ^ (L - d v))"
    using he3_bytes_set [of str] by (simp add: sum_list_distinct_conv_sum_set)
  finally have "kraft L ?ds" using assms(3,4) by (auto simp: kraft_def leaves_set)
  from build_tree_optimal [OF leaves_descending _ this, of "count_occur str"]
  have "cost (he3_tree str) \<le> sum_list (map cost ?ts) + dot ?ts ?ds" by (simp add: he3_tree_built [OF assms(1)])
  moreover have "sum_list (map cost ?ts) = 0" by (simp add: leaves_set)
  moreover have "dot ts (map (d \<circ> val) ts) = (\<Sum>t\<leftarrow>ts. occur t * d (val t))" for ts by (induction ts) simp_all
  ultimately show ?thesis using sum_leaves [of d str] he3_encode_cost [OF assms(1,2)] by simp
qed

end
