(* ===== verification/HE3_Roundtrip.thy ===== *)
theory HE3_Roundtrip
  imports HE3_Optimal
begin

text \<open>
  What the HE3 coder writes and reads. The compressor stays inside its block, writes the header
  and the couples, and sets the bits of its patterns and of the text in the block: a bit is 1
  when it is 1 in the code or was 1 in the block from \<^verbatim>\<open>malloc\<close>, which the code does not clear.
  The decompressor inverts every prefix code written in the format. So the round trip holds when
  the block was clear, for texts of at least two and fewer than 128 different bytes, none of
  them NUL, and a tree of height at most 29.
\<close>

section \<open>What the encoder writes\<close>

definition he3_start :: "u8 list \<Rightarrow> nat" where
  "he3_start str = 11 + 2 * length (he3_bytes str)"

definition he3_pos :: "u8 list \<Rightarrow> nat" where
  "he3_pos str = align8 (8 * he3_start str + length (he3_encode str (he3_bytes str)))"

text \<open>The length reported: one more than the bytes written.\<close>

definition he3_size :: "u8 list \<Rightarrow> nat" where
  "he3_size str = align8 (he3_pos str + length (he3_encode str str)) div 8 + 1"

definition he3_front :: "u8 list \<Rightarrow> u8 list" where
  "he3_front str = he3_header str (length str) (length (he3_bytes str)) @
     concat (map (\<lambda>v. [v, of_nat (fst (he3_table str ! unat v))]) (he3_bytes str))"

lemma align8_ge: "p \<le> align8 p"
  unfolding align8_def by linarith

lemma align8_add: "align8 (8 * a + x) = 8 * a + align8 x"
proof -
  have "8 * a + x + 7 = (x + 7) + a * 8" by simp
  then have "(8 * a + x + 7) div 8 = (x + 7) div 8 + a" by (simp only: div_mult_self1 zero_neq_numeral)
  then show ?thesis by (simp add: align8_def)
qed

lemma chars_small: "i \<in> set (he3_chars occs) \<Longrightarrow> unat (of_nat i :: u8) = i"
  by (simp add: he3_chars_def unat_of_nat)

lemma length_he3_front: "length (he3_front str) = he3_start str"
proof -
  have "length (concat (map (\<lambda>v. [v, f v]) vs)) = 2 * length vs" for f :: "u8 \<Rightarrow> u8" and vs
    by (induction vs) simp_all
  then show ?thesis by (simp add: he3_front_def he3_start_def he3_header_def)
qed

text \<open>The patterns are short enough for the shifts.\<close>

lemma he3_table_fst:
  assumes "str \<noteq> []" and "length str < 2 ^ 31" and "v \<in> set str"
  shows "fst (he3_table str ! unat v) = length (he3_code str v)" and "length (he3_code str v) \<le> 44"
proof -
  have h: "height (he3_tree str) \<le> 44" by (rule he3_tree_height [OF assms(1,2)])
  then have h64: "height (he3_tree str) \<le> 64" by simp
  show "fst (he3_table str ! unat v) = length (he3_code str v)" by (rule he3_code_path(2) [OF assms(1,3) h64])
  show "length (he3_code str v) \<le> 44"
    using paths_height [OF he3_code_path(1) [OF assms(1,3) h64]] h by simp
qed

lemma foldM_bytes:
  assumes "str \<noteq> []" and "length str < 2 ^ 31" and "set s \<subseteq> set str"
  shows "foldM (\<lambda>c (data, p). add_bits data p (snd (he3_table str ! unat c)) (fst (he3_table str ! unat c))) s (data, p) =
     write_bits (he3_encode str s) data p"
proof -
  have "fst (he3_table str ! unat c) \<le> 64" if "c \<in> set s" for c
    using he3_table_fst [OF assms(1,2), of c] that assms(3) by auto
  from foldM_add_bits [of s "\<lambda>c. he3_table str ! unat c", OF this] show ?thesis
    by (simp add: he3_encode_def he3_code_def [abs_def])
qed

lemma foldM_chars:
  assumes "str \<noteq> []" and "length str < 2 ^ 31"
  shows "foldM (\<lambda>i (data, p). add_bits data p (snd (he3_table str ! i)) (fst (he3_table str ! i))) (he3_chars (count_occur str)) (data, p) =
     write_bits (he3_encode str (he3_bytes str)) data p"
proof -
  have "set (he3_bytes str) \<subseteq> set str" by (simp add: he3_bytes_set)
  from foldM_bytes [OF assms this, of data p] show ?thesis
    unfolding he3_bytes_def foldM_map
    by (subst (asm) foldM_cong [of _ _ "\<lambda>i (data, p). add_bits data p (snd (he3_table str ! i)) (fst (he3_table str ! i))"])
      (auto simp: chars_small he3_bytes_def)
qed

lemma encode_front:
  assumes "he3_start str \<le> length data"
  shows "do {data \<leftarrow> write_bytes data 0 (he3_header str (length str) (length (he3_chars (count_occur str))));
      write_bytes data 11 (concat (map (\<lambda>i. [of_nat i, of_nat (fst (he3_table str ! i))]) (he3_chars (count_occur str))))}
    = Some (he3_front str @ drop (he3_start str) data)"
proof -
  let ?h = "he3_header str (length str) (length (he3_chars (count_occur str)))"
  let ?c = "concat (map (\<lambda>v. [v, of_nat (fst (he3_table str ! unat v))]) (he3_bytes str))"
  have c: "concat (map (\<lambda>i. [of_nat i, of_nat (fst (he3_table str ! i))]) (he3_chars (count_occur str))) = ?c"
  proof -
    have "map (\<lambda>i. [of_nat i, of_nat (fst (he3_table str ! i))]) (he3_chars (count_occur str)) =
        map (\<lambda>v. [v, of_nat (fst (he3_table str ! unat v))]) (he3_bytes str)"
      by (simp add: he3_bytes_def chars_small)
    then show ?thesis by (rule arg_cong)
  qed
  have h: "length ?h = 11" by (simp add: he3_header_def)
  have f: "he3_front str = ?h @ ?c" by (simp add: he3_front_def he3_bytes_def)
  then have lc: "11 + length ?c = he3_start str" using length_he3_front [of str] h by simp
  have "write_bytes data 0 ?h = Some (?h @ drop 11 data)"
    using assms h by (simp add: write_bytes_def blit_def he3_start_def)
  moreover have "write_bytes (?h @ drop 11 data) 11 ?c = Some (?h @ ?c @ drop (he3_start str) data)"
    using assms h lc by (simp add: write_bytes_def blit_def he3_start_def add.commute flip: lc)
  ultimately show ?thesis by (simp add: c f)
qed

text \<open>The bits of the code, and what they leave in a block.\<close>

definition he3_bit :: "u8 list \<Rightarrow> nat \<Rightarrow> bool" where
  "he3_bit str q \<longleftrightarrow>
     (let patterns = he3_encode str (he3_bytes str); p = 8 * he3_start str in
      p \<le> q \<and> q < p + length patterns \<and> patterns ! (q - p)) \<or>
     (let bits = he3_encode str str; p = he3_pos str in p \<le> q \<and> q < p + length bits \<and> bits ! (q - p))"

lemma he3_size_bounds: "he3_pos str + length (he3_encode str str) \<le> 8 * he3_size str"
  "8 * he3_start str + length (he3_encode str (he3_bytes str)) \<le> he3_pos str"
proof -
  have "he3_pos str + length (he3_encode str str) \<le> align8 (he3_pos str + length (he3_encode str str))" by (rule align8_ge)
  also have "\<dots> \<le> 8 * he3_size str" by (simp add: he3_size_def align8_def)
  finally show "he3_pos str + length (he3_encode str str) \<le> 8 * he3_size str" .
  show "8 * he3_start str + length (he3_encode str (he3_bytes str)) \<le> he3_pos str" unfolding he3_pos_def by (rule align8_ge)
qed

text \<open>The block is long enough: 256 patterns of at most 44 bits, and a text that is no longer
  than with 8 bits for each byte.\<close>

lemma card_bytes: "card (set str) \<le> 256" for str :: "u8 list"
  using card_mono [of "UNIV :: u8 set" "set str"] by (simp add: card_word)

lemma he3_text_le:
  assumes "str \<noteq> []" and "length str < 2 ^ 31"
  shows "length (he3_encode str str) \<le> 8 * length str"
proof -
  have "(\<Sum>v \<in> set str. 2 ^ (8 - 8)) \<le> (2 :: nat) ^ 8" using card_bytes [of str] by simp
  from he3_encode_le [OF assms _ this] show ?thesis by (simp add: sum_list_triv)
qed

lemma he3_patterns_le:
  assumes "str \<noteq> []" and "length str < 2 ^ 31"
  shows "length (he3_encode str (he3_bytes str)) \<le> 44 * 256"
proof -
  have "length (he3_encode str vs) \<le> 44 * length vs" if "set vs \<subseteq> set str" for vs
    using that
  proof (induction vs)
    case (Cons v vs)
    then show ?case using he3_table_fst(2) [OF assms, of v] by (simp add: he3_encode_def)
  qed (simp add: he3_encode_def)
  from this [of "he3_bytes str"] show ?thesis using card_bytes [of str] by (simp add: he3_bytes_set)
qed

lemma he3_size_le:
  assumes "str \<noteq> []" and "length str < 2 ^ 31"
  shows "he3_size str \<le> length str + 2560"
proof -
  have "8 * he3_start str \<le> 8 * (11 + 2 * 256)" using card_bytes [of str] by (simp add: he3_start_def he3_bytes_set)
  then have "8 * he3_start str + length (he3_encode str (he3_bytes str)) \<le> 15448" using he3_patterns_le [OF assms] by simp
  then have "he3_pos str \<le> 15455" unfolding he3_pos_def align8_def by linarith
  then have "he3_pos str + length (he3_encode str str) + 7 \<le> 15462 + 8 * length str" using he3_text_le [OF assms] by simp
  then have "(he3_pos str + length (he3_encode str str) + 7) div 8 \<le> (15462 + 8 * length str) div 8" by (rule div_le_mono)
  then show ?thesis by (simp add: he3_size_def align8_def)
qed

lemma encode_writes:
  assumes "str \<noteq> []" and "length str + 2560 < 2 ^ 31"
    and "malloc (length str + 2560) = Some block" and "length block = length str + 2560"
  obtains out where "encode_he3_data malloc str = Some (out, he3_size str)" "length out = length block"
    "take (he3_start str) out = he3_front str"
    "\<And>q. 8 * he3_start str \<le> q \<Longrightarrow> q < 8 * length block \<Longrightarrow> bit_at out q \<longleftrightarrow> bit_at block q \<or> he3_bit str q"
proof -
  let ?P = "he3_encode str (he3_bytes str)" and ?S = "he3_encode str str"
  let ?p0 = "8 * he3_start str" and ?p1 = "he3_pos str"
  let ?d2 = "he3_front str @ drop (he3_start str) block"
  have small: "length str < 2 ^ 31" using assms(2) by simp
  note p1 = he3_size_bounds(2) [of str]
  have p2: "?p1 + length ?S \<le> 8 * length block"
    using he3_size_bounds(1) [of str] he3_size_le [OF assms(1) small] assms(4) by simp
  have start: "he3_start str \<le> length block" using p1 p2 by simp
  have l2: "length ?d2 = length block" using start by (simp add: length_he3_front)
  from write_bits_or [of ?p0 ?P ?d2] p1 p2 l2 obtain d3 where
    d3: "write_bits ?P ?d2 ?p0 = Some (d3, ?p0 + length ?P)" "length d3 = length block"
    "\<forall>q < 8 * length block. bit_at d3 q \<longleftrightarrow> bit_at ?d2 q \<or> ?p0 \<le> q \<and> q < ?p0 + length ?P \<and> ?P ! (q - ?p0)" by auto
  from write_bits_or [of ?p1 ?S d3] p2 d3(2) obtain d4 where
    d4: "write_bits ?S d3 ?p1 = Some (d4, ?p1 + length ?S)" "length d4 = length block"
    "\<forall>q < 8 * length block. bit_at d4 q \<longleftrightarrow> bit_at d3 q \<or> ?p1 \<le> q \<and> q < ?p1 + length ?S \<and> ?S ! (q - ?p1)" by auto
  have "length (he3_chars (count_occur str)) = length (he3_bytes str)" by (simp add: he3_bytes_def)
  then have "(11 + 2 * length (he3_chars (count_occur str))) * 8 = ?p0" by (simp add: he3_start_def)
  then have enc: "encode_he3_data malloc str = Some (d4, he3_size str)"
    using assms encode_front [OF start] d3(1) d4(1)
    by (auto simp: encode_he3_data_def Let_def bind_eq_Some_conv foldM_chars [OF assms(1) small]
        foldM_bytes [OF assms(1) small order_refl] he3_pos_def [symmetric] he3_size_def)
  have "d4 ! k = ?d2 ! k" if "k < he3_start str" for k
    by (rule byte_eq_bits) (use that d3(3) d4(3) p1 start in simp)
  then have "take (he3_start str) d4 = take (he3_start str) ?d2"
    using start d4(2) l2 by (intro nth_equalityI) (simp_all add: length_he3_front nth_append)
  then have front: "take (he3_start str) d4 = he3_front str" by (simp add: length_he3_front)
  have "bit_at ?d2 q = bit_at block q" if "?p0 \<le> q" "q < 8 * length block" for q
  proof -
    have "he3_start str \<le> q div 8" using that(1) by linarith
    then show ?thesis using that start by (simp add: bit_at_def nth_append length_he3_front)
  qed
  then have "bit_at d4 q \<longleftrightarrow> bit_at block q \<or> he3_bit str q" if "?p0 \<le> q" "q < 8 * length block" for q
    using that d3(3) d4(3) by (auto simp: he3_bit_def Let_def)
  with enc d4(2) front that show thesis by blast
qed

section \<open>The array of the decoder\<close>

text \<open>A code of bytes: no path is the beginning of another, none is empty or longer than \<open>m\<close>.\<close>

definition byte_code :: "(u8 \<Rightarrow> bool list) \<Rightarrow> u8 list \<Rightarrow> nat \<Rightarrow> bool" where
  "byte_code code cs m \<longleftrightarrow> distinct cs \<and> (\<forall>c \<in> set cs. c \<noteq> 0 \<and> code c \<noteq> [] \<and> length (code c) \<le> m) \<and>
     (\<forall>c \<in> set cs. \<forall>d \<in> set cs. prefix (code c) (code d) \<longrightarrow> c = d) \<and> m \<le> 29"

definition decode_store :: "(u8 \<Rightarrow> bool list) \<Rightarrow> u8 list \<Rightarrow> u8 list \<Rightarrow> u8 list" where
  "decode_store code cs da = fold (\<lambda>c da. da[bl_idx 1 (code c) := c]) cs da"

lemma length_decode_store [simp]: "length (decode_store code cs da) = length da"
  unfolding decode_store_def by (induction cs arbitrary: da) simp_all

lemma decode_store_other: "i \<notin> (\<lambda>c. bl_idx 1 (code c)) ` set cs \<Longrightarrow> decode_store code cs da ! i = da ! i"
  unfolding decode_store_def by (induction cs arbitrary: da) auto

lemma code_inj: "byte_code code cs m \<Longrightarrow> c \<in> set cs \<Longrightarrow> d \<in> set cs \<Longrightarrow> code c = code d \<Longrightarrow> c = d"
  unfolding byte_code_def by (metis prefix_order.refl)

lemma decode_store_at:
  assumes "byte_code code cs m" and "length da = 2 ^ (m + 1)" and "c \<in> set cs"
  shows "decode_store code cs da ! bl_idx 1 (code c) = c"
proof -
  have "set ds \<subseteq> set cs \<Longrightarrow> distinct ds \<Longrightarrow> c \<in> set ds \<Longrightarrow> length e = 2 ^ (m + 1) \<Longrightarrow>
      decode_store code ds e ! bl_idx 1 (code c) = c" for ds e
  proof (induction ds arbitrary: e)
    case (Cons d ds)
    show ?case
    proof (cases "c = d")
      case True
      have "bl_idx 1 (code d) \<notin> (\<lambda>c. bl_idx 1 (code c)) ` set ds"
        using Cons.prems(1,2) code_inj [OF assms(1)] by (auto dest!: bl_idx_inj simp del: One_nat_def)
      moreover have "bl_idx 1 (code d) < length e"
        using bl_idx_bound [of "code d" m] assms(1) Cons.prems(1,4) by (auto simp: byte_code_def)
      ultimately show ?thesis using decode_store_other [of "bl_idx 1 (code d)" code ds "e[bl_idx 1 (code d) := d]"] True
        by (simp add: decode_store_def)
    next
      case False
      with Cons.IH [of "e[bl_idx 1 (code d) := d]"] Cons.prems show ?thesis by (simp add: decode_store_def)
    qed
  qed simp
  from this [of cs da] assms show ?thesis by (simp add: byte_code_def)
qed

section \<open>Decoding one byte, and all of them\<close>

lemma decode_char_ok:
  assumes "byte_code code cs m" and "c \<in> set cs"
  defines "da \<equiv> decode_store code cs (replicate (2 ^ (m + 1)) 0)"
  shows "pre @ post = code c \<Longrightarrow> pre \<noteq> [] \<Longrightarrow> bits_of data p (length post) = post \<Longrightarrow> p + length post \<le> 8 * length data \<Longrightarrow>
    decode_char da data p (bl_word 0 pre) (length pre) = Some (c, p + length post)"
proof (induction post arbitrary: pre p)
  have len: "length (code c) \<le> m" "m \<le> 29" using assms(1,2) by (auto simp: byte_code_def)
  have at: "load da (2 ^ length pre + unat (bl_word 0 pre)) = Some (da ! bl_idx 1 pre)" if "length pre \<le> m" for pre
    using that len bl_idx_bound [OF that] by (simp add: load_def unat_index da_def)
  {
    case (Nil pre p)
    then have "da ! bl_idx 1 pre = c" "length pre \<le> m" using decode_store_at [OF assms(1) _ assms(2)] len by (auto simp: da_def)
    moreover have "c \<noteq> 0" using assms(1,2) by (auto simp: byte_code_def)
    ultimately show ?case using at [of pre] by (subst decode_char.simps) simp
  next
    case (Cons b post pre p)
    have pm: "length pre \<le> m" using arg_cong [OF Cons.prems(1), of length] len by simp
    have "bl_idx 1 pre \<notin> (\<lambda>c. bl_idx 1 (code c)) ` set cs"
    proof
      assume "bl_idx 1 pre \<in> (\<lambda>c. bl_idx 1 (code c)) ` set cs"
      then obtain d where d: "d \<in> set cs" "pre = code d" by (auto dest: bl_idx_inj simp del: One_nat_def)
      then have "prefix (code d) (code c)" using Cons.prems(1) by (metis prefixI)
      with d assms(1,2) have "d = c" by (auto simp: byte_code_def)
      with d(2) Cons.prems(1) show False by simp
    qed
    then have "da ! bl_idx 1 pre = 0"
      using bl_idx_bound [OF pm] by (simp add: da_def decode_store_other)
    moreover have b: "bit_at data p = b" "bits_of data (Suc p) (length post) = post"
      using Cons.prems(3) by (simp_all add: bits_of_Suc)
    moreover have "get_bit data p = Some (of_bool b, p + 1)"
      using get_bit_at [of p data] Cons.prems(4) b(1) by simp
    moreover have "decode_char da data (p + 1) (bl_word 0 (pre @ [b])) (length (pre @ [b])) = Some (c, p + 1 + length post)"
      using Cons.IH [of "pre @ [b]" "p + 1"] Cons.prems b(2) by simp
    ultimately show ?case using at [OF pm] by (subst decode_char.simps) simp
  }
qed

lemma decode_loop_ok:
  assumes "byte_code code cs m"
  defines "da \<equiv> decode_store code cs (replicate (2 ^ (m + 1)) 0)"
  shows "set s \<subseteq> set cs \<Longrightarrow> bits_of data p (length (concat (map code s))) = concat (map code s) \<Longrightarrow>
    p + length (concat (map code s)) \<le> 8 * length data \<Longrightarrow> decode_loop da data (length s) p = Some s"
proof (induction s arbitrary: p)
  case (Cons c s)
  have c: "c \<in> set cs" using Cons.prems(1) by simp
  then obtain b bs where bs: "code c = b # bs" using assms(1) by (cases "code c") (auto simp: byte_code_def)
  let ?rest = "concat (map code s)"
  have whole: "concat (map code (c # s)) = b # bs @ ?rest" by (simp add: bs)
  have "bits_of data p (Suc (length bs + length ?rest)) = b # bs @ ?rest"
    using Cons.prems(2) unfolding whole by simp
  then have parts: "bit_at data p = b" "bits_of data (p + 1) (length bs) = bs"
    "bits_of data (p + 1 + length bs) (length ?rest) = ?rest"
    by (simp_all add: bits_of_Suc bits_of_append)
  have room: "p + 1 + length bs + length ?rest \<le> 8 * length data" using Cons.prems(3) unfolding whole by simp
  have "get_bit data p = Some (of_bool b, p + 1)" using get_bit_at [of p data] room parts(1) by simp
  moreover have "decode_char da data (p + 1) (of_bool b) 1 = Some (c, p + 1 + length bs)"
    using decode_char_ok [OF assms(1) c, of "[b]" bs data "p + 1"] bs parts(2) room by (simp add: da_def)
  moreover have "decode_loop da data (length s) (p + 1 + length bs) = Some s"
    using Cons.IH [of "p + 1 + length bs"] Cons.prems(1) parts(3) room by (simp add: da_def)
  ultimately show ?case by simp
qed simp

section \<open>Reading the header and the couples\<close>

lemma bits_of_middle:
  "bits_of data p (length (a @ b @ c)) = a @ b @ c \<Longrightarrow> bits_of data (p + length a) (length b) = b"
  by (simp add: bits_of_append)

lemma fold_max_le: "(\<And>x. x \<in> set xs \<Longrightarrow> x \<le> b) \<Longrightarrow> a \<le> b \<Longrightarrow> fold max xs a \<le> b" for a b :: nat
  by (induction xs arbitrary: a) simp_all

lemma fold_max_ge: "a \<le> fold max xs a \<and> (\<forall>x \<in> set xs. x \<le> fold max xs a)" for a :: nat
proof (induction xs arbitrary: a)
  case (Cons x xs)
  from Cons.IH [of "max x a"] show ?case by auto
qed simp

lemma byte_val: "unat (of_nat (n AND 255) :: u8) = n mod 256"
proof -
  have "n AND 255 = take_bit 8 n" by (simp add: take_bit_eq_mask mask_eq_exp_minus_1)
  then have "n AND 255 = n mod 256" by (simp add: take_bit_eq_mod)
  then show ?thesis by (simp add: unat_of_nat)
qed

lemma four_bytes:
  assumes "n < 2 ^ 31"
  shows "n div 2 ^ 24 mod 256 * 2 ^ 24 + n div 2 ^ 16 mod 256 * 2 ^ 16 + n div 2 ^ 8 mod 256 * 2 ^ 8 + n mod 256 = (n :: nat)"
proof -
  define a b c where "a = n div 2 ^ 8" and "b = a div 256" and "c = b div 256"
  have e: "n div 2 ^ 8 = a" "n div 2 ^ 16 = b" "n div 2 ^ 24 = c"
    by (simp_all add: a_def b_def c_def flip: div_mult2_eq)
  have s: "n = a * 256 + n mod 256" "a = b * 256 + a mod 256" "b = c * 256 + b mod 256"
    by (simp_all add: a_def b_def c_def)
  have t: "c mod 256 = c" using assms by (simp add: a_def b_def c_def flip: div_mult2_eq)
  have "n = a * 256 + w \<Longrightarrow> a = b * 256 + z \<Longrightarrow> b = c * 256 + y \<Longrightarrow> c * 2 ^ 24 + y * 2 ^ 16 + z * 2 ^ 8 + w = n" for w y z
    by simp
  from this [OF s] show ?thesis unfolding e t .
qed

lemma couples_val:
  assumes "n < 128" and "data ! 9 = of_nat (n AND 255)" and "data ! 10 = of_nat (drop_bit 8 n AND 255)"
  shows "couples data = int n"
proof -
  have "uint (data ! 9) = int n" using byte_val [of n] assms(1,2) by (simp add: uint_nat)
  then have "sint (data ! 9) = int n" using assms(1) by (simp add: sint_uint signed_take_bit_int_eq_self)
  moreover have "uint (data ! 10) = 0" using byte_val [of "drop_bit 8 n"] assms(1,3) by (simp add: uint_nat drop_bit_eq_div)
  ultimately show ?thesis by (simp add: couples_def)
qed

lemma read_couples:
  assumes code: "byte_code code cs m" and da: "length da = 2 ^ (m + 1)"
    and data: "\<And>pos. pos < length cs \<Longrightarrow> data ! (11 + pos * 2) = cs ! pos \<and> unat (data ! (12 + pos * 2)) = length (code (cs ! pos))"
    and bits: "bits_of data p (length (concat (map code cs))) = concat (map code cs)"
    and room: "p + length (concat (map code cs)) \<le> 8 * length data"
  shows "k \<le> length cs \<Longrightarrow>
    foldM (\<lambda>pos (decode_array, offset_pattern). do {
        let v_len = unat (data ! (12 + pos * 2));
        (value, offset_pattern) \<leftarrow> get_bits data offset_pattern v_len;
        decode_array \<leftarrow> store decode_array (2 ^ v_len + unat value) (data ! (11 + pos * 2));
        Some (decode_array, offset_pattern)}) [0..<k] (da, p) =
      Some (decode_store code (take k cs) da, p + length (concat (map code (take k cs))))"
proof (induction k)
  case 0
  then show ?case by (simp add: decode_store_def)
next
  case (Suc k)
  let ?c = "cs ! k" and ?a = "concat (map code (take k cs))"
  have c: "?c \<in> set cs" using Suc.prems by simp
  have len: "length (code ?c) \<le> m" "m \<le> 29" using code c by (auto simp: byte_code_def)
  have cs: "cs = take k cs @ ?c # drop (Suc k) cs" using Suc.prems by (simp add: id_take_nth_drop)
  have whole: "concat (map code cs) = ?a @ code ?c @ concat (map code (drop (Suc k) cs))"
    by (subst cs) simp
  have "bits_of data (p + length ?a) (length (code ?c)) = code ?c"
    using bits unfolding whole by (rule bits_of_middle)
  moreover have "p + length ?a + length (code ?c) \<le> 8 * length data" using room unfolding whole by simp
  ultimately have "get_bits data (p + length ?a) (length (code ?c)) = Some (bl_word 0 (code ?c), p + length ?a + length (code ?c))"
    by (simp add: get_bits_eq)
  moreover have "bl_idx 1 (code ?c) < length (decode_store code (take k cs) da)"
    using bl_idx_bound [OF len(1)] da by simp
  moreover have "take (Suc k) cs = take k cs @ [?c]" using Suc.prems by (simp add: take_Suc_conv_app_nth)
  moreover have "2 ^ length (code ?c) + unat (bl_word 0 (code ?c)) = bl_idx 1 (code ?c)"
    using len by (simp add: unat_index del: One_nat_def)
  ultimately show ?case
    using Suc data [of k] by (simp add: foldM_append store_def decode_store_def del: One_nat_def)
qed

section \<open>The format\<close>

text \<open>The string \<open>str\<close> in the HE3 format with the code \<open>code\<close> of the bytes \<open>cs\<close>: the header, the
  couples, and from the next byte boundaries the patterns of the couples and the bits of the
  text. What is between and behind them is free.\<close>

definition he3_format :: "(u8 \<Rightarrow> bool list) \<Rightarrow> u8 list \<Rightarrow> u8 list \<Rightarrow> u8 list \<Rightarrow> bool" where
  "he3_format code cs str s \<longleftrightarrow>
     (let patterns = concat (map code cs); bits = concat (map code str); start = 11 + 2 * length cs;
          pos = 8 * start + align8 (length patterns) in
      take 4 s = [0x48, 0x45, 0x33, 0xD] \<and> pos + length bits \<le> 8 * length s \<and>
      uint (s ! 8) * 2 ^ 24 + uint (s ! 7) * 2 ^ 16 + uint (s ! 6) * 2 ^ 8 + uint (s ! 5) = int (length str) \<and>
      couples s = int (length cs) \<and>
      (\<forall>i < length cs. s ! (11 + i * 2) = cs ! i \<and> unat (s ! (12 + i * 2)) = length (code (cs ! i))) \<and>
      bits_of s (8 * start) (length patterns) = patterns \<and> bits_of s pos (length bits) = bits)"

lemma byte_code_max:
  assumes "byte_code code cs m"
  shows "byte_code code cs (fold max (map (length \<circ> code) cs) 0)"
proof -
  have "fold max (map (length \<circ> code) cs) 0 \<le> m" using assms by (intro fold_max_le) (auto simp: byte_code_def)
  with assms show ?thesis using fold_max_ge [of 0 "map (length \<circ> code) cs"] by (auto simp: byte_code_def)
qed

lemma decode_format:
  assumes bc0: "byte_code code cs m" and sub: "set str \<subseteq> set cs" and len: "length str < 2 ^ 31 - 1"
    and fmt: "he3_format code cs str s"
  shows "decode_he3_data malloc s =
    (if malloc (2 ^ (fold max (map (length \<circ> code) cs) 0 + 1)) = None then Some []
     else if malloc (length str + 1) = None then None else Some str)"
proof -
  let ?n = "length cs" and ?P = "concat (map code cs)" and ?S = "concat (map code str)"
  let ?start = "11 + 2 * length cs"
  let ?pos = "8 * ?start + align8 (length ?P)"
  let ?m = "fold max (map (length \<circ> code) cs) 0"
  note bc = byte_code_max [OF bc0]
  have rd: "take 4 s = [0x48, 0x45, 0x33, 0xD]" "couples s = int ?n"
    "uint (s ! 8) * 2 ^ 24 + uint (s ! 7) * 2 ^ 16 + uint (s ! 6) * 2 ^ 8 + uint (s ! 5) = int (length str)"
    "\<And>pos. pos < ?n \<Longrightarrow> s ! (11 + pos * 2) = cs ! pos \<and> unat (s ! (12 + pos * 2)) = length (code (cs ! pos))"
    and P: "bits_of s (8 * ?start) (length ?P) = ?P" and S: "bits_of s ?pos (length ?S) = ?S"
    and room: "?pos + length ?S \<le> 8 * length s"
    using fmt by (simp_all add: he3_format_def Let_def)
  have lens: "map (\<lambda>pos. unat (s ! (12 + pos * 2))) [0..<?n] = map (length \<circ> code) cs"
    using rd(4) by (intro nth_equalityI) simp_all
  have ttl: "sum_list (map (length \<circ> code) cs) = length ?P" by (simp add: length_concat comp_def)
  have proom: "8 * ?start + length ?P \<le> 8 * length s" using room align8_ge [of "length ?P"] by simp
  from read_couples [OF bc length_replicate rd(4) P proom order_refl]
  have couples: "foldM (\<lambda>pos (decode_array, offset_pattern). do {
        let v_len = unat (s ! (12 + pos * 2));
        (value, offset_pattern) \<leftarrow> get_bits s offset_pattern v_len;
        decode_array \<leftarrow> store decode_array (2 ^ v_len + unat value) (s ! (11 + pos * 2));
        Some (decode_array, offset_pattern)}) [0..<?n] (replicate (2 ^ (?m + 1)) 0, 8 * ?start) =
      Some (decode_store code cs (replicate (2 ^ (?m + 1)) 0), 8 * ?start + length ?P)"
    by simp
  note loop = decode_loop_ok [OF bc sub S room]
  have start: "nat (8 * (11 + int ?n * 2)) = 8 * ?start" by simp
  have "?m \<le> 29" using bc by (simp add: byte_code_def)
  moreover have "\<not> 2 ^ 31 - 1 \<le> int (length str)" using len by simp
  moreover have "\<not> length s < 11 + 2 * ?n" "\<not> length s < 11" using proom by simp_all
  ultimately show ?thesis
    unfolding decode_he3_data_def Let_def rd(1,2,3) nat_int lens ttl start couples [unfolded Let_def]
    using loop by (cases "malloc (length str + 1)") simp_all
qed

section \<open>The round trip\<close>

text \<open>The strings the coder handles.\<close>

definition he3_ok :: "u8 list \<Rightarrow> bool" where
  "he3_ok str \<longleftrightarrow> 0 \<notin> set str \<and> 1 < card (set str) \<and> card (set str) < 128 \<and>
     height (he3_tree str) \<le> 29 \<and> length str < 2 ^ 31 - 1"

lemma he3_byte_code:
  assumes "he3_ok str" and "v \<in> set str"
  shows "v \<noteq> 0" "he3_code str v \<noteq> []" "length (he3_code str v) \<le> 29"
    "w \<in> set str \<Longrightarrow> prefix (he3_code str v) (he3_code str w) \<Longrightarrow> v = w"
proof -
  have ne: "str \<noteq> []" and h: "height (he3_tree str) \<le> 64" using assms by (auto simp: he3_ok_def)
  note path = he3_code_path(1) [OF ne _ h]
  show "v \<noteq> 0" using assms by (auto simp: he3_ok_def)
  have "length (paths (he3_tree str)) = card (set str)"
    using he3_tree_distinct [OF ne] distinct_card [of "vals (he3_tree str)"] by (simp add: vals_def)
  then show "he3_code str v \<noteq> []" using paths_positive [OF _ path [OF assms(2)]] assms(1) by (simp add: he3_ok_def)
  show "length (he3_code str v) \<le> 29" using paths_height [OF path [OF assms(2)]] assms(1) by (simp add: he3_ok_def)
  show "w \<in> set str \<Longrightarrow> prefix (he3_code str v) (he3_code str w) \<Longrightarrow> v = w"
    using paths_prefix [OF path [OF assms(2)] path] by blast
qed

lemma he3_is_byte_code:
  "he3_ok str \<Longrightarrow> byte_code (he3_code str) (he3_bytes str) (fold max (map (length \<circ> he3_code str) (he3_bytes str)) 0)"
proof -
  assume ok: "he3_ok str"
  let ?m = "fold max (map (length \<circ> he3_code str) (he3_bytes str)) 0"
  have "length (he3_code str v) \<le> ?m" if "v \<in> set str" for v
    using fold_max_ge [of 0 "map (length \<circ> he3_code str) (he3_bytes str)"] that he3_bytes_set(2) [of str] by auto
  moreover have "?m \<le> 29"
    using he3_byte_code(3) [OF ok] he3_bytes_set(2) [of str] by (intro fold_max_le) auto
  ultimately show ?thesis
    using he3_byte_code [OF ok] he3_bytes_set [of str] by (simp add: byte_code_def)
qed

lemma front_couples:
  "pos < length vs \<Longrightarrow>
   concat (map (\<lambda>v. [v, f v]) vs) ! (pos * 2) = vs ! pos \<and> concat (map (\<lambda>v. [v, f v]) vs) ! (Suc (pos * 2)) = f (vs ! pos)"
proof (induction vs arbitrary: pos)
  case (Cons v vs)
  then show ?case by (cases pos) simp_all
qed simp

lemma front_reads:
  assumes "he3_ok str" and "take (he3_start str) s = he3_front str"
  shows "take 4 s = [0x48, 0x45, 0x33, 0xD]" "he3_start str \<le> length s" "couples s = int (length (he3_bytes str))"
    "uint (s ! 8) * 2 ^ 24 + uint (s ! 7) * 2 ^ 16 + uint (s ! 6) * 2 ^ 8 + uint (s ! 5) = int (length str)"
    "pos < length (he3_bytes str) \<Longrightarrow>
      s ! (11 + pos * 2) = he3_bytes str ! pos \<and> unat (s ! (12 + pos * 2)) = length (he3_code str (he3_bytes str ! pos))"
proof -
  let ?h = "he3_header str (length str) (length (he3_bytes str))"
  let ?c = "concat (map (\<lambda>v. [v, of_nat (fst (he3_table str ! unat v))]) (he3_bytes str)) :: u8 list"
  have l: "length (take (he3_start str) s) = he3_start str" using assms(2) length_he3_front [of str] by simp
  then show st: "he3_start str \<le> length s" by simp
  have at: "s ! k = he3_front str ! k" if "k < he3_start str" for k
    using that nth_take [OF that, of s] assms(2) by simp
  have h: "length ?h = 11" by (simp add: he3_header_def)
  have head: "s ! k = ?h ! k" if "k < 11" for k
    using that at [of k] h by (simp add: he3_front_def nth_append he3_start_def)
  have "take 4 s = take 4 (he3_front str)"
    using arg_cong [OF assms(2), of "take 4"] by (simp add: he3_start_def)
  then show "take 4 s = [0x48, 0x45, 0x33, 0xD]" by (simp add: he3_front_def he3_header_def)
  have "length (he3_bytes str) < 128" using assms(1) he3_bytes_set(3) [of str] by (simp add: he3_ok_def)
  then show "couples s = int (length (he3_bytes str))"
    by (rule couples_val) (simp_all add: head, simp_all add: he3_header_def)
  show "uint (s ! 8) * 2 ^ 24 + uint (s ! 7) * 2 ^ 16 + uint (s ! 6) * 2 ^ 8 + uint (s ! 5) = int (length str)"
  proof -
    have "s ! 8 = of_nat (drop_bit 24 (length str) AND 255)" "s ! 7 = of_nat (drop_bit 16 (length str) AND 255)"
      "s ! 6 = of_nat (drop_bit 8 (length str) AND 255)" "s ! 5 = of_nat (length str AND 255)"
      by (simp_all add: head, simp_all add: he3_header_def)
    then have "unat (s ! 8) * 2 ^ 24 + unat (s ! 7) * 2 ^ 16 + unat (s ! 6) * 2 ^ 8 + unat (s ! 5) = length str"
      using four_bytes [of "length str"] assms(1) by (simp add: byte_val drop_bit_eq_div he3_ok_def)
    from arg_cong [OF this, of int] show ?thesis
      by (simp only: uint_nat of_nat_add of_nat_mult of_nat_power of_nat_numeral)
  qed
  show "s ! (11 + pos * 2) = he3_bytes str ! pos \<and> unat (s ! (12 + pos * 2)) = length (he3_code str (he3_bytes str ! pos))"
    if pos: "pos < length (he3_bytes str)"
  proof -
    let ?v = "he3_bytes str ! pos"
    have v: "?v \<in> set str" using pos he3_bytes_set(2) [of str] nth_mem by blast
    have ne: "str \<noteq> []" "height (he3_tree str) \<le> 64" using assms(1) v by (auto simp: he3_ok_def)
    have t: "fst (he3_table str ! unat ?v) = length (he3_code str ?v)" by (rule he3_code_path(2) [OF ne(1) v ne(2)])
    have "unat (of_nat (length (he3_code str ?v)) :: u8) = length (he3_code str ?v)"
      using he3_byte_code(3) [OF assms(1) v] by (simp add: unat_of_nat)
    moreover have "s ! (11 + pos * 2) = ?c ! (pos * 2)" "s ! (12 + pos * 2) = ?c ! Suc (pos * 2)"
      using at [of "11 + pos * 2"] at [of "12 + pos * 2"] pos h by (simp_all add: he3_front_def nth_append he3_start_def)
    ultimately show ?thesis using front_couples [OF pos] t by simp
  qed
qed

text \<open>What the encoder writes to a clear block is in the format.\<close>

lemma encoder_format:
  assumes ok: "he3_ok str" and front: "take (he3_start str) s = he3_front str"
    and P: "bits_of s (8 * he3_start str) (length (he3_encode str (he3_bytes str))) = he3_encode str (he3_bytes str)"
    and S: "bits_of s (he3_pos str) (length (he3_encode str str)) = he3_encode str str"
    and room: "he3_pos str + length (he3_encode str str) \<le> 8 * length s"
  shows "he3_format (he3_code str) (he3_bytes str) str s"
proof -
  note rd = front_reads [OF ok front]
  have "8 * (11 + 2 * length (he3_bytes str)) + align8 (length (he3_encode str (he3_bytes str))) = he3_pos str"
    using align8_add [of "11 + 2 * length (he3_bytes str)" "length (he3_encode str (he3_bytes str))"]
    by (simp add: he3_pos_def he3_start_def)
  with rd P S room show ?thesis by (simp add: he3_format_def Let_def he3_encode_def he3_start_def)
qed

section \<open>Properties\<close>

lemma compress_writes:
  assumes "str \<noteq> []" and "length str + 2560 < 2 ^ 31"
    and "malloc (length str + 2560) = Some block" and "length block = length str + 2560"
  shows "\<exists>out. ml_che3_compress malloc str = Some out \<and> length out = he3_size str \<and> he3_size str \<le> length block \<and>
    take (he3_start str) out = he3_front str \<and>
    (\<forall>q. 8 * he3_start str \<le> q \<and> q < 8 * length out \<longrightarrow> (bit_at out q \<longleftrightarrow> bit_at block q \<or> he3_bit str q))"
proof -
  obtain out where out: "encode_he3_data malloc str = Some (out, he3_size str)" "length out = length block"
    "take (he3_start str) out = he3_front str"
    "\<And>q. 8 * he3_start str \<le> q \<Longrightarrow> q < 8 * length block \<Longrightarrow> bit_at out q \<longleftrightarrow> bit_at block q \<or> he3_bit str q"
    by (rule encode_writes [OF assms(1,2), of malloc block]) (use assms in simp_all)
  have size: "he3_size str \<le> length block" using he3_size_le [OF assms(1)] assms(2,4) by simp
  have "he3_start str \<le> he3_size str" using he3_size_bounds [of str] by simp
  moreover have "bit_at (take (he3_size str) out) q = bit_at out q" if "q < 8 * he3_size str" for q
    using that by (simp add: bit_at_def)
  ultimately show ?thesis
    using out size by (intro exI [of _ "take (he3_size str) out"]) (auto simp: ml_che3_compress_def min_def)
qed

text \<open>C11: The compressor, given a block of the size it asks for, whatever the bytes in it, stays
  inside it and returns at most that many bytes: exactly the header and the couples, then, bit
  for bit, what was in the block with the bits of the patterns and of the text set in it.\<close>

theorem he3_compress_block:
  assumes "str \<noteq> []" and "length str + 2560 < 2 ^ 31"
    and "malloc (length str + 2560) = Some block" and "length block = length str + 2560"
  shows "\<exists>out. ml_che3_compress malloc str = Some out \<and> length out = he3_size str \<and> he3_size str \<le> length block \<and>
    take (he3_start str) out = he3_front str \<and>
    (\<forall>q. 8 * he3_start str \<le> q \<and> q < 8 * length out \<longrightarrow> (bit_at out q \<longleftrightarrow> bit_at block q \<or> he3_bit str q))"
  using assms by (rule compress_writes)

text \<open>C10: The decompressor inverts every prefix code of non-NUL bytes with patterns of 1 to 29 bits:
  from data in the format it returns the text, whatever fills the bytes between and behind. It
  returns the empty string when the block of its tree cannot be had, and goes through
  \<^verbatim>\<open>NULL\<close> when only the block of its result cannot.\<close>

theorem he3_decompress_format:
  assumes "byte_code code cs m" and "set str \<subseteq> set cs" and "length str < 2 ^ 31 - 1" and "he3_format code cs str s"
  shows "ml_che3_decompress malloc s =
    (if malloc (2 ^ (fold max (map (length \<circ> code) cs) 0 + 1)) = None then Some []
     else if malloc (length str + 1) = None then None else Some str)"
  using decode_format [OF assms, of malloc] by (simp only: ml_che3_decompress_def)

text \<open>C12: The code is optimal. For any lengths of patterns that satisfy Kraft's inequality, as those
  of every prefix code do, the text takes no more bits than with them. And no pattern is
  longer than 44 bits, so that the table's 64 bits and the shifts are enough.\<close>

theorem he3_optimal:
  assumes "str \<noteq> []" and "length str < 2 ^ 31" and "\<forall>v \<in> set str. d v \<le> L"
    and "(\<Sum>v \<in> set str. 2 ^ (L - d v)) \<le> (2 :: nat) ^ L"
  shows "length (he3_encode str str) \<le> (\<Sum>v\<leftarrow>str. d v) \<and> (\<forall>v \<in> set str. fst (he3_table str ! unat v) \<le> 44)"
  using he3_encode_le [OF assms] he3_table_fst [OF assms(1,2)] by simp

text \<open>So the round trip holds on blocks that have no bit set where the code has none. The code
  does not see to it: \<^verbatim>\<open>malloc\<close> promises no such thing.\<close>

theorem he3_roundtrip:
  assumes "he3_ok str" and "length str + 2560 < 2 ^ 31"
    and "malloc (length str + 2560) = Some block" and "length block = length str + 2560"
    and "\<forall>q < 8 * length block. 8 * he3_start str \<le> q \<longrightarrow> \<not> bit_at block q"
    and "\<forall>n. malloc' n \<noteq> None"
  shows "Option.bind (ml_che3_compress malloc str) (ml_che3_decompress malloc') = Some str"
proof -
  have ne: "str \<noteq> []" using assms(1) by (auto simp: he3_ok_def)
  let ?P = "he3_encode str (he3_bytes str)" and ?S = "he3_encode str str"
  obtain out where out: "ml_che3_compress malloc str = Some out" "length out = he3_size str" "he3_size str \<le> length block"
    "take (he3_start str) out = he3_front str"
    "\<forall>q. 8 * he3_start str \<le> q \<and> q < 8 * length out \<longrightarrow> (bit_at out q \<longleftrightarrow> bit_at block q \<or> he3_bit str q)"
    using compress_writes [of str malloc block] ne assms(2-4) by blast
  note bounds = he3_size_bounds [of str]
  have bit: "bit_at out q \<longleftrightarrow> he3_bit str q" if "8 * he3_start str \<le> q" "q < 8 * he3_size str" for q
    using out(2,3,5) assms(5) that by auto
  have "bits_of out (8 * he3_start str) (length ?P) = ?P"
    using bounds by (intro nth_equalityI) (simp_all add: bits_of_def bit he3_bit_def Let_def)
  moreover have "bits_of out (he3_pos str) (length ?S) = ?S"
    using bounds by (intro nth_equalityI) (simp_all add: bits_of_def bit he3_bit_def Let_def)
  ultimately have fmt: "he3_format (he3_code str) (he3_bytes str) str out"
    using encoder_format [OF assms(1) out(4)] bounds(1) out(2) by simp
  have "length str < 2 ^ 31 - 1" using assms(1) by (simp add: he3_ok_def)
  from decode_format [OF he3_is_byte_code [OF assms(1)] _ this fmt, of malloc'] show ?thesis
    using assms(6) out(1) by (simp add: ml_che3_decompress_def he3_bytes_set)
qed

section \<open>Inputs\<close>

lemma sample_leaves:
  "he3_leaves (count_occur [97, 98]) = [Leaf 1 97, Leaf 1 98]" "he3_chars (count_occur [97, 98]) = [97, 98]"
  by code_simp+

lemma build_two: "build_tree [Leaf 1 a, Leaf 1 b] = [Node 2 (Leaf 1 b) (Leaf 1 a)]"
  by (simp add: build_tree.simps remove_node_def insert_node_def)

lemma sample_table: "he3_table [97, 98] = (replicate 256 (0, 0))[98 := (1, 0), 97 := (1, 1)]"
  unfolding he3_table_def sample_leaves build_two by simp

lemma sample_header:
  "he3_header [a, b] (Suc (Suc 0)) (Suc (Suc 0)) = [0x48, 0x45, 0x33, 0xD, a XOR b, 2, 0, 0, 0, 2, 0]"
  by (simp add: he3_header_def xor.commute drop_bit_eq_div numeral_2_eq_2 [symmetric] del: One_nat_def flip: One_nat_def)

theorem he3_compress_block_witness:
  "\<exists>out. ml_che3_compress (\<lambda>n. Some (replicate n 255)) [97, 98] = Some out \<and> length out = 18 \<and>
     take 15 out = [72, 69, 51, 13, 3, 2, 0, 0, 0, 2, 0, 97, 1, 98, 1]"
proof -
  have bytes: "he3_bytes [97, 98] = [97, 98]" by (simp add: he3_bytes_def sample_leaves)
  have "he3_encode [97, 98] [97, 98] = [True, False]"
    by (simp add: he3_encode_def he3_code_def sample_table pattern_bits_def)
  then have "he3_start [97, 98] = 15" "he3_size [97, 98] = 18"
    by (simp_all add: he3_size_def he3_pos_def he3_start_def bytes align8_def)
  moreover have "he3_front [97, 98] = [72, 69, 51, 13, 3, 2, 0, 0, 0, 2, 0, 97, 1, 98, 1]"
    unfolding he3_front_def bytes sample_table by (simp add: sample_header)
  ultimately show ?thesis
    using he3_compress_block [of "[97, 98]" "\<lambda>n. Some (replicate n 255)" "replicate 2562 255"] by auto
qed

theorem he3_decompress_format_witness:
  "ml_che3_decompress (\<lambda>n. Some (replicate n 7)) [72, 69, 51, 13, 0, 2, 0, 0, 0, 2, 0, 97, 1, 98, 1, 253, 253] = Some [97, 98]"
proof -
  let ?c = "\<lambda>c :: u8. [c = 97]" and ?s = "[72, 69, 51, 13, 0, 2, 0, 0, 0, 2, 0, 97, 1, 98, 1, 253, 253] :: u8 list"
  have code: "byte_code ?c [97, 98] 1" by (simp add: byte_code_def)
  have two: "bits_of data p (Suc (Suc 0)) = [bit_at data p, bit_at data (p + 1)]" for data p
    by (simp add: bits_of_Suc)
  have two_bytes: "i < length [97, 98 :: u8] \<longleftrightarrow> i = 0 \<or> i = 1" for i by auto
  have "couples ?s = 2" by (simp add: couples_def)
  moreover have "bits_of ?s 120 (Suc (Suc 0)) = [True, False]" "bits_of ?s 128 (Suc (Suc 0)) = [True, False]"
    by (simp_all add: two bit_at_def)
  moreover have "take 4 ?s = [0x48, 0x45, 0x33, 0xD]" by simp
  moreover have "uint (?s ! 8) * 2 ^ 24 + uint (?s ! 7) * 2 ^ 16 + uint (?s ! 6) * 2 ^ 8 + uint (?s ! 5) = 2" by simp
  moreover have "\<forall>i < length [97, 98 :: u8]. ?s ! (11 + i * 2) = [97, 98] ! i \<and> unat (?s ! (12 + i * 2)) = length (?c ([97, 98] ! i))"
    unfolding two_bytes by simp
  ultimately have "he3_format ?c [97, 98] [97, 98] ?s"
    unfolding he3_format_def Let_def by (simp add: align8_def)
  from he3_decompress_format [OF code _ _ this] show ?thesis by simp
qed

theorem he3_optimal_witness:
  "length (he3_encode [97, 98] [97, 98]) \<le> 2"
  using he3_optimal [of "[97, 98]" "\<lambda>_. 1" 1] by simp

end
