(* ===== verification/CPP_DWord.thy ===== *)
theory CPP_DWord
  imports C_Prelude "HOL-Library.Monad_Syntax"
begin

text \<open>
  Double words of the big integers of \<^verbatim>\<open>src/src/utils/lib/CryptoPP.cc\<close>: the classes \<open>DWord\<close> and
  \<open>Word\<close>, and the division templates that both instantiate. The configuration is the one without
  a native double word (64-bit targets): a \<open>DWord\<close> is two words, and dividing one by a word goes
  through \<open>DivideFourWordsByTwo<hword, Word>\<close>.
\<close>

section \<open>The class DWord\<close>

datatype 's dword = DWord (GetLowHalf: 's) (GetHighHalf: 's)

definition DWord_of :: "'a::len word \<Rightarrow> 'a word dword" where
  "DWord_of low = DWord low 0"

definition DWord_Multiply :: "'a::len word \<Rightarrow> 'a word \<Rightarrow> 'a word dword" where
  "DWord_Multiply a b = DWord (a * b) (of_nat (unat a * unat b div 2 ^ LENGTH('a)))"

definition DWord_add :: "'a::len word dword \<Rightarrow> 'a word \<Rightarrow> 'a word dword" where
  "DWord_add d a = (let low = GetLowHalf d + a in DWord low (GetHighHalf d + of_bool (low < a)))"

definition MultiplyAndAdd :: "'a::len word \<Rightarrow> 'a word \<Rightarrow> 'a word \<Rightarrow> 'a word dword" where
  "MultiplyAndAdd a b c = DWord_add (DWord_Multiply a b) c"

definition DWord_sub :: "'a::len word dword \<Rightarrow> 'a word dword \<Rightarrow> 'a word dword" where
  "DWord_sub d a =
     (let low = GetLowHalf d - GetLowHalf a
      in DWord low (GetHighHalf d - GetHighHalf a - of_bool (low > GetLowHalf d)))"

definition DWord_sub_word :: "'a::len word dword \<Rightarrow> 'a word \<Rightarrow> 'a word dword" where
  "DWord_sub_word d a =
     (let low = GetLowHalf d - a in DWord low (GetHighHalf d - of_bool (low > GetLowHalf d)))"

definition DWord_not :: "'a::len word dword \<Rightarrow> bool" where
  "DWord_not d \<longleftrightarrow> GetHighHalf d = 0 \<and> GetLowHalf d = 0"

definition GetHighHalfAsBorrow :: "'a::len word dword \<Rightarrow> 'a word" where
  "GetHighHalfAsBorrow d = 0 - GetHighHalf d"

section \<open>The class Word\<close>

type_synonym hword = u32

definition Word_halves :: "hword \<Rightarrow> hword \<Rightarrow> u64" where
  "Word_halves low high = ucast low OR push_bit 32 (ucast high)"

definition Word_Multiply :: "hword \<Rightarrow> hword \<Rightarrow> u64" where
  "Word_Multiply a b = ucast a * ucast b"

definition Word_div :: "u64 \<Rightarrow> hword \<Rightarrow> hword option" where
  "Word_div whole divisor = (if divisor = 0 then None else Some (ucast (whole div ucast divisor)))"

definition Word_low :: "u64 \<Rightarrow> hword" where
  "Word_low whole = ucast whole"

definition Word_high :: "u64 \<Rightarrow> hword" where
  "Word_high whole = ucast (drop_bit 32 whole)"

definition Word_borrow :: "u64 \<Rightarrow> hword" where
  "Word_borrow whole = 0 - ucast (drop_bit 32 whole)"

section \<open>The division templates\<close>

text \<open>\<open>None\<close> is a division by zero, or a correction loop that does not end.\<close>

text \<open>The members of the class \<open>D\<close> that \<^verbatim>\<open>template <class S, class D>\<close> uses.\<close>

record ('s, 'd) double_class =
  d_make :: "'s \<Rightarrow> 's \<Rightarrow> 'd"
  d_multiply :: "'s \<Rightarrow> 's \<Rightarrow> 'd"
  d_divide :: "'d \<Rightarrow> 's \<Rightarrow> 's option"
  d_of :: "'s \<Rightarrow> 'd"
  d_sub_half :: "'d \<Rightarrow> 's \<Rightarrow> 'd"
  d_sub :: "'d \<Rightarrow> 'd \<Rightarrow> 'd"
  d_low :: "'d \<Rightarrow> 's"
  d_high :: "'d \<Rightarrow> 's"
  d_borrow :: "'d \<Rightarrow> 's"
  d_not :: "'d \<Rightarrow> bool"

text \<open>The words \<open>A[0]\<close>, \<open>A[1]\<close>, \<open>A[2]\<close> are a triple. \<open>None\<close> is an assertion that fails. \<open>sub_word\<close> is the subtraction of the divisor in
  the correction loop, which ends when the remainder is below the divisor.\<close>

type_synonym 's three = "'s \<times> 's \<times> 's"

definition sub_divisor :: "('s::len word, 'd) double_class \<Rightarrow> 's word \<Rightarrow> 's word \<Rightarrow> 's word three \<Rightarrow> 's word three" where
  "sub_divisor D B0 B1 = (\<lambda>(A0, A1, A2).
     let u = d_sub_half D (d_of D A0) B0;
         A0' = d_low D u;
         v = d_sub_half D (d_sub_half D (d_of D A1) B1) (d_borrow D u)
     in (A0', d_low D v, A2 + d_high D v))"

partial_function (option) fix_quotient ::
  "('s::len word, 'd) double_class \<Rightarrow> 's word \<Rightarrow> 's word \<Rightarrow> 's word \<Rightarrow> 's word three \<Rightarrow> ('s word \<times> 's word three) option" where
  "fix_quotient D B0 B1 Q A =
     (let (A0, A1, A2) = A
      in if A2 \<noteq> 0 \<or> A1 > B1 \<or> (A1 = B1 \<and> A0 \<ge> B0)
         then (if Q + 1 = 0 then None else fix_quotient D B0 B1 (Q + 1) (sub_divisor D B0 B1 A))
         else Some (Q, A))"

declare fix_quotient.simps [code]

definition DivideThreeWordsByTwo ::
  "('s::len word, 'd) double_class \<Rightarrow> 's word three \<Rightarrow> 's word \<Rightarrow> 's word \<Rightarrow> ('s word \<times> 's word three) option" where
  "DivideThreeWordsByTwo D A B0 B1 =
     (let (A0, A1, A2) = A
      in if \<not> (A2 < B1 \<or> (A2 = B1 \<and> A1 < B0)) then None
      else do {
        Q \<leftarrow> (if B1 + 1 = 0 then Some A2 else d_divide D (d_make D A1 A2) (B1 + 1));
        let p = d_multiply D B0 Q;
        let u = d_sub_half D (d_of D A0) (d_low D p);
        let v = d_sub D (d_sub_half D (d_sub_half D (d_of D A1) (d_high D p)) (d_borrow D u)) (d_multiply D B1 Q);
        fix_quotient D B0 B1 Q (d_low D u, d_low D v, A2 + d_high D v)})"

text \<open>The quotient, and what is left of the remainder in \<open>T[0]\<close> and \<open>T[1]\<close>.\<close>

definition DivideFourWordsByTwo ::
  "('s::len word, 'd) double_class \<Rightarrow> 'd \<Rightarrow> 'd \<Rightarrow> 'd \<Rightarrow> ('d \<times> 's word \<times> 's word) option" where
  "DivideFourWordsByTwo D Al Ah B =
     (if d_not D B then Some (d_make D (d_low D Ah) (d_high D Ah), d_low D Al, d_high D Al)
      else do {
        (Q1, T1, T2, T3) \<leftarrow> DivideThreeWordsByTwo D (d_high D Al, d_low D Ah, d_high D Ah) (d_low D B) (d_high D B);
        (Q0, T0, T1, T2) \<leftarrow> DivideThreeWordsByTwo D (d_low D Al, T1, T2) (d_low D B) (d_high D B);
        Some (d_make D Q0 Q1, T0, T1)})"

definition Word_class :: "(hword, u64) double_class" where
  "Word_class = \<lparr>d_make = Word_halves, d_multiply = Word_Multiply, d_divide = Word_div, d_of = ucast,
     d_sub_half = (\<lambda>w a. w - ucast a), d_sub = (-), d_low = Word_low, d_high = Word_high, d_borrow = Word_borrow,
     d_not = (\<lambda>w. w = 0)\<rparr>"

text \<open>\<open>operator/\<close> and \<open>operator%\<close> of \<open>DWord\<close>.\<close>

definition DWord_div :: "u64 dword \<Rightarrow> u64 \<Rightarrow> u64 option" where
  "DWord_div d a = map_option fst (DivideFourWordsByTwo Word_class (GetLowHalf d) (GetHighHalf d) a)"

definition DWord_mod :: "u64 dword \<Rightarrow> u64 \<Rightarrow> u64 option" where
  "DWord_mod d a =
     (if a = 0 then None
      else if a < push_bit 32 1 then
        (let h = (ucast a :: hword);
             r = GetHighHalf d mod ucast h;
             r = (drop_bit 32 (GetLowHalf d) + push_bit 32 r) mod ucast h
         in Some (ucast (ucast ((ucast (ucast (GetLowHalf d) :: hword) + push_bit 32 r) mod ucast h) :: hword)))
      else map_option (\<lambda>(q, r0, r1). Word_halves r0 r1) (DivideFourWordsByTwo Word_class (GetLowHalf d) (GetHighHalf d) a))"

definition DWord_class :: "(u64, u64 dword) double_class" where
  "DWord_class = \<lparr>d_make = DWord, d_multiply = DWord_Multiply, d_divide = DWord_div, d_of = DWord_of,
     d_sub_half = DWord_sub_word, d_sub = DWord_sub, d_low = GetLowHalf, d_high = GetHighHalf, d_borrow = GetHighHalfAsBorrow,
     d_not = DWord_not\<rparr>"

end
