(* ===== verification/CPP_Division.thy ===== *)
theory CPP_Division
  imports CPP_DWord
begin

text \<open>
  The value of a double word, the laws of the class \<open>D\<close> of the division templates as a locale,
  and the templates proved correct once, inside it. The locale is interpreted on \<open>Word\<close>, whose
  division is that of the machine, and then on \<open>DWord\<close>, whose division is the template on \<open>Word\<close>.
\<close>

section \<open>Values\<close>

definition dint :: "'a::len word dword \<Rightarrow> int" where
  "dint d = uint (GetLowHalf d) + 2 ^ LENGTH('a) * uint (GetHighHalf d)"

lemma dint_DWord [simp]: "dint (DWord (l :: 'a::len word) h) = uint l + 2 ^ LENGTH('a) * uint h"
  by (simp add: dint_def)

lemma uint_bound: "0 \<le> uint w" "uint w < 2 ^ LENGTH('a)" for w :: "'a::len word"
  by simp_all

lemma dint_bound: "0 \<le> dint d" "dint d < 2 ^ LENGTH('a) * 2 ^ LENGTH('a)" for d :: "'a::len word dword"
proof -
  let ?B = "2 ^ LENGTH('a) :: int"
  show "0 \<le> dint d" by (simp add: dint_def)
  have "uint (GetHighHalf d) < ?B" by (rule uint_bound)
  then have "uint (GetHighHalf d) + 1 \<le> ?B" by linarith
  then have "?B * (uint (GetHighHalf d) + 1) \<le> ?B * ?B" by (rule mult_left_mono) simp
  then show "dint d < ?B * ?B"
    unfolding dint_def using uint_bound(2) [of "GetLowHalf d"] by (simp only: distrib_left)
qed

lemma dint_low: "uint (GetLowHalf d) = dint d mod 2 ^ LENGTH('a)" for d :: "'a::len word dword"
  by (simp add: dint_def)

lemma dint_high: "uint (GetHighHalf d) = dint d div 2 ^ LENGTH('a)" for d :: "'a::len word dword"
  by (simp add: dint_def)

lemma dint_eqI:
  assumes "dint d = (x :: int) + 2 ^ LENGTH('a) * 2 ^ LENGTH('a) * k"
  shows "dint (d :: 'a::len word dword) = x mod (2 ^ LENGTH('a) * 2 ^ LENGTH('a))"
proof -
  have "dint d = dint d mod (2 ^ LENGTH('a) * 2 ^ LENGTH('a))" using dint_bound [of d] by (simp add: mod_pos_pos_trivial)
  then show ?thesis by (simp add: assms)
qed

lemma uint_shift: "\<exists>k. uint (a + b) = uint a + uint b + 2 ^ LENGTH('a) * k" "\<exists>k. uint (a - b) = uint a - uint b + 2 ^ LENGTH('a) * k"
  for a b :: "'a::len word"
proof -
  show "\<exists>k. uint (a + b) = uint a + uint b + 2 ^ LENGTH('a) * k"
    by (intro exI [of _ "- ((uint a + uint b) div 2 ^ LENGTH('a))"])
      (simp add: uint_word_ariths minus_mult_div_eq_mod)
  show "\<exists>k. uint (a - b) = uint a - uint b + 2 ^ LENGTH('a) * k"
    by (intro exI [of _ "- ((uint a - uint b) div 2 ^ LENGTH('a))"])
      (simp add: uint_word_ariths minus_mult_div_eq_mod)
qed

lemma low_carry: "uint (l + a) = uint l + uint a - 2 ^ LENGTH('a) * of_bool (l + a < a)" for l a :: "'a::len word"
  using uint_bound [of l] uint_bound [of a] by (auto simp: uint_plus_if' word_less_def)

lemma low_borrow: "uint (l - a) = uint l - uint a + 2 ^ LENGTH('a) * of_bool (l < l - a)" for l a :: "'a::len word"
  using uint_bound [of l] uint_bound [of a] by (auto simp: uint_sub_if' word_less_def)

lemma dint_of [simp]: "dint (DWord_of a) = uint a"
  by (simp add: DWord_of_def)

lemma dint_multiply [simp]: "dint (DWord_Multiply a b) = uint a * uint b" for a b :: "'a::len word"
proof -
  let ?B = "2 ^ LENGTH('a) :: nat"
  define h where "h = unat a * unat b div ?B"
  have "h < ?B"
    unfolding h_def using mult_strict_mono' [of "unat a" ?B "unat b" ?B] by (intro less_mult_imp_div_less) simp
  then have "unat (of_nat h :: 'a word) = h" by (simp add: unat_of_nat)
  then have "dint (DWord_Multiply a b) = int (unat (a * b)) + 2 ^ LENGTH('a) * int h"
    by (simp only: DWord_Multiply_def h_def [symmetric] dint_DWord uint_nat)
  also have "\<dots> = int (unat a * unat b mod ?B + ?B * h)"
    by (simp only: unat_word_ariths of_nat_add of_nat_mult of_nat_power of_nat_numeral)
  also have "\<dots> = int (unat a * unat b)" by (simp only: h_def mod_mult_div_eq)
  finally show ?thesis by (simp only: uint_nat of_nat_mult)
qed

lemma uint_of_bool [simp]: "uint (of_bool b :: 'a::len word) = of_bool b"
  by (cases b) simp_all

lemma dint_add [simp]: "dint (DWord_add d a) = (dint d + uint a) mod (2 ^ LENGTH('a) * 2 ^ LENGTH('a))"
  for d :: "'a::len word dword"
proof -
  let ?c = "GetLowHalf d + a < a"
  obtain k where k: "uint (GetHighHalf d + of_bool ?c) = uint (GetHighHalf d) + of_bool ?c + 2 ^ LENGTH('a) * k"
    using uint_shift(1) [of "GetHighHalf d" "of_bool ?c"] by (auto simp only: uint_of_bool)
  have "dint (DWord_add d a) = dint d + uint a + 2 ^ LENGTH('a) * 2 ^ LENGTH('a) * k"
    unfolding DWord_add_def Let_def dint_def dword.sel low_carry [of "GetLowHalf d" a] k
    by (simp only: distrib_left mult.assoc)
  then show ?thesis by (rule dint_eqI)
qed

lemma dint_sub [simp]: "dint (DWord_sub d e) = (dint d - dint e) mod (2 ^ LENGTH('a) * 2 ^ LENGTH('a))"
  for d :: "'a::len word dword"
proof -
  let ?c = "GetLowHalf d < GetLowHalf d - GetLowHalf e"
  obtain k where k: "uint (GetHighHalf d - GetHighHalf e) = uint (GetHighHalf d) - uint (GetHighHalf e) + 2 ^ LENGTH('a) * k"
    using uint_shift(2) by blast
  obtain m where m: "uint (GetHighHalf d - GetHighHalf e - of_bool ?c) =
      uint (GetHighHalf d - GetHighHalf e) - of_bool ?c + 2 ^ LENGTH('a) * m"
    using uint_shift(2) [of "GetHighHalf d - GetHighHalf e" "of_bool ?c"] by (auto simp only: uint_of_bool)
  have "dint (DWord_sub d e) = dint d - dint e + 2 ^ LENGTH('a) * 2 ^ LENGTH('a) * (k + m)"
    unfolding DWord_sub_def Let_def dint_def dword.sel low_borrow [of "GetLowHalf d" "GetLowHalf e"] m k
    by (simp only: distrib_left right_diff_distrib mult.assoc)
  then show ?thesis by (rule dint_eqI)
qed

lemma dint_sub_word [simp]: "dint (DWord_sub_word d a) = (dint d - uint a) mod (2 ^ LENGTH('a) * 2 ^ LENGTH('a))"
  for d :: "'a::len word dword"
proof -
  have "DWord_sub_word d a = DWord_sub d (DWord_of a)"
    by (simp add: DWord_sub_word_def DWord_sub_def DWord_of_def)
  then show ?thesis by simp
qed

section \<open>The laws of a double word, and division\<close>

definition three_val :: "'s::len word three \<Rightarrow> int" where
  "three_val A = (case A of (A0, A1, A2) \<Rightarrow> uint A0 + 2 ^ LENGTH('s) * uint A1 + 2 ^ LENGTH('s) * 2 ^ LENGTH('s) * uint A2)"

lemma three_val_simp:
  "three_val (A0, A1, A2 :: 's::len word) = uint A0 + 2 ^ LENGTH('s) * uint A1 + 2 ^ LENGTH('s) * 2 ^ LENGTH('s) * uint A2"
  by (simp add: three_val_def)

lemma div_int_less: "a < b * v \<Longrightarrow> 0 < v \<Longrightarrow> a div v < b" for a b v :: int
proof (rule ccontr)
  assume a: "a < b * v" "0 < v" "\<not> a div v < b"
  then have "b * v \<le> a div v * v" by (intro mult_right_mono) simp_all
  also have "\<dots> \<le> a" using pos_mod_sign [OF a(2), of a] div_mult_mod_eq [of a v] by linarith
  finally show False using a(1) by simp
qed

locale double_word =
  fixes D :: "('s::len word, 'd) double_class" and dv :: "'d \<Rightarrow> int" and B :: int
  assumes base: "B = 2 ^ LENGTH('s)"
    and make: "dv (d_make D l h) = uint l + B * uint h"
    and multiply: "dv (d_multiply D a b) = uint a * uint b"
    and of_half: "dv (d_of D a) = uint a"
    and sub_half: "dv (d_sub_half D d a) = (dv d - uint a) mod (B * B)"
    and sub: "dv (d_sub D d e) = (dv d - dv e) mod (B * B)"
    and low: "uint (d_low D d) = dv d mod B"
    and high: "uint (d_high D d) = dv d div B"
    and borrow: "d_borrow D d = - d_high D d"
    and not_zero: "d_not D d \<longleftrightarrow> dv d = 0"
    and divide: "uint (d_high D d) < uint a \<Longrightarrow> \<exists>q. d_divide D d a = Some q \<and> uint q = dv d div uint a"
begin

lemma bounds: "0 \<le> uint a" "uint a < B" for a :: "'s word"
  by (simp_all add: base)

lemma base_pos: "0 < B" "1 < B"
  by (simp_all add: base)

lemma wraps: "\<exists>k. uint (a + b) = uint a + uint b + B * k" "\<exists>k. uint (a - b) = uint a - uint b + B * k" for a b :: "'s word"
  unfolding base by (rule uint_shift)+

lemma minus_word: "uint (- a) = (- uint a) mod B" for a :: "'s word"
  by (simp add: base uint_word_ariths)

lemma square: "B \<le> B * B"
proof -
  have "1 * B \<le> B * B" by (rule mult_right_mono) (simp_all add: base)
  then show ?thesis by simp
qed

lemma dv_split: "dv d = uint (d_low D d) + B * uint (d_high D d)"
  by (simp add: low high)

lemma first_borrow: "uint a - uint p = uint (d_low D (d_sub_half D (d_of D a) p)) - B * uint (d_borrow D (d_sub_half D (d_of D a) p))"
proof (cases "p \<le> a")
  case True
  then have "uint p \<le> uint a" by (simp add: word_le_def)
  then have v: "dv (d_sub_half D (d_of D a) p) = uint a - uint p"
    unfolding sub_half of_half using bounds [of a] bounds [of p] square by (intro mod_pos_pos_trivial) linarith+
  moreover have "uint a - uint p < B" using bounds [of a] bounds [of p] by linarith
  ultimately have "uint (d_high D (d_sub_half D (d_of D a) p)) = 0" "uint (d_low D (d_sub_half D (d_of D a) p)) = uint a - uint p"
    using \<open>uint p \<le> uint a\<close> by (simp_all add: high low div_pos_pos_trivial mod_pos_pos_trivial)
  then show ?thesis by (simp add: borrow minus_word)
next
  case False
  then have less: "uint a < uint p" by (simp add: word_le_def)
  have "(uint a - uint p) mod (B * B) = (uint a - uint p + B) + B * (B - 1)"
  proof -
    have "(uint a - uint p) mod (B * B) = (uint a - uint p + B * B) mod (B * B)" by simp
    also have "\<dots> = uint a - uint p + B * B"
    proof (rule mod_pos_pos_trivial)
      show "0 \<le> uint a - uint p + B * B" using bounds [of a] bounds [of p] square by linarith
      show "uint a - uint p + B * B < B * B" using less by simp
    qed
    finally show ?thesis by (simp add: algebra_simps)
  qed
  moreover define r where "r = uint a - uint p + B"
  ultimately have v: "dv (d_sub_half D (d_of D a) p) = r + B * (B - 1)" by (simp add: sub_half of_half)
  have r: "0 \<le> r" "r < B" unfolding r_def using less bounds [of a] bounds [of p] by linarith+
  then have "uint (d_high D (d_sub_half D (d_of D a) p)) = B - 1" "uint (d_low D (d_sub_half D (d_of D a) p)) = r"
    unfolding high low v by (simp_all add: div_pos_pos_trivial)
  moreover from this have "uint (d_borrow D (d_sub_half D (d_of D a) p)) = 1"
    using base_pos by (simp add: borrow minus_word)
  ultimately show ?thesis by (simp add: r_def)
qed

lemma three: "three_val (A0, A1, A2 :: 's word) = uint A0 + B * uint A1 + B * B * uint A2"
  by (simp add: three_val_simp base)

lemma three_range: "0 \<le> three_val A" "three_val (A :: 's word three) < B * B * B"
proof -
  obtain A0 A1 A2 where A: "A = (A0, A1, A2)" by (cases A)
  have v: "three_val A = uint A0 + B * uint A1 + B * B * uint A2" unfolding A by (rule three)
  show "0 \<le> three_val A" unfolding v using base_pos by simp
  have "uint A1 + 1 \<le> B" "uint A2 + 1 \<le> B" using bounds [of A1] bounds [of A2] by linarith+
  then have "B * (uint A1 + 1) \<le> B * B" "B * B * (uint A2 + 1) \<le> B * B * B"
    using base_pos by (intro mult_left_mono; simp)+
  then show "three_val A < B * B * B" unfolding v using bounds [of A0] by (simp only: distrib_left)
qed

lemma three_sub:
  assumes "dv v = (uint A1 - x - uint (d_borrow D (d_sub_half D (d_of D A0) p))) mod (B * B)"
  shows "three_val (d_low D (d_sub_half D (d_of D A0) p), d_low D v, A2 + d_high D v) =
    (three_val (A0, A1, A2) - (uint p + B * x)) mod (B * B * B)"
proof -
  let ?u = "d_sub_half D (d_of D A0) p" and ?b = "uint (d_borrow D (d_sub_half D (d_of D A0) p))"
  obtain k where k: "uint (A2 + d_high D v) = uint A2 + uint (d_high D v) + B * k" using wraps(1) by blast
  have "dv v = uint A1 - x - ?b - B * B * ((uint A1 - x - ?b) div (B * B))"
    unfolding assms by (simp add: minus_mult_div_eq_mod)
  then obtain m where m: "uint (d_low D v) + B * uint (d_high D v) = uint A1 - x - ?b - B * B * m"
    unfolding dv_split by blast
  have u: "uint (d_low D ?u) = uint A0 - uint p + B * ?b" using first_borrow [of A0 p] by linarith
  have "three_val (d_low D ?u, d_low D v, A2 + d_high D v) =
      uint (d_low D ?u) + B * (uint (d_low D v) + B * uint (d_high D v)) + B * B * uint A2 + B * B * B * k"
    unfolding three k by (simp only: distrib_left mult.assoc)
  also have "\<dots> = three_val (A0, A1, A2) - (uint p + B * x) + B * B * B * (k - m)"
    unfolding m u three by (simp only: distrib_left right_diff_distrib mult.assoc)
  finally have eq: "three_val (d_low D ?u, d_low D v, A2 + d_high D v) =
      three_val (A0, A1, A2) - (uint p + B * x) + B * B * B * (k - m)" .
  have "three_val (d_low D ?u, d_low D v, A2 + d_high D v) =
      three_val (d_low D ?u, d_low D v, A2 + d_high D v) mod (B * B * B)"
    by (rule mod_pos_pos_trivial [symmetric]) (rule three_range)+
  also have "\<dots> = (three_val (A0, A1, A2) - (uint p + B * x)) mod (B * B * B)"
    unfolding eq by simp
  finally show ?thesis .
qed

lemma sub_divisor_val:
  "three_val (sub_divisor D B0 B1 A) = (three_val A - (uint B0 + B * uint B1)) mod (B * B * B)"
proof -
  obtain A0 A1 A2 where A: "A = (A0, A1, A2)" by (cases A)
  show ?thesis
    unfolding A sub_divisor_def Let_def prod.case
    by (rule three_sub) (simp add: sub_half of_half mod_diff_left_eq)
qed

lemma three_cond:
  "A2 \<noteq> 0 \<or> A1 > B1 \<or> (A1 = B1 \<and> A0 \<ge> B0) \<longleftrightarrow> uint B0 + B * uint B1 \<le> three_val (A0, A1, A2)" for A0 A1 A2 B0 B1 :: "'s word"
proof -
  have v: "three_val (A0, A1, A2) = uint A0 + B * uint A1 + B * B * uint A2" by (rule three)
  show ?thesis
  proof (cases "A2 = 0")
    case False
    then have "uint A2 \<noteq> 0" by (simp add: word_uint_eq_iff)
    then have "1 \<le> uint A2" using bounds [of A2] by linarith
    then have "B * B * 1 \<le> B * B * uint A2" using base_pos by (intro mult_left_mono) simp_all
    moreover have "B * (uint B1 + 1) \<le> B * B" using bounds [of B1] base_pos by (intro mult_left_mono) simp_all
    moreover have "0 \<le> B * uint A1" using base_pos bounds by simp
    ultimately have "uint B0 + B * uint B1 \<le> three_val (A0, A1, A2)"
      unfolding v using bounds [of B0] bounds [of A0] by (simp only: distrib_left)
    with False show ?thesis by blast
  next
    case True
    then have v0: "three_val (A0, A1, A2) = uint A0 + B * uint A1" unfolding v by simp
    consider "uint A1 < uint B1" | "uint A1 = uint B1" | "uint B1 < uint A1" by linarith
    then show ?thesis
    proof cases
      case 1
      then have "B * (uint A1 + 1) \<le> B * uint B1" using base_pos by (intro mult_left_mono) simp_all
      then have "three_val (A0, A1, A2) < uint B0 + B * uint B1"
        unfolding v0 using bounds [of A0] bounds [of B0] by (simp only: distrib_left)
      with 1 True show ?thesis by (auto simp: word_less_def word_uint_eq_iff)
    next
      case 2
      then show ?thesis unfolding v0 using True by (auto simp: word_less_def word_le_def word_uint_eq_iff)
    next
      case 3
      then have "B * (uint B1 + 1) \<le> B * uint A1" using base_pos by (intro mult_left_mono) simp_all
      then have "uint B0 + B * uint B1 \<le> three_val (A0, A1, A2)"
        unfolding v0 using bounds [of A0] bounds [of B0] by (simp only: distrib_left)
      with 3 True show ?thesis by (auto simp: word_less_def)
    qed
  qed
qed

lemma fix_quotient_ok:
  "0 < uint B0 + B * uint B1 \<Longrightarrow> uint Q + three_val A div (uint B0 + B * uint B1) < B \<Longrightarrow>
   \<exists>Q' A'. fix_quotient D B0 B1 Q A = Some (Q', A') \<and> uint Q' = uint Q + three_val A div (uint B0 + B * uint B1) \<and>
     three_val A' = three_val A mod (uint B0 + B * uint B1)"
proof (induction "nat (three_val A)" arbitrary: A Q rule: less_induct)
  case less
  let ?V = "uint B0 + B * uint B1"
  obtain A0 A1 A2 where A: "A = (A0, A1, A2)" by (cases A)
  note range = three_range [of A]
  show ?case
  proof (cases "?V \<le> three_val A")
    case False
    then have "\<not> (A2 \<noteq> 0 \<or> A1 > B1 \<or> (A1 = B1 \<and> A0 \<ge> B0))" unfolding A three_cond .
    then have "fix_quotient D B0 B1 Q A = Some (Q, A)"
      unfolding A by (subst fix_quotient.simps) (simp only: Let_def prod.case if_False)
    with False range show ?thesis by (simp add: div_pos_pos_trivial mod_pos_pos_trivial)
  next
    case True
    let ?A = "sub_divisor D B0 B1 A"
    have "three_val ?A = (three_val A - ?V) mod (B * B * B)" by (rule sub_divisor_val)
    also have "\<dots> = three_val A - ?V" using True less.prems range by (intro mod_pos_pos_trivial) linarith+
    finally have v: "three_val ?A = three_val A - ?V" .
    have d: "three_val A div ?V = three_val ?A div ?V + 1"
    proof -
      have "three_val A div ?V = (three_val ?A + 1 * ?V) div ?V" unfolding v by simp
      also have "\<dots> = 1 + three_val ?A div ?V" using less.prems by (intro div_mult_self1) simp
      finally show ?thesis by simp
    qed
    have m: "three_val A mod ?V = three_val ?A mod ?V"
      unfolding v by (simp add: mod_diff_right_eq [symmetric])
    have pos: "0 \<le> three_val ?A div ?V" using less.prems(1) three_range(1) [of ?A] by (simp add: pos_imp_zdiv_nonneg_iff)
    then have Q1: "uint (Q + 1) = uint Q + 1"
      using less.prems(2) d bounds [of Q] by (simp add: uint_word_ariths base)
    have "uint Q + 1 \<noteq> 0" using bounds(1) [of Q] by linarith
    then have nz: "(Q + 1 = 0) = False" using Q1 by (metis unsigned_0)
    note Q1
    moreover have "fix_quotient D B0 B1 Q A = fix_quotient D B0 B1 (Q + 1) ?A"
    proof -
      have "A2 \<noteq> 0 \<or> A1 > B1 \<or> (A1 = B1 \<and> A0 \<ge> B0)" using True unfolding A three_cond .
      then show ?thesis unfolding A by (subst fix_quotient.simps) (simp only: Let_def prod.case if_True if_False nz)
    qed
    moreover have "nat (three_val ?A) < nat (three_val A)" using v True less.prems(1) range by simp
    moreover have "\<exists>Q' A'. fix_quotient D B0 B1 (Q + 1) ?A = Some (Q', A') \<and>
        uint Q' = uint (Q + 1) + three_val ?A div ?V \<and> three_val A' = three_val ?A mod ?V"
      using calculation less.prems d by (intro less.hyps) simp_all
    ultimately show ?thesis unfolding d m by (auto simp: add.commute add.left_commute)
  qed
qed

text \<open>Three words by two.\<close>

lemma divide_three:
  assumes "uint A1 + B * uint A2 < uint B0 + B * uint B1"
  shows "\<exists>Q A'. DivideThreeWordsByTwo D (A0, A1, A2) B0 B1 = Some (Q, A') \<and>
    uint Q = three_val (A0, A1, A2) div (uint B0 + B * uint B1) \<and>
    three_val A' = three_val (A0, A1, A2) mod (uint B0 + B * uint B1)"
proof -
  let ?V = "uint B0 + B * uint B1" and ?A = "three_val (A0, A1, A2)"
  have Apos: "0 \<le> uint A1 + B * uint A2" using bounds base_pos by simp
  then have V: "0 < ?V" using assms by linarith
  have A: "?A = uint A0 + B * (uint A1 + B * uint A2)" by (simp add: three distrib_left)
  have q: "?A div ?V < B"
  proof -
    have "B * (uint A1 + B * uint A2 + 1) \<le> B * ?V" using assms base_pos by (intro mult_left_mono) simp_all
    then have "?A < B * ?V" unfolding A using bounds [of A0] by (simp only: distrib_left)
    then show ?thesis using V by (rule div_int_less)
  qed
  have "uint A2 \<le> uint B1"
  proof (rule ccontr)
    assume "\<not> uint A2 \<le> uint B1"
    then have "B * (uint B1 + 1) \<le> B * uint A2" using base_pos by (intro mult_left_mono) simp_all
    then show False using assms bounds [of B0] bounds [of A1] by (simp only: distrib_left)
  qed
  obtain Q where Q: "(if B1 + 1 = 0 then Some A2 else d_divide D (d_make D A1 A2) (B1 + 1)) = Some Q"
      "uint Q * (uint B1 + 1) \<le> uint A1 + B * uint A2"
  proof (cases "B1 + 1 = 0")
    case True
    then have "uint B1 + 1 = B"
      using bounds [of B1] by (simp add: word_uint_eq_iff uint_word_ariths base)
        (metis add.commute base bounds(2) int_one_le_iff_zero_less add1_zle_eq zdvd_imp_le dvd_eq_mod_eq_0 order_antisym_conv zero_less_one add_nonneg_pos uint_ge_0)
    with True that [of A2] bounds [of A1] show ?thesis by (simp add: mult.commute)
  next
    case False
    have "uint B1 + 1 \<le> 2 ^ LENGTH('s)" using uint_bound(2) [of B1] by linarith
    then have b: "uint (B1 + 1) = uint B1 + 1"
      using False by (simp add: uint_plus_if' word_uint_eq_iff split: if_splits)
    have "uint (d_high D (d_make D A1 A2)) = uint A2"
      using bounds [of A1] base_pos by (simp add: high make)
    then have "uint (d_high D (d_make D A1 A2)) < uint (B1 + 1)" using \<open>uint A2 \<le> uint B1\<close> b by simp
    from divide [OF this] obtain q where "d_divide D (d_make D A1 A2) (B1 + 1) = Some q"
      "uint q = (uint A1 + B * uint A2) div (uint B1 + 1)" by (auto simp: make b)
    moreover have "(uint A1 + B * uint A2) div (uint B1 + 1) * (uint B1 + 1) \<le> uint A1 + B * uint A2"
      using div_mult_mod_eq [of "uint A1 + B * uint A2" "uint B1 + 1"] pos_mod_sign [of "uint B1 + 1" "uint A1 + B * uint A2"]
        bounds [of B1] by linarith
    ultimately show ?thesis using that [of q] False by simp
  qed
  have le: "uint Q * ?V \<le> ?A"
  proof -
    have "?V \<le> B * (uint B1 + 1)" using bounds [of B0] by (simp add: distrib_left)
    then have "uint Q * ?V \<le> uint Q * (B * (uint B1 + 1))" using bounds by (intro mult_left_mono) simp_all
    also have "\<dots> = B * (uint Q * (uint B1 + 1))" by (simp only: mult_ac)
    also have "\<dots> \<le> B * (uint A1 + B * uint A2)" using Q(2) base_pos by (intro mult_left_mono) simp_all
    finally show ?thesis unfolding A using bounds [of A0] by linarith
  qed
  let ?p = "d_multiply D B0 Q"
  let ?u = "d_sub_half D (d_of D A0) (d_low D ?p)"
  let ?v = "d_sub D (d_sub_half D (d_sub_half D (d_of D A1) (d_high D ?p)) (d_borrow D ?u)) (d_multiply D B1 Q)"
  let ?r = "(d_low D ?u, d_low D ?v, A2 + d_high D ?v)"
  have "dv ?v = (uint A1 - (uint (d_high D ?p) + uint B1 * uint Q) - uint (d_borrow D ?u)) mod (B * B)"
    by (simp add: sub sub_half of_half multiply mod_diff_left_eq algebra_simps)
  then have "three_val ?r = (?A - (uint (d_low D ?p) + B * (uint (d_high D ?p) + uint B1 * uint Q))) mod (B * B * B)"
    by (rule three_sub)
  also have "uint (d_low D ?p) + B * (uint (d_high D ?p) + uint B1 * uint Q) = uint Q * ?V"
    using dv_split [of ?p] by (simp add: multiply algebra_simps)
  also have "(?A - uint Q * ?V) mod (B * B * B) = ?A - uint Q * ?V"
  proof (rule mod_pos_pos_trivial)
    show "0 \<le> ?A - uint Q * ?V" using le by simp
    have "0 \<le> uint Q * ?V" using V by simp
    then show "?A - uint Q * ?V < B * B * B" using three_range(2) [of "(A0, A1, A2)"] by linarith
  qed
  finally have r: "three_val ?r = ?A - uint Q * ?V" .
  have d: "uint Q + three_val ?r div ?V = ?A div ?V"
  proof -
    have "?A div ?V = (three_val ?r + uint Q * ?V) div ?V" unfolding r by simp
    also have "\<dots> = uint Q + three_val ?r div ?V" using V by (intro div_mult_self1) simp
    finally show ?thesis by simp
  qed
  have m: "three_val ?r mod ?V = ?A mod ?V"
    unfolding r by (simp add: mod_diff_right_eq [symmetric])
  have "A2 < B1 \<or> (A2 = B1 \<and> A1 < B0)"
  proof (cases "uint A2 = uint B1")
    case True
    then show ?thesis using assms by (simp add: word_less_def word_uint_eq_iff)
  qed (use \<open>uint A2 \<le> uint B1\<close> in \<open>simp add: word_less_def\<close>)
  then have "DivideThreeWordsByTwo D (A0, A1, A2) B0 B1 = fix_quotient D B0 B1 Q ?r"
    by (simp only: DivideThreeWordsByTwo_def Q(1) Let_def prod.case Option.bind.bind_lunit if_False simp_thms)
  with fix_quotient_ok [OF V, of Q ?r] q d m show ?thesis by simp
qed

lemma three_small:
  fixes B0 B1 :: "'s word"
  assumes "three_val (A0, A1, A2) < uint B0 + B * uint B1"
  shows "uint A0 + B * uint A1 = three_val (A0, A1, A2 :: 's word)" (is "_ = ?v")
proof -
  have "\<not> (A2 \<noteq> 0 \<or> A1 > B1 \<or> (A1 = B1 \<and> A0 \<ge> B0))" using assms unfolding three_cond by simp
  then have "A2 = 0" by simp
  then show ?thesis by (simp add: three)
qed

text \<open>Four words by two, when the quotient fits two words.\<close>

lemma divide_four:
  assumes "dv Ah < dv Bd"
  shows "\<exists>q t0 t1. DivideFourWordsByTwo D Al Ah Bd = Some (q, t0, t1) \<and>
    dv q = (dv Al + B * B * dv Ah) div dv Bd \<and> uint t0 + B * uint t1 = (dv Al + B * B * dv Ah) mod dv Bd"
proof -
  let ?V = "dv Bd"
  have V: "?V = uint (d_low D Bd) + B * uint (d_high D Bd)" by (rule dv_split)
  have Ah: "dv Ah = uint (d_low D Ah) + B * uint (d_high D Ah)" by (rule dv_split)
  have Al: "dv Al = uint (d_low D Al) + B * uint (d_high D Al)" by (rule dv_split)
  have "0 \<le> B * uint (d_high D Ah)" using bounds base_pos by simp
  then have pos: "0 < ?V" using assms Ah bounds(1) [of "d_low D Ah"] by linarith
  then have nz: "\<not> d_not D Bd" by (simp add: not_zero)
  obtain Q1 T1 T2 T3 where one: "DivideThreeWordsByTwo D (d_high D Al, d_low D Ah, d_high D Ah) (d_low D Bd) (d_high D Bd) = Some (Q1, T1, T2, T3)"
    "uint Q1 = three_val (d_high D Al, d_low D Ah, d_high D Ah) div ?V"
    "three_val (T1, T2, T3) = three_val (d_high D Al, d_low D Ah, d_high D Ah) mod ?V"
    using divide_three [of "d_low D Ah" "d_high D Ah" "d_low D Bd" "d_high D Bd" "d_high D Al"] assms
    unfolding V [symmetric] Ah [symmetric] by auto
  let ?X = "three_val (d_high D Al, d_low D Ah, d_high D Ah)"
  have r1: "uint T1 + B * uint T2 = ?X mod ?V"
    using three_small [of T1 T2 T3 "d_low D Bd" "d_high D Bd"] pos_mod_bound [OF pos, of ?X] one(3) by (simp add: V)
  obtain Q0 T0' T1' T2' where two: "DivideThreeWordsByTwo D (d_low D Al, T1, T2) (d_low D Bd) (d_high D Bd) = Some (Q0, T0', T1', T2')"
    "uint Q0 = three_val (d_low D Al, T1, T2) div ?V"
    "three_val (T0', T1', T2') = three_val (d_low D Al, T1, T2) mod ?V"
    using divide_three [of T1 T2 "d_low D Bd" "d_high D Bd" "d_low D Al"] pos_mod_bound [OF pos, of ?X]
    unfolding V [symmetric] r1 by auto
  let ?Y = "three_val (d_low D Al, T1, T2)"
  have r0: "uint T0' + B * uint T1' = ?Y mod ?V"
    using three_small [of T0' T1' T2' "d_low D Bd" "d_high D Bd"] pos_mod_bound [OF pos, of ?Y] two(3) by (simp add: V)
  have X: "?X = ?X div ?V * ?V + (uint T1 + B * uint T2)" unfolding r1 by (rule div_mult_mod_eq [symmetric])
  have "?Y = uint (d_low D Al) + B * (uint T1 + B * uint T2)" unfolding three by (simp add: algebra_simps)
  moreover have "dv Al + B * B * dv Ah = uint (d_low D Al) + B * ?X" unfolding three Al Ah by (simp add: algebra_simps)
  moreover have "B * ?X = B * (?X div ?V * ?V) + B * (uint T1 + B * uint T2)" by (subst X) (simp only: distrib_left)
  ultimately have total: "dv Al + B * B * dv Ah = ?Y + (B * uint Q1) * ?V"
    unfolding one(2) by (simp only: mult.assoc)
  have "(dv Al + B * B * dv Ah) div ?V = B * uint Q1 + ?Y div ?V"
    unfolding total using pos by (intro div_mult_self1) simp
  moreover have "(dv Al + B * B * dv Ah) mod ?V = ?Y mod ?V" unfolding total by simp
  ultimately show ?thesis
    using one(1) two(1,2) r0 nz by (auto simp: DivideFourWordsByTwo_def make)
qed

end

section \<open>The two classes\<close>

lemma uint_half [simp]: "uint (ucast a :: u64) = uint a" for a :: hword
  using uint_bound [of a] by (simp add: unsigned_ucast_eq take_bit_int_eq_self)

lemma uint_Word_low: "uint (Word_low d) = uint d mod 2 ^ 32"
  by (simp add: Word_low_def unsigned_ucast_eq take_bit_eq_mod)

lemma uint_Word_high: "uint (Word_high d) = uint d div 2 ^ 32"
proof -
  have "uint d div 2 ^ 32 < 2 ^ 32" using uint_bound [of d] by (intro div_int_less) simp_all
  moreover have "0 \<le> uint d div 2 ^ 32" by (simp add: pos_imp_zdiv_nonneg_iff)
  ultimately show ?thesis
    by (simp add: Word_high_def unsigned_ucast_eq unsigned_drop_bit_eq drop_bit_eq_div uint_div take_bit_int_eq_self)
qed

interpretation half: double_word Word_class uint "2 ^ 32"
proof
  fix l h a b :: hword and d e :: u64
  show "(2 :: int) ^ 32 = 2 ^ LENGTH(32)" by simp
  have "uint (ucast l + ucast h * 2 ^ 32 :: u64) = uint l + 2 ^ 32 * uint h"
    using uint_bound [of l] uint_bound [of h] by (simp add: uint_word_ariths)
  moreover have "(ucast l OR push_bit 32 (ucast h) :: u64) = ucast l + push_bit 32 (ucast h)"
    by (rule disjunctive_add_eq_or [symmetric], rule bit_word_eqI) (auto simp: bit_simps dest: bit_imp_le_length)
  ultimately show "uint (d_make Word_class l h) = uint l + 2 ^ 32 * uint h"
    by (simp add: Word_class_def Word_halves_def push_bit_eq_mult)
  show "uint (d_multiply Word_class a b) = uint a * uint b"
  proof -
    have "uint a * uint b < 2 ^ 32 * 2 ^ 32" by (rule mult_strict_mono') (use uint_bound [of a] uint_bound [of b] in auto)
    then show ?thesis by (simp add: Word_class_def Word_Multiply_def uint_word_ariths)
  qed
  show "uint (d_of Word_class a) = uint a" by (simp add: Word_class_def)
  show "uint (d_sub_half Word_class d a) = (uint d - uint a) mod (2 ^ 32 * 2 ^ 32)"
    by (simp add: Word_class_def uint_word_ariths)
  show "uint (d_sub Word_class d e) = (uint d - uint e) mod (2 ^ 32 * 2 ^ 32)"
    by (simp add: Word_class_def uint_word_ariths)
  show "uint (d_low Word_class d) = uint d mod 2 ^ 32" by (simp add: Word_class_def uint_Word_low)
  show "uint (d_high Word_class d) = uint d div 2 ^ 32" by (simp add: Word_class_def uint_Word_high)
  show "d_borrow Word_class d = - d_high Word_class d"
    by (simp add: Word_class_def Word_borrow_def Word_high_def)
  show "d_not Word_class d \<longleftrightarrow> uint d = 0" by (simp add: Word_class_def word_uint_eq_iff)
  show "\<exists>q. d_divide Word_class d a = Some q \<and> uint q = uint d div uint a" if "uint (d_high Word_class d) < uint a"
  proof -
    have h: "uint d div 2 ^ 32 < uint a" using that by (simp add: Word_class_def uint_Word_high)
    have "0 \<le> uint d div 2 ^ 32" by (simp add: pos_imp_zdiv_nonneg_iff)
    then have a: "0 < uint a" using h by linarith
    have "uint d < 2 ^ 32 * uint a"
      using h div_mult_mod_eq [of "uint d" "2 ^ 32"] pos_mod_bound [of "2 ^ 32" "uint d"] by simp
    then have q: "uint d div uint a < 2 ^ 32" using a by (rule div_int_less)
    have "0 \<le> uint d div uint a" using a by (simp add: pos_imp_zdiv_nonneg_iff)
    then have "uint (ucast (d div ucast a) :: hword) = uint d div uint a"
      using q by (simp add: unsigned_ucast_eq uint_div take_bit_int_eq_self)
    moreover have "a \<noteq> 0" using a by auto
    ultimately show ?thesis by (simp add: Word_class_def Word_div_def)
  qed
qed

text \<open>\<open>operator/\<close> and \<open>operator%\<close>, when the quotient fits a word.\<close>

lemma DWord_division:
  assumes "GetHighHalf d < a"
  shows "\<exists>q r0 r1. DivideFourWordsByTwo Word_class (GetLowHalf d) (GetHighHalf d) a = Some (q, r0, r1) \<and>
    uint q = dint d div uint a \<and> uint (Word_halves r0 r1) = dint d mod uint a"
proof -
  have "uint (GetHighHalf d) < uint a" using assms by (simp add: word_less_def)
  from half.divide_four [OF this, of "GetLowHalf d"]
  show ?thesis using half.make by (auto simp: dint_def Word_class_def)
qed

lemma DWord_div_ok: "GetHighHalf d < a \<Longrightarrow> \<exists>q. DWord_div d a = Some q \<and> uint q = dint d div uint a"
  using DWord_division [of d a] by (auto simp: DWord_div_def)

interpretation full: double_word DWord_class dint "2 ^ 64"
proof
  fix l h a b :: u64 and d e :: "u64 dword"
  show "(2 :: int) ^ 64 = 2 ^ LENGTH(64)" by simp
  show "\<exists>q. d_divide DWord_class d a = Some q \<and> uint q = dint d div uint a" if "uint (d_high DWord_class d) < uint a"
    using DWord_div_ok [of d a] that by (simp add: DWord_class_def word_less_def)
  show "d_not DWord_class d \<longleftrightarrow> dint d = 0"
    using uint_bound(1) [of "GetLowHalf d"] uint_bound(1) [of "GetHighHalf d"]
    by (auto simp: DWord_class_def DWord_not_def dint_def word_uint_eq_iff add_nonneg_eq_0_iff)
qed (simp_all add: DWord_class_def dint_low dint_high GetHighHalfAsBorrow_def)

end
