(* ===== verification/CPP_Words.thy ===== *)
theory CPP_Words
  imports CPP_Division
begin

text \<open>
  Arrays of words as numbers, \<^verbatim>\<open>src/src/utils/lib/CryptoPP.cc\<close> (words.h and the portable part of
  integer.cpp): comparison, increment, complement, inverse of a word, addition, subtraction, shifts
  and multiplication by one word. An array of \<open>N\<close> words, the lowest first, is a list; a function
  that writes an array returns it, with the value the C++ function returns. The length parameter
  \<open>N\<close> is the length of the list.
\<close>

section \<open>Operations\<close>

fun Compare :: "u64 list \<Rightarrow> u64 list \<Rightarrow> nat \<Rightarrow> int" where
  "Compare A B 0 = 0"
| "Compare A B (Suc N) = (if A ! N > B ! N then 1 else if A ! N < B ! N then -1 else Compare A B N)"

text \<open>The function \<open>Increment\<close> asserts that there is a word, and so does \<open>Decrement\<close>: nothing is
  said about the empty array.\<close>

fun inc_loop :: "u64 list \<Rightarrow> u64 list \<times> u64" where
  "inc_loop [] = ([], 1)"
| "inc_loop (a # A) = (if a + 1 \<noteq> 0 then ((a + 1) # A, 0) else (let (A, c) = inc_loop A in ((a + 1) # A, c)))"

fun Increment :: "u64 list \<Rightarrow> u64 \<Rightarrow> u64 list \<times> u64" where
  "Increment (t # A) B = (if t + B \<ge> t then ((t + B) # A, 0) else (let (A, c) = inc_loop A in ((t + B) # A, c)))"

fun dec_loop :: "u64 list \<Rightarrow> u64 list \<times> u64" where
  "dec_loop [] = ([], 1)"
| "dec_loop (a # A) = (if a \<noteq> 0 then ((a - 1) # A, 0) else (let (A, c) = dec_loop A in ((a - 1) # A, c)))"

fun Decrement :: "u64 list \<Rightarrow> u64 \<Rightarrow> u64 list \<times> u64" where
  "Decrement (t # A) B = (if t - B \<le> t then ((t - B) # A, 0) else (let (A, c) = dec_loop A in ((t - B) # A, c)))"

definition TwosComplement :: "u64 list \<Rightarrow> u64 list" where
  "TwosComplement A = map NOT (fst (Decrement A 1))"

text \<open>The loop variable starts at 3, so that it is never 0.\<close>

function inverse_loop :: "u64 \<Rightarrow> nat \<Rightarrow> u64 \<Rightarrow> u64" where
  "inverse_loop A i R = (if 0 < i \<and> i < 64 then inverse_loop A (i * 2) (R * (2 - R * A)) else R)"
  by pat_completeness auto
termination
  by (relation "measure (\<lambda>(A, i, R). 64 - i)") auto

text \<open>\<open>None\<close> is an assertion that fails: before the loop, or on its result.\<close>

definition AtomicInverseModPower2 :: "u64 \<Rightarrow> u64 option" where
  "AtomicInverseModPower2 A =
     (if A mod 2 \<noteq> 1 then None
      else let R = inverse_loop A 3 (A mod 8) in if R * A = 1 then Some R else None)"

text \<open>Two words at a time; \<open>u\<close> is the double word with the carry or the borrow.\<close>

fun add_loop :: "u64 list \<Rightarrow> u64 list \<Rightarrow> u64 dword \<Rightarrow> u64 list \<times> u64 dword" where
  "add_loop (a0 # a1 # A) (b0 # b1 # B) u =
     (let u = DWord_add (DWord_add (DWord_of a0) b0) (GetHighHalf u);
          c0 = GetLowHalf u;
          u = DWord_add (DWord_add (DWord_of a1) b1) (GetHighHalf u);
          c1 = GetLowHalf u;
          (C, u) = add_loop A B u
      in (c0 # c1 # C, u))"
| "add_loop _ _ u = ([], u)"

definition Add :: "u64 list \<Rightarrow> u64 list \<Rightarrow> u64 list \<times> u64" where
  "Add A B = (let (C, u) = add_loop A B (DWord 0 0) in (C, GetHighHalf u))"

fun subtract_loop :: "u64 list \<Rightarrow> u64 list \<Rightarrow> u64 dword \<Rightarrow> u64 list \<times> u64 dword" where
  "subtract_loop (a0 # a1 # A) (b0 # b1 # B) u =
     (let u = DWord_sub_word (DWord_sub_word (DWord_of a0) b0) (GetHighHalfAsBorrow u);
          c0 = GetLowHalf u;
          u = DWord_sub_word (DWord_sub_word (DWord_of a1) b1) (GetHighHalfAsBorrow u);
          c1 = GetLowHalf u;
          (C, u) = subtract_loop A B u
      in (c0 # c1 # C, u))"
| "subtract_loop _ _ u = ([], u)"

definition Subtract :: "u64 list \<Rightarrow> u64 list \<Rightarrow> u64 list \<times> u64" where
  "Subtract A B = (let (C, u) = subtract_loop A B (DWord 0 0) in (C, 0 - GetHighHalf u))"

fun linear_loop :: "u64 list \<Rightarrow> u64 \<Rightarrow> u64 \<Rightarrow> u64 list \<times> u64" where
  "linear_loop [] B carry = ([], carry)"
| "linear_loop (a # A) B carry =
     (let p = MultiplyAndAdd a B carry;
          (C, carry) = linear_loop A B (GetHighHalf p)
      in (GetLowHalf p # C, carry))"

definition LinearMultiply :: "u64 list \<Rightarrow> u64 \<Rightarrow> u64 list \<times> u64" where
  "LinearMultiply A B = linear_loop A B 0"

definition SetWords :: "u64 \<Rightarrow> nat \<Rightarrow> u64 list" where
  "SetWords a n = replicate n a"

fun shift_left_loop :: "nat \<Rightarrow> u64 list \<Rightarrow> u64 \<Rightarrow> u64 list \<times> u64" where
  "shift_left_loop shiftBits [] carry = ([], carry)"
| "shift_left_loop shiftBits (u # r) carry =
     (let (r, c) = shift_left_loop shiftBits r (drop_bit (64 - shiftBits) u)
      in ((push_bit shiftBits u OR carry) # r, c))"

definition ShiftWordsLeftByBits :: "u64 list \<Rightarrow> nat \<Rightarrow> u64 list \<times> u64" where
  "ShiftWordsLeftByBits r shiftBits = (if shiftBits \<noteq> 0 then shift_left_loop shiftBits r 0 else (r, 0))"

text \<open>From the upper word down: the carry into a word comes from the words above it.\<close>

fun shift_right_loop :: "nat \<Rightarrow> u64 list \<Rightarrow> u64 list \<times> u64" where
  "shift_right_loop shiftBits [] = ([], 0)"
| "shift_right_loop shiftBits (u # r) =
     (let (r, carry) = shift_right_loop shiftBits r
      in ((drop_bit shiftBits u OR carry) # r, push_bit (64 - shiftBits) u))"

definition ShiftWordsRightByBits :: "u64 list \<Rightarrow> nat \<Rightarrow> u64 list \<times> u64" where
  "ShiftWordsRightByBits r shiftBits = (if shiftBits \<noteq> 0 then shift_right_loop shiftBits r else (r, 0))"

definition ShiftWordsLeftByWords :: "u64 list \<Rightarrow> nat \<Rightarrow> u64 list" where
  "ShiftWordsLeftByWords r shiftWords =
     (let shiftWords = min shiftWords (length r)
      in SetWords 0 shiftWords @ take (length r - shiftWords) r)"

definition ShiftWordsRightByWords :: "u64 list \<Rightarrow> nat \<Rightarrow> u64 list" where
  "ShiftWordsRightByWords r shiftWords =
     (let shiftWords = min shiftWords (length r)
      in drop shiftWords r @ SetWords 0 shiftWords)"

text \<open>The number of bits of a word, by bisection.\<close>

function bit_precision_loop :: "u64 \<Rightarrow> nat \<Rightarrow> nat \<Rightarrow> nat" where
  "bit_precision_loop v l h =
     (if h - l > 1 then
        (let t = (l + h) div 2
         in if drop_bit t v \<noteq> 0 then bit_precision_loop v t h else bit_precision_loop v l t)
      else h)"
  by pat_completeness auto
termination
  by (relation "measure (\<lambda>(v, l, h). h - l)") auto

definition BitPrecision :: "u64 \<Rightarrow> nat" where
  "BitPrecision v = (if v = 0 then 0 else bit_precision_loop v 0 64)"

fun EvenWordCount :: "u64 list \<Rightarrow> nat \<Rightarrow> nat" where
  "EvenWordCount X N = (if 2 \<le> N \<and> X ! (N - 2) = 0 \<and> X ! (N - 1) = 0 then EvenWordCount X (N - 2) else N)"

declare inverse_loop.simps [simp del] bit_precision_loop.simps [simp del] EvenWordCount.simps [simp del]

section \<open>Values\<close>

text \<open>The base is kept folded.\<close>

definition W :: int where
  "W = 2 ^ 64"

fun val :: "u64 list \<Rightarrow> int" where
  "val [] = 0"
| "val (a # A) = uint a + W * val A"

lemma W_pos [simp]: "0 < W" "1 < W" "0 \<le> W" "W \<noteq> 0"
  by (simp_all add: W_def)

lemma uint_W: "0 \<le> uint a" "uint a < W" for a :: u64
  using uint_bound [of a] by (simp_all add: W_def)

lemma dint_W: "dint d = uint (GetLowHalf d) + W * uint (GetHighHalf d)" for d :: "u64 dword"
  by (simp add: dint_def W_def)

lemma val_append [simp]: "val (A @ B) = val A + W ^ length A * val B"
  by (induction A) (simp_all add: algebra_simps)

lemma val_replicate_0 [simp]: "val (replicate n 0) = 0"
  by (induction n) simp_all

lemma val_nonneg [simp]: "0 \<le> val A"
  by (induction A) (simp_all add: uint_W)

lemma val_less: "val A < W ^ length A"
proof (induction A)
  case (Cons a A)
  then have "val A + 1 \<le> W ^ length A" by simp
  then have "W * (val A + 1) \<le> W * W ^ length A" by (intro mult_left_mono) simp_all
  then show ?case using uint_W(2) [of a] by (simp add: distrib_left)
qed simp

lemma val_take_drop: "val A = val (take n A) + W ^ length (take n A) * val (drop n A)"
  using val_append [of "take n A" "drop n A"] by simp

lemma val_inj: "length A = length B \<Longrightarrow> val A = val B \<Longrightarrow> A = B"
proof (induction A B rule: list_induct2)
  case (Cons a A b B)
  have "uint a = uint b"
  proof -
    have "uint a = val (a # A) mod W" "uint b = val (b # B) mod W" using uint_W by (simp_all add: mod_pos_pos_trivial)
    then show ?thesis by (simp only: Cons.prems)
  qed
  with Cons show ?case by (simp add: word_uint_eq_iff)
qed simp

text \<open>How values are found from an equation with a carry.\<close>

lemma val_mod: "val A = x + W ^ length A * k \<Longrightarrow> val A = x mod W ^ length A"
  using val_less [of A] by (metis mod_mult_self2 mod_pos_pos_trivial val_nonneg)

section \<open>What the operations compute\<close>

lemma compare_val:
  "N \<le> length A \<Longrightarrow> N \<le> length B \<Longrightarrow>
   Compare A B N = (if val (take N A) < val (take N B) then - 1 else if val (take N A) = val (take N B) then 0 else 1)"
proof (induction N)
  case (Suc N)
  have split: "val (take (Suc N) X) = val (take N X) + W ^ N * uint (X ! N)" if "Suc N \<le> length X" for X
    using that by (simp add: take_Suc_conv_app_nth)
  have small: "val (take N X) < W ^ N" if "Suc N \<le> length X" for X
    using val_less [of "take N X"] that by simp
  have step: "x + W ^ N * uint a < y + W ^ N * uint b" if "x < W ^ N" "0 \<le> y" "uint a < uint b" for x y and a b :: u64
  proof -
    have "W ^ N * (uint a + 1) \<le> W ^ N * uint b" using that(3) by (intro mult_left_mono) simp_all
    then show ?thesis using that(1,2) by (simp add: distrib_left)
  qed
  note s = split [OF Suc.prems(1)] split [OF Suc.prems(2)]
  consider "A ! N < B ! N" | "A ! N = B ! N" | "B ! N < A ! N" by fastforce
  then show ?case
  proof cases
    case 1
    then have "val (take (Suc N) A) < val (take (Suc N) B)"
      unfolding s by (intro step small Suc.prems) (simp_all add: word_less_def)
    with 1 show ?thesis by simp
  next
    case 2
    with Suc show ?thesis by (simp add: s)
  next
    case 3
    then have "val (take (Suc N) B) < val (take (Suc N) A)"
      unfolding s by (intro step small Suc.prems) (simp_all add: word_less_def)
    with 3 show ?thesis by simp
  qed
qed simp

lemma uint_max [simp]: "uint (- 1 :: u64) = W - 1"
  by (simp add: W_def unsigned_minus_1_eq_mask mask_eq_exp_minus_1)

lemma scale_eq: "x + y * c = z + 1 \<Longrightarrow> W * x + W * y * c = W * z + W"
proof -
  assume "x + y * c = z + 1"
  then have "W * (x + y * c) = W * (z + 1)" by simp
  then show ?thesis by (simp only: distrib_left mult.assoc mult_1_right)
qed

lemma uint_inc: "a + 1 \<noteq> 0 \<Longrightarrow> uint (a + 1) = uint a + 1" for a :: u64
proof -
  assume "a + 1 \<noteq> 0"
  then have "a \<noteq> - 1" by auto
  then have "uint a \<noteq> W - 1" by (metis uint_max word_uint_eq_iff)
  then show ?thesis using uint_W [of a] by (simp add: uint_word_ariths W_def)
qed

lemma uint_dec: "a \<noteq> 0 \<Longrightarrow> uint (a - 1) = uint a - 1" for a :: u64
proof -
  assume "a \<noteq> 0"
  then have "uint a \<noteq> 0" by (simp add: word_uint_eq_iff)
  then have "0 \<le> uint a - 1" using uint_W(1) [of a] by linarith
  then show ?thesis using uint_W [of a] by (simp add: uint_word_ariths W_def)
qed

lemma inc_loop_val: "inc_loop A = (A', c) \<Longrightarrow>
   length A' = length A \<and> val A' + W ^ length A * uint c = val A + 1 \<and> (c = 0 \<or> c = 1)"
proof (induction A arbitrary: A' c)
  case (Cons a A)
  show ?case
  proof (cases "a + 1 = 0")
    case False
    with Cons.prems show ?thesis by (auto simp: uint_inc)
  next
    case True
    obtain A1 c1 where 1: "inc_loop A = (A1, c1)" by fastforce
    from Cons.IH [OF 1] have "W * val A1 + W * W ^ length A * uint c1 = W * val A + W" by (intro scale_eq) simp
    moreover have "uint a = W - 1" using True by (simp add: add_eq_0_iff2)
    ultimately show ?thesis using Cons.IH [OF 1] Cons.prems True 1 by (auto simp: distrib_left mult.assoc)
  qed
qed simp

lemma Increment_val:
  assumes "A \<noteq> []" and "Increment A B = (A', c)"
  shows "length A' = length A \<and> val A' + W ^ length A * uint c = val A + uint B \<and> (c = 0 \<or> c = 1)"
proof -
  obtain t R where A: "A = t # R" using assms(1) by (cases A) simp_all
  have sum: "uint (t + B) = uint t + uint B - W * of_bool (\<not> t \<le> t + B)"
    using low_carry [of B t] by (auto simp: add.commute W_def not_le)
  show ?thesis
  proof (cases "t \<le> t + B")
    case True
    with assms(2) A sum show ?thesis by auto
  next
    case False
    obtain R1 c1 where 1: "inc_loop R = (R1, c1)" by fastforce
    from inc_loop_val [OF 1] have "W * val R1 + W * W ^ length R * uint c1 = W * val R + W" by (intro scale_eq) simp
    with inc_loop_val [OF 1] assms(2) A False 1 sum show ?thesis by (auto simp: distrib_left mult.assoc)
  qed
qed

lemma dec_loop_val: "dec_loop A = (A', c) \<Longrightarrow>
   length A' = length A \<and> val A' = val A - 1 + W ^ length A * uint c \<and> (c = 0 \<or> c = 1)"
proof (induction A arbitrary: A' c)
  case (Cons a A)
  show ?case
  proof (cases "a = 0")
    case False
    with Cons.prems show ?thesis by (auto simp: uint_dec)
  next
    case True
    obtain A1 c1 where 1: "dec_loop A = (A1, c1)" by fastforce
    from Cons.IH [OF 1] have "W * val A1 = W * (val A - 1 + W ^ length A * uint c1)" by simp
    with Cons.IH [OF 1] Cons.prems True 1 show ?thesis
      by (auto simp: distrib_left right_diff_distrib mult.assoc)
  qed
qed simp

lemma Decrement_val:
  assumes "A \<noteq> []" and "Decrement A B = (A', c)"
  shows "length A' = length A \<and> val A' = val A - uint B + W ^ length A * uint c \<and> (c = 0 \<or> c = 1)"
proof -
  obtain t R where A: "A = t # R" using assms(1) by (cases A) simp_all
  have diff: "uint (t - B) = uint t - uint B + W * of_bool (\<not> t - B \<le> t)"
    using low_borrow [of t B] by (auto simp: W_def not_le)
  show ?thesis
  proof (cases "t - B \<le> t")
    case True
    with assms(2) A diff show ?thesis by auto
  next
    case False
    obtain R1 c1 where 1: "dec_loop R = (R1, c1)" by fastforce
    from dec_loop_val [OF 1] have "W * val R1 = W * (val R - 1 + W ^ length R * uint c1)" by simp
    with dec_loop_val [OF 1] assms(2) A False 1 diff show ?thesis
      by (auto simp: distrib_left right_diff_distrib mult.assoc)
  qed
qed

lemma val_not: "val (map NOT A) = W ^ length A - 1 - val A"
proof (induction A)
  case (Cons a A)
  have "uint (NOT a) = W - 1 - uint a"
    using uint_bound [of a] by (simp add: W_def unsigned_not_eq take_bit_not_eq_mask_diff mask_eq_exp_minus_1 take_bit_int_eq_self)
  then show ?case by (simp add: Cons.IH right_diff_distrib)
qed simp

lemma TwosComplement_val:
  assumes "A \<noteq> []"
  shows "length (TwosComplement A) = length A" and "val (TwosComplement A) = (- val A) mod W ^ length A"
proof -
  obtain D c where D: "Decrement A 1 = (D, c)" by fastforce
  note d = Decrement_val [OF assms D]
  show l: "length (TwosComplement A) = length A" using d by (simp add: TwosComplement_def D)
  have "val (TwosComplement A) = - val A + W ^ length (TwosComplement A) * (1 - uint c)"
    using d l by (simp add: TwosComplement_def D val_not right_diff_distrib)
  then show "val (TwosComplement A) = (- val A) mod W ^ length A" using val_mod l by metis
qed

subsection \<open>The inverse of an odd word\<close>

lemma inverse_loop_step:
  assumes "1 - R * A = 2 ^ i * k"
  shows "\<exists>k. 1 - (R * (2 - R * A)) * A = 2 ^ (i * 2) * (k :: u64)"
proof -
  have "1 - (R * (2 - R * A)) * A = (1 - R * A) * (1 - R * A)" by (simp add: algebra_simps)
  also have "\<dots> = 2 ^ (i * 2) * (k * k)" unfolding assms by (simp add: power_mult power2_eq_square algebra_simps)
  finally show ?thesis by blast
qed

lemma inverse_loop_ok:
  "0 < i \<Longrightarrow> 1 - R * A = 2 ^ i * k \<Longrightarrow> inverse_loop A i R * A = (1 :: u64)"
proof (induction A i R arbitrary: k rule: inverse_loop.induct)
  case (1 A i R)
  show ?case
  proof (cases "i < 64")
    case True
    obtain k' where "1 - (R * (2 - R * A)) * A = 2 ^ (i * 2) * k'" using inverse_loop_step [OF "1.prems"(2)] by blast
    with "1.IH" [OF _ _ this] "1.prems"(1) True show ?thesis by (subst inverse_loop.simps) simp
  next
    case False
    then have "(2 :: u64) ^ i = 0" by (simp add: exp_eq_zero_iff)
    with "1.prems" have "R * A = 1" by simp
    with False show ?thesis by (subst inverse_loop.simps) simp
  qed
qed

lemma odd_residue: "odd (A :: u64) \<Longrightarrow> A mod 8 \<in> {1, 3, 5, 7}"
proof -
  assume "odd A"
  then have "odd (unat A)" by (simp flip: bit_0 add: bit_unsigned_iff)
  then have "unat A mod 8 \<in> {1, 3, 5, 7}" by simp presburger
  then show ?thesis by (auto simp: word_unat_eq_iff unat_mod)
qed

lemma AtomicInverse_ok: "odd A \<Longrightarrow> \<exists>R. AtomicInverseModPower2 A = Some R \<and> R * A = 1"
proof -
  assume "odd A"
  have A: "A = A div 8 * 8 + A mod 8" by (rule word_mod_div_equality [symmetric])
  have "\<exists>j. 1 - (A mod 8) * (A mod 8) = 8 * (j :: u64)"
    using odd_residue [OF \<open>odd A\<close>]
  proof (elim insertE emptyE)
    assume "A mod 8 = 1" then show ?thesis by (intro exI [of _ 0]) simp
  next
    assume "A mod 8 = 3" then show ?thesis by (intro exI [of _ "- 1"]) simp
  next
    assume "A mod 8 = 5" then show ?thesis by (intro exI [of _ "- 3"]) simp
  next
    assume "A mod 8 = 7" then show ?thesis by (intro exI [of _ "- 6"]) simp
  qed
  then obtain j where j: "1 - (A mod 8) * (A mod 8) = 8 * (j :: u64)" by blast
  have "1 - A mod 8 * A = 1 - (A mod 8) * (A mod 8) - 8 * (A mod 8 * (A div 8))"
    by (subst (2) A) (simp only: distrib_left, simp add: algebra_simps)
  then have "1 - A mod 8 * A = 2 ^ 3 * (j - A mod 8 * (A div 8))"
    unfolding j by (simp add: right_diff_distrib)
  then have "inverse_loop A 3 (A mod 8) * A = 1" by (rule inverse_loop_ok [rotated]) simp
  then show ?thesis using \<open>odd A\<close> by (simp add: AtomicInverseModPower2_def Let_def odd_iff_mod_2_eq_one)
qed

subsection \<open>Addition, subtraction and multiplication by a word\<close>

lemma dint_W_high: "uint (GetHighHalf d) = dint d div W" for d :: "u64 dword"
  by (simp add: dint_high W_def)

lemma dint_W_low: "uint (GetLowHalf d) = dint d mod W" for d :: "u64 dword"
  by (simp add: dint_low W_def)

lemma dword_small: "0 \<le> x \<Longrightarrow> x < W * W \<Longrightarrow> x mod (2 ^ LENGTH(64) * 2 ^ LENGTH(64)) = x"
  by (simp add: W_def)

lemma W_big: "W + W \<le> W * W"
  by (simp add: W_def)

lemma word_prod: "uint a * uint b \<le> W * W - W - W + 1" for a b :: u64
proof -
  have "uint a * uint b \<le> (W - 1) * (W - 1)" using uint_W [of a] uint_W [of b] by (intro mult_mono) auto
  then show ?thesis by (simp add: W_def)
qed

text \<open>Sums of words that a double word holds.\<close>

lemma add_step:
  fixes a b c :: u64
  assumes "uint c \<le> 1"
  defines "u \<equiv> DWord_add (DWord_add (DWord_of a) b) c"
  shows "uint (GetLowHalf u) + W * uint (GetHighHalf u) = uint a + uint b + uint c" and "uint (GetHighHalf u) \<le> 1"
proof -
  have ab: "dint (DWord_add (DWord_of a) b) = uint a + uint b"
    unfolding dint_add dint_of using uint_W [of a] uint_W [of b] W_big by (intro dword_small) linarith+
  have d: "dint u = uint a + uint b + uint c"
    unfolding u_def dint_add [of "DWord_add (DWord_of a) b"] ab using uint_W [of a] uint_W [of b] uint_W [of c] W_big assms(1)
    by (intro dword_small) linarith+
  then show "uint (GetLowHalf u) + W * uint (GetHighHalf u) = uint a + uint b + uint c" by (simp add: dint_W)
  have "W * uint (GetHighHalf u) < W * 2"
    using d uint_W [of "GetLowHalf u"] uint_W [of a] uint_W [of b] assms(1) unfolding dint_W by linarith
  then show "uint (GetHighHalf u) \<le> 1" by simp
qed

lemma carry_chain: "c0 + W * h0 = x0 \<Longrightarrow> c1 + W * h1 = x1 + h0 \<Longrightarrow> c0 + W * (c1 + W * (z + h1)) = x0 + W * (x1 + W * z)"
  for c0 :: int
proof -
  assume a: "c0 + W * h0 = x0" "c1 + W * h1 = x1 + h0"
  have "W * (c1 + W * h1) = W * (x1 + h0)" using a(2) by simp
  then show ?thesis using a(1) by (simp only: distrib_left right_diff_distrib)
qed

lemma even_length_cases: "even (length A) \<Longrightarrow> length A = length B \<Longrightarrow>
   (A = [] \<and> B = [] \<Longrightarrow> P) \<Longrightarrow>
   (\<And>a0 a1 A' b0 b1 B'. A = a0 # a1 # A' \<Longrightarrow> B = b0 # b1 # B' \<Longrightarrow> even (length A') \<Longrightarrow> length A' = length B' \<Longrightarrow> P) \<Longrightarrow> P"
  by (cases A; cases B; cases "tl A"; cases "tl B") auto

lemma add_loop_val: "even (length A) \<Longrightarrow> length A = length B \<Longrightarrow> uint (GetHighHalf u) \<le> 1 \<Longrightarrow> add_loop A B u = (C, v) \<Longrightarrow>
   length C = length A \<and> val C + W ^ length A * uint (GetHighHalf v) = val A + val B + uint (GetHighHalf u) \<and>
   uint (GetHighHalf v) \<le> 1"
proof (induction A B u arbitrary: C v rule: add_loop.induct)
  case (1 a0 a1 A b0 b1 B u)
  define u0 where "u0 = DWord_add (DWord_add (DWord_of a0) b0) (GetHighHalf u)"
  define u1 where "u1 = DWord_add (DWord_add (DWord_of a1) b1) (GetHighHalf u0)"
  note s0 = add_step [OF "1.prems"(3), of a0 b0, folded u0_def]
  note s1 = add_step [OF s0(2), of a1 b1, folded u1_def]
  obtain C' where C': "add_loop A B u1 = (C', v)" and C: "C = GetLowHalf u0 # GetLowHalf u1 # C'"
    using "1.prems"(4) by (auto simp: Let_def u0_def u1_def split: prod.splits)
  have IH: "length C' = length A" "val C' + W ^ length A * uint (GetHighHalf v) = val A + val B + uint (GetHighHalf u1)"
    "uint (GetHighHalf v) \<le> 1"
    using "1.IH" [OF u0_def refl u1_def refl, of C' v] C' "1.prems"(1,2) s1(2) by simp_all
  have C'v: "val C' = val A + val B + uint (GetHighHalf u1) - W ^ length A * uint (GetHighHalf v)" using IH(2) by simp
  have "val C = val (a0 # a1 # A) + val (b0 # b1 # B) + uint (GetHighHalf u) - W * (W * (W ^ length A * uint (GetHighHalf v)))"
    using carry_chain [OF s0(1) s1(1), of "val A + val B - W ^ length A * uint (GetHighHalf v)"]
    unfolding C val.simps C'v by (simp only: distrib_left right_diff_distrib)
  then show ?case using IH C by (simp add: mult.assoc)
next
  case "2_1"
  then show ?case by (auto elim: even_length_cases)
next
  case "2_2"
  then show ?case by (auto elim: even_length_cases)
qed auto

lemma Add_val:
  assumes "even (length A)" and "length A = length B" and "Add A B = (C, carry)"
  shows "length C = length A \<and> val C + W ^ length A * uint carry = val A + val B \<and> uint carry \<le> 1"
  using add_loop_val [OF assms(1,2), of "DWord 0 0"] assms(3) by (auto simp: Add_def split: prod.splits)

lemma sub_step:
  fixes a b c :: u64
  assumes "uint c \<le> 1"
  defines "u \<equiv> DWord_sub_word (DWord_sub_word (DWord_of a) b) c"
  shows "uint (GetLowHalf u) - W * uint (GetHighHalfAsBorrow u) = uint a - uint b - uint c"
    and "uint (GetHighHalfAsBorrow u) \<le> 1"
proof -
  define x where "x = uint a - uint b - uint c"
  have d: "dint u = x mod (W * W)"
    by (simp add: u_def x_def mod_diff_left_eq W_def)
  have x: "- W \<le> x" "x < W" using uint_W [of a] uint_W [of b] uint_W(1) [of c] assms(1) unfolding x_def by linarith+
  have "uint (GetLowHalf u) - W * uint (GetHighHalfAsBorrow u) = x \<and> uint (GetHighHalfAsBorrow u) \<le> 1"
  proof (cases "0 \<le> x")
    case True
    then have "dint u = x" unfolding d using x W_big by (intro mod_pos_pos_trivial) linarith+
    then have "uint (GetHighHalf u) = 0" "uint (GetLowHalf u) = x"
      using x True unfolding dint_high dint_low by (simp_all add: W_def)
    moreover from this have "GetHighHalf u = 0" by (simp add: word_uint_eq_iff)
    ultimately show ?thesis by (simp add: GetHighHalfAsBorrow_def)
  next
    case False
    have "x mod (W * W) = (x + W * W) mod (W * W)" by simp
    also have "\<dots> = x + W * W" using x False W_big by (intro mod_pos_pos_trivial) linarith+
    also have "\<dots> = (x + W) + W * (W - 1)" by (simp add: algebra_simps)
    finally have "dint u = (x + W) + W * (W - 1)" unfolding d .
    moreover define r where "r = x + W"
    ultimately have u: "dint u = r + W * (W - 1)" by simp
    have "0 \<le> r" "r < W" using x False by (simp_all add: r_def)
    then have h: "uint (GetHighHalf u) = W - 1" "uint (GetLowHalf u) = r"
      unfolding dint_W_high dint_W_low u by (simp_all add: div_pos_pos_trivial)
    then have "GetHighHalf u = - 1" by (metis uint_max word_uint_eq_iff)
    with h show ?thesis by (simp add: GetHighHalfAsBorrow_def r_def)
  qed
  then show "uint (GetLowHalf u) - W * uint (GetHighHalfAsBorrow u) = uint a - uint b - uint c"
    "uint (GetHighHalfAsBorrow u) \<le> 1" by (simp_all add: x_def)
qed

lemma borrow_chain: "c0 - W * h0 = x0 \<Longrightarrow> c1 - W * h1 = x1 - h0 \<Longrightarrow> c0 + W * (c1 + W * (z - h1)) = x0 + W * (x1 + W * z)"
  for c0 :: int
proof -
  assume a: "c0 - W * h0 = x0" "c1 - W * h1 = x1 - h0"
  have "W * (c1 - W * h1) = W * (x1 - h0)" using a(2) by simp
  then show ?thesis using a(1) by (simp only: distrib_left right_diff_distrib)
qed

lemma subtract_loop_val: "even (length A) \<Longrightarrow> length A = length B \<Longrightarrow> uint (GetHighHalfAsBorrow u) \<le> 1 \<Longrightarrow>
   subtract_loop A B u = (C, v) \<Longrightarrow>
   length C = length A \<and> val C = val A - val B - uint (GetHighHalfAsBorrow u) + W ^ length A * uint (GetHighHalfAsBorrow v) \<and>
   uint (GetHighHalfAsBorrow v) \<le> 1"
proof (induction A B u arbitrary: C v rule: subtract_loop.induct)
  case (1 a0 a1 A b0 b1 B u)
  define u0 where "u0 = DWord_sub_word (DWord_sub_word (DWord_of a0) b0) (GetHighHalfAsBorrow u)"
  define u1 where "u1 = DWord_sub_word (DWord_sub_word (DWord_of a1) b1) (GetHighHalfAsBorrow u0)"
  note s0 = sub_step [OF "1.prems"(3), of a0 b0, folded u0_def]
  note s1 = sub_step [OF s0(2), of a1 b1, folded u1_def]
  obtain C' where C': "subtract_loop A B u1 = (C', v)" and C: "C = GetLowHalf u0 # GetLowHalf u1 # C'"
    using "1.prems"(4) by (auto simp: Let_def u0_def u1_def split: prod.splits)
  have IH: "length C' = length A"
    "val C' = val A - val B - uint (GetHighHalfAsBorrow u1) + W ^ length A * uint (GetHighHalfAsBorrow v)"
    "uint (GetHighHalfAsBorrow v) \<le> 1"
    using "1.IH" [OF u0_def refl u1_def refl, of C' v] C' "1.prems"(1,2) s1(2) by simp_all
  have "val C = val (a0 # a1 # A) - val (b0 # b1 # B) - uint (GetHighHalfAsBorrow u) +
      W * (W * (W ^ length A * uint (GetHighHalfAsBorrow v)))"
    using borrow_chain [OF s0(1) s1(1), of "val A - val B + W ^ length A * uint (GetHighHalfAsBorrow v)"]
    unfolding C val.simps IH(2) by (simp only: distrib_left right_diff_distrib)
  then show ?case using IH C by (simp add: mult.assoc)
next
  case "2_1"
  then show ?case by (auto elim: even_length_cases)
next
  case "2_2"
  then show ?case by (auto elim: even_length_cases)
qed auto

lemma Subtract_val:
  assumes "even (length A)" and "length A = length B" and "Subtract A B = (C, borrow)"
  shows "length C = length A \<and> val C = val A - val B + W ^ length A * uint borrow \<and> uint borrow \<le> 1"
proof -
  obtain v where v: "subtract_loop A B (DWord 0 0) = (C, v)" "borrow = GetHighHalfAsBorrow v"
    using assms(3) by (auto simp: Subtract_def GetHighHalfAsBorrow_def split: prod.splits)
  show ?thesis
    using subtract_loop_val [OF assms(1,2) _ v(1)] v(2) by (simp add: GetHighHalfAsBorrow_def)
qed

lemma mul_add_step:
  fixes a b c :: u64
  shows "uint (GetLowHalf (MultiplyAndAdd a b c)) + W * uint (GetHighHalf (MultiplyAndAdd a b c)) = uint a * uint b + uint c"
proof -
  have "dint (MultiplyAndAdd a b c) = uint a * uint b + uint c"
    unfolding MultiplyAndAdd_def dint_add dint_multiply
    using word_prod [of a b] W_big uint_W [of c] uint_W [of a] uint_W [of b]
    using W_pos by (intro dword_small add_nonneg_nonneg mult_nonneg_nonneg) linarith+
  then show ?thesis by (simp add: dint_W)
qed

lemma linear_loop_val: "linear_loop A B carry = (C, c) \<Longrightarrow>
   length C = length A \<and> val C + W ^ length A * uint c = val A * uint B + uint carry"
proof (induction A arbitrary: carry C c)
  case (Cons a A)
  let ?p = "MultiplyAndAdd a B carry"
  obtain C' where C': "linear_loop A B (GetHighHalf ?p) = (C', c)" and C: "C = GetLowHalf ?p # C'"
    using Cons.prems by (auto simp: Let_def split: prod.splits)
  note IH = Cons.IH [OF C']
  have "W * val C' + W * W ^ length A * uint c = W * (val A * uint B) + W * uint (GetHighHalf ?p)"
    using IH by (simp only: mult.assoc distrib_left [symmetric])
  then show ?case using IH mul_add_step [of a B carry] by (simp add: C algebra_simps)
qed simp

lemma LinearMultiply_val:
  "LinearMultiply A B = (C, c) \<Longrightarrow> length C = length A \<and> val C + W ^ length A * uint c = val A * uint B"
  using linear_loop_val [of A B 0 C c] by (simp add: LinearMultiply_def)

subsection \<open>Shifts\<close>

lemma uint_drop_word: "uint (drop_bit n u) = uint u div 2 ^ n" for u :: u64
proof -
  have "uint (drop_bit n u) = drop_bit n (uint u)" using uint_bound [of u] by (simp add: unsigned_drop_bit_eq take_bit_int_eq_self)
  then show ?thesis by (simp add: drop_bit_eq_div)
qed

lemma uint_push_word: "uint (push_bit n u) = uint u * 2 ^ n mod W" for u :: u64
proof -
  have "uint (push_bit n u) = take_bit 64 (push_bit n (uint u))" by (simp add: unsigned_push_bit_eq)
  then show ?thesis by (simp add: take_bit_eq_mod push_bit_eq_mult W_def)
qed

lemma uint_or_disjoint: "u AND v = 0 \<Longrightarrow> uint (u OR v) = uint u + uint v" for u v :: u64
proof -
  assume "u AND v = 0"
  then have "uint u AND uint v = 0" by (metis unsigned_and_eq unsigned_0)
  then show ?thesis by (simp add: unsigned_or_eq disjunctive_add_eq_or)
qed

lemma shift_up: "n < 64 \<Longrightarrow> x * 2 ^ n = x * 2 ^ n mod W + W * (x div 2 ^ (64 - n))"
proof -
  assume n: "n < 64"
  then have W: "W = 2 ^ (64 - n) * 2 ^ n" by (simp add: W_def flip: power_add)
  have "x * 2 ^ n div W = x div 2 ^ (64 - n)" unfolding W by simp
  then show ?thesis using mod_mult_div_eq [of "x * 2 ^ n" W] by simp
qed

lemma shift_left_loop_val: "0 < n \<Longrightarrow> n < 64 \<Longrightarrow> uint carry < 2 ^ n \<Longrightarrow> shift_left_loop n r carry = (r', c) \<Longrightarrow>
   length r' = length r \<and> val r' + W ^ length r * uint c = 2 ^ n * val r + uint carry \<and> uint c < 2 ^ n"
proof (induction r arbitrary: carry r' c)
  case (Cons u r)
  let ?h = "drop_bit (64 - n) u"
  obtain r1 where r1: "shift_left_loop n r ?h = (r1, c)" and r': "r' = (push_bit n u OR carry) # r1"
    using Cons.prems(4) by (auto split: prod.splits)
  have h: "uint ?h = uint u div 2 ^ (64 - n)" by (rule uint_drop_word)
  have "uint u < 2 ^ n * 2 ^ (64 - n)" using uint_bound [of u] Cons.prems(2) by (simp flip: power_add)
  then have "uint ?h < 2 ^ n" unfolding h by (rule div_int_less) simp
  from Cons.IH [OF Cons.prems(1,2) this r1]
  have IH: "length r1 = length r" "val r1 + W ^ length r * uint c = 2 ^ n * val r + uint ?h" "uint c < 2 ^ n" by auto
  have "push_bit n u AND carry = 0"
  proof (rule bit_word_eqI)
    fix i
    have "bit carry i \<Longrightarrow> i < n"
    proof (rule ccontr)
      assume "bit carry i" "\<not> i < n"
      then have "2 ^ i \<le> uint carry"
        using bit_iff_odd [of "uint carry" i] by (auto simp: bit_uint_iff not_less dest!: bit_imp_le_length)
          (metis bit_uint_iff div_pos_pos_trivial even_zero linorder_not_le odd_iff_mod_2_eq_one uint_ge_0 bit_iff_odd)
      moreover have "(2 :: int) ^ n \<le> 2 ^ i" using \<open>\<not> i < n\<close> by (simp add: power_increasing)
      ultimately show False using Cons.prems(3) by linarith
    qed
    then show "bit (push_bit n u AND carry) i = bit 0 i" by (auto simp: bit_simps)
  qed
  then have low: "uint (push_bit n u OR carry) = uint u * 2 ^ n mod W + uint carry"
    by (simp add: uint_or_disjoint uint_push_word)
  have "W * val r1 = W * (2 ^ n * val r) + W * uint ?h - W * (W ^ length r * uint c)"
    using arg_cong [OF IH(2), of "\<lambda>x. W * x"] by (simp only: distrib_left)
  then have "val r' + W ^ length (u # r) * uint c = uint u * 2 ^ n mod W + W * uint ?h + uint carry + W * (2 ^ n * val r)"
    unfolding r' val.simps low by (simp add: mult.assoc)
  also have "uint u * 2 ^ n mod W + W * uint ?h = uint u * 2 ^ n"
    unfolding h using shift_up [OF Cons.prems(2), of "uint u"] by simp
  finally show ?case using IH r' by (simp add: algebra_simps)
qed simp

lemma ShiftWordsLeftByBits_val:
  assumes "n < 64" and "ShiftWordsLeftByBits r n = (r', c)"
  shows "length r' = length r \<and> val r' + W ^ length r * uint c = 2 ^ n * val r \<and> uint c < 2 ^ n"
  using assms shift_left_loop_val [of n 0 r r' c] by (auto simp: ShiftWordsLeftByBits_def split: if_splits)

lemma shift_right_loop_val: "0 < n \<Longrightarrow> n < 64 \<Longrightarrow> shift_right_loop n r = (r', c) \<Longrightarrow>
   length r' = length r \<and> val r' = val r div 2 ^ n \<and> uint c = (val r mod 2 ^ n) * 2 ^ (64 - n)"
proof (induction r arbitrary: r' c)
  case (Cons u r)
  obtain r1 c1 where r1: "shift_right_loop n r = (r1, c1)" and r': "r' = (drop_bit n u OR c1) # r1"
    and c: "c = push_bit (64 - n) u"
    using Cons.prems(3) by (auto split: prod.splits)
  have IH: "length r1 = length r" "val r1 = val r div 2 ^ n" "uint c1 = (val r mod 2 ^ n) * 2 ^ (64 - n)"
    using Cons.IH [OF Cons.prems(1,2) r1] by auto
  have W: "W = 2 ^ n * 2 ^ (64 - n)" "W = 2 ^ (64 - n) * 2 ^ n" using Cons.prems(2) by (simp_all add: W_def flip: power_add)
  have "drop_bit n u AND c1 = 0"
  proof (rule bit_word_eqI)
    fix i
    have "bit (uint c1) i \<Longrightarrow> 64 - n \<le> i"
      unfolding IH(3) by (simp add: bit_push_bit_iff flip: push_bit_eq_mult)
    then have "bit c1 i \<Longrightarrow> 64 - n \<le> i" by (auto simp: bit_uint_iff dest: bit_imp_le_length)
    moreover have "bit (drop_bit n u) i \<Longrightarrow> i < 64 - n" by (auto simp: bit_drop_bit_eq dest!: bit_imp_le_length)
    ultimately show "bit (drop_bit n u AND c1) i = bit 0 i" by (auto simp: bit_and_iff not_le)
  qed
  then have low: "uint (drop_bit n u OR c1) = uint u div 2 ^ n + (val r mod 2 ^ n) * 2 ^ (64 - n)"
    by (simp add: uint_or_disjoint uint_drop_word IH(3))
  have "val (u # r) div 2 ^ n = (uint u + 2 ^ n * (2 ^ (64 - n) * val r)) div 2 ^ n" by (simp add: W(1) mult.assoc)
  also have "\<dots> = uint u div 2 ^ n + 2 ^ (64 - n) * val r" by simp
  also have "2 ^ (64 - n) * val r = 2 ^ (64 - n) * (val r div 2 ^ n * 2 ^ n + val r mod 2 ^ n)" by (simp only: div_mult_mod_eq)
  also have "\<dots> = W * (val r div 2 ^ n) + (val r mod 2 ^ n) * 2 ^ (64 - n)" by (simp only: W(2) algebra_simps)
  finally have v: "val (u # r) div 2 ^ n = val r'" unfolding r' val.simps low IH(2) by simp
  have "uint c = uint u * 2 ^ (64 - n) mod (2 ^ n * 2 ^ (64 - n))" unfolding c uint_push_word W(1) ..
  also have "\<dots> = (uint u mod 2 ^ n) * 2 ^ (64 - n)" by (simp add: mod_mult_mult2)
  also have "uint u mod 2 ^ n = val (u # r) mod 2 ^ n" by (simp add: W(1) mult.assoc)
  finally show ?case using v IH(1) r' by simp
qed simp

lemma ShiftWordsRightByBits_val:
  assumes "n < 64" and "ShiftWordsRightByBits r n = (r', c)"
  shows "length r' = length r \<and> val r' = val r div 2 ^ n"
  using assms shift_right_loop_val [of n r r' c] by (auto simp: ShiftWordsRightByBits_def split: if_splits)

lemma bit_precision_loop_ok:
  "l < h \<Longrightarrow> 2 ^ l \<le> uint x \<Longrightarrow> uint x < 2 ^ h \<Longrightarrow>
   (let p = bit_precision_loop x l h in 0 < p \<and> p \<le> h \<and> 2 ^ (p - 1) \<le> uint x \<and> uint x < 2 ^ p)"
proof (induction x l h rule: bit_precision_loop.induct)
  case (1 x l h)
  show ?case
  proof (cases "h - l > 1")
    case False
    with "1.prems" have "h = Suc l" by simp
    with "1.prems" show ?thesis by (subst bit_precision_loop.simps) simp
  next
    case True
    let ?t = "(l + h) div 2"
    have t: "l < ?t" "?t < h" using True by simp_all
    have "drop_bit ?t x \<noteq> 0 \<longleftrightarrow> 2 ^ ?t \<le> uint x"
    proof -
      have "drop_bit ?t x = 0 \<longleftrightarrow> uint x div 2 ^ ?t = 0"
        using uint_drop_word [of ?t x] by (simp add: word_uint_eq_iff)
      also have "\<dots> \<longleftrightarrow> uint x < 2 ^ ?t" using zero_le_power [of "2 :: int" ?t] by (auto simp: zdiv_eq_0_iff)
      finally show ?thesis by auto
    qed
    then show ?thesis
      using "1.IH" "1.prems" True t by (subst bit_precision_loop.simps) (auto simp: Let_def not_le)
  qed
qed

lemma BitPrecision_ok:
  assumes "x \<noteq> 0"
  shows "0 < BitPrecision x" "BitPrecision x \<le> 64" "2 ^ (BitPrecision x - 1) \<le> uint x" "uint x < 2 ^ BitPrecision x"
proof -
  have "uint x \<noteq> 0" using assms by (simp add: word_uint_eq_iff)
  then have "1 \<le> uint x" using uint_W(1) [of x] by linarith
  then show "0 < BitPrecision x" "BitPrecision x \<le> 64" "2 ^ (BitPrecision x - 1) \<le> uint x" "uint x < 2 ^ BitPrecision x"
    using bit_precision_loop_ok [of 0 64 x] uint_bound [of x] assms by (auto simp: BitPrecision_def Let_def)
qed

end
