(* ===== verification/CPP_Multiply.thy ===== *)
theory CPP_Multiply
  imports CPP_Words "HOL-Library.Multiset"
begin

text \<open>
  Products of two, four and eight words, \<^verbatim>\<open>class Portable\<close> of \<^verbatim>\<open>src/src/utils/lib/CryptoPP.cc\<close>. The
  macros that accumulate a column of products in three words are instructions here, and a
  product is the list of them; every such list that visits the columns in order computes the
  sum of its products, so that the products are exact because the lists name each pair once.
\<close>

section \<open>Two words\<close>

text \<open>The branchless product of the differences, which both functions begin with: a double word and the
  word by which its upper half is too large.\<close>

definition difference_product :: "u64 list \<Rightarrow> u64 list \<Rightarrow> u64 dword \<times> u64" where
  "difference_product A B =
     (let D = [A ! 1 - A ! 0, A ! 0 - A ! 1, B ! 0 - B ! 1, B ! 1 - B ! 0];
          ai = (if A ! 1 < A ! 0 then 1 else 0);
          bi = (if B ! 0 < B ! 1 then 1 else 0);
          di = (if ai = 1 \<and> bi = 1 then 1 else 0);
          d = DWord_Multiply (D ! di) (D ! (di + 2));
          D = D[1 := 0, 3 := 0];
          si = ai + (if bi = (0 :: nat) then 1 else 0)
      in (d, D ! si))"

definition Multiply2 :: "u64 list \<Rightarrow> u64 list \<Rightarrow> u64 list" where
  "Multiply2 A B =
     (let (d, s) = difference_product A B;
          A0B0 = DWord_Multiply (A ! 0) (B ! 0);
          A1B1 = DWord_Multiply (A ! 1) (B ! 1);
          t = DWord_add (DWord_add (DWord_add (DWord_of (GetHighHalf A0B0)) (GetLowHalf A0B0)) (GetLowHalf d)) (GetLowHalf A1B1);
          t' = DWord_sub_word (DWord_add (DWord_add (DWord_add (DWord_add A1B1 (GetHighHalf t)) (GetHighHalf A0B0)) (GetHighHalf d))
                 (GetHighHalf A1B1)) s
      in [GetLowHalf A0B0, GetLowHalf t, GetLowHalf t', GetHighHalf t'])"

definition Multiply2Bottom :: "u64 list \<Rightarrow> u64 list \<Rightarrow> u64 list" where
  "Multiply2Bottom A B =
     (let t = DWord_Multiply (A ! 0) (B ! 0)
      in [GetLowHalf t, GetHighHalf t + A ! 0 * B ! 1 + A ! 1 * B ! 0])"

definition Multiply2Add :: "u64 list \<Rightarrow> u64 list \<Rightarrow> u64 list \<Rightarrow> u64 list \<times> u64" where
  "Multiply2Add C A B =
     (let (d, s) = difference_product A B;
          A0B0 = DWord_Multiply (A ! 0) (B ! 0);
          t0 = DWord_add A0B0 (C ! 0);
          A1B1 = DWord_Multiply (A ! 1) (B ! 1);
          t1 = DWord_add (DWord_add (DWord_add (DWord_add (DWord_of (GetHighHalf t0)) (GetLowHalf A0B0)) (GetLowHalf d))
                 (GetLowHalf A1B1)) (C ! 1);
          t2 = DWord_add (DWord_sub_word (DWord_add (DWord_add (DWord_add (DWord_add (DWord_of (GetHighHalf t1)) (GetLowHalf A1B1))
                 (GetHighHalf A0B0)) (GetHighHalf d)) (GetHighHalf A1B1)) s) (C ! 2);
          t3 = DWord_add (DWord_add (DWord_of (GetHighHalf t2)) (GetHighHalf A1B1)) (C ! 3)
      in ([GetLowHalf t0, GetLowHalf t1, GetLowHalf t2, GetLowHalf t3], GetHighHalf t3))"

section \<open>Columns of products\<close>

datatype acc_op = MulAcc nat nat | SaveMulAcc nat nat nat | SquAcc nat nat | SaveSquAcc nat nat nat

text \<open>The array \<open>R\<close> and the words \<open>c\<close>, \<open>d\<close>, \<open>e\<close>.\<close>

type_synonym acc_state = "u64 list \<times> u64 \<times> u64 \<times> u64"

definition add_product :: "u64 dword \<Rightarrow> acc_state \<Rightarrow> acc_state" where
  "add_product q = (\<lambda>(R, c, d, e).
     let p = DWord_add q c;
         c = GetLowHalf p;
         p = DWord_add (DWord_of d) (GetHighHalf p)
     in (R, c, GetLowHalf p, e + GetHighHalf p))"

definition save_product :: "nat \<Rightarrow> u64 dword \<Rightarrow> acc_state \<Rightarrow> acc_state" where
  "save_product s q = (\<lambda>(R, c, d, e).
     let R = R[s := c];
         p = DWord_add q d;
         c = GetLowHalf p;
         p = DWord_add (DWord_of e) (GetHighHalf p)
     in (R, c, GetLowHalf p, GetHighHalf p))"

fun acc_step :: "u64 list \<Rightarrow> u64 list \<Rightarrow> acc_op \<Rightarrow> acc_state \<Rightarrow> acc_state" where
  "acc_step A B (MulAcc x y) st = add_product (DWord_Multiply (A ! x) (B ! y)) st"
| "acc_step A B (SaveMulAcc s x y) st = save_product s (DWord_Multiply (A ! x) (B ! y)) st"
| "acc_step A B (SquAcc x y) st =
     (let q = DWord_Multiply (A ! x) (A ! y) in add_product q (add_product q st))"
| "acc_step A B (SaveSquAcc s x y) st =
     (let q = DWord_Multiply (A ! x) (A ! y) in add_product q (save_product s q st))"

text \<open>The first product, and the last one with the end of the array.\<close>

definition acc_begin :: "u64 list \<Rightarrow> u64 list \<Rightarrow> u64 list \<Rightarrow> acc_state" where
  "acc_begin A B R = (let p = DWord_Multiply (A ! 0) (B ! 0) in (R[0 := GetLowHalf p], GetHighHalf p, 0, 0))"

definition acc_end :: "u64 list \<Rightarrow> u64 list \<Rightarrow> nat \<Rightarrow> acc_state \<Rightarrow> u64 list" where
  "acc_end A B n = (\<lambda>(R, c, d, e).
     let R = R[2 * n - 3 := c];
         p = MultiplyAndAdd (A ! (n - 1)) (B ! (n - 1)) d
     in R[2 * n - 2 := GetLowHalf p, 2 * n - 1 := e + GetHighHalf p])"

text \<open>What \<open>R\<close> holds before is overwritten; it is 0 here.\<close>

definition Multiply4_columns :: "acc_op list" where
  "Multiply4_columns =
   [MulAcc 0 1, MulAcc 1 0,
    SaveMulAcc 1 2 0, MulAcc 1 1, MulAcc 0 2,
    SaveMulAcc 2 0 3, MulAcc 1 2, MulAcc 2 1, MulAcc 3 0,
    SaveMulAcc 3 3 1, MulAcc 2 2, MulAcc 1 3,
    SaveMulAcc 4 2 3, MulAcc 3 2]"

definition Multiply4 :: "u64 list \<Rightarrow> u64 list \<Rightarrow> u64 list" where
  "Multiply4 A B = acc_end A B 4 (fold (acc_step A B) Multiply4_columns
     (acc_begin A B (SetWords 0 8)))"

definition Square2 :: "u64 list \<Rightarrow> u64 list" where
  "Square2 A = acc_end A A 2 (fold (acc_step A A) [SquAcc 0 1] (acc_begin A A (SetWords 0 4)))"

definition Square4_columns :: "acc_op list" where
  "Square4_columns =
   [SquAcc 0 1,
    SaveSquAcc 1 2 0, MulAcc 1 1,
    SaveSquAcc 2 0 3, SquAcc 1 2,
    SaveSquAcc 3 3 1, MulAcc 2 2,
    SaveSquAcc 4 2 3]"

definition Square4 :: "u64 list \<Rightarrow> u64 list" where
  "Square4 A = acc_end A A 4 (fold (acc_step A A) Square4_columns
     (acc_begin A A (SetWords 0 8)))"

definition Multiply8_columns :: "acc_op list" where
  "Multiply8_columns =
   [MulAcc 0 1, MulAcc 1 0,
    SaveMulAcc 1 2 0, MulAcc 1 1, MulAcc 0 2,
    SaveMulAcc 2 0 3, MulAcc 1 2, MulAcc 2 1, MulAcc 3 0,
    SaveMulAcc 3 0 4, MulAcc 1 3, MulAcc 2 2, MulAcc 3 1, MulAcc 4 0,
    SaveMulAcc 4 0 5, MulAcc 1 4, MulAcc 2 3, MulAcc 3 2, MulAcc 4 1, MulAcc 5 0,
    SaveMulAcc 5 0 6, MulAcc 1 5, MulAcc 2 4, MulAcc 3 3, MulAcc 4 2, MulAcc 5 1, MulAcc 6 0,
    SaveMulAcc 6 0 7, MulAcc 1 6, MulAcc 2 5, MulAcc 3 4, MulAcc 4 3, MulAcc 5 2, MulAcc 6 1, MulAcc 7 0,
    SaveMulAcc 7 1 7, MulAcc 2 6, MulAcc 3 5, MulAcc 4 4, MulAcc 5 3, MulAcc 6 2, MulAcc 7 1,
    SaveMulAcc 8 2 7, MulAcc 3 6, MulAcc 4 5, MulAcc 5 4, MulAcc 6 3, MulAcc 7 2,
    SaveMulAcc 9 3 7, MulAcc 4 6, MulAcc 5 5, MulAcc 6 4, MulAcc 7 3,
    SaveMulAcc 10 4 7, MulAcc 5 6, MulAcc 6 5, MulAcc 7 4,
    SaveMulAcc 11 5 7, MulAcc 6 6, MulAcc 7 5,
    SaveMulAcc 12 6 7, MulAcc 7 6]"

definition Multiply8 :: "u64 list \<Rightarrow> u64 list \<Rightarrow> u64 list" where
  "Multiply8 A B = acc_end A B 8 (fold (acc_step A B) Multiply8_columns
     (acc_begin A B (SetWords 0 16)))"

definition Multiply4Bottom_columns :: "acc_op list" where
  "Multiply4Bottom_columns =
   [MulAcc 0 1, MulAcc 1 0,
    SaveMulAcc 1 2 0, MulAcc 1 1, MulAcc 0 2]"

definition Multiply4Bottom :: "u64 list \<Rightarrow> u64 list \<Rightarrow> u64 list" where
  "Multiply4Bottom A B =
     (let (R, c, d, e) = fold (acc_step A B) Multiply4Bottom_columns
     (acc_begin A B (SetWords 0 4))
      in R[2 := c, 3 := d + A ! 0 * B ! 3 + A ! 1 * B ! 2 + A ! 2 * B ! 1 + A ! 3 * B ! 0])"

definition Multiply8Bottom_columns :: "acc_op list" where
  "Multiply8Bottom_columns =
   [MulAcc 0 1, MulAcc 1 0,
    SaveMulAcc 1 2 0, MulAcc 1 1, MulAcc 0 2,
    SaveMulAcc 2 0 3, MulAcc 1 2, MulAcc 2 1, MulAcc 3 0,
    SaveMulAcc 3 0 4, MulAcc 1 3, MulAcc 2 2, MulAcc 3 1, MulAcc 4 0,
    SaveMulAcc 4 0 5, MulAcc 1 4, MulAcc 2 3, MulAcc 3 2, MulAcc 4 1, MulAcc 5 0,
    SaveMulAcc 5 0 6, MulAcc 1 5, MulAcc 2 4, MulAcc 3 3, MulAcc 4 2, MulAcc 5 1, MulAcc 6 0]"

definition Multiply8Bottom :: "u64 list \<Rightarrow> u64 list \<Rightarrow> u64 list" where
  "Multiply8Bottom A B =
     (let (R, c, d, e) = fold (acc_step A B) Multiply8Bottom_columns
     (acc_begin A B (SetWords 0 8))
      in R[6 := c, 7 := d + A ! 0 * B ! 7 + A ! 1 * B ! 6 + A ! 2 * B ! 5 + A ! 3 * B ! 4 +
           A ! 4 * B ! 3 + A ! 5 * B ! 2 + A ! 6 * B ! 1 + A ! 7 * B ! 0])"

section \<open>A list of columns computes the sum of its products\<close>

definition acc_val :: "u64 \<Rightarrow> u64 \<Rightarrow> u64 \<Rightarrow> int" where
  "acc_val c d e = uint c + W * uint d + W * W * uint e"

lemma product_bound: "dint (DWord_Multiply a b) \<le> W * W - W - W + 1" "0 \<le> dint (DWord_Multiply a b)" for a b :: u64
  using word_prod [of a b] by (simp_all add: uint_W)

text \<open>The first step of both macros.\<close>

lemma add_half:
  fixes c :: u64
  assumes "0 \<le> dint q" and "dint q \<le> W * W - W - W + 1"
  shows "uint (GetLowHalf (DWord_add q c)) + W * uint (GetHighHalf (DWord_add q c)) = dint q + uint c"
proof -
  have "dint (DWord_add q c) = dint q + uint c"
    unfolding dint_add using assms uint_W [of c] W_pos by (intro dword_small) linarith+
  then show ?thesis by (simp add: dint_W)
qed

lemma carry_half: "uint (GetLowHalf (DWord_add (DWord_of d) h)) + W * uint (GetHighHalf (DWord_add (DWord_of d) h)) = uint d + uint h"
  for d h :: u64
proof -
  have "dint (DWord_add (DWord_of d) h) = uint d + uint h"
    unfolding dint_add dint_of using uint_W [of d] uint_W [of h] W_big by (intro dword_small) linarith+
  then show ?thesis by (simp add: dint_W)
qed

lemma uint_add_small: "uint a + uint b < W \<Longrightarrow> uint (a + b) = uint a + uint b" for a b :: u64
  by (simp add: uint_word_ariths W_def)

lemma add_product_val:
  assumes "0 \<le> dint q" and "dint q \<le> W * W - W - W + 1" and "acc_val c d e + dint q < W * W * W"
  shows "\<exists>c' d' e'. add_product q (R, c, d, e) = (R, c', d', e') \<and> acc_val c' d' e' = acc_val c d e + dint q"
proof -
  let ?p = "DWord_add q c"
  let ?r = "DWord_add (DWord_of d) (GetHighHalf ?p)"
  have r: "W * (uint (GetLowHalf ?r) + W * uint (GetHighHalf ?r)) = W * (uint d + uint (GetHighHalf ?p))"
    by (simp only: carry_half)
  have total: "acc_val c d e + dint q = uint (GetLowHalf ?p) + W * uint (GetLowHalf ?r) + W * W * (uint e + uint (GetHighHalf ?r))"
    using add_half [OF assms(1,2), of c] r unfolding acc_val_def by (simp only: distrib_left mult.assoc)
  have "W * W * (uint e + uint (GetHighHalf ?r)) < W * W * W"
    using assms(3) uint_W(1) [of "GetLowHalf ?p"] mult_nonneg_nonneg [OF W_pos(3) uint_W(1) [of "GetLowHalf ?r"]]
    unfolding total by linarith
  then have "uint e + uint (GetHighHalf ?r) < W" by (simp add: mult_less_cancel_left)
  then have "uint (e + GetHighHalf ?r) = uint e + uint (GetHighHalf ?r)" by (rule uint_add_small)
  with total show ?thesis by (simp add: add_product_def Let_def acc_val_def)
qed

lemma save_product_val:
  assumes "0 \<le> dint q" and "dint q \<le> W * W - W - W + 1"
  shows "\<exists>c' d' e'. save_product s q (R, c, d, e) = (R[s := c], c', d', e') \<and>
    acc_val c' d' e' = uint d + W * uint e + dint q"
proof -
  let ?p = "DWord_add q d"
  let ?r = "DWord_add (DWord_of e) (GetHighHalf ?p)"
  have r: "W * (uint (GetLowHalf ?r) + W * uint (GetHighHalf ?r)) = W * (uint e + uint (GetHighHalf ?p))"
    by (simp only: carry_half)
  have "acc_val (GetLowHalf ?p) (GetLowHalf ?r) (GetHighHalf ?r) = uint d + W * uint e + dint q"
    using add_half [OF assms(1,2), of d] r unfolding acc_val_def by (simp only: distrib_left mult.assoc)
  then show ?thesis by (simp add: save_product_def Let_def)
qed

text \<open>The columns are visited in order, and squares are only used on one array.\<close>

fun columns :: "bool \<Rightarrow> nat \<Rightarrow> acc_op list \<Rightarrow> bool" where
  "columns sq k [] = True"
| "columns sq k (MulAcc x y # ops) = (x + y = k \<and> columns sq k ops)"
| "columns sq k (SaveMulAcc s x y # ops) = (s = k \<and> x + y = Suc k \<and> columns sq (Suc k) ops)"
| "columns sq k (SquAcc x y # ops) = (sq \<and> x + y = k \<and> columns sq k ops)"
| "columns sq k (SaveSquAcc s x y # ops) = (sq \<and> s = k \<and> x + y = Suc k \<and> columns sq (Suc k) ops)"

fun saved :: "acc_op list \<Rightarrow> nat" where
  "saved [] = 0"
| "saved (SaveMulAcc _ _ _ # ops) = Suc (saved ops)"
| "saved (SaveSquAcc _ _ _ # ops) = Suc (saved ops)"
| "saved (_ # ops) = saved ops"

fun products :: "acc_op list \<Rightarrow> (nat \<times> nat) list" where
  "products [] = []"
| "products (MulAcc x y # ops) = (x, y) # products ops"
| "products (SaveMulAcc _ x y # ops) = (x, y) # products ops"
| "products (SquAcc x y # ops) = (x, y) # (y, x) # products ops"
| "products (SaveSquAcc _ x y # ops) = (x, y) # (y, x) # products ops"

definition pair_sum :: "u64 list \<Rightarrow> u64 list \<Rightarrow> (nat \<times> nat) list \<Rightarrow> int" where
  "pair_sum A B ps = (\<Sum>(x, y)\<leftarrow>ps. uint (A ! x) * uint (B ! y) * W ^ (x + y))"

lemma pair_sum_simps [simp]:
  "pair_sum A B [] = 0"
  "pair_sum A B ((x, y) # ps) = uint (A ! x) * uint (B ! y) * W ^ (x + y) + pair_sum A B ps"
  "pair_sum A B (ps @ qs) = pair_sum A B ps + pair_sum A B qs"
  by (simp_all add: pair_sum_def)

text \<open>\<open>m\<close> bounds what the three words hold, so that they never overflow.\<close>

definition acc_ok :: "u64 list \<Rightarrow> u64 list \<Rightarrow> nat \<Rightarrow> int \<Rightarrow> nat \<Rightarrow> int \<Rightarrow> acc_state \<Rightarrow> bool" where
  "acc_ok A B len t k m st = (case st of (R, c, d, e) \<Rightarrow>
     length R = len \<and> acc_val c d e \<le> m * (W * W) \<and> val (take k R) + W ^ k * acc_val c d e = t)"

lemma acc_nonneg: "0 \<le> acc_val c d e"
  by (simp add: acc_val_def uint_W)

lemma acc_add:
  assumes "acc_ok A B len t k m st" and "m + 1 < W" and "q = DWord_Multiply a b"
  shows "acc_ok A B len (t + uint a * uint b * W ^ k) k (m + 1) (add_product q st)"
proof -
  obtain R c d e where st: "st = (R, c, d, e)" by (cases st)
  note q = product_bound [of a b, folded assms(3)]
  have acc: "acc_val c d e \<le> m * (W * W)" using assms(1) by (simp add: acc_ok_def st)
  have "dint q \<le> W * W" using q W_pos by linarith
  then have le: "acc_val c d e + dint q \<le> (m + 1) * (W * W)" using acc by (simp only: distrib_right)
  also have "\<dots> < W * W * W" using assms(2) mult_strict_right_mono [of "m + 1" W "W * W"] by (simp add: mult.assoc)
  finally obtain c' d' e' where s: "add_product q (R, c, d, e) = (R, c', d', e')" "acc_val c' d' e' = acc_val c d e + dint q"
    using add_product_val [OF q(2,1)] by blast
  have "dint q = uint a * uint b" by (simp add: assms(3))
  with assms(1) le show ?thesis by (simp add: acc_ok_def st s algebra_simps)
qed

lemma acc_save:
  assumes "acc_ok A B len t k m st" and "m < W" and "q = DWord_Multiply a b" and "k < len"
  shows "acc_ok A B len (t + uint a * uint b * W ^ Suc k) (Suc k) 2 (save_product k q st)"
proof -
  obtain R c d e where st: "st = (R, c, d, e)" by (cases st)
  note q = product_bound [of a b, folded assms(3)]
  obtain c' d' e' where s: "save_product k q (R, c, d, e) = (R[k := c], c', d', e')"
    "acc_val c' d' e' = uint d + W * uint e + dint q"
    using save_product_val [OF q(2,1)] by blast
  have R: "length R = len" "val (take k R) + W ^ k * acc_val c d e = t" using assms(1) by (simp_all add: acc_ok_def st)
  have "W * uint e \<le> W * (W - 1)" using uint_W [of e] by (intro mult_left_mono) simp_all
  then have le: "uint d + W * uint e + dint q \<le> 2 * (W * W)"
    using q(1) uint_W [of d] W_pos by (simp only: right_diff_distrib mult_1_right)
  have take: "take (Suc k) (R[k := c]) = take k R @ [c]"
    using R(1) assms(4) by (simp add: take_Suc_conv_app_nth)
  have "val (take (Suc k) (R[k := c])) + W ^ Suc k * acc_val c' d' e' = t + uint a * uint b * W ^ Suc k"
    unfolding take s(2) R(2) [symmetric] using R(1) assms(3,4) by (simp add: acc_val_def algebra_simps)
  then show ?thesis using R(1) le by (simp add: acc_ok_def st s)
qed

lemma acc_mono: "acc_ok A B len t k m st \<Longrightarrow> m \<le> n \<Longrightarrow> acc_ok A B len t k n st"
proof -
  assume a: "acc_ok A B len t k m st" "m \<le> n"
  have "m * (W * W) \<le> n * (W * W)" using a(2) by (intro mult_right_mono) simp_all
  with a(1) show ?thesis by (auto simp: acc_ok_def intro: order_trans)
qed

lemma acc_run:
  "columns sq k ops \<Longrightarrow> (sq \<longrightarrow> A = B) \<Longrightarrow> acc_ok A B len t k m st \<Longrightarrow> k + saved ops \<le> len \<Longrightarrow> 2 \<le> m \<Longrightarrow>
   m + 2 * int (length ops) < W \<Longrightarrow>
   acc_ok A B len (t + pair_sum A B (products ops)) (k + saved ops) (m + 2 * int (length ops)) (fold (acc_step A B) ops st)"
proof (induction ops arbitrary: k t m st)
  case Nil
  then show ?case by simp
next
  case (Cons op ops)
  have room: "m + 2 < W" "2 \<le> m + 2" using Cons.prems by simp_all
  show ?case
  proof (cases op)
    case (MulAcc x y)
    have "acc_ok A B len (t + uint (A ! x) * uint (B ! y) * W ^ k) k (m + 1) (acc_step A B op st)"
      unfolding MulAcc acc_step.simps by (rule acc_add [OF Cons.prems(3)]) (use room in simp_all)
    from Cons.IH [OF _ Cons.prems(2) acc_mono [OF this, of "m + 2"]] Cons.prems room
    show ?thesis by (simp add: MulAcc add.assoc)
  next
    case (SaveMulAcc s x y)
    have "s = k" "k < len" using Cons.prems(1,4) by (simp_all add: SaveMulAcc)
    have "acc_ok A B len (t + uint (A ! x) * uint (B ! y) * W ^ Suc k) (Suc k) 2 (acc_step A B op st)"
      unfolding SaveMulAcc acc_step.simps \<open>s = k\<close>
      by (rule acc_save [OF Cons.prems(3)]) (use room \<open>k < len\<close> in simp_all)
    from Cons.IH [OF _ Cons.prems(2) acc_mono [OF this, of "m + 2"]] Cons.prems room
    show ?thesis by (simp add: SaveMulAcc add.assoc)
  next
    case (SquAcc x y)
    have c: "columns sq k ops" and AB: "A = B" "x + y = k" using Cons.prems(1,2) by (auto simp: SquAcc)
    have "acc_ok A B len (t + uint (A ! x) * uint (A ! y) * W ^ k + uint (A ! x) * uint (A ! y) * W ^ k) k (m + 1 + 1) (acc_step A B op st)"
      unfolding SquAcc acc_step.simps Let_def
      by (rule acc_add [OF acc_add [OF Cons.prems(3)]]) (use room in simp_all)
    from Cons.IH [OF c Cons.prems(2) acc_mono [OF this, of "m + 2"]] Cons.prems(4-) room AB
    show ?thesis by (simp add: SquAcc add.assoc mult.commute add.commute [of y x])
  next
    case (SaveSquAcc s x y)
    have c: "columns sq (Suc k) ops" and AB: "A = B" "x + y = Suc k" "s = k" "k < len" using Cons.prems(1,2,4) by (auto simp: SaveSquAcc)
    have "acc_ok A B len (t + uint (A ! x) * uint (A ! y) * W ^ Suc k + uint (A ! x) * uint (A ! y) * W ^ Suc k) (Suc k) (2 + 1) (acc_step A B op st)"
      unfolding SaveSquAcc acc_step.simps Let_def \<open>s = k\<close>
      by (rule acc_add [OF acc_save [OF Cons.prems(3)]]) (use room Cons.prems(5) AB in simp_all)
    from Cons.IH [OF c Cons.prems(2) acc_mono [OF this, of "m + 2"]] Cons.prems(4-) room AB
    show ?thesis by (simp add: SaveSquAcc add.assoc mult.commute add.commute [of y x])
  qed
qed

section \<open>The products\<close>

lemma acc_begin_ok:
  assumes "0 < len" and "length R = len"
  shows "acc_ok A B len (pair_sum A B [(0, 0)]) 1 2 (acc_begin A B R)"
proof -
  let ?p = "DWord_Multiply (A ! 0) (B ! 0)"
  have "uint (GetLowHalf ?p) + W * uint (GetHighHalf ?p) = uint (A ! 0) * uint (B ! 0)"
    using dint_multiply [of "A ! 0" "B ! 0"] by (simp add: dint_W)
  moreover have "uint (GetHighHalf ?p) \<le> 2 * (W * W)" using uint_W [of "GetHighHalf ?p"] W_big by linarith
  moreover have "take 1 (R[0 := GetLowHalf ?p]) = [GetLowHalf ?p]" using assms by (cases R) simp_all
  ultimately show ?thesis using assms by (simp add: acc_begin_def Let_def acc_ok_def acc_val_def)
qed

lemma last_three: "length R = j + 3 \<Longrightarrow> R[j := a, j + 1 := b, j + 2 := c] = take j R @ [a, b, c]"
  by (intro nth_equalityI) (auto simp: nth_list_update nth_append nth_Cons' less_Suc_eq)

lemma acc_end_ok:
  assumes "acc_ok A B (2 * n) t (2 * n - 3) m (R, c, d, e)" and "2 \<le> n" and "t + uint (A ! (n - 1)) * uint (B ! (n - 1)) * W ^ (2 * n - 2) < W ^ (2 * n)"
  shows "length (acc_end A B n (R, c, d, e)) = 2 * n \<and>
    val (acc_end A B n (R, c, d, e)) = t + uint (A ! (n - 1)) * uint (B ! (n - 1)) * W ^ (2 * n - 2)"
proof -
  define j where "j = 2 * n - 3"
  have j: "2 * n = j + 3" using assms(2) by (simp add: j_def)
  then have j3: "2 * n - 3 = j" "2 * n - 2 = j + 1" "2 * n - 1 = j + 2" by simp_all
  let ?p = "MultiplyAndAdd (A ! (n - 1)) (B ! (n - 1)) d"
  let ?t = "t + uint (A ! (n - 1)) * uint (B ! (n - 1)) * W ^ (2 * n - 2)"
  have R: "length R = j + 3" "val (take j R) + W ^ j * acc_val c d e = t" using assms(1) by (simp_all add: acc_ok_def j j3)
  have E: "acc_end A B n (R, c, d, e) = take j R @ [c, GetLowHalf ?p, e + GetHighHalf ?p]"
    unfolding acc_end_def Let_def prod.case j3 by (rule last_three [OF R(1)])
  obtain k where k: "uint (e + GetHighHalf ?p) = uint e + uint (GetHighHalf ?p) + W * k"
    using uint_shift(1) [of e "GetHighHalf ?p"] by (auto simp: W_def)
  have p: "uint (GetLowHalf ?p) + W * uint (GetHighHalf ?p) = uint (A ! (n - 1)) * uint (B ! (n - 1)) + uint d"
    by (rule mul_add_step)
  have "val (acc_end A B n (R, c, d, e)) = ?t + W ^ length (acc_end A B n (R, c, d, e)) * k"
  proof -
    have "val (acc_end A B n (R, c, d, e)) =
        val (take j R) + W ^ j * (uint c + W * ((uint (GetLowHalf ?p) + W * uint (GetHighHalf ?p)) + W * uint e + W * (W * k)))"
      unfolding E using R(1) k by (simp add: algebra_simps)
    also have "\<dots> = ?t + W ^ (j + 3) * k"
      unfolding p R(2) [symmetric] j3(2) acc_val_def by (simp add: algebra_simps power_add eval_nat_numeral)
    finally show ?thesis using R(1) by (simp add: E power_add eval_nat_numeral)
  qed
  moreover have len: "length (acc_end A B n (R, c, d, e)) = 2 * n" using R(1) by (simp add: E j)
  ultimately have "val (acc_end A B n (R, c, d, e)) = ?t mod W ^ (2 * n)" using val_mod by metis
  moreover have "0 \<le> ?t"
    unfolding R(2) [symmetric] using acc_nonneg by (simp add: uint_W)
  ultimately show ?thesis using assms(3) len by (simp add: mod_pos_pos_trivial)
qed

text \<open>All pairs together are the product of the numbers.\<close>

lemma val_sum: "val A = (\<Sum>i\<leftarrow>[0..<length A]. uint (A ! i) * W ^ i)"
proof (induction A)
  case (Cons a A)
  have "(\<Sum>i\<leftarrow>[0..<length (a # A)]. uint ((a # A) ! i) * W ^ i) =
      uint a + (\<Sum>i\<leftarrow>[0..<length A]. uint (A ! i) * (W * W ^ i))"
    by (simp add: upt_0_Suc comp_def del: upt_Suc)
  also have "(\<Sum>i\<leftarrow>[0..<length A]. uint (A ! i) * (W * W ^ i)) = W * (\<Sum>i\<leftarrow>[0..<length A]. uint (A ! i) * W ^ i)"
    by (simp add: sum_list_const_mult [symmetric] algebra_simps)
  finally show ?case using Cons by simp
qed simp

lemma pair_sum_product:
  "pair_sum A B (List.product [0..<length A] [0..<length B]) = val A * val B"
proof -
  have inner: "pair_sum A B (map (Pair x) ys) = uint (A ! x) * W ^ x * (\<Sum>y\<leftarrow>ys. uint (B ! y) * W ^ y)" for x ys
    by (induction ys) (simp_all add: algebra_simps power_add)
  have "pair_sum A B (List.product xs [0..<length B]) = (\<Sum>x\<leftarrow>xs. uint (A ! x) * W ^ x) * val B" for xs
    by (induction xs) (simp_all add: inner val_sum [of B] algebra_simps)
  then show ?thesis by (simp add: val_sum [of A])
qed

lemma pair_sum_mset: "mset ps = mset qs \<Longrightarrow> pair_sum A B ps = pair_sum A B qs"
proof -
  assume "mset ps = mset qs"
  then have "sum_mset (mset (map f ps)) = sum_mset (mset (map f qs))" for f :: "nat \<times> nat \<Rightarrow> int" by simp
  then show ?thesis unfolding pair_sum_def sum_mset_sum_list .
qed

lemma val_product_less: "length A = n \<Longrightarrow> length B = n \<Longrightarrow> val A * val B < W ^ (2 * n)"
  using mult_strict_mono' [OF val_less [of A] val_less [of B]] by (simp add: power_add mult_2)

text \<open>A complete list of columns is the exact product.\<close>

lemma acc_product:
  assumes "length A = n" "length B = n" "2 \<le> n" and "sq \<longrightarrow> A = B"
    and "columns sq 1 ops" and "saved ops = 2 * n - 4" and "length ops < 1000"
    and "mset ((0, 0) # products ops @ [(n - 1, n - 1)]) = mset (List.product [0..<n] [0..<n])"
  shows "length (acc_end A B n (fold (acc_step A B) ops (acc_begin A B (SetWords 0 (2 * n))))) = 2 * n \<and>
    val (acc_end A B n (fold (acc_step A B) ops (acc_begin A B (SetWords 0 (2 * n))))) = val A * val B"
proof -
  let ?b = "acc_begin A B (SetWords 0 (2 * n))"
  obtain R c d e where st: "fold (acc_step A B) ops ?b = (R, c, d, e)" by (cases "fold (acc_step A B) ops ?b")
  have "acc_ok A B (2 * n) (pair_sum A B [(0, 0)]) 1 2 ?b" using assms(3) by (intro acc_begin_ok) (simp_all add: SetWords_def)
  moreover have i: "1 + (2 * n - 4) = 2 * n - 3" using assms(3) by simp
  moreover note acc_run [OF assms(5,4), unfolded assms(6) i]
  ultimately have run:
    "acc_ok A B (2 * n) (pair_sum A B [(0, 0)] + pair_sum A B (products ops)) (2 * n - 3) (2 + 2 * int (length ops)) (R, c, d, e)"
    using assms(3,7) unfolding st [symmetric] by (simp add: W_def)
  have "pair_sum A B [(0, 0)] + pair_sum A B (products ops) + uint (A ! (n - 1)) * uint (B ! (n - 1)) * W ^ (2 * n - 2) =
      pair_sum A B ((0, 0) # products ops @ [(n - 1, n - 1)])"
    using assms(3) by (simp add: mult_2 numeral_2_eq_2)
  also have "\<dots> = val A * val B"
    unfolding pair_sum_mset [OF assms(8)] using pair_sum_product [of A B] assms(1,2) by simp
  finally show ?thesis
    using acc_end_ok [OF run assms(3)] val_product_less [OF assms(1,2)] by (simp add: st)
qed

lemma Multiply4_columns: "columns False 1 Multiply4_columns \<and> saved Multiply4_columns = 4 \<and> length Multiply4_columns < 1000 \<and>
    mset ((0, 0) # products Multiply4_columns @ [(3, 3)]) = mset (List.product [0..<4] [0..<4])"
  by code_simp

lemma Multiply8_columns: "columns False 1 Multiply8_columns \<and> saved Multiply8_columns = 12 \<and> length Multiply8_columns < 1000 \<and>
    mset ((0, 0) # products Multiply8_columns @ [(7, 7)]) = mset (List.product [0..<8] [0..<8])"
  by code_simp

lemma Square4_columns: "columns True 1 Square4_columns \<and> saved Square4_columns = 4 \<and> length Square4_columns < 1000 \<and>
    mset ((0, 0) # products Square4_columns @ [(3, 3)]) = mset (List.product [0..<4] [0..<4])"
  by code_simp

lemma Square2_columns: "columns True 1 [SquAcc 0 1] \<and>
    mset ((0, 0) # products [SquAcc 0 1] @ [(1, 1)]) = mset (List.product [0..<2] [0..<2])"
  by code_simp

lemma Multiply4_val: "length A = 4 \<Longrightarrow> length B = 4 \<Longrightarrow> length (Multiply4 A B) = 8 \<and> val (Multiply4 A B) = val A * val B"
  using acc_product [of A 4 B False Multiply4_columns] Multiply4_columns by (simp add: Multiply4_def)

lemma Multiply8_val: "length A = 8 \<Longrightarrow> length B = 8 \<Longrightarrow> length (Multiply8 A B) = 16 \<and> val (Multiply8 A B) = val A * val B"
  using acc_product [of A 8 B False Multiply8_columns] Multiply8_columns by (simp add: Multiply8_def)

lemma Square2_val: "length A = 2 \<Longrightarrow> length (Square2 A) = 4 \<and> val (Square2 A) = val A * val A"
  using acc_product [of A 2 A True "[SquAcc 0 1]"] Square2_columns by (simp add: Square2_def)

lemma Square4_val: "length A = 4 \<Longrightarrow> length (Square4 A) = 8 \<and> val (Square4 A) = val A * val A"
  using acc_product [of A 4 A True Square4_columns] Square4_columns by (simp add: Square4_def)

subsection \<open>Two words\<close>

lemma uint_diff: "uint (a - b) = uint a - uint b + (if a < b then W else 0)" for a b :: u64
  using uint_W [of a] uint_W [of b] by (simp add: uint_sub_if' word_less_def W_def)

lemma difference_product_val:
  assumes "difference_product [a0, a1] [b0, b1] = (d, s)"
  shows "dint d - W * uint s = (uint a1 - uint a0) * (uint b0 - uint b1)"
proof -
  have d: "d = fst (difference_product [a0, a1] [b0, b1])" and s: "s = snd (difference_product [a0, a1] [b0, b1])"
    using assms by simp_all
  show ?thesis unfolding d s
    by (cases "a1 < a0"; cases "b0 < b1")
      (simp_all add: difference_product_def Let_def uint_diff numeral_2_eq_2 numeral_3_eq_3 less_not_sym algebra_simps)
qed

lemma two_words: "length A = 2 \<Longrightarrow> \<exists>a b. A = [a, b]"
  by (cases A; cases "tl A") auto

lemma split_product: "dint (DWord_Multiply a b) = uint (GetLowHalf (DWord_Multiply a b)) + W * uint (GetHighHalf (DWord_Multiply a b))"
  for a b :: u64
  by (rule dint_W)

lemma sum_fits: "x \<le> 8 * W \<Longrightarrow> 0 \<le> x \<Longrightarrow> x mod (2 ^ LENGTH(64) * 2 ^ LENGTH(64)) = x" for x :: int
  by (simp add: W_def)

lemma product_range:
  fixes l t :: u64
  assumes "x = uint l + W * uint t + W * W * v" and "0 \<le> x" and "x < W * W * (W * W)"
  shows "v mod (W * W) = v"
proof (rule mod_pos_pos_trivial)
  have "W * uint t \<le> W * (W - 1)" using uint_W [of t] by (intro mult_left_mono) simp_all
  then have "uint l + W * uint t < W * W" using uint_W [of l] by (simp add: right_diff_distrib)
  then have "0 < W * W * (v + 1)" using assms(1,2) by (simp only: distrib_left mult_1_right)
  then show "0 \<le> v" by (simp add: zero_less_mult_iff)
  have "W * W * v < W * W * (W * W)"
    using assms(1,3) uint_W(1) [of l] mult_nonneg_nonneg [OF W_pos(3) uint_W(1) [of t]] by linarith
  then show "v < W * W" by (simp add: mult_less_cancel_left)
qed

lemma Multiply2_val:
  assumes "length A = 2" and "length B = 2"
  shows "length (Multiply2 A B) = 4 \<and> val (Multiply2 A B) = val A * val B"
proof -
  obtain a0 a1 b0 b1 where A: "A = [a0, a1]" and B: "B = [b0, b1]" using assms two_words by metis
  obtain d s where ds: "difference_product A B = (d, s)" by fastforce
  let ?p = "DWord_Multiply a0 b0" and ?q = "DWord_Multiply a1 b1"
  let ?t = "DWord_add (DWord_add (DWord_add (DWord_of (GetHighHalf ?p)) (GetLowHalf ?p)) (GetLowHalf d)) (GetLowHalf ?q)"
  let ?u = "DWord_sub_word (DWord_add (DWord_add (DWord_add (DWord_add ?q (GetHighHalf ?t)) (GetHighHalf ?p)) (GetHighHalf d)) (GetHighHalf ?q)) s"
  note X = difference_product_val [OF ds [unfolded A B]]
  have t: "uint (GetLowHalf ?t) + W * uint (GetHighHalf ?t) =
      uint (GetHighHalf ?p) + uint (GetLowHalf ?p) + uint (GetLowHalf d) + uint (GetLowHalf ?q)"
  proof -
    have "dint ?t = uint (GetHighHalf ?p) + uint (GetLowHalf ?p) + uint (GetLowHalf d) + uint (GetLowHalf ?q)"
      unfolding dint_add dint_of mod_add_left_eq
      using uint_W [of "GetHighHalf ?p"] uint_W [of "GetLowHalf ?p"] uint_W [of "GetLowHalf d"] uint_W [of "GetLowHalf ?q"]
      by (intro sum_fits) linarith+
    then show ?thesis by (simp add: dint_W)
  qed
  define v where "v = dint ?q + uint (GetHighHalf ?t) + uint (GetHighHalf ?p) + uint (GetHighHalf d) + uint (GetHighHalf ?q) - uint s"
  have u: "dint ?u = v mod (W * W)"
    unfolding v_def dint_sub_word dint_add by (simp add: mod_add_left_eq mod_diff_left_eq W_def)
  have "val A * val B = dint ?p + W * (dint ?p + dint ?q + (dint d - W * uint s)) + W * W * dint ?q"
    unfolding X by (simp add: A B algebra_simps)
  also have "\<dots> = uint (GetLowHalf ?p) + W * (uint (GetHighHalf ?p) + uint (GetLowHalf ?p) + uint (GetLowHalf d) + uint (GetLowHalf ?q)) +
      W * W * (v - uint (GetHighHalf ?t))"
    unfolding v_def dint_W by (simp add: algebra_simps)
  also have "\<dots> = uint (GetLowHalf ?p) + W * uint (GetLowHalf ?t) + W * W * v"
    unfolding t [symmetric] by (simp add: algebra_simps)
  finally have AB: "val A * val B = uint (GetLowHalf ?p) + W * uint (GetLowHalf ?t) + W * W * v" .
  have "v mod (W * W) = v"
    by (rule product_range [OF AB]) (use val_product_less [OF assms] val_nonneg in \<open>simp_all add: eval_nat_numeral mult.assoc\<close>)
  then have "uint (GetLowHalf ?u) + W * uint (GetHighHalf ?u) = v" using u by (simp add: dint_W)
  moreover have "Multiply2 A B = [GetLowHalf ?p, GetLowHalf ?t, GetLowHalf ?u, GetHighHalf ?u]"
    by (simp add: Multiply2_def Let_def A B ds [unfolded A B])
  ultimately show ?thesis unfolding AB by (simp add: algebra_simps)
qed

lemma Multiply2Bottom_val:
  assumes "length A = 2" and "length B = 2"
  shows "length (Multiply2Bottom A B) = 2 \<and> val (Multiply2Bottom A B) = val A * val B mod W ^ 2"
proof -
  obtain a0 a1 b0 b1 where A: "A = [a0, a1]" and B: "B = [b0, b1]" using assms two_words by metis
  let ?p = "DWord_Multiply a0 b0"
  have M: "Multiply2Bottom A B = [GetLowHalf ?p, GetHighHalf ?p + a0 * b1 + a1 * b0]"
    by (simp add: Multiply2Bottom_def Let_def A B)
  have "uint (GetHighHalf ?p + a0 * b1 + a1 * b0) = (uint (GetHighHalf ?p) + uint a0 * uint b1 + uint a1 * uint b0) mod W"
    by (simp add: uint_word_ariths W_def mod_simps)
  then obtain k where "uint (GetHighHalf ?p + a0 * b1 + a1 * b0) = uint (GetHighHalf ?p) + uint a0 * uint b1 + uint a1 * uint b0 + W * k"
    using that [of "- ((uint (GetHighHalf ?p) + uint a0 * uint b1 + uint a1 * uint b0) div W)"]
    by (simp add: minus_mult_div_eq_mod)
  moreover have "uint a0 * uint b0 = uint (GetLowHalf ?p) + W * uint (GetHighHalf ?p)"
    using dint_multiply [of a0 b0] by (simp add: dint_W)
  ultimately have "val (Multiply2Bottom A B) = val A * val B + W ^ length (Multiply2Bottom A B) * (k - uint a1 * uint b1)"
    unfolding M by (simp add: A B algebra_simps)
  from val_mod [OF this] show ?thesis by (simp add: M power2_eq_square)
qed

lemma Multiply2Add_val:
  assumes "length C = 4" and "length A = 2" and "length B = 2" and "Multiply2Add C A B = (C', c)"
  shows "length C' = 4 \<and> val C' + W ^ 4 * uint c = val C + val A * val B"
proof -
  obtain a0 a1 b0 b1 where A: "A = [a0, a1]" and B: "B = [b0, b1]" using assms(2,3) two_words by metis
  obtain c0 c1 c2 c3 where C: "C = [c0, c1, c2, c3]" using assms(1) by (auto simp: length_Suc_conv eval_nat_numeral)
  obtain d s where ds: "difference_product A B = (d, s)" by fastforce
  let ?p = "DWord_Multiply a0 b0" and ?q = "DWord_Multiply a1 b1"
  define t0 where "t0 = DWord_add ?p c0"
  define t1 where "t1 = DWord_add (DWord_add (DWord_add (DWord_add (DWord_of (GetHighHalf t0)) (GetLowHalf ?p)) (GetLowHalf d)) (GetLowHalf ?q)) c1"
  define t2 where "t2 = DWord_add (DWord_sub_word (DWord_add (DWord_add (DWord_add (DWord_add (DWord_of (GetHighHalf t1)) (GetLowHalf ?q))
     (GetHighHalf ?p)) (GetHighHalf d)) (GetHighHalf ?q)) s) c2"
  define t3 where "t3 = DWord_add (DWord_add (DWord_of (GetHighHalf t2)) (GetHighHalf ?q)) c3"
  note X = difference_product_val [OF ds [unfolded A B]]
  note range = uint_W [of "GetHighHalf ?p"] uint_W [of "GetLowHalf ?p"] uint_W [of "GetLowHalf d"] uint_W [of "GetLowHalf ?q"]
    uint_W [of "GetHighHalf ?q"] uint_W [of "GetHighHalf d"] uint_W [of s]
    uint_W [of c0] uint_W [of c1] uint_W [of c2] uint_W [of c3]
  have e0: "uint (GetLowHalf t0) + W * uint (GetHighHalf t0) = dint ?p + uint c0"
    unfolding t0_def using add_half product_bound [of a0 b0] by blast
  have e1: "uint (GetLowHalf t1) + W * uint (GetHighHalf t1) =
      uint (GetHighHalf t0) + uint (GetLowHalf ?p) + uint (GetLowHalf d) + uint (GetLowHalf ?q) + uint c1"
  proof -
    have "dint t1 = uint (GetHighHalf t0) + uint (GetLowHalf ?p) + uint (GetLowHalf d) + uint (GetLowHalf ?q) + uint c1"
      unfolding t1_def dint_add dint_of mod_add_left_eq using range uint_W [of "GetHighHalf t0"] by (intro sum_fits) linarith+
    then show ?thesis by (simp add: dint_W)
  qed
  define m where "m = uint (GetHighHalf t1) + uint (GetHighHalf ?p) + uint (GetHighHalf d) + uint (GetHighHalf ?q) - uint s"
  have "dint ?p + dint ?q + (dint d - W * uint s) = uint a0 * uint b1 + uint a1 * uint b0"
    unfolding X by (simp add: algebra_simps)
  then have "0 \<le> dint ?p + dint ?q + (dint d - W * uint s)" by (simp add: uint_W)
  then have "0 \<le> W * m + uint (GetLowHalf t1)"
    using e1 range uint_W [of "GetHighHalf t0"] unfolding m_def dint_W by (simp only: distrib_left right_diff_distrib)
  then have "0 < W * (m + 1)" using uint_W [of "GetLowHalf t1"] by (simp add: distrib_left)
  then have m: "0 \<le> m" using W_pos(1) by (auto simp: zero_less_mult_iff)
  have e2: "uint (GetLowHalf t2) + W * uint (GetHighHalf t2) = m + uint (GetLowHalf ?q) + uint c2"
  proof -
    have "dint t2 = (m + uint (GetLowHalf ?q) + uint c2) mod (2 ^ LENGTH(64) * 2 ^ LENGTH(64))"
      unfolding t2_def m_def dint_add dint_sub_word dint_of mod_simps by (simp add: algebra_simps)
    also have "\<dots> = m + uint (GetLowHalf ?q) + uint c2"
      using range uint_W [of "GetHighHalf t1"] m unfolding m_def by (intro sum_fits) linarith+
    finally show ?thesis by (simp add: dint_W)
  qed
  have e3: "uint (GetLowHalf t3) + W * uint (GetHighHalf t3) = uint (GetHighHalf t2) + uint (GetHighHalf ?q) + uint c3"
  proof -
    have "dint t3 = uint (GetHighHalf t2) + uint (GetHighHalf ?q) + uint c3"
      unfolding t3_def dint_add dint_of mod_add_left_eq using range uint_W [of "GetHighHalf t2"] by (intro sum_fits) linarith+
    then show ?thesis by (simp add: dint_W)
  qed
  have M: "C' = [GetLowHalf t0, GetLowHalf t1, GetLowHalf t2, GetLowHalf t3]" "c = GetHighHalf t3"
    using assms(4) by (simp_all add: Multiply2Add_def Let_def A B C ds [unfolded A B] t0_def t1_def t2_def t3_def)
  have "val C' + W ^ 4 * uint c = uint (GetLowHalf t0) + W * (uint (GetLowHalf t1) + W * (uint (GetLowHalf t2) +
      W * (uint (GetLowHalf t3) + W * uint (GetHighHalf t3))))"
    by (simp add: M eval_nat_numeral algebra_simps)
  also have "\<dots> = uint (GetLowHalf t0) + W * (uint (GetLowHalf t1) + W * ((m + uint (GetLowHalf ?q) + uint c2) +
      W * (uint (GetHighHalf ?q) + uint c3)))"
    unfolding e3 e2 [symmetric] by (simp add: algebra_simps)
  also have "\<dots> = uint (GetLowHalf t0) + W * ((uint (GetHighHalf t0) + uint (GetLowHalf ?p) + uint (GetLowHalf d) + uint (GetLowHalf ?q) + uint c1) +
      W * (uint (GetHighHalf ?p) + uint (GetHighHalf d) + uint (GetHighHalf ?q) - uint s + uint (GetLowHalf ?q) + uint c2 +
      W * (uint (GetHighHalf ?q) + uint c3)))"
    unfolding e1 [symmetric] m_def by (simp add: algebra_simps)
  also have "\<dots> = dint ?p + uint c0 + W * (uint c1 + W * (uint c2 + W * uint c3)) + W * (dint ?p + dint ?q + (dint d - W * uint s)) + W * W * dint ?q"
    using e0 by (simp add: dint_W algebra_simps)
  also have "\<dots> = val C + val A * val B"
    unfolding X by (simp add: A B C algebra_simps)
  finally show ?thesis by (simp add: M)
qed

subsection \<open>Lower halves\<close>

lemma pair_sum_high: "\<forall>(x, y) \<in> set ps. n \<le> x + y \<Longrightarrow> \<exists>k. pair_sum A B ps = W ^ n * k"
proof (induction ps)
  case Nil
  then show ?case by (auto intro: exI [of _ 0])
next
  case (Cons p ps)
  obtain x y where p: "p = (x, y)" by (cases p)
  obtain k where k: "pair_sum A B ps = W ^ n * k" using Cons by auto
  have "W ^ (x + y) = W ^ n * W ^ (x + y - n)" using Cons.prems p by (simp flip: power_add)
  then have "pair_sum A B (p # ps) = W ^ n * (uint (A ! x) * uint (B ! y) * W ^ (x + y - n) + k)"
    by (simp add: p k algebra_simps)
  then show ?case by blast
qed

lemma pair_sum_low:
  assumes "length A = n" "length B = n"
    and "mset ps = mset (filter (\<lambda>(x, y). x + y < n) (List.product [0..<n] [0..<n]))"
  shows "\<exists>k. val A * val B = pair_sum A B ps + W ^ n * k"
proof -
  let ?all = "List.product [0..<n] [0..<n]" and ?low = "\<lambda>(x, y). x + y < n"
  have "pair_sum A B (filter ?low xs) + pair_sum A B (filter (\<lambda>p. \<not> ?low p) xs) = pair_sum A B xs" for xs
    by (induction xs) auto
  moreover obtain k where "pair_sum A B (filter (\<lambda>p. \<not> ?low p) ?all) = W ^ n * k"
    using pair_sum_high [of "filter (\<lambda>p. \<not> ?low p) ?all" n A B] by auto
  moreover have "val A * val B = pair_sum A B ?all" using pair_sum_product [of A B] assms(1,2) by simp
  ultimately show ?thesis using pair_sum_mset [OF assms(3), of A B] by metis
qed

lemma last_two: "length R = j + 2 \<Longrightarrow> R[j := a, Suc j := b] = take j R @ [a, b]"
  by (intro nth_equalityI) (auto simp: nth_list_update nth_append nth_Cons' less_Suc_eq)

text \<open>The last column is added to the middle word without its carries.\<close>

lemma acc_bottom:
  assumes "length A = j + 2" "length B = j + 2" "0 < j"
    and "columns False 1 ops" and "saved ops = j - 1" and "length ops < 1000"
    and "mset (((0, 0) # products ops) @ ps) = mset (filter (\<lambda>(x, y). x + y < j + 2) (List.product [0..<j + 2] [0..<j + 2]))"
    and "fold (acc_step A B) ops (acc_begin A B (SetWords 0 (j + 2))) = (R, c, d, e)"
    and "uint f = (uint d + S) mod W" and "pair_sum A B ps = W ^ (j + 1) * S"
  shows "length (R[j := c, Suc j := f]) = j + 2 \<and> val (R[j := c, Suc j := f]) = val A * val B mod W ^ (j + 2)"
proof -
  let ?b = "acc_begin A B (SetWords 0 (j + 2))"
  have "acc_ok A B (j + 2) (pair_sum A B [(0, 0)]) 1 2 ?b" by (intro acc_begin_ok) (simp_all add: SetWords_def)
  moreover have i: "1 + (j - 1) = j" using assms(3) by simp
  moreover note acc_run [OF assms(4), of A B, unfolded assms(5) i]
  ultimately have run: "acc_ok A B (j + 2) (pair_sum A B [(0, 0)] + pair_sum A B (products ops)) j (2 + 2 * int (length ops)) (R, c, d, e)"
    using assms(6) unfolding assms(8) [symmetric] by (simp add: W_def)
  then have R: "length R = j + 2" "val (take j R) + W ^ j * acc_val c d e = pair_sum A B ((0, 0) # products ops)"
    by (simp_all add: acc_ok_def)
  obtain k where k: "val A * val B = pair_sum A B (((0, 0) # products ops) @ ps) + W ^ (j + 2) * k"
    using pair_sum_low [OF assms(1,2,7)] by blast
  have f: "uint f = uint d + S - W * ((uint d + S) div W)" by (simp add: assms(9) minus_mult_div_eq_mod)
  have E: "R[j := c, Suc j := f] = take j R @ [c, f]" using last_two [OF R(1)] .
  have "val (R[j := c, Suc j := f]) = val (take j R) + W ^ j * (uint c + W * (uint d + S - W * ((uint d + S) div W)))"
    unfolding E f [symmetric] using R(1) by simp
  also have "\<dots> = val A * val B + W ^ (j + 2) * (- k - uint e - (uint d + S) div W)"
    unfolding k pair_sum_simps(3) R(2) [symmetric] assms(10) by (simp add: acc_val_def algebra_simps power_add eval_nat_numeral)
  finally have "val (R[j := c, Suc j := f]) = val A * val B + W ^ length (R[j := c, Suc j := f]) * (- k - uint e - (uint d + S) div W)"
    using R(1) by simp
  from val_mod [OF this] show ?thesis using R(1) by simp
qed

lemma Multiply4Bottom_columns: "columns False 1 Multiply4Bottom_columns \<and> saved Multiply4Bottom_columns = 2 - 1 \<and> length Multiply4Bottom_columns < 1000"
  by code_simp

lemma Multiply4Bottom_products: "mset (((0, 0) # products Multiply4Bottom_columns) @ [(0, 3), (1, 2), (2, 1), (3, 0)]) =
    mset (filter (\<lambda>(x, y). x + y < 2 + 2) (List.product [0..<2 + 2] [0..<2 + 2]))"
  by code_simp

lemma Multiply4Bottom_val:
  assumes "length A = 4" and "length B = 4"
  shows "length (Multiply4Bottom A B) = 4 \<and> val (Multiply4Bottom A B) = val A * val B mod W ^ 4"
proof -
  obtain R c d e where st: "fold (acc_step A B) Multiply4Bottom_columns (acc_begin A B (SetWords 0 4)) = (R, c, d, e)" by (metis surj_pair)
  let ?f = "d + A ! 0 * B ! 3 + A ! 1 * B ! 2 + A ! 2 * B ! 1 + A ! 3 * B ! 0"
  let ?S = "uint (A ! 0) * uint (B ! 3) + uint (A ! 1) * uint (B ! 2) + uint (A ! 2) * uint (B ! 1) + uint (A ! 3) * uint (B ! 0)"
  have "length (R[2 := c, Suc 2 := ?f]) = 2 + 2 \<and> val (R[2 := c, Suc 2 := ?f]) = val A * val B mod W ^ (2 + 2)"
  proof (rule acc_bottom [OF _ _ _ _ _ _ Multiply4Bottom_products])
    show "length A = 2 + 2" "length B = 2 + 2" "(0::nat) < 2" using assms by simp_all
    show "columns False 1 Multiply4Bottom_columns" "saved Multiply4Bottom_columns = 2 - 1" "length Multiply4Bottom_columns < 1000"
      using Multiply4Bottom_columns by blast+
    show "fold (acc_step A B) Multiply4Bottom_columns (acc_begin A B (SetWords 0 (2 + 2))) = (R, c, d, e)" using st by simp
    show "uint ?f = (uint d + (?S)) mod W"
      by (simp add: uint_word_ariths W_def mod_simps add.assoc)
    show "pair_sum A B [(0, 3), (1, 2), (2, 1), (3, 0)] = W ^ (2 + 1) * (?S)" by (simp add: distrib_left eval_nat_numeral)
  qed
  then show ?thesis by (simp add: Multiply4Bottom_def st)
qed

lemma Multiply8Bottom_columns: "columns False 1 Multiply8Bottom_columns \<and> saved Multiply8Bottom_columns = 6 - 1 \<and> length Multiply8Bottom_columns < 1000"
  by code_simp

lemma Multiply8Bottom_products: "mset (((0, 0) # products Multiply8Bottom_columns) @ [(0, 7), (1, 6), (2, 5), (3, 4), (4, 3), (5, 2), (6, 1), (7, 0)]) =
    mset (filter (\<lambda>(x, y). x + y < 6 + 2) (List.product [0..<6 + 2] [0..<6 + 2]))"
  by code_simp

lemma Multiply8Bottom_val:
  assumes "length A = 8" and "length B = 8"
  shows "length (Multiply8Bottom A B) = 8 \<and> val (Multiply8Bottom A B) = val A * val B mod W ^ 8"
proof -
  obtain R c d e where st: "fold (acc_step A B) Multiply8Bottom_columns (acc_begin A B (SetWords 0 8)) = (R, c, d, e)" by (metis surj_pair)
  let ?f = "d + A ! 0 * B ! 7 + A ! 1 * B ! 6 + A ! 2 * B ! 5 + A ! 3 * B ! 4 + A ! 4 * B ! 3 + A ! 5 * B ! 2 + A ! 6 * B ! 1 + A ! 7 * B ! 0"
  let ?S = "uint (A ! 0) * uint (B ! 7) + uint (A ! 1) * uint (B ! 6) + uint (A ! 2) * uint (B ! 5) + uint (A ! 3) * uint (B ! 4) + uint (A ! 4) * uint (B ! 3) + uint (A ! 5) * uint (B ! 2) + uint (A ! 6) * uint (B ! 1) + uint (A ! 7) * uint (B ! 0)"
  have "length (R[6 := c, Suc 6 := ?f]) = 6 + 2 \<and> val (R[6 := c, Suc 6 := ?f]) = val A * val B mod W ^ (6 + 2)"
  proof (rule acc_bottom [OF _ _ _ _ _ _ Multiply8Bottom_products])
    show "length A = 6 + 2" "length B = 6 + 2" "(0::nat) < 6" using assms by simp_all
    show "columns False 1 Multiply8Bottom_columns" "saved Multiply8Bottom_columns = 6 - 1" "length Multiply8Bottom_columns < 1000"
      using Multiply8Bottom_columns by blast+
    show "fold (acc_step A B) Multiply8Bottom_columns (acc_begin A B (SetWords 0 (6 + 2))) = (R, c, d, e)" using st by simp
    show "uint ?f = (uint d + (?S)) mod W"
      by (simp add: uint_word_ariths W_def mod_simps add.assoc)
    show "pair_sum A B [(0, 7), (1, 6), (2, 5), (3, 4), (4, 3), (5, 2), (6, 1), (7, 0)] = W ^ (6 + 1) * (?S)" by (simp add: distrib_left eval_nat_numeral)
  qed
  then show ?thesis by (simp add: Multiply8Bottom_def st)
qed

end
