(* ===== verification/CPP_Karatsuba.thy ===== *)
theory CPP_Karatsuba
  imports CPP_Multiply "HOL-Library.Monad_Syntax"
begin

text \<open>
  The recursive products of \<^verbatim>\<open>src/src/utils/lib/CryptoPP.cc\<close> (\<open>RecursiveMultiply\<close>, \<open>RecursiveSquare\<close>,
  \<open>RecursiveMultiplyBottom\<close>, \<open>RecursiveMultiplyTop\<close>, \<open>AsymmetricMultiply\<close>), with the recursion limits
  of the class \<open>Portable\<close>: 8 for products, 4 for squares. The names \<open>A0\<close>, \<open>A1\<close>, \<open>T0\<close> \<open>\<dots>\<close> of the
  macros are the halves of the arrays. The value \<open>None\<close> is an assertion that fails; the sizes on
  which none fails are proved below. The work space is not an argument: no function reads a word of
  it that it has not written.
\<close>

section \<open>Operations\<close>

text \<open>The \<open>switch\<close> on the two comparisons, which \<open>RecursiveMultiply\<close> and \<open>RecursiveMultiplyTop\<close>
  both have: the differences \<open>R0\<close> and \<open>R1\<close> that are multiplied (none in the default case), and what is
  done to their product. The variable \<open>carry\<close> is a C \<open>int\<close>: it starts at \<open>-1\<close> when the product of the
  differences is negative.\<close>

definition switch_value :: "u64 list \<Rightarrow> u64 list \<Rightarrow> nat \<Rightarrow> int" where
  "switch_value A B N2 =
     (let aComp = Compare (take N2 A) (drop N2 A) N2;
          bComp = Compare (take N2 B) (drop N2 B) N2
      in 2 * aComp + aComp + bComp)"

definition switch_operands :: "u64 list \<Rightarrow> u64 list \<Rightarrow> nat \<Rightarrow> (u64 list \<times> u64 list) option" where
  "switch_operands A B N2 =
     (let A0 = take N2 A; A1 = drop N2 A;
          B0 = take N2 B; B1 = drop N2 B;
          s = switch_value A B N2
      in if s = -4 then Some (fst (Subtract A1 A0), fst (Subtract B0 B1))
         else if s = -2 then Some (fst (Subtract A1 A0), fst (Subtract B0 B1))
         else if s = 2 then Some (fst (Subtract A0 A1), fst (Subtract B1 B0))
         else if s = 4 then Some (fst (Subtract A1 A0), fst (Subtract B0 B1))
         else None)"

definition switch_result :: "u64 list \<Rightarrow> u64 list \<Rightarrow> nat \<Rightarrow> u64 list \<Rightarrow> u64 list \<Rightarrow> u64 list \<Rightarrow> u64 list \<times> int" where
  "switch_result A B N2 R0 R1 T =
     (let s = switch_value A B N2
      in if s = -4 then (take N2 T @ fst (Subtract (drop N2 T) R0), -1)
         else if s = 4 then (take N2 T @ fst (Subtract (drop N2 T) R1), -1)
         else (T, 0))"

text \<open>The end of \<open>RecursiveMultiply\<close>, on the three products.\<close>

definition multiply_end :: "nat \<Rightarrow> (u64 list \<times> int) option \<Rightarrow> u64 list option \<Rightarrow> u64 list option \<Rightarrow> u64 list option" where
  "multiply_end N middle low high =
     do {
       (T, carry) \<leftarrow> middle;
       R01 \<leftarrow> low;
       R23 \<leftarrow> high;
       let N2 = N div 2;
           (T, c1) = Add T R01;
           (T, c2) = Add T R23;
           R = R01 @ R23;
           (R12, c3) = Add (take N (drop N2 R)) T;
           carry = carry + uint c1 + uint c2 + uint c3
       in if 0 \<le> carry \<and> carry \<le> 2
          then Some (take N2 R @ R12 @ fst (Increment (drop (N + N2) R) (word_of_int carry)))
          else None
     }"

fun RecursiveMultiply :: "u64 list \<Rightarrow> u64 list \<Rightarrow> nat \<Rightarrow> u64 list option" where
  "RecursiveMultiply A B N =
     (if N < 2 \<or> odd N then None
      else if N = 8 then Some (Multiply8 A B)
      else if N = 4 then Some (Multiply4 A B)
      else if N = 2 then Some (Multiply2 A B)
      else multiply_end N
        (case switch_operands A B (N div 2) of
           None \<Rightarrow> Some (SetWords 0 N, 0)
         | Some (R0, R1) \<Rightarrow> map_option (switch_result A B (N div 2) R0 R1) (RecursiveMultiply R0 R1 (N div 2)))
        (RecursiveMultiply (take (N div 2) A) (take (N div 2) B) (N div 2))
        (RecursiveMultiply (drop (N div 2) A) (drop (N div 2) B) (N div 2)))"

declare RecursiveMultiply.simps [simp del]

text \<open>In the C++ text the first test (8 words) is not followed by an \<open>else\<close>; with the limit 4 it is
  never true.\<close>

definition square_end :: "nat \<Rightarrow> u64 list \<Rightarrow> u64 list \<Rightarrow> u64 list \<Rightarrow> u64 list" where
  "square_end N R01 R23 T =
     (let N2 = N div 2;
          R = R01 @ R23;
          (R12, c1) = Add (take N (drop N2 R)) T;
          (R12, c2) = Add R12 T;
          carry = c1 + c2
      in take N2 R @ R12 @ fst (Increment (drop (N + N2) R) carry))"

fun RecursiveSquare :: "u64 list \<Rightarrow> nat \<Rightarrow> u64 list option" where
  "RecursiveSquare A N =
     (if N = 0 \<or> odd N then None
      else if N = 4 then Some (Square4 A)
      else if N = 2 then Some (Square2 A)
      else do {
        R01 \<leftarrow> RecursiveSquare (take (N div 2) A) (N div 2);
        R23 \<leftarrow> RecursiveSquare (drop (N div 2) A) (N div 2);
        T \<leftarrow> RecursiveMultiply (take (N div 2) A) (drop (N div 2) A) (N div 2);
        Some (square_end N R01 R23 T)
      })"

declare RecursiveSquare.simps [simp del]

fun RecursiveMultiplyBottom :: "u64 list \<Rightarrow> u64 list \<Rightarrow> nat \<Rightarrow> u64 list option" where
  "RecursiveMultiplyBottom A B N =
     (if N < 2 \<or> odd N then None
      else if N = 8 then Some (Multiply8Bottom A B)
      else if N = 4 then Some (Multiply4Bottom A B)
      else if N = 2 then Some (Multiply2Bottom A B)
      else do {
        R \<leftarrow> RecursiveMultiply (take (N div 2) A) (take (N div 2) B) (N div 2);
        T \<leftarrow> RecursiveMultiplyBottom (drop (N div 2) A) (take (N div 2) B) (N div 2);
        T' \<leftarrow> RecursiveMultiplyBottom (take (N div 2) A) (drop (N div 2) B) (N div 2);
        Some (take (N div 2) R @ fst (Add (fst (Add (drop (N div 2) R) T)) T'))
      })"

declare RecursiveMultiplyBottom.simps [simp del]

definition RecursiveMultiplyTop :: "u64 list \<Rightarrow> u64 list \<Rightarrow> u64 list \<Rightarrow> nat \<Rightarrow> u64 list option" where
  "RecursiveMultiplyTop L A B N =
     (if N < 2 \<or> odd N then None
      else if N = 4 then Some (drop 4 (Multiply4 A B))
      else if N = 2 then Some (drop 2 (Multiply2 A B))
      else
        let N2 = N div 2
        in do {
          (T, carry) \<leftarrow>
            (case switch_operands A B N2 of
               None \<Rightarrow> Some (SetWords 0 N, 0)
             | Some (R0, R1) \<Rightarrow> map_option (switch_result A B N2 R0 R1) (RecursiveMultiply R0 R1 N2));
          T23 \<leftarrow> RecursiveMultiply (drop N2 A) (drop N2 B) N2;
          let T0 = take N2 T; T1 = drop N2 T; T2 = take N2 T23; T3 = drop N2 T23;
              (R0, c2) = Subtract (drop N2 L) (take N2 L);
              (R0, c2') = Subtract R0 T0;
              c2 = c2 + c2';
              t = (if Compare R0 T2 N2 = -1 then 1 else 0);
              (R0, ci) = Increment R0 (c2 + t);
              (R0, ca) = Add R0 T1;
              (R0, cb) = Add R0 T3;
              carry = carry + uint t + uint ci + uint ca + uint cb
          in if 0 \<le> carry \<and> carry \<le> 2
             then Some (R0 @ fst (Increment T3 (word_of_int carry)))
             else None
        })"

text \<open>The two loops of \<open>AsymmetricMultiply\<close> multiply every second block of \<open>NA\<close> words of \<open>B\<close>.\<close>

function multiply_blocks :: "u64 list \<Rightarrow> u64 list \<Rightarrow> nat \<Rightarrow> u64 list option" where
  "multiply_blocks A B NA =
     (if B = [] \<or> NA = 0 then Some []
      else do {
        P \<leftarrow> RecursiveMultiply A (take NA B) NA;
        Ps \<leftarrow> multiply_blocks A (drop (2 * NA) B) NA;
        Some (P @ Ps)
      })"
  by pat_completeness auto
termination
  by (relation "measure (\<lambda>(A, B, NA). length B)") auto

declare multiply_blocks.simps [simp del]

text \<open>The comparison \<open>A == B\<close> is one of pointers; its result is the argument \<open>same\<close>.\<close>

definition asymmetric_short :: "u64 list \<Rightarrow> u64 list \<Rightarrow> u64 list option" where
  "asymmetric_short A B =
     (let NA = length A; NB = length B
      in if NB mod NA \<noteq> 0 \<or> odd (NB div NA) then None
         else if NA = 2 \<and> A ! 1 = 0 then
           (if A ! 0 = 0 then Some (SetWords 0 (NB + 2))
            else if A ! 0 = 1 then Some (B @ [0, 0])
            else let (C, c) = LinearMultiply B (A ! 0) in Some (C @ [c, 0]))
         else do {
           R \<leftarrow> RecursiveMultiply A (take NA B) NA;
           T \<leftarrow> multiply_blocks A (drop (2 * NA) B) NA;
           R' \<leftarrow> multiply_blocks A (drop NA B) NA;
           let (S, c) = Add (take (NB - NA) R') (drop NA R @ T);
               top = drop (NB - NA) R'
           in Some (take NA R @ S @ (if c \<noteq> 0 then fst (Increment top 1) else top))
         })"

definition AsymmetricMultiply :: "bool \<Rightarrow> u64 list \<Rightarrow> u64 list \<Rightarrow> u64 list option" where
  "AsymmetricMultiply same A B =
     (if length A = length B then
        (if same then RecursiveSquare A (length A) else RecursiveMultiply A B (length A))
      else if length A > length B then asymmetric_short B A
      else asymmetric_short A B)"
section \<open>What the products compute\<close>

lemma val_halves: "n \<le> length A \<Longrightarrow> val A = val (take n A) + W ^ n * val (drop n A)"
  using val_take_drop [of A n] by simp

lemma W_power [simp]: "0 < W ^ n" "0 \<le> W ^ n" "W ^ n \<noteq> 0"
  by simp_all

lemma val_range: "length A = n \<Longrightarrow> 0 \<le> val A" "length A = n \<Longrightarrow> val A < W ^ n"
  using val_less [of A] by auto

lemma Subtract_mod:
  assumes "even (length A)" and "length A = length B"
  shows "length (fst (Subtract A B)) = length A" and "val (fst (Subtract A B)) = (val A - val B) mod W ^ length A"
proof -
  obtain C b where C: "Subtract A B = (C, b)" by fastforce
  note v = Subtract_val [OF assms C]
  show "length (fst (Subtract A B)) = length A" using v C by simp
  from v have "val C = (val A - val B) + W ^ length C * uint b" by simp
  from val_mod [OF this] show "val (fst (Subtract A B)) = (val A - val B) mod W ^ length A" using v C by simp
qed

lemma Add_mod:
  assumes "even (length A)" and "length A = length B"
  shows "length (fst (Add A B)) = length A" and "val (fst (Add A B)) = (val A + val B) mod W ^ length A"
proof -
  obtain C b where C: "Add A B = (C, b)" by fastforce
  note v = Add_val [OF assms C]
  show "length (fst (Add A B)) = length A" using v C by simp
  from v have "val C = (val A + val B) + W ^ length C * (- uint b)" by simp
  from val_mod [OF this] show "val (fst (Add A B)) = (val A + val B) mod W ^ length A" using v C by simp
qed

lemma mod_once: "- M \<le> x \<Longrightarrow> x < M \<Longrightarrow> x mod M = (if x < 0 then x + M else x)" for x :: int
  by (auto simp: mod_pos_pos_trivial) (metis add.commute add_less_same_cancel1 diff_ge_0_iff_ge diff_minus_eq_add mod_add_self2 mod_pos_pos_trivial)

lemma Increment_mod:
  assumes "A \<noteq> []"
  shows "length (fst (Increment A B)) = length A" and "val (fst (Increment A B)) = (val A + uint B) mod W ^ length A"
proof -
  obtain C b where C: "Increment A B = (C, b)" by fastforce
  note v = Increment_val [OF assms C]
  show "length (fst (Increment A B)) = length A" using v C by simp
  from v have "val C = (val A + uint B) + W ^ length C * (- uint b)" by simp
  from val_mod [OF this] show "val (fst (Increment A B)) = (val A + uint B) mod W ^ length A" using v C by simp
qed

subsection \<open>The product of the differences\<close>

definition multiplies :: "nat \<Rightarrow> bool" where
  "multiplies n \<longleftrightarrow> (\<forall>A B. length A = n \<longrightarrow> length B = n \<longrightarrow>
     (\<exists>R. RecursiveMultiply A B n = Some R \<and> length R = 2 * n \<and> val R = val A * val B))"

lemma multipliesD: "multiplies n \<Longrightarrow> length A = n \<Longrightarrow> length B = n \<Longrightarrow>
   \<exists>R. RecursiveMultiply A B n = Some R \<and> length R = 2 * n \<and> val R = val A * val B"
  by (simp add: multiplies_def)

lemma subtract_top:
  assumes "even n" and "length T = 2 * n" and "length R = n"
    and "val T = p + W ^ n * val R" and "p < 0"
  shows "length (take n T @ fst (Subtract (drop n T) R)) = 2 * n"
    and "val (take n T @ fst (Subtract (drop n T) R)) = p + W ^ n * W ^ n"
proof -
  obtain C b where C: "Subtract (drop n T) R = (C, b)" by fastforce
  have l: "length (drop n T) = n" "length (take n T) = n" using assms(2) by simp_all
  note v = Subtract_val [of "drop n T" R, unfolded l, OF assms(1) assms(3) [symmetric] C]
  show "length (take n T @ fst (Subtract (drop n T) R)) = 2 * n" using C v l by simp
  have T: "val T = val (take n T) + W ^ n * val (drop n T)" using assms(2) by (intro val_halves) simp
  have X: "val (take n T @ C) = p + W ^ n * W ^ n * uint b"
  proof -
    have "val (take n T @ C) = val (take n T) + W ^ n * (val (drop n T) - val R + W ^ n * uint b)" using v l by simp
    also have "\<dots> = val T - W ^ n * val R + W ^ n * W ^ n * uint b" unfolding T by (simp add: algebra_simps)
    finally show ?thesis unfolding assms(4) by simp
  qed
  have "uint b \<noteq> 0" using X assms(5) val_nonneg [of "take n T @ C"] by (metis add.right_neutral mult_zero_right not_less)
  then have "uint b = 1" using v uint_W(1) [of b] by linarith
  then show "val (take n T @ fst (Subtract (drop n T) R)) = p + W ^ n * W ^ n" using X C by simp
qed

definition sign_of :: "int \<Rightarrow> int \<Rightarrow> int" where
  "sign_of x y = (if x < y then - 1 else if x = y then 0 else 1)"

lemma switch_value_val:
  assumes "length A = 2 * n" and "length B = 2 * n"
  shows "switch_value A B n =
    2 * sign_of (val (take n A)) (val (drop n A)) + sign_of (val (take n A)) (val (drop n A)) +
    sign_of (val (take n B)) (val (drop n B))"
  using assms compare_val [of n "take n A" "drop n A"] compare_val [of n "take n B" "drop n B"]
  by (simp add: switch_value_def sign_of_def)

lemma sign_cases: "sign_of x y = -1 \<and> x < y \<or> sign_of x y = 0 \<and> x = y \<or> sign_of x y = 1 \<and> y < x"
  by (auto simp: sign_of_def)

lemma switch_ok:
  assumes "multiplies n" and "even n" and "0 < n" and "length A = 2 * n" and "length B = 2 * n"
  shows "\<exists>T c. (case switch_operands A B n of None \<Rightarrow> Some (SetWords 0 (2 * n), 0)
        | Some (R0, R1) \<Rightarrow> map_option (switch_result A B n R0 R1) (RecursiveMultiply R0 R1 n)) = Some (T, c) \<and>
      length T = 2 * n \<and> (c = 0 \<or> c = -1) \<and>
      val T + W ^ n * W ^ n * c = (val (drop n A) - val (take n A)) * (val (take n B) - val (drop n B))"
proof -
  let ?A0 = "take n A" and ?A1 = "drop n A" and ?B0 = "take n B" and ?B1 = "drop n B" and ?M = "W ^ n"
  have l: "length ?A0 = n" "length ?A1 = n" "length ?B0 = n" "length ?B1 = n" using assms(4,5) by simp_all
  note r = val_range [OF l(1)] val_range [OF l(2)] val_range [OF l(3)] val_range [OF l(4)]
  let ?p = "(val ?A1 - val ?A0) * (val ?B0 - val ?B1)"
  have S: "length (fst (Subtract X Y)) = n" "val (fst (Subtract X Y)) = (if val X < val Y then val X - val Y + ?M else val X - val Y)"
    if "length X = n" "length Y = n" for X Y
    using Subtract_mod [of X Y] that assms(2) val_range [OF that(1)] val_range [OF that(2)] mod_once [of ?M "val X - val Y"] by auto
  note D = S [OF l(1,2)] S [OF l(2,1)] S [OF l(3,4)] S [OF l(4,3)]
  note sv = switch_value_val [OF assms(4,5)]
  show ?thesis
  proof (cases "val ?A0 = val ?A1 \<or> val ?B0 = val ?B1")
    case True
    then have "switch_value A B n \<notin> {-4, -2, 2, 4}" unfolding sv by (auto simp: sign_of_def)
    then show ?thesis using True by (auto simp: switch_operands_def Let_def SetWords_def)
  next
    case False
    define X where "X = (if val ?A0 > val ?A1 \<and> val ?B0 < val ?B1 then fst (Subtract ?A0 ?A1) else fst (Subtract ?A1 ?A0))"
    define Y where "Y = (if val ?A0 > val ?A1 \<and> val ?B0 < val ?B1 then fst (Subtract ?B1 ?B0) else fst (Subtract ?B0 ?B1))"
    have op: "switch_operands A B n = Some (X, Y)"
      using False unfolding switch_operands_def sv X_def Y_def Let_def by (auto simp: sign_of_def)
    have XY: "length X = n" "length Y = n" by (simp_all add: X_def Y_def D)
    obtain T where T: "RecursiveMultiply X Y n = Some T" "length T = 2 * n" "val T = val X * val Y"
      using multipliesD [OF assms(1) XY] by blast
    have "length (fst (switch_result A B n X Y T)) = 2 * n \<and> snd (switch_result A B n X Y T) \<in> {0, -1} \<and>
        val (fst (switch_result A B n X Y T)) + ?M * ?M * snd (switch_result A B n X Y T) = ?p"
    proof (cases "val ?A0 < val ?A1 \<longleftrightarrow> val ?B0 < val ?B1")
      case neg: True
      show ?thesis
      proof (cases "val ?A0 < val ?A1")
        case True
        then have s: "switch_value A B n = -4" using neg unfolding sv by (simp add: sign_of_def)
        have "val T = ?p + ?M * val X" using True neg unfolding T(3) X_def Y_def by (simp add: D algebra_simps)
        moreover have "?p < 0" using True neg by (simp add: mult_pos_neg)
        ultimately show ?thesis
          using subtract_top [OF assms(2) T(2) XY(1)] by (simp add: switch_result_def s)
      next
        case gt: False
        with neg False have s: "switch_value A B n = 4" unfolding sv by (auto simp: sign_of_def)
        have "val T = ?p + ?M * val Y" using gt neg False unfolding T(3) X_def Y_def by (auto simp: D algebra_simps)
        moreover have "?p < 0" using gt neg False by (auto simp: mult_neg_pos)
        ultimately show ?thesis
          using subtract_top [OF assms(2) T(2) XY(2)] by (simp add: switch_result_def s)
      qed
    next
      case pos: False
      then have "switch_value A B n \<in> {-2, 2}" using False unfolding sv by (auto simp: sign_of_def)
      moreover have "val T = ?p" using pos False unfolding T(3) X_def Y_def by (auto simp: D algebra_simps)
      ultimately show ?thesis using T(2) by (auto simp: switch_result_def)
    qed
    then show ?thesis
      by (intro exI [of _ "fst (switch_result A B n X Y T)"] exI [of _ "snd (switch_result A B n X Y T)"]) (auto simp: op T(1))
  qed
qed

subsection \<open>The product\<close>

lemma product_less: "0 \<le> x \<Longrightarrow> x < M \<Longrightarrow> 0 \<le> y \<Longrightarrow> y < M \<Longrightarrow> x * y < M * M" for x y M :: int
  by (meson mult_strict_mono' less_imp_le)

text \<open>A number with the digits \<open>x\<close> and \<open>c\<close> in base \<open>M\<close>.\<close>

lemma digit_range:
  fixes x c M k :: int
  assumes "0 \<le> x" and "x < M" and "0 \<le> x + M * c" and "x + M * c < M * k"
  shows "0 \<le> c" and "c < k"
proof -
  have M: "0 < M" using assms(1,2) by linarith
  have "0 < M * (c + 1)" using assms(2,3) by (simp add: distrib_left)
  then have "0 < c + 1" using M by (simp add: zero_less_mult_iff)
  then show "0 \<le> c" by simp
  have "M * c < M * k" using assms(1,4) by linarith
  then show "c < k" using M by simp
qed

lemma uint_of_small: "0 \<le> c \<Longrightarrow> c \<le> 3 \<Longrightarrow> uint (word_of_int c :: u64) = c"
  by (simp add: uint_word_of_int)

lemma multiply_end_ok:
  fixes a0 a1 b0 b1 :: int
  assumes n: "even n" "0 < n" and l: "length T = 2 * n" "length R01 = 2 * n" "length R23 = 2 * n"
    and r: "0 \<le> a0" "a0 < W ^ n" "0 \<le> a1" "a1 < W ^ n" "0 \<le> b0" "b0 < W ^ n" "0 \<le> b1" "b1 < W ^ n"
    and v: "val T + W ^ n * W ^ n * c = (a1 - a0) * (b0 - b1)" "val R01 = a0 * b0" "val R23 = a1 * b1"
  shows "\<exists>R. multiply_end (2 * n) (Some (T, c)) (Some R01) (Some R23) = Some R \<and> length R = 4 * n \<and>
    val R = (a0 + W ^ n * a1) * (b0 + W ^ n * b1)"
proof -
  define M where "M = W ^ n"
  have M: "0 < M" and MM: "W ^ (2 * n) = M * M" by (simp_all add: M_def mult_2 power_add)
  have ev: "even (2 * n)" by simp
  obtain T1 c1 where T1: "Add T R01 = (T1, c1)" by fastforce
  note v1 = Add_val [of T R01, unfolded l, OF ev refl T1, unfolded MM]
  obtain T2 c2 where T2: "Add T1 R23 = (T2, c2)" by fastforce
  note v2 = Add_val [of T1 R23, unfolded l v1 [THEN conjunct1], OF ev refl T2, unfolded MM]
  define R1 where "R1 = take (2 * n) (drop n (R01 @ R23))"
  have R1: "R1 = drop n R01 @ take n R23" using l by (simp add: R1_def mult_2)
  then have lR1: "length R1 = 2 * n" "length (drop n R01) = n" using l by simp_all
  obtain R12 c3 where R12: "Add R1 T2 = (R12, c3)" by fastforce
  note v3 = Add_val [of R1 T2, unfolded lR1 v2 [THEN conjunct1], OF ev refl R12, unfolded MM]
  define r0 r1 r2 r3 where d: "r0 = val (take n R01)" "r1 = val (drop n R01)" "r2 = val (take n R23)" "r3 = val (drop n R23)"
  have h: "a0 * b0 = r0 + M * r1" "a1 * b1 = r2 + M * r3"
    using val_halves [of n R01] val_halves [of n R23] l by (simp_all add: d M_def v(2,3))
  have rr: "0 \<le> r0" "0 \<le> r1" "r1 < M" "0 \<le> r2" "r2 < M" "0 \<le> r3"
    using val_range [of "drop n R01" n] val_range [of "take n R23" n] l by (simp_all add: d M_def)
  define carry where "carry = c + uint c1 + uint c2 + uint c3"
  have mid: "val T2 + M * M * (c + uint c1 + uint c2) = a1 * b0 + a0 * b1"
  proof -
    have "val T2 + M * M * (c + uint c1 + uint c2) = (val T + M * M * c) + val R01 + val R23"
      using v1 v2 by (simp add: algebra_simps)
    also have "\<dots> = a1 * b0 + a0 * b1" unfolding v [folded M_def] by (simp add: algebra_simps)
    finally show ?thesis .
  qed
  have "val R1 = r1 + M * r2" using lR1 by (simp add: R1 d M_def)
  with v3 mid have e: "val R12 + M * M * carry = r1 + M * r2 + (a1 * b0 + a0 * b1)"
    by (simp add: carry_def algebra_simps)
  have rM: "r1 + M * r2 < M * M"
  proof -
    have "M * (r2 + 1) \<le> M * M" using rr M by (intro mult_left_mono) auto
    then show ?thesis using rr by (simp add: distrib_left)
  qed
  have pos: "0 \<le> a1 * b0" "0 \<le> a0 * b1" "0 \<le> M * r2" using r rr M by simp_all
  have lt: "a1 * b0 < M * M" "a0 * b1 < M * M" using r product_less unfolding M_def by blast+
  have R12r: "0 \<le> val R12" "val R12 < M * M" using val_range [of R12 "2 * n"] v3 MM by simp_all
  have cr: "0 \<le> carry" "carry < 3"
    using digit_range [OF R12r, of carry 3] unfolding e using rM pos lt rr by linarith+
  define R3 where "R3 = drop n R23"
  have R3: "R3 \<noteq> []" "length R3 = n" using l n by (auto simp: R3_def)
  let ?R = "take n R01 @ R12 @ fst (Increment R3 (word_of_int carry))"
  have dr: "drop (2 * n + n) (R01 @ R23) = R3" "take n (R01 @ R23) = take n R01" using l by (simp_all add: R3_def)
  have "multiply_end (2 * n) (Some (T, c)) (Some R01) (Some R23) = Some ?R"
    using cr l R12 dr unfolding R1 carry_def by (simp add: multiply_end_def T1 T2)
  moreover have len: "length ?R = 4 * n" using l R3 v3 by (simp add: Increment_mod)
  moreover have "val ?R = (a0 + M * a1) * (b0 + M * b1)"
  proof -
    obtain I i where I: "Increment R3 (word_of_int carry) = (I, i)" by fastforce
    note v4 = Increment_val [OF R3(1) I, unfolded R3(2), folded M_def]
    have "val ?R = r0 + M * (val R12 + M * M * (r3 + carry - M * uint i))"
    proof -
      have "uint (word_of_int carry :: u64) = carry" using cr by (intro uint_of_small) simp_all
      then have "val I = r3 + carry - M * uint i" using v4 by (simp add: d R3_def)
      then show ?thesis using v3 l(2) MM by (simp add: I d flip: M_def)
    qed
    also have "\<dots> = r0 + M * (val R12 + M * M * carry) + M * M * M * r3 - M * M * M * M * uint i"
      by (simp add: algebra_simps)
    also have "\<dots> = (r0 + M * r1) + M * (a1 * b0 + a0 * b1) + M * M * (r2 + M * r3) - M * M * M * M * uint i"
      unfolding e by (simp add: algebra_simps)
    also have "\<dots> = (a0 + M * a1) * (b0 + M * b1) - M * M * M * M * uint i"
      unfolding h [symmetric] by (simp add: algebra_simps)
    finally have *: "val ?R = (a0 + M * a1) * (b0 + M * b1) + W ^ length ?R * (- uint i)"
      unfolding len by (simp add: M_def mult.assoc flip: power_add)
    have "a0 + M * a1 < M * M" "b0 + M * b1 < M * M"
    proof -
      have "M * (a1 + 1) \<le> M * M" "M * (b1 + 1) \<le> M * M" using r M by (auto intro!: mult_left_mono simp: M_def)
      then show "a0 + M * a1 < M * M" "b0 + M * b1 < M * M" using r by (simp_all add: M_def distrib_left)
    qed
    then have "(a0 + M * a1) * (b0 + M * b1) < (M * M) * (M * M)" using r M by (intro product_less) simp_all
    moreover have "W ^ (4 * n) = (M * M) * (M * M)" by (simp add: M_def mult.assoc flip: power_add)
    moreover have "0 \<le> (a0 + M * a1) * (b0 + M * b1)" using r M by simp
    ultimately show ?thesis using val_mod [OF *] unfolding len by simp
  qed
  ultimately show ?thesis unfolding M_def by blast
qed

lemma multiplies_double:
  assumes "multiplies n" and "even n" and "4 < n"
  shows "multiplies (2 * n)"
  unfolding multiplies_def
proof (intro allI impI)
  fix A B :: "u64 list"
  assume l: "length A = 2 * n" "length B = 2 * n"
  then have s: "length (take n A) = n" "length (drop n A) = n" "length (take n B) = n" "length (drop n B) = n" by simp_all
  have n: "0 < n" and half: "2 * n div 2 = n" using assms(3) by simp_all
  obtain T c where T: "(case switch_operands A B n of None \<Rightarrow> Some (SetWords 0 (2 * n), 0)
        | Some (R0, R1) \<Rightarrow> map_option (switch_result A B n R0 R1) (RecursiveMultiply R0 R1 n)) = Some (T, c)"
      "length T = 2 * n" "val T + W ^ n * W ^ n * c = (val (drop n A) - val (take n A)) * (val (take n B) - val (drop n B))"
    using switch_ok [OF assms(1,2) n l] by blast
  obtain R01 where R01: "RecursiveMultiply (take n A) (take n B) n = Some R01" "length R01 = 2 * n" "val R01 = val (take n A) * val (take n B)"
    using multipliesD [OF assms(1) s(1,3)] by blast
  obtain R23 where R23: "RecursiveMultiply (drop n A) (drop n B) n = Some R23" "length R23 = 2 * n" "val R23 = val (drop n A) * val (drop n B)"
    using multipliesD [OF assms(1) s(2,4)] by blast
  have "RecursiveMultiply A B (2 * n) = multiply_end (2 * n) (Some (T, c)) (Some R01) (Some R23)"
    using assms(3) R01(1) R23(1) by (subst RecursiveMultiply.simps, unfold half T(1)) simp
  moreover note multiply_end_ok [OF assms(2) n T(2) R01(2) R23(2) val_range [OF s(1)] val_range [OF s(2)]
      val_range [OF s(3)] val_range [OF s(4)] T(3) R01(3) R23(3)]
  moreover have "val A = val (take n A) + W ^ n * val (drop n A)" "val B = val (take n B) + W ^ n * val (drop n B)"
    using l by (intro val_halves; simp)+
  ultimately show "\<exists>R. RecursiveMultiply A B (2 * n) = Some R \<and> length R = 2 * (2 * n) \<and> val R = val A * val B"
    by (metis mult_2 add.assoc mult.assoc numeral_Bit0)
qed

lemma multiplies_power: "0 < k \<Longrightarrow> multiplies (2 ^ k)"
proof (induction k)
  case (Suc k)
  consider "k = 0" | "k = 1" | "k = 2" | "2 < k" by linarith
  then show ?case
  proof cases
    case 4
    have "4 < (2::nat) ^ k" using power_strict_increasing [OF 4, of "2::nat"] by simp
    then show ?thesis using multiplies_double [of "2 ^ k"] Suc 4 by simp
  qed (auto simp: multiplies_def RecursiveMultiply.simps Multiply2_val Multiply4_val Multiply8_val)
qed simp

subsection \<open>The square\<close>

definition squares :: "nat \<Rightarrow> bool" where
  "squares n \<longleftrightarrow> (\<forall>A. length A = n \<longrightarrow>
     (\<exists>R. RecursiveSquare A n = Some R \<and> length R = 2 * n \<and> val R = val A * val A))"

lemma squaresD: "squares n \<Longrightarrow> length A = n \<Longrightarrow>
   \<exists>R. RecursiveSquare A n = Some R \<and> length R = 2 * n \<and> val R = val A * val A"
  by (simp add: squares_def)

lemma square_end_ok:
  fixes a0 a1 :: int
  assumes n: "even n" "0 < n" and l: "length T = 2 * n" "length R01 = 2 * n" "length R23 = 2 * n"
    and r: "0 \<le> a0" "a0 < W ^ n" "0 \<le> a1" "a1 < W ^ n"
    and v: "val T = a0 * a1" "val R01 = a0 * a0" "val R23 = a1 * a1"
  shows "length (square_end (2 * n) R01 R23 T) = 4 * n \<and>
    val (square_end (2 * n) R01 R23 T) = (a0 + W ^ n * a1) * (a0 + W ^ n * a1)"
proof -
  define M where "M = W ^ n"
  have M: "0 < M" and MM: "W ^ (2 * n) = M * M" by (simp_all add: M_def mult_2 power_add)
  have ev: "even (2 * n)" by simp
  define R1 where "R1 = drop n R01 @ take n R23"
  then have lR1: "length R1 = 2 * n" "length (drop n R01) = n" using l by simp_all
  obtain X c1 where X: "Add R1 T = (X, c1)" by fastforce
  note v1 = Add_val [of R1 T, unfolded l lR1, OF ev refl X, unfolded MM]
  obtain Y c2 where Y: "Add X T = (Y, c2)" by fastforce
  note v2 = Add_val [of X T, unfolded l v1 [THEN conjunct1], OF ev refl Y, unfolded MM]
  define R3 where "R3 = drop n R23"
  have R3: "R3 \<noteq> []" "length R3 = n" using l n by (auto simp: R3_def)
  obtain I i where I: "Increment R3 (c1 + c2) = (I, i)" by fastforce
  note v4 = Increment_val [OF R3(1) I, unfolded R3(2), folded M_def]
  have carry: "uint (c1 + c2) = uint c1 + uint c2"
    using v1 v2 uint_W(1) [of c1] uint_W(1) [of c2] by (simp add: uint_word_ariths mod_pos_pos_trivial)
  have vR1: "val R1 = val (drop n R01) + M * val (take n R23)" using lR1 by (simp add: R1_def M_def)
  have R: "square_end (2 * n) R01 R23 T = take n R01 @ Y @ I"
    using l X I R3_def unfolding R1_def by (simp add: square_end_def Y)
  have len: "length (take n R01 @ Y @ I) = 4 * n" using l v2 v4 by simp
  have vI: "val I = val R3 + uint c1 + uint c2 - M * uint i" using v4 carry by simp
  have vY: "val Y = val (drop n R01) + M * val (take n R23) + 2 * (a0 * a1) - M * M * (uint c1 + uint c2)"
    using v1 v2 vR1 v(1) by (simp add: algebra_simps)
  have h: "a0 * a0 = val (take n R01) + M * val (drop n R01)" "a1 * a1 = val (take n R23) + M * val R3"
    using val_halves [of n R01] val_halves [of n R23] l by (simp_all add: M_def v(2,3) R3_def)
  have "val (take n R01 @ Y @ I) = val (take n R01) + M * (val Y + M * M * val I)"
    using l v2 MM by (simp flip: M_def)
  also have "\<dots> = (val (take n R01) + M * val (drop n R01)) + 2 * M * (a0 * a1) + M * M * (val (take n R23) + M * val R3) - M * M * M * M * uint i"
    unfolding vI vY by (simp add: algebra_simps)
  also have "\<dots> = (a0 + M * a1) * (a0 + M * a1) - M * M * M * M * uint i"
    unfolding h [symmetric] by (simp add: algebra_simps)
  finally have *: "val (take n R01 @ Y @ I) = (a0 + M * a1) * (a0 + M * a1) + W ^ length (take n R01 @ Y @ I) * (- uint i)"
    unfolding len by (simp add: M_def mult.assoc flip: power_add)
  have "M * (a1 + 1) \<le> M * M" using r M by (auto intro!: mult_left_mono simp: M_def)
  then have "a0 + M * a1 < M * M" using r by (simp add: M_def distrib_left)
  then have "(a0 + M * a1) * (a0 + M * a1) < (M * M) * (M * M)" using r M by (intro product_less) simp_all
  moreover have "W ^ (4 * n) = (M * M) * (M * M)" by (simp add: M_def mult.assoc flip: power_add)
  moreover have "0 \<le> (a0 + M * a1) * (a0 + M * a1)" using r M by simp
  ultimately show ?thesis using val_mod [OF *] unfolding len R by (simp add: M_def)
qed

lemma squares_power: "0 < k \<Longrightarrow> squares (2 ^ k)"
proof (induction k)
  case (Suc k)
  consider "k = 0" | "k = 1" | "1 < k" by linarith
  then show ?case
  proof cases
    case 3
    let ?n = "2 ^ k :: nat"
    have n: "even ?n" "0 < ?n" "2 < ?n" using 3 power_strict_increasing [OF 3, of "2::nat"] by simp_all
    have half: "2 ^ Suc k = 2 * ?n" "2 * ?n div 2 = ?n" by simp_all
    show ?thesis unfolding squares_def half(1)
    proof (intro allI impI)
      fix A :: "u64 list"
      assume l: "length A = 2 * ?n"
      then have s: "length (take ?n A) = ?n" "length (drop ?n A) = ?n" by simp_all
      have IH: "squares ?n" using Suc 3 by simp
      obtain R01 where R01: "RecursiveSquare (take ?n A) ?n = Some R01" "length R01 = 2 * ?n" "val R01 = val (take ?n A) * val (take ?n A)"
        using squaresD [OF IH s(1)] by blast
      obtain R23 where R23: "RecursiveSquare (drop ?n A) ?n = Some R23" "length R23 = 2 * ?n" "val R23 = val (drop ?n A) * val (drop ?n A)"
        using squaresD [OF IH s(2)] by blast
      obtain T where T: "RecursiveMultiply (take ?n A) (drop ?n A) ?n = Some T" "length T = 2 * ?n" "val T = val (take ?n A) * val (drop ?n A)"
        using multipliesD [OF multiplies_power s] 3 by auto
      have "RecursiveSquare A (2 * ?n) = Some (square_end (2 * ?n) R01 R23 T)"
        using n R01(1) R23(1) T(1) by (subst RecursiveSquare.simps, unfold half(2)) simp
      moreover note square_end_ok [OF n(1,2) T(2) R01(2) R23(2) val_range [OF s(1)] val_range [OF s(2)] T(3) R01(3) R23(3)]
      moreover have "val A = val (take ?n A) + W ^ ?n * val (drop ?n A)" using l by (intro val_halves) simp
      ultimately show "\<exists>R. RecursiveSquare A (2 * ?n) = Some R \<and> length R = 2 * (2 * ?n) \<and> val R = val A * val A"
        by (metis mult_2 add.assoc mult.assoc numeral_Bit0)
    qed
  qed (auto simp: squares_def RecursiveSquare.simps Square2_val Square4_val)
qed simp

subsection \<open>The lower half\<close>

definition multiplies_bottom :: "nat \<Rightarrow> bool" where
  "multiplies_bottom n \<longleftrightarrow> (\<forall>A B. length A = n \<longrightarrow> length B = n \<longrightarrow>
     (\<exists>R. RecursiveMultiplyBottom A B n = Some R \<and> length R = n \<and> val R = val A * val B mod W ^ n))"

lemma multiplies_bottomD: "multiplies_bottom n \<Longrightarrow> length A = n \<Longrightarrow> length B = n \<Longrightarrow>
   \<exists>R. RecursiveMultiplyBottom A B n = Some R \<and> length R = n \<and> val R = val A * val B mod W ^ n"
  by (simp add: multiplies_bottom_def)

lemma low_product: "(a0 + M * a1) * (b0 + M * b1) mod (M * M) = (a0 * b0 + M * (a1 * b0 mod M) + M * (a0 * b1 mod M)) mod (M * M)"
  for M a0 a1 b0 b1 :: int
proof -
  define p q where "p = a1 * b0" and "q = a0 * b1"
  have "(a0 + M * a1) * (b0 + M * b1) = a0 * b0 + M * p + M * q + M * M * (a1 * b1)" by (simp add: p_def q_def algebra_simps)
  also have "\<dots> = a0 * b0 + M * (M * (p div M) + p mod M) + M * (M * (q div M) + q mod M) + M * M * (a1 * b1)"
    by (simp only: mult_div_mod_eq)
  also have "\<dots> = (a0 * b0 + M * (p mod M) + M * (q mod M)) + M * M * (p div M + q div M + a1 * b1)"
    by (simp only: distrib_left mult.assoc add.assoc add.left_commute)
  finally show ?thesis unfolding p_def [symmetric] q_def [symmetric] by simp
qed

lemma multiplies_bottom_power: "0 < k \<Longrightarrow> multiplies_bottom (2 ^ k)"
proof (induction k)
  case (Suc k)
  consider "k = 0" | "k = 1" | "k = 2" | "2 < k" by linarith
  then show ?case
  proof cases
    case 4
    let ?n = "2 ^ k :: nat"
    have n: "even ?n" "0 < ?n" "4 < ?n" using 4 power_strict_increasing [OF 4, of "2::nat"] by simp_all
    have half: "2 ^ Suc k = 2 * ?n" "2 * ?n div 2 = ?n" by simp_all
    show ?thesis unfolding multiplies_bottom_def half(1)
    proof (intro allI impI)
      fix A B :: "u64 list"
      assume l: "length A = 2 * ?n" "length B = 2 * ?n"
      let ?A0 = "take ?n A" and ?A1 = "drop ?n A" and ?B0 = "take ?n B" and ?B1 = "drop ?n B" and ?M = "W ^ ?n"
      have s: "length ?A0 = ?n" "length ?A1 = ?n" "length ?B0 = ?n" "length ?B1 = ?n" using l by simp_all
      have IH: "multiplies_bottom ?n" using Suc 4 by simp
      obtain R where R: "RecursiveMultiply ?A0 ?B0 ?n = Some R" "length R = 2 * ?n" "val R = val ?A0 * val ?B0"
        using multipliesD [OF multiplies_power s(1,3)] 4 by auto
      obtain X where X: "RecursiveMultiplyBottom ?A1 ?B0 ?n = Some X" "length X = ?n" "val X = val ?A1 * val ?B0 mod ?M"
        using multiplies_bottomD [OF IH s(2,3)] by blast
      obtain Y where Y: "RecursiveMultiplyBottom ?A0 ?B1 ?n = Some Y" "length Y = ?n" "val Y = val ?A0 * val ?B1 mod ?M"
        using multiplies_bottomD [OF IH s(1,4)] by blast
      let ?S = "fst (Add (drop ?n R) X)" and ?Z = "fst (Add (fst (Add (drop ?n R) X)) Y)"
      have ld: "length (drop ?n R) = ?n" using R(2) by simp
      have S: "length ?S = ?n" "val ?S = (val (drop ?n R) + val X) mod ?M"
        using Add_mod [of "drop ?n R" X, unfolded ld X(2), OF n(1) refl] by simp_all
      have Z: "length ?Z = ?n" "val ?Z = (val (drop ?n R) + val X + val Y) mod ?M"
        using Add_mod [of ?S Y] S Y(2) n by (simp_all add: mod_simps)
      have R': "RecursiveMultiplyBottom A B (2 * ?n) = Some (take ?n R @ ?Z)"
        using n R(1) X(1) Y(1) by (subst RecursiveMultiplyBottom.simps, unfold half(2)) simp
      define q where "q = (val (drop ?n R) + val X + val Y) div ?M"
      have "val ?Z = val (drop ?n R) + val X + val Y - ?M * q" unfolding Z(2) q_def by (rule minus_mult_div_eq_mod [symmetric])
      then have "val (take ?n R @ ?Z) = val (take ?n R) + ?M * (val (drop ?n R) + val X + val Y - ?M * q)"
        using R(2) by simp
      also have "\<dots> = val R + ?M * val X + ?M * val Y + W ^ length (take ?n R @ ?Z) * (- q)"
        using val_halves [of ?n R] R(2) Z(1) by (simp add: algebra_simps power_add)
      finally have "val (take ?n R @ ?Z) = (val R + ?M * val X + ?M * val Y) mod W ^ length (take ?n R @ ?Z)" by (rule val_mod)
      also have "\<dots> = val A * val B mod (?M * ?M)"
        using low_product [of "val ?A0" ?M "val ?A1" "val ?B0" "val ?B1"] R(2) Z(1) val_halves [of ?n A] val_halves [of ?n B] l
        by (simp add: R(3) X(3) Y(3) power_add)
      finally show "\<exists>R. RecursiveMultiplyBottom A B (2 * ?n) = Some R \<and> length R = 2 * ?n \<and> val R = val A * val B mod W ^ (2 * ?n)"
        using R' R(2) Z(1) by (simp add: mult_2 power_add)
    qed
  qed (auto simp: multiplies_bottom_def RecursiveMultiplyBottom.simps Multiply2Bottom_val Multiply4Bottom_val Multiply8Bottom_val)
qed simp

subsection \<open>The upper half\<close>

lemma mod_unique: "x = y + M * k \<Longrightarrow> 0 \<le> x \<Longrightarrow> x < M \<Longrightarrow> x = y mod M" for x y M k :: int
  by (metis mod_mult_self2 mod_pos_pos_trivial)

text \<open>The arithmetic of the upper half: \<open>l0\<close>, \<open>l1\<close> are the digits of the lower half of the product,
  \<open>t0\<close>, \<open>t1\<close> and \<open>c\<close> those of the product of the differences, \<open>t2\<close>, \<open>t3\<close> those of the product of
  the upper halves, and \<open>r\<close> is what the two subtractions leave, with the borrow \<open>c2\<close>.\<close>

lemma top_arith:
  fixes a0 a1 b0 b1 M :: int
  assumes M: "0 < M" and ra: "0 \<le> a0" "a0 < M" "0 \<le> a1" "a1 < M" and rb: "0 \<le> b0" "b0 < M" "0 \<le> b1" "b1 < M"
    and ab: "(a0 + M * a1) * (b0 + M * b1) = l0 + M * l1 + M * M * u" and l: "0 \<le> l0" "l0 < M" "0 \<le> l1" "l1 < M"
    and T: "t0 + M * t1 + M * M * c = (a1 - a0) * (b0 - b1)" "0 \<le> t0" "t0 < M" "0 \<le> t1" "t1 < M" "c = 0 \<or> c = - 1"
    and Q: "t2 + M * t3 = a1 * b1" "0 \<le> t2" "t2 < M" "0 \<le> t3" "t3 < M"
    and R: "r = l1 - l0 - t0 + M * c2" "0 \<le> r" "r < M" and t: "t = (if r < t2 then 1 else 0)"
  shows "u = (r + c2 + t + t1 + t3) + M * (c + t + t3)"
    and "0 \<le> r + c2 + t + t1 + t3 + M * (c + t)" and "r + c2 + t + t1 + t3 + M * (c + t) < M * 3"
proof -
  have P: "0 \<le> a0 * b0" "a0 * b0 < M * M" using ra rb product_less by simp_all
  define p0 p1 where p: "p0 = a0 * b0 mod M" "p1 = a0 * b0 div M"
  have "a0 * b0 = p0 + M * p1" unfolding p by (rule mod_mult_div_eq [symmetric])
  moreover have "0 \<le> p0" "p0 < M" using M by (simp_all add: p)
  ultimately have p0: "a0 * b0 = p0 + M * p1" "0 \<le> p0" "p0 < M" by blast+
  have "0 \<le> p0 + M * p1" "p0 + M * p1 < M * M" using P p0(1) by simp_all
  note p1 = digit_range [OF p0(2,3) this]
  have E: "(a0 + M * a1) * (b0 + M * b1) = p0 + M * (p1 + (t0 + M * t1 + M * M * c) + (p0 + M * p1) + (t2 + M * t3)) + M * M * (t2 + M * t3)"
  proof -
    have "(a0 + M * a1) * (b0 + M * b1) = (p0 + M * p1) + M * ((t0 + M * t1 + M * M * c) + (p0 + M * p1) + (t2 + M * t3)) + M * M * (t2 + M * t3)"
      unfolding T(1) Q(1) p0(1) [symmetric] by (simp add: algebra_simps)
    then show ?thesis by (simp add: distrib_left)
  qed
  have l0: "l0 = p0"
  proof -
    have "l0 = p0 + M * (p1 + (t0 + M * t1 + M * M * c) + (p0 + M * p1) + (t2 + M * t3) + M * (t2 + M * t3) - l1 - M * u)"
      using E unfolding ab by (simp add: algebra_simps)
    from mod_unique [OF this l(1,2)] show ?thesis using p0 by simp
  qed
  have "M * (l1 + M * u) = M * (p1 + (t0 + M * t1 + M * M * c) + (p0 + M * p1) + (t2 + M * t3) + M * (t2 + M * t3))"
    using E unfolding ab l0 by (simp add: algebra_simps)
  then have E1: "l1 + M * u = p1 + (t0 + M * t1 + M * M * c) + (p0 + M * p1) + (t2 + M * t3) + M * (t2 + M * t3)"
    using M by simp
  define k where "k = c2 + t1 + M * c + p1 + t3 + (t2 + M * t3) - u"
  have k: "r = p1 + t2 + M * k" using E1 unfolding R(1) l0 k_def by (simp add: algebra_simps)
  have kt: "k = - t"
  proof -
    have "M * k < M * 1" using k R(2,3) p1 Q(2) by linarith
    then have "k < 1" using mult_less_cancel_left_pos [OF M, of k 1] by blast
    moreover have "M * (- 2) < M * k" using k R(2,3) p1 Q(3) by linarith
    then have "- 2 < k" using mult_less_cancel_left_pos [OF M, of "- 2" k] by blast
    ultimately have "k = 0 \<or> k = - 1" by linarith
    then show ?thesis
    proof
      assume "k = 0"
      then show ?thesis using k p1 by (simp add: t)
    next
      assume "k = - 1"
      then show ?thesis using k p1 by (simp add: t)
    qed
  qed
  show u: "u = (r + c2 + t + t1 + t3) + M * (c + t + t3)"
  proof -
    have u: "u = c2 + t1 + M * c + p1 + t3 + (t2 + M * t3) + t" using k_def kt by linarith
    have r: "r = p1 + t2 - M * t" using k kt by simp
    show ?thesis unfolding u r by (simp add: algebra_simps)
  qed
  define x where "x = c2 + t + p1 + t1 + t3"
  have mid: "a1 * b0 + a0 * b1 + p1 = l1 + M * x + M * (M * c)"
  proof -
    have "a1 * b0 + a0 * b1 + p1 = (t0 + M * t1 + M * M * c) + (p0 + M * p1) + (t2 + M * t3) + p1"
      unfolding T(1) Q(1) p0(1) [symmetric] by (simp add: algebra_simps)
    also have "\<dots> = l0 + t0 + r - M * k + M * (t1 + p1 + t3) + M * (M * c)" unfolding k l0 by (simp add: algebra_simps)
    also have "\<dots> = l1 + M * x + M * (M * c)" unfolding kt R(1) x_def by (simp add: algebra_simps)
    finally show ?thesis .
  qed
  have y: "r + c2 + t + t1 + t3 + M * (c + t) = (x + M * c) + t2"
    using k unfolding kt x_def by (simp add: algebra_simps)
  have "0 \<le> a1 * b0" "0 \<le> a0 * b1" using ra rb by simp_all
  then have "0 \<le> l1 + M * x + M * (M * c)" using mid p1 by linarith
  then have "0 < M * (x + M * c + 1)" using l by (simp add: distrib_left)
  then have "0 \<le> x + M * c" using M by (simp add: zero_less_mult_iff)
  then show "0 \<le> r + c2 + t + t1 + t3 + M * (c + t)" unfolding y using Q by simp
  have "a1 * b0 \<le> (M - 1) * (M - 1)" "a0 * b1 \<le> (M - 1) * (M - 1)" using ra rb by (intro mult_mono; simp)+
  then have "l1 + M * (x + M * c) \<le> 2 * ((M - 1) * (M - 1)) + (M - 1)" using mid p1 by (simp add: distrib_left)
  then have "M * (x + M * c) < M * (2 * M - 2 + 1)" using l M by (simp add: algebra_simps)
  then have "x + M * c < 2 * M - 2 + 1" using mult_less_cancel_left_pos [OF M] by blast
  then show "r + c2 + t + t1 + t3 + M * (c + t) < M * 3" unfolding y using Q by simp
qed

lemma top_ok:
  assumes mult: "multiplies n" and n: "even n" "2 < n" and l: "length A = 2 * n" "length B = 2 * n" "length L = 2 * n"
    and L: "val L = val A * val B mod W ^ (2 * n)"
  shows "\<exists>R. RecursiveMultiplyTop L A B (2 * n) = Some R \<and> length R = 2 * n \<and> val R = val A * val B div W ^ (2 * n)"
proof -
  define M where "M = W ^ n"
  have M: "0 < M" and MM: "W ^ (2 * n) = M * M" by (simp_all add: M_def mult_2 power_add)
  have n0: "0 < n" and half: "2 * n div 2 = n" using n by simp_all
  let ?A0 = "take n A" and ?A1 = "drop n A" and ?B0 = "take n B" and ?B1 = "drop n B"
  have s: "length ?A0 = n" "length ?A1 = n" "length ?B0 = n" "length ?B1 = n" using l by simp_all
  obtain T c where T: "(case switch_operands A B n of None \<Rightarrow> Some (SetWords 0 (2 * n), 0)
        | Some (R0, R1) \<Rightarrow> map_option (switch_result A B n R0 R1) (RecursiveMultiply R0 R1 n)) = Some (T, c)"
      "length T = 2 * n" "c = 0 \<or> c = - 1" "val T + M * M * c = (val ?A1 - val ?A0) * (val ?B0 - val ?B1)"
    using switch_ok [OF mult n(1) n0 l(1,2)] unfolding M_def by blast
  obtain Q where Q: "RecursiveMultiply ?A1 ?B1 n = Some Q" "length Q = 2 * n" "val Q = val ?A1 * val ?B1"
    using multipliesD [OF mult s(2,4)] by blast
  define L0 L1 T0 T1 T2 T3 where d: "L0 = take n L" "L1 = drop n L" "T0 = take n T" "T1 = drop n T" "T2 = take n Q" "T3 = drop n Q"
  have ld: "length L0 = n" "length L1 = n" "length T0 = n" "length T1 = n" "length T2 = n" "length T3 = n"
    using l T(2) Q(2) by (simp_all add: d)
  have vd: "val L = val L0 + M * val L1" "val T = val T0 + M * val T1" "val Q = val T2 + M * val T3"
    using l T(2) Q(2) unfolding d M_def by (intro val_halves; simp)+
  obtain X c2 where X: "Subtract L1 L0 = (X, c2)" by fastforce
  note vX = Subtract_val [of L1 L0, unfolded ld, OF n(1) refl X, folded M_def]
  obtain Y c2' where Y: "Subtract X T0 = (Y, c2')" by fastforce
  note vY = Subtract_val [of X T0, unfolded ld vX [THEN conjunct1], OF n(1) refl Y, folded M_def]
  define t where "t = (if Compare Y T2 n = -1 then 1 else 0 :: u64)"
  have tv: "uint t = (if val Y < val T2 then 1 else 0)"
    using compare_val [of n Y T2] vY ld by (simp add: t_def)
  have ct: "uint (c2 + c2' + t) = uint c2 + uint c2' + uint t"
    using vX vY tv uint_W(1) [of c2] uint_W(1) [of c2'] by (simp add: uint_word_ariths mod_pos_pos_trivial mod_simps)
  have Yne: "Y \<noteq> []" using vY n0 by auto
  obtain Z ci where Z: "Increment Y (c2 + c2' + t) = (Z, ci)" by fastforce
  note vZ = Increment_val [OF Yne Z, unfolded vY [THEN conjunct1], folded M_def, unfolded ct]
  obtain U ca where U: "Add Z T1 = (U, ca)" by fastforce
  note vU = Add_val [of Z T1, unfolded ld vZ [THEN conjunct1], OF n(1) refl U, folded M_def]
  obtain V cb where V: "Add U T3 = (V, cb)" by fastforce
  note vV = Add_val [of U T3, unfolded ld vU [THEN conjunct1], OF n(1) refl V, folded M_def]
  define carry where "carry = c + uint t + uint ci + uint ca + uint cb"
  define u where "u = val A * val B div (M * M)"
  have ab: "(val ?A0 + M * val ?A1) * (val ?B0 + M * val ?B1) = val L0 + M * val L1 + M * M * u"
    using val_halves [of n A] val_halves [of n B] l L vd(1) unfolding u_def MM M_def by simp
  have rng: "0 \<le> val K \<and> val K < M" if "length K = n" for K using val_range [OF that] by (simp add: M_def)
  have Tm: "val T0 + M * val T1 + M * M * c = (val ?A1 - val ?A0) * (val ?B0 - val ?B1)" using T(4) vd(2) by simp
  have Qm: "val T2 + M * val T3 = val ?A1 * val ?B1" using Q(3) vd(3) by simp
  have r: "val Y = val L1 - val L0 - val T0 + M * (uint c2 + uint c2')" using vX vY by (simp add: distrib_left)
  note ar = top_arith [OF M rng [OF s(1), THEN conjunct1] rng [OF s(1), THEN conjunct2] rng [OF s(2), THEN conjunct1] rng [OF s(2), THEN conjunct2]
      rng [OF s(3), THEN conjunct1] rng [OF s(3), THEN conjunct2] rng [OF s(4), THEN conjunct1] rng [OF s(4), THEN conjunct2]
      ab rng [OF ld(1), THEN conjunct1] rng [OF ld(1), THEN conjunct2] rng [OF ld(2), THEN conjunct1] rng [OF ld(2), THEN conjunct2]
      Tm rng [OF ld(3), THEN conjunct1] rng [OF ld(3), THEN conjunct2] rng [OF ld(4), THEN conjunct1] rng [OF ld(4), THEN conjunct2] T(3)
      Qm rng [OF ld(5), THEN conjunct1] rng [OF ld(5), THEN conjunct2] rng [OF ld(6), THEN conjunct1] rng [OF ld(6), THEN conjunct2]
      r rng [OF vY [THEN conjunct1], THEN conjunct1] rng [OF vY [THEN conjunct1], THEN conjunct2] tv]
  have sum: "val V + M * carry = val Y + (uint c2 + uint c2') + uint t + val T1 + val T3 + M * (c + uint t)"
    using vZ vU vV unfolding carry_def by (simp add: algebra_simps)
  have Vr: "0 \<le> val V" "val V < M" using rng vV by auto
  have cr: "0 \<le> carry" "carry < 3"
    using digit_range [OF Vr, of carry 3] ar(2,3) unfolding sum by blast+
  have T3: "T3 \<noteq> []" using ld(6) n0 by auto
  define R where "R = V @ fst (Increment T3 (word_of_int carry))"
  have "RecursiveMultiplyTop L A B (2 * n) = Some R"
    unfolding RecursiveMultiplyTop_def half T(1) Let_def
    using n Q(1) X Y Z U V cr by (simp add: R_def carry_def flip: d t_def)
  moreover have lR: "length R = 2 * n" using vV T3 ld by (simp add: R_def Increment_mod)
  moreover have "val R = u"
  proof -
    obtain I i where I: "Increment T3 (word_of_int carry) = (I, i)" by fastforce
    note vI = Increment_val [OF T3 I, unfolded ld, folded M_def]
    have "uint (word_of_int carry :: u64) = carry" using cr by (intro uint_of_small) simp_all
    then have "val R = val V + M * (val T3 + carry - M * uint i)"
      using vI vV by (simp add: R_def I M_def)
    also have "\<dots> = (val V + M * carry) + M * val T3 + M * M * (- uint i)" by (simp add: algebra_simps)
    also have "\<dots> = u + M * M * (- uint i)" unfolding sum ar(1) by (simp add: algebra_simps)
    finally have *: "val R = u + W ^ length R * (- uint i)" unfolding lR MM .
    have "0 \<le> u" using M by (simp add: u_def pos_imp_zdiv_nonneg_iff)
    moreover have "u < W ^ length R"
    proof -
      have "val A * val B < (M * M) * (M * M)"
        using val_range [OF l(1)] val_range [OF l(2)] product_less unfolding MM by blast
      then show ?thesis unfolding u_def lR MM
        using M digit_range(2) [of "val A * val B mod (M * M)" "M * M" "val A * val B div (M * M)" "M * M"] by simp
    qed
    ultimately show ?thesis using val_mod [OF *] by simp
  qed
  ultimately show ?thesis unfolding u_def MM by blast
qed

lemma multiplies_top_power:
  assumes "0 < k" and "length A = 2 ^ k" and "length B = 2 ^ k" and "length L = 2 ^ k"
    and "val L = val A * val B mod W ^ 2 ^ k"
  shows "\<exists>R. RecursiveMultiplyTop L A B (2 ^ k) = Some R \<and> length R = 2 ^ k \<and> val R = val A * val B div W ^ 2 ^ k"
proof -
  have upper: "val (drop n P) = val P div W ^ n" if "length P = 2 * n" for P n
  proof -
    have "val P = val (take n P) + W ^ n * val (drop n P)" using that by (intro val_halves) simp
    moreover have "val (take n P) div W ^ n = 0" using val_range [of "take n P" n] that by (simp add: div_pos_pos_trivial)
    ultimately show ?thesis by simp
  qed
  consider "k = 1" | "k = 2" | "2 < k" using assms(1) by linarith
  then show ?thesis
  proof cases
    case 1
    then show ?thesis using assms Multiply2_val [of A B] upper [of "Multiply2 A B" 2] by (simp add: RecursiveMultiplyTop_def)
  next
    case 2
    then show ?thesis using assms Multiply4_val [of A B] upper [of "Multiply4 A B" 4] by (simp add: RecursiveMultiplyTop_def)
  next
    case 3
    define n where "n = (2::nat) ^ (k - 1)"
    have k: "(2::nat) ^ k = 2 * n" using 3 by (simp add: n_def flip: power_Suc)
    have "(2::nat) ^ 1 < 2 ^ (k - 1)" using 3 by (intro power_strict_increasing) auto
    then have n: "even n" "2 < n" using 3 by (simp_all add: n_def)
    have "multiplies n" unfolding n_def using 3 by (intro multiplies_power) simp
    from top_ok [OF this n] show ?thesis using assms(2-5) unfolding k by blast
  qed
qed

subsection \<open>Factors of two lengths\<close>

text \<open>Every second block of a number, from the first.\<close>

function even_blocks :: "nat \<Rightarrow> u64 list \<Rightarrow> int" where
  "even_blocks n B = (if B = [] \<or> n = 0 then 0 else val (take n B) + W ^ n * W ^ n * even_blocks n (drop (2 * n) B))"
  by pat_completeness auto
termination
  by (relation "measure (\<lambda>(n, B). length B)") auto

declare even_blocks.simps [simp del]

lemma even_blocks_Nil [simp]: "even_blocks n [] = 0"
  by (simp add: even_blocks.simps)

lemma even_blocks_step: "0 < n \<Longrightarrow> B \<noteq> [] \<Longrightarrow>
   even_blocks n B = val (take n B) + W ^ n * W ^ n * even_blocks n (drop (2 * n) B)"
  by (subst even_blocks.simps) simp

lemma blocks_split:
  assumes "0 < n"
  shows "length B = n * m \<Longrightarrow> val B = even_blocks n B + W ^ n * even_blocks n (drop n B)"
proof (induction m arbitrary: B)
  case (Suc m)
  then have B: "B \<noteq> []" "n \<le> length B" "length (drop n B) = n * m" using assms by auto
  have "val B = val (take n B) + W ^ n * (even_blocks n (drop n B) + W ^ n * even_blocks n (drop n (drop n B)))"
    using val_halves [OF B(2)] Suc.IH [OF B(3)] by simp
  also have "drop n (drop n B) = drop (2 * n) B" by (simp add: mult_2)
  finally show ?case unfolding even_blocks_step [OF assms B(1)] by (simp add: algebra_simps)
qed simp

lemma multiply_blocks_ok:
  assumes "multiplies n" and "0 < n" and "length A = n"
  shows "length B = n * m \<Longrightarrow> \<exists>P. multiply_blocks A B n = Some P \<and> val P = val A * even_blocks n B \<and>
    length P = n * (if even m then m else m + 1)"
proof (induction m arbitrary: B rule: less_induct)
  case (less m)
  show ?case
  proof (cases "m = 0")
    case True
    then show ?thesis using less.prems by (simp add: multiply_blocks.simps)
  next
    case False
    then have B: "B \<noteq> []" "length (take n B) = n" using less.prems assms(2) by auto
    obtain P where P: "RecursiveMultiply A (take n B) n = Some P" "length P = 2 * n" "val P = val A * val (take n B)"
      using multipliesD [OF assms(1,3) B(2)] by blast
    have "length (drop (2 * n) B) = n * (m - 2)" using less.prems by (simp add: diff_mult_distrib2 mult.commute)
    then obtain Q where Q: "multiply_blocks A (drop (2 * n) B) n = Some Q" "val Q = val A * even_blocks n (drop (2 * n) B)"
        "length Q = n * (if even (m - 2) then m - 2 else m - 2 + 1)"
      using less.IH [of "m - 2" "drop (2 * n) B"] False by auto
    have "multiply_blocks A B n = Some (P @ Q)"
      using B(1) assms(2) P(1) Q(1) by (subst multiply_blocks.simps) simp
    moreover have "val (P @ Q) = val P + W ^ n * W ^ n * val Q" by (simp add: P(2) mult_2 power_add)
    then have "val (P @ Q) = val A * even_blocks n B"
      unfolding P(3) Q(2) even_blocks_step [OF assms(2) B(1)] by (simp add: algebra_simps)
    moreover have "length (P @ Q) = n * (if even m then m else m + 1)"
    proof -
      consider "m = 1" | "2 \<le> m" using False by linarith
      then show ?thesis
      proof cases
        case 2
        then obtain j where "m = j + 2" by (metis le_add_diff_inverse2)
        then show ?thesis using P(2) Q(3) by (auto simp: algebra_simps)
      qed (use P(2) Q(3) in simp)
    qed
    ultimately show ?thesis by blast
  qed
qed

lemma asymmetric_short_ok:
  assumes "0 < k" and "length A = 2 ^ k" and "length B = 2 ^ k * (2 * m)" and "0 < m"
  shows "\<exists>R. asymmetric_short A B = Some R \<and> length R = length A + length B \<and> val R = val A * val B"
proof -
  define n where "n = (2::nat) ^ k"
  have n: "0 < n" "even n" "2 \<le> n" using assms(1) power_increasing [of 1 k "2::nat"] by (auto simp: n_def)
  have l: "length A = n" "length B = n * (2 * m)" using assms(2,3) by (simp_all add: n_def)
  have dv: "length B mod length A = 0" "even (length B div length A)" using l n by simp_all
  show ?thesis
  proof (cases "length A = 2 \<and> A ! 1 = 0")
    case True
    then obtain a where A: "A = [a, 0]" using two_words [of A] by auto
    obtain C c where C: "LinearMultiply B a = (C, c)" by fastforce
    note v = LinearMultiply_val [OF C]
    have "length C + 2 = length A + length B \<and> val (C @ [c, 0]) = val A * val B" using v A by (simp add: mult.commute)
    moreover have "val (SetWords 0 (length B + 2)) = 0" by (simp only: SetWords_def val_replicate_0)
    ultimately show ?thesis
      using dv A C by (auto simp: asymmetric_short_def Let_def SetWords_def)
  next
    case False
    have mult: "multiplies n" unfolding n_def using assms(1) by (rule multiplies_power)
    have nB: "n \<le> length B" using l(2) assms(4) by simp
    have tB: "length (take n B) = n" using nB by simp
    obtain R where R: "RecursiveMultiply A (take n B) n = Some R" "length R = 2 * n" "val R = val A * val (take n B)"
      using multipliesD [OF mult l(1) tB] by blast
    have "length (drop (2 * n) B) = n * (2 * (m - 1))" using l(2) by (simp add: diff_mult_distrib2 mult.commute mult.left_commute)
    then obtain T where T: "multiply_blocks A (drop (2 * n) B) n = Some T" "val T = val A * even_blocks n (drop (2 * n) B)"
        "length T = n * (2 * (m - 1))"
      using multiply_blocks_ok [OF mult n(1) l(1)] by fastforce
    have m1: "\<not> even (2 * m - 1)" "2 * m - 1 + 1 = 2 * m" using assms(4) by simp_all
    have "length (drop n B) = n * (2 * m - 1)" using l(2) by (simp add: diff_mult_distrib2 mult.commute)
    from multiply_blocks_ok [OF mult n(1) l(1) this] obtain Q where
      Q: "multiply_blocks A (drop n B) n = Some Q" "val Q = val A * even_blocks n (drop n B)" "length Q = length B"
      unfolding l(2) using m1 by auto
    define j where "j = length B - n"
    have ld: "length (take j Q) = j" "length (drop n R @ T) = j" "length (drop j Q) = n" "even j"
      using R(2) T(3) Q(3) nB assms(4) n(2) l(2) by (auto simp: j_def diff_mult_distrib2 algebra_simps)
    obtain S c where S: "Add (take j Q) (drop n R @ T) = (S, c)" by fastforce
    note vS = Add_val [of "take j Q" "drop n R @ T", unfolded ld(1,2), OF ld(4) refl S]
    define top where "top = (if c \<noteq> 0 then fst (Increment (drop j Q) 1) else drop j Q)"
    have top: "\<exists>i. length top = n \<and> val top + W ^ n * i = val (drop j Q) + uint c"
    proof (cases "c = 0")
      case True
      then show ?thesis using ld(3) by (intro exI [of _ 0]) (simp add: top_def)
    next
      case False
      then have "uint c \<noteq> 0" by (metis uint_0_iff)
      then have "uint c = 1" using vS uint_W(1) [of c] by linarith
      moreover obtain I i where I: "Increment (drop j Q) 1 = (I, i)" by fastforce
      moreover have "drop j Q \<noteq> []" using ld(3) n(1) by (metis less_irrefl list.size(3))
      ultimately show ?thesis using Increment_val [of "drop j Q" 1 I i] ld(3) False by (auto simp: top_def)
    qed
    then obtain i where top: "length top = n" "val top = val (drop j Q) + uint c - W ^ n * i" by (metis add_diff_cancel_right')
    define P where "P = take n R @ S @ top"
    have res: "asymmetric_short A B = Some P"
      using False dv R(1) T(1) Q(1) S unfolding asymmetric_short_def Let_def l(1) by (auto simp: P_def top_def simp flip: j_def)
    have lP: "length P = n + (j + n)" using R(2) vS top(1) by (simp add: P_def)
    have Bne: "B \<noteq> []" using nB n(1) by auto
    have vQ: "val Q = val (take j Q) + W ^ j * val (drop j Q)" using ld(1) by (intro val_halves) (simp add: Q(3) j_def)
    have vR: "val R = val (take n R) + W ^ n * val (drop n R)" using R(2) by (intro val_halves) simp
    have Se: "val S = val (take j Q) + (val (drop n R) + W ^ n * val T) - W ^ j * uint c" using vS R(2) by simp
    have "val P = val (take n R) + W ^ n * (val S + W ^ j * val top)"
      using R(2) vS by (simp add: P_def)
    also have "\<dots> = val R + W ^ n * W ^ n * val T + W ^ n * val Q - W ^ n * W ^ j * W ^ n * i"
      unfolding vR vQ Se top(2) by (simp add: algebra_simps)
    also have "\<dots> = val A * (even_blocks n B + W ^ n * even_blocks n (drop n B)) - W ^ n * W ^ j * W ^ n * i"
      unfolding R(3) T(2) Q(2) even_blocks_step [OF n(1) Bne] by (simp add: algebra_simps)
    finally have "val P = val A * val B + W ^ length P * (- i)"
      using blocks_split [OF n(1) l(2)] unfolding lP by (simp add: power_add)
    from val_mod [OF this] have "val P = val A * val B mod W ^ length P" .
    moreover have "val A * val B < W ^ length P"
    proof -
      have "val A * val B < W ^ n * W ^ length B"
        using val_range [OF l(1)] val_less [of B] by (intro mult_strict_mono') simp_all
      then show ?thesis using nB unfolding lP j_def by (simp flip: power_add)
    qed
    ultimately show ?thesis using res lP nB l(1) by (simp add: j_def)
  qed
qed

text \<open>The product of two numbers whose lengths are as the callers round them: a power of two each,
  from two words on.\<close>

lemma AsymmetricMultiply_ok:
  assumes "0 < j" and "0 < k" and "length A = 2 ^ j" and "length B = 2 ^ k" and "same \<Longrightarrow> A = B"
  shows "\<exists>R. AsymmetricMultiply same A B = Some R \<and> length R = length A + length B \<and> val R = val A * val B"
proof -
  have pow: "\<exists>m. (2::nat) ^ b = 2 ^ a * (2 * m) \<and> 0 < m" if "a < b" for a b :: nat
  proof -
    have "b = a + (1 + (b - a - 1))" using that by simp
    then have "(2::nat) ^ b = 2 ^ a * (2 * 2 ^ (b - a - 1))" by (metis power_add power_one_right)
    then show ?thesis by (intro exI [of _ "2 ^ (b - a - 1)"]) simp
  qed
  consider "j = k" | "j < k" | "k < j" by linarith
  then show ?thesis
  proof cases
    case 1
    show ?thesis
    proof (cases same)
      case True
      then show ?thesis using assms squaresD [OF squares_power [OF assms(1)] assms(3)] 1 by (auto simp: AsymmetricMultiply_def)
    next
      case False
      then show ?thesis using assms multipliesD [OF multiplies_power [OF assms(1)] assms(3), of B] 1 by (auto simp: AsymmetricMultiply_def)
    qed
  next
    case 2
    then have "length A < length B" using assms by simp
    then have "AsymmetricMultiply same A B = asymmetric_short A B" by (simp add: AsymmetricMultiply_def)
    then show ?thesis using asymmetric_short_ok [OF assms(1,3), of B] pow [OF 2] assms(4) by metis
  next
    case 3
    then have "length B < length A" using assms by simp
    then have "AsymmetricMultiply same A B = asymmetric_short B A" by (simp add: AsymmetricMultiply_def)
    then show ?thesis using asymmetric_short_ok [OF assms(2,4), of A] pow [OF 3] assms(3) by (metis add.commute mult.commute)
  qed
qed

text \<open>C16: The product of two arrays whose lengths are powers of two from 2 on is exact, on every branch of
  the recursion (Karatsuba's scheme, the unrolled products, the loops for factors of two lengths), and no
  assertion fails: \<open>AsymmetricMultiply\<close> returns an array as long as both together whose value is the
  product of the values.\<close>

theorem words_product_exact:
  assumes "0 < j" and "0 < k" and "length A = 2 ^ j" and "length B = 2 ^ k"
  shows "\<exists>R. AsymmetricMultiply False A B = Some R \<and> length R = length A + length B \<and> val R = val A * val B"
  using AsymmetricMultiply_ok [OF assms, of False] by simp

theorem words_product_exact_witness:
  "\<exists>R. AsymmetricMultiply False (replicate 32 7) [5, 0, 0, 9] = Some R \<and> length R = 36 \<and>
     val R = val (replicate 32 7) * val [5, 0, 0, 9]"
  using words_product_exact [of 5 2 "replicate 32 7" "[5, 0, 0, 9]"] by simp

text \<open>C34: The half products agree with the full one: \<open>RecursiveMultiplyBottom\<close> gives the lower half of the
  product, and \<open>RecursiveMultiplyTop\<close>, which is given that lower half and never computes it, the upper
  half; together they are what \<open>RecursiveMultiply\<close> returns.\<close>

theorem half_products_agree:
  assumes "0 < k" and "length A = 2 ^ k" and "length B = 2 ^ k"
  shows "\<exists>L H. RecursiveMultiplyBottom A B (2 ^ k) = Some L \<and> RecursiveMultiplyTop L A B (2 ^ k) = Some H \<and>
    RecursiveMultiply A B (2 ^ k) = Some (L @ H)"
proof -
  obtain L where L: "RecursiveMultiplyBottom A B (2 ^ k) = Some L" "length L = 2 ^ k" "val L = val A * val B mod W ^ 2 ^ k"
    using multiplies_bottomD [OF multiplies_bottom_power [OF assms(1)] assms(2,3)] by blast
  obtain H where H: "RecursiveMultiplyTop L A B (2 ^ k) = Some H" "length H = 2 ^ k" "val H = val A * val B div W ^ 2 ^ k"
    using multiplies_top_power [OF assms L(2,3)] by blast
  obtain R where R: "RecursiveMultiply A B (2 ^ k) = Some R" "length R = 2 * 2 ^ k" "val R = val A * val B"
    using multipliesD [OF multiplies_power [OF assms(1)] assms(2,3)] by blast
  have "val (L @ H) = val R" by (simp only: val_append L(2,3) H(3) R(3) mod_mult_div_eq)
  then have "L @ H = R" using L(2) H(2) R(2) by (intro val_inj) simp_all
  then show ?thesis using L(1) H(1) R(1) by blast
qed

theorem half_products_agree_witness:
  "\<exists>L H. RecursiveMultiplyBottom (replicate 16 3) (replicate 16 5) 16 = Some L \<and>
     RecursiveMultiplyTop L (replicate 16 3) (replicate 16 5) 16 = Some H \<and>
     RecursiveMultiply (replicate 16 3) (replicate 16 5) 16 = Some (L @ H)"
  using half_products_agree [of 4 "replicate 16 3" "replicate 16 5"] by simp

end
