(* ===== verification/CPP_Montgomery.thy ===== *)
theory CPP_Montgomery
  imports CPP_Karatsuba
begin

text \<open>
  Arithmetic modulo an odd number, \<^verbatim>\<open>src/src/utils/lib/CryptoPP.cc\<close>: the inverse modulo a power of
  the word (\<open>RecursiveInverseModPower2\<close>), the reduction of Montgomery, and the division and
  multiplication by powers of two modulo \<open>M\<close>. The value \<open>None\<close> is an assertion that fails.
\<close>

section \<open>Operations\<close>

text \<open>The assertions of \<open>MultiplyTop\<close> fail on a length that is not twice an even one; on one word
  or none the C++ function calls itself for ever.\<close>

fun RecursiveInverseModPower2 :: "u64 list \<Rightarrow> nat \<Rightarrow> u64 list option" where
  "RecursiveInverseModPower2 A N =
     (if N < 2 then None
      else if N = 2 then do {
        R \<leftarrow> AtomicInverseModPower2 (A ! 0);
        let T0 = [R, 0];
            T2 = Multiply2Bottom T0 A;
            T2 = TwosComplement T2;
            T2 = fst (Increment T2 2)
        in Some (Multiply2Bottom T0 T2)
      }
      else do {
        R0 \<leftarrow> RecursiveInverseModPower2 (take (N div 2) A) (N div 2);
        R1 \<leftarrow> RecursiveMultiplyTop (1 # SetWords 0 (N div 2 - 1)) R0 (take (N div 2) A) (N div 2);
        T0 \<leftarrow> RecursiveMultiplyBottom R0 (drop (N div 2) A) (N div 2);
        R1 \<leftarrow> RecursiveMultiplyBottom R0 (TwosComplement (fst (Add R1 T0))) (N div 2);
        Some (R0 @ R1)
      })"

declare RecursiveInverseModPower2.simps [simp del]

definition MontgomeryReduce :: "u64 list \<Rightarrow> u64 list \<Rightarrow> u64 list \<Rightarrow> nat \<Rightarrow> u64 list option" where
  "MontgomeryReduce X M U N =
     do {
       R \<leftarrow> RecursiveMultiplyBottom (take N X) U N;
       T \<leftarrow> RecursiveMultiplyTop (take N X) R M N;
       let (T, borrow) = Subtract (drop N X) T;
           (T', carry) = Add T M
       in if carry \<noteq> 0 \<or> borrow = 0 then Some (if borrow \<noteq> 0 then T' else T) else None
     }"

text \<open>The bodies of the two loops, and the loops.\<close>

definition half_mod :: "u64 list \<Rightarrow> u64 list \<Rightarrow> u64 list" where
  "half_mod R M =
     (if R ! 0 mod 2 = 0 then fst (ShiftWordsRightByBits R 1)
      else let (R, carry) = Add R M;
               R = fst (ShiftWordsRightByBits R 1);
               n = length R - 1
           in R[n := R ! n + push_bit 63 carry])"

fun DivideByPower2Mod :: "u64 list \<Rightarrow> nat \<Rightarrow> u64 list \<Rightarrow> u64 list" where
  "DivideByPower2Mod R 0 M = R"
| "DivideByPower2Mod R (Suc k) M = DivideByPower2Mod (half_mod R M) k M"

definition double_mod :: "u64 list \<Rightarrow> u64 list \<Rightarrow> u64 list" where
  "double_mod R M =
     (let (R, carry) = ShiftWordsLeftByBits R 1
      in if carry \<noteq> 0 \<or> Compare R M (length M) \<ge> 0 then fst (Subtract R M) else R)"

fun MultiplyByPower2Mod :: "u64 list \<Rightarrow> nat \<Rightarrow> u64 list \<Rightarrow> u64 list" where
  "MultiplyByPower2Mod R 0 M = R"
| "MultiplyByPower2Mod R (Suc k) M = MultiplyByPower2Mod (double_mod R M) k M"

section \<open>What they compute\<close>

subsection \<open>The inverse modulo a power of the word\<close>

lemma newton_step: "x * a = 1 + M * k \<Longrightarrow> x * (2 - x * a) * a = 1 - M * M * (k * k)" for x a M k :: int
proof -
  assume e: "x * a = 1 + M * k"
  have "x * (2 - x * a) * a = (x * a) * (2 - x * a)" by (simp add: algebra_simps)
  then show ?thesis unfolding e by (simp add: algebra_simps)
qed

lemma lift_step: "r * a0 = 1 + M * h \<Longrightarrow> (r + M * r1) * (a0 + M * a1) = 1 + M * ((h + r * a1) + r1 * a0) + M * M * (r1 * a1)"
  for r r1 a0 a1 M h :: int
proof -
  assume e: "r * a0 = 1 + M * h"
  have "(r + M * r1) * (a0 + M * a1) = r * a0 + M * (r * a1 + r1 * a0) + M * M * (r1 * a1)" by (simp add: algebra_simps)
  then show ?thesis unfolding e by (simp add: algebra_simps)
qed

lemma one_word_inverse: "odd a \<Longrightarrow> \<exists>i k. AtomicInverseModPower2 a = Some i \<and> uint i * uint a = 1 + W * k"
proof -
  assume "odd a"
  then obtain i where i: "AtomicInverseModPower2 a = Some i" "i * a = 1" using AtomicInverse_ok by blast
  have "uint (i * a) = 1" by (simp add: i(2))
  then have "(uint i * uint a) mod W = 1" by (simp add: uint_word_ariths W_def)
  then show ?thesis using i(1) by (metis mod_mult_div_eq)
qed

lemma inverse_mod_ok:
  "0 < k \<Longrightarrow> length A = 2 ^ k \<Longrightarrow> odd (A ! 0) \<Longrightarrow>
   \<exists>R. RecursiveInverseModPower2 A (2 ^ k) = Some R \<and> length R = 2 ^ k \<and> (\<exists>q. val R * val A = 1 + W ^ 2 ^ k * q)"
proof (induction k arbitrary: A)
  case (Suc k)
  show ?case
  proof (cases "k = 0")
    case True
    then obtain a b where A: "A = [a, b]" using Suc.prems two_words [of A] by auto
    have "odd a" using Suc.prems(3) A by simp
    then obtain i j where i: "AtomicInverseModPower2 a = Some i" and j: "uint i * uint a = 1 + W * j" using one_word_inverse by blast
    define P where "P = Multiply2Bottom [i, 0] A"
    have P: "length P = 2" "val P = uint i * val A mod W ^ 2" using Multiply2Bottom_val [of "[i, 0]" A] A by (simp_all add: P_def)
    have Pne: "P \<noteq> []" using P by auto
    define C where "C = TwosComplement P"
    have C: "length C = 2" "val C = (- val P) mod W ^ 2" using TwosComplement_val [OF Pne] P by (simp_all add: C_def)
    have Cne: "C \<noteq> []" using C by auto
    define D where "D = fst (Increment C 2)"
    have D: "length D = 2" "val D = (2 - uint i * val A) mod W ^ 2"
      using Increment_mod [OF Cne, of 2] C P by (simp_all add: D_def mod_simps algebra_simps)
    define R where "R = Multiply2Bottom [i, 0] D"
    have R: "length R = 2" "val R = (uint i * (2 - uint i * val A)) mod W ^ 2"
      using Multiply2Bottom_val [of "[i, 0]" D] D by (simp_all add: R_def mod_simps)
    have "RecursiveInverseModPower2 A (2 ^ Suc k) = Some R"
      using True A by (simp add: RecursiveInverseModPower2.simps [of _ 2] R_def D_def C_def P_def i Let_def)
    moreover have "\<exists>q. val R * val A = 1 + W ^ 2 ^ Suc k * q"
    proof -
      have e: "uint i * val A = 1 + W * (j + uint i * uint b)" using j by (simp add: A algebra_simps)
      obtain m where "val R = uint i * (2 - uint i * val A) - W ^ 2 * m"
        unfolding R(2) by (metis minus_mult_div_eq_mod)
      then have "val R * val A = (uint i * (2 - uint i * val A) * val A) - W ^ 2 * (m * val A)" by (simp only: left_diff_distrib mult.assoc)
      also have "\<dots> = 1 + W ^ 2 * (- ((j + uint i * uint b) * (j + uint i * uint b)) - m * val A)"
        unfolding newton_step [OF e] by (simp add: power2_eq_square right_diff_distrib)
      finally show ?thesis using True by (intro exI) simp
    qed
    ultimately show ?thesis using R(1) True by simp
  next
    case False
    let ?n = "2 ^ k :: nat"
    have half: "2 ^ Suc k = 2 * ?n" "2 * ?n div 2 = ?n" by simp_all
    have n: "even ?n" "2 \<le> ?n" using False power_increasing [of 1 k "2::nat"] by simp_all
    let ?M = "W ^ ?n" and ?A0 = "take ?n A" and ?A1 = "drop ?n A"
    have l: "length ?A0 = ?n" "length ?A1 = ?n" "?A0 ! 0 = A ! 0" using Suc.prems by simp_all
    obtain R h where R: "RecursiveInverseModPower2 ?A0 ?n = Some R" "length R = ?n" "val R * val ?A0 = 1 + ?M * h"
      using Suc.IH [of ?A0] False l Suc.prems by auto
    define L where "L = (1 :: u64) # SetWords 0 (?n - 1)"
    have "1 < ?M" using n W_pos(2) by (simp add: one_less_power)
    then have L: "length L = ?n" "val L = val R * val ?A0 mod ?M"
      using n unfolding R(3) by (simp_all add: L_def SetWords_def mod_pos_pos_trivial)
    obtain H where H: "RecursiveMultiplyTop L R ?A0 ?n = Some H" "length H = ?n" "val H = val R * val ?A0 div ?M"
      using multiplies_top_power [of k R ?A0 L] False R(2) l L by auto
    have Hh: "val H = h" using \<open>1 < ?M\<close> unfolding H(3) R(3) by simp
    have mb: "multiplies_bottom ?n" using False by (intro multiplies_bottom_power) simp
    obtain X where X: "RecursiveMultiplyBottom R ?A1 ?n = Some X" "length X = ?n" "val X = val R * val ?A1 mod ?M"
      using multiplies_bottomD [OF mb R(2) l(2)] by blast
    define C where "C = TwosComplement (fst (Add H X))"
    have S: "length (fst (Add H X)) = ?n" "val (fst (Add H X)) = (val H + val X) mod ?M"
      using Add_mod [of H X] H(2) X(2) n(1) by simp_all
    then have "fst (Add H X) \<noteq> []" using n by auto
    then have C: "length C = ?n" "val C = (- (h + val R * val ?A1)) mod ?M"
      using TwosComplement_val [of "fst (Add H X)"] S by (simp_all add: C_def X(3) Hh mod_simps)
    obtain Y where Y: "RecursiveMultiplyBottom R C ?n = Some Y" "length Y = ?n" "val Y = val R * val C mod ?M"
      using multiplies_bottomD [OF mb R(2) C(1)] by blast
    have "RecursiveInverseModPower2 A (2 * ?n) = Some (R @ Y)"
      using False n(2) R(1) H(1) X(1) Y(1) by (subst RecursiveInverseModPower2.simps, unfold half(2)) (simp add: L_def C_def)
    moreover have "\<exists>q. val (R @ Y) * val A = 1 + W ^ (2 * ?n) * q"
    proof -
      define x where "x = h + val R * val ?A1"
      have "val Y = (val R * - x) mod ?M" unfolding Y(3) C(2) x_def by (simp add: mod_mult_right_eq)
      then obtain m where m: "val Y = val R * - x - ?M * m" by (metis minus_mult_div_eq_mod)
      have "val (R @ Y) * val A = 1 + ?M * (x + val Y * val ?A0) + ?M * ?M * (val Y * val ?A1)"
        using lift_step [OF R(3), of "val Y" "val ?A1"] val_halves [of ?n A] Suc.prems R(2) by (simp add: x_def)
      also have "x + val Y * val ?A0 = x - x * (val R * val ?A0) - ?M * (m * val ?A0)" unfolding m by (simp add: algebra_simps)
      also have "\<dots> = ?M * (- x * h - m * val ?A0)" unfolding R(3) by (simp add: algebra_simps)
      finally have "val (R @ Y) * val A = 1 + ?M * ?M * (- x * h - m * val ?A0 + val Y * val ?A1)" by (simp add: algebra_simps)
      then show ?thesis by (intro exI) (simp add: mult_2 power_add)
    qed
    ultimately show ?thesis unfolding half(1) using R(2) Y(2) by auto
  qed
qed simp

subsection \<open>Montgomery's reduction\<close>

text \<open>The condition \<open>val X < val M * W ^ N\<close> holds for a product of two reduced numbers, and for a
  reduced number itself.\<close>

lemma word_flag: "uint b \<le> 1 \<Longrightarrow> b = 0 \<or> uint b = 1" for b :: u64
proof -
  assume "uint b \<le> 1"
  then have "uint b = 0 \<or> uint b = 1" using uint_W(1) [of b] by linarith
  then show ?thesis by (metis uint_0_iff)
qed

lemma MontgomeryReduce_ok:
  assumes "0 < k" and N: "N = 2 ^ k" and l: "length X = 2 * N" "length M = N" "length U = N"
    and U: "val U * val M = 1 + W ^ N * q" and X: "val X < val M * W ^ N"
  shows "\<exists>R. MontgomeryReduce X M U N = Some R \<and> length R = N \<and> val R < val M \<and>
    (val R * W ^ N) mod val M = val X mod val M"
proof -
  define B where "B = W ^ N"
  have n: "even N" "0 < N" and B: "0 < B" using assms(1) by (simp_all add: N B_def)
  define X0 X1 where d: "X0 = take N X" "X1 = drop N X"
  have lx: "length X0 = N" "length X1 = N" using l(1) by (simp_all add: d)
  have vX: "val X = val X0 + B * val X1" unfolding d B_def using l(1) by (intro val_halves) simp
  have r: "0 \<le> val K \<and> val K < B" if "length K = N" for K using val_range [OF that] by (simp add: B_def)
  obtain R where R: "RecursiveMultiplyBottom X0 U N = Some R" "length R = N" "val R = val X0 * val U mod B"
    using multiplies_bottomD [OF multiplies_bottom_power [OF assms(1)], folded N, OF lx(1) l(3)] unfolding B_def by blast
  have low: "val X0 = val R * val M mod B"
  proof -
    have "val R * val M mod B = val X0 * (val U * val M) mod B" unfolding R(3) by (simp add: mod_mult_left_eq mult.assoc)
    also have "\<dots> = val X0" unfolding U [folded B_def] using r [OF lx(1)] by (simp add: distrib_left mod_pos_pos_trivial mult.left_commute [of _ B])
    finally show ?thesis by simp
  qed
  obtain T where T: "RecursiveMultiplyTop X0 R M N = Some T" "length T = N" "val T = val R * val M div B"
    using multiplies_top_power [OF assms(1), of R M X0] R(2) l(2) lx(1) low unfolding N [symmetric] B_def by blast
  have RM: "val R * val M = val X0 + B * val T" unfolding T(3) low by simp
  have Tlt: "val T < val M"
  proof -
    have "val R * val M < B * val M" using r [OF R(2)] r [OF l(2)] X by (smt (verit) B B_def mult_nonneg_nonneg mult_strict_right_mono val_nonneg zero_less_mult_iff)
    then have "B * val T < B * val M" using RM r [OF lx(1)] by linarith
    then show ?thesis using B by simp
  qed
  have Xlt: "val X1 < val M"
  proof -
    have "val X < B * val M" using X by (simp add: B_def mult.commute)
    then have "B * val X1 < B * val M" using vX r [OF lx(1)] by linarith
    then show ?thesis using mult_less_cancel_left_pos [OF B] by blast
  qed
  obtain S b where S: "Subtract X1 T = (S, b)" by fastforce
  note vS = Subtract_val [of X1 T, unfolded lx T(2), OF n(1) refl S, folded B_def]
  obtain S' c where S': "Add S M = (S', c)" by fastforce
  note vS' = Add_val [of S M, unfolded l(2) vS [THEN conjunct1], OF n(1) refl S', folded B_def]
  have bc: "b = 0 \<or> uint b = 1" "c = 0 \<or> uint c = 1"
    using vS vS' word_flag by blast+
  define res where "res = (if b \<noteq> 0 then S' else S)"
  have ok: "(c \<noteq> 0 \<or> b = 0) \<and> length res = N \<and> val res < val M \<and> (\<exists>j. val res = val X1 - val T + val M * j)"
  proof (cases "b = 0")
    case True
    then have "val S = val X1 - val T" using vS by simp
    moreover have "val X1 - val T < val M" using Xlt r [OF T(2)] by linarith
    ultimately show ?thesis using True vS by (auto simp: res_def intro: exI [of _ 0])
  next
    case False
    then have v: "val S = val X1 - val T + B" using vS bc by auto
    have "c \<noteq> 0"
    proof
      assume "c = 0"
      then have "val S' = val X1 - val T + B + val M" using vS' v by simp
      then show False using r [of S'] vS' Tlt r [OF lx(2)] by linarith
    qed
    then have v': "val S' = val X1 - val T + val M * 1" using vS' v bc by auto
    have "val S < B" using r vS by blast
    then have "val X1 < val T" using v by simp
    then have "val S' < val M" using v' by simp
    with \<open>c \<noteq> 0\<close> v' False vS' show ?thesis by (auto simp: res_def simp del: mult_1_right)
  qed
  then obtain j where j: "val res = val X1 - val T + val M * j" by blast
  have "MontgomeryReduce X M U N = Some res"
    using ok R(1) T(1) S S' by (simp add: MontgomeryReduce_def res_def d)
  moreover have "(val res * B) mod val M = val X mod val M"
  proof -
    have "val res * B = val X + val M * (B * j - val R)"
      unfolding j vX using RM by (simp add: algebra_simps)
    then show ?thesis by simp
  qed
  ultimately show ?thesis using ok unfolding B_def by blast
qed
subsection \<open>Powers of two modulo \<open>M\<close>\<close>

lemma W_even: "even W"
  by (simp add: W_def)

lemma even_val: "A \<noteq> [] \<Longrightarrow> even (val A) \<longleftrightarrow> A ! 0 mod 2 = 0"
proof -
  assume "A \<noteq> []"
  then obtain a B where A: "A = a # B" by (cases A) simp_all
  have "even (val A) \<longleftrightarrow> even (uint a)" using W_even by (simp add: A)
  also have "\<dots> \<longleftrightarrow> a mod 2 = 0" by (simp add: word_uint_eq_iff uint_mod even_iff_mod_2_eq_zero)
  finally show ?thesis by (simp add: A)
qed

lemma set_top_bit:
  fixes S :: "u64 list"
  assumes "length S = Suc n" and "2 * val S < W ^ Suc n" and "uint c \<le> 1"
  shows "2 * val (S[n := S ! n + push_bit 63 c]) = 2 * val S + W ^ Suc n * uint c"
proof -
  have S: "S = take n S @ [S ! n]" using assms(1) by (simp add: take_Suc_conv_app_nth [symmetric])
  have v: "val S = val (take n S) + W ^ n * uint (S ! n)" using assms(1) by (subst S) simp
  have "W ^ n * (2 * uint (S ! n)) \<le> 2 * val S" unfolding v by (simp add: algebra_simps)
  then have "W ^ n * (2 * uint (S ! n)) < W ^ n * W" using assms(2) by (simp only: power_Suc mult.commute [of W])
  then have top: "2 * uint (S ! n) < W" using mult_less_cancel_left_pos [OF W_power(1)] by blast
  have p: "uint (push_bit 63 c) = 2 ^ 63 * uint c"
    using assms(3) uint_W(1) [of c] by (simp add: uint_push_word W_def)
  have "uint (S ! n + push_bit 63 c) = uint (S ! n) + 2 ^ 63 * uint c"
    using top assms(3) uint_W(1) [of "S ! n"] uint_W(1) [of c] by (simp add: uint_word_ariths p W_def mod_pos_pos_trivial)
  moreover have "S[n := S ! n + push_bit 63 c] = take n S @ [S ! n + push_bit 63 c]"
    using assms(1) by (simp add: upd_conv_take_nth_drop)
  ultimately have "val (S[n := S ! n + push_bit 63 c]) = val (take n S) + W ^ n * (uint (S ! n) + 2 ^ 63 * uint c)"
    using assms(1) by simp
  then show ?thesis unfolding v by (simp add: W_def distrib_left)
qed

lemma half_step:
  assumes "even (length M)" and "length R = length M" and "odd (val M)" and "val R < val M"
  shows "length (half_mod R M) = length M \<and> val (half_mod R M) < val M \<and>
    (val (half_mod R M) * 2 = val R \<or> val (half_mod R M) * 2 = val R + val M)"
proof -
  have ne: "M \<noteq> []" "R \<noteq> []" using assms by auto
  show ?thesis
  proof (cases "R ! 0 mod 2 = 0")
    case True
    then have e: "even (val R)" using even_val ne by simp
    obtain R' c where R': "ShiftWordsRightByBits R 1 = (R', c)" by fastforce
    have "length R' = length R" "val R' = val R div 2" using ShiftWordsRightByBits_val [OF _ R'] by simp_all
    moreover then have "val R' * 2 = val R" using e by simp
    moreover have "val R' \<le> val R" using calculation(3) val_nonneg [of R'] by linarith
    ultimately show ?thesis using True assms(2,4) R' by (simp add: half_mod_def)
  next
    case False
    then have o: "odd (val R)" using even_val ne by simp
    obtain S c where S: "Add R M = (S, c)" by fastforce
    note v = Add_val [of R M, unfolded assms(2), OF assms(1) refl S]
    obtain T d where T: "ShiftWordsRightByBits S 1 = (T, d)" by fastforce
    have T2: "length T = length S" "val T = val S div 2" using ShiftWordsRightByBits_val [OF _ T] by simp_all
    obtain n where n: "length M = Suc n" using ne by (cases M) simp_all
    have "even (val S + W ^ length M * uint c)" using v o assms(3) by simp
    then have "even (val S)" using W_even ne by simp
    then have dbl: "2 * val T = val S" unfolding T2(2) by simp
    have Sl: "val S < W ^ Suc n" using val_range [of S "length M"] v n by simp
    define R' where "R' = T[n := T ! n + push_bit 63 c]"
    have "2 * val R' = 2 * val T + W ^ Suc n * uint c"
      unfolding R'_def using T2(1) v n dbl Sl by (intro set_top_bit) simp_all
    then have "val R' * 2 = val R + val M" using dbl v n by simp
    moreover have "length R' = length M" using T2(1) v by (simp add: R'_def)
    moreover have "half_mod R M = R'" using False S T T2(1) v n by (simp add: half_mod_def R'_def)
    ultimately show ?thesis using assms(4) by auto
  qed
qed

lemma DivideByPower2Mod_ok:
  assumes "even (length M)" and "odd (val M)"
  shows "length R = length M \<Longrightarrow> val R < val M \<Longrightarrow>
    length (DivideByPower2Mod R k M) = length M \<and> val (DivideByPower2Mod R k M) < val M \<and>
    val (DivideByPower2Mod R k M) * 2 ^ k mod val M = val R mod val M"
proof (induction k arbitrary: R)
  case (Suc k)
  define R' where "R' = half_mod R M"
  have R': "length R' = length M" "val R' < val M" "val R' * 2 = val R \<or> val R' * 2 = val R + val M"
    using half_step [OF assms(1) Suc.prems(1) assms(2) Suc.prems(2)] unfolding R'_def [symmetric] by blast+
  have D: "DivideByPower2Mod R (Suc k) M = DivideByPower2Mod R' k M" by (simp add: R'_def)
  define D' where "D' = DivideByPower2Mod R' k M"
  have IH: "length D' = length M" "val D' < val M" "val D' * 2 ^ k mod val M = val R' mod val M"
    using Suc.IH [OF R'(1,2)] by (simp_all add: D'_def)
  have "val D' * 2 ^ Suc k mod val M = (val D' * 2 ^ k mod val M) * 2 mod val M" by (simp only: mod_mult_left_eq power_Suc mult.assoc mult.commute [of 2])
  also have "\<dots> = val R' * 2 mod val M" unfolding IH(3) by (simp add: mod_mult_left_eq)
  also have "\<dots> = val R mod val M" using R'(3) by auto
  finally show ?case using IH unfolding D D'_def [symmetric] by simp
qed simp

lemma double_step:
  assumes "even (length M)" and "length R = length M" and "val R < val M"
  shows "length (double_mod R M) = length M \<and> val (double_mod R M) < val M \<and> val (double_mod R M) = 2 * val R mod val M"
proof -
  obtain S c where S: "ShiftWordsLeftByBits R 1 = (S, c)" by fastforce
  have v: "length S = length M" "val S + W ^ length M * uint c = 2 * val R" "uint c < 2"
    using ShiftWordsLeftByBits_val [OF _ S] assms(2) by simp_all
  have c: "c = 0 \<or> uint c = 1" using v(3) word_flag [of c] by simp
  have cmp: "Compare S M (length M) \<ge> 0 \<longleftrightarrow> val M \<le> val S"
    using compare_val [of "length M" S M] v(1) by auto
  have big: "c \<noteq> 0 \<or> val M \<le> val S \<longleftrightarrow> val M \<le> 2 * val R"
    using c
  proof
    assume c: "uint c = 1"
    then have "c \<noteq> 0" by auto
    moreover have "val M \<le> 2 * val R" using v(2) val_less [of M] val_nonneg [of S] unfolding c mult_1_right by linarith
    ultimately show ?thesis by blast
  qed (use v in simp)
  show ?thesis
  proof (cases "val M \<le> 2 * val R")
    case True
    have "0 \<le> 2 * val R - val M" "2 * val R - val M < val M" using True assms(3) by simp_all
    have "val (fst (Subtract S M)) = (val S - val M) mod W ^ length M"
      using Subtract_mod [of S M] v(1) assms(1) by simp
    also have "\<dots> = (2 * val R - val M) mod W ^ length M"
    proof -
      have "val S - val M = (2 * val R - val M) + W ^ length M * (- uint c)" using v(2) by simp
      then show ?thesis by (simp only: mod_mult_self2)
    qed
    also have "\<dots> = 2 * val R - val M"
      using True assms(3) val_less [of M] by (intro mod_pos_pos_trivial) linarith+
    finally have e: "val (fst (Subtract S M)) = 2 * val R - val M" .
    have "2 * val R mod val M = 2 * val R - val M"
      using True assms(3) by (intro mod_unique [symmetric, where k = "- 1"]) simp_all
    then show ?thesis using True big cmp S e assms Subtract_mod(1) [of S M] v(1) by (auto simp: double_mod_def)
  next
    case False
    then have "\<not> (c \<noteq> 0 \<or> val M \<le> val S)" using big by blast
    then show ?thesis using False S cmp v by (auto simp: double_mod_def mod_pos_pos_trivial)
  qed
qed

lemma MultiplyByPower2Mod_ok:
  assumes "even (length M)"
  shows "length R = length M \<Longrightarrow> val R < val M \<Longrightarrow>
    length (MultiplyByPower2Mod R k M) = length M \<and> val (MultiplyByPower2Mod R k M) = val R * 2 ^ k mod val M"
proof (induction k arbitrary: R)
  case (Suc k)
  define R' where "R' = double_mod R M"
  have R': "length R' = length M" "val R' < val M" "val R' = 2 * val R mod val M"
    using double_step [OF assms(1) Suc.prems] by (simp_all add: R'_def)
  have D: "MultiplyByPower2Mod R (Suc k) M = MultiplyByPower2Mod R' k M" by (simp add: R'_def)
  show ?case unfolding D using Suc.IH [OF R'(1,2)] by (simp add: R'(3) mod_mult_left_eq mult.assoc mult.left_commute)
qed (simp add: mod_pos_pos_trivial)

text \<open>C24: Montgomery's reduction with the inverse that the library computes: for an odd modulus of a length
  that is a power of two, \<open>RecursiveInverseModPower2\<close> and \<open>MontgomeryReduce\<close> return, no assertion
  fails, and the result \<open>R\<close> is below the modulus and congruent to \<open>X / W ^ N\<close>.\<close>

theorem montgomery_reduction:
  assumes "0 < k" and "N = 2 ^ k" and "length X = 2 * N" and "length M = N" and "odd (M ! 0)" and "val X < val M * W ^ N"
  shows "\<exists>U R. RecursiveInverseModPower2 M N = Some U \<and> MontgomeryReduce X M U N = Some R \<and> length R = N \<and>
    val R < val M \<and> (val R * W ^ N) mod val M = val X mod val M"
proof -
  obtain U q where U: "RecursiveInverseModPower2 M N = Some U" "length U = N" "val U * val M = 1 + W ^ N * q"
    using inverse_mod_ok [of k M] assms by auto
  from MontgomeryReduce_ok [OF assms(1-4) U(2,3) assms(6)] show ?thesis using U(1) by blast
qed

theorem montgomery_reduction_witness:
  "\<exists>U R. RecursiveInverseModPower2 [7, 0, 0, 1] 4 = Some U \<and> MontgomeryReduce [9, 8, 7, 6, 5, 4, 3, 0] [7, 0, 0, 1] U 4 = Some R \<and>
     length R = 4 \<and> val R < val [7, 0, 0, 1] \<and>
     (val R * W ^ 4) mod val [7, 0, 0, 1] = val [9, 8, 7, 6, 5, 4, 3, 0] mod val [7, 0, 0, 1]"
  using montgomery_reduction [of 2 4 "[9, 8, 7, 6, 5, 4, 3, 0]" "[7, 0, 0, 1]"]
  by (simp add: W_def odd_one)

text \<open>Dividing by a power of two modulo an odd number and multiplying by it again gives the words back:
  the carries that \<open>DivideByPower2Mod\<close> shifts in at the top and the subtractions of
  \<open>MultiplyByPower2Mod\<close> lose nothing.\<close>

theorem power2_mod_roundtrip:
  assumes "even (length M)" and "odd (val M)" and "length R = length M" and "val R < val M"
  shows "MultiplyByPower2Mod (DivideByPower2Mod R k M) k M = R"
proof -
  note D = DivideByPower2Mod_ok [OF assms, of k]
  define D' where "D' = DivideByPower2Mod R k M"
  have D': "length D' = length M" "val D' < val M" "val D' * 2 ^ k mod val M = val R"
    using D assms(4) by (simp_all add: D'_def mod_pos_pos_trivial)
  from MultiplyByPower2Mod_ok [OF assms(1) D'(1,2), of k] have "val (MultiplyByPower2Mod D' k M) = val R"
    "length (MultiplyByPower2Mod D' k M) = length R" using D'(3) assms(3) by simp_all
  then show ?thesis unfolding D'_def by (intro val_inj)
qed

theorem power2_mod_roundtrip_witness:
  "MultiplyByPower2Mod (DivideByPower2Mod [5, 3] 100 [7, 9]) 100 [7, 9] = [5, 3]"
  using power2_mod_roundtrip [of "[7, 9]" "[5, 3]" 100] by (simp add: W_def)

end
