(* ===== verification/CPP_Divide.thy ===== *)
theory CPP_Divide
  imports CPP_Karatsuba
begin

text \<open>
  The division of arrays of words, \<^verbatim>\<open>src/src/utils/lib/CryptoPP.cc\<close> (\<open>AtomicDivide\<close>,
  \<open>CorrectQuotientEstimate\<close>, \<open>Divide\<close>): two words of the quotient at a time, estimated from the
  upper four words of the dividend and corrected. The value \<open>None\<close> is an assertion that fails, a
  write past the end of the work space, or (for a divisor of value 0) a loop that does not end; it is
  proved below that none of them happens.
\<close>

section \<open>Operations\<close>

definition AtomicDivide :: "u64 list \<Rightarrow> u64 list \<Rightarrow> u64 list option" where
  "AtomicDivide A B =
     (case DivideFourWordsByTwo DWord_class (DWord (A ! 0) (A ! 1)) (DWord (A ! 2) (A ! 3)) (DWord (B ! 0) (B ! 1)) of
        None \<Rightarrow> None
      | Some (q, t0, t1) \<Rightarrow> Some [GetLowHalf q, GetHighHalf q])"

text \<open>\<open>++Q[0]\<close> with its carry into \<open>Q[1]\<close>.\<close>

fun inc_pair :: "u64 list \<Rightarrow> u64 list" where
  "inc_pair (q0 # q1 # Q) = (q0 + 1) # (q1 + (if q0 + 1 = 0 then 1 else 0)) # Q"
| "inc_pair Q = Q"

text \<open>The products of \<open>Q\<close> with every second pair of words of \<open>B\<close>: the first loop writes those at
  0, 4, \<open>\<dots>\<close> side by side, the second loop adds those at 2, 6, \<open>\<dots>\<close>.\<close>

function first_products :: "u64 list \<Rightarrow> u64 list \<Rightarrow> u64 list" where
  "first_products Q B = (if B = [] then [] else Multiply2 Q (take 2 B) @ first_products Q (drop 4 B))"
  by pat_completeness auto
termination
  by (relation "measure (\<lambda>(Q, B). length B)") auto

function add_products :: "u64 list \<Rightarrow> u64 list \<Rightarrow> u64 list \<Rightarrow> u64 list option" where
  "add_products Q B T =
     (if B = [] then Some T
      else let (C, c) = Multiply2Add (take 4 T) Q (take 2 B);
               rest = drop 4 T
           in if c \<noteq> 0 \<and> length rest < 2 then None
              else map_option ((@) C) (add_products Q (drop 4 B) (if c \<noteq> 0 then inc_pair rest else rest)))"
  by pat_completeness auto
termination
  by (relation "measure (\<lambda>(Q, B, T). length B)") auto

declare first_products.simps [simp del] add_products.simps [simp del]

definition quotient_product :: "u64 list \<Rightarrow> u64 list \<Rightarrow> u64 list option" where
  "quotient_product Q B =
     (let N = length B
      in if Q ! 1 \<noteq> 0 then
           let T = take (N + 2) (first_products Q B @ [0, 0])
           in map_option ((@) (take 2 T)) (add_products Q (drop 2 B) (drop 2 T))
         else let (T, c) = LinearMultiply B (Q ! 0) in Some (T @ [c, 0]))"

partial_function (option) estimate_loop :: "u64 list \<Rightarrow> u64 list \<Rightarrow> u64 list \<Rightarrow> (u64 list \<times> u64 list) option" where
  "estimate_loop R Q B =
     (if R ! length B \<noteq> 0 \<or> Compare R B (length B) \<ge> 0 then
        let (S, b) = Subtract (take (length B) R) B;
            R = S @ (R ! length B - b) # drop (length B + 1) R;
            Q = inc_pair Q
        in if Q ! 0 \<noteq> 0 \<or> Q ! 1 \<noteq> 0 then estimate_loop R Q B else None
      else Some (R, Q))"

definition CorrectQuotientEstimate :: "u64 list \<Rightarrow> u64 list \<Rightarrow> u64 list \<Rightarrow> (u64 list \<times> u64 list) option" where
  "CorrectQuotientEstimate R Q B =
     (if length B = 0 \<or> odd (length B) then None else do {
       T \<leftarrow> quotient_product Q B;
       let (R, borrow) = Subtract R T
       in if borrow = 0 \<and> R ! (length B + 1) = 0 then estimate_loop R Q B else None
     })"

text \<open>The loop that subtracts the divisor from the upper words of the dividend, and the loop over the
  digits of the quotient, from the highest; \<open>n\<close> pairs of words remain.\<close>

partial_function (option) top_loop :: "u64 list \<Rightarrow> u64 \<Rightarrow> u64 list \<Rightarrow> (u64 list \<times> u64) option" where
  "top_loop R q B =
     (if R ! length B \<noteq> 0 \<or> Compare R B (length B) \<ge> 0 then
        let (S, b) = Subtract (take (length B) R) B
        in top_loop (S @ (R ! length B - b) # drop (length B + 1) R) (q + 1) B
      else Some (R, q))"

fun divide_loop :: "u64 list \<Rightarrow> u64 list \<Rightarrow> u64 list \<Rightarrow> u64 list \<Rightarrow> nat \<Rightarrow> (u64 list \<times> u64 list) option" where
  "divide_loop TA Q TB BT 0 = Some (TA, Q)"
| "divide_loop TA Q TB BT (Suc n) =
     (let NB = length TB; j = 2 * n; R = take (NB + 2) (drop j TA)
      in do {
        q \<leftarrow> AtomicDivide (take 4 (drop (NB - 2) R)) BT;
        (R, q) \<leftarrow> CorrectQuotientEstimate R q TB;
        divide_loop (take j TA @ R @ drop (j + NB + 2) TA) (q @ Q) TB BT n
      })"

definition shift_words :: "u64 list \<Rightarrow> nat" where
  "shift_words B = (if B ! (length B - 1) = 0 then 1 else 0)"

definition Divide :: "u64 list \<Rightarrow> u64 list \<Rightarrow> (u64 list \<times> u64 list) option" where
  "Divide A B =
     (let NA = length A; NB = length B
      in if NA = 0 \<or> NB = 0 \<or> odd NA \<or> odd NB \<or> (B ! (NB - 1) = 0 \<and> B ! (NB - 2) = 0) \<or> NA < NB then None
         else
           let shiftWords = shift_words B;
               TB = SetWords 0 shiftWords @ take (NB - shiftWords) B;
               shiftBits = 64 - BitPrecision (TB ! (NB - 1));
               TB = fst (ShiftWordsLeftByBits TB shiftBits);
               TA = SetWords 0 shiftWords @ A @ SetWords 0 (2 - shiftWords);
               TA = fst (ShiftWordsLeftByBits TA shiftBits);
               b0 = TB ! (NB - 2) + 1;
               b1 = TB ! (NB - 1) + (if b0 = 0 then 1 else 0)
           in if 64 \<le> shiftBits then None else do {
             (TA, Q) \<leftarrow>
               (if TA ! (NA + 1) = 0 \<and> TA ! NA \<le> 1 then
                  do {
                    (R, q) \<leftarrow> top_loop (drop (NA - NB) TA) 0 TB;
                    divide_loop (take (NA - NB) TA @ R) [q, 0] TB [b0, b1] ((NA - NB) div 2)
                  }
                else if Compare (drop (NA + 2 - NB) TA) TB NB < 0 then
                  divide_loop TA [] TB [b0, b1] ((NA + 2 - NB) div 2)
                else None);
             Some (fst (ShiftWordsRightByBits (take NB (drop shiftWords TA)) shiftBits), Q)
           })"
section \<open>The quotient estimate\<close>

lemma AtomicDivide_ok:
  assumes "length A = 4" and "val (take 4 A) < (if val B = 0 then W * W else val B) * (W * W)" and "length B = 2"
  shows "\<exists>Q. AtomicDivide A B = Some Q \<and> length Q = 2 \<and> val Q = val A div (if val B = 0 then W * W else val B)"
proof -
  obtain a0 a1 a2 a3 where A: "A = [a0, a1, a2, a3]" using assms(1) by (auto simp: length_Suc_conv eval_nat_numeral)
  obtain b0 b1 where B: "B = [b0, b1]" using two_words [of B] assms(3) by metis
  let ?l = "DWord a0 a1" and ?h = "DWord a2 a3" and ?b = "DWord b0 b1"
  have v: "val A = dint ?l + W * W * dint ?h" "val B = dint ?b" by (simp_all add: A B dint_W algebra_simps)
  have rl: "0 \<le> dint ?l" "dint ?l < W * W"
    using val_range [of "[a0, a1]" 2] by (simp_all add: dint_W power2_eq_square)
  show ?thesis
  proof (cases "val B = 0")
    case True
    then have "d_not DWord_class ?b" using v(2) full.not_zero by simp
    then have "AtomicDivide A B = Some [a2, a3]"
      by (simp add: AtomicDivide_def A B DivideFourWordsByTwo_def DWord_class_def)
    moreover have "val A div (W * W) = val [a2, a3]"
      using rl unfolding v by (simp add: dint_W div_pos_pos_trivial)
    ultimately show ?thesis using True by simp
  next
    case False
    have "val A < W * W * val B" using assms(1,2) False by (simp add: mult.commute)
    then have "W * W * dint ?h < W * W * val B" using rl v(1) by linarith
    then have "dint ?h < dint ?b" unfolding v(2) using mult_less_cancel_left_pos [of "W * W"] by simp
    from full.divide_four [OF this, of ?l] obtain q t0 t1 where
      q: "DivideFourWordsByTwo DWord_class ?l ?h ?b = Some (q, t0, t1)" "dint q = (dint ?l + W * W * dint ?h) div dint ?b"
      by (auto simp: W_def)
    have "AtomicDivide A B = Some [GetLowHalf q, GetHighHalf q]" using q(1) by (simp add: AtomicDivide_def A B)
    moreover have "val [GetLowHalf q, GetHighHalf q] = dint q" by (simp add: dint_W)
    ultimately show ?thesis using False q(2) v by simp
  qed
qed

lemma inc_pair_val:
  assumes "2 \<le> length Q" and "val (take 2 Q) + 1 < W * W"
  shows "length (inc_pair Q) = length Q" and "val (inc_pair Q) = val Q + 1"
proof -
  obtain q0 q1 R where Q: "Q = q0 # q1 # R" using assms(1) by (cases Q; cases "tl Q") auto
  show "length (inc_pair Q) = length Q" by (simp add: Q)
  show "val (inc_pair Q) = val Q + 1"
  proof (cases "q0 + 1 = 0")
    case False
    then show ?thesis by (simp add: Q uint_inc)
  next
    case True
    then have q0: "q0 = - 1" by (simp add: eq_neg_iff_add_eq_0)
    have "q1 + 1 \<noteq> 0"
    proof
      assume "q1 + 1 = 0"
      then have "q1 = - 1" by (simp add: eq_neg_iff_add_eq_0)
      then show False using assms(2) by (simp add: Q q0 algebra_simps)
    qed
    then show ?thesis using uint_inc [of q1] by (simp add: Q q0 distrib_left)
  qed
qed

lemma first_products_ok:
  assumes "length Q = 2"
  shows "even (length B) \<Longrightarrow> length (first_products Q B) = (if length B mod 4 = 0 then length B else length B + 2) \<and>
    val (first_products Q B) = val Q * even_blocks 2 B"
proof (induction B rule: length_induct)
  case (1 B)
  show ?case
  proof (cases "B = []")
    case False
    then have l: "2 \<le> length B" using 1(2) by (cases B; cases "tl B") auto
    have m: "length (Multiply2 Q (take 2 B)) = 4" "val (Multiply2 Q (take 2 B)) = val Q * val (take 2 B)"
      using Multiply2_val [of Q "take 2 B"] assms l by simp_all
    have "even (length (drop 4 B))" "length (drop 4 B) < length B" using 1(2) l by auto
    then have IH: "length (first_products Q (drop 4 B)) = (if length (drop 4 B) mod 4 = 0 then length (drop 4 B) else length (drop 4 B) + 2)"
        "val (first_products Q (drop 4 B)) = val Q * even_blocks 2 (drop 4 B)" using 1 by blast+
    have f: "first_products Q B = Multiply2 Q (take 2 B) @ first_products Q (drop 4 B)"
      using False by (subst first_products.simps) simp
    have "length B = 2 \<or> length B = 4 + length (drop 4 B)" using l 1(2) by (cases "length B = 3") auto
    then have "length (first_products Q B) = (if length B mod 4 = 0 then length B else length B + 2)"
    proof
      assume "length B = 4 + length (drop 4 B)"
      then show ?thesis unfolding f using IH(1) m(1) by (metis add.assoc length_append mod_add_self1)
    qed (use f IH(1) m(1) in simp)
    moreover have "val (first_products Q B) = val Q * even_blocks 2 B"
      unfolding f using m IH(2) even_blocks_step [OF _ False, of 2] by (simp add: algebra_simps eval_nat_numeral)
    ultimately show ?thesis by blast
  qed (simp add: first_products.simps)
qed

text \<open>The two words that take a carry are the upper half of a product, which is not the largest
  pair of words.\<close>

function (sequential) carry_room :: "u64 list \<Rightarrow> bool" where
  "carry_room T = (if length T \<le> 4 then True else val (take 2 (drop 4 T)) + 1 < W * W \<and> carry_room (drop 4 T))"
  by pat_completeness auto
termination
  by (relation "measure length") auto

declare carry_room.simps [simp del]

lemma upper_product: "length A = 2 \<Longrightarrow> length B = 2 \<Longrightarrow> val (drop 2 (Multiply2 A B)) + 1 < W * W"
proof -
  assume l: "length A = 2" "length B = 2"
  note m = Multiply2_val [OF l]
  have "val (Multiply2 A B) = val (take 2 (Multiply2 A B)) + W ^ 2 * val (drop 2 (Multiply2 A B))"
    using m by (intro val_halves) simp
  then have "W * W * val (drop 2 (Multiply2 A B)) \<le> val A * val B" using m val_nonneg [of "take 2 (Multiply2 A B)"] by (simp add: power2_eq_square)
  also have "\<dots> \<le> (W * W - 1) * (W * W - 1)"
    using val_range [OF l(1)] val_range [OF l(2)] by (intro mult_mono) (simp_all add: power2_eq_square)
  also have "\<dots> < W * W * (W * W - 1)" using W_big W_pos by (intro mult_strict_right_mono) linarith+
  finally show ?thesis using mult_less_cancel_left_pos [of "W * W"] by simp
qed

lemma first_products_room:
  assumes "length Q = 2"
  shows "even (length B) \<Longrightarrow> carry_room (drop 2 (take (length B + 2) (first_products Q B @ [0, 0])))"
proof (induction B rule: length_induct)
  case (1 B)
  show ?case
  proof (cases "length B \<le> 4")
    case True
    then have "length (drop 2 (take (length B + 2) (first_products Q B @ [0, 0]))) \<le> 4" by simp
    then show ?thesis by (subst carry_room.simps) (simp only: if_True)
  next
    case False
    then have l: "4 < length B" "6 \<le> length B" using 1(2) by (auto elim: evenE)
    let ?P = "Multiply2 Q (take 2 B)" and ?R = "first_products Q (drop 4 B)"
    have f: "first_products Q B = ?P @ ?R" using l by (subst first_products.simps) auto
    have P: "length ?P = 4" using Multiply2_val [of Q "take 2 B"] assms l by simp
    define U where "U = take (length (drop 4 B) + 2) (?R @ [0, 0])"
    have "take (length B + 2) (first_products Q B @ [0, 0]) = ?P @ U"
    proof -
      obtain m where "length B = m + 4" using l by (metis le_add_diff_inverse2 less_imp_le)
      then show ?thesis using P by (simp add: f U_def)
    qed
    then have T: "drop 2 (take (length B + 2) (first_products Q B @ [0, 0])) = drop 2 ?P @ U" using P by simp
    have B4: "drop 4 B \<noteq> []" "even (length (drop 4 B))" "length (drop 4 B) < length B" using l 1(2) by auto
    have l2: "length (take 2 (drop 4 B)) = 2" using l by simp
    let ?P' = "Multiply2 Q (take 2 (drop 4 B))"
    have P': "length ?P' = 4" using Multiply2_val [OF assms l2] by simp
    have R: "?R = ?P' @ first_products Q (drop 4 (drop 4 B))" using B4(1) by (subst first_products.simps) simp
    have U: "drop 2 U = drop 2 ?P' @ drop 4 U" "take 2 (drop 2 U) = drop 2 ?P'"
      using P' l unfolding U_def R by (simp_all add: take_drop)
    have "carry_room (drop 2 U)" using 1(1) B4(2,3) unfolding U_def by blast
    have "drop 4 (drop 2 ?P @ U) = drop 2 U" using P by simp
    moreover have "val (take 2 (drop 2 U)) + 1 < W * W" unfolding U(2) using upper_product [OF assms l2] .
    ultimately show ?thesis unfolding T using \<open>carry_room (drop 2 U)\<close> by (subst carry_room.simps) (simp add: U(2))
  qed
qed

lemma add_products_ok:
  assumes "length Q = 2"
  shows "even (length B) \<Longrightarrow> length T = length B + 2 \<or> B = [] \<Longrightarrow> carry_room T \<Longrightarrow>
    val T + val Q * even_blocks 2 B < W ^ length T \<Longrightarrow>
    \<exists>T'. add_products Q B T = Some T' \<and> length T' = length T \<and> val T' = val T + val Q * even_blocks 2 B"
proof (induction B arbitrary: T rule: length_induct)
  case (1 B)
  show ?case
  proof (cases "B = []")
    case True
    then show ?thesis by (simp add: add_products.simps)
  next
    case False
    then have l: "2 \<le> length B" "length T = length B + 2" using 1 by (cases B; cases "tl B"; auto)+
    obtain C c where C: "Multiply2Add (take 4 T) Q (take 2 B) = (C, c)" by fastforce
    have v: "length C = 4" "val C + W ^ 4 * uint c = val (take 4 T) + val Q * val (take 2 B)"
      using Multiply2Add_val [OF _ assms _ C] l by simp_all
    let ?rest = "drop 4 T"
    let ?e = "val Q * even_blocks 2 (drop 4 B)"
    define rest where "rest = (if c \<noteq> 0 then inc_pair ?rest else ?rest)"
    have vT: "val T = val (take 4 T) + W ^ 4 * val ?rest" using l by (intro val_halves) simp
    have sum: "val C + W ^ 4 * (val ?rest + uint c + ?e) = val T + val Q * even_blocks 2 B"
      unfolding vT even_blocks_step [of 2, OF _ False, simplified] using v(2) by (simp add: algebra_simps eval_nat_numeral)
    have lT: "length T = 4 + length ?rest" using l by simp
    have pos: "0 \<le> ?e" "0 \<le> val ?rest"
    proof -
      have "0 \<le> even_blocks 2 X" for X
        by (induction "2 :: nat" X rule: even_blocks.induct) (subst even_blocks.simps, simp)
      then show "0 \<le> ?e" by simp
    qed simp
    have "W ^ 4 * (val ?rest + uint c + ?e) < W ^ 4 * W ^ length ?rest"
      using sum 1(5) val_nonneg [of C] unfolding lT power_add by linarith
    then have bound: "val ?rest + uint c + ?e < W ^ length ?rest" using mult_less_cancel_left_pos [OF W_power(1)] by blast
    have c1: "c \<noteq> 0 \<Longrightarrow> uint c = 1 \<and> 2 \<le> length ?rest \<and> val (take 2 ?rest) + 1 < W * W"
    proof -
      assume c: "c \<noteq> 0"
      then have "uint c \<noteq> 0" by (metis uint_0_iff)
      then have cpos: "1 \<le> uint c" using uint_W(1) [of c] by linarith
      have "val (take 4 T) < W ^ 4" "val Q < W ^ 2" "val (take 2 B) < W ^ 2"
        using val_less [of "take 4 T"] val_less [of Q] val_less [of "take 2 B"] l assms by simp_all
      then have "val Q * val (take 2 B) < W ^ 4" using product_less [of "val Q" "W ^ 2" "val (take 2 B)"] by (simp flip: power_add)
      then have "W ^ 4 * uint c < W ^ 4 * 2" using v(2) val_nonneg [of C] \<open>val (take 4 T) < W ^ 4\<close> by linarith
      then have "uint c < 2" using mult_less_cancel_left_pos [OF W_power(1)] by blast
      then have one: "uint c = 1" using cpos by linarith
      have "length ?rest \<noteq> 0" using bound pos one by auto
      moreover have "even (length ?rest)" using l 1(2) by simp
      ultimately have "2 \<le> length ?rest" by presburger
      moreover have "val (take 2 ?rest) + 1 < W * W" using 1(4) calculation l by (simp add: carry_room.simps [of T] split: if_splits)
      ultimately show ?thesis using one by blast
    qed
    have rest: "length rest = length ?rest" "val rest = val ?rest + uint c"
      using c1 inc_pair_val [of ?rest] by (auto simp: rest_def)
    have room: "carry_room rest"
    proof (cases "length ?rest \<le> 4")
      case True
      then show ?thesis using rest(1) by (subst carry_room.simps) simp
    next
      case False
      have T4: "carry_room ?rest" using 1(4) False by (simp add: carry_room.simps [of T] split: if_splits)
      have "drop 4 rest = drop 4 ?rest"
      proof (cases "c = 0")
        case False
        obtain x y R where "?rest = x # y # R" using c1 [OF False] by (cases ?rest; cases "tl ?rest") auto
        then show ?thesis by (auto simp: rest_def)
      qed (simp add: rest_def)
      then show ?thesis using T4 False rest(1) by (subst carry_room.simps, subst (asm) carry_room.simps) simp
    qed
    have "even (length (drop 4 B))" "length (drop 4 B) < length B" "length rest = length (drop 4 B) + 2 \<or> drop 4 B = []"
      using 1(2) l rest(1) by auto
    moreover have "val rest + ?e < W ^ length rest" using bound rest by simp
    ultimately obtain T' where T': "add_products Q (drop 4 B) rest = Some T'" "length T' = length rest" "val T' = val rest + ?e"
      using 1(1) room by blast
    have "add_products Q B T = Some (C @ T')"
    proof -
      have "\<not> (c \<noteq> 0 \<and> length ?rest < 2)" using c1 by linarith
      then show ?thesis
        using False by (subst add_products.simps) (simp only: Let_def C prod.case if_False rest_def [symmetric] T'(1) option.map)
    qed
    moreover have "val (C @ T') = val T + val Q * even_blocks 2 B" 
    proof -
      have "val (C @ T') = val C + W ^ 4 * val T'" using v(1) by simp
      then show ?thesis unfolding T'(3) rest(2) sum .
    qed
    moreover have "length (C @ T') = length T" unfolding length_append using v(1) T'(2) rest(1) lT by linarith
    ultimately show ?thesis by blast
  qed
qed

lemma quotient_product_ok:
  assumes "length Q = 2" and "even (length B)" and "B \<noteq> []"
  shows "\<exists>T. quotient_product Q B = Some T \<and> length T = length B + 2 \<and> val T = val Q * val B"
proof (cases "Q ! 1 = 0")
  case True
  obtain q0 q1 where Q: "Q = [q0, q1]" using two_words [OF assms(1)] by metis
  obtain T c where T: "LinearMultiply B q0 = (T, c)" by fastforce
  show ?thesis using True LinearMultiply_val [OF T] T by (simp add: quotient_product_def Q mult.commute)
next
  case False
  define T where "T = take (length B + 2) (first_products Q B @ [0, 0])"
  have f: "length (first_products Q B) = (if length B mod 4 = 0 then length B else length B + 2)"
      "val (first_products Q B) = val Q * even_blocks 2 B"
    using first_products_ok [OF assms(1,2)] by blast+
  have T: "length T = length B + 2" "val T = val Q * even_blocks 2 B" using f by (auto simp: T_def)
  have B2: "2 \<le> length B" "even (length (drop 2 B))" using assms(2,3) by (cases B; cases "tl B"; auto)+
  have split: "val B = even_blocks 2 B + W ^ 2 * even_blocks 2 (drop 2 B)"
    using blocks_split [of 2 B "length B div 2"] assms(2) by simp
  have lD: "length (drop 2 T) = length (drop 2 B) + 2" using T(1) B2 by simp
  have vT: "val T = val (take 2 T) + W ^ 2 * val (drop 2 T)" using T(1) by (intro val_halves) simp
  have "W ^ 2 * (val (drop 2 T) + val Q * even_blocks 2 (drop 2 B)) \<le> val Q * val B"
    using vT T(2) val_nonneg [of "take 2 T"] unfolding split by (simp add: algebra_simps)
  also have "\<dots> < W ^ 2 * W ^ length B"
    using val_range [OF assms(1)] val_less [of B] by (intro mult_strict_mono') simp_all
  finally have "val (drop 2 T) + val Q * even_blocks 2 (drop 2 B) < W ^ length B"
    using mult_less_cancel_left_pos [OF W_power(1)] by blast
  moreover have "length (drop 2 T) = length B" using lD B2 by simp
  ultimately have "val (drop 2 T) + val Q * even_blocks 2 (drop 2 B) < W ^ length (drop 2 T)" by (simp only:)
  from add_products_ok [OF assms(1) B2(2) disjI1 [OF lD] _ this] obtain T' where
    T': "add_products Q (drop 2 B) (drop 2 T) = Some T'" "length T' = length (drop 2 T)" "val T' = val (drop 2 T) + val Q * even_blocks 2 (drop 2 B)"
    using first_products_room [OF assms(1,2)] unfolding T_def by blast
  have "quotient_product Q B = Some (take 2 T @ T')" using False T'(1) by (simp add: quotient_product_def T_def)
  moreover have "val (take 2 T @ T') = val Q * val B"
  proof -
    have l2: "length (take 2 T) = 2" using T(1) by simp
    have "val (take 2 T @ T') = val (take 2 T) + W ^ 2 * val T'" unfolding val_append l2 ..
    also have "\<dots> = val T + W ^ 2 * (val Q * even_blocks 2 (drop 2 B))" unfolding T'(3) vT by (simp only: distrib_left add.assoc)
    finally show ?thesis unfolding T(2) split by (simp add: algebra_simps)
  qed
  ultimately show ?thesis using T'(2) T(1) B2 by auto
qed

subsection \<open>The loops that subtract the divisor\<close>

lemma top_test:
  assumes "length B = n" and "n < length R"
  shows "R ! n \<noteq> 0 \<or> Compare R B n \<ge> 0 \<longleftrightarrow> val B \<le> val (take (Suc n) R)"
proof -
  have v: "val (take (Suc n) R) = val (take n R) + W ^ n * uint (R ! n)"
    using assms(2) by (simp add: take_Suc_conv_app_nth)
  have c: "Compare R B n \<ge> 0 \<longleftrightarrow> val B \<le> val (take n R)" using compare_val [of n R B] assms by auto
  show ?thesis
  proof (cases "R ! n = 0")
    case False
    then have "uint (R ! n) \<noteq> 0" by (metis uint_0_iff)
    then have "1 \<le> uint (R ! n)" using uint_W(1) [of "R ! n"] by linarith
    then have "W ^ n * 1 \<le> W ^ n * uint (R ! n)" by (intro mult_left_mono) simp_all
    then have "val B \<le> val (take (Suc n) R)" unfolding v using val_range [OF assms(1)] val_nonneg [of "take n R"] by linarith
    then show ?thesis using False by simp
  qed (use c v in simp)
qed

lemma top_subtract:
  assumes "length B = n" and "even n" and "n < length R" and "val B \<le> val (take (Suc n) R)"
    and "Subtract (take n R) B = (S, b)"
  defines "R' \<equiv> S @ (R ! n - b) # drop (n + 1) R"
  shows "length R' = length R" and "drop (Suc n) R' = drop (Suc n) R" and "val (take (Suc n) R') = val (take (Suc n) R) - val B"
proof -
  have v: "length S = n" "val S = val (take n R) - val B + W ^ n * uint b" "uint b \<le> 1"
    using Subtract_val [OF _ _ assms(5)] assms(1-3) by simp_all
  show "length R' = length R" "drop (Suc n) R' = drop (Suc n) R" using v(1) assms(3) by (simp_all add: R'_def)
  have t: "val (take (Suc n) R) = val (take n R) + W ^ n * uint (R ! n)"
    using assms(3) by (simp add: take_Suc_conv_app_nth)
  have "uint (R ! n - b) = uint (R ! n) - uint b"
  proof (cases "b = 0")
    case False
    then have "uint b \<noteq> 0" by (metis uint_0_iff)
    then have b: "uint b = 1" using v(3) uint_W(1) [of b] by linarith
    have "uint (R ! n) \<noteq> 0"
    proof
      assume z: "uint (R ! n) = 0"
      then have "W ^ n \<le> val S" using v(2) b t assms(4) unfolding z by simp
      then show False using val_range [OF v(1)] by simp
    qed
    then have "uint b \<le> uint (R ! n)" using b uint_W(1) [of "R ! n"] by linarith
    then show ?thesis by (simp add: uint_sub_if')
  qed simp
  then show "val (take (Suc n) R') = val (take (Suc n) R) - val B"
    using v by (simp add: R'_def t right_diff_distrib)
qed

lemma correct_loop_ok:
  assumes "length B = n" and "even n" and "0 < val B"
  shows "n < length R \<Longrightarrow> length Q = 2 \<Longrightarrow> val Q + val (take (Suc n) R) div val B < W * W \<Longrightarrow>
    \<exists>R' Q'. estimate_loop R Q B = Some (R', Q') \<and> length R' = length R \<and> length Q' = 2 \<and> drop (Suc n) R' = drop (Suc n) R \<and>
      val (take (Suc n) R') = val (take (Suc n) R) mod val B \<and> val Q' = val Q + val (take (Suc n) R) div val B"
proof (induction "nat (val (take (Suc n) R))" arbitrary: R Q rule: less_induct)
  case less
  show ?case
  proof (cases "val B \<le> val (take (Suc n) R)")
    case False
    then have "\<not> (R ! n \<noteq> 0 \<or> Compare R B n \<ge> 0)" using top_test [OF assms(1) less.prems(1)] by blast
    then have "estimate_loop R Q B = Some (R, Q)" using assms(1) by (subst estimate_loop.simps) simp
    then show ?thesis using False less.prems by (simp add: mod_pos_pos_trivial div_pos_pos_trivial)
  next
    case True
    obtain S b where S: "Subtract (take n R) B = (S, b)" by fastforce
    define R' where "R' = S @ (R ! n - b) # drop (n + 1) R"
    have R': "length R' = length R" "drop (Suc n) R' = drop (Suc n) R" "val (take (Suc n) R') = val (take (Suc n) R) - val B"
      using top_subtract [OF assms(1,2) less.prems(1) True S] by (simp_all add: R'_def)
    have d: "val (take (Suc n) R) div val B = (val (take (Suc n) R) - val B) div val B + 1"
        "val (take (Suc n) R) mod val B = (val (take (Suc n) R) - val B) mod val B"
      using div_add_self2 [of "val B" "val (take (Suc n) R) - val B"] mod_add_self2 [of "val (take (Suc n) R) - val B" "val B"] assms(3) by simp_all
    have "0 \<le> (val (take (Suc n) R) - val B) div val B" using True assms(3) by (simp add: pos_imp_zdiv_nonneg_iff)
    then have room: "val Q + 1 < W * W" using less.prems(3) d(1) by linarith
    have Q: "length (inc_pair Q) = 2" "val (inc_pair Q) = val Q + 1"
      using inc_pair_val [of Q] room less.prems(2) by simp_all
    obtain q0 q1 where q: "inc_pair Q = [q0, q1]" using two_words [OF Q(1)] by metis
    have "q0 \<noteq> 0 \<or> q1 \<noteq> 0"
    proof (rule ccontr)
      assume "\<not> (q0 \<noteq> 0 \<or> q1 \<noteq> 0)"
      then have "val (inc_pair Q) = 0" by (simp add: q)
      then show False using Q(2) val_nonneg [of Q] by linarith
    qed
    moreover have "R ! n \<noteq> 0 \<or> Compare R B n \<ge> 0" using True top_test [OF assms(1) less.prems(1)] by blast
    ultimately have step: "estimate_loop R Q B = estimate_loop R' (inc_pair Q) B"
      using S assms(1) by (subst estimate_loop.simps) (simp add: R'_def q Let_def)
    have "nat (val (take (Suc n) R')) < nat (val (take (Suc n) R))" using True R'(3) assms(3) by simp
    moreover have "val (inc_pair Q) + val (take (Suc n) R') div val B < W * W" using less.prems(3) d Q(2) R'(3) by simp
    ultimately obtain X Y where X: "estimate_loop R' (inc_pair Q) B = Some (X, Y)" "length X = length R'" "length Y = 2" "drop (Suc n) X = drop (Suc n) R'"
        "val (take (Suc n) X) = val (take (Suc n) R') mod val B" "val Y = val (inc_pair Q) + val (take (Suc n) R') div val B"
      using less.hyps [of R' "inc_pair Q"] less.prems(1) Q(1) unfolding R'(1) by blast
    show ?thesis
      unfolding step by (intro exI [of _ X] exI [of _ Y]) (simp only: X R' Q d, simp)
  qed
qed

lemma top_loop_ok:
  assumes "length B = n" and "even n" and "0 < val B"
  shows "n < length R \<Longrightarrow> uint q + val (take (Suc n) R) div val B < W \<Longrightarrow>
    \<exists>R' q'. top_loop R q B = Some (R', q') \<and> length R' = length R \<and> drop (Suc n) R' = drop (Suc n) R \<and>
      val (take (Suc n) R') = val (take (Suc n) R) mod val B \<and> uint q' = uint q + val (take (Suc n) R) div val B"
proof (induction "nat (val (take (Suc n) R))" arbitrary: R q rule: less_induct)
  case less
  show ?case
  proof (cases "val B \<le> val (take (Suc n) R)")
    case False
    then have "\<not> (R ! n \<noteq> 0 \<or> Compare R B n \<ge> 0)" using top_test [OF assms(1) less.prems(1)] by blast
    then have "top_loop R q B = Some (R, q)" using assms(1) by (subst top_loop.simps) simp
    then show ?thesis using False less.prems by (simp add: mod_pos_pos_trivial div_pos_pos_trivial)
  next
    case True
    obtain S b where S: "Subtract (take n R) B = (S, b)" by fastforce
    define R' where "R' = S @ (R ! n - b) # drop (n + 1) R"
    have R': "length R' = length R" "drop (Suc n) R' = drop (Suc n) R" "val (take (Suc n) R') = val (take (Suc n) R) - val B"
      using top_subtract [OF assms(1,2) less.prems(1) True S] by (simp_all add: R'_def)
    have d: "val (take (Suc n) R) div val B = (val (take (Suc n) R) - val B) div val B + 1"
        "val (take (Suc n) R) mod val B = (val (take (Suc n) R) - val B) mod val B"
      using div_add_self2 [of "val B" "val (take (Suc n) R) - val B"] mod_add_self2 [of "val (take (Suc n) R) - val B" "val B"] assms(3) by simp_all
    have "0 \<le> (val (take (Suc n) R) - val B) div val B" using True assms(3) by (simp add: pos_imp_zdiv_nonneg_iff)
    then have "uint q + 1 < W" using less.prems(2) d(1) by linarith
    then have q: "uint (q + 1) = uint q + 1" using uint_W(1) [of q] by (simp add: uint_word_ariths W_def mod_pos_pos_trivial)
    have "R ! n \<noteq> 0 \<or> Compare R B n \<ge> 0" using True top_test [OF assms(1) less.prems(1)] by blast
    then have step: "top_loop R q B = top_loop R' (q + 1) B"
      using S assms(1) by (subst top_loop.simps) (simp add: R'_def Let_def)
    have "nat (val (take (Suc n) R')) < nat (val (take (Suc n) R))" using True R'(3) assms(3) by simp
    moreover have "uint (q + 1) + val (take (Suc n) R') div val B < W" using less.prems(2) d q R'(3) by simp
    ultimately obtain X y where X: "top_loop R' (q + 1) B = Some (X, y)" "length X = length R'" "drop (Suc n) X = drop (Suc n) R'"
        "val (take (Suc n) X) = val (take (Suc n) R') mod val B" "uint y = uint (q + 1) + val (take (Suc n) R') div val B"
      using less.hyps [of R' "q + 1"] less.prems(1) unfolding R'(1) by blast
    show ?thesis
      unfolding step by (intro exI [of _ X] exI [of _ y]) (simp only: X R' q d, simp)
  qed
qed

section \<open>The division\<close>

lemma CorrectQuotientEstimate_ok:
  assumes l: "length R = n + 2" "length B = n" "length Q = 2" and n: "even n" "0 < n" and B: "0 < val B"
    and q: "val Q * val B \<le> val R" "val R - val Q * val B < W ^ (n + 1)" "val R < W * W * val B"
  shows "\<exists>R' Q'. CorrectQuotientEstimate R Q B = Some (R', Q') \<and> length R' = n + 2 \<and> length Q' = 2 \<and>
    val R' = val R mod val B \<and> val Q' = val R div val B"
proof -
  have Bne: "B \<noteq> []" using l(2) n(2) by auto
  obtain T where T: "quotient_product Q B = Some T" "length T = n + 2" "val T = val Q * val B"
    using quotient_product_ok [OF l(3) _ Bne] l(2) n(1) by auto
  obtain S b where S: "Subtract R T = (S, b)" by fastforce
  have v: "length S = n + 2" "val S = val R - val T + W ^ (n + 2) * uint b" "uint b \<le> 1"
    using Subtract_val [OF _ _ S] l T(2) n(1) by simp_all
  have b: "b = 0"
  proof (rule ccontr)
    assume "b \<noteq> 0"
    then have "uint b \<noteq> 0" by (metis uint_0_iff)
    then have "uint b = 1" using v(3) uint_W(1) [of b] by linarith
    then have "W ^ (n + 2) \<le> val S" using v(2) q(1) T(3) by simp
    then show False using val_range [OF v(1)] by linarith
  qed
  then have vS: "val S = val R - val Q * val B" using v(2) T(3) by simp
  have top: "val S = val (take (n + 1) S) + W ^ (n + 1) * uint (S ! (n + 1))"
  proof -
    have "drop (n + 1) S = [S ! (n + 1)]" using v(1) by (metis Cons_nth_drop_Suc add_2_eq_Suc' drop_all le_refl lessI Suc_eq_plus1)
    then show ?thesis using val_halves [of "n + 1" S] v(1) by simp
  qed
  have "W ^ (n + 1) * uint (S ! (n + 1)) < W ^ (n + 1) * 1"
    using q(2) top val_nonneg [of "take (n + 1) S"] unfolding vS by linarith
  then have "uint (S ! (n + 1)) < 1" using mult_less_cancel_left_pos [OF W_power(1)] by blast
  then have z: "uint (S ! (n + 1)) = 0" using uint_W(1) [of "S ! (n + 1)"] by linarith
  then have z': "S ! (n + 1) = 0" by (metis uint_0_iff)
  have t: "val (take (Suc n) S) = val R - val Q * val B" using top vS z by simp
  have dm: "(val R - val Q * val B) div val B = val R div val B - val Q" "(val R - val Q * val B) mod val B = val R mod val B"
    using B by (simp_all add: mult.commute [of "val Q"] flip: mod_diff_eq)
      (metis add.commute add_diff_cancel_left' diff_add_cancel div_mult_self2 less_irrefl mult.commute)
  have rm: "val R div val B < W * W"
    using digit_range(2) [of "val R mod val B" "val B" "val R div val B" "W * W"] q(3) B by (simp add: mult.commute)
  have ns: "n < length S" using v(1) by simp
  have room: "val Q + val (take (Suc n) S) div val B < W * W" unfolding t dm using rm by simp
  obtain X Y where X: "estimate_loop S Q B = Some (X, Y)" "length X = length S" "length Y = 2" "drop (Suc n) X = drop (Suc n) S"
      "val (take (Suc n) X) = val (take (Suc n) S) mod val B" "val Y = val Q + val (take (Suc n) S) div val B"
    using correct_loop_ok [OF l(2) n(1) B ns l(3) room] by blast
  have "drop (Suc n) S = [0]" using v(1) z' by (metis Cons_nth_drop_Suc add_2_eq_Suc' drop_all le_refl lessI Suc_eq_plus1)
  then have "val X = val (take (Suc n) X)" using val_halves [of "Suc n" X] X(2,4) v(1) by simp
  then have "val X = val R mod val B" using X(5) t dm by simp
  moreover have "val Y = val R div val B" using X(6) t dm by simp
  moreover have "CorrectQuotientEstimate R Q B = Some (X, Y)"
    using T(1) S b z' X(1) l(2) n by (simp add: CorrectQuotientEstimate_def)
  ultimately show ?thesis using X v(1) by simp
qed

text \<open>The estimate from the upper words: \<open>a\<close> is the value of the upper four words of the dividend, \<open>b\<close>
  that of the upper two words of the divisor.\<close>

lemma estimate_arith:
  fixes a b r s P V :: int
  assumes P: "0 < P" and r: "0 \<le> r" "r < P" and s: "0 \<le> s" "s < P" and b: "0 \<le> b" "b < V" and a: "0 \<le> a"
    and lt: "r + P * a < V * (s + P * b)"
  defines "q \<equiv> a div (b + 1)"
  shows "a < (b + 1) * V" and "q * (s + P * b) \<le> r + P * a" and "r + P * a - q * (s + P * b) < 2 * (P * V)"
proof -
  have "V * (s + P * b) \<le> V * (P * (b + 1))" using s b by (intro mult_left_mono) (simp_all add: distrib_left)
  then have "P * a < P * ((b + 1) * V)" using lt r by (simp add: algebra_simps)
  then show *: "a < (b + 1) * V" using mult_less_cancel_left_pos [OF P] by blast
  have d: "q * (b + 1) + a mod (b + 1) = a" unfolding q_def by (rule div_mult_mod_eq)
  have b1: "0 < b + 1" using b by linarith
  have m: "0 \<le> a mod (b + 1)" "a mod (b + 1) < b + 1" using pos_mod_sign [OF b1] pos_mod_bound [OF b1] by blast+
  have q: "0 \<le> q" using a b by (simp add: q_def pos_imp_zdiv_nonneg_iff)
  have qV: "q < V" using * a b digit_range(2) [of "a mod (b + 1)" "b + 1" q V] d m by (simp add: mult.commute)
  have "q * (s + P * b) \<le> q * (P * (b + 1))" using s q by (intro mult_left_mono) (simp_all add: distrib_left)
  also have "\<dots> = P * (q * (b + 1))" by (simp add: mult.left_commute)
  also have "\<dots> \<le> P * a" using d m P by (intro mult_left_mono) simp_all
  finally show "q * (s + P * b) \<le> r + P * a" using r by linarith
  have "a = q * b + q + a mod (b + 1)" using d by (simp add: distrib_left)
  then have "a + 1 - q * b \<le> q + b + 1" using m by linarith
  then have "a + 1 - q * b \<le> 2 * V" using qV b by linarith
  then have "P * (a + 1 - q * b) \<le> P * (2 * V)" using P by (intro mult_left_mono) simp_all
  moreover have "r + P * a - q * (s + P * b) < P * (a + 1 - q * b)"
  proof -
    have "0 \<le> q * s" using q s by simp
    then show ?thesis using r by (simp add: algebra_simps)
  qed
  ultimately show "r + P * a - q * (s + P * b) < 2 * (P * V)" by (simp add: mult.left_commute)
qed

text \<open>The divisor of the estimate: the upper two words of the divisor, and one.\<close>

definition estimates :: "u64 list \<Rightarrow> u64 list \<Rightarrow> bool" where
  "estimates BT TB \<longleftrightarrow> length BT = 2 \<and> (if val BT = 0 then W * W else val BT) = val (drop (length TB - 2) TB) + 1"

lemma estimate_step:
  assumes n: "even n" "0 < n" and l: "length R = n + 2" "length TB = n" and B: "0 < val TB" and e: "estimates BT TB"
    and lt: "val R < W * W * val TB"
  shows "\<exists>q R' Q'. AtomicDivide (take 4 (drop (n - 2) R)) BT = Some q \<and> CorrectQuotientEstimate R q TB = Some (R', Q') \<and>
    length R' = n + 2 \<and> length Q' = 2 \<and> val R' = val R mod val TB \<and> val Q' = val R div val TB"
proof -
  have n2: "2 \<le> n" using n by presburger
  define P where "P = W ^ (n - 2)"
  define a b where ab: "a = val (drop (n - 2) R)" "b = val (drop (n - 2) TB)"
  have vR: "val R = val (take (n - 2) R) + P * a" and vB: "val TB = val (take (n - 2) TB) + P * b"
    unfolding P_def ab using l by (intro val_halves; simp)+
  have lo: "length (take (n - 2) R) = n - 2" "length (take (n - 2) TB) = n - 2" "length (drop (n - 2) TB) = 2" "length (drop (n - 2) R) = 4"
    using l n2 by simp_all
  note r = val_range [OF lo(1), folded P_def] val_range [OF lo(2), folded P_def]
  have b: "0 \<le> b" "b < W * W" using val_range [OF lo(3)] by (simp_all add: ab power2_eq_square)
  have a: "0 \<le> a" by (simp add: ab)
  note E = estimate_arith [OF _ r(1,2) r(3,4) b a lt [unfolded vR vB], folded vR vB]
  have P: "0 < P" by (simp add: P_def)
  have be: "(if val BT = 0 then W * W else val BT) = b + 1" "length BT = 2" using e l(2) by (simp_all add: estimates_def ab)
  have t4: "take 4 (drop (n - 2) R) = drop (n - 2) R" "take 4 (drop (n - 2) R) = drop (n - 2) R" using lo(4) by simp_all
  have "val (take 4 (take 4 (drop (n - 2) R))) < (if val BT = 0 then W * W else val BT) * (W * W)"
    unfolding be t4 using E(1) [OF P] by (simp add: ab)
  then obtain q where q: "AtomicDivide (take 4 (drop (n - 2) R)) BT = Some q" "length q = 2" "val q = a div (b + 1)"
    using AtomicDivide_ok [of "take 4 (drop (n - 2) R)" BT] be lo(4) unfolding t4 ab(1) be(1) by auto
  have "W ^ (n + 1) = P * (W * W) * W"
  proof -
    have "n + 1 = (n - 2) + 3" using n2 by simp
    then have "W ^ (n + 1) = P * W ^ 3" unfolding P_def by (simp only: power_add)
    then show ?thesis by (simp add: power3_eq_cube)
  qed
  moreover have "2 * (P * (W * W)) \<le> P * (W * W) * W"
    using mult_left_mono [of 2 W "P * (W * W)"] P by (simp add: W_def mult.commute)
  ultimately have "val R - val q * val TB < W ^ (n + 1)" unfolding q(3) using E(3) [OF P] by linarith
  moreover have "val q * val TB \<le> val R" unfolding q(3) using E(2) [OF P] .
  ultimately show ?thesis
    using CorrectQuotientEstimate_ok [OF l(1,2) q(2) n B _ _ lt] q(1) by blast
qed

lemma divide_loop_ok:
  assumes nb: "even nb" "0 < nb" "length TB = nb" and B: "0 < val TB" and e: "estimates BT TB"
  shows "2 * n + nb \<le> length TA \<Longrightarrow> val TA < W ^ (2 * n) * val TB \<Longrightarrow>
    \<exists>TA' D. divide_loop TA Q TB BT n = Some (TA', D @ Q) \<and> length TA' = length TA \<and> length D = 2 * n \<and>
      val TA' = val TA mod val TB \<and> val D = val TA div val TB"
proof (induction n arbitrary: TA Q)
  case 0
  then show ?case by (simp add: mod_pos_pos_trivial div_pos_pos_trivial)
next
  case (Suc n)
  define j where "j = 2 * n"
  define Lo R Hi where d: "Lo = take j TA" "R = take (nb + 2) (drop j TA)" "Hi = drop (j + nb + 2) TA"
  have l: "length Lo = j" "length R = nb + 2" using Suc.prems(1) by (simp_all add: d j_def)
  have TA: "TA = Lo @ R @ Hi" 
    using append_take_drop_id [of j TA] append_take_drop_id [of "nb + 2" "drop j TA"]
    unfolding d drop_drop by (metis add.assoc add.commute)
  have v: "val TA = val Lo + W ^ j * (val R + W ^ (nb + 2) * val Hi)" unfolding TA using l by simp
  have Wj: "W ^ (2 * Suc n) = W ^ j * (W * W)" by (simp add: j_def power_add mult_2)
  have "W ^ j * (val R + W ^ (nb + 2) * val Hi) < W ^ j * (W * W * val TB)"
    using Suc.prems(2) v val_nonneg [of Lo] unfolding Wj by (simp only: mult.assoc)
  then have lt': "val R + W ^ (nb + 2) * val Hi < W * W * val TB" using mult_less_cancel_left_pos [OF W_power(1)] by blast
  have "W * W * val TB < W ^ (nb + 2) * 1" using val_range [OF nb(3)] by (simp add: power_add power2_eq_square mult.commute)
  then have "W ^ (nb + 2) * val Hi < W ^ (nb + 2) * 1" using lt' val_nonneg [of R] by linarith
  then have "val Hi < 1" using mult_less_cancel_left_pos [OF W_power(1)] by blast
  then have Hi: "val Hi = 0" using val_nonneg [of Hi] by linarith
  have lt: "val R < W * W * val TB" using lt' Hi by simp
  obtain q R' Q' where q: "AtomicDivide (take 4 (drop (nb - 2) R)) BT = Some q" "CorrectQuotientEstimate R q TB = Some (R', Q')"
      "length R' = nb + 2" "length Q' = 2" "val R' = val R mod val TB" "val Q' = val R div val TB"
    using estimate_step [OF nb(1,2) l(2) nb(3) B e lt] by blast
  define TA1 where "TA1 = Lo @ R' @ Hi"
  have TA1: "length TA1 = length TA" "val TA1 = val Lo + W ^ j * val R'" using l q(3) Hi by (simp_all add: TA1_def TA)
  have "val R' + 1 \<le> val TB" using q(5) B pos_mod_bound [of "val TB" "val R"] by linarith
  then have "W ^ j * (val R' + 1) \<le> W ^ j * val TB" by (intro mult_left_mono) simp_all
  then have "val TA1 < W ^ (2 * n) * val TB" using TA1(2) val_range [OF l(1)] unfolding j_def [symmetric] by (simp add: distrib_left)
  moreover have "2 * n + nb \<le> length TA1" using Suc.prems(1) TA1(1) by simp
  ultimately obtain TA' D where IH: "divide_loop TA1 (Q' @ Q) TB BT n = Some (TA', D @ Q' @ Q)" "length TA' = length TA1" "length D = 2 * n"
      "val TA' = val TA1 mod val TB" "val D = val TA1 div val TB"
    using Suc.IH [of TA1 "Q' @ Q"] by blast
  have step: "divide_loop TA Q TB BT (Suc n) = divide_loop TA1 (Q' @ Q) TB BT n"
    using q(1,2) nb(3) by (simp add: Let_def TA1_def d j_def)
  have vTA: "val TA = val TA1 + W ^ j * val Q' * val TB"
  proof -
    have "val R = val R' + val Q' * val TB" unfolding q(5,6) by simp
    then show ?thesis using v Hi TA1(2) by (simp add: distrib_left)
  qed
  have "val TA' = val TA mod val TB" unfolding IH(4) vTA by simp
  moreover have "val (D @ Q') = val TA div val TB" unfolding vTA using IH(3,5) B by (simp add: j_def)
  moreover have "length (D @ Q') = 2 * Suc n" using IH(3) q(4) by simp
  ultimately show ?case unfolding step using IH(1,2) TA1(1) by (intro exI [of _ TA'] exI [of _ "D @ Q'"]) simp
qed

lemma W_ge_1 [simp]: "1 \<le> W" "1 \<le> W ^ n"
  by (simp_all add: W_def)

lemma next_estimate:
  assumes "length TB = nb" and "2 \<le> nb"
  shows "estimates [TB ! (nb - 2) + 1, TB ! (nb - 1) + (if TB ! (nb - 2) + 1 = 0 then 1 else 0)] TB"
proof -
  define x y where xy: "x = TB ! (nb - 2)" "y = TB ! (nb - 1)"
  have "drop (nb - 2) TB = [x, y]"
    using assms by (simp add: xy list_eq_iff_nth_eq nth_Cons split: nat.splits)
  moreover have "(if val [x + 1, y + (if x + 1 = 0 then 1 else 0)] = 0 then W * W else val [x + 1, y + (if x + 1 = 0 then 1 else 0)]) = val [x, y] + 1"
  proof (cases "val [x, y] + 1 < W * W")
    case True
    have "val [x + 1, y + (if x + 1 = 0 then 1 else 0)] = val [x, y] + 1"
      using inc_pair_val(2) [of "[x, y]"] True by simp
    moreover have "val [x, y] + 1 \<noteq> 0" using val_nonneg [of "[x, y]"] by linarith
    ultimately show ?thesis by (simp only: if_False)
  next
    case False
    then have "val [x, y] = W * W - 1" using val_range [of "[x, y]" 2] by (simp add: power2_eq_square)
    then have e: "val [x, y] = val [- 1, - 1]" by (simp add: algebra_simps)
    have "[x, y] = [- 1, - 1]" using val_inj [OF _ e] by simp
    then have "x = - 1" "y = - 1" by simp_all
    then show ?thesis by (simp add: algebra_simps)
  qed
  ultimately show ?thesis
    unfolding estimates_def assms(1) xy [symmetric] by (intro conjI) (simp, simp only:)
qed

lemma normal_divisor:
  assumes l: "length B = nb" "2 \<le> nb" and top: "B ! (nb - 1) \<noteq> 0 \<or> B ! (nb - 2) \<noteq> 0"
  defines "sw \<equiv> shift_words B"
  defines "TB \<equiv> SetWords 0 sw @ take (nb - sw) B"
  defines "sb \<equiv> 64 - BitPrecision (TB ! (nb - 1))"
  defines "S \<equiv> fst (ShiftWordsLeftByBits TB sb)"
  shows "sw \<le> 1" and "sb < 64" and "length S = nb" and "val S = W ^ sw * 2 ^ sb * val B" and "2 ^ 63 * W ^ (nb - 1) \<le> val S"
proof -
  show sw: "sw \<le> 1" by (simp add: sw_def shift_words_def)
  have lT: "length TB = nb" using sw l by (simp add: TB_def SetWords_def)
  have "val B = val (take (nb - sw) B)"
  proof (cases "sw = 0")
    case False
    then have z: "sw = 1" "B ! (nb - 1) = 0" using l by (auto simp: sw_def shift_words_def split: if_splits)
    have "B = take (nb - 1) B @ [B ! (nb - 1)]"
      using l take_Suc_conv_app_nth [of "nb - 1" B] by simp
    then have "val B = val (take (nb - 1) B @ [B ! (nb - 1)])" by simp
    then show ?thesis using z by simp
  qed (use l in simp)
  then have vT: "val TB = W ^ sw * val B" by (simp add: TB_def SetWords_def)
  have t0: "TB ! (nb - 1) \<noteq> 0"
  proof (cases "sw = 0")
    case True
    then show ?thesis using l by (auto simp: TB_def SetWords_def sw_def shift_words_def split: if_splits)
  next
    case False
    then have z: "sw = 1" "B ! (nb - 1) = 0" using l by (auto simp: sw_def shift_words_def split: if_splits)
    moreover have "TB ! (nb - 1) = B ! (nb - 2)"
    proof -
      have "nb - 1 = Suc (nb - 2)" using l by simp
      then show ?thesis using z l by (simp add: TB_def SetWords_def)
    qed
    ultimately show ?thesis using top by simp
  qed
  define p where "p = BitPrecision (TB ! (nb - 1))"
  note P = BitPrecision_ok [OF t0, folded p_def]
  have sb: "sb = 64 - p" by (simp add: sb_def p_def)
  then show sb64: "sb < 64" using P by simp
  obtain S' c where S: "ShiftWordsLeftByBits TB sb = (S', c)" by fastforce
  note v = ShiftWordsLeftByBits_val [OF sb64 S, unfolded lT]
  have S': "S = S'" by (simp add: S_def S)
  show "length S = nb" using v S' by simp
  have split: "val TB = val (take (nb - 1) TB) + W ^ (nb - 1) * uint (TB ! (nb - 1))"
  proof -
    have "TB = take (nb - 1) TB @ [TB ! (nb - 1)]" using lT l take_Suc_conv_app_nth [of "nb - 1" TB] by simp
    then have "val TB = val (take (nb - 1) TB @ [TB ! (nb - 1)])" by simp
    then show ?thesis using lT by simp
  qed
  have lo: "0 \<le> val (take (nb - 1) TB)" "val (take (nb - 1) TB) < W ^ (nb - 1)"
    using val_range [of "take (nb - 1) TB" "nb - 1"] lT by simp_all
  have pw: "2 ^ sb * 2 ^ p = W" "2 ^ sb * 2 ^ (p - 1) = (2 :: int) ^ 63"
    using P unfolding sb W_def by (simp_all flip: power_add)
  have Wn: "W ^ nb = W ^ (nb - 1) * W" using l by (simp flip: power_Suc2)
  have "W ^ (nb - 1) * (uint (TB ! (nb - 1)) + 1) \<le> W ^ (nb - 1) * 2 ^ p" using P(4) by (intro mult_left_mono) simp_all
  then have "val TB < W ^ (nb - 1) * 2 ^ p" using split lo by (simp add: distrib_left)
  then have "2 ^ sb * val TB < 2 ^ sb * (W ^ (nb - 1) * 2 ^ p)" by simp
  also have "\<dots> = W ^ nb" unfolding Wn by (simp only: mult.left_commute [of "2 ^ sb"] pw(1))
  finally have "val S' + W ^ nb * uint c < W ^ nb * 1" using v by simp
  then have "W ^ nb * uint c < W ^ nb * 1" using val_nonneg [of S'] by linarith
  then have "uint c < 1" using mult_less_cancel_left_pos [OF W_power(1)] by blast
  then have "uint c = 0" using uint_W(1) [of c] by linarith
  then have vS: "val S = 2 ^ sb * val TB" using v S' by simp
  then show "val S = W ^ sw * 2 ^ sb * val B" unfolding vT by simp
  have "W ^ (nb - 1) * 2 ^ (p - 1) \<le> W ^ (nb - 1) * uint (TB ! (nb - 1))" using P(3) by (intro mult_left_mono) simp_all
  then have "W ^ (nb - 1) * 2 ^ (p - 1) \<le> val TB" using split lo by linarith
  then have "2 ^ sb * (W ^ (nb - 1) * 2 ^ (p - 1)) \<le> 2 ^ sb * val TB" by (intro mult_left_mono) simp_all
  then show "2 ^ 63 * W ^ (nb - 1) \<le> val S" unfolding vS pw(2) [symmetric] by (simp add: mult.left_commute mult.commute)
qed

lemma normal_dividend:
  fixes A :: "u64 list"
  assumes "sw \<le> 1" and "sb < 64"
  defines "S \<equiv> fst (ShiftWordsLeftByBits (SetWords 0 sw @ A @ SetWords 0 (2 - sw)) sb)"
  shows "length S = length A + 2" and "val S = W ^ sw * 2 ^ sb * val A" and "val S < 2 ^ 63 * W ^ (length A + 1)"
proof -
  let ?T = "SetWords 0 sw @ A @ SetWords 0 (2 - sw)"
  obtain S' c where S: "ShiftWordsLeftByBits ?T sb = (S', c)" by fastforce
  have l: "length ?T = length A + 2" using assms(1) by (simp add: SetWords_def)
  have vT: "val ?T = W ^ sw * val A" by (simp add: SetWords_def)
  note v = ShiftWordsLeftByBits_val [OF assms(2) S, unfolded l vT]
  have S': "S = S'" by (simp add: S_def S)
  show "length S = length A + 2" using v S' by simp
  have "W ^ sw * val A < W ^ sw * W ^ length A" using val_less [of A] by simp
  also have "\<dots> \<le> W ^ 1 * W ^ length A" using assms(1) by (intro mult_right_mono power_increasing) simp_all
  finally have "W ^ sw * val A < W ^ (length A + 1)" by simp
  then have lt: "2 ^ sb * (W ^ sw * val A) < 2 ^ sb * W ^ (length A + 1)" by simp
  also have "\<dots> \<le> 2 ^ 63 * W ^ (length A + 1)"
    using assms(2) by (intro mult_right_mono power_increasing) simp_all
  finally have lt: "2 ^ sb * (W ^ sw * val A) < 2 ^ 63 * W ^ (length A + 1)" .
  also have "\<dots> \<le> W * W ^ (length A + 1)" by (intro mult_right_mono) (simp_all add: W_def)
  finally have "val S' + W ^ (length A + 2) * uint c < W ^ (length A + 2) * 1" using v by simp
  then have "W ^ (length A + 2) * uint c < W ^ (length A + 2) * 1" using val_nonneg [of S'] by linarith
  then have "uint c < 1" using mult_less_cancel_left_pos [OF W_power(1)] by blast
  then have "uint c = 0" using uint_W(1) [of c] by linarith
  then have vS: "val S = 2 ^ sb * (W ^ sw * val A)" using v S' by simp
  then show "val S = W ^ sw * 2 ^ sb * val A" by simp
  show "val S < 2 ^ 63 * W ^ (length A + 1)" unfolding vS by (rule lt)
qed

text \<open>Undoing the normalisation.\<close>

lemma denormalize:
  assumes "sw \<le> 1" and "sb < 64" and "nb < length TA" and v: "val TA = W ^ sw * 2 ^ sb * r" and r: "0 \<le> r" "W ^ sw * 2 ^ sb * r < W ^ nb"
  shows "length (fst (ShiftWordsRightByBits (take nb (drop sw TA)) sb)) = nb"
    and "val (fst (ShiftWordsRightByBits (take nb (drop sw TA)) sb)) = r"
proof -
  let ?D = "drop sw TA"
  have lD: "nb \<le> length ?D" using assms(1,3) by simp
  have TA: "val TA = val (take sw TA) + W ^ sw * val ?D" using assms(1,3) by (intro val_halves) simp
  have "val (take sw TA) = val TA mod W ^ sw"
    using val_range [of "take sw TA" sw] assms(1,3) unfolding TA by (simp add: mod_pos_pos_trivial)
  then have "val (take sw TA) = 0" unfolding v by (simp add: mult.assoc)
  then have D: "val ?D = 2 ^ sb * r" using TA v by simp
  have "1 * (2 ^ sb * r) \<le> W ^ sw * (2 ^ sb * r)" using r(1) by (intro mult_right_mono) simp_all
  then have "2 ^ sb * r \<le> W ^ sw * (2 ^ sb * r)" by (simp only: mult_1)
  then have Dlt: "val ?D < W ^ nb" using D r(2) unfolding mult.assoc by linarith
  have "val ?D = val (take nb ?D) + W ^ nb * val (drop nb ?D)" using lD by (intro val_halves)
  then have "W ^ nb * val (drop nb ?D) < W ^ nb * 1" using Dlt val_nonneg [of "take nb ?D"] by linarith
  then have "val (drop nb ?D) < 1" using mult_less_cancel_left_pos [OF W_power(1)] by blast
  then have "val (drop nb ?D) = 0" using val_nonneg [of "drop nb ?D"] by linarith
  then have t: "val (take nb ?D) = 2 ^ sb * r" using D lD val_halves [of nb ?D] by simp
  obtain X c where X: "ShiftWordsRightByBits (take nb ?D) sb = (X, c)" by fastforce
  note x = ShiftWordsRightByBits_val [OF assms(2) X]
  show "length (fst (ShiftWordsRightByBits (take nb ?D) sb)) = nb" using x X lD by simp
  show "val (fst (ShiftWordsRightByBits (take nb ?D) sb)) = r" using x X t by simp
qed

lemma divisor_top_pos: "2 ^ 63 * W ^ k \<le> x \<Longrightarrow> 0 < x"
  by (rule less_le_trans [of _ "2 ^ 63 * W ^ k"]) simp_all

lemma first_digit:
  assumes nb: "even nb" "2 \<le> nb" "length TB = nb" and na: "even na" "nb \<le> na" "length TA = na + 2"
    and B: "2 ^ 63 * W ^ (nb - 1) \<le> val TB" and e: "estimates BT TB"
    and top: "TA ! (na + 1) = 0" "TA ! na \<le> 1"
  shows "\<exists>R q TA' Q. top_loop (drop (na - nb) TA) 0 TB = Some (R, q) \<and>
    divide_loop (take (na - nb) TA @ R) [q, 0] TB BT ((na - nb) div 2) = Some (TA', Q) \<and>
    length TA' = na + 2 \<and> length Q = na - nb + 2 \<and> val TA' = val TA mod val TB \<and> val Q = val TA div val TB"
proof -
  define j where "j = na - nb"
  define R where "R = drop j TA"
  have lR: "length R = nb + 2" "length (take j TA) = j" using na by (simp_all add: R_def j_def)
  have B0: "0 < val TB" by (rule divisor_top_pos [OF B])
  have R1: "R ! (nb + 1) = 0" "R ! nb \<le> 1" using top na by (simp_all add: R_def j_def)
  have dR: "drop (Suc nb) R = [0]" using lR R1(1) by (metis Cons_nth_drop_Suc add_2_eq_Suc' drop_all le_refl lessI Suc_eq_plus1)
  have vR: "val K = val (take (Suc nb) K)" if "length K = nb + 2" "drop (Suc nb) K = [0]" for K
    using val_halves [of "Suc nb" K] that by simp
  have t: "val (take (Suc nb) R) = val (take nb R) + W ^ nb * uint (R ! nb)"
    using lR by (simp add: take_Suc_conv_app_nth)
  have "uint (R ! nb) \<le> 1" using R1(2) by (simp add: word_le_def)
  then have "W ^ nb * uint (R ! nb) \<le> W ^ nb * 1" by (intro mult_left_mono) simp_all
  then have "val (take (Suc nb) R) < 2 * W ^ nb" 
  proof -
    have "val (take nb R) < W ^ nb" using val_range(2) [of "take nb R" nb] lR by simp
    then show ?thesis using t \<open>W ^ nb * uint (R ! nb) \<le> W ^ nb * 1\<close> by linarith
  qed
  also have "2 * W ^ nb = 4 * (2 ^ 63 * W ^ (nb - 1))"
  proof -
    have "W ^ nb = W * W ^ (nb - 1)" using nb(2) by (simp flip: power_Suc)
    then show ?thesis by (simp add: W_def)
  qed
  also have "\<dots> \<le> 4 * val TB" using B by simp
  finally have "val (take (Suc nb) R) div val TB < 4"
    using digit_range(2) [of "val (take (Suc nb) R) mod val TB" "val TB" "val (take (Suc nb) R) div val TB" 4] B0 by simp
  then have "uint (0 :: u64) + val (take (Suc nb) R) div val TB < W" by (simp add: W_def)
  then obtain R' q where R': "top_loop R 0 TB = Some (R', q)" "length R' = length R" "drop (Suc nb) R' = drop (Suc nb) R"
      "val (take (Suc nb) R') = val (take (Suc nb) R) mod val TB" "uint q = val (take (Suc nb) R) div val TB"
    using top_loop_ok [OF nb(3,1) B0, of R 0] lR by auto
  have v: "val R = val R' + uint q * val TB" "val R' = val R mod val TB"
    using vR [of R] vR [of R'] R' lR dR by simp_all
  define TA1 where "TA1 = take j TA @ R'"
  have lTA1: "length TA1 = na + 2" using lR R'(2) na by (simp add: TA1_def j_def)
  have vTA: "val TA = val (take j TA) + W ^ j * val R" using na unfolding R_def by (intro val_halves) (simp add: j_def)
  have vTA1: "val TA1 = val (take j TA) + W ^ j * val R'" using lR by (simp add: TA1_def)
  have "val R' + 1 \<le> val TB" using v(2) pos_mod_bound [OF B0, of "val R"] by linarith
  then have "W ^ j * (val R' + 1) \<le> W ^ j * val TB" by (intro mult_left_mono) simp_all
  then have "val TA1 < W ^ j * val TB" unfolding vTA1 using val_range [OF lR(2)] by (simp add: distrib_left)
  moreover have j2: "2 * (j div 2) = j" using nb(1) na(1,2) by (simp add: j_def)
  ultimately obtain TA' D where D: "divide_loop TA1 [q, 0] TB BT (j div 2) = Some (TA', D @ [q, 0])" "length TA' = length TA1" "length D = j"
      "val TA' = val TA1 mod val TB" "val D = val TA1 div val TB"
    using divide_loop_ok [OF nb(1) _ nb(3) B0 e, of "j div 2" TA1 "[q, 0]"] nb(2) na(2) lTA1 by (auto simp: j_def)
  have sum: "val TA = val TA1 + W ^ j * uint q * val TB" unfolding vTA vTA1 v(1) by (simp add: distrib_left)
  have "val TA' = val TA mod val TB" unfolding D(4) sum by simp
  moreover have "val (D @ [q, 0]) = val TA div val TB" unfolding sum using D(3,5) B0 by simp
  moreover have "length (D @ [q, 0]) = na - nb + 2" using D(3) by (simp add: j_def)
  ultimately show ?thesis
    using R'(1) D(1,2) lTA1 unfolding R_def TA1_def j_def by auto
qed

lemma no_first_digit:
  assumes nb: "even nb" "2 \<le> nb" "length TB = nb" and na: "even na" "nb \<le> na" "length TA = na + 2"
    and B: "2 ^ 63 * W ^ (nb - 1) \<le> val TB" and e: "estimates BT TB" and A: "val TA < 2 ^ 63 * W ^ (na + 1)"
  shows "Compare (drop (na + 2 - nb) TA) TB nb < 0"
    and "\<exists>TA' Q. divide_loop TA [] TB BT ((na + 2 - nb) div 2) = Some (TA', Q) \<and>
      length TA' = na + 2 \<and> length Q = na - nb + 2 \<and> val TA' = val TA mod val TB \<and> val Q = val TA div val TB"
proof -
  define j where "j = na + 2 - nb"
  have B0: "0 < val TB" by (rule divisor_top_pos [OF B])
  have vTA: "val TA = val (take j TA) + W ^ j * val (drop j TA)" using na nb by (intro val_halves) (simp add: j_def)
  have lD: "length (drop j TA) = nb" using na by (simp add: j_def)
  have "na + 1 = j + (nb - 1)" using na nb by (simp add: j_def)
  then have "2 ^ 63 * W ^ (na + 1) = W ^ j * (2 ^ 63 * W ^ (nb - 1))" by (simp only: power_add mult.left_commute)
  then have W1: "2 ^ 63 * W ^ (na + 1) \<le> W ^ j * val TB" using B by simp
  then have "W ^ j * val (drop j TA) < W ^ j * val TB" using A vTA val_nonneg [of "take j TA"] by linarith
  then have "val (drop j TA) < val TB" using mult_less_cancel_left_pos [OF W_power(1)] by blast
  then show "Compare (drop (na + 2 - nb) TA) TB nb < 0"
    using compare_val [of nb "drop j TA" TB] lD nb(3) by (simp add: j_def)
  have j2: "2 * (j div 2) = j" using nb(1) na(1,2) by (simp add: j_def)
  have "val TA < W ^ j * val TB" using A W1 by linarith
  then obtain TA' D where "divide_loop TA [] TB BT (j div 2) = Some (TA', D @ [])" "length TA' = length TA" "length D = j"
      "val TA' = val TA mod val TB" "val D = val TA div val TB"
    using divide_loop_ok [OF nb(1) _ nb(3) B0 e, of "j div 2" TA "[]"] nb(2) na j2 by (auto simp: j_def)
  then show "\<exists>TA' Q. divide_loop TA [] TB BT ((na + 2 - nb) div 2) = Some (TA', Q) \<and>
      length TA' = na + 2 \<and> length Q = na - nb + 2 \<and> val TA' = val TA mod val TB \<and> val Q = val TA div val TB"
    using na by (auto simp: j_def)
qed

lemma Divide_ok:
  assumes "even (length A)" and "even (length B)" and "2 \<le> length B" and "length B \<le> length A"
    and top: "B ! (length B - 1) \<noteq> 0 \<or> B ! (length B - 2) \<noteq> 0"
  shows "\<exists>R Q. Divide A B = Some (R, Q) \<and> length R = length B \<and> length Q = length A - length B + 2 \<and>
    val R = val A mod val B \<and> val Q = val A div val B"
proof -
  define na nb where "na = length A" and "nb = length B"
  note n = assms(1-4) [folded na_def nb_def]
  have l: "length A = na" "length B = nb" by (simp_all add: na_def nb_def)
  define sw where "sw = shift_words B"
  define TB0 where "TB0 = SetWords 0 sw @ take (nb - sw) B"
  define sb where "sb = 64 - BitPrecision (TB0 ! (nb - 1))"
  define TB where "TB = fst (ShiftWordsLeftByBits TB0 sb)"
  define TA where "TA = fst (ShiftWordsLeftByBits (SetWords 0 sw @ A @ SetWords 0 (2 - sw)) sb)"
  define BT where "BT = [TB ! (nb - 2) + 1, TB ! (nb - 1) + (if TB ! (nb - 2) + 1 = 0 then 1 else 0)]"
  define s where "s = W ^ sw * 2 ^ sb"
  note B = normal_divisor [OF l(2) n(3) top [unfolded l], folded sw_def, folded TB0_def, folded sb_def, folded TB_def, folded s_def]
  note A = normal_dividend [OF B(1,2), of A, folded TA_def, folded s_def, unfolded l(1)]
  have e: "estimates BT TB" unfolding BT_def by (rule next_estimate [OF B(3) n(3)])
  have s: "0 < s" by (simp add: s_def)
  have B0: "0 < val TB" by (rule divisor_top_pos [OF B(5)])
  then have b0: "0 < val B" unfolding B(4) using s by (simp add: zero_less_mult_iff)
  define split where "split = (if TA ! (na + 1) = 0 \<and> TA ! na \<le> 1 then
                  do {
                    (R, q) \<leftarrow> top_loop (drop (na - nb) TA) 0 TB;
                    divide_loop (take (na - nb) TA @ R) [q, 0] TB BT ((na - nb) div 2)
                  }
                else if Compare (drop (na + 2 - nb) TA) TB nb < 0 then
                  divide_loop TA [] TB BT ((na + 2 - nb) div 2)
                else None)"
  have "\<exists>TA' Q. split = Some (TA', Q) \<and> length TA' = na + 2 \<and> length Q = na - nb + 2 \<and>
      val TA' = val TA mod val TB \<and> val Q = val TA div val TB"
  proof (cases "TA ! (na + 1) = 0 \<and> TA ! na \<le> 1")
    case True
    then show ?thesis
      using first_digit [OF n(2,3) B(3) n(1,4) A(1) B(5) e] by (auto simp: split_def)
  next
    case False
    then show ?thesis
      using no_first_digit [OF n(2,3) B(3) n(1,4) A(1) B(5) e A(3)] by (auto simp: split_def)
  qed
  then obtain TA' Q where r: "split = Some (TA', Q)" "length TA' = na + 2" "length Q = na - nb + 2"
      "val TA' = s * (val A mod val B)" "val Q = val A div val B"
    unfolding A(2) B(4) using s by auto
  have lt: "nb < length TA'" using r(2) n(4) by simp
  have m: "0 \<le> val A mod val B" "val A mod val B < val B" using b0 by simp_all
  then have "s * (val A mod val B) < W ^ nb"
    using mult_strict_left_mono [OF m(2) s] val_range(2) [OF B(3)] unfolding B(4) by linarith
  note D = denormalize [OF B(1,2) lt r(4) [unfolded s_def] m(1) this [unfolded s_def]]
  have "Divide A B = do { (TA, Q) \<leftarrow> split; Some (fst (ShiftWordsRightByBits (take nb (drop sw TA)) sb), Q) }"
    using n top B(2) unfolding Divide_def Let_def l sw_def [symmetric] TB0_def [symmetric] sb_def [symmetric] TB_def [symmetric]
      TA_def [symmetric] BT_def [symmetric] split_def by auto
  then show ?thesis using r D l by simp
qed

text \<open>C15: The division of arrays of words is exact: for arrays of even length, the divisor not longer than
  the dividend and its upper two words not both zero, no assertion of \<open>Divide\<close> or
  \<open>CorrectQuotientEstimate\<close> fails, the correction loops end, nothing is written past an array, and
  the results are the quotient and the remainder.\<close>

theorem words_division_exact:
  assumes "even (length A)" and "even (length B)" and "2 \<le> length B" and "length B \<le> length A"
    and "B ! (length B - 1) \<noteq> 0 \<or> B ! (length B - 2) \<noteq> 0"
  shows "\<exists>R Q. Divide A B = Some (R, Q) \<and> length R = length B \<and> length Q = length A - length B + 2 \<and>
    val A = val Q * val B + val R \<and> val R < val B"
proof -
  obtain R Q where d: "Divide A B = Some (R, Q)" "length R = length B" "length Q = length A - length B + 2"
      "val R = val A mod val B" "val Q = val A div val B"
    using Divide_ok [OF assms] by blast
  have "val B \<noteq> 0"
  proof
    assume "val B = 0"
    then have "val (take (length B - 2) B) + W ^ (length B - 2) * val (drop (length B - 2) B) = 0"
      using val_halves [of "length B - 2" B] assms(3) by simp
    then have "val (drop (length B - 2) B) = 0"
      by (metis W_power(3) add_nonneg_eq_0_iff mult_eq_0_iff mult_nonneg_nonneg W_power(2) val_nonneg)
    then have "drop (length B - 2) B = [0, 0]" using val_inj [of "drop (length B - 2) B" "[0, 0]"] assms(3) by simp
    moreover have "B ! (length B - 2) = drop (length B - 2) B ! 0" "B ! (length B - 1) = drop (length B - 2) B ! 1"
      using assms(3) by (simp_all add: numeral_2_eq_2 Suc_diff_Suc)
    ultimately show False using assms(5) by simp
  qed
  then have "0 < val B" using val_nonneg [of B] by linarith
  then show ?thesis using d by simp
qed

theorem words_division_exact_witness:
  "\<exists>R Q. Divide [7, 3, 0, 5, 0, 1] [9, - 1, 6, 0] = Some (R, Q) \<and> length R = length [9, - 1, 6, 0 :: u64] \<and>
     length Q = length [7, 3, 0, 5, 0, 1 :: u64] - length [9, - 1, 6, 0 :: u64] + 2 \<and>
     val [7, 3, 0, 5, 0, 1] = val Q * val [9, - 1, 6, 0] + val R \<and> val R < val [9, - 1, 6, 0]"
  by (rule words_division_exact) simp_all

end
