(* ===== verification/CPP_Integer.thy ===== *)
theory CPP_Integer
  imports CPP_Divide CPP_Montgomery
begin

text \<open>
  The class \<open>Integer\<close> of \<^verbatim>\<open>src/src/utils/lib/CryptoPP.cc\<close> and \<^verbatim>\<open>CryptoPP.h\<close>: a sign and an array of
  words whose length is a power of two. An operation returns the object that the C++ operation
  builds or changes, with the length of its array, because the library computes with lengths. The
  value of an object is \<open>ival\<close>. Lengths are C \<open>unsigned int\<close>s; the laws are for arrays of at most
  \<open>2 ^ 28\<close> words, far below the point where a length wraps.
\<close>

section \<open>Sizes\<close>

definition BitsToBytes :: "nat \<Rightarrow> nat" where
  "BitsToBytes bitCount = (bitCount + 7) div 8"

definition BytesToWords :: "nat \<Rightarrow> nat" where
  "BytesToWords byteCount = (byteCount + 8 - 1) div 8"

definition BitsToWords :: "nat \<Rightarrow> nat" where
  "BitsToWords bitCount = (bitCount + 64 - 1) div 64"

fun CountWords :: "u64 list \<Rightarrow> nat \<Rightarrow> nat" where
  "CountWords X N = (if N \<noteq> 0 \<and> X ! (N - 1) = 0 then CountWords X (N - 1) else N)"

declare CountWords.simps [simp del]

text \<open>\<open>BitPrecision\<close> at the type \<open>unsigned int\<close>.\<close>

definition RoundupSize :: "nat \<Rightarrow> nat" where
  "RoundupSize n =
     (if n \<le> 8 then [2, 2, 2, 4, 4, 8, 8, 8, 8] ! n
      else if n \<le> 16 then 16
      else if n \<le> 32 then 32
      else if n \<le> 64 then 64
      else 2 ^ bit_precision_loop (of_nat (n - 1)) 0 32)"

section \<open>Objects\<close>

datatype sign = POSITIVE | NEGATIVE

record Integer =
  reg :: "u64 list"
  sign :: sign

definition CleanGrow :: "u64 list \<Rightarrow> nat \<Rightarrow> u64 list" where
  "CleanGrow R newSize = (if newSize > length R then R @ SetWords 0 (newSize - length R) else R)"

definition WordCount :: "Integer \<Rightarrow> nat" where
  "WordCount x = CountWords (reg x) (length (reg x))"

definition IsNegative :: "Integer \<Rightarrow> bool" where
  "IsNegative x \<longleftrightarrow> sign x = NEGATIVE"

definition NotNegative :: "Integer \<Rightarrow> bool" where
  "NotNegative x \<longleftrightarrow> \<not> IsNegative x"

text \<open>The operator \<open>!\<close>, and the predicates built on it.\<close>

definition IsZero :: "Integer \<Rightarrow> bool" where
  "IsZero x \<longleftrightarrow> (if IsNegative x then False else reg x ! 0 = 0 \<and> WordCount x = 0)"

definition NotZero :: "Integer \<Rightarrow> bool" where
  "NotZero x \<longleftrightarrow> \<not> IsZero x"

definition IsPositive :: "Integer \<Rightarrow> bool" where
  "IsPositive x \<longleftrightarrow> NotNegative x \<and> NotZero x"

definition Integer_Zero :: Integer where
  "Integer_Zero = \<lparr>reg = [0, 0], sign = POSITIVE\<rparr>"

text \<open>The constructors: from a \<open>long\<close>, from a word and a length, and the copy, which keeps only the
  words that the value needs.\<close>

definition Integer_long :: "64 word \<Rightarrow> Integer" where
  "Integer_long v = (if 0 \<le> sint v then \<lparr>reg = [v, 0], sign = POSITIVE\<rparr> else \<lparr>reg = [- v, 0], sign = NEGATIVE\<rparr>)"

definition Integer_One :: Integer where
  "Integer_One = Integer_long 1"

definition Integer_words :: "u64 \<Rightarrow> nat \<Rightarrow> Integer" where
  "Integer_words v n = \<lparr>reg = v # SetWords 0 (RoundupSize n - 1), sign = POSITIVE\<rparr>"

definition Integer_copy :: "Integer \<Rightarrow> Integer" where
  "Integer_copy t = \<lparr>reg = take (RoundupSize (WordCount t)) (reg t), sign = sign t\<rparr>"

definition Negate :: "Integer \<Rightarrow> Integer" where
  "Negate x = (if NotZero x then x\<lparr>sign := if sign x = POSITIVE then NEGATIVE else POSITIVE\<rparr> else x)"

definition AbsoluteValue :: "Integer \<Rightarrow> Integer" where
  "AbsoluteValue x = (Integer_copy x)\<lparr>sign := POSITIVE\<rparr>"

definition Minus_unary :: "Integer \<Rightarrow> Integer" where
  "Minus_unary x = Negate (Integer_copy x)"

section \<open>Bits and bytes\<close>

definition GetBit :: "Integer \<Rightarrow> nat \<Rightarrow> bool" where
  "GetBit x n = (if n div 64 \<ge> length (reg x) then False else bit (reg x ! (n div 64)) (n mod 64))"

definition SetBit :: "Integer \<Rightarrow> nat \<Rightarrow> bool \<Rightarrow> Integer" where
  "SetBit x n b =
     (if b then
        let R = CleanGrow (reg x) (RoundupSize (BitsToWords (n + 1)))
        in x\<lparr>reg := R[n div 64 := R ! (n div 64) OR push_bit (n mod 64) 1]\<rparr>
      else if n div 64 < length (reg x) then
        x\<lparr>reg := (reg x)[n div 64 := reg x ! (n div 64) AND NOT (push_bit (n mod 64) 1)]\<rparr>
      else x)"

definition Power2 :: "nat \<Rightarrow> Integer" where
  "Power2 e = SetBit (Integer_words 0 (BitsToWords (e + 1))) e True"

section \<open>Sums and differences\<close>

definition grow_carry :: "u64 list \<Rightarrow> u64 \<Rightarrow> u64 list" where
  "grow_carry R carry = (if carry \<noteq> 0 then (CleanGrow R (2 * length R))[length R := 1] else R)"

definition PositiveAdd :: "Integer \<Rightarrow> Integer \<Rightarrow> Integer" where
  "PositiveAdd a b =
     (let n = length (reg a); m = length (reg b);
          (R, carry) =
            (if n = m then Add (reg a) (reg b)
             else if n > m then
               let (C, carry) = Add (take m (reg a)) (reg b);
                   (D, carry) = Increment (drop m (reg a)) carry
               in (C @ D, carry)
             else
               let (C, carry) = Add (reg a) (take n (reg b));
                   (D, carry) = Increment (drop n (reg b)) carry
               in (C @ D, carry))
      in \<lparr>reg = grow_carry R carry, sign = POSITIVE\<rparr>)"

text \<open>The array \<open>D\<close> is what the object of the result holds before; only the words that are computed
  are written.\<close>

definition PositiveSubtract :: "u64 list \<Rightarrow> Integer \<Rightarrow> Integer \<Rightarrow> Integer" where
  "PositiveSubtract D a b =
     (let aSize = WordCount a; aSize = aSize + aSize mod 2;
          bSize = WordCount b; bSize = bSize + bSize mod 2;
          A = take aSize (reg a); B = take bSize (reg b)
      in if aSize = bSize then
           (if Compare (reg a) (reg b) aSize \<ge> 0
            then \<lparr>reg = fst (Subtract A B) @ drop aSize D, sign = POSITIVE\<rparr>
            else \<lparr>reg = fst (Subtract B A) @ drop aSize D, sign = NEGATIVE\<rparr>)
         else if aSize > bSize then
           (let (C, borrow) = Subtract (take bSize A) B
            in \<lparr>reg = C @ fst (Decrement (drop bSize A) borrow) @ drop aSize D, sign = POSITIVE\<rparr>)
         else
           (let (C, borrow) = Subtract (take aSize B) A
            in \<lparr>reg = C @ fst (Decrement (drop aSize B) borrow) @ drop bSize D, sign = NEGATIVE\<rparr>))"

text \<open>The borrow that is left in the last two branches, which the code asserts to be 0: the lemma
  \<open>PositiveSubtract_asserted\<close> shows that it always is.\<close>

definition PositiveSubtract_borrow :: "Integer \<Rightarrow> Integer \<Rightarrow> u64" where
  "PositiveSubtract_borrow a b =
     (let aSize = WordCount a; aSize = aSize + aSize mod 2;
          bSize = WordCount b; bSize = bSize + bSize mod 2;
          A = take aSize (reg a); B = take bSize (reg b)
      in if aSize = bSize then 0
         else if aSize > bSize then snd (Decrement (drop bSize A) (snd (Subtract (take bSize A) B)))
         else snd (Decrement (drop aSize B) (snd (Subtract (take aSize B) A))))"

definition Plus :: "Integer \<Rightarrow> Integer \<Rightarrow> Integer" where
  "Plus a b =
     (let D = reg (Integer_words 0 (max (length (reg a)) (length (reg b))))
      in if NotNegative a then
           (if NotNegative b then PositiveAdd a b else PositiveSubtract D a b)
         else
           (if NotNegative b then PositiveSubtract D b a else (PositiveAdd a b)\<lparr>sign := NEGATIVE\<rparr>))"

definition Minus :: "Integer \<Rightarrow> Integer \<Rightarrow> Integer" where
  "Minus a b =
     (let D = reg (Integer_words 0 (max (length (reg a)) (length (reg b))))
      in if NotNegative a then
           (if NotNegative b then PositiveSubtract D a b else PositiveAdd a b)
         else
           (if NotNegative b then (PositiveAdd a b)\<lparr>sign := NEGATIVE\<rparr> else PositiveSubtract D b a))"

definition PositiveCompare :: "Integer \<Rightarrow> Integer \<Rightarrow> int" where
  "PositiveCompare x t =
     (if WordCount x = WordCount t then Compare (reg x) (reg t) (WordCount x)
      else if WordCount x > WordCount t then 1 else -1)"

definition Integer_Compare :: "Integer \<Rightarrow> Integer \<Rightarrow> int" where
  "Integer_Compare x t =
     (if NotNegative x then (if NotNegative t then PositiveCompare x t else 1)
      else (if NotNegative t then -1 else - PositiveCompare x t))"

definition Integer_inc :: "Integer \<Rightarrow> Integer" where
  "Integer_inc x =
     (if NotNegative x then
        let (R, carry) = Increment (reg x) 1 in x\<lparr>reg := grow_carry R carry\<rparr>
      else
        let x = x\<lparr>reg := fst (Decrement (reg x) 1)\<rparr>
        in if WordCount x = 0 then Integer_Zero else x)"

definition Integer_dec :: "Integer \<Rightarrow> Integer" where
  "Integer_dec x =
     (if IsNegative x then
        let (R, carry) = Increment (reg x) 1 in x\<lparr>reg := grow_carry R carry\<rparr>
      else
        let (R, borrow) = Decrement (reg x) 1
        in if borrow \<noteq> 0 then Minus_unary Integer_One else x\<lparr>reg := R\<rparr>)"
section \<open>Values and well-formed objects\<close>

definition ival :: "Integer \<Rightarrow> int" where
  "ival x = (if sign x = NEGATIVE then - val (reg x) else val (reg x))"

definition wf :: "Integer \<Rightarrow> bool" where
  "wf x \<longleftrightarrow> (\<exists>k. length (reg x) = 2 ^ Suc k) \<and> (sign x = NEGATIVE \<longrightarrow> val (reg x) \<noteq> 0)"

definition small :: "Integer \<Rightarrow> bool" where
  "small x \<longleftrightarrow> length (reg x) \<le> 2 ^ 28"

lemma wf_length: "wf x \<Longrightarrow> even (length (reg x)) \<and> 2 \<le> length (reg x)"
  by (auto simp: wf_def)

lemma wf_nonempty: "wf x \<Longrightarrow> reg x \<noteq> []"
  using wf_length [of x] by auto

subsection \<open>Sizes\<close>

lemma val_take_nth: "n < length A \<Longrightarrow> val (take (Suc n) A) = val (take n A) + W ^ n * uint (A ! n)"
  by (simp add: take_Suc_conv_app_nth)

lemma CountWords_ok: "N \<le> length X \<Longrightarrow>
   CountWords X N \<le> N \<and> val (take (CountWords X N) X) = val (take N X) \<and> (CountWords X N \<noteq> 0 \<longrightarrow> X ! (CountWords X N - 1) \<noteq> 0)"
proof (induction X N rule: CountWords.induct)
  case (1 X N)
  show ?case
  proof (cases "N \<noteq> 0 \<and> X ! (N - 1) = 0")
    case True
    then obtain m where m: "N = Suc m" by (cases N) simp_all
    then have "val (take N X) = val (take (N - 1) X)" using val_take_nth [of m X] "1.prems" True by simp
    moreover have "CountWords X N = CountWords X (N - 1)" using True by (subst CountWords.simps) (simp only: simp_thms if_True)
    moreover have "N - 1 \<le> length X" using "1.prems" by simp
    ultimately show ?thesis using "1.IH" [OF True] by (metis diff_le_self order.trans)
  next
    case False
    then have "CountWords X N = N" by (subst CountWords.simps) auto
    then show ?thesis using False by auto
  qed
qed

lemma WordCount_ok:
  shows "WordCount x \<le> length (reg x)" and "val (take (WordCount x) (reg x)) = val (reg x)"
    and "val (reg x) < W ^ WordCount x" and "WordCount x \<noteq> 0 \<Longrightarrow> W ^ (WordCount x - 1) \<le> val (reg x)"
    and "WordCount x \<noteq> 0 \<Longrightarrow> reg x ! (WordCount x - 1) \<noteq> 0"
proof -
  note c = CountWords_ok [of "length (reg x)" "reg x", folded WordCount_def]
  show l: "WordCount x \<le> length (reg x)" and v: "val (take (WordCount x) (reg x)) = val (reg x)" using c by simp_all
  show "val (reg x) < W ^ WordCount x" using val_range(2) [of "take (WordCount x) (reg x)" "WordCount x"] l v by simp
  assume z: "WordCount x \<noteq> 0"
  then show t: "reg x ! (WordCount x - 1) \<noteq> 0" using c by simp
  then have "uint (reg x ! (WordCount x - 1)) \<noteq> 0" by (metis uint_0_iff)
  then have "1 \<le> uint (reg x ! (WordCount x - 1))" using uint_W(1) [of "reg x ! (WordCount x - 1)"] by linarith
  then have "W ^ (WordCount x - 1) * 1 \<le> W ^ (WordCount x - 1) * uint (reg x ! (WordCount x - 1))" by (intro mult_left_mono) simp_all
  moreover have "val (reg x) = val (take (WordCount x - 1) (reg x)) + W ^ (WordCount x - 1) * uint (reg x ! (WordCount x - 1))"
    using val_take_nth [of "WordCount x - 1" "reg x"] z l v by simp
  ultimately show "W ^ (WordCount x - 1) \<le> val (reg x)" using val_nonneg [of "take (WordCount x - 1) (reg x)"] by linarith
qed

lemma WordCount_0: "WordCount x = 0 \<longleftrightarrow> val (reg x) = 0"
proof (cases "WordCount x = 0")
  case True
  then have "val (reg x) < 1" using WordCount_ok(3) [of x] by simp
  then show ?thesis using True val_nonneg [of "reg x"] by linarith
next
  case False
  then have "0 < val (reg x)" using WordCount_ok(4) [OF False] less_le_trans [OF W_power(1)] by blast
  then show ?thesis using False by simp
qed

lemma WordCount_le: "val (reg x) < W ^ n \<Longrightarrow> WordCount x \<le> n"
proof (rule ccontr)
  assume v: "val (reg x) < W ^ n" and "\<not> WordCount x \<le> n"
  then have "n \<le> WordCount x - 1" "WordCount x \<noteq> 0" by simp_all
  then have "W ^ n \<le> W ^ (WordCount x - 1)" by (intro power_increasing) simp_all
  then show False using WordCount_ok(4) [OF \<open>WordCount x \<noteq> 0\<close>] v by linarith
qed

lemma BitPrecision_uint:
  assumes "0 < m" and "m < 2 ^ 32"
  shows "2 ^ (bit_precision_loop (of_nat m) 0 32 - 1) \<le> m" and "m < 2 ^ bit_precision_loop (of_nat m) 0 32"
    and "0 < bit_precision_loop (of_nat m) 0 32"
proof -
  have u: "uint (of_nat m :: u64) = int m" using assms(2) by (simp add: uint_nat unat_of_nat)
  have "2 ^ 0 \<le> uint (of_nat m :: u64)" "uint (of_nat m :: u64) < 2 ^ 32" using assms unfolding u by simp_all
  from bit_precision_loop_ok [OF _ this] obtain p where p: "p = bit_precision_loop (of_nat m) 0 32"
      "0 < p" "2 ^ (p - 1) \<le> int m" "int m < 2 ^ p" unfolding u by (auto simp: Let_def)
  have "int (2 ^ (p - 1)) \<le> int m" "int m < int (2 ^ p)" using p by simp_all
  then show "2 ^ (bit_precision_loop (of_nat m) 0 32 - 1) \<le> m" "m < 2 ^ bit_precision_loop (of_nat m) 0 32" "0 < bit_precision_loop (of_nat m) 0 32"
    using p unfolding of_nat_le_iff of_nat_less_iff by simp_all
qed

lemma round_table:
  "RoundupSize 0 = 2" "RoundupSize 1 = 2" "RoundupSize (Suc 0) = 2" "RoundupSize 2 = 2" "RoundupSize 3 = 4" "RoundupSize 4 = 4" "RoundupSize 5 = 8"
  "RoundupSize 6 = 8" "RoundupSize 7 = 8" "RoundupSize 8 = 8"
  by (simp_all add: RoundupSize_def)

text \<open>The smallest power of two that is at least \<open>n\<close> and at least 2.\<close>

lemma RoundupSize_ok:
  assumes "n \<le> 2 ^ 32"
  shows "\<exists>k. RoundupSize n = 2 ^ Suc k \<and> n \<le> 2 ^ Suc k \<and> (\<forall>j. n \<le> 2 ^ Suc j \<longrightarrow> k \<le> j)"
proof -
  have least: "\<exists>k. m = 2 ^ Suc k \<and> n \<le> 2 ^ Suc k \<and> (\<forall>j. n \<le> 2 ^ Suc j \<longrightarrow> k \<le> j)"
    if "m = 2 ^ Suc k" "n \<le> 2 ^ Suc k" "2 ^ k < n \<or> k = 0" for m k
  proof -
    have "k \<le> j" if "n \<le> 2 ^ Suc j" for j
    proof (rule ccontr)
      assume "\<not> k \<le> j"
      then have "(2::nat) ^ Suc j \<le> 2 ^ k" "k \<noteq> 0" by (intro power_increasing, simp_all)
      then show False using that \<open>2 ^ k < n \<or> k = 0\<close> by linarith
    qed
    then show ?thesis using that by blast
  qed
  consider "n \<le> 2" | "n = 3 \<or> n = 4" | "5 \<le> n" "n \<le> 8" | "8 < n" "n \<le> 16" | "16 < n" "n \<le> 32" | "32 < n" "n \<le> 64" | "64 < n" by linarith
  then show ?thesis
  proof cases
    case 1
    then have "n = 0 \<or> n = 1 \<or> n = 2" by auto
    then have "RoundupSize n = 2 ^ Suc 0" using round_table by auto
    then show ?thesis by (rule least) (use 1 in simp_all)
  next
    case 2
    then have "RoundupSize n = 2 ^ Suc 1" using round_table by auto
    then show ?thesis by (rule least) (use 2 in auto)
  next
    case 3
    then have "n = 5 \<or> n = 6 \<or> n = 7 \<or> n = 8" by auto
    then have "RoundupSize n = 2 ^ Suc 2" using round_table by auto
    then show ?thesis by (rule least) (use 3 in simp_all)
  next
    case 4
    then have "RoundupSize n = 2 ^ Suc 3" by (simp add: RoundupSize_def)
    then show ?thesis by (rule least) (use 4 in simp_all)
  next
    case 5
    then have "RoundupSize n = 2 ^ Suc 4" by (simp add: RoundupSize_def)
    then show ?thesis by (rule least) (use 5 in simp_all)
  next
    case 6
    then have "RoundupSize n = 2 ^ Suc 5" by (simp add: RoundupSize_def)
    then show ?thesis by (rule least) (use 6 in simp_all)
  next
    case 7
    define p where "p = bit_precision_loop (of_nat (n - 1)) 0 32"
    have P: "2 ^ (p - 1) \<le> n - 1" "n - 1 < 2 ^ p" "0 < p"
      using BitPrecision_uint [of "n - 1"] 7 assms unfolding p_def [symmetric] by simp_all
    have "RoundupSize n = 2 ^ Suc (p - 1)" using 7 P by (simp add: RoundupSize_def p_def)
    then show ?thesis by (rule least) (use P 7 in auto)
  qed
qed

lemma RoundupSize_power: "2 ^ Suc k \<le> (2::nat) ^ 32 \<Longrightarrow> RoundupSize (2 ^ Suc k) = 2 ^ Suc k"
proof -
  assume "2 ^ Suc k \<le> (2::nat) ^ 32"
  from RoundupSize_ok [OF this] obtain j where j: "RoundupSize (2 ^ Suc k) = 2 ^ Suc j" "2 ^ Suc k \<le> (2::nat) ^ Suc j" "j \<le> k" by blast
  have "Suc k \<le> Suc j" using j(2) by (rule power_le_imp_le_exp [rotated]) simp
  then show ?thesis using j by simp
qed

lemma RoundupSize_self: "wf x \<Longrightarrow> length (reg x) \<le> 2 ^ 32 \<Longrightarrow> RoundupSize (length (reg x)) = length (reg x)"
  unfolding wf_def using RoundupSize_power by metis

lemma RoundupSize_count:
  assumes "wf x" and "length (reg x) \<le> 2 ^ 32" and "n \<le> length (reg x)"
  shows "RoundupSize n \<le> length (reg x)" and "n \<le> RoundupSize n" and "\<exists>k. RoundupSize n = 2 ^ Suc k"
proof -
  obtain k where k: "length (reg x) = 2 ^ Suc k" using assms(1) by (auto simp: wf_def)
  have "n \<le> 2 ^ 32" using assms by simp
  from RoundupSize_ok [OF this] obtain j where j: "RoundupSize n = 2 ^ Suc j" "n \<le> 2 ^ Suc j" "n \<le> 2 ^ Suc k \<Longrightarrow> j \<le> k" by blast
  have "j \<le> k" using j(3) assms(3) k by simp
  then have "(2::nat) ^ Suc j \<le> 2 ^ Suc k" by (intro power_increasing) simp_all
  then show "RoundupSize n \<le> length (reg x)" using j k by simp
  show "n \<le> RoundupSize n" "\<exists>k. RoundupSize n = 2 ^ Suc k" using j by auto
qed

lemma val_take_count: "WordCount x \<le> n \<Longrightarrow> val (take n (reg x)) = val (reg x)"
proof -
  assume n: "WordCount x \<le> n"
  have "take (WordCount x) (take n (reg x)) = take (WordCount x) (reg x)" using n by (simp add: min_absorb1)
  moreover have "val (take n (reg x)) \<le> val (reg x)"
    using val_take_drop [of "reg x" n] by simp
  moreover have "val (take (WordCount x) (take n (reg x))) \<le> val (take n (reg x))"
    using val_take_drop [of "take n (reg x)" "WordCount x"] by simp
  ultimately show ?thesis using WordCount_ok(2) [of x] by simp
qed

lemma val_drop_count: "WordCount x \<le> n \<Longrightarrow> val (drop n (reg x)) = 0"
  using val_take_drop [of "reg x" n] val_take_count [of x n] by simp

subsection \<open>Sums and differences\<close>

lemma reg_words [simp]: "reg (Integer_words 0 n) = SetWords 0 (Suc (RoundupSize n - 1))" "sign (Integer_words v n) = POSITIVE"
  by (simp_all add: Integer_words_def SetWords_def)

lemma val_SetWords [simp]: "val (SetWords 0 n) = 0" "length (SetWords a n) = n"
  by (simp_all add: SetWords_def)

lemma wf_positive: "length R = 2 ^ Suc k \<Longrightarrow> wf \<lparr>reg = R, sign = POSITIVE\<rparr>"
  by (auto simp: wf_def)

lemma ival_positive [simp]: "ival \<lparr>reg = R, sign = POSITIVE\<rparr> = val R" "ival \<lparr>reg = R, sign = NEGATIVE\<rparr> = - val R"
  by (simp_all add: ival_def)

lemma ival_sign:
  assumes "wf x"
  shows "IsNegative x \<longleftrightarrow> ival x < 0" and "NotNegative x \<longleftrightarrow> 0 \<le> ival x"
proof -
  have v: "0 \<le> val (reg x)" by simp
  have "IsNegative x \<longleftrightarrow> ival x < 0"
  proof (cases "sign x")
    case POSITIVE
    then show ?thesis by (simp add: ival_def IsNegative_def not_less)
  next
    case NEGATIVE
    then have "0 < val (reg x)" using v assms unfolding wf_def by (metis order_le_imp_less_or_eq)
    then show ?thesis using NEGATIVE by (simp add: ival_def IsNegative_def)
  qed
  then show "IsNegative x \<longleftrightarrow> ival x < 0" "NotNegative x \<longleftrightarrow> 0 \<le> ival x" by (auto simp: NotNegative_def)
qed

lemma ival_abs: "val (reg x) = \<bar>ival x\<bar>"
  by (simp add: ival_def)

lemma negative_ival:
  "IsNegative x \<Longrightarrow> ival x = - val (reg x)"
  "NotNegative x \<Longrightarrow> ival x = val (reg x)"
  by (simp_all add: IsNegative_def NotNegative_def ival_def)

lemma grow_carry_ok:
  assumes "uint c \<le> 1" and "0 < length R"
  shows "val (grow_carry R c) = val R + W ^ length R * uint c"
    and "length (grow_carry R c) = length R \<or> length (grow_carry R c) = 2 * length R"
proof -
  have "val (grow_carry R c) = val R + W ^ length R * uint c \<and>
      (length (grow_carry R c) = length R \<or> length (grow_carry R c) = 2 * length R)"
  proof (cases "c = 0")
    case False
    then have one: "uint c = 1" using word_flag assms(1) by auto
    obtain m where m: "length R = Suc m" using assms(2) by (cases "length R") simp_all
    have "grow_carry R c = R @ 1 # SetWords 0 m"
      using False m by (simp add: grow_carry_def CleanGrow_def SetWords_def mult_2 list_update_append)
    then show ?thesis using m one by simp
  qed (simp add: grow_carry_def)
  then show "val (grow_carry R c) = val R + W ^ length R * uint c"
    "length (grow_carry R c) = length R \<or> length (grow_carry R c) = 2 * length R" by blast+
qed

lemma add_uneven:
  assumes "even m" and "length B = m" and "m < length A" and "Add (take m A) B = (C, c)" and "Increment (drop m A) c = (D, d)"
  shows "length (C @ D) = length A \<and> val (C @ D) + W ^ length A * uint d = val A + val B \<and> uint d \<le> 1"
proof -
  have a: "length C = m \<and> val C + W ^ m * uint c = val (take m A) + val B \<and> uint c \<le> 1"
    using Add_val [OF _ _ assms(4)] assms(1-3) by simp
  have ne: "drop m A \<noteq> []" using assms(3) by simp
  have i: "length D = length A - m \<and> val D + W ^ (length A - m) * uint d = val (drop m A) + uint c \<and> (d = 0 \<or> d = 1)"
    using Increment_val [OF ne assms(5)] by simp
  have A: "val A = val (take m A) + W ^ m * val (drop m A)" using assms(3) by (intro val_halves) simp
  have "length A = m + (length A - m)" using assms(3) by simp
  then have WA: "W ^ length A = W ^ m * W ^ (length A - m)" by (metis power_add)
  have "val (C @ D) + W ^ length A * uint d = val C + W ^ m * (val D + W ^ (length A - m) * uint d)"
    using a unfolding WA by (simp add: distrib_left)
  also have "\<dots> = (val C + W ^ m * uint c) + W ^ m * val (drop m A)" using i by (simp add: distrib_left)
  also have "\<dots> = val A + val B" using a A by simp
  finally show ?thesis using a i assms(3) by auto
qed

lemma PositiveAdd_ok:
  assumes "wf a" and "wf b"
  shows "wf (PositiveAdd a b)" and "sign (PositiveAdd a b) = POSITIVE" and "val (reg (PositiveAdd a b)) = val (reg a) + val (reg b)"
    and "length (reg (PositiveAdd a b)) \<le> 2 * max (length (reg a)) (length (reg b))"
proof -
  let ?n = "length (reg a)" and ?m = "length (reg b)"
  define Rc where "Rc = (if ?n = ?m then Add (reg a) (reg b)
             else if ?n > ?m then
               let (C, carry) = Add (take ?m (reg a)) (reg b);
                   (D, carry) = Increment (drop ?m (reg a)) carry
               in (C @ D, carry)
             else
               let (C, carry) = Add (reg a) (take ?n (reg b));
                   (D, carry) = Increment (drop ?n (reg b)) carry
               in (C @ D, carry))"
  obtain R c where Rc: "Rc = (R, c)" by fastforce
  note la = wf_length [OF assms(1)] and lb = wf_length [OF assms(2)]
  have v: "length R = max ?n ?m \<and> val R + W ^ length R * uint c = val (reg a) + val (reg b) \<and> uint c \<le> 1"
  proof (cases ?n ?m rule: linorder_cases)
    case equal
    then show ?thesis using Add_val [of "reg a" "reg b" R c] la Rc by (simp add: Rc_def)
  next
    case greater
    obtain C c' where C: "Add (take ?m (reg a)) (reg b) = (C, c')" by fastforce
    obtain D d where D: "Increment (drop ?m (reg a)) c' = (D, d)" by fastforce
    have "R = C @ D" "c = d" using Rc greater C D by (simp_all add: Rc_def)
    then show ?thesis using add_uneven [of ?m "reg b" "reg a" C c' D d] greater lb C D by auto
  next
    case less
    have com: "Add (reg a) (take ?n (reg b)) = Add (take ?n (reg b)) (reg a)"
    proof -
      obtain X x where X: "Add (reg a) (take ?n (reg b)) = (X, x)" by fastforce
      obtain Y y where Y: "Add (take ?n (reg b)) (reg a) = (Y, y)" by fastforce
      have vx: "length X = ?n \<and> val X + W ^ ?n * uint x = val (reg a) + val (take ?n (reg b)) \<and> uint x \<le> 1"
        using Add_val [OF _ _ X] la less by simp
      have vy: "length Y = ?n \<and> val Y + W ^ ?n * uint y = val (reg a) + val (take ?n (reg b)) \<and> uint y \<le> 1"
        using Add_val [OF _ _ Y] la less by simp
      have "val X = (val (reg a) + val (take ?n (reg b))) mod W ^ length X"
        using vx by (intro val_mod [of _ _ "- uint x"]) simp
      moreover have "val Y = (val (reg a) + val (take ?n (reg b))) mod W ^ length Y"
        using vy by (intro val_mod [of _ _ "- uint y"]) simp
      ultimately have XY: "X = Y" using vx vy by (intro val_inj) simp_all
      have "val Y + W ^ ?n * uint x = val Y + W ^ ?n * uint y" using vx vy unfolding XY by metis
      then have "x = y" by (simp add: word_uint_eq_iff)
      then show ?thesis using X Y XY by simp
    qed
    obtain C c' where C: "Add (take ?n (reg b)) (reg a) = (C, c')" by fastforce
    obtain D d where D: "Increment (drop ?n (reg b)) c' = (D, d)" by fastforce
    have "R = C @ D" "c = d" using Rc less C D com by (simp_all add: Rc_def)
    then show ?thesis using add_uneven [of ?n "reg a" "reg b" C c' D d] less la C D by auto
  qed
  have P: "PositiveAdd a b = \<lparr>reg = grow_carry R c, sign = POSITIVE\<rparr>"
    using Rc unfolding PositiveAdd_def Let_def Rc_def by simp
  have R0: "0 < length R" using v la by (auto simp: max_def)
  have c1: "uint c \<le> 1" using v by blast
  note g = grow_carry_ok [OF c1 R0]
  show "sign (PositiveAdd a b) = POSITIVE" by (simp add: P)
  have "val (grow_carry R c) = val (reg a) + val (reg b)" using g(1) v by metis
  then show "val (reg (PositiveAdd a b)) = val (reg a) + val (reg b)" by (simp add: P)
  show "length (reg (PositiveAdd a b)) \<le> 2 * max ?n ?m" using g v by (auto simp: P)
  have "length R = ?n \<or> length R = ?m" using v by (simp add: max_def)
  then obtain k where "length R = 2 ^ Suc k" using assms unfolding wf_def by metis
  then have "length (grow_carry R c) = 2 ^ Suc k \<or> length (grow_carry R c) = 2 ^ Suc (Suc k)" using g(2) by simp
  then show "wf (PositiveAdd a b)" unfolding P using wf_positive by blast
qed

lemma even_count:
  assumes "wf x"
  defines "n \<equiv> WordCount x + WordCount x mod 2"
  shows "even n" and "n \<le> length (reg x)" and "val (take n (reg x)) = val (reg x)" and "val (reg x) < W ^ n"
proof -
  show "even n" by (simp add: n_def)
  show "n \<le> length (reg x)"
    using WordCount_ok(1) [of x] wf_length [OF assms(1)] unfolding n_def by (cases "WordCount x = length (reg x)") (auto simp: mod2_eq_if)
  show "val (take n (reg x)) = val (reg x)" by (intro val_take_count) (simp add: n_def)
  have "W ^ WordCount x \<le> W ^ n" by (intro power_increasing) (simp_all add: n_def)
  then show "val (reg x) < W ^ n" using WordCount_ok(3) [of x] by linarith
qed

lemma even_count_less:
  assumes "WordCount b + WordCount b mod 2 < WordCount a + WordCount a mod 2"
  shows "val (reg b) < val (reg a)"
proof -
  have lt: "WordCount b < WordCount a"
  proof (rule ccontr)
    assume "\<not> WordCount b < WordCount a"
    then consider "WordCount a = WordCount b" | "WordCount a + 1 \<le> WordCount b" by linarith
    then show False
    proof cases
      case 2
      moreover have "WordCount a mod 2 \<le> 1" by simp
      ultimately show False using assms by linarith
    qed (use assms in simp)
  qed
  then have z: "WordCount a \<noteq> 0" and "WordCount b \<le> WordCount a - 1" by linarith+
  then have "W ^ WordCount b \<le> W ^ (WordCount a - 1)" by (intro power_increasing) simp_all
  then show ?thesis using WordCount_ok(3) [of b] WordCount_ok(4) [OF z] by linarith
qed

lemma sub_uneven:
  assumes "even m" and "length B = m" and "m < length A" and "val B \<le> val A"
    and "Subtract (take m A) B = (C, c)" and "Decrement (drop m A) c = (D, d)"
  shows "length (C @ D) = length A \<and> val (C @ D) = val A - val B \<and> d = 0"
proof -
  have a: "length C = m \<and> val C = val (take m A) - val B + W ^ m * uint c \<and> uint c \<le> 1"
    using Subtract_val [OF _ _ assms(5)] assms(1-3) by simp
  have ne: "drop m A \<noteq> []" using assms(3) by simp
  have i: "length D = length A - m \<and> val D = val (drop m A) - uint c + W ^ (length A - m) * uint d \<and> (d = 0 \<or> d = 1)"
    using Decrement_val [OF ne assms(6)] by simp
  have A: "val A = val (take m A) + W ^ m * val (drop m A)" using assms(3) by (intro val_halves) simp
  have "length A = m + (length A - m)" using assms(3) by simp
  then have WA: "W ^ length A = W ^ m * W ^ (length A - m)" by (metis power_add)
  have CD: "length (C @ D) = length A" using a i assms(3) by simp
  have vD: "W ^ m * val D = W ^ m * (val (drop m A) - uint c + W ^ (length A - m) * uint d)" using i by metis
  have "val (C @ D) = val C + W ^ m * val D" using a by simp
  also have "\<dots> = val A - val B + W ^ length A * uint d"
    using a A unfolding WA vD by (simp add: algebra_simps)
  finally have v: "val (C @ D) = val A - val B + W ^ length A * uint d" .
  have "d = 0"
  proof (rule ccontr)
    assume "d \<noteq> 0"
    then have "W ^ length A \<le> val (C @ D)" using i v assms(4) by auto
    then show False using val_range(2) [OF CD] by linarith
  qed
  then show ?thesis using v CD by simp
qed

lemma diff_mod: "0 \<le> q \<Longrightarrow> q \<le> p \<Longrightarrow> p < n \<Longrightarrow> (p - q) mod n = p - q" for p q n :: int
  by (intro mod_pos_pos_trivial) simp_all

text \<open>What the array \<open>D\<close> of the result holds from the words of the longer operand on is zero.\<close>

lemma PositiveSubtract_ok:
  assumes w: "wf a" "wf b" and D: "\<exists>k. length D = 2 ^ Suc k" "length (reg a) \<le> length D" "length (reg b) \<le> length D"
    and z: "val (drop (max (WordCount a + WordCount a mod 2) (WordCount b + WordCount b mod 2)) D) = 0"
  shows "wf (PositiveSubtract D a b)" and "ival (PositiveSubtract D a b) = val (reg a) - val (reg b)"
    and "length (reg (PositiveSubtract D a b)) = length D"
proof -
  define n m where "n = WordCount a + WordCount a mod 2" and "m = WordCount b + WordCount b mod 2"
  note A = even_count [OF w(1), folded n_def] and B = even_count [OF w(2), folded m_def]
  let ?A = "take n (reg a)" and ?B = "take m (reg b)"
  have l: "length ?A = n" "length ?B = m" "n \<le> length D" "m \<le> length D" using A(2) B(2) D by simp_all
  let ?P = "PositiveSubtract D a b"
  have zm: "val (drop (max n m) D) = 0" using z by (simp add: n_def m_def)
  have fin: "wf ?P \<and> ival ?P = val (reg a) - val (reg b) \<and> length (reg ?P) = length D"
    if "?P = \<lparr>reg = X @ drop (max n m) D, sign = s\<rparr>" "length X = max n m"
      "s = POSITIVE \<Longrightarrow> val X = val (reg a) - val (reg b)" "s = NEGATIVE \<Longrightarrow> val X = val (reg b) - val (reg a) \<and> val (reg b) \<noteq> val (reg a)" for X s
  proof -
    have "length (X @ drop (max n m) D) = length D" using that(2) l by simp
    moreover have "val (X @ drop (max n m) D) = val X" using zm by simp
    ultimately show ?thesis using that D(1) by (cases s) (auto simp: wf_def)
  qed
  have "wf ?P \<and> ival ?P = val (reg a) - val (reg b) \<and> length (reg ?P) = length D"
  proof (cases n m rule: linorder_cases)
    case equal
    have cmp: "Compare (reg a) (reg b) n \<ge> 0 \<longleftrightarrow> val (reg b) \<le> val (reg a)"
      using compare_val [of n "reg a" "reg b"] A(2,3) B(2,3) equal by auto
    show ?thesis
    proof (cases "val (reg b) \<le> val (reg a)")
      case True
      have "?P = \<lparr>reg = fst (Subtract ?A ?B) @ drop (max n m) D, sign = POSITIVE\<rparr>"
        using True cmp equal by (simp add: PositiveSubtract_def Let_def flip: n_def m_def)
      moreover have "length (fst (Subtract ?A ?B)) = n" "val (fst (Subtract ?A ?B)) = val (reg a) - val (reg b)"
        using Subtract_mod [of ?A ?B] l A B equal True diff_mod [of "val (reg b)" "val (reg a)"] by simp_all
      ultimately show ?thesis using equal using fin [where X = "fst (Subtract ?A ?B)" and s = POSITIVE] by simp
    next
      case False
      have "?P = \<lparr>reg = fst (Subtract ?B ?A) @ drop (max n m) D, sign = NEGATIVE\<rparr>"
        using False cmp equal by (simp add: PositiveSubtract_def Let_def flip: n_def m_def)
      moreover have "length (fst (Subtract ?B ?A)) = n" "val (fst (Subtract ?B ?A)) = val (reg b) - val (reg a)"
        using Subtract_mod [of ?B ?A] l A B equal False diff_mod [of "val (reg a)" "val (reg b)"] by simp_all
      ultimately show ?thesis using equal False using fin [where X = "fst (Subtract ?B ?A)" and s = NEGATIVE] by simp
    qed
  next
    case greater
    have lt: "val (reg b) < val (reg a)" using even_count_less [of b a] greater by (simp add: n_def m_def)
    obtain C c where C: "Subtract (take m ?A) ?B = (C, c)" by fastforce
    obtain E d where E: "Decrement (drop m ?A) c = (E, d)" by fastforce
    have ge: "m < length ?A" "val ?B \<le> val ?A" using greater l lt A(3) B(3) by simp_all
    note v = sub_uneven [OF B(1) l(2) ge C E]
    have "?P = \<lparr>reg = (C @ E) @ drop (max n m) D, sign = POSITIVE\<rparr>"
      using greater C E by (simp add: PositiveSubtract_def Let_def flip: n_def m_def)
    then show ?thesis using v l(1,3) greater A(3) B(3) using fin [where X = "C @ E" and s = POSITIVE] by simp
  next
    case less
    have lt: "val (reg a) < val (reg b)" using even_count_less [of a b] less by (simp add: n_def m_def)
    obtain C c where C: "Subtract (take n ?B) ?A = (C, c)" by fastforce
    obtain E d where E: "Decrement (drop n ?B) c = (E, d)" by fastforce
    have ge: "n < length ?B" "val ?A \<le> val ?B" using less l lt A(3) B(3) by simp_all
    note v = sub_uneven [OF A(1) l(1) ge C E]
    have "?P = \<lparr>reg = (C @ E) @ drop (max n m) D, sign = NEGATIVE\<rparr>"
      using less C E by (simp add: PositiveSubtract_def Let_def flip: n_def m_def)
    then show ?thesis using v l(2,4) less lt A(3) B(3) using fin [where X = "C @ E" and s = NEGATIVE] by simp
  qed
  then show "wf ?P" "ival ?P = val (reg a) - val (reg b)" "length (reg ?P) = length D" by blast+
qed

lemma PositiveSubtract_asserted:
  assumes "wf a" and "wf b"
  shows "PositiveSubtract_borrow a b = 0"
proof -
  define n m where "n = WordCount a + WordCount a mod 2" and "m = WordCount b + WordCount b mod 2"
  note A = even_count [OF assms(1), folded n_def] and B = even_count [OF assms(2), folded m_def]
  let ?A = "take n (reg a)" and ?B = "take m (reg b)"
  have l: "length ?A = n" "length ?B = m" using A(2) B(2) by simp_all
  have sub: "snd (Decrement (drop k X) (snd (Subtract (take k X) Y))) = 0"
    if "even k" "length Y = k" "k < length X" "val Y \<le> val X" for k X Y
    using sub_uneven [OF that, of "fst (Subtract (take k X) Y)" "snd (Subtract (take k X) Y)"
        "fst (Decrement (drop k X) (snd (Subtract (take k X) Y)))"
        "snd (Decrement (drop k X) (snd (Subtract (take k X) Y)))"] by simp
  show ?thesis
  proof (cases n m rule: linorder_cases)
    case equal
    then show ?thesis by (simp add: PositiveSubtract_borrow_def Let_def flip: n_def m_def)
  next
    case greater
    have "val (reg b) < val (reg a)" using even_count_less [of b a] greater by (simp add: n_def m_def)
    then have "snd (Decrement (drop m ?A) (snd (Subtract (take m ?A) ?B))) = 0"
      using greater l A(3) B(3) by (intro sub [OF B(1)]) simp_all
    then show ?thesis using greater by (simp add: PositiveSubtract_borrow_def Let_def flip: n_def m_def)
  next
    case less
    have "val (reg a) < val (reg b)" using even_count_less [of a b] less by (simp add: n_def m_def)
    then have "snd (Decrement (drop n ?B) (snd (Subtract (take n ?B) ?A))) = 0"
      using less l A(3) B(3) by (intro sub [OF A(1)]) simp_all
    then show ?thesis using less by (simp add: PositiveSubtract_borrow_def Let_def flip: n_def m_def)
  qed
qed

lemma fresh_array:
  assumes "wf a" "wf b" "small a" "small b"
  defines "D \<equiv> reg (Integer_words 0 (max (length (reg a)) (length (reg b))))"
  shows "\<exists>k. length D = 2 ^ Suc k" and "length (reg a) \<le> length D" and "length (reg b) \<le> length D" and "val (drop n D) = 0"
    and "length D = max (length (reg a)) (length (reg b))"
proof -
  have "max (length (reg a)) (length (reg b)) \<in> {length (reg a), length (reg b)}" by (simp add: max_def)
  then obtain k where k: "max (length (reg a)) (length (reg b)) = 2 ^ Suc k" using assms(1,2) unfolding wf_def by (metis insertE singletonD)
  moreover have "max (length (reg a)) (length (reg b)) \<le> 2 ^ 32" using assms(3,4) by (simp add: small_def)
  ultimately have l: "length D = max (length (reg a)) (length (reg b))"
    using RoundupSize_power [of k] by (simp add: D_def)
  then show "\<exists>k. length D = 2 ^ Suc k" "length (reg a) \<le> length D" "length (reg b) \<le> length D"
    "length D = max (length (reg a)) (length (reg b))" using k by auto
  show "val (drop n D) = 0" by (simp only: D_def reg_words SetWords_def drop_replicate val_SetWords(1) [unfolded SetWords_def])
qed

lemma sign_NEGATIVE: "sign x = POSITIVE \<Longrightarrow> wf x \<Longrightarrow> val (reg x) \<noteq> 0 \<Longrightarrow> wf (x\<lparr>sign := NEGATIVE\<rparr>) \<and> ival (x\<lparr>sign := NEGATIVE\<rparr>) = - ival x"
  by (simp add: wf_def ival_def)

lemma PositiveAdd_negative:
  assumes "wf a" "wf b" "\<not> NotNegative a"
  shows "wf ((PositiveAdd a b)\<lparr>sign := NEGATIVE\<rparr>) \<and> ival ((PositiveAdd a b)\<lparr>sign := NEGATIVE\<rparr>) = - (val (reg a) + val (reg b))"
proof -
  note add = PositiveAdd_ok [OF assms(1,2)]
  have "val (reg a) \<noteq> 0" using assms(1,3) by (cases "sign a") (simp_all add: NotNegative_def IsNegative_def wf_def)
  then have "val (reg (PositiveAdd a b)) \<noteq> 0" using add(3) val_nonneg [of "reg a"] val_nonneg [of "reg b"] by linarith
  from sign_NEGATIVE [OF add(2,1) this] show ?thesis using add by (simp add: ival_def)
qed

lemma not_NotNegative: "\<not> NotNegative x \<Longrightarrow> ival x = - val (reg x)" "\<not> NotNegative x \<Longrightarrow> IsNegative x"
  by (simp_all add: NotNegative_def negative_ival)

text \<open>The four cases of the signs, for the sum and for the difference.\<close>

lemma signed_sum_cases:
  assumes "wf a" "wf b" "small a" "small b"
  defines "D \<equiv> reg (Integer_words 0 (max (length (reg a)) (length (reg b))))"
  defines "ok \<equiv> \<lambda>r v. wf r \<and> ival r = v \<and> length (reg r) \<le> 2 * max (length (reg a)) (length (reg b))"
  shows "ok (PositiveSubtract D a b) (val (reg a) - val (reg b))" and "ok (PositiveSubtract D b a) (val (reg b) - val (reg a))"
    and "ok (PositiveAdd a b) (val (reg a) + val (reg b))"
    and "\<not> NotNegative a \<Longrightarrow> ok ((PositiveAdd a b)\<lparr>sign := NEGATIVE\<rparr>) (- (val (reg a) + val (reg b)))"
proof -
  note D = fresh_array [OF assms(1-4), folded D_def]
  have le2: "n \<le> 2 * n" for n :: nat by simp
  show "ok (PositiveSubtract D a b) (val (reg a) - val (reg b))"
    using PositiveSubtract_ok [OF assms(1,2) D(1-4)] D(5) le2 unfolding ok_def by metis
  show "ok (PositiveSubtract D b a) (val (reg b) - val (reg a))"
    using PositiveSubtract_ok [OF assms(2,1) D(1) D(3,2) D(4)] D(5) le2 unfolding ok_def by metis
  note add = PositiveAdd_ok [OF assms(1,2)]
  show "ok (PositiveAdd a b) (val (reg a) + val (reg b))" using add unfolding ok_def by (simp add: ival_def)
  show "ok ((PositiveAdd a b)\<lparr>sign := NEGATIVE\<rparr>) (- (val (reg a) + val (reg b)))" if "\<not> NotNegative a"
    using PositiveAdd_negative [OF assms(1,2) that] add(4) unfolding ok_def by simp
qed

lemma Plus_ok:
  assumes "wf a" "wf b" "small a" "small b"
  shows "wf (Plus a b)" and "ival (Plus a b) = ival a + ival b" and "length (reg (Plus a b)) \<le> 2 * max (length (reg a)) (length (reg b))"
proof -
  note c = signed_sum_cases [OF assms]
  have "wf (Plus a b) \<and> ival (Plus a b) = ival a + ival b \<and> length (reg (Plus a b)) \<le> 2 * max (length (reg a)) (length (reg b))"
  proof (cases "NotNegative a")
    case True
    then show ?thesis
      using c(1,3) negative_ival(2) [of a] negative_ival(2) [of b] not_NotNegative(1) [of b]
      by (cases "NotNegative b") (simp_all only: Plus_def Let_def if_True if_False minus_minus diff_minus_eq_add simp_thms uminus_add_conv_diff add_uminus_conv_diff)
  next
    case False
    then show ?thesis
      using c(2) c(4) [OF False] not_NotNegative(1) [OF False] negative_ival(2) [of b] not_NotNegative(1) [of b]
      by (cases "NotNegative b") (simp_all only: Plus_def Let_def if_True if_False minus_minus diff_minus_eq_add simp_thms minus_add_distrib uminus_add_conv_diff add_uminus_conv_diff)
  qed
  then show "wf (Plus a b)" "ival (Plus a b) = ival a + ival b" "length (reg (Plus a b)) \<le> 2 * max (length (reg a)) (length (reg b))" by blast+
qed

lemma Minus_ok:
  assumes "wf a" "wf b" "small a" "small b"
  shows "wf (Minus a b)" and "ival (Minus a b) = ival a - ival b" and "length (reg (Minus a b)) \<le> 2 * max (length (reg a)) (length (reg b))"
proof -
  note c = signed_sum_cases [OF assms]
  have "wf (Minus a b) \<and> ival (Minus a b) = ival a - ival b \<and> length (reg (Minus a b)) \<le> 2 * max (length (reg a)) (length (reg b))"
  proof (cases "NotNegative a")
    case True
    then show ?thesis
      using c(1,3) negative_ival(2) [of a] negative_ival(2) [of b] not_NotNegative(1) [of b]
      by (cases "NotNegative b") (simp_all only: Minus_def Let_def if_True if_False minus_minus diff_minus_eq_add simp_thms uminus_add_conv_diff add_uminus_conv_diff)
  next
    case False
    then show ?thesis
      using c(2) c(4) [OF False] not_NotNegative(1) [OF False] negative_ival(2) [of b] not_NotNegative(1) [of b]
      by (cases "NotNegative b") (simp_all only: Minus_def Let_def if_True if_False minus_minus diff_minus_eq_add simp_thms minus_add_distrib uminus_add_conv_diff add_uminus_conv_diff)
  qed
  then show "wf (Minus a b)" "ival (Minus a b) = ival a - ival b" "length (reg (Minus a b)) \<le> 2 * max (length (reg a)) (length (reg b))" by blast+
qed

end
