(* ===== verification/CPP_Quotients.thy ===== *)
theory CPP_Quotients
  imports CPP_Integer
begin

text \<open>
  The class \<open>Integer\<close> of \<^verbatim>\<open>src/src/utils/lib/CryptoPP.cc\<close>, second part: shifts, products, quotients
  by an integer and by a word, and the laws of the values of every operation on integers.
\<close>

section \<open>Shifts\<close>

definition shift_left :: "Integer \<Rightarrow> nat \<Rightarrow> Integer" where
  "shift_left x n =
     (let wordCount = WordCount x; shiftWords = n div 64; shiftBits = n mod 64;
          R = CleanGrow (reg x) (RoundupSize (wordCount + BitsToWords n));
          k = wordCount + shiftWords;
          R = ShiftWordsLeftByWords (take k R) shiftWords @ drop k R;
          k = wordCount + BitsToWords shiftBits;
          R = take shiftWords R @ fst (ShiftWordsLeftByBits (take k (drop shiftWords R)) shiftBits) @ drop (shiftWords + k) R
      in x\<lparr>reg := R\<rparr>)"

definition shift_right :: "Integer \<Rightarrow> nat \<Rightarrow> Integer" where
  "shift_right x n =
     (let wordCount = WordCount x; shiftWords = n div 64; shiftBits = n mod 64;
          R = ShiftWordsRightByWords (take wordCount (reg x)) shiftWords @ drop wordCount (reg x);
          k = wordCount - shiftWords;
          R = (if wordCount > shiftWords then fst (ShiftWordsRightByBits (take k R) shiftBits) @ drop k R else R);
          y = x\<lparr>reg := R\<rparr>
      in if IsNegative y \<and> WordCount y = 0 then Integer_Zero else y)"

section \<open>Products and quotients\<close>

text \<open>An error is an exception of the library or an assertion of the word arithmetic. \<open>same\<close> says that
  the two factors are one object.\<close>

datatype int_error = DivideByZero | AssertionFailed

definition PositiveMultiply :: "bool \<Rightarrow> Integer \<Rightarrow> Integer \<Rightarrow> int_error + Integer" where
  "PositiveMultiply same a b =
     (let aSize = RoundupSize (WordCount a); bSize = RoundupSize (WordCount b)
      in case AsymmetricMultiply same (take aSize (reg a)) (take bSize (reg b)) of
           None \<Rightarrow> Inl AssertionFailed
         | Some R \<Rightarrow> Inr \<lparr>reg = R @ SetWords 0 (RoundupSize (aSize + bSize) - length R), sign = POSITIVE\<rparr>)"

definition Times :: "bool \<Rightarrow> Integer \<Rightarrow> Integer \<Rightarrow> int_error + Integer" where
  "Times same a b =
     (case PositiveMultiply same a b of
        Inl e \<Rightarrow> Inl e
      | Inr p \<Rightarrow> Inr (if NotNegative a \<noteq> NotNegative b then Negate p else p))"

text \<open>The remainder and the quotient.\<close>

definition PositiveDivide :: "Integer \<Rightarrow> Integer \<Rightarrow> int_error + (Integer \<times> Integer)" where
  "PositiveDivide a b =
     (let aSize = WordCount a; bSize = WordCount b
      in if bSize = 0 then Inl DivideByZero
         else if PositiveCompare a b = -1 then Inr ((Integer_copy a)\<lparr>sign := POSITIVE\<rparr>, Integer_Zero)
         else
           let aSize = aSize + aSize mod 2; bSize = bSize + bSize mod 2
           in case Divide (take aSize (reg a)) (take bSize (reg b)) of
                None \<Rightarrow> Inl AssertionFailed
              | Some (R, Q) \<Rightarrow>
                  Inr (\<lparr>reg = R @ SetWords 0 (RoundupSize bSize - bSize), sign = POSITIVE\<rparr>,
                       \<lparr>reg = Q @ SetWords 0 (RoundupSize (aSize - bSize + 2) - (aSize - bSize + 2)), sign = POSITIVE\<rparr>))"

definition Integer_Divide :: "Integer \<Rightarrow> Integer \<Rightarrow> int_error + (Integer \<times> Integer)" where
  "Integer_Divide dividend divisor =
     (case PositiveDivide dividend divisor of
        Inl e \<Rightarrow> Inl e
      | Inr (r, q) \<Rightarrow>
          let (r, q) =
            (if IsNegative dividend then
               let q = Negate q
               in if NotZero r then (Integer_copy (Minus (AbsoluteValue divisor) r), Integer_dec q) else (r, q)
             else (r, q));
              q = (if IsNegative divisor then Negate q else q)
          in Inr (r, q))"

fun divide_word_loop :: "u64 list \<Rightarrow> u64 \<Rightarrow> (u64 list \<times> u64) option" where
  "divide_word_loop [] divisor = Some ([], 0)"
| "divide_word_loop (a # A) divisor =
     do {
       (Q, remainder) \<leftarrow> divide_word_loop A divisor;
       q \<leftarrow> DWord_div (DWord a remainder) divisor;
       r \<leftarrow> DWord_mod (DWord a remainder) divisor;
       Some (q # Q, r)
     }"

definition Divide_word :: "Integer \<Rightarrow> u64 \<Rightarrow> int_error + (u64 \<times> Integer)" where
  "Divide_word dividend divisor =
     (if divisor = 0 then Inl DivideByZero
      else if divisor AND (divisor - 1) = 0 then
        Inr (reg dividend ! 0 AND (divisor - 1), Integer_copy (shift_right (Integer_copy dividend) (BitPrecision divisor - 1)))
      else case divide_word_loop (take (WordCount dividend) (reg dividend)) divisor of
             None \<Rightarrow> Inl AssertionFailed
           | Some (Q, r) \<Rightarrow>
               let R = Q @ SetWords 0 (RoundupSize (WordCount dividend) - length Q)
               in if NotNegative dividend then Inr (r, \<lparr>reg = R, sign = POSITIVE\<rparr>)
                  else if r \<noteq> 0 then Inr (divisor - r, Integer_dec \<lparr>reg = R, sign = NEGATIVE\<rparr>)
                  else Inr (r, \<lparr>reg = R, sign = NEGATIVE\<rparr>))"

definition DividedBy :: "Integer \<Rightarrow> Integer \<Rightarrow> int_error + Integer" where
  "DividedBy x b = (case Integer_Divide x b of Inl e \<Rightarrow> Inl e | Inr (r, q) \<Rightarrow> Inr q)"

definition Modulo :: "Integer \<Rightarrow> Integer \<Rightarrow> int_error + Integer" where
  "Modulo x b = (case Integer_Divide x b of Inl e \<Rightarrow> Inl e | Inr (r, q) \<Rightarrow> Inr r)"

text \<open>The loops of \<open>Modulo\<close> at a word, from the upper word down: the sum of the words for a divisor of at
  most 5 (that is 3 or 5, whose multiples the word size less 1 is), a chain of divisions for a larger
  one.\<close>

fun sum_words :: "u64 list \<Rightarrow> u64 dword" where
  "sum_words [] = DWord 0 0"
| "sum_words (a # A) = DWord_add (sum_words A) a"

fun modulo_word_loop :: "u64 list \<Rightarrow> u64 \<Rightarrow> u64 option" where
  "modulo_word_loop [] divisor = Some 0"
| "modulo_word_loop (a # A) divisor =
     do {
       remainder \<leftarrow> modulo_word_loop A divisor;
       DWord_mod (DWord a remainder) divisor
     }"

definition Modulo_word :: "Integer \<Rightarrow> u64 \<Rightarrow> int_error + u64" where
  "Modulo_word x divisor =
     (if divisor = 0 then Inl DivideByZero
      else
        let words = take (WordCount x) (reg x)
        in case (if divisor AND (divisor - 1) = 0 then Some (reg x ! 0 AND (divisor - 1))
                 else if divisor \<le> 5 then DWord_mod (sum_words words) divisor
                 else modulo_word_loop words divisor) of
             None \<Rightarrow> Inl AssertionFailed
           | Some remainder \<Rightarrow>
               Inr (if IsNegative x \<and> remainder \<noteq> 0 then divisor - remainder else remainder))"

section \<open>Copies, signs, steps and comparisons\<close>

lemma small_limit: "small x \<Longrightarrow> length (reg x) \<le> 2 ^ 32"
  by (simp add: small_def)

lemma IsZero_iff: "wf x \<Longrightarrow> IsZero x \<longleftrightarrow> ival x = 0"
proof -
  assume w: "wf x"
  have "val (reg x) = 0 \<Longrightarrow> reg x ! 0 = 0"
    using wf_nonempty [OF w] uint_W(1) [of "hd (reg x)"] val_nonneg [of "tl (reg x)"]
    by (cases "reg x") (auto simp: add_nonneg_eq_0_iff uint_0_iff)
  then show ?thesis
    using w by (cases "sign x") (auto simp: IsZero_def IsNegative_def ival_def wf_def WordCount_0)
qed

lemma Integer_copy_ok:
  assumes "wf x" and "length (reg x) \<le> 2 ^ 32"
  shows "wf (Integer_copy x)" and "ival (Integer_copy x) = ival x" and "length (reg (Integer_copy x)) \<le> length (reg x)"
    and "length (reg (Integer_copy x)) = RoundupSize (WordCount x)"
proof -
  note r = RoundupSize_count [OF assms WordCount_ok(1) [of x]]
  have v: "val (take (RoundupSize (WordCount x)) (reg x)) = val (reg x)" using r(2) by (rule val_take_count)
  show l: "length (reg (Integer_copy x)) = RoundupSize (WordCount x)" using r(1) by (simp add: Integer_copy_def)
  then show "length (reg (Integer_copy x)) \<le> length (reg x)" using r(1) by simp
  show "wf (Integer_copy x)"
    using assms(1) r(3) v unfolding wf_def l by (simp add: Integer_copy_def)
  show "ival (Integer_copy x) = ival x" using v by (simp add: Integer_copy_def ival_def)
qed

lemma Negate_ok:
  assumes "wf x"
  shows "wf (Negate x)" and "ival (Negate x) = - ival x" and "length (reg (Negate x)) = length (reg x)"
proof -
  have "wf (Negate x) \<and> ival (Negate x) = - ival x \<and> length (reg (Negate x)) = length (reg x)"
  proof (cases "ival x = 0")
    case True
    then show ?thesis using assms IsZero_iff [OF assms] by (simp add: Negate_def NotZero_def)
  next
    case False
    then have "NotZero x" "val (reg x) \<noteq> 0" using IsZero_iff [OF assms] ival_abs [of x] by (auto simp: NotZero_def)
    then show ?thesis using assms by (cases "sign x") (simp_all add: Negate_def wf_def ival_def)
  qed
  then show "wf (Negate x)" "ival (Negate x) = - ival x" "length (reg (Negate x)) = length (reg x)" by blast+
qed

lemma AbsoluteValue_ok:
  assumes "wf x" and "small x"
  shows "wf (AbsoluteValue x)" and "ival (AbsoluteValue x) = \<bar>ival x\<bar>" and "small (AbsoluteValue x)"
    and "length (reg (AbsoluteValue x)) = RoundupSize (WordCount x)"
proof -
  note c = Integer_copy_ok [OF assms(1) small_limit [OF assms(2)]]
  show "wf (AbsoluteValue x)" using c(1) by (simp add: AbsoluteValue_def wf_def)
  show "ival (AbsoluteValue x) = \<bar>ival x\<bar>" using c(2) ival_abs [of "Integer_copy x"] by (simp add: AbsoluteValue_def ival_def)
  show "small (AbsoluteValue x)" "length (reg (AbsoluteValue x)) = RoundupSize (WordCount x)"
    using c(3,4) assms(2) by (simp_all add: AbsoluteValue_def small_def)
qed

lemma Integer_Zero_ok [simp]: "wf Integer_Zero" "ival Integer_Zero = 0" "small Integer_Zero" "length (reg Integer_Zero) = 2"
  by (auto simp: Integer_Zero_def wf_def small_def intro: exI [of _ 0])
lemma Integer_One_ok [simp]: "wf Integer_One" "ival Integer_One = 1" "small Integer_One" "length (reg Integer_One) = 2"
  by (auto simp: Integer_One_def Integer_long_def wf_def small_def intro: exI [of _ 0])

lemma grow_wf:
  assumes "\<exists>k. length R = 2 ^ Suc k" and "uint c \<le> 1"
  shows "(\<exists>k. length (grow_carry R c) = 2 ^ Suc k)" and "val (grow_carry R c) = val R + W ^ length R * uint c"
    and "length (grow_carry R c) \<le> 2 * length R"
proof -
  obtain k where k: "length R = 2 ^ Suc k" using assms(1) by blast
  then have "0 < length R" by simp
  note g = grow_carry_ok [OF assms(2) this]
  then have "length (grow_carry R c) = 2 ^ Suc k \<or> length (grow_carry R c) = 2 ^ Suc (Suc k)" using k by simp
  then show "\<exists>k. length (grow_carry R c) = 2 ^ Suc k" by blast
  show "val (grow_carry R c) = val R + W ^ length R * uint c" using g(1) .
  show "length (grow_carry R c) \<le> 2 * length R" using g(2) by auto
qed

lemma wf_power: "wf x \<Longrightarrow> \<exists>k. length (reg x) = 2 ^ Suc k"
  by (simp only: wf_def)

text \<open>One step away from zero, by \<open>Increment\<close> and a longer array for the carry.\<close>

lemma step_up:
  assumes "\<exists>k. length (reg x) = 2 ^ Suc k" and "Increment (reg x) 1 = (R, carry)"
  defines "y \<equiv> x\<lparr>reg := grow_carry R carry\<rparr>"
  shows "wf y" and "val (reg y) = val (reg x) + 1" and "sign y = sign x" and "length (reg y) \<le> 2 * length (reg x)"
proof -
  have "reg x \<noteq> []" using assms(1) by auto
  note i = Increment_val [OF this assms(2)]
  then have c: "uint carry \<le> 1" by auto
  have R: "length R = length (reg x)" using i by blast
  have P: "\<exists>k. length R = 2 ^ Suc k" using assms(1) R by metis
  note g = grow_wf [OF P c]
  have "val (grow_carry R carry) = val (reg x) + 1" using g(2) i unfolding R by simp
  then show v: "val (reg y) = val (reg x) + 1" by (simp add: y_def)
  then have "val (reg y) \<noteq> 0" using val_nonneg [of "reg x"] by linarith
  then show "wf y" using g(1) unfolding wf_def y_def by simp
  show "sign y = sign x" "length (reg y) \<le> 2 * length (reg x)" using g(3) R by (simp_all add: y_def)
qed

lemma Integer_inc_ok:
  assumes "wf x"
  shows "wf (Integer_inc x)" and "ival (Integer_inc x) = ival x + 1" and "length (reg (Integer_inc x)) \<le> 2 * length (reg x)"
proof -
  have "wf (Integer_inc x) \<and> ival (Integer_inc x) = ival x + 1 \<and> length (reg (Integer_inc x)) \<le> 2 * length (reg x)"
  proof (cases "NotNegative x")
    case True
    obtain R c where I: "Increment (reg x) 1 = (R, c)" by fastforce
    have inc: "Integer_inc x = x\<lparr>reg := grow_carry R c\<rparr>" using True I by (simp add: Integer_inc_def)
    have s: "sign x \<noteq> NEGATIVE" using True by (simp add: NotNegative_def IsNegative_def)
    show ?thesis unfolding inc using step_up [OF wf_power [OF assms] I] s by (simp add: ival_def)
  next
    case False
    then have neg: "sign x = NEGATIVE" "val (reg x) \<noteq> 0" using assms by (simp_all add: NotNegative_def IsNegative_def wf_def)
    obtain R b where D: "Decrement (reg x) 1 = (R, b)" by fastforce
    note d = Decrement_val [OF wf_nonempty [OF assms] D]
    have v1: "1 \<le> val (reg x)" using neg(2) val_nonneg [of "reg x"] by linarith
    have "b = 0"
    proof (rule ccontr)
      assume "b \<noteq> 0"
      then have "val R = val (reg x) - 1 + W ^ length (reg x)" using d by simp
      then show False using v1 val_less [of R] d by simp
    qed
    then have R: "length R = length (reg x)" "val R = val (reg x) - 1" using d by simp_all
    let ?y = "x\<lparr>reg := R\<rparr>"
    have inc: "Integer_inc x = (if WordCount ?y = 0 then Integer_Zero else ?y)" using False D by (simp add: Integer_inc_def)
    show ?thesis
    proof (cases "val R = 0")
      case True
      then have "Integer_inc x = Integer_Zero" using inc WordCount_0 [of ?y] by simp
      moreover have "ival x = - 1" using True R neg by (simp add: ival_def)
      ultimately show ?thesis using wf_length [OF assms] by simp
    next
      case False
      then have "Integer_inc x = ?y" using inc WordCount_0 [of ?y] by simp
      then show ?thesis using False R neg assms by (simp add: ival_def wf_def)
    qed
  qed
  then show "wf (Integer_inc x)" "ival (Integer_inc x) = ival x + 1" "length (reg (Integer_inc x)) \<le> 2 * length (reg x)" by blast+
qed

lemma minus_One: "wf (Minus_unary Integer_One)" "ival (Minus_unary Integer_One) = - 1" "length (reg (Minus_unary Integer_One)) = 2"
proof -
  note c = Integer_copy_ok [OF Integer_One_ok(1) small_limit [OF Integer_One_ok(3)]]
  have "WordCount Integer_One \<le> 1" by (rule WordCount_le) (simp add: Integer_One_def Integer_long_def)
  then have "WordCount Integer_One = 0 \<or> WordCount Integer_One = 1" by linarith
  then have l: "length (reg (Integer_copy Integer_One)) = 2" using c(4) round_table(1,2) by auto
  show "wf (Minus_unary Integer_One)" "ival (Minus_unary Integer_One) = - 1" "length (reg (Minus_unary Integer_One)) = 2"
    using Negate_ok [OF c(1)] c(2) l by (simp_all add: Minus_unary_def)
qed

lemma Integer_dec_ok:
  assumes "wf x"
  shows "wf (Integer_dec x)" and "ival (Integer_dec x) = ival x - 1" and "length (reg (Integer_dec x)) \<le> 2 * length (reg x)"
proof -
  have "wf (Integer_dec x) \<and> ival (Integer_dec x) = ival x - 1 \<and> length (reg (Integer_dec x)) \<le> 2 * length (reg x)"
  proof (cases "IsNegative x")
    case True
    obtain R c where I: "Increment (reg x) 1 = (R, c)" by fastforce
    have dec: "Integer_dec x = x\<lparr>reg := grow_carry R c\<rparr>" using True I by (simp add: Integer_dec_def)
    have s: "sign x = NEGATIVE" using True by (simp add: IsNegative_def)
    show ?thesis unfolding dec using step_up [OF wf_power [OF assms] I] s by (simp add: ival_def)
  next
    case False
    then have s: "sign x \<noteq> NEGATIVE" by (simp add: IsNegative_def)
    obtain R b where D: "Decrement (reg x) 1 = (R, b)" by fastforce
    note d = Decrement_val [OF wf_nonempty [OF assms] D]
    have dec: "Integer_dec x = (if b \<noteq> 0 then Minus_unary Integer_One else x\<lparr>reg := R\<rparr>)" using False D by (simp add: Integer_dec_def)
    show ?thesis
    proof (cases "b = 0")
      case True
      then have "Integer_dec x = x\<lparr>reg := R\<rparr>" using dec by simp
      then show ?thesis using True d s assms by (simp add: ival_def wf_def)
    next
      case False
      then have "val R = val (reg x) - 1 + W ^ length (reg x)" using d by simp
      then have "val (reg x) < 1" using val_less [of R] d by simp
      then have "val (reg x) = 0" using val_nonneg [of "reg x"] by linarith
      then show ?thesis using False dec minus_One wf_length [OF assms] by (simp add: ival_def)
    qed
  qed
  then show "wf (Integer_dec x)" "ival (Integer_dec x) = ival x - 1" "length (reg (Integer_dec x)) \<le> 2 * length (reg x)" by blast+
qed

lemma PositiveCompare_ok:
  "PositiveCompare x t = (if val (reg x) < val (reg t) then - 1 else if val (reg x) = val (reg t) then 0 else 1)"
proof -
  consider "WordCount x = WordCount t" | "WordCount x < WordCount t" | "WordCount t < WordCount x" by linarith
  then show ?thesis
  proof cases
    case 1
    have "WordCount x \<le> length (reg t)" using WordCount_ok(1) [of t] 1 by simp
    then show ?thesis
      using 1 compare_val [OF WordCount_ok(1) [of x], of "reg t"] WordCount_ok(2) [of x] WordCount_ok(2) [of t]
      by (simp add: PositiveCompare_def)
  next
    case 2
    have "val (reg x) < val (reg t)"
    proof (rule ccontr)
      assume "\<not> val (reg x) < val (reg t)"
      then have "val (reg t) < W ^ WordCount x" using WordCount_ok(3) [of x] by linarith
      then show False using WordCount_le [of t "WordCount x"] 2 by simp
    qed
    then show ?thesis using 2 by (simp add: PositiveCompare_def)
  next
    case 3
    have "val (reg t) < val (reg x)"
    proof (rule ccontr)
      assume "\<not> val (reg t) < val (reg x)"
      then have "val (reg x) < W ^ WordCount t" using WordCount_ok(3) [of t] by linarith
      then show False using WordCount_le [of x "WordCount t"] 3 by simp
    qed
    then show ?thesis using 3 by (simp add: PositiveCompare_def)
  qed
qed

lemma Integer_Compare_ok:
  assumes "wf x" and "wf t"
  shows "Integer_Compare x t = (if ival x < ival t then - 1 else if ival x = ival t then 0 else 1)"
proof -
  have "Integer_Compare x t =
      (if 0 \<le> ival x then (if 0 \<le> ival t then (if \<bar>ival x\<bar> < \<bar>ival t\<bar> then - 1 else if \<bar>ival x\<bar> = \<bar>ival t\<bar> then 0 else 1) else 1)
       else (if 0 \<le> ival t then - 1 else - (if \<bar>ival x\<bar> < \<bar>ival t\<bar> then - 1 else if \<bar>ival x\<bar> = \<bar>ival t\<bar> then 0 else 1)))"
    by (simp only: Integer_Compare_def PositiveCompare_ok ival_abs ival_sign(2) [OF assms(1)] ival_sign(2) [OF assms(2)])
  then show ?thesis by (simp split: if_splits)
qed

section \<open>Products\<close>

lemma RoundupSize_bounds:
  assumes "n \<le> 2 ^ 32"
  shows "n \<le> RoundupSize n" and "\<exists>k. RoundupSize n = 2 ^ Suc k" and "RoundupSize n \<le> 2 * n + 2"
proof -
  obtain k where k: "RoundupSize n = 2 ^ Suc k" "n \<le> 2 ^ Suc k" "\<And>j. n \<le> 2 ^ Suc j \<Longrightarrow> k \<le> j"
    using RoundupSize_ok [OF assms] by blast
  show "n \<le> RoundupSize n" "\<exists>k. RoundupSize n = 2 ^ Suc k" using k by auto
  show "RoundupSize n \<le> 2 * n + 2"
  proof (cases k)
    case (Suc j)
    have "\<not> n \<le> 2 ^ Suc j" using k(3) [of j] Suc by auto
    then show ?thesis using k(1) Suc by simp
  qed (simp add: k(1))
qed

lemma pad_val: "val (R @ SetWords 0 n) = val R" "length (R @ SetWords 0 n) = length R + n"
  by simp_all

lemma count_operand:
  assumes "wf x" and "small x"
  defines "A \<equiv> take (RoundupSize (WordCount x)) (reg x)"
  shows "length A = RoundupSize (WordCount x)" and "\<exists>k. length A = 2 ^ Suc k" and "val A = val (reg x)" and "length A \<le> length (reg x)"
proof -
  note r = RoundupSize_count [OF assms(1) small_limit [OF assms(2)] WordCount_ok(1) [of x]]
  show l: "length A = RoundupSize (WordCount x)" using r(1) by (simp add: A_def)
  show "\<exists>k. length A = 2 ^ Suc k" unfolding l by (rule r(3))
  show "val A = val (reg x)" unfolding A_def using r(2) by (rule val_take_count)
  show "length A \<le> length (reg x)" using l r(1) by simp
qed

lemma abs_product: "(0 \<le> x) = (0 \<le> y) \<Longrightarrow> \<bar>x\<bar> * \<bar>y\<bar> = x * y" for x y :: int
  by (cases "0 \<le> x"; cases "0 \<le> y") simp_all

lemma abs_product_minus: "(0 \<le> x) \<noteq> (0 \<le> y) \<Longrightarrow> - (\<bar>x\<bar> * \<bar>y\<bar>) = x * y" for x y :: int
  by (cases "0 \<le> x"; cases "0 \<le> y") simp_all

lemma PositiveMultiply_ok:
  assumes "wf a" "wf b" "small a" "small b" "same \<Longrightarrow> a = b"
  shows "\<exists>p. PositiveMultiply same a b = Inr p \<and> wf p \<and> sign p = POSITIVE \<and> val (reg p) = val (reg a) * val (reg b) \<and>
    length (reg p) = RoundupSize (RoundupSize (WordCount a) + RoundupSize (WordCount b))"
proof -
  note A = count_operand [OF assms(1,3)] and B = count_operand [OF assms(2,4)]
  obtain j k where jk: "length (take (RoundupSize (WordCount a)) (reg a)) = 2 ^ Suc j" "length (take (RoundupSize (WordCount b)) (reg b)) = 2 ^ Suc k"
    using A(2) B(2) by blast
  have same: "same \<Longrightarrow> take (RoundupSize (WordCount a)) (reg a) = take (RoundupSize (WordCount b)) (reg b)" using assms(5) by simp
  obtain R where R: "AsymmetricMultiply same (take (RoundupSize (WordCount a)) (reg a)) (take (RoundupSize (WordCount b)) (reg b)) = Some R"
      "length R = RoundupSize (WordCount a) + RoundupSize (WordCount b)" "val R = val (reg a) * val (reg b)"
    using AsymmetricMultiply_ok [OF _ _ jk same] unfolding A(1,3) B(1,3) by auto
  define s where "s = RoundupSize (WordCount a) + RoundupSize (WordCount b)"
  have "RoundupSize (WordCount a) \<le> 2 ^ 28" using A(1,4) assms(3) unfolding small_def by (metis order.trans)
  moreover have "RoundupSize (WordCount b) \<le> 2 ^ 28" using B(1,4) assms(4) unfolding small_def by (metis order.trans)
  ultimately have s32: "s \<le> 2 ^ 32" by (simp add: s_def)
  note r = RoundupSize_bounds [OF s32]
  let ?p = "\<lparr>reg = R @ SetWords 0 (RoundupSize s - length R), sign = POSITIVE\<rparr>"
  have p: "PositiveMultiply same a b = Inr ?p" using R(1) by (simp add: PositiveMultiply_def Let_def s_def)
  have l: "length (reg ?p) = RoundupSize s" using r(1) R(2) by (simp add: s_def)
  moreover have "wf ?p" using r(2) l unfolding wf_def by simp
  moreover have "val (reg ?p) = val (reg a) * val (reg b)" using R(3) by simp
  ultimately show ?thesis using p unfolding s_def by (intro exI [of _ ?p]) (simp add: s_def)
qed

lemma Times_ok:
  assumes "wf a" "wf b" "small a" "small b" "same \<Longrightarrow> a = b"
  shows "\<exists>p. Times same a b = Inr p \<and> wf p \<and> ival p = ival a * ival b \<and>
    length (reg p) = RoundupSize (RoundupSize (WordCount a) + RoundupSize (WordCount b))"
proof -
  obtain p where p: "PositiveMultiply same a b = Inr p" "wf p" "sign p = POSITIVE" "val (reg p) = val (reg a) * val (reg b)"
      "length (reg p) = RoundupSize (RoundupSize (WordCount a) + RoundupSize (WordCount b))"
    using PositiveMultiply_ok [OF assms] by blast
  have "ival p = val (reg p)" using p(3) by (simp add: ival_def)
  then have v: "ival p = \<bar>ival a\<bar> * \<bar>ival b\<bar>" by (simp only: p(4) ival_abs [of a] ival_abs [of b])
  have T: "Times same a b = Inr (if NotNegative a \<noteq> NotNegative b then Negate p else p)" using p(1) by (simp add: Times_def)
  note sg = ival_sign(2) [OF assms(1)] ival_sign(2) [OF assms(2)]
  show ?thesis
  proof (cases "NotNegative a = NotNegative b")
    case True
    then have "ival p = ival a * ival b" unfolding v sg by (rule abs_product)
    then show ?thesis using True p(2,5) T by simp
  next
    case False
    then have "- ival p = ival a * ival b" unfolding v sg by (rule abs_product_minus)
    then have "ival (Negate p) = ival a * ival b" using Negate_ok(2) [OF p(2)] by simp
    then show ?thesis using False Negate_ok(1,3) [OF p(2)] p(5) T by simp
  qed
qed

section \<open>Quotients\<close>

lemma Integer_Zero_sign: "sign Integer_Zero = POSITIVE"
  by (simp add: Integer_Zero_def)

lemma even_top:
  assumes "wf x" and "WordCount x \<noteq> 0"
  defines "n \<equiv> WordCount x + WordCount x mod 2"
  shows "2 \<le> n" and "take n (reg x) ! (n - 1) \<noteq> 0 \<or> take n (reg x) ! (n - 2) \<noteq> 0"
proof -
  show "2 \<le> n" using assms(2) unfolding n_def by (cases "even (WordCount x)") (auto elim: oddE evenE)
  have t: "reg x ! (WordCount x - 1) \<noteq> 0" using WordCount_ok(5) [OF assms(2)] .
  show "take n (reg x) ! (n - 1) \<noteq> 0 \<or> take n (reg x) ! (n - 2) \<noteq> 0"
  proof (cases "even (WordCount x)")
    case True
    then show ?thesis using t assms(2) by (simp add: n_def)
  next
    case False
    then have "WordCount x mod 2 = 1" by presburger
    then show ?thesis using t assms(2) by (simp add: n_def)
  qed
qed

text \<open>A smaller value fits in the words of a larger one.\<close>

lemma value_size:
  assumes "wf b" and "small b" and "val (reg x) < val (reg b)"
  shows "RoundupSize (WordCount x) \<le> length (reg b)"
proof -
  have "val (reg x) < W ^ length (reg b)" using assms(3) val_less [of "reg b"] by linarith
  then have "WordCount x \<le> length (reg b)" by (rule WordCount_le)
  then show ?thesis by (rule RoundupSize_count(1) [OF assms(1) small_limit [OF assms(2)]])
qed

lemma PositiveDivide_ok:
  assumes "wf a" "wf b" "small a" "small b" "ival b \<noteq> 0"
  shows "\<exists>r q. PositiveDivide a b = Inr (r, q) \<and> wf r \<and> wf q \<and> ival r = \<bar>ival a\<bar> mod \<bar>ival b\<bar> \<and> ival q = \<bar>ival a\<bar> div \<bar>ival b\<bar> \<and>
    sign r = POSITIVE \<and> sign q = POSITIVE \<and> length (reg r) \<le> length (reg b) \<and> length (reg q) \<le> 2 * length (reg a) + 2"
proof -
  have b0: "WordCount b \<noteq> 0" using assms(5) WordCount_0 [of b] ival_abs [of b] by simp
  have ab: "val (reg a) = \<bar>ival a\<bar>" "val (reg b) = \<bar>ival b\<bar>" by (rule ival_abs)+
  show ?thesis
  proof (cases "val (reg a) < val (reg b)")
    case True
    then have "PositiveCompare a b = - 1" by (simp add: PositiveCompare_ok)
    then have P: "PositiveDivide a b = Inr ((Integer_copy a)\<lparr>sign := POSITIVE\<rparr>, Integer_Zero)" using b0 by (simp add: PositiveDivide_def Let_def)
    note c = AbsoluteValue_ok [OF assms(1,3)]
    have le: "RoundupSize (WordCount a) \<le> length (reg b)" using assms(2,4) True by (rule value_size)
    have "\<bar>ival a\<bar> mod \<bar>ival b\<bar> = \<bar>ival a\<bar>" "\<bar>ival a\<bar> div \<bar>ival b\<bar> = 0" using True ab by simp_all
    then show ?thesis
      using c(1,2,4) le Integer_Zero_sign unfolding P by (auto simp: AbsoluteValue_def)
  next
    case False
    then have "PositiveCompare a b \<noteq> - 1" by (simp add: PositiveCompare_ok)
    then have cmp: "(PositiveCompare a b = - 1) = False" by simp
    define n m where "n = WordCount a + WordCount a mod 2" and "m = WordCount b + WordCount b mod 2"
    have P: "PositiveDivide a b = (case Divide (take n (reg a)) (take m (reg b)) of
                None \<Rightarrow> Inl AssertionFailed
              | Some (R, Q) \<Rightarrow>
                  Inr (\<lparr>reg = R @ SetWords 0 (RoundupSize m - m), sign = POSITIVE\<rparr>,
                       \<lparr>reg = Q @ SetWords 0 (RoundupSize (n - m + 2) - (n - m + 2)), sign = POSITIVE\<rparr>))"
      using b0 unfolding PositiveDivide_def Let_def cmp n_def m_def by simp
    note A = even_count [OF assms(1), folded n_def] and B = even_count [OF assms(2), folded m_def]
    note t = even_top [OF assms(2) b0, folded m_def]
    have mn: "m \<le> n"
    proof (rule ccontr)
      assume "\<not> m \<le> n"
      then show False using even_count_less [of a b] False by (simp add: n_def m_def)
    qed
    have l: "length (take n (reg a)) = n" "length (take m (reg b)) = m" using A(2) B(2) by simp_all
    from Divide_ok [of "take n (reg a)" "take m (reg b)", unfolded l A(3) B(3), OF A(1) B(1) t(1) mn t(2)]
    obtain R Q where D: "Divide (take n (reg a)) (take m (reg b)) = Some (R, Q)" "length R = m" "length Q = n - m + 2"
        "val R = val (reg a) mod val (reg b)" "val Q = val (reg a) div val (reg b)" by blast
    have n28: "n \<le> 2 ^ 28" "m \<le> 2 ^ 28" using A(2) B(2) assms(3,4) unfolding small_def by linarith+
    have m32: "m \<le> 2 ^ 32" "n - m + 2 \<le> 2 ^ 32" using n28 by simp_all
    note rm = RoundupSize_bounds [OF m32(1)] and rq = RoundupSize_bounds [OF m32(2)]
    have rb: "RoundupSize m \<le> length (reg b)" using RoundupSize_count(1) [OF assms(2) small_limit [OF assms(4)] B(2)] .
    let ?r = "\<lparr>reg = R @ SetWords 0 (RoundupSize m - m), sign = POSITIVE\<rparr>"
    let ?q = "\<lparr>reg = Q @ SetWords 0 (RoundupSize (n - m + 2) - (n - m + 2)), sign = POSITIVE\<rparr>"
    have lr: "length (reg ?r) = RoundupSize m" using rm(1) D(2) by simp
    have lq: "length (reg ?q) = RoundupSize (n - m + 2)" using rq(1) D(3) by simp
    have "wf ?r" using rm(2) lr unfolding wf_def by simp
    moreover have "wf ?q" using rq(2) lq unfolding wf_def by simp
    moreover have "ival ?r = \<bar>ival a\<bar> mod \<bar>ival b\<bar>" "ival ?q = \<bar>ival a\<bar> div \<bar>ival b\<bar>" using D(4,5) ab by simp_all
    moreover have "length (reg ?r) \<le> length (reg b)" using lr rb by simp
    moreover have "n - m + 2 \<le> length (reg a)" using A(2) t(1) mn by linarith
    then have "2 * (n - m + 2) + 2 \<le> 2 * length (reg a) + 2" by simp
    then have "length (reg ?q) \<le> 2 * length (reg a) + 2" using rq(3) unfolding lq by (rule order.trans [rotated])
    moreover have "PositiveDivide a b = Inr (?r, ?q)" using D(1) unfolding P by simp
    ultimately show ?thesis by auto
  qed
qed

text \<open>Euclidean division: the remainder of \<open>Divide\<close> is never negative.\<close>

lemma signed_division:
  fixes a b r q :: int
  assumes "b \<noteq> 0" and "r = \<bar>a\<bar> mod \<bar>b\<bar>" and "q = \<bar>a\<bar> div \<bar>b\<bar>"
  shows "0 \<le> a \<Longrightarrow> a = (if b < 0 then - q else q) * b + r"
    and "a < 0 \<Longrightarrow> r = 0 \<Longrightarrow> a = (if b < 0 then - (- q) else - q) * b"
    and "a < 0 \<Longrightarrow> r \<noteq> 0 \<Longrightarrow> a = (if b < 0 then - (- q - 1) else - q - 1) * b + (\<bar>b\<bar> - r)"
    and "0 \<le> r" and "r < \<bar>b\<bar>"
proof -
  have e: "\<bar>a\<bar> = q * \<bar>b\<bar> + r" unfolding assms(2,3) by simp
  show "0 \<le> r" "r < \<bar>b\<bar>" using assms(1) unfolding assms(2) by simp_all
  show "0 \<le> a \<Longrightarrow> a = (if b < 0 then - q else q) * b + r" using e by (simp add: abs_if split: if_splits)
  show "a < 0 \<Longrightarrow> r = 0 \<Longrightarrow> a = (if b < 0 then - (- q) else - q) * b"
  proof -
    assume "a < 0" "r = 0"
    then have "a = - (q * \<bar>b\<bar>)" using e by linarith
    then show "a = (if b < 0 then - (- q) else - q) * b" by (cases "b < 0") simp_all
  qed
  show "a < 0 \<Longrightarrow> r \<noteq> 0 \<Longrightarrow> a = (if b < 0 then - (- q - 1) else - q - 1) * b + (\<bar>b\<bar> - r)"
  proof -
    assume "a < 0"
    then have a: "a = - (q * \<bar>b\<bar> + r)" using e by linarith
    show "a = (if b < 0 then - (- q - 1) else - q - 1) * b + (\<bar>b\<bar> - r)"
      by (subst a, cases "b < 0") (simp_all add: algebra_simps)
  qed
qed

lemma Integer_Divide_ok:
  assumes "wf a" "wf b" "small a" "small b" "ival b \<noteq> 0"
  shows "\<exists>r q. Integer_Divide a b = Inr (r, q) \<and> wf r \<and> wf q \<and> ival a = ival q * ival b + ival r \<and>
    0 \<le> ival r \<and> ival r < \<bar>ival b\<bar> \<and> length (reg r) \<le> 2 * max (length (reg a)) (length (reg b)) \<and>
    length (reg q) \<le> 4 * length (reg a) + 4 \<and> length (reg r) \<le> length (reg b)"
proof -
  obtain r q where d: "PositiveDivide a b = Inr (r, q)" "wf r" "wf q" "ival r = \<bar>ival a\<bar> mod \<bar>ival b\<bar>" "ival q = \<bar>ival a\<bar> div \<bar>ival b\<bar>"
      "length (reg r) \<le> length (reg b)" "length (reg q) \<le> 2 * length (reg a) + 2"
    using PositiveDivide_ok [OF assms] by blast
  note s = signed_division [OF assms(5) d(4,5)]
  note neg = ival_sign(1) [OF assms(1)] ival_sign(1) [OF assms(2)]
  have small_r: "small r" using d(6) assms(3,4) unfolding small_def by linarith
  define q1 where "q1 = (if IsNegative a then (if NotZero r then Integer_dec (Negate q) else Negate q) else q)"
  define r1 where "r1 = (if IsNegative a \<and> NotZero r then Integer_copy (Minus (AbsoluteValue b) r) else r)"
  have D: "Integer_Divide a b = Inr (r1, if IsNegative b then Negate q1 else q1)"
    unfolding Integer_Divide_def d(1) by (simp add: Let_def q1_def r1_def)
  have nz: "NotZero r \<longleftrightarrow> ival r \<noteq> 0" using IsZero_iff [OF d(2)] by (simp add: NotZero_def)
  have q1: "wf q1 \<and> length (reg q1) \<le> 4 * length (reg a) + 4 \<and>
      ival q1 = (if ival a < 0 then (if ival r \<noteq> 0 then - ival q - 1 else - ival q) else ival q)"
    using Negate_ok [OF d(3)] Integer_dec_ok [OF Negate_ok(1) [OF d(3)]] d(3,7) by (simp add: q1_def neg nz)
  note abs = AbsoluteValue_ok [OF assms(2,4)]
  note minus = Minus_ok [OF abs(1) d(2) abs(3) small_r]
  define mx where "mx = max (length (reg a)) (length (reg b))"
  have lb: "length (reg (AbsoluteValue b)) \<le> length (reg b)"
    using RoundupSize_count(1) [OF assms(2) small_limit [OF assms(4)] WordCount_ok(1) [of b]] abs(4) by simp
  have mx28: "mx \<le> 2 ^ 28" using assms(3,4) unfolding small_def mx_def by simp
  have lm: "length (reg (Minus (AbsoluteValue b) r)) \<le> 2 * mx"
  proof -
    have "max (length (reg (AbsoluteValue b))) (length (reg r)) \<le> mx" using lb d(6) unfolding mx_def by linarith
    then show ?thesis using minus(3) by linarith
  qed
  then have "length (reg (Minus (AbsoluteValue b) r)) \<le> 2 ^ 32" using mx28 by simp
  note c = Integer_copy_ok [OF minus(1) this]
  have lr: "length (reg r) \<le> 2 * mx" using d(6) unfolding mx_def by linarith
  have lb1: "length (reg r1) \<le> length (reg b)" if "NotZero r"
  proof (cases "IsNegative a")
    case True
    have "\<bar>ival (Minus (AbsoluteValue b) r)\<bar> < \<bar>ival b\<bar>" using s(4,5) that unfolding minus(2) abs(2) nz by simp
    then have "val (reg (Minus (AbsoluteValue b) r)) < val (reg b)" by (simp only: ival_abs)
    from value_size [OF assms(2,4) this] show ?thesis using True that by (simp only: r1_def c(4) if_True simp_thms)
  qed (use d(6) in \<open>simp add: r1_def\<close>)
  have r1: "wf r1 \<and> ival r1 = (if ival a < 0 \<and> ival r \<noteq> 0 then \<bar>ival b\<bar> - ival r else ival r) \<and> length (reg r1) \<le> 2 * mx"
    using c(1,2,3) lm minus(2) abs(2) d(2) lr by (simp add: r1_def neg nz)
  define q2 where "q2 = (if IsNegative b then Negate q1 else q1)"
  have q2: "wf q2 \<and> length (reg q2) \<le> 4 * length (reg a) + 4 \<and> ival q2 = (if ival b < 0 then - ival q1 else ival q1)"
    using q1 Negate_ok [of q1] by (simp add: q2_def neg)
  have "ival a = ival q2 * ival b + ival r1 \<and> 0 \<le> ival r1 \<and> ival r1 < \<bar>ival b\<bar>"
  proof (cases "ival a < 0")
    case False
    then show ?thesis using s(1,4,5) q1 q2 r1 by simp
  next
    case neg_a: True
    show ?thesis
    proof (cases "ival r = 0")
      case True
      then show ?thesis using neg_a s(2,4,5) q1 q2 r1 by simp
    next
      case False
      then show ?thesis using neg_a s(3,4,5) q1 q2 r1 by simp
    qed
  qed
  moreover have "length (reg r1) \<le> length (reg b)" using lb1 d(6) by (cases "NotZero r") (simp_all add: r1_def)
  ultimately show ?thesis using q2 r1 D unfolding q2_def mx_def by blast
qed

section \<open>Shifts by bits\<close>

lemma pow_words: "(2::int) ^ n = W ^ (n div 64) * 2 ^ (n mod 64)"
proof -
  have "(2::int) ^ n = 2 ^ (64 * (n div 64) + n mod 64)" by simp
  then show ?thesis by (simp only: power_add power_mult W_def)
qed

lemma div_pow_words: "x div 2 ^ n = x div W ^ (n div 64) div 2 ^ (n mod 64)" for x :: int
  unfolding pow_words [of n] by (rule zdiv_zmult2_eq) simp

lemma val_drop: "val (drop n A) = val A div W ^ n" if "n \<le> length A"
proof -
  have t: "length (take n A) = n" using that by simp
  have "val A = val (take n A) + val (drop n A) * W ^ n" using val_take_drop [of A n] unfolding t by simp
  moreover have "val (take n A) div W ^ n = 0" using val_less [of "take n A"] unfolding t by (intro div_pos_pos_trivial) simp_all
  ultimately show ?thesis by simp
qed

lemma shift_right_ok:
  assumes "wf x"
  shows "wf (shift_right x n)" and "\<bar>ival (shift_right x n)\<bar> = \<bar>ival x\<bar> div 2 ^ n"
    and "ival (shift_right x n) = (if ival x < 0 then - (\<bar>ival x\<bar> div 2 ^ n) else ival x div 2 ^ n)"
    and "length (reg (shift_right x n)) \<le> length (reg x)"
proof -
  define wc sw sb where "wc = WordCount x" and "sw = n div 64" and "sb = n mod 64"
  define T where "T = take wc (reg x)"
  define R1 where "R1 = ShiftWordsRightByWords T sw @ drop wc (reg x)"
  define R where "R = (if wc > sw then fst (ShiftWordsRightByBits (take (wc - sw) R1) sb) @ drop (wc - sw) R1 else R1)"
  let ?y = "x\<lparr>reg := R\<rparr>"
  have y: "shift_right x n = (if IsNegative ?y \<and> WordCount ?y = 0 then Integer_Zero else ?y)"
    by (simp only: shift_right_def Let_def wc_def sw_def sb_def T_def R1_def R_def)
  have lT: "length T = wc" "wc \<le> length (reg x)" using WordCount_ok(1) [of x] by (simp_all add: T_def wc_def)
  have vT: "val T = val (reg x)" using WordCount_ok(2) [of x] by (simp add: T_def wc_def)
  have z: "val (drop wc (reg x)) = 0" by (rule val_drop_count) (simp add: wc_def)
  have lR1: "length R1 = length (reg x)" using lT by (simp add: R1_def ShiftWordsRightByWords_def Let_def)
  have v: "length R = length (reg x) \<and> val R = val (reg x) div 2 ^ n"
  proof (cases "wc > sw")
    case True
    have R1: "R1 = drop sw T @ SetWords 0 sw @ drop wc (reg x)" using True lT by (simp add: R1_def ShiftWordsRightByWords_def Let_def)
    obtain S c where S: "ShiftWordsRightByBits (drop sw T) sb = (S, c)" by fastforce
    have sb: "sb < 64" by (simp add: sb_def)
    note s = ShiftWordsRightByBits_val [OF sb S]
    have R: "R = S @ SetWords 0 sw @ drop wc (reg x)" using True lT S unfolding R_def R1 by simp
    have "val R = val S" using z unfolding R by simp
    also have "\<dots> = val (reg x) div W ^ sw div 2 ^ sb" using s val_drop [of sw T] True lT vT by simp
    also have "\<dots> = val (reg x) div 2 ^ n" unfolding div_pow_words [of _ n] sw_def sb_def ..
    finally show ?thesis using s True lT unfolding R by simp
  next
    case False
    then have "R = SetWords 0 wc @ drop wc (reg x)" using lT by (simp add: R_def R1_def ShiftWordsRightByWords_def Let_def)
    then have "val R = 0" "length R = length (reg x)" using z lT by simp_all
    moreover have "val (reg x) < 2 ^ n"
    proof -
      have "val (reg x) < W ^ wc" using WordCount_ok(3) [of x] by (simp add: wc_def)
      also have "\<dots> \<le> W ^ sw * 1" using False by (simp only: mult_1_right, intro power_increasing) simp_all
      also have "W ^ sw * 1 \<le> W ^ sw * 2 ^ sb" by (intro mult_left_mono) simp_all
      finally show ?thesis unfolding pow_words [of n] sw_def sb_def .
    qed
    ultimately show ?thesis by simp
  qed
  have nn: "0 \<le> val (reg x) div 2 ^ n" by (simp add: pos_imp_zdiv_nonneg_iff)
  have a: "\<bar>ival x\<bar> = val (reg x)" by (rule ival_abs [symmetric])
  have y0: "WordCount ?y = 0 \<longleftrightarrow> val (reg x) div 2 ^ n = 0" using WordCount_0 [of ?y] v by simp
  have all: "wf (shift_right x n) \<and> ival (shift_right x n) = (if ival x < 0 then - (val (reg x) div 2 ^ n) else val (reg x) div 2 ^ n) \<and>
      length (reg (shift_right x n)) \<le> length (reg x)"
  proof (cases "IsNegative x")
    case True
    then have neg: "ival x < 0" "sign x = NEGATIVE" using ival_sign(1) [OF assms] by (simp_all add: IsNegative_def)
    show ?thesis
    proof (cases "val (reg x) div 2 ^ n = 0")
      case True
      then have "shift_right x n = Integer_Zero" using y y0 neg by (simp add: IsNegative_def)
      then show ?thesis using True neg wf_length [OF assms] by simp
    next
      case False
      then have "shift_right x n = ?y" using y y0 by simp
      then show ?thesis using False neg v assms by (simp add: wf_def ival_def)
    qed
  next
    case False
    then have pos: "\<not> ival x < 0" "sign x \<noteq> NEGATIVE" using ival_sign(1) [OF assms] by (simp_all add: IsNegative_def)
    then have "shift_right x n = ?y" using y by (simp add: IsNegative_def)
    then show ?thesis using pos v assms by (simp add: wf_def ival_def)
  qed
  then show "wf (shift_right x n)" "length (reg (shift_right x n)) \<le> length (reg x)" by blast+
  have i: "ival (shift_right x n) = (if ival x < 0 then - (val (reg x) div 2 ^ n) else val (reg x) div 2 ^ n)" using all by blast
  then show "\<bar>ival (shift_right x n)\<bar> = \<bar>ival x\<bar> div 2 ^ n" using nn unfolding a by simp
  show "ival (shift_right x n) = (if ival x < 0 then - (\<bar>ival x\<bar> div 2 ^ n) else ival x div 2 ^ n)"
    unfolding i a [symmetric] by simp
qed

lemma CleanGrow_ok: "val (CleanGrow R n) = val R" "length (CleanGrow R n) = max (length R) n" "take (length R) (CleanGrow R n) = R"
  by (simp_all add: CleanGrow_def)

lemma shift_left_ok:
  assumes "wf x" and "small x" and "n < 2 ^ 31"
  shows "wf (shift_left x n)" and "ival (shift_left x n) = 2 ^ n * ival x"
    and "length (reg (shift_left x n)) = max (length (reg x)) (RoundupSize (WordCount x + BitsToWords n))"
proof -
  define wc sw sb where "wc = WordCount x" and "sw = n div 64" and "sb = n mod 64"
  define k where "k = wc + BitsToWords sb"
  define L where "L = RoundupSize (wc + BitsToWords n)"
  define R0 where "R0 = CleanGrow (reg x) L"
  define R1 where "R1 = ShiftWordsLeftByWords (take (wc + sw) R0) sw @ drop (wc + sw) R0"
  define R where "R = take sw R1 @ fst (ShiftWordsLeftByBits (take k (drop sw R1)) sb) @ drop (sw + k) R1"
  have y: "shift_left x n = x\<lparr>reg := R\<rparr>"
    by (simp only: shift_left_def Let_def wc_def sw_def sb_def R0_def R1_def R_def k_def L_def)
  have wc: "wc \<le> length (reg x)" using WordCount_ok(1) [of x] by (simp add: wc_def)
  have bw: "BitsToWords n = sw + BitsToWords sb"
  proof -
    have "n + 63 = sw * 64 + (sb + 63)" by (simp add: sw_def sb_def)
    then show ?thesis by (simp add: BitsToWords_def)
  qed
  have "BitsToWords n \<le> n" by (simp add: BitsToWords_def)
  then have "wc + BitsToWords n \<le> 2 ^ 28 + 2 ^ 31" using wc assms(2,3) unfolding small_def by linarith
  then have l32: "wc + BitsToWords n \<le> 2 ^ 32" by simp
  note r = RoundupSize_bounds [OF l32, folded L_def]
  have kL: "sw + k \<le> L" using r(1) unfolding bw k_def by simp
  have bs: "BitsToWords sb = (if sb = 0 then 0 else 1)"
    using mod_less_divisor [of 64 n] by (simp add: BitsToWords_def sb_def div_eq_dividend_iff) (simp add: div_nat_eqI)
  have lR0: "length R0 = max (length (reg x)) L" unfolding R0_def by (rule CleanGrow_ok)
  have T: "take wc R0 = take wc (reg x)"
    using wc CleanGrow_ok(3) [of "reg x" L] unfolding R0_def by (metis min.absorb1 take_take)
  have vT: "val (take wc R0) = val (reg x)" unfolding T using WordCount_ok(2) [of x] by (simp add: wc_def)
  have lT: "length (take wc R0) = wc" using wc lR0 by simp
  have zT: "val (drop wc R0) = 0"
    using val_take_drop [of R0 wc] vT lT CleanGrow_ok(1) [of "reg x" L] by (simp add: R0_def)
  have R1: "R1 = SetWords 0 sw @ take wc R0 @ drop (wc + sw) R0"
  proof -
    have "length (take (wc + sw) R0) = wc + sw" using lR0 kL by (simp add: k_def)
    then show ?thesis by (simp add: R1_def ShiftWordsLeftByWords_def Let_def del: length_take)
  qed
  have z1: "val (drop (wc + sw) R0) = 0"
  proof -
    have "drop (wc + sw) R0 = drop sw (drop wc R0)" by (simp add: add.commute)
    moreover have "val (drop sw (drop wc R0)) = 0 div W ^ sw" using val_drop [of sw "drop wc R0"] lR0 kL zT by (simp add: k_def)
    ultimately show ?thesis by simp
  qed
  let ?U = "take k (take wc R0 @ drop (wc + sw) R0)"
  have lU: "length ?U = k" using lT lR0 kL by simp
  have vU: "val ?U = val (reg x)"
  proof -
    have "?U = take wc R0 @ take (BitsToWords sb) (drop (wc + sw) R0)" using lT by (simp add: k_def)
    moreover have "val (take (BitsToWords sb) (drop (wc + sw) R0)) = 0"
      using val_take_drop [of "drop (wc + sw) R0" "BitsToWords sb"] z1
        val_nonneg [of "take (BitsToWords sb) (drop (wc + sw) R0)"] by (simp add: add_nonneg_eq_0_iff)
    ultimately show ?thesis using vT by simp
  qed
  obtain S c where S: "ShiftWordsLeftByBits ?U sb = (S, c)" by fastforce
  have sb: "sb < 64" by (simp add: sb_def)
  note s = ShiftWordsLeftByBits_val [OF sb S, unfolded vU lU]
  have small_val: "2 ^ sb * val (reg x) < W ^ k"
  proof (cases "sb = 0")
    case True
    then show ?thesis using WordCount_ok(3) [of x] bs by (simp add: k_def wc_def)
  next
    case False
    have "(2::int) ^ sb * val (reg x) \<le> 2 ^ 64 * val (reg x)" using sb by (intro mult_right_mono power_increasing) simp_all
    also have "\<dots> < W * W ^ wc" using WordCount_ok(3) [of x] by (simp add: W_def wc_def)
    finally show ?thesis using False bs by (simp add: k_def)
  qed
  have "uint c = 0"
  proof (rule ccontr)
    assume "uint c \<noteq> 0"
    then have "1 \<le> uint c" using uint_W(1) [of c] by linarith
    then have "W ^ k * 1 \<le> W ^ k * uint c" by (intro mult_left_mono) simp_all
    moreover have "W ^ k * uint c < W ^ k * 1" using s small_val val_nonneg [of S] by linarith
    ultimately show False by linarith
  qed
  then have vS: "val S = 2 ^ sb * val (reg x)" "length S = k" using s by simp_all
  have R: "R = SetWords 0 sw @ S @ drop (sw + k) R1" using S unfolding R_def by (simp add: R1)
  have lR1: "length R1 = length R0" using lT lR0 kL by (simp add: R1 k_def)
  have zR: "val (drop (sw + k) R1) = 0"
  proof -
    have "drop (sw + k) R1 = drop (BitsToWords sb) (drop (wc + sw) R0)" using lT by (simp add: R1 k_def)
    moreover have "val (drop (BitsToWords sb) (drop (wc + sw) R0)) = 0 div W ^ BitsToWords sb"
      using val_drop [of "BitsToWords sb" "drop (wc + sw) R0"] lR0 kL z1 by (simp add: k_def)
    ultimately show ?thesis by simp
  qed
  have vR: "val R = 2 ^ n * val (reg x)"
    using vS zR unfolding R pow_words [of n] sw_def [symmetric] sb_def [symmetric] by simp
  have lR: "length R = max (length (reg x)) L" using lR1 lR0 vS(2) kL unfolding R by simp
  show "length (reg (shift_left x n)) = max (length (reg x)) (RoundupSize (WordCount x + BitsToWords n))"
    using lR unfolding y L_def wc_def by simp
  show "ival (shift_left x n) = 2 ^ n * ival x" unfolding y using vR by (simp add: ival_def)
  have "\<exists>k. length R = 2 ^ Suc k" using assms(1) r(2) unfolding lR wf_def by (metis max_def)
  then show "wf (shift_left x n)" unfolding y wf_def using vR assms(1) by (simp add: wf_def)
qed

section \<open>Division by a word\<close>

text \<open>One step of \<open>operator%\<close> for a divisor of at most 32 bits: the remainder moves up and 32 bits of
  the dividend come in below it.\<close>

lemma mod_half_step:
  fixes x r h :: u64
  assumes "uint x < 2 ^ 32" and "uint r < 2 ^ 32"
  shows "uint ((x + push_bit 32 r) mod h) = (uint x + 2 ^ 32 * uint r) mod uint h"
proof -
  have r: "uint r * 2 ^ 32 \<le> (2 ^ 32 - 1) * 2 ^ 32" using assms(2) by (intro mult_right_mono) simp_all
  then have "uint (push_bit 32 r) = uint r * 2 ^ 32" using uint_push_word [of 32 r] uint_W(1) [of r] by (simp add: W_def)
  moreover have "uint (x + push_bit 32 r) = uint x + uint (push_bit 32 r)"
    using r assms(1) calculation uint_W(1) [of x] uint_W(1) [of r] by (simp add: uint_word_ariths)
  ultimately show ?thesis by (simp add: uint_mod mult.commute)
qed

lemma mod_step: "(x + c * (y mod n)) mod n = (x + c * y) mod n" for x c y n :: int
  by (metis mod_add_right_eq mod_mult_right_eq)

lemma DWord_mod_ok:
  assumes "a \<noteq> 0" and "uint a < 2 ^ 32 \<or> GetHighHalf d < a"
  shows "\<exists>r. DWord_mod d a = Some r \<and> uint r = dint d mod uint a"
proof -
  have a: "0 < uint a" using assms(1) uint_W(1) [of a] by (metis order_le_less uint_0_iff)
  have p: "uint (push_bit 32 1 :: u64) = 2 ^ 32" by (simp add: uint_push_word W_def)
  show ?thesis
  proof (cases "a < push_bit 32 1")
    case True
    then have a32: "uint a < 2 ^ 32" unfolding word_less_def p .
    define h where "h = (ucast (ucast a :: hword) :: u64)"
    have trunc: "uint (ucast (ucast x :: hword) :: u64) = uint x mod 2 ^ 32" for x :: u64
    proof -
      have "uint (ucast (ucast x :: hword) :: u64) = uint (ucast x :: hword)" by (rule uint_half)
      also have "\<dots> = uint x mod 2 ^ 32" by (simp add: unsigned_ucast_eq take_bit_eq_mod)
      finally show ?thesis .
    qed
    have h: "uint h = uint a" unfolding h_def trunc using a32 uint_W(1) [of a] by (rule mod_pos_pos_trivial [rotated])
    have mod_small: "uint (x mod h) < 2 ^ 32" for x
      using pos_mod_bound [OF a, of "uint x"] a32 unfolding uint_mod h by linarith
    let ?L = "GetLowHalf d" and ?H = "GetHighHalf d"
    define r1 where "r1 = ?H mod h"
    define r2 where "r2 = (drop_bit 32 ?L + push_bit 32 r1) mod h"
    define r3 where "r3 = (ucast (ucast ?L :: hword) + push_bit 32 r2) mod h"
    have D: "DWord_mod d a = Some (ucast (ucast r3 :: hword))"
      unfolding DWord_mod_def r3_def r2_def r1_def h_def Let_def using assms(1) True by simp
    have u3: "uint (ucast (ucast r3 :: hword) :: u64) = uint r3"
      unfolding trunc using mod_small [of "ucast (ucast ?L :: hword) + push_bit 32 r2"] uint_W(1) [of r3]
      unfolding r3_def by (intro mod_pos_pos_trivial)
    have lo: "uint (ucast (ucast ?L :: hword) :: u64) = uint ?L mod 2 ^ 32" by (rule trunc)
    have hi: "uint (drop_bit 32 ?L) = uint ?L div 2 ^ 32" by (rule uint_drop_word)
    have hi32: "uint (drop_bit 32 ?L) < 2 ^ 32" unfolding hi using uint_W(2) [of ?L] by (intro div_int_less) (simp_all add: W_def)
    have lo32: "uint (ucast (ucast ?L :: hword) :: u64) < 2 ^ 32" unfolding lo by simp
    have e1: "uint r1 = uint ?H mod uint a" by (simp add: r1_def uint_mod h)
    have e2: "uint r2 = (uint ?L div 2 ^ 32 + 2 ^ 32 * uint r1) mod uint a"
      unfolding r2_def using mod_half_step [OF hi32, of r1 h] mod_small [of ?H] by (simp add: r1_def hi h)
    have e3: "uint r3 = (uint ?L mod 2 ^ 32 + 2 ^ 32 * uint r2) mod uint a"
      unfolding r3_def using mod_half_step [OF lo32 mod_small, of "drop_bit 32 ?L + push_bit 32 r1" h] unfolding r2_def [symmetric] lo h .
    have "uint r3 = (uint ?L mod 2 ^ 32 + 2 ^ 32 * (uint ?L div 2 ^ 32 + 2 ^ 32 * uint ?H)) mod uint a"
      unfolding e3 e2 e1 mod_step ..
    also have "uint ?L mod 2 ^ 32 + 2 ^ 32 * (uint ?L div 2 ^ 32 + 2 ^ 32 * uint ?H) = dint d"
      using mod_mult_div_eq [of "uint ?L" "2 ^ 32"] by (simp add: dint_def distrib_left)
    finally show ?thesis using D u3 by simp
  next
    case False
    then have "2 ^ 32 \<le> uint a" unfolding word_less_def p by simp
    then have "GetHighHalf d < a" using assms(2) by simp
    then show ?thesis using DWord_division [of d a] False assms(1) by (auto simp: DWord_mod_def)
  qed
qed

text \<open>The loops, from the upper word down.\<close>

lemma mod_W:
  fixes x y n :: int
  assumes "0 < n"
  shows "(x + W * y) div n = (x + W * (y mod n)) div n + W * (y div n)" and "(x + W * y) mod n = (x + W * (y mod n)) mod n"
proof -
  have "W * y = W * (y div n * n + y mod n)" by simp
  then have "x + W * y = (x + W * (y mod n)) + (W * (y div n)) * n" unfolding distrib_left by (simp only: mult.assoc add.assoc add.commute)
  then have "(x + W * y) div n = ((x + W * (y mod n)) + (W * (y div n)) * n) div n" by (rule arg_cong)
  also have "\<dots> = (x + W * (y mod n)) div n + W * (y div n)" using assms by simp
  finally show "(x + W * y) div n = (x + W * (y mod n)) div n + W * (y div n)" .
  show "(x + W * y) mod n = (x + W * (y mod n)) mod n"
    by (rule mod_step [symmetric])
qed

lemma divide_word_loop_ok:
  assumes "d \<noteq> 0"
  shows "\<exists>Q r. divide_word_loop A d = Some (Q, r) \<and> length Q = length A \<and> val Q = val A div uint d \<and> uint r = val A mod uint d"
proof (induction A)
  case (Cons a A)
  have d: "0 < uint d" using assms uint_W(1) [of d] by (metis order_le_less uint_0_iff)
  from Cons obtain Q r where l: "divide_word_loop A d = Some (Q, r)" "length Q = length A" "val Q = val A div uint d" "uint r = val A mod uint d" by blast
  have "r < d" using pos_mod_bound [OF d, of "val A"] l(4) by (simp add: word_less_def)
  then obtain q s where q: "DWord_div (DWord a r) d = Some q" "uint q = dint (DWord a r) div uint d"
      and s: "DWord_mod (DWord a r) d = Some s" "uint s = dint (DWord a r) mod uint d"
    using DWord_div_ok [of "DWord a r" d] DWord_mod_ok [OF assms, of "DWord a r"] by auto
  have v: "dint (DWord a r) = uint a + W * (val A mod uint d)" using l(4) by (simp add: dint_W)
  have "divide_word_loop (a # A) d = Some (q # Q, s)" using l(1) q(1) s(1) by simp
  moreover have "val (q # Q) = val (a # A) div uint d" using q(2) [unfolded v] l(3) mod_W(1) [OF d, of "uint a" "val A"] by simp
  moreover have "uint s = val (a # A) mod uint d" using s(2) [unfolded v] mod_W(2) [OF d, of "uint a" "val A"] by simp
  ultimately show ?case using l(2) by simp
qed simp

lemma modulo_word_loop_ok:
  assumes "d \<noteq> 0"
  shows "\<exists>r. modulo_word_loop A d = Some r \<and> uint r = val A mod uint d"
proof (induction A)
  case (Cons a A)
  have d: "0 < uint d" using assms uint_W(1) [of d] by (metis order_le_less uint_0_iff)
  from Cons obtain r where l: "modulo_word_loop A d = Some r" "uint r = val A mod uint d" by blast
  have "r < d" using pos_mod_bound [OF d, of "val A"] l(2) by (simp add: word_less_def)
  then obtain s where s: "DWord_mod (DWord a r) d = Some s" "uint s = dint (DWord a r) mod uint d"
    using DWord_mod_ok [OF assms, of "DWord a r"] by auto
  have v: "dint (DWord a r) = uint a + W * (val A mod uint d)" using l(2) by (simp add: dint_W)
  then show ?case using l(1) s(1) s(2) [unfolded v] mod_W(2) [OF d, of "uint a" "val A"] by simp
qed simp

text \<open>The sum of the words is congruent to the value modulo the word size less 1.\<close>

lemma sum_words_ok:
  "length A \<le> 2 ^ 28 \<Longrightarrow> dint (sum_words A) \<le> int (length A) * (W - 1) \<and> (\<exists>k. val A = dint (sum_words A) + (W - 1) * k)"
proof (induction A)
  case (Cons a A)
  then have IH: "dint (sum_words A) \<le> int (length A) * (W - 1)" and "\<exists>k. val A = dint (sum_words A) + (W - 1) * k" by simp_all
  then obtain k where k: "val A = dint (sum_words A) + (W - 1) * k" by blast
  have a: "uint a \<le> W - 1" using uint_W(2) [of a] by simp
  have le: "dint (sum_words A) + uint a \<le> int (length (a # A)) * (W - 1)" using IH a by (simp add: distrib_right)
  have "int (length (a # A)) * (W - 1) \<le> 2 ^ 28 * (W - 1)" using Cons.prems by (intro mult_right_mono) simp_all
  then have "dint (sum_words A) + uint a \<le> 2 ^ 28 * (W - 1)" using le by (rule order.trans [rotated])
  then have lt: "dint (sum_words A) + uint a < W * W" by (simp add: W_def)
  have nn: "0 \<le> dint (sum_words A)" using uint_W(1) by (simp add: dint_W)
  have "dint (DWord_add (sum_words A) a) = (dint (sum_words A) + uint a) mod (2 ^ LENGTH(64) * 2 ^ LENGTH(64))" by (rule dint_add)
  then have s: "dint (sum_words (a # A)) = dint (sum_words A) + uint a"
    using dword_small [OF _ lt] nn uint_W(1) [of a] by simp
  have "val (a # A) = (uint a + val A) + (W - 1) * val A" by (simp add: left_diff_distrib)
  also have "uint a + val A = dint (sum_words (a # A)) + (W - 1) * k" unfolding s using k by simp
  finally have "val (a # A) = dint (sum_words (a # A)) + (W - 1) * (k + val A)" by (simp only: distrib_left add.assoc)
  then show ?case using le s by metis
qed (simp add: dint_W)

text \<open>Powers of two.\<close>

lemma and_pred_power: "0 < n \<Longrightarrow> n AND (n - 1) = 0 \<Longrightarrow> \<exists>k. n = 2 ^ k" for n :: nat
proof (induction n rule: less_induct)
  case (less n)
  show ?case
  proof (cases "even n")
    case True
    then obtain m where m: "n = 2 * m" by blast
    then have m0: "0 < m" "m < n" using less.prems by simp_all
    have "(n - 1) div 2 = m - 1" using m m0 by simp
    moreover have "n AND (n - 1) = of_bool (odd n \<and> odd (n - 1)) + 2 * ((n div 2) AND ((n - 1) div 2))" by (rule and_rec)
    ultimately have "m AND (m - 1) = 0" using less.prems True m by simp
    then obtain k where "m = 2 ^ k" using less.IH [OF m0(2,1)] by blast
    then have "n = 2 ^ Suc k" using m by simp
    then show ?thesis by blast
  next
    case False
    then obtain m where m: "n = 2 * m + 1" by (blast elim: oddE)
    have "n AND (n - 1) = of_bool (odd n \<and> odd (n - 1)) + 2 * ((n div 2) AND ((n - 1) div 2))" by (rule and_rec)
    then have "m AND m = 0" using less.prems m by simp
    then have "n = 2 ^ 0" using m by simp
    then show ?thesis by blast
  qed
qed

lemma word_power:
  fixes d :: u64
  assumes "d \<noteq> 0" and "d AND (d - 1) = 0"
  shows "\<exists>k < 64. d = 2 ^ k \<and> uint d = 2 ^ k"
proof -
  have "0 < unat d" using assms(1) by (simp add: unat_gt_0)
  moreover have "unat d AND (unat d - 1) = 0"
  proof -
    have "unat (d AND (d - 1)) = unat d AND unat (d - 1)" by (rule unsigned_and_eq)
    moreover have "unat (d - 1) = unat d - 1" using assms(1) by (rule unat_minus_one)
    ultimately show ?thesis using assms(2) by simp
  qed
  ultimately obtain k where k: "unat d = 2 ^ k" using and_pred_power by blast
  have "uint d = int (unat d)" by (rule uint_nat)
  then have u: "uint d = 2 ^ k" unfolding k by simp
  then have "(2::int) ^ k < 2 ^ 64" using uint_W(2) [of d] by (simp only: W_def)
  then have k64: "k < 64" by (rule power_less_imp_less_exp [rotated]) simp
  have "d = of_nat (unat d)" by simp
  then have "d = 2 ^ k" unfolding k by simp
  then show ?thesis using k64 u by blast
qed

lemma mask_word: "k < 64 \<Longrightarrow> uint (u AND (2 ^ k - 1)) = uint u mod 2 ^ k" for u :: u64
proof -
  assume "k < 64"
  have "u AND (2 ^ k - 1) = take_bit k u" by (simp add: take_bit_eq_mask mask_eq_exp_minus_1)
  then have "uint (u AND (2 ^ k - 1)) = take_bit k (uint u)" using \<open>k < 64\<close> by (simp only: unsigned_take_bit_eq)
  then show ?thesis by (simp only: take_bit_eq_mod)
qed

lemma val_mod_power: "A \<noteq> [] \<Longrightarrow> k < 64 \<Longrightarrow> val A mod 2 ^ k = uint (A ! 0) mod 2 ^ k"
proof -
  assume "A \<noteq> []" "k < 64"
  then obtain a B where A: "A = a # B" by (cases A) simp_all
  have "W = 2 ^ k * 2 ^ (64 - k)" using \<open>k < 64\<close> by (simp add: W_def flip: power_add)
  then have "val A = uint a + 2 ^ k * (2 ^ (64 - k) * val B)" by (simp add: A)
  then have "val A mod 2 ^ k = uint a mod 2 ^ k" by (simp only: mod_mult_self2)
  then show ?thesis by (simp only: A nth_Cons_0)
qed

lemma BitPrecision_power: "k < 64 \<Longrightarrow> BitPrecision (2 ^ k) = Suc k"
proof -
  assume k: "k < 64"
  have lt: "(2::int) ^ k < 2 ^ 64" using k by (intro power_strict_increasing) simp_all
  have "uint (2 ^ k :: u64) = uint (word_of_int (2 ^ k) :: u64)" by simp
  also have "\<dots> = 2 ^ k mod 2 ^ 64" by (simp only: uint_word_of_int, simp)
  also have "(2::int) ^ k mod 2 ^ 64 = 2 ^ k" using lt by (intro mod_pos_pos_trivial) simp_all
  finally have u: "uint (2 ^ k :: u64) = 2 ^ k" .
  have "uint (2 ^ k :: u64) \<noteq> 0" unfolding u by simp
  then have nz: "(2 ^ k :: u64) \<noteq> 0" by (metis unsigned_0)
  have "2 ^ 0 \<le> uint (2 ^ k :: u64)" "uint (2 ^ k :: u64) < 2 ^ 64" using lt unfolding u by simp_all
  from bit_precision_loop_ok [OF _ this] obtain p where p: "p = bit_precision_loop (2 ^ k) 0 64" "0 < p" "(2::int) ^ (p - 1) \<le> 2 ^ k" "(2::int) ^ k < 2 ^ p"
    unfolding u by (auto simp: Let_def)
  have "p - 1 \<le> k" using p(3) by (rule power_le_imp_le_exp [rotated]) simp
  moreover have "k < p" using p(4) by (rule power_less_imp_less_exp [rotated]) simp
  ultimately show ?thesis using nz p(1) by (simp add: BitPrecision_def)
qed

lemma neg_mod: "0 < d \<Longrightarrow> r = v mod d \<Longrightarrow> (- v) mod d = (if r = 0 then 0 else d - r)" for v d r :: int
  by (simp add: zmod_zminus1_eq_if)

lemma Modulo_word_ok:
  assumes "wf x" and "small x" and "d \<noteq> 0"
  shows "\<exists>r. Modulo_word x d = Inr r \<and> uint r = ival x mod uint d"
proof -
  have d: "0 < uint d" using assms(3) uint_W(1) [of d] by (metis order_le_less uint_0_iff)
  let ?w = "take (WordCount x) (reg x)"
  have vw: "val ?w = val (reg x)" by (rule WordCount_ok(2))
  define m where "m = (if d AND (d - 1) = 0 then Some (reg x ! 0 AND (d - 1))
      else if d \<le> 5 then DWord_mod (sum_words ?w) d else modulo_word_loop ?w d)"
  have "\<exists>r. m = Some r \<and> uint r = val (reg x) mod uint d"
  proof (cases "d AND (d - 1) = 0")
    case True
    obtain k where k: "k < 64" "d = 2 ^ k" "uint d = 2 ^ k" using word_power [OF assms(3) True] by blast
    have "uint (reg x ! 0 AND (d - 1)) = val (reg x) mod uint d"
      unfolding k(3) val_mod_power [OF wf_nonempty [OF assms(1)] k(1)] unfolding k(2) using k(1) by (rule mask_word)
    then show ?thesis using True by (simp add: m_def)
  next
    case not_power: False
    show ?thesis
    proof (cases "d \<le> 5")
      case True
      then have "uint d \<le> 5" by (simp add: word_le_def)
      moreover have "uint d \<noteq> 1" "uint d \<noteq> 2" "uint d \<noteq> 4"
      proof -
        have e: "uint d = 1 \<Longrightarrow> d = 1" "uint d = 2 \<Longrightarrow> d = 2" "uint d = 4 \<Longrightarrow> d = 4" by (simp_all add: word_uint_eq_iff)
        show "uint d \<noteq> 1" "uint d \<noteq> 2" "uint d \<noteq> 4" using not_power e by auto
      qed
      ultimately have d35: "uint d = 3 \<or> uint d = 5" using d by linarith
      have "length ?w \<le> 2 ^ 28" using assms(2) by (simp add: small_def)
      then obtain k where k: "val ?w = dint (sum_words ?w) + (W - 1) * k" using sum_words_ok by blast
      have "(W - 1) mod uint d = 0" using d35 by (auto simp: W_def)
      then have "dint (sum_words ?w) mod uint d = val (reg x) mod uint d"
        unfolding vw [symmetric] k by (metis add.right_neutral mod_add_right_eq mod_mult_left_eq mult_zero_left mod_0)
      moreover obtain r where "DWord_mod (sum_words ?w) d = Some r" "uint r = dint (sum_words ?w) mod uint d"
        using DWord_mod_ok [OF assms(3), of "sum_words ?w"] d35 by auto
      ultimately show ?thesis using True not_power by (simp add: m_def)
    next
      case False
      then show ?thesis using modulo_word_loop_ok [OF assms(3), of ?w] not_power vw by (auto simp: m_def)
    qed
  qed
  then obtain r where r: "m = Some r" "uint r = val (reg x) mod uint d" by blast
  have M: "Modulo_word x d = Inr (if IsNegative x \<and> r \<noteq> 0 then d - r else r)"
    using r(1) assms(3) unfolding Modulo_word_def Let_def m_def by simp
  have "r < d" using r(2) pos_mod_bound [OF d, of "val (reg x)"] by (simp add: word_less_def)
  then have dr: "uint (d - r) = uint d - uint r" using uint_sub_lem [of r d] by (simp add: word_less_def)
  have "uint (if IsNegative x \<and> r \<noteq> 0 then d - r else r) = ival x mod uint d"
  proof (cases "IsNegative x")
    case True
    then have "ival x = - val (reg x)" by (rule negative_ival)
    then show ?thesis using True neg_mod [OF d r(2)] dr by (simp add: uint_0_iff)
  next
    case False
    then have "ival x = val (reg x)" by (simp add: negative_ival NotNegative_def)
    then show ?thesis using False r(2) by simp
  qed
  then show ?thesis using M by blast
qed

lemma Divide_word_ok:
  assumes "wf x" and "small x" and "d \<noteq> 0"
  shows "\<exists>r q. Divide_word x d = Inr (r, q) \<and> wf q \<and> uint r < uint d \<and> length (reg q) \<le> 2 * length (reg x) \<and>
    ival x = ival q * uint d + (if ival x < 0 \<and> d AND (d - 1) = 0 then - uint r else uint r)"
proof -
  have d: "0 < uint d" using assms(3) uint_W(1) [of d] by (metis order_le_less uint_0_iff)
  show ?thesis
  proof (cases "d AND (d - 1) = 0")
    case True
    obtain k where k: "k < 64" "d = 2 ^ k" "uint d = 2 ^ k" using word_power [OF assms(3) True] by blast
    define r where "r = reg x ! 0 AND (d - 1)"
    define q where "q = Integer_copy (shift_right (Integer_copy x) k)"
    have D: "Divide_word x d = Inr (r, q)"
      using True assms(3) BitPrecision_power [OF k(1)] k(2) by (simp add: Divide_word_def r_def q_def)
    have r: "uint r = val (reg x) mod uint d"
      unfolding r_def k(3) val_mod_power [OF wf_nonempty [OF assms(1)] k(1)] unfolding k(2) using k(1) by (rule mask_word)
    note c = Integer_copy_ok [OF assms(1) small_limit [OF assms(2)]]
    note sh = shift_right_ok [OF c(1), of k]
    have "length (reg (shift_right (Integer_copy x) k)) \<le> 2 ^ 32" using sh(4) c(3) small_limit [OF assms(2)] by linarith
    note q = Integer_copy_ok [OF sh(1) this, folded q_def]
    have a: "val (reg x) = \<bar>ival x\<bar>" by (rule ival_abs)
    have e: "\<bar>ival x\<bar> = \<bar>ival x\<bar> div uint d * uint d + uint r" using r a by simp
    have "ival x = ival q * uint d + (if ival x < 0 then - uint r else uint r)"
    proof (cases "ival x < 0")
      case True
      then have "ival q = - (\<bar>ival x\<bar> div uint d)" using q(2) sh(3) c(2) k(3) by simp
      then have "ival q * uint d - uint r = - \<bar>ival x\<bar>" using e by simp
      then show ?thesis using True by simp
    next
      case False
      then have "ival q = \<bar>ival x\<bar> div uint d" using q(2) sh(3) c(2) k(3) by simp
      then have "ival q * uint d + uint r = \<bar>ival x\<bar>" using e by metis
      then show ?thesis using False by simp
    qed
    moreover have "uint r < uint d" unfolding r using d by simp
    moreover have "length (reg q) \<le> 2 * length (reg x)" using q(3) sh(4) c(3) by linarith
    ultimately show ?thesis using D q(1) True by simp
  next
    case False
    define A where "A = take (WordCount x) (reg x)"
    have A: "val A = val (reg x)" "length A = WordCount x" using WordCount_ok(1,2) [of x] by (simp_all add: A_def)
    obtain Q r where l: "divide_word_loop A d = Some (Q, r)" "length Q = length A" "val Q = val A div uint d" "uint r = val A mod uint d"
      using divide_word_loop_ok [OF assms(3), of A] by blast
    define R where "R = Q @ SetWords 0 (RoundupSize (WordCount x) - length Q)"
    have "WordCount x \<le> 2 ^ 32" using WordCount_ok(1) [of x] small_limit [OF assms(2)] by linarith
    note rs = RoundupSize_bounds [OF this]
    have R: "length R = RoundupSize (WordCount x)" "val R = val (reg x) div uint d"
      using rs(1) l(2,3) A by (simp_all add: R_def)
    have lR: "length R \<le> length (reg x)"
      unfolding R(1) using RoundupSize_count(1) [OF assms(1) small_limit [OF assms(2)] WordCount_ok(1) [of x]] .
    have pow: "\<exists>k. length R = 2 ^ Suc k" unfolding R(1) by (rule rs(2))
    have r: "uint r = val (reg x) mod uint d" using l(4) A(1) by simp
    then have rd: "uint r < uint d" using d by simp
    have e: "val (reg x) = val R * uint d + uint r" unfolding R(2) r by simp
    have D: "Divide_word x d =
        (if NotNegative x then Inr (r, \<lparr>reg = R, sign = POSITIVE\<rparr>)
         else if r \<noteq> 0 then Inr (d - r, Integer_dec \<lparr>reg = R, sign = NEGATIVE\<rparr>)
         else Inr (r, \<lparr>reg = R, sign = NEGATIVE\<rparr>))"
      using False assms(3) l(1) unfolding Divide_word_def A_def [symmetric] R_def by (simp add: Let_def)
    show ?thesis
    proof (cases "NotNegative x")
      case True
      moreover have "wf \<lparr>reg = R, sign = POSITIVE\<rparr>" using pow by (simp add: wf_def)
      moreover have "ival x = val R * uint d + uint r" using e negative_ival(2) [OF True] by simp
      moreover have "length R \<le> 2 * length (reg x)" using lR by simp
      ultimately show ?thesis using D rd False by simp
    next
      case neg: False
      then have x: "ival x = - val (reg x)" "ival x < 0" using not_NotNegative(1) [OF neg] ival_sign(2) [OF assms(1)] by simp_all
      show ?thesis
      proof (cases "r = 0")
        case True
        then have "ival x = - val R * uint d" using e x by simp
        moreover from this have "val R \<noteq> 0" using x(2) by auto
        then have "wf \<lparr>reg = R, sign = NEGATIVE\<rparr>" using pow by (simp add: wf_def)
        moreover have "length R \<le> 2 * length (reg x)" using lR by simp
        ultimately show ?thesis using D neg True d False by simp
      next
        case nz: False
        obtain R' c where I: "Increment (reg \<lparr>reg = R, sign = NEGATIVE\<rparr>) 1 = (R', c)" by fastforce
        note up = step_up [OF _ I]
        let ?q = "Integer_dec \<lparr>reg = R, sign = NEGATIVE\<rparr>"
        have q: "?q = \<lparr>reg = R, sign = NEGATIVE\<rparr>\<lparr>reg := grow_carry R' c\<rparr>" using I by (simp add: Integer_dec_def IsNegative_def)
        have wq: "wf ?q" "ival ?q = - (val R + 1)" using up pow unfolding q by (simp_all add: ival_def)
        have "uint (d - r) = uint d - uint r" using rd uint_sub_lem [of r d] by simp
        moreover have "0 < uint r" using nz uint_W(1) [of r] by (metis order_le_less uint_0_iff)
        moreover have "ival x = - (val R + 1) * uint d + (uint d - uint r)" using e x by (simp add: algebra_simps)
        moreover have "length (reg ?q) \<le> 2 * length (reg x)" using up(4) pow lR unfolding q by simp
        ultimately show ?thesis using D neg nz wq False by simp
      qed
    qed
  qed
qed

section \<open>The laws\<close>

lemma pow_2: "\<exists>k. Suc (Suc 0) = 2 * 2 ^ k"
  by (auto intro: exI [of _ 0])

lemma pow_4: "\<exists>k. Suc (Suc (Suc (Suc 0))) = 2 * 2 ^ k"
  by (auto intro: exI [of _ 1])

text \<open>C14: Addition, subtraction and multiplication of \<open>Integer\<close> are the operations of the integers, and keep
  the class invariant (an array whose length is a power of two from 2 on, no negative zero), whatever
  the signs and the two lengths. No assertion fails: in a product, of two objects or of one with
  itself, or in a difference, where the borrow that is left is 0.\<close>

theorem integer_arithmetic:
  assumes "wf a" and "wf b" and "small a" and "small b"
  shows "\<exists>p. Times False a b = Inr p \<and> wf p \<and> ival p = ival a * ival b \<and>
    wf (Plus a b) \<and> ival (Plus a b) = ival a + ival b \<and> wf (Minus a b) \<and> ival (Minus a b) = ival a - ival b \<and>
    (\<exists>p. Times True a a = Inr p \<and> wf p \<and> ival p = ival a * ival a) \<and>
    PositiveSubtract_borrow a b = 0 \<and> PositiveSubtract_borrow b a = 0"
  using Times_ok [OF assms, of False] Times_ok [OF assms(1,1,3,3), of True] Plus_ok(1,2) [OF assms] Minus_ok(1,2) [OF assms]
    PositiveSubtract_asserted [OF assms(1,2)] PositiveSubtract_asserted [OF assms(2,1)] by blast

theorem integer_arithmetic_witness:
  "\<exists>p. Times False \<lparr>reg = [3, 1], sign = NEGATIVE\<rparr> \<lparr>reg = [0, - 1, 0, 7], sign = POSITIVE\<rparr> = Inr p \<and> wf p \<and>
    ival p = ival \<lparr>reg = [3, 1], sign = NEGATIVE\<rparr> * ival \<lparr>reg = [0, - 1, 0, 7], sign = POSITIVE\<rparr> \<and>
    wf (Plus \<lparr>reg = [3, 1], sign = NEGATIVE\<rparr> \<lparr>reg = [0, - 1, 0, 7], sign = POSITIVE\<rparr>) \<and>
    ival (Plus \<lparr>reg = [3, 1], sign = NEGATIVE\<rparr> \<lparr>reg = [0, - 1, 0, 7], sign = POSITIVE\<rparr>) =
      ival \<lparr>reg = [3, 1], sign = NEGATIVE\<rparr> + ival \<lparr>reg = [0, - 1, 0, 7], sign = POSITIVE\<rparr> \<and>
    wf (Minus \<lparr>reg = [3, 1], sign = NEGATIVE\<rparr> \<lparr>reg = [0, - 1, 0, 7], sign = POSITIVE\<rparr>) \<and>
    ival (Minus \<lparr>reg = [3, 1], sign = NEGATIVE\<rparr> \<lparr>reg = [0, - 1, 0, 7], sign = POSITIVE\<rparr>) =
      ival \<lparr>reg = [3, 1], sign = NEGATIVE\<rparr> - ival \<lparr>reg = [0, - 1, 0, 7], sign = POSITIVE\<rparr> \<and>
    (\<exists>p. Times True \<lparr>reg = [3, 1], sign = NEGATIVE\<rparr> \<lparr>reg = [3, 1], sign = NEGATIVE\<rparr> = Inr p \<and> wf p \<and>
      ival p = ival \<lparr>reg = [3, 1], sign = NEGATIVE\<rparr> * ival \<lparr>reg = [3, 1], sign = NEGATIVE\<rparr>) \<and>
    PositiveSubtract_borrow \<lparr>reg = [3, 1], sign = NEGATIVE\<rparr> \<lparr>reg = [0, - 1, 0, 7], sign = POSITIVE\<rparr> = 0 \<and>
    PositiveSubtract_borrow \<lparr>reg = [0, - 1, 0, 7], sign = POSITIVE\<rparr> \<lparr>reg = [3, 1], sign = NEGATIVE\<rparr> = 0"
  by (rule integer_arithmetic) (simp_all add: wf_def small_def W_def pow_2 pow_4)

text \<open>C13: The signed division of \<open>Integer\<close> is Euclidean: for every sign of the two operands, \<open>Divide\<close>
  returns the quotient and the remainder with dividend = quotient * divisor + remainder and the
  remainder at least 0 and below the absolute value of the divisor; the results keep the class
  invariant, and a zero divisor is the exception \<open>DivideByZero\<close>.\<close>

theorem integer_division:
  assumes "wf a" and "wf b" and "small a" and "small b"
  shows "if ival b = 0 then Integer_Divide a b = Inl DivideByZero
    else \<exists>r q. Integer_Divide a b = Inr (r, q) \<and> wf r \<and> wf q \<and> ival a = ival q * ival b + ival r \<and>
      0 \<le> ival r \<and> ival r < \<bar>ival b\<bar>"
proof (cases "ival b = 0")
  case True
  then have "WordCount b = 0" using WordCount_0 [of b] ival_abs [of b] by simp
  then show ?thesis using True by (simp add: Integer_Divide_def PositiveDivide_def Let_def)
next
  case False
  then show ?thesis using Integer_Divide_ok [OF assms False] by auto
qed

theorem integer_division_witness:
  "if ival \<lparr>reg = [5, 3], sign = NEGATIVE\<rparr> = 0 then Integer_Divide \<lparr>reg = [1, 2, 0, 9], sign = NEGATIVE\<rparr> \<lparr>reg = [5, 3], sign = NEGATIVE\<rparr> = Inl DivideByZero
    else \<exists>r q. Integer_Divide \<lparr>reg = [1, 2, 0, 9], sign = NEGATIVE\<rparr> \<lparr>reg = [5, 3], sign = NEGATIVE\<rparr> = Inr (r, q) \<and> wf r \<and> wf q \<and>
      ival \<lparr>reg = [1, 2, 0, 9], sign = NEGATIVE\<rparr> = ival q * ival \<lparr>reg = [5, 3], sign = NEGATIVE\<rparr> + ival r \<and>
      0 \<le> ival r \<and> ival r < \<bar>ival \<lparr>reg = [5, 3], sign = NEGATIVE\<rparr>\<bar>"
  by (rule integer_division) (simp_all add: wf_def small_def W_def pow_2 pow_4)

text \<open>C19: Division by one word and the remainder by one word: \<open>Modulo\<close> is the remainder of the integers on
  each of its branches (a mask for a power of two, the sum of the words for 3 and 5, the chain of
  divisions). \<open>Divide\<close> returns a word below the divisor with dividend = quotient * divisor + word,
  except when the dividend is negative and the divisor a power of two: there the shift rounds towards
  zero and the masked word is the remainder of the absolute value, so that
  dividend = quotient * divisor - word, and the result differs from that of \<open>Modulo\<close>.\<close>

theorem word_division:
  assumes "wf x" and "small x" and "d \<noteq> 0"
  shows "(\<exists>m. Modulo_word x d = Inr m \<and> uint m = ival x mod uint d) \<and>
    (\<exists>r q. Divide_word x d = Inr (r, q) \<and> wf q \<and> uint r < uint d \<and>
      ival x = ival q * uint d + (if ival x < 0 \<and> d AND (d - 1) = 0 then - uint r else uint r))"
  using Modulo_word_ok [OF assms] Divide_word_ok [OF assms] by blast

theorem word_division_witness:
  "(\<exists>m. Modulo_word \<lparr>reg = [7, 0], sign = NEGATIVE\<rparr> 4 = Inr m \<and> uint m = ival \<lparr>reg = [7, 0], sign = NEGATIVE\<rparr> mod uint (4 :: u64)) \<and>
    (\<exists>r q. Divide_word \<lparr>reg = [7, 0], sign = NEGATIVE\<rparr> 4 = Inr (r, q) \<and> wf q \<and> uint r < uint (4 :: u64) \<and>
      ival \<lparr>reg = [7, 0], sign = NEGATIVE\<rparr> = ival q * uint (4 :: u64) +
        (if ival \<lparr>reg = [7, 0], sign = NEGATIVE\<rparr> < 0 \<and> (4 :: u64) AND (4 - 1) = 0 then - uint r else uint r))"
  by (rule word_division) (simp_all add: wf_def small_def W_def pow_2)

text \<open>A shift to the left multiplies by a power of two, the array growing as the bits need it; a shift
  to the right divides the absolute value and rounds towards zero, and never leaves a negative zero.\<close>

theorem integer_shifts:
  assumes "wf x" and "small x" and "n < 2 ^ 31"
  shows "wf (shift_left x n) \<and> ival (shift_left x n) = 2 ^ n * ival x \<and>
    wf (shift_right x n) \<and> ival (shift_right x n) = sgn (ival x) * (\<bar>ival x\<bar> div 2 ^ n)"
  using shift_left_ok(1,2) [OF assms] shift_right_ok(1,3) [OF assms(1), of n] by (auto simp: sgn_if)

theorem integer_shifts_witness:
  "wf (shift_left \<lparr>reg = [9, - 1], sign = NEGATIVE\<rparr> 70) \<and>
    ival (shift_left \<lparr>reg = [9, - 1], sign = NEGATIVE\<rparr> 70) = 2 ^ 70 * ival \<lparr>reg = [9, - 1], sign = NEGATIVE\<rparr> \<and>
    wf (shift_right \<lparr>reg = [9, - 1], sign = NEGATIVE\<rparr> 70) \<and>
    ival (shift_right \<lparr>reg = [9, - 1], sign = NEGATIVE\<rparr> 70) =
      sgn (ival \<lparr>reg = [9, - 1], sign = NEGATIVE\<rparr>) * (\<bar>ival \<lparr>reg = [9, - 1], sign = NEGATIVE\<rparr>\<bar> div 2 ^ 70)"
  by (rule integer_shifts) (simp_all add: wf_def small_def W_def pow_2)

end
