(* ===== verification/CPP_Numbers.thy ===== *)
theory CPP_Numbers
  imports CPP_Quotients
begin

text \<open>
  Operations of the class \<open>Integer\<close> of \<^verbatim>\<open>src/src/utils/lib/CryptoPP.cc\<close> that are built on its
  arithmetic: assignment operators, text (printing in base 8, 10 and 16, reading), the square root by
  Newton's iteration, and the inverse modulo a word.
\<close>

section \<open>Definitions\<close>

text \<open>The operators \<open>+=\<close> and \<open>-=\<close>: the array of the object itself, made long enough, takes the result.\<close>

definition plus_assign :: "Integer \<Rightarrow> Integer \<Rightarrow> Integer" where
  "plus_assign x t =
     (let x = x\<lparr>reg := CleanGrow (reg x) (length (reg t))\<rparr>
      in if NotNegative x then
           (if NotNegative t then PositiveAdd x t else PositiveSubtract (reg x) x t)
         else
           (if NotNegative t then PositiveSubtract (reg x) t x else (PositiveAdd x t)\<lparr>sign := NEGATIVE\<rparr>))"

definition minus_assign :: "Integer \<Rightarrow> Integer \<Rightarrow> Integer" where
  "minus_assign x t =
     (let x = x\<lparr>reg := CleanGrow (reg x) (length (reg t))\<rparr>
      in if NotNegative x then
           (if NotNegative t then PositiveSubtract (reg x) x t else PositiveAdd x t)
         else
           (if NotNegative t then (PositiveAdd x t)\<lparr>sign := NEGATIVE\<rparr> else PositiveSubtract (reg x) t x))"

definition BitCount :: "Integer \<Rightarrow> nat" where
  "BitCount x =
     (let wordCount = WordCount x
      in if wordCount \<noteq> 0 then (wordCount - 1) * 64 + BitPrecision (reg x ! (wordCount - 1)) else 0)"

fun byte_precision_loop :: "u64 \<Rightarrow> nat \<Rightarrow> nat" where
  "byte_precision_loop v 0 = 0"
| "byte_precision_loop v (Suc i) = (if drop_bit (i * 8) v \<noteq> 0 then Suc i else byte_precision_loop v i)"

definition BytePrecision :: "u64 \<Rightarrow> nat" where
  "BytePrecision v = byte_precision_loop v 8"

definition ByteCount :: "Integer \<Rightarrow> nat" where
  "ByteCount x =
     (let wordCount = WordCount x
      in if wordCount \<noteq> 0 then (wordCount - 1) * 8 + BytePrecision (reg x ! (wordCount - 1)) else 0)"

subsection \<open>Text\<close>

text \<open>The text of a number, without the null character that ends it in C.\<close>

definition radix_of :: "string \<Rightarrow> u64" where
  "radix_of str =
     (if length str > 2 \<and> str ! 0 = CHR ''0'' \<and> str ! 1 = CHR ''x'' then 16
      else if last str = CHR ''h'' \<or> last str = CHR ''H'' then 16
      else if last str = CHR ''o'' \<or> last str = CHR ''O'' then 8
      else if last str = CHR ''b'' \<or> last str = CHR ''B'' then 2
      else 10)"

definition digit_of :: "u64 \<Rightarrow> char \<Rightarrow> u64" where
  "digit_of radix c =
     (let n = of_char c :: nat
      in if 48 \<le> n \<and> n \<le> 57 then of_nat (n - 48)
         else if 65 \<le> n \<and> n \<le> 70 then of_nat (n - 65) + 10
         else if 97 \<le> n \<and> n \<le> 102 then of_nat (n - 97) + 10
         else radix)"

fun parse_loop :: "u64 \<Rightarrow> string \<Rightarrow> Integer \<Rightarrow> int_error + Integer" where
  "parse_loop radix [] v = Inr v"
| "parse_loop radix (c # str) v =
     (let digit = digit_of radix c
      in if digit < radix then
           (case Times False v (Integer_long radix) of
              Inl e \<Rightarrow> Inl e
            | Inr p \<Rightarrow> parse_loop radix str (plus_assign (Integer_copy p) (Integer_long digit)))
         else parse_loop radix str v)"

definition StringToInteger :: "string \<Rightarrow> int_error + Integer" where
  "StringToInteger str =
     (if str = [] then Inr Integer_Zero
      else case parse_loop (radix_of str) str Integer_Zero of
             Inl e \<Rightarrow> Inl e
           | Inr v \<Rightarrow> Inr (if str ! 0 = CHR ''-'' then Negate v else v))"

text \<open>The base that the flags of the stream choose, and the character that follows the digits.\<close>

datatype basefield = oct | hex | dec

fun base_of :: "basefield \<Rightarrow> u64" where
  "base_of oct = 8" | "base_of hex = 16" | "base_of dec = 10"

fun suffix_of :: "basefield \<Rightarrow> char" where
  "suffix_of oct = CHR ''o''" | "suffix_of hex = CHR ''h''" | "suffix_of dec = CHR ''.''"

text \<open>The digits, the last one first, in an array of \<open>n\<close> characters; \<open>None\<close> is a write behind it, or an
  error of the division.\<close>

partial_function (option) print_loop :: "u64 \<Rightarrow> nat \<Rightarrow> Integer \<Rightarrow> string \<Rightarrow> string option" where
  "print_loop base n temp1 s =
     (if IsZero temp1 then Some s
      else if length s \<ge> n then None
      else case Divide_word temp1 base of
             Inl e \<Rightarrow> None
           | Inr (digit, temp2) \<Rightarrow> print_loop base n (Integer_copy temp2) (s @ [''0123456789ABCDEF'' ! unat digit]))"

declare print_loop.simps [code]

definition print_integer :: "basefield \<Rightarrow> Integer \<Rightarrow> string option" where
  "print_integer f a =
     (let base = base_of f;
          temp1 = (if IsNegative a then Negate (Integer_copy a) else Integer_copy a)
      in do {
        s \<leftarrow> print_loop base (BitCount a div (BitPrecision base - 1) + 1) temp1 [];
        Some ((if IsNegative a then ''-'' else []) @ (if IsZero a then ''0'' else []) @ rev s @ [suffix_of f])
      })"

subsection \<open>The square root\<close>

text \<open>\<open>None\<close> is an assertion or an exception.\<close>

partial_function (option) sqrt_loop :: "Integer \<Rightarrow> Integer \<Rightarrow> Integer option" where
  "sqrt_loop a y =
     (let x = Integer_copy y
      in case DividedBy a x of
           Inl e \<Rightarrow> None
         | Inr q \<Rightarrow>
             (let y = Integer_copy (shift_right (Integer_copy (Plus x q)) 1)
              in if Integer_Compare y x < 0 then sqrt_loop a y else Some x))"

declare sqrt_loop.simps [code]

definition SquareRoot :: "Integer \<Rightarrow> Integer option" where
  "SquareRoot a =
     (if \<not> IsPositive a then Some Integer_Zero
      else
        let y = Power2 ((BitCount a + 1) div 2)
        in case Times True y y of
             Inl e \<Rightarrow> None
           | Inr p \<Rightarrow> if Integer_Compare p a \<ge> 0 then sqrt_loop a y else None)"

subsection \<open>The inverse modulo a word\<close>

function inverse_word_loop :: "u64 \<Rightarrow> u64 \<Rightarrow> u64 \<Rightarrow> u64 \<Rightarrow> u64 \<Rightarrow> u64" where
  "inverse_word_loop m g0 g1 v0 v1 =
     (if g1 = 0 then 0
      else if g1 = 1 then v1
      else
        let y = g0 div g1; g0 = g0 mod g1; v0 = v0 + y * v1
        in if g0 = 0 then 0
           else if g0 = 1 then m - v0
           else let y = g1 div g0; g1 = g1 mod g0; v1 = v1 + y * v0
                in inverse_word_loop m g0 g1 v0 v1)"
  by pat_completeness auto
termination
proof (relation "measure (\<lambda>(m, g0, g1, v0, v1). unat g1)")
  fix m g0 g1 v0 v1 y g0' v0' y' g1' v1' :: u64
  assume "g1 \<noteq> 0" "g0' = g0 mod g1" "g0' \<noteq> 0" "g1' = g1 mod g0'"
  have lt: "b \<noteq> 0 \<Longrightarrow> unat (a mod b) < unat b" for a b :: u64 by (simp add: unat_mod unat_gt_0)
  have "unat g1' < unat g0'" unfolding \<open>g1' = g1 mod g0'\<close> using \<open>g0' \<noteq> 0\<close> by (rule lt)
  also have "unat g0' < unat g1" unfolding \<open>g0' = g0 mod g1\<close> using \<open>g1 \<noteq> 0\<close> by (rule lt)
  finally show "((m, g0', g1', v0', v1'), (m, g0, g1, v0, v1)) \<in> measure (\<lambda>(m, g0, g1, v0, v1). unat g1)" by simp
qed simp

declare inverse_word_loop.simps [simp del]

definition InverseMod_word :: "Integer \<Rightarrow> u64 \<Rightarrow> int_error + u64" where
  "InverseMod_word x m =
     (case Modulo_word x m of Inl e \<Rightarrow> Inl e | Inr g1 \<Rightarrow> Inr (inverse_word_loop m m g1 0 1))"
section \<open>Assignment operators\<close>

lemma grown_ok:
  assumes "wf x" and "wf t"
  defines "y \<equiv> x\<lparr>reg := CleanGrow (reg x) (length (reg t))\<rparr>"
  shows "wf y" and "ival y = ival x" and "val (reg y) = val (reg x)" and "NotNegative y = NotNegative x"
    and "length (reg y) = max (length (reg x)) (length (reg t))" and "\<exists>k. length (reg y) = 2 ^ Suc k"
proof -
  show v: "val (reg y) = val (reg x)" by (simp add: y_def CleanGrow_ok)
  show l: "length (reg y) = max (length (reg x)) (length (reg t))" by (simp add: y_def CleanGrow_ok)
  show p: "\<exists>k. length (reg y) = 2 ^ Suc k"
    unfolding l using wf_power [OF assms(1)] wf_power [OF assms(2)] by (metis max_def)
  have "sign y = NEGATIVE \<longrightarrow> val (reg y) \<noteq> 0" using assms(1) unfolding v by (simp add: wf_def y_def)
  then show "wf y" unfolding wf_def using p by blast
  show "ival y = ival x" unfolding ival_def v by (simp add: y_def)
  show "NotNegative y = NotNegative x" by (simp add: NotNegative_def IsNegative_def y_def)
qed

text \<open>The four cases of the signs: the array of the first operand takes the difference.\<close>

lemma assign_cases:
  assumes "wf x" "wf t"
  defines "y \<equiv> x\<lparr>reg := CleanGrow (reg x) (length (reg t))\<rparr>"
  defines "ok \<equiv> \<lambda>r v. wf r \<and> ival r = v \<and> length (reg r) \<le> 2 * max (length (reg x)) (length (reg t))"
  shows "ok (PositiveSubtract (reg y) y t) (val (reg x) - val (reg t))" and "ok (PositiveSubtract (reg y) t y) (val (reg t) - val (reg x))"
    and "ok (PositiveAdd y t) (val (reg x) + val (reg t))"
    and "\<not> NotNegative x \<Longrightarrow> ok ((PositiveAdd y t)\<lparr>sign := NEGATIVE\<rparr>) (- (val (reg x) + val (reg t)))"
proof -
  note y = grown_ok [OF assms(1,2), folded y_def]
  have le: "length (reg y) \<le> length (reg y)" "length (reg t) \<le> length (reg y)" unfolding y(5) by simp_all
  have z: "val (drop (max (WordCount y + WordCount y mod 2) n) (reg y)) = 0" "val (drop (max n (WordCount y + WordCount y mod 2)) (reg y)) = 0" for n
    by (rule val_drop_count, simp)+
  have le2: "n \<le> 2 * n" for n :: nat by simp
  show "ok (PositiveSubtract (reg y) y t) (val (reg x) - val (reg t))"
    using PositiveSubtract_ok [OF y(1) assms(2) y(6) le z(1)] le2 unfolding ok_def y(3,5) by metis
  show "ok (PositiveSubtract (reg y) t y) (val (reg t) - val (reg x))"
    using PositiveSubtract_ok [OF assms(2) y(1) y(6) le(2,1) z(2)] le2 unfolding ok_def y(3,5) by metis
  note add = PositiveAdd_ok [OF y(1) assms(2)]
  have l: "length (reg (PositiveAdd y t)) \<le> 2 * max (length (reg x)) (length (reg t))" using add(4) unfolding y(5) by simp
  show "ok (PositiveAdd y t) (val (reg x) + val (reg t))" using add(1,2,3) l y(3) unfolding ok_def by (simp add: ival_def)
  show "ok ((PositiveAdd y t)\<lparr>sign := NEGATIVE\<rparr>) (- (val (reg x) + val (reg t)))" if "\<not> NotNegative x"
    using PositiveAdd_negative [OF y(1) assms(2)] that l y(3,4) unfolding ok_def by simp
qed

lemma plus_assign_ok:
  assumes "wf x" and "wf t"
  shows "wf (plus_assign x t) \<and> ival (plus_assign x t) = ival x + ival t \<and>
    length (reg (plus_assign x t)) \<le> 2 * max (length (reg x)) (length (reg t))"
proof -
  note c = assign_cases [OF assms] and n = grown_ok(4) [OF assms]
  show ?thesis
  proof (cases "NotNegative x")
    case True
    then show ?thesis
      using c(1,3) negative_ival(2) [of x] negative_ival(2) [of t] not_NotNegative(1) [of t]
      by (cases "NotNegative t")
        (simp_all only: plus_assign_def Let_def n if_True if_False minus_minus diff_minus_eq_add simp_thms uminus_add_conv_diff add_uminus_conv_diff)
  next
    case False
    then show ?thesis
      using c(2) c(4) [OF False] not_NotNegative(1) [OF False] negative_ival(2) [of t] not_NotNegative(1) [of t]
      by (cases "NotNegative t")
        (simp_all only: plus_assign_def Let_def n if_True if_False minus_minus diff_minus_eq_add simp_thms minus_add_distrib uminus_add_conv_diff add_uminus_conv_diff)
  qed
qed

lemma minus_assign_ok:
  assumes "wf x" and "wf t"
  shows "wf (minus_assign x t) \<and> ival (minus_assign x t) = ival x - ival t \<and>
    length (reg (minus_assign x t)) \<le> 2 * max (length (reg x)) (length (reg t))"
proof -
  note c = assign_cases [OF assms] and n = grown_ok(4) [OF assms]
  show ?thesis
  proof (cases "NotNegative x")
    case True
    then show ?thesis
      using c(1,3) negative_ival(2) [of x] negative_ival(2) [of t] not_NotNegative(1) [of t]
      by (cases "NotNegative t")
        (simp_all only: minus_assign_def Let_def n if_True if_False minus_minus diff_minus_eq_add simp_thms uminus_add_conv_diff add_uminus_conv_diff)
  next
    case False
    then show ?thesis
      using c(2) c(4) [OF False] not_NotNegative(1) [OF False] negative_ival(2) [of t] not_NotNegative(1) [of t]
      by (cases "NotNegative t")
        (simp_all only: minus_assign_def Let_def n if_True if_False minus_minus diff_minus_eq_add simp_thms minus_add_distrib uminus_add_conv_diff add_uminus_conv_diff)
  qed
qed

section \<open>Counting bits\<close>

lemma BitCount_ok:
  shows "val (reg x) < 2 ^ BitCount x" and "val (reg x) \<noteq> 0 \<Longrightarrow> 2 ^ (BitCount x - 1) \<le> val (reg x) \<and> 0 < BitCount x"
proof -
  have "val (reg x) < 2 ^ BitCount x \<and> (val (reg x) \<noteq> 0 \<longrightarrow> 2 ^ (BitCount x - 1) \<le> val (reg x) \<and> 0 < BitCount x)"
  proof (cases "WordCount x = 0")
    case True
    then show ?thesis using WordCount_0 [of x] by (simp add: BitCount_def)
  next
    case False
    define n where "n = WordCount x - 1"
    have n: "WordCount x = Suc n" using False by (simp add: n_def)
    define t where "t = reg x ! n"
    have t0: "t \<noteq> 0" using WordCount_ok(5) [OF False] by (simp add: t_def n_def)
    note p = BitPrecision_ok [OF t0]
    have c: "BitCount x = n * 64 + BitPrecision t" by (simp add: BitCount_def n t_def)
    have Wn: "W ^ n = 2 ^ (n * 64)" by (simp only: W_def power_mult [symmetric] mult.commute)
    have l: "n < length (reg x)" using WordCount_ok(1) [of x] n by simp
    have v: "val (reg x) = val (take n (reg x)) + W ^ n * uint t"
      using val_take_nth [OF l] WordCount_ok(2) [of x] unfolding n t_def by simp
    have tk: "0 \<le> val (take n (reg x))" "val (take n (reg x)) < W ^ n" using val_less [of "take n (reg x)"] l by simp_all
    have "W ^ n * (uint t + 1) \<le> W ^ n * 2 ^ BitPrecision t" using p(4) by (intro mult_left_mono) simp_all
    then have up: "val (reg x) < 2 ^ BitCount x" using v tk(2) unfolding c power_add Wn [symmetric] by (simp add: distrib_left)
    have "W ^ n * 2 ^ (BitPrecision t - 1) \<le> W ^ n * uint t" using p(3) by (intro mult_left_mono) simp_all
    moreover have "(2::int) ^ (BitCount x - 1) = W ^ n * 2 ^ (BitPrecision t - 1)"
    proof -
      have "BitCount x - 1 = n * 64 + (BitPrecision t - 1)" using p(1) c by simp
      then show ?thesis by (simp only: power_add Wn)
    qed
    ultimately have "2 ^ (BitCount x - 1) \<le> val (reg x)" using v tk(1) by linarith
    then show ?thesis using up p(1) c by simp
  qed
  then show "val (reg x) < 2 ^ BitCount x" "val (reg x) \<noteq> 0 \<Longrightarrow> 2 ^ (BitCount x - 1) \<le> val (reg x) \<and> 0 < BitCount x" by blast+
qed

section \<open>Digits\<close>

text \<open>The digits of a number, the last one first, and their value.\<close>

fun digits :: "nat \<Rightarrow> nat \<Rightarrow> nat list" where
  "digits b m = (if m = 0 \<or> b < 2 then [] else m mod b # digits b (m div b))"

declare digits.simps [simp del]

lemma digits_value: "2 \<le> b \<Longrightarrow> foldr (\<lambda>d v. v * b + d) (digits b m) 0 = m"
proof (induction b m rule: digits.induct)
  case (1 b m)
  show ?case
  proof (cases "m = 0")
    case True
    then show ?thesis by (subst digits.simps) simp
  next
    case False
    then show ?thesis using "1.IH" "1.prems" by (subst digits.simps) simp
  qed
qed

lemma digits_less: "2 \<le> b \<Longrightarrow> list_all (\<lambda>d. d < b) (digits b m)"
proof (induction b m rule: digits.induct)
  case (1 b m)
  then show ?case by (subst digits.simps) auto
qed

lemma digits_length: "2 ^ p \<le> b \<Longrightarrow> 0 < p \<Longrightarrow> m < 2 ^ k \<Longrightarrow> length (digits b m) \<le> k div p + 1"
proof (induction b m arbitrary: k rule: digits.induct)
  case (1 b m)
  show ?case
  proof (cases "m = 0 \<or> b < 2")
    case True
    then show ?thesis by (subst digits.simps) auto
  next
    case False
    then have step: "length (digits b m) = Suc (length (digits b (m div b)))" by (subst digits.simps) simp
    show ?thesis
    proof (cases "p \<le> k")
      case True
      have "m div b \<le> m div 2 ^ p" using "1.prems"(1) by (intro div_le_mono2) simp_all
      also have "\<dots> < 2 ^ (k - p)"
      proof (rule less_mult_imp_div_less)
        have "(2::nat) ^ (k - p) * 2 ^ p = 2 ^ k" using True by (simp flip: power_add)
        then show "m < 2 ^ (k - p) * 2 ^ p" using "1.prems"(3) by simp
      qed
      finally have "length (digits b (m div b)) \<le> (k - p) div p + 1" using "1.IH" [OF False "1.prems"(1,2)] by blast
      moreover have "(k - p) div p + 1 = k div p" using True "1.prems"(2) by (simp add: le_div_geq)
      ultimately show ?thesis using step by simp
    next
      case False
      then have "(2::nat) ^ k \<le> 2 ^ p" by (intro power_increasing) simp_all
      then have "m < b" using "1.prems"(1,3) by linarith
      then have "digits b (m div b) = []" by (subst digits.simps) simp
      then show ?thesis using step by simp
    qed
  qed
qed

section \<open>Printing\<close>

definition digit_char :: "nat \<Rightarrow> char" where
  "digit_char d = ''0123456789ABCDEF'' ! d"

lemma copy_bounded:
  assumes "wf x" and "length (reg x) \<le> 2 ^ 32" and "\<bar>ival x\<bar> < W ^ k" and "k \<le> 2 ^ 26"
  shows "length (reg (Integer_copy x)) \<le> 2 * k + 2" and "small (Integer_copy x)"
proof -
  have wc: "WordCount x \<le> k" using assms(3) by (intro WordCount_le) (simp only: ival_abs)
  also have "k \<le> 2 ^ 32" using assms(4) by simp
  finally have "RoundupSize (WordCount x) \<le> 2 * WordCount x + 2" by (rule RoundupSize_bounds(3))
  then show l: "length (reg (Integer_copy x)) \<le> 2 * k + 2" using wc Integer_copy_ok(4) [OF assms(1,2)] by linarith
  have "2 * k + 2 \<le> 2 ^ 28" using assms(4) by simp
  then show "small (Integer_copy x)" using l unfolding small_def by (rule order.trans [rotated])
qed

lemma print_loop_ok:
  assumes "2 \<le> unat base"
  shows "wf t \<Longrightarrow> small t \<Longrightarrow> 0 \<le> ival t \<Longrightarrow> ival t < W ^ (2 ^ 26) \<Longrightarrow> length s + length (digits (unat base) (nat (ival t))) \<le> n \<Longrightarrow>
    print_loop base n t s = Some (s @ map digit_char (digits (unat base) (nat (ival t))))"
proof (induction "nat (ival t)" arbitrary: t s rule: less_induct)
  case less
  show ?case
  proof (cases "ival t = 0")
    case True
    then have "IsZero t" using IsZero_iff [OF less.prems(1)] by simp
    then show ?thesis using True by (subst print_loop.simps) (simp add: digits.simps [of _ 0])
  next
    case False
    then have nz: "\<not> IsZero t" using IsZero_iff [OF less.prems(1)] by simp
    have pos: "0 < ival t" using False less.prems(3) by simp
    have b0: "base \<noteq> 0" using assms by auto
    obtain r q where D: "Divide_word t base = Inr (r, q)" "wf q" "uint r < uint base" "length (reg q) \<le> 2 * length (reg t)"
        "ival t = ival q * uint base + uint r"
      using Divide_word_ok [OF less.prems(1,2) b0] pos by auto
    have ub: "uint base = int (unat base)" by (rule uint_nat)
    have "int 2 \<le> int (unat base)" using assms by (simp only: of_nat_le_iff)
    then have b2: "2 \<le> uint base" unfolding ub by (simp only: of_nat_numeral)
    have r0: "0 \<le> uint r" by simp
    have q: "ival q = ival t div uint base" "uint r = ival t mod uint base"
    proof -
      have nb: "uint base \<noteq> 0" using b2 by simp
      have "uint r div uint base = 0" "uint r mod uint base = uint r" using D(3) r0 by (simp_all only: div_pos_pos_trivial mod_pos_pos_trivial)
      then show "ival q = ival t div uint base" "uint r = ival t mod uint base" unfolding D(5) using nb by simp_all
    qed
    have q0: "0 \<le> ival q" using q(1) pos b2 by (simp add: pos_imp_zdiv_nonneg_iff)
    have lt: "ival q < ival t" unfolding q(1) using pos b2 by (intro int_div_less_self) simp_all
    have lq: "length (reg q) \<le> 2 ^ 32" using D(4) less.prems(2) unfolding small_def by simp
    note c = Integer_copy_ok [OF D(2) lq]
    have "\<bar>ival q\<bar> < W ^ (2 ^ 26)" using q0 lt less.prems(4) by linarith
    note sm = copy_bounded(2) [OF D(2) lq this order.refl]
    have dq: "nat (ival q) = nat (ival t) div unat base"
      unfolding q(1) ub using pos by (simp add: nat_div_distrib)
    have dr: "unat r = nat (ival t) mod unat base"
    proof -
      have "int (unat r) = ival t mod int (unat base)" using q(2) unfolding ub uint_nat [of r] .
      then show ?thesis using pos by (metis nat_int nat_mod_distrib of_nat_0_le_iff order_less_imp_le)
    qed
    have dg: "digits (unat base) (nat (ival t)) = unat r # digits (unat base) (nat (ival q))"
      unfolding dq dr using pos assms by (subst digits.simps) simp
    have room: "length s < n" using less.prems(5) unfolding dg by simp
    have "print_loop base n t s = print_loop base n (Integer_copy q) (s @ [digit_char (unat r)])"
      using nz room D(1) by (subst print_loop.simps) (simp add: digit_char_def)
    also have "\<dots> = Some ((s @ [digit_char (unat r)]) @ map digit_char (digits (unat base) (nat (ival (Integer_copy q)))))"
      using less.prems(4,5) q0 lt pos c sm unfolding dg by (intro less.hyps) simp_all
    also have "\<dots> = Some (s @ map digit_char (digits (unat base) (nat (ival t))))" unfolding dg c(2) by simp
    finally show ?thesis .
  qed
qed

lemma base_cases: "unat (base_of f) \<in> {8, 10, 16}"
  by (cases f) simp_all

lemma base_precision: "0 < BitPrecision (base_of f) - 1" "2 ^ (BitPrecision (base_of f) - 1) \<le> unat (base_of f)"
proof -
  have "base_of f \<noteq> 0" "1 < uint (base_of f)" by (cases f; simp)+
  note p = BitPrecision_ok [OF this(1)]
  have "int (2 ^ (BitPrecision (base_of f) - 1)) \<le> int (unat (base_of f))" using p(3) by (simp only: uint_nat of_nat_power of_nat_numeral)
  then show "2 ^ (BitPrecision (base_of f) - 1) \<le> unat (base_of f)" by (simp only: of_nat_le_iff)
  have "\<not> BitPrecision (base_of f) \<le> 1"
  proof
    assume "BitPrecision (base_of f) \<le> 1"
    then have "(2::int) ^ BitPrecision (base_of f) \<le> 2 ^ 1" by (intro power_increasing) simp_all
    moreover have "8 \<le> uint (base_of f)" by (cases f) simp_all
    ultimately show False using p(4) by simp
  qed
  then show "0 < BitPrecision (base_of f) - 1" by simp
qed

text \<open>Nothing is written behind the array, and the digits are those of the absolute value.\<close>

lemma print_integer_ok:
  assumes "wf a" and "length (reg a) \<le> 2 ^ 26"
  shows "print_integer f a = Some ((if ival a < 0 then ''-'' else []) @ (if ival a = 0 then ''0'' else []) @
    rev (map digit_char (digits (unat (base_of f)) (nat \<bar>ival a\<bar>))) @ [suffix_of f])"
proof -
  have sm: "small a" using assms(2) by (simp add: small_def)
  note c = Integer_copy_ok [OF assms(1) small_limit [OF sm]]
  have smc: "small (Integer_copy a)" using c(3) sm unfolding small_def by linarith
  define t where "t = (if IsNegative a then Negate (Integer_copy a) else Integer_copy a)"
  have t: "wf t" "ival t = \<bar>ival a\<bar>" "small t"
    using c(1,2) Negate_ok [OF c(1)] smc ival_sign(1) [OF assms(1)] by (simp_all add: t_def small_def abs_if)
  have "\<bar>ival a\<bar> < W ^ length (reg a)" using val_less [of "reg a"] by (simp only: ival_abs)
  also have "\<dots> \<le> W ^ (2 ^ 26)" using assms(2) by (intro power_increasing) simp_all
  finally have lt: "ival t < W ^ (2 ^ 26)" unfolding t(2) .
  have "\<bar>ival a\<bar> < 2 ^ BitCount a" using BitCount_ok(1) [of a] by (simp only: ival_abs)
  then have "int (nat \<bar>ival a\<bar>) < int (2 ^ BitCount a)" by simp
  then have "nat \<bar>ival a\<bar> < 2 ^ BitCount a" by (simp only: of_nat_less_iff)
  note dl = digits_length [OF base_precision(2) base_precision(1) this]
  have b2: "2 \<le> unat (base_of f)" using base_cases [of f] by auto
  have "print_loop (base_of f) (BitCount a div (BitPrecision (base_of f) - 1) + 1) t [] =
      Some ([] @ map digit_char (digits (unat (base_of f)) (nat (ival t))))"
    using t lt dl by (intro print_loop_ok [OF b2]) simp_all
  then show ?thesis
    unfolding print_integer_def Let_def t_def [symmetric] using ival_sign(1) [OF assms(1)] IsZero_iff [OF assms(1)] t(2) by simp
qed

section \<open>Reading\<close>

lemma Integer_long_ok:
  assumes "uint w < 2 ^ 63"
  shows "wf (Integer_long w)" and "ival (Integer_long w) = uint w" and "small (Integer_long w)" and "length (reg (Integer_long w)) = 2"
    and "WordCount (Integer_long w) \<le> 2"
proof -
  have "signed_take_bit 63 (uint w) = uint w"
  proof (rule signed_take_bit_int_eq_self)
    show "- (2 ^ 63) \<le> uint w" by (rule order.trans [OF _ uint_W(1)]) simp
  qed (rule assms)
  then have "sint w = uint w" by (simp add: sint_uint)
  then have l: "Integer_long w = \<lparr>reg = [w, 0], sign = POSITIVE\<rparr>" by (simp add: Integer_long_def)
  show "wf (Integer_long w)" unfolding l by (auto simp: wf_def intro: exI [of _ 0])
  show "ival (Integer_long w) = uint w" "small (Integer_long w)" "length (reg (Integer_long w)) = 2"
    unfolding l by (simp_all add: small_def)
  show "WordCount (Integer_long w) \<le> 2" using WordCount_ok(1) [of "Integer_long w"] unfolding l by simp
qed

text \<open>The value that the loop computes: characters that are no digits of the radix are skipped.\<close>

fun text_value :: "u64 \<Rightarrow> string \<Rightarrow> int \<Rightarrow> int" where
  "text_value radix [] v = v"
| "text_value radix (c # str) v =
     text_value radix str (if digit_of radix c < radix then v * uint radix + uint (digit_of radix c) else v)"

lemma text_value_mono: "2 \<le> uint radix \<Longrightarrow> 0 \<le> v \<Longrightarrow> v \<le> text_value radix str v"
proof (induction str arbitrary: v)
  case (Cons c str)
  define w where "w = (if digit_of radix c < radix then v * uint radix + uint (digit_of radix c) else v)"
  have "v * 1 \<le> v * uint radix" using Cons.prems by (intro mult_left_mono) simp_all
  moreover have "0 \<le> uint (digit_of radix c)" by simp
  ultimately have "v \<le> v * uint radix + uint (digit_of radix c)" by linarith
  then have w: "v \<le> w" unfolding w_def by simp
  then have "w \<le> text_value radix str w" using Cons.prems by (intro Cons.IH) simp_all
  then show ?case using w by (simp add: w_def)
qed simp

lemma text_value_append: "text_value radix (s @ t) v = text_value radix t (text_value radix s v)"
  by (induction s arbitrary: v) simp_all

lemma parse_loop_ok:
  assumes "2 \<le> uint radix" and "uint radix \<le> 16"
  shows "wf v \<Longrightarrow> 0 \<le> ival v \<Longrightarrow> length (reg v) \<le> 2 ^ 28 \<Longrightarrow> text_value radix str (ival v) < W ^ (2 ^ 25) \<Longrightarrow>
    \<exists>r. parse_loop radix str v = Inr r \<and> wf r \<and> ival r = text_value radix str (ival v) \<and> length (reg r) \<le> 2 ^ 28"
proof (induction str arbitrary: v)
  case (Cons c str)
  show ?case
  proof (cases "digit_of radix c < radix")
    case False
    then show ?thesis using Cons by simp
  next
    case True
    let ?d = "digit_of radix c"
    have dr: "uint ?d < uint radix" using True by (simp add: word_less_def)
    have r63: "uint radix < 2 ^ 63" "uint ?d < 2 ^ 63" using assms(2) dr by simp_all
    note R = Integer_long_ok [OF r63(1)] and D = Integer_long_ok [OF r63(2)]
    have smv: "small v" using Cons.prems(3) by (simp add: small_def)
    obtain p where p: "Times False v (Integer_long radix) = Inr p" "wf p" "ival p = ival v * uint radix"
        "length (reg p) = RoundupSize (RoundupSize (WordCount v) + RoundupSize (WordCount (Integer_long radix)))"
      using Times_ok [OF Cons.prems(1) R(1) smv R(3), of False] R(2) by auto
    have wv: "RoundupSize (WordCount v) \<le> 2 ^ 28"
      using RoundupSize_count(1) [OF Cons.prems(1) small_limit [OF smv] WordCount_ok(1) [of v]] Cons.prems(3) by linarith
    have "WordCount (Integer_long radix) = 0 \<or> WordCount (Integer_long radix) = 1 \<or> WordCount (Integer_long radix) = 2"
      using R(5) by linarith
    then have wr: "RoundupSize (WordCount (Integer_long radix)) = 2" using round_table by auto
    have s32: "RoundupSize (WordCount v) + 2 \<le> 2 ^ 32" using wv by simp
    have lp: "length (reg p) \<le> 2 ^ 32" using RoundupSize_bounds(3) [OF s32] wv unfolding p(4) wr by simp
    have nn: "0 \<le> ival v * uint radix" using Cons.prems(2) by simp
    let ?v = "ival v * uint radix + uint ?d"
    have fin: "text_value radix (c # str) (ival v) = text_value radix str ?v" using True by simp
    have "?v \<le> text_value radix str ?v" using assms(1) nn by (intro text_value_mono) simp_all
    then have v26: "?v < W ^ (2 ^ 25)" using Cons.prems(4) unfolding fin by linarith
    moreover have "\<bar>ival p\<bar> \<le> ?v" using nn unfolding p(3) by simp
    ultimately have p26: "\<bar>ival p\<bar> < W ^ (2 ^ 25)" by linarith
    note c = Integer_copy_ok [OF p(2) lp] and cl = copy_bounded(1) [OF p(2) lp p26]
    let ?w = "plus_assign (Integer_copy p) (Integer_long ?d)"
    have w: "wf ?w" "ival ?w = ?v" "length (reg ?w) \<le> 2 * max (length (reg (Integer_copy p))) 2"
      using plus_assign_ok [OF c(1) D(1)] c(2) p(3) D(2,4) by simp_all
    have "max (length (reg (Integer_copy p))) 2 \<le> 2 * 2 ^ 25 + 2" using cl by simp
    then have "2 * max (length (reg (Integer_copy p))) 2 \<le> 2 ^ 28" by simp
    then have lw: "length (reg ?w) \<le> 2 ^ 28" using w(3) by (rule order.trans [rotated])
    have "parse_loop radix (c # str) v = parse_loop radix str ?w" using True p(1) by (simp add: Let_def)
    moreover have "0 \<le> ival ?w" unfolding w(2) using nn by simp
    moreover have "text_value radix str (ival ?w) < W ^ (2 ^ 25)" using Cons.prems(4) unfolding fin w(2) .
    ultimately show ?thesis using Cons.IH [OF w(1) _ lw] unfolding fin w(2) by simp
  qed
qed simp

section \<open>Reading what was printed\<close>

lemma digit_of_char:
  assumes "d < 16"
  shows "digit_of radix (digit_char d) = of_nat d" and "digit_char d \<noteq> CHR ''-''" and "digit_char d \<noteq> CHR ''x''"
proof -
  have "list_all (\<lambda>d. digit_of radix (digit_char d) = of_nat d \<and> digit_char d \<noteq> CHR ''-'' \<and> digit_char d \<noteq> CHR ''x'') [0..<16]"
    by (simp add: upt_conv_Cons digit_of_def digit_char_def of_char_def)
  moreover have "d \<in> set [0..<16]" using assms by simp
  ultimately have "digit_of radix (digit_char d) = of_nat d \<and> digit_char d \<noteq> CHR ''-'' \<and> digit_char d \<noteq> CHR ''x''"
    unfolding list_all_iff by blast
  then show "digit_of radix (digit_char d) = of_nat d" "digit_char d \<noteq> CHR ''-''" "digit_char d \<noteq> CHR ''x''" by blast+
qed

lemma text_value_digits:
  assumes "list_all (\<lambda>d. d < unat base) ds" and "unat base \<le> 16"
  shows "text_value base (rev (map digit_char ds)) 0 = int (foldr (\<lambda>d v. v * unat base + d) ds 0)"
  using assms(1)
proof (induction ds)
  case (Cons d ds)
  then have d: "d < unat base" "d < 16" using assms(2) by simp_all
  have "unat (of_nat d :: u64) = d" using d(2) by (simp add: unat_of_nat)
  then have u: "uint (of_nat d :: u64) = int d" by (simp only: uint_nat)
  have "(of_nat d :: u64) < base" unfolding word_less_nat_alt using \<open>unat (of_nat d :: u64) = d\<close> d(1) by simp
  then have "text_value base (rev (map digit_char (d # ds))) 0 = text_value base (rev (map digit_char ds)) 0 * uint base + int d"
    using digit_of_char(1) [OF d(2), of base] u by (simp add: text_value_append)
  then show ?case using Cons by simp
qed simp

lemma digits_small: "list_all (\<lambda>d. d < unat (base_of f)) (digits (unat (base_of f)) m)" "unat (base_of f) \<le> 16" "2 \<le> unat (base_of f)"
proof -
  show "unat (base_of f) \<le> 16" "2 \<le> unat (base_of f)" using base_cases [of f] by auto
  then show "list_all (\<lambda>d. d < unat (base_of f)) (digits (unat (base_of f)) m)" by (intro digits_less)
qed

definition printed :: "basefield \<Rightarrow> int \<Rightarrow> string" where
  "printed f i = (if i < 0 then ''-'' else []) @ (if i = 0 then ''0'' else []) @
     rev (map digit_char (digits (unat (base_of f)) (nat \<bar>i\<bar>))) @ [suffix_of f]"

lemma printed_chars: "c \<in> set (printed f i) \<Longrightarrow> c \<noteq> CHR ''x''"
proof -
  assume "c \<in> set (printed f i)"
  then consider "c = CHR ''-'' \<or> c = CHR ''0'' \<or> c = suffix_of f" | d where "d \<in> set (digits (unat (base_of f)) (nat \<bar>i\<bar>))" "c = digit_char d"
    by (auto simp: printed_def split: if_splits)
  then show ?thesis
  proof cases
    case 1
    then show ?thesis by (cases f) auto
  next
    case 2
    then have "d < unat (base_of f)" using digits_small(1) [of f "nat \<bar>i\<bar>"] 2(1) unfolding list_all_iff by blast
    then have "d < 16" using digits_small(2) [of f] by linarith
    then show ?thesis unfolding 2(2) by (rule digit_of_char(3))
  qed
qed

lemma printed_radix: "radix_of (printed f i) = base_of f"
proof -
  have l: "last (printed f i) = suffix_of f" by (simp add: printed_def)
  have "printed f i ! 1 \<noteq> CHR ''x''" if "length (printed f i) > 2" using that by (intro printed_chars [of _ f i] nth_mem) simp
  then show ?thesis unfolding radix_of_def l by (cases f) auto
qed

lemma printed_minus: "printed f i ! 0 = CHR ''-'' \<longleftrightarrow> i < 0"
proof -
  consider "i < 0" | "i = 0" | "0 < i" by linarith
  then show ?thesis
  proof cases
    case 3
    define ds where "ds = digits (unat (base_of f)) (nat \<bar>i\<bar>)"
    have "ds \<noteq> []" using 3 digits_small(3) [of f] unfolding ds_def by (subst digits.simps) simp
    have s: "printed f i = rev (map digit_char ds) @ [suffix_of f]" using 3 by (simp add: printed_def ds_def)
    have "printed f i ! 0 = digit_char (last ds)" unfolding s using \<open>ds \<noteq> []\<close> by (simp add: nth_append rev_nth last_conv_nth)
    moreover have "last ds < unat (base_of f)"
      using digits_small(1) [of f "nat \<bar>i\<bar>"] last_in_set [OF \<open>ds \<noteq> []\<close>] unfolding list_all_iff ds_def by blast
    then have "last ds < 16" using digits_small(2) [of f] by linarith
    ultimately show ?thesis using digit_of_char(2) [of "last ds"] 3 by simp
  qed (simp_all add: printed_def)
qed

lemma printed_value: "text_value (base_of f) (printed f i) 0 = \<bar>i\<bar>"
proof -
  let ?b = "base_of f" and ?ds = "digits (unat (base_of f)) (nat \<bar>i\<bar>)"
  have skip: "\<not> digit_of ?b (CHR ''-'') < ?b" "\<not> digit_of ?b (suffix_of f) < ?b"
    by (cases f; simp add: digit_of_def of_char_def)+
  have zero: "digit_of ?b (CHR ''0'') = 0" by (simp add: digit_of_def of_char_def)
  have "text_value ?b (rev (map digit_char ?ds)) 0 = int (nat \<bar>i\<bar>)"
    unfolding text_value_digits [OF digits_small(1,2)] digits_value [OF digits_small(3)] ..
  moreover have "text_value ?b (if i < 0 then ''-'' else []) 0 = 0" "text_value ?b (if i = 0 then ''0'' else []) 0 = 0"
    using skip(1) zero by simp_all
  ultimately show ?thesis using skip(2) by (simp add: printed_def text_value_append)
qed

lemma read_printed:
  assumes "\<bar>i\<bar> < W ^ (2 ^ 25)"
  shows "\<exists>v. StringToInteger (printed f i) = Inr v \<and> wf v \<and> ival v = i"
proof -
  have r: "2 \<le> uint (base_of f)" "uint (base_of f) \<le> 16" by (cases f; simp)+
  have tv: "text_value (base_of f) (printed f i) (ival Integer_Zero) = \<bar>i\<bar>" by (simp only: Integer_Zero_ok(2) printed_value)
  have "0 \<le> ival Integer_Zero" "length (reg Integer_Zero) \<le> 2 ^ 28" by simp_all
  from parse_loop_ok [OF r Integer_Zero_ok(1) this, of "printed f i", unfolded tv, OF assms]
  obtain v where v: "parse_loop (base_of f) (printed f i) Integer_Zero = Inr v" "wf v" "ival v = \<bar>i\<bar>" by blast
  have "printed f i \<noteq> []" by (simp add: printed_def)
  then have "StringToInteger (printed f i) = Inr (if i < 0 then Negate v else v)"
    using v(1) by (simp add: StringToInteger_def printed_radix printed_minus)
  then show ?thesis using v(2,3) Negate_ok [OF v(2)] by auto
qed

section \<open>The square root\<close>

lemma four_product: "4 * (a * b) \<le> (a + b) * (a + b)" for a b :: int
proof -
  have "0 \<le> (a - b) * (a - b)" by simp
  then show ?thesis by (simp add: algebra_simps)
qed

text \<open>A Newton step from any positive number does not go below the root.\<close>

lemma root_step:
  fixes A y s :: int
  assumes "0 < y" and "0 \<le> A" and "0 \<le> s" and "s * s \<le> A"
  shows "s \<le> (y + A div y) div 2"
proof (rule ccontr)
  define q where "q = A div y"
  assume "\<not> s \<le> (y + A div y) div 2"
  then have le: "(q + 1) + y \<le> 2 * s" by (simp add: q_def)
  have q0: "0 \<le> q" using assms(1,2) by (simp add: q_def pos_imp_zdiv_nonneg_iff)
  have "A mod y < y" using assms(1) by simp
  moreover have "A = q * y + A mod y" by (simp add: q_def)
  ultimately have "A < q * y + y" by linarith
  then have "A < (q + 1) * y" by (simp add: distrib_right)
  moreover have "((q + 1) + y) * ((q + 1) + y) \<le> (2 * s) * (2 * s)" using le q0 assms(1,3) by (intro mult_mono) simp_all
  then have "4 * ((q + 1) * y) \<le> 4 * (s * s)" using four_product [of "q + 1" y] by simp
  ultimately show False using assms(4) by linarith
qed

text \<open>A number that a step does not make smaller, and that is no less than the root, is the root.\<close>

lemma root_end:
  fixes A x :: int
  assumes "0 < x" and "x \<le> (x + A div x) div 2" and inv: "\<And>s. 0 \<le> s \<Longrightarrow> s * s \<le> A \<Longrightarrow> s \<le> x"
  shows "x * x \<le> A" and "A < (x + 1) * (x + 1)"
proof -
  have "x \<le> A div x" using assms(2) by linarith
  then have "x * x \<le> A div x * x" using assms(1) by (intro mult_right_mono) simp_all
  also have "\<dots> \<le> A" using div_mult_mod_eq [of A x] pos_mod_sign [OF assms(1), of A] by linarith
  finally show "x * x \<le> A" .
  show "A < (x + 1) * (x + 1)"
  proof (rule ccontr)
    assume "\<not> A < (x + 1) * (x + 1)"
    then have "x + 1 \<le> x" using assms(1) by (intro inv) simp_all
    then show False by simp
  qed
qed

lemma sqrt_loop_ok:
  assumes a: "wf a" "length (reg a) \<le> 2 ^ 24" "0 < ival a"
  shows "wf y \<Longrightarrow> length (reg y) \<le> 2 ^ 32 \<Longrightarrow> 0 < ival y \<Longrightarrow> ival y < W ^ (2 ^ 26) \<Longrightarrow>
    (\<And>s. 0 \<le> s \<Longrightarrow> s * s \<le> ival a \<Longrightarrow> s \<le> ival y) \<Longrightarrow>
    \<exists>x. sqrt_loop a y = Some x \<and> wf x \<and> 0 < ival x \<and> ival x * ival x \<le> ival a \<and> ival a < (ival x + 1) * (ival x + 1)"
proof (induction "nat (ival y)" arbitrary: y rule: less_induct)
  case less
  define x where "x = Integer_copy y"
  note x = Integer_copy_ok [OF less.prems(1,2), folded x_def]
  have "\<bar>ival y\<bar> < W ^ (2 ^ 26)" using less.prems(3,4) by simp
  note smx = copy_bounded(2) [OF less.prems(1,2) this order.refl, folded x_def]
  have sma: "small a" using a(2) by (simp add: small_def)
  have x0: "ival x \<noteq> 0" "0 < ival x" using less.prems(3) x(2) by simp_all
  obtain r q where D: "Integer_Divide a x = Inr (r, q)" "wf q" "ival a = ival q * ival x + ival r" "0 \<le> ival r" "ival r < \<bar>ival x\<bar>"
      "length (reg q) \<le> 4 * length (reg a) + 4"
    using Integer_Divide_ok [OF a(1) x(1) sma smx x0(1)] by blast
  have q: "ival q = ival a div ival x"
  proof -
    have "ival r div ival x = 0" using D(4,5) x0(2) by (intro div_pos_pos_trivial) simp_all
    then show ?thesis unfolding D(3) using x0(1) by simp
  qed
  have smq: "small q" using D(6) a(2) unfolding small_def by simp
  note plus = Plus_ok [OF x(1) D(2) smx smq]
  have lp: "length (reg (Plus x q)) \<le> 2 ^ 32" using plus(3) smx smq unfolding small_def by simp
  note c1 = Integer_copy_ok [OF plus(1) lp]
  note sh = shift_right_ok [OF c1(1), of 1]
  have ls: "length (reg (shift_right (Integer_copy (Plus x q)) 1)) \<le> 2 ^ 32" using sh(4) c1(3) lp by linarith
  define y' where "y' = Integer_copy (shift_right (Integer_copy (Plus x q)) 1)"
  note y' = Integer_copy_ok [OF sh(1) ls, folded y'_def]
  have q0: "0 \<le> ival q" unfolding q using a(3) x0(2) by (simp add: pos_imp_zdiv_nonneg_iff)
  have v: "ival y' = (ival x + ival a div ival x) div 2" using y'(2) sh(3) c1(2) plus(2) q x0(2) q0 by simp
  have step: "sqrt_loop a y = (if Integer_Compare y' x < 0 then sqrt_loop a y' else Some x)"
    by (subst sqrt_loop.simps) (simp only: Let_def x_def [symmetric] DividedBy_def D(1) y'_def [symmetric] sum.case prod.case)
  have inv: "s \<le> ival x" if "0 \<le> s" "s * s \<le> ival a" for s using less.prems(5) [OF that] x(2) by simp
  have inv': "s \<le> ival y'" if "0 \<le> s" "s * s \<le> ival a" for s
    unfolding v using root_step [OF x0(2) _ that] a(3) by simp
  show ?case
  proof (cases "ival y' < ival x")
    case True
    then have "sqrt_loop a y = sqrt_loop a y'" using step Integer_Compare_ok [OF y'(1) x(1)] by simp
    moreover have "1 \<le> ival y'" using inv' [of 1] a(3) by simp
    moreover have "nat (ival y') < nat (ival y)" using True x(2) less.prems(3) by simp
    moreover have "ival y' < W ^ (2 ^ 26)" using True x(2) less.prems(4) by linarith
    moreover have "length (reg y') \<le> 2 ^ 32" using y'(3) ls by linarith
    ultimately show ?thesis using less.hyps [of y'] y'(1) inv' by simp
  next
    case False
    then have "sqrt_loop a y = Some x" using step Integer_Compare_ok [OF y'(1) x(1)] by simp
    moreover have "ival x \<le> (ival x + ival a div ival x) div 2" using False v by simp
    ultimately show ?thesis using root_end [OF x0(2) _ inv] x(1) x0(2) by blast
  qed
qed

lemma val_one_word: "i < n \<Longrightarrow> val ((SetWords 0 n)[i := w]) = W ^ i * uint w"
proof -
  assume i: "i < n"
  have "(SetWords 0 n)[i := w] = replicate i 0 @ w # replicate (n - Suc i) 0"
    using i by (simp add: SetWords_def upd_conv_take_nth_drop)
  then show ?thesis by simp
qed

lemma Power2_ok:
  assumes "e \<le> 2 ^ 31"
  shows "wf (Power2 e)" and "ival (Power2 e) = 2 ^ e" and "length (reg (Power2 e)) = RoundupSize (e div 64 + 1)"
proof -
  have w: "BitsToWords (e + 1) = e div 64 + 1" by (simp add: BitsToWords_def)
  have "e div 64 \<le> e" by simp
  then have le: "e div 64 + 1 \<le> 2 ^ 32" using assms by simp
  note r = RoundupSize_bounds [OF le]
  define n where "n = RoundupSize (e div 64 + 1)"
  have n: "0 < n" "e div 64 < n" using r(1) by (simp_all add: n_def)
  have "0 # SetWords 0 (n - 1) = SetWords 0 n" using n(1) by (cases n) (simp_all add: SetWords_def)
  then have base: "Integer_words 0 (e div 64 + 1) = \<lparr>reg = SetWords 0 n, sign = POSITIVE\<rparr>"
    by (simp only: Integer_words_def n_def)
  have g: "CleanGrow (SetWords 0 n) n = SetWords 0 n" by (simp add: CleanGrow_def)
  have z: "SetWords 0 n ! (e div 64) OR u = u" for u using n(2) by (simp add: SetWords_def)
  have p: "Power2 e = \<lparr>reg = (SetWords 0 n)[e div 64 := push_bit (e mod 64) 1], sign = POSITIVE\<rparr>"
    unfolding Power2_def SetBit_def w base if_True Let_def by (simp only: Integer.simps n_def [symmetric] g z)
  have one: "uint (push_bit (e mod 64) 1 :: u64) = 2 ^ (e mod 64)"
  proof -
    have "(2::int) ^ (e mod 64) < 2 ^ 64" by (intro power_strict_increasing) simp_all
    then show ?thesis unfolding uint_push_word W_def by simp
  qed
  have v: "val ((SetWords 0 n)[e div 64 := push_bit (e mod 64) 1]) = 2 ^ e"
    unfolding val_one_word [OF n(2)] one pow_words [of e] ..
  show "ival (Power2 e) = 2 ^ e" unfolding p using v by simp
  show "length (reg (Power2 e)) = RoundupSize (e div 64 + 1)" unfolding p by (simp add: n_def)
  show "wf (Power2 e)" unfolding p wf_def using r(2) by (simp add: n_def)
qed

lemma BitCount_length: "BitCount x \<le> 64 * length (reg x)"
proof (cases "val (reg x) = 0")
  case True
  then show ?thesis using WordCount_0 [of x] by (simp add: BitCount_def)
next
  case False
  have "W ^ length (reg x) = 2 ^ (64 * length (reg x))" by (simp only: W_def power_mult)
  then have "(2::int) ^ (BitCount x - 1) < 2 ^ (64 * length (reg x))" using BitCount_ok(2) [OF False] val_less [of "reg x"] by linarith
  then have "BitCount x - 1 < 64 * length (reg x)" by (rule power_less_imp_less_exp [rotated]) simp
  then show ?thesis by simp
qed

lemma SquareRoot_ok:
  assumes "wf a" and "length (reg a) \<le> 2 ^ 24" and "0 < ival a"
  shows "\<exists>x. SquareRoot a = Some x \<and> wf x \<and> 0 < ival x \<and> ival x * ival x \<le> ival a \<and> ival a < (ival x + 1) * (ival x + 1)"
proof -
  define e where "e = (BitCount a + 1) div 2"
  have "BitCount a \<le> 64 * 2 ^ 24" using BitCount_length [of a] assms(2) by simp
  then have e: "e \<le> 2 ^ 30" "e \<le> 2 ^ 31" by (simp_all add: e_def)
  note y = Power2_ok [OF e(2)]
  have "e div 64 + 1 \<le> 2 ^ 25" using e(1) by simp
  moreover from this have "e div 64 + 1 \<le> 2 ^ 32" by simp
  ultimately have ly: "length (reg (Power2 e)) \<le> 2 ^ 28" using RoundupSize_bounds(3) [of "e div 64 + 1"] unfolding y(3) by simp
  then have smy: "small (Power2 e)" "length (reg (Power2 e)) \<le> 2 ^ 32" by (simp_all add: small_def)
  obtain p where p: "Times True (Power2 e) (Power2 e) = Inr p" "wf p" "ival p = 2 ^ e * 2 ^ e"
    using Times_ok [OF y(1,1) smy(1,1), of True] y(2) by auto
  have "ival a < 2 ^ BitCount a" using BitCount_ok(1) [of a] assms(3) by (simp only: ival_abs)
  also have "(2::int) ^ BitCount a \<le> 2 ^ (e + e)" by (intro power_increasing) (simp_all add: e_def)
  finally have sq: "ival a < 2 ^ e * 2 ^ e" by (simp only: power_add)
  have pos: "IsPositive a" using assms(3) ival_sign(2) [OF assms(1)] IsZero_iff [OF assms(1)] by (simp add: IsPositive_def NotZero_def)
  have S: "SquareRoot a = sqrt_loop a (Power2 e)"
    unfolding SquareRoot_def Let_def e_def [symmetric] using pos p(1) Integer_Compare_ok [OF p(2) assms(1)] p(3) sq by simp
  have inv: "s \<le> ival (Power2 e)" if "0 \<le> s" "s * s \<le> ival a" for s
  proof (rule ccontr)
    assume "\<not> s \<le> ival (Power2 e)"
    then have "2 ^ e * 2 ^ e \<le> s * s" unfolding y(2) using that(1) by (intro mult_mono) simp_all
    then show False using that(2) sq by linarith
  qed
  have "ival (Power2 e) < W ^ (2 ^ 26)"
  proof -
    have "(2::int) ^ e < 2 ^ (64 * 2 ^ 26)" using e(1) by (intro power_strict_increasing) simp_all
    then show ?thesis unfolding y(2) W_def power_mult [symmetric] .
  qed
  then show ?thesis unfolding S using y(2) inv by (intro sqrt_loop_ok [OF assms y(1) smy(2)]) simp_all
qed

section \<open>The inverse modulo a word\<close>

text \<open>One half of a step of the extended Euclidean algorithm: \<open>g\<close> is reduced by \<open>h\<close>, and \<open>u\<close>, the
  coefficient of \<open>g\<close>, takes the quotient times the one of \<open>h\<close>. The coefficients never exceed \<open>m\<close>.\<close>

lemma euclid_half:
  fixes g h u v m a :: int
  assumes "0 < h" and "h < g" and "0 \<le> u" and "1 \<le> v" and sum: "v * g + u * h = m"
  defines "y \<equiv> g div h"
  shows "v * (g mod h) + (u + y * v) * h = m" and "1 \<le> u + y * v" and "u + y * v \<le> m" and "0 \<le> g mod h" and "g mod h < h"
proof -
  have g: "g = y * h + g mod h" by (simp add: y_def)
  have "v * g = v * (y * h) + v * (g mod h)" unfolding distrib_left [symmetric] g [symmetric] ..
  then show s: "v * (g mod h) + (u + y * v) * h = m" using sum by (simp add: algebra_simps)
  have "h div h \<le> g div h" using assms(1,2) by (intro zdiv_mono1) simp_all
  then have "1 \<le> y" using assms(1) by (simp add: y_def)
  then have "1 * 1 \<le> y * v" using assms(4) by (intro mult_mono) simp_all
  then show c: "1 \<le> u + y * v" using assms(3) by linarith
  show r: "0 \<le> g mod h" "g mod h < h" using assms(1) by simp_all
  have "(u + y * v) * 1 \<le> (u + y * v) * h" using c assms(1) by (intro mult_left_mono) simp_all
  moreover have "0 \<le> v * (g mod h)" using r(1) assms(4) by (intro mult_nonneg_nonneg) simp_all
  ultimately show "u + y * v \<le> m" using s by simp
qed

lemma uint_fma: "uint u + uint y * uint v < W \<Longrightarrow> uint (u + y * v) = uint u + uint y * uint v" for u y v :: u64
proof -
  assume lt: "uint u + uint y * uint v < W"
  have "uint (u + y * v) = (uint u + uint y * uint v) mod W" by (simp add: uint_word_ariths mod_simps W_def)
  also have "\<dots> = uint u + uint y * uint v" using lt uint_W(1) [of u] uint_W(1) [of y] uint_W(1) [of v]
    by (intro mod_pos_pos_trivial add_nonneg_nonneg mult_nonneg_nonneg)
  finally show ?thesis .
qed

lemma inverse_word_loop_ok:
  fixes m g0 g1 v0 v1 :: u64 and a :: int
  shows "uint g1 < uint g0 \<Longrightarrow> 1 \<le> uint v1 \<Longrightarrow> uint v1 * uint g0 + uint v0 * uint g1 = uint m \<Longrightarrow>
    uint m dvd a * uint v1 - uint g1 \<Longrightarrow> uint m dvd a * uint v0 + uint g0 \<Longrightarrow> gcd (uint g0) (uint g1) = gcd a (uint m) \<Longrightarrow>
    (g0 = 1 \<longrightarrow> m = 1) \<Longrightarrow> r = inverse_word_loop m g0 g1 v0 v1 \<Longrightarrow>
    uint r < uint m \<and> (if gcd a (uint m) = 1 then uint m dvd a * uint r - 1 else r = 0)"
proof (induction m g0 g1 v0 v1 rule: inverse_word_loop.induct)
  case (1 m g0 g1 v0 v1)
  have nn: "0 \<le> uint v0" "0 \<le> uint g0" "0 \<le> uint g1" by simp_all
  have g0: "0 < uint g0" using "1.prems"(1) nn(3) by linarith
  have "1 * 1 \<le> uint v1 * uint g0" using g0 "1.prems"(2) by (intro mult_mono) simp_all
  moreover have vg: "0 \<le> uint v0 * uint g1" by simp
  ultimately have m0: "0 < uint m" using "1.prems"(3) by linarith
  consider "g1 = 0" | "g1 = 1" | "g1 \<noteq> 0" "g1 \<noteq> 1" by blast
  then show ?case
  proof cases
    case 1
    then have r: "r = 0" using "1.prems"(8) by (simp add: inverse_word_loop.simps)
    have "gcd a (uint m) = uint g0" using "1.prems"(6) 1 by simp
    moreover have "uint m = 1" if "uint g0 = 1"
    proof -
      have "g0 = 1" using that by (simp add: word_uint_eq_iff)
      then show ?thesis using "1.prems"(7) by simp
    qed
    ultimately show ?thesis using r m0 by auto
  next
    case 2
    then have r: "r = v1" using "1.prems"(8) by (simp add: inverse_word_loop.simps)
    have "uint v1 * 2 \<le> uint v1 * uint g0" using 2 "1.prems"(1,2) by (intro mult_left_mono) simp_all
    then have "uint v1 < uint m" using "1.prems"(2,3) vg by linarith
    then show ?thesis using r 2 "1.prems"(4,6) by simp
  next
    case 3
    have h: "2 \<le> uint g1"
    proof -
      have "uint g1 \<noteq> 0" "uint g1 \<noteq> 1" using 3 by (simp_all add: word_uint_eq_iff)
      then show ?thesis using nn(3) by linarith
    qed
    then have h0: "0 < uint g1" by simp
    define y where "y = g0 div g1"
    define G0 where "G0 = g0 mod g1"
    define V0 where "V0 = v0 + y * v1"
    have uy: "uint y = uint g0 div uint g1" "uint G0 = uint g0 mod uint g1" by (simp_all add: y_def G0_def uint_div uint_mod)
    note e = euclid_half [OF h0 "1.prems"(1) nn(1) "1.prems"(2,3), folded uy]
    have V0: "uint V0 = uint v0 + uint y * uint v1"
      unfolding V0_def using e(3) uint_W(2) [of m] by (intro uint_fma) linarith
    note e = e [folded V0]
    have d0: "uint m dvd a * uint V0 + uint G0"
    proof -
      have "uint g0 = uint y * uint g1 + uint G0" unfolding uy by simp
      then have "a * uint V0 + uint G0 = (a * uint v0 + uint g0) + uint y * (a * uint v1 - uint g1)"
        unfolding V0 by (simp add: algebra_simps)
      then show ?thesis using "1.prems"(4,5) by simp
    qed
    have gcd0: "gcd (uint G0) (uint g1) = gcd a (uint m)" unfolding uy "1.prems"(6) [symmetric] by (metis gcd.commute gcd_red_int)
    have rec: "r = (if G0 = 0 then 0 else if G0 = 1 then m - V0
        else inverse_word_loop m G0 (g1 mod G0) V0 (v1 + g1 div G0 * V0))"
      using "1.prems"(8) 3 by (subst (asm) inverse_word_loop.simps) (simp add: Let_def y_def G0_def V0_def)
    consider "G0 = 0" | "G0 = 1" | "G0 \<noteq> 0" "G0 \<noteq> 1" by blast
    then show ?thesis
    proof cases
      case 1
      then have "gcd a (uint m) \<noteq> 1" using gcd0 h by simp
      then show ?thesis using rec 1 m0 by simp
    next
      case 2
      have "uint V0 * 2 \<le> uint V0 * uint g1" using h by (intro mult_left_mono) simp_all
      moreover have "0 \<le> uint v1 * uint G0" by simp
      ultimately have V0m: "uint V0 < uint m" using e(1,2) by linarith
      then have r: "uint r = uint m - uint V0" using rec 2 uint_sub_lem [of V0 m] by simp
      have "a * uint r - 1 = a * uint m - (a * uint V0 + uint G0)" unfolding r using 2 by (simp add: right_diff_distrib)
      then have "uint m dvd a * uint r - 1" using d0 by simp
      moreover have "gcd a (uint m) = 1" using gcd0 2 by simp
      ultimately show ?thesis using r e(2) by simp
    next
      case g: 3
      have G0: "0 < uint G0" using g(1) e(4) by (metis order_le_less uint_0_iff)
      define z where "z = g1 div G0"
      define G1 where "G1 = g1 mod G0"
      define V1 where "V1 = v1 + z * V0"
      have uz: "uint z = uint g1 div uint G0" "uint G1 = uint g1 mod uint G0" by (simp_all add: z_def G1_def uint_div uint_mod)
      have sum: "uint V0 * uint g1 + uint v1 * uint G0 = uint m" using e(1) by linarith
      have v1: "0 \<le> uint v1" by simp
      note f = euclid_half [OF G0 e(5) v1 e(2) sum, folded uz]
      have V1: "uint V1 = uint v1 + uint z * uint V0"
        unfolding V1_def using f(3) uint_W(2) [of m] by (intro uint_fma) linarith
      note f = f [folded V1]
      have d1: "uint m dvd a * uint V1 - uint G1"
      proof -
        have "uint g1 = uint z * uint G0 + uint G1" unfolding uz by simp
        then have "a * uint V1 - uint G1 = (a * uint v1 - uint g1) + uint z * (a * uint V0 + uint G0)"
          unfolding V1 by (simp add: algebra_simps)
        then show ?thesis using "1.prems"(4) d0 by simp
      qed
      have gcd1: "gcd (uint G0) (uint G1) = gcd a (uint m)" unfolding gcd0 [symmetric] uz by (metis gcd.commute gcd_red_int)
      have r: "r = inverse_word_loop m G0 G1 V0 V1" using rec g by (simp add: z_def G1_def V1_def)
      have sum1: "uint V1 * uint G0 + uint V0 * uint G1 = uint m" using f(1) by linarith
      have "G0 = 1 \<longrightarrow> m = 1" using g(2) by simp
      from "1.IH" [OF 3 y_def G0_def V0_def g z_def G1_def V1_def f(5) f(2) sum1 d1 d0 gcd1 this r]
      show ?thesis .
    qed
  qed
qed

lemma InverseMod_word_ok:
  assumes "wf x" and "small x" and "m \<noteq> 0"
  shows "\<exists>r. InverseMod_word x m = Inr r \<and> uint r < uint m \<and>
    (if coprime (ival x) (uint m) then (ival x * uint r) mod uint m = 1 mod uint m else r = 0)"
proof -
  have m0: "0 < uint m" using assms(3) uint_W(1) [of m] by (metis order_le_less uint_0_iff)
  obtain g where g: "Modulo_word x m = Inr g" "uint g = ival x mod uint m" using Modulo_word_ok [OF assms] by blast
  define r where "r = inverse_word_loop m m g 0 1"
  have "uint m dvd ival x - uint g" unfolding g(2) by (simp add: mod_eq_0_iff_dvd [symmetric] mod_simps)
  moreover have "gcd (uint m) (uint g) = gcd (ival x) (uint m)" unfolding g(2) by (metis gcd.commute gcd_red_int)
  ultimately have "uint r < uint m \<and> (if gcd (ival x) (uint m) = 1 then uint m dvd ival x * uint r - 1 else r = 0)"
    using m0 by (intro inverse_word_loop_ok [OF _ _ _ _ _ _ _ r_def]) (simp_all add: g(2))
  moreover have "(ival x * uint r) mod uint m = 1 mod uint m" if "uint m dvd ival x * uint r - 1"
    using that by (simp add: mod_eq_dvd_iff)
  ultimately show ?thesis using g(1) by (auto simp: InverseMod_word_def r_def coprime_iff_gcd_eq_1 split: if_splits)
qed

section \<open>The laws\<close>

text \<open>C18: Printing and reading agree: for each of the three bases and each integer, printing writes inside its
  array of \<open>BitCount / (BitPrecision(base) - 1) + 1\<close> characters and returns, and reading the text gives
  an integer of the same value; so the sign, the suffix that names the base and the zero are read as
  they were meant.\<close>

theorem print_read_roundtrip:
  assumes "wf a" and "length (reg a) \<le> 2 ^ 25"
  shows "\<exists>s v. print_integer f a = Some s \<and> StringToInteger s = Inr v \<and> wf v \<and> ival v = ival a"
proof -
  have "length (reg a) \<le> 2 ^ 26" using assms(2) by simp
  from print_integer_ok [OF assms(1) this] have P: "print_integer f a = Some (printed f (ival a))" by (simp add: printed_def)
  have "\<bar>ival a\<bar> < W ^ length (reg a)" using val_less [of "reg a"] by (simp only: ival_abs)
  moreover have "W ^ length (reg a) \<le> W ^ (2 ^ 25)" using assms(2) by (intro power_increasing) simp_all
  ultimately have "\<bar>ival a\<bar> < W ^ (2 ^ 25)" by (rule less_le_trans)
  then obtain v where "StringToInteger (printed f (ival a)) = Inr v" "wf v" "ival v = ival a" using read_printed by blast
  then show ?thesis using P by blast
qed

theorem print_read_roundtrip_witness:
  "\<exists>s v. print_integer hex \<lparr>reg = [48879, 12], sign = NEGATIVE\<rparr> = Some s \<and> StringToInteger s = Inr v \<and> wf v \<and>
    ival v = ival \<lparr>reg = [48879, 12], sign = NEGATIVE\<rparr>"
  by (rule print_read_roundtrip) (simp_all add: wf_def W_def pow_2)

text \<open>C20: \<open>SquareRoot\<close> returns the floor of the square root, and zero for a number that is not positive: the
  first estimate passes the assertion, every step of the iteration goes down until the root is
  reached, and the loop ends there.\<close>

theorem square_root_floor:
  assumes "wf a" and "length (reg a) \<le> 2 ^ 24"
  shows "\<exists>x. SquareRoot a = Some x \<and> wf x \<and> 0 \<le> ival x \<and>
    (if ival a \<le> 0 then ival x = 0 else ival x * ival x \<le> ival a \<and> ival a < (ival x + 1) * (ival x + 1))"
proof (cases "0 < ival a")
  case True
  then show ?thesis using SquareRoot_ok [OF assms True] by auto
next
  case False
  then have "\<not> IsPositive a" using ival_sign(2) [OF assms(1)] IsZero_iff [OF assms(1)] by (auto simp: IsPositive_def NotZero_def)
  then show ?thesis using False by (simp add: SquareRoot_def)
qed

theorem square_root_floor_witness:
  "\<exists>x. SquareRoot \<lparr>reg = [2, 3], sign = POSITIVE\<rparr> = Some x \<and> wf x \<and> 0 \<le> ival x \<and>
    (if ival \<lparr>reg = [2, 3], sign = POSITIVE\<rparr> \<le> 0 then ival x = 0
     else ival x * ival x \<le> ival \<lparr>reg = [2, 3], sign = POSITIVE\<rparr> \<and> ival \<lparr>reg = [2, 3], sign = POSITIVE\<rparr> < (ival x + 1) * (ival x + 1))"
  by (rule square_root_floor) (simp_all add: wf_def W_def pow_2)

text \<open>C21: The inverse modulo a word: for a modulus other than zero the loop ends, no product of the
  coefficients wraps, and the result is below the modulus; it is the inverse when there is one, and zero
  otherwise.\<close>

theorem word_inverse:
  assumes "wf x" and "small x" and "m \<noteq> 0"
  shows "\<exists>r. InverseMod_word x m = Inr r \<and> uint r < uint m \<and>
    (if coprime (ival x) (uint m) then (ival x * uint r) mod uint m = 1 mod uint m else r = 0)"
  using InverseMod_word_ok [OF assms] .

theorem word_inverse_witness:
  "\<exists>r. InverseMod_word \<lparr>reg = [5, 1], sign = NEGATIVE\<rparr> 97 = Inr r \<and> uint r < uint (97 :: u64) \<and>
    (if coprime (ival \<lparr>reg = [5, 1], sign = NEGATIVE\<rparr>) (uint (97 :: u64))
     then (ival \<lparr>reg = [5, 1], sign = NEGATIVE\<rparr> * uint r) mod uint (97 :: u64) = 1 mod uint (97 :: u64) else r = 0)"
  by (rule word_inverse) (simp_all add: wf_def small_def W_def pow_2)

end
