(* ===== verification/CPP_Codec.thy ===== *)
theory CPP_Codec
  imports CPP_Numbers
begin

text \<open>
  The class \<open>Integer\<close> of \<^verbatim>\<open>src/src/utils/lib/CryptoPP.cc\<close> as bytes: \<open>Encode\<close>, \<open>MinEncodedSize\<close> and
  \<open>Decode\<close>, most significant byte first, negative numbers in two's complement. What is written to a
  \<open>BufferedTransformation\<close> is the list of the bytes put, what is read is the list that it holds.
\<close>

section \<open>Definitions\<close>

datatype Signedness = UNSIGNED | SIGNED

definition GetByte :: "Integer \<Rightarrow> nat \<Rightarrow> u8" where
  "GetByte x n = (if n div 8 \<ge> length (reg x) then 0 else ucast (drop_bit (n mod 8 * 8) (reg x ! (n div 8))))"

definition MinEncodedSize :: "Integer \<Rightarrow> Signedness \<Rightarrow> nat" where
  "MinEncodedSize x signedness =
     (let outputLen = max 1 (ByteCount x)
      in if signedness = UNSIGNED then outputLen
         else
           let outputLen = (if NotNegative x \<and> GetByte x (outputLen - 1) AND 0x80 \<noteq> 0 then outputLen + 1 else outputLen)
           in if IsNegative x \<and> Integer_Compare x (Minus_unary (Power2 (outputLen * 8 - 1))) < 0 then outputLen + 1
              else outputLen)"

definition Integer_Encode :: "Integer \<Rightarrow> nat \<Rightarrow> Signedness \<Rightarrow> u8 list" where
  "Integer_Encode x outputLen signedness =
     (if signedness = UNSIGNED \<or> NotNegative x then map (\<lambda>i. GetByte x (i - 1)) (rev [1..<outputLen + 1])
      else
        let temp = Plus (Power2 (8 * max (ByteCount x) outputLen)) x
        in map (\<lambda>i. GetByte temp (outputLen - i - 1)) [0..<outputLen])"

text \<open>The loop over the leading bytes that add nothing.\<close>

fun skip_lead :: "sign \<Rightarrow> u8 list \<Rightarrow> u8 list" where
  "skip_lead s [] = []"
| "skip_lead s (b # bt) = (if (if s = POSITIVE then b = 0 else b = 0xff) then skip_lead s bt else b # bt)"

definition or_byte :: "nat \<Rightarrow> u8 \<Rightarrow> u64 list \<Rightarrow> u64 list" where
  "or_byte i b R = R[i div 8 := R ! (i div 8) OR push_bit (i mod 8 * 8) (ucast b)]"

fun put_bytes :: "u8 list \<Rightarrow> u64 list \<Rightarrow> u64 list" where
  "put_bytes [] R = R"
| "put_bytes (b # bt) R = put_bytes bt (or_byte (length bt) b R)"

text \<open>The variable \<open>b\<close> is not initialised: it keeps what it held when there is no byte to peek at.\<close>

definition Integer_Decode :: "u8 \<Rightarrow> u8 list \<Rightarrow> Signedness \<Rightarrow> Integer" where
  "Integer_Decode b bt s =
     (let b = (case bt of [] \<Rightarrow> b | c # _ \<Rightarrow> c);
          sg = (if s = SIGNED \<and> b AND 0x80 \<noteq> 0 then NEGATIVE else POSITIVE);
          bt = skip_lead sg bt; inputLen = length bt;
          R = put_bytes bt (SetWords 0 (RoundupSize (BytesToWords inputLen)))
      in \<lparr>reg = (if sg = NEGATIVE then TwosComplement (fold (\<lambda>i. or_byte i 0xff) [inputLen..<length R * 8] R) else R),
          sign = sg\<rparr>)"

section \<open>Bytes of an array of words\<close>

lemma W_bytes: "(256::int) ^ n = W ^ (n div 8) * 2 ^ (n mod 8 * 8)"
proof -
  have "(256::int) ^ n = (2 ^ 8) ^ n" by simp
  also have "\<dots> = 2 ^ (8 * n)" by (simp only: power_mult)
  also have "\<dots> = W ^ (8 * n div 64) * 2 ^ (8 * n mod 64)" by (rule pow_words)
  also have "8 * n div 64 = n div 8" by simp
  also have "8 * n mod 64 = n mod 8 * 8" using mult_mod_right [of 8 n 8] by simp
  finally show ?thesis .
qed

lemma W_bytes_8: "W ^ n = 256 ^ (n * 8)"
  using W_bytes [of "n * 8"] by simp

lemma val_nth: "n < length A \<Longrightarrow> uint (A ! n) = val A div W ^ n mod W"
proof -
  assume n: "n < length A"
  have d: "drop n A = A ! n # drop (Suc n) A" using n by (simp add: Cons_nth_drop_Suc)
  have "val A div W ^ n = val (drop n A)" using n val_drop [of n A] by simp
  also have "\<dots> = uint (A ! n) + W * val (drop (Suc n) A)" unfolding d by simp
  finally have "val A div W ^ n mod W = uint (A ! n) mod W" by simp
  then show ?thesis using uint_W [of "A ! n"] by simp
qed

lemma GetByte_val: "uint (GetByte x n) = val (reg x) div 256 ^ n mod 256"
proof (cases "n div 8 \<ge> length (reg x)")
  case True
  have "val (reg x) < W ^ length (reg x)" by (rule val_less)
  also have "W ^ length (reg x) = 256 ^ (length (reg x) * 8)" by (rule W_bytes_8)
  also have "(256::int) ^ (length (reg x) * 8) \<le> 256 ^ n" using True by (intro power_increasing) simp_all
  finally have "val (reg x) div 256 ^ n = 0" by (intro div_pos_pos_trivial) simp_all
  then show ?thesis using True by (simp add: GetByte_def)
next
  case False
  define k where "k = n mod 8 * 8"
  have k: "k + 8 \<le> 64" by (simp add: k_def)
  then have Wk: "W = 2 ^ k * (256 * 2 ^ (64 - k - 8))" by (simp add: W_def flip: power_add)
  have "uint (GetByte x n) = uint (reg x ! (n div 8)) div 2 ^ k mod 256"
    using False by (simp add: GetByte_def k_def [symmetric] unsigned_ucast_eq take_bit_eq_mod uint_drop_word)
  also have "\<dots> = (val (reg x) div W ^ (n div 8) mod W) div 2 ^ k mod 256" using val_nth [of "n div 8" "reg x"] False by simp
  also have "\<dots> = val (reg x) div W ^ (n div 8) div 2 ^ k mod 256"
  proof -
    have "(v mod W) div 2 ^ k mod 256 = v div 2 ^ k mod 256" for v :: int
    proof -
      have e: "W * z = 2 ^ k * (256 * (2 ^ (64 - k - 8) * z))" for z unfolding Wk by (simp only: mult.assoc)
      define m z where "m = v mod W" and "z = 2 ^ (64 - k - 8) * (v div W)"
      have v: "v = m + 2 ^ k * (256 * z)"
        using mod_mult_div_eq [of v W] unfolding e [of "v div W"] m_def z_def by (rule sym)
      have "v div 2 ^ k = m div 2 ^ k + 256 * z" by (simp add: v)
      then have "v div 2 ^ k mod 256 = m div 2 ^ k mod 256" by simp
      then show ?thesis by (simp only: m_def)
    qed
    then show ?thesis by simp
  qed
  also have "val (reg x) div W ^ (n div 8) div 2 ^ k = val (reg x) div 256 ^ n"
    unfolding W_bytes [of n] k_def by (rule zdiv_zmult2_eq [symmetric]) simp
  finally show ?thesis .
qed
text \<open>What the bytes stand for.\<close>

fun uval :: "u8 list \<Rightarrow> int" where
  "uval [] = 0"
| "uval (b # bs) = uint b * 256 ^ length bs + uval bs"

definition sval :: "u8 list \<Rightarrow> int" where
  "sval bs = (if bs \<noteq> [] \<and> hd bs AND 0x80 \<noteq> 0 then uval bs - 256 ^ length bs else uval bs)"

lemma uint_byte: "0 \<le> uint b" "uint b < 256" for b :: u8
  using uint_bound [of b] by simp_all

lemma uval_range: "0 \<le> uval bs" "uval bs < 256 ^ length bs"
proof -
  have "0 \<le> uval bs \<and> uval bs < 256 ^ length bs"
  proof (induction bs)
    case (Cons b bs)
    have "uint b * 256 ^ length bs \<le> 255 * 256 ^ length bs" using uint_byte(2) [of b] by (intro mult_right_mono) simp_all
    moreover have "0 \<le> uint b * 256 ^ length bs" by simp
    moreover have "(256::int) ^ length (b # bs) = 255 * 256 ^ length bs + 256 ^ length bs" by simp
    ultimately show ?case using Cons unfolding uval.simps by linarith
  qed simp
  then show "0 \<le> uval bs" "uval bs < 256 ^ length bs" by blast+
qed

text \<open>The bytes of a number are the number modulo a power of 256.\<close>

lemma uval_bytes: "uval (map f (rev [0..<n])) = v mod 256 ^ n" if "\<And>i. i < n \<Longrightarrow> uint (f i) = v div 256 ^ i mod 256"
  using that
proof (induction n)
  case (Suc n)
  have "uval (map f (rev [0..<Suc n])) = v div 256 ^ n mod 256 * 256 ^ n + v mod 256 ^ n"
    using Suc.IH Suc.prems by simp
  also have "\<dots> = v mod (256 ^ n * 256)" by (simp add: zmod_zmult2_eq)
  finally show ?case by (simp add: mult.commute)
qed simp

subsection \<open>One byte more\<close>

definition getb :: "u64 list \<Rightarrow> nat \<Rightarrow> u64" where
  "getb R i = take_bit 8 (drop_bit (i mod 8 * 8) (R ! (i div 8)))"

lemma or_byte_length [simp]: "length (or_byte i b R) = length R"
  by (simp add: or_byte_def)

lemma val_update: "k < length R \<Longrightarrow> val (R[k := w]) = val R + W ^ k * (uint w - uint (R ! k))"
proof -
  assume k: "k < length R"
  have "val R = val (take k R) + W ^ k * (uint (R ! k) + W * val (drop (Suc k) R))"
    using val_take_drop [of R k] k by (simp add: Cons_nth_drop_Suc [symmetric])
  moreover have "val (R[k := w]) = val (take k R) + W ^ k * (uint w + W * val (drop (Suc k) R))"
    using k by (simp add: upd_conv_take_nth_drop)
  ultimately show ?thesis by (simp add: algebra_simps)
qed

lemma or_byte_val:
  assumes "i div 8 < length R" and "getb R i = 0"
  shows "val (or_byte i b R) = val R + 256 ^ i * uint b"
proof -
  define k where "k = i mod 8 * 8"
  have k: "k + 8 \<le> 64" by (simp add: k_def)
  let ?u = "R ! (i div 8)" and ?v = "push_bit k (ucast b) :: u64"
  have z: "\<not> bit ?u (k + j)" if "j < 8" for j
  proof -
    have "bit (getb R i) j = bit ?u (k + j)" using that k by (simp add: getb_def k_def bit_take_bit_iff bit_drop_bit_eq add.commute)
    then show ?thesis using assms(2) by simp
  qed
  have "?u AND ?v = 0"
  proof (rule bit_word_eqI)
    fix j assume "j < LENGTH(64)"
    show "bit (?u AND ?v) j = bit (0 :: u64) j"
      using z [of "j - k"] by (auto simp: bit_and_iff bit_push_bit_iff bit_ucast_iff dest: bit_imp_le_length)
  qed
  then have o: "uint (?u OR ?v) = uint ?u + uint ?v" by (rule uint_or_disjoint)
  have "uint (ucast b :: u64) = uint b" using uint_byte [of b] by (simp add: unsigned_ucast_eq take_bit_int_eq_self)
  moreover have "uint b * 2 ^ k < 2 ^ 8 * 2 ^ k" using uint_byte(2) [of b] by simp
  moreover have "(2::int) ^ 8 * 2 ^ k \<le> 2 ^ 64" using k by (simp only: power_add [symmetric], intro power_increasing) simp_all
  ultimately have u: "uint (ucast b :: u64) = uint b" "uint b * 2 ^ k < W" unfolding W_def by linarith+
  have "uint ?v = uint b * 2 ^ k mod W" unfolding uint_push_word u(1) ..
  also have "\<dots> = uint b * 2 ^ k" using u(2) uint_byte(1) [of b] by (intro mod_pos_pos_trivial mult_nonneg_nonneg) simp_all
  finally have "uint ?v = uint b * 2 ^ k" .
  then show ?thesis
    unfolding or_byte_def k_def [symmetric] val_update [OF assms(1)] o W_bytes [of i] by (simp add: mult.commute mult.left_commute)
qed

lemma or_byte_other: "i \<noteq> j \<Longrightarrow> i div 8 < length R \<Longrightarrow> getb (or_byte i b R) j = getb R j"
proof -
  assume ij: "i \<noteq> j" and i: "i div 8 < length R"
  show ?thesis
  proof (cases "i div 8 = j div 8")
    case True
    have window: "p = q" if "p * 8 \<le> q * 8 + n" "q * 8 + n - p * 8 < 8" "n < 8" for p q n :: nat using that by presburger
    from True have m: "i mod 8 \<noteq> j mod 8" using ij by (metis div_mult_mod_eq)
    show ?thesis
    proof (rule bit_word_eqI)
      fix n assume "n < LENGTH(64)"
      have "\<not> bit (push_bit (i mod 8 * 8) (ucast b) :: u64) (j mod 8 * 8 + n)" if "n < 8"
      proof
        assume "bit (push_bit (i mod 8 * 8) (ucast b) :: u64) (j mod 8 * 8 + n)"
        then have "i mod 8 * 8 \<le> j mod 8 * 8 + n" "j mod 8 * 8 + n - i mod 8 * 8 < 8"
          by (auto simp: bit_push_bit_iff bit_ucast_iff dest: bit_imp_le_length)
        then show False using that m window by blast
      qed
      then show "bit (getb (or_byte i b R) j) n = bit (getb R j) n"
        using i True by (auto simp: getb_def or_byte_def bit_take_bit_iff bit_drop_bit_eq bit_or_iff add.commute)
    qed
  qed (use i in \<open>simp add: getb_def or_byte_def\<close>)
qed

lemma put_bytes_ok: "length bt \<le> length R * 8 \<Longrightarrow> (\<And>j. j < length R * 8 \<Longrightarrow> getb R j = 0) \<Longrightarrow>
  length (put_bytes bt R) = length R \<and> val (put_bytes bt R) = val R + uval bt \<and>
  (\<forall>j. length bt \<le> j \<longrightarrow> j < length R * 8 \<longrightarrow> getb (put_bytes bt R) j = 0)"
proof -
  have "length bt \<le> length R * 8 \<Longrightarrow> (\<And>j. j < length bt \<Longrightarrow> getb R j = 0) \<Longrightarrow>
    length (put_bytes bt R) = length R \<and> val (put_bytes bt R) = val R + uval bt \<and>
    (\<forall>j. length bt \<le> j \<longrightarrow> getb (put_bytes bt R) j = getb R j)" for R
  proof (induction bt arbitrary: R)
    case (Cons b bt)
    have i: "length bt div 8 < length R" using Cons.prems(1) by simp
    have g: "getb R (length bt) = 0" using Cons.prems(2) by simp
    have "getb (or_byte (length bt) b R) j = 0" if "j < length bt" for j
      using or_byte_other [of "length bt" j R b] i that Cons.prems(2) [of j] by simp
    then show ?case
      using Cons.IH [of "or_byte (length bt) b R"] Cons.prems(1) or_byte_val [OF i g, of b] or_byte_other [of "length bt" _ R b] i by simp
  qed simp
  then show "length bt \<le> length R * 8 \<Longrightarrow> (\<And>j. j < length R * 8 \<Longrightarrow> getb R j = 0) \<Longrightarrow> ?thesis" by simp
qed

lemma fill_ok: "n \<le> length R * 8 \<Longrightarrow> (\<And>j. n \<le> j \<Longrightarrow> j < length R * 8 \<Longrightarrow> getb R j = 0) \<Longrightarrow>
  length (fold (\<lambda>i. or_byte i 0xff) [n..<length R * 8] R) = length R \<and>
  val (fold (\<lambda>i. or_byte i 0xff) [n..<length R * 8] R) = val R + W ^ length R - 256 ^ n"
proof (induction "length R * 8 - n" arbitrary: n R)
  case 0
  then show ?case by (simp add: W_bytes_8)
next
  case (Suc d)
  then have n: "n < length R * 8" "n div 8 < length R" by simp_all
  let ?R = "or_byte n 0xff R"
  have z: "getb ?R j = 0" if "Suc n \<le> j" "j < length ?R * 8" for j
    using or_byte_other [of n j R "0xff"] n(2) that Suc.prems(2) [of j] by simp
  have v: "val ?R = val R + 256 ^ n * 255" using or_byte_val [OF n(2) Suc.prems(2) [OF order.refl n(1)], where b = "0xff"] by simp
  have s: "[n..<length R * 8] = n # [Suc n..<length ?R * 8]" using n(1) by (simp add: upt_conv_Cons)
  have "d = length ?R * 8 - Suc n" "Suc n \<le> length ?R * 8" using Suc.hyps(2) n(1) by simp_all
  from Suc.hyps(1) [OF this z] show ?case unfolding s using v by simp
qed

section \<open>Decoding\<close>

lemma high_bit: "b AND 0x80 \<noteq> 0 \<longleftrightarrow> 128 \<le> uint b" for b :: u8
proof -
  define v :: u8 where "v = push_bit 7 1"
  have v: "0x80 = v" "v \<noteq> 0" by (simp_all add: v_def)
  have bv: "bit v n \<longleftrightarrow> n = 7" for n
    unfolding v_def by (auto simp only: bit_push_bit_iff bit_1_iff possible_bit_word) simp_all
  have "b AND v = (if bit b 7 then v else 0)" by (rule bit_word_eqI) (auto simp: bit_and_iff bv)
  then have "b AND 0x80 \<noteq> 0 \<longleftrightarrow> bit b 7" unfolding v(1) using v(2) by simp
  also have "\<dots> \<longleftrightarrow> bit (uint b) 7" by (simp add: bit_uint_iff)
  also have "\<dots> \<longleftrightarrow> odd (uint b div 128)" by (simp add: bit_iff_odd)
  also have "\<dots> \<longleftrightarrow> 128 \<le> uint b" using uint_byte [of b] by presburger
  finally show ?thesis .
qed

text \<open>The leading bytes that are skipped do not change the value.\<close>

lemma skip_positive: "uval (skip_lead POSITIVE bt) = uval bt"
  by (induction bt) simp_all

lemma skip_negative:
  "uval (skip_lead NEGATIVE bt) - 256 ^ length (skip_lead NEGATIVE bt) = uval bt - 256 ^ length bt"
  "skip_lead NEGATIVE bt = [] \<or> uint (hd (skip_lead NEGATIVE bt)) < 255"
proof -
  have "uval (skip_lead NEGATIVE bt) - 256 ^ length (skip_lead NEGATIVE bt) = uval bt - 256 ^ length bt \<and>
    (skip_lead NEGATIVE bt = [] \<or> uint (hd (skip_lead NEGATIVE bt)) < 255)"
  proof (induction bt)
    case (Cons b bt)
    show ?case
    proof (cases "b = 0xff")
      case False
      then have "uint b \<noteq> 255" by (simp add: word_uint_eq_iff)
      then show ?thesis using False uint_byte(2) [of b] by simp
    qed (use Cons in simp)
  qed simp
  then show "uval (skip_lead NEGATIVE bt) - 256 ^ length (skip_lead NEGATIVE bt) = uval bt - 256 ^ length bt"
    "skip_lead NEGATIVE bt = [] \<or> uint (hd (skip_lead NEGATIVE bt)) < 255" by blast+
qed

lemma skip_length: "length (skip_lead s bt) \<le> length bt"
  by (induction bt) simp_all

text \<open>The array that the bytes are put into.\<close>

lemma decode_array:
  assumes "length bt \<le> 2 ^ 31"
  defines "L \<equiv> RoundupSize (BytesToWords (length bt))"
  defines "R \<equiv> put_bytes bt (SetWords 0 L)"
  shows "length R = L" and "val R = uval bt" and "length bt \<le> L * 8" and "\<exists>k. L = 2 ^ Suc k"
    and "val (fold (\<lambda>i. or_byte i 0xff) [length bt..<length R * 8] R) = uval bt + W ^ L - 256 ^ length bt"
    and "length (fold (\<lambda>i. or_byte i 0xff) [length bt..<length R * 8] R) = L"
proof -
  have "BytesToWords (length bt) \<le> 2 ^ 32" using assms(1) by (simp add: BytesToWords_def)
  note r = RoundupSize_bounds [OF this, folded L_def]
  have "length bt \<le> BytesToWords (length bt) * 8" by (simp add: BytesToWords_def)
  then show l: "length bt \<le> L * 8" using r(1) by (meson mult_le_mono1 order.trans)
  show "\<exists>k. L = 2 ^ Suc k" by (rule r(2))
  have z: "getb (SetWords 0 L) j = 0" if "j < length (SetWords 0 L) * 8" for j using that by (simp add: getb_def SetWords_def)
  have l0: "length bt \<le> length (SetWords 0 L) * 8" using l by simp
  note p = put_bytes_ok [OF l0 z, folded R_def]
  show lR: "length R = L" "val R = uval bt" using p by simp_all
  have "length bt \<le> length R * 8" using l lR by simp
  moreover have "getb R j = 0" if "length bt \<le> j" "j < length R * 8" for j using p that lR by simp
  ultimately show "val (fold (\<lambda>i. or_byte i 0xff) [length bt..<length R * 8] R) = uval bt + W ^ L - 256 ^ length bt"
    "length (fold (\<lambda>i. or_byte i 0xff) [length bt..<length R * 8] R) = L"
    using fill_ok [of "length bt" R] lR by simp_all
qed

definition full_power :: "int \<Rightarrow> bool" where
  "full_power v \<longleftrightarrow> (\<exists>k. v = - (W ^ (2 ^ Suc k)))"

lemma decode_negative:
  assumes "length bt \<le> 2 ^ 31" and "bt = [] \<or> uint (hd bt) < 255"
  defines "L \<equiv> RoundupSize (BytesToWords (length bt))"
  shows "(256 ^ length bt - uval bt) mod W ^ L = (if full_power (uval bt - 256 ^ length bt) then 0 else 256 ^ length bt - uval bt)"
proof -
  note a = decode_array [OF assms(1), folded L_def]
  define n where "n = length bt"
  have le: "(256::int) ^ n \<le> W ^ L" unfolding W_bytes_8 using a(3) by (intro power_increasing) (simp_all add: n_def)
  note u = uval_range [of bt, folded n_def]
  show ?thesis
  proof (cases "uval bt = 0 \<and> 256 ^ n = W ^ L")
    case True
    then have "full_power (uval bt - 256 ^ n)" using a(4) by (auto simp: full_power_def)
    then show ?thesis using True by (simp add: n_def)
  next
    case False
    then have lt: "256 ^ n - uval bt < W ^ L" using le u(1) by linarith
    have "\<not> full_power (uval bt - 256 ^ n)"
    proof
      assume "full_power (uval bt - 256 ^ n)"
      then obtain k where "uval bt - 256 ^ n = - (W ^ (2 ^ Suc k))" unfolding full_power_def by blast
      then have k: "256 ^ n - uval bt = W ^ (2 ^ Suc k)" by linarith
      define K :: nat where "K = 2 ^ Suc k"
      have K: "256 ^ n - uval bt = 256 ^ (K * 8)" using k unfolding W_bytes_8 K_def .
      show False
      proof (cases bt)
        case Nil
        then have "(256::int) ^ 0 = 256 ^ (K * 8)" using K by (simp add: n_def)
        then have "0 = K * 8" by (rule power_inject_exp [THEN iffD1, rotated]) simp
        then show False by (simp add: K_def)
      next
        case (Cons b bs)
        then have n1: "n = Suc (length bs)" by (simp add: n_def)
        have "uint b \<le> 254" using assms(2) Cons by simp
        then have "uint b * 256 ^ length bs \<le> 254 * 256 ^ length bs" by (intro mult_right_mono) simp_all
        then have "uval bt < 255 * 256 ^ length bs" using uval_range(2) [of bs] unfolding Cons uval.simps by linarith
        then have "(256::int) ^ length bs < 256 ^ (K * 8)" unfolding K [symmetric] n1 by simp
        then have "length bs < K * 8" by (rule power_less_imp_less_exp [rotated]) simp
        moreover have "(256::int) ^ (K * 8) \<le> 256 ^ n" using u(1) unfolding K [symmetric] by simp
        then have "K * 8 \<le> n" by (rule power_le_imp_le_exp [rotated]) simp
        ultimately have nK: "n = K * 8" using n1 by linarith
        then have "uval bt = 0" using K by simp
        moreover have "L = K"
        proof -
          have "BytesToWords (length bt) = K" using nK by (simp add: BytesToWords_def n_def)
          moreover have "K \<le> 2 ^ 32" using nK assms(1) by (simp add: n_def)
          ultimately show ?thesis unfolding L_def K_def by (simp only: RoundupSize_power)
        qed
        ultimately show False using False nK by (simp add: W_bytes_8)
      qed
    qed
    then show ?thesis using lt u by (simp add: n_def)
  qed
qed

lemma Decode_ok:
  assumes "length bt \<le> 2 ^ 31" and "bt \<noteq> []"
  shows "ival (Integer_Decode u bt UNSIGNED) = uval bt"
    and "ival (Integer_Decode u bt SIGNED) = (if full_power (sval bt) then 0 else sval bt)"
    and "wf (Integer_Decode u bt UNSIGNED)"
    and "wf (Integer_Decode u bt SIGNED) \<longleftrightarrow> \<not> full_power (sval bt)"
    and "sign (Integer_Decode u bt SIGNED) = (if sval bt < 0 then NEGATIVE else POSITIVE)"
proof -
  obtain c cs where bt: "bt = c # cs" using assms(2) by (cases bt) simp_all
  have pos: "ival \<lparr>reg = put_bytes (skip_lead POSITIVE bt) (SetWords 0 (RoundupSize (BytesToWords (length (skip_lead POSITIVE bt))))), sign = POSITIVE\<rparr> = uval bt \<and>
      wf \<lparr>reg = put_bytes (skip_lead POSITIVE bt) (SetWords 0 (RoundupSize (BytesToWords (length (skip_lead POSITIVE bt))))), sign = POSITIVE\<rparr>"
  proof -
    have "length (skip_lead POSITIVE bt) \<le> 2 ^ 31" using skip_length [of POSITIVE bt] assms(1) by linarith
    note a = decode_array [OF this]
    show ?thesis using a(1,2,4) skip_positive [of bt] by (simp add: wf_def)
  qed
  have U: "Integer_Decode u bt UNSIGNED =
      \<lparr>reg = put_bytes (skip_lead POSITIVE bt) (SetWords 0 (RoundupSize (BytesToWords (length (skip_lead POSITIVE bt))))), sign = POSITIVE\<rparr>"
    by (simp add: Integer_Decode_def Let_def)
  show "ival (Integer_Decode u bt UNSIGNED) = uval bt" "wf (Integer_Decode u bt UNSIGNED)" using pos unfolding U by blast+
  have all: "ival (Integer_Decode u bt SIGNED) = (if full_power (sval bt) then 0 else sval bt) \<and>
      (wf (Integer_Decode u bt SIGNED) \<longleftrightarrow> \<not> full_power (sval bt)) \<and> sign (Integer_Decode u bt SIGNED) = (if sval bt < 0 then NEGATIVE else POSITIVE)"
  proof (cases "c AND 0x80 = 0")
    case True
    then have s: "sval bt = uval bt" by (simp add: sval_def bt)
    have nf: "\<not> full_power (sval bt)"
    proof
      assume "full_power (sval bt)"
      then obtain k where "sval bt = - (W ^ 2 ^ Suc k)" by (auto simp: full_power_def)
      moreover have "0 < W ^ 2 ^ Suc k" by simp
      ultimately show False using uval_range(1) [of bt] s by linarith
    qed
    have "Integer_Decode u bt SIGNED = Integer_Decode u bt UNSIGNED" using True unfolding U by (simp add: Integer_Decode_def Let_def bt)
    then show ?thesis using pos s nf uval_range(1) [of bt] unfolding U by simp
  next
    case False
    define bs where "bs = skip_lead NEGATIVE bt"
    define n where "n = length bs"
    define L where "L = RoundupSize (BytesToWords n)"
    define R where "R = put_bytes bs (SetWords 0 L)"
    define F where "F = fold (\<lambda>i. or_byte i 0xff) [n..<length R * 8] R"
    have len: "length bs \<le> 2 ^ 31" using skip_length [of NEGATIVE bt] assms(1) by (simp add: bs_def)
    note a = decode_array [OF len, folded n_def, folded L_def, folded R_def, folded F_def]
    have s: "sval bt = uval bs - 256 ^ n" using False skip_negative(1) [of bt] by (simp add: sval_def bt bs_def n_def)
    have sneg: "sval bt < 0" using uval_range(2) [of bs] unfolding s n_def by simp
    have D: "Integer_Decode u bt SIGNED = \<lparr>reg = TwosComplement F, sign = NEGATIVE\<rparr>"
      using False unfolding F_def R_def L_def n_def bs_def by (simp add: Integer_Decode_def Let_def bt)
    have ne: "F \<noteq> []" using a(4,6) by auto
    note t = TwosComplement_val [OF ne]
    have "(- val F) mod W ^ length F = (256 ^ n - uval bs) mod W ^ L"
    proof -
      have "- val F = (256 ^ n - uval bs) + W ^ L * (- 1)" using a(5) by simp
      then show ?thesis unfolding a(6) by (metis mod_mult_self2)
    qed
    also have "\<dots> = (if full_power (sval bt) then 0 else - sval bt)"
      using decode_negative [OF len] skip_negative(2) [of bt] unfolding s L_def n_def bs_def [symmetric] by simp
    finally have v: "val (TwosComplement F) = (if full_power (sval bt) then 0 else - sval bt)" using t(2) by simp
    then have "ival (Integer_Decode u bt SIGNED) = (if full_power (sval bt) then 0 else sval bt)" unfolding D by simp
    moreover have "wf (Integer_Decode u bt SIGNED) \<longleftrightarrow> \<not> full_power (sval bt)"
      unfolding D wf_def using v t(1) a(4,6) sneg by simp
    ultimately show ?thesis unfolding D using sneg by simp
  qed
  then show "ival (Integer_Decode u bt SIGNED) = (if full_power (sval bt) then 0 else sval bt)"
    "wf (Integer_Decode u bt SIGNED) \<longleftrightarrow> \<not> full_power (sval bt)"
    "sign (Integer_Decode u bt SIGNED) = (if sval bt < 0 then NEGATIVE else POSITIVE)" by blast+
qed

section \<open>Encoding\<close>

lemma pow_256: "(2::int) ^ (k * 8) = 256 ^ k"
proof -
  have "(2::int) ^ (8 * k) = (2 ^ 8) ^ k" by (rule power_mult)
  then show ?thesis by (simp add: mult.commute)
qed

lemma BytePrecision_ok:
  assumes "v \<noteq> 0"
  shows "0 < BytePrecision v" and "uint v < 256 ^ BytePrecision v" and "256 ^ (BytePrecision v - 1) \<le> uint v" and "BytePrecision v \<le> 8"
proof -
  have loop: "uint v < 256 ^ i \<Longrightarrow> 0 < byte_precision_loop v i \<and> byte_precision_loop v i \<le> i \<and>
      uint v < 256 ^ byte_precision_loop v i \<and> 256 ^ (byte_precision_loop v i - 1) \<le> uint v" for i
  proof (induction i)
    case 0
    then show ?case using assms uint_W(1) [of v] by (metis less_one linorder_not_less order_le_less power_0 uint_0_iff int_one_le_iff_zero_less)
  next
    case (Suc i)
    have "uint (drop_bit (i * 8) v) = uint v div 256 ^ i"
      unfolding uint_drop_word pow_256 ..
    then have d: "drop_bit (i * 8) v = 0 \<longleftrightarrow> uint v div 256 ^ i = 0" by (metis uint_0_iff)
    show ?case
    proof (cases "uint v div 256 ^ i = 0")
      case True
      then have "uint v < 256 ^ i" using zero_less_power [of "256 :: int" i] by (auto simp: zdiv_eq_0_iff)
      then show ?thesis using Suc.IH d True by auto
    next
      case False
      then have "256 ^ i \<le> uint v" using uint_W(1) [of v] by (simp add: zdiv_eq_0_iff not_less)
      then show ?thesis using Suc.prems d False by simp
    qed
  qed
  have "uint v < 256 ^ 8" using uint_W(2) [of v] by (simp add: W_def)
  from loop [OF this] show "0 < BytePrecision v" "uint v < 256 ^ BytePrecision v" "256 ^ (BytePrecision v - 1) \<le> uint v" "BytePrecision v \<le> 8"
    unfolding BytePrecision_def by blast+
qed

lemma ByteCount_ok:
  shows "val (reg x) < 256 ^ ByteCount x" and "val (reg x) \<noteq> 0 \<Longrightarrow> 256 ^ (ByteCount x - 1) \<le> val (reg x) \<and> 0 < ByteCount x"
    and "ByteCount x \<le> length (reg x) * 8"
proof -
  have "val (reg x) < 256 ^ ByteCount x \<and> (val (reg x) \<noteq> 0 \<longrightarrow> 256 ^ (ByteCount x - 1) \<le> val (reg x) \<and> 0 < ByteCount x) \<and>
      ByteCount x \<le> length (reg x) * 8"
  proof (cases "WordCount x = 0")
    case True
    then show ?thesis using WordCount_0 [of x] by (simp add: ByteCount_def)
  next
    case False
    define n where "n = WordCount x - 1"
    have n: "WordCount x = Suc n" using False by (simp add: n_def)
    define t where "t = reg x ! n"
    have t0: "t \<noteq> 0" using WordCount_ok(5) [OF False] by (simp add: t_def n_def)
    note p = BytePrecision_ok [OF t0]
    have c: "ByteCount x = n * 8 + BytePrecision t" by (simp add: ByteCount_def n t_def)
    have l: "n < length (reg x)" using WordCount_ok(1) [of x] n by simp
    have v: "val (reg x) = val (take n (reg x)) + W ^ n * uint t"
      using val_take_nth [OF l] WordCount_ok(2) [of x] unfolding n t_def by simp
    have tk: "0 \<le> val (take n (reg x))" "val (take n (reg x)) < W ^ n" using val_less [of "take n (reg x)"] l by simp_all
    have "W ^ n * (uint t + 1) \<le> W ^ n * 256 ^ BytePrecision t" using p(2) by (intro mult_left_mono) simp_all
    then have up: "val (reg x) < 256 ^ ByteCount x" using v tk(2) unfolding c power_add W_bytes_8 [symmetric] by (simp add: distrib_left)
    have "W ^ n * 256 ^ (BytePrecision t - 1) \<le> W ^ n * uint t" using p(3) by (intro mult_left_mono) simp_all
    moreover have "(256::int) ^ (ByteCount x - 1) = W ^ n * 256 ^ (BytePrecision t - 1)"
    proof -
      have "ByteCount x - 1 = n * 8 + (BytePrecision t - 1)" using p(1) c by simp
      then show ?thesis by (simp only: power_add W_bytes_8)
    qed
    ultimately have "256 ^ (ByteCount x - 1) \<le> val (reg x)" using v tk(1) by linarith
    then show ?thesis using up p(1,4) c l by simp
  qed
  then show "val (reg x) < 256 ^ ByteCount x" "val (reg x) \<noteq> 0 \<Longrightarrow> 256 ^ (ByteCount x - 1) \<le> val (reg x) \<and> 0 < ByteCount x"
    "ByteCount x \<le> length (reg x) * 8" by blast+
qed

lemma encode_list: "map (\<lambda>i. GetByte x (i - 1)) (rev [1..<n + 1]) = map (GetByte x) (rev [0..<n])"
  "map (\<lambda>i. GetByte x (n - i - 1)) [0..<n] = map (GetByte x) (rev [0..<n])"
proof -
  have "[1..<n + 1] = map Suc [0..<n]" by (simp add: map_Suc_upt)
  then show "map (\<lambda>i. GetByte x (i - 1)) (rev [1..<n + 1]) = map (GetByte x) (rev [0..<n])" by (simp add: rev_map)
  show "map (\<lambda>i. GetByte x (n - i - 1)) [0..<n] = map (GetByte x) (rev [0..<n])" by (rule nth_equalityI) (simp_all add: rev_nth)
qed

lemma uval_GetByte: "uval (map (GetByte x) (rev [0..<n])) = val (reg x) mod 256 ^ n"
  by (rule uval_bytes) (rule GetByte_val)

text \<open>The bytes are the number modulo a power of 256, for every sign and every length.\<close>

lemma Encode_ok:
  assumes "wf x" and "length (reg x) \<le> 2 ^ 24" and "n \<le> 2 ^ 27 + 2"
  shows "length (Integer_Encode x n s) = n"
    and "s = SIGNED \<or> 0 \<le> ival x \<Longrightarrow> uval (Integer_Encode x n s) = ival x mod 256 ^ n"
proof -
  show "length (Integer_Encode x n s) = n" by (simp add: Integer_Encode_def Let_def)
  assume s: "s = SIGNED \<or> 0 \<le> ival x"
  show "uval (Integer_Encode x n s) = ival x mod 256 ^ n"
  proof (cases "NotNegative x")
    case True
    then show ?thesis using negative_ival(2) [OF True] unfolding Integer_Encode_def encode_list by (simp add: uval_GetByte)
  next
    case False
    then have "s = SIGNED" using s ival_sign(2) [OF assms(1)] by simp
    then have E: "Integer_Encode x n s = map (GetByte (Plus (Power2 (8 * max (ByteCount x) n)) x)) (rev [0..<n])"
      using False unfolding Integer_Encode_def encode_list by simp
    define M where "M = max (ByteCount x) n"
    have "ByteCount x \<le> 2 ^ 24 * 8" using ByteCount_ok(3) [of x] assms(2) by simp
    then have M: "M \<le> 2 ^ 27 + 2" using assms(3) by (simp add: M_def)
    then have e: "8 * M \<le> 2 ^ 31" by simp
    note p = Power2_ok [OF e]
    have "8 * M div 64 + 1 \<le> 2 ^ 25" using M by simp
    moreover from this have "8 * M div 64 + 1 \<le> 2 ^ 32" by simp
    ultimately have "length (reg (Power2 (8 * M))) \<le> 2 ^ 28" using RoundupSize_bounds(3) [of "8 * M div 64 + 1"] unfolding p(3) by simp
    then have sp: "small (Power2 (8 * M))" "small x" using assms(2) by (simp_all add: small_def)
    note plus = Plus_ok [OF p(1) assms(1) sp]
    have pw: "(2::int) ^ (8 * M) = 256 ^ M" by (simp add: power_mult)
    have "\<bar>ival x\<bar> < 256 ^ ByteCount x" using ByteCount_ok(1) [of x] by (simp only: ival_abs)
    also have "(256::int) ^ ByteCount x \<le> 256 ^ M" by (intro power_increasing) (simp_all add: M_def)
    finally have "0 \<le> 256 ^ M + ival x" by linarith
    then have v: "val (reg (Plus (Power2 (8 * M)) x)) = 256 ^ M + ival x" using ival_abs [of "Plus (Power2 (8 * M)) x"] plus(2) p(2) pw by simp
    have "(256::int) ^ M = 256 ^ n * 256 ^ (M - n)" by (simp add: M_def flip: power_add)
    then have "(256 ^ M + ival x) mod 256 ^ n = ival x mod 256 ^ n" by simp
    then show ?thesis unfolding E M_def [symmetric] uval_GetByte v .
  qed
qed

text \<open>The number of bytes is enough for the sign.\<close>

lemma MinEncodedSize_ok:
  assumes "wf x" and "length (reg x) \<le> 2 ^ 24"
  defines "n \<equiv> MinEncodedSize x SIGNED"
  shows "0 < n" and "n \<le> 2 ^ 27 + 2" and "2 * \<bar>ival x\<bar> \<le> 256 ^ n" and "0 \<le> ival x \<Longrightarrow> 2 * ival x < 256 ^ n"
    and "MinEncodedSize x UNSIGNED \<le> 2 ^ 27" and "\<bar>ival x\<bar> < 256 ^ MinEncodedSize x UNSIGNED" and "0 < MinEncodedSize x UNSIGNED"
proof -
  define l where "l = max 1 (ByteCount x)"
  have "ByteCount x \<le> 2 ^ 24 * 8" using ByteCount_ok(3) [of x] assms(2) by simp
  then have l: "0 < l" "l \<le> 2 ^ 27" by (simp_all add: l_def)
  have U: "MinEncodedSize x UNSIGNED = l" by (simp add: MinEncodedSize_def Let_def l_def)
  then show "MinEncodedSize x UNSIGNED \<le> 2 ^ 27" "0 < MinEncodedSize x UNSIGNED" using l by simp_all
  have a: "\<bar>ival x\<bar> < 256 ^ l"
  proof -
    have "\<bar>ival x\<bar> < 256 ^ ByteCount x" using ByteCount_ok(1) [of x] by (simp only: ival_abs)
    also have "(256::int) ^ ByteCount x \<le> 256 ^ l" by (intro power_increasing) (simp_all add: l_def)
    finally show ?thesis .
  qed
  then show "\<bar>ival x\<bar> < 256 ^ MinEncodedSize x UNSIGNED" unfolding U .
  have p2: "2 * (2::int) ^ (k * 8 - 1) = 256 ^ k" if "0 < k" for k
  proof -
    have "2 * (2::int) ^ (k * 8 - 1) = 2 ^ (k * 8)" using that by (simp flip: power_Suc)
    then show ?thesis by (simp only: pow_256)
  qed
  have cmp: "Integer_Compare x (Minus_unary (Power2 (k * 8 - 1))) < 0 \<longleftrightarrow> ival x < - (2 ^ (k * 8 - 1))" if "k \<le> 2 ^ 27 + 1" for k
  proof -
    have e: "k * 8 - 1 \<le> 2 ^ 31" using that by simp
    note p = Power2_ok [OF e]
    have "(k * 8 - 1) div 64 + 1 \<le> 2 ^ 26" using that by simp
    moreover from this have "(k * 8 - 1) div 64 + 1 \<le> 2 ^ 32" by simp
    ultimately have "length (reg (Power2 (k * 8 - 1))) \<le> 2 ^ 32" using RoundupSize_bounds(3) [of "(k * 8 - 1) div 64 + 1"] unfolding p(3) by simp
    note c = Integer_copy_ok [OF p(1) this]
    have "wf (Minus_unary (Power2 (k * 8 - 1)))" "ival (Minus_unary (Power2 (k * 8 - 1))) = - (2 ^ (k * 8 - 1))"
      using Negate_ok [OF c(1)] c(2) p(2) by (simp_all add: Minus_unary_def)
    then show ?thesis using Integer_Compare_ok [OF assms(1), of "Minus_unary (Power2 (k * 8 - 1))"] by simp
  qed
  have n: "n = (if NotNegative x then (if GetByte x (l - 1) AND 0x80 \<noteq> 0 then l + 1 else l)
      else if ival x < - (2 ^ (l * 8 - 1)) then l + 1 else l)"
    using cmp [of l] l unfolding n_def MinEncodedSize_def Let_def l_def [symmetric] by (simp add: NotNegative_def)
  have pl: "(0::int) < 256 ^ l" by simp
  have grow: "256 ^ (l + 1) = 256 * (256::int) ^ l" by simp
  show "0 < n" "n \<le> 2 ^ 27 + 2" using l unfolding n by simp_all
  have "2 * \<bar>ival x\<bar> \<le> 256 ^ n \<and> (0 \<le> ival x \<longrightarrow> 2 * ival x < 256 ^ n)"
  proof (cases "NotNegative x")
    case True
    then have nn: "0 \<le> ival x" "ival x = val (reg x)" using ival_sign(2) [OF assms(1)] negative_ival(2) by simp_all
    show ?thesis
    proof (cases "GetByte x (l - 1) AND 0x80 \<noteq> 0")
      case True
      then have "n = l + 1" using \<open>NotNegative x\<close> unfolding n by simp
      then show ?thesis using a nn pl unfolding \<open>n = l + 1\<close> grow by (intro conjI impI; linarith)
    next
      case False
      then have nl: "n = l" using \<open>NotNegative x\<close> unfolding n by simp
      have lt: "uint (GetByte x (l - 1)) < 128" using False high_bit by simp
      obtain m where m: "l = Suc m" using l(1) by (cases l) simp_all
      have p: "(0::int) < 256 ^ m" by simp
      have "val (reg x) < 256 ^ m * 256" using a nn unfolding m by (simp add: mult.commute)
      then have "val (reg x) div 256 ^ m < 256" using p by (simp add: div_int_less)
      moreover have "0 \<le> val (reg x) div 256 ^ m" by (simp add: pos_imp_zdiv_nonneg_iff)
      ultimately have "val (reg x) div 256 ^ m < 128" using lt unfolding GetByte_val m by simp
      then have "val (reg x) div 256 ^ m + 1 \<le> 128" by simp
      then have "256 ^ m * (val (reg x) div 256 ^ m + 1) \<le> 256 ^ m * 128" by (intro mult_left_mono) simp_all
      moreover have "val (reg x) < 256 ^ m * (val (reg x) div 256 ^ m + 1)"
        using pos_mod_bound [OF p, of "val (reg x)"] mult_div_mod_eq [of "256 ^ m" "val (reg x)"] unfolding distrib_left by linarith
      ultimately have "val (reg x) < 256 ^ m * 128" by (rule less_le_trans [rotated])
      then have "2 * val (reg x) < 256 ^ l" unfolding m by simp
      then show ?thesis unfolding nl nn(2) by simp
    qed
  next
    case False
    then have neg: "ival x < 0" using ival_sign(2) [OF assms(1)] by simp
    show ?thesis
    proof (cases "ival x < - (2 ^ (l * 8 - 1))")
      case True
      then have "n = l + 1" using False unfolding n by simp
      then show ?thesis using a neg pl unfolding \<open>n = l + 1\<close> grow by (intro conjI impI; linarith)
    next
      case ge: False
      then have nl: "n = l" using False unfolding n by simp
      then show ?thesis using ge neg p2 [OF l(1)] unfolding nl by linarith
    qed
  qed
  then show "2 * \<bar>ival x\<bar> \<le> 256 ^ n" "0 \<le> ival x \<Longrightarrow> 2 * ival x < 256 ^ n" by blast+
qed

section \<open>The laws\<close>

lemma sval_unique:
  assumes "bs \<noteq> []" and "uval bs = v mod 256 ^ length bs" and "2 * \<bar>v\<bar> \<le> 256 ^ length bs" and "0 \<le> v \<Longrightarrow> 2 * v < 256 ^ length bs"
  shows "sval bs = v"
proof -
  obtain b cs where bs: "bs = b # cs" using assms(1) by (cases bs) simp_all
  define P :: int where "P = 256 ^ length cs"
  have P: "0 < P" "256 ^ length bs = 256 * P" by (simp_all add: P_def bs)
  have r: "0 \<le> uval cs" "uval cs < P" using uval_range [of cs] by (simp_all add: P_def)
  have u: "uval bs = uint b * P + uval cs" by (simp add: bs P_def)
  have top: "128 \<le> uint b \<longleftrightarrow> 128 * P \<le> uval bs"
  proof
    assume "128 \<le> uint b"
    then have "128 * P \<le> uint b * P" using P(1) by (intro mult_right_mono) simp_all
    then show "128 * P \<le> uval bs" using r(1) unfolding u by linarith
  next
    assume ge: "128 * P \<le> uval bs"
    show "128 \<le> uint b"
    proof (rule ccontr)
      assume "\<not> 128 \<le> uint b"
      then have "uint b * P \<le> 127 * P" using P(1) by (intro mult_right_mono) simp_all
      then show False using ge r(2) unfolding u by linarith
    qed
  qed
  have s: "sval bs = (if 128 * P \<le> uval bs then uval bs - 256 * P else uval bs)"
    unfolding sval_def using top high_bit [of b] P(2) by (simp add: bs)
  show ?thesis
  proof (cases "0 \<le> v")
    case True
    then have "v < 128 * P" using assms(4) P by simp
    moreover from this have "uval bs = v" unfolding assms(2) P(2) using True P(1) by (intro mod_pos_pos_trivial) simp_all
    ultimately show ?thesis unfolding s by simp
  next
    case False
    then have "- (128 * P) \<le> v" using assms(3) P by simp
    moreover have "uval bs = v + 256 * P"
    proof -
      have "v mod (256 * P) = (v + 256 * P) mod (256 * P)" by simp
      also have "\<dots> = v + 256 * P" using False calculation P(1) \<open>- (128 * P) \<le> v\<close> by (intro mod_pos_pos_trivial) simp_all
      finally show ?thesis unfolding assms(2) P(2) .
    qed
    ultimately show ?thesis unfolding s by simp
  qed
qed

text \<open>C23: Decoding: a byte string without sign gives its value; one with a sign gives the number that it is in
  two's complement, except for the numbers \<open>- W ^ (2 ^ (k + 1))\<close> (a sign byte, or several, before as many
  zero bytes as fill the array): there the complement of the array is zero, and the result is a zero
  with the sign NEGATIVE, which is no well-formed object.\<close>

theorem integer_decode:
  assumes "bs \<noteq> []" and "length bs \<le> 2 ^ 31"
  shows "wf (Integer_Decode u bs UNSIGNED) \<and> ival (Integer_Decode u bs UNSIGNED) = uval bs \<and>
    (if \<exists>k. sval bs = - (W ^ (2 ^ Suc k))
     then \<not> wf (Integer_Decode u bs SIGNED) \<and> ival (Integer_Decode u bs SIGNED) = 0 \<and> IsNegative (Integer_Decode u bs SIGNED)
     else wf (Integer_Decode u bs SIGNED) \<and> ival (Integer_Decode u bs SIGNED) = sval bs)"
proof -
  note d = Decode_ok [OF assms(2,1), of u]
  have neg: "full_power (sval bs) \<Longrightarrow> sval bs < 0"
  proof -
    assume "full_power (sval bs)"
    then obtain k where "sval bs = - (W ^ 2 ^ Suc k)" unfolding full_power_def by blast
    moreover have "0 < W ^ 2 ^ Suc k" by simp
    ultimately show "sval bs < 0" by linarith
  qed
  show ?thesis
    unfolding full_power_def [symmetric] using d neg by (auto simp: IsNegative_def)
qed

theorem integer_decode_witness:
  "wf (Integer_Decode 0 (255 # replicate 16 0) UNSIGNED) \<and> ival (Integer_Decode 0 (255 # replicate 16 0) UNSIGNED) = uval (255 # replicate 16 0) \<and>
    (if \<exists>k. sval (255 # replicate 16 0) = - (W ^ (2 ^ Suc k))
     then \<not> wf (Integer_Decode 0 (255 # replicate 16 0) SIGNED) \<and> ival (Integer_Decode 0 (255 # replicate 16 0) SIGNED) = 0 \<and>
       IsNegative (Integer_Decode 0 (255 # replicate 16 0) SIGNED)
     else wf (Integer_Decode 0 (255 # replicate 16 0) SIGNED) \<and> ival (Integer_Decode 0 (255 # replicate 16 0) SIGNED) = sval (255 # replicate 16 0))"
  by (rule integer_decode) simp_all

text \<open>C17: Encoding in \<open>MinEncodedSize\<close> bytes and decoding gives the number back: without sign for the numbers
  that are not negative, in two's complement for all but the numbers \<open>- W ^ (2 ^ (k + 1))\<close>, which come
  back as zero.\<close>

theorem integer_codec_roundtrip:
  assumes "wf x" and "length (reg x) \<le> 2 ^ 24"
  shows "(0 \<le> ival x \<longrightarrow> ival (Integer_Decode u (Integer_Encode x (MinEncodedSize x UNSIGNED) UNSIGNED) UNSIGNED) = ival x) \<and>
    ival (Integer_Decode u (Integer_Encode x (MinEncodedSize x SIGNED) SIGNED) SIGNED) =
      (if \<exists>k. ival x = - (W ^ (2 ^ Suc k)) then 0 else ival x)"
proof -
  note l24 = assms(2)
  note m = MinEncodedSize_ok [OF assms]
  let ?n = "MinEncodedSize x SIGNED" and ?k = "MinEncodedSize x UNSIGNED"
  have k27: "?k \<le> 2 ^ 27 + 2" using m(5) by simp
  have n31: "?n \<le> 2 ^ 31" "?k \<le> 2 ^ 31" using m(2,5) by simp_all
  note e = Encode_ok [OF assms(1) l24 m(2), of SIGNED] and f = Encode_ok [OF assms(1) l24 k27, of UNSIGNED]
  have ne: "Integer_Encode x ?n SIGNED \<noteq> []" "Integer_Encode x ?k UNSIGNED \<noteq> []" using e(1) f(1) m(1,7) by fastforce+
  have s: "sval (Integer_Encode x ?n SIGNED) = ival x"
    using e m(3,4) by (intro sval_unique [OF ne(1)]) simp_all
  have U: "uval (Integer_Encode x ?k UNSIGNED) = ival x" if "0 \<le> ival x"
    using f(2) that m(6) by simp
  show ?thesis
    using Decode_ok(2) [OF _ ne(1), of u] Decode_ok(1) [OF _ ne(2), of u] e(1) f(1) n31 s U by (simp add: full_power_def)
qed

theorem integer_codec_roundtrip_witness:
  "ival (Integer_Decode 0 (Integer_Encode \<lparr>reg = [7, 0, 1, 0], sign = POSITIVE\<rparr> (MinEncodedSize \<lparr>reg = [7, 0, 1, 0], sign = POSITIVE\<rparr> UNSIGNED) UNSIGNED) UNSIGNED) = ival \<lparr>reg = [7, 0, 1, 0], sign = POSITIVE\<rparr> \<and>
    ival (Integer_Decode 0 (Integer_Encode \<lparr>reg = [7, 0, 1, 0], sign = POSITIVE\<rparr> (MinEncodedSize \<lparr>reg = [7, 0, 1, 0], sign = POSITIVE\<rparr> SIGNED) SIGNED) SIGNED) = ival \<lparr>reg = [7, 0, 1, 0], sign = POSITIVE\<rparr>"
proof -
  have "wf \<lparr>reg = [7, 0, 1, 0], sign = POSITIVE\<rparr>" "length (reg \<lparr>reg = [7, 0, 1, 0], sign = POSITIVE\<rparr>) \<le> 2 ^ 24" by (simp_all add: wf_def pow_4)
  note t = integer_codec_roundtrip [OF this, of 0]
  have p: "0 \<le> ival \<lparr>reg = [7, 0, 1, 0], sign = POSITIVE\<rparr>" by simp
  then have "\<not> (\<exists>k. ival \<lparr>reg = [7, 0, 1, 0], sign = POSITIVE\<rparr> = - (W ^ (2 ^ Suc k)))" by (metis W_pos zero_less_power neg_less_0_iff_less not_less)
  then show ?thesis using t p by (simp only: if_False simp_thms)
qed

end
