(* ===== verification/CPP_Inverse.thy ===== *)
theory CPP_Inverse
  imports CPP_Numbers
begin

text \<open>
  Inverses modulo an integer, \<^verbatim>\<open>src/src/utils/lib/CryptoPP.cc\<close>: the word routine \<open>AlmostInverse\<close>, which finds
  the inverse up to a power of two, \<open>Integer::InverseMod\<close> and \<open>Integer::Gcd\<close>. The four arrays of
  \<open>AlmostInverse\<close> are lists of \<open>N\<close> words; an array is written up to a length that the code keeps beside it.
\<close>

section \<open>The operations\<close>

text \<open>\<open>while (!t)\<close>: the outer \<open>None\<close> is a failed assertion, the inner one the return with no inverse.\<close>

partial_function (option) skip_words ::
  "nat \<Rightarrow> u64 list \<Rightarrow> nat \<Rightarrow> u64 list \<Rightarrow> nat \<Rightarrow> nat \<Rightarrow> (u64 list \<times> u64 list \<times> nat \<times> nat) option option" where
  "skip_words N f fgLen c bcLen k =
     (if f ! 0 \<noteq> 0 then Some (Some (f, c, bcLen, k))
      else if EvenWordCount f fgLen = 0 then Some None
      else
        let f = ShiftWordsRightByWords (take fgLen f) 1 @ drop fgLen f;
            bcLen = (if c ! (bcLen - 1) \<noteq> 0 then bcLen + 2 else bcLen)
        in if bcLen \<le> N then skip_words N f fgLen (ShiftWordsLeftByWords (take bcLen c) 1 @ drop bcLen c) bcLen (k + 64)
           else None)"

declare skip_words.simps [code]

text \<open>\<open>while (t%2 == 0)\<close>; the word is not zero there.\<close>

function skip_bits :: "u64 \<Rightarrow> nat \<Rightarrow> u64 \<times> nat" where
  "skip_bits t i = (if t \<noteq> 0 \<and> t mod 2 = 0 then skip_bits (drop_bit 1 t) (i + 1) else (t, i))"
  by pat_completeness auto
termination
proof (relation "measure (\<lambda>(t, i). unat t)")
  fix t :: u64 and i :: nat
  assume "t \<noteq> 0 \<and> t mod 2 = 0"
  then have "0 < unat t" by (simp add: unat_gt_0)
  then have "unat t div 2 < unat t" by simp
  then show "((drop_bit 1 t, i + 1), (t, i)) \<in> measure (\<lambda>(t, i). unat t)" by (simp add: drop_bit_Suc unat_div)
qed simp

declare skip_bits.simps [simp del]

text \<open>The end of the body: \<open>f\<close> is not below \<open>g\<close>.\<close>

definition almost_subtract ::
  "nat \<Rightarrow> u64 list \<Rightarrow> u64 list \<Rightarrow> u64 list \<Rightarrow> u64 list \<Rightarrow> nat \<Rightarrow> nat \<Rightarrow> nat \<Rightarrow>
   (u64 list \<times> u64 list \<times> u64 list \<times> u64 list \<times> nat \<times> nat \<times> nat) option" where
  "almost_subtract N b c f g bcLen fgLen s =
     (let f = fst (Subtract (take fgLen f) (take fgLen g)) @ drop fgLen f;
          (B, carry) = Add (take bcLen b) (take bcLen c);
          b = B @ drop bcLen b
      in if carry = 0 then Some (b, c, f, g, bcLen, fgLen, s)
         else if bcLen + 2 \<le> N then Some (b[bcLen := 1], c, f, g, bcLen + 2, fgLen, s)
         else None)"

text \<open>The rest of the body, from the shift by \<open>i\<close> bits on.\<close>

definition almost_step ::
  "nat \<Rightarrow> u64 list \<Rightarrow> u64 list \<Rightarrow> u64 list \<Rightarrow> u64 list \<Rightarrow> nat \<Rightarrow> nat \<Rightarrow> nat \<Rightarrow> nat \<Rightarrow>
   (u64 list \<times> u64 list \<times> u64 list \<times> u64 list \<times> nat \<times> nat \<times> nat) option" where
  "almost_step N b c f g bcLen fgLen s i =
     (let f = fst (ShiftWordsRightByBits (take fgLen f) i) @ drop fgLen f;
          (C, t) = ShiftWordsLeftByBits (take bcLen c) i;
          c = C @ drop bcLen c
      in if t \<noteq> 0 \<and> N < bcLen + 2 then None
         else
           let c = (if t \<noteq> 0 then c[bcLen := t] else c);
               bcLen = (if t \<noteq> 0 then bcLen + 2 else bcLen);
               fgLen = (if f ! (fgLen - 2) = 0 \<and> g ! (fgLen - 2) = 0 \<and> f ! (fgLen - 1) = 0 \<and> g ! (fgLen - 1) = 0
                        then fgLen - 2 else fgLen)
           in if Compare f g fgLen = -1 then almost_subtract N c b g f bcLen fgLen (s + 1)
              else almost_subtract N b c f g bcLen fgLen s)"

partial_function (option) almost_loop ::
  "nat \<Rightarrow> u64 list \<Rightarrow> u64 list \<Rightarrow> u64 list \<Rightarrow> u64 list \<Rightarrow> u64 list \<Rightarrow> nat \<Rightarrow> nat \<Rightarrow> nat \<Rightarrow> nat \<Rightarrow>
   (u64 list \<times> nat) option" where
  "almost_loop N M b c f g bcLen fgLen k s =
     do {
       r \<leftarrow> skip_words N f fgLen c bcLen k;
       case r of
         None \<Rightarrow> Some (SetWords 0 N, 0)
       | Some (f, c, bcLen, k) \<Rightarrow>
           let (t, i) = skip_bits (f ! 0) 0; k = k + i
           in if t = 1 \<and> f ! 1 = 0 \<and> EvenWordCount f fgLen = 2 then
                Some (if s mod 2 = 0 then b else fst (Subtract M b), k)
              else do {
                (b, c, f, g, bcLen, fgLen, s) \<leftarrow> almost_step N b c f g bcLen fgLen s i;
                almost_loop N M b c f g bcLen fgLen k s
              }
     }"

declare almost_loop.simps [code]

definition AlmostInverse :: "u64 list \<Rightarrow> u64 list \<Rightarrow> (u64 list \<times> nat) option" where
  "AlmostInverse A M =
     (let N = length M
      in if length A \<le> N \<and> N \<noteq> 0 \<and> N mod 2 = 0 then
           almost_loop N M (1 # SetWords 0 (N - 1)) (SetWords 0 N) (A @ SetWords 0 (N - length A)) M 2 (EvenWordCount M N) 0 0
         else None)"

definition IsOdd :: "Integer \<Rightarrow> bool" where
  "IsOdd x = GetBit x 0"

text \<open>The recursion of \<open>InverseMod\<close>: at most three calls.\<close>

partial_function (option) InverseMod_rec :: "Integer \<Rightarrow> Integer \<Rightarrow> (int_error + Integer) option" where
  "InverseMod_rec x m =
     (if \<not> NotNegative m then Some (Inl AssertionFailed)
      else if IsNegative x \<or> Integer_Compare x m \<ge> 0 then
        (case Modulo x m of Inl e \<Rightarrow> Some (Inl e) | Inr r \<Rightarrow> InverseMod_rec r m)
      else if \<not> IsOdd m then
        (if IsZero m \<or> \<not> IsOdd x then Some (Inr (Integer_copy Integer_Zero))
         else if Integer_Compare x Integer_One = 0 then Some (Inr (Integer_copy Integer_One))
         else do {
           r \<leftarrow> InverseMod_rec m x;
           case r of
             Inl e \<Rightarrow> Some (Inl e)
           | Inr u \<Rightarrow>
               if IsZero u then Some (Inr (Integer_copy Integer_Zero))
               else case Times False m (Minus x u) of
                 Inl e \<Rightarrow> Some (Inl e)
               | Inr p \<Rightarrow> Some (DividedBy (Plus p (Integer_long 1)) x)
         })
      else
        (case AlmostInverse (reg x) (reg m) of
           None \<Rightarrow> Some (Inl AssertionFailed)
         | Some (R, k) \<Rightarrow> Some (Inr \<lparr>reg = DivideByPower2Mod R k (reg m), sign = POSITIVE\<rparr>)))"

declare InverseMod_rec.simps [code]

definition InverseMod :: "Integer \<Rightarrow> Integer \<Rightarrow> (int_error + Integer) option" where
  "InverseMod x m = InverseMod_rec x m"

text \<open>\<open>AbstractEuclideanDomain::Gcd\<close> at the integers: \<open>g0\<close> and \<open>g1\<close> are the two elements of the array that
  take turns.\<close>

partial_function (option) gcd_loop :: "Integer \<Rightarrow> Integer \<Rightarrow> (int_error + Integer) option" where
  "gcd_loop g0 g1 =
     (if Integer_Compare g1 Integer_Zero = 0 then Some (Inr (Integer_copy g0))
      else case Modulo g0 g1 of
        Inl e \<Rightarrow> Some (Inl e)
      | Inr r \<Rightarrow> gcd_loop g1 (Integer_copy r))"

declare gcd_loop.simps [code]

definition Integer_Gcd :: "Integer \<Rightarrow> Integer \<Rightarrow> (int_error + Integer) option" where
  "Integer_Gcd a b = gcd_loop (Integer_copy b) (Integer_copy a)"

section \<open>The equations of the almost inverse\<close>

text \<open>\<open>\<sigma>\<close> is 1 or -1: the parity of the number of exchanges. \<open>f\<close> and \<open>g\<close> are what is left of the number and the
  modulus, \<open>b\<close> and \<open>c\<close> the coefficients.\<close>

definition almost_eqs :: "int \<Rightarrow> int \<Rightarrow> int \<Rightarrow> int \<Rightarrow> int \<Rightarrow> int \<Rightarrow> nat \<Rightarrow> int \<Rightarrow> bool" where
  "almost_eqs M A b c f g k \<sigma> \<longleftrightarrow>
     odd g \<and> 0 \<le> b \<and> 0 \<le> c \<and> 0 \<le> f \<and> 0 < g \<and> g * b + f * c = M \<and>
     M dvd A * b - \<sigma> * f * 2 ^ k \<and> M dvd A * c + \<sigma> * g * 2 ^ k \<and> gcd f g = gcd A M"

lemma gcd_power2: "odd g \<Longrightarrow> gcd (2 ^ i * f) g = gcd f g" for f g :: int
  by (metis coprime_power_left_iff coprime_commute gcd_mult_left_left_cancel coprime_left_2_iff_odd)

lemma eqs_shift:
  assumes "almost_eqs M A b c (2 ^ i * f) g k \<sigma>"
  shows "almost_eqs M A b (2 ^ i * c) f g (k + i) \<sigma>"
proof -
  have e: "odd g" "0 \<le> b" "0 \<le> c" "0 \<le> 2 ^ i * f" "0 < g" "g * b + 2 ^ i * f * c = M"
    "M dvd A * b - \<sigma> * (2 ^ i * f) * 2 ^ k" "M dvd A * c + \<sigma> * g * 2 ^ k" "gcd (2 ^ i * f) g = gcd A M"
    using assms by (simp_all add: almost_eqs_def)
  have "0 \<le> f" using e(4) by (simp add: zero_le_mult_iff)
  moreover have "g * b + f * (2 ^ i * c) = M" using e(6) by (simp add: mult_ac)
  moreover have "M dvd A * b - \<sigma> * f * 2 ^ (k + i)" using e(7) by (simp add: power_add mult_ac)
  moreover have "M dvd 2 ^ i * (A * c + \<sigma> * g * 2 ^ k)" using e(8) by (rule dvd_mult)
  then have "M dvd A * (2 ^ i * c) + \<sigma> * g * 2 ^ (k + i)" by (simp add: power_add algebra_simps)
  ultimately show ?thesis using e(1,2,3,5) e(9) [unfolded gcd_power2 [OF e(1)]] by (simp add: almost_eqs_def)
qed

lemma eqs_swap: "almost_eqs M A b c f g k \<sigma> \<Longrightarrow> odd f \<Longrightarrow> almost_eqs M A c b g f k (- \<sigma>)"
proof -
  assume e: "almost_eqs M A b c f g k \<sigma>" and f: "odd f"
  then have "f \<noteq> 0" by auto
  then have "0 < f" using e by (simp add: almost_eqs_def)
  then show ?thesis using e f by (simp add: almost_eqs_def gcd.commute add.commute)
qed

lemma eqs_subtract: "almost_eqs M A b c f g k \<sigma> \<Longrightarrow> g \<le> f \<Longrightarrow> almost_eqs M A (b + c) c (f - g) g k \<sigma>"
proof -
  assume e: "almost_eqs M A b c f g k \<sigma>" and le: "g \<le> f"
  have "M dvd A * b - \<sigma> * f * 2 ^ k" "M dvd A * c + \<sigma> * g * 2 ^ k" using e by (simp_all add: almost_eqs_def)
  from dvd_add [OF this] have "M dvd (A * b - \<sigma> * f * 2 ^ k) + (A * c + \<sigma> * g * 2 ^ k)" .
  then have "M dvd A * (b + c) - \<sigma> * (f - g) * 2 ^ k" by (simp add: algebra_simps)
  moreover have "g * (b + c) + (f - g) * c = M" using e by (simp add: almost_eqs_def algebra_simps)
  moreover have "gcd (f - g) g = gcd A M" using e by (simp add: almost_eqs_def gcd_diff1)
  ultimately show ?thesis using e le by (simp add: almost_eqs_def)
qed

section \<open>The words\<close>

lemma part_val: "n \<le> length X \<Longrightarrow> val X < W ^ n \<Longrightarrow> val (take n X) = val X \<and> val (drop n X) = 0"
proof -
  assume a: "n \<le> length X" "val X < W ^ n"
  have "val (drop n X) = 0" using a by (simp add: val_drop)
  then show ?thesis using val_take_drop [of X n] by simp
qed

lemma part_write: "n \<le> length X \<Longrightarrow> val X < W ^ n \<Longrightarrow> length F = n \<Longrightarrow>
    val (F @ drop n X) = val F \<and> length (F @ drop n X) = length X"
  using part_val [of n X] by simp

lemma part_carry: "n < length X \<Longrightarrow> val X < W ^ n \<Longrightarrow> length F = n \<Longrightarrow>
    val ((F @ drop n X)[n := t]) = val F + W ^ n * uint t \<and> length ((F @ drop n X)[n := t]) = length X"
proof -
  assume a: "n < length X" "val X < W ^ n" "length F = n"
  have d: "drop n X = X ! n # drop (Suc n) X" using a(1) by (simp add: Cons_nth_drop_Suc)
  have "val (drop n X) = 0" using part_val [of n X] a by simp
  then have "uint (X ! n) + W * val (drop (Suc n) X) = 0" unfolding d by simp
  moreover have "0 \<le> W * val (drop (Suc n) X)" "0 \<le> uint (X ! n)" using uint_W(1) by (simp_all add: W_def)
  ultimately have "W * val (drop (Suc n) X) = 0" by linarith
  then have "val (drop (Suc n) X) = 0" by (simp add: W_def)
  then have "val ((F @ drop n X)[n := t]) = val F + W ^ n * uint t" unfolding d using a(3) by (simp add: list_update_append)
  then show ?thesis using a by simp
qed

lemma EvenWordCount_ok:
  "n \<le> length X \<Longrightarrow> even n \<Longrightarrow>
   EvenWordCount X n \<le> n \<and> even (EvenWordCount X n) \<and> val (take (EvenWordCount X n) X) = val (take n X) \<and>
   (EvenWordCount X n = 0 \<or> W ^ (EvenWordCount X n - 2) \<le> val (take n X))"
proof (induction X n rule: EvenWordCount.induct)
  case (1 X n)
  show ?case
  proof (cases "n = 0")
    case True
    then show ?thesis by (subst EvenWordCount.simps, subst (2) EvenWordCount.simps, subst (3) EvenWordCount.simps, subst (4) EvenWordCount.simps) simp
  next
    case False
    then obtain m where m: "n = Suc (Suc m)" using "1.prems"(2) by (cases n; cases "n - 1") auto
    have t: "val (take n X) = val (take m X) + W ^ m * uint (X ! m) + W ^ Suc m * uint (X ! Suc m)"
      using "1.prems"(1) by (simp only: m val_take_nth)
    show ?thesis
    proof (cases "X ! m = 0 \<and> X ! Suc m = 0")
      case True
      then have e: "EvenWordCount X n = EvenWordCount X (n - 2)" by (subst EvenWordCount.simps) (simp add: m)
      have "val (take n X) = val (take m X)" unfolding t using True by simp
      then show ?thesis using "1.IH" "1.prems" True unfolding e by (simp add: m)
    next
      case nz: False
      then have e: "EvenWordCount X n = n" by (subst EvenWordCount.simps) (auto simp: m)
      have "0 < uint (X ! m) \<or> 0 < uint (X ! Suc m)" using nz uint_W(1) by (metis order_le_less uint_0_iff)
      moreover have "uint (X ! Suc m) \<le> W * uint (X ! Suc m)"
        using mult_right_mono [of 1 W "uint (X ! Suc m)"] uint_W(1) [of "X ! Suc m"] by simp
      ultimately have "1 \<le> uint (X ! m) + W * uint (X ! Suc m)"
        using uint_W(1) [of "X ! m"] uint_W(1) [of "X ! Suc m"] by (elim disjE) linarith+
      then have "W ^ m * 1 \<le> W ^ m * (uint (X ! m) + W * uint (X ! Suc m))" by (intro mult_left_mono) simp_all
      then have "W ^ m \<le> val (take n X)" unfolding t by (simp add: algebra_simps add_increasing)
      then show ?thesis unfolding e using "1.prems" by (simp add: m)
    qed
  qed
qed

text \<open>The zeros at the end of a word.\<close>

lemma skip_bits_ok: "t \<noteq> 0 \<Longrightarrow> \<exists>u j. skip_bits t i = (u, i + j) \<and> uint t = 2 ^ j * uint u \<and> odd (uint u)"
proof (induction t i rule: skip_bits.induct)
  case (1 t i)
  have m: "t mod 2 = 0 \<longleftrightarrow> even (uint t)"
    by (simp add: word_uint_eq_iff uint_mod even_iff_mod_2_eq_zero)
  show ?case
  proof (cases "t mod 2 = 0")
    case False
    then show ?thesis using m by (intro exI [of _ t] exI [of _ 0]) (subst skip_bits.simps, simp)
  next
    case True
    have d: "uint (drop_bit 1 t) = uint t div 2" by (simp add: drop_bit_Suc uint_div)
    then have e: "uint t = 2 * uint (drop_bit 1 t)" using True m by simp
    then have "drop_bit 1 t \<noteq> 0" using "1.prems" by (metis mult_zero_right uint_0_iff unsigned_0)
    from "1.IH" [OF _ this] True "1.prems" obtain u j where u: "skip_bits (drop_bit 1 t) (i + 1) = (u, i + 1 + j)"
        "uint (drop_bit 1 t) = 2 ^ j * uint u" "odd (uint u)" by blast
    have "skip_bits t i = (u, i + Suc j)" using True "1.prems" u(1) by (subst skip_bits.simps) simp
    moreover have "uint t = 2 ^ Suc j * uint u" using e u(2) by simp
    ultimately show ?thesis using u(3) by blast
  qed
qed

section \<open>The loop\<close>

text \<open>The state at the head of the loop. When nothing is left of the number, it has no inverse.\<close>

definition almost_ok :: "nat \<Rightarrow> int \<Rightarrow> int \<Rightarrow> u64 list \<Rightarrow> u64 list \<Rightarrow> u64 list \<Rightarrow> u64 list \<Rightarrow> nat \<Rightarrow> nat \<Rightarrow> nat \<Rightarrow> nat \<Rightarrow> bool" where
  "almost_ok N M A b c f g bcLen fgLen k s \<longleftrightarrow>
     length b = N \<and> length c = N \<and> length f = N \<and> length g = N \<and> even N \<and> M < W ^ N \<and>
     even bcLen \<and> 2 \<le> bcLen \<and> bcLen \<le> N \<and> even fgLen \<and> 2 \<le> fgLen \<and> fgLen \<le> N \<and>
     val b < W ^ bcLen \<and> val c < W ^ bcLen \<and> val f < W ^ fgLen \<and> val g < W ^ fgLen \<and>
     almost_eqs M A (val b) (val c) (val f) (val g) k ((- 1) ^ s) \<and> (val f = 0 \<longrightarrow> gcd A M \<noteq> 1 \<or> M = 1)"

lemma almost_okD:
  assumes "almost_ok N M A b c f g bcLen fgLen k s"
  shows "length b = N" "length c = N" "length f = N" "length g = N" "even N" "M < W ^ N"
    and "even bcLen" "2 \<le> bcLen" "bcLen \<le> N" "even fgLen" "2 \<le> fgLen" "fgLen \<le> N"
    and "val b < W ^ bcLen" "val c < W ^ bcLen" "val f < W ^ fgLen" "val g < W ^ fgLen"
    and "almost_eqs M A (val b) (val c) (val f) (val g) k ((- 1) ^ s)" "val f = 0 \<Longrightarrow> gcd A M \<noteq> 1 \<or> M = 1"
  using assms by (simp_all add: almost_ok_def)

text \<open>Lengths are even: an array that is too short for a value of at most the modulus can grow by two words.\<close>

lemma grow_even:
  assumes "W ^ n \<le> x" and "x \<le> M" and "M < W ^ N" and "even n" and "even N"
  shows "n + 2 \<le> N"
proof -
  have "W ^ n < W ^ N" using assms(1-3) by linarith
  then have "n < N" by (rule power_less_imp_less_exp [rotated]) (simp add: W_def)
  then show ?thesis using assms(4,5) by presburger
qed

lemma product_le: "g * b + f * c = M \<Longrightarrow> 0 < g \<Longrightarrow> 0 \<le> b \<Longrightarrow> 0 \<le> c \<Longrightarrow> 0 < f \<Longrightarrow> c \<le> M" for g b f c M :: int
proof -
  assume a: "g * b + f * c = M" "0 < g" "0 \<le> b" "0 \<le> c" "0 < f"
  have "1 * c \<le> f * c" using a by (intro mult_right_mono) simp_all
  moreover have "0 \<le> g * b" using a by simp
  ultimately show ?thesis using a(1) by linarith
qed

lemma low_word_0: "X \<noteq> [] \<Longrightarrow> X ! 0 = 0 \<Longrightarrow> val X = W * val (tl X)"
  by (cases X) simp_all

lemma shift_right_word: "X \<noteq> [] \<Longrightarrow> val (ShiftWordsRightByWords X 1) = val X div W \<and> length (ShiftWordsRightByWords X 1) = length X"
proof -
  assume x: "X \<noteq> []"
  then have m: "min 1 (length X) = 1" by (cases X) (simp_all add: min_def)
  have "val (drop 1 X) = val X div W" using x val_drop [of 1 X] by (cases X) simp_all
  then show ?thesis using x by (cases X) (simp_all add: ShiftWordsRightByWords_def Let_def m del: drop_Suc_Cons)
qed

lemma shift_left_word:
  assumes "0 < length X" and "X ! (length X - 1) = 0"
  shows "val (ShiftWordsLeftByWords X 1) = W * val X \<and> length (ShiftWordsLeftByWords X 1) = length X"
proof -
  let ?n = "length X - 1"
  have s: "Suc ?n = length X" using assms(1) by simp
  have "val (take (Suc ?n) X) = val (take ?n X) + W ^ ?n * uint (X ! ?n)" using s by (intro val_take_nth) simp
  then have "val (take ?n X) = val X" using assms s by simp
  moreover have "min 1 (length X) = 1" using assms(1) by (cases X) simp_all
  ultimately show ?thesis using s by (simp add: ShiftWordsLeftByWords_def Let_def)
qed

text \<open>One turn of the loop over the words that are zero.\<close>

lemma skip_word_step:
  assumes "almost_ok N M A b c f g bcLen fgLen k s" and "f ! 0 = 0" and "val f \<noteq> 0"
  defines "f' \<equiv> ShiftWordsRightByWords (take fgLen f) 1 @ drop fgLen f"
  defines "bcLen' \<equiv> if c ! (bcLen - 1) \<noteq> 0 then bcLen + 2 else bcLen"
  defines "c' \<equiv> ShiftWordsLeftByWords (take bcLen' c) 1 @ drop bcLen' c"
  shows "bcLen' \<le> N" and "almost_ok N M A b c' f' g bcLen' fgLen (k + 64) s" and "val f = W * val f'" and "val f' \<noteq> 0"
proof -
  note d = almost_okD [OF assms(1)]
  note pf = part_val [OF d(12) [folded d(3)] d(15)] and pc = part_val [OF d(9) [folded d(2)] d(14)]
  have ne: "take fgLen f \<noteq> []" "f \<noteq> []" using d(3,11,12) by auto
  have vf: "val f = W * val (tl f)" using low_word_0 [OF ne(2) assms(2)] .
  have tf: "0 < val (tl f)" using vf assms(3) val_nonneg [of "tl f"] by (simp add: order_less_le)
  have f': "val f' = val (tl f)" "length f' = N"
    using shift_right_word [OF ne(1)] part_write [OF d(12) [folded d(3)] d(15), of "ShiftWordsRightByWords (take fgLen f) 1"] d(3,12) pf vf
    by (simp_all add: f'_def W_def)
  show v: "val f = W * val f'" "val f' \<noteq> 0" using vf f'(1) tf by simp_all
  have eqs: "almost_eqs M A (val b) (W * val c) (val f') (val g) (k + 64) ((- 1) ^ s)"
  proof -
    have "val f = 2 ^ 64 * val f'" using v(1) unfolding W_def .
    then have "almost_eqs M A (val b) (val c) (2 ^ 64 * val f') (val g) k ((- 1) ^ s)" using d(17) by metis
    from eqs_shift [OF this] show ?thesis unfolding W_def .
  qed
  then have e: "val g * val b + val (tl f) * (W * val c) = M" "0 < val g" "0 \<le> W * val c" unfolding almost_eqs_def f'(1) by blast+
  have "W * val c \<le> M" using product_le [OF e(1,2) val_nonneg e(3) tf] .
  have top: "val (take bcLen c) = val (take (bcLen - 1) c) + W ^ (bcLen - 1) * uint (c ! (bcLen - 1))"
    using val_take_nth [of "bcLen - 1" c] d(2,8,9) by simp
  have pw: "W ^ bcLen = W * W ^ (bcLen - 1)" using d(8) by (simp flip: power_Suc)
  have le: "bcLen' \<le> N"
  proof (cases "c ! (bcLen - 1) = 0")
    case False
    then have "1 \<le> uint (c ! (bcLen - 1))" using uint_W(1) [of "c ! (bcLen - 1)"] uint_0_iff [of "c ! (bcLen - 1)"] by linarith
    then have "W ^ (bcLen - 1) * 1 \<le> W ^ (bcLen - 1) * uint (c ! (bcLen - 1))" by (intro mult_left_mono) simp_all
    then have "W ^ (bcLen - 1) \<le> val c" using top pc val_nonneg [of "take (bcLen - 1) c"] by linarith
    then have "W ^ bcLen \<le> W * val c" unfolding pw by (intro mult_left_mono) (simp_all add: W_def)
    from grow_even [OF this \<open>W * val c \<le> M\<close> d(6,7,5)] show ?thesis using False by (simp add: bcLen'_def)
  qed (use d(9) in \<open>simp add: bcLen'_def\<close>)
  then show "bcLen' \<le> N" .
  have even': "even bcLen'" "2 \<le> bcLen'" "bcLen \<le> bcLen'" using d(7,8) by (simp_all add: bcLen'_def)
  have mono: "W ^ bcLen \<le> W ^ bcLen'" using even'(3) by (intro power_increasing) (simp_all add: W_def)
  have c_lt: "val c < W ^ bcLen'" using d(14) mono by linarith
  have small_c: "val c < W ^ (bcLen' - 1)"
  proof (cases "c ! (bcLen - 1) = 0")
    case True
    then have "val c = val (take (bcLen - 1) c)" using top pc by simp
    also have "\<dots> < W ^ length (take (bcLen - 1) c)" by (rule val_less)
    also have "length (take (bcLen - 1) c) = bcLen - 1" using d(2,9) by simp
    finally show ?thesis using True by (simp add: bcLen'_def)
  next
    case False
    have "W ^ bcLen \<le> W ^ (bcLen' - 1)" using False by (intro power_increasing) (simp_all add: W_def bcLen'_def)
    then show ?thesis using d(14) by linarith
  qed
  have top0: "take bcLen' c ! (length (take bcLen' c) - 1) = 0"
  proof -
    have l: "length (take bcLen' c) = bcLen'" using d(2) le by simp
    have "val (take bcLen' c) = val (take (bcLen' - 1) c) + W ^ (bcLen' - 1) * uint (c ! (bcLen' - 1))"
      using val_take_nth [of "bcLen' - 1" c] d(2) even'(2) le by simp
    then have "W ^ (bcLen' - 1) * uint (c ! (bcLen' - 1)) < W ^ (bcLen' - 1) * 1"
      using small_c part_val [OF le [folded d(2)] c_lt] val_nonneg [of "take (bcLen' - 1) c"] by linarith
    then have "uint (c ! (bcLen' - 1)) < 1" by (simp add: mult_less_cancel_left_pos)
    then have "uint (c ! (bcLen' - 1)) = 0" using uint_W(1) [of "c ! (bcLen' - 1)"] by linarith
    then show ?thesis unfolding l using even'(2) by (simp add: uint_0_iff)
  qed
  have l0: "0 < length (take bcLen' c)" using d(2) even'(2) le by simp
  note sh = shift_left_word [OF l0 top0]
  have c': "val c' = W * val c" "length c' = N"
    using part_write [OF le [folded d(2)] c_lt, of "ShiftWordsLeftByWords (take bcLen' c) 1"] sh part_val [OF le [folded d(2)] c_lt] d(2) le
    by (simp_all add: c'_def)
  have "W * val c < W * W ^ (bcLen' - 1)" using small_c by (intro mult_strict_left_mono) (simp_all add: W_def)
  also have "W * W ^ (bcLen' - 1) = W ^ bcLen'" using even'(2) by (simp flip: power_Suc)
  finally have "val c' < W ^ bcLen'" unfolding c'(1) .
  moreover have "val b < W ^ bcLen'" using d(13) mono by linarith
  moreover have "val f' < W ^ fgLen"
  proof -
    have "val f' \<le> W * val f'" by (simp add: W_def)
    then show ?thesis using d(15) v(1) by linarith
  qed
  ultimately show "almost_ok N M A b c' f' g bcLen' fgLen (k + 64) s"
    using d eqs c' f'(2) le even' v(2) unfolding almost_ok_def c'(1) by simp
qed

lemma less_word_multiple: "x = W * y \<Longrightarrow> y \<noteq> 0 \<Longrightarrow> 0 \<le> y \<Longrightarrow> y < x"
  by (simp add: W_def)

lemma skip_words_ok:
  "almost_ok N M A b c f g bcLen fgLen k s \<Longrightarrow>
   (if val f = 0 then skip_words N f fgLen c bcLen k = Some None
    else \<exists>f' c' bcLen' k'. skip_words N f fgLen c bcLen k = Some (Some (f', c', bcLen', k')) \<and> f' ! 0 \<noteq> 0 \<and>
      almost_ok N M A b c' f' g bcLen' fgLen k' s \<and> val f' \<le> val f \<and> val f' \<noteq> 0)"
proof (induction "nat (val f)" arbitrary: f c bcLen k rule: less_induct)
  case less
  note d = almost_okD [OF less.prems]
  note e = EvenWordCount_ok [OF d(12) [folded d(3)] d(10)]
  have t: "val (take fgLen f) = val f" using part_val [OF d(12) [folded d(3)] d(15)] by simp
  have f0: "f ! 0 = 0" if "val f = 0" using that d(3,11,12) uint_W(1) [of "hd f"] val_nonneg [of "tl f"]
    by (cases f) (simp_all add: W_def add_nonneg_eq_0_iff uint_0_iff)
  show ?case
  proof (cases "val f = 0")
    case True
    then have "EvenWordCount f fgLen = 0" using e t by (metis W_power(1) not_less)
    then have "skip_words N f fgLen c bcLen k = Some None" using f0 [OF True] by (subst skip_words.simps) simp
    then show ?thesis using True by simp
  next
    case nz: False
    show ?thesis
    proof (cases "f ! 0 = 0")
      case False
      then have "skip_words N f fgLen c bcLen k = Some (Some (f, c, bcLen, k))" by (subst skip_words.simps) simp
      then show ?thesis using False nz less.prems by (simp only: if_False) blast
    next
      case True
      note st = skip_word_step [OF less.prems True nz]
      let ?f = "ShiftWordsRightByWords (take fgLen f) 1 @ drop fgLen f"
      let ?n = "if c ! (bcLen - 1) \<noteq> 0 then bcLen + 2 else bcLen"
      let ?c = "ShiftWordsLeftByWords (take ?n c) 1 @ drop ?n c"
      have "EvenWordCount f fgLen \<noteq> 0" using e t nz by (metis take_0 val.simps(1))
      then have eq: "skip_words N f fgLen c bcLen k = skip_words N ?f fgLen ?c ?n (k + 64)"
        using True st(1) by (subst skip_words.simps) (simp only: Let_def if_False if_True simp_thms)
      have "val ?f < val f" using st(3,4) val_nonneg [of ?f] by (rule less_word_multiple)
      then have "nat (val ?f) < nat (val f)" using val_nonneg [of ?f] by linarith
      from less.hyps [OF this st(2)] st(4) obtain f' c' bcLen' k' where
        "skip_words N ?f fgLen ?c ?n (k + 64) = Some (Some (f', c', bcLen', k'))" "f' ! 0 \<noteq> 0"
        "almost_ok N M A b c' f' g bcLen' fgLen k' s" "val f' \<le> val ?f" "val f' \<noteq> 0" by (simp only: if_False) blast
      then show ?thesis using nz \<open>val ?f < val f\<close> unfolding eq by (simp only: if_False) force
    qed
  qed
qed

lemma almost_subtract_ok:
  assumes l: "length b = N" "length c = N" "length f = N" "length g = N" "even N" "M < W ^ N"
    and n: "even bcLen" "2 \<le> bcLen" "bcLen \<le> N" "even fgLen" "2 \<le> fgLen" "fgLen \<le> N"
    and v: "val b < W ^ bcLen" "val c < W ^ bcLen" "val f < W ^ fgLen" "val g < W ^ fgLen"
    and e: "almost_eqs M A (val b) (val c) (val f) (val g) k ((- 1) ^ s)"
    and le: "val g \<le> val f" and one: "val f = val g \<Longrightarrow> val g \<noteq> 1"
  shows "\<exists>b' f' bcLen'. almost_subtract N b c f g bcLen fgLen s = Some (b', c, f', g, bcLen', fgLen, s) \<and>
    almost_ok N M A b' c f' g bcLen' fgLen k s \<and> val f' = val f - val g"
proof -
  obtain F w where F: "Subtract (take fgLen f) (take fgLen g) = (F, w)" by fastforce
  obtain B carry where B: "Add (take bcLen b) (take bcLen c) = (B, carry)" by fastforce
  note pf = part_val [OF n(6) [folded l(3)] v(3)] and pg = part_val [OF n(6) [folded l(4)] v(4)]
  note pb = part_val [OF n(3) [folded l(1)] v(1)] and pc = part_val [OF n(3) [folded l(2)] v(2)]
  have sub: "length F = fgLen" "val F = val f - val g + W ^ fgLen * uint w" "uint w \<le> 1"
    using Subtract_val [OF _ _ F] n l pf pg by simp_all
  have "val F < W ^ fgLen" using val_less [of F] sub(1) by simp
  then have "W ^ fgLen * uint w < W ^ fgLen * 1" using sub(2) le by linarith
  then have "uint w < 1" by (simp add: mult_less_cancel_left_pos)
  then have "uint w = 0" using uint_W(1) [of w] by linarith
  then have vF: "val F = val f - val g" using sub(2) by simp
  have f': "val (F @ drop fgLen f) = val f - val g" "length (F @ drop fgLen f) = N"
    using part_write [OF n(6) [folded l(3)] v(3) sub(1)] vF l(3) by simp_all
  have add: "length B = bcLen" "val B + W ^ bcLen * uint carry = val b + val c" "uint carry \<le> 1"
    using Add_val [OF _ _ B] n l pb pc by simp_all
  note e' = eqs_subtract [OF e le]
  have g0: "0 < val g" "0 \<le> val b + val c" "val g * (val b + val c) + (val f - val g) * val c = M" using e' by (simp_all add: almost_eqs_def)
  have fg: "val f - val g < W ^ fgLen" using v(3) val_nonneg [of g] by linarith
  have z: "gcd A M \<noteq> 1 \<or> M = 1" if "val f - val g = 0"
  proof -
    have "gcd A M = val g" using e that by (simp add: almost_eqs_def)
    then show ?thesis using one that by simp
  qed
  show ?thesis
  proof (cases "carry = 0")
    case True
    have b': "val (B @ drop bcLen b) = val b + val c" "length (B @ drop bcLen b) = N" "val b + val c < W ^ bcLen"
      using part_write [OF n(3) [folded l(1)] v(1) add(1)] add(2) True l(1) val_less [of B] add(1) by simp_all
    have "almost_subtract N b c f g bcLen fgLen s = Some (B @ drop bcLen b, c, F @ drop fgLen f, g, bcLen, fgLen, s)"
      using True by (simp add: almost_subtract_def F B Let_def)
    moreover have "almost_ok N M A (B @ drop bcLen b) c (F @ drop fgLen f) g bcLen fgLen k s"
      unfolding almost_ok_def b' f' using l n v e' fg z b'(3) by blast
    ultimately show ?thesis using f'(1) by blast
  next
    case False
    then have c1: "uint carry = 1" using add(3) uint_W(1) [of carry] uint_0_iff [of carry] by linarith
    have "val b + val c \<le> M"
    proof -
      have "1 * (val b + val c) \<le> val g * (val b + val c)" using g0(1,2) by (intro mult_right_mono) simp_all
      then have m: "val b + val c \<le> val g * (val b + val c)" by (simp only: mult_1)
      have "0 \<le> (val f - val g) * val c" using le by simp
      from add_increasing2 [OF this m] show ?thesis unfolding g0(3) .
    qed
    moreover have "W ^ bcLen \<le> val b + val c" using add(2) val_nonneg [of B] unfolding c1 mult_1_right by linarith
    ultimately have grow: "bcLen + 2 \<le> N" using grow_even l(5,6) n(1) by blast
    then have lt: "bcLen < length b" using l(1) by simp
    have b': "val ((B @ drop bcLen b)[bcLen := 1]) = val b + val c" "length ((B @ drop bcLen b)[bcLen := 1]) = N"
      using part_carry [OF lt v(1) add(1), of 1] add(2) c1 l(1) by simp_all
    have w2: "2 * W ^ bcLen \<le> W ^ (bcLen + 2)" by (simp add: W_def)
    then have bb: "val b + val c < W ^ (bcLen + 2)" "val c < W ^ (bcLen + 2)" using v(1,2) val_nonneg [of b] by linarith+
    have "almost_subtract N b c f g bcLen fgLen s = Some ((B @ drop bcLen b)[bcLen := 1], c, F @ drop fgLen f, g, bcLen + 2, fgLen, s)"
      using False grow by (simp add: almost_subtract_def F B Let_def)
    moreover have "even (bcLen + 2)" "2 \<le> bcLen + 2" using n(1) by simp_all
    then have "almost_ok N M A ((B @ drop bcLen b)[bcLen := 1]) c (F @ drop fgLen f) g (bcLen + 2) fgLen k s"
      unfolding almost_ok_def b' f' using l n v e' fg z bb grow by blast
    ultimately show ?thesis using f'(1) by blast
  qed
qed

lemma top_words_0:
  assumes "n \<le> length X" and "2 \<le> n" and "val X < W ^ n" and "X ! (n - 2) = 0" and "X ! (n - 1) = 0"
  shows "val X < W ^ (n - 2)"
proof -
  obtain m where m: "n = Suc (Suc m)" using assms(2) by (metis Suc_le_D numeral_2_eq_2 Suc_le_mono)
  have "val (take n X) = val (take m X)" using assms(1,4,5) by (simp add: m val_take_nth)
  then have "val X = val (take m X)" using part_val [OF assms(1,3)] by simp
  also have "\<dots> < W ^ length (take m X)" by (rule val_less)
  finally show ?thesis using assms(1) by (simp add: m)
qed

text \<open>What the shift of the coefficient leaves: the array, or one that is longer by two words.\<close>

lemma shift_coefficient:
  assumes "length c = N" and "even N" and "even n" and "n \<le> N" and "val c < W ^ n" and "i < 64" and "2 ^ i * val c \<le> M" and "M < W ^ N"
    and S: "ShiftWordsLeftByBits (take n c) i = (C, t)"
  defines "c' \<equiv> if t \<noteq> 0 then (C @ drop n c)[n := t] else C @ drop n c" and "n' \<equiv> if t \<noteq> 0 then n + 2 else n"
  shows "t \<noteq> 0 \<Longrightarrow> n + 2 \<le> N" and "n' \<le> N" and "even n'" and "n \<le> n'" and "val c' = 2 ^ i * val c" and "length c' = N" and "val c' < W ^ n'"
proof -
  have le: "n \<le> length c" using assms(1,4) by simp
  have s: "length C = n" "val C + W ^ n * uint t = 2 ^ i * val c" "uint t < 2 ^ i"
    using ShiftWordsLeftByBits_val [OF assms(6) S] part_val [OF le assms(5)] assms(1,4) by simp_all
  have grow: "n + 2 \<le> N" if "t \<noteq> 0"
  proof -
    have "1 \<le> uint t" using that uint_W(1) [of t] uint_0_iff [of t] by linarith
    then have "W ^ n * 1 \<le> W ^ n * uint t" by (intro mult_left_mono) simp_all
    then have "W ^ n \<le> 2 ^ i * val c" using s(2) val_nonneg [of C] by linarith
    from grow_even [OF this assms(7,8,3,2)] show ?thesis .
  qed
  show "t \<noteq> 0 \<Longrightarrow> n + 2 \<le> N" by (rule grow)
  show "n' \<le> N" "even n'" "n \<le> n'" using grow assms(3,4) by (simp_all add: n'_def)
  show v: "val c' = 2 ^ i * val c" and "length c' = N"
  proof -
    have "val c' = 2 ^ i * val c \<and> length c' = N"
    proof (cases "t = 0")
      case True
      then show ?thesis using part_write [OF le assms(5) s(1)] s(2) assms(1) by (simp add: c'_def)
    next
      case False
      then have "n < length c" using grow assms(1) by simp
      from part_carry [OF this assms(5) s(1), of t] show ?thesis using False s(2) assms(1) by (simp add: c'_def)
    qed
    then show "val c' = 2 ^ i * val c" "length c' = N" by simp_all
  qed
  show "val c' < W ^ n'"
  proof (cases "t = 0")
    case True
    then show ?thesis using s(1,2) val_less [of C] unfolding v by (simp add: n'_def)
  next
    case False
    have "2 ^ i * val c < W * W ^ n"
    proof -
      have "uint t + 1 \<le> W" using uint_W(2) [of t] by simp
      then have "W ^ n * (uint t + 1) \<le> W ^ n * W" by (intro mult_left_mono) simp_all
      moreover have "2 ^ i * val c < W ^ n * (uint t + 1)" using s(1,2) val_less [of C] by (simp add: algebra_simps)
      ultimately have "2 ^ i * val c < W ^ n * W" by (rule order.strict_trans2 [rotated])
      then show ?thesis by (simp only: mult.commute)
    qed
    also have "W * W ^ n \<le> W ^ (n + 2)" by (simp add: W_def)
    finally show ?thesis using False unfolding v by (simp add: n'_def)
  qed
qed

lemma almost_step_ok:
  assumes "almost_ok N M A b c f g bcLen fgLen k s" and "val f = 2 ^ i * y" and "odd y" and "i < 64" and "y \<noteq> 1"
  shows "\<exists>b' c' f' g' bcLen' fgLen' s'. almost_step N b c f g bcLen fgLen s i = Some (b', c', f', g', bcLen', fgLen', s') \<and>
    almost_ok N M A b' c' f' g' bcLen' fgLen' (k + i) s' \<and> val f' + val g' < val f + val g"
proof -
  note d = almost_okD [OF assms(1)]
  define f1 where "f1 = fst (ShiftWordsRightByBits (take fgLen f) i) @ drop fgLen f"
  obtain C t where S: "ShiftWordsLeftByBits (take bcLen c) i = (C, t)" by fastforce
  define c1 where "c1 = (if t \<noteq> 0 then (C @ drop bcLen c)[bcLen := t] else C @ drop bcLen c)"
  define n1 where "n1 = (if t \<noteq> 0 then bcLen + 2 else bcLen)"
  define m1 where "m1 = (if f1 ! (fgLen - 2) = 0 \<and> g ! (fgLen - 2) = 0 \<and> f1 ! (fgLen - 1) = 0 \<and> g ! (fgLen - 1) = 0
    then fgLen - 2 else fgLen)"
  have y0: "0 < y" 
  proof -
    have "0 \<le> 2 ^ i * y" using val_nonneg [of f] unfolding assms(2) .
    then have "0 \<le> y" by (simp add: zero_le_mult_iff)
    then show ?thesis using assms(3) by (cases "y = 0") simp_all
  qed
  have eqs: "almost_eqs M A (val b) (2 ^ i * val c) y (val g) (k + i) ((- 1) ^ s)"
    using d(17) eqs_shift unfolding assms(2) by blast
  then have e: "val g * val b + y * (2 ^ i * val c) = M" "0 < val g" "0 \<le> 2 ^ i * val c" "odd (val g)" unfolding almost_eqs_def by blast+
  have cM: "2 ^ i * val c \<le> M" using product_le [OF e(1,2) val_nonneg e(3) y0] .
  note sc = shift_coefficient [OF d(2,5,7,9,14) assms(4) cM d(6) S, folded c1_def n1_def]
  have f1: "val f1 = y" "length f1 = N"
  proof -
    obtain F w where F: "ShiftWordsRightByBits (take fgLen f) i = (F, w)" by fastforce
    have "length F = fgLen" "val F = val f div 2 ^ i"
      using ShiftWordsRightByBits_val [OF assms(4) F] part_val [OF d(12) [folded d(3)] d(15)] d(3,12) by simp_all
    then show "val f1 = y" "length f1 = N" using part_write [OF d(12) [folded d(3)] d(15), of F] d(3) assms(2) by (simp_all add: f1_def F)
  qed
  have yf: "y \<le> val f"
  proof -
    have "1 * y \<le> 2 ^ i * y" using y0 by (intro mult_right_mono) simp_all
    then show ?thesis using assms(2) by simp
  qed
  have f1_lt: "val f1 < W ^ fgLen" using f1(1) yf d(15) by simp
  have lens: "fgLen \<le> length f1" "fgLen \<le> length g" using f1(2) d(4,12) by simp_all
  have m1: "even m1" "2 \<le> m1" "m1 \<le> N" "val f1 < W ^ m1" "val g < W ^ m1"
  proof -
    have "2 \<le> fgLen - 2" if "f1 ! (fgLen - 2) = 0" "f1 ! (fgLen - 1) = 0"
    proof -
      have "val f1 < W ^ (fgLen - 2)" by (rule top_words_0 [OF lens(1) d(11) f1_lt that])
      then have "fgLen \<noteq> 2" using y0 f1(1) by auto
      then show ?thesis using d(10,11) by presburger
    qed
    then show "even m1" "2 \<le> m1" "m1 \<le> N" using d(10-12) by (auto simp: m1_def)
    show "val f1 < W ^ m1" "val g < W ^ m1"
      using top_words_0 [OF lens(1) d(11) f1_lt] top_words_0 [OF lens(2) d(11) d(16)] f1_lt d(16) by (simp_all add: m1_def)
  qed
  have b_lt: "val b < W ^ n1"
  proof -
    have "W ^ bcLen \<le> W ^ n1" using sc(4) by (intro power_increasing) simp_all
    then show ?thesis using d(13) by linarith
  qed
  have n1: "2 \<le> n1" using d(8) sc(4) by linarith
  have eqs1: "almost_eqs M A (val b) (val c1) (val f1) (val g) (k + i) ((- 1) ^ s)" unfolding sc(5) f1(1) by (rule eqs)
  have odd1: "odd (val f1)" unfolding f1(1) by (rule assms(3))
  have eqs2: "almost_eqs M A (val c1) (val b) (val g) (val f1) (k + i) ((- 1) ^ Suc s)" using eqs_swap [OF eqs1 odd1] by simp
  have "\<not> (t \<noteq> 0 \<and> N < bcLen + 2)" using sc(1) by auto
  then have step: "almost_step N b c f g bcLen fgLen s i =
      (if Compare f1 g m1 = -1 then almost_subtract N c1 b g f1 n1 m1 (s + 1) else almost_subtract N b c1 f1 g n1 m1 s)"
    unfolding almost_step_def S f1_def [symmetric] Let_def prod.case c1_def [symmetric] n1_def [symmetric] m1_def [symmetric] by (simp only: if_False)
  have cmp: "Compare f1 g m1 = -1 \<longleftrightarrow> val f1 < val g"
    using compare_val [of m1 f1 g] m1(3) f1(2) d(4) part_val [of m1 f1] part_val [of m1 g] m1(4,5) by simp
  show ?thesis
  proof (cases "val f1 < val g")
    case True
    from almost_subtract_ok [OF sc(6) d(1,4) f1(2) d(5,6) sc(3) n1 sc(2) m1(1-3) sc(7) b_lt m1(5,4) eqs2 less_imp_le [OF True]] True
    show ?thesis using cmp yf y0 f1(1) unfolding step by fastforce
  next
    case False
    have one: "val f1 = val g \<Longrightarrow> val g \<noteq> 1" using f1(1) assms(5) by simp
    from almost_subtract_ok [OF d(1) sc(6) f1(2) d(4,5,6) sc(3) n1 sc(2) m1(1-3) b_lt sc(7) m1(4,5) eqs1 _ one] False
    show ?thesis using cmp yf e(2) f1(1) unfolding step by fastforce
  qed
qed

lemma even_lengths: "even n \<Longrightarrow> n \<noteq> 0 \<Longrightarrow> 2 \<le> n" "even n \<Longrightarrow> n \<noteq> 0 \<Longrightarrow> n - 2 < 1 \<Longrightarrow> n = 2" for n :: nat
  by presburger+

text \<open>The test at the end: what is left of the number is a power of two.\<close>

lemma power_test:
  assumes "almost_ok N M A b c f g bcLen fgLen k s" and "f ! 0 \<noteq> 0" and "skip_bits (f ! 0) 0 = (t, i)"
  shows "\<exists>y. val f = 2 ^ i * y \<and> odd y \<and> i < 64 \<and> (y = 1 \<longleftrightarrow> t = 1 \<and> f ! 1 = 0 \<and> EvenWordCount f fgLen = 2)"
proof -
  note d = almost_okD [OF assms(1)]
  have t: "uint (f ! 0) = 2 ^ i * uint t" "odd (uint t)" using skip_bits_ok [OF assms(2), of 0] assms(3) by auto
  have "uint t \<noteq> 0" using t(2) by auto
  then have "1 \<le> uint t" using uint_W(1) [of t] by linarith
  then have "2 ^ i * 1 \<le> 2 ^ i * uint t" by (intro mult_left_mono) simp_all
  then have i_lt: "(2::int) ^ i < 2 ^ 64" using t(1) uint_W(2) [of "f ! 0"] unfolding W_def by linarith
  then have i: "i < 64" by (rule power_less_imp_less_exp [rotated]) simp
  obtain f0 f1 F where f: "f = f0 # f1 # F" using d(3,11,12) by (cases f; cases "tl f") auto
  define Y where "Y = uint f1 + W * val F"
  have "64 = i + (1 + (63 - i))" using i by simp
  then have W2: "W = 2 ^ i * (2 * 2 ^ (63 - i))" unfolding W_def by (metis power_add power_one_right)
  let ?y = "uint t + 2 * (2 ^ (63 - i) * Y)"
  have v: "val f = 2 ^ i * ?y"
  proof -
    have "val f = uint f0 + W * Y" by (simp add: f Y_def)
    also have "W * Y = 2 ^ i * (2 * (2 ^ (63 - i) * Y))" unfolding W2 by (simp only: mult.assoc)
    finally show ?thesis using t(1) by (simp add: f distrib_left)
  qed
  note e = EvenWordCount_ok [OF d(12) [folded d(3)] d(10)]
  have tk: "val (take fgLen f) = val f" using part_val [OF d(12) [folded d(3)] d(15)] by simp
  have Y0: "0 \<le> Y" using uint_W(1) [of f1] by (simp add: Y_def W_def)
  have one: "?y = 1 \<longleftrightarrow> uint t = 1 \<and> Y = 0"
  proof
    assume a: "?y = 1"
    have "Y = 0"
    proof (rule ccontr)
      assume "Y \<noteq> 0"
      then have "1 * 1 \<le> 2 ^ (63 - i) * Y" using Y0 by (intro mult_mono) simp_all
      then show False using a \<open>1 \<le> uint t\<close> by linarith
    qed
    then show "uint t = 1 \<and> Y = 0" using a by simp
  qed simp
  have "?y = 1 \<longleftrightarrow> t = 1 \<and> f ! 1 = 0 \<and> EvenWordCount f fgLen = 2"
  proof
    assume "?y = 1"
    then have tY: "uint t = 1" "Y = 0" using one by simp_all
    have "t = 1" using tY(1) by (metis uint_1_eq word_uint_eq_iff)
    moreover have "uint f1 = 0" using tY(2) uint_W(1) [of f1] val_nonneg [of F] by (simp add: Y_def W_def add_nonneg_eq_0_iff)
    then have "f ! 1 = 0" by (simp add: f uint_0_iff)
    moreover have "EvenWordCount f fgLen = 2"
    proof -
      have vf: "val f = 2 ^ i" using v tY by simp
      have "EvenWordCount f fgLen \<noteq> 0"
      proof
        assume "EvenWordCount f fgLen = 0"
        then have "val f = 0" using e tk by simp
        then show False using vf by simp
      qed
      then have "W ^ (EvenWordCount f fgLen - 2) \<le> 2 ^ i" using e tk vf by simp
      then have "W ^ (EvenWordCount f fgLen - 2) < W ^ 1" using i_lt unfolding W_def by (simp only: power_one_right)
      then have "EvenWordCount f fgLen - 2 < 1" by (rule power_less_imp_less_exp [rotated]) (simp add: W_def)
      then show ?thesis using e \<open>EvenWordCount f fgLen \<noteq> 0\<close> by (intro even_lengths(2)) blast+
    qed
    ultimately show "t = 1 \<and> f ! 1 = 0 \<and> EvenWordCount f fgLen = 2" by blast
  next
    assume a: "t = 1 \<and> f ! 1 = 0 \<and> EvenWordCount f fgLen = 2"
    then have "val f = val (take 2 f)" using e tk by simp
    also have "\<dots> = 2 ^ i" using a t(1) by (simp add: f numeral_2_eq_2)
    finally have "2 ^ i * ?y = 2 ^ i * 1" unfolding v by simp
    then show "?y = 1" by (simp only: mult_cancel_left) simp
  qed
  moreover have "odd ?y" using t(2) by simp
  ultimately show ?thesis using v i by blast
qed

lemma almost_result:
  assumes "almost_eqs M A b c (2 ^ i) g k \<sigma>" and "1 < M" and "odd M" and "\<sigma> = 1 \<or> \<sigma> = - 1"
  shows "0 < b" and "b < M" and "gcd A M = 1" and "M dvd A * b - \<sigma> * 2 ^ (k + i)"
proof -
  have e: "odd g" "0 \<le> b" "0 \<le> c" "0 < g" "g * b + 2 ^ i * c = M" "M dvd A * b - \<sigma> * 2 ^ i * 2 ^ k" "gcd (2 ^ i) g = gcd A M"
    using assms(1) by (simp_all add: almost_eqs_def)
  show d: "M dvd A * b - \<sigma> * 2 ^ (k + i)" using e(6) by (simp add: power_add mult_ac)
  have nd: "\<not> M dvd 2 ^ n" for n
  proof
    assume a: "M dvd 2 ^ n"
    have "coprime M (2 ^ n)" using assms(3) by (simp add: coprime_right_2_iff_odd)
    from coprime_common_divisor [OF this dvd_refl a] have "M dvd 1" .
    then show False using assms(2) by simp
  qed
  have nb: "\<not> M dvd b"
  proof
    assume "M dvd b"
    then have "M dvd A * b" by (rule dvd_mult)
    from dvd_diff [OF this d] have "M dvd \<sigma> * 2 ^ (k + i)" by simp
    then show False using nd assms(4) by auto
  qed
  then have "b \<noteq> 0" by auto
  then show b0: "0 < b" using e(2) by simp
  have "1 * b \<le> g * b" using e(2,4) by (intro mult_right_mono) simp_all
  moreover have "0 \<le> 2 ^ i * c" using e(3) by simp
  ultimately have "b \<le> M" using e(5) by linarith
  moreover have "b \<noteq> M" using nb by auto
  ultimately show "b < M" by simp
  show "gcd A M = 1" using e(7) gcd_power2 [OF e(1), of i 1] by simp
qed

lemma almost_loop_ok:
  assumes "val X = M" and "length X = N" and "1 < M" and "odd M"
  shows "almost_ok N M A b c f g bcLen fgLen k s \<Longrightarrow>
   \<exists>R k'. almost_loop N X b c f g bcLen fgLen k s = Some (R, k') \<and> length R = N \<and> val R < M \<and>
     (gcd A M = 1 \<longrightarrow> M dvd A * val R - 2 ^ k') \<and> (gcd A M \<noteq> 1 \<longrightarrow> val R = 0 \<and> k' = 0)"
proof (induction "nat (val f + val g)" arbitrary: b c f g bcLen fgLen k s rule: less_induct)
  case less
  note sk = skip_words_ok [OF less.prems]
  show ?case
  proof (cases "val f = 0")
    case True
    then have "almost_loop N X b c f g bcLen fgLen k s = Some (SetWords 0 N, 0)" using sk by (subst almost_loop.simps) simp
    moreover have "gcd A M \<noteq> 1" using almost_okD(18) [OF less.prems True] assms(3) by simp
    ultimately show ?thesis using assms(3) by simp
  next
    case False
    then obtain f1 c1 n1 k1 where s: "skip_words N f fgLen c bcLen k = Some (Some (f1, c1, n1, k1))" "f1 ! 0 \<noteq> 0"
        "almost_ok N M A b c1 f1 g n1 fgLen k1 s" "val f1 \<le> val f" using sk by (simp only: if_False) blast
    obtain t i where t: "skip_bits (f1 ! 0) 0 = (t, i)" by fastforce
    obtain y where y: "val f1 = 2 ^ i * y" "odd y" "i < 64" "y = 1 \<longleftrightarrow> t = 1 \<and> f1 ! 1 = 0 \<and> EvenWordCount f1 fgLen = 2"
      using power_test [OF s(3,2) t] by blast
    note d = almost_okD [OF s(3)]
    have step: "almost_loop N X b c f g bcLen fgLen k s =
        (if y = 1 then Some (if s mod 2 = 0 then b else fst (Subtract X b), k1 + i)
         else do { (b, c, f, g, bcLen, fgLen, s) \<leftarrow> almost_step N b c1 f1 g n1 fgLen s i; almost_loop N X b c f g bcLen fgLen (k1 + i) s })"
      using s(1) t y(4) by (subst almost_loop.simps) (simp add: Let_def)
    show ?thesis
    proof (cases "y = 1")
      case True
      have "almost_eqs M A (val b) (val c1) (2 ^ i) (val g) k1 ((- 1) ^ s)" using d(17) y(1) True by simp
      note r = almost_result [OF this assms(3,4)]
      show ?thesis
      proof (cases "even s")
        case even: True
        then have "almost_loop N X b c f g bcLen fgLen k s = Some (b, k1 + i)" unfolding step using True by (simp add: even_iff_mod_2_eq_zero)
        then show ?thesis using r even d(1) by simp
      next
        case odd: False
        obtain B w where B: "Subtract X b = (B, w)" by fastforce
        have sub: "length B = N" "val B = M - val b + W ^ N * uint w" "uint w \<le> 1"
          using Subtract_val [OF _ _ B] assms(1,2) d(1,5) by simp_all
        have r': "0 < val b" "val b < M" "gcd A M = 1" "M dvd A * val b + 2 ^ (k1 + i)" using r odd by simp_all
        have "W ^ N * uint w < W ^ N * 1" using val_less [of B] sub(1,2) r'(2) unfolding mult_1_right sub(1) by linarith
        then have "uint w < 1" by (simp add: mult_less_cancel_left_pos)
        then have "uint w = 0" using uint_W(1) [of w] by linarith
        then have vB: "val B = M - val b" using sub(2) by simp
        have "M dvd A * M - (A * val b + 2 ^ (k1 + i))" using r'(4) by (intro dvd_diff) simp_all
        then have "M dvd A * val B - 2 ^ (k1 + i)" unfolding vB by (simp add: right_diff_distrib diff_diff_eq)
        moreover have "almost_loop N X b c f g bcLen fgLen k s = Some (B, k1 + i)"
          unfolding step using True odd B by (simp add: even_iff_mod_2_eq_zero)
        ultimately show ?thesis using r'(1,3) sub(1) vB by simp
      qed
    next
      case ny: False
      obtain b' c' f' g' n' m' s' where a: "almost_step N b c1 f1 g n1 fgLen s i = Some (b', c', f', g', n', m', s')"
          "almost_ok N M A b' c' f' g' n' m' (k1 + i) s'" "val f' + val g' < val f1 + val g"
        using almost_step_ok [OF s(3) y(1,2,3) ny] by blast
      have "nat (val f' + val g') < nat (val f + val g)" using a(3) s(4) val_nonneg [of f'] val_nonneg [of g'] by linarith
      from less.hyps [OF this a(2)] show ?thesis unfolding step using ny a(1) by simp
    qed
  qed
qed

text \<open>The almost inverse: a number that is coprime to the odd modulus gets its inverse times \<open>2 ^ k\<close>, any other 0.\<close>

theorem AlmostInverse_ok:
  assumes "length A \<le> length M" and "even (length M)" and "odd (val M)" and "val A < val M"
  shows "\<exists>R k. AlmostInverse A M = Some (R, k) \<and> length R = length M \<and> val R < val M \<and>
    (gcd (val A) (val M) = 1 \<longrightarrow> val M dvd val A * val R - 2 ^ k) \<and> (gcd (val A) (val M) \<noteq> 1 \<longrightarrow> val R = 0 \<and> k = 0)"
proof -
  let ?N = "length M"
  have ne: "?N \<noteq> 0" using assms(3) by auto
  then have N2: "2 \<le> ?N" using assms(2) by (intro even_lengths(1))
  note e = EvenWordCount_ok [OF le_refl assms(2)]
  have M0: "0 < val M" using assms(4) val_nonneg [of A] by linarith
  have m: "2 \<le> EvenWordCount M ?N" "val M < W ^ EvenWordCount M ?N"
  proof -
    have "val (take (EvenWordCount M ?N) M) = val M" using e by simp
    moreover have "val (take (EvenWordCount M ?N) M) < W ^ length (take (EvenWordCount M ?N) M)" by (rule val_less)
    ultimately show lt: "val M < W ^ EvenWordCount M ?N" using e by simp
    then have "EvenWordCount M ?N \<noteq> 0" using M0 by (metis power_0 int_one_le_iff_zero_less not_less)
    then show "2 \<le> EvenWordCount M ?N" using e by (intro even_lengths(1)) blast+
  qed
  let ?b = "1 # SetWords 0 (?N - 1)" and ?c = "SetWords 0 ?N :: u64 list" and ?f = "A @ SetWords 0 (?N - length A)"
  have lens: "length ?b = ?N" "length ?c = ?N" "length ?f = ?N" using ne assms(1) by simp_all
  have vals: "val ?b = 1" "val ?c = 0" "val ?f = val A" by simp_all
  have w2: "1 < W ^ 2" by (simp add: W_def)
  have "almost_eqs (val M) (val A) 1 0 (val A) (val M) 0 1" using M0 assms(3) by (simp add: almost_eqs_def)
  moreover have "val A = 0 \<longrightarrow> gcd (val A) (val M) \<noteq> 1 \<or> val M = 1" using M0 by auto
  ultimately have ok: "almost_ok ?N (val M) (val A) ?b ?c ?f M 2 (EvenWordCount M ?N) 0 0"
    using lens vals assms(2,4) val_less [of M] N2 e m w2 unfolding almost_ok_def by simp
  have A: "AlmostInverse A M = almost_loop ?N M ?b ?c ?f M 2 (EvenWordCount M ?N) 0 0"
    using assms(1,2) ne by (simp add: AlmostInverse_def Let_def)
  show ?thesis
  proof (cases "val M = 1")
    case True
    then have z: "val ?f = 0" using assms(4) val_nonneg [of A] vals(3) by linarith
    have "AlmostInverse A M = Some (SetWords 0 ?N, 0)" unfolding A using skip_words_ok [OF ok] z by (subst almost_loop.simps) simp
    then show ?thesis using True by simp
  next
    case False
    then have "1 < val M" using M0 by simp
    from almost_loop_ok [OF refl refl this assms(3) ok] show ?thesis unfolding A .
  qed
qed

section \<open>Remainders and inverses of integers\<close>

lemma IsOdd_iff: "wf x \<Longrightarrow> IsOdd x \<longleftrightarrow> odd (ival x)"
proof -
  assume w: "wf x"
  have "0 < length (reg x)" using wf_nonempty [OF w] by simp
  then have "GetBit x 0 \<longleftrightarrow> odd (reg x ! 0)" by (simp add: GetBit_def bit_0)
  also have "\<dots> \<longleftrightarrow> odd (val (reg x))" using even_val [OF wf_nonempty [OF w]] by (simp add: even_iff_mod_2_eq_zero)
  also have "\<dots> \<longleftrightarrow> odd (ival x)" by (simp add: ival_def)
  finally show ?thesis by (simp only: IsOdd_def)
qed

lemma Modulo_ok:
  assumes "wf a" and "wf b" and "small a" and "small b" and "0 < ival b"
  shows "\<exists>r. Modulo a b = Inr r \<and> wf r \<and> ival r = ival a mod ival b \<and> length (reg r) \<le> length (reg b)"
proof -
  obtain r q where d: "Integer_Divide a b = Inr (r, q)" "wf r" "ival a = ival q * ival b + ival r" "0 \<le> ival r" "ival r < ival b"
      "length (reg r) \<le> length (reg b)"
    using Integer_Divide_ok [OF assms(1-4)] assms(5) by (metis abs_of_pos less_irrefl)
  have "ival a mod ival b = ival r" using d(3-5) by (simp add: mod_pos_pos_trivial)
  then show ?thesis using d by (simp add: Modulo_def)
qed

definition inverse_ok :: "int \<Rightarrow> int \<Rightarrow> int \<Rightarrow> bool" where
  "inverse_ok x m r \<longleftrightarrow> 0 \<le> r \<and> r < m \<and> (coprime x m \<longrightarrow> x * r mod m = 1 mod m) \<and> (\<not> coprime x m \<longrightarrow> r = 0)"

lemma inverse_ok_mod: "inverse_ok (x mod m) m r = inverse_ok x m r"
proof -
  have "coprime (x mod m) m \<longleftrightarrow> coprime x m" unfolding coprime_iff_gcd_eq_1 by (metis gcd_red_int gcd.commute)
  moreover have "x mod m * r mod m = x * r mod m" by (rule mod_mult_left_eq)
  ultimately show ?thesis by (simp only: inverse_ok_def)
qed

text \<open>The case of the word routine.\<close>

lemma InverseMod_odd:
  assumes "wf x" and "wf m" and "odd (ival m)" and "0 \<le> ival x" and "ival x < ival m" and "length (reg x) \<le> length (reg m)"
  shows "\<exists>r. InverseMod_rec x m = Some (Inr r) \<and> wf r \<and> inverse_ok (ival x) (ival m) (ival r) \<and> length (reg r) = length (reg m)"
proof -
  let ?X = "reg x" and ?M = "reg m"
  have v: "val ?X = ival x" "val ?M = ival m" using ival_abs [of x] ival_abs [of m] assms(4,5) by simp_all
  have l: "even (length ?M)" using wf_length [OF assms(2)] by simp
  obtain R k where R: "AlmostInverse ?X ?M = Some (R, k)" "length R = length ?M" "val R < val ?M"
      "gcd (val ?X) (val ?M) = 1 \<Longrightarrow> val ?M dvd val ?X * val R - 2 ^ k" "gcd (val ?X) (val ?M) \<noteq> 1 \<Longrightarrow> val R = 0 \<and> k = 0"
    using AlmostInverse_ok [OF assms(6) l] assms(3,5) unfolding v by auto
  have oM: "odd (val ?M)" using assms(3) v(2) by simp
  define D where "D = DivideByPower2Mod R k ?M"
  have D: "length D = length ?M" "val D < val ?M" "val D * 2 ^ k mod val ?M = val R mod val ?M"
    using DivideByPower2Mod_ok [OF l oM R(2,3), of k] by (simp_all add: D_def)
  let ?r = "\<lparr>reg = D, sign = POSITIVE\<rparr>"
  have w: "wf ?r" using wf_power [OF assms(2)] D(1) by (auto intro: wf_positive)
  have "ival x * val D mod ival m = 1 mod ival m" if "coprime (ival x) (ival m)"
  proof -
    have "gcd (val ?X) (val ?M) = 1" using that unfolding v by (simp add: coprime_iff_gcd_eq_1)
    from R(4) [OF this] have "ival x * val R mod ival m = 2 ^ k mod ival m" unfolding v by (simp add: mod_eq_dvd_iff)
    moreover have "ival x * (val D * 2 ^ k) mod ival m = ival x * val R mod ival m" using D(3) unfolding v by (metis mod_mult_right_eq)
    ultimately have "(2 ^ k * (ival x * val D)) mod ival m = (2 ^ k * 1) mod ival m" by (simp add: mult_ac)
    then have "ival m dvd 2 ^ k * (ival x * val D - 1)" unfolding mod_eq_dvd_iff by (simp add: right_diff_distrib)
    moreover have "coprime (ival m) (2 ^ k)" using assms(3) by simp
    ultimately have "ival m dvd ival x * val D - 1" by (simp add: coprime_dvd_mult_right_iff)
    then show ?thesis by (simp add: mod_eq_dvd_iff)
  qed
  moreover have "val D = 0" if "\<not> coprime (ival x) (ival m)"
  proof -
    have z: "val R = 0" "k = 0" using R(5) that unfolding v by (simp_all add: coprime_iff_gcd_eq_1)
    then show ?thesis by (simp add: D_def)
  qed
  ultimately have "inverse_ok (ival x) (ival m) (ival ?r)" using D(2) unfolding v by (simp add: inverse_ok_def)
  moreover have "InverseMod_rec x m = Some (Inr ?r)"
  proof -
    have "NotNegative m" "\<not> (IsNegative x \<or> Integer_Compare x m \<ge> 0)" "IsOdd m"
      using assms ival_sign [OF assms(1)] ival_sign [OF assms(2)] Integer_Compare_ok [OF assms(1,2)] IsOdd_iff [OF assms(2)] by simp_all
    then show ?thesis using R(1) by (subst InverseMod_rec.simps) (simp add: D_def)
  qed
  ultimately show ?thesis using w D(1) by (intro exI [of _ ?r]) simp
qed

text \<open>An operand that is not reduced is first replaced by its remainder.\<close>

lemma InverseMod_reduce:
  assumes "wf x" and "wf m" and "small x" and "small m" and "0 < ival m" and "ival x < 0 \<or> ival m \<le> ival x"
  shows "\<exists>y. wf y \<and> ival y = ival x mod ival m \<and> length (reg y) \<le> length (reg m) \<and> InverseMod_rec x m = InverseMod_rec y m"
proof -
  obtain y where y: "Modulo x m = Inr y" "wf y" "ival y = ival x mod ival m" "length (reg y) \<le> length (reg m)"
    using Modulo_ok [OF assms(1-5)] by blast
  have "NotNegative m" "IsNegative x \<or> Integer_Compare x m \<ge> 0"
    using assms(5,6) ival_sign [OF assms(1)] ival_sign [OF assms(2)] Integer_Compare_ok [OF assms(1,2)] by auto
  then have "InverseMod_rec x m = InverseMod_rec y m" using y(1) by (subst InverseMod_rec.simps) simp
  then show ?thesis using y by blast
qed

lemma InverseMod_odd_any:
  assumes "wf x" and "wf m" and "small x" and "small m" and "0 < ival m" and "odd (ival m)"
    and "0 \<le> ival x \<and> ival x < ival m \<Longrightarrow> length (reg x) \<le> length (reg m)"
  shows "\<exists>r. InverseMod_rec x m = Some (Inr r) \<and> wf r \<and> inverse_ok (ival x) (ival m) (ival r) \<and> length (reg r) = length (reg m)"
proof (cases "0 \<le> ival x \<and> ival x < ival m")
  case True
  then show ?thesis using InverseMod_odd [OF assms(1,2,6)] assms(7) by blast
next
  case False
  then have "ival x < 0 \<or> ival m \<le> ival x" by auto
  from InverseMod_reduce [OF assms(1-5) this] obtain y where y: "wf y" "ival y = ival x mod ival m" "length (reg y) \<le> length (reg m)"
      "InverseMod_rec x m = InverseMod_rec y m" by blast
  have "0 \<le> ival y" "ival y < ival m" unfolding y(2) using assms(5) by simp_all
  from InverseMod_odd [OF y(1) assms(2,6) this y(3)] show ?thesis unfolding y(2,4) inverse_ok_mod .
qed

text \<open>The arithmetic of the even case: from the inverse of the modulus modulo the number.\<close>

lemma inverse_swap:
  assumes "1 < x" and "x < m" and "inverse_ok m x u" and "u \<noteq> 0"
  shows "inverse_ok x m ((m * (x - u) + 1) div x)" and "x dvd m * (x - u) + 1" and "coprime x m"
proof -
  have u: "0 \<le> u" "u < x" "coprime m x" "m * u mod x = 1 mod x" using assms(3,4) by (auto simp: inverse_ok_def)
  show c: "coprime x m" using u(3) by (simp add: coprime_commute)
  have "x dvd m * u - 1" using u(4) by (simp add: mod_eq_dvd_iff)
  from dvd_diff [OF dvd_triv_right this] have "x dvd m * x - (m * u - 1)" .
  moreover have "m * (x - u) + 1 = m * x - (m * u - 1)" by (simp add: algebra_simps)
  ultimately show d: "x dvd m * (x - u) + 1" by (simp only:)
  define q where "q = (m * (x - u) + 1) div x"
  have q: "x * q = m * (x - u) + 1" using d by (simp add: q_def)
  have "x * q mod m = 1 mod m" unfolding q by simp
  moreover have "0 \<le> q" using assms(1,2) u by (simp add: q_def pos_imp_zdiv_nonneg_iff)
  moreover have "q < m"
  proof -
    have "m * 1 \<le> m * u" using assms(1,2,4) u(1) by (intro mult_left_mono) simp_all
    then have "m * x - m * u + 1 < m * x" using assms(1,2) by linarith
    then have "m * (x - u) + 1 < m * x" by (simp only: right_diff_distrib)
    then have "x * q < x * m" unfolding q by (simp only: mult.commute)
    then show ?thesis using assms(1) by simp
  qed
  ultimately show "inverse_ok x m ((m * (x - u) + 1) div x)" using c unfolding q_def [symmetric] by (simp add: inverse_ok_def)
qed

lemma odd_int_cases: "0 \<le> x \<Longrightarrow> odd x \<Longrightarrow> x \<noteq> 1 \<Longrightarrow> 1 < x" for x :: int
  by (cases "x = 0") auto

lemma InverseMod_even:
  assumes "wf x" and "wf m" and "length (reg x) \<le> 2 ^ 24" and "length (reg m) \<le> 2 ^ 24"
    and "even (ival m)" and "0 \<le> ival x" and "ival x < ival m"
  shows "\<exists>r. InverseMod_rec x m = Some (Inr r) \<and> wf r \<and> inverse_ok (ival x) (ival m) (ival r)"
proof -
  have sm: "small x" "small m" using assms(3,4) by (simp_all add: small_def)
  have c: "NotNegative m" "\<not> (IsNegative x \<or> Integer_Compare x m \<ge> 0)" "\<not> IsOdd m" "\<not> IsZero m"
    using assms ival_sign [OF assms(1)] ival_sign [OF assms(2)] Integer_Compare_ok [OF assms(1,2)] IsOdd_iff [OF assms(2)] IsZero_iff [OF assms(2)]
    by simp_all
  have zero: "wf (Integer_copy Integer_Zero)" "ival (Integer_copy Integer_Zero) = 0" using Integer_copy_ok [of Integer_Zero] by simp_all
  consider (even) "even (ival x)" | (one) "ival x = 1" | (odd) "odd (ival x)" "1 < ival x" using odd_int_cases [OF assms(6)] by blast
  then show ?thesis
  proof cases
    case even
    then have "\<not> coprime (ival x) (ival m)" using coprime_common_divisor [of "ival x" "ival m" 2] even assms(5) by auto
    then have "inverse_ok (ival x) (ival m) 0" using assms(6,7) by (simp add: inverse_ok_def)
    moreover have "InverseMod_rec x m = Some (Inr (Integer_copy Integer_Zero))"
      using c even IsOdd_iff [OF assms(1)] by (subst InverseMod_rec.simps) simp
    ultimately show ?thesis using zero by simp
  next
    case one
    have cp: "wf (Integer_copy Integer_One)" "ival (Integer_copy Integer_One) = 1" using Integer_copy_ok [of Integer_One] by simp_all
    have "InverseMod_rec x m = Some (Inr (Integer_copy Integer_One))"
      using c one IsOdd_iff [OF assms(1)] Integer_Compare_ok [OF assms(1), of Integer_One] by (subst InverseMod_rec.simps) simp
    moreover have "inverse_ok (ival x) (ival m) 1" using one assms(7) by (simp add: inverse_ok_def)
    ultimately show ?thesis using cp by simp
  next
    case odd
    have x0: "0 < ival x" using odd(2) by simp
    have "\<not> (0 \<le> ival m \<and> ival m < ival x)" using assms(7) by simp
    from InverseMod_odd_any [OF assms(2,1) sm(2,1) x0 odd(1)] this obtain u where u: "InverseMod_rec m x = Some (Inr u)" "wf u"
        "inverse_ok (ival m) (ival x) (ival u)" "length (reg u) = length (reg x)" by blast
    have su: "small u" using u(4) sm(1) by (simp add: small_def)
    have eq: "InverseMod_rec x m =
        (if IsZero u then Some (Inr (Integer_copy Integer_Zero))
         else case Times False m (Minus x u) of
           Inl e \<Rightarrow> Some (Inl e)
         | Inr p \<Rightarrow> Some (DividedBy (Plus p (Integer_long 1)) x))"
      using c odd IsOdd_iff [OF assms(1)] Integer_Compare_ok [OF assms(1), of Integer_One] u(1) by (subst InverseMod_rec.simps) simp
    show ?thesis
    proof (cases "ival u = 0")
      case True
      have "\<not> coprime (ival x) (ival m)"
      proof
        assume "coprime (ival x) (ival m)"
        then have "ival m * ival u mod ival x = 1 mod ival x" using u(3) by (simp add: inverse_ok_def coprime_commute)
        then show False using True odd(2) by simp
      qed
      then have "inverse_ok (ival x) (ival m) 0" using assms(6,7) by (simp add: inverse_ok_def)
      moreover have "InverseMod_rec x m = Some (Inr (Integer_copy Integer_Zero))" unfolding eq using True IsZero_iff [OF u(2)] by simp
      ultimately show ?thesis using zero by simp
    next
      case False
      note sw = inverse_swap [OF odd(2) assms(7) u(3) False]
      note d = Minus_ok [OF assms(1) u(2) sm(1) su]
      have ld: "length (reg (Minus x u)) \<le> 2 ^ 25" using d(3) u(4) assms(3) by simp
      then have sd: "small (Minus x u)" by (simp add: small_def)
      obtain p where p: "Times False m (Minus x u) = Inr p" "wf p" "ival p = ival m * ival (Minus x u)"
          "length (reg p) = RoundupSize (RoundupSize (WordCount m) + RoundupSize (WordCount (Minus x u)))"
        using Times_ok [OF assms(2) d(1) sm(2) sd, of False] by blast
      have "RoundupSize (WordCount m) \<le> 2 ^ 24" "RoundupSize (WordCount (Minus x u)) \<le> 2 ^ 25"
        using RoundupSize_count(1) [OF assms(2) small_limit [OF sm(2)] WordCount_ok(1) [of m]] assms(4)
          RoundupSize_count(1) [OF d(1) small_limit [OF sd] WordCount_ok(1) [of "Minus x u"]] ld by linarith+
      then have s26: "RoundupSize (WordCount m) + RoundupSize (WordCount (Minus x u)) \<le> 2 ^ 24 + 2 ^ 25" by linarith
      then have "RoundupSize (WordCount m) + RoundupSize (WordCount (Minus x u)) \<le> 2 ^ 32" by simp
      from RoundupSize_bounds(3) [OF this] s26 have lp: "length (reg p) \<le> 2 ^ 27" unfolding p(4) by simp
      then have sp: "small p" by (simp add: small_def)
      have one: "wf (Integer_long 1)" "ival (Integer_long 1) = 1" "small (Integer_long 1)" "length (reg (Integer_long 1)) = 2"
        using Integer_One_ok by (simp_all only: Integer_One_def)
      note s = Plus_ok [OF p(2) one(1) sp one(3)]
      have ss: "small (Plus p (Integer_long 1))" using s(3) lp one(4) by (simp add: small_def)
      have vs: "ival (Plus p (Integer_long 1)) = ival m * (ival x - ival u) + 1" using s(2) p(3) d(2) one(2) by simp
      obtain r q where D: "Integer_Divide (Plus p (Integer_long 1)) x = Inr (r, q)" "wf q"
          "ival (Plus p (Integer_long 1)) = ival q * ival x + ival r" "0 \<le> ival r" "ival r < ival x"
        using Integer_Divide_ok [OF s(1) assms(1) ss sm(1)] x0 by (metis abs_of_pos less_irrefl)
      have "ival q = ival (Plus p (Integer_long 1)) div ival x" using D(3-5) by simp
      then have "inverse_ok (ival x) (ival m) (ival q)" using sw(1) unfolding vs by simp
      moreover have "InverseMod_rec x m = Some (Inr q)"
        unfolding eq using False IsZero_iff [OF u(2)] p(1) D(1) by (simp add: DividedBy_def)
      ultimately show ?thesis using D(2) by blast
    qed
  qed
qed

lemma InverseMod_ok:
  assumes "wf x" and "wf m" and "length (reg x) \<le> 2 ^ 24" and "length (reg m) \<le> 2 ^ 24" and "0 < ival m"
    and "odd (ival m) \<Longrightarrow> 0 \<le> ival x \<Longrightarrow> ival x < ival m \<Longrightarrow> length (reg x) \<le> length (reg m)"
  shows "\<exists>r. InverseMod x m = Some (Inr r) \<and> wf r \<and> inverse_ok (ival x) (ival m) (ival r)"
proof -
  have sm: "small x" "small m" using assms(3,4) by (simp_all add: small_def)
  show ?thesis
  proof (cases "odd (ival m)")
    case True
    then show ?thesis using InverseMod_odd_any [OF assms(1,2) sm assms(5) True] assms(6) unfolding InverseMod_def by blast
  next
    case even: False
    show ?thesis
    proof (cases "0 \<le> ival x \<and> ival x < ival m")
      case True
      then show ?thesis using InverseMod_even [OF assms(1-4)] even unfolding InverseMod_def by blast
    next
      case False
      then have "ival x < 0 \<or> ival m \<le> ival x" by auto
      from InverseMod_reduce [OF assms(1,2) sm assms(5) this] obtain y where y: "wf y" "ival y = ival x mod ival m"
          "length (reg y) \<le> length (reg m)" "InverseMod_rec x m = InverseMod_rec y m" by blast
      have ly: "length (reg y) \<le> 2 ^ 24" using y(3) assms(4) by linarith
      have "0 \<le> ival y" "ival y < ival m" "even (ival m)" unfolding y(2) using assms(5) even by simp_all
      from InverseMod_even [OF y(1) assms(2) ly assms(4) this(3,1,2)] show ?thesis unfolding InverseMod_def y(2,4) inverse_ok_mod .
    qed
  qed
qed

section \<open>The greatest common divisor\<close>

lemma gcd_loop_ok:
  "wf g0 \<Longrightarrow> wf g1 \<Longrightarrow> small g0 \<Longrightarrow> small g1 \<Longrightarrow> 0 \<le> ival g0 \<Longrightarrow> 0 \<le> ival g1 \<Longrightarrow>
   \<exists>r. gcd_loop g0 g1 = Some (Inr r) \<and> wf r \<and> ival r = gcd (ival g0) (ival g1)"
proof (induction "nat (ival g1)" arbitrary: g0 g1 rule: less_induct)
  case less
  show ?case
  proof (cases "ival g1 = 0")
    case True
    then have "gcd_loop g0 g1 = Some (Inr (Integer_copy g0))"
      using Integer_Compare_ok [OF less.prems(2), of Integer_Zero] by (subst gcd_loop.simps) simp
    moreover have "wf (Integer_copy g0)" "ival (Integer_copy g0) = ival g0"
      using Integer_copy_ok [OF less.prems(1) small_limit [OF less.prems(3)]] by simp_all
    ultimately show ?thesis using True less.prems(5) by simp
  next
    case False
    then have pos: "0 < ival g1" using less.prems(6) by simp
    obtain y where y: "Modulo g0 g1 = Inr y" "wf y" "ival y = ival g0 mod ival g1" "length (reg y) \<le> length (reg g1)"
      using Modulo_ok [OF less.prems(1-4) pos] by blast
    have sy: "small y" using y(4) less.prems(4) by (simp add: small_def)
    note c = Integer_copy_ok [OF y(2) small_limit [OF sy]]
    have sc: "small (Integer_copy y)" using c(3) sy by (simp add: small_def)
    have eq: "gcd_loop g0 g1 = gcd_loop g1 (Integer_copy y)"
      using False y(1) Integer_Compare_ok [OF less.prems(2), of Integer_Zero] by (subst gcd_loop.simps) simp
    have "0 \<le> ival (Integer_copy y)" "ival (Integer_copy y) < ival g1" unfolding c(2) y(3) using pos by simp_all
    moreover have "nat (ival (Integer_copy y)) < nat (ival g1)" using calculation by linarith
    ultimately have "\<exists>r. gcd_loop g1 (Integer_copy y) = Some (Inr r) \<and> wf r \<and> ival r = gcd (ival g1) (ival (Integer_copy y))"
      using less.hyps less.prems(2,4,6) c(1) sc by blast
    moreover have "gcd (ival g1) (ival (Integer_copy y)) = gcd (ival g0) (ival g1)" unfolding c(2) y(3) by (rule gcd_red_int [symmetric])
    ultimately show ?thesis unfolding eq by simp
  qed
qed

text \<open>\<open>Integer::Gcd\<close> returns, for numbers that are not negative, and the result is the greatest common
  divisor; no division fails.\<close>

theorem euclid_gcd:
  assumes "wf a" and "wf b" and "small a" and "small b" and "0 \<le> ival a" and "0 \<le> ival b"
  shows "\<exists>r. Integer_Gcd a b = Some (Inr r) \<and> wf r \<and> ival r = gcd (ival a) (ival b)"
proof -
  note c = Integer_copy_ok [OF assms(1) small_limit [OF assms(3)]] and d = Integer_copy_ok [OF assms(2) small_limit [OF assms(4)]]
  have s: "small (Integer_copy a)" "small (Integer_copy b)" using c(3) d(3) assms(3,4) by (simp_all add: small_def)
  have nn: "0 \<le> ival (Integer_copy a)" "0 \<le> ival (Integer_copy b)" using assms(5,6) c(2) d(2) by simp_all
  from gcd_loop_ok [OF d(1) c(1) s(2,1) nn(2,1)] show ?thesis unfolding c(2) d(2) Integer_Gcd_def by (simp only: gcd.commute)
qed

theorem euclid_gcd_witness:
  "\<exists>r. Integer_Gcd \<lparr>reg = [12, 0], sign = POSITIVE\<rparr> \<lparr>reg = [18, 0], sign = POSITIVE\<rparr> = Some (Inr r) \<and> wf r \<and> ival r = 6"
  using euclid_gcd [of "\<lparr>reg = [12, 0], sign = POSITIVE\<rparr>" "\<lparr>reg = [18, 0], sign = POSITIVE\<rparr>"]
  by (simp add: wf_def small_def pow_2 gcd_red_int [of 12 18] gcd_red_int [of 18 12] gcd_red_int [of 12 6])

text \<open>C22: \<open>Integer::InverseMod\<close>, for an odd or an even modulus: the result is the inverse of the number where
  there is one, and 0 where the number and the modulus have a common divisor. The word routine below it
  needs an operand that has no more words than the modulus; a number that is not reduced is reduced first.\<close>

theorem inverse_modulo:
  assumes "wf x" and "wf m" and "length (reg x) \<le> 2 ^ 24" and "length (reg m) \<le> 2 ^ 24" and "0 < ival m"
    and "even (ival m) \<or> ival x < 0 \<or> ival m \<le> ival x \<or> length (reg x) \<le> length (reg m)"
  shows "\<exists>r. InverseMod x m = Some (Inr r) \<and> wf r \<and> 0 \<le> ival r \<and> ival r < ival m \<and>
    (coprime (ival x) (ival m) \<longrightarrow> ival x * ival r mod ival m = 1 mod ival m) \<and>
    (\<not> coprime (ival x) (ival m) \<longrightarrow> ival r = 0)"
proof -
  have "length (reg x) \<le> length (reg m)" if "odd (ival m)" "0 \<le> ival x" "ival x < ival m" using assms(6) that by auto
  from InverseMod_ok [OF assms(1-5) this] show ?thesis unfolding inverse_ok_def by blast
qed

theorem inverse_modulo_witness:
  "\<exists>r. InverseMod \<lparr>reg = [5, 0], sign = NEGATIVE\<rparr> \<lparr>reg = [12, 0], sign = POSITIVE\<rparr> = Some (Inr r) \<and> wf r \<and>
     0 \<le> ival r \<and> ival r < 12 \<and> - 5 * ival r mod 12 = 1"
proof -
  let ?x = "\<lparr>reg = [5, 0], sign = NEGATIVE\<rparr>" and ?m = "\<lparr>reg = [12, 0], sign = POSITIVE\<rparr>"
  have "coprime (5 :: int) 12" 
    by (simp add: coprime_iff_gcd_eq_1 gcd_red_int [of 5 12] gcd_red_int [of 12 5] gcd_red_int [of 5 2])
  then have "coprime (ival ?x) (ival ?m)" by simp
  moreover have "wf ?x" "wf ?m" by (simp_all add: wf_def pow_2)
  ultimately show ?thesis using inverse_modulo [of ?x ?m] by simp
qed

text \<open>The assertion of \<open>AlmostInverse\<close> on the lengths fails for a reduced number that an operation has left
  with more words than the odd modulus: \<open>InverseMod\<close> passes \<open>reg.size()\<close>, not the number of words in use.\<close>

theorem inverse_assertion:
  assumes "wf x" and "wf m" and "odd (ival m)" and "0 \<le> ival x" and "ival x < ival m" and "length (reg m) < length (reg x)"
  shows "InverseMod x m = Some (Inl AssertionFailed)"
proof -
  have "NotNegative m" "\<not> (IsNegative x \<or> Integer_Compare x m \<ge> 0)" "IsOdd m"
    using assms ival_sign [OF assms(1)] ival_sign [OF assms(2)] Integer_Compare_ok [OF assms(1,2)] IsOdd_iff [OF assms(2)] by simp_all
  moreover have "AlmostInverse (reg x) (reg m) = None" using assms(6) by (simp add: AlmostInverse_def Let_def)
  ultimately show ?thesis unfolding InverseMod_def by (subst InverseMod_rec.simps) simp
qed

theorem inverse_assertion_witness:
  "Minus \<lparr>reg = [2, 0, 1, 0], sign = POSITIVE\<rparr> \<lparr>reg = [0, 0, 1, 0], sign = POSITIVE\<rparr> = \<lparr>reg = [2, 0, 0, 0], sign = POSITIVE\<rparr> \<and>
   InverseMod \<lparr>reg = [2, 0, 0, 0], sign = POSITIVE\<rparr> \<lparr>reg = [7, 0], sign = POSITIVE\<rparr> = Some (Inl AssertionFailed)"
proof
  show "Minus \<lparr>reg = [2, 0, 1, 0], sign = POSITIVE\<rparr> \<lparr>reg = [0, 0, 1, 0], sign = POSITIVE\<rparr> = \<lparr>reg = [2, 0, 0, 0], sign = POSITIVE\<rparr>"
    by code_simp
  show "InverseMod \<lparr>reg = [2, 0, 0, 0], sign = POSITIVE\<rparr> \<lparr>reg = [7, 0], sign = POSITIVE\<rparr> = Some (Inl AssertionFailed)"
    by (rule inverse_assertion) (simp_all add: wf_def pow_2 pow_4)
qed

end
