(* ===== verification/Spec2Isabelle.thy ===== *)
theory Spec2Isabelle
  imports C_Prelude Stream_Hash MD4 MD5 SHA1 FST_Pad FST_Enc1 FST_Enc2 FST_Enc20 FST_Enc80
    FST_Cipher FST_Packets FST_Hash WinMX Tiger Tiger_Tree UTF8 OS_File Hash_Stubs Hasher
    HE3 HE3_Bits HE3_Tree HE3_Optimal HE3_Roundtrip
    CPP_DWord CPP_Division CPP_Words CPP_Multiply CPP_Karatsuba CPP_Montgomery CPP_Divide
    CPP_Integer CPP_Quotients CPP_Numbers CPP_Codec CPP_Inverse
begin

text \<open>
  A verification development of the C code of mldonkey, a multi-network file-sharing program.
  The program is written in OCaml; its C code is the part that OCaml calls: the digests that
  identify files and blocks on the networks, the ciphers of some protocols, string and file
  operations, and background jobs. The models are definitions over the machine words of
  \<^verbatim>\<open>HOL-Library.Word\<close>, executable, one group per C file, in the order of the C code.

  Parts and theories (paths under \<^verbatim>\<open>src/src\<close>):
  \<^item> \<open>C_Prelude\<close>: the machine types, arrays as lists (\<open>blit\<close> is \<^verbatim>\<open>memcpy\<close>), byte and word
    views, sequences of statements, and the lemmas on them that all components use.
  \<^item> \<open>Stream_Hash\<close>: padding and block iteration as the digest standards state them, the
    invariant of a buffered context, and the interface \<open>stream_hash\<close> (begin, append, finish)
    with its client lemmas; interpreted by the three digests.
  \<^item> \<open>MD4\<close>, \<open>MD5\<close>, \<open>SHA1\<close>: \<^verbatim>\<open>utils/lib/md4.c\<close>, \<^verbatim>\<open>md5_c.c\<close>, \<^verbatim>\<open>sha1_c.c\<close>. The unrolled rounds
    are the loops of the standards; hashing a message in any pieces gives the standard's digest.
  \<^item> \<open>Tiger\<close>, \<open>Tiger_Tree\<close>: \<^verbatim>\<open>utils/lib/tiger.c\<close>. The two preprocessor branches agree, the
    string digest is the chain over the padded message, the block size is the least that
    covers the string, and the recursive tree is the tree built level by level.
  \<^item> \<open>OS_File\<close>: \<^verbatim>\<open>config/unix/os_stubs_c.c\<close>, a descriptor as bytes, position and the answers
    of the kernel to the coming reads, each a short read or an error. \<open>os_ftruncate\<close> takes the
    answers to its calls; its outcome is stated for every one of them.
  \<^item> \<open>Hash_Stubs\<close>: the macro \<open>ML_HASH\<close> and the tree over a descriptor, \<^verbatim>\<open>utils/lib/stubs_c.c\<close>,
    and the macro \<open>COMPLETE_HASH\<close> of \<^verbatim>\<open>daemon/common/commonHasher_c.c\<close>. Clients of
    \<open>stream_hash\<close>: the loop is verified once, inside the locale.
  \<^item> \<open>Hasher\<close>: the hashing thread of \<^verbatim>\<open>commonHasher_c.c\<close> and its client, the queue of
    \<^verbatim>\<open>commonHasher.ml\<close>, as steps that interleave as the mutex allows: waking up, hashing, writing
    the result and setting \<open>job_done\<close> are steps of their own, the result array may hold anything
    while the thread hashes, and the main thread may use the static buffer of \<^verbatim>\<open>tiger.c\<close>
    meanwhile. What is delivered is the digest, for Tiger when the main thread left the buffer
    alone; a job whose file reads without error is done within four steps of the thread. There
    is no step after a read error in the thread, whose outcome C leaves undefined.
  \<^item> \<open>FST_Pad\<close>, \<open>FST_Enc2\<close>, \<open>FST_Enc20\<close>, \<open>FST_Enc80\<close>: \<^verbatim>\<open>networks/fasttrack/enc_type_*.c\<close>, the
    three large mixers of a 20-word pad. Every function is a list of statements over the pad;
    \<open>FST_Pad\<close> has the statements, and shows that a list of them stays inside the pad.
  \<^item> \<open>FST_Enc1\<close>: \<^verbatim>\<open>enc_type_1.c\<close>, big numbers and a modular power. The product is exact; the
    reduction ends, is the remainder when no borrow is lost, and an input where one is lost.
  \<^item> \<open>FST_Cipher\<close>, \<open>FST_Packets\<close>: \<^verbatim>\<open>fst_crypt.c\<close> and \<^verbatim>\<open>fst_crypt_ml.c\<close>, the FastTrack stream
    cipher, its initialisation from the mixers and MD5, its clock, and the exchange of
    headers. Well-formedness is kept by everything that makes a cipher, decryption undoes
    encryption, and the reader of both headers has the key stream of the writer.
  \<^item> \<open>FST_Hash\<close>: \<^verbatim>\<open>utils/lib/fst_hash.c\<close>, the FastTrack file hash, on MD5.
  \<^item> \<open>WinMX\<close>: \<^verbatim>\<open>networks/opennap/winmx_xor_c.c\<close>, and \<open>UTF8\<close>: the validator of
    \<^verbatim>\<open>utils/lib/charsetstubs.c\<close>.
  \<^item> \<open>HE3\<close>: \<^verbatim>\<open>networks/direct_connect/che3_c.c\<close>, the Huffman coder of Direct Connect file lists;
    \<^verbatim>\<open>malloc\<close> is an argument, a function from sizes to \<^verbatim>\<open>NULL\<close> or a block of bytes. \<open>HE3_Bits\<close> has a
    block as bits, \<open>HE3_Tree\<close> the paths of a tree as a prefix-free code, \<open>HE3_Optimal\<close> that the
    code is optimal and no pattern longer than 44 bits, \<open>HE3_Roundtrip\<close> what the compressor
    leaves in any block and that the decompressor inverts every prefix code in the format.
  \<^item> \<open>CPP_DWord\<close> to \<open>CPP_Divide\<close>: \<^verbatim>\<open>utils/lib/CryptoPP.cc\<close>, the arithmetic of words under the keys of
    eDonkey clients. \<open>CPP_DWord\<close> has the double words and the division templates, \<open>CPP_Division\<close> their
    laws, proved once in the locale \<open>double_word\<close> and interpreted at half words and at words;
    \<open>CPP_Words\<close> the loops over arrays of words, \<open>CPP_Multiply\<close> the unrolled products as lists of
    column instructions, \<open>CPP_Karatsuba\<close> the recursive products, \<open>CPP_Montgomery\<close> inverses and
    reductions modulo an odd number, \<open>CPP_Divide\<close> the division of arrays. An array is a list of
    words, its value \<open>val\<close> a number in base \<open>W = 2 ^ 64\<close>; every result is stated by its value.
  \<^item> \<open>CPP_Integer\<close> to \<open>CPP_Inverse\<close>: the class \<open>Integer\<close> over them, a record of an array and a sign.
    \<open>ival\<close> is the number an object stands for, \<open>wf\<close> the class invariant (an array whose length is
    a power of two from 2 on, no negative zero), \<open>small\<close> a bound of 2 to the 28th words, above
    which the sizes of arrays do not fit an \<^verbatim>\<open>unsigned int\<close>. \<open>CPP_Integer\<close> has the constructors,
    bits, sums, differences and comparisons; \<open>CPP_Quotients\<close> shifts, products and divisions, by
    numbers and by words; \<open>CPP_Numbers\<close> reading and printing, square roots and inverses modulo a
    word; \<open>CPP_Codec\<close> the byte encodings; \<open>CPP_Inverse\<close> the almost inverse, inverses modulo an
    \<open>Integer\<close>, and the greatest common divisor.
    An \<^verbatim>\<open>assert\<close> that fails is \<open>None\<close> or \<open>Inl AssertionFailed\<close> in the definition that has it; the
    theorems show that it does not happen, or (\<open>inverse_assertion\<close>) when it does. The one in
    \<open>PositiveSubtract\<close> is the separate \<open>PositiveSubtract_borrow\<close>, shown to be 0.

  How they interact: \<open>FST_Cipher\<close> and \<open>FST_Hash\<close> call \<open>MD5\<close>; \<open>Hash_Stubs\<close> calls the digests,
  \<open>Tiger_Tree\<close> and \<open>OS_File\<close>; \<open>Hasher\<close> runs \<open>Hash_Stubs\<close> on shared variables.

  Choices. The target is little-endian with a 32-bit \<^verbatim>\<open>int\<close>. Uninitialised local variables
  are arguments of the models, so that the theorems hold whatever the stack contains; static
  variables are threaded. Sizes that C keeps in \<^verbatim>\<open>size_t\<close>, \<^verbatim>\<open>long\<close> or \<^verbatim>\<open>off_t\<close> and that the
  callers bound by the length of a string or file are natural numbers; where the width
  matters (the length counters of the digests, \<open>tiger_block_size\<close>) it is kept. Undefined
  behaviour, a call that never returns and a raised exception are results of their own, never
  a default value. No fuel is used: loops are total by a measure, or \<open>partial_function\<close> with
  a theorem that they return (\<open>tiger_block_size\<close>, \<open>tiger_tree_string\<close>, the correction loops of
  \<open>big_mod\<close> and of \<open>Divide\<close>, the loops of \<open>SquareRoot\<close>, \<open>AlmostInverse\<close> and \<open>Gcd\<close>); \<open>thread_run\<close> counts
  the steps of the hashing thread, four being enough.

  Bounds in the statements: an MD5 piece below 2 to the 28th bytes, since \<open>nbytes << 3\<close> is an
  \<^verbatim>\<open>int\<close>; an MD4 piece below 2 to the 32nd less 64; a SHA-1 piece below 2 to the 32nd; a tree
  of at most 2 to the 62nd bytes, beyond which doubling the block size overflows.

  Not modelled: the rest of the CryptoPP bundle (modular arithmetic and exponentiation on
  \<open>Integer\<close>, ciphers, filters and streams, key formats, random numbers, prime tables) and, in the
  part that is modelled, the branches for assembler and SSE2: the configuration is the portable
  one with 64-bit words and no native double word; wrappers of zlib, gd, libmagic, miniupnpc and
  iconv, whose code is elsewhere; polling, file system statistics, resource limits, locale and
  Windows functions, which are single system calls; the resolver thread of \<^verbatim>\<open>stubs_c.c\<close>, which is
  a call of the resolver between two flags; the step-wise hasher of the configuration without
  threads, which the build does not choose where there are threads; \<^verbatim>\<open>index.c\<close>, which no rule of
  the build names and whose words are copied through a pointer that is never set; the vendored
  bitstring library; the tray icons and the stand-alone tools.
\<close>

end
